(* ===== verification/Regs.thy ===== *)
theory Regs imports Prelude begin

text \<open>
  The register map of \<open>src/config.rs\<close> (module \<open>regs\<close>) for the default build: 16
  digital inputs, 16 digital outputs, 4 analog inputs.  The constants are abbreviations, so that
  address arithmetic is arithmetic on numerals; the tests \<open>in_range\<close> and
  \<open>in_range_incl\<close> are Rust's \<open>(a..b).contains\<close> and \<open>(a..=b).contains\<close>.
\<close>

definition in_range :: "u16 \<Rightarrow> u16 \<Rightarrow> u16 \<Rightarrow> bool" where
  "in_range lo hi a \<longleftrightarrow> lo \<le> a \<and> a < hi"

definition in_range_incl :: "u16 \<Rightarrow> u16 \<Rightarrow> u16 \<Rightarrow> bool" where
  "in_range_incl lo hi a \<longleftrightarrow> lo \<le> a \<and> a \<le> hi"

lemmas range_defs = in_range_def in_range_incl_def

section \<open>Hardware counts\<close>

abbreviation (input) DI_COUNT :: nat where "DI_COUNT \<equiv> 16"
abbreviation (input) DO_COUNT :: nat where "DO_COUNT \<equiv> 16"
abbreviation (input) AI_COUNT :: u16 where "AI_COUNT \<equiv> 4"
abbreviation (input) MODEL_CODE :: u16 where "MODEL_CODE \<equiv> 0x00F3"

section \<open>Coils, inputs and input registers\<close>

abbreviation (input) LEGACY_POINT_WINDOW_COUNT :: u16 where "LEGACY_POINT_WINDOW_COUNT \<equiv> 48"
abbreviation (input) LEGACY_AI_WINDOW_COUNT :: u16 where "LEGACY_AI_WINDOW_COUNT \<equiv> 8"
abbreviation (input) INREG_PC_META_BASE :: u16 where "INREG_PC_META_BASE \<equiv> 0x0800"
abbreviation (input) COIL_DO_BASE :: u16 where "COIL_DO_BASE \<equiv> 0x0200"
abbreviation (input) COIL_DO_END :: u16 where "COIL_DO_END \<equiv> 0x0210"
abbreviation (input) COIL_INTERNAL_START :: u16 where "COIL_INTERNAL_START \<equiv> 0x0400"
abbreviation (input) COIL_INTERNAL_STOP :: u16 where "COIL_INTERNAL_STOP \<equiv> 0x0401"
abbreviation (input) COIL_RESTART :: u16 where "COIL_RESTART \<equiv> 0x0402"
abbreviation (input) COIL_LOGIC_RESTART :: u16 where "COIL_LOGIC_RESTART \<equiv> 0x0403"
abbreviation (input) LEGACY_COIL_BASE :: u16 where "LEGACY_COIL_BASE \<equiv> 0x0200"
abbreviation (input) LEGACY_COIL_END :: u16 where "LEGACY_COIL_END \<equiv> 0x07FF"
abbreviation (input) LEGACY_COIL_COUNT :: nat where "LEGACY_COIL_COUNT \<equiv> 1536"
abbreviation (input) INREG_AI_BASE :: u16 where "INREG_AI_BASE \<equiv> 0x0080"
abbreviation (input) INREG_AI_COUNT :: u16 where "INREG_AI_COUNT \<equiv> AI_COUNT"
abbreviation (input) INREG_AI_STATUS_BASE :: u16 where "INREG_AI_STATUS_BASE \<equiv> 0x0088"
abbreviation (input) INREG_QI_COUNT :: u16 where "INREG_QI_COUNT \<equiv> 0x087C"
abbreviation (input) INREG_ADC485 :: u16 where "INREG_ADC485 \<equiv> 0x087D"
abbreviation (input) INREG_FW_VER :: u16 where "INREG_FW_VER \<equiv> 0x087E"
abbreviation (input) INREG_FW_DATE :: u16 where "INREG_FW_DATE \<equiv> 0x087F"
abbreviation (input) INREG_LEGACY_END :: u16 where "INREG_LEGACY_END \<equiv> 0x087F"
abbreviation (input) INREG_RECOV_RECOVERABLE :: u16 where "INREG_RECOV_RECOVERABLE \<equiv> 0x0880"
abbreviation (input) INREG_RECOV_DEGRADABLE :: u16 where "INREG_RECOV_DEGRADABLE \<equiv> 0x0881"
abbreviation (input) INREG_RECOV_SEVERE :: u16 where "INREG_RECOV_SEVERE \<equiv> 0x0882"
abbreviation (input) INREG_RECOV_MODE :: u16 where "INREG_RECOV_MODE \<equiv> 0x0883"
abbreviation (input) INREG_RECOV_BLE_DROPS :: u16 where "INREG_RECOV_BLE_DROPS \<equiv> 0x0884"
abbreviation (input) INREG_RINGLOG_COUNT :: u16 where "INREG_RINGLOG_COUNT \<equiv> 0x0885"
abbreviation (input) INREG_RINGLOG_WRITES :: u16 where "INREG_RINGLOG_WRITES \<equiv> 0x0886"
abbreviation (input) INREG_RINGLOG_BASE :: u16 where "INREG_RINGLOG_BASE \<equiv> 0x0887"
abbreviation (input) INREG_HW_VER :: u16 where "INREG_HW_VER \<equiv> 0x08A5"
abbreviation (input) INREG_IP_BASE :: u16 where "INREG_IP_BASE \<equiv> 0x08C7"
abbreviation (input) INREG_MAC_BASE :: u16 where "INREG_MAC_BASE \<equiv> 0x08D7"
abbreviation (input) INREG_BLE_ID_BASE :: u16 where "INREG_BLE_ID_BASE \<equiv> 0x08E2"
abbreviation (input) INREG_SWITCH_STATUS_BASE :: u16 where "INREG_SWITCH_STATUS_BASE \<equiv> 0x0090"
abbreviation (input) INREG_SWITCH_STATUS_END :: u16 where "INREG_SWITCH_STATUS_END \<equiv> 0x0100"
abbreviation (input) INREG_MULTICAST_IP1_2 :: u16 where "INREG_MULTICAST_IP1_2 \<equiv> 2190"
abbreviation (input) INREG_SWITCH_IP3_4 :: u16 where "INREG_SWITCH_IP3_4 \<equiv> 2194"

section \<open>Holding registers\<close>

abbreviation (input) HOLD_CFG_BASE :: u16 where "HOLD_CFG_BASE \<equiv> 0x0880"
abbreviation (input) HOLD_485_1_COMERR :: u16 where "HOLD_485_1_COMERR \<equiv> 0x0880"
abbreviation (input) HOLD_485_1_APPERR :: u16 where "HOLD_485_1_APPERR \<equiv> 0x0881"
abbreviation (input) HOLD_485_2_COMERR :: u16 where "HOLD_485_2_COMERR \<equiv> 0x0882"
abbreviation (input) HOLD_485_2_APPERR :: u16 where "HOLD_485_2_APPERR \<equiv> 0x0883"
abbreviation (input) HOLD_485_3_COMERR :: u16 where "HOLD_485_3_COMERR \<equiv> 0x0884"
abbreviation (input) HOLD_485_3_APPERR :: u16 where "HOLD_485_3_APPERR \<equiv> 0x0885"
abbreviation (input) HOLD_SN_BASE :: u16 where "HOLD_SN_BASE \<equiv> 2196"
abbreviation (input) HOLD_SN_COUNT :: u16 where "HOLD_SN_COUNT \<equiv> 9"
abbreviation (input) HOLD_PLACE_BASE :: u16 where "HOLD_PLACE_BASE \<equiv> 2205"
abbreviation (input) HOLD_PLACE_COUNT :: u16 where "HOLD_PLACE_COUNT \<equiv> 8"
abbreviation (input) HOLD_HW_VER :: u16 where "HOLD_HW_VER \<equiv> 2213"
abbreviation (input) HOLD_RS485_BASE :: u16 where "HOLD_RS485_BASE \<equiv> 2214"
abbreviation (input) HOLD_RS485_STRIDE :: u16 where "HOLD_RS485_STRIDE \<equiv> 5"
abbreviation (input) HOLD_TCP_COM_BASE :: u16 where "HOLD_TCP_COM_BASE \<equiv> 2243"
abbreviation (input) HOLD_TCP_COM_COUNT :: u16 where "HOLD_TCP_COM_COUNT \<equiv> 4"
abbreviation (input) HOLD_IP_BASE :: u16 where "HOLD_IP_BASE \<equiv> 2247"
abbreviation (input) HOLD_MASK_BASE :: u16 where "HOLD_MASK_BASE \<equiv> 2251"
abbreviation (input) HOLD_GW_BASE :: u16 where "HOLD_GW_BASE \<equiv> 2255"
abbreviation (input) HOLD_DNS_BASE :: u16 where "HOLD_DNS_BASE \<equiv> 2259"
abbreviation (input) HOLD_MAC_BASE :: u16 where "HOLD_MAC_BASE \<equiv> 2263"
abbreviation (input) HOLD_BLE_ADDR_BASE :: u16 where "HOLD_BLE_ADDR_BASE \<equiv> 2274"
abbreviation (input) HOLD_BLE_ADDR_COUNT :: u16 where "HOLD_BLE_ADDR_COUNT \<equiv> 4"
abbreviation (input) HOLD_DEVICE_CONFIG :: u16 where "HOLD_DEVICE_CONFIG \<equiv> 2300"
abbreviation (input) HOLD_USER_BASE :: u16 where "HOLD_USER_BASE \<equiv> 4000"
abbreviation (input) HOLD_USER_COUNT :: u16 where "HOLD_USER_COUNT \<equiv> 224"
abbreviation (input) HOLD_PROTECT_WORD :: u16 where "HOLD_PROTECT_WORD \<equiv> 4222"
abbreviation (input) HOLD_CFG_END :: u16 where "HOLD_CFG_END \<equiv> 4223"
abbreviation (input) HOLD_PXX_BASE :: u16 where "HOLD_PXX_BASE \<equiv> HOLD_CFG_BASE"
abbreviation (input) HOLD_PXX_COUNT :: nat where "HOLD_PXX_COUNT \<equiv> 2048"
abbreviation (input) DEVICE_TEXT_BASE :: u16 where "DEVICE_TEXT_BASE \<equiv> 5000"
abbreviation (input) DEVICE_TEXT_END :: u16 where "DEVICE_TEXT_END \<equiv> 6999"
abbreviation (input) PROTO_BASE :: u16 where "PROTO_BASE \<equiv> 0x4000"
abbreviation (input) PROTO_END :: u16 where "PROTO_END \<equiv> 0x45DC"
abbreviation (input) PROTO_COMMIT :: u16 where "PROTO_COMMIT \<equiv> PROTO_END"
abbreviation (input) PROTO_RELOAD :: u16 where "PROTO_RELOAD \<equiv> 0x45DD"
abbreviation (input) PROTO_VERSION :: u16 where "PROTO_VERSION \<equiv> 0x45DE"
abbreviation (input) PROTO_LENGTH :: u16 where "PROTO_LENGTH \<equiv> 0x45DF"
abbreviation (input) PROTO_STATUS :: u16 where "PROTO_STATUS \<equiv> 0x45E0"
abbreviation (input) PROTO_MAGIC :: u16 where "PROTO_MAGIC \<equiv> 0x45E1"
abbreviation (input) CFG_FW_VER :: u16 where "CFG_FW_VER \<equiv> INREG_FW_VER"
abbreviation (input) CFG_CFG_VER :: u16 where "CFG_CFG_VER \<equiv> 0xFF00"
abbreviation (input) CFG_APPLY :: u16 where "CFG_APPLY \<equiv> 0xFF01"
abbreviation (input) CFG_RESET_DEFAULT :: u16 where "CFG_RESET_DEFAULT \<equiv> 0xFF02"
abbreviation (input) CFG_DHCP :: u16 where "CFG_DHCP \<equiv> 0xFF03"
abbreviation (input) MONITOR_PLC_BASE :: u16 where "MONITOR_PLC_BASE \<equiv> 0x7531"
abbreviation (input) MONITOR_PLC_END :: u16 where "MONITOR_PLC_END \<equiv> 0x75B0"
abbreviation (input) CONTROL_PLC_BASE :: u16 where "CONTROL_PLC_BASE \<equiv> 0x9C41"
abbreviation (input) CONTROL_PLC_END :: u16 where "CONTROL_PLC_END \<equiv> 0x9D6C"
abbreviation (input) MONITOR_WORD_COUNT :: u16 where "MONITOR_WORD_COUNT \<equiv> 128"
abbreviation (input) CONTROL_WORD_COUNT :: u16 where "CONTROL_WORD_COUNT \<equiv> 300"

abbreviation (input) TCP_PORTS_DEFAULT :: "u16 list" where "TCP_PORTS_DEFAULT \<equiv> [502, 503, 504, 5002]"

text \<open>The distance of two addresses, and case splits on a small distance.\<close>

lemma unat_diff: "b \<le> a \<Longrightarrow> unat (a - b) = unat a - unat b" for a b :: u16
  by (simp add: unat_sub)

lemma in_range_offset:
  "in_range lo hi a \<Longrightarrow> unat (a - lo) < unat hi - unat lo"
  by (auto simp: in_range_def unat_diff word_le_nat_alt word_less_nat_alt)

lemma in_range_incl_offset:
  "in_range_incl lo hi a \<Longrightarrow> unat (a - lo) \<le> unat hi - unat lo"
  by (auto simp: in_range_incl_def unat_diff word_le_nat_alt)

end
