(* ===== verification/Modbus_Crc.thy ===== *)
theory Modbus_Crc imports Prelude begin

text \<open>
  The CRC-16 of \<open>src/modbus/shared.rs\<close>: the table built at compile time
  (\<open>build_crc16_table\<close>) and the table-driven checksum (\<open>modbus_crc16\<close>).  The lemmas
  show that it is the bitwise CRC-16/MODBUS, that a frame followed by its CRC (low byte first)
  has residue zero, and that the checksum is injective in any single byte.
\<close>

section \<open>Definitions\<close>

definition crc16_poly :: u16 where
  "crc16_poly = 0xA001"

text \<open>One pass of the inner \<open>while bit < 8\<close> loop.\<close>

definition crc16_bit_step :: "u16 \<Rightarrow> u16" where
  "crc16_bit_step crc =
     (if crc AND 1 \<noteq> 0 then drop_bit 1 crc XOR crc16_poly else drop_bit 1 crc)"

fun crc16_bit_loop :: "nat \<Rightarrow> u16 \<Rightarrow> u16" where
  "crc16_bit_loop 0 crc = crc"
| "crc16_bit_loop (Suc n) crc = crc16_bit_loop n (crc16_bit_step crc)"

definition build_crc16_table :: "u16 list" where
  "build_crc16_table = map (\<lambda>byte. crc16_bit_loop 8 (of_nat byte)) [0..<256]"

definition crc16_table_step :: "u16 \<Rightarrow> u8 \<Rightarrow> u16" where
  "crc16_table_step crc byte =
     drop_bit 8 crc XOR build_crc16_table ! unat (lo8 crc XOR byte)"

definition modbus_crc16 :: "u8 list \<Rightarrow> u16" where
  "modbus_crc16 data = foldl crc16_table_step 0xFFFF data"

section \<open>The bitwise reference\<close>

definition crc16_byte :: "u16 \<Rightarrow> u8 \<Rightarrow> u16" where
  "crc16_byte crc byte = crc16_bit_loop 8 (crc XOR ucast byte)"

definition crc16_reference :: "u8 list \<Rightarrow> u16" where
  "crc16_reference data = foldl crc16_byte 0xFFFF data"

lemma crc16_bit_step_alt:
  "crc16_bit_step w = (if bit w 0 then drop_bit 1 w XOR crc16_poly else drop_bit 1 w)"
proof -
  have "w AND 1 = (if bit w 0 then 1 else 0)"
    by (rule bit_word_eqI) (auto simp: bit_simps intro!: gr0I)
  then show ?thesis by (simp add: crc16_bit_step_def)
qed

lemma crc16_bit_step_xor:
  "crc16_bit_step (a XOR b) = crc16_bit_step a XOR crc16_bit_step b"
  by (rule bit_word_eqI) (auto simp: crc16_bit_step_alt bit_simps)

lemma crc16_bit_loop_xor:
  "crc16_bit_loop n (a XOR b) = crc16_bit_loop n a XOR crc16_bit_loop n b"
  by (induction n arbitrary: a b) (simp_all add: crc16_bit_step_xor)

lemma crc16_bit_loop_shift:
  "(\<And>i. i < n \<Longrightarrow> \<not> bit w i) \<Longrightarrow> crc16_bit_loop n w = drop_bit n w"
proof (induction n arbitrary: w)
  case 0
  then show ?case by simp
next
  case (Suc n)
  then have "crc16_bit_step w = drop_bit 1 w" by (simp add: crc16_bit_step_alt)
  moreover have "crc16_bit_loop n (drop_bit 1 w) = drop_bit n (drop_bit 1 w)"
    by (rule Suc.IH) (use Suc.prems in \<open>auto simp: bit_simps\<close>)
  ultimately show ?case by (simp add: drop_bit_drop_bit)
qed

lemma build_crc16_table_nth:
  "build_crc16_table ! unat (b :: u8) = crc16_bit_loop 8 (ucast b)"
  by (simp add: build_crc16_table_def unat_u8_less)

text \<open>
  The table step splits the accumulator into its high byte, which the eight shifts only move
  down, and its low byte xor the data byte, which is the table index.
\<close>

lemma crc16_table_step_eq: "crc16_table_step crc byte = crc16_byte crc byte"
proof -
  define hi where "hi = push_bit 8 (drop_bit 8 crc)"
  define lo where "lo = (ucast (lo8 crc XOR byte) :: u16)"
  have split: "crc XOR ucast byte = hi XOR lo"
    by (rule bit_word_eqI) (auto simp: hi_def lo_def lo8_def bit_simps dest: bit_imp_le_length)
  have "crc16_bit_loop 8 hi = drop_bit 8 hi"
    by (rule crc16_bit_loop_shift) (auto simp: hi_def bit_simps)
  also have "\<dots> = drop_bit 8 crc"
    by (rule bit_word_eqI) (auto simp: hi_def bit_simps dest: bit_imp_le_length)
  finally have hi: "crc16_bit_loop 8 hi = drop_bit 8 crc" .
  have "crc16_byte crc byte = drop_bit 8 crc XOR crc16_bit_loop 8 lo"
    by (simp add: crc16_byte_def split crc16_bit_loop_xor hi)
  then show ?thesis
    by (simp add: crc16_table_step_def build_crc16_table_nth lo_def)
qed

lemma modbus_crc16_eq_reference: "modbus_crc16 data = crc16_reference data"
proof -
  have "crc16_table_step = crc16_byte"
    by (rule ext, rule ext) (rule crc16_table_step_eq)
  then show ?thesis by (simp add: modbus_crc16_def crc16_reference_def)
qed

section \<open>Injectivity and residue\<close>

lemma xor_right_cancel: "a XOR c = b XOR c \<Longrightarrow> a = b" for a b c :: "'a::len word"
  by (metis xor.assoc xor_self_eq xor.right_neutral)

lemma crc16_poly_bit_15: "bit crc16_poly 15"
  by (simp add: crc16_poly_def)

lemma crc16_bit_step_inj: "crc16_bit_step a = crc16_bit_step b \<Longrightarrow> a = b"
proof -
  assume eq: "crc16_bit_step a = crc16_bit_step b"
  have top: "bit (crc16_bit_step w) 15 = bit w 0" for w
    by (auto simp: crc16_bit_step_alt bit_simps crc16_poly_bit_15 dest: bit_imp_le_length)
  from eq have low: "bit a 0 = bit b 0" by (metis top)
  with eq have "drop_bit 1 a = drop_bit 1 b"
    by (auto simp: crc16_bit_step_alt dest: xor_right_cancel split: if_splits)
  then have high: "bit a (Suc n) = bit b (Suc n)" for n
    by (metis bit_drop_bit_eq plus_1_eq_Suc comp_apply)
  show "a = b"
  proof (rule bit_word_eqI)
    fix n show "bit a n = bit b n" by (cases n) (simp_all add: low high)
  qed
qed

lemma crc16_bit_loop_inj: "crc16_bit_loop n a = crc16_bit_loop n b \<Longrightarrow> a = b"
  by (induction n arbitrary: a b) (auto dest: crc16_bit_step_inj)

lemma crc16_byte_inj_crc: "crc16_byte a x = crc16_byte b x \<Longrightarrow> a = b"
  by (auto simp: crc16_byte_def dest!: crc16_bit_loop_inj intro: xor_right_cancel)

lemma crc16_byte_inj_byte: "crc16_byte a x = crc16_byte a y \<Longrightarrow> x = y"
proof -
  assume "crc16_byte a x = crc16_byte a y"
  then have "a XOR ucast x = a XOR ucast y"
    by (simp add: crc16_byte_def) (erule crc16_bit_loop_inj)
  then have eq: "ucast x = (ucast y :: u16)"
    by (metis xor.commute xor_right_cancel)
  show "x = y"
  proof (rule bit_word_eqI)
    fix n :: nat assume "n < LENGTH(8)"
    then show "bit x n = bit y n"
      using arg_cong [OF eq, of "\<lambda>w. bit w n"] by (simp add: bit_simps)
  qed
qed

lemma foldl_crc16_byte_inj: "foldl crc16_byte a xs = foldl crc16_byte b xs \<Longrightarrow> a = b"
  by (induction xs arbitrary: a b) (auto dest: crc16_byte_inj_crc)

lemma crc16_append_own: "foldl crc16_byte c [lo8 c, hi8 c] = 0"
proof -
  have "crc16_byte c (lo8 c) = crc16_bit_loop 8 (push_bit 8 (ucast (hi8 c)))"
  proof -
    have "c XOR ucast (lo8 c) = push_bit 8 (ucast (hi8 c))"
      by (rule bit_word_eqI)
        (auto simp: lo8_def hi8_def bit_simps dest: bit_imp_le_length)
    then show ?thesis by (simp add: crc16_byte_def)
  qed
  also have "\<dots> = drop_bit 8 (push_bit 8 (ucast (hi8 c)))"
    by (rule crc16_bit_loop_shift) (auto simp: bit_simps)
  also have "\<dots> = ucast (hi8 c)"
    by (rule bit_word_eqI) (auto simp: bit_simps dest: bit_imp_le_length)
  finally have "crc16_byte c (lo8 c) = ucast (hi8 c)" .
  moreover have "crc16_bit_loop n 0 = 0" for n
    by (induction n) (simp_all add: crc16_bit_step_alt)
  ultimately show ?thesis by (simp add: crc16_byte_def)
qed

lemma modbus_crc16_append:
  "modbus_crc16 (xs @ ys) = foldl crc16_byte (modbus_crc16 xs) ys"
  by (simp add: modbus_crc16_eq_reference crc16_reference_def)

lemma modbus_crc16_residue: "modbus_crc16 (xs @ le_bytes (modbus_crc16 xs)) = 0"
  by (simp add: modbus_crc16_append le_bytes_def crc16_append_own [simplified])

lemma modbus_crc16_single_byte:
  "x \<noteq> y \<Longrightarrow> modbus_crc16 (xs @ [x] @ ys) \<noteq> modbus_crc16 (xs @ [y] @ ys)"
  by (auto simp: modbus_crc16_append dest!: foldl_crc16_byte_inj crc16_byte_inj_byte)

section \<open>Correctness\<close>

text \<open>The table-driven checksum is the bit-by-bit CRC-16 of the reflected polynomial
  \<open>0xA001\<close> with initial value \<open>0xFFFF\<close>, for every message.\<close>

theorem modbus_crc16_is_reference: "modbus_crc16 xs = crc16_reference xs"
  by (rule modbus_crc16_eq_reference)

text \<open>The checksum sees every corruption of a single byte, wherever it is in the frame, and
  every corruption of the checksum's own two bytes leaves a nonzero residue.\<close>

theorem modbus_crc16_detects:
  assumes "x \<noteq> y"
  shows "modbus_crc16 (xs @ [x] @ ys) \<noteq> modbus_crc16 (xs @ [y] @ ys) \<and>
    modbus_crc16 (xs @ le_bytes (modbus_crc16 xs)) = 0"
  using modbus_crc16_single_byte [OF assms] modbus_crc16_residue by simp

theorem modbus_crc16_detects_witness:
  "modbus_crc16 [1, 3, 0] \<noteq> modbus_crc16 [1, 4, 0]"
  using modbus_crc16_detects [of 3 4 "[1]" "[0]"] by simp

end
