(* ===== verification/Modbus_Server.thy ===== *)
theory Modbus_Server imports Modbus_Pdu begin

text \<open>
  The abstract Modbus server: requests as data, the values a register map shows, and the
  response to a request.  The locale \<open>backend_laws\<close> is the contract of the trait
  \<open>ModbusBackend\<close> (\<open>src/modbus/shared.rs\<close>): what the encoders return when every
  address of the range can be read, and that writes keep the provider's invariant.  Inside it,
  \<open>handle_pdu\<close> is shown to implement the abstract server on every function code, with
  responses that fit a PDU.
\<close>

section \<open>Packed bits\<close>

definition packed_bit :: "u8 list \<Rightarrow> nat \<Rightarrow> bool" where
  "packed_bit out j = bit (out ! (j div 8)) (j mod 8)"

definition pack_bits :: "bool list \<Rightarrow> u8 list" where
  "pack_bits bs =
     map (\<lambda>k. horner_sum of_bool 2 (take 8 (drop (8 * k) bs))) [0..<div_ceil (length bs) 8]"

lemma length_pack_bits [simp]: "length (pack_bits bs) = div_ceil (length bs) 8"
  by (simp add: pack_bits_def)

lemma packed_bit_pack_bits:
  "j < 8 * div_ceil (length bs) 8 \<Longrightarrow> packed_bit (pack_bits bs) j = (j < length bs \<and> bs ! j)"
proof -
  assume j: "j < 8 * div_ceil (length bs) 8"
  then have k: "j div 8 < div_ceil (length bs) 8" by (simp add: less_mult_imp_div_less mult.commute)
  have eq: "8 * (j div 8) + j mod 8 = j" by simp
  have "packed_bit (pack_bits bs) j =
      (j mod 8 < length (drop (8 * (j div 8)) bs) \<and> bs ! (8 * (j div 8) + j mod 8))"
    using k by (auto simp: packed_bit_def pack_bits_def bit_horner_sum_bit_iff)
  then show ?thesis using eq by (auto simp: less_diff_conv add.commute)
qed

lemma packed_bits_eqI:
  assumes "length xs = length ys" and "\<And>j. j < 8 * length xs \<Longrightarrow> packed_bit xs j = packed_bit ys j"
  shows "xs = ys"
proof (rule nth_equalityI)
  show "length xs = length ys" by (rule assms(1))
  fix k assume k: "k < length xs"
  show "xs ! k = ys ! k"
  proof (rule bit_word_eqI)
    fix n :: nat assume "n < LENGTH(8)"
    then show "bit (xs ! k) n = bit (ys ! k) n"
      using assms(2) [of "8 * k + n"] k by (simp add: packed_bit_def)
  qed
qed

lemma length_set_packed_bit [simp]: "length (set_packed_bit out i) = length out"
  by (simp add: set_packed_bit_def)

lemma packed_bit_set_packed_bit:
  assumes "i div 8 < length out"
  shows "packed_bit (set_packed_bit out i) j = (j = i \<or> packed_bit out j)"
proof -
  have j: "j = i \<longleftrightarrow> j div 8 = i div 8 \<and> j mod 8 = i mod 8"
    by (metis div_mult_mod_eq)
  have m: "j mod 8 < 8" by simp
  show ?thesis
  proof (cases "j div 8 = i div 8")
    case True
    have "packed_bit (set_packed_bit out i) j =
        bit (out ! (i div 8) OR push_bit (i mod 8) 1) (j mod 8)"
      using assms True by (simp add: packed_bit_def set_packed_bit_def)
    also have "\<dots> = (bit (out ! (i div 8)) (j mod 8) \<or> j mod 8 = i mod 8)"
      using m by (auto simp: bit_or_iff bit_exp_iff)
    finally show ?thesis using True j by (auto simp: packed_bit_def)
  next
    case False
    then show ?thesis using j by (simp add: packed_bit_def set_packed_bit_def)
  qed
qed

lemma encode_bits_loop_Some:
  assumes "those (map (\<lambda>i. rd (addr + of_nat i)) offs) = Some bs"
    and "\<And>i. i \<in> set offs \<Longrightarrow> i div 8 < length out"
  shows "\<exists>out'. encode_bits_loop rd addr offs out = (True, out') \<and> length out' = length out \<and>
    (\<forall>j. packed_bit out' j = (packed_bit out j \<or> (\<exists>k < length offs. offs ! k = j \<and> bs ! k)))"
  using assms
proof (induction offs arbitrary: out bs)
  case Nil
  then show ?case by simp
next
  case (Cons i offs)
  from Cons.prems(1) obtain v bs' where v: "rd (addr + of_nat i) = Some v" and bs: "bs = v # bs'"
    and rest: "those (map (\<lambda>i. rd (addr + of_nat i)) offs) = Some bs'"
    by (auto split: option.splits)
  define out1 where "out1 = (if v then set_packed_bit out i else out)"
  have len: "length out1 = length out" by (simp add: out1_def)
  from Cons.IH [OF rest, of out1] Cons.prems(2) obtain out' where
    step: "encode_bits_loop rd addr offs out1 = (True, out')" and len': "length out' = length out1"
    and bits: "\<And>j. packed_bit out' j =
      (packed_bit out1 j \<or> (\<exists>k < length offs. offs ! k = j \<and> bs' ! k))"
    by (auto simp: len)
  have "packed_bit out1 j = (packed_bit out j \<or> (j = i \<and> v))" for j
    using Cons.prems(2) [of i] by (auto simp: out1_def packed_bit_set_packed_bit)
  moreover have "(\<exists>k < length (i # offs). (i # offs) ! k = j \<and> bs ! k) \<longleftrightarrow>
      (i = j \<and> v) \<or> (\<exists>k < length offs. offs ! k = j \<and> bs' ! k)" for j
    by (auto simp: bs less_Suc_eq_0_disj)
  ultimately show ?case
    using step len len' bits by (auto simp: v out1_def)
qed

lemma encode_bits_loop_None:
  assumes "those (map (\<lambda>i. rd (addr + of_nat i)) offs) = None"
  shows "\<exists>out'. encode_bits_loop rd addr offs out = (False, out') \<and> length out' = length out"
  using assms
proof (induction offs arbitrary: out)
  case Nil
  then show ?case by simp
next
  case (Cons i offs)
  show ?case
  proof (cases "rd (addr + of_nat i)")
    case (Some v)
    with Cons have "\<exists>out'. encode_bits_loop rd addr offs (if v then set_packed_bit out i else out) =
        (False, out') \<and> length out' = length (if v then set_packed_bit out i else out)"
      by (intro Cons.IH) (auto split: option.splits)
    with Some show ?thesis by auto
  qed simp
qed

lemma those_length: "those xs = Some ys \<Longrightarrow> length ys = length xs"
  by (induction xs arbitrary: ys) (auto split: option.splits)

definition addr_range :: "u16 \<Rightarrow> nat \<Rightarrow> u16 list" where
  "addr_range addr n = map (\<lambda>i. addr + of_nat i) [0..<n]"

lemma encode_bits_loop_pack_bits:
  assumes "those (map rd (addr_range addr n)) = Some bs"
  shows "encode_bits_loop rd addr [0..<n] (replicate (div_ceil n 8) 0) = (True, pack_bits bs)"
proof -
  have those: "those (map (\<lambda>i. rd (addr + of_nat i)) [0..<n]) = Some bs"
    using assms by (simp add: addr_range_def comp_def)
  then have len: "length bs = n" by (auto dest: those_length)
  from encode_bits_loop_Some [OF those, of "replicate (div_ceil n 8) 0"] obtain out' where
    out': "encode_bits_loop rd addr [0..<n] (replicate (div_ceil n 8) 0) = (True, out')"
    and lo: "length out' = div_ceil n 8"
    and bits: "\<And>j. packed_bit out' j = (packed_bit (replicate (div_ceil n 8) 0) j \<or>
      (\<exists>k < n. [0..<n] ! k = j \<and> bs ! k))"
    by (auto simp: lt_div_ceil_8)
  have "out' = pack_bits bs"
  proof (rule packed_bits_eqI)
    show "length out' = length (pack_bits bs)" by (simp add: lo len)
    fix j assume j: "j < 8 * length out'"
    then have "j div 8 < div_ceil n 8" by (simp add: lo less_mult_imp_div_less mult.commute)
    then have "\<not> packed_bit (replicate (div_ceil n 8) 0) j" by (simp add: packed_bit_def)
    then show "packed_bit out' j = packed_bit (pack_bits bs) j"
      using j by (auto simp: bits packed_bit_pack_bits len lo)
  qed
  with out' show ?thesis by simp
qed

section \<open>Requests and the abstract server\<close>

datatype request =
    ReadBits bool u16 u16
  | ReadHolding u16 u16
  | ReadInput u16 u16
  | WriteCoil u16 bool
  | WriteReg u16 u16
  | WriteCoils u16 u16 "u8 list"
  | WriteRegs u16 "u16 list"

definition parse_read :: "nat \<Rightarrow> (u16 \<Rightarrow> u16 \<Rightarrow> request) \<Rightarrow> u8 list \<Rightarrow> u8 + request" where
  "parse_read limit mk pdu =
     (if length pdu \<noteq> 4 then Inl ILLEGAL_DATA_VALUE
      else let addr = be16 (pdu ! 0) (pdu ! 1); count = be16 (pdu ! 2) (pdu ! 3) in
        if count = 0 \<or> unat count > limit then Inl ILLEGAL_DATA_VALUE
        else if unat addr + unat count > 65536 then Inl ILLEGAL_DATA_ADDRESS
        else Inr (mk addr count))"

definition pdu_request :: "u8 \<Rightarrow> u8 list \<Rightarrow> u8 + request" where
  "pdu_request func pdu =
     (if func = 0x01 then parse_read 2000 (ReadBits False) pdu
      else if func = 0x02 then parse_read 2000 (ReadBits True) pdu
      else if func = 0x03 then parse_read 125 ReadHolding pdu
      else if func = 0x04 then parse_read 125 ReadInput pdu
      else if func = 0x05 then
        (if length pdu \<noteq> 4 then Inl ILLEGAL_DATA_VALUE
         else if be16 (pdu ! 2) (pdu ! 3) = 0xFF00
           then Inr (WriteCoil (be16 (pdu ! 0) (pdu ! 1)) True)
         else if be16 (pdu ! 2) (pdu ! 3) = 0
           then Inr (WriteCoil (be16 (pdu ! 0) (pdu ! 1)) False)
         else Inl ILLEGAL_DATA_VALUE)
      else if func = 0x06 then
        (if length pdu \<noteq> 4 then Inl ILLEGAL_DATA_VALUE
         else Inr (WriteReg (be16 (pdu ! 0) (pdu ! 1)) (be16 (pdu ! 2) (pdu ! 3))))
      else if func = 0x0F then
        (if length pdu < 5 then Inl SLAVE_DEVICE_FAILURE
         else let n = unat (be16 (pdu ! 2) (pdu ! 3)) in
           if 0 < n \<and> n \<le> 2000 \<and> unat (pdu ! 4) = div_ceil n 8 \<and> length pdu = 5 + div_ceil n 8
           then Inr (WriteCoils (be16 (pdu ! 0) (pdu ! 1)) (of_nat n) (drop 5 pdu))
           else Inl ILLEGAL_DATA_VALUE)
      else if func = 0x10 then
        (if length pdu < 5 then Inl SLAVE_DEVICE_FAILURE
         else let n = unat (be16 (pdu ! 2) (pdu ! 3)) in
           if 0 < n \<and> n \<le> 123 \<and> unat (pdu ! 4) = 2 * n \<and> length pdu = 5 + 2 * n
           then Inr (WriteRegs (be16 (pdu ! 0) (pdu ! 1)) (pdu_words pdu n))
           else Inl ILLEGAL_DATA_VALUE)
      else Inl ILLEGAL_FUNCTION)"

text \<open>What a register map shows at an address, in each of the four Modbus tables.\<close>

record 's reg_view =
  rv_coil :: "'s \<Rightarrow> u16 \<Rightarrow> bool option"
  rv_disc :: "'s \<Rightarrow> u16 \<Rightarrow> bool option"
  rv_hold :: "'s \<Rightarrow> u16 \<Rightarrow> u16 option"
  rv_input :: "'s \<Rightarrow> u16 \<Rightarrow> u16 option"

definition bits_body :: "bool list option \<Rightarrow> u8 + u8 list" where
  "bits_body r = (case r of None \<Rightarrow> Inl ILLEGAL_DATA_ADDRESS
     | Some bs \<Rightarrow> Inr (of_nat (length (pack_bits bs)) # pack_bits bs))"

definition regs_body :: "u16 list option \<Rightarrow> u8 + u8 list" where
  "regs_body r = (case r of None \<Rightarrow> Inl ILLEGAL_DATA_ADDRESS
     | Some ws \<Rightarrow> Inr (of_nat (2 * length ws) # concat (map be_bytes ws)))"

definition ack_body :: "u16 \<Rightarrow> u16 \<Rightarrow> bool \<times> 's \<Rightarrow> (u8 + u8 list) \<times> 's" where
  "ack_body a v r = (if fst r then Inr (be_bytes a @ be_bytes v) else Inl ILLEGAL_DATA_ADDRESS, snd r)"

fun serve_request ::
  "'s modbus_backend \<Rightarrow> 's reg_view \<Rightarrow> 's \<Rightarrow> request \<Rightarrow> (u8 + u8 list) \<times> 's" where
  "serve_request B V s (ReadBits d a c) =
     (bits_body (those (map ((if d then rv_disc V else rv_coil V) s) (addr_range a (unat c)))), s)"
| "serve_request B V s (ReadHolding a c) =
     (regs_body (those (map (rv_hold V s) (addr_range a (unat c)))), s)"
| "serve_request B V s (ReadInput a c) =
     (regs_body (those (map (rv_input V s) (addr_range a (unat c)))), s)"
| "serve_request B V s (WriteCoil a on) =
     ack_body a (if on then 0xFF00 else 0) (be_write_single_coil B s a on)"
| "serve_request B V s (WriteReg a v) = ack_body a v (be_write_single_register B s a v)"
| "serve_request B V s (WriteCoils a c bytes) =
     ack_body a c (be_write_multiple_coils B s a c bytes)"
| "serve_request B V s (WriteRegs a ws) =
     ack_body a (of_nat (length ws)) (be_write_multiple_registers B s a ws)"

definition respond :: "u8 \<Rightarrow> u8 + u8 list \<Rightarrow> u8 list" where
  "respond func r = (case r of Inl code \<Rightarrow> [func OR 0x80, code] | Inr body \<Rightarrow> func # body)"

text \<open>A function the server does not know leaves an entry in the ring log.\<close>

definition note_unknown :: "'s modbus_backend \<Rightarrow> u8 \<Rightarrow> 's \<Rightarrow> 's" where
  "note_unknown B func s = (if func \<in> {1, 2, 3, 4, 5, 6, 15, 16} then s else be_log_warn B 2 200 (ucast func) s)"

definition serve_pdu ::
  "'s modbus_backend \<Rightarrow> 's reg_view \<Rightarrow> 's \<Rightarrow> u8 \<Rightarrow> u8 list \<Rightarrow> u8 list \<times> 's" where
  "serve_pdu B V s func pdu =
     (case pdu_request func pdu of
        Inl code \<Rightarrow> (respond func (Inl code), note_unknown B func s)
      | Inr req \<Rightarrow> map_prod (respond func) id (serve_request B V s req))"

section \<open>A handler's answer against the abstract one\<close>

definition pdu_answers :: "pdu_result \<times> u8 list \<times> 's \<Rightarrow> (u8 + u8 list) \<times> 's \<Rightarrow> bool" where
  "pdu_answers r spec =
     (length (fst (snd r)) = PDU_BUF_SIZE \<and> snd (snd r) = snd spec \<and>
      (case fst spec of
         Inl code \<Rightarrow> fst r = PduErr code
       | Inr body \<Rightarrow> fst r = PduOk (length body) \<and> body \<noteq> [] \<and> length body < PDU_BUF_SIZE \<and>
           take (length body) (drop 1 (fst (snd r))) = body))"

lemma pdu_buf_size [simp]: "PDU_BUF_SIZE = 253"
  by (simp add: PDU_BUF_SIZE_def MODBUS_MAX_PDU_LEN_def)

lemma pdu_answers_err [simp]:
  "pdu_answers r (Inl code, s) \<longleftrightarrow>
     length (fst (snd r)) = 253 \<and> snd (snd r) = s \<and> fst r = PduErr code"
  by (auto simp: pdu_answers_def)

lemma finish_pdu_answers:
  assumes "pdu_answers r spec" and "finish_pdu func r = (n, out', s')"
  shows "take n out' = respond func (fst spec)" and "s' = snd spec"
    and "length out' = PDU_BUF_SIZE" and "2 \<le> n" and "n \<le> PDU_BUF_SIZE"
proof -
  obtain res out s where r: "r = (res, out, s)" by (cases r)
  have "take n out' = respond func (fst spec) \<and> s' = snd spec \<and> length out' = PDU_BUF_SIZE \<and>
    2 \<le> n \<and> n \<le> PDU_BUF_SIZE"
  proof (cases "fst spec")
    case (Inl code)
    with assms r have "length out = 253" "res = PduErr code" "s = snd spec"
      by (auto simp: pdu_answers_def)
    with assms(2) r Inl show ?thesis
      by (cases out rule: list.exhaust; cases "tl out" rule: list.exhaust)
        (auto simp: finish_pdu_def respond_def numeral_2_eq_2)
  next
    case (Inr body)
    with assms r have *: "length out = 253" "res = PduOk (length body)" "s = snd spec"
      "body \<noteq> []" "length body < 253" "take (length body) (drop 1 out) = body"
      by (auto simp: pdu_answers_def)
    then obtain x out1 where "out = x # out1" by (cases out) auto
    moreover have "1 \<le> length body" using *(4) by (cases body) auto
    ultimately show ?thesis
      using assms(2) r Inr * by (auto simp: finish_pdu_def respond_def)
  qed
  then show "take n out' = respond func (fst spec)" "s' = snd spec"
    "length out' = PDU_BUF_SIZE" "2 \<le> n" "n \<le> PDU_BUF_SIZE" by auto
qed

lemma copy_body_before:
  assumes "2 + length xs \<le> length out"
  shows "take (Suc (length xs)) (drop 1 (copy_at (out[0 := a, Suc 0 := b]) 2 xs)) = b # xs"
proof -
  from assms obtain x y rest where "out = x # y # rest"
    by (cases out rule: list.exhaust; cases "tl out" rule: list.exhaust) auto
  then show ?thesis by (simp add: copy_at_def numeral_2_eq_2)
qed

lemma copy_body_after:
  assumes "2 + length xs \<le> length out"
  shows "take (Suc (length xs)) (drop 1 ((copy_at out 2 xs)[0 := a, Suc 0 := b])) = b # xs"
proof -
  from assms obtain x y rest where "out = x # y # rest"
    by (cases out rule: list.exhaust; cases "tl out" rule: list.exhaust) auto
  then show ?thesis by (simp add: copy_at_def numeral_2_eq_2)
qed

lemma length_4E:
  assumes "length xs = 4"
  obtains a b c d where "xs = [a, b, c, d]"
  using assms by (auto simp: length_Suc_conv numeral_eq_Suc)

lemma length_5E:
  assumes "\<not> length xs < 5"
  obtains a b c d e rest where "xs = a # b # c # d # e # rest"
  using assms that by (auto simp: not_less Suc_le_length_iff numeral_eq_Suc)

lemma echo4_answers:
  assumes "length out = 253"
  shows "pdu_answers (PduOk 4, echo4 pdu out, s)
    (Inr (be_bytes (be16 (pdu ! 0) (pdu ! 1)) @ be_bytes (be16 (pdu ! 2) (pdu ! 3))), s)"
proof -
  have "take (Suc (Suc (Suc (Suc 0)))) (drop 1 (echo4 pdu out)) = [pdu ! 0, pdu ! 1, pdu ! 2, pdu ! 3]"
    using assms
    by (intro nth_equalityI)
      (auto simp: echo4_def nth_list_update less_Suc_eq numeral_eq_Suc nth_Cons')
  then show ?thesis
    using assms by (simp add: pdu_answers_def be_bytes_def echo4_def)
qed

lemma length_concat_be_bytes [simp]: "length (concat (map be_bytes ws)) = 2 * length ws"
  by (rule length_concat_2) simp

lemma read_regs_pdu_answers:
  assumes len: "length out = 253"
    and some: "\<And>a c out ws. c \<noteq> 0 \<Longrightarrow> unat c \<le> 125 \<Longrightarrow> unat a + unat c \<le> 65536 \<Longrightarrow>
      length out = 2 * unat c \<Longrightarrow> those (map rd (addr_range a (unat c))) = Some ws \<Longrightarrow>
      f s a c out = (True, concat (map be_bytes ws))"
    and none: "\<And>a c out. c \<noteq> 0 \<Longrightarrow> unat c \<le> 125 \<Longrightarrow> unat a + unat c \<le> 65536 \<Longrightarrow>
      length out = 2 * unat c \<Longrightarrow> those (map rd (addr_range a (unat c))) = None \<Longrightarrow>
      \<exists>out'. f s a c out = (False, out') \<and> length out' = length out"
  shows "pdu_answers (keep_state (read_regs_pdu s pdu f out) s)
    (case parse_read 125 mk pdu of Inl code \<Rightarrow> (Inl code, s)
     | Inr _ \<Rightarrow> (regs_body (those (map rd (addr_range (be16 (pdu ! 0) (pdu ! 1))
         (unat (be16 (pdu ! 2) (pdu ! 3)))))), s))"
proof (cases "length pdu = 4")
  case False
  then show ?thesis
    using len by (simp add: read_regs_pdu_def parse_read_def keep_state_def)
next
  case True
  then obtain p0 p1 p2 p3 where pdu: "pdu = [p0, p1, p2, p3]" by (rule length_4E)
  define a c where "a = be16 p0 p1" and "c = be16 p2 p3"
  show ?thesis
  proof (cases "c \<noteq> 0 \<and> unat c \<le> 125 \<and> unat a + unat c \<le> 65536")
    case False
    then show ?thesis
      using len
      by (auto simp: read_regs_pdu_def parse_read_def keep_state_def Let_def pdu a_def c_def)
  next
    case True
    then have ok: "c \<noteq> 0" "unat c \<le> 125" "unat a + unat c \<le> 65536" by auto
    define sl where "sl = slice out 2 (2 + unat c * 2)"
    have sl: "length sl = 2 * unat c" using len ok by (simp add: sl_def)
    have run: "read_regs_pdu s pdu f out =
      (let (ok, bytes) = f s a c sl; out1 = copy_at out 2 bytes
       in if \<not> ok then (PduErr ILLEGAL_DATA_ADDRESS, out1)
          else (PduOk (1 + unat c * 2), out1[0 := 0, 1 := of_nat (unat c * 2)]))"
      using ok by (simp add: read_regs_pdu_def Let_def pdu sl_def flip: a_def c_def) arith
    have parse: "parse_read 125 mk pdu = Inr (mk a c)"
      using ok by (simp add: parse_read_def Let_def pdu flip: a_def c_def)
    show ?thesis
    proof (cases "those (map rd (addr_range a (unat c)))")
      case None
      from none [OF ok sl None] obtain out' where
        "f s a c sl = (False, out')" "length out' = length sl" by blast
      then show ?thesis
        using len ok sl None parse run
        by (simp add: keep_state_def regs_body_def pdu flip: a_def c_def)
    next
      case (Some ws)
      then have lw: "length ws = unat c"
        by (auto dest!: those_length simp: addr_range_def)
      have fr: "f s a c sl = (True, concat (map be_bytes ws))"
        by (rule some [OF ok sl Some])
      have fit: "2 + length (concat (map be_bytes ws)) \<le> length out" using len lw ok by simp
      show ?thesis
        using len ok sl Some parse run fr fit lw copy_body_after [OF fit, of 0 "of_nat (2 * unat c)"]
        by (simp add: keep_state_def regs_body_def pdu_answers_def mult.commute pdu flip: a_def c_def)
    qed
  qed
qed

lemma parse_read_Inr:
  "parse_read limit mk pdu = Inr req \<Longrightarrow> req = mk (be16 (pdu ! 0) (pdu ! 1)) (be16 (pdu ! 2) (pdu ! 3))"
  by (simp add: parse_read_def Let_def split: if_splits)

lemma read_bits_pdu_answers:
  assumes len: "length out = 253"
    and some: "\<And>a c out bs. c \<noteq> 0 \<Longrightarrow> unat a + unat c \<le> 65536 \<Longrightarrow>
      length out = div_ceil (unat c) 8 \<Longrightarrow> those (map rd (addr_range a (unat c))) = Some bs \<Longrightarrow>
      be_encode_bits B s a c d out = (True, pack_bits bs)"
    and none: "\<And>a c out. c \<noteq> 0 \<Longrightarrow> unat a + unat c \<le> 65536 \<Longrightarrow>
      length out = div_ceil (unat c) 8 \<Longrightarrow> those (map rd (addr_range a (unat c))) = None \<Longrightarrow>
      \<exists>out'. be_encode_bits B s a c d out = (False, out') \<and> length out' = length out"
  shows "pdu_answers (keep_state (read_bits_pdu B s pdu d out) s)
    (case parse_read 2000 mk pdu of Inl code \<Rightarrow> (Inl code, s)
     | Inr _ \<Rightarrow> (bits_body (those (map rd (addr_range (be16 (pdu ! 0) (pdu ! 1))
         (unat (be16 (pdu ! 2) (pdu ! 3)))))), s))"
proof (cases "length pdu = 4")
  case False
  then show ?thesis
    using len by (simp add: read_bits_pdu_def parse_read_def keep_state_def)
next
  case True
  then obtain p0 p1 p2 p3 where pdu: "pdu = [p0, p1, p2, p3]" by (rule length_4E)
  define a c where "a = be16 p0 p1" and "c = be16 p2 p3"
  show ?thesis
  proof (cases "c \<noteq> 0 \<and> unat c \<le> 2000 \<and> unat a + unat c \<le> 65536")
    case False
    then show ?thesis
      using len
      by (auto simp: read_bits_pdu_def parse_read_def keep_state_def Let_def pdu a_def c_def)
  next
    case True
    then have ok: "c \<noteq> 0" "unat a + unat c \<le> 65536" and c2000: "unat c \<le> 2000" by auto
    define n where "n = div_ceil (unat c) 8"
    have n250: "n \<le> 250" using c2000 by (simp add: n_def div_ceil_8)
    define out1 where "out1 = out[0 := 0, Suc 0 := of_nat n]"
    define sl where "sl = slice out1 2 (2 + n)"
    have sl: "length sl = n" using len n250 by (simp add: sl_def out1_def)
    note sl' = sl [unfolded n_def]
    have run: "read_bits_pdu B s pdu d out =
      (let (ok, bits) = be_encode_bits B s a c d sl; out2 = copy_at out1 2 bits
       in if \<not> ok then (PduErr ILLEGAL_DATA_ADDRESS, out2) else (PduOk (1 + n), out2))"
      using ok c2000 unfolding sl_def out1_def n_def
      by (simp add: read_bits_pdu_def Let_def pdu flip: a_def c_def) arith
    have parse: "parse_read 2000 mk pdu = Inr (mk a c)"
      using ok c2000 by (simp add: parse_read_def Let_def pdu flip: a_def c_def)
    show ?thesis
    proof (cases "those (map rd (addr_range a (unat c)))")
      case None
      from none [OF ok sl' None] obtain out' where
        "be_encode_bits B s a c d sl = (False, out')" "length out' = length sl" by blast
      then show ?thesis
        using len ok sl n250 None parse run
        by (simp add: keep_state_def bits_body_def pdu out1_def flip: a_def c_def)
    next
      case (Some bs)
      then have lb: "length (pack_bits bs) = n"
        by (auto dest!: those_length simp: addr_range_def n_def)
      have fr: "be_encode_bits B s a c d sl = (True, pack_bits bs)"
        by (rule some [OF ok sl' Some])
      have fit: "2 + length (pack_bits bs) \<le> length out" using len lb n250 by simp
      show ?thesis
        using len ok sl Some parse run fr fit lb n250 copy_body_before [OF fit, of 0 "of_nat n"]
        by (simp add: keep_state_def bits_body_def pdu_answers_def pdu out1_def flip: a_def c_def)
    qed
  qed
qed

text \<open>The write handlers call the backend once, after every check, and echo the request.\<close>

lemma write_answers:
  assumes "length out = 253" and "pdu = p0 # p1 # p2 # p3 # rest"
  shows "pdu_answers
      (let (ok, s') = r in
         if \<not> ok then (PduErr ILLEGAL_DATA_ADDRESS, out, s') else (PduOk 4, echo4 pdu out, s'))
      (ack_body (be16 p0 p1) (be16 p2 p3) r)"
  using assms echo4_answers [OF assms(1), of pdu "snd r"]
  by (cases r) (simp add: ack_body_def)

lemma write_single_coil_answers:
  assumes "length out = 253"
  shows "pdu_answers (write_single_coil_pdu B s pdu out)
    (case pdu_request 5 pdu of Inl code \<Rightarrow> (Inl code, s) | Inr req \<Rightarrow> serve_request B V s req)"
proof (cases "length pdu = 4")
  case False
  with assms show ?thesis by (simp add: write_single_coil_pdu_def pdu_request_def)
next
  case True
  then obtain p0 p1 p2 p3 where pdu: "pdu = [p0, p1, p2, p3]" by (rule length_4E)
  note w = write_answers [OF assms pdu, unfolded pdu]
  show ?thesis
    using assms w [of "be_write_single_coil B s (be16 p0 p1) True"]
      w [of "be_write_single_coil B s (be16 p0 p1) False"]
    by (auto simp: write_single_coil_pdu_def pdu_request_def Let_def pdu)
qed

lemma write_single_reg_answers:
  assumes "length out = 253"
  shows "pdu_answers (write_single_reg_pdu B s pdu out)
    (case pdu_request 6 pdu of Inl code \<Rightarrow> (Inl code, s) | Inr req \<Rightarrow> serve_request B V s req)"
proof (cases "length pdu = 4")
  case False
  with assms show ?thesis by (simp add: write_single_reg_pdu_def pdu_request_def)
next
  case True
  then obtain p0 p1 p2 p3 where pdu: "pdu = [p0, p1, p2, p3]" by (rule length_4E)
  show ?thesis
    using write_answers [OF assms pdu, unfolded pdu]
    by (simp add: write_single_reg_pdu_def pdu_request_def Let_def pdu)
qed

lemma write_multi_coils_answers:
  assumes "length out = 253"
  shows "pdu_answers (write_multi_coils_pdu B s pdu out)
    (case pdu_request 15 pdu of Inl code \<Rightarrow> (Inl code, s) | Inr req \<Rightarrow> serve_request B V s req)"
proof (cases "length pdu < 5")
  case True
  with assms show ?thesis by (simp add: write_multi_coils_pdu_def pdu_request_def)
next
  case False
  then obtain p0 p1 p2 p3 p4 rest where pdu: "pdu = p0 # p1 # p2 # p3 # p4 # rest"
    by (rule length_5E)
  show ?thesis
    using assms write_answers [OF assms pdu,
        of "be_write_multiple_coils B s (be16 p0 p1) (be16 p2 p3) rest", unfolded pdu]
    by (auto simp: write_multi_coils_pdu_def pdu_request_def Let_def pdu MAX_BITS_PER_READ_def
        word_neq_0_conv unat_gt_0)
qed

lemma write_multi_regs_answers:
  assumes "length out = 253"
  shows "pdu_answers (write_multi_regs_pdu B s pdu out)
    (case pdu_request 16 pdu of Inl code \<Rightarrow> (Inl code, s) | Inr req \<Rightarrow> serve_request B V s req)"
proof (cases "length pdu < 5")
  case True
  with assms show ?thesis by (simp add: write_multi_regs_pdu_def pdu_request_def)
next
  case False
  then obtain p0 p1 p2 p3 p4 rest where pdu: "pdu = p0 # p1 # p2 # p3 # p4 # rest"
    by (rule length_5E)
  have "length (pdu_words pdu (unat (be16 p2 p3))) = unat (be16 p2 p3)"
    by (simp add: pdu_words_def)
  then show ?thesis
    using assms write_answers [OF assms pdu, of "be_write_multiple_registers B s (be16 p0 p1)
        (pdu_words pdu (unat (be16 p2 p3)))", unfolded pdu]
    by (auto simp: write_multi_regs_pdu_def pdu_request_def Let_def pdu MAX_REGS_PER_WRITE_def
        word_neq_0_conv unat_gt_0 mult.commute)
qed

section \<open>The contract of a backend\<close>

locale backend_laws =
  fixes B :: "'s modbus_backend"
    and V :: "'s reg_view"
    and inv :: "'s \<Rightarrow> bool"
  assumes bits_readable: "inv s \<Longrightarrow> c \<noteq> 0 \<Longrightarrow> unat a + unat c \<le> 65536 \<Longrightarrow>
      length out = div_ceil (unat c) 8 \<Longrightarrow>
      those (map ((if d then rv_disc V else rv_coil V) s) (addr_range a (unat c))) = Some bs \<Longrightarrow>
      be_encode_bits B s a c d out = (True, pack_bits bs)"
    and bits_unreadable: "inv s \<Longrightarrow> c \<noteq> 0 \<Longrightarrow> unat a + unat c \<le> 65536 \<Longrightarrow>
      length out = div_ceil (unat c) 8 \<Longrightarrow>
      those (map ((if d then rv_disc V else rv_coil V) s) (addr_range a (unat c))) = None \<Longrightarrow>
      \<exists>out'. be_encode_bits B s a c d out = (False, out') \<and> length out' = length out"
    and hold_readable: "inv s \<Longrightarrow> c \<noteq> 0 \<Longrightarrow> unat c \<le> 125 \<Longrightarrow> unat a + unat c \<le> 65536 \<Longrightarrow>
      length out = 2 * unat c \<Longrightarrow> those (map (rv_hold V s) (addr_range a (unat c))) = Some ws \<Longrightarrow>
      be_encode_holding B s a c out = (True, concat (map be_bytes ws))"
    and hold_unreadable: "inv s \<Longrightarrow> c \<noteq> 0 \<Longrightarrow> unat c \<le> 125 \<Longrightarrow> unat a + unat c \<le> 65536 \<Longrightarrow>
      length out = 2 * unat c \<Longrightarrow> those (map (rv_hold V s) (addr_range a (unat c))) = None \<Longrightarrow>
      \<exists>out'. be_encode_holding B s a c out = (False, out') \<and> length out' = length out"
    and input_readable: "inv s \<Longrightarrow> c \<noteq> 0 \<Longrightarrow> unat c \<le> 125 \<Longrightarrow> unat a + unat c \<le> 65536 \<Longrightarrow>
      length out = 2 * unat c \<Longrightarrow> those (map (rv_input V s) (addr_range a (unat c))) = Some ws \<Longrightarrow>
      be_encode_input B s a c out = (True, concat (map be_bytes ws))"
    and input_unreadable: "inv s \<Longrightarrow> c \<noteq> 0 \<Longrightarrow> unat c \<le> 125 \<Longrightarrow> unat a + unat c \<le> 65536 \<Longrightarrow>
      length out = 2 * unat c \<Longrightarrow> those (map (rv_input V s) (addr_range a (unat c))) = None \<Longrightarrow>
      \<exists>out'. be_encode_input B s a c out = (False, out') \<and> length out' = length out"
    and coil_inv: "inv s \<Longrightarrow> inv (snd (be_write_single_coil B s a on))"
    and reg_inv: "inv s \<Longrightarrow> inv (snd (be_write_single_register B s a v))"
    and coils_inv: "inv s \<Longrightarrow> inv (snd (be_write_multiple_coils B s a c bytes))"
    and regs_inv: "inv s \<Longrightarrow> inv (snd (be_write_multiple_registers B s a ws))"
    and log_inv: "inv s \<Longrightarrow> inv (be_log_warn B m code x s)"
begin

lemma serve_request_inv: "inv s \<Longrightarrow> inv (snd (serve_request B V s req))"
  by (cases req) (auto simp: ack_body_def coil_inv reg_inv coils_inv regs_inv)

lemma serve_pdu_inv: "inv s \<Longrightarrow> inv (snd (serve_pdu B V s func pdu))"
  by (auto simp: serve_pdu_def serve_request_inv note_unknown_def log_inv split: sum.splits)

lemma read_bits_refines:
  assumes "inv s" and "length out = 253"
  shows "pdu_answers (keep_state (read_bits_pdu B s pdu d out) s)
    (case parse_read 2000 (ReadBits d) pdu of Inl code \<Rightarrow> (Inl code, s)
     | Inr req \<Rightarrow> serve_request B V s req)"
proof -
  have "pdu_answers (keep_state (read_bits_pdu B s pdu d out) s)
    (case parse_read 2000 (ReadBits d) pdu of Inl code \<Rightarrow> (Inl code, s)
     | Inr _ \<Rightarrow> (bits_body (those (map ((if d then rv_disc V else rv_coil V) s)
         (addr_range (be16 (pdu ! 0) (pdu ! 1)) (unat (be16 (pdu ! 2) (pdu ! 3)))))), s))"
    by (rule read_bits_pdu_answers) (fact assms(2), rule bits_readable [OF assms(1)], assumption+,
      rule bits_unreadable [OF assms(1)], assumption+)
  then show ?thesis
    by (cases "parse_read 2000 (ReadBits d) pdu") (simp, frule parse_read_Inr, simp)
qed

lemma read_holding_refines:
  assumes "inv s" and "length out = 253"
  shows "pdu_answers (keep_state (read_regs_pdu s pdu (be_encode_holding B) out) s)
    (case parse_read 125 ReadHolding pdu of Inl code \<Rightarrow> (Inl code, s)
     | Inr req \<Rightarrow> serve_request B V s req)"
proof -
  have "pdu_answers (keep_state (read_regs_pdu s pdu (be_encode_holding B) out) s)
    (case parse_read 125 ReadHolding pdu of Inl code \<Rightarrow> (Inl code, s)
     | Inr _ \<Rightarrow> (regs_body (those (map (rv_hold V s)
         (addr_range (be16 (pdu ! 0) (pdu ! 1)) (unat (be16 (pdu ! 2) (pdu ! 3)))))), s))"
    by (rule read_regs_pdu_answers) (fact assms(2), rule hold_readable [OF assms(1)], assumption+,
      rule hold_unreadable [OF assms(1)], assumption+)
  then show ?thesis
    by (cases "parse_read 125 ReadHolding pdu") (simp, frule parse_read_Inr, simp)
qed

lemma read_input_refines:
  assumes "inv s" and "length out = 253"
  shows "pdu_answers (keep_state (read_regs_pdu s pdu (be_encode_input B) out) s)
    (case parse_read 125 ReadInput pdu of Inl code \<Rightarrow> (Inl code, s)
     | Inr req \<Rightarrow> serve_request B V s req)"
proof -
  have "pdu_answers (keep_state (read_regs_pdu s pdu (be_encode_input B) out) s)
    (case parse_read 125 ReadInput pdu of Inl code \<Rightarrow> (Inl code, s)
     | Inr _ \<Rightarrow> (regs_body (those (map (rv_input V s)
         (addr_range (be16 (pdu ! 0) (pdu ! 1)) (unat (be16 (pdu ! 2) (pdu ! 3)))))), s))"
    by (rule read_regs_pdu_answers) (fact assms(2), rule input_readable [OF assms(1)], assumption+,
      rule input_unreadable [OF assms(1)], assumption+)
  then show ?thesis
    by (cases "parse_read 125 ReadInput pdu") (simp, frule parse_read_Inr, simp)
qed

lemma dispatch_refines:
  assumes "inv s" and "length out = 253"
  shows "\<exists>r spec. handle_pdu B s func pdu out = finish_pdu func r \<and> pdu_answers r spec \<and>
    serve_pdu B V s func pdu = map_prod (respond func) id spec"
proof -
  obtain spec where spec_def: "spec = (case pdu_request func pdu of
    Inl code \<Rightarrow> (Inl code, note_unknown B func s) | Inr req \<Rightarrow> serve_request B V s req)" by blast
  have sp: "serve_pdu B V s func pdu = map_prod (respond func) id spec"
    by (simp add: serve_pdu_def spec_def split: sum.splits)
  have spec_known: "func \<in> {1, 2, 3, 4, 5, 6, 15, 16} \<Longrightarrow> spec = (case pdu_request func pdu of
    Inl code \<Rightarrow> (Inl code, s) | Inr req \<Rightarrow> serve_request B V s req)"
    by (cases "pdu_request func pdu") (auto simp: spec_def note_unknown_def)
  consider "func = 1" | "func = 2" | "func = 3" | "func = 4" | "func = 5" | "func = 6"
    | "func = 15" | "func = 16"
    | "func \<noteq> 1 \<and> func \<noteq> 2 \<and> func \<noteq> 3 \<and> func \<noteq> 4 \<and> func \<noteq> 5 \<and> func \<noteq> 6 \<and> func \<noteq> 15 \<and> func \<noteq> 16"
    by auto
  then have "\<exists>r. handle_pdu B s func pdu out = finish_pdu func r \<and> pdu_answers r spec"
  proof cases
    case 1 then show ?thesis using read_bits_refines [OF assms, of pdu False]
      by (intro exI conjI) (auto simp: handle_pdu_def pdu_request_def spec_known)
  next
    case 2 then show ?thesis using read_bits_refines [OF assms, of pdu True]
      by (intro exI conjI) (auto simp: handle_pdu_def pdu_request_def spec_known)
  next
    case 3 then show ?thesis using read_holding_refines [OF assms, of pdu]
      by (intro exI conjI) (auto simp: handle_pdu_def pdu_request_def spec_known)
  next
    case 4 then show ?thesis using read_input_refines [OF assms, of pdu]
      by (intro exI conjI) (auto simp: handle_pdu_def pdu_request_def spec_known)
  next
    case 5 then show ?thesis using write_single_coil_answers [OF assms(2), of B s pdu V]
      by (intro exI conjI) (auto simp: handle_pdu_def spec_known)
  next
    case 6 then show ?thesis using write_single_reg_answers [OF assms(2), of B s pdu V]
      by (intro exI conjI) (auto simp: handle_pdu_def spec_known)
  next
    case 7 then show ?thesis using write_multi_coils_answers [OF assms(2), of B s pdu V]
      by (intro exI conjI) (auto simp: handle_pdu_def spec_known)
  next
    case 8 then show ?thesis using write_multi_regs_answers [OF assms(2), of B s pdu V]
      by (intro exI conjI) (auto simp: handle_pdu_def spec_known)
  next
    case 9
    let ?s = "be_log_warn B 2 200 (ucast func) s"
    from 9 have "handle_pdu B s func pdu out = finish_pdu func (PduErr ILLEGAL_FUNCTION, out, ?s)"
      by (simp add: handle_pdu_def finish_pdu_def)
    moreover from 9 have "spec = (Inl ILLEGAL_FUNCTION, ?s)"
      by (simp add: spec_def pdu_request_def note_unknown_def)
    ultimately show ?thesis using assms(2) by auto
  qed
  with sp show ?thesis by blast
qed

text \<open>Every call of \<open>handle_pdu\<close> answers as the abstract server does, in 2 to 253 bytes.\<close>

lemma handle_pdu_refines:
  assumes "inv s" and "length out = 253" and "handle_pdu B s func pdu out = (n, out', s')"
  shows "(take n out', s') = serve_pdu B V s func pdu" and "length out' = 253"
    and "2 \<le> n" and "n \<le> 253" and "inv s'"
proof -
  from dispatch_refines [OF assms(1,2), of func pdu] obtain r spec where
    run: "finish_pdu func r = (n, out', s')" and ans: "pdu_answers r spec"
    and spec: "serve_pdu B V s func pdu = map_prod (respond func) id spec"
    using assms(3) by auto
  note * = finish_pdu_answers [OF ans run]
  show eq: "(take n out', s') = serve_pdu B V s func pdu"
    using * spec by (simp add: map_prod_def split_beta)
  show "length out' = 253" "2 \<le> n" "n \<le> 253" using * by auto
  show "inv s'" using serve_pdu_inv [OF assms(1), of func pdu] by (simp flip: eq)
qed

end

end
