(* ===== verification/Rcu.thy ===== *)
theory Rcu imports Prelude begin

text \<open>
  The snapshot cell of \<open>src/bus/rcu.rs\<close> as an interleaving of atomic steps: any number of
  readers, numbered by \<open>nat\<close>, run \<open>read\<close>, and one writer at a time (the holder of the
  \<open>writer\<close> mutex) runs \<open>write\<close>.  Each rule is one atomic operation of the source.
  The epoch is the 32-bit \<open>usize\<close> of the target and wraps.  The heap records the strong
  count of every \<open>Arc\<close>; a count of zero is a freed allocation.  The invariant gives that a
  reader between \<open>ptr.load\<close> and \<open>Arc::increment_strong_count\<close> always sees a live
  allocation.
\<close>

section \<open>State and steps\<close>

datatype reader_pc =
    RIdle
  | RGotEpoch u32            \<comment> \<open>after \<open>epoch.load\<close>\<close>
  | RRegistered u32          \<comment> \<open>after \<open>readers.fetch_add\<close>\<close>
  | RRetry u32               \<comment> \<open>the epoch moved: about to \<open>fetch_sub\<close> and loop\<close>
  | RPinned u32              \<comment> \<open>the epoch was confirmed\<close>
  | RNull u32                \<comment> \<open>\<open>ptr\<close> was null\<close>
  | RLoaded u32 nat          \<comment> \<open>\<open>ptr\<close> loaded, not yet counted\<close>
  | RCounted u32 nat         \<comment> \<open>strong count incremented\<close>
  | RDone "nat option"       \<comment> \<open>returned; \<open>Some p\<close> owns an \<open>Arc\<close>\<close>

datatype writer_pc =
    WIdle
  | WLocked nat                    \<comment> \<open>mutex held, new \<open>Arc\<close> allocated\<close>
  | WSwapped "nat option"          \<comment> \<open>\<open>ptr\<close> swapped, old pointer kept\<close>
  | WWaiting "nat option" u32      \<comment> \<open>epoch bumped, polling the old slot\<close>
  | WReclaim "nat option"          \<comment> \<open>slot was empty: about to drop the old \<open>Arc\<close>\<close>

record rcu =
  rcu_ptr :: "nat option"
  rcu_epoch :: u32
  rcu_readers :: "bool \<Rightarrow> nat"       \<comment> \<open>\<open>readers[epoch & 1]\<close>\<close>
  rcu_strong :: "nat \<Rightarrow> nat"         \<comment> \<open>strong counts of the allocations\<close>
  rcu_writer :: writer_pc
  rcu_pcs :: "nat \<Rightarrow> reader_pc"

definition parity :: "u32 \<Rightarrow> bool" where
  "parity e = bit e 0"

definition rcu_new :: "nat \<Rightarrow> rcu" where
  "rcu_new p = \<lparr>rcu_ptr = Some p, rcu_epoch = 0, rcu_readers = (\<lambda>_. 0),
     rcu_strong = (\<lambda>_. 0)(p := 1), rcu_writer = WIdle, rcu_pcs = (\<lambda>_. RIdle)\<rparr>"

definition rcu_empty :: rcu where
  "rcu_empty = \<lparr>rcu_ptr = None, rcu_epoch = 0, rcu_readers = (\<lambda>_. 0),
     rcu_strong = (\<lambda>_. 0), rcu_writer = WIdle, rcu_pcs = (\<lambda>_. RIdle)\<rparr>"

definition set_pc :: "nat \<Rightarrow> reader_pc \<Rightarrow> rcu \<Rightarrow> rcu" where
  "set_pc r pc s = s\<lparr>rcu_pcs := (rcu_pcs s)(r := pc)\<rparr>"

definition slot_add :: "u32 \<Rightarrow> rcu \<Rightarrow> rcu" where
  "slot_add e s = s\<lparr>rcu_readers := (rcu_readers s)(parity e := rcu_readers s (parity e) + 1)\<rparr>"

definition slot_sub :: "u32 \<Rightarrow> rcu \<Rightarrow> rcu" where
  "slot_sub e s = s\<lparr>rcu_readers := (rcu_readers s)(parity e := rcu_readers s (parity e) - 1)\<rparr>"

definition strong_add :: "nat \<Rightarrow> rcu \<Rightarrow> rcu" where
  "strong_add p s = s\<lparr>rcu_strong := (rcu_strong s)(p := rcu_strong s p + 1)\<rparr>"

definition strong_sub :: "nat \<Rightarrow> rcu \<Rightarrow> rcu" where
  "strong_sub p s = s\<lparr>rcu_strong := (rcu_strong s)(p := rcu_strong s p - 1)\<rparr>"

lemmas rcu_ops = set_pc_def slot_add_def slot_sub_def strong_add_def strong_sub_def

inductive rcu_step :: "rcu \<Rightarrow> rcu \<Rightarrow> bool" where
  load_epoch: "rcu_pcs s r = RIdle \<Longrightarrow> rcu_step s (set_pc r (RGotEpoch (rcu_epoch s)) s)"
| register: "rcu_pcs s r = RGotEpoch e \<Longrightarrow>
    rcu_step s (set_pc r (RRegistered e) (slot_add e s))"
| confirm: "rcu_pcs s r = RRegistered e \<Longrightarrow> rcu_epoch s = e \<Longrightarrow>
    rcu_step s (set_pc r (RPinned e) s)"
| moved: "rcu_pcs s r = RRegistered e \<Longrightarrow> rcu_epoch s \<noteq> e \<Longrightarrow>
    rcu_step s (set_pc r (RRetry e) s)"
| retry: "rcu_pcs s r = RRetry e \<Longrightarrow> rcu_step s (set_pc r RIdle (slot_sub e s))"
| load_ptr: "rcu_pcs s r = RPinned e \<Longrightarrow> rcu_ptr s = Some p \<Longrightarrow>
    rcu_step s (set_pc r (RLoaded e p) s)"
| load_null: "rcu_pcs s r = RPinned e \<Longrightarrow> rcu_ptr s = None \<Longrightarrow>
    rcu_step s (set_pc r (RNull e) s)"
| null_exit: "rcu_pcs s r = RNull e \<Longrightarrow> rcu_step s (set_pc r (RDone None) (slot_sub e s))"
| increment: "rcu_pcs s r = RLoaded e p \<Longrightarrow>
    rcu_step s (set_pc r (RCounted e p) (strong_add p s))"
| unregister: "rcu_pcs s r = RCounted e p \<Longrightarrow>
    rcu_step s (set_pc r (RDone (Some p)) (slot_sub e s))"
| drop_arc: "rcu_pcs s r = RDone (Some p) \<Longrightarrow> rcu_step s (set_pc r RIdle (strong_sub p s))"
| drop_none: "rcu_pcs s r = RDone None \<Longrightarrow> rcu_step s (set_pc r RIdle s)"
| lock: "rcu_writer s = WIdle \<Longrightarrow> rcu_strong s p = 0 \<Longrightarrow>
    rcu_step s (strong_add p s\<lparr>rcu_writer := WLocked p\<rparr>)"
| swap: "rcu_writer s = WLocked p \<Longrightarrow>
    rcu_step s (s\<lparr>rcu_ptr := Some p, rcu_writer := WSwapped (rcu_ptr s)\<rparr>)"
| bump: "rcu_writer s = WSwapped old \<Longrightarrow>
    rcu_step s (s\<lparr>rcu_epoch := rcu_epoch s + 1, rcu_writer := WWaiting old (rcu_epoch s)\<rparr>)"
| poll_busy: "rcu_writer s = WWaiting old e \<Longrightarrow> rcu_readers s (parity e) \<noteq> 0 \<Longrightarrow> rcu_step s s"
| poll_empty: "rcu_writer s = WWaiting old e \<Longrightarrow> rcu_readers s (parity e) = 0 \<Longrightarrow>
    rcu_step s (s\<lparr>rcu_writer := WReclaim old\<rparr>)"
| reclaim: "rcu_writer s = WReclaim (Some p) \<Longrightarrow>
    rcu_step s (strong_sub p s\<lparr>rcu_writer := WIdle\<rparr>)"
| reclaim_null: "rcu_writer s = WReclaim None \<Longrightarrow> rcu_step s (s\<lparr>rcu_writer := WIdle\<rparr>)"

inductive rcu_reachable :: "rcu \<Rightarrow> bool" where
  start_new: "rcu_reachable (rcu_new p)"
| start_empty: "rcu_reachable rcu_empty"
| step: "rcu_reachable s \<Longrightarrow> rcu_step s t \<Longrightarrow> rcu_reachable t"

section \<open>The invariant\<close>

text \<open>The slot a reader is registered in, and the allocation a reader or the writer owns.\<close>

fun reader_slot :: "reader_pc \<Rightarrow> bool option" where
  "reader_slot (RRegistered e) = Some (parity e)"
| "reader_slot (RRetry e) = Some (parity e)"
| "reader_slot (RPinned e) = Some (parity e)"
| "reader_slot (RNull e) = Some (parity e)"
| "reader_slot (RLoaded e p) = Some (parity e)"
| "reader_slot (RCounted e p) = Some (parity e)"
| "reader_slot _ = None"

fun reader_owns :: "reader_pc \<Rightarrow> nat option" where
  "reader_owns (RCounted e p) = Some p"
| "reader_owns (RDone x) = x"
| "reader_owns _ = None"

fun writer_owns :: "writer_pc \<Rightarrow> nat option" where
  "writer_owns WIdle = None"
| "writer_owns (WLocked p) = Some p"
| "writer_owns (WSwapped old) = old"
| "writer_owns (WWaiting old e) = old"
| "writer_owns (WReclaim old) = old"

text \<open>A confirmed reader is either of the current epoch or of the one the writer waits for.\<close>

definition epoch_ok :: "rcu \<Rightarrow> u32 \<Rightarrow> bool" where
  "epoch_ok s e \<longleftrightarrow> rcu_epoch s = e \<or> (\<exists>old. rcu_writer s = WWaiting old e)"

definition visible :: "rcu \<Rightarrow> u32 \<Rightarrow> nat \<Rightarrow> bool" where
  "visible s e p \<longleftrightarrow>
     rcu_epoch s = e \<and> (rcu_ptr s = Some p \<or> rcu_writer s = WSwapped (Some p)) \<or>
     (\<exists>old. rcu_writer s = WWaiting old e \<and> (rcu_ptr s = Some p \<or> old = Some p))"

fun reader_ok :: "rcu \<Rightarrow> reader_pc \<Rightarrow> bool" where
  "reader_ok s (RPinned e) = epoch_ok s e"
| "reader_ok s (RLoaded e p) = visible s e p"
| "reader_ok s _ = True"

definition owners :: "rcu \<Rightarrow> nat \<Rightarrow> nat" where
  "owners s p = card {r. reader_owns (rcu_pcs s r) = Some p} + of_bool (rcu_ptr s = Some p) +
     of_bool (writer_owns (rcu_writer s) = Some p)"

definition rcu_inv :: "rcu \<Rightarrow> bool" where
  "rcu_inv s \<longleftrightarrow>
     finite {r. rcu_pcs s r \<noteq> RIdle} \<and>
     (\<forall>b. rcu_readers s b = card {r. reader_slot (rcu_pcs s r) = Some b}) \<and>
     (\<forall>p. rcu_strong s p = owners s p) \<and>
     (\<forall>r. reader_ok s (rcu_pcs s r))"

text \<open>Counting the readers with a property after one reader moves.\<close>

lemma finite_pcs:
  assumes "finite {r. f r \<noteq> RIdle}" and "g RIdle = None"
  shows "finite {r. g (f r) = Some x}"
  by (rule finite_subset [OF _ assms(1)]) (use assms(2) in auto)

lemma card_pcs_upd:
  assumes "finite {r. f r \<noteq> RIdle}" and "g RIdle = None"
  shows "card {r. g ((f(r0 := pc)) r) = Some x} + of_bool (g (f r0) = Some x) =
    card {r. g (f r) = Some x} + of_bool (g pc = Some x)"
proof -
  let ?A = "{r. r \<noteq> r0 \<and> g (f r) = Some x}"
  have fin: "finite ?A"
    by (rule finite_subset [OF _ finite_pcs [where f = f and g = g and x = x, OF assms]]) auto
  have "{r. g ((f(r0 := pc)) r) = Some x} = (if g pc = Some x then insert r0 ?A else ?A)"
    by auto
  moreover have "{r. g (f r) = Some x} = (if g (f r0) = Some x then insert r0 ?A else ?A)"
    by auto
  ultimately show ?thesis using fin by auto
qed

lemma rcu_inv_new: "rcu_inv (rcu_new p)"
  by (auto simp: rcu_inv_def rcu_new_def owners_def)

lemma rcu_inv_empty: "rcu_inv rcu_empty"
  by (auto simp: rcu_inv_def rcu_empty_def owners_def)

text \<open>A reader's move: what it does to the slots and the counts must match its program counter.\<close>

lemma rcu_inv_reader:
  assumes inv: "rcu_inv s"
    and slots: "\<And>b. rcu_readers t b + of_bool (reader_slot (rcu_pcs s r) = Some b) =
      rcu_readers s b + of_bool (reader_slot pc = Some b)"
    and strong: "\<And>p. rcu_strong t p + of_bool (reader_owns (rcu_pcs s r) = Some p) =
      rcu_strong s p + of_bool (reader_owns pc = Some p)"
    and rest: "rcu_ptr t = rcu_ptr s" "rcu_epoch t = rcu_epoch s" "rcu_writer t = rcu_writer s"
      "rcu_pcs t = (rcu_pcs s)(r := pc)"
    and ok: "reader_ok s pc"
  shows "rcu_inv t"
proof -
  have fin: "finite {r. rcu_pcs s r \<noteq> RIdle}" using inv by (simp add: rcu_inv_def)
  have "{x. rcu_pcs t x \<noteq> RIdle} \<subseteq> insert r {x. rcu_pcs s x \<noteq> RIdle}" using rest by auto
  then have 1: "finite {x. rcu_pcs t x \<noteq> RIdle}" using fin by (metis finite.insertI finite_subset)
  have 2: "rcu_readers t b = card {x. reader_slot (rcu_pcs t x) = Some b}" for b
    using card_pcs_upd [OF fin, of reader_slot r pc b] slots [of b] inv rest(4)
    by (simp add: rcu_inv_def)
  have 3: "rcu_strong t p = owners t p" for p
    using card_pcs_upd [OF fin, of reader_owns r pc p] strong [of p] inv rest
    by (simp add: rcu_inv_def owners_def)
  have same: "reader_ok t q = reader_ok s q" for q
    by (cases q) (simp_all add: epoch_ok_def visible_def rest)
  have 4: "reader_ok t (rcu_pcs t x)" for x
    using inv ok rest(4) by (simp add: same rcu_inv_def)
  from 1 2 3 4 show ?thesis by (simp add: rcu_inv_def)
qed

text \<open>The writer's move: it touches no program counter and no slot.\<close>

lemma rcu_inv_writer:
  assumes inv: "rcu_inv s"
    and rest: "rcu_pcs t = rcu_pcs s" "rcu_readers t = rcu_readers s"
    and strong: "\<And>p. rcu_strong t p + of_bool (rcu_ptr s = Some p) +
      of_bool (writer_owns (rcu_writer s) = Some p) =
      rcu_strong s p + of_bool (rcu_ptr t = Some p) + of_bool (writer_owns (rcu_writer t) = Some p)"
    and ok: "\<And>r. reader_ok s (rcu_pcs s r) \<Longrightarrow> reader_ok t (rcu_pcs s r)"
  shows "rcu_inv t"
proof -
  have "rcu_strong t p = owners t p" for p
    using strong [of p] inv rest by (simp add: rcu_inv_def owners_def)
  with inv rest ok show ?thesis by (simp add: rcu_inv_def)
qed

lemma registered_slot_nonzero:
  assumes "rcu_inv s" and "reader_slot (rcu_pcs s r) = Some b"
  shows "rcu_readers s b \<noteq> 0"
proof -
  have "finite {x. reader_slot (rcu_pcs s x) = Some b}"
    using assms(1) by (intro finite_pcs) (auto simp: rcu_inv_def)
  with assms show ?thesis by (auto simp: rcu_inv_def)
qed

lemma owned_is_live:
  assumes "rcu_inv s"
    and "rcu_ptr s = Some p \<or> writer_owns (rcu_writer s) = Some p \<or> reader_owns (rcu_pcs s r) = Some p"
  shows "0 < rcu_strong s p"
proof -
  have "finite {x. reader_owns (rcu_pcs s x) = Some p}"
    using assms(1) by (intro finite_pcs) (auto simp: rcu_inv_def)
  then show ?thesis
    using assms by (auto simp: rcu_inv_def owners_def card_gt_0_iff)
qed

lemma rcu_step_inv: "rcu_step s t \<Longrightarrow> rcu_inv s \<Longrightarrow> rcu_inv t"
proof (induction rule: rcu_step.induct)
  case (load_epoch s r)
  then show ?case by - (rule rcu_inv_reader [of s _ r "RGotEpoch (rcu_epoch s)"], auto simp: rcu_ops)
next
  case (register s r e)
  then show ?case by - (rule rcu_inv_reader [of s _ r "RRegistered e"], auto simp: rcu_ops)
next
  case (confirm s r e)
  then show ?case
    by - (rule rcu_inv_reader [of s _ r "RPinned e"], auto simp: rcu_ops epoch_ok_def)
next
  case (moved s r e)
  then show ?case by - (rule rcu_inv_reader [of s _ r "RRetry e"], auto simp: rcu_ops)
next
  case (retry s r e)
  then show ?case
    using registered_slot_nonzero [of s r "parity e"]
    by - (rule rcu_inv_reader [of s _ r RIdle], auto simp: rcu_ops)
next
  case (load_ptr s r e p)
  then have "reader_ok s (RPinned e)" by (metis rcu_inv_def)
  with load_ptr show ?case
    by - (rule rcu_inv_reader [of s _ r "RLoaded e p"], auto simp: rcu_ops epoch_ok_def visible_def)
next
  case (load_null s r e)
  then show ?case by - (rule rcu_inv_reader [of s _ r "RNull e"], auto simp: rcu_ops)
next
  case (null_exit s r e)
  then show ?case
    using registered_slot_nonzero [of s r "parity e"]
    by - (rule rcu_inv_reader [of s _ r "RDone None"], auto simp: rcu_ops)
next
  case (increment s r e p)
  then show ?case by - (rule rcu_inv_reader [of s _ r "RCounted e p"], auto simp: rcu_ops)
next
  case (unregister s r e p)
  then show ?case
    using registered_slot_nonzero [of s r "parity e"]
    by - (rule rcu_inv_reader [of s _ r "RDone (Some p)"], auto simp: rcu_ops)
next
  case (drop_arc s r p)
  then show ?case
    using owned_is_live [of s p r]
    by - (rule rcu_inv_reader [of s _ r RIdle], auto simp: rcu_ops)
next
  case (drop_none s r)
  then show ?case by - (rule rcu_inv_reader [of s _ r RIdle], auto simp: rcu_ops)
next
  case (lock s p)
  then have "rcu_ptr s \<noteq> Some p" using owned_is_live [of s p] by auto
  with lock show ?case
    by - (rule rcu_inv_writer [of s], auto simp: rcu_ops epoch_ok_def visible_def elim!: reader_ok.elims)
next
  case (swap s p)
  then show ?case
    by - (rule rcu_inv_writer [of s], auto simp: epoch_ok_def visible_def elim!: reader_ok.elims)
next
  case (bump s old)
  then show ?case
    by - (rule rcu_inv_writer [of s], auto simp: epoch_ok_def visible_def elim!: reader_ok.elims)
next
  case (poll_busy s old e)
  then show ?case by simp
next
  case (poll_empty s old e)
  have "reader_slot (rcu_pcs s r) \<noteq> Some (parity e)" for r
    using registered_slot_nonzero [OF poll_empty.prems, of r "parity e"] poll_empty.hyps(2) by auto
  then have "rcu_pcs s r \<noteq> RPinned e" "rcu_pcs s r \<noteq> RLoaded e p" for r p
    by (metis reader_slot.simps(3), metis reader_slot.simps(5))
  with poll_empty show ?case
    by - (rule rcu_inv_writer [of s], auto simp: epoch_ok_def visible_def elim!: reader_ok.elims)
next
  case (reclaim s p)
  then have "0 < rcu_strong s p" using owned_is_live [of s p] by auto
  with reclaim show ?case
    by - (rule rcu_inv_writer [of s], auto simp: rcu_ops epoch_ok_def visible_def elim!: reader_ok.elims)
next
  case (reclaim_null s)
  then show ?case
    by - (rule rcu_inv_writer [of s], auto simp: epoch_ok_def visible_def elim!: reader_ok.elims)
qed

lemma rcu_reachable_inv: "rcu_reachable s \<Longrightarrow> rcu_inv s"
  by (induction rule: rcu_reachable.induct) (auto intro: rcu_inv_new rcu_inv_empty rcu_step_inv)

section \<open>Correctness\<close>

text \<open>C2: No use after free.  In every interleaving of readers and the writer, the snapshot a
  reader has loaded, counted or still holds has a positive strong count, so the writer has not freed
  it: the grace period between the pointer swap and the release covers every such reader.\<close>

theorem rcu_no_use_after_free:
  assumes "rcu_reachable s"
    and "rcu_pcs s r = RLoaded e p \<or> rcu_pcs s r = RCounted e p \<or> rcu_pcs s r = RDone (Some p)"
  shows "0 < rcu_strong s p"
proof -
  note inv = rcu_reachable_inv [OF assms(1)]
  show ?thesis
  proof (cases "rcu_pcs s r = RLoaded e p")
    case True
    then have "visible s e p" using inv by (metis rcu_inv_def reader_ok.simps(2))
    then have "rcu_ptr s = Some p \<or> writer_owns (rcu_writer s) = Some p"
      by (auto simp: visible_def)
    then show ?thesis using owned_is_live [OF inv] by blast
  next
    case False
    then have "reader_owns (rcu_pcs s r) = Some p" using assms(2) by auto
    then show ?thesis using owned_is_live [OF inv] by blast
  qed
qed

text \<open>A reader that has loaded the pointer of a fresh cell.\<close>

definition rcu_demo :: rcu where
  "rcu_demo = set_pc 0 (RLoaded 0 7) (slot_add 0 (rcu_new 7))"

lemma rcu_demo_reachable: "rcu_reachable rcu_demo"
proof -
  have 1: "rcu_reachable (set_pc 0 (RGotEpoch 0) (rcu_new 7))"
    using rcu_reachable.step [OF start_new load_epoch, of 7 0] by (simp add: rcu_new_def)
  have 2: "rcu_reachable (set_pc 0 (RRegistered 0) (slot_add 0 (rcu_new 7)))"
    using rcu_reachable.step [OF 1 register, of 0 0] by (simp add: rcu_ops rcu_new_def)
  have 3: "rcu_reachable (set_pc 0 (RPinned 0) (slot_add 0 (rcu_new 7)))"
    using rcu_reachable.step [OF 2 confirm, of 0 0] by (simp add: rcu_ops rcu_new_def)
  show ?thesis
    using rcu_reachable.step [OF 3 load_ptr, of 0 0 7] by (simp add: rcu_ops rcu_new_def rcu_demo_def)
qed

theorem rcu_no_use_after_free_witness: "0 < rcu_strong rcu_demo 7"
  by (rule rcu_no_use_after_free [of _ 0 0, OF rcu_demo_reachable]) (simp add: rcu_demo_def rcu_ops)

text \<open>No leak and no double free.  Once no reader and no writer is active, the published snapshot
  has exactly one owner, the cell, and every replaced snapshot has been released.\<close>

theorem rcu_reclaims_replaced:
  assumes "rcu_reachable s" and "rcu_writer s = WIdle" and "\<forall>r. rcu_pcs s r = RIdle"
  shows "rcu_strong s p = of_bool (rcu_ptr s = Some p)"
  using rcu_reachable_inv [OF assms(1)] assms(2,3) by (simp add: rcu_inv_def owners_def)

theorem rcu_reclaims_replaced_witness: "rcu_strong (rcu_new 7) 7 = 1 \<and> rcu_strong (rcu_new 7) 8 = 0"
  using rcu_reclaims_replaced [OF start_new, of 7 7] rcu_reclaims_replaced [OF start_new, of 7 8]
  by (simp add: rcu_new_def)

end
