(* ===== verification/Atomic_Bits.thy ===== *)
theory Atomic_Bits imports Prelude begin

text \<open>
  \<open>AtomicBits64\<close> of \<open>src/sync.rs\<close>: 64 channel bits kept as four 16-bit atomics and
  a sequence counter.  Each operation is given by its effect when no other writer runs (the
  counter serialises writers); the interleaved read protocol is the subject of
  \<open>Seqlock\<close>.  The locale \<open>bit_register\<close> is the interface the I/O image relies
  on, interpreted on these operations.
\<close>

record atomic_bits64 =
  ab_words :: "u16 list"
  ab_seq :: u32

definition bits_wf :: "atomic_bits64 \<Rightarrow> bool" where
  "bits_wf a \<longleftrightarrow> length (ab_words a) = 4"

definition bits_words :: "u64 \<Rightarrow> u16 list" where
  "bits_words v = map (\<lambda>i. ucast (drop_bit (16 * i) v)) [0..<4]"

definition bits_new :: "u64 \<Rightarrow> atomic_bits64" where
  "bits_new v = \<lparr>ab_words = bits_words v, ab_seq = 0\<rparr>"

text \<open>The loop of \<open>try_load_bits\<close> over the four words, and the loads around it.\<close>

definition join_words :: "u16 list \<Rightarrow> u64" where
  "join_words ws = foldl (\<lambda>v (i, w). v OR push_bit (i * 16) (ucast w)) 0 (enumerate 0 ws)"

definition load_bits :: "atomic_bits64 \<Rightarrow> u64" where
  "load_bits a = join_words (ab_words a)"

text \<open>\<open>begin_write\<close> makes the counter odd, \<open>end_write\<close> leaves it two higher.\<close>

definition with_write :: "(u16 list \<Rightarrow> u16 list) \<Rightarrow> atomic_bits64 \<Rightarrow> atomic_bits64" where
  "with_write f a = \<lparr>ab_words = f (ab_words a), ab_seq = ab_seq a + 2\<rparr>"

definition store_bits :: "u64 \<Rightarrow> atomic_bits64 \<Rightarrow> atomic_bits64" where
  "store_bits v = with_write (\<lambda>_. bits_words v)"

definition get_bit :: "atomic_bits64 \<Rightarrow> nat \<Rightarrow> bool" where
  "get_bit a ch =
     (if ch \<ge> 64 then False
      else ab_words a ! (ch div 16) AND push_bit (ch mod 16) 1 \<noteq> 0)"

definition set_word_bit :: "nat \<Rightarrow> bool \<Rightarrow> u16 \<Rightarrow> u16" where
  "set_word_bit n v cur = (let mask = push_bit n 1 in if v then cur OR mask else cur AND NOT mask)"

definition set_bit_at :: "nat \<Rightarrow> bool \<Rightarrow> atomic_bits64 \<Rightarrow> bool \<times> atomic_bits64" where
  "set_bit_at ch v a =
     (if ch \<ge> 64 then (False, a)
      else (True, with_write (\<lambda>ws. ws[ch div 16 := set_word_bit (ch mod 16) v (ws ! (ch div 16))]) a))"

definition mask_replace_word :: "u64 \<Rightarrow> u64 \<Rightarrow> nat \<Rightarrow> u16 \<Rightarrow> u16" where
  "mask_replace_word msk v i cur =
     (let m = ucast (drop_bit (i * 16) msk AND 0xFFFF);
          x = ucast (drop_bit (i * 16) v AND 0xFFFF)
      in if m = 0 then cur else (cur AND NOT m) OR (x AND m))"

definition mask_replace :: "u64 \<Rightarrow> u64 \<Rightarrow> atomic_bits64 \<Rightarrow> atomic_bits64" where
  "mask_replace msk v =
     with_write (\<lambda>ws. map (\<lambda>(i, w). mask_replace_word msk v i w) (enumerate 0 ws))"

section \<open>Bit view\<close>

lemma bits_wf_ops [simp]:
  "bits_wf (bits_new v)" "bits_wf (store_bits v a)"
  "bits_wf (snd (set_bit_at ch x a)) = bits_wf a"
  "bits_wf (mask_replace m v a) = bits_wf a"
  by (auto simp: bits_wf_def bits_new_def store_bits_def bits_words_def set_bit_at_def with_write_def
      mask_replace_def)

lemma list_4_eq: "length xs = 4 \<Longrightarrow> xs = [xs ! 0, xs ! 1, xs ! 2, xs ! 3]"
  by (auto simp: length_Suc_conv numeral_eq_Suc)

lemma bit_join_words:
  assumes "length ws = 4"
  shows "bit (join_words ws) n \<longleftrightarrow> n < 64 \<and> bit (ws ! (n div 16)) (n mod 16)"
proof -
  obtain a b c d where ws: "ws = [a, b, c, d]"
    using assms by (auto simp: length_Suc_conv numeral_eq_Suc)
  have "bit (join_words ws) n \<longleftrightarrow> n < 64 \<and> (bit a n \<or> 16 \<le> n \<and> bit b (n - 16) \<or>
      32 \<le> n \<and> bit c (n - 32) \<or> 48 \<le> n \<and> bit d (n - 48))"
    by (auto simp: join_words_def ws bit_simps dest: bit_imp_le_length)
  moreover consider "n < 16" | "16 \<le> n \<and> n < 32" | "32 \<le> n \<and> n < 48" | "48 \<le> n \<and> n < 64" | "64 \<le> n"
    by linarith
  then have "n < 64 \<and> (bit a n \<or> 16 \<le> n \<and> bit b (n - 16) \<or>
      32 \<le> n \<and> bit c (n - 32) \<or> 48 \<le> n \<and> bit d (n - 48)) \<longleftrightarrow>
      n < 64 \<and> bit (ws ! (n div 16)) (n mod 16)"
  proof cases
    case 1 then show ?thesis by (simp add: ws)
  next
    case 2
    then have "n div 16 = 1" "n mod 16 = n - 16" by (auto simp: div_nat_eqI mod_if)
    with 2 show ?thesis by (auto simp: ws dest: bit_imp_le_length)
  next
    case 3
    then have "n div 16 = 2" "n mod 16 = n - 32" by (auto simp: div_nat_eqI mod_if)
    with 3 show ?thesis by (auto simp: ws dest: bit_imp_le_length)
  next
    case 4
    then have "n div 16 = 3" "n mod 16 = n - 48" by (auto simp: div_nat_eqI mod_if)
    with 4 show ?thesis by (auto simp: ws dest: bit_imp_le_length)
  next
    case 5 then show ?thesis by simp
  qed
  ultimately show ?thesis by simp
qed

lemma bit_load_bits:
  "bits_wf a \<Longrightarrow> bit (load_bits a) n \<longleftrightarrow> n < 64 \<and> bit (ab_words a ! (n div 16)) (n mod 16)"
  by (simp add: bits_wf_def load_bits_def bit_join_words)

lemma join_bits_words: "join_words (bits_words v) = v"
proof (rule bit_word_eqI)
  fix n :: nat assume "n < LENGTH(64)"
  then have n: "n < 64" "n div 16 < 4" by auto
  have eq: "16 * (n div 16) + n mod 16 = n" by simp
  have "length (bits_words v) = 4" by (simp add: bits_words_def)
  then have "bit (join_words (bits_words v)) n = bit (bits_words v ! (n div 16)) (n mod 16)"
    using n by (simp add: bit_join_words)
  also have "bits_words v ! (n div 16) = ucast (drop_bit (16 * (n div 16)) v)"
    using n by (simp add: bits_words_def)
  finally show "bit (join_words (bits_words v)) n = bit v n"
    using eq by (simp add: bit_simps)
qed

lemma load_bits_store [simp]: "load_bits (store_bits v a) = v"
  by (simp add: load_bits_def store_bits_def with_write_def join_bits_words)

lemma load_bits_new [simp]: "load_bits (bits_new v) = v"
  by (simp add: load_bits_def bits_new_def join_bits_words)

lemma and_push_bit_1: "(w AND 2 ^ n = 0) = (\<not> bit w n)" for w :: "'a::len word"
proof
  assume "w AND 2 ^ n = 0"
  then have "\<not> bit (w AND 2 ^ n) n" by simp
  then show "\<not> bit w n" by (auto simp: bit_simps dest: bit_imp_le_length)
next
  assume "\<not> bit w n"
  then show "w AND 2 ^ n = 0" by (intro bit_word_eqI) (auto simp: bit_simps)
qed

lemma get_bit_load: "bits_wf a \<Longrightarrow> get_bit a ch = bit (load_bits a) ch"
  by (simp add: get_bit_def bit_load_bits and_push_bit_1)

lemma bit_set_word_bit:
  "n < 16 \<Longrightarrow> bit (set_word_bit m v w) n = (if n = m then v else bit w n)"
  by (auto simp: set_word_bit_def Let_def bit_simps)

lemma div_mod_16_eq: "(m div 16 = n div 16 \<and> m mod 16 = n mod 16) = (m = n)" for m n :: nat
  by (metis div_mult_mod_eq)

lemma load_bits_set_bit:
  assumes "bits_wf a" and "ch < 64"
  shows "load_bits (snd (set_bit_at ch v a)) =
    (if v then set_bit ch (load_bits a) else unset_bit ch (load_bits a))"
proof (rule bit_word_eqI)
  fix n :: nat assume n: "n < LENGTH(64)"
  have wf: "bits_wf (snd (set_bit_at ch v a))" using assms(1) by simp
  have "n div 16 < 4" "ch div 16 < 4" using n assms(2) by auto
  then have "bit (load_bits (snd (set_bit_at ch v a))) n = (if n = ch then v else bit (load_bits a) n)"
    using assms n div_mod_16_eq [of n ch]
    by (auto simp: bit_load_bits [OF wf] bit_load_bits [OF assms(1)])
      (auto simp: set_bit_at_def with_write_def nth_list_update bits_wf_def bit_set_word_bit
        split: if_splits)
  then show "bit (load_bits (snd (set_bit_at ch v a))) n =
      bit (if v then set_bit ch (load_bits a) else unset_bit ch (load_bits a)) n"
    using n by (auto simp: bit_simps)
qed

lemma ucast_and_FFFF: "(ucast (x AND 0xFFFF) :: u16) = ucast x" for x :: u64
proof -
  have m: "(0xFFFF :: u64) = mask 16" by (simp add: mask_eq_exp_minus_1)
  show ?thesis unfolding m take_bit_eq_mask [symmetric]
    by (rule bit_word_eqI) (auto simp: bit_simps)
qed

lemma bit_mask_replace_word:
  assumes "n < 16"
  shows "bit (mask_replace_word msk v i w) n =
    (if bit msk (i * 16 + n) then bit v (i * 16 + n) else bit w n)"
proof -
  define m where "m = (ucast (drop_bit (i * 16) msk) :: u16)"
  have m: "bit m k = (k < 16 \<and> bit msk (i * 16 + k))" for k
    by (auto simp: m_def bit_simps)
  show ?thesis
  proof (cases "m = 0")
    case True
    then have "\<not> bit msk (i * 16 + n)" using m [of n] assms by simp
    with True show ?thesis
      by (simp add: mask_replace_word_def Let_def ucast_and_FFFF flip: m_def)
  next
    case False
    then show ?thesis
      using assms m [of n]
      by (auto simp: mask_replace_word_def Let_def ucast_and_FFFF bit_simps simp flip: m_def)
  qed
qed

lemma load_bits_mask_replace:
  assumes "bits_wf a"
  shows "load_bits (mask_replace m v a) = (load_bits a AND NOT m) OR (v AND m)"
proof (rule bit_word_eqI)
  fix n :: nat assume n: "n < LENGTH(64)"
  have wf: "bits_wf (mask_replace m v a)" using assms by simp
  have "n div 16 < 4" using n by auto
  then have "bit (load_bits (mask_replace m v a)) n = (if bit m n then bit v n else bit (load_bits a) n)"
    using assms n
    by (simp add: bit_load_bits [OF wf] bit_load_bits [OF assms])
      (simp add: mask_replace_def with_write_def bits_wf_def nth_enumerate_eq bit_mask_replace_word)
  then show "bit (load_bits (mask_replace m v a)) n = bit ((load_bits a AND NOT m) OR (v AND m)) n"
    using n by (auto simp: bit_simps)
qed

section \<open>The interface the I/O image uses\<close>

locale bit_register =
  fixes load :: "'r \<Rightarrow> u64" and store :: "u64 \<Rightarrow> 'r \<Rightarrow> 'r"
    and read_bit :: "'r \<Rightarrow> nat \<Rightarrow> bool" and write_bit :: "nat \<Rightarrow> bool \<Rightarrow> 'r \<Rightarrow> bool \<times> 'r"
    and replace :: "u64 \<Rightarrow> u64 \<Rightarrow> 'r \<Rightarrow> 'r" and wf :: "'r \<Rightarrow> bool"
  assumes load_store: "load (store v r) = v"
    and read_bit: "wf r \<Longrightarrow> read_bit r n = bit (load r) n"
    and write_bit: "wf r \<Longrightarrow> n < 64 \<Longrightarrow> load (snd (write_bit n b r)) =
      (if b then set_bit n (load r) else unset_bit n (load r))"
    and write_bit_out: "64 \<le> n \<Longrightarrow> write_bit n b r = (False, r)"
    and replace: "wf r \<Longrightarrow> load (replace m v r) = (load r AND NOT m) OR (v AND m)"
    and wf_store: "wf (store v r)"
    and wf_write_bit: "wf r \<Longrightarrow> wf (snd (write_bit n b r))"
    and wf_replace: "wf r \<Longrightarrow> wf (replace m v r)"
begin

lemma read_after_write:
  "wf r \<Longrightarrow> n < 64 \<Longrightarrow> read_bit (snd (write_bit n b r)) k = (if k = n then b else read_bit r k)"
  by (auto simp: read_bit wf_write_bit write_bit bit_simps dest: bit_imp_le_length)

lemma read_after_replace:
  "wf r \<Longrightarrow> k < 64 \<Longrightarrow> read_bit (replace m v r) k = (if bit m k then bit v k else read_bit r k)"
  by (auto simp: read_bit wf_replace replace bit_simps)

lemma replace_idem: "wf r \<Longrightarrow> load (replace m v (replace m v r)) = load (replace m v r)"
  by (rule bit_word_eqI) (auto simp: replace wf_replace bit_simps)

end

interpretation atomic_bits: bit_register load_bits store_bits get_bit set_bit_at mask_replace bits_wf
  by unfold_locales
    (simp_all add: get_bit_load load_bits_set_bit load_bits_mask_replace, simp add: set_bit_at_def)

end
