(* ===== verification/Mpsc_Ring.thy ===== *)
theory Mpsc_Ring imports Main begin

text \<open>
  \<open>MpscRing<T, N>\<close> of \<open>src/sync.rs\<close>: a bounded queue behind a try-lock.  The queue
  inside keeps one slot free, so it holds at most \<open>N - 1\<close> messages, oldest first.
  \<open>busy\<close> says that another thread holds the lock, in which case every operation gives up.
  The locale \<open>bounded_fifo\<close> is the contract of a first-in first-out queue with a capacity,
  over an abstraction to lists; the ring is interpreted here and the output queue in its own
  theory.
\<close>

definition mpsc_try_enqueue :: "nat \<Rightarrow> bool \<Rightarrow> 'a \<Rightarrow> 'a list \<Rightarrow> bool \<times> 'a list" where
  "mpsc_try_enqueue n busy x q =
     (if busy then (False, q)
      else if length q < n - 1 then (True, q @ [x])
      else (False, q))"

definition mpsc_enqueue_drop_oldest :: "nat \<Rightarrow> bool \<Rightarrow> 'a \<Rightarrow> 'a list \<Rightarrow> 'a list" where
  "mpsc_enqueue_drop_oldest n busy x q =
     (if busy then q
      else if length q < n - 1 then q @ [x]
      else let q1 = tl q in if length q1 < n - 1 then q1 @ [x] else q1)"

definition mpsc_dequeue :: "bool \<Rightarrow> 'a list \<Rightarrow> 'a option \<times> 'a list" where
  "mpsc_dequeue busy q =
     (if busy then (None, q) else case q of [] \<Rightarrow> (None, []) | x # xs \<Rightarrow> (Some x, xs))"

definition mpsc_len :: "bool \<Rightarrow> 'a list \<Rightarrow> nat" where
  "mpsc_len busy q = (if busy then 0 else length q)"

definition mpsc_is_empty :: "bool \<Rightarrow> 'a list \<Rightarrow> bool" where
  "mpsc_is_empty busy q = (if busy then False else q = [])"

section \<open>Bounded queues\<close>

locale bounded_fifo =
  fixes contents :: "'q \<Rightarrow> 'a list" and cap :: nat and wf :: "'q \<Rightarrow> bool"
    and enq :: "'a \<Rightarrow> 'q \<Rightarrow> bool \<times> 'q" and deq :: "'q \<Rightarrow> 'a option \<times> 'q"
  assumes bounded: "wf q \<Longrightarrow> length (contents q) \<le> cap"
    and enq_wf: "wf q \<Longrightarrow> wf (snd (enq x q))"
    and deq_wf: "wf q \<Longrightarrow> wf (snd (deq q))"
    and enq_room: "wf q \<Longrightarrow> length (contents q) < cap \<Longrightarrow>
      fst (enq x q) \<and> contents (snd (enq x q)) = contents q @ [x]"
    and enq_full: "wf q \<Longrightarrow> length (contents q) = cap \<Longrightarrow>
      \<not> fst (enq x q) \<and> contents (snd (enq x q)) = contents q"
    and deq_empty: "wf q \<Longrightarrow> contents q = [] \<Longrightarrow> fst (deq q) = None \<and> contents (snd (deq q)) = []"
    and deq_head: "wf q \<Longrightarrow> contents q = y # ys \<Longrightarrow>
      fst (deq q) = Some y \<and> contents (snd (deq q)) = ys"
begin

lemma enq_contents:
  "wf q \<Longrightarrow> contents (snd (enq x q)) = (if fst (enq x q) then contents q @ [x] else contents q)"
  using bounded [of q] enq_room [of q x] enq_full [of q x] by (cases "length (contents q) < cap") auto

text \<open>Filling an empty queue and draining it returns the accepted values in order.\<close>

primrec enq_all :: "'a list \<Rightarrow> 'q \<Rightarrow> 'q" where
  "enq_all [] q = q"
| "enq_all (x # xs) q = enq_all xs (snd (enq x q))"

primrec deq_n :: "nat \<Rightarrow> 'q \<Rightarrow> 'a list \<times> 'q" where
  "deq_n 0 q = ([], q)"
| "deq_n (Suc n) q =
     (case deq q of
        (None, q1) \<Rightarrow> ([], q1)
      | (Some x, q1) \<Rightarrow> let (xs, q2) = deq_n n q1 in (x # xs, q2))"

lemma enq_all_wf: "wf q \<Longrightarrow> wf (enq_all xs q)"
  by (induction xs arbitrary: q) (auto simp: enq_wf)

lemma enq_all_contents:
  "wf q \<Longrightarrow> length (contents q) + length xs \<le> cap \<Longrightarrow> contents (enq_all xs q) = contents q @ xs"
  by (induction xs arbitrary: q) (auto simp: enq_wf enq_room)

lemma deq_n_contents:
  "wf q \<Longrightarrow> fst (deq_n n q) = take n (contents q)"
proof (induction n arbitrary: q)
  case (Suc n)
  show ?case
  proof (cases "contents q")
    case Nil
    then show ?thesis using deq_empty [OF Suc.prems Nil] by (cases "deq q") auto
  next
    case (Cons y ys)
    then show ?thesis
      using deq_head [OF Suc.prems Cons] Suc.IH [of "snd (deq q)"] deq_wf [OF Suc.prems]
      by (cases "deq q") (auto simp: Let_def split: prod.splits)
  qed
qed simp

lemma fifo_order:
  "wf q \<Longrightarrow> contents q = [] \<Longrightarrow> length xs \<le> cap \<Longrightarrow> fst (deq_n (length xs) (enq_all xs q)) = xs"
  using enq_all_contents [of q xs] deq_n_contents [OF enq_all_wf [of q xs], of "length xs"] by simp

end

interpretation mpsc: bounded_fifo "\<lambda>q. q" "n - 1" "\<lambda>q. length q \<le> n - 1"
    "mpsc_try_enqueue n False" "mpsc_dequeue False" for n :: nat
  by unfold_locales (auto simp: mpsc_try_enqueue_def mpsc_dequeue_def split: list.split)

lemma mpsc_drop_oldest_bounded:
  "length q \<le> n - 1 \<Longrightarrow> length (mpsc_enqueue_drop_oldest n busy x q) \<le> n - 1"
  by (auto simp: mpsc_enqueue_drop_oldest_def Let_def)

lemma mpsc_drop_oldest_contents:
  "length q \<le> n - 1 \<Longrightarrow> 2 \<le> n \<Longrightarrow> mpsc_enqueue_drop_oldest n False x q =
    drop (length q + 1 - (n - 1)) (q @ [x])"
  by (cases q) (auto simp: mpsc_enqueue_drop_oldest_def Let_def)

section \<open>Correctness\<close>

text \<open>Messages that fit the ring leave it in the order in which they were sent.\<close>

theorem mpsc_keeps_order:
  assumes "length xs \<le> n - 1"
  shows "foldl (\<lambda>q x. snd (mpsc_try_enqueue n False x q)) [] xs = xs"
  using assms by (induction xs rule: rev_induct) (auto simp: mpsc_try_enqueue_def)

theorem mpsc_keeps_order_witness:
  "foldl (\<lambda>q x. snd (mpsc_try_enqueue 4 False x q)) [] [1 :: nat, 2, 3] = [1, 2, 3]"
  by (rule mpsc_keeps_order) simp

text \<open>Sending with replacement of the oldest keeps exactly the latest \<open>N - 1\<close> messages.\<close>

theorem mpsc_keeps_latest:
  assumes "2 \<le> n"
  shows "foldl (\<lambda>q x. mpsc_enqueue_drop_oldest n False x q) [] xs = drop (length xs - (n - 1)) xs"
  using assms
proof (induction xs rule: rev_induct)
  case (snoc x xs)
  then show ?case
    by (cases "Suc (length xs) \<le> n") (simp_all add: mpsc_drop_oldest_contents Suc_diff_le)
qed simp


theorem mpsc_keeps_latest_witness:
  "foldl (\<lambda>q x. mpsc_enqueue_drop_oldest 4 False x q) [] [1 :: nat, 2, 3, 4, 5] = [3, 4, 5]"
  using mpsc_keeps_latest [of 4 "[1 :: nat, 2, 3, 4, 5]"] by simp

end
