(* ===== verification/Io_State.thy ===== *)
theory Io_State imports Atomic_Bits begin

text \<open>
  The lock-free I/O image of \<open>src/bus/io_state.rs\<close> and \<open>src/bus/io_global.rs\<close>:
  the digital inputs and outputs as 64-bit registers, the analog input and output arrays with
  their bounds-checked accessors, and the system block with the one-shot reset request.  An
  atomic load or store is a read or write of the field; each operation is one atomic access.
\<close>

section \<open>State\<close>

record ai_state =
  ai_raw :: "u16 list"
  ai_scaled :: "u16 list"
  ai_status :: "u8 list"

record ao_state =
  ao_scaled :: "u16 list"
  ao_duty :: "u32 list"

record sys_state =
  sys_firmware_version :: u16
  sys_uptime_s :: u32
  sys_reset_count :: u16
  sys_reset_reason :: u8
  sys_reset_request :: u8
  sys_log_level :: u8

record io_bundle =
  io_di :: atomic_bits64
  io_do :: atomic_bits64
  io_ai :: ai_state
  io_ao :: ao_state
  io_sys :: sys_state

definition io_bundle_new :: io_bundle where
  "io_bundle_new =
     \<lparr>io_di = bits_new 0, io_do = bits_new 0,
      io_ai = \<lparr>ai_raw = replicate 8 0, ai_scaled = replicate 8 0, ai_status = replicate 8 0\<rparr>,
      io_ao = \<lparr>ao_scaled = replicate 4 0, ao_duty = replicate 4 0\<rparr>,
      io_sys = \<lparr>sys_firmware_version = 0, sys_uptime_s = 0, sys_reset_count = 0,
        sys_reset_reason = 0, sys_reset_request = 0, sys_log_level = 2\<rparr>\<rparr>"

section \<open>Digital inputs and outputs\<close>

definition di_store_bits :: "u64 \<Rightarrow> io_bundle \<Rightarrow> io_bundle" where
  "di_store_bits v io = io\<lparr>io_di := store_bits v (io_di io)\<rparr>"

definition di_set_bit :: "nat \<Rightarrow> bool \<Rightarrow> io_bundle \<Rightarrow> io_bundle" where
  "di_set_bit ch v io = io\<lparr>io_di := snd (set_bit_at ch v (io_di io))\<rparr>"

definition do_store_bits :: "u64 \<Rightarrow> io_bundle \<Rightarrow> io_bundle" where
  "do_store_bits v io = io\<lparr>io_do := store_bits v (io_do io)\<rparr>"

definition do_set_bit :: "nat \<Rightarrow> bool \<Rightarrow> io_bundle \<Rightarrow> io_bundle" where
  "do_set_bit ch v io = io\<lparr>io_do := snd (set_bit_at ch v (io_do io))\<rparr>"

definition do_mask_replace :: "u64 \<Rightarrow> u64 \<Rightarrow> io_bundle \<Rightarrow> io_bundle" where
  "do_mask_replace m v io = io\<lparr>io_do := mask_replace m v (io_do io)\<rparr>"

section \<open>Analog channels\<close>

text \<open>
  \<open>chan_get\<close> and \<open>chan_set\<close> are the two shapes of the accessors: a read beyond
  the array is 0, a write beyond it does nothing.
\<close>

definition chan_get :: "'a::zero list \<Rightarrow> nat \<Rightarrow> 'a" where
  "chan_get xs ch = (if ch < length xs then xs ! ch else 0)"

definition chan_set :: "nat \<Rightarrow> 'a \<Rightarrow> 'a list \<Rightarrow> 'a list" where
  "chan_set ch v xs = (if ch < length xs then xs[ch := v] else xs)"

definition ai_set_raw :: "nat \<Rightarrow> u16 \<Rightarrow> ai_state \<Rightarrow> ai_state" where
  "ai_set_raw ch v a = a\<lparr>ai_raw := chan_set ch v (ai_raw a)\<rparr>"

definition ai_get_raw :: "ai_state \<Rightarrow> nat \<Rightarrow> u16" where
  "ai_get_raw a ch = chan_get (ai_raw a) ch"

definition ai_set_scaled :: "nat \<Rightarrow> u16 \<Rightarrow> ai_state \<Rightarrow> ai_state" where
  "ai_set_scaled ch v a = a\<lparr>ai_scaled := chan_set ch v (ai_scaled a)\<rparr>"

definition ai_get_scaled :: "ai_state \<Rightarrow> nat \<Rightarrow> u16" where
  "ai_get_scaled a ch = chan_get (ai_scaled a) ch"

definition ai_set_status :: "nat \<Rightarrow> u8 \<Rightarrow> ai_state \<Rightarrow> ai_state" where
  "ai_set_status ch v a = a\<lparr>ai_status := chan_set ch v (ai_status a)\<rparr>"

definition ai_get_status :: "ai_state \<Rightarrow> nat \<Rightarrow> u16" where
  "ai_get_status a ch = ucast (chan_get (ai_status a) ch)"

definition ai_read_all_raw :: "ai_state \<Rightarrow> u16 list \<Rightarrow> u16 list" where
  "ai_read_all_raw a buf = map (ai_get_raw a) [0..<length buf]"

definition ai_read_all_scaled :: "ai_state \<Rightarrow> u16 list \<Rightarrow> u16 list" where
  "ai_read_all_scaled a buf = map (ai_get_scaled a) [0..<length buf]"

text \<open>The analog outputs test the literal channel count 4.\<close>

definition ao_set_scaled :: "nat \<Rightarrow> u16 \<Rightarrow> ao_state \<Rightarrow> ao_state" where
  "ao_set_scaled ch v a = (if ch < 4 then a\<lparr>ao_scaled := (ao_scaled a)[ch := v]\<rparr> else a)"

definition ao_get_scaled :: "ao_state \<Rightarrow> nat \<Rightarrow> u16" where
  "ao_get_scaled a ch = (if ch < 4 then ao_scaled a ! ch else 0)"

definition ao_set_duty :: "nat \<Rightarrow> u32 \<Rightarrow> ao_state \<Rightarrow> ao_state" where
  "ao_set_duty ch v a = (if ch < 4 then a\<lparr>ao_duty := (ao_duty a)[ch := v]\<rparr> else a)"

definition ao_get_duty :: "ao_state \<Rightarrow> nat \<Rightarrow> u32" where
  "ao_get_duty a ch = (if ch < 4 then ao_duty a ! ch else 0)"

definition ao_read_all_scaled :: "ao_state \<Rightarrow> u16 list \<Rightarrow> u16 list" where
  "ao_read_all_scaled a buf = map (ao_get_scaled a) [0..<length buf]"

section \<open>The system block\<close>

definition reset_is_valid :: "u8 \<Rightarrow> bool" where
  "reset_is_valid raw \<longleftrightarrow>
     raw = 0xA1 \<or> raw = 0xB2 \<or> raw = 0xC3 \<or> raw = 0xD4 \<or> raw = 0xE5"

datatype reset_source = BLE_AT | BLE_OTA | MODBUS | WEB | WEB_CONFIG_SAVED

fun reset_code :: "reset_source \<Rightarrow> u8" where
  "reset_code BLE_AT = 0xA1"
| "reset_code BLE_OTA = 0xB2"
| "reset_code MODBUS = 0xC3"
| "reset_code WEB = 0xD4"
| "reset_code WEB_CONFIG_SAVED = 0xE5"

definition reset_label :: "u8 \<Rightarrow> string" where
  "reset_label raw =
     (if raw = 0xA1 then ''ble-at'' else if raw = 0xB2 then ''ble-ota''
      else if raw = 0xC3 then ''modbus'' else if raw = 0xD4 then ''web''
      else if raw = 0xE5 then ''web-config-saved'' else ''invalid'')"

definition request_reset :: "reset_source \<Rightarrow> sys_state \<Rightarrow> sys_state" where
  "request_reset src s = s\<lparr>sys_reset_request := reset_code src\<rparr>"

definition take_reset_request :: "sys_state \<Rightarrow> u8 \<times> sys_state" where
  "take_reset_request s = (sys_reset_request s, s\<lparr>sys_reset_request := 0\<rparr>)"

section \<open>Well-formed images\<close>

definition io_wf :: "io_bundle \<Rightarrow> bool" where
  "io_wf io \<longleftrightarrow> bits_wf (io_di io) \<and> bits_wf (io_do io) \<and>
     length (ai_raw (io_ai io)) = 8 \<and> length (ai_scaled (io_ai io)) = 8 \<and>
     length (ai_status (io_ai io)) = 8 \<and>
     length (ao_scaled (io_ao io)) = 4 \<and> length (ao_duty (io_ao io)) = 4"

lemma io_wf_new: "io_wf io_bundle_new"
  by (simp add: io_wf_def io_bundle_new_def)

lemma length_chan_set [simp]: "length (chan_set ch v xs) = length xs"
  by (simp add: chan_set_def)

lemma chan_get_set:
  "chan_get (chan_set ch v xs) k = (if k = ch \<and> ch < length xs then v else chan_get xs k)"
  by (auto simp: chan_get_def chan_set_def)

lemma io_wf_ops [simp]:
  "io_wf io \<Longrightarrow> io_wf (di_store_bits v io)" "io_wf io \<Longrightarrow> io_wf (di_set_bit ch b io)"
  "io_wf io \<Longrightarrow> io_wf (do_store_bits v io)" "io_wf io \<Longrightarrow> io_wf (do_set_bit ch b io)"
  "io_wf io \<Longrightarrow> io_wf (do_mask_replace m v io)"
  "io_wf io \<Longrightarrow> io_wf (io\<lparr>io_ai := ai_set_raw ch w (io_ai io)\<rparr>)"
  "io_wf io \<Longrightarrow> io_wf (io\<lparr>io_ai := ai_set_scaled ch w (io_ai io)\<rparr>)"
  "io_wf io \<Longrightarrow> io_wf (io\<lparr>io_ai := ai_set_status ch x (io_ai io)\<rparr>)"
  "io_wf io \<Longrightarrow> io_wf (io\<lparr>io_ao := ao_set_scaled ch w (io_ao io)\<rparr>)"
  "io_wf io \<Longrightarrow> io_wf (io\<lparr>io_ao := ao_set_duty ch d (io_ao io)\<rparr>)"
  "io_wf io \<Longrightarrow> io_wf (io\<lparr>io_sys := s\<rparr>)"
  by (auto simp: io_wf_def di_store_bits_def di_set_bit_def do_store_bits_def do_set_bit_def
      do_mask_replace_def ai_set_raw_def ai_set_scaled_def ai_set_status_def ao_set_scaled_def
      ao_set_duty_def)

lemma do_bits_after_set:
  assumes "io_wf io" and "ch < 64"
  shows "load_bits (io_do (do_set_bit ch v io)) =
    (if v then set_bit ch (load_bits (io_do io)) else unset_bit ch (load_bits (io_do io)))"
  using assms by (simp add: do_set_bit_def io_wf_def atomic_bits.write_bit)

lemma do_bits_after_replace:
  assumes "io_wf io"
  shows "load_bits (io_do (do_mask_replace m v io)) =
    (load_bits (io_do io) AND NOT m) OR (v AND m)"
  using assms by (simp add: do_mask_replace_def io_wf_def atomic_bits.replace)

lemma reset_is_valid_iff: "reset_is_valid raw \<longleftrightarrow> (\<exists>src. raw = reset_code src)"
  unfolding reset_is_valid_def by (metis reset_code.simps reset_source.exhaust)

lemma reset_code_inject: "reset_code a = reset_code b \<Longrightarrow> a = b"
  by (cases a; cases b) simp_all

lemma reset_label_invalid_iff: "reset_label raw = ''invalid'' \<longleftrightarrow> \<not> reset_is_valid raw"
  by (simp add: reset_label_def reset_is_valid_def)

lemma reset_code_nonzero: "reset_code src \<noteq> 0"
  by (cases src) simp_all

end
