(* ===== verification/System_Config.thy ===== *)
theory System_Config imports Regs begin

text \<open>
  The system configuration of \<open>src/device/system_config.rs\<close>: the record with its
  factory defaults, the 152-byte blob kept in flash, the checks before a save, and the register
  view through which every protocol reads and writes single fields.  The MAC addresses burnt
  into the chip are arguments.
\<close>

section \<open>Data\<close>

record rs485_config =
  rs_baudrate :: u32
  rs_data_bits :: u8
  rs_stop_bits :: u8
  rs_parity :: u8
  rs_slave_addr :: u8
  rs_mode :: u8
  rs_retry_count :: u16
  rs_timeout_ms :: u16
  rs_interval_ms :: u16

definition rs485_default :: rs485_config where
  "rs485_default =
     \<lparr>rs_baudrate = 9600, rs_data_bits = 8, rs_stop_bits = 1, rs_parity = 0, rs_slave_addr = 1,
      rs_mode = 0, rs_retry_count = 0, rs_timeout_ms = 1000, rs_interval_ms = 20\<rparr>"

record system_config =
  sc_sn :: "u8 list"
  sc_name :: "u8 list"
  sc_hw_version :: u16
  sc_fw_version :: u16
  sc_fw_date :: u16
  sc_cfg_version :: u16
  sc_eth_mac :: "u8 list"
  sc_dhcp :: bool
  sc_ip :: "u8 list"
  sc_mask :: "u8 list"
  sc_gateway :: "u8 list"
  sc_dns :: "u8 list"
  sc_ble_mac :: "u8 list"
  sc_ble_name :: "u8 list"
  sc_rs485 :: "rs485_config list"
  sc_tcp_ports :: "u16 list"

datatype write_result = WOk | WPersist | WApply | WReset | WNotFound | WInvalidValue

definition ascii :: "string \<Rightarrow> u8 list" where
  "ascii s = map (\<lambda>c. of_nat (of_char c)) s"

definition config_defaults :: system_config where
  "config_defaults =
     \<lparr>sc_sn = replicate 32 0,
      sc_name = copy_at (replicate 16 0) 0 (ascii ''IMC-S3''),
      sc_hw_version = MODEL_CODE, sc_fw_version = 221, sc_fw_date = 0x0615, sc_cfg_version = 0,
      sc_eth_mac = replicate 6 0, sc_dhcp = False,
      sc_ip = [192, 168, 1, 200], sc_mask = [255, 255, 255, 0],
      sc_gateway = [192, 168, 1, 1], sc_dns = [192, 168, 1, 1],
      sc_ble_mac = replicate 6 0,
      sc_ble_name = copy_at (replicate 8 0) 0 (ascii ''Mesh''),
      sc_rs485 = [rs485_default, rs485_default\<lparr>rs_mode := 1\<rparr>, rs485_default\<lparr>rs_mode := 1\<rparr>],
      sc_tcp_ports = TCP_PORTS_DEFAULT\<rparr>"

text \<open>The array lengths the Rust types fix.\<close>

definition config_wf :: "system_config \<Rightarrow> bool" where
  "config_wf c \<longleftrightarrow> length (sc_sn c) = 32 \<and> length (sc_name c) = 16 \<and>
     length (sc_eth_mac c) = 6 \<and> length (sc_ip c) = 4 \<and> length (sc_mask c) = 4 \<and>
     length (sc_gateway c) = 4 \<and> length (sc_dns c) = 4 \<and> length (sc_ble_mac c) = 6 \<and>
     length (sc_ble_name c) = 8 \<and> length (sc_rs485 c) = 3 \<and> length (sc_tcp_ports c) = 4"

section \<open>Serial numbers and hardware addresses\<close>

definition HEX :: "u8 list" where
  "HEX = ascii ''0123456789ABCDEF''"

definition sn_from_eth_mac :: "u8 list \<Rightarrow> u8 list" where
  "sn_from_eth_mac mac =
     foldl (\<lambda>sn (i, b). sn[4 + i * 2 := HEX ! unat (drop_bit 4 b), 5 + i * 2 := HEX ! unat (b AND 0x0F)])
       (copy_at (replicate 32 0) 0 (ascii ''IMC-'')) (enumerate 0 mac)"

text \<open>The bytes before the first zero, which the string accessors decode.\<close>

definition until_nul :: "u8 list \<Rightarrow> u8 list" where
  "until_nul bs = takeWhile (\<lambda>b. b \<noteq> 0) bs"

definition fill_default_sn_from_eth_mac :: "u8 list \<Rightarrow> system_config \<Rightarrow> bool \<times> system_config" where
  "fill_default_sn_from_eth_mac hw c =
     (if hw = replicate 6 0 \<or> hw = replicate 6 0xFF then (False, c)
      else if until_nul (sc_sn c) \<noteq> [] then (False, c)
      else (True, c\<lparr>sc_sn := sn_from_eth_mac hw\<rparr>))"

definition defaults_with_hardware_sn :: "u8 list \<Rightarrow> system_config" where
  "defaults_with_hardware_sn hw = snd (fill_default_sn_from_eth_mac hw config_defaults)"

definition fill_hw_macs :: "u8 list \<Rightarrow> u8 list \<Rightarrow> system_config \<Rightarrow> system_config" where
  "fill_hw_macs hw_eth hw_ble c =
     (let c1 = (if sc_eth_mac c = replicate 6 0 then c\<lparr>sc_eth_mac := hw_eth\<rparr> else c)
      in if sc_ble_mac c1 = replicate 6 0 then c1\<lparr>sc_ble_mac := hw_ble\<rparr> else c1)"

lemma config_wf_defaults: "config_wf config_defaults"
  by (simp add: config_wf_def config_defaults_def ascii_def)

section \<open>The flash blob\<close>

abbreviation (input) CFG_BLOB_SIZE :: nat where "CFG_BLOB_SIZE \<equiv> 152"
abbreviation (input) OFF_RS485_0 :: nat where "OFF_RS485_0 \<equiv> 92"
abbreviation (input) RS485_ENTRY_SIZE :: nat where "RS485_ENTRY_SIZE \<equiv> 15"
abbreviation (input) OFF_TCP_PORTS :: nat where "OFF_TCP_PORTS \<equiv> 137"

definition le32_bytes :: "u32 \<Rightarrow> u8 list" where
  "le32_bytes w = [ucast w, ucast (drop_bit 8 w), ucast (drop_bit 16 w), ucast (drop_bit 24 w)]"

definition le32 :: "u8 \<Rightarrow> u8 \<Rightarrow> u8 \<Rightarrow> u8 \<Rightarrow> u32" where
  "le32 a b c d = ucast a OR push_bit 8 (ucast b) OR push_bit 16 (ucast c) OR push_bit 24 (ucast d)"

definition encode_rs485 :: "u8 list \<Rightarrow> nat \<Rightarrow> rs485_config \<Rightarrow> u8 list" where
  "encode_rs485 b off r =
     copy_at (copy_at (copy_at
       ((copy_at b off (le32_bytes (rs_baudrate r)))
          [off + 4 := rs_data_bits r, off + 5 := rs_stop_bits r, off + 6 := rs_parity r,
           off + 7 := rs_slave_addr r, off + 8 := rs_mode r])
       (off + 9) (le_bytes (rs_retry_count r)))
       (off + 11) (le_bytes (rs_timeout_ms r)))
       (off + 13) (le_bytes (rs_interval_ms r))"

definition encode_config :: "system_config \<Rightarrow> u8 list" where
  "encode_config c =
     (let b = replicate CFG_BLOB_SIZE 0;
          b = copy_at b 0 (sc_sn c);
          b = copy_at b 32 (sc_name c);
          b = copy_at b 48 (le_bytes (sc_hw_version c));
          b = copy_at b 50 (le_bytes (sc_fw_version c));
          b = copy_at b 52 (le_bytes (sc_cfg_version c));
          b = copy_at b 54 (sc_eth_mac c);
          b = b[60 := (if sc_dhcp c then 1 else 0)];
          b = copy_at b 61 (sc_ip c);
          b = copy_at b 65 (sc_mask c);
          b = copy_at b 69 (sc_gateway c);
          b = copy_at b 73 (sc_dns c);
          b = copy_at b 77 (sc_ble_mac c);
          b = copy_at b 83 (sc_ble_name c);
          b = foldl (\<lambda>b i. encode_rs485 b (OFF_RS485_0 + i * RS485_ENTRY_SIZE) (sc_rs485 c ! i)) b [0..<3]
      in foldl (\<lambda>b (i, port). copy_at b (OFF_TCP_PORTS + i * 2) (le_bytes port)) b
           (enumerate 0 (sc_tcp_ports c)))"

definition decode_rs485 :: "u8 list \<Rightarrow> nat \<Rightarrow> rs485_config" where
  "decode_rs485 b off =
     (let baud = le32 (b ! off) (b ! (off + 1)) (b ! (off + 2)) (b ! (off + 3))
      in \<lparr>rs_baudrate = (if baud = 0 then 9600 else baud),
          rs_data_bits = (if b ! (off + 4) = 0 then 8 else b ! (off + 4)),
          rs_stop_bits = (if b ! (off + 5) = 0 then 1 else b ! (off + 5)),
          rs_parity = b ! (off + 6), rs_slave_addr = b ! (off + 7), rs_mode = b ! (off + 8),
          rs_retry_count = le16 (b ! (off + 9)) (b ! (off + 10)),
          rs_timeout_ms = le16 (b ! (off + 11)) (b ! (off + 12)),
          rs_interval_ms = le16 (b ! (off + 13)) (b ! (off + 14))\<rparr>)"

definition decode_port :: "u8 list \<Rightarrow> nat \<Rightarrow> u16" where
  "decode_port b i =
     (let off = OFF_TCP_PORTS + i * 2; port = le16 (b ! off) (b ! (off + 1))
      in if port = 0 then TCP_PORTS_DEFAULT ! i else port)"

definition decode_config :: "u8 list \<Rightarrow> system_config" where
  "decode_config b =
     (if length b \<noteq> CFG_BLOB_SIZE then config_defaults
      else config_defaults
        \<lparr>sc_sn := slice b 0 32, sc_name := slice b 32 48,
         sc_hw_version := le16 (b ! 48) (b ! 49), sc_fw_version := le16 (b ! 50) (b ! 51),
         sc_cfg_version := le16 (b ! 52) (b ! 53),
         sc_eth_mac := slice b 54 60, sc_dhcp := b ! 60 \<noteq> 0,
         sc_ip := slice b 61 65, sc_mask := slice b 65 69, sc_gateway := slice b 69 73,
         sc_dns := slice b 73 77, sc_ble_mac := slice b 77 83, sc_ble_name := slice b 83 91,
         sc_rs485 := map (\<lambda>i. decode_rs485 b (OFF_RS485_0 + i * RS485_ENTRY_SIZE)) [0..<3],
         sc_tcp_ports := (if length b \<ge> OFF_TCP_PORTS + 8 then map (decode_port b) [0..<4]
           else TCP_PORTS_DEFAULT)\<rparr>)"

section \<open>Checks before a save\<close>

text \<open>The loop of \<open>is_ipv4_netmask\<close> from bit 31 down: no one after a zero.\<close>

fun netmask_loop :: "u32 \<Rightarrow> nat \<Rightarrow> bool \<Rightarrow> bool" where
  "netmask_loop bits 0 saw_zero = True"
| "netmask_loop bits (Suc n) saw_zero =
     (if drop_bit n bits AND 1 = 0 then netmask_loop bits n True
      else if saw_zero then False
      else netmask_loop bits n saw_zero)"

definition be32_of :: "u8 list \<Rightarrow> u32" where
  "be32_of b = le32 (b ! 3) (b ! 2) (b ! 1) (b ! 0)"

definition is_ipv4_netmask :: "u8 list \<Rightarrow> bool" where
  "is_ipv4_netmask v = (if v = [0, 0, 0, 0] then False else netmask_loop (be32_of v) 32 False)"

definition valid_tcp_ports :: "u16 list \<Rightarrow> bool" where
  "valid_tcp_ports ports \<longleftrightarrow>
     list_all (\<lambda>(i, port). port \<noteq> 0 \<and> port \<noteq> 80 \<and> port \<notin> set (take i ports)) (enumerate 0 ports)"

datatype config_error = BadTcpPorts | BadNetmask | BadStaticIp | BadGateway | BadDns | NvsError string

definition validate_for_persistence :: "system_config \<Rightarrow> config_error + unit" where
  "validate_for_persistence c =
     (if \<not> valid_tcp_ports (sc_tcp_ports c) then Inl BadTcpPorts
      else if sc_dhcp c then Inr ()
      else if \<not> is_ipv4_netmask (sc_mask c) then Inl BadNetmask
      else if sc_ip c = [0, 0, 0, 0] \<or> sc_ip c ! 0 \<ge> 224 then Inl BadStaticIp
      else if sc_gateway c = [0, 0, 0, 0] \<or> sc_gateway c ! 0 \<ge> 224 then Inl BadGateway
      else if sc_dns c = [0, 0, 0, 0] \<or> sc_dns c ! 0 \<ge> 224 then Inl BadDns
      else Inr ())"

end
