(* ===== verification/Nvs.thy ===== *)
theory Nvs imports Prelude begin

text \<open>
  The flash key-value store of the platform, as the firmware uses it: typed values under short
  names.  The driver is not part of the firmware, so each write carries an outcome chosen by the
  environment: done, refused with nothing written, or written while the commit reports an error.
  \<open>nvs_set_blob\<close> is \<open>set_blob\<close> of \<open>src/device/nvs_store.rs\<close>.
\<close>

datatype nvs_value = NvU8 u8 | NvU16 u16 | NvU32 u32 | NvBlob "u8 list" | NvStr "u8 list"

type_synonym nvs = "string \<Rightarrow> nvs_value option"

datatype nvs_outcome = NvDone | NvRefused | NvUncommitted

datatype nvs_error = NvInvalidName | NvKeyTooLong | NvDriver

definition nvs_put :: "nvs_outcome \<Rightarrow> string \<Rightarrow> nvs_value \<Rightarrow> nvs \<Rightarrow> (nvs_error + unit) \<times> nvs" where
  "nvs_put oc k v m =
     (case oc of
        NvDone \<Rightarrow> (Inr (), m(k \<mapsto> v))
      | NvRefused \<Rightarrow> (Inl NvDriver, m)
      | NvUncommitted \<Rightarrow> (Inl NvDriver, m(k \<mapsto> v)))"

text \<open>Keys are checked before the driver sees them: no empty name, no NUL, at most 15 bytes.\<close>

definition key_bytes :: "string \<Rightarrow> nvs_error + u8 list" where
  "key_bytes name =
     (if name = [] \<or> CHR 0x00 \<in> set name then Inl NvInvalidName
      else if length name \<ge> 16 then Inl NvKeyTooLong
      else Inr (map (\<lambda>c. of_nat (of_char c)) name @ replicate (16 - length name) 0))"

definition nvs_set_blob ::
  "nvs_outcome \<Rightarrow> string \<Rightarrow> u8 list \<Rightarrow> nvs \<Rightarrow> (nvs_error + unit) \<times> nvs" where
  "nvs_set_blob oc name value m =
     (case key_bytes name of
        Inl e \<Rightarrow> (Inl e, m)
      | Inr _ \<Rightarrow> nvs_put oc name (NvBlob value) m)"

text \<open>Removing a key: the driver reports whether it existed; the caller of the firmware ignores that.\<close>

definition nvs_remove :: "nvs_outcome \<Rightarrow> string \<Rightarrow> nvs \<Rightarrow> (nvs_error + bool) \<times> nvs" where
  "nvs_remove oc k m =
     (case oc of
        NvDone \<Rightarrow> (Inr (m k \<noteq> None), m(k := None))
      | NvRefused \<Rightarrow> (Inl NvDriver, m)
      | NvUncommitted \<Rightarrow> (Inl NvDriver, m(k := None)))"

definition nvs_u8 :: "nvs \<Rightarrow> string \<Rightarrow> u8 option" where
  "nvs_u8 m k = (case m k of Some (NvU8 v) \<Rightarrow> Some v | _ \<Rightarrow> None)"

definition nvs_u16 :: "nvs \<Rightarrow> string \<Rightarrow> u16 option" where
  "nvs_u16 m k = (case m k of Some (NvU16 v) \<Rightarrow> Some v | _ \<Rightarrow> None)"

definition nvs_u32 :: "nvs \<Rightarrow> string \<Rightarrow> u32 option" where
  "nvs_u32 m k = (case m k of Some (NvU32 v) \<Rightarrow> Some v | _ \<Rightarrow> None)"

text \<open>Reading a blob into a buffer of \<open>n\<close> bytes fails when the blob is longer.\<close>

definition nvs_blob :: "nvs \<Rightarrow> string \<Rightarrow> nat \<Rightarrow> nvs_error + u8 list option" where
  "nvs_blob m k n =
     (case m k of
        Some (NvBlob b) \<Rightarrow> (if length b \<le> n then Inr (Some b) else Inl NvDriver)
      | _ \<Rightarrow> Inr None)"

text \<open>Text is stored with a terminating NUL, which must fit the buffer too.\<close>

definition nvs_str :: "nvs \<Rightarrow> string \<Rightarrow> nat \<Rightarrow> nvs_error + u8 list option" where
  "nvs_str m k n =
     (case m k of
        Some (NvStr s) \<Rightarrow> (if length s < n then Inr (Some s) else Inl NvDriver)
      | _ \<Rightarrow> Inr None)"

lemma nvs_put_frame: "k' \<noteq> k \<Longrightarrow> snd (nvs_put oc k v m) k' = m k'"
  by (simp add: nvs_put_def split: nvs_outcome.split)

lemma nvs_put_old_or_new:
  "snd (nvs_put oc k v m) k = m k \<or> snd (nvs_put oc k v m) k = Some v"
  by (simp add: nvs_put_def split: nvs_outcome.split)

lemma nvs_put_ok: "nvs_put oc k v m = (Inr u, m') \<longleftrightarrow> oc = NvDone \<and> m' = m(k \<mapsto> v)"
  by (auto simp: nvs_put_def split: nvs_outcome.splits)

lemma nvs_set_blob_ok:
  "nvs_set_blob oc k b m = (Inr u, m') \<longleftrightarrow>
     (\<exists>kb. key_bytes k = Inr kb) \<and> oc = NvDone \<and> m' = m(k \<mapsto> NvBlob b)"
  by (auto simp: nvs_set_blob_def nvs_put_ok split: sum.splits)

end
