(* ===== verification/Config_Codec.thy ===== *)
theory Config_Codec imports System_Config Nvs begin

text \<open>
  The flash form of the system configuration: \<open>encode\<close> and \<open>decode\<close> are inverse up
  to the fields the blob does not carry, and loading after a completed save gives the saved
  configuration back.
\<close>

section \<open>Layout of the blob\<close>

lemma copy_at_zeros:
  assumes "length xs \<le> i" and "i + length ys \<le> length xs + n"
  shows "copy_at (xs @ replicate n 0) i ys =
    xs @ replicate (i - length xs) 0 @ ys @ replicate (n - (i - length xs) - length ys) 0"
  using assms by (simp add: copy_at_def add.commute)

lemma copy_at_zeros_at:
  assumes "i = length xs" and "length ys \<le> n"
  shows "copy_at (xs @ replicate n 0) i ys = (xs @ ys) @ replicate (n - length ys) 0"
  using assms by (simp add: copy_at_zeros)

lemma list_update_copy_at: "i < length xs \<Longrightarrow> xs[i := v] = copy_at xs i [v]"
  by (simp add: copy_at_def upd_conv_take_nth_drop)

lemma length_le32_bytes [simp]: "length (le32_bytes w) = 4"
  by (simp add: le32_bytes_def)

lemma bit_le32:
  "bit (le32 a b c d) n \<longleftrightarrow>
    (if n < 8 then bit a n else if n < 16 then bit b (n - 8)
     else if n < 24 then bit c (n - 16) else n < 32 \<and> bit d (n - 24))"
proof -
  have *: "bit (le32 a b c d) n \<longleftrightarrow> n < 32 \<and> (bit a n \<or> 8 \<le> n \<and> bit b (n - 8) \<or>
      16 \<le> n \<and> bit c (n - 16) \<or> 24 \<le> n \<and> bit d (n - 24))"
    by (auto simp: le32_def bit_or_iff bit_push_bit_iff bit_ucast_iff dest: bit_imp_le_length)
  consider "n < 8" | "8 \<le> n \<and> n < 16" | "16 \<le> n \<and> n < 24" | "24 \<le> n" by linarith
  then show ?thesis
    unfolding * by cases (auto dest: bit_imp_le_length)
qed

lemma le32_le32_bytes:
  "le32 (ucast w) (ucast (drop_bit 8 w)) (ucast (drop_bit 16 w)) (ucast (drop_bit 24 w)) = w"
  by (rule bit_word_eqI) (auto simp: bit_le32 bit_ucast_iff bit_drop_bit_eq)

definition rs485_bytes :: "rs485_config \<Rightarrow> u8 list" where
  "rs485_bytes r =
     le32_bytes (rs_baudrate r) @
     [rs_data_bits r, rs_stop_bits r, rs_parity r, rs_slave_addr r, rs_mode r] @
     le_bytes (rs_retry_count r) @ le_bytes (rs_timeout_ms r) @ le_bytes (rs_interval_ms r)"

lemma length_rs485_bytes [simp]: "length (rs485_bytes r) = 15"
  by (simp add: rs485_bytes_def)

lemma encode_rs485_zeros:
  assumes "15 \<le> n" and "off = length xs"
  shows "encode_rs485 (xs @ replicate n 0) off r = (xs @ rs485_bytes r) @ replicate (n - 15) 0"
  using assms
  by (simp add: encode_rs485_def rs485_bytes_def list_update_copy_at copy_at_zeros_at
      del: append_assoc)

definition header_bytes :: "system_config \<Rightarrow> u8 list" where
  "header_bytes c =
     sc_sn c @ sc_name c @ le_bytes (sc_hw_version c) @ le_bytes (sc_fw_version c) @
     le_bytes (sc_cfg_version c) @ sc_eth_mac c @ [if sc_dhcp c then 1 else 0] @ sc_ip c @
     sc_mask c @ sc_gateway c @ sc_dns c @ sc_ble_mac c @ sc_ble_name c @ [0]"

lemma config_lengths:
  assumes "config_wf c"
  shows "length (sc_sn c) = 32" "length (sc_name c) = 16" "length (sc_eth_mac c) = 6"
    "length (sc_ip c) = 4" "length (sc_mask c) = 4" "length (sc_gateway c) = 4"
    "length (sc_dns c) = 4" "length (sc_ble_mac c) = 6" "length (sc_ble_name c) = 8"
    "length (sc_rs485 c) = 3" "length (sc_tcp_ports c) = 4"
  using assms by (auto simp: config_wf_def)

lemma length_header_bytes: "config_wf c \<Longrightarrow> length (header_bytes c) = 92"
  by (simp add: header_bytes_def config_lengths)

lemma encode_config_layout:
  assumes wf: "config_wf c" and r: "sc_rs485 c = [r0, r1, r2]" and p: "sc_tcp_ports c = [p0, p1, p2, p3]"
  shows "encode_config c = header_bytes c @ rs485_bytes r0 @ rs485_bytes r1 @ rs485_bytes r2 @
    le_bytes p0 @ le_bytes p1 @ le_bytes p2 @ le_bytes p3 @ replicate 7 0"
proof -
  have start: "copy_at (replicate 152 0) 0 (sc_sn c) = sc_sn c @ replicate 120 0"
    using copy_at_zeros_at [of 0 "[]" "sc_sn c" 152] config_lengths [OF wf] by simp
  have idx: "[0..<3] = [0, 1, 2::nat]" by (simp add: upt_rec)
  have gap: "\<And>xs ys. length xs = 91 \<Longrightarrow> xs @ replicate 61 0 = (xs @ [0]) @ replicate 60 (0::u8)"
    by (simp add: numeral_eq_Suc)
  have "encode_config c =
    foldl (\<lambda>b (i, port). copy_at b (137 + i * 2) (le_bytes port))
     (foldl (\<lambda>b i. encode_rs485 b (92 + i * 15) (sc_rs485 c ! i))
       (header_bytes c @ replicate 60 0) [0..<3]) (enumerate 0 (sc_tcp_ports c))"
    using config_lengths [OF wf]
    by (simp add: encode_config_def Let_def start list_update_copy_at copy_at_zeros_at gap header_bytes_def
        del: append_assoc) simp
  then show ?thesis
    using config_lengths [OF wf] length_header_bytes [OF wf]
    by (simp add: idx r p encode_rs485_zeros copy_at_zeros_at del: append_assoc)
qed

section \<open>Decoding what was encoded\<close>

text \<open>
  \<open>decode\<close> replaces the zeros an erased or older entry would have by factory values.
\<close>

definition rs485_filled :: "rs485_config \<Rightarrow> rs485_config" where
  "rs485_filled r =
     r\<lparr>rs_baudrate := (if rs_baudrate r = 0 then 9600 else rs_baudrate r),
       rs_data_bits := (if rs_data_bits r = 0 then 8 else rs_data_bits r),
       rs_stop_bits := (if rs_stop_bits r = 0 then 1 else rs_stop_bits r)\<rparr>"

definition filled_port :: "nat \<Rightarrow> u16 \<Rightarrow> u16" where
  "filled_port i p = (if p = 0 then TCP_PORTS_DEFAULT ! i else p)"

definition config_filled :: "system_config \<Rightarrow> system_config" where
  "config_filled c =
     c\<lparr>sc_fw_date := 0x0615, sc_rs485 := map rs485_filled (sc_rs485 c),
       sc_tcp_ports := map (\<lambda>(i, p). filled_port i p) (enumerate 0 (sc_tcp_ports c))\<rparr>"

lemma nth_append_at: "i = length xs + k \<Longrightarrow> (xs @ ys) ! i = ys ! k"
  by simp

lemma decode_rs485_bytes:
  assumes "length xs = off"
  shows "decode_rs485 (xs @ rs485_bytes r @ zs) off = rs485_filled r"
  using assms
  by (cases r)
    (simp add: decode_rs485_def rs485_bytes_def rs485_filled_def Let_def nth_append le32_bytes_def
      le_bytes_def le32_le32_bytes)

lemma decode_port_bytes:
  assumes "length xs = 137 + i * 2"
  shows "decode_port (xs @ le_bytes p @ zs) i = filled_port i p"
  using assms by (simp add: decode_port_def filled_port_def Let_def nth_append le_bytes_def)

lemma length_encode_config: "config_wf c \<Longrightarrow> length (encode_config c) = CFG_BLOB_SIZE"
proof -
  assume wf: "config_wf c"
  obtain r0 r1 r2 where r: "sc_rs485 c = [r0, r1, r2]"
    using config_lengths(10) [OF wf] by (auto simp: length_Suc_conv numeral_eq_Suc)
  obtain p0 p1 p2 p3 where p: "sc_tcp_ports c = [p0, p1, p2, p3]"
    using config_lengths(11) [OF wf] by (auto simp: length_Suc_conv numeral_eq_Suc)
  show ?thesis by (simp add: encode_config_layout [OF wf r p] length_header_bytes [OF wf])
qed

lemma decode_encode_config:
  assumes wf: "config_wf c"
  shows "decode_config (encode_config c) = config_filled c"
proof -
  obtain r0 r1 r2 where r: "sc_rs485 c = [r0, r1, r2]"
    using config_lengths(10) [OF wf] by (auto simp: length_Suc_conv numeral_eq_Suc)
  obtain p0 p1 p2 p3 where p: "sc_tcp_ports c = [p0, p1, p2, p3]"
    using config_lengths(11) [OF wf] by (auto simp: length_Suc_conv numeral_eq_Suc)
  define h where "h = header_bytes c"
  define tl where "tl = rs485_bytes r0 @ rs485_bytes r1 @ rs485_bytes r2 @
    le_bytes p0 @ le_bytes p1 @ le_bytes p2 @ le_bytes p3 @ replicate 7 (0::u8)"
  have h: "length h = 92" by (simp add: h_def length_header_bytes [OF wf])
  have e: "encode_config c = h @ tl"
    unfolding h_def tl_def by (rule encode_config_layout [OF wf r p])
  have rs: "map (\<lambda>i. decode_rs485 (h @ tl) (92 + i * 15)) [0..<3] = map rs485_filled (sc_rs485 c)"
    using decode_rs485_bytes [of h 92 r0] decode_rs485_bytes [of "h @ rs485_bytes r0" 107 r1]
      decode_rs485_bytes [of "h @ rs485_bytes r0 @ rs485_bytes r1" 122 r2]
    by (simp add: r tl_def h upt_rec)
  have idx: "[0..<4] = [0, 1, 2, 3::nat]" by (simp add: upt_rec)
  have ports: "map (decode_port (h @ tl)) [0..<4] =
      map (\<lambda>(i, p). filled_port i p) (enumerate 0 (sc_tcp_ports c))"
    using decode_port_bytes [of "h @ rs485_bytes r0 @ rs485_bytes r1 @ rs485_bytes r2" 0 p0]
      decode_port_bytes [of "h @ rs485_bytes r0 @ rs485_bytes r1 @ rs485_bytes r2 @ le_bytes p0" 1 p1]
      decode_port_bytes [of "h @ rs485_bytes r0 @ rs485_bytes r1 @ rs485_bytes r2 @ le_bytes p0 @ le_bytes p1" 2 p2]
      decode_port_bytes [of "h @ rs485_bytes r0 @ rs485_bytes r1 @ rs485_bytes r2 @ le_bytes p0 @ le_bytes p1 @ le_bytes p2" 3 p3]
    by (simp add: p tl_def h idx numeral_2_eq_2 numeral_3_eq_3)
  have len: "length (h @ tl) = 152" by (simp add: h tl_def)
  have hdr: "slice (h @ tl) 0 32 = sc_sn c" "slice (h @ tl) 32 48 = sc_name c"
    "le16 ((h @ tl) ! 48) ((h @ tl) ! 49) = sc_hw_version c"
    "le16 ((h @ tl) ! 50) ((h @ tl) ! 51) = sc_fw_version c"
    "le16 ((h @ tl) ! 52) ((h @ tl) ! 53) = sc_cfg_version c"
    "slice (h @ tl) 54 60 = sc_eth_mac c" "((h @ tl) ! 60 \<noteq> 0) = sc_dhcp c"
    "slice (h @ tl) 61 65 = sc_ip c" "slice (h @ tl) 65 69 = sc_mask c"
    "slice (h @ tl) 69 73 = sc_gateway c" "slice (h @ tl) 73 77 = sc_dns c"
    "slice (h @ tl) 77 83 = sc_ble_mac c" "slice (h @ tl) 83 91 = sc_ble_name c"
    by (simp_all add: h_def header_bytes_def config_lengths [OF wf] slice_def nth_append le_bytes_def)
  show ?thesis
    using len hdr rs ports
    by (simp add: decode_config_def e del: append_assoc upt_Suc)
      (rule system_config.equality; simp add: config_filled_def config_defaults_def)
qed

section \<open>Flash\<close>

abbreviation (input) NVS_MAGIC :: u32 where "NVS_MAGIC \<equiv> 0x494D4346"
abbreviation (input) NVS_SCHEMA_VERSION :: u16 where "NVS_SCHEMA_VERSION \<equiv> 0x0207"
abbreviation (input) NVS_KEY_BLOB :: string where "NVS_KEY_BLOB \<equiv> ''sys_cfg''"
abbreviation (input) NVS_KEY_MAGIC :: string where "NVS_KEY_MAGIC \<equiv> ''sys_cfg_mag''"
abbreviation (input) NVS_KEY_SCHEMA :: string where "NVS_KEY_SCHEMA \<equiv> ''sys_cfg_ver''"

text \<open>
  \<open>rd k\<close> tells whether the driver can read key \<open>k\<close>; a failed read of a number or
  blob is reported with the key.
\<close>

definition load_config :: "(string \<Rightarrow> bool) \<Rightarrow> nvs \<Rightarrow> config_error + system_config" where
  "load_config rd m =
     (if \<not> rd NVS_KEY_MAGIC then Inl (NvsError NVS_KEY_MAGIC)
      else if \<not> rd NVS_KEY_SCHEMA then Inl (NvsError NVS_KEY_SCHEMA)
      else let magic = case_option 0 id (nvs_u32 m NVS_KEY_MAGIC);
               schema = case_option 0 id (nvs_u16 m NVS_KEY_SCHEMA)
        in if magic \<noteq> NVS_MAGIC \<or> schema \<noteq> NVS_SCHEMA_VERSION then Inr config_defaults
        else if \<not> rd NVS_KEY_BLOB then Inl (NvsError NVS_KEY_BLOB)
        else (case nvs_blob m NVS_KEY_BLOB CFG_BLOB_SIZE of
                Inl e \<Rightarrow> Inl (NvsError NVS_KEY_BLOB)
              | Inr None \<Rightarrow> Inr config_defaults
              | Inr (Some d) \<Rightarrow>
                  if length d \<noteq> CFG_BLOB_SIZE then Inr config_defaults else Inr (decode_config d)))"

text \<open>\<open>oc\<close> gives the outcome of the write to each key.\<close>

definition save_config ::
  "(string \<Rightarrow> nvs_outcome) \<Rightarrow> system_config \<Rightarrow> nvs \<Rightarrow> (config_error + unit) \<times> nvs" where
  "save_config oc c m =
     (case validate_for_persistence c of
        Inl e \<Rightarrow> (Inl e, m)
      | Inr _ \<Rightarrow>
          (case nvs_set_blob (oc NVS_KEY_BLOB) NVS_KEY_BLOB (encode_config c) m of
             (Inl e, m1) \<Rightarrow> (Inl (NvsError NVS_KEY_BLOB), m1)
           | (Inr _, m1) \<Rightarrow>
               (case nvs_put (oc NVS_KEY_MAGIC) NVS_KEY_MAGIC (NvU32 NVS_MAGIC) m1 of
                  (Inl e, m2) \<Rightarrow> (Inl (NvsError NVS_KEY_MAGIC), m2)
                | (Inr _, m2) \<Rightarrow>
                    (case nvs_put (oc NVS_KEY_SCHEMA) NVS_KEY_SCHEMA (NvU16 NVS_SCHEMA_VERSION) m2 of
                       (Inl e, m3) \<Rightarrow> (Inl (NvsError NVS_KEY_SCHEMA), m3)
                     | (Inr _, m3) \<Rightarrow> (Inr (), m3)))))"

lemma save_config_ok:
  assumes "save_config oc c m = (Inr (), m')"
  shows "validate_for_persistence c = Inr ()"
    and "m' = m(NVS_KEY_BLOB \<mapsto> NvBlob (encode_config c), NVS_KEY_MAGIC \<mapsto> NvU32 NVS_MAGIC,
      NVS_KEY_SCHEMA \<mapsto> NvU16 NVS_SCHEMA_VERSION)"
  using assms by (auto simp: save_config_def nvs_set_blob_ok nvs_put_ok split: sum.splits prod.splits)

lemma load_config_saved:
  assumes "config_wf c"
  shows "load_config (\<lambda>_. True)
      (m(NVS_KEY_BLOB \<mapsto> NvBlob (encode_config c), NVS_KEY_MAGIC \<mapsto> NvU32 NVS_MAGIC,
         NVS_KEY_SCHEMA \<mapsto> NvU16 NVS_SCHEMA_VERSION)) = Inr (config_filled c)"
  using assms
  by (simp add: load_config_def nvs_u32_def nvs_u16_def nvs_blob_def length_encode_config
      decode_encode_config)

lemma nvs_set_blob_old_or_new:
  "snd (nvs_set_blob oc k b m) = m \<or> snd (nvs_set_blob oc k b m) = m(k \<mapsto> NvBlob b)"
  by (simp add: nvs_set_blob_def nvs_put_def split: sum.split nvs_outcome.split)

text \<open>However a save ends, flash holds the old blob or the whole new one.\<close>

lemma save_config_blob:
  "snd (save_config oc c m) NVS_KEY_BLOB = m NVS_KEY_BLOB \<or>
   snd (save_config oc c m) NVS_KEY_BLOB = Some (NvBlob (encode_config c))"
  by (simp add: save_config_def nvs_set_blob_def nvs_put_def split: sum.split nvs_outcome.split)

lemma save_config_rejected:
  "validate_for_persistence c = Inl e \<Longrightarrow> save_config oc c m = (Inl e, m)"
  by (simp add: save_config_def)

text \<open>After a marked store, a torn save still leaves one of the two configurations.\<close>

lemma load_after_torn_save:
  assumes wf: "config_wf c" "config_wf c0"
    and m: "m NVS_KEY_BLOB = Some (NvBlob (encode_config c0))" "m NVS_KEY_MAGIC = Some (NvU32 NVS_MAGIC)"
      "m NVS_KEY_SCHEMA = Some (NvU16 NVS_SCHEMA_VERSION)"
  shows "load_config (\<lambda>_. True) (snd (save_config oc c m)) \<in>
    {Inr (config_filled c0), Inr (config_filled c)}"
proof -
  have "snd (save_config oc c m) NVS_KEY_MAGIC = Some (NvU32 NVS_MAGIC) \<and>
      snd (save_config oc c m) NVS_KEY_SCHEMA = Some (NvU16 NVS_SCHEMA_VERSION)"
    by (simp add: save_config_def nvs_set_blob_def nvs_put_def m split: sum.split nvs_outcome.split)
  with save_config_blob [of oc c m] show ?thesis
    by (auto simp: load_config_def nvs_u32_def nvs_u16_def nvs_blob_def m
        length_encode_config [OF wf(1)] decode_encode_config [OF wf(1)]
        length_encode_config [OF wf(2)] decode_encode_config [OF wf(2)])
qed

section \<open>Netmasks and ports\<close>

lemma drop_bit_and_1: "(drop_bit n w AND 1 = 0) = (\<not> bit w n)" for w :: "'a::len word"
  by (simp add: and_one_eq mod2_eq_if bit_iff_odd_drop_bit)

lemma netmask_loop_True: "netmask_loop bits n True \<longleftrightarrow> (\<forall>k<n. \<not> bit bits k)"
  by (induction n) (auto simp: drop_bit_and_1 less_Suc_eq)

lemma netmask_loop_False:
  "netmask_loop bits n False \<longleftrightarrow> (\<exists>z\<le>n. \<forall>k<n. bit bits k \<longleftrightarrow> z \<le> k)"
proof (induction n)
  case 0
  then show ?case by simp
next
  case (Suc n)
  show ?case
  proof (cases "bit bits n")
    case True
    then have "netmask_loop bits (Suc n) False = netmask_loop bits n False"
      by (simp add: drop_bit_and_1)
    also have "\<dots> \<longleftrightarrow> (\<exists>z\<le>Suc n. \<forall>k<Suc n. bit bits k \<longleftrightarrow> z \<le> k)"
      unfolding Suc using True by (auto simp: less_Suc_eq le_Suc_eq)
    finally show ?thesis .
  next
    case False
    then have "netmask_loop bits (Suc n) False \<longleftrightarrow> (\<forall>k<n. \<not> bit bits k)"
      by (simp add: drop_bit_and_1 netmask_loop_True)
    also have "\<dots> \<longleftrightarrow> (\<exists>z\<le>Suc n. \<forall>k<Suc n. bit bits k \<longleftrightarrow> z \<le> k)"
      using False by (auto simp: less_Suc_eq intro!: exI [of _ "Suc n"])
    finally show ?thesis .
  qed
qed

lemma be32_of_eq_0: "length v = 4 \<Longrightarrow> be32_of v = 0 \<longleftrightarrow> v = [0, 0, 0, 0]"
proof
  assume len: "length v = 4" and z: "be32_of v = 0"
  obtain a b c d where v: "v = [a, b, c, d]"
    using len by (auto simp: length_Suc_conv numeral_eq_Suc)
  have z: "\<not> bit (le32 d c b a) n" for n
    using z by (simp add: be32_of_def v)
  have bits: "\<not> bit a n" "\<not> bit b n" "\<not> bit c n" "\<not> bit d n" if "n < 8" for n
    using z [of "n + 24"] z [of "n + 16"] z [of "n + 8"] z [of n] that by (simp_all add: bit_le32)
  have "a = 0 \<and> b = 0 \<and> c = 0 \<and> d = 0"
    by (intro conjI; rule bit_word_eqI) (simp_all add: bits)
  then  show "v = [0, 0, 0, 0]" by (simp add: v)
next
  assume "v = [0, 0, 0, 0]"
  then show "be32_of v = 0" by (simp add: be32_of_def le32_def)
qed

lemma is_ipv4_netmask_iff:
  assumes "length v = 4"
  shows "is_ipv4_netmask v \<longleftrightarrow> (\<exists>p\<in>{1..32}. be32_of v = push_bit (32 - p) (mask p))"
proof -
  have eq: "(\<forall>k<32. bit (be32_of v) k \<longleftrightarrow> z \<le> k) \<longleftrightarrow> be32_of v = push_bit z (mask (32 - z))"
    if "z \<le> 32" for z
    using that by (auto simp: bit_eq_iff bit_simps dest: bit_imp_le_length)
  have loop: "netmask_loop (be32_of v) 32 False \<longleftrightarrow>
      (\<exists>z\<le>32. be32_of v = push_bit z (mask (32 - z)))"
    unfolding netmask_loop_False using eq by blast
  have "is_ipv4_netmask v \<longleftrightarrow> be32_of v \<noteq> 0 \<and> (\<exists>z\<le>32. be32_of v = push_bit z (mask (32 - z)))"
    using assms by (simp add: is_ipv4_netmask_def be32_of_eq_0 loop)
  also have "\<dots> \<longleftrightarrow> (\<exists>p\<in>{1..32}. be32_of v = push_bit (32 - p) (mask p))"
  proof
    assume "be32_of v \<noteq> 0 \<and> (\<exists>z\<le>32. be32_of v = push_bit z (mask (32 - z)))"
    then obtain z where z: "z \<le> 32" "be32_of v = push_bit z (mask (32 - z))" "be32_of v \<noteq> 0" by auto
    then have "z < 32" by (cases "z = 32") auto
    with z show "\<exists>p\<in>{1..32}. be32_of v = push_bit (32 - p) (mask p)"
      by (intro bexI [of _ "32 - z"]) auto
  next
    assume "\<exists>p\<in>{1..32}. be32_of v = push_bit (32 - p) (mask p)"
    then obtain p where p: "1 \<le> p" "p \<le> 32" "be32_of v = push_bit (32 - p) (mask p)" by auto
    have "bit (push_bit (32 - p) (mask p) :: u32) 31" using p by (auto simp: bit_simps)
    then have "be32_of v \<noteq> 0" unfolding p(3) by (metis bit_0_eq bot_apply bot_bool_def)
    with p show "be32_of v \<noteq> 0 \<and> (\<exists>z\<le>32. be32_of v = push_bit z (mask (32 - z)))"
      by (auto intro!: exI [of _ "32 - p"])
  qed
  finally show ?thesis .
qed

lemma valid_tcp_ports_iff:
  "valid_tcp_ports ports \<longleftrightarrow> distinct ports \<and> 0 \<notin> set ports \<and> 80 \<notin> set ports"
proof -
  have "valid_tcp_ports ports \<longleftrightarrow> (\<forall>i<length ports. ports ! i \<noteq> 0 \<and> ports ! i \<noteq> 80 \<and>
      ports ! i \<notin> set (take i ports))"
    by (simp add: valid_tcp_ports_def list_all_length nth_enumerate_eq)
  also have "\<dots> \<longleftrightarrow> distinct ports \<and> 0 \<notin> set ports \<and> 80 \<notin> set ports"
    by (induction ports rule: rev_induct) (auto simp: less_Suc_eq nth_append all_conj_distrib)
  finally show ?thesis .
qed

section \<open>Correctness\<close>

lemma config_filled_ports:
  assumes "0 \<notin> set ports"
  shows "map (\<lambda>(i, p). filled_port i p) (enumerate k ports) = ports"
  using assms by (induction ports arbitrary: k) (auto simp: filled_port_def)

text \<open>C5: A configuration that was saved without an error is read back on the next boot, with the
  build's firmware date and with defaults where a serial port had no baud rate, data bits or stop
  bits.\<close>

theorem load_after_save:
  assumes "config_wf c" and "save_config oc c m = (Inr (), m')"
  shows "load_config (\<lambda>_. True) m' =
    Inr (c\<lparr>sc_fw_date := 0x0615, sc_rs485 := map rs485_filled (sc_rs485 c)\<rparr>)"
proof -
  have valid: "validate_for_persistence c = Inr ()" by (rule save_config_ok(1) [OF assms(2)])
  then have "0 \<notin> set (sc_tcp_ports c)"
    by (auto simp: validate_for_persistence_def valid_tcp_ports_iff split: if_splits)
  then have "config_filled c = c\<lparr>sc_fw_date := 0x0615, sc_rs485 := map rs485_filled (sc_rs485 c)\<rparr>"
    by (simp add: config_filled_def config_filled_ports)
  then show ?thesis using load_config_saved [OF assms(1), of m] save_config_ok(2) [OF assms(2)] by simp
qed

lemma netmask_24: "is_ipv4_netmask [255, 255, 255, 0]"
  by code_simp

lemma save_defaults_ok: "fst (save_config (\<lambda>_. NvDone) config_defaults m) = Inr ()"
  by (simp add: save_config_def nvs_set_blob_def nvs_put_def key_bytes_def
      validate_for_persistence_def config_defaults_def valid_tcp_ports_iff netmask_24)

theorem load_after_save_witness:
  "load_config (\<lambda>_. True) (snd (save_config (\<lambda>_. NvDone) config_defaults Map.empty)) =
     Inr config_defaults"
  using load_after_save [OF config_wf_defaults, of "\<lambda>_. NvDone" Map.empty]
    save_defaults_ok [of Map.empty]
  by (cases "save_config (\<lambda>_. NvDone) config_defaults Map.empty")
    (simp add: config_defaults_def rs485_filled_def rs485_default_def)

text \<open>C6: Power loss.  Whatever happens to each of the flash writes of a later save, the next boot
  reads either the earlier configuration or the new one, never a mixture and never an error.\<close>

theorem torn_save_keeps_a_config:
  assumes "config_wf c0" and "config_wf c" and "save_config oc0 c0 m0 = (Inr (), m)"
  shows "load_config (\<lambda>_. True) (snd (save_config oc c m)) \<in>
    {Inr (config_filled c0), Inr (config_filled c)}"
  by (rule load_after_torn_save [OF assms(2,1)]) (simp_all add: save_config_ok(2) [OF assms(3)])

theorem torn_save_keeps_a_config_witness:
  "load_config (\<lambda>_. True) (snd (save_config (\<lambda>k. if k = ''sys_cfg'' then NvUncommitted else NvRefused)
      (config_defaults\<lparr>sc_dhcp := True\<rparr>) (snd (save_config (\<lambda>_. NvDone) config_defaults Map.empty)))) \<in>
    {Inr (config_filled config_defaults), Inr (config_filled (config_defaults\<lparr>sc_dhcp := True\<rparr>))}"
  using torn_save_keeps_a_config [OF config_wf_defaults, of "config_defaults\<lparr>sc_dhcp := True\<rparr>"
      "\<lambda>_. NvDone" Map.empty]
    save_defaults_ok [of Map.empty] config_wf_defaults
  by (cases "save_config (\<lambda>_. NvDone) config_defaults Map.empty") (simp add: config_wf_def)

text \<open>The netmask test accepts exactly the masks with a prefix of 1 to 32 one bits followed by
  zero bits.\<close>

theorem netmask_is_prefix:
  "is_ipv4_netmask [a, b, c, d] \<longleftrightarrow>
    (\<exists>p. 1 \<le> p \<and> p \<le> 32 \<and> be32_of [a, b, c, d] = push_bit (32 - p) (mask p))"
  by (subst is_ipv4_netmask_iff) auto

end
