(* ===== verification/Config_Registers.thy ===== *)
theory Config_Registers imports System_Config begin

text \<open>
  The register view of the system configuration (\<open>read_reg\<close> and \<open>write_reg\<close> of
  \<open>src/device/system_config.rs\<close>).  The code decides an address by a chain of range tests;
  \<open>locate\<close> names the field an address denotes, and the lemmas show that both functions act
  on that field only: a successful write is read back in its canonical form and no other register
  changes.
\<close>

section \<open>Field helpers\<close>

definition read_ipv4 :: "u8 list \<Rightarrow> u16 \<Rightarrow> u16 \<Rightarrow> u16 option" where
  "read_ipv4 bytes base addr =
     (case checked_sub addr base of
        None \<Rightarrow> None
      | Some off \<Rightarrow> if off \<ge> 4 then None else Some (ucast (bytes ! unat off)))"

definition write_ipv4 :: "u8 list \<Rightarrow> u16 \<Rightarrow> u16 \<Rightarrow> u16 \<Rightarrow> u8 list option" where
  "write_ipv4 bytes base addr v =
     (case checked_sub addr base of
        None \<Rightarrow> None
      | Some off \<Rightarrow> if off \<ge> 4 then None else Some (bytes[unat off := ucast (v AND 0xFF)]))"

definition read_mac :: "u8 list \<Rightarrow> u16 \<Rightarrow> u16 \<Rightarrow> u16 option" where
  "read_mac bytes base addr =
     (case checked_sub addr base of
        None \<Rightarrow> None
      | Some off \<Rightarrow> if off \<ge> 6 then None else Some (ucast (bytes ! unat off)))"

definition write_mac :: "u8 list \<Rightarrow> u16 \<Rightarrow> u16 \<Rightarrow> u16 \<Rightarrow> u8 list option" where
  "write_mac bytes base addr v =
     (case checked_sub addr base of
        None \<Rightarrow> None
      | Some off \<Rightarrow> if off \<ge> 6 then None else Some (bytes[unat off := ucast (v AND 0xFF)]))"

text \<open>A pair of bytes as one big-endian register.\<close>

definition read_pair :: "u8 list \<Rightarrow> nat \<Rightarrow> u16" where
  "read_pair bs idx = be16 (bs ! idx) (bs ! (idx + 1))"

definition write_pair :: "u8 list \<Rightarrow> nat \<Rightarrow> u16 \<Rightarrow> u8 list" where
  "write_pair bs idx v = bs[idx := hi8 v, idx + 1 := lo8 v]"

section \<open>RS485 words\<close>

definition baud_index :: "u32 \<Rightarrow> u16" where
  "baud_index b =
     (if b = 1200 then 1 else if b = 2400 then 2 else if b = 4800 then 3 else if b = 9600 then 4
      else if b = 14400 then 5 else if b = 19200 then 6 else if b = 38400 then 7
      else if b = 57600 then 8 else if b = 115200 then 9 else if b = 128000 then 10
      else if b = 153600 then 11 else if b = 230400 then 12 else if b = 256000 then 13
      else if b = 460800 then 14 else if b = 921600 then 15 else 4)"

definition baud_table :: "u32 list" where
  "baud_table = [9600, 1200, 2400, 4800, 9600, 14400, 19200, 38400, 57600, 115200,
     128000, 153600, 230400, 256000, 460800, 921600]"

definition rs485_word1 :: "rs485_config \<Rightarrow> u16" where
  "rs485_word1 r =
     (let port_mode = (if rs_mode r = 0 then 1 else 0)
      in push_bit 12 (baud_index (rs_baudrate r))
         OR push_bit 10 (ucast (rs_parity r) AND 3)
         OR push_bit 9 (ucast (saturating_sub (rs_stop_bits r) 1) AND 1)
         OR push_bit 8 (if rs_data_bits r = 7 then 1 else 0)
         OR port_mode)"

definition rs485_read :: "rs485_config \<Rightarrow> nat \<Rightarrow> u16" where
  "rs485_read r off =
     (if off = 0 then rs485_word1 r
      else if off = 1 then ucast (rs_slave_addr r)
      else if off = 2 then rs_retry_count r
      else if off = 3 then rs_timeout_ms r
      else if off = 4 then rs_interval_ms r
      else 0)"

text \<open>\<open>None\<close> is the rejection of a value outside the field's range.\<close>

definition rs485_write :: "rs485_config \<Rightarrow> nat \<Rightarrow> u16 \<Rightarrow> rs485_config option" where
  "rs485_write r off v =
     (if off = 0 then
        let parity = drop_bit 10 v AND 3 in
        if parity > 2 then None
        else Some (r\<lparr>rs_baudrate := baud_table ! unat (drop_bit 12 v AND 0xF),
                     rs_parity := ucast parity,
                     rs_stop_bits := ucast ((drop_bit 9 v AND 1) + 1),
                     rs_data_bits := (if drop_bit 8 v AND 1 \<noteq> 0 then 7 else 8),
                     rs_mode := (if v AND 0xFF = 1 then 0 else 1)\<rparr>)
      else if off = 1 then
        if \<not> (1 \<le> v \<and> v \<le> 247) then None else Some (r\<lparr>rs_slave_addr := ucast v\<rparr>)
      else if off = 2 then
        if v > 5 then None else Some (r\<lparr>rs_retry_count := v\<rparr>)
      else if off = 3 then
        if \<not> (20 \<le> v \<and> v \<le> 5000) then None else Some (r\<lparr>rs_timeout_ms := v\<rparr>)
      else if off = 4 then
        if \<not> (20 \<le> v \<and> v \<le> 5000) then None else Some (r\<lparr>rs_interval_ms := v\<rparr>)
      else Some r)"

text \<open>The loop over the ports returns at the first block that holds the address.\<close>

definition rs485_base :: "nat \<Rightarrow> u16" where
  "rs485_base i = HOLD_RS485_BASE + of_nat i * HOLD_RS485_STRIDE"

definition rs485_port_of :: "nat \<Rightarrow> u16 \<Rightarrow> nat option" where
  "rs485_port_of n addr = find (\<lambda>i. in_range (rs485_base i) (rs485_base i + 5) addr) [0..<n]"

section \<open>Reading a register\<close>

definition read_reg :: "system_config \<Rightarrow> u16 \<Rightarrow> u16 option" where
  "read_reg c addr =
     (if addr = HOLD_485_1_COMERR \<or> addr = HOLD_485_1_APPERR \<or>
         addr = HOLD_485_2_COMERR \<or> addr = HOLD_485_2_APPERR then Some 0
      else if in_range HOLD_SN_BASE (HOLD_SN_BASE + HOLD_SN_COUNT) addr
        then Some (read_pair (sc_sn c) (unat (addr - HOLD_SN_BASE) * 2))
      else if in_range HOLD_PLACE_BASE (HOLD_PLACE_BASE + HOLD_PLACE_COUNT) addr
        then Some (read_pair (sc_name c) (unat (addr - HOLD_PLACE_BASE) * 2))
      else if addr = HOLD_HW_VER then Some (sc_hw_version c)
      else if addr = CFG_FW_VER then Some (sc_fw_version c)
      else if addr = CFG_CFG_VER then Some (sc_cfg_version c)
      else if addr = CFG_APPLY then Some 0
      else if addr = CFG_RESET_DEFAULT then Some 0
      else if addr = CFG_DHCP then Some (if sc_dhcp c then 1 else 0)
      else case read_ipv4 (sc_ip c) HOLD_IP_BASE addr of Some v \<Rightarrow> Some v | None \<Rightarrow>
      (case read_ipv4 (sc_mask c) HOLD_MASK_BASE addr of Some v \<Rightarrow> Some v | None \<Rightarrow>
      (case read_ipv4 (sc_gateway c) HOLD_GW_BASE addr of Some v \<Rightarrow> Some v | None \<Rightarrow>
      (case read_ipv4 (sc_dns c) HOLD_DNS_BASE addr of Some v \<Rightarrow> Some v | None \<Rightarrow>
      (case read_mac (sc_eth_mac c) HOLD_MAC_BASE addr of Some v \<Rightarrow> Some v | None \<Rightarrow>
       if in_range HOLD_BLE_ADDR_BASE (HOLD_BLE_ADDR_BASE + HOLD_BLE_ADDR_COUNT) addr
         then Some (read_pair (sc_ble_name c) (unat (addr - HOLD_BLE_ADDR_BASE) * 2))
       else case rs485_port_of (length (sc_rs485 c)) addr of
         Some i \<Rightarrow> Some (rs485_read (sc_rs485 c ! i) (unat (addr - rs485_base i)))
       | None \<Rightarrow>
           if in_range HOLD_TCP_COM_BASE (HOLD_TCP_COM_BASE + HOLD_TCP_COM_COUNT) addr
             then get_opt (sc_tcp_ports c) (unat (addr - HOLD_TCP_COM_BASE))
           else None)))))"

section \<open>Writing a register\<close>

definition write_reg :: "u16 \<Rightarrow> u16 \<Rightarrow> system_config \<Rightarrow> write_result \<times> system_config" where
  "write_reg addr v c =
     (if in_range HOLD_SN_BASE (HOLD_SN_BASE + HOLD_SN_COUNT) addr
        then (WPersist, c\<lparr>sc_sn := write_pair (sc_sn c) (unat (addr - HOLD_SN_BASE) * 2) v\<rparr>)
      else if in_range HOLD_PLACE_BASE (HOLD_PLACE_BASE + HOLD_PLACE_COUNT) addr
        then (WPersist, c\<lparr>sc_name := write_pair (sc_name c) (unat (addr - HOLD_PLACE_BASE) * 2) v\<rparr>)
      else if addr = HOLD_HW_VER then (WPersist, c\<lparr>sc_hw_version := v\<rparr>)
      else if addr = CFG_FW_VER then (WOk, c\<lparr>sc_fw_version := v\<rparr>)
      else if addr = CFG_CFG_VER then (WOk, c\<lparr>sc_cfg_version := v\<rparr>)
      else if addr = CFG_APPLY then (if v = 0xB5B5 then WApply else WOk, c)
      else if addr = CFG_RESET_DEFAULT then (if v = 0xD5D5 then WReset else WOk, c)
      else if addr = CFG_DHCP then (WApply, c\<lparr>sc_dhcp := (v \<noteq> 0)\<rparr>)
      else case write_ipv4 (sc_ip c) HOLD_IP_BASE addr v of
        Some bs \<Rightarrow> (WApply, c\<lparr>sc_ip := bs\<rparr>) | None \<Rightarrow>
      (case write_ipv4 (sc_mask c) HOLD_MASK_BASE addr v of
        Some bs \<Rightarrow> (WApply, c\<lparr>sc_mask := bs\<rparr>) | None \<Rightarrow>
      (case write_ipv4 (sc_gateway c) HOLD_GW_BASE addr v of
        Some bs \<Rightarrow> (WApply, c\<lparr>sc_gateway := bs\<rparr>) | None \<Rightarrow>
      (case write_ipv4 (sc_dns c) HOLD_DNS_BASE addr v of
        Some bs \<Rightarrow> (WApply, c\<lparr>sc_dns := bs\<rparr>) | None \<Rightarrow>
      (case write_mac (sc_eth_mac c) HOLD_MAC_BASE addr v of
        Some bs \<Rightarrow> (WApply, c\<lparr>sc_eth_mac := bs\<rparr>) | None \<Rightarrow>
       if in_range HOLD_BLE_ADDR_BASE (HOLD_BLE_ADDR_BASE + HOLD_BLE_ADDR_COUNT) addr
         then (WPersist,
           c\<lparr>sc_ble_name := write_pair (sc_ble_name c) (unat (addr - HOLD_BLE_ADDR_BASE) * 2) v\<rparr>)
       else case rs485_port_of (length (sc_rs485 c)) addr of
         Some i \<Rightarrow>
           (case rs485_write (sc_rs485 c ! i) (unat (addr - rs485_base i)) v of
              None \<Rightarrow> (WInvalidValue, c)
            | Some r \<Rightarrow> (WPersist, c\<lparr>sc_rs485 := (sc_rs485 c)[i := r]\<rparr>))
       | None \<Rightarrow>
           if in_range HOLD_TCP_COM_BASE (HOLD_TCP_COM_BASE + HOLD_TCP_COM_COUNT) addr
             then if v = 0 then (WInvalidValue, c)
               else (WPersist,
                 c\<lparr>sc_tcp_ports := (sc_tcp_ports c)[unat (addr - HOLD_TCP_COM_BASE) := v]\<rparr>)
           else (WNotFound, c))))))"

section \<open>Fields by address\<close>

datatype cfg_field =
  FErrorCount | FSn nat | FPlace nat | FHwVersion | FFwVersion | FCfgVersion | FApply
| FResetDefault | FDhcp | FIp nat | FMask nat | FGateway nat | FDns nat | FEthMac nat
| FBleName nat | FRs485 nat nat | FTcpPort nat

definition locate_writable :: "u16 \<Rightarrow> cfg_field option" where
  "locate_writable addr =
     (let n = unat addr in
      if 2196 \<le> n \<and> n < 2205 then Some (FSn (n - 2196))
      else if 2205 \<le> n \<and> n < 2213 then Some (FPlace (n - 2205))
      else if n = 2213 then Some FHwVersion
      else if n = 2174 then Some FFwVersion
      else if n = 65280 then Some FCfgVersion
      else if n = 65281 then Some FApply
      else if n = 65282 then Some FResetDefault
      else if n = 65283 then Some FDhcp
      else if 2247 \<le> n \<and> n < 2251 then Some (FIp (n - 2247))
      else if 2251 \<le> n \<and> n < 2255 then Some (FMask (n - 2251))
      else if 2255 \<le> n \<and> n < 2259 then Some (FGateway (n - 2255))
      else if 2259 \<le> n \<and> n < 2263 then Some (FDns (n - 2259))
      else if 2263 \<le> n \<and> n < 2269 then Some (FEthMac (n - 2263))
      else if 2274 \<le> n \<and> n < 2278 then Some (FBleName (n - 2274))
      else if 2214 \<le> n \<and> n < 2229 then Some (FRs485 ((n - 2214) div 5) ((n - 2214) mod 5))
      else if 2243 \<le> n \<and> n < 2247 then Some (FTcpPort (n - 2243))
      else None)"

definition locate :: "u16 \<Rightarrow> cfg_field option" where
  "locate addr =
     (if 2176 \<le> unat addr \<and> unat addr < 2180 then Some FErrorCount else locate_writable addr)"

fun read_field :: "system_config \<Rightarrow> cfg_field \<Rightarrow> u16" where
  "read_field c FErrorCount = 0"
| "read_field c (FSn i) = read_pair (sc_sn c) (i * 2)"
| "read_field c (FPlace i) = read_pair (sc_name c) (i * 2)"
| "read_field c FHwVersion = sc_hw_version c"
| "read_field c FFwVersion = sc_fw_version c"
| "read_field c FCfgVersion = sc_cfg_version c"
| "read_field c FApply = 0"
| "read_field c FResetDefault = 0"
| "read_field c FDhcp = (if sc_dhcp c then 1 else 0)"
| "read_field c (FIp i) = ucast (sc_ip c ! i)"
| "read_field c (FMask i) = ucast (sc_mask c ! i)"
| "read_field c (FGateway i) = ucast (sc_gateway c ! i)"
| "read_field c (FDns i) = ucast (sc_dns c ! i)"
| "read_field c (FEthMac i) = ucast (sc_eth_mac c ! i)"
| "read_field c (FBleName i) = read_pair (sc_ble_name c) (i * 2)"
| "read_field c (FRs485 i off) = rs485_read (sc_rs485 c ! i) off"
| "read_field c (FTcpPort i) = sc_tcp_ports c ! i"

fun write_field :: "cfg_field \<Rightarrow> u16 \<Rightarrow> system_config \<Rightarrow> write_result \<times> system_config" where
  "write_field FErrorCount v c = (WNotFound, c)"
| "write_field (FSn i) v c = (WPersist, c\<lparr>sc_sn := write_pair (sc_sn c) (i * 2) v\<rparr>)"
| "write_field (FPlace i) v c = (WPersist, c\<lparr>sc_name := write_pair (sc_name c) (i * 2) v\<rparr>)"
| "write_field FHwVersion v c = (WPersist, c\<lparr>sc_hw_version := v\<rparr>)"
| "write_field FFwVersion v c = (WOk, c\<lparr>sc_fw_version := v\<rparr>)"
| "write_field FCfgVersion v c = (WOk, c\<lparr>sc_cfg_version := v\<rparr>)"
| "write_field FApply v c = (if v = 0xB5B5 then WApply else WOk, c)"
| "write_field FResetDefault v c = (if v = 0xD5D5 then WReset else WOk, c)"
| "write_field FDhcp v c = (WApply, c\<lparr>sc_dhcp := (v \<noteq> 0)\<rparr>)"
| "write_field (FIp i) v c = (WApply, c\<lparr>sc_ip := (sc_ip c)[i := ucast (v AND 0xFF)]\<rparr>)"
| "write_field (FMask i) v c = (WApply, c\<lparr>sc_mask := (sc_mask c)[i := ucast (v AND 0xFF)]\<rparr>)"
| "write_field (FGateway i) v c = (WApply, c\<lparr>sc_gateway := (sc_gateway c)[i := ucast (v AND 0xFF)]\<rparr>)"
| "write_field (FDns i) v c = (WApply, c\<lparr>sc_dns := (sc_dns c)[i := ucast (v AND 0xFF)]\<rparr>)"
| "write_field (FEthMac i) v c = (WApply, c\<lparr>sc_eth_mac := (sc_eth_mac c)[i := ucast (v AND 0xFF)]\<rparr>)"
| "write_field (FBleName i) v c = (WPersist, c\<lparr>sc_ble_name := write_pair (sc_ble_name c) (i * 2) v\<rparr>)"
| "write_field (FRs485 i off) v c =
     (case rs485_write (sc_rs485 c ! i) off v of
        None \<Rightarrow> (WInvalidValue, c)
      | Some r \<Rightarrow> (WPersist, c\<lparr>sc_rs485 := (sc_rs485 c)[i := r]\<rparr>))"
| "write_field (FTcpPort i) v c =
     (if v = 0 then (WInvalidValue, c) else (WPersist, c\<lparr>sc_tcp_ports := (sc_tcp_ports c)[i := v]\<rparr>))"

lemmas addr_nat = in_range_def word_less_nat_alt word_le_nat_alt word_unat_eq_iff

lemma read_ipv4_nat:
  "read_ipv4 bs base addr = (if unat base \<le> unat addr \<and> unat addr < unat base + 4
     then Some (ucast (bs ! (unat addr - unat base))) else None)"
  by (auto simp: read_ipv4_def checked_sub_def word_le_nat_alt unat_sub split: option.split)

lemma write_ipv4_nat:
  "write_ipv4 bs base addr v = (if unat base \<le> unat addr \<and> unat addr < unat base + 4
     then Some (bs[unat addr - unat base := ucast (v AND 0xFF)]) else None)"
  by (auto simp: write_ipv4_def checked_sub_def word_le_nat_alt unat_sub split: option.split)

lemma read_mac_nat:
  "read_mac bs base addr = (if unat base \<le> unat addr \<and> unat addr < unat base + 6
     then Some (ucast (bs ! (unat addr - unat base))) else None)"
  by (auto simp: read_mac_def checked_sub_def word_le_nat_alt unat_sub split: option.split)

lemma write_mac_nat:
  "write_mac bs base addr v = (if unat base \<le> unat addr \<and> unat addr < unat base + 6
     then Some (bs[unat addr - unat base := ucast (v AND 0xFF)]) else None)"
  by (auto simp: write_mac_def checked_sub_def word_le_nat_alt unat_sub split: option.split)

lemma unat_sub_le: "unat b \<le> unat a \<Longrightarrow> unat (a - b) = unat a - unat b" for a b :: u16
  by (simp add: unat_sub word_le_nat_alt)

lemma rs485_port_of_nat:
  "rs485_port_of 3 addr =
     (if 2214 \<le> unat addr \<and> unat addr < 2229 then Some ((unat addr - 2214) div 5) else None)"
proof -
  have "[0..<3] = [0, 1, 2::nat]" by (simp add: upt_rec)
  then have find: "rs485_port_of 3 addr =
      (if 2214 \<le> unat addr \<and> unat addr < 2219 then Some 0
       else if 2219 \<le> unat addr \<and> unat addr < 2224 then Some 1
       else if 2224 \<le> unat addr \<and> unat addr < 2229 then Some 2 else None)"
    by (simp add: rs485_port_of_def rs485_base_def addr_nat)
  consider "unat addr < 2214" | "2214 \<le> unat addr \<and> unat addr < 2219"
    | "2219 \<le> unat addr \<and> unat addr < 2224" | "2224 \<le> unat addr \<and> unat addr < 2229"
    | "2229 \<le> unat addr" by linarith
  then show ?thesis unfolding find by cases (auto simp: div_nat_eqI)
qed

lemma rs485_offset:
  assumes "2214 \<le> unat addr" and "unat addr < 2229"
  shows "unat (addr - rs485_base ((unat addr - 2214) div 5)) = (unat addr - 2214) mod 5"
proof -
  let ?i = "(unat addr - 2214) div 5"
  have i: "?i < 3" using assms by simp
  then have b: "unat (rs485_base ?i) = 2214 + 5 * ?i"
    by (auto simp: rs485_base_def less_Suc_eq numeral_3_eq_3)
  have "?i * 5 \<le> unat addr - 2214" by (rule div_times_less_eq_dividend)
  then have "unat (rs485_base ?i) \<le> unat addr" using assms b by simp
  then have "unat (addr - rs485_base ?i) = unat addr - (2214 + 5 * ?i)" by (simp add: unat_sub_le b)
  also have "\<dots> = (unat addr - 2214) - 5 * ?i" by simp
  finally show ?thesis by (simp add: minus_mult_div_eq_mod)
qed

lemma read_reg_locate:
  assumes "length (sc_rs485 c) = 3" and "length (sc_tcp_ports c) = 4"
  shows "read_reg c addr = map_option (read_field c) (locate addr)"
proof -
  have n: "unat addr < 65536" by (rule unat_u16_less)
  show ?thesis
    using n assms rs485_offset [of addr]
    unfolding read_reg_def locate_def locate_writable_def
    by (auto simp: addr_nat read_ipv4_nat read_mac_nat rs485_port_of_nat get_opt_def unat_sub_le Let_def)
qed

lemma write_reg_locate:
  assumes "length (sc_rs485 c) = 3"
  shows "write_reg addr v c =
    (case locate addr of None \<Rightarrow> (WNotFound, c) | Some f \<Rightarrow> write_field f v c)"
proof -
  have n: "unat addr < 65536" by (rule unat_u16_less)
  show ?thesis
  proof (cases "2176 \<le> unat addr \<and> unat addr < 2180")
    case True
    then show ?thesis
      using assms unfolding write_reg_def locate_def
      by (simp add: addr_nat write_ipv4_nat write_mac_nat rs485_port_of_nat)
  next
    case False
    then have "locate addr = locate_writable addr" by (auto simp: locate_def)
    then show ?thesis
      using n assms rs485_offset [of addr]
      unfolding write_reg_def locate_writable_def
      by (simp add: addr_nat write_ipv4_nat write_mac_nat rs485_port_of_nat unat_sub_le Let_def
          if_distrib [of "case_option x y" for x y] cong: if_cong split del: if_split)
  qed
qed

section \<open>Reads after writes\<close>

lemma read_write_pair:
  assumes "2 * i + 1 < length bs"
  shows "read_pair (write_pair bs (i * 2) v) (j * 2) = (if j = i then v else read_pair bs (j * 2))"
  using assms by (auto simp: read_pair_def write_pair_def nth_list_update mult_2)

definition field_in_range :: "cfg_field \<Rightarrow> bool" where
  "field_in_range f \<longleftrightarrow>
     (case f of
        FSn i \<Rightarrow> i < 9 | FPlace i \<Rightarrow> i < 8 | FIp i \<Rightarrow> i < 4 | FMask i \<Rightarrow> i < 4 | FGateway i \<Rightarrow> i < 4
      | FDns i \<Rightarrow> i < 4 | FEthMac i \<Rightarrow> i < 6 | FBleName i \<Rightarrow> i < 4 | FRs485 i off \<Rightarrow> i < 3 \<and> off < 5
      | FTcpPort i \<Rightarrow> i < 4 | _ \<Rightarrow> True)"

lemma locate_writable_in_range: "locate_writable addr = Some f \<Longrightarrow> field_in_range f"
  by (auto simp: locate_writable_def field_in_range_def Let_def split: if_splits)

lemma locate_in_range: "locate addr = Some f \<Longrightarrow> field_in_range f"
  by (auto simp: locate_def locate_writable_in_range split: if_splits) (simp add: field_in_range_def)

fun field_addr :: "cfg_field \<Rightarrow> nat" where
  "field_addr FErrorCount = 2176"
| "field_addr (FSn i) = 2196 + i"
| "field_addr (FPlace i) = 2205 + i"
| "field_addr FHwVersion = 2213"
| "field_addr FFwVersion = 2174"
| "field_addr FCfgVersion = 65280"
| "field_addr FApply = 65281"
| "field_addr FResetDefault = 65282"
| "field_addr FDhcp = 65283"
| "field_addr (FIp i) = 2247 + i"
| "field_addr (FMask i) = 2251 + i"
| "field_addr (FGateway i) = 2255 + i"
| "field_addr (FDns i) = 2259 + i"
| "field_addr (FEthMac i) = 2263 + i"
| "field_addr (FBleName i) = 2274 + i"
| "field_addr (FRs485 i off) = 2214 + (5 * i + off)"
| "field_addr (FTcpPort i) = 2243 + i"

lemma field_addr_locate: "locate_writable addr = Some f \<Longrightarrow> field_addr f = unat addr"
  by (auto simp: locate_writable_def Let_def split: if_splits)

lemma locate_error_count: "locate_writable a \<noteq> Some FErrorCount"
  by (simp add: locate_writable_def Let_def)

lemma locate_inject:
  assumes "locate a = Some f" and "locate b = Some f" and "f \<noteq> FErrorCount"
  shows "a = b"
proof -
  have "unat x = field_addr f" if "locate x = Some f" for x
    using that assms(3) by (auto simp: locate_def dest!: field_addr_locate split: if_splits)
  then have "unat a = unat b" using assms by simp
  then show ?thesis by (simp add: word_unat_eq_iff)
qed

text \<open>What a register shows after a value was accepted there.\<close>

definition rs485_word1_canonical :: "u16 \<Rightarrow> u16" where
  "rs485_word1_canonical v =
     push_bit 12 (if drop_bit 12 v AND 0xF = 0 then 4 else drop_bit 12 v AND 0xF)
     OR push_bit 10 (drop_bit 10 v AND 3) OR push_bit 9 (drop_bit 9 v AND 1)
     OR push_bit 8 (drop_bit 8 v AND 1) OR (if v AND 0xFF = 1 then 1 else 0)"

fun field_canonical :: "cfg_field \<Rightarrow> u16 \<Rightarrow> u16" where
  "field_canonical FDhcp v = (if v \<noteq> 0 then 1 else 0)"
| "field_canonical (FIp i) v = v AND 0xFF"
| "field_canonical (FMask i) v = v AND 0xFF"
| "field_canonical (FGateway i) v = v AND 0xFF"
| "field_canonical (FDns i) v = v AND 0xFF"
| "field_canonical (FEthMac i) v = v AND 0xFF"
| "field_canonical (FRs485 i off) v = (if off = 0 then rs485_word1_canonical v else v)"
| "field_canonical FApply v = 0"
| "field_canonical FResetDefault v = 0"
| "field_canonical FErrorCount v = 0"
| "field_canonical _ v = v"

lemma ucast_low_byte: "ucast (ucast (v AND 0xFF :: u16) :: u8) = v AND 0xFF"
proof -
  have m: "(0xFF :: u16) = mask 8" by (simp add: mask_eq_exp_minus_1)
  show ?thesis unfolding m by (rule bit_word_eqI) (auto simp: bit_simps)
qed

lemma baud_index_table:
  "w < 16 \<Longrightarrow> baud_index (baud_table ! unat (w :: u16)) = (if w = 0 then 4 else w)"
proof -
  assume "w < 16"
  then have "unat w < 16" by (simp add: word_less_nat_alt)
  then have "unat w \<in> {0,1,2,3,4,5,6,7,8,9,10,11,12,13,14,15}"
    by (simp only: insert_iff empty_iff) presburger
  then show ?thesis
    by (elim insertE emptyE; simp add: baud_table_def baud_index_def word_unat_eq_iff)
qed

lemma and_15_less: "w AND 0xF < 16" for w :: u16
proof -
  have "w AND 0xF \<le> 0xF" by (rule word_and_le1)
  also have "(0xF :: u16) < 16" by simp
  finally show ?thesis .
qed

lemma rs485_read_write_word1:
  assumes "rs485_write r 0 v = Some r'"
  shows "rs485_word1 r' = rs485_word1_canonical v"
proof -
  have r': "r' = r\<lparr>rs_baudrate := baud_table ! unat (drop_bit 12 v AND 0xF),
      rs_parity := ucast (drop_bit 10 v AND 3), rs_stop_bits := ucast ((drop_bit 9 v AND 1) + 1),
      rs_data_bits := (if drop_bit 8 v AND 1 \<noteq> 0 then 7 else 8),
      rs_mode := (if v AND 0xFF = 1 then 0 else 1)\<rparr>"
    using assms by (simp add: rs485_write_def Let_def split: if_splits)
  have one: "x AND 1 = 0 \<or> x AND 1 = 1" for x :: u16
    by (simp add: and_one_eq mod2_eq_if)
  have parity: "ucast (ucast (drop_bit 10 v AND 3) :: u8) AND 3 = drop_bit 10 v AND (3::u16)"
  proof -
    have m: "(3 :: u16) = mask 2" by (simp add: mask_eq_exp_minus_1)
    show ?thesis unfolding m by (rule bit_word_eqI) (auto simp: bit_simps)
  qed
  have stop: "(ucast (saturating_sub (ucast ((drop_bit 9 v AND 1) + 1) :: u8) 1) :: u16) AND 1 =
      drop_bit 9 v AND 1"
    using one [of "drop_bit 9 v"] by (auto simp: saturating_sub_def)
  have data: "(if (if drop_bit 8 v AND 1 \<noteq> 0 then 7 else 8 :: u8) = 7 then 1 else 0) = drop_bit 8 v AND (1::u16)"
    using one [of "drop_bit 8 v"] by auto
  have baud: "baud_index (rs_baudrate r') = (if drop_bit 12 v AND 0xF = 0 then 4 else drop_bit 12 v AND 0xF)"
    by (simp add: r' baud_index_table [OF and_15_less])
  have mode: "(if rs_mode r' = 0 then 1 else 0 :: u16) = (if v AND 0xFF = 1 then 1 else 0)"
    by (simp add: r')
  have fields: "rs_parity r' = ucast (drop_bit 10 v AND 3)"
    "rs_stop_bits r' = ucast ((drop_bit 9 v AND 1) + 1)"
    "rs_data_bits r' = (if drop_bit 8 v AND 1 \<noteq> 0 then 7 else 8)"
    by (simp_all add: r')
  show ?thesis
    unfolding rs485_word1_def rs485_word1_canonical_def Let_def mode baud fields parity stop data ..
qed

lemma rs485_read_write:
  assumes "rs485_write r off v = Some r'" and "off < 5" and "off' < 5"
  shows "off' = off \<Longrightarrow> rs485_read r' off' = (if off = 0 then rs485_word1_canonical v else v)"
    and "off' \<noteq> off \<Longrightarrow> rs485_read r' off' = rs485_read r off'"
proof -
  have byte: "ucast (ucast v :: u8) = v" if "v \<le> 247"
  proof -
    have "unat v < 256" using that by (simp add: word_le_nat_alt)
    then show ?thesis by (simp add: word_unat_eq_iff unsigned_ucast_eq take_bit_eq_mod unat_mod)
  qed
  show "off' = off \<Longrightarrow> rs485_read r' off' = (if off = 0 then rs485_word1_canonical v else v)"
    using assms(1,2) rs485_read_write_word1 [of r v r'] byte
    by (auto simp: rs485_read_def rs485_write_def split: if_splits)
  show "rs485_read r' off' = rs485_read r off'" if "off' \<noteq> off"
  proof (cases "off = 0")
    case True
    then show ?thesis
      using assms(1) that by (auto simp: rs485_read_def rs485_write_def Let_def split: if_splits)
  next
    case False
    have "rs485_word1 (r\<lparr>rs_slave_addr := x\<rparr>) = rs485_word1 r"
      "rs485_word1 (r\<lparr>rs_retry_count := y\<rparr>) = rs485_word1 r"
      "rs485_word1 (r\<lparr>rs_timeout_ms := y\<rparr>) = rs485_word1 r"
      "rs485_word1 (r\<lparr>rs_interval_ms := y\<rparr>) = rs485_word1 r" for x y
      by (cases r; simp add: rs485_word1_def cong del: if_weak_cong)+
    with False assms that show ?thesis
      by (auto simp: rs485_read_def rs485_write_def split: if_splits)
  qed
qed

lemma config_wf_write_field:
  assumes "config_wf c"
  shows "config_wf (snd (write_field f v c))"
  using assms by (cases f) (auto simp: config_wf_def write_pair_def split: option.split)

lemma write_reg_wf:
  assumes "config_wf c"
  shows "config_wf (snd (write_reg addr v c))"
proof -
  have "length (sc_rs485 c) = 3" using assms by (simp add: config_wf_def)
  then show ?thesis
    using assms by (simp add: write_reg_locate config_wf_write_field split: option.split)
qed

definition accepted :: "write_result \<Rightarrow> bool" where
  "accepted r \<longleftrightarrow> r = WOk \<or> r = WPersist \<or> r = WApply \<or> r = WReset"

lemma accepted_simps [simp]:
  "accepted WOk" "accepted WPersist" "accepted WApply" "accepted WReset" "\<not> accepted WNotFound"
  "\<not> accepted WInvalidValue"
  by (simp_all add: accepted_def)

lemma write_field_rejected:
  "write_field f v c = (r, c') \<Longrightarrow> \<not> accepted r \<Longrightarrow> c' = c"
  by (cases f) (auto split: option.splits if_splits)

lemma read_write_field_same:
  assumes wf: "config_wf c" and f: "field_in_range f"
    and w: "write_field f v c = (r, c')" and ok: "accepted r"
  shows "read_field c' f = field_canonical f v"
proof -
  note len = wf [unfolded config_wf_def]
  show ?thesis
  proof (cases f)
    case (FRs485 i off)
    then show ?thesis
      using w ok f len rs485_read_write(1) [of "sc_rs485 c ! i" off v _ off]
      by (auto simp: field_in_range_def split: option.splits)
  qed (use w ok f len in \<open>auto simp: field_in_range_def read_write_pair ucast_low_byte split: if_splits\<close>)
qed

lemma read_write_field_other:
  assumes wf: "config_wf c" and f: "field_in_range f" "field_in_range g" and ne: "g \<noteq> f"
  shows "read_field (snd (write_field f v c)) g = read_field c g"
proof (cases f)
  case f1: (FRs485 i off)
  show ?thesis
  proof (cases "rs485_write (sc_rs485 c ! i) off v")
    case None
    then show ?thesis by (simp add: f1)
  next
    case (Some r)
    show ?thesis
    proof (cases g)
      case (FRs485 j off')
      then show ?thesis
        using Some rs485_read_write(2) [OF Some, of off'] f ne wf
        by (auto simp: f1 field_in_range_def config_wf_def nth_list_update)
    qed (simp_all add: f1 Some)
  qed
next
  case (FSn i)
  then show ?thesis using wf f ne by (cases g) (auto simp: config_wf_def field_in_range_def read_write_pair)
next
  case (FPlace i)
  then show ?thesis using wf f ne by (cases g) (auto simp: config_wf_def field_in_range_def read_write_pair)
next
  case (FBleName i)
  then show ?thesis using wf f ne by (cases g) (auto simp: config_wf_def field_in_range_def read_write_pair)
qed (use ne in \<open>(cases g; simp)\<close>)+

lemma write_reg_read_same:
  assumes wf: "config_wf c" and w: "write_reg addr v c = (r, c')" and ok: "accepted r"
  shows "\<exists>f. locate addr = Some f \<and> read_reg c' addr = Some (field_canonical f v)"
proof -
  have wf': "config_wf c'" using write_reg_wf [OF wf, of addr v] by (simp add: w)
  have len: "length (sc_rs485 c) = 3" "length (sc_rs485 c') = 3" "length (sc_tcp_ports c') = 4"
    using wf wf' by (simp_all add: config_wf_def)
  obtain f where f: "locate addr = Some f" and wf_f: "write_field f v c = (r, c')"
    using w ok by (auto simp: write_reg_locate [OF len(1)] split: option.splits)
  then show ?thesis
    using read_write_field_same [OF wf locate_in_range [OF f] wf_f ok]
    by (simp add: read_reg_locate [OF len(2,3)])
qed

lemma write_reg_read_other:
  assumes wf: "config_wf c" and w: "write_reg addr v c = (r, c')" and ne: "addr' \<noteq> addr"
  shows "read_reg c' addr' = read_reg c addr'"
proof -
  have wf': "config_wf c'" using write_reg_wf [OF wf, of addr v] by (simp add: w)
  have len: "length (sc_rs485 c) = 3" "length (sc_tcp_ports c) = 4"
    "length (sc_rs485 c') = 3" "length (sc_tcp_ports c') = 4"
    using wf wf' by (simp_all add: config_wf_def)
  show ?thesis
  proof (cases "locate addr")
    case None
    then show ?thesis using w by (simp add: write_reg_locate [OF len(1)])
  next
    case f: (Some f)
    then have w: "write_field f v c = (r, c')" using w by (simp add: write_reg_locate [OF len(1)])
    show ?thesis
    proof (cases "locate addr'")
      case None
      then show ?thesis by (simp add: read_reg_locate len)
    next
      case g: (Some g)
      have "read_field c' g = read_field c g"
      proof (cases "g = f")
        case True
        then have "f = FErrorCount" using locate_inject [of addr f addr'] f g ne by auto
        then show ?thesis using True by simp
      next
        case False
        then show ?thesis
          using read_write_field_other [OF wf locate_in_range [OF f] locate_in_range [OF g], of v] w
          by simp
      qed
      then show ?thesis using g by (simp add: read_reg_locate len)
    qed
  qed
qed

section \<open>Correctness\<close>

text \<open>C7: Registers behave like memory.  After an accepted write of a configuration register, that
  register reads back the value in the form the field keeps, every other register reads as before,
  and the configuration stays well formed.\<close>

theorem config_write_then_read:
  assumes "config_wf c" and "write_reg addr v c = (r, c')" and "accepted r"
  shows "(\<exists>f. locate addr = Some f \<and> read_reg c' addr = Some (field_canonical f v)) \<and>
    config_wf c' \<and> (addr' \<noteq> addr \<longrightarrow> read_reg c' addr' = read_reg c addr')"
  using write_reg_read_same [OF assms] write_reg_read_other [OF assms(1,2)] write_reg_wf [OF assms(1), of addr v]
  by (auto simp: assms(2))

theorem config_write_then_read_witness:
  "\<exists>c'. write_reg 2247 0x12C0 config_defaults = (WApply, c') \<and> read_reg c' 2247 = Some 0xC0 \<and>
     read_reg c' 2248 = read_reg config_defaults 2248"
proof -
  obtain c' where w: "write_reg 2247 0x12C0 config_defaults = (WApply, c')"
    by (simp add: write_reg_locate config_defaults_def locate_def locate_writable_def)
  have "locate 2247 = Some (FIp 0)" by (simp add: locate_def locate_writable_def)
  then show ?thesis
    using w config_write_then_read [OF config_wf_defaults w, of 2248] by simp
qed

end
