(* ===== verification/Register_Snapshot.thy ===== *)
theory Register_Snapshot imports Regs begin

text \<open>
  Register images: the validity bit sets shared by the result areas of the firmware, and the
  fixed-size image of \<open>src/bus/register_snapshot.rs\<close> that a multi-register read captures
  before it encodes its answer.
\<close>

section \<open>Validity bit sets\<close>

definition valid_test :: "u32 list \<Rightarrow> nat \<Rightarrow> bool" where
  "valid_test ms i \<longleftrightarrow> ms ! (i div 32) AND push_bit (i mod 32) 1 \<noteq> 0"

definition valid_set :: "nat \<Rightarrow> u32 list \<Rightarrow> u32 list" where
  "valid_set i ms = ms[i div 32 := ms ! (i div 32) OR push_bit (i mod 32) 1]"

lemma length_valid_set [simp]: "length (valid_set i ms) = length ms"
  by (simp add: valid_set_def)

lemma and_one_bit: "(w AND push_bit n 1 = 0) = (\<not> bit w n)" if "n < LENGTH('a)" for w :: "'a::len word"
proof
  assume "w AND push_bit n 1 = 0"
  then have "\<not> bit (w AND push_bit n 1) n" by simp
  then show "\<not> bit w n" using that by (simp add: bit_simps)
next
  assume "\<not> bit w n"
  then show "w AND push_bit n 1 = 0"
    by (intro bit_word_eqI) (auto simp: bit_simps)
qed

lemma valid_test_bit: "valid_test ms i \<longleftrightarrow> bit (ms ! (i div 32)) (i mod 32)"
  unfolding valid_test_def by (subst and_one_bit) simp_all

lemma valid_test_set:
  assumes "i div 32 < length ms"
  shows "valid_test (valid_set i ms) j \<longleftrightarrow> j = i \<or> valid_test ms j"
proof -
  have m: "j mod 32 < 32" by simp
  have "j = i \<longleftrightarrow> j div 32 = i div 32 \<and> j mod 32 = i mod 32"
    by (metis div_mult_mod_eq)
  then show ?thesis
    using assms m
    by (cases "j div 32 = i div 32") (auto simp: valid_test_bit valid_set_def bit_simps simp del: mod_less_divisor)
qed

lemma valid_test_zero: "i < 32 * n \<Longrightarrow> \<not> valid_test (replicate n 0) i"
  by (simp add: valid_test_def less_mult_imp_div_less mult.commute)

section \<open>The snapshot\<close>

abbreviation (input) SNAPSHOT_CAPACITY :: nat where "SNAPSHOT_CAPACITY \<equiv> 125"

record register_snapshot =
  snap_start :: u16
  snap_values :: "u16 list"
  snap_valid :: "u32 list"

definition snapshot_empty :: "u16 \<Rightarrow> register_snapshot" where
  "snapshot_empty start =
     \<lparr>snap_start = start, snap_values = replicate SNAPSHOT_CAPACITY 0, snap_valid = replicate 4 0\<rparr>"

text \<open>The loop stops at the end of the address space.\<close>

fun capture_loop ::
  "(u16 \<Rightarrow> u16 option) \<Rightarrow> u16 \<Rightarrow> nat list \<Rightarrow> register_snapshot \<Rightarrow> register_snapshot" where
  "capture_loop rd start [] snap = snap"
| "capture_loop rd start (offset # offsets) snap =
     (case checked_add start (of_nat offset) of
        None \<Rightarrow> snap
      | Some address \<Rightarrow>
          (case rd address of
             None \<Rightarrow> capture_loop rd start offsets snap
           | Some v \<Rightarrow> capture_loop rd start offsets
               (snap\<lparr>snap_values := (snap_values snap)[offset := v],
                     snap_valid := valid_set offset (snap_valid snap)\<rparr>)))"

definition snapshot_capture :: "u16 \<Rightarrow> u16 \<Rightarrow> (u16 \<Rightarrow> u16 option) \<Rightarrow> register_snapshot" where
  "snapshot_capture start count rd =
     capture_loop rd start [0..<min (unat count) SNAPSHOT_CAPACITY] (snapshot_empty start)"

definition snapshot_get :: "register_snapshot \<Rightarrow> u16 \<Rightarrow> u16 option" where
  "snapshot_get snap address =
     (case checked_sub address (snap_start snap) of
        None \<Rightarrow> None
      | Some off \<Rightarrow>
          let offset = unat off in
          if offset \<ge> SNAPSHOT_CAPACITY \<or> \<not> valid_test (snap_valid snap) offset then None
          else Some (snap_values snap ! offset))"

definition overlaps_results :: "u16 \<Rightarrow> u16 \<Rightarrow> u16 \<Rightarrow> u16 \<Rightarrow> u16 \<Rightarrow> bool" where
  "overlaps_results start count monitor_count user_start user_count =
     (if count = 0 then False
      else let s = unat start; e = s + unat count in
        s < unat monitor_count \<or> (s < unat user_start + unat user_count \<and> e > unat user_start))"

section \<open>A captured image shows what the reader showed\<close>

lemma snapshot_get_empty [simp]: "snapshot_get (snapshot_empty start) a = None"
proof (cases "checked_sub a start")
  case (Some off)
  then show ?thesis
    by (auto simp: snapshot_get_def snapshot_empty_def Let_def valid_test_zero)
qed (simp add: snapshot_get_def snapshot_empty_def)

definition snap_wf :: "u16 \<Rightarrow> register_snapshot \<Rightarrow> bool" where
  "snap_wf start snap \<longleftrightarrow> snap_start snap = start \<and> length (snap_values snap) = 125 \<and>
     length (snap_valid snap) = 4"

text \<open>The content at an offset, and what the loop does to it.\<close>

definition snap_at :: "register_snapshot \<Rightarrow> nat \<Rightarrow> u16 option" where
  "snap_at snap i = (if valid_test (snap_valid snap) i then Some (snap_values snap ! i) else None)"

lemma snap_at_store:
  assumes "snap_wf start snap" and "j < 125"
  shows "snap_at (snap\<lparr>snap_values := (snap_values snap)[j := v],
      snap_valid := valid_set j (snap_valid snap)\<rparr>) i = (if i = j then Some v else snap_at snap i)"
proof -
  have "j div 32 < 4" using assms(2) by simp
  then show ?thesis
    using assms by (auto simp: snap_at_def snap_wf_def valid_test_set)
qed

lemma capture_loop_at:
  assumes "snap_wf start snap" and "set offs \<subseteq> {..<125}" and "distinct offs" and "sorted offs"
  shows "snap_wf start (capture_loop rd start offs snap) \<and>
    snap_at (capture_loop rd start offs snap) i =
      (if i \<in> set offs \<and> unat start + i < 65536
       then (case rd (start + of_nat i) of Some v \<Rightarrow> Some v | None \<Rightarrow> snap_at snap i)
       else snap_at snap i)"
  using assms
proof (induction offs arbitrary: snap)
  case Nil
  then show ?case by simp
next
  case (Cons j offs)
  have j: "j < 125" "unat (of_nat j :: u16) = j" using Cons.prems(2) by (simp_all add: unat_of_nat)
  have later: "\<forall>k\<in>set offs. j < k" using Cons.prems(3,4) by (auto simp: order.strict_iff_order)
  show ?case
  proof (cases "unat start + j < 65536")
    case False
    then have "checked_add start (of_nat j) = None" by (simp add: checked_add_def j)
    with False later Cons.prems(1) show ?thesis by fastforce
  next
    case True
    then have add: "checked_add start (of_nat j) = Some (start + of_nat j)"
      by (simp add: checked_add_def j)
    have offs: "set offs \<subseteq> {..<125}" "distinct offs" "sorted offs" using Cons.prems by auto
    show ?thesis
    proof (cases "rd (start + of_nat j)")
      case None
      then show ?thesis using Cons.IH [OF Cons.prems(1) offs] add by auto
    next
      case (Some v)
      let ?s = "snap\<lparr>snap_values := (snap_values snap)[j := v],
        snap_valid := valid_set j (snap_valid snap)\<rparr>"
      have "snap_wf start ?s" using Cons.prems(1) by (simp add: snap_wf_def)
      from Cons.IH [OF this offs] show ?thesis
        using add Some True Cons.prems(3)
        by (auto simp: snap_at_store [OF Cons.prems(1) j(1)] split: option.splits)
    qed
  qed
qed

lemma snapshot_get_capture:
  "snapshot_get (snapshot_capture start count rd) a =
     (if start \<le> a \<and> unat a - unat start < min (unat count) 125 then rd a else None)"
proof -
  let ?snap = "snapshot_capture start count rd"
  have "snap_wf start (snapshot_empty start)" by (simp add: snap_wf_def snapshot_empty_def)
  moreover have "set [0..<min (unat count) 125] \<subseteq> {..<125}" by auto
  ultimately have cap: "snap_wf start ?snap \<and> snap_at ?snap i =
      (if i < min (unat count) 125 \<and> unat start + i < 65536
       then (case rd (start + of_nat i) of Some v \<Rightarrow> Some v | None \<Rightarrow> snap_at (snapshot_empty start) i)
       else snap_at (snapshot_empty start) i)" for i
    using capture_loop_at [of start "snapshot_empty start" "[0..<min (unat count) 125]" rd i]
    by (simp add: snapshot_capture_def)
  have wf: "snap_wf start ?snap" using cap by blast
  have empty: "snap_at (snapshot_empty start) i = None" if "i < 125" for i
    using that by (simp add: snap_at_def snapshot_empty_def valid_test_zero)
  show ?thesis
  proof (cases "start \<le> a")
    case False
    then show ?thesis using wf by (simp add: snapshot_get_def checked_sub_def snap_wf_def)
  next
    case True
    let ?i = "unat a - unat start"
    have i: "unat (a - start) = ?i" using True by (simp add: unat_sub)
    have a: "start + of_nat ?i = a"
      using True by (simp add: word_unat_eq_iff unat_word_ariths unat_of_nat word_le_nat_alt)
    have le: "unat start + ?i < 65536" using True unat_u16_less [of a] by (simp add: word_le_nat_alt)
    have "snapshot_get ?snap a = (if ?i \<ge> 125 then None else snap_at ?snap ?i)"
      using True wf by (simp add: snapshot_get_def checked_sub_def snap_wf_def snap_at_def i)
    then show ?thesis
      using True cap [of ?i] empty [of ?i] le
      by (auto simp: a split: option.splits)
  qed
qed

end
