(* ===== verification/Result_Area.thy ===== *)
theory Result_Area imports Register_Snapshot begin

text \<open>
  The result image of the poller and of the analog channels: 128 monitor words and 224 user
  words with a validity bit each.  \<open>src/modbus/rtu_master.rs\<close> and
  \<open>src/control_logic.rs\<close> hold one such area each, with the same operations; both publish
  the configured ranges, store results under a lock and let readers take a snapshot.
\<close>

abbreviation (input) MONITOR_RESULT_COUNT :: nat where "MONITOR_RESULT_COUNT \<equiv> 128"
abbreviation (input) USER_RESULT_COUNT :: nat where "USER_RESULT_COUNT \<equiv> 224"
abbreviation (input) RESULT_COUNT :: nat where "RESULT_COUNT \<equiv> 352"
abbreviation (input) RESULT_MASK_WORDS :: nat where "RESULT_MASK_WORDS \<equiv> 11"

record result_area =
  ra_values :: "u16 list"
  ra_valid :: "u32 list"

definition area_new :: result_area where
  "area_new = \<lparr>ra_values = replicate RESULT_COUNT 0, ra_valid = replicate RESULT_MASK_WORDS 0\<rparr>"

definition result_index :: "u16 \<Rightarrow> nat option" where
  "result_index address =
     (if unat address < MONITOR_RESULT_COUNT then Some (unat address)
      else case checked_sub address HOLD_USER_BASE of
        None \<Rightarrow> None
      | Some index \<Rightarrow>
          if unat index < USER_RESULT_COUNT then Some (MONITOR_RESULT_COUNT + unat index) else None)"

definition read_result_reg :: "result_area \<Rightarrow> u16 \<Rightarrow> u16 option" where
  "read_result_reg area addr =
     (case result_index addr of
        None \<Rightarrow> None
      | Some index \<Rightarrow>
          if \<not> valid_test (ra_valid area) index then None else Some (ra_values area ! index))"

definition snapshot_results :: "result_area \<Rightarrow> u16 \<Rightarrow> u16 \<Rightarrow> register_snapshot" where
  "snapshot_results area addr count =
     (if \<not> overlaps_results addr count (of_nat MONITOR_RESULT_COUNT) HOLD_USER_BASE
            (of_nat USER_RESULT_COUNT)
      then snapshot_empty addr
      else snapshot_capture addr count (read_result_reg area))"

text \<open>
  The ranges are pairs of an address and a word count; the callers have checked that the address
  has a result index, so the code's \<open>expect\<close> cannot fail.
\<close>

definition range_indices :: "u16 \<times> nat \<Rightarrow> nat list" where
  "range_indices r = (case result_index (fst r) of None \<Rightarrow> [] | Some start \<Rightarrow> [start..<start + snd r])"

definition publish_ranges :: "(u16 \<times> nat) list \<Rightarrow> result_area \<Rightarrow> result_area" where
  "publish_ranges ranges area =
     area\<lparr>ra_values := replicate RESULT_COUNT 0,
          ra_valid := foldl (\<lambda>ms r. foldl (\<lambda>ms i. valid_set i ms) ms (range_indices r))
            (replicate RESULT_MASK_WORDS 0) ranges\<rparr>"

fun store_words :: "nat \<Rightarrow> u16 list \<Rightarrow> u16 list \<Rightarrow> u16 list" where
  "store_words index [] values = values"
| "store_words index (v # vs) values = store_words (Suc index) vs (values[index := v])"

text \<open>Results beyond the configured count are dropped.\<close>

definition write_result :: "u16 \<times> nat \<Rightarrow> u16 list \<Rightarrow> result_area \<Rightarrow> result_area" where
  "write_result r vs area =
     (case result_index (fst r) of
        None \<Rightarrow> area
      | Some start \<Rightarrow> area\<lparr>ra_values := store_words start (take (snd r) vs) (ra_values area)\<rparr>)"

definition clear_result :: "u16 \<times> nat \<Rightarrow> result_area \<Rightarrow> result_area" where
  "clear_result r area =
     (case result_index (fst r) of
        None \<Rightarrow> area
      | Some start \<Rightarrow> area\<lparr>ra_values := store_words start (replicate (snd r) 0) (ra_values area)\<rparr>)"

definition result_range_is_valid :: "u16 \<Rightarrow> u16 \<Rightarrow> bool" where
  "result_range_is_valid start count =
     (if count = 0 then False
      else case checked_add start (count - 1) of
        None \<Rightarrow> False
      | Some last_addr \<Rightarrow>
          (case (result_index start, result_index last_addr) of
             (Some i, Some j) \<Rightarrow> j - i + 1 = unat count
           | _ \<Rightarrow> False))"

section \<open>Facts\<close>

lemma result_index_nat:
  "result_index a =
     (if unat a < 128 then Some (unat a)
      else if 4000 \<le> unat a \<and> unat a < 4224 then Some (unat a - 3872) else None)"
  by (auto simp: result_index_def checked_sub_def word_le_nat_alt unat_sub)

lemma result_index_less: "result_index a = Some i \<Longrightarrow> i < 352"
  by (auto simp: result_index_nat split: if_splits)

lemma result_index_inject: "result_index a = Some i \<Longrightarrow> result_index b = Some i \<Longrightarrow> a = b"
  by (auto simp: result_index_nat word_unat_eq_iff split: if_splits)

definition area_wf :: "result_area \<Rightarrow> bool" where
  "area_wf area \<longleftrightarrow> length (ra_values area) = 352 \<and> length (ra_valid area) = 11"

lemma length_store_words [simp]: "length (store_words i vs xs) = length xs"
  by (induction i vs xs rule: store_words.induct) auto

lemma nth_store_words:
  "k < length xs \<Longrightarrow>
    store_words i vs xs ! k = (if i \<le> k \<and> k < i + length vs then vs ! (k - i) else xs ! k)"
  by (induction i vs xs rule: store_words.induct) (auto simp: nth_Cons')

lemma valid_fold:
  assumes "\<forall>i\<in>set is. i div 32 < length ms"
  shows "length (foldl (\<lambda>ms i. valid_set i ms) ms is) = length ms \<and>
    (valid_test (foldl (\<lambda>ms i. valid_set i ms) ms is) j \<longleftrightarrow> j \<in> set is \<or> valid_test ms j)"
  using assms by (induction "is" arbitrary: ms) (auto simp: valid_test_set)

definition range_ok :: "u16 \<times> nat \<Rightarrow> bool" where
  "range_ok r \<longleftrightarrow> (\<exists>i. result_index (fst r) = Some i \<and> i + snd r \<le> 352)"

lemma valid_fold_ranges:
  assumes "\<forall>r\<in>set rs. range_ok r" and "length ms = 11"
  shows "length (foldl (\<lambda>ms r. foldl (\<lambda>ms i. valid_set i ms) ms (range_indices r)) ms rs) = 11 \<and>
    (valid_test (foldl (\<lambda>ms r. foldl (\<lambda>ms i. valid_set i ms) ms (range_indices r)) ms rs) j \<longleftrightarrow>
      (\<exists>r\<in>set rs. j \<in> set (range_indices r)) \<or> valid_test ms j)"
  using assms
proof (induction rs arbitrary: ms)
  case (Cons r rs)
  have "\<forall>i\<in>set (range_indices r). i div 32 < length ms"
    using Cons.prems by (auto simp: range_ok_def range_indices_def split: option.splits)
  from valid_fold [OF this] Cons show ?case by auto
qed simp

lemma area_wf_ops [simp]:
  "area_wf area_new" "area_wf area \<Longrightarrow> area_wf (write_result r vs area)"
  "area_wf area \<Longrightarrow> area_wf (clear_result r area)"
  by (auto simp: area_wf_def area_new_def write_result_def clear_result_def split: option.split)

lemma area_wf_publish: "\<forall>r\<in>set rs. range_ok r \<Longrightarrow> area_wf (publish_ranges rs area)"
  using valid_fold_ranges [of rs "replicate 11 0"] by (simp add: area_wf_def publish_ranges_def)

text \<open>After a publication exactly the configured addresses are readable, and read zero.\<close>

lemma read_after_publish:
  assumes "\<forall>r\<in>set rs. range_ok r"
  shows "read_result_reg (publish_ranges rs area) a =
    (if \<exists>i. result_index a = Some i \<and> (\<exists>r\<in>set rs. i \<in> set (range_indices r)) then Some 0 else None)"
proof (cases "result_index a")
  case (Some i)
  then have "i < 352" by (rule result_index_less)
  then show ?thesis
    using Some valid_fold_ranges [OF assms, of "replicate 11 0" i] valid_test_zero [of i 11]
    by (simp add: read_result_reg_def publish_ranges_def)
qed (simp add: read_result_reg_def)

lemma read_after_write_result:
  assumes "area_wf area" and "result_index (fst r) = Some i" and "result_index a = Some j"
  shows "read_result_reg (write_result r vs area) a =
    (if i \<le> j \<and> j < i + min (length vs) (snd r) \<and> read_result_reg area a \<noteq> None
     then Some (vs ! (j - i)) else read_result_reg area a)"
  using assms result_index_less [OF assms(3)]
  by (auto simp: read_result_reg_def write_result_def nth_store_words area_wf_def min.commute)

section \<open>Snapshots of an area\<close>

text \<open>
  What a multi-register read relies on: a snapshot answers like the live area on every address of
  the request, and an address outside the request is absent.
\<close>

locale result_reader =
  fixes read :: "'s \<Rightarrow> u16 \<Rightarrow> u16 option" and snapshot :: "'s \<Rightarrow> u16 \<Rightarrow> u16 \<Rightarrow> register_snapshot"
  assumes snapshot_inside:
      "unat a + unat c \<le> 65536 \<Longrightarrow> unat c \<le> 125 \<Longrightarrow> k < unat c \<Longrightarrow>
        snapshot_get (snapshot s a c) (a + of_nat k) = read s (a + of_nat k)"
    and read_windows: "read s x \<noteq> None \<Longrightarrow> unat x < 128 \<or> 4000 \<le> unat x \<and> unat x < 4224"
begin

lemma snapshot_outside_windows:
  assumes "unat a + unat c \<le> 65536" "unat c \<le> 125" "k < unat c"
    and "128 \<le> unat a + k" "unat a + k < 4000 \<or> 4224 \<le> unat a + k"
  shows "snapshot_get (snapshot s a c) (a + of_nat k) = None"
proof -
  have "unat (a + of_nat k) = unat a + k"
    using assms by (simp add: unat_word_ariths unat_of_nat)
  then have "read s (a + of_nat k) = None" using read_windows [of s "a + of_nat k"] assms by force
  then show ?thesis using snapshot_inside [OF assms(1-3)] by simp
qed

end

lemma unat_add_of_nat:
  "unat a + k < 65536 \<Longrightarrow> unat (a + of_nat k :: u16) = unat a + k"
  by (simp add: unat_word_ariths unat_of_nat)

lemma read_result_windows:
  "read_result_reg area x \<noteq> None \<Longrightarrow> unat x < 128 \<or> 4000 \<le> unat x \<and> unat x < 4224"
  by (auto simp: read_result_reg_def result_index_nat split: option.splits if_splits)

lemma snapshot_results_get:
  assumes "unat a + unat c \<le> 65536" "unat c \<le> 125" "k < unat c"
  shows "snapshot_get (snapshot_results area a c) (a + of_nat k) = read_result_reg area (a + of_nat k)"
proof -
  have x: "unat (a + of_nat k) = unat a + k" using assms by (intro unat_add_of_nat) simp
  show ?thesis
  proof (cases "overlaps_results a c 128 4000 224")
    case True
    have "a \<le> a + of_nat k" by (simp add: word_le_nat_alt x)
    then show ?thesis using True assms by (simp add: snapshot_results_def snapshot_get_capture x)
  next
    case False
    have "read_result_reg area (a + of_nat k) = None"
      using False assms read_result_windows [of area "a + of_nat k"]
      by (cases "read_result_reg area (a + of_nat k)")
        (auto simp: overlaps_results_def x Let_def unsigned_eq_0_iff split: if_splits)
    then show ?thesis using False by (simp add: snapshot_results_def)
  qed
qed

interpretation results: result_reader read_result_reg snapshot_results
  by unfold_locales (rule snapshot_results_get read_result_windows; assumption)+

end
