(* ===== verification/Sums.thy ===== *)
theory Sums imports Prelude begin

text \<open>
  Rust results as sums: \<open>Inl\<close> is the error and \<open>Inr\<close> the value.  \<open>ok_or\<close> turns an option
  into a result, \<open>and_then\<close> is the early return of the question mark operator.
\<close>

definition ok_or :: "'e \<Rightarrow> 'a option \<Rightarrow> 'e + 'a" where
  "ok_or e x = (case x of None \<Rightarrow> Inl e | Some v \<Rightarrow> Inr v)"

definition and_then :: "'e + 'a \<Rightarrow> ('a \<Rightarrow> 'e + 'b) \<Rightarrow> 'e + 'b" where
  "and_then m f = (case m of Inl e \<Rightarrow> Inl e | Inr x \<Rightarrow> f x)"

definition ensure :: "bool \<Rightarrow> 'e \<Rightarrow> 'e + 'b \<Rightarrow> 'e + 'b" where
  "ensure c e m = (if c then m else Inl e)"

lemma ok_or_simps [simp]:
  "ok_or e None = Inl e" "ok_or e (Some v) = Inr v"
  "ok_or e x = Inr v \<longleftrightarrow> x = Some v"
  by (simp_all add: ok_or_def split: option.split)

lemma and_then_simps [simp]:
  "and_then (Inl e) f = Inl e" "and_then (Inr x) f = f x"
  "and_then m f = Inr y \<longleftrightarrow> (\<exists>x. m = Inr x \<and> f x = Inr y)"
  by (simp_all add: and_then_def split: sum.split)

lemma ensure_simps [simp]:
  "ensure True e m = m" "ensure False e m = Inl e"
  "ensure c e m = Inr y \<longleftrightarrow> c \<and> m = Inr y"
  by (simp_all add: ensure_def)

end
