(* ===== verification/Logic_Table.thy ===== *)
theory Logic_Table imports Result_Area begin

text \<open>
  The logic table of \<open>src/control_logic.rs\<close>: parsing of the variable-length records that
  start at holding register 2300 into I/O rules and analog channels, and the encoding of analog
  values.  Reads beyond a record are the bounds-checked \<open>get_opt\<close>; \<open>holding_word\<close>
  is a read by register address.
\<close>

section \<open>Data\<close>

abbreviation (input) CONFIG_BASE :: u16 where "CONFIG_BASE \<equiv> 2300"
abbreviation (input) MAX_LOGICS :: nat where "MAX_LOGICS \<equiv> 32"
abbreviation (input) MAX_ANALOG_CHANNELS :: nat where "MAX_ANALOG_CHANNELS \<equiv> 64"

record control_spec =
  cs_value :: u16
  cs_feedback :: u16
  cs_q_bits :: u64
  cs_i_bits :: u64

record io_logic =
  lg_id :: u16
  lg_controllable :: bool
  lg_control_addr :: u16
  lg_feedback_addr :: u16
  lg_q_points :: "u8 list"
  lg_i_points :: "u8 list"
  lg_delay_ms :: u32
  lg_pulse_ms :: u32
  lg_controls :: "control_spec list"

record analog_channel =
  ac_source :: u8
  ac_destination :: u16
  ac_minimum :: u16
  ac_maximum :: u16
  ac_unit_minimum :: u16
  ac_unit_maximum :: u16
  ac_reference :: u16

record logic_table =
  lt_entries :: "io_logic list"
  lt_analog :: "analog_channel list"

definition empty_table :: logic_table where
  "empty_table = \<lparr>lt_entries = [], lt_analog = []\<rparr>"

section \<open>Reading the record area\<close>

definition holding_word :: "u16 list \<Rightarrow> u16 \<Rightarrow> u16 option" where
  "holding_word words address =
     (case checked_sub address HOLD_PXX_BASE of
        None \<Rightarrow> None
      | Some off \<Rightarrow> get_opt words (unat off))"

fun bit_words_loop :: "u16 list \<Rightarrow> nat \<Rightarrow> nat \<Rightarrow> nat list \<Rightarrow> u64 \<Rightarrow> u64" where
  "bit_words_loop words start count [] acc = acc"
| "bit_words_loop words start count (k # ks) acc =
     (case get_opt words (start + count - 1 - k) of
        None \<Rightarrow> acc
      | Some w \<Rightarrow> bit_words_loop words start count ks (acc OR push_bit (k * 16) (ucast w)))"

definition bit_words :: "u16 list \<Rightarrow> nat \<Rightarrow> nat \<Rightarrow> u64" where
  "bit_words words start count = bit_words_loop words start count [0..<min count 4] 0"

section \<open>Analog channels\<close>

definition has_engineering_range :: "analog_channel \<Rightarrow> bool" where
  "has_engineering_range ch \<longleftrightarrow>
     ac_maximum ch > ac_minimum ch \<and> ac_unit_maximum ch > ac_unit_minimum ch"

definition channel_words :: "analog_channel \<Rightarrow> nat" where
  "channel_words ch = (if has_engineering_range ch then 2 else 1)"

definition analog_destination_is_valid :: "analog_channel \<Rightarrow> bool" where
  "analog_destination_is_valid ch =
     (let words = channel_words ch in
      case checked_add (ac_destination ch) (of_nat words - 1) of
        None \<Rightarrow> False
      | Some last_addr \<Rightarrow>
          (case (result_index (ac_destination ch), result_index last_addr) of
             (Some fst_index, Some last_index) \<Rightarrow> last_index - fst_index + 1 = words
           | _ \<Rightarrow> False))"

text \<open>
  The bits of the single-precision quotient \<open>n / 100\<close> for \<open>n \<le> 6553500\<close>: the
  numerator is below \<open>2 ^ 24\<close>, so exact, and the division rounds to nearest, ties to even.
  The shift normalises the quotient to a 24-bit mantissa.
\<close>

definition round_div :: "nat \<Rightarrow> nat \<Rightarrow> nat" where
  "round_div a b =
     (let q = a div b; r = a mod b in
      if 2 * r < b \<or> (2 * r = b \<and> even q) then q else q + 1)"

definition f32_shift :: "nat \<Rightarrow> nat" where
  "f32_shift n = (case find (\<lambda>s. n * 2 ^ s \<ge> 100 * 2 ^ 23) [8..<31] of Some s \<Rightarrow> s | None \<Rightarrow> 31)"

definition f32_centi_bits :: "nat \<Rightarrow> u32" where
  "f32_centi_bits n =
     (if n = 0 then 0
      else let s = f32_shift n; m = round_div (n * 2 ^ s) 100
        in of_nat ((150 - s) * 2 ^ 23 + (m - 2 ^ 23)))"

text \<open>The linear map of the raw value, in hundredths, on 64-bit integers.\<close>

definition analog_scaled :: "analog_channel \<Rightarrow> u16 \<Rightarrow> int option" where
  "analog_scaled ch raw =
     (let input_min = 4096 * uint (ac_unit_minimum ch) div uint (ac_reference ch);
          input_max = 4096 * uint (ac_unit_maximum ch) div uint (ac_reference ch) - 1
      in if input_max \<le> input_min then None
      else let input = min (max (uint raw) input_min) input_max;
               output_min = uint (ac_minimum ch) * 100;
               output_max = uint (ac_maximum ch) * 100
        in Some ((input - input_min) * (output_max - output_min) div (input_max - input_min) + output_min))"

definition analog_encode :: "analog_channel \<Rightarrow> u16 \<Rightarrow> u16 list \<times> nat" where
  "analog_encode ch raw =
     (if \<not> has_engineering_range ch then ([raw, 0], 1)
      else case analog_scaled ch raw of
        None \<Rightarrow> ([raw, 0], 1)
      | Some scaled \<Rightarrow>
          let bits = f32_centi_bits (nat scaled) in ([ucast (drop_bit 16 bits), ucast bits], 2))"

fun parse_channel_loop ::
  "u16 list \<Rightarrow> nat \<Rightarrow> nat \<Rightarrow> nat list \<Rightarrow> analog_channel list \<Rightarrow> analog_channel list" where
  "parse_channel_loop ws channels_start words [] target = target"
| "parse_channel_loop ws channels_start words (k # ks) target =
     (if length target \<ge> MAX_ANALOG_CHANNELS then target
      else let start = channels_start + k * words;
               next = parse_channel_loop ws channels_start words ks in
        case get_opt ws start of
          None \<Rightarrow> target
        | Some channel \<Rightarrow>
            if channel = 0 \<or> channel > 16 then next target
            else case (get_opt ws (start + 2), get_opt ws (start + 3), get_opt ws (start + 4)) of
              (Some mi, Some ma, Some dest) \<Rightarrow>
                let parsed =
                  \<lparr>ac_source = ucast ((channel - 1) div 2), ac_destination = dest,
                   ac_minimum = mi, ac_maximum = ma,
                   ac_unit_minimum = case_option 0 id (get_opt ws (start + 6)),
                   ac_unit_maximum = case_option 20 id (get_opt ws (start + 7)),
                   ac_reference = (if channel mod 2 = 0 then 10 else 20)\<rparr>
                in next (if analog_destination_is_valid parsed then target @ [parsed] else target)
            | _ \<Rightarrow> next target)"

definition parse_channels :: "u16 list \<Rightarrow> nat \<Rightarrow> analog_channel list \<Rightarrow> analog_channel list" where
  "parse_channels ws header target =
     (case get_opt ws header of
        None \<Rightarrow> target
      | Some h \<Rightarrow>
          let words = unat (hi8 h) div 2; count = unat (lo8 h) in
          if words < 6 \<or> count = 0 then target
          else parse_channel_loop ws (header + 1) words [0..<count] target)"

text \<open>Records of attribute 4 put the channel table behind a list of register groups.\<close>

fun skip_registers :: "u16 list \<Rightarrow> nat \<Rightarrow> nat \<Rightarrow> nat option" where
  "skip_registers ws 0 cursor = Some cursor"
| "skip_registers ws (Suc n) cursor =
     (case get_opt ws (cursor + 3) of
        None \<Rightarrow> None
      | Some h \<Rightarrow>
          if hi8 h = 0 \<or> odd (unat (hi8 h)) then None
          else let cursor' = cursor + (4 + unat (hi8 h) div 2 * unat (lo8 h)) in
            if cursor' > length ws then None else skip_registers ws n cursor')"

definition rs485_channel_header :: "u16 list \<Rightarrow> nat \<Rightarrow> nat option" where
  "rs485_channel_header ws start =
     (case get_opt ws (start + 5) of
        None \<Rightarrow> None
      | Some h \<Rightarrow> if hi8 h \<noteq> 6 then None else skip_registers ws (unat (lo8 h)) (start + 6))"

section \<open>I/O rules\<close>

definition seconds_to_millis :: "u16 \<Rightarrow> u32" where
  "seconds_to_millis s = ucast s * 1000"

text \<open>A point table: one physical point per entry, kept when in 1..64 and while there is room.\<close>

fun push_points :: "u16 list \<Rightarrow> nat \<Rightarrow> nat \<Rightarrow> nat list \<Rightarrow> u8 list \<Rightarrow> u8 list" where
  "push_points ws start words [] acc = acc"
| "push_points ws start words (k # ks) acc =
     (let pos = start + k * words;
          addr = (if words \<ge> 2 then case_option 0 id (get_opt ws (pos + words - 1)) else 0)
      in push_points ws start words ks
           (if words \<ge> 2 \<and> 1 \<le> addr \<and> addr \<le> 64 \<and> length acc < 64 then acc @ [ucast addr] else acc))"

fun parse_controls :: "u16 list \<Rightarrow> nat \<Rightarrow> nat \<Rightarrow> nat list \<Rightarrow> control_spec list" where
  "parse_controls ws start words [] = []"
| "parse_controls ws start words (k # ks) =
     (let pos = start + k * words in
      case get_opt ws pos of
        None \<Rightarrow> []
      | Some v \<Rightarrow>
          let n = (words - 4) div 2 in
          \<lparr>cs_value = v, cs_feedback = case_option 0 id (get_opt ws (pos + 1)),
           cs_q_bits = bit_words ws (pos + 3) n, cs_i_bits = bit_words ws (pos + 3 + n) n\<rparr>
          # parse_controls ws start words ks)"

definition table_words :: "u8 \<Rightarrow> nat" where
  "table_words bytes = (unat bytes + 1) div 2"

definition parse_io_record :: "u16 list \<Rightarrow> nat \<Rightarrow> u16 \<Rightarrow> nat \<Rightarrow> bool \<Rightarrow> io_logic option" where
  "parse_io_record ws base_index start_addr index controllable =
     (case holding_word ws (start_addr + 4) of None \<Rightarrow> None | Some q_header \<Rightarrow>
      let q_count = unat (lo8 q_header); q_words = table_words (hi8 q_header);
          q_start = base_index + 5;
          q_points = push_points ws q_start q_words [0..<q_count] [];
          i_header_addr = q_start + q_words * q_count in
      case get_opt ws i_header_addr of None \<Rightarrow> None | Some i_header \<Rightarrow>
      let i_count = unat (lo8 i_header); i_words = table_words (hi8 i_header);
          i_points = push_points ws (i_header_addr + 1) i_words [0..<i_count] [];
          cw_header_addr = i_header_addr + 1 + i_words * i_count in
      case get_opt ws cw_header_addr of None \<Rightarrow> None | Some cw_header \<Rightarrow>
      let cw_count = unat (lo8 cw_header); cw_words = table_words (hi8 cw_header) in
      if cw_words = 0 \<or> cw_count < 2 then None
      else let words_start = cw_header_addr + 1;
               control_addr = case_option 0 id (get_opt ws words_start);
               feedback_addr = case_option 0 id (get_opt ws (words_start + cw_words));
               control_header_addr = words_start + cw_words * cw_count in
      case get_opt ws control_header_addr of None \<Rightarrow> None | Some control_header \<Rightarrow>
      let control_count = unat (lo8 control_header); control_words = table_words (hi8 control_header) in
      if control_words < 6 \<or> control_count = 0 then None
      else let controls_start = control_header_addr + 1;
               controls = parse_controls ws controls_start control_words [0..<control_count] in
      if controls = [] then None
      else let tail = controls_start + control_words * control_count in
      case (get_opt ws tail, get_opt ws (tail + 1)) of
        (Some delay, Some pulse) \<Rightarrow>
          Some \<lparr>lg_id = of_nat index, lg_controllable = controllable, lg_control_addr = control_addr,
            lg_feedback_addr = feedback_addr, lg_q_points = q_points, lg_i_points = i_points,
            lg_delay_ms = seconds_to_millis delay, lg_pulse_ms = seconds_to_millis pulse,
            lg_controls = controls\<rparr>
      | _ \<Rightarrow> None)"

section \<open>The table\<close>

text \<open>One record of the directory: the words up to its end offset, dispatched on its attribute.\<close>

definition parse_record :: "u16 list \<Rightarrow> nat \<Rightarrow> u16 \<Rightarrow> u16 \<Rightarrow> logic_table \<Rightarrow> logic_table" where
  "parse_record words index start_offset end_offset table =
     (if start_offset \<ge> end_offset then table
      else case (checked_add CONFIG_BASE start_offset, checked_add CONFIG_BASE end_offset) of
        (Some start_addr, Some end_addr) \<Rightarrow>
          (case checked_sub end_addr HOLD_PXX_BASE of
             None \<Rightarrow> table
           | Some end_index \<Rightarrow>
               if unat end_index > length words then table
               else let ws = take (unat end_index) words;
                        base_index = unat (start_addr - HOLD_PXX_BASE) in
                 case holding_word ws start_addr of
                   None \<Rightarrow> table
                 | Some a \<Rightarrow>
                     let attribute = lo8 a in
                     if attribute = 3
                       then table\<lparr>lt_analog := parse_channels ws (base_index + 4) (lt_analog table)\<rparr>
                     else if attribute = 4
                       then (case rs485_channel_header ws base_index of
                               None \<Rightarrow> table
                             | Some header \<Rightarrow>
                                 table\<lparr>lt_analog := parse_channels ws header (lt_analog table)\<rparr>)
                     else if attribute \<noteq> 1 \<and> attribute \<noteq> 5 then table
                     else (case parse_io_record ws base_index start_addr index (attribute = 1) of
                             None \<Rightarrow> table
                           | Some logic \<Rightarrow> table\<lparr>lt_entries := lt_entries table @ [logic]\<rparr>))
      | _ \<Rightarrow> table)"

fun parse_table_loop :: "u16 list \<Rightarrow> nat \<Rightarrow> nat list \<Rightarrow> logic_table \<Rightarrow> logic_table" where
  "parse_table_loop words count [] table = table"
| "parse_table_loop words count (index # rest) table =
     (case holding_word words (CONFIG_BASE + 1 + of_nat index) of
        None \<Rightarrow> table
      | Some start_offset \<Rightarrow>
          (case (if index + 1 < count then holding_word words (CONFIG_BASE + 2 + of_nat index)
                 else holding_word words (CONFIG_BASE + 1 + of_nat count)) of
             None \<Rightarrow> table
           | Some end_offset \<Rightarrow>
               parse_table_loop words count rest (parse_record words index start_offset end_offset table)))"

definition parse_table :: "u16 list \<Rightarrow> logic_table" where
  "parse_table words =
     (case holding_word words CONFIG_BASE of
        None \<Rightarrow> empty_table
      | Some n \<Rightarrow>
          let count = min (unat n) MAX_LOGICS in
          parse_table_loop words count [0..<count] empty_table)"

section \<open>Well-formed tables\<close>

definition point_ok :: "u8 \<Rightarrow> bool" where
  "point_ok p \<longleftrightarrow> 1 \<le> p \<and> p \<le> 64"

definition logic_wf :: "io_logic \<Rightarrow> bool" where
  "logic_wf l \<longleftrightarrow> list_all point_ok (lg_q_points l) \<and> length (lg_q_points l) \<le> 64 \<and>
     list_all point_ok (lg_i_points l) \<and> length (lg_i_points l) \<le> 64 \<and> lg_controls l \<noteq> []"

definition channel_wf :: "analog_channel \<Rightarrow> bool" where
  "channel_wf ch \<longleftrightarrow> analog_destination_is_valid ch \<and> ac_source ch < 8 \<and>
     (ac_reference ch = 10 \<or> ac_reference ch = 20)"

definition table_wf :: "logic_table \<Rightarrow> bool" where
  "table_wf t \<longleftrightarrow> list_all logic_wf (lt_entries t) \<and> length (lt_entries t) \<le> MAX_LOGICS \<and>
     list_all channel_wf (lt_analog t) \<and> length (lt_analog t) \<le> MAX_ANALOG_CHANNELS"

lemma push_points_ok:
  assumes "list_all point_ok acc" and "length acc \<le> 64"
  shows "list_all point_ok (push_points ws start words ks acc) \<and>
    length (push_points ws start words ks acc) \<le> 64"
  using assms
proof (induction ks arbitrary: acc)
  case (Cons k ks)
  have narrow: "point_ok (ucast a)" if "1 \<le> a" "a \<le> 64" for a :: u16
  proof -
    have a: "unat a \<le> 64" "1 \<le> unat a" using that by (simp_all add: word_le_nat_alt)
    then have "unat (ucast a :: u8) = unat a" by (simp add: unsigned_ucast_eq take_bit_eq_mod unat_mod)
    then show ?thesis using a by (simp add: point_ok_def word_le_nat_alt)
  qed
  show ?case
    using Cons narrow by (auto simp: Let_def simp del: One_nat_def)
qed simp

lemma parse_io_record_wf: "parse_io_record ws b sa i c = Some l \<Longrightarrow> logic_wf l"
  using push_points_ok [of "[]"]
  by (auto simp: parse_io_record_def logic_wf_def Let_def split: option.splits if_splits)

lemma parse_channel_loop_wf:
  assumes "list_all channel_wf target" and "length target \<le> 64"
  shows "list_all channel_wf (parse_channel_loop ws cs w ks target) \<and>
    length (parse_channel_loop ws cs w ks target) \<le> 64"
  using assms
proof (induction ks arbitrary: target)
  case (Cons k ks)
  have source: "ucast ((c - 1) div 2) < (8 :: u8)" if "c \<noteq> 0" "\<not> c > 16" for c :: u16
  proof -
    have c: "unat c \<le> 16" "1 \<le> c" using that by (simp_all add: word_le_nat_alt unsigned_eq_0_iff Suc_le_eq
        word_less_nat_alt unat_gt_0)
    then have "unat ((c - 1) div 2) < 8" by (simp add: unat_div unat_sub)
    then have "unat (ucast ((c - 1) div 2) :: u8) < 8"
      by (simp add: unsigned_ucast_eq take_bit_eq_mod unat_mod)
    then show ?thesis by (simp add: word_less_nat_alt)
  qed
  show ?case
    using Cons source by (auto simp: Let_def channel_wf_def split: option.split)
qed simp

lemma parse_channels_wf:
  assumes "list_all channel_wf target" and "length target \<le> 64"
  shows "list_all channel_wf (parse_channels ws h target) \<and> length (parse_channels ws h target) \<le> 64"
  using assms parse_channel_loop_wf by (auto simp: parse_channels_def Let_def split: option.split)

lemma parse_record_wf:
  assumes "table_wf t" and "length (lt_entries t) < 32"
  shows "table_wf (parse_record words i so eo t)"
    and "length (lt_entries (parse_record words i so eo t)) \<le> length (lt_entries t) + 1"
  using assms parse_channels_wf [of "lt_analog t"]
  by (auto simp: parse_record_def table_wf_def Let_def intro: parse_io_record_wf split: option.split)

lemma parse_table_loop_wf:
  assumes "table_wf t" and "length (lt_entries t) + length ks \<le> 32"
  shows "table_wf (parse_table_loop words count ks t)"
  using assms
proof (induction ks arbitrary: t)
  case (Cons k ks)
  show ?case
  proof (cases "\<exists>so eo. holding_word words (CONFIG_BASE + 1 + of_nat k) = Some so \<and>
      (if k + 1 < count then holding_word words (CONFIG_BASE + 2 + of_nat k)
       else holding_word words (CONFIG_BASE + 1 + of_nat count)) = Some eo")
    case True
    then obtain so eo where eq: "parse_table_loop words count (k # ks) t =
        parse_table_loop words count ks (parse_record words k so eo t)" by auto
    have "table_wf (parse_record words k so eo t)"
      "length (lt_entries (parse_record words k so eo t)) \<le> length (lt_entries t) + 1"
      using Cons.prems parse_record_wf [of t words k so eo] by auto
    then show ?thesis unfolding eq using Cons.prems(2) by (intro Cons.IH) auto
  next
    case False
    then show ?thesis using Cons.prems(1) by (auto split: option.split)
  qed
qed simp

lemma parse_table_wf_lemma: "table_wf (parse_table words)"
  by (auto simp: parse_table_def Let_def empty_table_def table_wf_def split: option.split
      intro!: parse_table_loop_wf [unfolded table_wf_def])

section \<open>Result addresses\<close>

lemma channel_words_cases: "channel_words ch = 1 \<or> channel_words ch = 2"
  by (simp add: channel_words_def)

lemma valid_destination:
  assumes "analog_destination_is_valid ch" and "k < channel_words ch"
  obtains i where "result_index (ac_destination ch) = Some i"
    and "result_index (ac_destination ch + of_nat k) = Some (i + k)"
    and "unat (ac_destination ch) + k < 65536"
proof -
  consider "channel_words ch = 1" | "channel_words ch = 2" using channel_words_cases by blast
  then have "\<exists>i. result_index (ac_destination ch) = Some i \<and>
      result_index (ac_destination ch + of_nat k) = Some (i + k) \<and> unat (ac_destination ch) + k < 65536"
  proof cases
    case 1
    then show ?thesis
      using assms unat_u16_less [of "ac_destination ch"]
      by (auto simp: analog_destination_is_valid_def Let_def split: option.splits)
  next
    case 2
    have k: "k = 0 \<or> k = 1" using assms(2) 2 by auto
    obtain last_addr i j where
      add: "checked_add (ac_destination ch) 1 = Some last_addr" and
      i: "result_index (ac_destination ch) = Some i" and j: "result_index last_addr = Some j" and
      ij: "Suc (j - i) = 2"
      using assms(1) 2 by (auto simp: analog_destination_is_valid_def Let_def split: option.splits)
    have lt: "unat (ac_destination ch) + 1 < 65536" and la: "last_addr = ac_destination ch + 1"
      using add by (auto simp: checked_add_def split: if_splits)
    have "j = i + 1" using ij by simp
    then show ?thesis using i j la lt k by auto
  qed
  then show ?thesis using that by blast
qed

section \<open>The analog map\<close>

lemma scale_bounds:
  fixes x y d D :: int
  assumes "0 < D" and "0 \<le> x" and "x \<le> D" and "0 \<le> d"
  shows "0 \<le> x * d div D" and "x * d div D \<le> d"
proof -
  show "0 \<le> x * d div D" using assms by (simp add: pos_imp_zdiv_nonneg_iff)
  have "x * d div D \<le> D * d div D"
    using assms by (intro zdiv_mono1) (simp_all add: mult_right_mono)
  then show "x * d div D \<le> d" using assms(1) by simp
qed

lemma analog_scaled_bounds:
  assumes "has_engineering_range ch" and "analog_scaled ch raw = Some x"
  shows "uint (ac_minimum ch) * 100 \<le> x" and "x \<le> uint (ac_maximum ch) * 100"
proof -
  define lo hi where "lo = 4096 * uint (ac_unit_minimum ch) div uint (ac_reference ch)"
    and "hi = 4096 * uint (ac_unit_maximum ch) div uint (ac_reference ch) - 1"
  define d where "d = uint (ac_maximum ch) * 100 - uint (ac_minimum ch) * 100"
  have lt: "lo < hi" and x: "x = (min (max (uint raw) lo) hi - lo) * d div (hi - lo) + uint (ac_minimum ch) * 100"
    using assms(2) by (auto simp: analog_scaled_def Let_def lo_def hi_def d_def split: if_splits)
  have d: "0 \<le> d" using assms(1) by (simp add: d_def has_engineering_range_def word_less_def)
  have "0 \<le> min (max (uint raw) lo) hi - lo" "min (max (uint raw) lo) hi - lo \<le> hi - lo"
    using lt by auto
  from scale_bounds [OF _ this d] lt
  show "uint (ac_minimum ch) * 100 \<le> x" "x \<le> uint (ac_maximum ch) * 100"
    by (auto simp: x d_def)
qed

lemma analog_scaled_mono:
  assumes "has_engineering_range ch" and "raw \<le> raw'"
    and "analog_scaled ch raw = Some x" and "analog_scaled ch raw' = Some x'"
  shows "x \<le> x'"
proof -
  define lo hi where "lo = 4096 * uint (ac_unit_minimum ch) div uint (ac_reference ch)"
    and "hi = 4096 * uint (ac_unit_maximum ch) div uint (ac_reference ch) - 1"
  define d where "d = uint (ac_maximum ch) * 100 - uint (ac_minimum ch) * 100"
  have lt: "lo < hi"
    and x: "x = (min (max (uint raw) lo) hi - lo) * d div (hi - lo) + uint (ac_minimum ch) * 100"
    and x': "x' = (min (max (uint raw') lo) hi - lo) * d div (hi - lo) + uint (ac_minimum ch) * 100"
    using assms(3,4) by (auto simp: analog_scaled_def Let_def lo_def hi_def d_def split: if_splits)
  have d: "0 \<le> d" using assms(1) by (simp add: d_def has_engineering_range_def word_less_def)
  have "uint raw \<le> uint raw'" using assms(2) by (simp add: word_le_def)
  then have "(min (max (uint raw) lo) hi - lo) * d \<le> (min (max (uint raw') lo) hi - lo) * d"
    using d by (intro mult_right_mono) auto
  then show ?thesis unfolding x x' using lt by (intro add_right_mono zdiv_mono1) auto
qed

lemma analog_encode_words:
  "analog_encode ch raw = (ws, n) \<Longrightarrow> length ws = 2 \<and> 1 \<le> n \<and> n \<le> channel_words ch"
  by (auto simp: analog_encode_def channel_words_def Let_def split: if_splits option.splits)

section \<open>Correctness\<close>

text \<open>Whatever words a client has stored in the logic area, parsing them ends with a table
  within its capacity whose points are physical ones, whose inputs exist and whose analog results
  lie inside the result windows.\<close>

theorem parse_table_safe:
  "list_all logic_wf (lt_entries (parse_table words)) \<and>
   length (lt_entries (parse_table words)) \<le> MAX_LOGICS \<and>
   length (lt_analog (parse_table words)) \<le> MAX_ANALOG_CHANNELS \<and>
   list_all (\<lambda>ch. ac_source ch < 8 \<and>
     list_all (\<lambda>k. result_index (ac_destination ch + of_nat k) \<noteq> None) [0..<channel_words ch])
     (lt_analog (parse_table words))"
proof -
  have "table_wf (parse_table words)" by (rule parse_table_wf_lemma)
  then show ?thesis
    by (auto simp: table_wf_def list_all_iff channel_wf_def) (metis valid_destination)
qed

text \<open>The engineering value of an analog input lies between the configured limits and never
  falls when the raw value rises.\<close>

theorem analog_scaling:
  assumes "has_engineering_range ch" and "raw \<le> raw'"
    and "analog_scaled ch raw = Some x" and "analog_scaled ch raw' = Some x'"
  shows "uint (ac_minimum ch) * 100 \<le> x \<and> x \<le> x' \<and> x' \<le> uint (ac_maximum ch) * 100"
  using analog_scaled_bounds [OF assms(1,3)] analog_scaled_bounds [OF assms(1,4)]
    analog_scaled_mono [OF assms] by simp


theorem analog_scaling_witness:
  "analog_scaled \<lparr>ac_source = 0, ac_destination = 0, ac_minimum = 0, ac_maximum = 100,
      ac_unit_minimum = 4, ac_unit_maximum = 20, ac_reference = 20\<rparr> 2457 = Some 5000 \<and>
   (0 :: int) \<le> 5000 \<and> (5000 :: int) \<le> 10000"
proof -
  let ?ch = "\<lparr>ac_source = 0, ac_destination = 0, ac_minimum = 0, ac_maximum = 100,
      ac_unit_minimum = 4, ac_unit_maximum = 20, ac_reference = 20\<rparr>"
  have "analog_scaled ?ch 2457 = Some 5000" by code_simp
  moreover have "analog_scaled ?ch 4095 = Some 10000" by code_simp
  moreover have "has_engineering_range ?ch" by code_simp
  ultimately show ?thesis using analog_scaling [of ?ch 2457 4095 5000 10000] by simp
qed

end
