(* ===== verification/Control_Logic.thy ===== *)
theory Control_Logic imports Logic_Table Io_State Mpsc_Ring "HOL-Library.Multiset" begin

text \<open>
  The control-word executor of \<open>src/control_logic.rs\<close>: the cached table with its
  generation counter, the analog results, commands queued by control-word writes, and the
  scheduler that switches outputs on and, for pulses, off again.  A tick is given the three clock
  readings it takes; \<open>busy\<close> flags are moments when the command queue is locked by a
  producer.
\<close>

section \<open>State\<close>

abbreviation (input) MAX_SCHEDULED :: nat where "MAX_SCHEDULED \<equiv> 64"
abbreviation (input) COMMAND_SLOTS :: nat where "COMMAND_SLOTS \<equiv> 64"

record command =
  cmd_logic_id :: u16
  cmd_q_scope :: u64
  cmd_q_mask :: u64
  cmd_delay_ms :: u32
  cmd_pulse_ms :: u32

record scheduled =
  sch_logic_id :: u16
  sch_due_ms :: u64
  sch_mask :: u64
  sch_value :: u64
  sch_transient :: bool

text \<open>\<open>ctl_scheduled\<close> is \<open>None\<close> until \<open>init\<close> has run.\<close>

record control_state =
  ctl_table :: logic_table
  ctl_commands :: "command list"
  ctl_scheduled :: "scheduled list option"
  ctl_config_gen :: u32
  ctl_table_gen :: u32
  ctl_transient :: atomic_bits64
  ctl_analog :: result_area
  ctl_last_analog :: u32

definition control_new :: control_state where
  "control_new =
     \<lparr>ctl_table = empty_table, ctl_commands = [], ctl_scheduled = None, ctl_config_gen = 1,
      ctl_table_gen = 0, ctl_transient = bits_new 0, ctl_analog = area_new, ctl_last_analog = 0\<rparr>"

definition mark_config_changed :: "control_state \<Rightarrow> control_state" where
  "mark_config_changed cs = cs\<lparr>ctl_config_gen := ctl_config_gen cs + 1\<rparr>"

section \<open>The cached table\<close>

definition publish_analog_ranges :: "analog_channel list \<Rightarrow> result_area \<Rightarrow> result_area" where
  "publish_analog_ranges channels area =
     publish_ranges (map (\<lambda>ch. (ac_destination ch, channel_words ch)) channels) area"

definition refresh_table :: "u16 list \<Rightarrow> control_state \<Rightarrow> control_state" where
  "refresh_table holding cs =
     (if ctl_table_gen cs = ctl_config_gen cs then cs
      else let table = parse_table holding in
        cs\<lparr>ctl_analog := publish_analog_ranges (lt_analog table) (ctl_analog cs),
           ctl_table := table, ctl_table_gen := ctl_config_gen cs\<rparr>)"

definition control_init :: "u16 list \<Rightarrow> control_state \<Rightarrow> control_state" where
  "control_init holding cs =
     refresh_table holding
       (case ctl_scheduled cs of None \<Rightarrow> cs\<lparr>ctl_scheduled := Some []\<rparr> | Some _ \<Rightarrow> cs)"

definition update_analog_results :: "logic_table \<Rightarrow> io_bundle \<Rightarrow> result_area \<Rightarrow> result_area" where
  "update_analog_results table io area =
     (if lt_analog table = [] then area
      else foldl (\<lambda>area ch.
             let raw = ai_get_scaled (io_ai io) (unat (ac_source ch));
                 (words, count) = analog_encode ch raw
             in write_result (ac_destination ch, count) (take count words) area)
           area (lt_analog table))"

section \<open>Commands and feedback\<close>

definition point_scope :: "u8 list \<Rightarrow> u64" where
  "point_scope points =
     foldl (\<lambda>mask point. if point = 0 \<or> point > 64 then mask else mask OR push_bit (unat (point - 1)) 1)
       0 points"

definition command_for_logic :: "io_logic \<Rightarrow> u16 \<Rightarrow> u16 \<Rightarrow> command option" where
  "command_for_logic l address v =
     (if \<not> lg_controllable l \<or> lg_control_addr l \<noteq> address then None
      else case find (\<lambda>c. cs_value c = v) (lg_controls l) of
        None \<Rightarrow> None
      | Some control \<Rightarrow>
          let q_scope = point_scope (lg_q_points l) in
          Some \<lparr>cmd_logic_id = lg_id l, cmd_q_scope = q_scope,
            cmd_q_mask = cs_q_bits control AND q_scope,
            cmd_delay_ms = lg_delay_ms l, cmd_pulse_ms = lg_pulse_ms l\<rparr>)"

text \<open>\<open>busy i\<close>: the queue is locked when the \<open>i\<close>-th rule tries to enqueue.\<close>

fun enqueue_matching ::
  "(nat \<Rightarrow> bool) \<Rightarrow> nat \<Rightarrow> u16 \<Rightarrow> u16 \<Rightarrow> io_logic list \<Rightarrow> command list \<Rightarrow> command list" where
  "enqueue_matching busy i address v [] q = q"
| "enqueue_matching busy i address v (l # ls) q =
     enqueue_matching busy (Suc i) address v ls
       (case command_for_logic l address v of
          None \<Rightarrow> q
        | Some c \<Rightarrow> snd (mpsc_try_enqueue COMMAND_SLOTS (busy i) c q))"

definition on_control_word_written ::
  "(nat \<Rightarrow> bool) \<Rightarrow> u16 list \<Rightarrow> u16 \<Rightarrow> u16 \<Rightarrow> control_state \<Rightarrow> control_state" where
  "on_control_word_written busy holding address v cs =
     (let cs1 = refresh_table holding cs in
      cs1\<lparr>ctl_commands :=
        enqueue_matching busy 0 address v (lt_entries (ctl_table cs1)) (ctl_commands cs1)\<rparr>)"

definition feedback_matches :: "io_logic \<Rightarrow> u64 \<Rightarrow> u64 \<Rightarrow> control_spec \<Rightarrow> bool" where
  "feedback_matches l di_bits do_bits c =
     (if cs_i_bits c \<noteq> 0 then di_bits AND point_scope (lg_i_points l) = cs_i_bits c
      else do_bits AND point_scope (lg_q_points l) = cs_q_bits c)"

fun feedback_loop :: "io_logic list \<Rightarrow> u16 \<Rightarrow> u64 \<Rightarrow> u64 \<Rightarrow> u16 option" where
  "feedback_loop [] address di_bits do_bits = None"
| "feedback_loop (l # ls) address di_bits do_bits =
     (if lg_feedback_addr l \<noteq> address then feedback_loop ls address di_bits do_bits
      else case find (feedback_matches l di_bits do_bits) (lg_controls l) of
        Some c \<Rightarrow> Some (cs_feedback c)
      | None \<Rightarrow> feedback_loop ls address di_bits do_bits)"

definition feedback_from_table :: "logic_table \<Rightarrow> u16 \<Rightarrow> u64 \<Rightarrow> u64 \<Rightarrow> u16 option" where
  "feedback_from_table table address di_bits do_bits =
     feedback_loop (lt_entries table) address di_bits do_bits"

record feedback_snapshot =
  fs_table :: logic_table
  fs_di_bits :: u64
  fs_do_bits :: u64

definition feedback_read :: "feedback_snapshot \<Rightarrow> u16 \<Rightarrow> u16 option" where
  "feedback_read fs address = feedback_from_table (fs_table fs) address (fs_di_bits fs) (fs_do_bits fs)"

definition capture_feedback_snapshot :: "u16 list \<Rightarrow> io_bundle \<Rightarrow> control_state \<Rightarrow> feedback_snapshot" where
  "capture_feedback_snapshot holding io cs =
     \<lparr>fs_table = ctl_table (refresh_table holding cs), fs_di_bits = load_bits (io_di io),
      fs_do_bits = load_bits (io_do io)\<rparr>"

definition feedback_word :: "u16 list \<Rightarrow> io_bundle \<Rightarrow> control_state \<Rightarrow> u16 \<Rightarrow> u16 option" where
  "feedback_word holding io cs address = feedback_read (capture_feedback_snapshot holding io cs) address"

section \<open>Outputs\<close>

definition apply_output ::
  "u64 \<Rightarrow> u64 \<Rightarrow> bool \<Rightarrow> io_bundle \<times> control_state \<Rightarrow> io_bundle \<times> control_state" where
  "apply_output m v transient s =
     (do_mask_replace m v (fst s),
      (snd s)\<lparr>ctl_transient := mask_replace m (if transient then m else 0) (ctl_transient (snd s))\<rparr>)"

definition analog_update_due :: "u32 \<Rightarrow> u32 \<Rightarrow> bool" where
  "analog_update_due now last_ms \<longleftrightarrow> now - last_ms \<ge> 100"

definition schedule_fits :: "nat \<Rightarrow> nat \<Rightarrow> nat \<Rightarrow> bool" where
  "schedule_fits current replaced required \<longleftrightarrow> current - replaced + required \<le> MAX_SCHEDULED"

text \<open>A later command of the same rule replaces what is pending for that rule.\<close>

definition schedule_command :: "u64 \<Rightarrow> command \<Rightarrow> scheduled list \<Rightarrow> scheduled list" where
  "schedule_command now c sched =
     (let due = saturating_add now (ucast (cmd_delay_ms c));
          replaced = length (filter (\<lambda>i. sch_logic_id i = cmd_logic_id c) sched);
          required = (if cmd_pulse_ms c > 0 then 2 else 1) in
      if \<not> schedule_fits (length sched) replaced required then sched
      else let s1 = filter (\<lambda>i. sch_logic_id i \<noteq> cmd_logic_id c) sched;
               s2 = (if length s1 < MAX_SCHEDULED
                     then s1 @ [\<lparr>sch_logic_id = cmd_logic_id c, sch_due_ms = due,
                       sch_mask = cmd_q_scope c, sch_value = cmd_q_mask c,
                       sch_transient = (cmd_pulse_ms c > 0)\<rparr>]
                     else s1)
        in if cmd_pulse_ms c > 0 \<and> length s2 < MAX_SCHEDULED
           then s2 @ [\<lparr>sch_logic_id = cmd_logic_id c,
             sch_due_ms = saturating_add due (ucast (cmd_pulse_ms c)),
             sch_mask = cmd_q_scope c, sch_value = 0, sch_transient = False\<rparr>]
           else s2)"

text \<open>At most eight commands a tick; the pass ends when the queue is empty or locked.\<close>

fun drain_commands :: "(nat \<Rightarrow> bool) \<Rightarrow> u64 \<Rightarrow> nat \<Rightarrow> control_state \<Rightarrow> control_state" where
  "drain_commands busy now 0 cs = cs"
| "drain_commands busy now (Suc n) cs =
     (case mpsc_dequeue (busy n) (ctl_commands cs) of
        (None, q) \<Rightarrow> cs
      | (Some c, q) \<Rightarrow>
          drain_commands busy now n
            (cs\<lparr>ctl_commands := q, ctl_scheduled := map_option (schedule_command now c) (ctl_scheduled cs)\<rparr>))"

text \<open>\<open>Vec::swap_remove\<close>: the last element takes the place of the removed one.\<close>

definition swap_remove :: "nat \<Rightarrow> 'a list \<Rightarrow> 'a list" where
  "swap_remove i xs = (if i = length xs - 1 then butlast xs else (butlast xs)[i := last xs])"

lemma length_swap_remove [simp]: "length (swap_remove i xs) = length xs - 1"
  by (simp add: swap_remove_def)

function run_due ::
  "u64 \<Rightarrow> nat \<Rightarrow> scheduled list \<Rightarrow> io_bundle \<times> control_state \<Rightarrow>
     scheduled list \<times> (io_bundle \<times> control_state)" where
  "run_due now index sched s =
     (if index < length sched then
        if sch_due_ms (sched ! index) \<le> now then
          let action = sched ! index in
          run_due now index (swap_remove index sched)
            (apply_output (sch_mask action) (sch_value action) (sch_transient action) s)
        else run_due now (index + 1) sched s
      else (sched, s))"
  by auto
termination by (relation "measure (\<lambda>(now, index, sched, s). length sched - index)") auto

declare run_due.simps [simp del]

definition control_tick ::
  "u64 \<Rightarrow> u64 \<Rightarrow> u64 \<Rightarrow> (nat \<Rightarrow> bool) \<Rightarrow> u16 list \<Rightarrow> io_bundle \<times> control_state \<Rightarrow>
     io_bundle \<times> control_state" where
  "control_tick tick_now command_now scheduled_now busy holding s =
     (let io = fst s;
          cs1 = refresh_table holding (snd s);
          cs2 = (if analog_update_due (ucast tick_now) (ctl_last_analog cs1)
                 then cs1\<lparr>ctl_analog := update_analog_results (ctl_table cs1) io (ctl_analog cs1),
                          ctl_last_analog := ucast tick_now\<rparr>
                 else cs1);
          cs3 = drain_commands busy command_now 8 cs2
      in case ctl_scheduled cs3 of
           None \<Rightarrow> (io, cs3)
         | Some sched \<Rightarrow>
             let (sched', io', cs4) = run_due scheduled_now 0 sched (io, cs3)
             in (io', cs4\<lparr>ctl_scheduled := Some sched'\<rparr>))"

section \<open>Points and commands\<close>

lemma bit_point_scope_aux:
  "bit (foldl (\<lambda>mask point. if point = 0 \<or> point > 64 then mask
      else mask OR push_bit (unat (point - 1)) 1) (m :: u64) ps) k \<longleftrightarrow>
    bit m k \<or> (\<exists>p\<in>set ps. point_ok p \<and> k + 1 = unat (p :: u8))"
proof (induction ps arbitrary: m)
  case (Cons p ps)
  have step: "bit (if p = 0 \<or> p > 64 then m else m OR push_bit (unat (p - 1)) 1) k \<longleftrightarrow>
      bit m k \<or> point_ok p \<and> k + 1 = unat p"
  proof (cases "p = 0 \<or> p > 64")
    case True
    then show ?thesis by (auto simp: point_ok_def)
  next
    case False
    then have p: "1 \<le> p" "p \<le> 64" by (auto simp: word_le_nat_alt word_less_nat_alt Suc_le_eq unat_gt_0)
    then have "unat (p - 1) = unat p - 1" "1 \<le> unat p" "unat p \<le> 64"
      by (simp_all add: unat_sub word_le_nat_alt)
    with p False show ?thesis by (auto simp: point_ok_def bit_simps)
  qed
  show ?case unfolding foldl_Cons Cons.IH step by auto
qed simp

lemma bit_point_scope:
  "bit (point_scope ps) k \<longleftrightarrow> (\<exists>p\<in>set ps. point_ok p \<and> k + 1 = unat p)"
  by (simp add: point_scope_def bit_point_scope_aux)

lemma command_scope:
  assumes "command_for_logic l a v = Some c"
  shows "cmd_q_mask c AND NOT (cmd_q_scope c) = 0" and "cmd_q_scope c = point_scope (lg_q_points l)"
    and "cmd_logic_id c = lg_id l"
proof -
  have "(x AND y) AND NOT y = 0" for x y :: u64
    by (simp add: and.assoc)
  with assms show "cmd_q_mask c AND NOT (cmd_q_scope c) = 0"
    "cmd_q_scope c = point_scope (lg_q_points l)" "cmd_logic_id c = lg_id l"
    by (auto simp: command_for_logic_def Let_def split: if_splits option.splits)
qed

lemma enqueue_matching_bounded:
  "length q \<le> 63 \<Longrightarrow> length (enqueue_matching busy i a v ls q) \<le> 63"
  by (induction ls arbitrary: q i)
    (auto simp: mpsc_try_enqueue_def split: option.split)

lemma feedback_loop_first:
  "feedback_loop ls a di dq =
    map_option (cs_feedback \<circ> snd)
      (find (\<lambda>(l, c). feedback_matches l di dq c)
        (concat (map (\<lambda>l. map (Pair l) (lg_controls l)) (filter (\<lambda>l. lg_feedback_addr l = a) ls))))"
proof (induction ls)
  case (Cons l ls)
  have find_append: "find P (xs @ ys) = (case find P xs of None \<Rightarrow> find P ys | Some x \<Rightarrow> Some x)"
    for P :: "io_logic \<times> control_spec \<Rightarrow> bool" and xs ys
    by (induction xs) auto
  have find_pair: "find (\<lambda>(l, c). feedback_matches l di dq c) (map (Pair l) cs) =
      map_option (Pair l) (find (feedback_matches l di dq) cs)" for cs
    by (induction cs) auto
  show ?case by (auto simp: Cons find_append find_pair split: option.split)
qed simp

section \<open>The schedule\<close>

lemma schedule_command_cases:
  "schedule_command now c sched =
    (let others = filter (\<lambda>i. sch_logic_id i \<noteq> cmd_logic_id c) sched;
         due = saturating_add now (ucast (cmd_delay_ms c));
         on = \<lparr>sch_logic_id = cmd_logic_id c, sch_due_ms = due, sch_mask = cmd_q_scope c,
           sch_value = cmd_q_mask c, sch_transient = (cmd_pulse_ms c > 0)\<rparr>;
         off = \<lparr>sch_logic_id = cmd_logic_id c, sch_due_ms = saturating_add due (ucast (cmd_pulse_ms c)),
           sch_mask = cmd_q_scope c, sch_value = 0, sch_transient = False\<rparr>;
         new = (if cmd_pulse_ms c > 0 then [on, off] else [on])
     in if length others + length new \<le> 64 then others @ new else sched)"
proof -
  have "length (filter (\<lambda>i. sch_logic_id i = cmd_logic_id c) sched) +
      length (filter (\<lambda>i. sch_logic_id i \<noteq> cmd_logic_id c) sched) = length sched"
    by (rule sum_length_filter_compl)
  then have "length sched - length (filter (\<lambda>i. sch_logic_id i = cmd_logic_id c) sched) =
      length (filter (\<lambda>i. sch_logic_id i \<noteq> cmd_logic_id c) sched)" by simp
  then show ?thesis
    by (auto simp: schedule_command_def schedule_fits_def Let_def)
qed

lemma schedule_command_bounded:
  "length sched \<le> 64 \<Longrightarrow> length (schedule_command now c sched) \<le> 64"
  by (simp add: schedule_command_cases Let_def split del: if_split) simp

lemma schedule_command_others:
  "filter (\<lambda>i. sch_logic_id i \<noteq> cmd_logic_id c) (schedule_command now c sched) =
    filter (\<lambda>i. sch_logic_id i \<noteq> cmd_logic_id c) sched"
  by (simp add: schedule_command_cases Let_def)

lemma drain_commands_fields:
  "ctl_table (drain_commands busy now n cs) = ctl_table cs"
  "ctl_analog (drain_commands busy now n cs) = ctl_analog cs"
  "ctl_transient (drain_commands busy now n cs) = ctl_transient cs"
  "ctl_config_gen (drain_commands busy now n cs) = ctl_config_gen cs"
  "ctl_table_gen (drain_commands busy now n cs) = ctl_table_gen cs"
  by (induction n arbitrary: cs) (auto simp: mpsc_dequeue_def split: prod.split option.split list.split)

lemma drain_commands_queue:
  "\<exists>k\<le>n. ctl_commands (drain_commands busy now n cs) = drop k (ctl_commands cs)"
proof (induction n arbitrary: cs)
  case (Suc n)
  show ?case
  proof (cases "busy n \<or> ctl_commands cs = []")
    case True
    then show ?thesis by (auto simp: mpsc_dequeue_def intro: exI [of _ 0] split: list.split)
  next
    case False
    then obtain c q where q: "ctl_commands cs = c # q" by (cases "ctl_commands cs") auto
    then show ?thesis
      using False Suc.IH [of "cs\<lparr>ctl_commands := q,
        ctl_scheduled := map_option (schedule_command now c) (ctl_scheduled cs)\<rparr>"]
      by (auto simp: mpsc_dequeue_def intro: exI [of _ "Suc _"])
  qed
qed auto

lemma drain_commands_scheduled:
  assumes "\<And>sched. ctl_scheduled cs = Some sched \<Longrightarrow> length sched \<le> 64"
  shows "\<And>sched. ctl_scheduled (drain_commands busy now n cs) = Some sched \<Longrightarrow> length sched \<le> 64"
  using assms
proof (induction n arbitrary: cs)
  case (Suc n)
  show ?case
  proof (cases "mpsc_dequeue (busy n) (ctl_commands cs)")
    case (Pair r q)
    show ?thesis
    proof (cases r)
      case None
      then show ?thesis using Suc.prems Pair by simp
    next
      case (Some c)
      show ?thesis
        using Suc.prems(1) Pair Some
        by simp (erule Suc.IH; auto intro: schedule_command_bounded dest: Suc.prems(2))
    qed
  qed
qed simp

section \<open>Running due actions\<close>

lemma swap_remove_mset:
  assumes "i < length xs"
  shows "mset xs = add_mset (xs ! i) (mset (swap_remove i xs))"
proof -
  have ne: "xs \<noteq> []" using assms by auto
  have xs: "xs = butlast xs @ [last xs]" using ne by simp
  show ?thesis
  proof (cases "i = length xs - 1")
    case True
    then have "xs ! i = last xs" by (simp add: last_conv_nth ne)
    then show ?thesis using True by (subst xs) (simp add: swap_remove_def)
  next
    case False
    then have i: "i < length (butlast xs)" using assms by simp
    have "mset ((butlast xs)[i := last xs]) = add_mset (last xs) (mset (butlast xs) - {#butlast xs ! i#})"
      using i by (simp add: mset_update)
    moreover have "butlast xs ! i = xs ! i" using i by (simp add: nth_butlast)
    moreover have "xs ! i \<in># mset (butlast xs)" using i by (metis nth_butlast nth_mem set_mset_mset)
    ultimately show ?thesis
      using False by (subst xs) (simp add: swap_remove_def)
  qed
qed

lemma nth_swap_remove: "k < i \<Longrightarrow> i < length xs \<Longrightarrow> swap_remove i xs ! k = xs ! k"
  by (auto simp: swap_remove_def nth_butlast)

definition apply_action :: "io_bundle \<times> control_state \<Rightarrow> scheduled \<Rightarrow> io_bundle \<times> control_state" where
  "apply_action s a = apply_output (sch_mask a) (sch_value a) (sch_transient a) s"

definition is_due :: "u64 \<Rightarrow> scheduled \<Rightarrow> bool" where
  "is_due now a \<longleftrightarrow> sch_due_ms a \<le> now"

lemma run_due_actions:
  assumes "\<forall>k<index. k < length sched \<longrightarrow> \<not> is_due now (sched ! k)"
    and "run_due now index sched s = (sched', s')"
  shows "mset sched' = filter_mset (\<lambda>a. \<not> is_due now a) (mset sched) \<and>
    (\<exists>acts. mset acts = filter_mset (is_due now) (mset sched) \<and> s' = foldl apply_action s acts)"
  using assms
proof (induction now index sched s rule: run_due.induct)
  case (1 now index sched s)
  show ?case
  proof (cases "index < length sched")
    case False
    then have none: "\<forall>a\<in>#mset sched. \<not> is_due now a"
      using "1.prems"(1) by (auto simp: in_set_conv_nth)
    have "filter_mset (\<lambda>a. \<not> is_due now a) (mset sched) = mset sched"
      by (rule filter_mset_eq_conv [THEN iffD2]) (use none in auto)
    moreover have "filter_mset (is_due now) (mset sched) = {#}"
      using none by (auto simp: filter_mset_eq_conv)
    ultimately show ?thesis
      using False "1.prems"(2) by (auto simp: run_due.simps intro: exI [of _ "[]"])
  next
    case in_list: True
    show ?thesis
    proof (cases "is_due now (sched ! index)")
      case True
      let ?rest = "swap_remove index sched" and ?a = "sched ! index"
      have step: "run_due now index ?rest (apply_action s ?a) = (sched', s')"
        using "1.prems"(2) in_list True
        by (subst (asm) run_due.simps) (simp add: is_due_def apply_action_def Let_def)
      have "\<forall>k<index. k < length ?rest \<longrightarrow> \<not> is_due now (?rest ! k)"
        using "1.prems"(1) in_list by (auto simp: nth_swap_remove)
      note IH = "1.IH"(1) [OF in_list True [unfolded is_due_def] refl this, folded apply_action_def, OF step]
      then obtain acts where rest: "mset sched' = filter_mset (\<lambda>a. \<not> is_due now a) (mset ?rest)"
        and acts: "mset acts = filter_mset (is_due now) (mset ?rest)"
        and s': "s' = foldl apply_action (apply_action s ?a) acts"
        by blast
      have eq: "mset sched = add_mset ?a (mset ?rest)" by (rule swap_remove_mset [OF in_list])
      show ?thesis
        unfolding eq using rest acts s' True by (auto intro!: exI [of _ "?a # acts"])
    next
      case False
      have step: "run_due now (index + 1) sched s = (sched', s')"
        using "1.prems"(2) in_list False by (subst (asm) run_due.simps) (simp add: is_due_def)
      have "\<forall>k<index + 1. k < length sched \<longrightarrow> \<not> is_due now (sched ! k)"
        using "1.prems"(1) False by (auto simp: less_Suc_eq)
      then show ?thesis using "1.IH"(2) [OF in_list _ _ step] False by (simp add: is_due_def)
    qed
  qed
qed

section \<open>Outputs touched by a pass\<close>

definition touched :: "scheduled list \<Rightarrow> u64" where
  "touched acts = foldr (\<lambda>a m. sch_mask a OR m) acts 0"

lemma bit_touched: "bit (touched acts) k \<longleftrightarrow> (\<exists>a\<in>set acts. bit (sch_mask a) k)"
  by (induction acts) (auto simp: touched_def bit_simps)

lemma apply_action_io:
  assumes "io_wf (fst s)"
  shows "io_wf (fst (apply_action s a))"
    and "load_bits (io_do (fst (apply_action s a))) =
      (load_bits (io_do (fst s)) AND NOT (sch_mask a)) OR (sch_value a AND sch_mask a)"
  using assms by (simp_all add: apply_action_def apply_output_def do_bits_after_replace)

lemma apply_actions_frame:
  assumes "io_wf (fst s)" and "\<not> bit (touched acts) k"
  shows "bit (load_bits (io_do (fst (foldl apply_action s acts)))) k = bit (load_bits (io_do (fst s))) k"
  using assms
proof (induction acts arbitrary: s)
  case (Cons a acts)
  have "io_wf (fst (apply_action s a))" "\<not> bit (touched acts) k" "\<not> bit (sch_mask a) k"
    using Cons.prems apply_action_io by (auto simp: bit_touched)
  with Cons.IH show ?case
    using apply_action_io(2) [OF Cons.prems(1), of a]
    by (auto simp: bit_simps dest: bit_imp_le_length)
qed simp

lemma apply_actions_wf: "io_wf (fst s) \<Longrightarrow> io_wf (fst (foldl apply_action s acts))"
  by (induction acts arbitrary: s) (auto simp: apply_action_io)

lemma apply_action_ctl:
  "ctl_table (snd (foldl apply_action s acts)) = ctl_table (snd s)"
  "ctl_commands (snd (foldl apply_action s acts)) = ctl_commands (snd s)"
  "ctl_analog (snd (foldl apply_action s acts)) = ctl_analog (snd s)"
  "ctl_config_gen (snd (foldl apply_action s acts)) = ctl_config_gen (snd s)"
  "ctl_table_gen (snd (foldl apply_action s acts)) = ctl_table_gen (snd s)"
  by (induction acts arbitrary: s) (auto simp: apply_action_def apply_output_def)

lemma apply_action_transient_wf:
  "bits_wf (ctl_transient (snd s)) \<Longrightarrow> bits_wf (ctl_transient (snd (foldl apply_action s acts)))"
  by (induction acts arbitrary: s) (auto simp: apply_action_def apply_output_def)

section \<open>The invariant of the executor\<close>

definition analog_address :: "logic_table \<Rightarrow> u16 \<Rightarrow> bool" where
  "analog_address t a \<longleftrightarrow>
     (\<exists>ch\<in>set (lt_analog t). \<exists>k<channel_words ch. a = ac_destination ch + of_nat k)"

definition control_wf :: "control_state \<Rightarrow> bool" where
  "control_wf cs \<longleftrightarrow> table_wf (ctl_table cs) \<and> length (ctl_commands cs) \<le> 63 \<and>
     (\<forall>sched. ctl_scheduled cs = Some sched \<longrightarrow> length sched \<le> MAX_SCHEDULED) \<and>
     bits_wf (ctl_transient cs) \<and> area_wf (ctl_analog cs) \<and>
     (\<forall>a. read_result_reg (ctl_analog cs) a \<noteq> None \<longleftrightarrow> analog_address (ctl_table cs) a)"

lemma channel_range_ok:
  assumes "channel_wf ch"
  shows "range_ok (ac_destination ch, channel_words ch)"
proof -
  have v: "analog_destination_is_valid ch" using assms by (simp add: channel_wf_def)
  have "channel_words ch - 1 < channel_words ch" using channel_words_cases [of ch] by auto
  from valid_destination [OF v this] obtain i where
    "result_index (ac_destination ch) = Some i"
    "result_index (ac_destination ch + of_nat (channel_words ch - 1)) = Some (i + (channel_words ch - 1))" .
  then show ?thesis
    using result_index_less [of "ac_destination ch + of_nat (channel_words ch - 1)"] channel_words_cases [of ch]
    by (auto simp: range_ok_def)
qed

lemma channel_range_indices:
  assumes "channel_wf ch" and "result_index a = Some i"
  shows "i \<in> set (range_indices (ac_destination ch, channel_words ch)) \<longleftrightarrow>
    (\<exists>k<channel_words ch. a = ac_destination ch + of_nat k)"
proof -
  have v: "analog_destination_is_valid ch" using assms(1) by (simp add: channel_wf_def)
  have "0 < channel_words ch" using channel_words_cases [of ch] by auto
  from valid_destination [OF v this] obtain j where j: "result_index (ac_destination ch) = Some j" .
  have each: "result_index (ac_destination ch + of_nat k) = Some (j + k)" if "k < channel_words ch" for k
    using valid_destination [OF v that] j by (metis option.inject)
  show ?thesis
  proof
    assume "i \<in> set (range_indices (ac_destination ch, channel_words ch))"
    then have "j \<le> i" "i - j < channel_words ch" by (auto simp: range_indices_def j)
    moreover from this have "result_index (ac_destination ch + of_nat (i - j)) = Some i"
      using each [of "i - j"] by simp
    ultimately show "\<exists>k<channel_words ch. a = ac_destination ch + of_nat k"
      using result_index_inject [OF assms(2)] by blast
  next
    assume "\<exists>k<channel_words ch. a = ac_destination ch + of_nat k"
    then obtain k where "k < channel_words ch" "i = j + k" using each assms(2) by auto
    then show "i \<in> set (range_indices (ac_destination ch, channel_words ch))"
      by (simp add: range_indices_def j)
  qed
qed

lemma publish_analog_addresses:
  assumes "table_wf t"
  shows "area_wf (publish_analog_ranges (lt_analog t) area)"
    and "read_result_reg (publish_analog_ranges (lt_analog t) area) a \<noteq> None \<longleftrightarrow> analog_address t a"
proof -
  let ?rs = "map (\<lambda>ch. (ac_destination ch, channel_words ch)) (lt_analog t)"
  have wf: "channel_wf ch" if "ch \<in> set (lt_analog t)" for ch
    using assms that by (simp add: table_wf_def list_all_iff)
  then have ok: "\<forall>r\<in>set ?rs. range_ok r" by (auto intro: channel_range_ok)
  show "area_wf (publish_analog_ranges (lt_analog t) area)"
    unfolding publish_analog_ranges_def by (rule area_wf_publish [OF ok])
  have idx: "\<exists>i. result_index (ac_destination ch + of_nat k) = Some i"
    if "ch \<in> set (lt_analog t)" "k < channel_words ch" for ch k
    using valid_destination [of ch k] wf [OF that(1)] that(2) by (metis channel_wf_def)
  show "read_result_reg (publish_analog_ranges (lt_analog t) area) a \<noteq> None \<longleftrightarrow> analog_address t a"
    unfolding publish_analog_ranges_def read_after_publish [OF ok]
    using channel_range_indices [OF wf, of _ a] idx by (auto simp: analog_address_def)
qed

lemma control_wf_new: "control_wf control_new"
proof -
  have "read_result_reg area_new a = None" for a
  proof (cases "result_index a")
    case (Some i)
    then have "i < 32 * 11" using result_index_less by fastforce
    then show ?thesis using Some valid_test_zero [of i 11] by (simp add: read_result_reg_def area_new_def)
  qed (simp add: read_result_reg_def)
  then show ?thesis
    by (simp add: control_wf_def control_new_def table_wf_def empty_table_def analog_address_def)
qed

lemma refresh_table_wf: "control_wf cs \<Longrightarrow> control_wf (refresh_table holding cs)"
  using publish_analog_addresses [OF parse_table_wf_lemma, of holding "ctl_analog cs"]
  by (auto simp: refresh_table_def control_wf_def Let_def parse_table_wf_lemma)

lemma update_analog_valid:
  "ra_valid (update_analog_results t io area) = ra_valid area \<and>
   (area_wf area \<longrightarrow> area_wf (update_analog_results t io area))"
proof -
  have "ra_valid (foldl (\<lambda>area ch.
             let raw = ai_get_scaled (io_ai io) (unat (ac_source ch));
                 (words, count) = analog_encode ch raw
             in write_result (ac_destination ch, count) (take count words) area) area chs) = ra_valid area \<and>
    (area_wf area \<longrightarrow> area_wf (foldl (\<lambda>area ch.
             let raw = ai_get_scaled (io_ai io) (unat (ac_source ch));
                 (words, count) = analog_encode ch raw
             in write_result (ac_destination ch, count) (take count words) area) area chs))" for chs
  proof (induction chs arbitrary: area)
    case (Cons ch chs)
    obtain ws n where "analog_encode ch (ai_get_scaled (io_ai io) (unat (ac_source ch))) = (ws, n)"
      by (cases "analog_encode ch (ai_get_scaled (io_ai io) (unat (ac_source ch)))")
    moreover have "ra_valid (write_result r vs area) = ra_valid area" for r vs
      by (simp add: write_result_def split: option.split)
    ultimately show ?case using Cons by (simp add: Let_def)
  qed simp
  then show ?thesis by (simp add: update_analog_results_def)
qed

lemma control_wf_update_analog:
  assumes "control_wf cs"
  shows "control_wf (cs\<lparr>ctl_analog := update_analog_results (ctl_table cs) io (ctl_analog cs),
    ctl_last_analog := t\<rparr>)"
proof -
  let ?area = "update_analog_results (ctl_table cs) io (ctl_analog cs)"
  have valid: "ra_valid ?area = ra_valid (ctl_analog cs)" and
    wf: "area_wf (ctl_analog cs) \<longrightarrow> area_wf ?area"
    using update_analog_valid [of "ctl_table cs" io "ctl_analog cs"] by auto
  have "(read_result_reg ?area a \<noteq> None) = (read_result_reg (ctl_analog cs) a \<noteq> None)" for a
    by (simp add: read_result_reg_def valid split: option.split)
  with assms wf show ?thesis by (simp add: control_wf_def)
qed

lemma drain_commands_wf: "control_wf cs \<Longrightarrow> control_wf (drain_commands busy now n cs)"
  using drain_commands_queue [of n busy now cs] drain_commands_scheduled [of cs busy now n]
  by (auto simp: control_wf_def drain_commands_fields)

lemma control_tick_wf:
  assumes "io_wf (fst s)" and "control_wf (snd s)"
  shows "io_wf (fst (control_tick t1 t2 t3 busy holding s)) \<and>
    control_wf (snd (control_tick t1 t2 t3 busy holding s))"
proof -
  define cs1 where "cs1 = refresh_table holding (snd s)"
  define cs2 where "cs2 = (if analog_update_due (ucast t1) (ctl_last_analog cs1)
      then cs1\<lparr>ctl_analog := update_analog_results (ctl_table cs1) (fst s) (ctl_analog cs1),
        ctl_last_analog := ucast t1\<rparr> else cs1)"
  define cs3 where "cs3 = drain_commands busy t2 8 cs2"
  have cs3: "control_wf cs3"
    unfolding cs3_def cs2_def cs1_def
    using refresh_table_wf [OF assms(2)] by (auto intro: drain_commands_wf control_wf_update_analog)
  have tick: "control_tick t1 t2 t3 busy holding s =
      (case ctl_scheduled cs3 of
         None \<Rightarrow> (fst s, cs3)
       | Some sched \<Rightarrow>
           let (sched', io', cs4) = run_due t3 0 sched (fst s, cs3)
           in (io', cs4\<lparr>ctl_scheduled := Some sched'\<rparr>))"
    unfolding control_tick_def Let_def cs3_def cs2_def cs1_def ..
  show ?thesis
  proof (cases "ctl_scheduled cs3")
    case None
    then show ?thesis using cs3 assms(1)
      by (simp add: tick)
  next
    case (Some sched)
    obtain sched' s' where r: "run_due t3 0 sched (fst s, cs3) = (sched', s')"
      by (rule prod.exhaust)
    from run_due_actions [of 0 sched t3 "(fst s, cs3)"] r obtain acts where
      m: "mset sched' = filter_mset (\<lambda>a. \<not> is_due t3 a) (mset sched)" and
      s': "s' = foldl apply_action (fst s, cs3) acts" by auto
    have "length sched' = size (filter_mset (\<lambda>a. \<not> is_due t3 a) (mset sched))"
      using m by (metis size_mset)
    also have "\<dots> \<le> length sched" using size_filter_mset_lesseq [of _ "mset sched"] by simp
    finally have len: "length sched' \<le> 64" using cs3 Some by (simp add: control_wf_def)
    have "control_tick t1 t2 t3 busy holding s = (fst s', (snd s')\<lparr>ctl_scheduled := Some sched'\<rparr>)"
      using r Some by (simp add: tick split: prod.split)
    then show ?thesis
      using cs3 len apply_actions_wf [of "(fst s, cs3)" acts] assms(1)
        apply_action_transient_wf [of "(fst s, cs3)" acts]
      by (simp add: s' control_wf_def apply_action_ctl)
  qed
qed

lemma on_control_word_written_wf:
  "control_wf cs \<Longrightarrow> control_wf (on_control_word_written busy holding a v cs)"
  using refresh_table_wf [of cs holding] enqueue_matching_bounded
  by (auto simp: on_control_word_written_def Let_def control_wf_def)

lemma mark_config_changed_wf: "control_wf cs \<Longrightarrow> control_wf (mark_config_changed cs)"
  by (simp add: mark_config_changed_def control_wf_def)

lemma control_init_wf: "control_wf cs \<Longrightarrow> control_wf (control_init holding cs)"
  unfolding control_init_def by (rule refresh_table_wf) (auto simp: control_wf_def split: option.split)

section \<open>Correctness\<close>

text \<open>A command a rule issues names that rule, covers exactly the rule's own output points, and
  switches on none outside them.\<close>

theorem command_stays_in_scope:
  assumes "command_for_logic l a v = Some c"
  shows "cmd_logic_id c = lg_id l \<and> cmd_q_mask c AND NOT (cmd_q_scope c) = 0 \<and>
    (bit (cmd_q_scope c) k \<longleftrightarrow> (\<exists>p\<in>set (lg_q_points l). point_ok p \<and> k + 1 = unat p))"
  using command_scope [OF assms] by (simp add: bit_point_scope)

theorem command_stays_in_scope_witness:
  "\<exists>c. command_for_logic \<lparr>lg_id = 1, lg_controllable = True, lg_control_addr = 7, lg_feedback_addr = 0,
      lg_q_points = [3, 1], lg_i_points = [], lg_delay_ms = 0, lg_pulse_ms = 0,
      lg_controls = [\<lparr>cs_value = 5, cs_feedback = 0, cs_q_bits = - 1, cs_i_bits = 0\<rparr>]\<rparr> 7 5 = Some c \<and>
    bit (cmd_q_scope c) 2 \<and> \<not> bit (cmd_q_scope c) 1"
proof -
  let ?l = "\<lparr>lg_id = 1, lg_controllable = True, lg_control_addr = 7, lg_feedback_addr = 0,
      lg_q_points = [3, 1], lg_i_points = [], lg_delay_ms = 0, lg_pulse_ms = 0,
      lg_controls = [\<lparr>cs_value = 5, cs_feedback = 0, cs_q_bits = - 1, cs_i_bits = 0\<rparr>]\<rparr>"
  obtain c where c: "command_for_logic ?l 7 5 = Some c" by (simp add: command_for_logic_def Let_def)
  then show ?thesis
    using command_stays_in_scope [OF c, of 2] command_stays_in_scope [OF c, of 1] by (simp add: point_ok_def)
qed

text \<open>Scheduling a command stays within the capacity, leaves the pending actions of other
  rules alone, and either changes nothing or replaces the rule's pending actions by the whole command:
  both edges of a pulse or neither.\<close>

theorem schedule_all_or_nothing:
  assumes "length sched \<le> 64"
  shows "length (schedule_command now c sched) \<le> 64 \<and>
    filter (\<lambda>i. sch_logic_id i \<noteq> cmd_logic_id c) (schedule_command now c sched) =
      filter (\<lambda>i. sch_logic_id i \<noteq> cmd_logic_id c) sched \<and>
    (schedule_command now c sched = sched \<or>
     map (\<lambda>i. (sch_mask i, sch_value i, sch_transient i))
       (filter (\<lambda>i. sch_logic_id i = cmd_logic_id c) (schedule_command now c sched)) =
     (cmd_q_scope c, cmd_q_mask c, cmd_pulse_ms c > 0) #
       (if cmd_pulse_ms c > 0 then [(cmd_q_scope c, 0, False)] else []))"
  using schedule_command_bounded [OF assms] schedule_command_others
  by (auto simp: schedule_command_cases Let_def)

theorem schedule_all_or_nothing_witness:
  "length (schedule_command 0 \<lparr>cmd_logic_id = 2, cmd_q_scope = 1, cmd_q_mask = 1, cmd_delay_ms = 0,
     cmd_pulse_ms = 500\<rparr> []) \<le> 64"
  using schedule_all_or_nothing [of "[]"] by simp

text \<open>One pass runs every action that is due exactly once, in some order, and keeps exactly the
  others pending.\<close>

theorem due_actions_run_once:
  assumes "run_due now 0 sched s = (sched', s')"
  shows "mset sched' = filter_mset (\<lambda>a. \<not> is_due now a) (mset sched) \<and>
    (\<exists>acts. mset acts = filter_mset (is_due now) (mset sched) \<and> s' = foldl apply_action s acts)"
  using run_due_actions [OF _ assms] by simp

theorem due_actions_run_once_witness:
  "mset (fst (run_due 10 0 [\<lparr>sch_logic_id = 1, sch_due_ms = 20, sch_mask = 1, sch_value = 1, sch_transient = False\<rparr>]
      (io_bundle_new, control_new))) =
    {#\<lparr>sch_logic_id = 1, sch_due_ms = 20, sch_mask = 1, sch_value = 1, sch_transient = False\<rparr>#}"
proof -
  obtain sched' s' where r: "run_due 10 0 [\<lparr>sch_logic_id = 1, sch_due_ms = 20, sch_mask = 1, sch_value = 1,
      sch_transient = False\<rparr>] (io_bundle_new, control_new) = (sched', s')" by (rule prod.exhaust)
  then show ?thesis using due_actions_run_once [OF r] by (simp add: is_due_def)
qed

lemma schedule_command_masks:
  "i \<in> set (schedule_command now c sched) \<Longrightarrow> i \<in> set sched \<or> sch_mask i = cmd_q_scope c"
  by (auto simp: schedule_command_cases Let_def split: if_splits)

lemma drain_commands_masks:
  assumes "ctl_scheduled (drain_commands busy now n cs) = Some sched'" and "i \<in> set sched'"
  shows "(\<exists>sched. ctl_scheduled cs = Some sched \<and> i \<in> set sched) \<or>
    (\<exists>c\<in>set (ctl_commands cs). sch_mask i = cmd_q_scope c)"
  using assms(1)
proof (induction n arbitrary: cs)
  case 0
  then show ?case using assms(2) by auto
next
  case (Suc n)
  show ?case
  proof (cases "busy n \<or> ctl_commands cs = []")
    case True
    then show ?thesis using Suc.prems assms(2) by (cases "busy n") (auto simp: mpsc_dequeue_def)
  next
    case False
    then obtain c q where q: "ctl_commands cs = c # q" by (cases "ctl_commands cs") auto
    let ?cs = "cs\<lparr>ctl_commands := q, ctl_scheduled := map_option (schedule_command now c) (ctl_scheduled cs)\<rparr>"
    have "ctl_scheduled (drain_commands busy now n ?cs) = Some sched'"
      using Suc.prems False q by (simp add: mpsc_dequeue_def)
    from Suc.IH [OF this] show ?thesis
      using q schedule_command_masks [of i now c] by auto
  qed
qed

text \<open>A tick never touches an output that no pending action and no queued command covers.\<close>

theorem tick_output_frame:
  assumes "io_wf io"
    and "\<not> (\<exists>sched. ctl_scheduled cs = Some sched \<and> bit (touched sched) k)"
    and "\<not> (\<exists>c\<in>set (ctl_commands cs). bit (cmd_q_scope c) k)"
  shows "bit (load_bits (io_do (fst (control_tick t1 t2 t3 busy holding (io, cs))))) k =
    bit (load_bits (io_do io)) k"
proof -
  define cs1 where "cs1 = refresh_table holding cs"
  define cs2 where "cs2 = (if analog_update_due (ucast t1) (ctl_last_analog cs1)
      then cs1\<lparr>ctl_analog := update_analog_results (ctl_table cs1) io (ctl_analog cs1),
        ctl_last_analog := ucast t1\<rparr> else cs1)"
  define cs3 where "cs3 = drain_commands busy t2 8 cs2"
  have same: "ctl_scheduled cs2 = ctl_scheduled cs" "ctl_commands cs2 = ctl_commands cs"
    by (simp_all add: cs2_def cs1_def refresh_table_def Let_def)
  show ?thesis
  proof (cases "ctl_scheduled cs3")
    case None
    then show ?thesis
      by (simp add: control_tick_def Let_def flip: cs1_def cs2_def cs3_def)
  next
    case (Some sched)
    obtain sched' io' cs4 where run: "run_due t3 0 sched (io, cs3) = (sched', io', cs4)"
      by (rule prod_cases3)
    from run_due_actions [OF _ run] obtain acts
      where acts: "mset acts = filter_mset (is_due t3) (mset sched)"
        and io': "(io', cs4) = foldl apply_action (io, cs3) acts" by blast
    have "set acts \<subseteq> set sched" using arg_cong [OF acts, of set_mset] by auto
    moreover have "\<not> bit (sch_mask i) k" if "i \<in> set sched" for i
      using drain_commands_masks [of busy t2 8 cs2 sched i] Some that assms(2,3)
      by (auto simp: cs3_def same bit_touched)
    ultimately have "\<not> bit (touched acts) k" by (auto simp: bit_touched)
    then have "bit (load_bits (io_do io')) k = bit (load_bits (io_do io)) k"
      using apply_actions_frame [of "(io, cs3)" acts k] assms(1) by (simp flip: io')
    then show ?thesis
      using Some run by (simp add: control_tick_def Let_def flip: cs1_def cs2_def cs3_def)
  qed
qed

theorem tick_output_frame_witness:
  "bit (load_bits (io_do (fst (control_tick 0 0 0 (\<lambda>_. False) [] (io_bundle_new,
      control_new\<lparr>ctl_scheduled := Some [\<lparr>sch_logic_id = 1, sch_due_ms = 0, sch_mask = 1, sch_value = 1,
        sch_transient = False\<rparr>]\<rparr>))))) 3 = bit (load_bits (io_do io_bundle_new)) 3"
  by (rule tick_output_frame) (simp_all add: io_wf_new touched_def control_new_def)

text \<open>A tick preserves the executor's invariant, whatever the holding words say and whichever
  queue operations are contended: the table stays parsed and bounded, the queues stay within capacity, and
  exactly the configured analog addresses are readable.\<close>

theorem tick_keeps_invariant:
  assumes "io_wf (fst s)" and "control_wf (snd s)"
  shows "io_wf (fst (control_tick t1 t2 t3 busy holding s)) \<and>
    control_wf (snd (control_tick t1 t2 t3 busy holding s))"
  by (rule control_tick_wf [OF assms])

theorem tick_keeps_invariant_witness:
  "control_wf (snd (control_tick 0 0 0 (\<lambda>_. False) [1, 2, 3] (io_bundle_new, control_new)))"
  using tick_keeps_invariant [of "(io_bundle_new, control_new)" 0 0 0 "\<lambda>_. False" "[1, 2, 3]"]
  by (simp add: io_wf_new control_wf_new)

text \<open>The feedback word of an address is the one of the first control, in table order, among the
  rules with that feedback address, whose inputs (or, without inputs, outputs) match.\<close>

theorem feedback_first_match:
  "feedback_from_table t a di dq =
    map_option (cs_feedback \<circ> snd)
      (find (\<lambda>(l, c). feedback_matches l di dq c)
        (concat (map (\<lambda>l. map (Pair l) (lg_controls l))
          (filter (\<lambda>l. lg_feedback_addr l = a) (lt_entries t)))))"
  by (simp add: feedback_from_table_def feedback_loop_first)

definition pulse_on_1 :: command where
  "pulse_on_1 = \<lparr>cmd_logic_id = 2, cmd_q_scope = 1, cmd_q_mask = 1, cmd_delay_ms = 0, cmd_pulse_ms = 500\<rparr>"

definition switch_on_2 :: command where
  "switch_on_2 = \<lparr>cmd_logic_id = 1, cmd_q_scope = 2, cmd_q_mask = 2, cmd_delay_ms = 0, cmd_pulse_ms = 0\<rparr>"

lemma pulse_schedule:
  "schedule_command 0 pulse_on_1 (schedule_command 0 switch_on_2 []) =
    [\<lparr>sch_logic_id = 1, sch_due_ms = 0, sch_mask = 2, sch_value = 2, sch_transient = False\<rparr>,
     \<lparr>sch_logic_id = 2, sch_due_ms = 0, sch_mask = 1, sch_value = 1, sch_transient = True\<rparr>,
     \<lparr>sch_logic_id = 2, sch_due_ms = 500, sch_mask = 1, sch_value = 0, sch_transient = False\<rparr>]"
  by (simp add: schedule_command_cases pulse_on_1_def switch_on_2_def saturating_add_def)

lemma run_due_all:
  assumes "list_all (is_due now) (a # as)"
  shows "run_due now 0 (a # as) s = ([], foldl apply_action s (a # rev as))"
  using assms
proof (induction "length as" arbitrary: a as s)
  case 0
  then show ?case by (simp add: run_due.simps swap_remove_def apply_action_def is_due_def)
next
  case (Suc n)
  then have ne: "as \<noteq> []" by auto
  then have r: "swap_remove 0 (a # as) = last as # butlast as" by (cases as) (simp_all add: swap_remove_def)
  have "list_all (is_due now) (last as # butlast as)" using Suc.prems ne by (auto simp: list_all_iff dest: in_set_butlastD)
  moreover have "n = length (butlast as)" using Suc.hyps(2) by simp
  ultimately have "run_due now 0 (last as # butlast as) (apply_action s a) =
      ([], foldl apply_action (apply_action s a) (last as # rev (butlast as)))" using Suc.hyps(1) by blast
  moreover have "run_due now 0 (a # as) s = run_due now 0 (last as # butlast as) (apply_action s a)"
    using Suc.prems by (subst run_due.simps) (simp add: r is_due_def apply_action_def)
  moreover have "last as # rev (butlast as) = rev as" using ne by (metis append_butlast_last_id rev.simps(2) rev_rev_ident rev_swap)
  ultimately show ?case by simp
qed

text \<open>C34: A pass that finds everything due does not run it in the order of its deadlines.  When all pending actions are
  due, as after a stall, the pass runs the first of them and then the others in reverse order, and none is left.  So
  the start and the end of a pulse that stand next to each other behind another action are run end first, and an
  output that the pulse switches on, and no action between the first one and the pulse touches, stays on with nothing
  left to switch it off.\<close>

theorem pulse_end_before_start:
  assumes "list_all (is_due now) (a # as)" and "io_wf (fst s)"
  shows "run_due now 0 (a # as) s = ([], foldl apply_action s (a # rev as)) \<and>
    (\<forall>before start end_action after k. as = before @ start # end_action # after \<and> bit (sch_mask start) k \<and> bit (sch_value start) k \<and>
       \<not> bit (touched before) k \<longrightarrow>
       foldl apply_action s (a # rev as) = foldl apply_action s (a # rev after @ end_action # start # rev before) \<and>
       bit (load_bits (io_do (fst (snd (run_due now 0 (a # as) s))))) k)"
proof -
  have on: "bit (load_bits (io_do (fst (foldl apply_action s (a # rev as))))) k"
    if "as = before @ start # end_action # after" "bit (sch_mask start) k" "bit (sch_value start) k" "\<not> bit (touched before) k"
    for before start end_action after k
  proof -
    let ?t = "foldl apply_action s (a # rev after @ [end_action])"
    have wf: "io_wf (fst (foldl apply_action s acts))" for acts using assms(2)
      by (induction acts rule: rev_induct) (simp_all add: apply_action_io)
    have "foldl apply_action s (a # rev as) = foldl apply_action (apply_action ?t start) (rev before)" using that(1) by simp
    moreover have u: "\<not> bit (touched (rev before)) k" using that(4) by (simp add: bit_touched)
    note apply_actions_frame [OF apply_action_io(1) [OF wf] u, of "a # rev after @ [end_action]" start]
    ultimately have "bit (load_bits (io_do (fst (foldl apply_action s (a # rev as))))) k =
        bit (load_bits (io_do (fst (apply_action ?t start)))) k" by metis
    also have "\<dots>" unfolding apply_action_io(2) [OF wf] using that(2,3) by (simp add: bit_simps)
    finally show ?thesis .
  qed
  show ?thesis unfolding run_due_all [OF assms(1)] snd_conv
    by (intro conjI allI impI refl) (elim conjE, simp, elim conjE, rule on)
qed

theorem pulse_end_before_start_witness:
  "\<exists>s'. run_due 1000 0 (schedule_command 0 pulse_on_1 (schedule_command 0 switch_on_2 []))
      (io_bundle_new, control_new) = ([], s') \<and> bit (load_bits (io_do (fst s'))) 0"
proof -
  let ?a = "\<lparr>sch_logic_id = 1, sch_due_ms = 0, sch_mask = 2, sch_value = 2, sch_transient = False\<rparr>"
    and ?on = "\<lparr>sch_logic_id = 2, sch_due_ms = 0, sch_mask = 1, sch_value = 1, sch_transient = True\<rparr>"
    and ?off = "\<lparr>sch_logic_id = 2, sch_due_ms = 500, sch_mask = 1, sch_value = 0, sch_transient = False\<rparr>"
  have "list_all (is_due 1000) (?a # [?on, ?off])" "io_wf (fst (io_bundle_new, control_new))" by (simp_all add: is_due_def io_wf_new)
  from pulse_end_before_start [OF this] have "run_due 1000 0 [?a, ?on, ?off] (io_bundle_new, control_new) =
      ([], foldl apply_action (io_bundle_new, control_new) (?a # rev [?on, ?off]))"
    "bit (load_bits (io_do (fst (snd (run_due 1000 0 [?a, ?on, ?off] (io_bundle_new, control_new)))))) 0"
    by (blast, elim conjE, elim allE [of _ "[]"] allE [of _ ?on] allE [of _ ?off] allE [of _ 0]) (auto simp: touched_def)
  then show ?thesis unfolding pulse_schedule by simp
qed

end
