(* ===== verification/Diagnostics.thy ===== *)
theory Diagnostics imports Regs begin

text \<open>
  Diagnostic state shown in the register map: the ring log of \<open>src/error/ringlog.rs\<close>, the
  failure counters and degraded modes of \<open>src/error/recovery.rs\<close>, and the RS485 link
  status of \<open>src/modbus/shared.rs\<close>.  Clock readings are arguments.
\<close>

section \<open>Ring log\<close>

abbreviation (input) RING_CAPACITY :: nat where "RING_CAPACITY \<equiv> 100"

record log_entry =
  le_timestamp_s :: u32
  le_level :: u8
  le_module_id :: u8
  le_code :: u16
  le_context :: u32

record ring_log =
  rl_entries :: "log_entry list"
  rl_write_count :: u32

definition ring_new :: ring_log where
  "ring_new = \<lparr>rl_entries = [], rl_write_count = 0\<rparr>"

definition ring_record :: "u32 \<Rightarrow> u8 \<Rightarrow> u8 \<Rightarrow> u16 \<Rightarrow> u32 \<Rightarrow> ring_log \<Rightarrow> ring_log" where
  "ring_record now level module_id code context r =
     (let entry = \<lparr>le_timestamp_s = now, le_level = level, le_module_id = module_id, le_code = code,
            le_context = context\<rparr>;
          es = (if length (rl_entries r) = RING_CAPACITY then tl (rl_entries r) else rl_entries r)
      in \<lparr>rl_entries = (if length es < RING_CAPACITY then es @ [entry] else es),
          rl_write_count = rl_write_count r + 1\<rparr>)"

text \<open>The ring behind its lock, with the counter that readers load without it.\<close>

record ring_state =
  rs_ring :: ring_log
  rs_count :: u32

definition log_at :: "u8 \<Rightarrow> u32 \<Rightarrow> u8 \<Rightarrow> u16 \<Rightarrow> u32 \<Rightarrow> ring_state \<Rightarrow> ring_state" where
  "log_at level now module_id code context s =
     (let r = ring_record now level module_id code context (rs_ring s)
      in \<lparr>rs_ring = r, rs_count = rl_write_count r\<rparr>)"

definition log_error :: "u32 \<Rightarrow> u8 \<Rightarrow> u16 \<Rightarrow> u32 \<Rightarrow> ring_state \<Rightarrow> ring_state" where
  "log_error = log_at 2"

definition log_warn :: "u32 \<Rightarrow> u8 \<Rightarrow> u16 \<Rightarrow> u32 \<Rightarrow> ring_state \<Rightarrow> ring_state" where
  "log_warn = log_at 1"

lemma ring_record_bounded:
  "length (rl_entries r) \<le> 100 \<Longrightarrow> length (rl_entries (ring_record t l m c x r)) \<le> 100"
  by (auto simp: ring_record_def Let_def)

text \<open>The ring holds the last hundred records, oldest first.\<close>

lemma ring_record_entries:
  "length (rl_entries r) \<le> 100 \<Longrightarrow>
    rl_entries (ring_record t l m c x r) =
      drop (length (rl_entries r) + 1 - 100) (rl_entries r @ [\<lparr>le_timestamp_s = t, le_level = l,
        le_module_id = m, le_code = c, le_context = x\<rparr>])"
  by (cases "length (rl_entries r) = 100") (auto simp: ring_record_def Let_def drop_Suc)

section \<open>Failures and degraded modes\<close>

datatype severity = Recoverable | Degradable | Severe | Fatal

datatype degraded_mode = NormalMode | BleOnly | LocalOnly | Minimal

datatype feature = FeatBle | FeatModbusTcp | FeatRtuMaster | FeatRtuSlave | FeatEthernet | FeatLocalIo | FeatNvs

datatype recovery_action = ActContinue | ActRetry nat | ActDegrade degraded_mode

record recovery_state =
  rc_recoverable :: u32
  rc_degradable :: u32
  rc_severe :: u32
  rc_last_recoverable :: u32
  rc_last_degradable :: u32
  rc_last_severe :: u32
  rc_mode :: u32

definition recovery_start :: recovery_state where
  "recovery_start = \<lparr>rc_recoverable = 0, rc_degradable = 0, rc_severe = 0,
     rc_last_recoverable = 0, rc_last_degradable = 0, rc_last_severe = 0, rc_mode = 0\<rparr>"

definition record_failure :: "severity \<Rightarrow> u64 \<Rightarrow> recovery_state \<Rightarrow> recovery_state" where
  "record_failure sev now s =
     (case sev of
        Recoverable \<Rightarrow> s\<lparr>rc_recoverable := rc_recoverable s + 1, rc_last_recoverable := ucast now\<rparr>
      | Degradable \<Rightarrow> s\<lparr>rc_degradable := rc_degradable s + 1, rc_last_degradable := ucast now\<rparr>
      | Severe \<Rightarrow> s\<lparr>rc_severe := rc_severe s + 1, rc_last_severe := ucast now\<rparr>
      | Fatal \<Rightarrow> s)"

definition recovery_mode :: "recovery_state \<Rightarrow> degraded_mode" where
  "recovery_mode s =
     (if rc_mode s = 0 then NormalMode else if rc_mode s = 1 then BleOnly
      else if rc_mode s = 2 then LocalOnly else if rc_mode s = 3 then Minimal else NormalMode)"

fun mode_code :: "degraded_mode \<Rightarrow> u32" where
  "mode_code NormalMode = 0"
| "mode_code BleOnly = 1"
| "mode_code LocalOnly = 2"
| "mode_code Minimal = 3"

definition enter_mode :: "degraded_mode \<Rightarrow> recovery_state \<Rightarrow> recovery_state" where
  "enter_mode m s = s\<lparr>rc_mode := mode_code m\<rparr>"

fun feature_allowed_in :: "degraded_mode \<Rightarrow> feature \<Rightarrow> bool" where
  "feature_allowed_in NormalMode f = True"
| "feature_allowed_in BleOnly f = (f = FeatBle \<or> f = FeatLocalIo)"
| "feature_allowed_in LocalOnly f = (f = FeatBle \<or> f = FeatLocalIo)"
| "feature_allowed_in Minimal f = (f = FeatLocalIo)"

definition is_feature_allowed :: "recovery_state \<Rightarrow> feature \<Rightarrow> bool" where
  "is_feature_allowed s f = feature_allowed_in (recovery_mode s) f"

text \<open>Retry delays are in milliseconds.\<close>

definition decide_action :: "severity \<Rightarrow> u32 \<Rightarrow> recovery_action" where
  "decide_action sev consecutive =
     (case sev of
        Recoverable \<Rightarrow> ActRetry 100
      | Degradable \<Rightarrow>
          if consecutive \<ge> 10 then ActDegrade Minimal
          else if consecutive \<ge> 5 then ActDegrade LocalOnly
          else if consecutive \<ge> 2 then ActDegrade BleOnly
          else ActRetry 1000
      | Severe \<Rightarrow> ActDegrade LocalOnly
      | Fatal \<Rightarrow> ActDegrade Minimal)"

definition apply_recovery_action :: "recovery_action \<Rightarrow> recovery_state \<Rightarrow> recovery_state" where
  "apply_recovery_action a s = (case a of ActDegrade m \<Rightarrow> enter_mode m s | _ \<Rightarrow> s)"

definition recovery_handle :: "severity \<Rightarrow> u64 \<Rightarrow> u32 \<Rightarrow> recovery_state \<Rightarrow> recovery_action \<times> recovery_state" where
  "recovery_handle sev now consecutive s =
     (let action = decide_action sev consecutive
      in (action, apply_recovery_action action (record_failure sev now s)))"

lemma recovery_mode_enter [simp]: "recovery_mode (enter_mode m s) = m"
  by (cases m) (simp_all add: recovery_mode_def enter_mode_def)

text \<open>Modes ordered by how much they switch off.\<close>

instantiation degraded_mode :: linorder
begin

definition less_eq_degraded_mode :: "degraded_mode \<Rightarrow> degraded_mode \<Rightarrow> bool" where
  "less_eq_degraded_mode a b \<longleftrightarrow> mode_code a \<le> mode_code b"

definition less_degraded_mode :: "degraded_mode \<Rightarrow> degraded_mode \<Rightarrow> bool" where
  "less_degraded_mode a b \<longleftrightarrow> mode_code a < mode_code b"

instance
proof
  fix a b c :: degraded_mode
  show "a < b \<longleftrightarrow> a \<le> b \<and> \<not> b \<le> a"
    by (auto simp: less_eq_degraded_mode_def less_degraded_mode_def)
  show "a \<le> a" by (simp add: less_eq_degraded_mode_def)
  show "a \<le> b \<Longrightarrow> b \<le> c \<Longrightarrow> a \<le> c" by (simp add: less_eq_degraded_mode_def)
  show "a \<le> b \<Longrightarrow> b \<le> a \<Longrightarrow> a = b"
    by (cases a; cases b) (simp_all add: less_eq_degraded_mode_def word_le_nat_alt)
  show "a \<le> b \<or> b \<le> a" by (auto simp: less_eq_degraded_mode_def)
qed

end

lemma feature_allowed_antimono:
  "a \<le> b \<Longrightarrow> feature_allowed_in b f \<Longrightarrow> feature_allowed_in a f"
  by (cases a; cases b) (auto simp: less_eq_degraded_mode_def word_le_nat_alt)

section \<open>RS485 link status\<close>

abbreviation (input) RS485_ACTIVITY_WINDOW_MS :: u32 where "RS485_ACTIVITY_WINDOW_MS \<equiv> 1000"
abbreviation (input) RS485_COMM_ERROR :: u32 where "RS485_COMM_ERROR \<equiv> 4"

record rs485_stats =
  st_comerr :: "u32 list"
  st_apperr :: "u32 list"
  st_last_ok_ms :: "u32 list"

definition stats_new :: rs485_stats where
  "stats_new = \<lparr>st_comerr = replicate 3 0, st_apperr = replicate 3 0, st_last_ok_ms = replicate 3 0\<rparr>"

definition port_comerr :: "rs485_stats \<Rightarrow> nat \<Rightarrow> u16" where
  "port_comerr s port = (case get_opt (st_comerr s) port of Some v \<Rightarrow> ucast v | None \<Rightarrow> 0)"

definition port_apperr :: "rs485_stats \<Rightarrow> nat \<Rightarrow> u16" where
  "port_apperr s port = (case get_opt (st_apperr s) port of Some v \<Rightarrow> ucast v | None \<Rightarrow> 0)"

text \<open>A store to an index without a cell is skipped.\<close>

definition store_cell :: "nat \<Rightarrow> 'a \<Rightarrow> 'a list \<Rightarrow> 'a list" where
  "store_cell i v xs = (if i < length xs then xs[i := v] else xs)"

definition inc_port_comerr :: "nat \<Rightarrow> rs485_stats \<Rightarrow> rs485_stats" where
  "inc_port_comerr port s = s\<lparr>st_comerr := store_cell port RS485_COMM_ERROR (st_comerr s)\<rparr>"

definition set_port_apperr :: "nat \<Rightarrow> u8 \<Rightarrow> rs485_stats \<Rightarrow> rs485_stats" where
  "set_port_apperr port code s = s\<lparr>st_apperr := store_cell port (ucast code) (st_apperr s)\<rparr>"

definition inc_port_apperr :: "nat \<Rightarrow> rs485_stats \<Rightarrow> rs485_stats" where
  "inc_port_apperr port = set_port_apperr port 1"

definition clear_errors :: "nat \<Rightarrow> rs485_stats \<Rightarrow> rs485_stats" where
  "clear_errors port s =
     s\<lparr>st_comerr := store_cell port 0 (st_comerr s), st_apperr := store_cell port 0 (st_apperr s)\<rparr>"

definition mark_port_ok :: "u32 \<Rightarrow> nat \<Rightarrow> rs485_stats \<Rightarrow> rs485_stats" where
  "mark_port_ok now port s =
     clear_errors port (s\<lparr>st_last_ok_ms := store_cell port (max now 1) (st_last_ok_ms s)\<rparr>)"

definition port_active :: "u32 \<Rightarrow> nat \<Rightarrow> rs485_stats \<Rightarrow> bool" where
  "port_active now port s =
     (case get_opt (st_last_ok_ms s) port of
        None \<Rightarrow> False
      | Some last_ok \<Rightarrow> last_ok \<noteq> 0 \<and> now - last_ok \<le> RS485_ACTIVITY_WINDOW_MS)"

section \<open>Correctness\<close>

text \<open>After any history the ring log holds exactly the last hundred records, oldest first.\<close>

theorem ring_keeps_last_100:
  "rl_entries (foldl (\<lambda>r e. ring_record (le_timestamp_s e) (le_level e) (le_module_id e) (le_code e)
      (le_context e) r) ring_new es) = drop (length es - 100) es"
proof (induction es rule: rev_induct)
  case (snoc e es)
  then show ?case by (cases e; cases "length es \<ge> 100") (simp_all add: ring_record_entries flip: Suc_diff_le)
qed (simp add: ring_new_def)

text \<open>A stricter degraded mode never allows a feature that a milder one forbids.\<close>

theorem stricter_mode_allows_less:
  assumes "m \<le> m'"
  and "is_feature_allowed (enter_mode m' s) f"
  shows "is_feature_allowed (enter_mode m s) f"
  using feature_allowed_antimono [OF assms(1)] assms(2) by (simp add: is_feature_allowed_def)


theorem stricter_mode_allows_less_witness:
  "is_feature_allowed (enter_mode BleOnly recovery_start) FeatLocalIo"
  by (rule stricter_mode_allows_less [of BleOnly Minimal recovery_start])
    (simp_all add: less_eq_degraded_mode_def is_feature_allowed_def)

end
