(* ===== verification/Bus_State.thy ===== *)
theory Bus_State imports Control_Logic Config_Codec Config_Registers Diagnostics begin

text \<open>
  The shared state behind every protocol: the storage snapshot and configuration that
  \<open>src/bus/storage_state.rs\<close> and \<open>src/bus/config_state.rs\<close> publish through RCU
  cells, the I/O image, the control executor, the poller's result area, the diagnostics, and the
  flags that later persist or announce a change.  One value of \<open>bus_state\<close> is what a writer
  holding the write lock sees.  The cells are created with a snapshot and never emptied, so a read
  of them is a read of the field.
\<close>

section \<open>Storage snapshot\<close>

record proto_store =
  ps_data :: "u16 list"
  ps_version :: u16
  ps_length :: u16
  ps_dirty :: bool
  ps_status :: u8

record storage_snapshot =
  sn_proto :: proto_store
  sn_device_text :: "u16 list"
  sn_holding_buf :: "u16 list"
  sn_monitor_words :: "u16 list"
  sn_control_words :: "u16 list"
  sn_legacy_coils :: "u8 list"

definition storage_new :: storage_snapshot where
  "storage_new =
     \<lparr>sn_proto = \<lparr>ps_data = replicate 1500 0, ps_version = 0, ps_length = 0, ps_dirty = False,
        ps_status = 0\<rparr>,
      sn_device_text = replicate 2000 0, sn_holding_buf = replicate 2048 0,
      sn_monitor_words = replicate 128 0, sn_control_words = replicate 300 0,
      sn_legacy_coils = replicate 1536 0\<rparr>"

definition storage_wf :: "storage_snapshot \<Rightarrow> bool" where
  "storage_wf sn \<longleftrightarrow> length (ps_data (sn_proto sn)) = 1500 \<and> length (sn_device_text sn) = 2000 \<and>
     length (sn_holding_buf sn) = 2048 \<and> length (sn_monitor_words sn) = 128 \<and>
     length (sn_control_words sn) = 300 \<and> length (sn_legacy_coils sn) = 1536"

lemma storage_wf_new: "storage_wf storage_new"
  by (simp add: storage_wf_def storage_new_def)

section \<open>Environment\<close>

text \<open>
  What the state of other tasks and of the hardware contributes: the clock, whether the device
  actor runs and its mailbox has room, whether each kind of flash save succeeds, moments when the
  command queue is locked, and the MAC address burnt into the chip.
\<close>

record bus_env =
  env_now_ms :: u32
  env_actor_started :: bool
  env_mailbox_ok :: bool
  env_config_save_ok :: bool
  env_holding_save_ok :: bool
  env_text_save_ok :: bool
  env_queue_busy :: "nat \<Rightarrow> bool"
  env_hw_mac :: "u8 list"
  env_log_s :: u32                 \<comment> \<open>seconds since the first entry of the ring log\<close>

text \<open>The messages of the storage actor.\<close>

datatype device_cmd =
  CmdCommit | CmdReload | CmdPersistResetRecord u16 u8 | CmdPersistMeshKeys u16 u16
| CmdPersistHolding | CmdPersistConfigAndReset | CmdFlushPending u32

text \<open>What flash holds of the areas that are saved.\<close>

record flash_image =
  fl_config :: system_config
  fl_text :: "u16 list"
  fl_holding :: "u16 list"
  fl_monitor :: "u16 list"
  fl_control :: "u16 list"
  fl_coils :: "u8 list"

record bus_state =
  bus_storage :: storage_snapshot
  bus_config :: system_config
  bus_io :: io_bundle
  bus_control :: control_state
  bus_results :: result_area
  bus_stats :: rs485_stats
  bus_ring :: ring_state
  bus_recovery :: recovery_state
  bus_ble_drops :: u32
  bus_recv_buf :: "u8 list"
  bus_proto_status :: u8
  bus_logic_armed :: bool
  bus_holding_dirty :: bool
  bus_nfc_dirty :: bool
  bus_legacy_dirty :: bool
  bus_text_dirty :: bool
  bus_config_dirty :: bool
  bus_config_gen :: u32
  bus_last_mutation_ms :: u32
  bus_net_reconfig_ms :: u32
  bus_do_notified :: bool
  bus_ble_notified :: bool
  bus_mailbox :: "device_cmd list"
  bus_flash :: flash_image
  bus_env :: bus_env

definition bus_wf :: "bus_state \<Rightarrow> bool" where
  "bus_wf s \<longleftrightarrow> storage_wf (bus_storage s) \<and> config_wf (bus_config s) \<and> io_wf (bus_io s) \<and>
     control_wf (bus_control s) \<and> area_wf (bus_results s) \<and> length (env_hw_mac (bus_env s)) = 6"

section \<open>Publishing and flags\<close>

definition sync_proto_status :: "bus_state \<Rightarrow> storage_snapshot \<Rightarrow> storage_snapshot" where
  "sync_proto_status s sn = sn\<lparr>sn_proto := (sn_proto sn)\<lparr>ps_status := bus_proto_status s\<rparr>\<rparr>"

definition publish_storage :: "storage_snapshot \<Rightarrow> bus_state \<Rightarrow> bus_state" where
  "publish_storage sn s = s\<lparr>bus_storage := sync_proto_status s sn\<rparr>"

definition publish_config :: "system_config \<Rightarrow> bus_state \<Rightarrow> bus_state" where
  "publish_config c s = s\<lparr>bus_config := c\<rparr>"

definition mark_storage_mutated :: "bus_state \<Rightarrow> bus_state" where
  "mark_storage_mutated s = s\<lparr>bus_last_mutation_ms := env_now_ms (bus_env s)\<rparr>"

definition mark_holding_dirty :: "bus_state \<Rightarrow> bus_state" where
  "mark_holding_dirty s = mark_storage_mutated (s\<lparr>bus_holding_dirty := True, bus_nfc_dirty := True\<rparr>)"

definition mark_legacy_io_dirty :: "bus_state \<Rightarrow> bus_state" where
  "mark_legacy_io_dirty s = mark_storage_mutated (s\<lparr>bus_legacy_dirty := True\<rparr>)"

definition storage_mutation_quiet_for :: "u32 \<Rightarrow> bus_state \<Rightarrow> bool" where
  "storage_mutation_quiet_for quiet_ms s \<longleftrightarrow>
     env_now_ms (bus_env s) - bus_last_mutation_ms s \<ge> quiet_ms"

definition request_persist_config :: "bus_state \<Rightarrow> bus_state" where
  "request_persist_config s = s\<lparr>bus_config_gen := bus_config_gen s + 1, bus_config_dirty := True\<rparr>"

definition request_apply_config :: "bus_state \<Rightarrow> bus_state" where
  "request_apply_config s =
     (request_persist_config s)\<lparr>bus_net_reconfig_ms := max (env_now_ms (bus_env s)) 1\<rparr>"

definition notify_do :: "bus_state \<Rightarrow> bus_state" where
  "notify_do s = s\<lparr>bus_do_notified := True\<rparr>"

definition notify_ble_name_changed :: "bus_state \<Rightarrow> bus_state" where
  "notify_ble_name_changed s = s\<lparr>bus_ble_notified := True\<rparr>"

section \<open>Saving\<close>

text \<open>
  \<open>commit_pending\<close> of \<open>src/device/pending_save.rs\<close>: consume the dirty flag, save,
  and set the flag again when the save fails.  \<open>raced\<close> says that a producer marked new work
  while the save ran.
\<close>

definition commit_pending :: "bool \<Rightarrow> bool \<Rightarrow> bool \<Rightarrow> bool \<Rightarrow> bool \<times> bool" where
  "commit_pending dirty force save_ok raced =
     (if \<not> dirty \<and> \<not> force then (True, raced)
      else if \<not> save_ok then (False, True)
      else (True, raced))"

lemma commit_pending_ok_clean:
  "commit_pending dirty force save_ok False = (True, d') \<Longrightarrow> \<not> d'"
  by (auto simp: commit_pending_def split: if_splits)

lemma commit_pending_keeps_race:
  "snd (commit_pending dirty force save_ok True)"
  by (simp add: commit_pending_def)

text \<open>A configuration save also needs a configuration that passes validation.\<close>

definition persist_config_now :: "bus_state \<Rightarrow> bool \<times> bus_state" where
  "persist_config_now s =
     (let ok = env_config_save_ok (bus_env s) \<and> validate_for_persistence (bus_config s) = Inr ();
          (r, d) = commit_pending (bus_config_dirty s) False ok False;
          s1 = s\<lparr>bus_config_dirty := d,
                 bus_flash := (if bus_config_dirty s \<and> ok
                   then (bus_flash s)\<lparr>fl_config := bus_config s\<rparr> else bus_flash s)\<rparr>
      in if \<not> r then (False, s1) else if d then (False, s1) else (True, s1))"

definition save_holding :: "bus_state \<Rightarrow> bool \<times> bus_state" where
  "save_holding s =
     (if \<not> bus_holding_dirty s \<and> \<not> bus_legacy_dirty s then (True, s)
      else if env_holding_save_ok (bus_env s)
        then (True, s\<lparr>bus_holding_dirty := False, bus_legacy_dirty := False,
               bus_flash := (bus_flash s)
                 \<lparr>fl_holding := sn_holding_buf (bus_storage s),
                  fl_monitor := sn_monitor_words (bus_storage s),
                  fl_control := sn_control_words (bus_storage s),
                  fl_coils := sn_legacy_coils (bus_storage s)\<rparr>\<rparr>)
      else (False, s\<lparr>bus_holding_dirty := True\<rparr>))"

definition persist_text :: "bool \<Rightarrow> bus_state \<Rightarrow> bool \<times> bus_state" where
  "persist_text force s =
     (let ok = env_text_save_ok (bus_env s);
          (r, d) = commit_pending (bus_text_dirty s) force ok False
      in (r, s\<lparr>bus_text_dirty := d,
               bus_flash := (if (bus_text_dirty s \<or> force) \<and> ok
                 then (bus_flash s)\<lparr>fl_text := sn_device_text (bus_storage s)\<rparr> else bus_flash s)\<rparr>))"

definition persist_device_text_now :: "bus_state \<Rightarrow> bool \<times> bus_state" where
  "persist_device_text_now = persist_text True"

definition request_save_device_text :: "bus_state \<Rightarrow> bus_state" where
  "request_save_device_text s =
     (let s1 = s\<lparr>bus_text_dirty := True\<rparr>
      in if \<not> env_actor_started (bus_env s1) then snd (persist_device_text_now s1) else s1)"

definition request_device :: "device_cmd \<Rightarrow> bus_state \<Rightarrow> bool \<times> bus_state" where
  "request_device c s =
     (if env_actor_started (bus_env s) \<and> env_mailbox_ok (bus_env s)
      then (True, s\<lparr>bus_mailbox := bus_mailbox s @ [c]\<rparr>) else (False, s))"

definition request_persist_config_and_reset :: "bus_state \<Rightarrow> bool \<times> bus_state" where
  "request_persist_config_and_reset = request_device CmdPersistConfigAndReset"

end
