(* ===== verification/Bus_Reads.thy ===== *)
theory Bus_Reads imports Bus_State Modbus_Server begin

text \<open>
  The read side of \<open>src/bus/backends.rs\<close>: the address maps behind function codes 1 to 4,
  single reads and the batch encoders that answer a whole request from one capture of the moving
  parts.  Reads do not change the state; the table refresh a feedback read may trigger is computed,
  and stored by the next tick.
\<close>

section \<open>Coils and discrete inputs\<close>

definition read_coil_from_snapshot ::
  "u16 \<Rightarrow> storage_snapshot option \<Rightarrow> u64 \<Rightarrow> u64 \<Rightarrow> bool option" where
  "read_coil_from_snapshot addr storage di_bits do_bits =
     (if addr < LEGACY_POINT_WINDOW_COUNT
        then let index = unat addr in
          Some (index < DI_COUNT \<and> di_bits AND push_bit index 1 \<noteq> 0)
      else if in_range COIL_DO_BASE COIL_DO_END addr
        then let index = unat (addr - COIL_DO_BASE) in
          Some (index < DO_COUNT \<and> do_bits AND push_bit index 1 \<noteq> 0)
      else if in_range_incl COIL_INTERNAL_START COIL_LOGIC_RESTART addr then Some False
      else if in_range_incl COIL_DO_END LEGACY_COIL_END addr
        then (case storage of
                None \<Rightarrow> None
              | Some sn \<Rightarrow>
                  map_option (\<lambda>v. v \<noteq> 0) (get_opt (sn_legacy_coils sn) (unat (addr - LEGACY_COIL_BASE))))
      else if in_range LEGACY_POINT_WINDOW_COUNT COIL_DO_BASE addr then Some False
      else None)"

definition read_coil :: "bus_state \<Rightarrow> u16 \<Rightarrow> bool option" where
  "read_coil s addr =
     (let storage = (if in_range_incl COIL_DO_END LEGACY_COIL_END addr \<and>
             \<not> in_range_incl COIL_INTERNAL_START COIL_LOGIC_RESTART addr
           then Some (bus_storage s) else None);
          di_bits = (if unat addr < DI_COUNT then load_bits (io_di (bus_io s)) else 0);
          do_bits = (if in_range COIL_DO_BASE (COIL_DO_BASE + of_nat DO_COUNT) addr
           then load_bits (io_do (bus_io s)) else 0)
      in read_coil_from_snapshot addr storage di_bits do_bits)"

definition read_disc :: "bus_state \<Rightarrow> u16 \<Rightarrow> bool option" where
  "read_disc s addr = read_coil s addr"

definition encode_coil_bits_from_snapshot ::
  "u16 \<Rightarrow> u16 \<Rightarrow> u8 list \<Rightarrow> storage_snapshot option \<Rightarrow> u64 \<Rightarrow> u64 \<Rightarrow> bool \<times> u8 list" where
  "encode_coil_bits_from_snapshot addr cnt out storage di_bits do_bits =
     (if cnt = 0 \<or> length out \<noteq> div_ceil (unat cnt) 8 \<or> unat addr + unat cnt - 1 > 65535
      then (False, out)
      else encode_bits_loop (\<lambda>a. read_coil_from_snapshot a storage di_bits do_bits) addr
             [0..<unat cnt] (replicate (length out) 0))"

definition encode_coil_bits :: "bus_state \<Rightarrow> u16 \<Rightarrow> u16 \<Rightarrow> u8 list \<Rightarrow> bool \<times> u8 list" where
  "encode_coil_bits s addr cnt out =
     (if cnt = 0 \<or> length out \<noteq> div_ceil (unat cnt) 8 \<or> unat addr + unat cnt - 1 > 65535
      then (False, out)
      else let a = unat addr; end_exclusive = a + unat cnt;
               storage = (if a < unat LEGACY_COIL_END + 1 \<and> end_exclusive > unat COIL_DO_END
                 then Some (bus_storage s) else None);
               di_bits = (if a < DI_COUNT then load_bits (io_di (bus_io s)) else 0);
               do_bits = (if a < unat COIL_DO_BASE + DO_COUNT \<and> end_exclusive > unat COIL_DO_BASE
                 then load_bits (io_do (bus_io s)) else 0)
        in encode_coil_bits_from_snapshot addr cnt out storage di_bits do_bits)"

section \<open>The runtime image of a request\<close>

record runtime_snapshot =
  rt_analog :: register_snapshot
  rt_rs485 :: register_snapshot
  rt_feedback :: "feedback_snapshot option"

definition bus_feedback :: "bus_state \<Rightarrow> feedback_snapshot" where
  "bus_feedback s =
     capture_feedback_snapshot (sn_holding_buf (bus_storage s)) (bus_io s) (bus_control s)"

definition runtime_capture :: "bus_state \<Rightarrow> u16 \<Rightarrow> u16 \<Rightarrow> bool \<Rightarrow> runtime_snapshot" where
  "runtime_capture s addr cnt holding =
     (let result_count = (if holding \<and> unat addr + unat cnt \<le> unat HOLD_USER_BASE then 0 else cnt);
          overlaps = overlaps_results addr result_count MONITOR_WORD_COUNT HOLD_USER_BASE HOLD_USER_COUNT
      in \<lparr>rt_analog = (if overlaps then snapshot_results (ctl_analog (bus_control s)) addr result_count
            else snapshot_empty addr),
          rt_rs485 = (if overlaps then snapshot_results (bus_results s) addr result_count
            else snapshot_empty addr),
          rt_feedback = (if holding \<and> addr < CONTROL_WORD_COUNT \<and> unat addr + unat cnt > 0
            then Some (bus_feedback s) else None)\<rparr>)"

definition analog_word :: "bus_state \<Rightarrow> u16 \<Rightarrow> runtime_snapshot option \<Rightarrow> u16 option" where
  "analog_word s addr runtime =
     (case runtime of
        Some r \<Rightarrow> snapshot_get (rt_analog r) addr
      | None \<Rightarrow> read_result_reg (ctl_analog (bus_control s)) addr)"

definition rs485_word :: "bus_state \<Rightarrow> u16 \<Rightarrow> runtime_snapshot option \<Rightarrow> u16 option" where
  "rs485_word s addr runtime =
     (case runtime of
        Some r \<Rightarrow> snapshot_get (rt_rs485 r) addr
      | None \<Rightarrow> read_result_reg (bus_results s) addr)"

definition feedback_reg :: "bus_state \<Rightarrow> u16 \<Rightarrow> runtime_snapshot option \<Rightarrow> u16 option" where
  "feedback_reg s addr runtime =
     (case Option.bind runtime rt_feedback of
        Some fs \<Rightarrow> feedback_read fs addr
      | None \<Rightarrow> feedback_word (sn_holding_buf (bus_storage s)) (bus_io s) (bus_control s) addr)"

section \<open>Input registers\<close>

definition sat16 :: "u32 \<Rightarrow> u16" where
  "sat16 v = ucast (min v 0xFFFF)"

definition ip_word :: "u8 list \<Rightarrow> nat \<Rightarrow> u16" where
  "ip_word bs i = be16 (bs ! i) (bs ! (i + 1))"

definition ringlog_word :: "bus_state \<Rightarrow> u16 \<Rightarrow> u16" where
  "ringlog_word s addr =
     (let entry_idx = unat ((addr - INREG_RINGLOG_BASE) div 4);
          field_idx = (addr - INREG_RINGLOG_BASE) mod 4;
          entries = rl_entries (rs_ring (bus_ring s))
      in if entry_idx < length entries then
           let entry = entries ! entry_idx in
           if field_idx = 0 then ucast (le_timestamp_s entry AND 0xFFFF)
           else if field_idx = 1 then ucast (drop_bit 16 (le_timestamp_s entry) AND 0xFFFF)
           else if field_idx = 2 then le_code entry
           else if field_idx = 3 then ucast (le_context entry AND 0xFFFF)
           else 0
         else 0)"

definition read_switch_status :: "bus_state \<Rightarrow> u16 \<Rightarrow> u16 option" where
  "read_switch_status s word_idx =
     (let idx = unat word_idx in
      if idx \<ge> 16 \<or> word_idx \<ge> INREG_SWITCH_STATUS_END - INREG_SWITCH_STATUS_BASE then None
      else let b0 = case_option 0 id (get_opt (bus_recv_buf s) (idx * 2));
               b1 = case_option 0 id (get_opt (bus_recv_buf s) (idx * 2 + 1))
        in Some (le16 b0 b1))"

text \<open>The match on single addresses and on the later ranges.\<close>

definition input_reg_match :: "bus_state \<Rightarrow> u16 \<Rightarrow> u16 option" where
  "input_reg_match s addr =
     (let c = bus_config s in
      if addr = INREG_PC_META_BASE then Some (of_nat DO_COUNT)
      else if addr = 0x0801 then Some (of_nat DI_COUNT)
      else if addr = 0x0802 then Some INREG_AI_COUNT
      else if addr = 0x0803 then Some 3
      else if addr = 0x0804 then Some 1
      else if addr = 0x0805 then Some 1
      else if addr = INREG_QI_COUNT then Some (push_bit 8 (of_nat DO_COUNT) OR of_nat DI_COUNT)
      else if addr = INREG_ADC485 then Some (push_bit 8 INREG_AI_COUNT OR 2)
      else if addr = INREG_FW_VER then Some (sys_firmware_version (io_sys (bus_io s)))
      else if addr = INREG_FW_DATE then Some (sc_fw_date c)
      else if addr = INREG_HW_VER then Some (sc_hw_version c)
      else if addr = INREG_IP_BASE then Some (ip_word (sc_ip c) 0)
      else if addr = 2248 then Some (ip_word (sc_ip c) 2)
      else if addr = 2251 then Some (ip_word (sc_mask c) 0)
      else if addr = 2252 then Some (ip_word (sc_mask c) 2)
      else if addr = 2255 then Some (ip_word (sc_gateway c) 0)
      else if addr = 2256 then Some (ip_word (sc_gateway c) 2)
      else if addr = INREG_MAC_BASE then Some (ip_word (sc_eth_mac c) 0)
      else if addr = 2264 then Some (ip_word (sc_eth_mac c) 2)
      else if addr = 2265 then Some (ip_word (sc_eth_mac c) 4)
      else if addr = INREG_BLE_ID_BASE then Some (ip_word (sc_ble_name c) 0)
      else if addr = 2275 then Some (ip_word (sc_ble_name c) 2)
      else if addr = 2276 then Some (ip_word (sc_ble_name c) 4)
      else if addr = 2277 then Some (ip_word (sc_ble_name c) 6)
      else if addr = INREG_RECOV_RECOVERABLE then Some (sat16 (rc_recoverable (bus_recovery s)))
      else if addr = INREG_RECOV_DEGRADABLE then Some (sat16 (rc_degradable (bus_recovery s)))
      else if addr = INREG_RECOV_SEVERE then Some (sat16 (rc_severe (bus_recovery s)))
      else if addr = INREG_RECOV_MODE then Some (ucast (mode_code (recovery_mode (bus_recovery s))))
      else if addr = INREG_RECOV_BLE_DROPS then Some (sat16 (bus_ble_drops s))
      else if addr = INREG_RINGLOG_COUNT then Some (of_nat (min (length (rl_entries (rs_ring (bus_ring s)))) 65535))
      else if addr = INREG_RINGLOG_WRITES then Some (ucast (rs_count (bus_ring s) AND 0xFFFF))
      else if in_range INREG_RINGLOG_BASE (INREG_RINGLOG_BASE + 32) addr then Some (ringlog_word s addr)
      else if in_range INREG_SWITCH_STATUS_BASE INREG_SWITCH_STATUS_END addr
        then (case read_switch_status s (addr - INREG_SWITCH_STATUS_BASE) of
                Some v \<Rightarrow> Some v | None \<Rightarrow> Some 0)
      else if in_range_incl MONITOR_PLC_BASE MONITOR_PLC_END addr
        then let idx = unat (addr - MONITOR_PLC_BASE) in
          if idx < 48 then Some (if get_bit (io_di (bus_io s)) idx then 1 else 0)
          else if idx < 48 + unat AI_COUNT then Some (ai_get_scaled (io_ai (bus_io s)) (idx - 48))
          else Some 0
      else if addr < MONITOR_WORD_COUNT
        then (case feedback_word (sn_holding_buf (bus_storage s)) (bus_io s) (bus_control s) addr of
                Some v \<Rightarrow> Some v
              | None \<Rightarrow> get_opt (sn_monitor_words (bus_storage s)) (unat addr))
      else if addr \<le> INREG_LEGACY_END then Some 0
      else None)"

definition read_input_reg_from_runtime :: "bus_state \<Rightarrow> u16 \<Rightarrow> runtime_snapshot option \<Rightarrow> u16 option" where
  "read_input_reg_from_runtime s addr runtime =
     (case analog_word s addr runtime of Some v \<Rightarrow> Some v | None \<Rightarrow>
     (case rs485_word s addr runtime of Some v \<Rightarrow> Some v | None \<Rightarrow>
      if in_range_incl HOLD_USER_BASE HOLD_CFG_END addr then Some 0
      else if in_range INREG_AI_BASE (INREG_AI_BASE + LEGACY_AI_WINDOW_COUNT) addr
        then let idx = unat (addr - INREG_AI_BASE) in
          Some (if idx < unat INREG_AI_COUNT then ai_get_scaled (io_ai (bus_io s)) idx else 0)
      else if in_range INREG_AI_STATUS_BASE (INREG_AI_STATUS_BASE + INREG_AI_COUNT) addr
        then Some (ai_get_status (io_ai (bus_io s)) (unat (addr - INREG_AI_STATUS_BASE)))
      else input_reg_match s addr))"

definition read_input_reg :: "bus_state \<Rightarrow> u16 \<Rightarrow> u16 option" where
  "read_input_reg s addr = read_input_reg_from_runtime s addr None"

section \<open>Holding registers\<close>

definition control_word_value :: "bus_state \<Rightarrow> u16 \<Rightarrow> u16 \<Rightarrow> u16" where
  "control_word_value s addr stored =
     (if addr = 10 then ucast (load_bits (io_do (bus_io s)) AND 0xFF)
      else if addr = 11 then ucast (load_bits (io_di (bus_io s)) AND 0xFF)
      else if addr = 12 then ucast (drop_bit 8 (load_bits (io_do (bus_io s))) AND 0xFF)
      else if addr = 13 then ucast (drop_bit 8 (load_bits (io_di (bus_io s))) AND 0xFF)
      else stored)"

abbreviation (input) PROTO_MAGIC_VALUE :: u16 where "PROTO_MAGIC_VALUE \<equiv> 0x494D"

definition control_plc_word :: "bus_state \<Rightarrow> u16 \<Rightarrow> u16 option" where
  "control_plc_word s addr =
     (let idx = unat (addr - CONTROL_PLC_BASE) in
      if idx < 48 then Some (if get_bit (io_do (bus_io s)) idx then 1 else 0)
      else let user_idx = of_nat (idx - 48) :: u16 in
        if user_idx < HOLD_USER_COUNT
          then get_opt (sn_holding_buf (bus_storage s)) (unat (HOLD_USER_BASE - HOLD_PXX_BASE) + unat user_idx)
          else Some 0)"

definition read_hold_reg_from_snapshots ::
  "bus_state \<Rightarrow> u16 \<Rightarrow> runtime_snapshot option \<Rightarrow> u16 option" where
  "read_hold_reg_from_snapshots s addr runtime =
     (let storage = bus_storage s in
      case (if addr \<ge> HOLD_USER_BASE then analog_word s addr runtime else None) of
        Some v \<Rightarrow> Some v
      | None \<Rightarrow>
      if addr < CONTROL_WORD_COUNT
        then (case get_opt (sn_control_words storage) (unat addr) of
                None \<Rightarrow> None
              | Some stored \<Rightarrow>
                  (case feedback_reg s addr runtime of
                     Some feedback \<Rightarrow> Some feedback
                   | None \<Rightarrow> Some (control_word_value s addr stored)))
      else if addr = HOLD_485_1_COMERR then Some (port_comerr (bus_stats s) 0)
      else if addr = HOLD_485_1_APPERR then Some (port_apperr (bus_stats s) 0)
      else if addr = HOLD_485_2_COMERR then Some (port_comerr (bus_stats s) 1)
      else if addr = HOLD_485_2_APPERR then Some (port_apperr (bus_stats s) 1)
      else if addr = HOLD_485_3_COMERR then Some (port_comerr (bus_stats s) 2)
      else if addr = HOLD_485_3_APPERR then Some (port_apperr (bus_stats s) 2)
      else if in_range_incl DEVICE_TEXT_BASE DEVICE_TEXT_END addr
        then get_opt (sn_device_text storage) (unat (addr - DEVICE_TEXT_BASE))
      else case rs485_word s addr runtime of
        Some v \<Rightarrow> Some v
      | None \<Rightarrow>
      if in_range_incl HOLD_CFG_BASE HOLD_CFG_END addr
        then (case read_reg (bus_config s) addr of
                Some v \<Rightarrow> Some v
              | None \<Rightarrow>
                  let idx = unat (addr - HOLD_PXX_BASE) in
                  if idx < HOLD_PXX_COUNT then get_opt (sn_holding_buf storage) idx else Some 0)
      else if in_range_incl CONTROL_PLC_BASE CONTROL_PLC_END addr then control_plc_word s addr
      else if in_range PROTO_BASE PROTO_END addr
        then get_opt (ps_data (sn_proto storage)) (unat (addr - PROTO_BASE))
      else if addr = PROTO_COMMIT then Some 0
      else if addr = PROTO_RELOAD then Some 0
      else if addr = PROTO_VERSION then Some (ps_version (sn_proto storage))
      else if addr = PROTO_LENGTH then Some (ps_length (sn_proto storage))
      else if addr = PROTO_STATUS then Some (ucast (bus_proto_status s))
      else if addr = PROTO_MAGIC then Some PROTO_MAGIC_VALUE
      else None)"

definition read_hold_reg :: "bus_state \<Rightarrow> u16 \<Rightarrow> u16 option" where
  "read_hold_reg s addr = read_hold_reg_from_snapshots s addr None"

section \<open>Batch encoders\<close>

fun encode_regs_loop :: "(u16 \<Rightarrow> u16 option) \<Rightarrow> u16 \<Rightarrow> nat list \<Rightarrow> u8 list \<Rightarrow> bool \<times> u8 list" where
  "encode_regs_loop rd addr [] out = (True, out)"
| "encode_regs_loop rd addr (offset # offsets) out =
     (case rd (addr + of_nat offset) of
        None \<Rightarrow> (False, out)
      | Some v \<Rightarrow> encode_regs_loop rd addr offsets (copy_at out (offset * 2) (be_bytes v)))"

definition encode_hold_regs_be :: "bus_state \<Rightarrow> u16 \<Rightarrow> u16 \<Rightarrow> u8 list \<Rightarrow> bool \<times> u8 list" where
  "encode_hold_regs_be s addr cnt out =
     (if cnt = 0 \<or> unat cnt > MAX_REGS_PER_READ \<or> length out \<noteq> unat cnt * 2 then (False, out)
      else if unat addr + unat cnt - 1 > 65535 then (False, out)
      else let runtime = runtime_capture s addr cnt True in
        encode_regs_loop (\<lambda>a. read_hold_reg_from_snapshots s a (Some runtime)) addr [0..<unat cnt] out)"

definition encode_input_regs_be :: "bus_state \<Rightarrow> u16 \<Rightarrow> u16 \<Rightarrow> u8 list \<Rightarrow> bool \<times> u8 list" where
  "encode_input_regs_be s addr cnt out =
     (if cnt = 0 \<or> unat cnt > MAX_REGS_PER_READ \<or> length out \<noteq> unat cnt * 2 then (False, out)
      else if unat addr + unat cnt - 1 > 65535 then (False, out)
      else let runtime = runtime_capture s addr cnt False in
        encode_regs_loop (\<lambda>a. read_input_reg_from_runtime s a (Some runtime)) addr [0..<unat cnt] out)"

section \<open>Batches agree with single reads\<close>

lemma encode_bits_loop_cong:
  "(\<And>k. k \<in> set offs \<Longrightarrow> rd (addr + of_nat k) = rd' (addr + of_nat k)) \<Longrightarrow>
    encode_bits_loop rd addr offs out = encode_bits_loop rd' addr offs out"
  by (induction offs arbitrary: out) (auto split: option.split)

lemma encode_regs_loop_cong:
  "(\<And>k. k \<in> set offs \<Longrightarrow> rd (addr + of_nat k) = rd' (addr + of_nat k)) \<Longrightarrow>
    encode_regs_loop rd addr offs out = encode_regs_loop rd' addr offs out"
  by (induction offs arbitrary: out) (auto split: option.split)

lemma read_coil_from_snapshot_nat:
  "read_coil_from_snapshot a storage di dq =
    (if unat a < 48 then Some (unat a < 16 \<and> bit di (unat a))
     else if 512 \<le> unat a \<and> unat a < 528 then Some (bit dq (unat a - 512))
     else if 1024 \<le> unat a \<and> unat a \<le> 1027 then Some False
     else if 528 \<le> unat a \<and> unat a \<le> 2047
       then (case storage of None \<Rightarrow> None
             | Some sn \<Rightarrow> map_option (\<lambda>v. v \<noteq> 0) (get_opt (sn_legacy_coils sn) (unat a - 512)))
     else if 48 \<le> unat a \<and> unat a < 512 then Some False else None)"
proof -
  have and_bit: "(w AND 2 ^ n \<noteq> 0) = bit w n" if "n < 64" for w :: u64 and n
    using and_one_bit [of n w] that by (simp add: push_bit_eq_mult)
  have sub: "512 \<le> unat a \<Longrightarrow> unat (a - 512) = unat a - 512"
    by (simp add: unat_sub word_le_nat_alt)
  show ?thesis
    by (simp add: read_coil_from_snapshot_def range_defs word_less_nat_alt word_le_nat_alt sub and_bit Let_def)
      (auto simp: sub split: option.split)
qed

lemma read_coil_nat:
  "read_coil s a =
    read_coil_from_snapshot a (Some (bus_storage s)) (load_bits (io_di (bus_io s))) (load_bits (io_do (bus_io s)))"
  by (simp add: read_coil_def Let_def read_coil_from_snapshot_nat range_defs word_less_nat_alt
      word_le_nat_alt)

lemma read_coil_batch:
  assumes "unat addr + unat cnt \<le> 65536" and "k < unat cnt"
  shows "read_coil_from_snapshot (addr + of_nat k)
      (if unat addr < unat LEGACY_COIL_END + 1 \<and> unat addr + unat cnt > unat COIL_DO_END
       then Some (bus_storage s) else None)
      (if unat addr < DI_COUNT then load_bits (io_di (bus_io s)) else 0)
      (if unat addr < unat COIL_DO_BASE + DO_COUNT \<and> unat addr + unat cnt > unat COIL_DO_BASE
       then load_bits (io_do (bus_io s)) else 0)
    = read_coil s (addr + of_nat k)"
proof -
  have x: "unat (addr + of_nat k) = unat addr + k" using assms by (intro unat_add_of_nat) simp
  show ?thesis
    using assms by (simp add: read_coil_nat read_coil_from_snapshot_nat x)
qed

text \<open>The batch encoder of coils is the trait's per-address default over \<open>read_coil\<close>.\<close>

lemma encode_coil_bits_default:
  assumes "unat addr + unat cnt \<le> 65536"
  shows "encode_coil_bits s addr cnt out =
    encode_bits_default (read_coil s) (read_disc s) addr cnt d out"
proof (cases "cnt = 0 \<or> length out \<noteq> div_ceil (unat cnt) 8")
  case True
  then show ?thesis by (auto simp: encode_coil_bits_def encode_bits_default_def)
next
  case False
  moreover have "\<not> unat addr + unat cnt - 1 > 65535" using assms by simp
  moreover have "read_disc s = read_coil s" by (rule ext) (simp add: read_disc_def)
  ultimately show ?thesis
    using assms
    by (simp add: encode_coil_bits_def encode_coil_bits_from_snapshot_def encode_bits_default_def Let_def
        split del: if_split)
      (rule encode_bits_loop_cong, simp only: set_upt atLeastLessThan_iff, rule read_coil_batch [simplified], auto)
qed

lemma length_encode_regs_loop:
  "\<forall>k\<in>set offs. 2 * k + 2 \<le> length out \<Longrightarrow>
    length (snd (encode_regs_loop rd addr offs out)) = length out"
  by (induction offs arbitrary: out) (auto split: option.split)

lemma encode_regs_loop_None:
  "those (map (\<lambda>k. rd (addr + of_nat k)) offs) = None \<Longrightarrow> \<not> fst (encode_regs_loop rd addr offs out)"
  by (induction offs arbitrary: out) (auto split: option.splits)

lemma encode_regs_loop_Some:
  assumes "those (map (\<lambda>k. rd (addr + of_nat k)) [m..<n]) = Some ws" and "length out = 2 * n" and "m \<le> n"
  shows "encode_regs_loop rd addr [m..<n] out = (True, take (2 * m) out @ concat (map be_bytes ws))"
  using assms
proof (induction "n - m" arbitrary: m ws out)
  case 0
  then show ?case by simp
next
  case (Suc d)
  then have mn: "m < n" by simp
  have upt: "[m..<n] = m # [Suc m..<n]" using mn by (rule upt_conv_Cons)
  obtain w ws' where w: "rd (addr + of_nat m) = Some w" "ws = w # ws'"
      "those (map (\<lambda>k. rd (addr + of_nat k)) [Suc m..<n]) = Some ws'"
    using Suc.prems(1) by (auto simp: upt split: option.splits)
  have "encode_regs_loop rd addr [Suc m..<n] (copy_at out (m * 2) (be_bytes w)) =
      (True, take (2 * Suc m) (copy_at out (m * 2) (be_bytes w)) @ concat (map be_bytes ws'))"
    using Suc.hyps(2) Suc.prems(2) w(3) mn by (intro Suc.hyps(1)) auto
  moreover have "take (2 * Suc m) (copy_at out (m * 2) (be_bytes w)) = take (2 * m) out @ be_bytes w"
    using Suc.prems(2) mn by (simp add: copy_at_def mult.commute)
  ultimately show ?case by (simp add: upt w)
qed

lemma analog_word_batch:
  assumes "unat addr + unat cnt \<le> 65536" "unat cnt \<le> 125" "k < unat cnt"
    and "holding \<longrightarrow> 4000 \<le> unat addr + k"
  shows "analog_word s (addr + of_nat k) (Some (runtime_capture s addr cnt holding)) =
    analog_word s (addr + of_nat k) None"
proof (cases "overlaps_results addr cnt 128 4000 224")
  case True
  moreover have "\<not> (holding \<and> unat addr + unat cnt \<le> 4000)" using assms by auto
  ultimately show ?thesis
    using assms results.snapshot_inside [of addr cnt k]
    by (auto simp: analog_word_def runtime_capture_def Let_def)
next
  case False
  have "\<not> (holding \<and> unat addr + unat cnt \<le> 4000)" using assms by auto
  moreover have "read_result_reg area (addr + of_nat k) = None" for area
    using results.snapshot_inside [of addr cnt k area] assms False by (simp add: snapshot_results_def)
  ultimately show ?thesis
    using False by (auto simp: analog_word_def runtime_capture_def Let_def)
qed

lemma rs485_word_batch:
  assumes "unat addr + unat cnt \<le> 65536" "unat cnt \<le> 125" "k < unat cnt"
    and "holding \<longrightarrow> 300 \<le> unat addr + k"
  shows "rs485_word s (addr + of_nat k) (Some (runtime_capture s addr cnt holding)) =
    rs485_word s (addr + of_nat k) None"
proof -
  have x: "unat (addr + of_nat k) = unat addr + k" using assms by (intro unat_add_of_nat) simp
  show ?thesis
  proof (cases "holding \<and> unat addr + unat cnt \<le> 4000")
    case True
    then have "read_result_reg area (addr + of_nat k) = None" for area
      using results.read_windows [of area "addr + of_nat k"] assms
      by (cases "read_result_reg area (addr + of_nat k)") (auto simp: x)
    with True show ?thesis by (simp add: rs485_word_def runtime_capture_def Let_def overlaps_results_def)
  next
    case live: False
    show ?thesis
    proof (cases "overlaps_results addr cnt 128 4000 224")
      case True
      then show ?thesis
        using live assms results.snapshot_inside [of addr cnt k]
        by (auto simp: rs485_word_def runtime_capture_def Let_def)
    next
      case False
      then have "read_result_reg area (addr + of_nat k) = None" for area
        using results.snapshot_inside [of addr cnt k area] assms by (simp add: snapshot_results_def)
      with False live show ?thesis by (auto simp: rs485_word_def runtime_capture_def Let_def)
    qed
  qed
qed

lemma feedback_reg_batch:
  "feedback_reg s a (Some (runtime_capture s addr cnt holding)) = feedback_reg s a None"
  by (simp add: feedback_reg_def runtime_capture_def Let_def feedback_word_def bus_feedback_def)

lemma read_input_batch:
  assumes "unat addr + unat cnt \<le> 65536" "unat cnt \<le> 125" "k < unat cnt"
  shows "read_input_reg_from_runtime s (addr + of_nat k) (Some (runtime_capture s addr cnt False)) =
    read_input_reg s (addr + of_nat k)"
proof -
  have a: "analog_word s (addr + of_nat k) (Some (runtime_capture s addr cnt False)) =
      analog_word s (addr + of_nat k) None"
    using assms by (intro analog_word_batch) auto
  have r: "rs485_word s (addr + of_nat k) (Some (runtime_capture s addr cnt False)) =
      rs485_word s (addr + of_nat k) None"
    using assms by (intro rs485_word_batch) auto
  show ?thesis unfolding read_input_reg_def read_input_reg_from_runtime_def a r ..
qed

lemma read_hold_batch:
  assumes "unat addr + unat cnt \<le> 65536" "unat cnt \<le> 125" "k < unat cnt"
  shows "read_hold_reg_from_snapshots s (addr + of_nat k) (Some (runtime_capture s addr cnt True)) =
    read_hold_reg s (addr + of_nat k)"
proof -
  have x: "unat (addr + of_nat k) = unat addr + k" using assms by (intro unat_add_of_nat) simp
  let ?r = "Some (runtime_capture s addr cnt True)"
  have a: "(if addr + of_nat k \<ge> 4000 then analog_word s (addr + of_nat k) ?r else None) =
      (if addr + of_nat k \<ge> 4000 then analog_word s (addr + of_nat k) None else None)"
    using analog_word_batch [OF assms, of True s] by (simp add: word_le_nat_alt x)
  have r: "addr + of_nat k < 300 \<or> rs485_word s (addr + of_nat k) ?r = rs485_word s (addr + of_nat k) None"
    using rs485_word_batch [OF assms, of True s] by (simp add: word_less_nat_alt x not_less) linarith
  show ?thesis
    unfolding read_hold_reg_def read_hold_reg_from_snapshots_def a feedback_reg_batch
    using r by (cases "addr + of_nat k < 300") (simp_all only: if_True if_False Let_def simp_thms)
qed

lemma encode_hold_regs_ok:
  assumes "cnt \<noteq> 0" "unat cnt \<le> 125" "unat addr + unat cnt \<le> 65536" "length out = 2 * unat cnt"
  shows "encode_hold_regs_be s addr cnt out =
    encode_regs_loop (read_hold_reg s) addr [0..<unat cnt] out"
proof -
  have "\<not> 65535 < unat addr + unat cnt - 1" using assms by simp
  then show ?thesis
    using assms
    by (simp add: encode_hold_regs_be_def MAX_REGS_PER_READ_def Let_def)
      (rule encode_regs_loop_cong, simp add: read_hold_batch)
qed

lemma encode_input_regs_ok:
  assumes "cnt \<noteq> 0" "unat cnt \<le> 125" "unat addr + unat cnt \<le> 65536" "length out = 2 * unat cnt"
  shows "encode_input_regs_be s addr cnt out =
    encode_regs_loop (read_input_reg s) addr [0..<unat cnt] out"
proof -
  have "\<not> 65535 < unat addr + unat cnt - 1" using assms by simp
  then show ?thesis
    using assms
    by (simp add: encode_input_regs_be_def MAX_REGS_PER_READ_def Let_def)
      (rule encode_regs_loop_cong, simp add: read_input_batch)
qed

end
