(* ===== verification/Bus_Writes.thy ===== *)
theory Bus_Writes imports Bus_Reads begin

text \<open>
  The write side of \<open>src/bus/backends.rs\<close>: function codes 5, 6, 15 and 16.  A write runs
  under the writer lock, so it is a function on the shared state that returns whether the write was
  accepted.  The refused branches are part of the model, with whatever they have already changed.
\<close>

section \<open>Addresses with special treatment\<close>

abbreviation (input) LOGIC_WRITE_MAGIC :: u16 where "LOGIC_WRITE_MAGIC \<equiv> 0x55AA"

definition is_logic_config_addr :: "u16 \<Rightarrow> bool" where
  "is_logic_config_addr addr \<longleftrightarrow> in_range_incl HOLD_DEVICE_CONFIG HOLD_CFG_END addr"

definition is_multicast_config_addr :: "u16 \<Rightarrow> bool" where
  "is_multicast_config_addr addr \<longleftrightarrow> in_range_incl INREG_MULTICAST_IP1_2 INREG_SWITCH_IP3_4 addr"

definition is_ble_name_hold_addr :: "u16 \<Rightarrow> bool" where
  "is_ble_name_hold_addr addr \<longleftrightarrow>
     in_range HOLD_BLE_ADDR_BASE (HOLD_BLE_ADDR_BASE + HOLD_BLE_ADDR_COUNT) addr"

definition is_writable_hold_reg :: "u16 \<Rightarrow> bool" where
  "is_writable_hold_reg addr \<longleftrightarrow>
     in_range 0 CONTROL_WORD_COUNT addr \<or> in_range_incl DEVICE_TEXT_BASE DEVICE_TEXT_END addr \<or>
     in_range_incl HOLD_CFG_BASE HOLD_CFG_END addr \<or>
     in_range_incl CONTROL_PLC_BASE CONTROL_PLC_END addr \<or> in_range PROTO_BASE PROTO_END addr \<or>
     addr = PROTO_COMMIT \<or> addr = PROTO_RELOAD \<or> addr = PROTO_VERSION \<or> addr = PROTO_LENGTH"

abbreviation (input) PROTECT_INDEX :: nat where "PROTECT_INDEX \<equiv> 2046"

section \<open>Snapshot edits\<close>

definition put_holding :: "nat \<Rightarrow> u16 \<Rightarrow> storage_snapshot \<Rightarrow> storage_snapshot" where
  "put_holding idx v sn = sn\<lparr>sn_holding_buf := (sn_holding_buf sn)[idx := v]\<rparr>"

definition mirror_ble_name :: "system_config \<Rightarrow> storage_snapshot \<Rightarrow> storage_snapshot" where
  "mirror_ble_name c sn =
     (let start = unat (HOLD_BLE_ADDR_BASE - HOLD_PXX_BASE) in
      foldl (\<lambda>sn i. put_holding (start + i) (be16 (sc_ble_name c ! (2 * i)) (sc_ble_name c ! (2 * i + 1))) sn)
        sn [0..<length (sc_ble_name c) div 2])"

definition sync_ble_name_holding :: "bus_state \<Rightarrow> bus_state" where
  "sync_ble_name_holding s =
     mark_holding_dirty (publish_storage (mirror_ble_name (bus_config s) (bus_storage s)) s)"

definition arm_logic_write :: "bus_state \<Rightarrow> bus_state" where
  "arm_logic_write s = s\<lparr>bus_logic_armed := True\<rparr>"

definition disarm_logic_write :: "bus_state \<Rightarrow> bus_state" where
  "disarm_logic_write s = s\<lparr>bus_logic_armed := False\<rparr>"

definition mark_logic_changed :: "bus_state \<Rightarrow> bus_state" where
  "mark_logic_changed s = s\<lparr>bus_control := mark_config_changed (bus_control s)\<rparr>"

definition storage_modify_holding_raw :: "(u16 list \<Rightarrow> u16 list) \<Rightarrow> bus_state \<Rightarrow> bus_state" where
  "storage_modify_holding_raw f s =
     publish_storage ((bus_storage s)\<lparr>sn_holding_buf := f (sn_holding_buf (bus_storage s))\<rparr>) s"

definition storage_modify_holding :: "(u16 list \<Rightarrow> u16 list) \<Rightarrow> bus_state \<Rightarrow> bus_state" where
  "storage_modify_holding f s = mark_holding_dirty (storage_modify_holding_raw f s)"

definition storage_modify :: "(storage_snapshot \<Rightarrow> storage_snapshot) \<Rightarrow> bus_state \<Rightarrow> bus_state" where
  "storage_modify f s = publish_storage (f (bus_storage s)) s"

definition storage_set_snapshot :: "storage_snapshot \<Rightarrow> bus_state \<Rightarrow> bus_state" where
  "storage_set_snapshot sn s = s\<lparr>bus_proto_status := ps_status (sn_proto sn), bus_storage := sn\<rparr>"

definition storage_restore_legacy_state :: "u16 list \<Rightarrow> u16 list \<Rightarrow> u8 list \<Rightarrow> bus_state \<Rightarrow> bus_state" where
  "storage_restore_legacy_state monitor control coils s =
     (let sn = bus_storage s;
          sn = (if length monitor = unat MONITOR_WORD_COUNT then sn\<lparr>sn_monitor_words := monitor\<rparr> else sn);
          sn = (if length control = unat CONTROL_WORD_COUNT then sn\<lparr>sn_control_words := control\<rparr> else sn);
          sn = (if length coils = LEGACY_COIL_COUNT then sn\<lparr>sn_legacy_coils := coils\<rparr> else sn)
      in publish_storage sn s)"

definition config_modify :: "(system_config \<Rightarrow> 'r \<times> system_config) \<Rightarrow> bus_state \<Rightarrow> 'r \<times> bus_state" where
  "config_modify f s = (let (r, c) = f (bus_config s) in (r, publish_config c s))"

section \<open>One holding register\<close>

definition write_protect_word :: "u16 \<Rightarrow> bus_state \<Rightarrow> bus_state" where
  "write_protect_word v s =
     (publish_storage (put_holding PROTECT_INDEX v (bus_storage s)) s)
       \<lparr>bus_logic_armed := (v = LOGIC_WRITE_MAGIC)\<rparr>"

definition write_control_word :: "u16 \<Rightarrow> u16 \<Rightarrow> bus_state \<Rightarrow> bus_state" where
  "write_control_word addr v s =
     mark_legacy_io_dirty (publish_storage
       ((bus_storage s)\<lparr>sn_control_words := (sn_control_words (bus_storage s))[unat addr := v]\<rparr>) s)"

text \<open>A text write also consumes a pending arm, so that the magic never survives it.\<close>

definition write_text :: "nat \<Rightarrow> u16 list \<Rightarrow> bus_state \<Rightarrow> bus_state" where
  "write_text start vs s =
     (let sn = (bus_storage s)\<lparr>sn_device_text := copy_at (sn_device_text (bus_storage s)) start vs\<rparr>;
          sn = (if bus_logic_armed s then put_holding PROTECT_INDEX 0 sn else sn)
      in publish_storage sn (s\<lparr>bus_logic_armed := False\<rparr>))"

definition write_pxx_word :: "u16 \<Rightarrow> u16 \<Rightarrow> bus_state \<Rightarrow> bool \<times> bus_state" where
  "write_pxx_word addr v s =
     (let idx = unat (addr - HOLD_PXX_BASE) in
      if idx < HOLD_PXX_COUNT then
        let armed = (is_logic_config_addr addr \<and> bus_logic_armed s);
            s1 = storage_modify_holding_raw
              (\<lambda>buf. let buf = buf[idx := v] in if armed then buf[PROTECT_INDEX := 0] else buf) s;
            s2 = (if armed then mark_holding_dirty (s1\<lparr>bus_logic_armed := False\<rparr>) else s1);
            s3 = (if is_multicast_config_addr addr then mark_holding_dirty s2 else s2);
            s4 = (if addr \<ge> HOLD_DEVICE_CONFIG then mark_logic_changed s3 else s3)
        in (True, s4)
      else (False, s))"

definition write_config_word :: "u16 \<Rightarrow> u16 \<Rightarrow> bus_state \<Rightarrow> bool \<times> bus_state" where
  "write_config_word addr v s =
     (let (result, c) = write_reg addr v (bus_config s) in
      if \<not> valid_tcp_ports (sc_tcp_ports c) then (False, s)
      else case result of
        WOk \<Rightarrow> (True, publish_config c s)
      | WPersist \<Rightarrow>
          let s1 = (if is_ble_name_hold_addr addr
              then mark_holding_dirty (publish_storage (mirror_ble_name c (bus_storage s)) s) else s)
          in (True, request_persist_config (publish_config c s1))
      | WApply \<Rightarrow>
          (True, request_apply_config (publish_config (c\<lparr>sc_cfg_version := sc_cfg_version c + 1\<rparr>) s))
      | WReset \<Rightarrow>
          (True, request_apply_config (publish_config (defaults_with_hardware_sn (env_hw_mac (bus_env s))) s))
      | WNotFound \<Rightarrow> write_pxx_word addr v s
      | WInvalidValue \<Rightarrow> (False, s))"

definition write_control_plc :: "u16 \<Rightarrow> u16 \<Rightarrow> bus_state \<Rightarrow> bool \<times> bus_state" where
  "write_control_plc addr v s =
     (let idx = unat (addr - CONTROL_PLC_BASE) in
      if idx < 48 then (True, notify_do (s\<lparr>bus_io := do_set_bit idx (v \<noteq> 0) (bus_io s)\<rparr>))
      else let user_idx = of_nat (idx - 48) :: u16 in
        if user_idx < HOLD_USER_COUNT then
          (True, storage_modify_holding
             (\<lambda>buf. buf[unat (HOLD_USER_BASE - HOLD_PXX_BASE) + unat user_idx := v]) s)
        else (False, s))"

definition write_proto :: "(proto_store \<Rightarrow> proto_store) \<Rightarrow> bus_state \<Rightarrow> bus_state" where
  "write_proto f s =
     publish_storage ((bus_storage s)\<lparr>sn_proto := (f (sn_proto (bus_storage s)))\<lparr>ps_dirty := True\<rparr>\<rparr>) s"

definition proto_request :: "device_cmd \<Rightarrow> u8 \<Rightarrow> bus_state \<Rightarrow> bool \<times> bus_state" where
  "proto_request cmd status s =
     (let (ok, s1) = request_device cmd (s\<lparr>bus_proto_status := status\<rparr>)
      in if \<not> ok then (False, s1\<lparr>bus_proto_status := 3\<rparr>) else (True, s1))"

definition write_hold_reg_locked :: "u16 \<Rightarrow> u16 \<Rightarrow> bus_state \<Rightarrow> bool \<times> bus_state" where
  "write_hold_reg_locked addr v s =
     (if addr = HOLD_PROTECT_WORD then (True, write_protect_word v s)
      else if addr < CONTROL_WORD_COUNT then (True, write_control_word addr v s)
      else if in_range_incl DEVICE_TEXT_BASE DEVICE_TEXT_END addr
        then (True, request_save_device_text (write_text (unat (addr - DEVICE_TEXT_BASE)) [v] s))
      else if in_range_incl HOLD_CFG_BASE HOLD_CFG_END addr then write_config_word addr v s
      else if in_range_incl CONTROL_PLC_BASE CONTROL_PLC_END addr then write_control_plc addr v s
      else if in_range PROTO_BASE PROTO_END addr
        then (True, write_proto (\<lambda>p. p\<lparr>ps_data := (ps_data p)[unat (addr - PROTO_BASE) := v]\<rparr>) s)
      else if addr = PROTO_COMMIT then (if v = 0xC5C5 then proto_request CmdCommit 1 s else (True, s))
      else if addr = PROTO_RELOAD then (if v = 0xA5A5 then proto_request CmdReload 2 s else (True, s))
      else if addr = PROTO_VERSION then (True, write_proto (\<lambda>p. p\<lparr>ps_version := v\<rparr>) s)
      else if addr = PROTO_LENGTH then (True, write_proto (\<lambda>p. p\<lparr>ps_length := v\<rparr>) s)
      else (False, s))"

definition bus_control_written :: "u16 \<Rightarrow> u16 \<Rightarrow> bus_state \<Rightarrow> bus_state" where
  "bus_control_written addr v s =
     s\<lparr>bus_control := on_control_word_written (env_queue_busy (bus_env s))
         (sn_holding_buf (bus_storage s)) addr v (bus_control s)\<rparr>"

definition write_hold_reg :: "u16 \<Rightarrow> u16 \<Rightarrow> bus_state \<Rightarrow> bool \<times> bus_state" where
  "write_hold_reg addr v s =
     (let (written, s1) = write_hold_reg_locked addr v s;
          s2 = (if written \<and> in_range_incl DEVICE_TEXT_BASE DEVICE_TEXT_END addr
            then request_save_device_text s1 else s1);
          s3 = (if written \<and> is_ble_name_hold_addr addr then notify_ble_name_changed s2 else s2);
          s4 = (if written \<and> addr < CONTROL_WORD_COUNT then bus_control_written addr v s3 else s3)
      in (written, s4))"

section \<open>Several holding registers\<close>

text \<open>The working copy of a batch into the configuration block, with the flags it collects.\<close>

record batch =
  bt_cfg :: system_config
  bt_storage :: storage_snapshot
  bt_config_changed :: bool
  bt_needs_version_bump :: bool
  bt_holding_changed :: bool
  bt_logic_changed :: bool
  bt_multicast_changed :: bool
  bt_protect_touched :: bool
  bt_logic_commit :: bool
  bt_config_persist :: bool
  bt_runtime_apply :: bool
  bt_ble_name_changed :: bool

definition batch_start :: "bus_state \<Rightarrow> batch" where
  "batch_start s =
     \<lparr>bt_cfg = bus_config s, bt_storage = bus_storage s, bt_config_changed = False,
      bt_needs_version_bump = False, bt_holding_changed = False, bt_logic_changed = False,
      bt_multicast_changed = False, bt_protect_touched = False, bt_logic_commit = bus_logic_armed s,
      bt_config_persist = False, bt_runtime_apply = False, bt_ble_name_changed = False\<rparr>"

text \<open>One word of the batch; \<open>None\<close> rejects the whole batch.\<close>

definition batch_word :: "u8 list \<Rightarrow> u16 \<Rightarrow> u16 \<Rightarrow> batch \<Rightarrow> batch option" where
  "batch_word hw target v b =
     (if target = HOLD_PROTECT_WORD then
        Some (b\<lparr>bt_storage := put_holding (unat (target - HOLD_PXX_BASE)) v (bt_storage b),
                bt_logic_commit := (v = LOGIC_WRITE_MAGIC), bt_holding_changed := True,
                bt_protect_touched := True\<rparr>)
      else
        let (result, c) = (if target \<ge> HOLD_DEVICE_CONFIG then (WNotFound, bt_cfg b)
              else write_reg target v (bt_cfg b));
            b1 = b\<lparr>bt_cfg := c\<rparr>;
            ble = (\<lambda>b. if is_ble_name_hold_addr target then b\<lparr>bt_ble_name_changed := True\<rparr> else b)
        in case result of
          WInvalidValue \<Rightarrow> None
        | WOk \<Rightarrow> Some (ble (b1\<lparr>bt_config_changed := True\<rparr>))
        | WPersist \<Rightarrow> Some (ble (b1\<lparr>bt_config_changed := True, bt_config_persist := True\<rparr>))
        | WApply \<Rightarrow> Some (ble (b1\<lparr>bt_config_changed := True, bt_config_persist := True,
            bt_runtime_apply := True, bt_needs_version_bump := True\<rparr>))
        | WReset \<Rightarrow> Some (ble (b1\<lparr>bt_cfg := defaults_with_hardware_sn hw, bt_config_changed := True,
            bt_config_persist := True, bt_runtime_apply := True\<rparr>))
        | WNotFound \<Rightarrow> Some (b1\<lparr>bt_storage := put_holding (unat (target - HOLD_PXX_BASE)) v (bt_storage b),
            bt_holding_changed := True,
            bt_multicast_changed := bt_multicast_changed b \<or> is_multicast_config_addr target,
            bt_logic_changed := bt_logic_changed b \<or> is_logic_config_addr target\<rparr>))"

fun batch_words :: "u8 list \<Rightarrow> u16 \<Rightarrow> u16 list \<Rightarrow> batch \<Rightarrow> batch option" where
  "batch_words hw addr [] b = Some b"
| "batch_words hw addr (v # vs) b =
     (case batch_word hw addr v b of
        None \<Rightarrow> None
      | Some b1 \<Rightarrow> batch_words hw (addr + 1) vs b1)"

definition batch_publish :: "batch \<Rightarrow> bus_state \<Rightarrow> bus_state" where
  "batch_publish b s =
     (let holding_changed = (bt_holding_changed b \<or> bt_ble_name_changed b);
          sn = (if bt_ble_name_changed b then mirror_ble_name (bt_cfg b) (bt_storage b) else bt_storage b);
          cfg = (if bt_needs_version_bump b
            then (bt_cfg b)\<lparr>sc_cfg_version := sc_cfg_version (bt_cfg b) + 1\<rparr> else bt_cfg b);
          s1 = (if bt_config_changed b then publish_config cfg s else s);
          commit = (bt_logic_commit b \<and> bt_logic_changed b);
          s2 = (if \<not> holding_changed then s1
            else let sn1 = (if commit then put_holding PROTECT_INDEX 0 sn else sn);
                     t = publish_storage sn1 s1;
                     t1 = (if commit then mark_holding_dirty (t\<lparr>bus_logic_armed := False\<rparr>)
                       else if bt_protect_touched b then t\<lparr>bus_logic_armed := bt_logic_commit b\<rparr>
                       else t);
                     t2 = (if bt_logic_changed b then mark_logic_changed t1 else t1)
                 in if bt_multicast_changed b then mark_holding_dirty t2 else t2);
          s3 = (if bt_runtime_apply b then request_apply_config s2
            else if bt_config_persist b then request_persist_config s2 else s2)
      in if bt_ble_name_changed b then notify_ble_name_changed (mark_holding_dirty s3) else s3)"

text \<open>Word by word, stopping at the first refusal.\<close>

fun write_hold_words :: "u16 \<Rightarrow> u16 list \<Rightarrow> bus_state \<Rightarrow> bool \<times> bus_state" where
  "write_hold_words addr [] s = (True, s)"
| "write_hold_words addr (v # vs) s =
     (case write_hold_reg_locked addr v s of
        (False, s1) \<Rightarrow> (False, s1)
      | (True, s1) \<Rightarrow> write_hold_words (addr + 1) vs s1)"

fun control_words_written :: "u16 \<Rightarrow> u16 list \<Rightarrow> bus_state \<Rightarrow> bus_state" where
  "control_words_written target [] s = s"
| "control_words_written target (v # vs) s =
     (if target \<ge> CONTROL_WORD_COUNT then s
      else control_words_written (target + 1) vs (bus_control_written target v s))"

definition write_hold_regs :: "u16 \<Rightarrow> u16 list \<Rightarrow> bus_state \<Rightarrow> bool \<times> bus_state" where
  "write_hold_regs addr vs s =
     (let end_exclusive = unat addr + length vs in
      if vs = [] \<or> end_exclusive > 65536 then (False, s)
      else if \<not> list_all (\<lambda>k. is_writable_hold_reg (addr + of_nat k)) [0..<length vs] then (False, s)
      else if addr \<ge> DEVICE_TEXT_BASE \<and> end_exclusive \<le> unat DEVICE_TEXT_END + 1
        then (True, request_save_device_text (write_text (unat (addr - DEVICE_TEXT_BASE)) vs s))
      else if addr \<ge> HOLD_CFG_BASE \<and> end_exclusive \<le> unat HOLD_CFG_END + 1
        then (case batch_words (env_hw_mac (bus_env s)) addr vs (batch_start s) of
                None \<Rightarrow> (False, s)
              | Some b \<Rightarrow>
                  if bt_config_changed b \<and> \<not> valid_tcp_ports (sc_tcp_ports (bt_cfg b)) then (False, s)
                  else (True, batch_publish b s))
      else let (written, s1) = write_hold_words addr vs s in
        if written \<and> addr < CONTROL_WORD_COUNT then (True, control_words_written addr vs s1)
        else (written, s1))"

section \<open>Coils\<close>

definition write_coil :: "u16 \<Rightarrow> bool \<Rightarrow> bus_state \<Rightarrow> bool \<times> bus_state" where
  "write_coil addr v s =
     (if in_range COIL_DO_BASE COIL_DO_END addr
        then (True, notify_do (s\<lparr>bus_io := do_set_bit (unat (addr - COIL_DO_BASE)) v (bus_io s)\<rparr>))
      else if addr = COIL_RESTART \<or> addr = COIL_LOGIC_RESTART then
        if \<not> v then (True, s)
        else case persist_config_now s of
          (False, s1) \<Rightarrow> (False, s1)
        | (True, s1) \<Rightarrow>
            (case save_holding s1 of
               (False, s2) \<Rightarrow> (False, s2)
             | (True, s2) \<Rightarrow>
                 (case persist_device_text_now s2 of
                    (False, s3) \<Rightarrow> (False, s3)
                  | (True, s3) \<Rightarrow>
                      (True, s3\<lparr>bus_io := (bus_io s3)\<lparr>io_sys := request_reset MODBUS (io_sys (bus_io s3))\<rparr>\<rparr>)))
      else if in_range_incl COIL_DO_END LEGACY_COIL_END addr then
        (True, mark_legacy_io_dirty (publish_storage
           ((bus_storage s)\<lparr>sn_legacy_coils :=
              (sn_legacy_coils (bus_storage s))[unat (addr - LEGACY_COIL_BASE) := (if v then 1 else 0)]\<rparr>) s))
      else (addr = COIL_INTERNAL_START \<or> addr = COIL_INTERNAL_STOP, s))"

definition is_control_coil :: "u16 \<Rightarrow> bool" where
  "is_control_coil a \<longleftrightarrow>
     a = COIL_INTERNAL_START \<or> a = COIL_INTERNAL_STOP \<or> a = COIL_RESTART \<or> a = COIL_LOGIC_RESTART"

definition coil_on :: "u8 list \<Rightarrow> nat \<Rightarrow> bool" where
  "coil_on packed k \<longleftrightarrow> packed ! (k div 8) AND push_bit (k mod 8) 1 \<noteq> 0"

fun write_coil_each :: "u16 \<Rightarrow> u8 list \<Rightarrow> nat list \<Rightarrow> bus_state \<Rightarrow> bool \<times> bus_state" where
  "write_coil_each addr packed [] s = (True, s)"
| "write_coil_each addr packed (k # ks) s =
     (case write_coil (addr + of_nat k) (coil_on packed k) s of
        (False, s1) \<Rightarrow> (False, s1)
      | (True, s1) \<Rightarrow> write_coil_each addr packed ks s1)"

text \<open>The masks a coil batch collects for the physical outputs.\<close>

fun coil_masks :: "nat \<Rightarrow> u8 list \<Rightarrow> nat list \<Rightarrow> u64 \<times> u64 \<Rightarrow> u64 \<times> u64" where
  "coil_masks start packed [] mv = mv"
| "coil_masks start packed (k # ks) mv =
     coil_masks start packed ks
       (fst mv OR push_bit (start + k) 1,
        (if coil_on packed k then snd mv OR push_bit (start + k) 1 else snd mv))"

fun put_coils :: "nat \<Rightarrow> u8 list \<Rightarrow> nat list \<Rightarrow> u8 list \<Rightarrow> u8 list" where
  "put_coils start packed [] coils = coils"
| "put_coils start packed (k # ks) coils =
     put_coils start packed ks (coils[start + k := (if coil_on packed k then 1 else 0)])"

definition write_coils :: "u16 \<Rightarrow> u16 \<Rightarrow> u8 list \<Rightarrow> bus_state \<Rightarrow> bool \<times> bus_state" where
  "write_coils addr cnt packed s =
     (let n = unat cnt; a = unat addr; end_exclusive = a + n; offs = [0..<n] in
      if cnt = 0 \<or> length packed \<noteq> div_ceil n 8 \<or> end_exclusive > 65536 then (False, s)
      else if addr \<ge> COIL_DO_BASE \<and> end_exclusive \<le> unat COIL_DO_END then
        let (m, v) = coil_masks (unat (addr - COIL_DO_BASE)) packed offs (0, 0)
        in (True, notify_do (s\<lparr>bus_io := do_mask_replace m v (bus_io s)\<rparr>))
      else let all_controls = list_all (\<lambda>k. is_control_coil (addr + of_nat k)) offs;
               any_control = list_ex (\<lambda>k. is_control_coil (addr + of_nat k)) offs in
      if any_control \<and> \<not> all_controls then (False, s)
      else if all_controls then write_coil_each addr packed offs s
      else if addr \<ge> LEGACY_COIL_BASE \<and> end_exclusive \<le> unat LEGACY_COIL_END + 1 then
        let start = unat (addr - LEGACY_COIL_BASE);
            physical = filter (\<lambda>k. addr + of_nat k < COIL_DO_END) offs;
            (m, v) = coil_masks (unat (addr - COIL_DO_BASE)) packed physical (0, 0);
            s1 = publish_storage ((bus_storage s)\<lparr>sn_legacy_coils :=
              put_coils start packed offs (sn_legacy_coils (bus_storage s))\<rparr>) s;
            s2 = (if m \<noteq> 0 then notify_do (s1\<lparr>bus_io := do_mask_replace m v (bus_io s1)\<rparr>) else s1)
        in (True, mark_legacy_io_dirty s2)
      else (False, s))"

section \<open>The backend of the Modbus servers\<close>

text \<open>\<open>BusBackend\<close> of \<open>src/modbus/shared.rs\<close>, with the ring log the handler writes to.\<close>

definition bus_log_warn :: "u8 \<Rightarrow> u16 \<Rightarrow> u32 \<Rightarrow> bus_state \<Rightarrow> bus_state" where
  "bus_log_warn module_id code context s = s\<lparr>bus_ring := log_warn (env_log_s (bus_env s)) module_id code context (bus_ring s)\<rparr>"

definition bus_backend :: "bus_state modbus_backend" where
  "bus_backend =
     \<lparr>be_encode_bits = (\<lambda>s addr cnt discrete out. encode_coil_bits s addr cnt out),
      be_encode_holding = encode_hold_regs_be,
      be_encode_input = encode_input_regs_be,
      be_write_single_coil = (\<lambda>s addr v. write_coil addr v s),
      be_write_single_register = (\<lambda>s addr v. write_hold_reg addr v s),
      be_write_multiple_coils = (\<lambda>s addr cnt packed. write_coils addr cnt packed s),
      be_write_multiple_registers = (\<lambda>s addr vs.
        if unat addr + length vs > 65536 then (False, s) else write_hold_regs addr vs s),
      be_log_warn = bus_log_warn\<rparr>"

definition bus_view :: "bus_state reg_view" where
  "bus_view = \<lparr>rv_coil = read_coil, rv_disc = read_disc, rv_hold = read_hold_reg, rv_input = read_input_reg\<rparr>"

end
