(* ===== verification/Bus_Backend.thy ===== *)
theory Bus_Backend imports Bus_Writes begin

text \<open>
  Facts about the register backend: every write keeps the shared state well formed, and the
  backend of the Modbus servers satisfies the contract \<open>backend_laws\<close>, so that the PDU
  handlers over it answer as the abstract server does.
\<close>

section \<open>Well-formed states\<close>

named_theorems bus_wf_intros

lemma storage_wf_put_holding [bus_wf_intros]: "storage_wf sn \<Longrightarrow> storage_wf (put_holding i v sn)"
  by (simp add: storage_wf_def put_holding_def)

lemma storage_wf_mirror [bus_wf_intros]: "storage_wf sn \<Longrightarrow> storage_wf (mirror_ble_name c sn)"
  unfolding mirror_ble_name_def Let_def
  by (rule foldl_invariant) (auto intro: storage_wf_put_holding)

lemma bus_wf_publish_storage [bus_wf_intros]:
  "bus_wf s \<Longrightarrow> storage_wf sn \<Longrightarrow> bus_wf (publish_storage sn s)"
  by (simp add: bus_wf_def publish_storage_def sync_proto_status_def storage_wf_def)

lemma bus_wf_publish_config [bus_wf_intros]:
  "bus_wf s \<Longrightarrow> config_wf c \<Longrightarrow> bus_wf (publish_config c s)"
  by (simp add: bus_wf_def publish_config_def)

lemma bus_wf_flags [bus_wf_intros]:
  "bus_wf s \<Longrightarrow> bus_wf (mark_holding_dirty s)" "bus_wf s \<Longrightarrow> bus_wf (mark_legacy_io_dirty s)"
  "bus_wf s \<Longrightarrow> bus_wf (request_persist_config s)" "bus_wf s \<Longrightarrow> bus_wf (request_apply_config s)"
  "bus_wf s \<Longrightarrow> bus_wf (notify_do s)" "bus_wf s \<Longrightarrow> bus_wf (notify_ble_name_changed s)"
  "bus_wf s \<Longrightarrow> bus_wf (s\<lparr>bus_logic_armed := b\<rparr>)" "bus_wf s \<Longrightarrow> bus_wf (s\<lparr>bus_proto_status := p\<rparr>)"
  "bus_wf s \<Longrightarrow> io_wf io \<Longrightarrow> bus_wf (s\<lparr>bus_io := io\<rparr>)"
  "bus_wf s \<Longrightarrow> bus_wf (mark_logic_changed s)" "bus_wf s \<Longrightarrow> bus_wf (s\<lparr>bus_mailbox := m\<rparr>)"
  "bus_wf s \<Longrightarrow> bus_wf (s\<lparr>bus_text_dirty := b\<rparr>)"
  "bus_wf s \<Longrightarrow> bus_wf (bus_control_written a v s)"
  by (simp_all add: bus_wf_def mark_holding_dirty_def mark_storage_mutated_def mark_legacy_io_dirty_def
      request_persist_config_def request_apply_config_def notify_do_def notify_ble_name_changed_def
      mark_logic_changed_def mark_config_changed_wf bus_control_written_def on_control_word_written_wf)

lemma bus_wf_parts:
  assumes "bus_wf s"
  shows "storage_wf (bus_storage s)" "config_wf (bus_config s)" "io_wf (bus_io s)" "control_wf (bus_control s)"
    "length (env_hw_mac (bus_env s)) = 6"
  using assms by (simp_all add: bus_wf_def)

lemma bus_wf_persist [bus_wf_intros]:
  assumes "bus_wf s"
  shows "bus_wf (snd (persist_config_now s))" and "bus_wf (snd (save_holding s))"
    and "bus_wf (snd (persist_text f s))" and "bus_wf (snd (persist_device_text_now s))"
    and "bus_wf (request_save_device_text s)" and "bus_wf (snd (request_device c s))"
proof -
  show "bus_wf (snd (persist_config_now s))" "bus_wf (snd (save_holding s))"
    "bus_wf (snd (request_device c s))"
    using assms by (auto simp: bus_wf_def persist_config_now_def save_holding_def request_device_def
        Let_def split: prod.split)
  have t: "bus_wf (snd (persist_text f s))" if "bus_wf s" for f s
    using that by (auto simp: bus_wf_def persist_text_def Let_def split: prod.split)
  then show "bus_wf (snd (persist_text f s))" "bus_wf (snd (persist_device_text_now s))"
    using assms by (auto simp: persist_device_text_now_def)
  show "bus_wf (request_save_device_text s)"
    using assms t by (auto simp: request_save_device_text_def persist_device_text_now_def Let_def
        intro: bus_wf_flags)
qed

lemma length_sn_from_eth_mac: "length (sn_from_eth_mac mac) = 32"
  unfolding sn_from_eth_mac_def by (rule foldl_invariant) (auto simp: ascii_def)

lemma config_wf_hardware [bus_wf_intros]: "config_wf (defaults_with_hardware_sn hw)"
  using config_wf_defaults
  by (auto simp: defaults_with_hardware_sn_def fill_default_sn_from_eth_mac_def config_wf_def
      length_sn_from_eth_mac)

lemma config_wf_version [bus_wf_intros]: "config_wf c \<Longrightarrow> config_wf (c\<lparr>sc_cfg_version := v\<rparr>)"
  by (simp add: config_wf_def)

lemma storage_wf_edits [bus_wf_intros]:
  "storage_wf sn \<Longrightarrow> storage_wf (sn\<lparr>sn_control_words := (sn_control_words sn)[i := v]\<rparr>)"
  "storage_wf sn \<Longrightarrow> st + length vs \<le> 2000 \<Longrightarrow>
    storage_wf (sn\<lparr>sn_device_text := copy_at (sn_device_text sn) st vs\<rparr>)"
  "storage_wf sn \<Longrightarrow> storage_wf (sn\<lparr>sn_legacy_coils := (sn_legacy_coils sn)[i := b]\<rparr>)"
  "storage_wf sn \<Longrightarrow> length h = 2048 \<Longrightarrow> storage_wf (sn\<lparr>sn_holding_buf := h\<rparr>)"
  "storage_wf sn \<Longrightarrow> length cs = 1536 \<Longrightarrow> storage_wf (sn\<lparr>sn_legacy_coils := cs\<rparr>)"
  "storage_wf sn \<Longrightarrow> length (ps_data p) = 1500 \<Longrightarrow> storage_wf (sn\<lparr>sn_proto := p\<rparr>)"
  by (simp_all add: storage_wf_def)

lemma storage_lengths:
  assumes "bus_wf s"
  shows "length (sn_holding_buf (bus_storage s)) = 2048" "length (ps_data (sn_proto (bus_storage s))) = 1500"
    "length (sn_legacy_coils (bus_storage s)) = 1536" "length (sn_device_text (bus_storage s)) = 2000"
    "length (sn_control_words (bus_storage s)) = 300" "length (sn_monitor_words (bus_storage s)) = 128"
  using assms by (simp_all add: bus_wf_def storage_wf_def)

lemma bus_wf_holding_edits [bus_wf_intros]:
  assumes "bus_wf s" and "length (f (sn_holding_buf (bus_storage s))) = 2048"
  shows "bus_wf (storage_modify_holding_raw f s)" and "bus_wf (storage_modify_holding f s)"
  using assms unfolding storage_modify_holding_def storage_modify_holding_raw_def
  by (auto intro!: bus_wf_intros bus_wf_parts)

lemma bus_wf_protect [bus_wf_intros]: "bus_wf s \<Longrightarrow> bus_wf (write_protect_word v s)"
  unfolding write_protect_word_def by (intro bus_wf_intros bus_wf_parts)

lemma bus_wf_control_word [bus_wf_intros]: "bus_wf s \<Longrightarrow> bus_wf (write_control_word a v s)"
  unfolding write_control_word_def by (intro bus_wf_intros bus_wf_parts)

lemma bus_wf_text [bus_wf_intros]:
  assumes "bus_wf s" and "st + length vs \<le> 2000"
  shows "bus_wf (write_text st vs s)"
proof -
  have "storage_wf ((bus_storage s)\<lparr>sn_device_text := copy_at (sn_device_text (bus_storage s)) st vs\<rparr>)"
    using assms by (intro bus_wf_intros bus_wf_parts)
  then show ?thesis
    using assms(1) unfolding write_text_def Let_def
    by (cases "bus_logic_armed s") (simp_all add: bus_wf_publish_storage bus_wf_flags storage_wf_put_holding)
qed

lemma bus_wf_proto [bus_wf_intros]:
  "bus_wf s \<Longrightarrow> length (ps_data (f (sn_proto (bus_storage s)))) = 1500 \<Longrightarrow> bus_wf (write_proto f s)"
  unfolding write_proto_def by (intro bus_wf_intros bus_wf_parts) auto

lemma bus_wf_proto_request [bus_wf_intros]: "bus_wf s \<Longrightarrow> bus_wf (snd (proto_request cmd st s))"
  unfolding proto_request_def by (auto simp: request_device_def Let_def intro!: bus_wf_intros)

lemma bus_wf_control_plc [bus_wf_intros]: "bus_wf s \<Longrightarrow> bus_wf (snd (write_control_plc a v s))"
  unfolding write_control_plc_def Let_def
  by (auto intro!: bus_wf_intros io_wf_ops dest: bus_wf_parts simp: storage_lengths)

lemma bus_wf_pxx [bus_wf_intros]:
  assumes "bus_wf s"
  shows "bus_wf (snd (write_pxx_word a v s))"
  using assms by (auto simp: write_pxx_word_def Let_def storage_lengths intro!: bus_wf_intros)

lemma bus_wf_config_word [bus_wf_intros]:
  assumes "bus_wf s"
  shows "bus_wf (snd (write_config_word a v s))"
proof -
  obtain r c where w: "write_reg a v (bus_config s) = (r, c)" by (rule prod.exhaust)
  have c: "config_wf c" using write_reg_wf [OF bus_wf_parts(2) [OF assms], of a v] by (simp add: w)
  show ?thesis
    using assms c bus_wf_parts(1) [OF assms]
    by (auto simp: write_config_word_def w Let_def intro!: bus_wf_intros split: write_result.split)
qed

lemma bus_wf_locked [bus_wf_intros]:
  assumes "bus_wf s"
  shows "bus_wf (snd (write_hold_reg_locked a v s))"
proof -
  have "in_range_incl 5000 6999 a \<Longrightarrow> unat (a - 5000) + length [v] \<le> 2000"
    using in_range_incl_offset [of 5000 6999 a] by simp
  then show ?thesis
    using assms unfolding write_hold_reg_locked_def
    by (auto intro!: bus_wf_intros bus_wf_persist simp: storage_lengths)
qed

lemma bus_wf_hold_reg [bus_wf_intros]: "bus_wf s \<Longrightarrow> bus_wf (snd (write_hold_reg a v s))"
  using bus_wf_locked [of s a v]
  by (auto simp: write_hold_reg_def Let_def split: prod.split intro!: bus_wf_intros bus_wf_persist)

lemma bus_wf_hold_words: "bus_wf s \<Longrightarrow> bus_wf (snd (write_hold_words a vs s))"
proof (induction vs arbitrary: a s)
  case (Cons v vs)
  obtain r s1 where "write_hold_reg_locked a v s = (r, s1)" by (rule prod.exhaust)
  moreover from this have "bus_wf s1" using bus_wf_locked [OF Cons.prems, of a v] by simp
  ultimately show ?case using Cons.IH by (auto split: bool.split)
qed simp

lemma bus_wf_control_words: "bus_wf s \<Longrightarrow> bus_wf (control_words_written a vs s)"
  by (induction a vs s rule: control_words_written.induct) (auto intro: bus_wf_flags)

definition batch_wf :: "batch \<Rightarrow> bool" where
  "batch_wf b \<longleftrightarrow> config_wf (bt_cfg b) \<and> storage_wf (bt_storage b)"

lemma batch_word_wf: "batch_wf b \<Longrightarrow> batch_word hw t v b = Some b' \<Longrightarrow> batch_wf b'"
proof -
  assume wf: "batch_wf b" and w: "batch_word hw t v b = Some b'"
  obtain r c where wr: "write_reg t v (bt_cfg b) = (r, c)" by (rule prod.exhaust)
  have "config_wf c" using write_reg_wf [of "bt_cfg b" t v] wf by (simp add: wr batch_wf_def)
  then show "batch_wf b'"
    using wf w
    by (auto simp: batch_word_def wr batch_wf_def Let_def config_wf_hardware storage_wf_put_holding
        split: if_splits write_result.splits)
qed

lemma batch_words_wf: "batch_wf b \<Longrightarrow> batch_words hw a vs b = Some b' \<Longrightarrow> batch_wf b'"
  by (induction hw a vs b rule: batch_words.induct) (auto split: option.splits dest: batch_word_wf)

lemma bus_wf_batch_publish: "bus_wf s \<Longrightarrow> batch_wf b \<Longrightarrow> bus_wf (batch_publish b s)"
  unfolding batch_publish_def Let_def batch_wf_def
  by (auto intro!: bus_wf_intros)

lemma bus_wf_hold_regs [bus_wf_intros]:
  assumes "bus_wf s"
  shows "bus_wf (snd (write_hold_regs a vs s))"
proof -
  have start: "batch_wf (batch_start s)" using assms by (simp add: batch_wf_def batch_start_def bus_wf_parts)
  have in_text: "unat (a - 5000) + length vs \<le> 2000" if "5000 \<le> a" "unat a + length vs \<le> 7000"
    using that by (simp add: unat_sub word_le_nat_alt)
  obtain w s1 where hw: "write_hold_words a vs s = (w, s1)" by (rule prod.exhaust)
  then have "bus_wf s1" using bus_wf_hold_words [OF assms, of a vs] by simp
  then show ?thesis
    using assms start in_text hw
    by (auto simp: write_hold_regs_def Let_def dest: batch_words_wf
        intro!: bus_wf_batch_publish bus_wf_persist bus_wf_text bus_wf_control_words split: option.split)
qed

lemma bus_wf_coil [bus_wf_intros]:
  assumes "bus_wf s"
  shows "bus_wf (snd (write_coil a v s))"
proof -
  have io: "bus_wf t \<Longrightarrow> bus_wf (t\<lparr>bus_io := (bus_io t)\<lparr>io_sys := x\<rparr>\<rparr>)" for t x
    by (intro bus_wf_flags io_wf_ops bus_wf_parts)
  obtain r1 s1 where p1: "persist_config_now s = (r1, s1)" by (rule prod.exhaust)
  obtain r2 s2 where p2: "save_holding s1 = (r2, s2)" by (rule prod.exhaust)
  obtain r3 s3 where p3: "persist_device_text_now s2 = (r3, s3)" by (rule prod.exhaust)
  have "bus_wf s1" using bus_wf_persist(1) [OF assms] p1 by simp
  moreover from this have "bus_wf s2" using bus_wf_persist(2) [of s1] p2 by simp
  moreover from this have "bus_wf s3" using bus_wf_persist(4) [of s2] p3 by simp
  ultimately show ?thesis
    using assms io unfolding write_coil_def
    by (auto simp: p1 p2 p3 storage_lengths intro!: bus_wf_intros io_wf_ops bus_wf_parts split: bool.split)
qed

lemma bus_wf_coil_each: "bus_wf s \<Longrightarrow> bus_wf (snd (write_coil_each a p ks s))"
proof (induction ks arbitrary: s)
  case (Cons k ks)
  obtain r s1 where "write_coil (a + of_nat k) (coil_on p k) s = (r, s1)" by (rule prod.exhaust)
  moreover from this have "bus_wf s1" using bus_wf_coil [OF Cons.prems, of "a + of_nat k" "coil_on p k"] by simp
  ultimately show ?case using Cons.IH by (auto split: bool.split)
qed simp

lemma length_put_coils [simp]: "length (put_coils st p ks cs) = length cs"
  by (induction st p ks cs rule: put_coils.induct) auto

lemma publish_storage_io [simp]: "bus_io (publish_storage sn s) = bus_io s"
  by (simp add: publish_storage_def)

lemma bus_wf_coils [bus_wf_intros]:
  assumes "bus_wf s"
  shows "bus_wf (snd (write_coils a c p s))"
proof -
  have do_write: "bus_wf (notify_do (t\<lparr>bus_io := do_mask_replace m v (bus_io t)\<rparr>))" if "bus_wf t" for t m v
    using that by (intro bus_wf_flags io_wf_ops bus_wf_parts)
  have coils: "bus_wf (publish_storage ((bus_storage s)\<lparr>sn_legacy_coils :=
      put_coils st p ks (sn_legacy_coils (bus_storage s))\<rparr>) s)" for st ks
    using assms by (intro bus_wf_publish_storage storage_wf_edits bus_wf_parts) (auto simp: storage_lengths)
  show ?thesis
    using assms do_write [OF assms] do_write [OF coils] coils bus_wf_coil_each [OF assms]
    unfolding write_coils_def Let_def
    by (auto intro!: bus_wf_flags(2) split: prod.split)
qed

section \<open>The contract of the Modbus servers\<close>

lemma those_map_range:
  "those (map rd (addr_range a n)) = those (map (\<lambda>k. rd (a + of_nat k)) [0..<n])"
  by (simp add: addr_range_def comp_def)

interpretation bus: backend_laws bus_backend bus_view bus_wf
proof
  fix s :: bus_state and a c :: u16 and out :: "u8 list" and d bs
  assume c: "c \<noteq> 0" "unat a + unat c \<le> 65536" and len: "length out = div_ceil (unat c) 8"
  have view: "(if d then rv_disc bus_view else rv_coil bus_view) s = read_coil s"
    by (auto simp: bus_view_def read_disc_def)
  have enc: "be_encode_bits bus_backend s a c d out = encode_bits_loop (read_coil s) a [0..<unat c] (replicate (div_ceil (unat c) 8) 0)"
    using c len by (simp add: bus_backend_def encode_coil_bits_default [OF c(2), of _ _ False] encode_bits_default_def)
  show "those (map ((if d then rv_disc bus_view else rv_coil bus_view) s) (addr_range a (unat c))) = Some bs \<Longrightarrow>
      be_encode_bits bus_backend s a c d out = (True, pack_bits bs)"
    unfolding enc view by (rule encode_bits_loop_pack_bits)
  show "those (map ((if d then rv_disc bus_view else rv_coil bus_view) s) (addr_range a (unat c))) = None \<Longrightarrow>
      \<exists>out'. be_encode_bits bus_backend s a c d out = (False, out') \<and> length out' = length out"
    unfolding enc view len those_map_range using encode_bits_loop_None [of "read_coil s" a "[0..<unat c]"]
    by fastforce
next
  fix s :: bus_state and a c :: u16 and out :: "u8 list" and ws
  assume c: "c \<noteq> 0" "unat c \<le> 125" "unat a + unat c \<le> 65536" and len: "length out = 2 * unat c"
  have hold: "be_encode_holding bus_backend s a c out = encode_regs_loop (read_hold_reg s) a [0..<unat c] out"
    by (simp add: bus_backend_def encode_hold_regs_ok [OF c len])
  have input: "be_encode_input bus_backend s a c out = encode_regs_loop (read_input_reg s) a [0..<unat c] out"
    by (simp add: bus_backend_def encode_input_regs_ok [OF c len])
  have fail: "those (map (\<lambda>k. rd (a + of_nat k)) [0..<unat c]) = None \<Longrightarrow>
      \<exists>out'. encode_regs_loop rd a [0..<unat c] out = (False, out') \<and> length out' = length out" for rd
    using encode_regs_loop_None [of rd a "[0..<unat c]" out] length_encode_regs_loop [of "[0..<unat c]" out rd a] len
    by (cases "encode_regs_loop rd a [0..<unat c] out") auto
  show "those (map (rv_hold bus_view s) (addr_range a (unat c))) = Some ws \<Longrightarrow>
      be_encode_holding bus_backend s a c out = (True, concat (map be_bytes ws))"
    unfolding hold those_map_range
    using encode_regs_loop_Some [of "read_hold_reg s" a 0 "unat c" ws out] len by (simp add: bus_view_def)
  show "those (map (rv_hold bus_view s) (addr_range a (unat c))) = None \<Longrightarrow>
      \<exists>out'. be_encode_holding bus_backend s a c out = (False, out') \<and> length out' = length out"
    unfolding hold those_map_range bus_view_def by (simp add: fail)
  show "those (map (rv_input bus_view s) (addr_range a (unat c))) = Some ws \<Longrightarrow>
      be_encode_input bus_backend s a c out = (True, concat (map be_bytes ws))"
    unfolding input those_map_range
    using encode_regs_loop_Some [of "read_input_reg s" a 0 "unat c" ws out] len by (simp add: bus_view_def)
  show "those (map (rv_input bus_view s) (addr_range a (unat c))) = None \<Longrightarrow>
      \<exists>out'. be_encode_input bus_backend s a c out = (False, out') \<and> length out' = length out"
    unfolding input those_map_range bus_view_def by (simp add: fail)
next
  fix s :: bus_state and a c v :: u16 and on bytes ws
  assume "bus_wf s"
  then show "bus_wf (snd (be_write_single_coil bus_backend s a on))"
    "bus_wf (snd (be_write_single_register bus_backend s a v))"
    "bus_wf (snd (be_write_multiple_coils bus_backend s a c bytes))"
    "bus_wf (snd (be_write_multiple_registers bus_backend s a ws))"
    by (simp_all add: bus_backend_def bus_wf_coil bus_wf_hold_reg bus_wf_coils bus_wf_hold_regs)
  show "bus_wf (be_log_warn bus_backend m code x s)" for m code x
    using \<open>bus_wf s\<close> by (simp add: bus_backend_def bus_log_warn_def bus_wf_def)
qed

end
