(* ===== verification/Bus_Safety.thy ===== *)
theory Bus_Safety imports Bus_Backend begin

text \<open>
  What the register map promises to a client across operations: batch reads agree with single
  reads, a refused write changes nothing, the write arm is used once, a restart is only accepted
  after everything is saved, and output batches replace exactly the addressed outputs.
  \<open>bus_start\<close> is the state the static cells hold before \<open>init\<close>.
\<close>

definition bus_start :: "bus_env \<Rightarrow> bus_state" where
  "bus_start env =
     \<lparr>bus_storage = storage_new, bus_config = config_defaults, bus_io = io_bundle_new,
      bus_control = control_new, bus_results = area_new, bus_stats = stats_new,
      bus_ring = \<lparr>rs_ring = ring_new, rs_count = 0\<rparr>, bus_recovery = recovery_start, bus_ble_drops = 0,
      bus_recv_buf = [], bus_proto_status = 0, bus_logic_armed = False, bus_holding_dirty = False,
      bus_nfc_dirty = False, bus_legacy_dirty = False, bus_text_dirty = False, bus_config_dirty = False,
      bus_config_gen = 0, bus_last_mutation_ms = 0, bus_net_reconfig_ms = 0, bus_do_notified = False,
      bus_ble_notified = False, bus_mailbox = [],
      bus_flash = \<lparr>fl_config = config_defaults, fl_text = [], fl_holding = [], fl_monitor = [],
        fl_control = [], fl_coils = []\<rparr>,
      bus_env = env\<rparr>"

definition env_idle :: bus_env where
  "env_idle = \<lparr>env_now_ms = 0, env_actor_started = True, env_mailbox_ok = True,
     env_config_save_ok = True, env_holding_save_ok = True, env_text_save_ok = True,
     env_queue_busy = (\<lambda>_. False), env_hw_mac = [0, 0, 0, 0, 0, 0], env_log_s = 0\<rparr>"

lemma area_wf_new: "area_wf area_new"
  by (simp add: area_wf_def area_new_def)

lemma bus_wf_start: "length (env_hw_mac env) = 6 \<Longrightarrow> bus_wf (bus_start env)"
  by (simp add: bus_wf_def bus_start_def storage_wf_new config_wf_defaults io_wf_new control_wf_new
      area_wf_new)

lemma bus_wf_idle: "bus_wf (bus_start env_idle)"
  by (rule bus_wf_start) (simp add: env_idle_def)

section \<open>Batches and single reads\<close>

lemma regs_loop_is_single_reads:
  assumes "length out = 2 * n"
  shows "case those (map rd (addr_range a n)) of
      Some ws \<Rightarrow> encode_regs_loop rd a [0..<n] out = (True, concat (map be_bytes ws))
    | None \<Rightarrow> \<not> fst (encode_regs_loop rd a [0..<n] out)"
proof (cases "those (map rd (addr_range a n))")
  case None
  then show ?thesis
    using encode_regs_loop_None [of rd a "[0..<n]" out] by (simp add: those_map_range)
next
  case (Some ws)
  then show ?thesis
    using encode_regs_loop_Some [of rd a 0 n ws out] assms by (simp add: those_map_range)
qed

text \<open>A batch read of holding registers answers exactly what single reads of the same state
  answer: all the words in order when every address is readable, and a refusal otherwise.\<close>

theorem hold_batch_is_single_reads:
  assumes "cnt \<noteq> 0" and "unat cnt \<le> 125" and "unat addr + unat cnt \<le> 65536"
    and "length out = 2 * unat cnt"
  shows "case those (map (read_hold_reg s) (addr_range addr (unat cnt))) of
      Some ws \<Rightarrow> encode_hold_regs_be s addr cnt out = (True, concat (map be_bytes ws))
    | None \<Rightarrow> \<not> fst (encode_hold_regs_be s addr cnt out)"
  unfolding encode_hold_regs_ok [OF assms] by (rule regs_loop_is_single_reads [OF assms(4)])

text \<open>The same for input registers, whose batches take results, feedback and snapshots from one
  capture.\<close>

theorem input_batch_is_single_reads:
  assumes "cnt \<noteq> 0" and "unat cnt \<le> 125" and "unat addr + unat cnt \<le> 65536"
    and "length out = 2 * unat cnt"
  shows "case those (map (read_input_reg s) (addr_range addr (unat cnt))) of
      Some ws \<Rightarrow> encode_input_regs_be s addr cnt out = (True, concat (map be_bytes ws))
    | None \<Rightarrow> \<not> fst (encode_input_regs_be s addr cnt out)"
  unfolding encode_input_regs_ok [OF assms] by (rule regs_loop_is_single_reads [OF assms(4)])

text \<open>The same for coils and discrete inputs, packed eight to a byte.\<close>

theorem coil_batch_is_single_reads:
  assumes "cnt \<noteq> 0" and "unat addr + unat cnt \<le> 65536" and "length out = div_ceil (unat cnt) 8"
  shows "case those (map (read_coil s) (addr_range addr (unat cnt))) of
      Some bs \<Rightarrow> encode_coil_bits s addr cnt out = (True, pack_bits bs)
    | None \<Rightarrow> \<not> fst (encode_coil_bits s addr cnt out)"
proof -
  have enc: "encode_coil_bits s addr cnt out =
      encode_bits_loop (read_coil s) addr [0..<unat cnt] (replicate (div_ceil (unat cnt) 8) 0)"
    using assms by (simp add: encode_coil_bits_default [OF assms(2), of _ _ False] encode_bits_default_def)
  show ?thesis
  proof (cases "those (map (read_coil s) (addr_range addr (unat cnt)))")
    case None
    then show ?thesis
      unfolding enc
      using encode_bits_loop_None [of "read_coil s" addr "[0..<unat cnt]" "replicate (div_ceil (unat cnt) 8) 0"]
      by (auto simp: those_map_range)
  next
    case (Some bs)
    then show ?thesis unfolding enc by (simp add: encode_bits_loop_pack_bits)
  qed
qed

theorem hold_batch_is_single_reads_witness:
  "case those (map (read_hold_reg (bus_start env_idle)) (addr_range 2196 9)) of
      Some ws \<Rightarrow> encode_hold_regs_be (bus_start env_idle) 2196 9 (replicate 18 0) = (True, concat (map be_bytes ws))
    | None \<Rightarrow> \<not> fst (encode_hold_regs_be (bus_start env_idle) 2196 9 (replicate 18 0))"
  using hold_batch_is_single_reads [of 9 2196 "replicate 18 0" "bus_start env_idle"] by simp

theorem input_batch_is_single_reads_witness:
  "case those (map (read_input_reg (bus_start env_idle)) (addr_range 0x0800 6)) of
      Some ws \<Rightarrow> encode_input_regs_be (bus_start env_idle) 0x0800 6 (replicate 12 0) = (True, concat (map be_bytes ws))
    | None \<Rightarrow> \<not> fst (encode_input_regs_be (bus_start env_idle) 0x0800 6 (replicate 12 0))"
  using input_batch_is_single_reads [of 6 "0x0800" "replicate 12 0" "bus_start env_idle"] by simp

theorem coil_batch_is_single_reads_witness:
  "case those (map (read_coil (bus_start env_idle)) (addr_range 0 16)) of
      Some bs \<Rightarrow> encode_coil_bits (bus_start env_idle) 0 16 [0, 0] = (True, pack_bits bs)
    | None \<Rightarrow> \<not> fst (encode_coil_bits (bus_start env_idle) 0 16 [0, 0])"
  using coil_batch_is_single_reads [of 16 0 "[0, 0]" "bus_start env_idle"] by (simp add: div_ceil_def)

section \<open>Restart\<close>

lemma persist_config_now_True:
  assumes "persist_config_now s = (True, s')"
  shows "\<not> bus_config_dirty s'" and "bus_config_dirty s \<Longrightarrow> fl_config (bus_flash s') = bus_config s"
    and "s' = s\<lparr>bus_config_dirty := False, bus_flash := (bus_flash s)\<lparr>fl_config := fl_config (bus_flash s')\<rparr>\<rparr>"
  using assms by (auto simp: persist_config_now_def commit_pending_def Let_def split: if_splits prod.splits)

lemma save_holding_True:
  assumes "save_holding s = (True, s')"
  shows "\<not> bus_holding_dirty s' \<and> \<not> bus_legacy_dirty s'"
    and "bus_holding_dirty s \<or> bus_legacy_dirty s \<Longrightarrow>
      fl_holding (bus_flash s') = sn_holding_buf (bus_storage s) \<and>
      fl_control (bus_flash s') = sn_control_words (bus_storage s) \<and>
      fl_monitor (bus_flash s') = sn_monitor_words (bus_storage s) \<and>
      fl_coils (bus_flash s') = sn_legacy_coils (bus_storage s)"
    and "fl_config (bus_flash s') = fl_config (bus_flash s)" "bus_storage s' = bus_storage s"
    "bus_config_dirty s' = bus_config_dirty s"
  using assms by (auto simp: save_holding_def split: if_splits)

lemma persist_text_now_True:
  assumes "persist_device_text_now s = (True, s')"
  shows "\<not> bus_text_dirty s'" and "fl_text (bus_flash s') = sn_device_text (bus_storage s)"
    and "s' = s\<lparr>bus_text_dirty := False, bus_flash := (bus_flash s)\<lparr>fl_text := fl_text (bus_flash s')\<rparr>\<rparr>"
  using assms by (auto simp: persist_device_text_now_def persist_text_def commit_pending_def Let_def split: if_splits)

lemma save_io:
  "bus_io (snd (persist_config_now s)) = bus_io s" "bus_io (snd (save_holding s)) = bus_io s"
  "bus_io (snd (persist_device_text_now s)) = bus_io s"
  by (auto simp: persist_config_now_def save_holding_def persist_device_text_now_def persist_text_def
      Let_def split: prod.splits)

lemma save_outcomes:
  "fst (persist_config_now s) =
    (bus_config_dirty s \<longrightarrow> env_config_save_ok (bus_env s) \<and> validate_for_persistence (bus_config s) = Inr ())"
  "fst (save_holding s) = (bus_holding_dirty s \<or> bus_legacy_dirty s \<longrightarrow> env_holding_save_ok (bus_env s))"
  "fst (persist_device_text_now s) = env_text_save_ok (bus_env s)"
  by (simp_all add: persist_config_now_def save_holding_def persist_device_text_now_def persist_text_def commit_pending_def Let_def)

lemma save_frame:
  "bus_env (snd (persist_config_now s)) = bus_env s \<and> bus_holding_dirty (snd (persist_config_now s)) = bus_holding_dirty s \<and>
    bus_legacy_dirty (snd (persist_config_now s)) = bus_legacy_dirty s"
  "bus_env (snd (save_holding s)) = bus_env s"
  by (auto simp: persist_config_now_def save_holding_def commit_pending_def Let_def)



section \<open>The write arm\<close>

lemma locate_logic_addr: "2300 \<le> unat addr \<Longrightarrow> unat addr \<le> 4223 \<Longrightarrow> locate addr = None"
  by (auto simp: locate_def locate_writable_def Let_def range_defs word_less_nat_alt word_le_nat_alt
      word_unat_eq_iff)

lemma write_logic_reg:
  assumes "bus_wf s" and "is_logic_config_addr addr" and "addr \<noteq> HOLD_PROTECT_WORD"
    and "valid_tcp_ports (sc_tcp_ports (bus_config s))"
  shows "write_hold_reg addr v s = write_pxx_word addr v s"
proof -
  have n: "2300 \<le> unat addr" "unat addr \<le> 4223"
    using assms(2) by (simp_all add: is_logic_config_addr_def range_defs word_le_nat_alt)
  have "length (sc_rs485 (bus_config s)) = 3" using assms(1) by (simp add: bus_wf_def config_wf_def)
  then have "write_reg addr v (bus_config s) = (WNotFound, bus_config s)"
    by (simp add: write_reg_locate locate_logic_addr [OF n])
  then have "write_hold_reg_locked addr v s = write_pxx_word addr v s"
    using n assms(3,4)
    by (simp add: write_hold_reg_locked_def write_config_word_def range_defs word_less_nat_alt
        word_le_nat_alt word_unat_eq_iff)
  then show ?thesis
    using n by (simp add: write_hold_reg_def range_defs is_ble_name_hold_addr_def word_less_nat_alt
        word_le_nat_alt split: prod.split)
qed

text \<open>The write arm is used once.  A write into the logic area always takes effect in memory and
  announces a new table; it marks the area for saving only when the arm was set, and then clears both the
  arm and its register.\<close>

theorem logic_write_arm_is_one_shot:
  assumes "bus_wf s" and "is_logic_config_addr addr" and "addr \<noteq> HOLD_PROTECT_WORD"
    and "valid_tcp_ports (sc_tcp_ports (bus_config s))" and "write_hold_reg addr v s = (ok, s')"
  shows "ok \<and> \<not> bus_logic_armed s' \<and> bus_holding_dirty s' = (bus_holding_dirty s \<or> bus_logic_armed s) \<and>
    sn_holding_buf (bus_storage s') ! unat (addr - HOLD_PXX_BASE) = v \<and>
    (bus_logic_armed s \<longrightarrow> sn_holding_buf (bus_storage s') ! PROTECT_INDEX = 0) \<and>
    ctl_config_gen (bus_control s') = ctl_config_gen (bus_control s) + 1"
proof -
  have n: "2300 \<le> unat addr" "unat addr \<le> 4223"
    using assms(2) by (simp_all add: is_logic_config_addr_def range_defs word_le_nat_alt)
  have idx: "unat (addr - 2176) = unat addr - 2176" using n by (simp add: unat_sub word_le_nat_alt)
  have ne: "unat addr - 2176 \<noteq> 2046" using n assms(3) by (simp add: word_unat_eq_iff)
  have len: "length (sn_holding_buf (bus_storage s)) = 2048" by (rule storage_lengths(1) [OF assms(1)])
  have mc: "\<not> is_multicast_config_addr addr" and hi: "HOLD_DEVICE_CONFIG \<le> addr"
    using n by (simp_all add: is_multicast_config_addr_def range_defs word_le_nat_alt)
  have lt: "unat addr - 2176 < 2048" using n by simp
  let ?i = "unat addr - 2176"
  have w: "write_hold_reg addr v s = (True, mark_logic_changed (if bus_logic_armed s
      then mark_holding_dirty ((storage_modify_holding_raw (\<lambda>buf. buf[?i := v, 2046 := 0]) s)
        \<lparr>bus_logic_armed := False\<rparr>)
      else storage_modify_holding_raw (\<lambda>buf. buf[?i := v]) s))"
    unfolding write_logic_reg [OF assms(1-4)] write_pxx_word_def Let_def idx
    using assms(2) mc hi lt by simp
  show ?thesis
    using assms(5) len ne lt unfolding w idx
    by (cases "bus_logic_armed s")
      (auto simp: storage_modify_holding_raw_def publish_storage_def
        sync_proto_status_def mark_holding_dirty_def mark_storage_mutated_def mark_logic_changed_def
        mark_config_changed_def)
qed

theorem logic_write_arm_is_one_shot_witness:
  "\<exists>s'. write_hold_reg 2300 7 ((bus_start env_idle)\<lparr>bus_logic_armed := True\<rparr>) = (True, s') \<and>
     \<not> bus_logic_armed s' \<and> bus_holding_dirty s'"
proof -
  let ?s = "(bus_start env_idle)\<lparr>bus_logic_armed := True\<rparr>"
  obtain ok s' where w: "write_hold_reg 2300 7 ?s = (ok, s')" by (rule prod.exhaust)
  have "bus_wf ?s" using bus_wf_idle by (simp add: bus_wf_def)
  moreover have "valid_tcp_ports (sc_tcp_ports (bus_config ?s))"
    by (simp add: bus_start_def config_defaults_def valid_tcp_ports_iff)
  ultimately show ?thesis
    using w logic_write_arm_is_one_shot [OF _ _ _ _ w] by (auto simp: is_logic_config_addr_def range_defs)
qed

section \<open>Refused batches\<close>

lemma write_hold_words_control:
  "unat addr + length vs \<le> 300 \<Longrightarrow> fst (write_hold_words addr vs s)"
proof (induction vs arbitrary: addr s)
  case (Cons v vs)
  have "unat addr < 300" using Cons.prems by simp
  then have "write_hold_reg_locked addr v s = (True, write_control_word addr v s)"
    by (simp add: write_hold_reg_locked_def word_less_nat_alt word_unat_eq_iff)
  moreover have "unat (addr + 1) = unat addr + 1"
    using \<open>unat addr < 300\<close> by (simp add: unat_word_ariths)
  ultimately show ?case using Cons.IH [of "addr + 1"] Cons.prems by simp
qed simp

lemma writable_below_proto:
  "unat a < 16384 \<Longrightarrow> is_writable_hold_reg a \<longleftrightarrow>
    unat a < 300 \<or> (5000 \<le> unat a \<and> unat a \<le> 6999) \<or> (2176 \<le> unat a \<and> unat a \<le> 4223)"
  by (auto simp: is_writable_hold_reg_def range_defs word_less_nat_alt word_le_nat_alt word_unat_eq_iff)

text \<open>C24: A refused batch write below the protocol area changes nothing at all, whatever window it
  addresses and at whichever word it fails.\<close>

theorem refused_batch_changes_nothing:
  assumes "write_hold_regs addr vs s = (False, s')" and "unat addr + length vs \<le> 0x4000"
  shows "s' = s"
proof (rule ccontr)
  let ?e = "unat addr + length vs"
  assume "s' \<noteq> s"
  have w: "is_writable_hold_reg (addr + of_nat k)" if "k < length vs" for k
    using assms \<open>s' \<noteq> s\<close> that by (auto simp: write_hold_regs_def Let_def list_all_iff split: if_splits)
  have x: "unat (addr + of_nat k) = unat addr + k" if "k < length vs" for k
    using assms(2) that by (intro unat_add_of_nat) simp
  have blocks: "(\<forall>n\<in>{unat addr..<?e}. n < 300 \<or> (5000 \<le> n \<and> n \<le> 6999) \<or> (2176 \<le> n \<and> n \<le> 4223))"
  proof
    fix n assume "n \<in> {unat addr..<?e}"
    then have k: "n - unat addr < length vs" "n = unat addr + (n - unat addr)" by auto
    then show "n < 300 \<or> (5000 \<le> n \<and> n \<le> 6999) \<or> (2176 \<le> n \<and> n \<le> 4223)"
      using w [OF k(1)] x [OF k(1)] assms(2) writable_below_proto [of "addr + of_nat (n - unat addr)"] by simp
  qed
  have "vs \<noteq> []" using assms \<open>s' \<noteq> s\<close> by (auto simp: write_hold_regs_def)
  then have "unat addr \<in> {unat addr..<?e}" by simp
  note first = bspec [OF blocks this]
  have stop: "?e \<le> b" if "unat addr < b" "\<not> (b < 300 \<or> (5000 \<le> b \<and> b \<le> 6999) \<or> (2176 \<le> b \<and> b \<le> 4223))" for b
    using bspec [OF blocks, of b] that by force
  consider "unat addr < 300" "?e \<le> 300" | "5000 \<le> unat addr" "?e \<le> 7000"
    | "2176 \<le> unat addr" "?e \<le> 4224" "unat addr < 5000"
    using first stop [of 300] stop [of 7000] stop [of 4224] by linarith
  then show False
  proof cases
    case 1
    then show False
      using assms \<open>s' \<noteq> s\<close> write_hold_words_control [OF 1(2), of s]
      by (auto simp: write_hold_regs_def Let_def word_le_nat_alt split: if_splits prod.splits)
  qed (use assms \<open>s' \<noteq> s\<close> in \<open>auto simp: write_hold_regs_def Let_def word_le_nat_alt
      split: if_splits option.splits\<close>)
qed

theorem refused_batch_changes_nothing_witness:
  "write_hold_regs 2243 [5502, 5502] (bus_start env_idle) = (False, bus_start env_idle)"
proof -
  obtain ok s' where w: "write_hold_regs 2243 [5502, 5502] (bus_start env_idle) = (ok, s')"
    by (rule prod.exhaust)
  have "\<not> ok"
    using w by (auto simp: write_hold_regs_def is_writable_hold_reg_def range_defs batch_start_def
        batch_word_def write_reg_locate locate_def locate_writable_def bus_start_def config_defaults_def
        is_ble_name_hold_addr_def valid_tcp_ports_iff split: if_splits)
  then show ?thesis using w refused_batch_changes_nothing [of 2243 "[5502, 5502]" "bus_start env_idle" s'] by simp
qed

lemma alias_word_writes:
  "write_hold_reg_locked 40271 v s = (True, storage_modify_holding (\<lambda>buf. buf[2046 := v]) s)"
  "write_hold_reg_locked 40272 v s = (True, storage_modify_holding (\<lambda>buf. buf[2047 := v]) s)"
  "write_hold_reg_locked 40273 v s = (False, s)"
  by (simp_all add: write_hold_reg_locked_def write_control_plc_def range_defs)

text \<open>In the alias window of the old controllers this fails: a batch that runs over the end of the
  user words is refused after its first words have been written.\<close>

theorem refused_alias_batch_is_partial:
  "\<exists>s'. write_hold_regs 40271 [v, w, x] s = (False, s') \<and>
    sn_holding_buf (bus_storage s') = (sn_holding_buf (bus_storage s))[2046 := v, 2047 := w]"
proof -
  have all: "is_writable_hold_reg 40271" "is_writable_hold_reg 40272" "is_writable_hold_reg 40273"
    by (simp_all add: is_writable_hold_reg_def range_defs)
  have "write_hold_words 40271 [v, w, x] s =
      (False, storage_modify_holding (\<lambda>buf. buf[2047 := w]) (storage_modify_holding (\<lambda>buf. buf[2046 := v]) s))"
    by (simp add: alias_word_writes)
  then show ?thesis
    using all
    by (simp add: write_hold_regs_def storage_modify_holding_def storage_modify_holding_raw_def
        publish_storage_def sync_proto_status_def mark_holding_dirty_def mark_storage_mutated_def
        del: write_hold_words.simps)
qed

section \<open>Output batches\<close>

lemma bit_coil_masks:
  "bit (fst (coil_masks st packed ks mv)) n \<longleftrightarrow> bit (fst mv) n \<or> (\<exists>k\<in>set ks. n = st + k \<and> n < 64)"
  "bit (snd (coil_masks st packed ks mv)) n \<longleftrightarrow>
    bit (snd mv) n \<or> (\<exists>k\<in>set ks. n = st + k \<and> n < 64 \<and> coil_on packed k)"
  by (induction ks arbitrary: mv) (auto simp: bit_simps)

text \<open>A batch write of outputs sets each addressed output to its bit, leaves every other coil and
  input as it was, and announces the change once.\<close>

theorem output_batch_replaces_addressed:
  assumes "bus_wf s" and "cnt \<noteq> 0" and "length packed = div_ceil (unat cnt) 8"
    and "0x200 \<le> unat addr" and "unat addr + unat cnt \<le> 0x210"
    and "write_coils addr cnt packed s = (ok, s')"
  shows "ok \<and> bus_do_notified s' \<and>
    read_coil s' a = (if addr \<le> a \<and> unat a < unat addr + unat cnt
      then Some (coil_on packed (unat a - unat addr)) else read_coil s a)"
proof -
  have sub: "unat (addr - 512) = unat addr - 512" using assms(4) by (simp add: unat_sub word_le_nat_alt)
  define m v where "m = fst (coil_masks (unat addr - 512) packed [0..<unat cnt] (0, 0))"
    and "v = snd (coil_masks (unat addr - 512) packed [0..<unat cnt] (0, 0))"
  have eq: "(ok, s') = (True, notify_do (s\<lparr>bus_io := do_mask_replace m v (bus_io s)\<rparr>))"
    using assms(2-6) by (simp add: write_coils_def Let_def sub word_le_nat_alt m_def v_def split_beta)
  have bits: "bit (load_bits (io_do (bus_io s'))) n =
      (if \<exists>k<unat cnt. n = unat addr - 512 + k
       then coil_on packed (n - (unat addr - 512)) else bit (load_bits (io_do (bus_io s))) n)" if "n < 64" for n
    using eq that assms(1)
    by (auto simp: notify_do_def do_bits_after_replace bus_wf_parts(3) bit_simps m_def v_def bit_coil_masks)
  have rest: "io_di (bus_io s') = io_di (bus_io s)" "bus_storage s' = bus_storage s" "bus_do_notified s'"
    using eq by (simp_all add: notify_do_def do_mask_replace_def)
  have "read_coil s' a = (if addr \<le> a \<and> unat a < unat addr + unat cnt
      then Some (coil_on packed (unat a - unat addr)) else read_coil s a)"
  proof (cases "512 \<le> unat a \<and> unat a < 528")
    case True
    then have range: "(\<exists>k<unat cnt. unat a - 512 = unat addr - 512 + k) \<longleftrightarrow>
        addr \<le> a \<and> unat a < unat addr + unat cnt"
      using assms(4) by (auto simp: word_le_nat_alt intro!: exI [of _ "unat a - unat addr"])
    have off: "unat a - 512 - (unat addr - 512) = unat a - unat addr" using assms(4) by simp
    have lt: "unat a - 512 < 64" using True by linarith
    have "bit (load_bits (io_do (bus_io s'))) (unat a - 512) =
      (if addr \<le> a \<and> unat a < unat addr + unat cnt then coil_on packed (unat a - unat addr)
       else bit (load_bits (io_do (bus_io s))) (unat a - 512))"
      using bits [OF lt] unfolding range off .
    then show ?thesis using True by (simp add: read_coil_nat read_coil_from_snapshot_nat)
  next
    case False
    then show ?thesis
      using assms(4,5) rest by (auto simp: read_coil_nat read_coil_from_snapshot_nat word_le_nat_alt)
  qed
  then show ?thesis using eq rest by simp
qed

theorem output_batch_replaces_addressed_witness:
  "\<exists>s'. write_coils 0x202 3 [5] (bus_start env_idle) = (True, s') \<and>
     read_coil s' 0x202 = Some True \<and> read_coil s' 0x203 = Some False"
proof -
  obtain ok s' where w: "write_coils 0x202 3 [5] (bus_start env_idle) = (ok, s')" by (rule prod.exhaust)
  show ?thesis
    using w output_batch_replaces_addressed [OF bus_wf_idle _ _ _ _ w, of "0x202"]
      output_batch_replaces_addressed [OF bus_wf_idle _ _ _ _ w, of "0x203"]
    by (simp add: div_ceil_def coil_on_def)
qed

end
