(* ===== verification/Rs485_Port.thy ===== *)
theory Rs485_Port imports System_Config begin

text \<open>
  The serial ports: the wire parameters of \<open>src/rs485/config.rs\<close> and, from
  \<open>src/rs485/port.rs\<close>, the time limits of a transaction and the two-phase read of a frame.  The
  UART driver is a parameter: its answers to the calls of a read are given as a script, and the clock
  as the sequence of its readings.
\<close>

section \<open>Wire parameters\<close>

record wire_config =
  wc_uart_port :: u8
  wc_tx_pin :: u8
  wc_rx_pin :: u8
  wc_de_pin :: u8
  wc_baud :: u32
  wc_data_bits :: u8
  wc_parity :: char
  wc_stop_bits :: u8
  wc_rts_pin :: u8

definition wire_default :: wire_config where
  "wire_default = \<lparr>wc_uart_port = 1, wc_tx_pin = 4, wc_rx_pin = 5, wc_de_pin = 6, wc_baud = 9600,
     wc_data_bits = 8, wc_parity = CHR ''N'', wc_stop_bits = 1, wc_rts_pin = 6\<rparr>"

definition supported_bauds :: "u32 list" where
  "supported_bauds = [1200, 2400, 4800, 9600, 14400, 19200, 38400, 57600, 115200, 128000, 153600, 230400,
     256000, 460800, 921600]"

definition apply_saved :: "rs485_config \<Rightarrow> wire_config \<Rightarrow> wire_config" where
  "apply_saved saved w =
     w\<lparr>wc_baud := (if rs_baudrate saved \<in> set supported_bauds then rs_baudrate saved else 9600),
       wc_data_bits := (if rs_data_bits saved = 7 then 7 else 8),
       wc_parity := (if rs_parity saved = 1 then CHR ''O'' else if rs_parity saved = 2 then CHR ''E'' else CHR ''N''),
       wc_stop_bits := (if rs_stop_bits saved = 2 then 2 else 1)\<rparr>"

definition physical_port :: "nat \<Rightarrow> wire_config option" where
  "physical_port index =
     (if index = 0 then Some (wire_default\<lparr>wc_uart_port := 1, wc_tx_pin := 45, wc_rx_pin := 46, wc_de_pin := 7, wc_rts_pin := 7\<rparr>)
      else if index = 1 then Some (wire_default\<lparr>wc_uart_port := 2, wc_tx_pin := 42, wc_rx_pin := 41, wc_de_pin := 255, wc_rts_pin := 255\<rparr>)
      else if index = 2 then Some (wire_default\<lparr>wc_uart_port := 0, wc_tx_pin := 43, wc_rx_pin := 44, wc_de_pin := 255, wc_rts_pin := 255\<rparr>)
      else None)"

definition from_port_with_saved :: "nat \<Rightarrow> rs485_config \<Rightarrow> wire_config option" where
  "from_port_with_saved index saved = map_option (apply_saved saved) (physical_port index)"

definition from_port :: "nat \<Rightarrow> system_config \<Rightarrow> wire_config option" where
  "from_port index cfg =
     (case get_opt (sc_rs485 cfg) index of None \<Rightarrow> None | Some saved \<Rightarrow> from_port_with_saved index saved)"

definition from_port_or_default :: "nat \<Rightarrow> system_config \<Rightarrow> wire_config" where
  "from_port_or_default index cfg =
     (case from_port index cfg of Some w \<Rightarrow> w
      | None \<Rightarrow> (case physical_port index of Some w \<Rightarrow> w | None \<Rightarrow> wire_default))"

section \<open>Time limits\<close>

definition clamp :: "nat \<Rightarrow> nat \<Rightarrow> nat \<Rightarrow> nat" where
  "clamp lo hi x = (if x < lo then lo else if x > hi then hi else x)"

text \<open>\<open>period\<close> is the length of a scheduler tick in milliseconds.\<close>

definition ms_to_ticks :: "nat \<Rightarrow> nat \<Rightarrow> nat" where
  "ms_to_ticks period ms = min (max (div_ceil ms (max period 1)) 1) 4294967295"

definition rtu_silence_us :: "u32 \<Rightarrow> nat" where
  "rtu_silence_us baud = 38500000 div max (unat baud) 1"

definition tx_guard_ms :: "u32 \<Rightarrow> nat" where
  "tx_guard_ms baud = clamp 3 20 (div_ceil 11000 (max (unat baud) 1) * 2)"

definition bits_per_char :: "wire_config \<Rightarrow> nat" where
  "bits_per_char w =
     1 + unat (wc_data_bits w) + (if wc_parity w \<noteq> CHR ''N'' then 1 else 0) + unat (wc_stop_bits w)"

definition tx_wait_ms :: "wire_config \<Rightarrow> nat \<Rightarrow> nat" where
  "tx_wait_ms w len =
     min (div_ceil (len * bits_per_char w * 1000) (max (unat (wc_baud w)) 1) + tx_guard_ms (wc_baud w)) 5000"

definition silence_ms :: "wire_config \<Rightarrow> nat" where
  "silence_ms w = max (rtu_silence_us (wc_baud w) div 1000) 1"

definition wire_ms :: "wire_config \<Rightarrow> nat \<Rightarrow> nat" where
  "wire_ms w len = div_ceil (len * bits_per_char w * 1000) (max (unat (wc_baud w)) 1)"

definition transaction_timeout_ms :: "wire_config \<Rightarrow> nat \<Rightarrow> nat \<Rightarrow> nat \<Rightarrow> nat" where
  "transaction_timeout_ms w request_len response_len configured_timeout_ms =
     clamp 20 2000 (max configured_timeout_ms (wire_ms w (request_len + response_len) + silence_ms w + 30))"

section \<open>Reading a frame\<close>

text \<open>An answer of the driver to a read, and to the question how much is buffered.\<close>

datatype uart_read = UartFault int | UartBytes "u8 list"

record uart =
  ua_reads :: "uart_read list"
  ua_buffered :: "nat option list"

datatype port_error = UartReadError int | UartLenError

definition take_bytes :: "nat \<Rightarrow> u8 list \<Rightarrow> uart_read list \<Rightarrow> u8 list \<times> uart_read list" where
  "take_bytes room bs rest = (take room bs, if drop room bs = [] then rest else UartBytes (drop room bs) # rest)"

text \<open>The first phase waits for a first byte, each round with two readings of the clock; \<open>i\<close> counts
  the readings.\<close>

fun read_first :: "(nat \<Rightarrow> nat) \<Rightarrow> nat \<Rightarrow> nat \<Rightarrow> uart_read list \<Rightarrow> nat \<Rightarrow>
    (port_error + u8 list) \<times> uart_read list \<times> nat" where
  "read_first clk deadline room [] i = (Inr [], [], i + 1)"
| "read_first clk deadline room (r # rs) i =
     (if clk i < deadline then
        (case r of
           UartFault n \<Rightarrow> (Inl (UartReadError n), rs, i + 2)
         | UartBytes bs \<Rightarrow>
             (if take room bs = [] then read_first clk deadline room rs (i + 2)
              else (Inr (take room bs), snd (take_bytes room bs rs), i + 2)))
      else (Inr [], r # rs, i + 1))"

text \<open>The second phase reads on until the line has been silent for three and a half characters.\<close>

fun read_rest :: "(nat \<Rightarrow> nat) \<Rightarrow> nat \<Rightarrow> nat \<Rightarrow> nat option list \<Rightarrow> u8 list \<Rightarrow> uart_read list \<Rightarrow> nat \<Rightarrow>
    (port_error + u8 list) \<times> uart_read list \<times> nat option list" where
  "read_rest clk deadline room bufs got rs i =
     (if length got < room \<and> clk i < deadline then
        (case bufs of
           [] \<Rightarrow> (Inr got, rs, [])
         | None # bufs \<Rightarrow> (Inl UartLenError, rs, bufs)
         | Some 0 # bufs \<Rightarrow> (Inr got, rs, bufs)
         | Some (Suc n) # bufs \<Rightarrow>
             (case rs of
                [] \<Rightarrow> (Inr got, [], bufs)
              | UartFault n # rs \<Rightarrow> (Inl (UartReadError n), rs, bufs)
              | UartBytes bs # rs \<Rightarrow>
                  (if take (room - length got) bs = [] then (Inr got, rs, bufs)
                   else read_rest clk deadline room bufs (got @ take (room - length got) bs)
                          (snd (take_bytes (room - length got) bs rs)) (i + 1))))
      else (Inr got, rs, bufs))"

declare read_rest.simps [simp del]

definition read_frame :: "(nat \<Rightarrow> nat) \<Rightarrow> nat \<Rightarrow> nat \<Rightarrow> nat \<Rightarrow> uart \<Rightarrow> (port_error + u8 list) \<times> uart" where
  "read_frame clk room first_byte_timeout_ms frame_timeout_ms u =
     (let (r, rs, i) = read_first clk (clk 0 + max first_byte_timeout_ms 1) room (ua_reads u) 1 in
      case r of
        Inl e \<Rightarrow> (Inl e, u\<lparr>ua_reads := rs\<rparr>)
      | Inr got \<Rightarrow>
          if got = [] then (Inr [], u\<lparr>ua_reads := rs\<rparr>)
          else let (r, rs, bufs) = read_rest clk (clk i + max frame_timeout_ms 1) room (ua_buffered u) got rs (i + 1)
               in (r, u\<lparr>ua_reads := rs, ua_buffered := bufs\<rparr>))"

section \<open>Facts\<close>

lemma clamp_bounds: "lo \<le> hi \<Longrightarrow> lo \<le> clamp lo hi x \<and> clamp lo hi x \<le> hi"
  by (auto simp: clamp_def)

lemma transaction_timeout_bounds:
  "20 \<le> transaction_timeout_ms w q r t \<and> transaction_timeout_ms w q r t \<le> 2000"
  unfolding transaction_timeout_ms_def by (rule clamp_bounds) simp

lemma transaction_timeout_covers_frame:
  "wire_ms w (q + r) + silence_ms w + 30 \<le> 2000 \<Longrightarrow>
   wire_ms w (q + r) + silence_ms w + 30 \<le> transaction_timeout_ms w q r t"
  by (auto simp: transaction_timeout_ms_def clamp_def)

text \<open>The limit of two seconds is shorter than the longest response at the slowest rate.\<close>

lemma slow_response_is_cut:
  assumes "wc_baud w = 1200" "wc_data_bits w = 8" "wc_parity w = CHR ''N''" "wc_stop_bits w = 1"
  shows "transaction_timeout_ms w 8 255 t < wire_ms w 254"
  using transaction_timeout_bounds [of w 8 255 t]
  by (simp add: wire_ms_def bits_per_char_def assms div_ceil_def)

definition stream :: "uart_read list \<Rightarrow> u8 list" where
  "stream rs = concat (map (\<lambda>r. case r of UartBytes bs \<Rightarrow> bs | UartFault _ \<Rightarrow> []) rs)"

lemma stream_simps [simp]:
  "stream [] = []" "stream (UartBytes bs # rs) = bs @ stream rs" "stream (UartFault n # rs) = stream rs"
  by (simp_all add: stream_def)

lemma stream_take_bytes: "take room bs @ stream (snd (take_bytes room bs rs)) = bs @ stream rs"
proof (cases "drop room bs = []")
  case True
  then show ?thesis by (simp add: take_bytes_def)
next
  case False
  then show ?thesis by (simp add: take_bytes_def del: drop_eq_Nil drop_eq_Nil2)
qed

lemma read_first_stream:
  "0 < room \<Longrightarrow> read_first clk deadline room rs i = (Inr got, rs', j) \<Longrightarrow>
    got @ stream rs' = stream rs \<and> length got \<le> room"
proof (induction rs arbitrary: i)
  case (Cons r rs)
  then show ?case
    by (cases r) (auto simp: stream_take_bytes split: if_splits)
qed simp

lemma read_rest_stream:
  "read_rest clk deadline room bufs got rs i = (Inr got', rs', bufs') \<Longrightarrow> length got \<le> room \<Longrightarrow>
    got' @ stream rs' = got @ stream rs \<and> length got' \<le> room"
proof (induction clk deadline room bufs got rs i rule: read_rest.induct)
  case (1 clk deadline room bufs got rs i)
  show ?case
  proof (cases "length got < room \<and> clk i < deadline \<and> (\<exists>n bufs1. bufs = Some (Suc n) # bufs1) \<and>
      (\<exists>bs rs1. rs = UartBytes bs # rs1 \<and> take (room - length got) bs \<noteq> [])")
    case True
    then obtain n bufs1 bs rs1 where b: "bufs = Some (Suc n) # bufs1" "rs = UartBytes bs # rs1"
      "take (room - length got) bs \<noteq> []" and go: "length got < room \<and> clk i < deadline" by blast
    let ?got = "got @ take (room - length got) bs" and ?rs = "snd (take_bytes (room - length got) bs rs1)"
    have "read_rest clk deadline room bufs1 ?got ?rs (i + 1) = (Inr got', rs', bufs')"
      using 1(2) b go by (subst (asm) read_rest.simps) (simp del: take_eq_Nil take_eq_Nil2)
    moreover have "length ?got \<le> room" using go by auto
    ultimately have "got' @ stream rs' = ?got @ stream ?rs \<and> length got' \<le> room"
      by (rule 1(1) [OF go b(1) refl refl b(2) refl b(3)])
    then show ?thesis using stream_take_bytes [of "room - length got" bs rs1] b by simp
  next
    case False
    have "got' = got \<and> rs' = rs \<or> got' = got \<and> stream rs' = stream rs"
      using 1(2) False
      by (subst (asm) read_rest.simps) (auto split: if_splits list.splits option.splits nat.splits uart_read.splits)
    then show ?thesis using 1(3) by auto
  qed
qed

text \<open>A read returns the bytes of the line in their order, at most as many as the buffer holds, and
  leaves the rest in the driver.\<close>

lemma read_frame_stream:
  assumes "0 < room" and "read_frame clk room first frame u = (Inr got, u')"
  shows "got @ stream (ua_reads u') = stream (ua_reads u) \<and> length got \<le> room"
proof -
  obtain r rs i where first: "read_first clk (clk 0 + max first 1) room (ua_reads u) 1 = (r, rs, i)"
    by (rule prod_cases3)
  then obtain got1 where r: "r = Inr got1"
    using assms(2) by (cases r) (simp_all add: read_frame_def Let_def)
  have 1: "got1 @ stream rs = stream (ua_reads u)" "length got1 \<le> room"
    using read_first_stream [OF assms(1) first [unfolded r]] by blast+
  show ?thesis
  proof (cases "got1 = []")
    case True
    then show ?thesis using assms(2) first r 1 by (auto simp: read_frame_def)
  next
    case False
    obtain q rs2 bufs where rest: "read_rest clk (clk i + max frame 1) room (ua_buffered u) got1 rs (i + 1) = (q, rs2, bufs)"
      by (rule prod_cases3)
    have "q = Inr got" "ua_reads u' = rs2"
      using assms(2) first r rest False by (auto simp: read_frame_def Let_def)
    then show ?thesis using read_rest_stream [OF rest [unfolded \<open>q = Inr got\<close>] 1(2)] 1(1) by simp
  qed
qed

end
