(* ===== verification/Rtu_Slave.thy ===== *)
theory Rtu_Slave imports Bus_Safety Modbus_Crc begin

text \<open>
  The RTU slave of \<open>src/modbus/rtu_slave.rs\<close>: a frame from the serial port is checked for
  length, address and checksum, served by the PDU handler on the register map, and answered with a
  checksummed frame.  The port itself is a driver: a step returns the frame handed to it, if any.
  The response buffer is the fixed vector of the source, which drops what does not fit.
\<close>

definition RTU_BUF_SIZE :: nat where
  "RTU_BUF_SIZE = 256"

definition vec_push :: "nat \<Rightarrow> 'a \<Rightarrow> 'a list \<Rightarrow> 'a list" where
  "vec_push cap x xs = (if length xs < cap then xs @ [x] else xs)"

definition vec_extend :: "nat \<Rightarrow> 'a list \<Rightarrow> 'a list \<Rightarrow> 'a list" where
  "vec_extend cap ys xs = (if length xs + length ys \<le> cap then xs @ ys else xs)"

definition rtu_build_response :: "bus_state \<Rightarrow> u8 \<Rightarrow> u8 \<Rightarrow> u8 list \<Rightarrow> u8 list \<times> bus_state" where
  "rtu_build_response s slave func pdu =
     (let out = vec_push RTU_BUF_SIZE slave [];
          (pdu_len, pdu_buf, s') = handle_pdu bus_backend s func pdu (replicate PDU_BUF_SIZE 0);
          out = (if pdu_len \<ge> 2 then vec_extend RTU_BUF_SIZE (take pdu_len pdu_buf) out else out);
          crc = modbus_crc16 out;
          out = vec_push RTU_BUF_SIZE (ucast crc) out;
          out = vec_push RTU_BUF_SIZE (ucast (drop_bit 8 crc)) out
      in (out, s'))"

definition with_stats :: "(rs485_stats \<Rightarrow> rs485_stats) \<Rightarrow> bus_state \<Rightarrow> bus_state" where
  "with_stats f s = s\<lparr>bus_stats := f (bus_stats s)\<rparr>"

definition handle_request :: "u8 list \<Rightarrow> u8 \<Rightarrow> nat \<Rightarrow> bus_state \<Rightarrow> u8 list option \<times> bus_state" where
  "handle_request req addr port_index s =
     (let n = length req in
      if n < 4 then (None, with_stats (inc_port_comerr port_index) s)
      else let slave = req ! 0 in
      if slave \<noteq> 0 \<and> slave \<noteq> addr then (None, s)
      else if modbus_crc16 (take (n - 2) req) \<noteq> le16 (req ! (n - 2)) (req ! (n - 1))
        then (None, with_stats (inc_port_comerr port_index) s)
      else
        let s1 = with_stats (mark_port_ok (env_now_ms (bus_env s)) port_index) s;
            (resp, s2) = rtu_build_response s1 slave (req ! 1) (slice req 2 (n - 2));
            s3 = (case get_opt resp 1 of
                    None \<Rightarrow> s2
                  | Some f \<Rightarrow> if f AND 0x80 \<noteq> 0
                      then with_stats (set_port_apperr port_index (case_option 1 id (get_opt resp 2))) s2
                      else s2)
        in (if slave = 0 then None else Some resp, s3))"

section \<open>Frames\<close>

text \<open>A frame as a master sends it and as the slave answers.\<close>

definition rtu_frame :: "u8 \<Rightarrow> u8 list \<Rightarrow> u8 list" where
  "rtu_frame slave pdu = slave # pdu @ le_bytes (modbus_crc16 (slave # pdu))"

lemma bus_wf_stats [simp]: "bus_wf (with_stats f s) = bus_wf s"
  by (simp add: bus_wf_def with_stats_def)

lemma rtu_frame_crc: "modbus_crc16 (rtu_frame slave pdu) = 0"
  using modbus_crc16_residue [of "slave # pdu"] by (simp add: rtu_frame_def)

lemma rtu_build_response_frame:
  assumes "bus_wf s"
  shows "rtu_build_response s slave func pdu =
    map_prod (rtu_frame slave) id (serve_pdu bus_backend bus_view s func pdu)"
    and "2 \<le> length (fst (serve_pdu bus_backend bus_view s func pdu))"
    and "length (fst (serve_pdu bus_backend bus_view s func pdu)) \<le> 253"
    and "bus_wf (snd (serve_pdu bus_backend bus_view s func pdu))"
proof -
  obtain n out s' where run: "handle_pdu bus_backend s func pdu (replicate PDU_BUF_SIZE 0) = (n, out, s')"
    by (rule prod_cases3)
  note * = bus.handle_pdu_refines [OF assms _ run]
  have spec: "serve_pdu bus_backend bus_view s func pdu = (take n out, s')"
    and n: "2 \<le> n" "n \<le> 253" "length out = 253" "bus_wf s'" using * by simp_all
  show "rtu_build_response s slave func pdu =
    map_prod (rtu_frame slave) id (serve_pdu bus_backend bus_view s func pdu)"
    using n by (simp add: rtu_build_response_def run [simplified] spec vec_push_def vec_extend_def RTU_BUF_SIZE_def
        rtu_frame_def le_bytes_def hi8_def lo8_def Let_def)
  show "2 \<le> length (fst (serve_pdu bus_backend bus_view s func pdu))"
    "length (fst (serve_pdu bus_backend bus_view s func pdu)) \<le> 253"
    "bus_wf (snd (serve_pdu bus_backend bus_view s func pdu))"
    using n by (simp_all add: spec)
qed

lemma handle_request_frame:
  assumes "bus_wf s" and "slave = 0 \<or> slave = addr"
    and s1: "s1 = with_stats (mark_port_ok (env_now_ms (bus_env s)) p) s"
    and r: "r = serve_pdu bus_backend bus_view s1 func pdu"
  shows "handle_request (rtu_frame slave (func # pdu)) addr p s =
    (if slave = 0 then None else Some (rtu_frame slave (fst r)),
     if fst r ! 0 AND 0x80 \<noteq> 0 then with_stats (set_port_apperr p (fst r ! 1)) (snd r) else snd r)"
proof -
  let ?f = "rtu_frame slave (func # pdu)" and ?b = "slave # func # pdu"
  have len: "length ?f = length pdu + 4" by (simp add: rtu_frame_def)
  have f: "?f = ?b @ le_bytes (modbus_crc16 ?b)" by (simp add: rtu_frame_def)
  have crc: "take (length ?f - 2) ?f = ?b" "?f ! (length ?f - 2) = lo8 (modbus_crc16 ?b)"
    "?f ! (length ?f - 1) = hi8 (modbus_crc16 ?b)"
    unfolding f by (simp_all add: le_bytes_def nth_append)
  have body: "?f ! 0 = slave" "?f ! 1 = func" "slice ?f 2 (length ?f - 2) = pdu"
    by (simp_all add: rtu_frame_def slice_def)
  have wf: "bus_wf s1" using assms(1) by (simp add: s1)
  note frame = rtu_build_response_frame(1) [OF wf, of slave func pdu, folded r]
    and len2 = rtu_build_response_frame(2) [OF wf, of func pdu, folded r]
  obtain c d rest where cons: "fst r = c # d # rest"
    using len2 by (cases "fst r" rule: list.exhaust; cases "tl (fst r)") auto
  have resp: "get_opt (rtu_frame slave (fst r)) 1 = Some c" "get_opt (rtu_frame slave (fst r)) 2 = Some d"
    by (simp_all add: cons rtu_frame_def get_opt_def numeral_2_eq_2)
  show ?thesis
    unfolding handle_request_def Let_def crc body s1 [symmetric] frame
    using assms(2) len resp by (auto simp: cons split_beta)
qed

section \<open>Correctness\<close>

text \<open>A well-formed frame addressed to this slave, or broadcast, is executed exactly as the
  abstract server executes its request; the answer is the server's response in a frame with a correct
  checksum that fits the 256-byte buffer, and a broadcast is executed without an answer.\<close>

theorem rtu_exchange_refines:
  assumes "bus_wf s" and "slave = 0 \<or> slave = addr"
    and "handle_request (rtu_frame slave (func # pdu)) addr p s = (answer, s')"
  shows "\<exists>resp t. serve_pdu bus_backend bus_view
        (with_stats (mark_port_ok (env_now_ms (bus_env s)) p) s) func pdu = (resp, t) \<and>
    answer = (if slave = 0 then None else Some (rtu_frame slave resp)) \<and>
    s' = (if resp ! 0 AND 0x80 \<noteq> 0 then with_stats (set_port_apperr p (resp ! 1)) t else t) \<and>
    modbus_crc16 (rtu_frame slave resp) = 0 \<and> length (rtu_frame slave resp) \<le> 256 \<and> bus_wf s'"
proof -
  let ?s1 = "with_stats (mark_port_ok (env_now_ms (bus_env s)) p) s"
  obtain resp t where r: "serve_pdu bus_backend bus_view ?s1 func pdu = (resp, t)" by (rule prod.exhaust)
  have wf: "bus_wf ?s1" using assms(1) by simp
  have "length resp \<le> 253" "bus_wf t"
    using rtu_build_response_frame(3,4) [OF wf, of func pdu] by (simp_all add: r)
  then show ?thesis
    using handle_request_frame [OF assms(1,2) refl r [symmetric]] assms(3) r
    by (auto simp: rtu_frame_crc) (auto simp: rtu_frame_def)
qed

theorem rtu_exchange_refines_witness:
  "\<exists>answer s'. handle_request (rtu_frame 1 [0x2B]) 1 1 (bus_start env_idle) = (answer, s') \<and>
     answer = Some (rtu_frame 1 [0xAB, 1])"
proof -
  obtain answer s' where h: "handle_request (rtu_frame 1 [0x2B]) 1 1 (bus_start env_idle) = (answer, s')"
    by (rule prod.exhaust)
  then show ?thesis
    using rtu_exchange_refines [OF bus_wf_idle _ h]
    by (auto simp: serve_pdu_def pdu_request_def respond_def ILLEGAL_FUNCTION_def)
qed

text \<open>A frame that is too short, addressed to another slave, or fails the checksum has no effect
  on the registers and gets no answer; at most it is counted as a line error.\<close>

theorem rtu_bad_frame_ignored:
  assumes "length req < 4 \<or> (req ! 0 \<noteq> 0 \<and> req ! 0 \<noteq> addr) \<or>
      modbus_crc16 (take (length req - 2) req) \<noteq> le16 (req ! (length req - 2)) (req ! (length req - 1))"
  shows "handle_request req addr p s = (None, s) \<or>
    handle_request req addr p s = (None, with_stats (inc_port_comerr p) s)"
  using assms by (auto simp: handle_request_def Let_def)

theorem rtu_bad_frame_ignored_witness:
  "handle_request [2, 3, 0, 0, 0, 1, 0, 0] 1 1 (bus_start env_idle) = (None, bus_start env_idle) \<or>
   handle_request [2, 3, 0, 0, 0, 1, 0, 0] 1 1 (bus_start env_idle) =
     (None, with_stats (inc_port_comerr 1) (bus_start env_idle))"
  by (rule rtu_bad_frame_ignored) simp

end
