(* ===== verification/Rtu_Master.thy ===== *)
theory Rtu_Master imports Sums Logic_Table Rtu_Slave Rs485_Port begin

text \<open>
  The RTU master of \<open>src/modbus/rtu_master.rs\<close>: the parser of the poll table in the device
  configuration, the request and response frames, one exchange with a slave and its retries.  The
  line is a parameter: an exchange takes what the serial port returned for the request.
\<close>

section \<open>The poll table\<close>

abbreviation (input) MAX_POLL_ITEMS :: nat where "MAX_POLL_ITEMS \<equiv> 64"

record poll_item =
  pi_port :: u8
  pi_slave :: u8
  pi_func :: u8
  pi_start :: u16
  pi_count :: u16
  pi_dest :: u16

definition item_range :: "poll_item \<Rightarrow> u16 \<times> nat" where
  "item_range item = (pi_dest item, unat (pi_count item))"

definition overlaps_item :: "u16 \<Rightarrow> u16 \<Rightarrow> poll_item \<Rightarrow> bool" where
  "overlaps_item dest_reg dest_end item \<longleftrightarrow>
     dest_reg < saturating_add (pi_dest item) (pi_count item) \<and> pi_dest item < dest_end"

definition parse_function :: "u16 list \<Rightarrow> u16 \<Rightarrow> u8 \<Rightarrow> u8 \<Rightarrow> u16 \<times> poll_item list \<Rightarrow>
    string + u16 \<times> poll_item list" where
  "parse_function words end_addr port slave ci =
     (let cursor = fst ci; items = snd ci in
      ensure (case checked_add cursor 4 of None \<Rightarrow> False | Some next \<Rightarrow> next \<le> end_addr) ''truncated function'' (
      and_then (ok_or ''missing function code'' (holding_word words cursor)) (\<lambda>func_word.
      ensure (unat func_word < 256) ''invalid function code'' (
      let func = lo8 func_word in
      ensure (1 \<le> func \<and> func \<le> 4) ''unsupported read function'' (
      and_then (ok_or ''missing slave address'' (holding_word words (cursor + 1))) (\<lambda>start_addr.
      and_then (ok_or ''missing master address'' (holding_word words (cursor + 2))) (\<lambda>dest_reg.
      and_then (ok_or ''missing register header'' (holding_word words (cursor + 3))) (\<lambda>header.
      let register_bytes = hi8 header; register_count = lo8 header in
      ensure (register_bytes \<noteq> 0 \<and> 2 dvd unat register_bytes \<and> register_count \<noteq> 0) ''invalid register layout'' (
      let cnt = ucast register_count :: u16; max_count = (if func \<le> 2 then 2000 else 125) in
      ensure (cnt \<le> max_count) ''modbus quantity out of range'' (
      ensure (result_range_is_valid dest_reg cnt) ''master result outside monitor/user areas'' (
      and_then (ok_or ''master result destination overflow'' (checked_add dest_reg cnt)) (\<lambda>dest_end.
      ensure (\<not> list_ex (overlaps_item dest_reg dest_end) items) ''overlapping master result destinations'' (
      ensure (length items < MAX_POLL_ITEMS) ''too many poll items'' (
      let items = items @ [\<lparr>pi_port = port, pi_slave = slave, pi_func = func, pi_start = start_addr,
                             pi_count = cnt, pi_dest = dest_reg\<rparr>] in
      ensure (unat register_bytes div 2 * unat cnt < 65536) ''register layout overflow'' (
      let register_words = of_nat (unat register_bytes div 2 * unat cnt) :: u16 in
      and_then (ok_or ''function offset overflow'' (checked_add cursor (4 + register_words))) (\<lambda>next.
      ensure (next \<le> end_addr) ''register metadata exceeds logic record'' (
      Inr (next, items))))))))))))))))))"

fun parse_functions :: "u16 list \<Rightarrow> u16 \<Rightarrow> u8 \<Rightarrow> u8 \<Rightarrow> nat \<Rightarrow> u16 \<times> poll_item list \<Rightarrow>
    string + u16 \<times> poll_item list" where
  "parse_functions words end_addr port slave 0 ci = Inr ci"
| "parse_functions words end_addr port slave (Suc n) ci =
     and_then (parse_function words end_addr port slave ci) (parse_functions words end_addr port slave n)"

definition parse_logic :: "u16 list \<Rightarrow> u16 \<Rightarrow> u16 \<Rightarrow> poll_item list \<Rightarrow> string + poll_item list" where
  "parse_logic words start_addr end_addr items =
     and_then (ok_or ''missing logic attribute'' (holding_word words start_addr)) (\<lambda>attribute.
     if lo8 attribute \<noteq> 2 \<and> lo8 attribute \<noteq> 4 then Inr items
     else and_then (ok_or ''missing port/slave'' (holding_word words (start_addr + 4))) (\<lambda>port_slave.
     let port = hi8 port_slave; slave = lo8 port_slave in
     ensure (1 \<le> port \<and> port \<le> 3 \<and> 1 \<le> slave \<and> slave \<le> 247) ''invalid port or slave id'' (
     and_then (ok_or ''missing function header'' (holding_word words (start_addr + 5))) (\<lambda>header.
     ensure (hi8 header = 6) ''invalid function header size'' (
     and_then (parse_functions words end_addr port slave (unat (lo8 header)) (start_addr + 6, items))
       (\<lambda>ci. Inr (snd ci)))))))"

definition parse_poll_record :: "u16 list \<Rightarrow> nat \<Rightarrow> u16 \<Rightarrow> u16 \<Rightarrow> nat \<Rightarrow> poll_item list \<Rightarrow>
    string + poll_item list" where
  "parse_poll_record words logic_count total_offset total_end logic_index items =
     (let offset_addr = HOLD_DEVICE_CONFIG + 1 + of_nat logic_index in
      and_then (ok_or ''missing logic offset'' (holding_word words offset_addr)) (\<lambda>start_offset.
      and_then (if logic_index + 1 < logic_count
                then ok_or ''missing next logic offset'' (holding_word words (offset_addr + 1))
                else Inr total_offset) (\<lambda>end_offset.
      ensure (start_offset < end_offset) ''unordered logic offsets'' (
      and_then (ok_or ''logic start overflow'' (checked_add HOLD_DEVICE_CONFIG start_offset)) (\<lambda>start_addr.
      and_then (ok_or ''logic end overflow'' (checked_add HOLD_DEVICE_CONFIG end_offset)) (\<lambda>end_addr.
      ensure (end_addr \<le> total_end \<and> 6 \<le> end_addr - start_addr) ''truncated logic header'' (
      parse_logic words start_addr end_addr items)))))))"

fun parse_poll_records :: "u16 list \<Rightarrow> nat \<Rightarrow> u16 \<Rightarrow> u16 \<Rightarrow> nat list \<Rightarrow> poll_item list \<Rightarrow>
    string + poll_item list" where
  "parse_poll_records words logic_count total_offset total_end [] items = Inr items"
| "parse_poll_records words logic_count total_offset total_end (k # ks) items =
     and_then (parse_poll_record words logic_count total_offset total_end k items)
       (parse_poll_records words logic_count total_offset total_end ks)"

definition parse_poll_table :: "u16 list \<Rightarrow> string + poll_item list" where
  "parse_poll_table words =
     and_then (ok_or ''missing logic count'' (holding_word words HOLD_DEVICE_CONFIG)) (\<lambda>count_word.
     let logic_count = unat count_word in
     if logic_count = 0 then Inr []
     else let available_words = length words - unat (HOLD_DEVICE_CONFIG - HOLD_PXX_BASE) in
     ensure (logic_count \<le> 65533 \<and> logic_count + 2 \<le> available_words) ''logic offset table too large'' (
     and_then (ok_or ''logic offset overflow'' (checked_add HOLD_DEVICE_CONFIG (count_word + 1))) (\<lambda>total_offset_addr.
     and_then (ok_or ''missing logic end offset'' (holding_word words total_offset_addr)) (\<lambda>total_offset.
     and_then (ok_or ''logic end overflow'' (checked_add HOLD_DEVICE_CONFIG total_offset)) (\<lambda>total_end.
     ensure (count_word + 2 \<le> total_offset \<and> total_end \<le> HOLD_USER_BASE) ''invalid logic end offset'' (
     parse_poll_records words logic_count total_offset total_end [0..<logic_count] []))))))"

text \<open>The summary a configuration client is told.\<close>

record poll_config_summary =
  sum_logic_count :: nat
  sum_poll_item_count :: nat
  sum_active_port_item_count :: nat

definition validate_poll_config :: "u16 list \<Rightarrow> string + poll_config_summary" where
  "validate_poll_config words =
     and_then (ok_or ''missing logic count'' (holding_word words HOLD_DEVICE_CONFIG)) (\<lambda>logic_count.
     and_then (parse_poll_table words) (\<lambda>items.
     Inr \<lparr>sum_logic_count = unat logic_count, sum_poll_item_count = length items,
          sum_active_port_item_count = length (filter (\<lambda>item. pi_port item = 1) items)\<rparr>))"

section \<open>Frames\<close>

definition build_request :: "poll_item \<Rightarrow> u8 list" where
  "build_request item =
     (let req = [pi_slave item, pi_func item] @ be_bytes (pi_start item) @ be_bytes (pi_count item)
      in req @ le_bytes (modbus_crc16 req))"

definition expected_payload :: "poll_item \<Rightarrow> nat" where
  "expected_payload item =
     (if pi_func item \<le> 2 then div_ceil (unat (pi_count item)) 8 else unat (pi_count item) * 2)"

definition expected_response_len :: "poll_item \<Rightarrow> nat" where
  "expected_response_len item = expected_payload item + 5"

datatype poll_error =
  PollTimeout | PollEmpty | PollShort nat | PollSlaveMismatch u8 u8 | PollCrcMismatch u16 u16
| PollExceptionLength nat | PollException u8 | PollFunctionMismatch u8 u8
| PollMissingByteCount | PollInvalidPayload nat nat nat | PollTooLarge | PollUnknown

definition response_data :: "u8 list \<Rightarrow> poll_item \<Rightarrow> poll_error + u8 list" where
  "response_data resp item =
     and_then (ok_or PollMissingByteCount (get_opt resp 2)) (\<lambda>declared.
     let byte_count = unat declared; expected = expected_payload item in
     ensure (byte_count = expected \<and> length resp = byte_count + 5)
       (PollInvalidPayload byte_count expected (length resp)) (Inr (slice resp 3 (3 + byte_count))))"

text \<open>Registers are whole byte pairs; bit data is packed into words with a zero for a missing low byte.\<close>

fun exact_words :: "u8 list \<Rightarrow> u16 list" where
  "exact_words (a # b # rest) = be16 a b # exact_words rest"
| "exact_words _ = []"

fun chunk_words :: "u8 list \<Rightarrow> u16 list" where
  "chunk_words (a # b # rest) = be16 a b # chunk_words rest"
| "chunk_words [a] = [be16 a 0]"
| "chunk_words [] = []"

section \<open>One exchange\<close>

datatype line_reply = LineError | LineFrame "u8 list"

definition with_results :: "(result_area \<Rightarrow> result_area) \<Rightarrow> bus_state \<Rightarrow> bus_state" where
  "with_results f s = s\<lparr>bus_results := f (bus_results s)\<rparr>"

definition stats_port :: "poll_item \<Rightarrow> nat" where
  "stats_port item = unat (pi_port item) - 1"

definition comerr :: "poll_item \<Rightarrow> poll_error \<Rightarrow> bus_state \<Rightarrow> (poll_error + unit) \<times> bus_state" where
  "comerr item e s = (Inl e, with_stats (inc_port_comerr (stats_port item)) s)"

definition port_ok :: "poll_item \<Rightarrow> bus_state \<Rightarrow> bus_state" where
  "port_ok item s = with_stats (mark_port_ok (env_now_ms (bus_env s)) (stats_port item)) s"

definition store_payload :: "poll_item \<Rightarrow> u8 list \<Rightarrow> (u8 list \<Rightarrow> u16 list) \<Rightarrow> bus_state \<Rightarrow>
    (poll_error + unit) \<times> bus_state" where
  "store_payload item resp words s =
     (case response_data resp item of
        Inl e \<Rightarrow> (Inl e, with_stats (inc_port_apperr (stats_port item)) s)
      | Inr data \<Rightarrow>
          if length (words data) > 128 then (Inl PollTooLarge, s)
          else (Inr (), with_results (write_result (item_range item) (words data)) s))"

definition accept_response :: "poll_item \<Rightarrow> u8 list \<Rightarrow> bus_state \<Rightarrow> (poll_error + unit) \<times> bus_state" where
  "accept_response item resp s =
     (let s = port_ok item s;
          (r, s) = (if pi_func item = 3 \<or> pi_func item = 4 then store_payload item resp exact_words s
                    else if pi_func item = 1 \<or> pi_func item = 2 then store_payload item resp chunk_words s
                    else (Inr (), s))
      in case r of Inl e \<Rightarrow> (Inl e, s) | Inr _ \<Rightarrow> (Inr (), port_ok item s))"

definition poll_once :: "poll_item \<Rightarrow> line_reply \<Rightarrow> bus_state \<Rightarrow> (poll_error + unit) \<times> bus_state" where
  "poll_once item reply s =
     (case reply of
        LineError \<Rightarrow> comerr item PollTimeout s
      | LineFrame resp \<Rightarrow>
          let n = length resp in
          if n = 0 then comerr item PollEmpty s
          else if n < 5 then comerr item (PollShort n) s
          else if resp ! 0 \<noteq> pi_slave item then comerr item (PollSlaveMismatch (resp ! 0) (pi_slave item)) s
          else let crc = modbus_crc16 (take (n - 2) resp); recv_crc = le16 (resp ! (n - 2)) (resp ! (n - 1)) in
          if crc \<noteq> recv_crc then comerr item (PollCrcMismatch crc recv_crc) s
          else if resp ! 1 = pi_func item OR 0x80 then
            if n \<noteq> 5 then comerr item (PollExceptionLength n) s
            else (Inl (PollException (resp ! 2)),
                  with_stats (set_port_apperr (stats_port item) (resp ! 2)) (port_ok item s))
          else if resp ! 1 \<noteq> pi_func item
            then comerr item (PollFunctionMismatch (resp ! 1) (pi_func item)) s
          else accept_response item resp s)"

text \<open>What the port is asked for in an attempt: the request and how long to wait for a first byte and
  for the frame.\<close>

record exchange =
  ex_request :: "u8 list"
  ex_first_ms :: nat
  ex_frame_ms :: nat

abbreviation (input) FIRST_BYTE_TIMEOUT_MS :: nat where "FIRST_BYTE_TIMEOUT_MS \<equiv> 250"

definition poll_exchange :: "wire_config \<Rightarrow> poll_item \<Rightarrow> nat \<Rightarrow> exchange" where
  "poll_exchange port item timeout_ms =
     (let req = build_request item in
      \<lparr>ex_request = req, ex_first_ms = clamp 1 FIRST_BYTE_TIMEOUT_MS timeout_ms,
       ex_frame_ms = transaction_timeout_ms port (length req) (expected_response_len item) timeout_ms\<rparr>)"

text \<open>The attempts of one poll.  \<open>dev\<close> is what the line answers in an attempt, counted from zero.\<close>

fun poll_attempts :: "poll_item \<Rightarrow> exchange \<Rightarrow> (nat \<Rightarrow> exchange \<Rightarrow> line_reply) \<Rightarrow> nat \<Rightarrow> nat \<Rightarrow>
    poll_error option \<Rightarrow> bus_state \<Rightarrow> (poll_error + unit) \<times> bus_state" where
  "poll_attempts item x dev attempt 0 last_err s =
     (Inl (case last_err of None \<Rightarrow> PollUnknown | Some e \<Rightarrow> e), s)"
| "poll_attempts item x dev attempt (Suc n) last_err s =
     (case poll_once item (dev attempt x) s of
        (Inr _, s) \<Rightarrow> (Inr (), s)
      | (Inl e, s) \<Rightarrow> poll_attempts item x dev (attempt + 1) n (Some e) s)"

definition poll_with_retry :: "wire_config \<Rightarrow> poll_item \<Rightarrow> nat \<Rightarrow> nat \<Rightarrow> (nat \<Rightarrow> exchange \<Rightarrow> line_reply) \<Rightarrow>
    bus_state \<Rightarrow> (poll_error + unit) \<times> bus_state" where
  "poll_with_retry port item max_retry timeout_ms dev s =
     poll_attempts item (poll_exchange port item timeout_ms) dev 0 (max_retry + 1) None s"

lemma ucast_u8_le: "(ucast (b :: u8) :: u16) \<le> 255"
  using unat_u8_less [of b] by (simp add: word_le_nat_alt unsigned_ucast_eq take_bit_nat_eq_self)

section \<open>What the parser accepts\<close>

definition poll_item_ok :: "poll_item \<Rightarrow> bool" where
  "poll_item_ok item \<longleftrightarrow>
     1 \<le> pi_port item \<and> pi_port item \<le> 3 \<and> 1 \<le> pi_slave item \<and> pi_slave item \<le> 247 \<and>
     1 \<le> pi_func item \<and> pi_func item \<le> 4 \<and> (2 < pi_func item \<longrightarrow> pi_count item \<le> 125) \<and>
     pi_count item \<le> 255 \<and> result_range_is_valid (pi_dest item) (pi_count item)"

definition disjoint_items :: "poll_item \<Rightarrow> poll_item \<Rightarrow> bool" where
  "disjoint_items a b \<longleftrightarrow>
     unat (pi_dest a) + unat (pi_count a) \<le> unat (pi_dest b) \<or>
     unat (pi_dest b) + unat (pi_count b) \<le> unat (pi_dest a)"

lemma disjoint_items_sym: "disjoint_items a b \<Longrightarrow> disjoint_items b a"
  by (auto simp: disjoint_items_def)

definition poll_table_ok :: "poll_item list \<Rightarrow> bool" where
  "poll_table_ok items \<longleftrightarrow> length items \<le> 64 \<and> list_all poll_item_ok items \<and> sorted_wrt disjoint_items items"

lemma result_range_valid_nat:
  assumes "result_range_is_valid a c"
  shows "c \<noteq> 0" and "unat a + unat c \<le> 128 \<or> 4000 \<le> unat a \<and> unat a + unat c \<le> 4224"
proof -
  show c: "c \<noteq> 0" using assms by (auto simp: result_range_is_valid_def)
  then have c1: "unat (c - 1) = unat c - 1" "0 < unat c"
    by (simp_all add: unat_minus_one unat_gt_0)
  obtain l where l: "unat l = unat a + (unat c - 1)" "result_index a \<noteq> None" "result_index l \<noteq> None"
    "the (result_index l) - the (result_index a) + 1 = unat c"
    using assms c c1 by (auto simp: result_range_is_valid_def checked_add_Some_iff split: option.splits)
  then show "unat a + unat c \<le> 128 \<or> 4000 \<le> unat a \<and> unat a + unat c \<le> 4224"
    using c1 by (auto simp: result_index_nat split: if_splits)
qed

lemma poll_item_range:
  assumes "poll_item_ok item"
  obtains i where "result_index (pi_dest item) = Some i" "i + unat (pi_count item) \<le> 352"
    "\<And>k. k < unat (pi_count item) \<Longrightarrow> result_index (pi_dest item + of_nat k) = Some (i + k)"
proof -
  note v = result_range_valid_nat [of "pi_dest item" "pi_count item"]
  have r: "unat (pi_dest item) + unat (pi_count item) \<le> 128 \<or>
      4000 \<le> unat (pi_dest item) \<and> unat (pi_dest item) + unat (pi_count item) \<le> 4224"
    and c: "0 < unat (pi_count item)"
    using v assms by (auto simp: poll_item_ok_def unat_gt_0)
  define i where "i = (if unat (pi_dest item) < 128 then unat (pi_dest item) else unat (pi_dest item) - 3872)"
  have off: "unat (pi_dest item + of_nat k) = unat (pi_dest item) + k" if "k < unat (pi_count item)" for k
    using r that by (intro unat_add_of_nat) auto
  show ?thesis
    by (rule that [of i]) (use r c off in \<open>auto simp: result_index_nat i_def\<close>)
qed

lemma poll_item_range_ok: "poll_item_ok item \<Longrightarrow> range_ok (item_range item)"
  by (metis poll_item_range item_range_def range_ok_def fst_conv snd_conv)

lemma parse_function_pushes:
  assumes "parse_function words end_addr port slave ci = Inr ci'"
  obtains item dest_end where "snd ci' = snd ci @ [item]" "length (snd ci) < 64"
    "pi_port item = port" "pi_slave item = slave" "1 \<le> pi_func item" "pi_func item \<le> 4"
    "pi_count item \<le> 255" "2 < pi_func item \<longrightarrow> pi_count item \<le> 125"
    "result_range_is_valid (pi_dest item) (pi_count item)"
    "unat dest_end = unat (pi_dest item) + unat (pi_count item)"
    "\<not> list_ex (overlaps_item (pi_dest item) dest_end) (snd ci)"
proof -
  from assms obtain func start_addr dest_reg cnt dest_end :: u16 and b :: u8 where
    r: "length (snd ci) < 64" "1 \<le> lo8 func" "lo8 func \<le> 4" "cnt = ucast b"
      "cnt \<le> (if lo8 func \<le> 2 then 2000 else 125)" "result_range_is_valid dest_reg cnt"
      "checked_add dest_reg cnt = Some dest_end" "\<not> list_ex (overlaps_item dest_reg dest_end) (snd ci)"
      "snd ci' = snd ci @ [\<lparr>pi_port = port, pi_slave = slave, pi_func = lo8 func, pi_start = start_addr,
                             pi_count = cnt, pi_dest = dest_reg\<rparr>]"
    unfolding parse_function_def Let_def ensure_simps and_then_simps ok_or_simps
    by - (elim exE conjE, drule sum.inject(2) [THEN iffD1], hypsubst, unfold prod.sel, blast)
  show ?thesis
    by (rule that [OF r(9)]) (use r ucast_u8_le in \<open>auto simp: checked_add_Some_iff not_less split: if_splits\<close>)
qed

lemma parse_function_ok:
  assumes run: "parse_function words end_addr port slave ci = Inr ci'"
    and "1 \<le> port" "port \<le> 3" "1 \<le> slave" "slave \<le> 247" and ok: "poll_table_ok (snd ci)"
  shows "poll_table_ok (snd ci')"
proof -
  obtain i dest_end where item: "snd ci' = snd ci @ [i]" "length (snd ci) < 64"
    "pi_port i = port" "pi_slave i = slave" "1 \<le> pi_func i" "pi_func i \<le> 4"
    "pi_count i \<le> 255" "2 < pi_func i \<longrightarrow> pi_count i \<le> 125" "result_range_is_valid (pi_dest i) (pi_count i)"
    and de: "unat dest_end = unat (pi_dest i) + unat (pi_count i)"
      "\<not> list_ex (overlaps_item (pi_dest i) dest_end) (snd ci)"
    by (rule parse_function_pushes [OF run])
  have i: "poll_item_ok i" using item(3-9) assms(2-5) by (simp add: poll_item_ok_def)
  have "disjoint_items x i" if x: "x \<in> set (snd ci)" for x
  proof -
    have "poll_item_ok x" using ok x by (simp add: poll_table_ok_def list_all_iff)
    then have "unat (saturating_add (pi_dest x) (pi_count x)) = unat (pi_dest x) + unat (pi_count x)"
      using result_range_valid_nat [of "pi_dest x" "pi_count x"]
      by (auto simp: poll_item_ok_def unat_saturating_add)
    moreover have "\<not> overlaps_item (pi_dest i) dest_end x" using de(2) x by (auto simp: list_ex_iff)
    ultimately show ?thesis using de(1)
      by (auto simp: overlaps_item_def disjoint_items_def word_less_nat_alt)
  qed
  then show ?thesis
    using ok i item(2) unfolding poll_table_ok_def item(1)
    by (auto simp: sorted_wrt_append)
qed

lemma parse_functions_ok:
  assumes "1 \<le> port" "port \<le> 3" "1 \<le> slave" "slave \<le> 247"
  shows "parse_functions words end_addr port slave n ci = Inr ci' \<Longrightarrow> poll_table_ok (snd ci) \<Longrightarrow>
    poll_table_ok (snd ci')"
proof (induction n arbitrary: ci)
  case (Suc n)
  then obtain ci1 where "parse_function words end_addr port slave ci = Inr ci1"
    "parse_functions words end_addr port slave n ci1 = Inr ci'" by auto
  then show ?case using Suc.IH Suc.prems(2) parse_function_ok [OF _ assms] by blast
qed simp

lemma parse_logic_ok:
  assumes "parse_logic words start_addr end_addr items = Inr items'" and "poll_table_ok items"
  shows "poll_table_ok items'"
  using assms parse_functions_ok
  by (fastforce simp: parse_logic_def Let_def split: if_splits)

lemma parse_poll_record_ok:
  assumes "parse_poll_record words cnt total_offset total_end k items = Inr items'" and "poll_table_ok items"
  shows "poll_table_ok items'"
  using assms(1) parse_logic_ok [OF _ assms(2)] by (auto simp: parse_poll_record_def Let_def)

lemma parse_poll_records_ok:
  "parse_poll_records words cnt total_offset total_end ks items = Inr items' \<Longrightarrow> poll_table_ok items \<Longrightarrow>
    poll_table_ok items'"
  by (induction ks arbitrary: items) (auto dest: parse_poll_record_ok)

lemma poll_table_ok_Nil: "poll_table_ok []"
  by (simp add: poll_table_ok_def)

lemma parse_poll_table_ok: "parse_poll_table words = Inr items \<Longrightarrow> poll_table_ok items"
  by (auto simp: parse_poll_table_def Let_def poll_table_ok_Nil split: if_splits
      dest: parse_poll_records_ok [OF _ poll_table_ok_Nil])

section \<open>What a poll accepts\<close>

text \<open>The data of a well-formed response to the request of an item: the frame of the slave with the
  function, the byte count, as many data bytes as were asked for, and a correct checksum.\<close>

definition answer_data :: "poll_item \<Rightarrow> line_reply \<Rightarrow> u8 list option" where
  "answer_data item reply =
     (case reply of LineError \<Rightarrow> None
      | LineFrame resp \<Rightarrow>
          let data = slice resp 3 (length resp - 2) in
          if resp = rtu_frame (pi_slave item) (pi_func item # of_nat (length data) # data) \<and>
             length data = expected_payload item \<and> expected_payload item < 256
          then Some data else None)"

definition poll_words :: "poll_item \<Rightarrow> u8 list \<Rightarrow> u16 list" where
  "poll_words item data = (if pi_func item \<le> 2 then chunk_words data else exact_words data)"

lemma length_words: "length (exact_words data) = length data div 2" "length (chunk_words data) = div_ceil (length data) 2"
proof -
  show "length (exact_words data) = length data div 2" by (induction data rule: exact_words.induct) auto
  show "length (chunk_words data) = div_ceil (length data) 2"
    by (induction data rule: chunk_words.induct) (auto simp: div_ceil_def)
qed

lemma rtu_frame_parts:
  "length (rtu_frame a pdu) = length pdu + 3" "rtu_frame a pdu ! 0 = a"
  "0 < length pdu \<Longrightarrow> rtu_frame a pdu ! Suc 0 = pdu ! 0"
  by (simp_all add: rtu_frame_def nth_append)

lemma frame_intro:
  assumes "5 \<le> length resp" and "modbus_crc16 (take (length resp - 2) resp) = le16 (resp ! (length resp - 2)) (resp ! (length resp - 1))"
  shows "resp = rtu_frame (resp ! 0) (resp ! 1 # resp ! 2 # slice resp 3 (length resp - 2))"
proof -
  let ?n = "length resp"
  have body: "take (?n - 2) resp = resp ! 0 # resp ! 1 # resp ! 2 # slice resp 3 (?n - 2)"
  proof -
    obtain a b c d e rest where "resp = a # b # c # d # e # rest"
      using assms(1) by (auto simp: Suc_le_length_iff numeral_eq_Suc)
    then show ?thesis by (simp add: slice_def numeral_2_eq_2 numeral_3_eq_3)
  qed
  have tail: "drop (?n - 2) resp = [resp ! (?n - 2), resp ! (?n - 1)]"
    using assms(1) by (intro nth_equalityI) (auto simp: nth_Cons' less_2_cases_iff)
  have "le_bytes (modbus_crc16 (take (?n - 2) resp)) = [resp ! (?n - 2), resp ! (?n - 1)]"
    unfolding assms(2) by (simp add: le_bytes_def le16_def)
  then have "resp = take (?n - 2) resp @ le_bytes (modbus_crc16 (take (?n - 2) resp))"
    using tail append_take_drop_id [of "?n - 2" resp] by simp
  then show ?thesis unfolding rtu_frame_def body by simp
qed

lemma expected_payload_small: "poll_item_ok item \<Longrightarrow> expected_payload item < 256"
  using unat_u16_less [of "pi_count item"]
  by (auto simp: poll_item_ok_def expected_payload_def div_ceil_def word_le_nat_alt not_le word_less_nat_alt)

lemma poll_func_cases: "poll_item_ok item \<Longrightarrow> pi_func item \<in> {1, 2, 3, 4}"
proof -
  assume "poll_item_ok item"
  then have "1 \<le> unat (pi_func item)" "unat (pi_func item) \<le> 4" by (auto simp: poll_item_ok_def word_le_nat_alt)
  then have "unat (pi_func item) \<in> {unat (1::u8), unat (2::u8), unat (3::u8), unat (4::u8)}" by auto
  then show ?thesis unfolding insert_iff word_unat_eq_iff by simp
qed

lemma poll_words_short:
  assumes "poll_item_ok item" and "length data = expected_payload item"
  shows "length (poll_words item data) \<le> unat (pi_count item)" "length (poll_words item data) \<le> 128"
  using assms by (auto simp: poll_words_def length_words expected_payload_def div_ceil_def poll_item_ok_def
      word_le_nat_alt not_le word_less_nat_alt)

lemma store_payload_eq:
  assumes "poll_item_ok item"
  shows "(if pi_func item = 3 \<or> pi_func item = 4 then store_payload item resp exact_words s
          else if pi_func item = 1 \<or> pi_func item = 2 then store_payload item resp chunk_words s
          else (Inr (), s)) = store_payload item resp (poll_words item) s"
proof -
  have "poll_words item = (if pi_func item \<le> 2 then chunk_words else exact_words)"
    by (auto simp: poll_words_def fun_eq_iff)
  then show ?thesis using poll_func_cases [OF assms] by auto
qed

lemma answer_data_frame:
  assumes "length data = expected_payload item" "expected_payload item < 256"
  shows "answer_data item (LineFrame (rtu_frame (pi_slave item) (pi_func item # of_nat (length data) # data))) = Some data"
proof -
  let ?f = "rtu_frame (pi_slave item) (pi_func item # of_nat (length data) # data)"
  have "slice ?f 3 (length ?f - 2) = data" by (simp add: rtu_frame_def slice_def)
  then show ?thesis using assms by (simp add: answer_data_def)
qed

lemma answer_data_Some:
  "answer_data item reply = Some data \<longleftrightarrow>
     reply = LineFrame (rtu_frame (pi_slave item) (pi_func item # of_nat (length data) # data)) \<and>
     length data = expected_payload item \<and> expected_payload item < 256"
proof
  assume a: "answer_data item reply = Some data"
  then obtain resp where reply: "reply = LineFrame resp" by (cases reply) (auto simp: answer_data_def)
  with a have "data = slice resp 3 (length resp - 2)"
    "resp = rtu_frame (pi_slave item) (pi_func item # of_nat (length (slice resp 3 (length resp - 2))) # slice resp 3 (length resp - 2))"
    "length (slice resp 3 (length resp - 2)) = expected_payload item" "expected_payload item < 256"
    by (simp_all only: answer_data_def Let_def line_reply.case split: if_splits) simp_all
  then show "reply = LineFrame (rtu_frame (pi_slave item) (pi_func item # of_nat (length data) # data)) \<and>
     length data = expected_payload item \<and> expected_payload item < 256" unfolding reply by metis
next
  assume r: "reply = LineFrame (rtu_frame (pi_slave item) (pi_func item # of_nat (length data) # data)) \<and>
     length data = expected_payload item \<and> expected_payload item < 256"
  show "answer_data item reply = Some data"
    by (subst r [THEN conjunct1], rule answer_data_frame) (use r in blast)+
qed

lemma response_data_frame:
  assumes "resp = rtu_frame (pi_slave item) (pi_func item # d # data)"
  shows "response_data resp item =
    (if unat d = expected_payload item \<and> length data = unat d then Inr data
     else Inl (PollInvalidPayload (unat d) (expected_payload item) (length data + 5)))"
proof -
  have "get_opt resp 2 = Some d" "length resp = length data + 5" "length data = unat d \<Longrightarrow> slice resp 3 (3 + unat d) = data"
    unfolding assms by (simp_all add: get_opt_def rtu_frame_def slice_def numeral_2_eq_2 numeral_3_eq_3)
  then show ?thesis by (auto simp: response_data_def ensure_def Let_def)
qed

lemma exception_function: "poll_item_ok item \<Longrightarrow> pi_func item \<noteq> pi_func item OR 0x80"
  using poll_func_cases [of item] by auto

text \<open>A poll succeeds exactly on a well-formed response, whose words it publishes; otherwise it only
  changes the link status.\<close>

lemma poll_once_answer:
  assumes ok: "poll_item_ok item" and a: "answer_data item reply = Some data"
  shows "poll_once item reply s =
    (Inr (), port_ok item (with_results (write_result (item_range item) (poll_words item data)) (port_ok item s)))"
proof -
  let ?d = "of_nat (length data) :: u8"
  let ?f = "rtu_frame (pi_slave item) (pi_func item # ?d # data)"
  have r: "reply = LineFrame ?f" and len: "length data = expected_payload item" "expected_payload item < 256"
    using a by (simp_all only: answer_data_Some)
  have d: "unat ?d = length data" using len by (simp add: unat_of_nat)
  have n: "length ?f = length data + 5" by (simp add: rtu_frame_parts)
  have crc: "take (length ?f - 2) ?f = pi_slave item # pi_func item # ?d # data"
    "le16 (?f ! (length ?f - 2)) (?f ! (length ?f - 1)) = modbus_crc16 (pi_slave item # pi_func item # ?d # data)"
    unfolding n by (simp_all add: rtu_frame_def nth_append le_bytes_def numeral_3_eq_3)
  have "store_payload item ?f (poll_words item) t =
    (Inr (), with_results (write_result (item_range item) (poll_words item data)) t)" for t
    using len d poll_words_short(2) [OF ok len(1)]
    by (simp add: store_payload_def response_data_frame [OF refl])
  then have acc: "accept_response item ?f s =
    (Inr (), port_ok item (with_results (write_result (item_range item) (poll_words item data)) (port_ok item s)))"
    unfolding accept_response_def store_payload_eq [OF ok] by simp
  show ?thesis
    unfolding r poll_once_def line_reply.case Let_def unfolding crc unfolding n
    using exception_function [OF ok] by (simp add: rtu_frame_parts acc)
qed

definition same_but_stats :: "bus_state \<Rightarrow> bus_state \<Rightarrow> bool" where
  "same_but_stats s t \<longleftrightarrow> (\<exists>st. t = s\<lparr>bus_stats := st\<rparr>)"

lemma same_but_stats_intros [intro, simp]:
  "same_but_stats s s" "same_but_stats s (with_stats f s)"
  "same_but_stats s t \<Longrightarrow> same_but_stats s (with_stats f t)" "same_but_stats s (port_ok item s)"
  "same_but_stats s t \<Longrightarrow> same_but_stats s (port_ok item t)"
  by (auto simp: same_but_stats_def with_stats_def port_ok_def) (metis bus_state.surjective bus_state.update_convs(6))

lemma same_but_stats_trans: "same_but_stats s t \<Longrightarrow> same_but_stats t u \<Longrightarrow> same_but_stats s u"
  by (auto simp: same_but_stats_def)

lemma poll_once_no_answer:
  assumes ok: "poll_item_ok item" and a: "answer_data item reply = None"
  obtains e t where "poll_once item reply s = (Inl e, t)" "same_but_stats s t"
proof (cases reply)
  case (LineFrame resp)
  show ?thesis
  proof (cases "5 \<le> length resp \<and> resp ! 0 = pi_slave item \<and> resp ! 1 = pi_func item \<and>
      modbus_crc16 (take (length resp - 2) resp) = le16 (resp ! (length resp - 2)) (resp ! (length resp - 1))")
    case True
    let ?d = "resp ! 2" and ?data = "slice resp 3 (length resp - 2)"
    have f: "resp = rtu_frame (pi_slave item) (pi_func item # ?d # ?data)"
      using frame_intro [of resp] True by metis
    have "\<not> (unat ?d = expected_payload item \<and> length ?data = unat ?d)"
    proof
      assume d: "unat ?d = expected_payload item \<and> length ?data = unat ?d"
      have "of_nat (unat ?d) = ?d" by simp
      then have "of_nat (length ?data) = ?d" unfolding d [THEN conjunct2] .
      then have "answer_data item (LineFrame resp) = Some ?data"
        unfolding answer_data_Some using f expected_payload_small [OF ok] d by auto
      then show False using a LineFrame by simp
    qed
    then have "response_data resp item = Inl (PollInvalidPayload (unat ?d) (expected_payload item) (length ?data + 5))"
      using response_data_frame [OF f] by metis
    then have "accept_response item resp s =
      (Inl (PollInvalidPayload (unat ?d) (expected_payload item) (length ?data + 5)),
       with_stats (inc_port_apperr (stats_port item)) (port_ok item s))"
      unfolding accept_response_def store_payload_eq [OF ok] by (simp add: store_payload_def)
    moreover have "poll_once item reply s = accept_response item resp s"
      using True exception_function [OF ok] by (auto simp: poll_once_def LineFrame Let_def)
    ultimately show ?thesis using that by simp
  next
    case False
    then have "\<exists>e t. poll_once item reply s = (Inl e, t) \<and> same_but_stats s t"
      by (auto simp: poll_once_def LineFrame Let_def comerr_def not_le)
    then show ?thesis using that by blast
  qed
qed (use that in \<open>simp add: poll_once_def comerr_def\<close>)

text \<open>The first attempt that gets a well-formed response decides the poll.\<close>

definition first_answer :: "poll_item \<Rightarrow> exchange \<Rightarrow> (nat \<Rightarrow> exchange \<Rightarrow> line_reply) \<Rightarrow> nat list \<Rightarrow> u8 list option" where
  "first_answer item x dev ks =
     (case List.map_filter (\<lambda>k. answer_data item (dev k x)) ks of
        [] \<Rightarrow> None | data # _ \<Rightarrow> Some data)"

lemma first_answer_Cons:
  "first_answer item x dev (k # ks) =
     (case answer_data item (dev k x) of None \<Rightarrow> first_answer item x dev ks | Some d \<Rightarrow> Some d)"
  by (simp add: first_answer_def split: option.split)

lemma poll_attempts_answer:
  assumes "poll_item_ok item"
  shows "(case first_answer item x dev [k..<k + n] of
      None \<Rightarrow> \<exists>e t. poll_attempts item x dev k n le s = (Inl e, t) \<and> same_but_stats s t
    | Some data \<Rightarrow> \<exists>t u. poll_attempts item x dev k n le s = (Inr (), u) \<and> same_but_stats s t \<and>
        same_but_stats (with_results (write_result (item_range item) (poll_words item data)) t) u)"
proof (induction n arbitrary: k le s)
  case 0
  then show ?case by (simp add: first_answer_def)
next
  case (Suc n)
  have upt: "[k..<k + Suc n] = k # [Suc k..<Suc k + n]" by (simp add: upt_rec)
  show ?case
  proof (cases "answer_data item (dev k x)")
    case None
    obtain e t where t: "poll_once item (dev k x) s = (Inl e, t)" "same_but_stats s t"
      by (rule poll_once_no_answer [OF assms None])
    have step: "poll_attempts item x dev k (Suc n) le s = poll_attempts item x dev (Suc k) n (Some e) t"
      by (simp add: t(1))
    note ih = Suc.IH [of "Suc k" "Some e" t] and trans = same_but_stats_trans [OF t(2)]
    show ?thesis
    proof (cases "first_answer item x dev [Suc k..<Suc k + n]")
      case n: None
      show ?thesis using ih trans unfolding upt first_answer_Cons \<open>answer_data _ _ = None\<close> step n option.case by blast
    next
      case (Some d)
      show ?thesis using ih trans unfolding upt first_answer_Cons \<open>answer_data _ _ = None\<close> step Some option.case by blast
    qed
  next
    case (Some data)
    show ?thesis
      unfolding upt first_answer_Cons Some poll_attempts.simps poll_once_answer [OF assms Some]
      by (auto intro!: exI [of _ "port_ok item s"])
  qed
qed

lemma poll_with_retry_answer:
  assumes "poll_item_ok item"
  shows "(case first_answer item (poll_exchange port item timeout_ms) dev [0..<Suc n] of
      None \<Rightarrow> \<exists>e t. poll_with_retry port item n timeout_ms dev s = (Inl e, t) \<and> same_but_stats s t
    | Some data \<Rightarrow> \<exists>t u. poll_with_retry port item n timeout_ms dev s = (Inr (), u) \<and> same_but_stats s t \<and>
        same_but_stats (with_results (write_result (item_range item) (poll_words item data)) t) u)"
  using poll_attempts_answer [OF assms, of "poll_exchange port item timeout_ms" dev 0 "Suc n" None s] unfolding poll_with_retry_def add_0 Suc_eq_plus1 .

lemma poll_port_cases: "poll_item_ok item \<Longrightarrow> pi_port item \<in> {1, 2, 3}"
proof -
  assume "poll_item_ok item"
  then have "1 \<le> unat (pi_port item)" "unat (pi_port item) \<le> 3" by (auto simp: poll_item_ok_def word_le_nat_alt)
  then have "unat (pi_port item) \<in> {unat (1::u8), unat (2::u8), unat (3::u8)}" by auto
  then show ?thesis unfolding insert_iff word_unat_eq_iff by simp
qed

lemma poll_item_bounds:
  assumes "poll_item_ok item"
  shows "1 \<le> pi_slave item" "pi_slave item \<le> 247" "0 < unat (pi_count item)" "unat (pi_count item) \<le> 255"
    "pi_func item \<in> {3, 4} \<longrightarrow> unat (pi_count item) \<le> 125"
  using assms result_range_valid_nat(1) [of "pi_dest item" "pi_count item"]
  by (auto simp: poll_item_ok_def word_le_nat_alt unat_gt_0)

lemma poll_dest_offset:
  "poll_item_ok item \<Longrightarrow> k < unat (pi_count item) \<Longrightarrow> unat (pi_dest item + of_nat k) = unat (pi_dest item) + k"
  using result_range_valid_nat(2) [of "pi_dest item" "pi_count item"]
  by (intro unat_add_of_nat) (auto simp: poll_item_ok_def)

lemma poll_dest_inverse:
  assumes "poll_item_ok item" "result_index (pi_dest item) = Some i" "result_index a = Some j"
    "i \<le> j" "j < i + unat (pi_count item)"
  shows "a = pi_dest item + of_nat (j - i)"
proof -
  obtain i' where i': "result_index (pi_dest item) = Some i'"
    "\<And>k. k < unat (pi_count item) \<Longrightarrow> result_index (pi_dest item + of_nat k) = Some (i' + k)"
    by (rule poll_item_range [OF assms(1)]) blast
  then have "result_index (pi_dest item + of_nat (j - i)) = Some j"
    using assms(2,4,5) i'(2) [of "j - i"] by auto
  then show ?thesis by (rule result_index_inject [OF assms(3)])
qed

lemma read_after_item:
  assumes "poll_item_ok item" "area_wf area" and len: "length ws \<le> unat (pi_count item)"
  shows "k < unat (pi_count item) \<Longrightarrow> read_result_reg area (pi_dest item + of_nat k) \<noteq> None \<Longrightarrow>
      read_result_reg (write_result (item_range item) ws area) (pi_dest item + of_nat k) =
        (if k < length ws then Some (ws ! k) else read_result_reg area (pi_dest item + of_nat k))"
    and "\<forall>k<unat (pi_count item). a \<noteq> pi_dest item + of_nat k \<Longrightarrow>
      read_result_reg (write_result (item_range item) ws area) a = read_result_reg area a"
proof -
  obtain i where i: "result_index (pi_dest item) = Some i"
    "\<And>k. k < unat (pi_count item) \<Longrightarrow> result_index (pi_dest item + of_nat k) = Some (i + k)"
    by (rule poll_item_range [OF assms(1)]) blast
  have r: "result_index (fst (item_range item)) = Some i" "snd (item_range item) = unat (pi_count item)"
    using i(1) by (simp_all add: item_range_def)
  note read = read_after_write_result [OF assms(2) r(1), of _ _ ws, unfolded r(2)]
  show "k < unat (pi_count item) \<Longrightarrow> read_result_reg area (pi_dest item + of_nat k) \<noteq> None \<Longrightarrow>
      read_result_reg (write_result (item_range item) ws area) (pi_dest item + of_nat k) =
        (if k < length ws then Some (ws ! k) else read_result_reg area (pi_dest item + of_nat k))"
    using read [OF i(2)] len by auto
  assume other: "\<forall>k<unat (pi_count item). a \<noteq> pi_dest item + of_nat k"
  show "read_result_reg (write_result (item_range item) ws area) a = read_result_reg area a"
  proof (cases "result_index a")
    case (Some j)
    have "\<not> (i \<le> j \<and> j < i + unat (pi_count item))"
    proof
      assume "i \<le> j \<and> j < i + unat (pi_count item)"
      then have "a = pi_dest item + of_nat (j - i)" "j - i < unat (pi_count item)"
        using poll_dest_inverse [OF assms(1) i(1) Some] by auto
      then show False using other by blast
    qed
    then show ?thesis using read [OF Some] len by auto
  qed (simp add: read_result_reg_def)
qed

lemma first_answer_length: "first_answer item x dev ks = Some data \<Longrightarrow> length data = expected_payload item"
proof (induction ks)
  case (Cons k ks)
  then show ?case
    by (cases "answer_data item (dev k x)") (auto simp: first_answer_Cons answer_data_Some)
qed (simp add: first_answer_def)

section \<open>A slave with this firmware behind the line\<close>

lemma exact_words_be_bytes: "exact_words (concat (map be_bytes ws)) = ws"
  by (induction ws) (simp_all add: be_bytes_def)

lemma length_be_concat: "length (concat (map be_bytes ws)) = 2 * length ws"
  by (induction ws) simp_all

definition slave_reads :: "poll_item \<Rightarrow> bus_state \<Rightarrow> u16 \<Rightarrow> u16 option" where
  "slave_reads item t = (if pi_func item = 3 then read_hold_reg t else read_input_reg t)"

definition served_state :: "nat \<Rightarrow> bus_state \<Rightarrow> bus_state" where
  "served_state p t = with_stats (mark_port_ok (env_now_ms (bus_env t)) p) t"

lemma build_request_frame:
  "build_request item = rtu_frame (pi_slave item) (pi_func item # be_bytes (pi_start item) @ be_bytes (pi_count item))"
  by (simp add: build_request_def rtu_frame_def Let_def)

lemma serve_register_request:
  assumes "poll_item_ok item" "pi_func item \<in> {3, 4}" "unat (pi_start item) + unat (pi_count item) \<le> 65536"
  shows "serve_pdu bus_backend bus_view t (pi_func item) (be_bytes (pi_start item) @ be_bytes (pi_count item)) =
    (respond (pi_func item) (regs_body (those (map (slave_reads item t)
       (addr_range (pi_start item) (unat (pi_count item)))))), t)"
proof -
  have c: "pi_count item \<noteq> 0" "unat (pi_count item) \<le> 125"
    using assms(1,2) result_range_valid_nat(1) [of "pi_dest item" "pi_count item"]
    by (auto simp: poll_item_ok_def word_le_nat_alt)
  then show ?thesis
    using assms(2,3)
    by (auto simp: serve_pdu_def pdu_request_def parse_read_def be_bytes_def slave_reads_def bus_view_def not_le)
qed

lemma poll_once_exception:
  assumes "poll_item_ok item"
  shows "fst (poll_once item (LineFrame (rtu_frame (pi_slave item) [pi_func item OR 0x80, code])) s) = Inl (PollException code)"
proof -
  let ?b = "[pi_slave item, pi_func item OR 0x80, code]"
  have f: "rtu_frame (pi_slave item) [pi_func item OR 0x80, code] = ?b @ [lo8 (modbus_crc16 ?b), hi8 (modbus_crc16 ?b)]"
    by (simp add: rtu_frame_def le_bytes_def)
  show ?thesis unfolding f by (simp add: poll_once_def)
qed

lemma poll_once_error_results:
  assumes "poll_item_ok item" "fst (poll_once item reply s) = Inl e"
  shows "bus_results (snd (poll_once item reply s)) = bus_results s"
proof (cases "answer_data item reply")
  case None
  then show ?thesis
    using poll_once_no_answer [OF assms(1) None, of s] by (metis same_but_stats_def bus_state.select_convs(5) bus_state.surjective bus_state.update_convs(6) snd_conv)
next
  case (Some data)
  then show ?thesis using assms(2) poll_once_answer [OF assms(1) Some, of s] by simp
qed

lemma those_None_iff: "those xs = None \<longleftrightarrow> None \<in> set xs"
  by (induction xs) (auto split: option.split)

lemma those_Some_iff: "those xs = Some ys \<longleftrightarrow> length ys = length xs \<and> (\<forall>k<length xs. xs ! k = Some (ys ! k))"
proof (induction xs arbitrary: ys)
  case (Cons x xs)
  show ?case
    by (cases ys; cases x) (auto simp: Cons.IH All_less_Suc2 split: option.splits)
qed auto

section \<open>Correctness\<close>

text \<open>Whatever the holding area contains, a poll table the parser accepts is safe to run: at most 64
  items, each for one of the three ports, a slave address and one of the four read functions, with a
  count the protocol allows, whose result words all lie in the result area, so that no store or clear of
  a result can leave it; and no two items share a result address.\<close>

theorem poll_table_is_safe:
  assumes "parse_poll_table words = Inr items"
  shows "length items \<le> 64 \<and>
    (\<forall>item\<in>set items. pi_port item \<in> {1, 2, 3} \<and> 1 \<le> pi_slave item \<and> pi_slave item \<le> 247 \<and>
       pi_func item \<in> {1, 2, 3, 4} \<and> 0 < unat (pi_count item) \<and> unat (pi_count item) \<le> 255 \<and>
       (pi_func item \<in> {3, 4} \<longrightarrow> unat (pi_count item) \<le> 125) \<and>
       (\<exists>i. i + unat (pi_count item) \<le> 352 \<and>
         (\<forall>k<unat (pi_count item). result_index (pi_dest item + of_nat k) = Some (i + k)))) \<and>
    (\<forall>i j k l. i < length items \<and> j < length items \<and> i \<noteq> j \<and> k < unat (pi_count (items ! i)) \<and>
       l < unat (pi_count (items ! j)) \<longrightarrow>
       pi_dest (items ! i) + of_nat k \<noteq> pi_dest (items ! j) + of_nat l)"
proof -
  have ok: "poll_table_ok items" by (rule parse_poll_table_ok [OF assms])
  have item: "pi_port x \<in> {1, 2, 3} \<and> 1 \<le> pi_slave x \<and> pi_slave x \<le> 247 \<and>
       pi_func x \<in> {1, 2, 3, 4} \<and> 0 < unat (pi_count x) \<and> unat (pi_count x) \<le> 255 \<and>
       (pi_func x \<in> {3, 4} \<longrightarrow> unat (pi_count x) \<le> 125) \<and>
       (\<exists>i. i + unat (pi_count x) \<le> 352 \<and>
         (\<forall>k<unat (pi_count x). result_index (pi_dest x + of_nat k) = Some (i + k)))"
    if "poll_item_ok x" for x
    using poll_func_cases [OF that] poll_port_cases [OF that] poll_item_bounds [OF that]
    by (metis poll_item_range [OF that])
  have "pi_dest (items ! i) + of_nat k \<noteq> pi_dest (items ! j) + of_nat l"
    if ij: "i < length items" "j < length items" "i \<noteq> j" and kl: "k < unat (pi_count (items ! i))"
      "l < unat (pi_count (items ! j))" for i j k l
  proof -
    have "disjoint_items (items ! i) (items ! j)"
      using ok ij disjoint_items_sym unfolding poll_table_ok_def sorted_wrt_iff_nth_less
      by (metis linorder_neqE_nat)
    moreover have "unat (pi_dest (items ! i) + of_nat k) = unat (pi_dest (items ! i)) + k"
      "unat (pi_dest (items ! j) + of_nat l) = unat (pi_dest (items ! j)) + l"
      using ok ij kl poll_dest_offset by (auto simp: poll_table_ok_def list_all_length)
    ultimately show ?thesis using kl by (auto simp: disjoint_items_def)
  qed
  then show ?thesis using ok item by (auto simp: poll_table_ok_def list_all_iff)
qed

text \<open>A poll with its retries is decided by the first attempt that gets a well-formed response -
  the slave's address, the function asked for, the byte count of the request and a correct checksum -
  and stores exactly the words of that response at the item's result addresses; if no attempt gets one,
  the poll fails, and either way nothing but the result area and the link status changes.\<close>

lemma poll_stores_first_answer:
  assumes "poll_item_ok item" and "area_wf (bus_results s)"
    and "poll_with_retry port item max_retry timeout_ms dev s = (r, s')"
    and "\<forall>k<unat (pi_count item). read_result_reg (bus_results s) (pi_dest item + of_nat k) \<noteq> None"
  shows "(case first_answer item (poll_exchange port item timeout_ms) dev [0..<Suc max_retry] of
      None \<Rightarrow> (\<exists>e. r = Inl e) \<and> bus_results s' = bus_results s
    | Some data \<Rightarrow> r = Inr () \<and>
        (\<forall>k<unat (pi_count item). read_result_reg (bus_results s') (pi_dest item + of_nat k) =
          (if k < length (poll_words item data) then Some (poll_words item data ! k)
           else read_result_reg (bus_results s) (pi_dest item + of_nat k))) \<and>
        (\<forall>a. (\<forall>k<unat (pi_count item). a \<noteq> pi_dest item + of_nat k) \<longrightarrow>
          read_result_reg (bus_results s') a = read_result_reg (bus_results s) a)) \<and>
    s'\<lparr>bus_stats := bus_stats s, bus_results := bus_results s\<rparr> = s"
proof (cases "first_answer item (poll_exchange port item timeout_ms) dev [0..<Suc max_retry]")
  case None
  then show ?thesis
    using poll_with_retry_answer [where dev = dev and port = port and timeout_ms = timeout_ms and n = max_retry and s = s, OF assms(1)] assms(3) by (auto simp: same_but_stats_def)
next
  case (Some data)
  have "length data = expected_payload item" by (rule first_answer_length [OF Some])
  then have words: "length (poll_words item data) \<le> unat (pi_count item)" by (rule poll_words_short(1) [OF assms(1)])
  obtain st where s': "r = Inr ()"
    "s' = s\<lparr>bus_results := write_result (item_range item) (poll_words item data) (bus_results s), bus_stats := st\<rparr>"
    using poll_with_retry_answer [where dev = dev and port = port and timeout_ms = timeout_ms and n = max_retry and s = s, OF assms(1)] assms(3) Some
    by (auto simp: same_but_stats_def with_results_def)
  show ?thesis
    unfolding Some option.case s'
    using read_after_item [OF assms(1,2) words] assms(4) by simp
qed

text \<open>C30: Two devices with this firmware on one line.  A poll of holding or input registers executed by
  the master, answered by the slave's handler over its own register map and taken in by the master,
  shows at the item's result addresses exactly what the slave's registers hold; and when one of the
  registers does not exist, the master reports the exception for an illegal address and changes no
  result.\<close>

theorem poll_mirrors_slave:
  assumes "poll_item_ok item" and "pi_func item \<in> {3, 4}"
    and "unat (pi_start item) + unat (pi_count item) \<le> 65536"
    and "bus_wf t" and "area_wf (bus_results s)"
    and "\<forall>k<unat (pi_count item). read_result_reg (bus_results s) (pi_dest item + of_nat k) \<noteq> None"
    and "handle_request (build_request item) (pi_slave item) p t = (Some resp, t')"
    and "poll_once item (LineFrame resp) s = (r, s')"
  shows "if \<forall>k<unat (pi_count item). slave_reads item (served_state p t) (pi_start item + of_nat k) \<noteq> None
    then r = Inr () \<and> (\<forall>k<unat (pi_count item). read_result_reg (bus_results s') (pi_dest item + of_nat k) =
           slave_reads item (served_state p t) (pi_start item + of_nat k))
    else r = Inl (PollException 2) \<and> bus_results s' = bus_results s"
proof -
  let ?reads = "map (\<lambda>k. slave_reads item (served_state p t) (pi_start item + of_nat k)) [0..<unat (pi_count item)]"
  let ?answer = "respond (pi_func item) (regs_body (those ?reads))"
  have slave: "1 \<le> pi_slave item" using assms(1) by (simp add: poll_item_ok_def)
  have wf: "bus_wf (served_state p t)" using assms(4) by (simp add: served_state_def)
  have resp: "resp = rtu_frame (pi_slave item) ?answer"
    using assms(7) slave handle_request_frame [OF assms(4) disjI2 [OF refl] served_state_def [of p t] refl,
        of "pi_slave item" "pi_func item" "be_bytes (pi_start item) @ be_bytes (pi_count item)"]
    unfolding build_request_frame serve_register_request [OF assms(1-3)] those_map_range
    by (auto split: if_splits)
  show ?thesis
  proof (cases "those ?reads")
    case None
    then have "\<exists>k<unat (pi_count item). slave_reads item (served_state p t) (pi_start item + of_nat k) = None"
      by (auto simp: those_None_iff)
    moreover have "resp = rtu_frame (pi_slave item) [pi_func item OR 0x80, 2]"
      unfolding resp None by (simp add: regs_body_def respond_def ILLEGAL_DATA_ADDRESS_def)
    ultimately show ?thesis
      using poll_once_exception [OF assms(1), of 2 s] assms(8) poll_once_error_results [OF assms(1), of "LineFrame resp" s]
      by auto
  next
    case (Some ws)
    have ws: "length ws = unat (pi_count item)"
      "\<And>k. k < unat (pi_count item) \<Longrightarrow> slave_reads item (served_state p t) (pi_start item + of_nat k) = Some (ws ! k)"
      using Some by (auto simp: those_Some_iff)
    let ?data = "concat (map be_bytes ws)"
    have f: "\<not> pi_func item \<le> 2" using assms(2) by auto
    have len: "length ?data = expected_payload item"
      using f by (simp add: length_be_concat expected_payload_def ws(1) mult.commute)
    have "answer_data item (LineFrame resp) = Some ?data"
      unfolding answer_data_Some resp Some
      using len expected_payload_small [OF assms(1)] by (simp add: respond_def regs_body_def length_be_concat)
    then have s': "r = Inr ()" "bus_results s' = write_result (item_range item) ws (bus_results s)"
      using assms(8) f
      by (auto simp: poll_once_answer [OF assms(1)] poll_words_def exact_words_be_bytes port_ok_def
          with_stats_def with_results_def)
    show ?thesis
      using read_after_item(1) [OF assms(1,5), of ws] assms(6) ws s' by simp
  qed
qed

section \<open>Concrete instances\<close>

definition sample_item :: poll_item where
  "sample_item = \<lparr>pi_port = 1, pi_slave = 1, pi_func = 3, pi_start = 0x45E1, pi_count = 1, pi_dest = 4000\<rparr>"

definition sample_words :: "u16 list" where
  "sample_words = replicate 124 0 @
     [1, 3, 14, 2, 0, 0, 0, 0x0101, 0x0601, 3, 0x45E1, 4000, 0x0201, 0]"

lemma sample_item_ok: "poll_item_ok sample_item"
  by (simp add: poll_item_ok_def sample_item_def result_range_is_valid_def checked_add_def result_index_def checked_sub_def)

lemma sample_lookup:
  "holding_word sample_words 2300 = Some 1"
  "holding_word sample_words 2301 = Some 3"
  "holding_word sample_words 2302 = Some 14"
  "holding_word sample_words 2303 = Some 2"
  "holding_word sample_words 2307 = Some 0x0101"
  "holding_word sample_words 2308 = Some 0x0601"
  "holding_word sample_words 2309 = Some 3"
  "holding_word sample_words 2310 = Some 0x45E1"
  "holding_word sample_words 2311 = Some 4000"
  "holding_word sample_words 2312 = Some 0x0201"
  by (simp_all add: holding_word_def checked_sub_def sample_words_def get_opt_def nth_append)

lemma sample_table: "parse_poll_table sample_words = Inr [sample_item]"
proof -
  have f: "parse_function sample_words 2314 1 1 (2309, []) = Inr (2314, [sample_item])"
    using sample_item_ok
    by (simp add: parse_function_def sample_lookup checked_add_def hi8_def lo8_def sample_item_def poll_item_ok_def)
  have slave: "(257 :: u8) = 1" by simp
  have "parse_function sample_words 2314 1 257 (2309, []) = Inr (2314, [sample_item])"
    unfolding slave by (rule f)
  then have l: "parse_logic sample_words 2303 2314 [] = Inr [sample_item]"
    by (simp add: parse_logic_def sample_lookup hi8_def lo8_def)
  have "parse_poll_record sample_words 1 14 2314 0 [] = Inr [sample_item]"
    by (simp add: parse_poll_record_def sample_lookup checked_add_def l)
  moreover have "length sample_words = 138" by (simp add: sample_words_def)
  ultimately show ?thesis
    by (simp add: parse_poll_table_def sample_lookup checked_add_def)
qed

theorem poll_table_is_safe_witness:
  "\<exists>item. parse_poll_table sample_words = Inr [item] \<and> pi_func item \<in> {3, 4} \<and> result_index (pi_dest item) = Some 128"
  using poll_table_is_safe [OF sample_table] sample_table by (simp add: sample_item_def result_index_nat)

definition sample_master :: bus_state where
  "sample_master = (bus_start env_idle)\<lparr>bus_results := publish_ranges [(4000, 1)] area_new\<rparr>"

lemma sample_master_results:
  "area_wf (bus_results sample_master)"
  "\<forall>k<unat (pi_count sample_item). read_result_reg (bus_results sample_master) (pi_dest sample_item + of_nat k) \<noteq> None"
  by (simp_all add: sample_master_def area_wf_publish range_ok_def read_after_publish sample_item_def result_index_nat
      range_indices_def)

theorem poll_mirrors_slave_witness:
  "\<exists>resp t' r s'. handle_request (build_request sample_item) 1 1 (bus_start env_idle) = (Some resp, t') \<and>
     poll_once sample_item (LineFrame resp) sample_master = (r, s') \<and>
     r = Inr () \<and> read_result_reg (bus_results s') 4000 = Some 0x494D"
proof -
  obtain q t' where q: "handle_request (build_request sample_item) (pi_slave sample_item) 1 (bus_start env_idle) = (q, t')"
    by (rule prod.exhaust)
  have reads: "slave_reads sample_item (served_state 1 (bus_start env_idle)) (pi_start sample_item) = Some 0x494D"
    by (simp add: slave_reads_def sample_item_def served_state_def with_stats_def bus_start_def read_hold_reg_def
        read_hold_reg_from_snapshots_def analog_word_def rs485_word_def read_result_reg_def
        result_index_nat range_defs)
  obtain resp where resp: "q = Some resp"
    using handle_request_frame [OF bus_wf_idle disjI2 [OF refl] refl refl, of "pi_slave sample_item" "pi_func sample_item"
        "be_bytes (pi_start sample_item) @ be_bytes (pi_count sample_item)" 1] q
    unfolding build_request_frame by (auto simp: sample_item_def)
  obtain r s' where run: "poll_once sample_item (LineFrame resp) sample_master = (r, s')" by (rule prod.exhaust)
  have "r = Inr () \<and> read_result_reg (bus_results s') (pi_dest sample_item) = Some 0x494D"
    using poll_mirrors_slave [OF sample_item_ok _ _ bus_wf_idle sample_master_results q [unfolded resp] run] reads
    by (simp add: sample_item_def)
  then show ?thesis using q resp run by (simp add: sample_item_def)
qed

end
