(* ===== verification/Rtu_Runtime.thy ===== *)
theory Rtu_Runtime imports Rtu_Master begin

text \<open>
  The worker of a serial port (\<open>src/modbus/rtu_runtime.rs\<close>): the configuration it runs under, the
  poll table it keeps, and one pass of its loop, as a master over its share of the table or as a slave.
  Parameters of a pass are the readings of the clock, the answers of the line, whether the driver opens,
  and the configuration generation another task may advance.
\<close>

section \<open>Configuration\<close>

datatype port_mode = PortMaster | PortSlave

record runtime_config =
  rc_wire :: wire_config
  rc_mode :: port_mode
  rc_slave_addr :: u8
  rc_retry_count :: nat
  rc_timeout_ms :: nat
  rc_interval_ms :: nat

definition apply_runtime_policy :: "nat \<Rightarrow> rs485_config \<Rightarrow> wire_config \<Rightarrow> u8 \<Rightarrow> runtime_config" where
  "apply_runtime_policy index saved wire boot_dip_address =
     (let dip_address = (if index = 0 \<and> boot_dip_address \<noteq> 0 then Some boot_dip_address else None);
          wire = (if dip_address \<noteq> None
                  then wire\<lparr>wc_baud := 9600, wc_data_bits := 8, wc_parity := CHR ''N'', wc_stop_bits := 1\<rparr> else wire)
      in \<lparr>rc_wire = wire,
          rc_mode = (if dip_address \<noteq> None then PortSlave
                     else if rs_mode saved = 0 then PortMaster else PortSlave),
          rc_slave_addr = (case dip_address of Some a \<Rightarrow> a | None \<Rightarrow> max 1 (min 247 (rs_slave_addr saved))),
          rc_retry_count = min (unat (rs_retry_count saved)) 2,
          rc_timeout_ms = clamp 20 2000 (unat (rs_timeout_ms saved)),
          rc_interval_ms = clamp 20 1000 (unat (rs_interval_ms saved))\<rparr>)"

definition runtime_config_of :: "nat \<Rightarrow> u8 \<Rightarrow> system_config \<Rightarrow> runtime_config option" where
  "runtime_config_of index boot_dip_address cfg =
     (case get_opt (sc_rs485 cfg) index of
        None \<Rightarrow> None
      | Some saved \<Rightarrow>
          (case from_port_with_saved index saved of
             None \<Rightarrow> None
           | Some wire \<Rightarrow> Some (apply_runtime_policy index saved wire boot_dip_address)))"

text \<open>The third port is the console in this build.\<close>

definition RTU_PORT2_ENABLED :: bool where
  "RTU_PORT2_ENABLED = False"

fun filter_disabled_loop :: "poll_item list \<Rightarrow> poll_item list \<times> nat \<Rightarrow> string + poll_item list \<times> nat" where
  "filter_disabled_loop [] as = Inr as"
| "filter_disabled_loop (item # items) (active, skipped) =
     (if pi_port item = 3 then filter_disabled_loop items (active, skipped + 1)
      else if length active < 64 then filter_disabled_loop items (active @ [item], skipped)
      else Inl ''too many active RS485 poll items'')"

definition filter_disabled_port3 :: "poll_item list \<Rightarrow> bool \<Rightarrow> string + poll_item list \<times> nat" where
  "filter_disabled_port3 configured port3_enabled =
     (if port3_enabled then Inr (configured, 0) else filter_disabled_loop configured ([], 0))"

definition configured_runtime_poll_table :: "bus_state \<Rightarrow> string + poll_item list" where
  "configured_runtime_poll_table s =
     and_then (parse_poll_table (sn_holding_buf (bus_storage s))) (\<lambda>configured.
     and_then (filter_disabled_port3 configured RTU_PORT2_ENABLED) (\<lambda>r. Inr (fst r)))"

section \<open>The worker\<close>

record port_worker =
  pw_active :: "runtime_config option"
  pw_port :: "wire_config option"
  pw_table :: "poll_item list"
  pw_cursor :: nat
  pw_generation :: u32

definition port_worker_new :: port_worker where
  "port_worker_new = \<lparr>pw_active = None, pw_port = None, pw_table = [], pw_cursor = 0, pw_generation = 0xFFFFFFFF\<rparr>"

text \<open>What a pass meets: the clock's readings, the answers of the line to the polls of the pass in their
  order, the frame a slave receives, and the environment of the configuration.\<close>

record pass_env =
  pe_clock :: "nat \<Rightarrow> nat"
  pe_line :: "nat \<Rightarrow> nat \<Rightarrow> exchange \<Rightarrow> line_reply"
  pe_open_ok :: bool
  pe_dip :: u8
  pe_generation :: u32
  pe_generation_after :: u32
  pe_received :: "u8 list option"

definition publish_result_ranges :: "poll_item list \<Rightarrow> bus_state \<Rightarrow> bus_state" where
  "publish_result_ranges items = with_results (publish_ranges (map item_range items))"

definition refresh_poll_table :: "pass_env \<Rightarrow> port_worker \<times> bus_state \<Rightarrow> port_worker \<times> bus_state" where
  "refresh_poll_table env ws =
     (let w = fst ws; s = snd ws in
      if pe_generation env = pw_generation w then (w, s)
      else let refreshed = configured_runtime_poll_table s in
      if pe_generation_after env \<noteq> pe_generation env then (w, s)
      else case refreshed of
        Inl _ \<Rightarrow> (w\<lparr>pw_generation := pe_generation env\<rparr>, s)
      | Inr updated \<Rightarrow>
          if updated \<noteq> pw_table w
          then (w\<lparr>pw_table := updated, pw_cursor := 0, pw_generation := pe_generation env\<rparr>,
                publish_result_ranges updated s)
          else (w\<lparr>pw_generation := pe_generation env\<rparr>, s))"

text \<open>One item: a poll with its retries, and the results cleared when it failed.\<close>

definition run_item :: "wire_config \<Rightarrow> runtime_config \<Rightarrow> (nat \<Rightarrow> exchange \<Rightarrow> line_reply) \<Rightarrow> poll_item \<Rightarrow>
    bus_state \<Rightarrow> bus_state" where
  "run_item port cfg dev item s =
     (case poll_with_retry port item (rc_retry_count cfg) (rc_timeout_ms cfg) dev s of
        (Inr _, s) \<Rightarrow> s
      | (Inl _, s) \<Rightarrow> with_results (clear_result (item_range item)) s)"

text \<open>The items of a pass.  \<open>polled\<close> collects the indices of the items polled so far; its length counts
  the polls and, since every poll is preceded by one reading, the readings of the clock.\<close>

abbreviation (input) POLL_ROUND_BUDGET_MS :: nat where "POLL_ROUND_BUDGET_MS \<equiv> 5000"

function poll_items :: "nat \<Rightarrow> wire_config \<Rightarrow> runtime_config \<Rightarrow> pass_env \<Rightarrow> poll_item list \<Rightarrow> nat \<Rightarrow> nat \<Rightarrow>
    nat list \<times> bus_state \<Rightarrow> nat \<times> nat list \<times> bus_state" where
  "poll_items index port cfg env table cursor visited (polled, s) =
     (if visited < length table then
        let k = (cursor + visited) mod length table; item = table ! k; visited = visited + 1 in
        if unat (pi_port item) \<noteq> index + 1 then poll_items index port cfg env table cursor visited (polled, s)
        else if pe_clock env (length polled + 1) \<ge> pe_clock env 0 + POLL_ROUND_BUDGET_MS then (visited, polled, s)
        else poll_items index port cfg env table cursor visited
               (polled @ [k], run_item port cfg (pe_line env (length polled)) item s)
      else (visited, polled, s))"
  by pat_completeness auto
termination by (relation "measure (\<lambda>(index, port, cfg, env, table, cursor, visited, ps). length table - visited)") auto

declare poll_items.simps [simp del]

definition master_pass :: "nat \<Rightarrow> wire_config \<Rightarrow> runtime_config \<Rightarrow> pass_env \<Rightarrow> port_worker \<times> bus_state \<Rightarrow>
    nat list \<times> port_worker \<times> bus_state" where
  "master_pass index port cfg env ws =
     (let (w, s) = refresh_poll_table env ws;
          (visited, polled, s) = poll_items index port cfg env (pw_table w) (pw_cursor w) 0 ([], s);
          w = (if pw_table w \<noteq> [] then w\<lparr>pw_cursor := (pw_cursor w + visited) mod length (pw_table w)\<rparr> else w)
      in (polled, w, s))"

definition slave_pass :: "nat \<Rightarrow> runtime_config \<Rightarrow> pass_env \<Rightarrow> bus_state \<Rightarrow> u8 list option \<times> bus_state" where
  "slave_pass index cfg env s =
     (case pe_received env of
        None \<Rightarrow> (None, s)
      | Some frame \<Rightarrow>
          if frame = [] then (None, s)
          else handle_request (take 256 frame) (rc_slave_addr cfg) index s)"

text \<open>A turn of the loop: the driver is reopened when the configuration changed.  The result lists the
  items polled and the frame sent.\<close>

definition port_pass :: "nat \<Rightarrow> pass_env \<Rightarrow> port_worker \<times> bus_state \<Rightarrow>
    (nat list \<times> u8 list option) \<times> port_worker \<times> bus_state" where
  "port_pass index env ws =
     (let (w, s) = ws in
      case runtime_config_of index (pe_dip env) (bus_config s) of
        None \<Rightarrow> (([], None), w, s)
      | Some desired \<Rightarrow>
          let w = (if pw_active w \<noteq> Some desired
                   then (if pe_open_ok env then w\<lparr>pw_port := Some (rc_wire desired), pw_active := Some desired\<rparr>
                         else w\<lparr>pw_port := None, pw_active := None\<rparr>)
                   else w) in
          (case pw_port w of
             None \<Rightarrow> (([], None), w, s)
           | Some port \<Rightarrow>
               (case rc_mode desired of
                  PortMaster \<Rightarrow> (let (polled, w, s) = master_pass index port desired env (w, s)
                                 in ((polled, None), w, s))
                | PortSlave \<Rightarrow> (let (answer, s) = slave_pass index desired env s in (([], answer), w, s)))))"

section \<open>The items of a pass\<close>

definition own_item :: "nat \<Rightarrow> poll_item list \<Rightarrow> nat \<Rightarrow> bool" where
  "own_item index table k \<longleftrightarrow> unat (pi_port (table ! k)) = index + 1"

lemma poll_items_within_budget:
  assumes "\<forall>i\<le>length table. pe_clock env i < pe_clock env 0 + 5000"
  shows "length polled \<le> visited \<Longrightarrow> visited \<le> length table \<Longrightarrow>
    \<exists>t. poll_items index port cfg env table cursor visited (polled, s) =
      (length table, polled @ filter (own_item index table)
         (map (\<lambda>j. (cursor + j) mod length table) [visited..<length table]), t)"
proof (induction "length table - visited" arbitrary: visited polled s)
  case 0
  then show ?case by (subst poll_items.simps) auto
next
  case (Suc d)
  let ?k = "(cursor + visited) mod length table"
  have v: "visited < length table" "length table - Suc visited = d" using Suc.hyps(2) by simp_all
  have clk: "\<not> pe_clock env (Suc (length polled)) \<ge> pe_clock env 0 + 5000"
    using assms Suc.prems(1) v(1) by (simp add: not_le)
  have upt: "[visited..<length table] = visited # [Suc visited..<length table]" using v by (simp add: upt_rec)
  show ?case
  proof (cases "own_item index table ?k")
    case False
    then show ?thesis
      using Suc.hyps(1) [of "Suc visited" polled s] Suc.prems(1) v upt
      by (subst poll_items.simps) (simp add: Let_def own_item_def)
  next
    case True
    then show ?thesis
      using Suc.hyps(1) [of "Suc visited" "polled @ [?k]" "run_item port cfg (pe_line env (length polled)) (table ! ?k) s"]
        Suc.prems(1) v upt clk
      by (subst poll_items.simps) (simp add: Let_def own_item_def)
  qed
qed

lemma poll_items_budget_runs_out:
  assumes own: "\<forall>item\<in>set table. unat (pi_port item) = index + 1"
    and before: "\<forall>i<length table. pe_clock env i < pe_clock env 0 + 5000"
    and out: "pe_clock env 0 + 5000 \<le> pe_clock env (length table)"
  shows "visited < length table \<Longrightarrow>
    \<exists>t. poll_items index port cfg env table 0 visited ([0..<visited], s) =
      (length table, [0..<length table - 1], t)"
proof (induction "length table - visited" arbitrary: visited s)
  case (Suc d)
  have k: "(0 + visited) mod length table = visited" using Suc.prems by simp
  have item: "unat (pi_port (table ! visited)) = index + 1" using own Suc.prems by simp
  show ?case
  proof (cases "Suc visited = length table")
    case True
    then show ?thesis using out item k
      by (subst poll_items.simps) (simp add: Let_def flip: True)
  next
    case False
    then have v: "Suc visited < length table" "length table - Suc visited = d" using Suc by simp_all
    have "\<not> pe_clock env (Suc visited) \<ge> pe_clock env 0 + 5000" using before v(1) by (simp add: not_le)
    then show ?thesis
      using Suc.hyps(1) [of "Suc visited" "run_item port cfg (pe_line env visited) (table ! visited) s"] v Suc.prems item k
      by (subst poll_items.simps) (simp add: Let_def)
  qed
qed simp

text \<open>Passes one after the other, with the indices each polled.\<close>

fun master_passes :: "nat \<Rightarrow> wire_config \<Rightarrow> runtime_config \<Rightarrow> pass_env list \<Rightarrow> port_worker \<times> bus_state \<Rightarrow>
    nat list list \<times> port_worker \<times> bus_state" where
  "master_passes index port cfg [] ws = ([], ws)"
| "master_passes index port cfg (env # envs) ws =
     (let (polled, w, s) = master_pass index port cfg env ws;
          (more, ws) = master_passes index port cfg envs (w, s)
      in (polled # more, ws))"

section \<open>Results are never stale\<close>

lemma area_wf_run_item: "area_wf (bus_results s) \<Longrightarrow> poll_item_ok item \<Longrightarrow>
  area_wf (bus_results (run_item port cfg dev item s))"
  using poll_with_retry_answer [where item = item and port = port and timeout_ms = "rc_timeout_ms cfg" and dev = dev
      and n = "rc_retry_count cfg" and s = s]
  by (auto simp: run_item_def same_but_stats_def with_results_def split: option.splits)

lemma clear_result_is_write:
  "result_index (fst r) = Some i \<Longrightarrow> clear_result r area = write_result r (replicate (snd r) 0) area"
  by (simp add: clear_result_def write_result_def)

lemma read_after_clear:
  assumes "poll_item_ok item" "area_wf area"
  shows "k < unat (pi_count item) \<Longrightarrow> read_result_reg area (pi_dest item + of_nat k) \<noteq> None \<Longrightarrow>
      read_result_reg (clear_result (item_range item) area) (pi_dest item + of_nat k) = Some 0"
    and "\<forall>k<unat (pi_count item). a \<noteq> pi_dest item + of_nat k \<Longrightarrow>
      read_result_reg (clear_result (item_range item) area) a = read_result_reg area a"
proof -
  obtain i where i: "result_index (pi_dest item) = Some i" by (rule poll_item_range [OF assms(1)])
  have c: "clear_result (item_range item) area =
      write_result (item_range item) (replicate (unat (pi_count item)) 0) area"
    using clear_result_is_write [of "item_range item" i area] i by (simp add: item_range_def)
  show "k < unat (pi_count item) \<Longrightarrow> read_result_reg area (pi_dest item + of_nat k) \<noteq> None \<Longrightarrow>
      read_result_reg (clear_result (item_range item) area) (pi_dest item + of_nat k) = Some 0"
    unfolding c using read_after_item(1) [OF assms, of "replicate (unat (pi_count item)) 0" k] by simp
  show "\<forall>k<unat (pi_count item). a \<noteq> pi_dest item + of_nat k \<Longrightarrow>
      read_result_reg (clear_result (item_range item) area) a = read_result_reg area a"
    unfolding c using read_after_item(2) [OF assms, of "replicate (unat (pi_count item)) 0" a] by simp
qed

section \<open>The worker keeps the state well-formed\<close>

definition worker_ok :: "port_worker \<Rightarrow> bool" where
  "worker_ok w \<longleftrightarrow> list_all poll_item_ok (pw_table w)"

lemma bus_wf_results: "bus_wf s \<Longrightarrow> area_wf a \<Longrightarrow> bus_wf (s\<lparr>bus_results := a\<rparr>)"
  by (simp add: bus_wf_def)

lemma bus_wf_same_but_stats: "same_but_stats s t \<Longrightarrow> bus_wf t = bus_wf s"
  by (auto simp: same_but_stats_def bus_wf_def)

lemma bus_wf_with_results: "bus_wf s \<Longrightarrow> area_wf (f (bus_results s)) \<Longrightarrow> bus_wf (with_results f s)"
  by (simp add: with_results_def bus_wf_results)

lemma bus_wf_run_item:
  assumes "bus_wf s" "poll_item_ok item"
  shows "bus_wf (run_item port cfg dev item s)"
proof -
  obtain r s' where run: "poll_with_retry port item (rc_retry_count cfg) (rc_timeout_ms cfg) dev s = (r, s')"
    by (rule prod.exhaust)
  have area: "bus_wf t \<Longrightarrow> area_wf (bus_results t)" for t by (simp add: bus_wf_def)
  have "bus_wf s'"
  proof (cases "first_answer item (poll_exchange port item (rc_timeout_ms cfg)) dev [0..<Suc (rc_retry_count cfg)]")
    case None
    then have "same_but_stats s s'"
      using poll_with_retry_answer [where port = port and timeout_ms = "rc_timeout_ms cfg" and dev = dev
        and n = "rc_retry_count cfg" and s = s, OF assms(2)] run by (auto simp only: option.case)
    then show ?thesis using assms(1) by (simp add: bus_wf_same_but_stats)
  next
    case (Some data)
    then obtain t where t: "same_but_stats s t"
      "same_but_stats (with_results (write_result (item_range item) (poll_words item data)) t) s'"
      using poll_with_retry_answer [where port = port and timeout_ms = "rc_timeout_ms cfg" and dev = dev
        and n = "rc_retry_count cfg" and s = s, OF assms(2)] run by (auto simp only: option.case)
    have "bus_wf t" using t(1) assms(1) by (simp add: bus_wf_same_but_stats)
    then have "bus_wf (with_results (write_result (item_range item) (poll_words item data)) t)"
      using area by (intro bus_wf_with_results) simp_all
    then show ?thesis using t(2) by (simp add: bus_wf_same_but_stats)
  qed
  then show ?thesis
    using area by (cases r) (auto simp: run_item_def run intro!: bus_wf_with_results)
qed

lemma filter_disabled_loop_subset:
  "filter_disabled_loop items (active, n) = Inr (active', m) \<Longrightarrow> set active' \<subseteq> set active \<union> set items"
  by (induction items arbitrary: active n) (fastforce split: if_splits)+

lemma configured_table_ok: "configured_runtime_poll_table s = Inr items \<Longrightarrow> list_all poll_item_ok items"
  using filter_disabled_loop_subset [of _ "[]" 0] parse_poll_table_ok
  by (fastforce simp: configured_runtime_poll_table_def filter_disabled_port3_def poll_table_ok_def list_all_iff
      split: if_splits)

lemma refresh_poll_table_ok:
  "worker_ok (fst ws) \<Longrightarrow> bus_wf (snd ws) \<Longrightarrow>
   worker_ok (fst (refresh_poll_table env ws)) \<and> bus_wf (snd (refresh_poll_table env ws))"
  using configured_table_ok [of "snd ws"]
  by (auto simp: refresh_poll_table_def Let_def worker_ok_def publish_result_ranges_def with_results_def list_all_iff
      intro!: bus_wf_results area_wf_publish poll_item_range_ok split: sum.split)

lemma poll_items_ok:
  "list_all poll_item_ok table \<Longrightarrow> bus_wf (snd ps) \<Longrightarrow>
   bus_wf (snd (snd (poll_items index port cfg env table cursor visited ps)))"
proof (induction index port cfg env table cursor visited ps rule: poll_items.induct)
  case (1 index port cfg env table cursor visited polled s)
  have item: "visited < length table \<Longrightarrow> poll_item_ok (table ! ((cursor + visited) mod length table))"
    using 1(3) unfolding list_all_length by (cases table) (auto intro: mod_less_divisor)
  show ?case
    by (subst poll_items.simps) (use 1 item bus_wf_run_item in \<open>auto simp: Let_def\<close>)
qed

lemma bus_wf_handle_request: "bus_wf s \<Longrightarrow> bus_wf (snd (handle_request req addr p s))"
  by (auto simp: handle_request_def Let_def split_beta rtu_build_response_frame(1) rtu_build_response_frame(4)
      split: option.split)

lemma master_pass_ok:
  assumes "worker_ok w" "bus_wf s" "master_pass index port cfg env (w, s) = (polled, w', s')"
  shows "worker_ok w' \<and> bus_wf s'"
proof -
  obtain w1 s1 where r: "refresh_poll_table env (w, s) = (w1, s1)" by (rule prod.exhaust)
  then have 1: "worker_ok w1" "bus_wf s1" using refresh_poll_table_ok [of "(w, s)" env] assms by simp_all
  obtain v ps t where p: "poll_items index port cfg env (pw_table w1) (pw_cursor w1) 0 ([], s1) = (v, ps, t)"
    by (rule prod_cases3)
  have "bus_wf t" using poll_items_ok [of "pw_table w1" "([], s1)"] 1 p by (metis snd_conv worker_ok_def)
  then show ?thesis using assms(3) 1 by (auto simp: master_pass_def r p worker_ok_def)
qed

section \<open>Correctness\<close>

text \<open>C31: A pass of a master whose time is not used up polls every item of its port exactly once, in the
  order of the table from the cursor on, and leaves the items of the other ports alone.\<close>

theorem pass_polls_every_item:
  assumes "pe_generation env = pw_generation w" and "pw_table w \<noteq> []"
    and "\<forall>i\<le>length (pw_table w). pe_clock env i < pe_clock env 0 + 5000"
    and "master_pass index port cfg env (w, s) = (polled, w', s')"
  shows "polled = filter (\<lambda>k. unat (pi_port (pw_table w ! k)) = index + 1)
      (rotate (pw_cursor w) [0..<length (pw_table w)]) \<and> distinct polled \<and>
    set polled = {k. k < length (pw_table w) \<and> unat (pi_port (pw_table w ! k)) = index + 1}"
proof -
  let ?t = "pw_table w" let ?n = "length ?t"
  obtain t where round: "poll_items index port cfg env ?t (pw_cursor w) 0 ([], s) =
      (?n, filter (own_item index ?t) (map (\<lambda>j. (pw_cursor w + j) mod ?n) [0..<?n]), t)"
    using poll_items_within_budget [OF assms(3), of "[]" 0 index port cfg "pw_cursor w" s] by auto
  have rot: "map (\<lambda>j. (pw_cursor w + j) mod ?n) [0..<?n] = rotate (pw_cursor w) [0..<?n]"
    using assms(2) by (intro nth_equalityI) (simp_all add: nth_rotate add.commute)
  have "polled = filter (own_item index ?t) (rotate (pw_cursor w) [0..<?n])"
    using assms(1,2,4) round rot by (simp add: master_pass_def refresh_poll_table_def Let_def)
  then show ?thesis unfolding own_item_def by (auto simp: distinct_filter)
qed

text \<open>C20: Starvation.  The item at which the time of a pass runs out counts as visited, so the next pass
  starts behind it.  When the items before the last one use up the time of every pass, as seven slaves
  that do not answer do, the last item is never polled, in any number of passes.\<close>

theorem deferred_item_is_never_polled:
  assumes "\<forall>item\<in>set (pw_table w). unat (pi_port item) = index + 1" and "pw_table w \<noteq> []" and "pw_cursor w = 0"
    and "\<forall>env\<in>set envs. pe_generation env = pw_generation w \<and>
      (\<forall>i<length (pw_table w). pe_clock env i < pe_clock env 0 + 5000) \<and>
      pe_clock env 0 + 5000 \<le> pe_clock env (length (pw_table w))"
    and "master_passes index port cfg envs (w, s) = (polls, w', s')"
  shows "\<forall>polled\<in>set polls. length (pw_table w) - 1 \<notin> set polled"
proof -
  let ?n = "length (pw_table w)"
  have "polls = replicate (length envs) [0..<?n - 1]"
    using assms(4,5)
  proof (induction envs arbitrary: s polls w' s')
    case (Cons env envs s polls w' s')
    have e: "pe_generation env = pw_generation w" "\<forall>i<?n. pe_clock env i < pe_clock env 0 + 5000"
      "pe_clock env 0 + 5000 \<le> pe_clock env ?n" using Cons.prems(1) by simp_all
    obtain t where "poll_items index port cfg env (pw_table w) 0 0 ([], s) = (?n, [0..<?n - 1], t)"
      using poll_items_budget_runs_out [OF assms(1) e(2,3), of 0 port cfg s] assms(2) by auto
    then have pass: "master_pass index port cfg env (w, s) = ([0..<?n - 1], w, t)"
      using assms(2,3) e(1) by (simp add: master_pass_def refresh_poll_table_def Let_def)
    obtain more ws where rest: "master_passes index port cfg envs (w, t) = (more, ws)" by (rule prod.exhaust)
    then have "polls = [0..<?n - 1] # more" using Cons.prems(2) by (simp add: pass)
    moreover have "more = replicate (length envs) [0..<?n - 1]"
      using Cons.IH [of t more w' s'] Cons.prems rest pass by auto
    ultimately show ?case by simp
  qed simp
  then show ?thesis by auto
qed

text \<open>Results are never stale.  After an item of a pass its result words hold what the slave answered
  in this poll, and read zero when no attempt got a well-formed answer; every other result is untouched.
  For bit tables the words beyond the packed answer keep their values.\<close>

theorem results_are_fresh:
  assumes "poll_item_ok item" and "area_wf (bus_results s)"
    and "\<forall>k<unat (pi_count item). read_result_reg (bus_results s) (pi_dest item + of_nat k) \<noteq> None"
  shows "(\<forall>k<unat (pi_count item).
      read_result_reg (bus_results (run_item port cfg dev item s)) (pi_dest item + of_nat k) =
      (case first_answer item (poll_exchange port item (rc_timeout_ms cfg)) dev [0..<Suc (rc_retry_count cfg)] of
         None \<Rightarrow> Some 0
       | Some data \<Rightarrow> if k < length (poll_words item data) then Some (poll_words item data ! k)
           else read_result_reg (bus_results s) (pi_dest item + of_nat k))) \<and>
    (\<forall>a. (\<forall>k<unat (pi_count item). a \<noteq> pi_dest item + of_nat k) \<longrightarrow>
      read_result_reg (bus_results (run_item port cfg dev item s)) a = read_result_reg (bus_results s) a)"
proof -
  obtain r s' where run: "poll_with_retry port item (rc_retry_count cfg) (rc_timeout_ms cfg) dev s = (r, s')"
    by (rule prod.exhaust)
  note poll = poll_stores_first_answer [OF assms(1,2) run assms(3)]
  show ?thesis
  proof (cases "first_answer item (poll_exchange port item (rc_timeout_ms cfg)) dev [0..<Suc (rc_retry_count cfg)]")
    case None
    then obtain e where e: "r = Inl e" "bus_results s' = bus_results s" using poll by (auto simp only: option.case)
    then show ?thesis
      using read_after_clear [OF assms(1,2)] assms(3)
      unfolding None option.case by (simp add: run_item_def run with_results_def)
  next
    case (Some data)
    then show ?thesis using poll unfolding Some option.case by (simp add: run_item_def run)
  qed
qed

text \<open>C21: A turn of a port's loop, as master or as slave, with whatever the line delivers and however the
  configuration changes, keeps the register map well-formed and the poll table valid.\<close>

theorem port_pass_keeps_state:
  assumes "bus_wf s" and "list_all poll_item_ok (pw_table w)" and "port_pass index env (w, s) = (io, w', s')"
  shows "bus_wf s' \<and> list_all poll_item_ok (pw_table w')"
proof (cases "runtime_config_of index (pe_dip env) (bus_config s)")
  case (Some d)
  define w1 where "w1 = (if pw_active w \<noteq> Some d
     then (if pe_open_ok env then w\<lparr>pw_port := Some (rc_wire d), pw_active := Some d\<rparr>
           else w\<lparr>pw_port := None, pw_active := None\<rparr>) else w)"
  have w1: "worker_ok w1" using assms(2) by (simp add: w1_def worker_ok_def)
  show ?thesis
  proof (cases "pw_port w1")
    case None
    then show ?thesis using assms w1 Some by (auto simp: port_pass_def Let_def worker_ok_def simp flip: w1_def)
  next
    case (Some port)
    show ?thesis
    proof (cases "rc_mode d")
      case PortMaster
      obtain polled w2 s2 where m: "master_pass index port d env (w1, s) = (polled, w2, s2)" by (rule prod_cases3)
      have "w' = w2 \<and> s' = s2"
        using assms(3) \<open>runtime_config_of _ _ _ = _\<close> Some PortMaster m
        by (simp add: port_pass_def Let_def flip: w1_def)
      then show ?thesis using master_pass_ok [OF w1 assms(1) m] by (simp add: worker_ok_def)
    next
      case PortSlave
      obtain answer s2 where m: "slave_pass index d env s = (answer, s2)" by (rule prod.exhaust)
      have "w' = w1 \<and> s' = s2"
        using assms(3) \<open>runtime_config_of _ _ _ = _\<close> Some PortSlave m
        by (simp add: port_pass_def Let_def flip: w1_def)
      moreover have "bus_wf s2"
        using m assms(1) bus_wf_handle_request [OF assms(1)]
        by (auto simp: slave_pass_def split: option.splits if_splits) (metis snd_conv)+
      ultimately show ?thesis using w1 by (simp add: worker_ok_def)
    qed
  qed
qed (use assms in \<open>simp add: port_pass_def\<close>)

section \<open>Concrete instances\<close>

definition sample_worker :: port_worker where
  "sample_worker = \<lparr>pw_active = None, pw_port = None,
     pw_table = map (\<lambda>i. sample_item\<lparr>pi_slave := of_nat (i + 1), pi_dest := 4000 + of_nat i\<rparr>) [0..<7],
     pw_cursor = 0, pw_generation = 5\<rparr>"

definition sample_env :: "(nat \<Rightarrow> nat) \<Rightarrow> (nat \<Rightarrow> nat \<Rightarrow> exchange \<Rightarrow> line_reply) \<Rightarrow> pass_env" where
  "sample_env clk line = \<lparr>pe_clock = clk, pe_line = line, pe_open_ok = True, pe_dip = 0, pe_generation = 5,
     pe_generation_after = 5, pe_received = None\<rparr>"

definition sample_runtime :: runtime_config where
  "sample_runtime = apply_runtime_policy 0 rs485_default wire_default 0"

lemma sample_worker_table: "length (pw_table sample_worker) = 7" "pw_table sample_worker \<noteq> []"
  "\<forall>item\<in>set (pw_table sample_worker). unat (pi_port item) = 0 + 1" "pw_cursor sample_worker = 0"
  "pw_generation sample_worker = 5"
  by (auto simp: sample_worker_def sample_item_def)

theorem pass_polls_every_item_witness:
  "\<exists>polled w' s'. master_pass 0 wire_default sample_runtime (sample_env (\<lambda>i. 10 * i) (\<lambda>_ _ _. LineError))
     (sample_worker, sample_master) = (polled, w', s') \<and> set polled = {0..<7}"
proof -
  obtain polled w' s' where run: "master_pass 0 wire_default sample_runtime (sample_env (\<lambda>i. 10 * i) (\<lambda>_ _ _. LineError))
     (sample_worker, sample_master) = (polled, w', s')" by (rule prod_cases3)
  have "polled = [0..<7]"
    using pass_polls_every_item [OF _ _ _ run] sample_worker_table by (simp add: sample_env_def)
  then show ?thesis using run by simp
qed

text \<open>Seven slaves that do not answer, each taking 850 milliseconds.\<close>

theorem deferred_item_is_never_polled_witness:
  "\<exists>polls w' s'. master_passes 0 wire_default sample_runtime
     (replicate 100 (sample_env (\<lambda>i. 850 * (i - 1)) (\<lambda>_ _ _. LineError))) (sample_worker, sample_master) = (polls, w', s') \<and>
     (\<forall>polled\<in>set polls. 6 \<notin> set polled)"
proof -
  obtain polls w' s' where run: "master_passes 0 wire_default sample_runtime
     (replicate 100 (sample_env (\<lambda>i. 850 * (i - 1)) (\<lambda>_ _ _. LineError))) (sample_worker, sample_master) = (polls, w', s')"
    by (rule prod_cases3)
  have "\<forall>polled\<in>set polls. length (pw_table sample_worker) - 1 \<notin> set polled"
    using sample_worker_table(1,5)
    by (intro deferred_item_is_never_polled [OF sample_worker_table(3,2,4) _ run]) (auto simp: sample_env_def)
  then show ?thesis using run sample_worker_table(1) by auto
qed

theorem results_are_fresh_witness:
  "read_result_reg (bus_results (run_item wire_default sample_runtime (\<lambda>_ _. LineFrame (rtu_frame 1 [3, 2, 0, 7]))
     sample_item sample_master)) 4000 = Some 7 \<and>
   read_result_reg (bus_results (run_item wire_default sample_runtime (\<lambda>_ _. LineError) sample_item
     (run_item wire_default sample_runtime (\<lambda>_ _. LineFrame (rtu_frame 1 [3, 2, 0, 7])) sample_item sample_master)))
     4000 = Some 0"
proof -
  let ?ok = "\<lambda>_ _. LineFrame (rtu_frame 1 [3, 2, 0, 7])"
  let ?s = "run_item wire_default sample_runtime ?ok sample_item sample_master"
  have retry: "rc_retry_count sample_runtime = 0" by (simp add: sample_runtime_def apply_runtime_policy_def rs485_default_def)
  have d: "answer_data sample_item (LineFrame (rtu_frame 1 [3, 2, 0, 7])) = Some [0, 7]"
    using answer_data_frame [of "[0, 7]" sample_item] by (simp add: expected_payload_def sample_item_def)
  have 1: "read_result_reg (bus_results ?s) (pi_dest sample_item + of_nat 0) = Some 7"
    using results_are_fresh [OF sample_item_ok sample_master_results, of wire_default sample_runtime ?ok] d retry
    by (simp add: sample_item_def first_answer_def poll_words_def be16_def List.map_filter_simps)
  have area: "area_wf (bus_results ?s)"
    by (rule area_wf_run_item [OF sample_master_results(1) sample_item_ok])
  have "\<forall>k<unat (pi_count sample_item). read_result_reg (bus_results ?s) (pi_dest sample_item + of_nat k) \<noteq> None"
    using 1 by (simp add: sample_item_def)
  then have "read_result_reg (bus_results (run_item wire_default sample_runtime (\<lambda>_ _. LineError) sample_item ?s))
      (pi_dest sample_item + of_nat 0) = Some 0"
    using results_are_fresh [OF sample_item_ok area, of wire_default sample_runtime "\<lambda>_ _. LineError"] retry
    by (simp add: sample_item_def first_answer_def List.map_filter_simps answer_data_def)
  with 1 show ?thesis by (simp add: sample_item_def)
qed

theorem port_pass_keeps_state_witness:
  "\<exists>io w' s'. port_pass 0 (sample_env (\<lambda>i. i) (\<lambda>_ _ _. LineError)) (port_worker_new, bus_start env_idle) = (io, w', s') \<and>
     bus_wf s'"
proof -
  obtain io w' s' where run:
    "port_pass 0 (sample_env (\<lambda>i. i) (\<lambda>_ _ _. LineError)) (port_worker_new, bus_start env_idle) = (io, w', s')"
    by (rule prod_cases3)
  show ?thesis
    using port_pass_keeps_state [OF bus_wf_idle _ run] run by (auto simp: port_worker_new_def)
qed

end
