(* ===== verification/Tcp_Client.thy ===== *)
theory Tcp_Client imports Bus_Safety begin

text \<open>
  One connection of the Modbus TCP server of \<open>src/modbus/tcp_server.rs\<close>: framing, the
  receive and transmit buffers and one poll.  The socket is a driver: what it will answer to the
  following reads and writes, and what the clock will show at the following readings, is part of the
  connection.  A socket with nothing left to answer would block.  Times are in microseconds.
\<close>

abbreviation (input) MBAP_PREFIX_LEN :: nat where "MBAP_PREFIX_LEN \<equiv> 6"
abbreviation (input) MBAP_HEADER_LEN :: nat where "MBAP_HEADER_LEN \<equiv> 7"
abbreviation (input) MAX_MBAP_LENGTH :: nat where "MAX_MBAP_LENGTH \<equiv> 254"
abbreviation (input) MAX_ADU_SIZE :: nat where "MAX_ADU_SIZE \<equiv> 260"
abbreviation (input) MAX_REQUESTS_PER_POLL :: nat where "MAX_REQUESTS_PER_POLL \<equiv> 4"
abbreviation (input) PARTIAL_FRAME_TIMEOUT :: nat where "PARTIAL_FRAME_TIMEOUT \<equiv> 30000000"
abbreviation (input) TX_TIMEOUT :: nat where "TX_TIMEOUT \<equiv> 5000000"
abbreviation (input) IDLE_TIMEOUT :: nat where "IDLE_TIMEOUT \<equiv> 120000000"

section \<open>Frames\<close>

definition tcp_build_response :: "bus_state \<Rightarrow> u8 list \<Rightarrow> u8 list \<Rightarrow> nat option \<times> u8 list \<times> bus_state" where
  "tcp_build_response s request response =
     (if length request < MBAP_HEADER_LEN + 1 then (None, response, s)
      else let func = request ! 7;
               (pdu_len, pdu, s') = handle_pdu bus_backend s func (drop 8 request) (replicate PDU_BUF_SIZE 0);
               total_len = MBAP_HEADER_LEN + pdu_len
        in if total_len > length response then (None, response, s')
           else let r = copy_at response 0 (take 2 request);
                    r = copy_at r 2 (be_bytes 0);
                    r = copy_at r 4 (be_bytes (of_nat (1 + pdu_len)));
                    r = r[6 := request ! 6];
                    r = copy_at r 7 (take pdu_len pdu)
                in (Some total_len, r, s'))"

section \<open>Socket and connection\<close>

datatype read_result = RdData "u8 list" | RdWouldBlock | RdInterrupted | RdFailed

datatype write_outcome = WrOk nat | WrWouldBlock | WrInterrupted | WrFailed

record tcp_socket =
  sk_reads :: "read_result list"
  sk_writes :: "write_outcome list"
  sk_sent :: "u8 list"
  sk_clock :: "nat list"

record tcp_client =
  cl_id :: u32
  cl_listener_port :: u16
  cl_initial_slot :: nat
  cl_socket :: tcp_socket
  cl_rx :: "u8 list"
  cl_rx_len :: nat
  cl_tx :: "u8 list"
  cl_tx_len :: nat
  cl_tx_sent :: nat
  cl_last_activity :: nat
  cl_partial_frame_started :: "nat option"
  cl_tx_started :: "nat option"

text \<open>One reading of the clock; the last reading repeats when the script is used up.\<close>

definition clock_now :: "tcp_client \<Rightarrow> nat \<times> tcp_client" where
  "clock_now c =
     (case sk_clock (cl_socket c) of
        [] \<Rightarrow> (0, c)
      | [t] \<Rightarrow> (t, c)
      | t # u # ts \<Rightarrow> (t, c\<lparr>cl_socket := (cl_socket c)\<lparr>sk_clock := u # ts\<rparr>\<rparr>))"

definition client_new :: "u32 \<Rightarrow> u16 \<Rightarrow> nat \<Rightarrow> tcp_socket \<Rightarrow> tcp_client" where
  "client_new conn_id port slot sock =
     (let c = \<lparr>cl_id = conn_id, cl_listener_port = port, cl_initial_slot = slot, cl_socket = sock,
            cl_rx = replicate MAX_ADU_SIZE 0, cl_rx_len = 0, cl_tx = replicate MAX_ADU_SIZE 0,
            cl_tx_len = 0, cl_tx_sent = 0, cl_last_activity = 0, cl_partial_frame_started = None,
            cl_tx_started = None\<rparr>;
          (now, c) = clock_now c
      in c\<lparr>cl_last_activity := now\<rparr>)"

definition listener_port_slot :: "u16 list \<Rightarrow> tcp_client \<Rightarrow> nat" where
  "listener_port_slot active_ports c =
     (case find (\<lambda>i. active_ports ! i = cl_listener_port c) [0..<length active_ports] of
        Some i \<Rightarrow> i
      | None \<Rightarrow> cl_initial_slot c)"

definition client_timed_out_at :: "nat \<Rightarrow> nat option \<Rightarrow> nat option \<Rightarrow> nat \<Rightarrow> bool \<Rightarrow> bool" where
  "client_timed_out_at now partial_frame_started tx_started last_activity tx_pending \<longleftrightarrow>
     (case partial_frame_started of None \<Rightarrow> False | Some t \<Rightarrow> now - t \<ge> PARTIAL_FRAME_TIMEOUT) \<or>
     (case tx_started of None \<Rightarrow> False | Some t \<Rightarrow> now - t \<ge> TX_TIMEOUT) \<or>
     now - last_activity \<ge> (if tx_pending then TX_TIMEOUT else IDLE_TIMEOUT)"

definition is_timed_out_at :: "nat \<Rightarrow> tcp_client \<Rightarrow> bool" where
  "is_timed_out_at now c =
     client_timed_out_at now (cl_partial_frame_started c) (cl_tx_started c) (cl_last_activity c)
       (cl_tx_len c \<noteq> 0)"

definition is_timed_out :: "tcp_client \<Rightarrow> bool \<times> tcp_client" where
  "is_timed_out c = (let (now, c) = clock_now c in (is_timed_out_at now c, c))"

section \<open>Sending\<close>

text \<open>The socket accepts up to the offered number of bytes of what is still unsent.\<close>

definition note_sent :: "nat \<Rightarrow> tcp_client \<Rightarrow> tcp_client" where
  "note_sent n c =
     (let n = min n (cl_tx_len c - cl_tx_sent c);
          c = c\<lparr>cl_socket := (cl_socket c)
                 \<lparr>sk_sent := sk_sent (cl_socket c) @ slice (cl_tx c) (cl_tx_sent c) (cl_tx_sent c + n)\<rparr>,
                cl_tx_sent := cl_tx_sent c + n\<rparr>;
          (now, c) = clock_now c
      in c\<lparr>cl_last_activity := now\<rparr>)"

definition set_writes :: "write_outcome list \<Rightarrow> tcp_client \<Rightarrow> tcp_client" where
  "set_writes ws c = c\<lparr>cl_socket := (cl_socket c)\<lparr>sk_writes := ws\<rparr>\<rparr>"

fun flush_loop :: "write_outcome list \<Rightarrow> tcp_client \<Rightarrow> bool \<times> tcp_client" where
  "flush_loop ws c =
     (if cl_tx_sent c < cl_tx_len c then
        (case ws of
           [] \<Rightarrow> (True, set_writes [] c)
         | WrOk n # ws \<Rightarrow>
             if n = 0 then (False, set_writes ws c) else flush_loop ws (note_sent n c)
         | WrWouldBlock # ws \<Rightarrow> (True, set_writes ws c)
         | WrInterrupted # ws \<Rightarrow> flush_loop ws c
         | WrFailed # ws \<Rightarrow> (False, set_writes ws c))
      else let c = set_writes ws c
        in (True, if cl_tx_len c \<noteq> 0
              then c\<lparr>cl_tx_len := 0, cl_tx_sent := 0, cl_tx_started := None\<rparr> else c))"

definition flush_tx :: "tcp_client \<Rightarrow> bool \<times> tcp_client" where
  "flush_tx c = flush_loop (sk_writes (cl_socket c)) c"

declare flush_loop.simps [simp del]

section \<open>Receiving\<close>

definition process_buffered_request :: "tcp_client \<times> bus_state \<Rightarrow> bool \<times> tcp_client \<times> bus_state" where
  "process_buffered_request cs =
     (let c = fst cs; s = snd cs in
      if cl_rx_len c < MBAP_PREFIX_LEN then (True, c, s)
      else let protocol = be16 (cl_rx c ! 2) (cl_rx c ! 3);
               len = unat (be16 (cl_rx c ! 4) (cl_rx c ! 5)) in
      if protocol \<noteq> 0 \<or> \<not> (2 \<le> len \<and> len \<le> MAX_MBAP_LENGTH) then (False, c, s)
      else let request_len = MBAP_PREFIX_LEN + len in
      if cl_rx_len c < request_len then (True, c, s)
      else (case tcp_build_response s (take request_len (cl_rx c)) (cl_tx c) of
              (None, tx, s') \<Rightarrow> (False, c\<lparr>cl_tx := tx\<rparr>, s')
            | (Some n, tx, s') \<Rightarrow>
                let c = c\<lparr>cl_tx := tx, cl_tx_len := n, cl_tx_sent := 0\<rparr>;
                    (now, c) = clock_now c;
                    c = c\<lparr>cl_tx_started := Some now\<rparr>;
                    c = c\<lparr>cl_rx := copy_at (cl_rx c) 0 (slice (cl_rx c) request_len (cl_rx_len c)),
                          cl_rx_len := cl_rx_len c - request_len\<rparr>;
                    c = (if cl_rx_len c = 0 then c\<lparr>cl_partial_frame_started := None\<rparr> else c)
                in (True, c, s')))"

datatype read_step = ReadClosed | ReadStop | ReadAgain | ReadGot

definition set_reads :: "read_result list \<Rightarrow> tcp_client \<Rightarrow> tcp_client" where
  "set_reads rs c = c\<lparr>cl_socket := (cl_socket c)\<lparr>sk_reads := rs\<rparr>\<rparr>"

text \<open>A read takes what fits the rest of the buffer and leaves the remainder in the socket.  An empty
  datum is the end of the stream, and a read into no room returns nothing as well.\<close>

definition read_socket :: "tcp_client \<Rightarrow> read_step \<times> tcp_client" where
  "read_socket c =
     (let room = length (cl_rx c) - cl_rx_len c in
      case sk_reads (cl_socket c) of
        [] \<Rightarrow> (ReadStop, c)
      | RdData bs # rs \<Rightarrow>
          let got = take room bs; rest = drop room bs;
              c = set_reads (if rest = [] then rs else RdData rest # rs) c
          in if got = [] then (ReadClosed, c)
             else let c = c\<lparr>cl_rx := copy_at (cl_rx c) (cl_rx_len c) got\<rparr>;
                      (now, c) = clock_now c;
                      c = (if cl_rx_len c = 0 then c\<lparr>cl_partial_frame_started := Some now\<rparr> else c)
                  in (ReadGot, c\<lparr>cl_rx_len := cl_rx_len c + length got, cl_last_activity := now\<rparr>)
      | RdWouldBlock # rs \<Rightarrow> (ReadStop, set_reads rs c)
      | RdInterrupted # rs \<Rightarrow> (ReadAgain, set_reads rs c)
      | RdFailed # rs \<Rightarrow> (ReadClosed, set_reads rs c))"

section \<open>One poll\<close>

datatype poll_step = PollClose | PollBreak | PollContinue

text \<open>One round of the loop of \<open>poll\<close>; the budget is what is left of it.\<close>

definition poll_round :: "nat \<Rightarrow> nat \<times> tcp_client \<times> bus_state \<Rightarrow> poll_step \<times> nat \<times> tcp_client \<times> bus_state" where
  "poll_round deadline bcs =
     (let (budget, c, s) = bcs;
          (ok, c) = flush_tx c in
      if \<not> ok then (PollClose, budget, c, s)
      else if cl_tx_len c \<noteq> 0 then (PollBreak, budget, c, s)
      else if budget = 0 then (PollBreak, budget, c, s)
      else let (now, c) = clock_now c in
      if now \<ge> deadline then (PollBreak, budget, c, s)
      else let (ok, c, s) = process_buffered_request (c, s) in
      if \<not> ok then (PollClose, budget, c, s)
      else if cl_tx_len c \<noteq> 0 then (PollContinue, budget - 1, c, s)
      else let (r, c) = read_socket c in
      case r of
        ReadClosed \<Rightarrow> (PollClose, budget, c, s)
      | ReadStop \<Rightarrow> (PollBreak, budget, c, s)
      | ReadAgain \<Rightarrow> (PollContinue, budget, c, s)
      | ReadGot \<Rightarrow>
          let (now, c) = clock_now c in
          if now \<ge> deadline then (PollBreak, budget, c, s)
          else let (ok, c, s) = process_buffered_request (c, s) in
          if \<not> ok then (PollClose, budget, c, s)
          else (PollContinue, if cl_tx_len c \<noteq> 0 then budget - 1 else budget, c, s))"

fun poll_loop :: "nat \<Rightarrow> nat \<Rightarrow> nat \<times> tcp_client \<times> bus_state \<Rightarrow> bool \<times> nat \<times> tcp_client \<times> bus_state" where
  "poll_loop 0 deadline bcs = (True, bcs)"
| "poll_loop (Suc n) deadline bcs =
     (case poll_round deadline bcs of
        (PollClose, bcs) \<Rightarrow> (False, bcs)
      | (PollBreak, bcs) \<Rightarrow> (True, bcs)
      | (PollContinue, bcs) \<Rightarrow> poll_loop n deadline bcs)"

definition client_poll :: "nat \<Rightarrow> nat \<times> tcp_client \<times> bus_state \<Rightarrow> bool \<times> nat \<times> tcp_client \<times> bus_state" where
  "client_poll deadline bcs =
     (let (ok, budget, c, s) = poll_loop MAX_REQUESTS_PER_POLL deadline bcs in
      if \<not> ok then (False, budget, c, s)
      else let (ok, c) = flush_tx c in
      if \<not> ok then (False, budget, c, s)
      else let (late, c) = is_timed_out c in (\<not> late, budget, c, s))"

section \<open>The byte streams of a connection\<close>

text \<open>A complete request, and what the abstract server does with a sequence of them.\<close>

definition is_adu :: "u8 list \<Rightarrow> bool" where
  "is_adu a \<longleftrightarrow> 8 \<le> length a \<and> length a \<le> MAX_ADU_SIZE \<and> a ! 2 = 0 \<and> a ! 3 = 0 \<and>
     unat (be16 (a ! 4) (a ! 5)) + 6 = length a"

definition serve_adu :: "bus_state \<Rightarrow> u8 list \<Rightarrow> u8 list \<times> bus_state" where
  "serve_adu s a =
     (let (resp, s') = serve_pdu bus_backend bus_view s (a ! 7) (drop 8 a)
      in (take 2 a @ [0, 0] @ be_bytes (of_nat (1 + length resp)) @ [a ! 6] @ resp, s'))"

fun serve_adus :: "bus_state \<Rightarrow> u8 list list \<Rightarrow> u8 list \<times> bus_state" where
  "serve_adus s [] = ([], s)"
| "serve_adus s (a # as) =
     (let (r, s1) = serve_adu s a; (rs, s2) = serve_adus s1 as in (r @ rs, s2))"

text \<open>What has been received and not yet consumed, with what the socket still holds; and what has been
  sent, with what waits in the transmit buffer.\<close>

definition read_bytes :: "read_result list \<Rightarrow> u8 list" where
  "read_bytes rs = concat (map (\<lambda>r. case r of RdData bs \<Rightarrow> bs | _ \<Rightarrow> []) rs)"

definition cl_stream :: "tcp_client \<Rightarrow> u8 list" where
  "cl_stream c = take (cl_rx_len c) (cl_rx c) @ read_bytes (sk_reads (cl_socket c))"

definition cl_output :: "tcp_client \<Rightarrow> u8 list" where
  "cl_output c = sk_sent (cl_socket c) @ slice (cl_tx c) (cl_tx_sent c) (cl_tx_len c)"

definition client_wf :: "tcp_client \<Rightarrow> bool" where
  "client_wf c \<longleftrightarrow> length (cl_rx c) = MAX_ADU_SIZE \<and> cl_rx_len c \<le> MAX_ADU_SIZE \<and>
     length (cl_tx c) = MAX_ADU_SIZE \<and> cl_tx_len c \<le> MAX_ADU_SIZE \<and> cl_tx_sent c \<le> cl_tx_len c"

definition progress :: "tcp_client \<times> bus_state \<Rightarrow> u8 list list \<Rightarrow> tcp_client \<times> bus_state \<Rightarrow> bool" where
  "progress cs as cs' \<longleftrightarrow>
     cl_stream (fst cs) = concat as @ cl_stream (fst cs') \<and> list_all is_adu as \<and>
     cl_output (fst cs') = cl_output (fst cs) @ fst (serve_adus (snd cs) as) \<and>
     snd cs' = snd (serve_adus (snd cs) as) \<and> client_wf (fst cs') \<and> bus_wf (snd cs') \<and>
     cl_id (fst cs') = cl_id (fst cs) \<and> cl_listener_port (fst cs') = cl_listener_port (fst cs) \<and>
     cl_initial_slot (fst cs') = cl_initial_slot (fst cs)"

lemma serve_adus_append:
  "serve_adus s (as @ bs) =
    (fst (serve_adus s as) @ fst (serve_adus (snd (serve_adus s as)) bs),
     snd (serve_adus (snd (serve_adus s as)) bs))"
  by (induction as arbitrary: s) (auto simp: Let_def split_beta)

lemma progress_refl: "client_wf c \<Longrightarrow> bus_wf s \<Longrightarrow> progress (c, s) [] (c, s)"
  by (simp add: progress_def)

lemma progress_trans [trans]:
  "progress cs as cs1 \<Longrightarrow> progress cs1 bs cs2 \<Longrightarrow> progress cs (as @ bs) cs2"
  by (auto simp: progress_def serve_adus_append)

lemma progress_wf:
  "progress cs as (c, s) \<Longrightarrow> client_wf c \<and> bus_wf s"
  unfolding progress_def fst_conv snd_conv by blast

lemma clock_now_sel [simp]:
  "cl_id (snd (clock_now c)) = cl_id c" "cl_listener_port (snd (clock_now c)) = cl_listener_port c"
  "cl_initial_slot (snd (clock_now c)) = cl_initial_slot c"
  "cl_rx (snd (clock_now c)) = cl_rx c" "cl_rx_len (snd (clock_now c)) = cl_rx_len c"
  "cl_tx (snd (clock_now c)) = cl_tx c" "cl_tx_len (snd (clock_now c)) = cl_tx_len c"
  "cl_tx_sent (snd (clock_now c)) = cl_tx_sent c"
  "cl_partial_frame_started (snd (clock_now c)) = cl_partial_frame_started c"
  "cl_tx_started (snd (clock_now c)) = cl_tx_started c"
  "sk_reads (cl_socket (snd (clock_now c))) = sk_reads (cl_socket c)"
  "sk_writes (cl_socket (snd (clock_now c))) = sk_writes (cl_socket c)"
  "sk_sent (cl_socket (snd (clock_now c))) = sk_sent (cl_socket c)"
  by (auto simp: clock_now_def split: list.split)

lemma progress_same:
  assumes "client_wf c" "bus_wf s" "cl_id d = cl_id c" "cl_listener_port d = cl_listener_port c"
    "cl_initial_slot d = cl_initial_slot c" "cl_stream d = cl_stream c" "cl_output d = cl_output c"
    "client_wf d"
  shows "progress (c, s) [] (d, s)"
  using assms by (simp add: progress_def)

lemma progress_clock: "client_wf c \<Longrightarrow> bus_wf s \<Longrightarrow> progress (c, s) [] (snd (clock_now c), s)"
  by (rule progress_same) (simp_all add: cl_stream_def cl_output_def client_wf_def)

section \<open>Each step makes progress\<close>

lemma slice_split:
  assumes "i \<le> j" "j \<le> k"
  shows "slice xs i j @ slice xs j k = slice xs i k"
proof -
  have "take k xs = take j xs @ drop j (take k xs)"
    using assms(2) append_take_drop_id [of j "take k xs"] by (simp add: min_absorb1)
  then have "slice xs i k = drop i (take j xs @ drop j (take k xs))" by (simp add: slice_def)
  then show ?thesis using assms(1) by (cases "j \<le> length xs") (simp_all add: slice_def)
qed

lemma note_sent_progress:
  assumes "client_wf c" "bus_wf s"
  shows "progress (c, s) [] (note_sent n c, s)"
proof (rule progress_same [OF assms])
  let ?m = "min n (cl_tx_len c - cl_tx_sent c)"
  have "cl_tx_sent c + ?m \<le> cl_tx_len c" using assms(1) by (auto simp: client_wf_def)
  then show "cl_output (note_sent n c) = cl_output c" "client_wf (note_sent n c)"
    using assms(1) slice_split [of "cl_tx_sent c" "cl_tx_sent c + ?m" "cl_tx_len c" "cl_tx c"]
    by (simp_all add: cl_output_def note_sent_def Let_def split_beta client_wf_def)
qed (simp_all add: note_sent_def Let_def split_beta cl_stream_def)

lemma flush_loop_progress:
  assumes "client_wf c" "bus_wf s"
  shows "progress (c, s) [] (snd (flush_loop ws c), s) "
  using assms
proof (induction ws c rule: flush_loop.induct)
  case (1 ws c)
  have set_w: "progress (c, s) [] (set_writes ws' c, s)" for ws'
    using "1.prems" by (intro progress_same) (simp_all add: set_writes_def cl_stream_def cl_output_def client_wf_def)
  show ?case
  proof (cases "cl_tx_sent c < cl_tx_len c")
    case False
    then have "cl_output (c\<lparr>cl_tx_len := 0, cl_tx_sent := 0\<rparr>) = cl_output c"
      using "1.prems" by (simp add: cl_output_def client_wf_def slice_def)
    then have "progress (c, s) [] ((set_writes ws c)\<lparr>cl_tx_len := 0, cl_tx_sent := 0, cl_tx_started := None\<rparr>, s)"
      using "1.prems" by (intro progress_same) (simp_all add: set_writes_def cl_stream_def cl_output_def client_wf_def)
    then show ?thesis using False set_w by (subst flush_loop.simps) (auto simp: Let_def set_writes_def)
  next
    case more: True
    show ?thesis
    proof (cases ws)
      case Nil
      then show ?thesis using more set_w by (subst flush_loop.simps) auto
    next
      case (Cons w ws')
      show ?thesis
      proof (cases w)
        case (WrOk n)
        show ?thesis
        proof (cases "n = 0")
          case True
          then show ?thesis using more Cons WrOk set_w by (subst flush_loop.simps) auto
        next
          case False
          have "progress (c, s) [] (note_sent n c, s)" by (rule note_sent_progress [OF "1.prems"])
          moreover from this have wf: "client_wf (note_sent n c)" by (simp add: progress_def)
          note IH = "1.IH"(1) [OF more Cons WrOk False wf "1.prems"(2)]
          ultimately have "progress (c, s) ([] @ []) (snd (flush_loop ws' (note_sent n c)), s)"
            by (blast intro: progress_trans)
          then show ?thesis using more Cons WrOk False by (subst flush_loop.simps) simp
        qed
      next
        case WrInterrupted
        then show ?thesis
          using more Cons "1.IH"(2) [OF more Cons WrInterrupted "1.prems"]
          by (subst flush_loop.simps) simp
      qed (use more Cons set_w in \<open>(subst flush_loop.simps, auto)+\<close>)
    qed
  qed
qed

lemma flush_tx_progress:
  assumes "client_wf c" "bus_wf s" "flush_tx c = (ok, d)"
  shows "progress (c, s) [] (d, s)"
  using flush_loop_progress [OF assms(1,2), of "sk_writes (cl_socket c)"] assms(3)
  by (simp add: flush_tx_def)

lemma copy_at_prefix:
  "length buf = n \<Longrightarrow> i + length xs \<le> n \<Longrightarrow> take i buf = ys \<Longrightarrow> length ys = i \<Longrightarrow>
    take (i + length xs) (copy_at buf i xs) = ys @ xs"
  by (simp add: copy_at_def)

lemma tcp_build_response_serves:
  assumes "bus_wf s" "is_adu a" "length tx = MAX_ADU_SIZE"
  shows "\<exists>n tx'. tcp_build_response s a tx = (Some n, tx', snd (serve_adu s a)) \<and>
    take n tx' = fst (serve_adu s a) \<and> length tx' = MAX_ADU_SIZE \<and> 9 \<le> n \<and> n \<le> MAX_ADU_SIZE \<and>
    bus_wf (snd (serve_adu s a))"
proof -
  obtain n out s' where run: "handle_pdu bus_backend s (a ! 7) (drop 8 a) (replicate 253 0) = (n, out, s')"
    by (rule prod_cases3)
  note * = bus.handle_pdu_refines [OF assms(1) _ run]
  have spec: "serve_pdu bus_backend bus_view s (a ! 7) (drop 8 a) = (take n out, s')"
    and n: "2 \<le> n" "n \<le> 253" "length out = 253" "bus_wf s'" using * by simp_all
  have a: "8 \<le> length a" using assms(2) by (simp add: is_adu_def)
  let ?resp = "take n out"
  let ?r1 = "copy_at tx 0 (take 2 a)" let ?r2 = "copy_at ?r1 2 (be_bytes 0)"
  let ?r3 = "copy_at ?r2 4 (be_bytes (of_nat (1 + n)))" let ?r4 = "?r3[6 := a ! 6]"
  have len: "length ?r1 = 260" "length ?r2 = 260" "length ?r3 = 260" "length ?r4 = 260"
    "length (copy_at ?r4 7 ?resp) = 260"
    using assms(3) a n by simp_all
  have 1: "take 2 ?r1 = take 2 a" using a by (simp add: copy_at_def)
  have 2: "take 4 ?r2 = take 2 a @ [0, 0]"
    using copy_at_prefix [OF len(1) _ 1, of "be_bytes 0"] a by (simp add: be_bytes_def hi8_def lo8_def)
  have 3: "take 6 ?r3 = take 2 a @ [0, 0] @ be_bytes (of_nat (1 + n))"
    using copy_at_prefix [OF len(2) _ 2, of "be_bytes (of_nat (1 + n))"] a by simp
  have 4: "take 7 ?r4 = take 2 a @ [0, 0] @ be_bytes (of_nat (1 + n)) @ [a ! 6]"
  proof -
    have "take 7 ?r4 = take 6 ?r4 @ [?r4 ! 6]" using len by (simp add: take_Suc_conv_app_nth numeral_eq_Suc)
    also have "take 6 ?r4 = take 6 ?r3" by simp
    finally show ?thesis using 3 len by simp
  qed
  have 5: "take (7 + n) (copy_at ?r4 7 ?resp) = fst (serve_adu s a)"
    using copy_at_prefix [OF len(4) _ 4, of ?resp] a n
    by (simp add: serve_adu_def spec min_absorb1)
  show ?thesis
    using a n assms(3) 5 len
    by (simp add: tcp_build_response_def run spec serve_adu_def)
qed

lemma process_buffered_progress:
  assumes "client_wf c" "bus_wf s" "cl_tx_len c = 0" "process_buffered_request (c, s) = (ok, d, t)"
  shows "(progress (c, s) [] (d, t) \<and> cl_tx_len d = 0 \<and> (ok \<longrightarrow> cl_rx_len d < MAX_ADU_SIZE)) \<or>
    (\<exists>a. progress (c, s) [a] (d, t) \<and> cl_tx_len d \<noteq> 0 \<and> ok)"
proof -
  let ?len = "unat (be16 (cl_rx c ! 4) (cl_rx c ! 5))"
  have wf: "length (cl_rx c) = 260" "cl_rx_len c \<le> 260" "length (cl_tx c) = 260" "cl_tx_sent c = 0"
    using assms(1,3) by (simp_all add: client_wf_def)
  show ?thesis
  proof (cases "6 \<le> cl_rx_len c \<and> be16 (cl_rx c ! 2) (cl_rx c ! 3) = 0 \<and> 2 \<le> ?len \<and> ?len \<le> 254 \<and>
      6 + ?len \<le> cl_rx_len c")
    case False
    have "(d, t) = (c, s) \<and> (ok \<longrightarrow> cl_rx_len c < 260)"
      using assms(4) False by (auto simp: process_buffered_request_def Let_def split: if_splits)
    then show ?thesis using progress_refl [OF assms(1,2)] assms(3) by simp
  next
    case True
    let ?a = "take (6 + ?len) (cl_rx c)"
    have "be16 (cl_rx c ! 2) (cl_rx c ! 3) = 0" using True by simp
    then have z: "cl_rx c ! 2 = 0 \<and> cl_rx c ! 3 = 0"
      by (metis hi8_be16 lo8_be16 hi8_def lo8_def drop_bit_of_0 unsigned_0)
    have adu: "is_adu ?a" using True wf z by (simp add: is_adu_def)
    obtain n tx' where b: "tcp_build_response s ?a (cl_tx c) = (Some n, tx', snd (serve_adu s ?a))"
      "take n tx' = fst (serve_adu s ?a)" "length tx' = 260" "9 \<le> n" "n \<le> 260" "bus_wf (snd (serve_adu s ?a))"
      using tcp_build_response_serves [OF assms(2) adu wf(3)] by blast
    let ?rest = "slice (cl_rx c) (6 + ?len) (cl_rx_len c)"
    have rest: "take (cl_rx_len c - (6 + ?len)) (copy_at (cl_rx c) 0 ?rest) = ?rest"
      "length (copy_at (cl_rx c) 0 ?rest) = 260"
      using wf True by (simp_all add: copy_at_def slice_def)
    have stream: "take (cl_rx_len c) (cl_rx c) = ?a @ ?rest"
      using slice_split [of 0 "6 + ?len" "cl_rx_len c" "cl_rx c"] True by (simp add: slice_def)
    have res: "ok" "t = snd (serve_adu s ?a)" "cl_tx d = tx'" "cl_tx_len d = n" "cl_tx_sent d = 0"
      "cl_rx d = copy_at (cl_rx c) 0 ?rest" "cl_rx_len d = cl_rx_len c - (6 + ?len)"
      "sk_reads (cl_socket d) = sk_reads (cl_socket c)" "sk_sent (cl_socket d) = sk_sent (cl_socket c)"
      "cl_id d = cl_id c" "cl_listener_port d = cl_listener_port c" "cl_initial_slot d = cl_initial_slot c"
      using assms(4) True b(1) by (auto simp: process_buffered_request_def Let_def split_beta)
    have "progress (c, s) [?a] (d, t)"
      using b adu wf stream rest True assms(3)
      by (simp add: progress_def cl_stream_def cl_output_def client_wf_def res split_beta slice_def)
    then show ?thesis using res b(4) by auto
  qed
qed


lemma read_bytes_Cons [simp]:
  "read_bytes (r # rs) = (case r of RdData bs \<Rightarrow> bs | _ \<Rightarrow> []) @ read_bytes rs" "read_bytes [] = []"
  by (simp_all add: read_bytes_def)

lemma read_socket_data:
  fixes c :: tcp_client and bs :: "u8 list"
  assumes "sk_reads (cl_socket c) = RdData bs # rs"
  defines "got \<equiv> take (length (cl_rx c) - cl_rx_len c) bs"
    and "rest \<equiv> drop (length (cl_rx c) - cl_rx_len c) bs"
  defines "c1 \<equiv> set_reads (if rest = [] then rs else RdData rest # rs) c"
  defines "c2 \<equiv> snd (clock_now (c1\<lparr>cl_rx := copy_at (cl_rx c1) (cl_rx_len c1) got\<rparr>))"
    and "now \<equiv> fst (clock_now (c1\<lparr>cl_rx := copy_at (cl_rx c1) (cl_rx_len c1) got\<rparr>))"
  defines "c3 \<equiv> (if cl_rx_len c2 = 0 then c2\<lparr>cl_partial_frame_started := Some now\<rparr> else c2)"
  shows "read_socket c = (if got = [] then (ReadClosed, c1)
    else (ReadGot, c3\<lparr>cl_rx_len := cl_rx_len c3 + length got, cl_last_activity := now\<rparr>))"
  unfolding read_socket_def assms(1) list.case read_result.case Let_def split_beta c3_def c2_def now_def
    c1_def got_def rest_def ..

lemma read_socket_progress:
  assumes "client_wf c" "bus_wf s" "cl_tx_len c = 0" "read_socket c = (r, d)"
  shows "progress (c, s) [] (d, s) \<and> cl_tx_len d = 0"
proof -
  have wf: "length (cl_rx c) = 260" "cl_rx_len c \<le> 260" using assms(1) by (simp_all add: client_wf_def)
  have same: "progress (c, s) [] (set_reads rs c, s) \<and> cl_tx_len (set_reads rs c) = 0"
    if "read_bytes rs = read_bytes (sk_reads (cl_socket c))" for rs
    using that assms(1,2,3) progress_same [OF assms(1,2), of "set_reads rs c"]
    by (simp add: set_reads_def cl_stream_def cl_output_def client_wf_def)
  show ?thesis
  proof (cases "sk_reads (cl_socket c)")
    case Nil
    then show ?thesis using assms(3,4) progress_refl [OF assms(1,2)] by (simp add: read_socket_def)
  next
    case (Cons q rs)
    show ?thesis
    proof (cases q)
      case (RdData bs)
      let ?got = "take (length (cl_rx c) - cl_rx_len c) bs" and ?rest = "drop (length (cl_rx c) - cl_rx_len c) bs"
      let ?c = "set_reads (if ?rest = [] then rs else RdData ?rest # rs) c"
      show ?thesis
      proof (cases "?got = []")
        case True
        then have bytes: "read_bytes (if ?rest = [] then rs else RdData ?rest # rs) = read_bytes (sk_reads (cl_socket c))"
          using Cons RdData append_take_drop_id [of "length (cl_rx c) - cl_rx_len c" bs] by auto
        have "read_socket c = (ReadClosed, ?c)"
          unfolding read_socket_data [OF Cons [unfolded RdData]] if_P [OF True] ..
        then have d: "?c = d" unfolding assms(4) by (rule Pair_inject) (rule sym)
        show ?thesis unfolding d [symmetric] by (rule same [OF bytes])
      next
        case False
        have d: "cl_rx d = copy_at (cl_rx c) (cl_rx_len c) ?got" "cl_rx_len d = cl_rx_len c + length ?got"
          "sk_reads (cl_socket d) = (if ?rest = [] then rs else RdData ?rest # rs)"
          "cl_tx d = cl_tx c" "cl_tx_len d = cl_tx_len c" "cl_tx_sent d = cl_tx_sent c"
          "sk_sent (cl_socket d) = sk_sent (cl_socket c)" "cl_id d = cl_id c"
          "cl_listener_port d = cl_listener_port c" "cl_initial_slot d = cl_initial_slot c"
          using assms(4) unfolding read_socket_data [OF Cons [unfolded RdData]] if_not_P [OF False]
          by (auto simp: set_reads_def)
        have fits: "cl_rx_len c + length ?got \<le> 260" using wf by simp
        have "take (cl_rx_len d) (cl_rx d) = take (cl_rx_len c) (cl_rx c) @ ?got"
          unfolding d using copy_at_prefix [OF wf(1) fits] wf by simp
        moreover have "?got @ read_bytes (sk_reads (cl_socket d)) = bs @ read_bytes rs"
          unfolding d using append_take_drop_id [of "length (cl_rx c) - cl_rx_len c" bs] by simp
        ultimately have "cl_stream d = cl_stream c" by (simp add: cl_stream_def Cons RdData)
        moreover have "client_wf d" using assms(1) wf fits by (simp add: client_wf_def d)
        ultimately show ?thesis
          using progress_same [OF assms(1,2), of d] assms(3) by (simp add: d cl_output_def)
      qed
    qed (use assms(4) Cons same in \<open>auto simp: read_socket_def\<close>)
  qed
qed

lemma poll_round_progress:
  assumes "client_wf c" "bus_wf s" "poll_round deadline (b, c, s) = (r, b', d, t)"
  shows "\<exists>as. progress (c, s) as (d, t) \<and> length as + b' = b \<and> length as \<le> 1"
proof -
  obtain ok c1 where fl: "flush_tx c = (ok, c1)" by (rule prod.exhaust)
  note p1 = flush_tx_progress [OF assms(1,2) fl]
  obtain n2 c2 where ck: "clock_now c1 = (n2, c2)" by (rule prod.exhaust)
  obtain ok3 c3 s3 where pr: "process_buffered_request (c2, s) = (ok3, c3, s3)" by (rule prod_cases3)
  obtain rr c4 where rd: "read_socket c3 = (rr, c4)" by (rule prod.exhaust)
  obtain n5 c5 where ck5: "clock_now c4 = (n5, c5)" by (rule prod.exhaust)
  obtain ok6 c6 s6 where pr6: "process_buffered_request (c5, s3) = (ok6, c6, s6)" by (rule prod_cases3)
  note wf1 = progress_wf [OF p1]
  have p2: "progress (c, s) [] (c2, s)"
    using progress_trans [OF p1 progress_clock] wf1 ck by (metis append_Nil snd_conv)
  note wf2 = progress_wf [OF p2]
  show ?thesis
  proof (cases "\<not> ok \<or> cl_tx_len c1 \<noteq> 0 \<or> b = 0 \<or> n2 \<ge> deadline")
    case True
    then have "(d, t) \<in> {(c1, s), (c2, s)} \<and> b' = b"
      using assms(3) by (auto simp: poll_round_def fl ck split: if_splits)
    then show ?thesis using p1 p2 by (intro exI [of _ "[]"]) auto
  next
    case go: False
    have tx: "cl_tx_len c2 = 0" using go clock_now_sel(7) [of c1] ck by simp
    from process_buffered_progress [OF wf2 [THEN conjunct1] wf2 [THEN conjunct2] tx pr] consider
        "progress (c2, s) [] (c3, s3)" "cl_tx_len c3 = 0"
      | a where "progress (c2, s) [a] (c3, s3)" "cl_tx_len c3 \<noteq> 0" "ok3" by metis
    then show ?thesis
    proof cases
      case (2 a)
      then have "(d, t) = (c3, s3) \<and> b' = b - 1"
        using assms(3) go by (simp add: poll_round_def fl ck pr)
      then show ?thesis using progress_trans [OF p2 2(1)] go by (intro exI [of _ "[a]"]) auto
    next
      case 1
      have p3: "progress (c, s) [] (c3, s3)" using progress_trans [OF p2 1(1)] by simp
      note wf3 = progress_wf [OF p3]
      have p34: "progress (c3, s3) [] (c4, s3)" and tx4: "cl_tx_len c4 = 0"
        using read_socket_progress [OF _ _ 1(2) rd] wf3 by auto
      have p4: "progress (c, s) [] (c4, s3)" using progress_trans [OF p3 p34] by simp
      note wf4 = progress_wf [OF p4]
      have p5: "progress (c, s) [] (c5, s3)"
        using progress_trans [OF p4 progress_clock] wf4 ck5 by (metis append_Nil snd_conv)
      note wf5 = progress_wf [OF p5]
      have tx5: "cl_tx_len c5 = 0" using tx4 clock_now_sel(7) [of c4] ck5 by simp
      show ?thesis
      proof (cases "\<not> ok3 \<or> rr \<noteq> ReadGot \<or> n5 \<ge> deadline")
        case True
        then have "(d, t) \<in> {(c3, s3), (c4, s3), (c5, s3)} \<and> b' = b"
          using assms(3) go 1(2)
          by (auto simp: poll_round_def fl ck pr rd ck5 split: if_splits read_step.splits)
        then show ?thesis using p3 p4 p5 by (intro exI [of _ "[]"]) auto
      next
        case False
        then have res: "(d, t) = (c6, s6) \<and> b' = (if ok6 \<and> cl_tx_len c6 \<noteq> 0 then b - 1 else b)"
          using assms(3) go 1(2)
          by (auto simp: poll_round_def fl ck pr rd ck5 pr6 split: if_splits)
        from process_buffered_progress [OF wf5 [THEN conjunct1] wf5 [THEN conjunct2] tx5 pr6] consider
            "progress (c5, s3) [] (c6, s6)" "cl_tx_len c6 = 0"
          | a where "progress (c5, s3) [a] (c6, s6)" "cl_tx_len c6 \<noteq> 0" "ok6" by metis
        then show ?thesis
        proof cases
          case 1
          then show ?thesis using progress_trans [OF p5 1(1)] res by (intro exI [of _ "[]"]) auto
        next
          case (2 a)
          then show ?thesis using progress_trans [OF p5 2(1)] res go by (intro exI [of _ "[a]"]) auto
        qed
      qed
    qed
  qed
qed

lemma poll_loop_progress:
  assumes "client_wf c" "bus_wf s" "poll_loop n deadline (b, c, s) = (r, b', d, t)"
  shows "\<exists>as. progress (c, s) as (d, t) \<and> length as + b' = b \<and> length as \<le> n"
  using assms
proof (induction n arbitrary: b c s)
  case 0
  then show ?case using progress_refl by (intro exI [of _ "[]"]) simp
next
  case (Suc n)
  obtain q b1 c1 s1 where rd: "poll_round deadline (b, c, s) = (q, b1, c1, s1)" by (rule prod_cases4)
  obtain as where as: "progress (c, s) as (c1, s1)" "length as + b1 = b" "length as \<le> 1"
    using poll_round_progress [OF Suc.prems(1,2) rd] by blast
  show ?case
  proof (cases "q = PollContinue")
    case True
    then have "poll_loop n deadline (b1, c1, s1) = (r, b', d, t)" using Suc.prems(3) rd by simp
    then obtain bs where "progress (c1, s1) bs (d, t)" "length bs + b' = b1" "length bs \<le> n"
      using Suc.IH progress_wf [OF as(1)] by blast
    then show ?thesis using progress_trans [OF as(1)] as by (intro exI [of _ "as @ bs"]) auto
  next
    case False
    then have "(b', d, t) = (b1, c1, s1)" using Suc.prems(3) rd by (cases q) auto
    then show ?thesis using as by (intro exI [of _ as]) auto
  qed
qed

lemma client_poll_progress:
  assumes "client_wf c" "bus_wf s" "client_poll deadline (b, c, s) = (ok, b', d, t)"
  shows "\<exists>as. progress (c, s) as (d, t) \<and> length as + b' = b \<and> length as \<le> 4"
proof -
  obtain ok1 b1 c1 s1 where lp: "poll_loop 4 deadline (b, c, s) = (ok1, b1, c1, s1)" by (rule prod_cases4)
  obtain as where as: "progress (c, s) as (c1, s1)" "length as + b1 = b" "length as \<le> 4"
    using poll_loop_progress [OF assms(1,2) lp] by blast
  obtain ok2 c2 where fl: "flush_tx c1 = (ok2, c2)" by (rule prod.exhaust)
  have p2: "progress (c1, s1) [] (c2, s1)" using flush_tx_progress [OF _ _ fl] progress_wf [OF as(1)] by blast
  have p3: "progress (c1, s1) [] (snd (clock_now c2), s1)"
    using progress_trans [OF p2 progress_clock] progress_wf [OF p2] by fastforce
  have "(b', t) = (b1, s1) \<and> d \<in> {c1, c2, snd (clock_now c2)}"
    using assms(3) by (auto simp: client_poll_def lp fl is_timed_out_def split_beta split: if_splits)
  then show ?thesis
    using as progress_trans [OF as(1) p2] progress_trans [OF as(1) p3] by (intro exI [of _ as]) auto
qed


section \<open>Correctness\<close>

text \<open>C25: One poll of a connection answers exactly the complete requests it takes off the byte stream,
  in their order: the bytes it sent or still holds for sending are the responses of the abstract server,
  no byte of the stream is lost or repeated, each request takes one unit of the budget, and at most four
  are served.  The state is that of the abstract server, the ring log of refused function codes included.\<close>

theorem tcp_poll_refines:
  assumes "client_wf c" and "bus_wf s" and "client_poll deadline (budget, c, s) = (keep, budget', c', s')"
  shows "\<exists>adus. cl_stream c = concat adus @ cl_stream c' \<and> list_all is_adu adus \<and>
    cl_output c' = cl_output c @ fst (serve_adus s adus) \<and> s' = snd (serve_adus s adus) \<and>
    length adus + budget' = budget \<and> length adus \<le> 4 \<and> client_wf c' \<and> bus_wf s'"
  using client_poll_progress [OF assms] unfolding progress_def fst_conv snd_conv by blast

theorem tcp_poll_refines_witness:
  "\<exists>adus keep budget' c' s'.
     client_poll 1500 (1, client_new 1 502 0 \<lparr>sk_reads = [RdData [0, 1, 0, 0, 0, 2, 1, 43]],
       sk_writes = [WrOk 9], sk_sent = [], sk_clock = [0]\<rparr>, bus_start env_idle) = (keep, budget', c', s') \<and>
     [0, 1, 0, 0, 0, 2, 1, 43] = concat adus @ cl_stream c' \<and>
     cl_output c' = fst (serve_adus (bus_start env_idle) adus)"
proof -
  let ?c = "client_new 1 502 0 \<lparr>sk_reads = [RdData [0, 1, 0, 0, 0, 2, 1, 43]],
       sk_writes = [WrOk 9], sk_sent = [], sk_clock = [0]\<rparr>"
  obtain keep b' c' s' where p: "client_poll 1500 (1, ?c, bus_start env_idle) = (keep, b', c', s')"
    by (rule prod_cases4)
  have "client_wf ?c" "cl_stream ?c = [0, 1, 0, 0, 0, 2, 1, 43]" "cl_output ?c = []"
    by (simp_all add: client_new_def clock_now_def client_wf_def cl_stream_def cl_output_def slice_def)
  then obtain adus where "[0, 1, 0, 0, 0, 2, 1, 43] = concat adus @ cl_stream c'"
    "cl_output c' = fst (serve_adus (bus_start env_idle) adus)"
    using tcp_poll_refines [OF _ bus_wf_idle p] by auto
  then show ?thesis using p by (intro exI conjI)
qed

text \<open>C29: A request that arrives whole on an idle connection is answered within the same poll when the socket takes
  the answer in one write: the response is sent, the request is consumed and the connection stays open.  The poll reads
  the clock six times; the first and the third reading have to lie before the end of the tick's window, and the last one
  within the idle limit of the one taken after the write.\<close>

theorem tcp_request_served:
  assumes "client_wf c" and "bus_wf s" and "is_adu a"
    and "t1 < deadline" and "t3 < deadline" and "t6 < t5 + IDLE_TIMEOUT"
    and "cl_rx_len c = 0" and "cl_tx_len c = 0"
    and "cl_socket c = \<lparr>sk_reads = [RdData a], sk_writes = [WrOk MAX_ADU_SIZE], sk_sent = old,
      sk_clock = [t1, t2, t3, t4, t5, t6]\<rparr>"
  shows "\<exists>c'. client_poll deadline (1, c, s) = (True, 0, c', snd (serve_adu s a)) \<and>
    sk_sent (cl_socket c') = old @ fst (serve_adu s a) \<and> cl_rx_len c' = 0 \<and> cl_tx_len c' = 0"
proof -
  have wf: "length (cl_rx c) = 260" "length (cl_tx c) = 260" "cl_tx_sent c = 0"
    using assms(1,8) by (simp_all add: client_wf_def)
  have a: "8 \<le> length a" "length a \<le> 260" "a ! 2 = 0" "a ! 3 = 0" "unat (be16 (a ! 4) (a ! 5)) + 6 = length a"
    using assms(3) by (simp_all add: is_adu_def)
  obtain n tx where b: "tcp_build_response s a (cl_tx c) = (Some n, tx, snd (serve_adu s a))"
    "take n tx = fst (serve_adu s a)" "length tx = 260" "9 \<le> n" "n \<le> 260"
    using tcp_build_response_serves [OF assms(2,3) wf(2)] by blast
  have ne: "a \<noteq> []" using a(1) by auto
  let ?c0 = "c\<lparr>cl_socket := \<lparr>sk_reads = [RdData a], sk_writes = [WrOk 260], sk_sent = old, sk_clock = [t2, t3, t4, t5, t6]\<rparr>\<rparr>"
  let ?c1 = "c\<lparr>cl_socket := \<lparr>sk_reads = [], sk_writes = [WrOk 260], sk_sent = old, sk_clock = [t3, t4, t5, t6]\<rparr>,
      cl_rx := copy_at (cl_rx c) 0 a, cl_rx_len := length a, cl_last_activity := t2, cl_partial_frame_started := Some t2\<rparr>"
  let ?d1 = "c\<lparr>cl_rx := copy_at (cl_rx c) 0 a, cl_rx_len := length a, cl_last_activity := t2, cl_partial_frame_started := Some t2,
      cl_socket := \<lparr>sk_reads = [], sk_writes = [WrOk 260], sk_sent = old, sk_clock = [t4, t5, t6]\<rparr>\<rparr>"
  have flush: "flush_tx c = (True, c)"
    using assms(8,9) by (subst flush_tx_def, subst flush_loop.simps) (simp add: set_writes_def)
  have rd: "read_socket ?c0 = (ReadGot, ?c1)"
    using a(2) wf assms(7) ne by (simp add: read_socket_def set_reads_def clock_now_def Let_def)
  have pr0: "process_buffered_request (?c0, s) = (True, ?c0, s)"
    using assms(7) by (simp add: process_buffered_request_def)
  let ?c2 = "?c1\<lparr>cl_socket := \<lparr>sk_reads = [], sk_writes = [WrOk 260], sk_sent = old, sk_clock = [t5, t6]\<rparr>,
      cl_rx := copy_at (copy_at (cl_rx c) 0 a) 0 [], cl_rx_len := 0,
      cl_partial_frame_started := None, cl_tx := tx, cl_tx_len := n, cl_tx_sent := 0, cl_tx_started := Some t4\<rparr>"
  have nths: "copy_at (cl_rx c) 0 a ! i = a ! i" if "i < 8" for i
    using that a(1,2) wf(1) by (simp add: copy_at_def nth_append)
  have tk: "take (length a) (copy_at (cl_rx c) 0 a) = a" by (simp add: copy_at_def)
  have be0: "be16 0 0 = 0" by (simp add: be16_def)
  have pr: "process_buffered_request (?d1, s) = (True, ?c2, snd (serve_adu s a))"
    using a b(1) tk be0
    by (simp add: process_buffered_request_def nths clock_now_def Let_def slice_def add.commute)
  let ?c3 = "?c2\<lparr>cl_socket := \<lparr>sk_reads = [], sk_writes = [], sk_sent = old @ take n tx, sk_clock = [t6]\<rparr>,
      cl_last_activity := t5, cl_tx_len := 0, cl_tx_sent := 0, cl_tx_started := None\<rparr>"
  have flush2: "flush_tx ?c2 = (True, ?c3)"
  proof -
    have "note_sent 260 ?c2 = ?c2\<lparr>cl_socket := \<lparr>sk_reads = [], sk_writes = [WrOk 260], sk_sent = old @ take n tx, sk_clock = [t6]\<rparr>,
        cl_last_activity := t5, cl_tx_sent := n\<rparr>"
      using b(5) by (simp add: note_sent_def clock_now_def slice_def Let_def)
    then show ?thesis
      using b(4) by (subst flush_tx_def, subst flush_loop.simps) (simp add: flush_loop.simps set_writes_def)
  qed
  have flush3: "flush_tx ?c3 = (True, ?c3)"
    by (subst flush_tx_def, subst flush_loop.simps) (simp add: set_writes_def)
  have ck: "clock_now c = (t1, ?c0)" "clock_now ?c1 = (t3, ?d1)" "clock_now ?c3 = (t6, ?c3)"
    using assms(9) by (simp_all add: clock_now_def)
  have r1: "poll_round deadline (1, c, s) = (PollContinue, 0, ?c2, snd (serve_adu s a))"
    using assms(4,5,8) b(4) by (simp add: poll_round_def flush ck pr0 rd pr)
  have r2: "poll_round deadline (0, ?c2, snd (serve_adu s a)) = (PollBreak, 0, ?c3, snd (serve_adu s a))"
    unfolding poll_round_def Let_def prod.case flush2 by simp
  have lp: "poll_loop 4 deadline (1, c, s) = (True, 0, ?c3, snd (serve_adu s a))"
  proof -
    have 4: "4 = Suc (Suc 2)" by simp
    show ?thesis unfolding 4 poll_loop.simps r1 prod.case poll_step.case r2 ..
  qed
  have "is_timed_out ?c3 = (False, ?c3)"
    unfolding is_timed_out_def ck Let_def prod.case using assms(6) by (simp add: is_timed_out_at_def client_timed_out_at_def)
  then have "client_poll deadline (1, c, s) = (True, 0, ?c3, snd (serve_adu s a))"
    unfolding client_poll_def Let_def lp prod.case flush3 by simp
  then show ?thesis using b(2) by (intro exI [of _ ?c3]) simp
qed

text \<open>A register is written while the clock runs.\<close>

theorem tcp_request_served_witness:
  "\<exists>c' s'. client_poll 1500 (1, client_new 1 502 0 \<lparr>sk_reads = [RdData [0, 1, 0, 0, 0, 6, 1, 6, 0, 0, 0, 7]],
       sk_writes = [WrOk 260], sk_sent = [], sk_clock = [0, 3, 4, 5, 9, 20, 30]\<rparr>, bus_start env_idle) = (True, 0, c', s') \<and>
     sk_sent (cl_socket c') = [0, 1, 0, 0, 0, 6, 1, 6, 0, 0, 0, 7] \<and> sn_control_words (bus_storage s') ! 0 = 7"
proof -
  let ?a = "[0, 1, 0, 0, 0, 6, 1, 6, 0, 0, 0, 7] :: u8 list"
  let ?c = "client_new 1 502 0 \<lparr>sk_reads = [RdData ?a],
       sk_writes = [WrOk 260], sk_sent = [], sk_clock = [0, 3, 4, 5, 9, 20, 30]\<rparr>"
  have c: "client_wf ?c" "cl_rx_len ?c = 0" "cl_tx_len ?c = 0" "cl_socket ?c =
      \<lparr>sk_reads = [RdData ?a], sk_writes = [WrOk 260], sk_sent = [], sk_clock = [3, 4, 5, 9, 20, 30]\<rparr>"
    by (simp_all add: client_new_def clock_now_def client_wf_def)
  have adu: "is_adu ?a" by (simp add: is_adu_def be16_def)
  have parse: "pdu_request 6 [0, 0, 0, 7] = Inr (WriteReg 0 7)" by (simp add: pdu_request_def be16_def)
  have reg: "write_hold_reg 0 7 (bus_start env_idle) =
      (True, bus_control_written 0 7 (write_control_word 0 7 (bus_start env_idle)))"
    by (simp add: write_hold_reg_def write_hold_reg_locked_def range_defs is_ble_name_hold_addr_def)
  have "fst (serve_adu (bus_start env_idle) ?a) = ?a"
    "snd (serve_adu (bus_start env_idle) ?a) = bus_control_written 0 7 (write_control_word 0 7 (bus_start env_idle))"
    by (simp_all add: serve_adu_def serve_pdu_def parse bus_backend_def reg ack_body_def respond_def be_bytes_def hi8_def lo8_def)
  then show ?thesis
    using tcp_request_served [OF c(1) bus_wf_idle adu _ _ _ c(2,3,4), of 1500]
    by (auto simp: bus_control_written_def write_control_word_def mark_legacy_io_dirty_def
        mark_storage_mutated_def publish_storage_def sync_proto_status_def bus_start_def storage_new_def)
qed

end
