(* ===== verification/Tcp_Server.thy ===== *)
theory Tcp_Server imports Tcp_Client begin

text \<open>
  The Modbus TCP server of \<open>src/modbus/tcp_server.rs\<close>: the four listeners, accepting with its rate
  limit, the fair schedule of the clients, one tick of the main loop, and the change of the ports at run
  time.  What the network will answer is part of the state (what each listener and socket still has to
  deliver) or of the parameter \<open>tcp_net\<close> (which ports can be bound now).  Times are in microseconds.
\<close>

abbreviation (input) MAX_CONNECTIONS :: nat where "MAX_CONNECTIONS \<equiv> 8"
abbreviation (input) MAX_REQUESTS_PER_TICK :: nat where "MAX_REQUESTS_PER_TICK \<equiv> 1"
abbreviation (input) MAX_TCP_WORK_US :: nat where "MAX_TCP_WORK_US \<equiv> 1500"
abbreviation (input) MAX_ACCEPTS_PER_TICK :: nat where "MAX_ACCEPTS_PER_TICK \<equiv> 2"
abbreviation (input) MAX_CONN_PER_SECOND :: u32 where "MAX_CONN_PER_SECOND \<equiv> 10"
abbreviation (input) LISTENER_RECOVERY_DELAY :: nat where "LISTENER_RECOVERY_DELAY \<equiv> 1000000"
abbreviation (input) LISTENER_RECOVERY_BACKOFF :: nat where "LISTENER_RECOVERY_BACKOFF \<equiv> 5000000"
abbreviation (input) REJECT_LOG_INTERVAL :: nat where "REJECT_LOG_INTERVAL \<equiv> 10000000"

section \<open>State\<close>

text \<open>A connection to accept comes with its socket and whether its options can be set.\<close>

datatype accept_result = AcConn tcp_socket bool | AcWouldBlock | AcInterrupted | AcFailed

record tcp_listener =
  ln_port :: u16
  ln_accepts :: "accept_result list"
  ln_error :: bool

record tcp_net =
  net_bind :: "u16 \<Rightarrow> accept_result list option"
  net_clone :: "u16 \<Rightarrow> bool"
  net_reserve :: bool

record tcp_server =
  srv_listeners :: "tcp_listener list"
  srv_clients :: "tcp_client list"
  srv_active_ports :: "u16 list"
  srv_next_port_check :: nat
  srv_last_served :: "u32 option list"
  srv_port_cursor :: nat
  srv_listener_cursor :: nat
  srv_rebind_due :: "nat option"
  srv_next_reject_log :: nat
  srv_rejected :: u32
  srv_rate_window :: nat
  srv_rate_count :: u32
  srv_established_total :: u32
  srv_closed_total :: u32
  srv_conn_count :: u32
  srv_next_conn_id :: u32
  srv_clock :: "nat list"

definition server_now :: "tcp_server \<Rightarrow> nat \<times> tcp_server" where
  "server_now srv =
     (case srv_clock srv of
        [] \<Rightarrow> (0, srv)
      | [t] \<Rightarrow> (t, srv)
      | t # u # ts \<Rightarrow> (t, srv\<lparr>srv_clock := u # ts\<rparr>))"

definition position :: "('a \<Rightarrow> bool) \<Rightarrow> 'a list \<Rightarrow> nat option" where
  "position P xs = find (\<lambda>i. P (xs ! i)) [0..<length xs]"

section \<open>Listeners\<close>

definition configured_ports :: "bus_state \<Rightarrow> u16 list" where
  "configured_ports s = sc_tcp_ports (bus_config s)"

definition bind_listener :: "tcp_net \<Rightarrow> u16 \<Rightarrow> u16 + tcp_listener" where
  "bind_listener net port =
     (case net_bind net port of
        None \<Rightarrow> Inl port
      | Some script \<Rightarrow> Inr \<lparr>ln_port = port, ln_accepts = script, ln_error = False\<rparr>)"

fun bind_each :: "tcp_net \<Rightarrow> u16 list \<Rightarrow> tcp_listener list \<Rightarrow> (u16 + unit) \<times> tcp_listener list" where
  "bind_each net [] listeners = (Inr (), listeners)"
| "bind_each net (port # ports) listeners =
     (case bind_listener net port of
        Inl e \<Rightarrow> (Inl e, listeners)
      | Inr l \<Rightarrow> bind_each net ports (listeners @ [l]))"

definition bind_ports :: "tcp_net \<Rightarrow> u16 list \<Rightarrow> (u16 + unit) \<times> tcp_listener list" where
  "bind_ports net ports = bind_each net ports []"

text \<open>Binding the ports that are new, then taking over the old listeners in the new order.\<close>

fun bind_replacements :: "tcp_net \<Rightarrow> u16 list \<Rightarrow> u16 list \<Rightarrow> (u16 \<times> tcp_listener) list
    \<Rightarrow> u16 + (u16 \<times> tcp_listener) list" where
  "bind_replacements net old [] repl = Inr repl"
| "bind_replacements net old (port # ports) repl =
     (if port \<in> set old then bind_replacements net old ports repl
      else case bind_listener net port of
             Inl e \<Rightarrow> Inl e
           | Inr l \<Rightarrow> bind_replacements net old ports (repl @ [(port, l)]))"

fun next_listeners :: "tcp_net \<Rightarrow> u16 list \<Rightarrow> tcp_listener list \<Rightarrow> u16 list \<Rightarrow> (u16 \<times> tcp_listener) list
    \<Rightarrow> tcp_listener list \<Rightarrow> u16 + tcp_listener list" where
  "next_listeners net old listeners [] repl next = Inr next"
| "next_listeners net old listeners (port # ports) repl next =
     (case position (\<lambda>p. p = port) old of
        Some i \<Rightarrow>
          if net_clone net port then next_listeners net old listeners ports repl (next @ [listeners ! i])
          else Inl port
      | None \<Rightarrow>
          (case position (\<lambda>(p, l). p = port) repl of
             None \<Rightarrow> Inl port
           | Some j \<Rightarrow>
               next_listeners net old listeners ports (swap_remove j repl) (next @ [snd (repl ! j)])))"

definition rebind_ports_transactional ::
    "tcp_net \<Rightarrow> u16 list \<Rightarrow> u16 list \<Rightarrow> tcp_listener list \<Rightarrow> (u16 + unit) \<times> tcp_listener list" where
  "rebind_ports_transactional net old desired listeners =
     (if length listeners \<noteq> length old then (Inl (desired ! 0), listeners)
      else if \<not> net_reserve net then (Inl (desired ! 0), listeners)
      else case bind_replacements net old desired [] of
             Inl e \<Rightarrow> (Inl e, listeners)
           | Inr repl \<Rightarrow>
               (case next_listeners net old listeners desired repl [] of
                  Inl e \<Rightarrow> (Inl e, listeners)
                | Inr next \<Rightarrow> (Inr (), next)))"

definition schedule_listener_recovery :: "nat \<Rightarrow> tcp_server \<Rightarrow> tcp_server" where
  "schedule_listener_recovery now srv =
     (if srv_rebind_due srv = None
      then srv\<lparr>srv_rebind_due := Some (now + LISTENER_RECOVERY_DELAY)\<rparr> else srv)"

definition recover_listeners_if_due :: "tcp_net \<Rightarrow> nat \<Rightarrow> tcp_server \<Rightarrow> tcp_server" where
  "recover_listeners_if_due net now srv =
     (case srv_rebind_due srv of
        None \<Rightarrow> srv
      | Some due \<Rightarrow>
          if now < due then srv
          else let (r, ls) = bind_ports net (srv_active_ports srv);
                   srv = srv\<lparr>srv_listeners := ls\<rparr>
            in case r of
                 Inr _ \<Rightarrow> srv\<lparr>srv_listener_cursor := 0, srv_rebind_due := None\<rparr>
               | Inl _ \<Rightarrow> srv\<lparr>srv_rebind_due := Some (now + LISTENER_RECOVERY_BACKOFF)\<rparr>)"

section \<open>Accepting\<close>

text \<open>One accept on a listener takes the next answer of its script.\<close>

definition accept_one :: "tcp_listener \<Rightarrow> accept_result \<times> tcp_listener" where
  "accept_one l =
     (case ln_accepts l of
        [] \<Rightarrow> (AcWouldBlock, l)
      | r # rs \<Rightarrow> (r, l\<lparr>ln_accepts := rs\<rparr>))"

definition accept_client :: "nat \<Rightarrow> nat \<Rightarrow> tcp_socket \<Rightarrow> bool \<Rightarrow> tcp_server \<Rightarrow> tcp_server" where
  "accept_client now index sock configured srv =
     (if length (srv_clients srv) \<ge> MAX_CONNECTIONS then
        let srv = srv\<lparr>srv_rejected := saturating_add (srv_rejected srv) 1\<rparr>;
            srv = (if now \<ge> srv_next_reject_log srv
                   then srv\<lparr>srv_rejected := 0, srv_next_reject_log := now + REJECT_LOG_INTERVAL\<rparr> else srv)
        in srv\<lparr>srv_rate_count := srv_rate_count srv + 1\<rparr>
      else
        let srv = srv\<lparr>srv_rate_count := srv_rate_count srv + 1\<rparr>;
            cid = srv_next_conn_id srv;
            srv = srv\<lparr>srv_next_conn_id := cid + 1\<rparr>
        in if configured then
             let srv = srv\<lparr>srv_clients := srv_clients srv @
                     [client_new cid (srv_active_ports srv ! index) index sock],
                   srv_established_total := saturating_add (srv_established_total srv) 1\<rparr>
             in srv\<lparr>srv_conn_count := of_nat (length (srv_clients srv))\<rparr>
           else srv)"

fun accept_loop :: "nat \<Rightarrow> nat \<Rightarrow> nat list \<Rightarrow> nat \<times> bool \<times> tcp_server \<Rightarrow> nat \<times> bool \<times> tcp_server" where
  "accept_loop now listener_count [] afs = afs"
| "accept_loop now listener_count (offset # offsets) (taken, faulted, srv) =
     (if taken \<ge> MAX_ACCEPTS_PER_TICK then (taken, faulted, srv)
      else if srv_rate_count srv \<ge> MAX_CONN_PER_SECOND then
        (taken, faulted,
         if now \<ge> srv_next_reject_log srv
         then srv\<lparr>srv_next_reject_log := now + REJECT_LOG_INTERVAL\<rparr> else srv)
      else
        let index = (srv_listener_cursor srv + offset) mod listener_count;
            (r, l) = accept_one (srv_listeners srv ! index);
            srv = srv\<lparr>srv_listeners := (srv_listeners srv)[index := l]\<rparr>
        in case r of
             AcConn sock configured \<Rightarrow>
               accept_loop now listener_count offsets
                 (taken + 1, faulted, accept_client now index sock configured srv)
           | AcWouldBlock \<Rightarrow> accept_loop now listener_count offsets (taken, faulted, srv)
           | AcInterrupted \<Rightarrow> accept_loop now listener_count offsets (taken, faulted, srv)
           | AcFailed \<Rightarrow> accept_loop now listener_count offsets (taken, True, srv))"

definition accept_pending :: "nat \<Rightarrow> tcp_server \<Rightarrow> bool \<times> tcp_server" where
  "accept_pending now srv =
     (let listener_count = length (srv_listeners srv) in
      if listener_count = 0 then (True, srv)
      else let srv = (if now - srv_rate_window srv \<ge> 1000000
                      then srv\<lparr>srv_rate_window := now, srv_rate_count := 0\<rparr> else srv);
               (taken, faulted, srv) = accept_loop now listener_count [0..<listener_count] (0, False, srv)
        in (faulted, srv\<lparr>srv_listener_cursor := (srv_listener_cursor srv + 1) mod listener_count\<rparr>))"

section \<open>The schedule\<close>

definition schedule_slot :: "(u32 \<times> nat) list \<Rightarrow> u32 option \<Rightarrow> nat \<Rightarrow> nat list \<times> nat \<Rightarrow> nat list \<times> nat" where
  "schedule_slot clients prev slot ou =
     (let cnt = min (length clients) MAX_CONNECTIONS;
          start = (case Option.bind prev (\<lambda>cid. position (\<lambda>(candidate, _). candidate = cid) (take cnt clients)) of
                     Some index \<Rightarrow> (index + 1) mod max cnt 1
                   | None \<Rightarrow> 0)
      in fold (\<lambda>offset (order, used).
           let index = (start + offset) mod cnt
           in if snd (clients ! index) = slot then (order[used := index], used + 1) else (order, used))
         [0..<cnt] ou)"

definition fair_client_schedule :: "(u32 \<times> nat) list \<Rightarrow> nat \<Rightarrow> u32 option list \<Rightarrow> nat list \<times> nat" where
  "fair_client_schedule clients port_cursor last_served =
     fold (\<lambda>port_offset ou.
        let slot = (port_cursor + port_offset) mod length last_served
        in schedule_slot clients (last_served ! slot) slot ou)
      [0..<length last_served] (replicate MAX_CONNECTIONS 0, 0)"

section \<open>Polling the clients\<close>

record poll_ctx =
  pc_srv :: tcp_server
  pc_bus :: bus_state
  pc_dead :: "bool list"
  pc_polled :: "bool list"
  pc_ports :: "bool list"
  pc_remaining :: nat
  pc_any :: bool

text \<open>The first loop of \<open>poll_clients\<close>: flush every client and note the ones that failed or timed out.\<close>

fun flush_clients :: "tcp_client list \<Rightarrow> bool list \<times> tcp_client list" where
  "flush_clients [] = ([], [])"
| "flush_clients (c # cs) =
     (let (ok, c) = flush_tx c;
          (dead, c) = (if \<not> ok then (True, c) else is_timed_out c);
          (ds, cs) = flush_clients cs
      in (dead # ds, c # cs))"

definition poll_one :: "nat \<Rightarrow> nat \<Rightarrow> poll_ctx \<Rightarrow> poll_ctx" where
  "poll_one deadline index p =
     (let srv = pc_srv p;
          slot = listener_port_slot (srv_active_ports srv) (srv_clients srv ! index);
          (keep, allowance, c, s) = client_poll deadline (1, srv_clients srv ! index, pc_bus p);
          srv = srv\<lparr>srv_clients := (srv_clients srv)[index := c]\<rparr>;
          p = p\<lparr>pc_srv := srv, pc_bus := s, pc_polled := (pc_polled p)[index := True]\<rparr>;
          p = (if \<not> keep then p\<lparr>pc_dead := (pc_dead p)[index := True]\<rparr> else p)
      in if allowance = 0 then
           p\<lparr>pc_remaining := pc_remaining p - 1, pc_any := True, pc_ports := (pc_ports p)[slot := True],
             pc_srv := srv\<lparr>srv_last_served := (srv_last_served srv)[slot := Some (cl_id c)],
                           srv_port_cursor := (slot + 1) mod 4\<rparr>\<rparr>
         else p)"

fun poll_pass :: "nat \<Rightarrow> bool \<Rightarrow> nat list \<Rightarrow> poll_ctx \<Rightarrow> poll_ctx" where
  "poll_pass deadline borrow_spare [] p = p"
| "poll_pass deadline borrow_spare (index # order) p =
     (if pc_remaining p = 0 then p
      else let (now, srv) = server_now (pc_srv p); p = p\<lparr>pc_srv := srv\<rparr> in
      if now \<ge> deadline then p
      else let slot = listener_port_slot (srv_active_ports srv) (srv_clients srv ! index) in
      if pc_dead p ! index \<or> pc_polled p ! index \<or> (\<not> borrow_spare \<and> pc_ports p ! slot)
      then poll_pass deadline borrow_spare order p
      else poll_pass deadline borrow_spare order (poll_one deadline index p))"

text \<open>The last loop removes the dead clients from the last to the first.\<close>

fun reap :: "bool list \<Rightarrow> nat \<Rightarrow> tcp_server \<Rightarrow> tcp_server" where
  "reap dead 0 srv = srv"
| "reap dead (Suc index) srv =
     reap dead index
       (if dead ! index
        then srv\<lparr>srv_clients := swap_remove index (srv_clients srv),
                 srv_closed_total := saturating_add (srv_closed_total srv) 1,
                 srv_conn_count := srv_conn_count srv - 1\<rparr>
        else srv)"

definition poll_clients :: "nat \<Rightarrow> tcp_server \<times> bus_state \<Rightarrow> tcp_server \<times> bus_state" where
  "poll_clients started ss =
     (let (srv, s) = ss;
          deadline = started + MAX_TCP_WORK_US;
          cnt = length (srv_clients srv);
          metadata = map (\<lambda>c. (cl_id c, listener_port_slot (srv_active_ports srv) c)) (srv_clients srv);
          (dead, cs) = flush_clients (srv_clients srv);
          srv = srv\<lparr>srv_clients := cs\<rparr>;
          (order, order_len) = fair_client_schedule metadata (srv_port_cursor srv) (srv_last_served srv);
          p = \<lparr>pc_srv = srv, pc_bus = s, pc_dead = dead, pc_polled = replicate MAX_CONNECTIONS False,
               pc_ports = replicate 4 False, pc_remaining = MAX_REQUESTS_PER_TICK, pc_any = False\<rparr>;
          p = poll_pass deadline False (take order_len order) p;
          p = poll_pass deadline True (take order_len order) p;
          srv = pc_srv p;
          srv = (if \<not> pc_any p then srv\<lparr>srv_port_cursor := (srv_port_cursor srv + 1) mod 4\<rparr> else srv)
      in (reap (pc_dead p) cnt srv, pc_bus p))"

section \<open>One tick\<close>

definition check_ports :: "tcp_net \<Rightarrow> nat \<Rightarrow> u16 list \<Rightarrow> tcp_server \<Rightarrow> tcp_server" where
  "check_ports net now desired srv =
     (if now \<ge> srv_next_port_check srv then
        let srv = srv\<lparr>srv_next_port_check := now + 1000000\<rparr>;
            srv = (if desired \<noteq> srv_active_ports srv \<and> valid_tcp_ports desired then
                     (case rebind_ports_transactional net (srv_active_ports srv) desired (srv_listeners srv) of
                        (Inr _, ls) \<Rightarrow> srv\<lparr>srv_listeners := ls, srv_active_ports := desired,
                            srv_listener_cursor := 0, srv_port_cursor := 0, srv_rebind_due := None\<rparr>
                      | (Inl _, ls) \<Rightarrow> srv\<lparr>srv_listeners := ls\<rparr>)
                   else srv)
        in if length (srv_listeners srv) \<noteq> length (srv_active_ports srv) \<or> list_ex ln_error (srv_listeners srv)
           then schedule_listener_recovery now srv else srv
      else srv)"

definition tick_tcp_server :: "tcp_net \<Rightarrow> tcp_server \<times> bus_state \<Rightarrow> tcp_server \<times> bus_state" where
  "tick_tcp_server net ss =
     (let (srv, s) = ss;
          (now, srv) = server_now srv;
          srv = recover_listeners_if_due net now srv;
          srv = check_ports net now (configured_ports s) srv;
          (faulted, srv) = accept_pending now srv;
          srv = (if faulted then schedule_listener_recovery now srv else srv);
          (started, srv) = server_now srv
      in poll_clients started (srv, s))"

text \<open>The server after \<open>start\<close>; the clock is what the readings of the run will show.\<close>

datatype server_error = BadPortSet | NoMemory | BindFailed u16

definition server_start :: "tcp_net \<Rightarrow> u16 list \<Rightarrow> nat list \<Rightarrow> server_error + tcp_server" where
  "server_start net ports clock =
     (if \<not> valid_tcp_ports ports then Inl BadPortSet
      else if \<not> net_reserve net then Inl NoMemory
      else case bind_ports net ports of
             (Inl port, _) \<Rightarrow> Inl (BindFailed port)
           | (Inr _, ls) \<Rightarrow>
               let now = (case clock of [] \<Rightarrow> 0 | t # _ \<Rightarrow> t)
               in Inr \<lparr>srv_listeners = ls, srv_clients = [], srv_active_ports = ports,
                    srv_next_port_check = now, srv_last_served = replicate 4 None, srv_port_cursor = 0,
                    srv_listener_cursor = 0, srv_rebind_due = None, srv_next_reject_log = now,
                    srv_rejected = 0, srv_rate_window = now, srv_rate_count = 0, srv_established_total = 0,
                    srv_closed_total = 0, srv_conn_count = 0, srv_next_conn_id = 1, srv_clock = clock\<rparr>)"


section \<open>Changing the ports\<close>

lemma position_Some:
  "position P xs = Some i \<Longrightarrow> i < length xs \<and> P (xs ! i)"
  unfolding position_def by (auto simp: find_Some_iff)

lemma position_None: "position P xs = None \<longleftrightarrow> (\<forall>x\<in>set xs. \<not> P x)"
  unfolding position_def by (auto simp: find_None_iff all_set_conv_all_nth)

lemma position_distinct:
  assumes "distinct (map f xs)" and "i < length xs" and "f (xs ! i) = y"
  shows "position (\<lambda>x. f x = y) xs = Some i"
proof (cases "position (\<lambda>x. f x = y) xs")
  case None
  then show ?thesis using assms by (auto simp: position_None)
next
  case (Some j)
  then have "j < length xs" "f (xs ! j) = y" using position_Some [OF Some] by auto
  then have "j = i" using assms nth_eq_iff_index_eq [OF assms(1), of j i] by simp
  then show ?thesis using Some by simp
qed

lemma set_swap_remove_insert: "i < length xs \<Longrightarrow> set xs = insert (xs ! i) (set (swap_remove i xs))"
  using arg_cong [OF swap_remove_mset [of i xs], of set_mset] by simp

lemma set_swap_remove: "i < length xs \<Longrightarrow> set (swap_remove i xs) \<subseteq> set xs"
  by (subst set_swap_remove_insert [of i xs]) auto

lemma bind_replacements_ports:
  assumes "bind_replacements net old ports repl = Inr repl'" and "\<forall>(p, l)\<in>set repl. ln_port l = p"
  shows "\<forall>(p, l)\<in>set repl'. ln_port l = p"
  using assms
proof (induction ports arbitrary: repl)
  case (Cons port ports)
  show ?case
  proof (cases "port \<in> set old")
    case True
    then show ?thesis using Cons by simp
  next
    case False
    then obtain script where "net_bind net port = Some script"
      using Cons.prems(1) by (cases "net_bind net port") (auto simp: bind_listener_def)
    then show ?thesis
      using Cons.IH [of "repl @ [(port, \<lparr>ln_port = port, ln_accepts = script, ln_error = False\<rparr>)]"]
        Cons.prems False by (simp add: bind_listener_def)
  qed
qed simp

lemma next_listeners_ports:
  assumes "next_listeners net old listeners ports repl next = Inr next'"
    and "\<forall>(p, l)\<in>set repl. ln_port l = p" and "map ln_port listeners = old"
  shows "map ln_port next' = map ln_port next @ ports"
  using assms
proof (induction ports arbitrary: repl "next")
  case (Cons port ports)
  show ?case
  proof (cases "position (\<lambda>p. p = port) old")
    case (Some i)
    then have "i < length listeners" "ln_port (listeners ! i) = port"
      using position_Some [OF Some] Cons.prems(3) by auto
    then show ?thesis using Cons.IH [OF _ Cons.prems(2,3)] Cons.prems(1) Some by (auto split: if_splits)
  next
    case none: None
    then obtain j where j: "position (\<lambda>(p, l). p = port) repl = Some j"
      using Cons.prems(1) by (auto split: option.splits)
    then have jr: "j < length repl" "fst (repl ! j) = port" using position_Some [OF j] by (auto split: prod.splits)
    have "\<forall>(p, l)\<in>set (swap_remove j repl). ln_port l = p"
      using Cons.prems(2) set_swap_remove [OF jr(1)] by blast
    moreover have "ln_port (snd (repl ! j)) = port"
      using Cons.prems(2) jr(2) nth_mem [OF jr(1)] by (cases "repl ! j") fastforce
    ultimately show ?thesis using Cons.IH [OF _ _ Cons.prems(3)] Cons.prems(1) none j by fastforce
  qed
qed simp

lemma bind_replacements_succeeds:
  assumes "\<forall>port. net_bind net port \<noteq> None"
  shows "\<exists>repl'. bind_replacements net old ports repl = Inr repl' \<and>
    map fst repl' = map fst repl @ filter (\<lambda>port. port \<notin> set old) ports"
proof (induction ports arbitrary: repl)
  case (Cons port ports)
  obtain script where "net_bind net port = Some script" using assms by auto
  then show ?case
    using Cons.IH [of repl] Cons.IH [of "repl @ [(port, \<lparr>ln_port = port, ln_accepts = script, ln_error = False\<rparr>)]"]
    by (simp add: bind_listener_def)
qed simp

lemma next_listeners_succeeds:
  assumes "\<forall>port. net_clone net port" and "distinct ports"
    and "\<forall>port\<in>set ports. port \<in> set old \<or> port \<in> fst ` set repl"
  shows "\<exists>next'. next_listeners net old listeners ports repl next = Inr next'"
  using assms(2,3)
proof (induction ports arbitrary: repl "next")
  case (Cons port ports)
  show ?case
  proof (cases "position (\<lambda>p. p = port) old")
    case (Some i)
    then show ?thesis using Cons assms(1) by simp
  next
    case none: None
    then have "port \<in> fst ` set repl" using Cons.prems(2) by (auto simp: position_None)
    then obtain j where j: "position (\<lambda>(p, l). p = port) repl = Some j"
      by (cases "position (\<lambda>(p, l). p = port) repl") (auto simp: position_None)
    then have jr: "j < length repl" "fst (repl ! j) = port" using position_Some [OF j] by (auto split: prod.splits)
    have "\<forall>q\<in>set ports. q \<in> set old \<or> q \<in> fst ` set (swap_remove j repl)"
    proof
      fix q assume q: "q \<in> set ports"
      then have "q \<noteq> port" using Cons.prems(1) by auto
      moreover have "set repl = insert (repl ! j) (set (swap_remove j repl))"
        by (rule set_swap_remove_insert [OF jr(1)])
      ultimately show "q \<in> set old \<or> q \<in> fst ` set (swap_remove j repl)"
        using Cons.prems(2) q jr(2) by auto
    qed
    then show ?thesis using Cons.IH Cons.prems(1) none j by simp
  qed
qed simp

text \<open>A change of the ports is a transaction: it either leaves every listener as it was, or the
  server listens on exactly the new ports in their order; and it succeeds whenever the new ports can be
  bound and the kept listeners duplicated.\<close>

theorem port_change_all_or_nothing:
  assumes "map ln_port listeners = old" and "distinct desired"
    and "rebind_ports_transactional net old desired listeners = (r, listeners')"
  shows "(case r of Inl _ \<Rightarrow> listeners' = listeners | Inr _ \<Rightarrow> map ln_port listeners' = desired) \<and>
    (net_reserve net \<and> (\<forall>port. net_bind net port \<noteq> None) \<and> (\<forall>port. net_clone net port) \<longrightarrow> r = Inr ())"
proof -
  have len: "length listeners = length old" using assms(1) by auto
  have "case r of Inl _ \<Rightarrow> listeners' = listeners | Inr _ \<Rightarrow> map ln_port listeners' = desired"
    using assms(3) len bind_replacements_ports [of net old desired "[]"] next_listeners_ports [OF _ _ assms(1), of net desired _ "[]"]
    by (auto simp: rebind_ports_transactional_def split: sum.splits if_splits)
  moreover have "r = Inr ()"
    if net: "net_reserve net" "\<forall>port. net_bind net port \<noteq> None" "\<forall>port. net_clone net port"
  proof -
    obtain repl where repl: "bind_replacements net old desired [] = Inr repl"
      "map fst repl = filter (\<lambda>port. port \<notin> set old) desired"
      using bind_replacements_succeeds [OF net(2), of old desired "[]"] by auto
    have "fst ` set repl = set (map fst repl)" by simp
    then have "\<forall>port\<in>set desired. port \<in> set old \<or> port \<in> fst ` set repl" unfolding repl(2) by auto
    then obtain ls where "next_listeners net old listeners desired repl [] = Inr ls"
      using next_listeners_succeeds [OF net(3) assms(2)] by blast
    then show ?thesis using assms(3) len net repl by (simp add: rebind_ports_transactional_def)
  qed
  ultimately show ?thesis by blast
qed

theorem port_change_all_or_nothing_witness:
  "let ls = map (\<lambda>p. \<lparr>ln_port = p, ln_accepts = [], ln_error = False\<rparr>) [502, 503, 504, 5002] in
   \<exists>ls'. rebind_ports_transactional \<lparr>net_bind = \<lambda>_. Some [], net_clone = \<lambda>_. True, net_reserve = True\<rparr>
      [502, 503, 504, 5002] [503, 1502, 502, 504] ls = (Inr (), ls') \<and> map ln_port ls' = [503, 1502, 502, 504]"
proof -
  let ?net = "\<lparr>net_bind = \<lambda>_. Some [], net_clone = \<lambda>_. True, net_reserve = True\<rparr>"
  let ?ls = "map (\<lambda>p. \<lparr>ln_port = p, ln_accepts = [], ln_error = False\<rparr>) [502, 503, 504, 5002]"
  obtain r ls' where r: "rebind_ports_transactional ?net [502, 503, 504, 5002] [503, 1502, 502, 504] ?ls = (r, ls')"
    by (rule prod.exhaust)
  show ?thesis using port_change_all_or_nothing [OF _ _ r] r by (auto simp: Let_def)
qed

section \<open>Fairness of the schedule\<close>

lemma fold_push:
  assumes "fold (\<lambda>x (os, used). if P (f x) then (os[used := f x], used + 1) else (os, used)) xs (os, used) = (os', used')"
    and "used + length (filter P (map f xs)) \<le> length os"
  shows "used' = used + length (filter P (map f xs)) \<and> take used' os' = take used os @ filter P (map f xs) \<and>
    length os' = length os"
  using assms
proof (induction xs arbitrary: os used)
  case (Cons x xs)
  show ?case
  proof (cases "P (f x)")
    case True
    have IH: "used' = used + 1 + length (filter P (map f xs)) \<and>
        take used' os' = take (used + 1) (os[used := f x]) @ filter P (map f xs) \<and>
        length os' = length (os[used := f x])"
      by (rule Cons.IH) (use Cons.prems True in simp_all)
    have "take (used + 1) (os[used := f x]) = take used os @ [f x]"
      using Cons.prems(2) True by (simp add: take_Suc_conv_app_nth)
    then have t: "take used' os' = take used os @ f x # filter P (map f xs)"
      unfolding IH [THEN conjunct2, THEN conjunct1] by simp
    show ?thesis unfolding t using IH True by simp
  next
    case False
    have IH: "used' = used + length (filter P (map f xs)) \<and> take used' os' = take used os @ filter P (map f xs) \<and>
        length os' = length os"
      by (rule Cons.IH) (use Cons.prems False in simp_all)
    have flt: "filter P (map f (x # xs)) = filter P (map f xs)" using False by simp
    show ?thesis unfolding flt by (rule IH)
  qed
qed simp

definition slot_start :: "(u32 \<times> nat) list \<Rightarrow> u32 option \<Rightarrow> nat" where
  "slot_start clients prev =
     (case Option.bind prev (\<lambda>cid. position (\<lambda>(candidate, _). candidate = cid) clients) of
        Some index \<Rightarrow> (index + 1) mod max (length clients) 1
      | None \<Rightarrow> 0)"

definition slot_list :: "(u32 \<times> nat) list \<Rightarrow> u32 option \<Rightarrow> nat \<Rightarrow> nat list" where
  "slot_list clients prev slot =
     filter (\<lambda>i. snd (clients ! i) = slot) (rotate (slot_start clients prev) [0..<length clients])"

lemma rotate_upt: "map (\<lambda>k. (start + k) mod n) [0..<n] = rotate start [0..<n]"
  by (rule nth_equalityI) (auto simp: nth_rotate)

lemma schedule_slot_pushes:
  assumes "length clients \<le> 8" and "schedule_slot clients prev slot (os, used) = (os', used')"
    and "used + length (slot_list clients prev slot) \<le> length os"
  shows "used' = used + length (slot_list clients prev slot) \<and>
    take used' os' = take used os @ slot_list clients prev slot \<and> length os' = length os"
proof -
  have n: "min (length clients) 8 = length clients" using assms(1) by simp
  have "fold (\<lambda>k (os, used). if snd (clients ! ((slot_start clients prev + k) mod length clients)) = slot
      then (os[used := (slot_start clients prev + k) mod length clients], used + 1) else (os, used))
      [0..<length clients] (os, used) = (os', used')"
    using assms(2) unfolding schedule_slot_def n slot_start_def Let_def take_all [OF order_refl] .
  then show ?thesis
    using fold_push [where P = "\<lambda>i. snd (clients ! i) = slot" and f = "\<lambda>k. (slot_start clients prev + k) mod length clients"]
      assms(3) unfolding slot_list_def rotate_upt [symmetric] by blast
qed

lemma slots_push:
  assumes "length clients \<le> 8"
    and "fold (\<lambda>po. schedule_slot clients (p po) (q po)) pos (os, used) = (os', used')"
    and "used + length (concat (map (\<lambda>po. slot_list clients (p po) (q po)) pos)) \<le> length os"
  shows "take used' os' = take used os @ concat (map (\<lambda>po. slot_list clients (p po) (q po)) pos)"
  using assms(2,3)
proof (induction pos arbitrary: os used)
  case (Cons po pos)
  obtain os1 used1 where st: "schedule_slot clients (p po) (q po) (os, used) = (os1, used1)" by (rule prod.exhaust)
  note * = schedule_slot_pushes [OF assms(1) st]
  have u: "used1 = used + length (slot_list clients (p po) (q po))"
    and t: "take used1 os1 = take used os @ slot_list clients (p po) (q po)" and l: "length os1 = length os"
    using * [THEN conjunct1] * [THEN conjunct2, THEN conjunct1] * [THEN conjunct2, THEN conjunct2] Cons.prems(2)
    by simp_all
  have "take used' os' = take used1 os1 @ concat (map (\<lambda>po. slot_list clients (p po) (q po)) pos)"
    by (rule Cons.IH) (use Cons.prems st u l in auto)
  then show ?case unfolding t by simp
qed simp

lemma mset_rotate1: "mset (rotate1 xs) = mset xs"
  by (cases xs) simp_all

lemma mset_rotate: "mset (rotate k xs) = mset xs"
  by (induction k) (simp_all add: mset_rotate1)

lemma mset_slot_list: "mset (slot_list clients prev slot) =
    filter_mset (\<lambda>i. snd (clients ! i) = slot) (mset [0..<length clients])"
  by (simp add: slot_list_def mset_rotate del: mset_upt)

lemma upt_4: "[0..<4] = [0, 1, 2, 3::nat]" by (simp add: upt_rec)

lemma slots_partition:
  assumes "\<forall>c\<in>set clients. snd c < 4"
  shows "mset (concat (map (\<lambda>po. slot_list clients (p po) ((cursor + po) mod 4)) [0..<4])) = mset [0..<length clients]"
proof -
  let ?M = "mset [0..<length clients]"
  let ?S = "\<lambda>po. filter_mset (\<lambda>i. snd (clients ! i) = (cursor + po) mod 4) ?M"
  have sum: "mset (concat (map (\<lambda>po. slot_list clients (p po) ((cursor + po) mod 4)) [0..<4])) =
      ?S 0 + (?S 1 + (?S 2 + ?S 3))"
    unfolding upt_4 by (simp add: mset_slot_list del: mset_upt)
  have one: "count (?S 0 + (?S 1 + (?S 2 + ?S 3))) i = count ?M i" if "snd (clients ! i) < 4" for i
  proof -
    define k where "k = cursor mod 4"
    have "k < 4" by (simp add: k_def)
    then have k: "k \<in> {0, 1, 2, 3}" "snd (clients ! i) \<in> {0, 1, 2, 3}" using that by auto
    have shift: "(cursor + po) mod 4 = (k + po) mod 4" for po by (simp add: k_def mod_add_left_eq)
    show ?thesis unfolding count_union count_filter_mset shift using k by (elim insertE emptyE) simp_all
  qed
  have none: "count ?M i = 0" if "\<not> i < length clients" for i using that by (simp add: count_mset)
  show ?thesis unfolding sum
  proof (rule multiset_eqI)
    fix i
    show "count (?S 0 + (?S 1 + (?S 2 + ?S 3))) i = count ?M i"
    proof (cases "i < length clients")
      case True
      then show ?thesis using one assms by simp
    next
      case False
      then show ?thesis unfolding count_union count_filter_mset none [OF False] by simp
    qed
  qed
qed


lemma fair_client_schedule_slots:
  assumes "length clients \<le> 8" and "\<forall>c\<in>set clients. snd c < 4" and "length last_served = 4"
    and "fair_client_schedule clients cursor last_served = (order, used)"
  shows "take used order =
    concat (map (\<lambda>po. slot_list clients (last_served ! ((cursor + po) mod 4)) ((cursor + po) mod 4)) [0..<4])"
proof -
  let ?L = "concat (map (\<lambda>po. slot_list clients (last_served ! ((cursor + po) mod 4)) ((cursor + po) mod 4)) [0..<4])"
  have "size (mset ?L) = size (mset [0..<length clients])" by (simp only: slots_partition [OF assms(2)])
  then have len: "length ?L = length clients" by (simp only: size_mset length_upt)
  then have fits: "0 + length ?L \<le> length (replicate 8 (0 :: nat))" using assms(1) by (simp only: length_replicate)
  have run: "fold (\<lambda>po. schedule_slot clients (last_served ! ((cursor + po) mod 4)) ((cursor + po) mod 4)) [0..<4]
      (replicate 8 0, 0) = (order, used)"
    using assms(4) unfolding fair_client_schedule_def Let_def assms(3) .
  show ?thesis using slots_push [OF assms(1) run fits] by (simp only: take0 append_Nil)
qed

lemma fair_client_schedule_permutes:
  assumes "length clients \<le> 8" and "\<forall>c\<in>set clients. snd c < 4" and "length last_served = 4"
    and "fair_client_schedule clients cursor last_served = (order, used)"
  shows "mset (take used order) = mset [0..<length clients]"
  by (simp only: fair_client_schedule_slots [OF assms] slots_partition [OF assms(2)])

lemma rotate_last:
  assumes "i < n"
  shows "rotate ((i + 1) mod n) [0..<n] = [i + 1..<n] @ [0..<i] @ [i]"
proof -
  have "rotate ((i + 1) mod n) [0..<n] = rotate (i + 1) [0..<n]" by (metis length_upt minus_nat.diff_0 rotate_conv_mod)
  also have "\<dots> = rotate (length [0..<i + 1]) ([0..<i + 1] @ [i + 1..<n])"
    using assms upt_add_eq_append [of 0 "i + 1" "n - (i + 1)"] by simp
  also have "\<dots> = [i + 1..<n] @ [0..<i + 1]" by (rule rotate_append)
  finally show ?thesis by simp
qed

text \<open>The schedule of a tick lists every client exactly once, and the client that was served last
  comes after all others.\<close>

theorem served_client_goes_last:
  assumes "length clients \<le> 8" and "\<forall>c\<in>set clients. snd c < 4" and "distinct (map fst clients)"
    and "length last_served = 4" and "i < length clients" and "clients ! i = (cid, slot)"
    and "fair_client_schedule clients ((slot + 1) mod 4) (last_served[slot := Some cid]) = (order, used)"
  shows "\<exists>xs. take used order = xs @ [i] \<and> mset (xs @ [i]) = mset [0..<length clients]"
proof -
  have slot: "slot < 4" using assms(2,5,6) nth_mem [OF assms(5)] by force
  have last3: "((slot + 1) mod 4 + 3) mod 4 = slot" using slot by (simp add: mod_add_left_eq)
  have ls: "length (last_served[slot := Some cid]) = 4" using assms(4) by simp
  have "position (\<lambda>x. fst x = cid) clients = Some i"
    by (rule position_distinct [OF assms(3,5)]) (simp add: assms(6))
  then have pos: "position (\<lambda>(candidate, _). candidate = cid) clients = Some i"
    by (simp add: case_prod_beta')
  have "max (length clients) 1 = length clients" using assms(5) by simp
  then have start: "slot_start clients (Some cid) = (i + 1) mod length clients"
    by (simp only: slot_start_def Option.bind.simps pos option.case)
  have "slot_list clients (Some cid) slot =
      filter (\<lambda>j. snd (clients ! j) = slot) ([i + 1..<length clients] @ [0..<i]) @ [i]"
    unfolding slot_list_def start rotate_last [OF assms(5)] using assms(6) by simp
  then obtain ys where ys: "slot_list clients (Some cid) slot = ys @ [i]" by blast
  have "slot_list clients (last_served[slot := Some cid] ! slot) slot = ys @ [i]"
    using ys assms(4) slot by simp
  then have "\<exists>xs. take used order = xs @ [i]"
    unfolding fair_client_schedule_slots [OF assms(1,2) ls assms(7)] upt_4 list.map concat.simps last3
    by (intro exI) (simp only: append_assoc [symmetric] append_Nil2)
  then show ?thesis using fair_client_schedule_permutes [OF assms(1,2) ls assms(7)] by auto
qed

theorem served_client_goes_last_witness:
  "\<exists>xs order used. fair_client_schedule [(10, 0), (11, 0), (20, 1)] 1 [Some 10, None, None, None] = (order, used) \<and>
     take used order = xs @ [0] \<and> mset (xs @ [0]) = mset [0..<3]"
proof -
  obtain order used where f: "fair_client_schedule [(10, 0), (11, 0), (20, 1)] 1 [Some 10, None, None, None] = (order, used)"
    by (rule prod.exhaust)
  then show ?thesis
    using served_client_goes_last [of "[(10, 0), (11, 0), (20, 1)]" "[None, None, None, None]" 0 10 0 order used]
    by (auto simp: upt_rec simp del: mset_upt)
qed


section \<open>One tick keeps the server in bounds\<close>

definition client_ok :: "tcp_client \<Rightarrow> bool" where
  "client_ok c \<longleftrightarrow> client_wf c \<and> cl_initial_slot c < 4"

definition server_wf :: "tcp_server \<Rightarrow> bool" where
  "server_wf srv \<longleftrightarrow> length (srv_active_ports srv) = 4 \<and> length (srv_last_served srv) = 4 \<and>
     srv_port_cursor srv < 4 \<and> length (srv_clients srv) \<le> MAX_CONNECTIONS \<and>
     list_all client_ok (srv_clients srv) \<and> srv_conn_count srv = of_nat (length (srv_clients srv)) \<and>
     length (srv_listeners srv) \<le> 4 \<and> srv_rate_count srv \<le> MAX_CONN_PER_SECOND"

lemma server_now_wf [simp]: "server_wf (snd (server_now srv)) = server_wf srv"
  by (auto simp: server_now_def server_wf_def split: list.split)

lemma server_now_clients [simp]: "srv_clients (snd (server_now srv)) = srv_clients srv"
  by (auto simp: server_now_def split: list.split)

lemma server_wf_clients:
  assumes "server_wf srv" and "length cs = length (srv_clients srv)" and "list_all client_ok cs"
  shows "server_wf (srv\<lparr>srv_clients := cs\<rparr>)"
  using assms by (simp add: server_wf_def)

lemma schedule_listener_recovery_wf [simp]:
  "server_wf (schedule_listener_recovery now srv) = server_wf srv"
  by (simp add: schedule_listener_recovery_def server_wf_def)

lemma bind_each_length:
  "bind_each net ports ls = (r, ls') \<Longrightarrow> length ls' \<le> length ls + length ports"
  by (induction ports arbitrary: ls) (fastforce split: sum.splits)+

lemma recover_listeners_wf:
  assumes "server_wf srv"
  shows "server_wf (recover_listeners_if_due net now srv)"
proof -
  obtain r ls where b: "bind_ports net (srv_active_ports srv) = (r, ls)" by (rule prod.exhaust)
  then have "length ls \<le> 4" using bind_each_length [of net "srv_active_ports srv" "[]" r ls] assms
    by (simp add: bind_ports_def server_wf_def)
  then show ?thesis using assms b
    by (auto simp: recover_listeners_if_due_def server_wf_def Let_def split: option.split sum.split)
qed

lemma next_listeners_length:
  assumes "next_listeners net old listeners ports repl next = Inr next'"
  shows "length next' = length next + length ports"
  using assms
proof (induction ports arbitrary: repl "next")
  case (Cons port ports)
  show ?case
  proof (cases "position (\<lambda>p. p = port) old")
    case None
    then obtain j where "position (\<lambda>(p, l). p = port) repl = Some j"
      using Cons.prems by (auto split: option.splits)
    then show ?thesis using Cons.IH [of "swap_remove j repl" "next @ [snd (repl ! j)]"] Cons.prems None by simp
  next
    case (Some i)
    then show ?thesis using Cons.IH [of repl "next @ [listeners ! i]"] Cons.prems by (simp split: if_splits)
  qed
qed simp

lemma rebind_length:
  assumes "rebind_ports_transactional net old desired ls = (r, ls')" and "length desired = 4" and "length ls \<le> 4"
  shows "length ls' \<le> 4"
  using assms next_listeners_length [of net old ls desired _ "[]" ls']
  by (auto simp: rebind_ports_transactional_def split: if_splits sum.splits)

lemma check_ports_wf:
  assumes "server_wf srv" and "length desired = 4"
  shows "server_wf (check_ports net now desired srv)"
proof -
  obtain r ls where r: "rebind_ports_transactional net (srv_active_ports srv) desired (srv_listeners srv) = (r, ls)"
    by (rule prod.exhaust)
  have "length (srv_listeners srv) \<le> 4" using assms(1) by (simp add: server_wf_def)
  then have len: "length ls \<le> 4" by (rule rebind_length [OF r assms(2)])
  let ?s0 = "srv\<lparr>srv_next_port_check := now + 1000000\<rparr>"
  have 0: "server_wf ?s0" using assms(1) by (simp add: server_wf_def)
  have 1: "server_wf (?s0\<lparr>srv_listeners := ls, srv_active_ports := desired,
      srv_listener_cursor := 0, srv_port_cursor := 0, srv_rebind_due := None\<rparr>)"
    and 2: "server_wf (?s0\<lparr>srv_listeners := ls\<rparr>)"
    using assms len by (simp_all add: server_wf_def)
  show ?thesis
    using assms(1) 0 1 2 unfolding check_ports_def Let_def
    by (cases r) (simp_all add: r)
qed

lemma client_new_ok: "slot < 4 \<Longrightarrow> client_ok (client_new cid port slot sock)"
  by (simp add: client_ok_def client_new_def client_wf_def split_beta Let_def)

lemma accept_client_wf:
  assumes "server_wf srv" and "index < 4" and "srv_rate_count srv < MAX_CONN_PER_SECOND"
  shows "server_wf (accept_client now index sock configured srv)"
proof -
  have "srv_rate_count srv + 1 \<le> 10" using assms(3) by (rule inc_le)
  then show ?thesis
    using assms(1,2) client_new_ok [OF assms(2)] by (simp add: accept_client_def server_wf_def Let_def)
qed

lemma accept_client_listeners [simp]:
  "srv_listeners (accept_client now index sock configured srv) = srv_listeners srv"
  by (simp add: accept_client_def Let_def)

lemma accept_loop_wf:
  assumes "server_wf srv" and "length (srv_listeners srv) = cnt" and "0 < cnt"
    and "accept_loop now cnt offs (taken, f, srv) = (taken', f', srv')"
  shows "server_wf srv' \<and> (taken \<le> 2 \<longrightarrow> taken' \<le> 2)"
  using assms(1,2,4)
proof (induction offs arbitrary: taken f srv)
  case (Cons k offs)
  show ?case
  proof (cases "2 \<le> taken \<or> srv_rate_count srv \<ge> 10")
    case True
    then have "server_wf srv' \<and> taken' = taken"
      using Cons.prems by (auto simp: server_wf_def split: if_splits)
    then show ?thesis by simp
  next
    case False
    let ?i = "(srv_listener_cursor srv + k) mod cnt"
    obtain r l where a: "accept_one (srv_listeners srv ! ?i) = (r, l)" by (rule prod.exhaust)
    let ?srv = "srv\<lparr>srv_listeners := (srv_listeners srv)[?i := l]\<rparr>"
    have i: "?i < 4" using assms(3) Cons.prems(1,2) mod_less_divisor [OF assms(3), of "srv_listener_cursor srv + k"]
      by (simp add: server_wf_def)
    have wf: "server_wf ?srv" and rate: "srv_rate_count ?srv < 10" and len: "length (srv_listeners ?srv) = cnt"
      using Cons.prems(1,2) False by (auto simp: server_wf_def not_le)
    show ?thesis
    proof (cases r)
      case (AcConn sock configured)
      have "server_wf (accept_client now ?i sock configured ?srv)" by (rule accept_client_wf [OF wf i rate])
      moreover have "accept_loop now cnt offs (taken + 1, f, accept_client now ?i sock configured ?srv) = (taken', f', srv')"
        using Cons.prems(3) False a AcConn by (simp add: Let_def)
      ultimately have "server_wf srv' \<and> (taken + 1 \<le> 2 \<longrightarrow> taken' \<le> 2)"
        using Cons.IH len by simp
      then show ?thesis using False by simp
    qed (use Cons.IH [OF wf len] Cons.prems(3) False a in \<open>simp_all add: Let_def\<close>)
  qed
qed simp

lemma accept_pending_wf:
  assumes "server_wf srv"
  shows "server_wf (snd (accept_pending now srv))"
proof (cases "length (srv_listeners srv) = 0")
  case False
  let ?cnt = "length (srv_listeners srv)"
  let ?srv = "if now - srv_rate_window srv \<ge> 1000000 then srv\<lparr>srv_rate_window := now, srv_rate_count := 0\<rparr> else srv"
  obtain t f srv' where l: "accept_loop now ?cnt [0..<?cnt] (0, False, ?srv) = (t, f, srv')" by (rule prod_cases3)
  have "server_wf ?srv" "length (srv_listeners ?srv) = ?cnt" using assms by (simp_all add: server_wf_def)
  then have "server_wf srv'" using accept_loop_wf [OF _ _ _ l] False by simp
  then have "server_wf (srv'\<lparr>srv_listener_cursor := n\<rparr>)" for n by (simp add: server_wf_def)
  then show ?thesis using False by (simp only: accept_pending_def Let_def if_False l prod.case snd_conv)
qed (simp add: accept_pending_def assms)

lemma flush_clients_ok:
  assumes "list_all client_ok cs" and "flush_clients cs = (ds, cs')"
  shows "length ds = length cs \<and> length cs' = length cs \<and> list_all client_ok cs' \<and>
    map cl_id cs' = map cl_id cs"
  using assms
proof (induction cs arbitrary: ds cs')
  case (Cons c cs)
  obtain ok c1 where f: "flush_tx c = (ok, c1)" by (rule prod.exhaust)
  obtain ds1 cs1 where r: "flush_clients cs = (ds1, cs1)" by (rule prod.exhaust)
  have wf: "client_wf c" "cl_initial_slot c < 4" using Cons.prems(1) by (simp_all add: client_ok_def)
  have "progress (c, bus_start env_idle) [] (c1, bus_start env_idle)" by (rule flush_tx_progress [OF wf(1) bus_wf_idle f])
  then have c1: "client_ok c1" "cl_id c1 = cl_id c" using wf by (simp_all add: progress_def client_ok_def)
  then have "client_ok (snd (is_timed_out c1))" "cl_id (snd (is_timed_out c1)) = cl_id c"
    by (simp_all add: is_timed_out_def split_beta client_ok_def client_wf_def)
  with c1 have c2: "client_ok (snd (if \<not> ok then (True, c1) else is_timed_out c1))"
    "cl_id (snd (if \<not> ok then (True, c1) else is_timed_out c1)) = cl_id c" by simp_all
  have "ds = fst (if \<not> ok then (True, c1) else is_timed_out c1) # ds1"
    "cs' = snd (if \<not> ok then (True, c1) else is_timed_out c1) # cs1"
    using Cons.prems(2) unfolding flush_clients.simps Let_def f r prod.case by (simp_all add: split_beta)
  then show ?case using Cons.IH [OF _ r] Cons.prems(1) c2 by simp
qed simp

lemma listener_port_slot_less:
  assumes "server_wf srv" and "i < length (srv_clients srv)"
  shows "listener_port_slot (srv_active_ports srv) (srv_clients srv ! i) < 4"
  using assms nth_mem [OF assms(2)]
  by (auto simp: listener_port_slot_def server_wf_def list_all_iff client_ok_def find_Some_iff split: option.split)


definition ctx_wf :: "poll_ctx \<Rightarrow> bool" where
  "ctx_wf p \<longleftrightarrow> server_wf (pc_srv p) \<and> bus_wf (pc_bus p)"

text \<open>What a run of polls did: it served the requests \<open>adus\<close>, each taken from what remained.\<close>

definition polled :: "poll_ctx \<Rightarrow> u8 list list \<Rightarrow> poll_ctx \<Rightarrow> bool" where
  "polled p adus q \<longleftrightarrow> ctx_wf q \<and> pc_bus q = snd (serve_adus (pc_bus p) adus) \<and> list_all is_adu adus \<and>
     length adus + pc_remaining q = pc_remaining p \<and>
     length (srv_clients (pc_srv q)) = length (srv_clients (pc_srv p))"

lemma polled_refl: "ctx_wf p \<Longrightarrow> polled p [] p"
  by (simp add: polled_def)

lemma polled_trans: "polled p as q \<Longrightarrow> polled q bs r \<Longrightarrow> polled p (as @ bs) r"
  by (auto simp: polled_def serve_adus_append)

lemma poll_one_polled:
  assumes "ctx_wf p" and "index < length (srv_clients (pc_srv p))" and "pc_remaining p \<noteq> 0"
  shows "\<exists>adus. polled p adus (poll_one deadline index p)"
proof -
  let ?srv = "pc_srv p" and ?c = "srv_clients (pc_srv p) ! index"
  have wf: "server_wf ?srv" "bus_wf (pc_bus p)" using assms(1) by (simp_all add: ctx_wf_def)
  have c: "client_wf ?c" "cl_initial_slot ?c < 4"
    using wf(1) assms(2) by (auto simp: server_wf_def list_all_length client_ok_def)
  have slot: "listener_port_slot (srv_active_ports ?srv) ?c < 4" by (rule listener_port_slot_less [OF wf(1) assms(2)])
  obtain keep b c' s' where run: "client_poll deadline (1, ?c, pc_bus p) = (keep, b, c', s')" by (rule prod_cases4)
  obtain adus where a: "progress (?c, pc_bus p) adus (c', s')" "length adus + b = 1"
    using client_poll_progress [OF c(1) wf(2) run] by blast
  have c': "client_ok c'" using a(1) c by (simp add: progress_def client_ok_def)
  have s': "bus_wf s'" using progress_wf [OF a(1)] ..
  let ?srv' = "?srv\<lparr>srv_clients := (srv_clients ?srv)[index := c']\<rparr>"
  have "list_all client_ok ((srv_clients ?srv)[index := c'])"
    using wf(1) c' set_update_subset_insert [of "srv_clients ?srv" index c']
    by (auto simp: server_wf_def list_all_iff)
  then have wf': "server_wf ?srv'" by (intro server_wf_clients [OF wf(1)]) simp_all
  moreover from this have "server_wf (?srv'\<lparr>srv_last_served := (srv_last_served ?srv)[n := x],
      srv_port_cursor := (n + 1) mod 4\<rparr>)" for n x by (simp add: server_wf_def)
  moreover have "b \<noteq> 0 \<Longrightarrow> adus = []" using a(2) by (cases adus) auto
  ultimately have "polled p adus (poll_one deadline index p)"
    using a s' assms(3)
    by (cases keep; cases "b = 0")
      (simp_all add: poll_one_def run [unfolded One_nat_def] polled_def ctx_wf_def progress_def Let_def)
  then show ?thesis ..
qed

lemma poll_pass_polled:
  assumes "ctx_wf p" and "\<forall>i\<in>set order. i < length (srv_clients (pc_srv p))"
  shows "\<exists>adus. polled p adus (poll_pass deadline borrow order p)"
  using assms
proof (induction order arbitrary: p)
  case Nil
  then show ?case using polled_refl by auto
next
  case (Cons i order)
  obtain now srv where n: "server_now (pc_srv p) = (now, srv)" by (rule prod.exhaust)
  let ?p = "p\<lparr>pc_srv := srv\<rparr>"
  have srv: "server_wf srv" "srv_clients srv = srv_clients (pc_srv p)"
    using Cons.prems(1) server_now_wf [of "pc_srv p"] server_now_clients [of "pc_srv p"] n
    by (simp_all add: ctx_wf_def)
  have p: "polled p [] ?p" "ctx_wf ?p"
    using Cons.prems(1) srv by (simp_all add: polled_def ctx_wf_def)
  have i: "i < length (srv_clients (pc_srv ?p))" using Cons.prems(2) srv by simp
  have order: "\<forall>i\<in>set order. i < length (srv_clients (pc_srv ?p))" using Cons.prems(2) srv by simp
  let ?skip = "pc_dead p ! i \<or> pc_polled p ! i \<or>
      (\<not> borrow \<and> pc_ports p ! listener_port_slot (srv_active_ports srv) (srv_clients srv ! i))"
  consider "pc_remaining p = 0" | "pc_remaining p \<noteq> 0" "now \<ge> deadline"
    | "pc_remaining p \<noteq> 0" "\<not> now \<ge> deadline" "?skip"
    | "pc_remaining p \<noteq> 0" "\<not> now \<ge> deadline" "\<not> ?skip" by blast
  then show ?case
  proof cases
    case 1
    then show ?thesis using polled_refl [OF Cons.prems(1)] by auto
  next
    case 2
    then show ?thesis using p(1) by (auto simp: n)
  next
    case 3
    then have eq: "poll_pass deadline borrow (i # order) p = poll_pass deadline borrow order ?p" by (simp add: n)
    show ?thesis using Cons.IH [OF p(2) order] polled_trans [OF p(1)] unfolding eq by fastforce
  next
    case 4
    then have eq: "poll_pass deadline borrow (i # order) p = poll_pass deadline borrow order (poll_one deadline i ?p)"
      by (auto simp: n Let_def)
    have "pc_remaining ?p \<noteq> 0" using 4(1) by simp
    then obtain as where as: "polled ?p as (poll_one deadline i ?p)" using poll_one_polled [OF p(2) i] by blast
    have "ctx_wf (poll_one deadline i ?p)"
      "\<forall>j\<in>set order. j < length (srv_clients (pc_srv (poll_one deadline i ?p)))"
      using as order by (auto simp: polled_def)
    then obtain bs where "polled (poll_one deadline i ?p) bs (poll_pass deadline borrow order (poll_one deadline i ?p))"
      using Cons.IH by blast
    then show ?thesis using polled_trans [OF polled_trans [OF p(1) as]] unfolding eq by blast
  qed
qed

lemma reap_wf:
  assumes "server_wf srv" and "k \<le> length (srv_clients srv)"
  shows "server_wf (reap dead k srv)"
  using assms
proof (induction k arbitrary: srv)
  case (Suc k)
  show ?case
  proof (cases "dead ! k")
    case True
    let ?cs = "swap_remove k (srv_clients srv)"
    have k: "k < length (srv_clients srv)" using Suc.prems(2) by simp
    have ok: "list_all client_ok ?cs"
      using Suc.prems(1) set_swap_remove [OF k] by (auto simp: server_wf_def list_all_iff)
    have "srv_conn_count srv - 1 = of_nat (length ?cs)"
      using Suc.prems(1) k by (simp add: server_wf_def of_nat_diff)
    moreover have "length ?cs \<le> 8" using Suc.prems(1) by (auto simp: server_wf_def)
    ultimately have "server_wf (srv\<lparr>srv_clients := ?cs, srv_closed_total := x, srv_conn_count := srv_conn_count srv - 1\<rparr>)" for x
      using Suc.prems(1) ok by (auto simp: server_wf_def)
    then show ?thesis using Suc.IH True Suc.prems(2) by simp
  qed (use Suc in simp)
qed simp

lemma poll_clients_serves:
  assumes "server_wf srv" and "bus_wf s" and "poll_clients started (srv, s) = (srv', s')"
  shows "\<exists>adus. s' = snd (serve_adus s adus) \<and> list_all is_adu adus \<and> length adus \<le> 1 \<and>
    server_wf srv' \<and> bus_wf s'"
proof -
  let ?meta = "map (\<lambda>c. (cl_id c, listener_port_slot (srv_active_ports srv) c)) (srv_clients srv)"
  obtain dead cs where f: "flush_clients (srv_clients srv) = (dead, cs)" by (rule prod.exhaust)
  have cs: "length cs = length (srv_clients srv)" "list_all client_ok cs"
    using flush_clients_ok [OF _ f] assms(1) by (simp_all add: server_wf_def)
  let ?srv = "srv\<lparr>srv_clients := cs\<rparr>"
  have wf: "server_wf ?srv" by (rule server_wf_clients [OF assms(1) cs])
  obtain order used where o: "fair_client_schedule ?meta (srv_port_cursor ?srv) (srv_last_served ?srv) = (order, used)"
    by (rule prod.exhaust)
  have "\<forall>c\<in>set ?meta. snd c < 4"
    using listener_port_slot_less [OF assms(1)] by (auto simp: in_set_conv_nth)
  then have "mset (take used order) = mset [0..<length ?meta]"
    using fair_client_schedule_permutes [OF _ _ _ o] wf cs(1) by (simp add: server_wf_def)
  then have "set (take used order) = {0..<length (srv_clients srv)}"
    using mset_eq_setD [of "take used order" "[0..<length ?meta]"] by simp
  then have order: "\<forall>i\<in>set (take used order). i < length cs" using cs(1) by auto
  let ?p = "\<lparr>pc_srv = ?srv, pc_bus = s, pc_dead = dead, pc_polled = replicate MAX_CONNECTIONS False,
      pc_ports = replicate 4 False, pc_remaining = MAX_REQUESTS_PER_TICK, pc_any = False\<rparr>"
  let ?q = "poll_pass (started + 1500) False (take used order) ?p"
  let ?r = "poll_pass (started + 1500) True (take used order) ?q"
  have "ctx_wf ?p" using wf assms(2) by (simp add: ctx_wf_def)
  then obtain as where as: "polled ?p as ?q"
    using poll_pass_polled [of ?p "take used order" "started + 1500" False] order by auto
  then have "ctx_wf ?q" "\<forall>i\<in>set (take used order). i < length (srv_clients (pc_srv ?q))"
    using order by (auto simp: polled_def)
  then obtain bs where "polled ?q bs ?r" using poll_pass_polled by blast
  then have r: "polled ?p (as @ bs) ?r" by (rule polled_trans [OF as])
  let ?srv2 = "if \<not> pc_any ?r then (pc_srv ?r)\<lparr>srv_port_cursor := (srv_port_cursor (pc_srv ?r) + 1) mod 4\<rparr> else pc_srv ?r"
  have wf2: "server_wf ?srv2" "length (srv_clients ?srv2) = length (srv_clients srv)"
    using r cs(1) by (simp_all add: polled_def ctx_wf_def server_wf_def)
  have res: "srv' = reap (pc_dead ?r) (length (srv_clients srv)) ?srv2" "s' = pc_bus ?r"
    using assms(3) unfolding poll_clients_def Let_def prod.case f o by simp_all
  have "server_wf srv'" unfolding res(1) by (rule reap_wf) (use wf2 in simp_all)
  note q = r [unfolded polled_def ctx_wf_def]
  have "s' = snd (serve_adus s (as @ bs))" using q res(2) by simp
  moreover have "bus_wf s'" unfolding res(2) using q by blast
  moreover have "list_all is_adu (as @ bs)" using q by blast
  moreover have "length (as @ bs) \<le> 1" using q by simp
  ultimately show ?thesis using \<open>server_wf srv'\<close> by blast
qed

text \<open>A tick of the server executes at most one request, exactly as the abstract server would, and
  keeps the server in bounds: at most eight clients, a connection count that is their number, at most ten
  connections per second, and every index into the ports and slots in range.\<close>

theorem tick_serves_at_most_one:
  assumes "server_wf srv" and "bus_wf s" and "tick_tcp_server net (srv, s) = (srv', s')"
  shows "\<exists>adus. s' = snd (serve_adus s adus) \<and> list_all is_adu adus \<and> length adus \<le> 1 \<and>
    server_wf srv' \<and> bus_wf s'"
proof -
  obtain now srv1 where 1: "server_now srv = (now, srv1)" by (rule prod.exhaust)
  let ?srv2 = "recover_listeners_if_due net now srv1"
  let ?srv3 = "check_ports net now (configured_ports s) ?srv2"
  obtain flt srv4 where 4: "accept_pending now ?srv3 = (flt, srv4)" by (rule prod.exhaust)
  let ?srv5 = "if flt then schedule_listener_recovery now srv4 else srv4"
  obtain started srv6 where 6: "server_now ?srv5 = (started, srv6)" by (rule prod.exhaust)
  have "length (configured_ports s) = 4"
    using assms(2) by (simp add: configured_ports_def bus_wf_def config_wf_def)
  moreover have "server_wf srv1" using server_now_wf [of srv] assms(1) 1 by simp
  ultimately have "server_wf ?srv3" by (intro check_ports_wf recover_listeners_wf)
  then have "server_wf srv4" using accept_pending_wf [of ?srv3 now] 4 by simp
  then have "server_wf ?srv5" by simp
  then have "server_wf srv6" using server_now_wf [of ?srv5] 6 by simp
  moreover have "poll_clients started (srv6, s) = (srv', s')"
    using assms(3) unfolding tick_tcp_server_def Let_def prod.case 1 4 6 .
  ultimately show ?thesis using poll_clients_serves assms(2) by blast
qed

lemma server_start_wf: "server_start net ports clock = Inr srv \<Longrightarrow> length ports = 4 \<Longrightarrow> server_wf srv"
  using bind_each_length [of net ports "[]"]
  by (auto simp: server_start_def server_wf_def Let_def bind_ports_def split: if_splits prod.splits sum.splits)

theorem tick_serves_at_most_one_witness:
  "\<exists>srv srv' s' adus. server_start \<lparr>net_bind = \<lambda>_. Some [], net_clone = \<lambda>_. True, net_reserve = True\<rparr>
      [502, 503, 504, 5002] [7] = Inr srv \<and>
    tick_tcp_server \<lparr>net_bind = \<lambda>_. None, net_clone = \<lambda>_. True, net_reserve = True\<rparr> (srv, bus_start env_idle) = (srv', s') \<and>
    s' = snd (serve_adus (bus_start env_idle) adus) \<and> length adus \<le> 1 \<and> server_wf srv'"
proof -
  let ?net = "\<lparr>net_bind = \<lambda>_. Some [], net_clone = \<lambda>_. True, net_reserve = True\<rparr>"
  have "valid_tcp_ports [502, 503, 504, 5002]" by (simp add: valid_tcp_ports_iff)
  then obtain srv where srv: "server_start ?net [502, 503, 504, 5002] [7] = Inr srv"
    by (simp add: server_start_def bind_ports_def bind_listener_def Let_def)
  obtain srv' s' where t: "tick_tcp_server \<lparr>net_bind = \<lambda>_. None, net_clone = \<lambda>_. True, net_reserve = True\<rparr>
      (srv, bus_start env_idle) = (srv', s')" by (rule prod.exhaust)
  have "server_wf srv" by (rule server_start_wf [OF srv]) simp
  then show ?thesis using tick_serves_at_most_one [OF _ bus_wf_idle t] srv t by blast
qed

end
