(* ===== verification/Ring_Items.thy ===== *)
theory Ring_Items imports Main begin

text \<open>
  The entries of a ring buffer in order: \<open>len\<close> entries of the array \<open>xs\<close> from index \<open>head\<close> on, wrapping
  at \<open>n\<close>.  The output queue and the ring of Bluetooth frames are read this way.
\<close>

definition ring_items :: "nat \<Rightarrow> 'a list \<Rightarrow> nat \<Rightarrow> nat \<Rightarrow> 'a list" where
  "ring_items n xs head len = map (\<lambda>i. xs ! ((head + i) mod n)) [0..<len]"

lemma ring_items_length [simp]: "length (ring_items n xs h l) = l"
  by (simp add: ring_items_def)

lemma ring_items_empty [simp]: "ring_items n xs h 0 = []"
  by (simp add: ring_items_def)

lemma ring_items_Nil_iff [simp]: "ring_items n xs h l = [] \<longleftrightarrow> l = 0"
  by (simp add: ring_items_def)

lemma ring_index_inj:
  assumes "i < (n::nat)" and "j < n" and "h < n" and "(h + i) mod n = (h + j) mod n"
  shows "i = j"
  using assms by (auto simp: mod_if split: if_splits)

lemma ring_items_push:
  assumes "length xs = n" and "h < n" and "l < n"
  shows "ring_items n (xs[(h + l) mod n := x]) h (Suc l) = ring_items n xs h l @ [x]"
proof -
  have "xs[(h + l) mod n := x] ! ((h + i) mod n) = xs ! ((h + i) mod n)" if "i < l" for i
    by (rule nth_list_update_neq) (use ring_index_inj [of i n l h] that assms in auto)
  then show ?thesis
    using assms by (auto simp: ring_items_def)
qed

lemma ring_items_Cons:
  assumes "l \<noteq> 0" and "h < n"
  shows "ring_items n xs h l = xs ! h # ring_items n xs ((h + 1) mod n) (l - 1)"
proof -
  have "[0..<l] = 0 # map Suc [0..<l - 1]"
    using assms(1) by (simp add: upt_conv_Cons map_Suc_upt)
  then show ?thesis using assms(2) by (simp add: ring_items_def mod_simps add.assoc)
qed

lemma ring_items_set_head:
  assumes "length xs = n" and "h < n" and "l \<noteq> 0" and "l \<le> n"
  shows "ring_items n (xs[h := x]) h l = x # tl (ring_items n xs h l)"
proof (rule nth_equalityI)
  fix i assume "i < length (ring_items n (xs[h := x]) h l)"
  then have i: "i < l" by simp
  show "ring_items n (xs[h := x]) h l ! i = (x # tl (ring_items n xs h l)) ! i"
  proof (cases i)
    case 0
    then show ?thesis using assms by (simp add: ring_items_def)
  next
    case (Suc j)
    have "(h + i) mod n \<noteq> (h + 0) mod n"
      using ring_index_inj [of i n 0 h] i assms Suc by auto
    then have "h \<noteq> (h + i) mod n" using assms(2) by (metis add_0_right mod_less)
    then show ?thesis using i Suc by (simp add: ring_items_def nth_tl)
  qed
qed (use assms in simp)

lemma ring_items_drop_head:
  assumes "length xs = n" and "h < n" and "l \<noteq> 0" and "l \<le> n"
  shows "ring_items n (xs[h := x]) ((h + 1) mod n) (l - 1) = tl (ring_items n xs h l)"
  using ring_items_set_head [OF assms, of x] ring_items_Cons [OF assms(3,2), of "xs[h := x]"] by simp

end
