(* ===== verification/Output_Queue.thy ===== *)
theory Output_Queue imports Prelude Mpsc_Ring Ring_Items begin

text \<open>
  The queue of output commands between the register map and the I/O worker
  (\<open>src/hal/io_worker_state.rs\<close>): a ring of 32 commands with a generation number, the rule that a
  hardware fault keeps only the latest target, and the freshness test of input samples.  The queue is an
  instance of the contract \<open>bounded_fifo\<close>.
\<close>

abbreviation (input) OUTPUT_QUEUE_CAPACITY :: nat where "OUTPUT_QUEUE_CAPACITY \<equiv> 32"
abbreviation (input) INPUT_MAX_AGE_MS :: u32 where "INPUT_MAX_AGE_MS \<equiv> 250"

record output_command =
  oc_generation :: u32
  oc_bits :: u64

record output_queue =
  oq_commands :: "output_command list"
  oq_head :: nat
  oq_len :: nat
  oq_latest :: output_command
  oq_high_water :: nat
  oq_rejected :: u32
  oq_canceled :: u32

definition output_queue_new :: output_queue where
  "output_queue_new =
     \<lparr>oq_commands = replicate OUTPUT_QUEUE_CAPACITY \<lparr>oc_generation = 0, oc_bits = 0\<rparr>,
      oq_head = 0, oq_len = 0, oq_latest = \<lparr>oc_generation = 0, oc_bits = 0\<rparr>,
      oq_high_water = 0, oq_rejected = 0, oq_canceled = 0\<rparr>"

text \<open>The part of \<open>submit\<close> after the comparison with the latest command.\<close>

definition push_command :: "output_command \<Rightarrow> output_queue \<Rightarrow> bool \<times> output_queue" where
  "push_command command q =
     (if oq_len q = OUTPUT_QUEUE_CAPACITY then (False, q\<lparr>oq_rejected := saturating_add (oq_rejected q) 1\<rparr>)
      else (True, q\<lparr>oq_commands := (oq_commands q)[(oq_head q + oq_len q) mod OUTPUT_QUEUE_CAPACITY := command],
                    oq_len := oq_len q + 1,
                    oq_high_water := max (oq_high_water q) (oq_len q + 1),
                    oq_latest := command\<rparr>))"

definition submit :: "u64 \<Rightarrow> output_queue \<Rightarrow> bool \<times> output_queue" where
  "submit bits q =
     (if bits = oc_bits (oq_latest q) then (True, q)
      else push_command \<lparr>oc_generation = oc_generation (oq_latest q) + 1, oc_bits = bits\<rparr> q)"

definition retain_latest_after_fault :: "output_queue \<Rightarrow> output_queue" where
  "retain_latest_after_fault q =
     (if oq_len q > 1
      then q\<lparr>oq_canceled := saturating_add (oq_canceled q) (of_nat (oq_len q - 1)),
             oq_commands := (oq_commands q)[0 := oq_latest q], oq_head := 0, oq_len := 1\<rparr>
      else q)"

definition front :: "output_queue \<Rightarrow> output_command option" where
  "front q = (if oq_len q \<noteq> 0 then Some (oq_commands q ! oq_head q) else None)"

definition confirm :: "output_command \<Rightarrow> output_queue \<Rightarrow> bool \<times> output_queue" where
  "confirm command q =
     (if front q \<noteq> Some command then (False, q)
      else (True, q\<lparr>oq_head := (oq_head q + 1) mod OUTPUT_QUEUE_CAPACITY, oq_len := oq_len q - 1\<rparr>))"

definition sample_is_fresh :: "bool \<Rightarrow> u32 \<Rightarrow> u32 \<Rightarrow> u32 \<Rightarrow> bool" where
  "sample_is_fresh initialized now_ms sampled_ms failures \<longleftrightarrow>
     initialized \<and> failures = 0 \<and> now_ms - sampled_ms \<le> INPUT_MAX_AGE_MS"

section \<open>The queue as a list\<close>

definition oq_list :: "output_queue \<Rightarrow> output_command list" where
  "oq_list q = ring_items OUTPUT_QUEUE_CAPACITY (oq_commands q) (oq_head q) (oq_len q)"

definition oq_wf :: "output_queue \<Rightarrow> bool" where
  "oq_wf q \<longleftrightarrow> length (oq_commands q) = OUTPUT_QUEUE_CAPACITY \<and> oq_head q < OUTPUT_QUEUE_CAPACITY \<and>
     oq_len q \<le> OUTPUT_QUEUE_CAPACITY \<and> (oq_len q \<noteq> 0 \<longrightarrow> last (oq_list q) = oq_latest q)"

definition take_front :: "output_queue \<Rightarrow> output_command option \<times> output_queue" where
  "take_front q = (case front q of None \<Rightarrow> (None, q) | Some c \<Rightarrow> (Some c, snd (confirm c q)))"

lemma oq_list_length [simp]: "length (oq_list q) = oq_len q"
  by (simp add: oq_list_def)

lemma oq_list_empty: "oq_list q = [] \<longleftrightarrow> oq_len q = 0"
  by (simp add: oq_list_def)

lemma push_command_list:
  assumes "oq_wf q" and "oq_len q < OUTPUT_QUEUE_CAPACITY"
  shows "fst (push_command c q) \<and> oq_list (snd (push_command c q)) = oq_list q @ [c] \<and>
    oq_wf (snd (push_command c q)) \<and> oq_latest (snd (push_command c q)) = c"
proof -
  let ?q = "snd (push_command c q)"
  have l: "oq_list ?q = oq_list q @ [c]"
    using assms ring_items_push [of "oq_commands q" 32 "oq_head q" "oq_len q" c]
    by (simp add: push_command_def oq_list_def oq_wf_def)
  moreover have "oq_wf ?q"
    using assms wf l by (auto simp: oq_wf_def push_command_def)
  ultimately show ?thesis using assms(2) by (simp add: push_command_def)
qed

lemma push_command_full:
  "oq_len q = OUTPUT_QUEUE_CAPACITY \<Longrightarrow> oq_wf q \<Longrightarrow>
    \<not> fst (push_command c q) \<and> oq_list (snd (push_command c q)) = oq_list q \<and> oq_wf (snd (push_command c q))"
  by (simp add: push_command_def oq_wf_def oq_list_def)

lemma oq_list_Cons:
  assumes "oq_len q \<noteq> 0" and "oq_wf q"
  shows "oq_list q = oq_commands q ! oq_head q #
    oq_list (q\<lparr>oq_head := (oq_head q + 1) mod 32, oq_len := oq_len q - 1\<rparr>)"
  using ring_items_Cons [of "oq_len q" "oq_head q" 32 "oq_commands q"] assms by (simp add: oq_list_def oq_wf_def)

lemma front_list:
  assumes "oq_wf q"
  shows "front q = (case oq_list q of [] \<Rightarrow> None | c # _ \<Rightarrow> Some c)"
proof (cases "oq_len q = 0")
  case False
  then show ?thesis using assms unfolding oq_list_Cons [OF False assms] by (simp add: front_def oq_wf_def)
qed (simp add: front_def oq_list_def)

lemma confirm_list:
  assumes "oq_wf q" and "front q = Some c"
  shows "fst (confirm c q) \<and> oq_list q = c # oq_list (snd (confirm c q)) \<and> oq_wf (snd (confirm c q)) \<and>
    oq_latest (snd (confirm c q)) = oq_latest q"
proof -
  let ?q = "q\<lparr>oq_head := (oq_head q + 1) mod 32, oq_len := oq_len q - 1\<rparr>"
  have n: "oq_len q \<noteq> 0" and c: "c = oq_commands q ! oq_head q" using assms(2) by (auto simp: front_def split: if_splits)
  have res: "confirm c q = (True, ?q)" using assms(2) by (simp add: confirm_def)
  have l: "oq_list q = c # oq_list ?q" using oq_list_Cons [OF n assms(1)] c by (simp add: oq_wf_def)
  have "oq_len ?q \<noteq> 0 \<Longrightarrow> last (oq_list ?q) = last (oq_list q)" unfolding l by (simp add: oq_list_empty)
  then have "oq_wf ?q" using assms(1) n by (auto simp: oq_wf_def)
  then show ?thesis using l unfolding res by simp
qed

lemma retain_latest_list:
  assumes "oq_wf q"
  shows "oq_list (retain_latest_after_fault q) = (if oq_len q = 0 then [] else [oq_latest q]) \<and>
    oq_wf (retain_latest_after_fault q)"
proof (cases "oq_len q > 1")
  case True
  then have "oq_list (retain_latest_after_fault q) = [oq_latest q]"
    using assms by (simp add: retain_latest_after_fault_def oq_list_def oq_wf_def ring_items_def)
  then show ?thesis using True assms by (simp add: oq_wf_def retain_latest_after_fault_def)
next
  case False
  have "oq_list q = [oq_latest q]" if n: "oq_len q \<noteq> 0"
  proof -
    have "length (oq_list q) = 1" using n False by simp
    then obtain x where "oq_list q = [x]" unfolding One_nat_def length_Suc_conv length_0_conv by blast
    then show ?thesis using assms n by (simp add: oq_wf_def)
  qed
  then show ?thesis using False assms by (auto simp: retain_latest_after_fault_def oq_list_empty)
qed

interpretation oq: bounded_fifo oq_list OUTPUT_QUEUE_CAPACITY oq_wf push_command take_front
proof
  fix q :: output_queue and c y :: output_command and ys
  assume wf: "oq_wf q"
  show "length (oq_list q) \<le> 32" using wf by (simp add: oq_wf_def)
  show "oq_wf (snd (push_command c q))"
    using push_command_list [OF wf, of c] push_command_full [of q c] wf by (cases "oq_len q = 32") (auto simp: oq_wf_def)
  show "oq_wf (snd (take_front q))"
    using confirm_list [OF wf] wf by (auto simp: take_front_def split: option.split)
  show "length (oq_list q) < 32 \<Longrightarrow> fst (push_command c q) \<and> oq_list (snd (push_command c q)) = oq_list q @ [c]"
    using push_command_list [OF wf] by simp
  show "length (oq_list q) = 32 \<Longrightarrow> \<not> fst (push_command c q) \<and> oq_list (snd (push_command c q)) = oq_list q"
    using push_command_full [OF _ wf] by simp
  show "oq_list q = [] \<Longrightarrow> fst (take_front q) = None \<and> oq_list (snd (take_front q)) = []"
    using front_list [OF wf] by (simp add: take_front_def)
  show "oq_list q = y # ys \<Longrightarrow> fst (take_front q) = Some y \<and> oq_list (snd (take_front q)) = ys"
    using front_list [OF wf] confirm_list [OF wf, of y] by (simp add: take_front_def)
qed

section \<open>Correctness\<close>

text \<open>The output queue is a queue of targets: a submission equal to the latest target changes
  nothing, a full queue refuses and keeps what is pending, any other submission is appended with the
  next generation; only a confirmation of the oldest command consumes it, and after a fault exactly the
  latest target is left.\<close>

theorem output_queue_contract:
  assumes "oq_wf q"
  shows "(bits = oc_bits (oq_latest q) \<longrightarrow> submit bits q = (True, q)) \<and>
    (bits \<noteq> oc_bits (oq_latest q) \<and> length (oq_list q) = 32 \<longrightarrow>
       \<not> fst (submit bits q) \<and> oq_list (snd (submit bits q)) = oq_list q) \<and>
    (bits \<noteq> oc_bits (oq_latest q) \<and> length (oq_list q) < 32 \<longrightarrow>
       fst (submit bits q) \<and> oq_list (snd (submit bits q)) =
         oq_list q @ [\<lparr>oc_generation = oc_generation (oq_latest q) + 1, oc_bits = bits\<rparr>]) \<and>
    (confirm c q = (case oq_list q of
        d # ds \<Rightarrow> if c = d then (True, snd (confirm c q)) else (False, q) | [] \<Rightarrow> (False, q))) \<and>
    (front q = Some c \<longrightarrow> oq_list (snd (confirm c q)) = tl (oq_list q)) \<and>
    oq_list (retain_latest_after_fault q) = (if oq_list q = [] then [] else [last (oq_list q)]) \<and>
    oq_wf (snd (submit bits q)) \<and> oq_wf (snd (confirm c q)) \<and> oq_wf (retain_latest_after_fault q)"
proof (intro conjI impI)
  let ?c = "\<lparr>oc_generation = oc_generation (oq_latest q) + 1, oc_bits = bits\<rparr>"
  show "oq_wf (snd (submit bits q))" using oq.enq_wf [OF assms, of ?c] assms by (simp add: submit_def)
  show "confirm c q = (case oq_list q of
        d # ds \<Rightarrow> if c = d then (True, snd (confirm c q)) else (False, q) | [] \<Rightarrow> (False, q))"
    using front_list [OF assms] by (auto simp: confirm_def split: list.split)
  show "oq_wf (snd (confirm c q))"
    using confirm_list [OF assms, of c] assms by (cases "front q = Some c") (auto simp: confirm_def)
  show "oq_list (retain_latest_after_fault q) = (if oq_list q = [] then [] else [last (oq_list q)])"
    using retain_latest_list [OF assms] assms by (auto simp: oq_wf_def oq_list_empty)
qed (use assms oq.enq_room [OF assms] oq.enq_full [OF assms] confirm_list [OF assms] retain_latest_list [OF assms]
  in \<open>auto simp: submit_def\<close>)

theorem output_queue_contract_witness:
  "oq_wf output_queue_new \<and> oq_list (snd (submit 5 output_queue_new)) = [\<lparr>oc_generation = 1, oc_bits = 5\<rparr>] \<and>
   confirm \<lparr>oc_generation = 7, oc_bits = 5\<rparr> (snd (submit 5 output_queue_new)) =
     (False, snd (submit 5 output_queue_new))"
proof -
  have wf: "oq_wf output_queue_new" by (simp add: oq_wf_def output_queue_new_def)
  note 1 = output_queue_contract [OF wf, of 5]
  have l: "oq_list (snd (submit 5 output_queue_new)) = [\<lparr>oc_generation = 1, oc_bits = 5\<rparr>]"
    using 1 by (simp add: output_queue_new_def oq_list_def)
  have "oq_wf (snd (submit 5 output_queue_new))" using 1 by blast
  from output_queue_contract [OF this, of 0 "\<lparr>oc_generation = 7, oc_bits = 5\<rparr>"] l wf show ?thesis by simp
qed

end
