(* ===== verification/Event_Bus.thy ===== *)
theory Event_Bus imports Prelude begin

text \<open>
  The event bus of \<open>src/bus/event_bus.rs\<close>.  Ordinary samples are bits of one atomic byte and
  coalesce; critical events go to a slot that keeps the latest.  The compare-and-swap of a receiver can
  fail when a producer changes the byte in between: the value it then finds is a parameter.
\<close>

datatype io_event = DiChanged | DoChanged | AiSampled | AoUpdated | ResetRequested
  | IpAssigned "u8 list" "u8 list" "u8 list" u32 | EthernetLink bool u32

datatype critical_event = CrReset | CrIp "u8 list" "u8 list" "u8 list" u32 | CrLink bool u32

record event_bus =
  eb_flags :: u8
  eb_critical :: "critical_event option"
  eb_overwrites :: u32

definition flag_events :: "(u8 \<times> io_event) list" where
  "flag_events = [(1, DiChanged), (2, DoChanged), (4, AiSampled), (8, AoUpdated)]"

definition put_critical :: "critical_event \<Rightarrow> event_bus \<Rightarrow> event_bus" where
  "put_critical c b =
     (let overwrites = (if eb_critical b \<noteq> None then eb_overwrites b + 1 else eb_overwrites b)
      in b\<lparr>eb_critical := Some c, eb_overwrites := overwrites\<rparr>)"

definition send_event :: "io_event \<Rightarrow> event_bus \<Rightarrow> event_bus" where
  "send_event e b =
     (case e of
        DiChanged \<Rightarrow> b\<lparr>eb_flags := eb_flags b OR 1\<rparr>
      | DoChanged \<Rightarrow> b\<lparr>eb_flags := eb_flags b OR 2\<rparr>
      | AiSampled \<Rightarrow> b\<lparr>eb_flags := eb_flags b OR 4\<rparr>
      | AoUpdated \<Rightarrow> b\<lparr>eb_flags := eb_flags b OR 8\<rparr>
      | ResetRequested \<Rightarrow> put_critical CrReset b
      | IpAssigned ip mask_ gw ms \<Rightarrow> put_critical (CrIp ip mask_ gw ms) b
      | EthernetLink up ms \<Rightarrow> put_critical (CrLink up ms) b)"

definition io_event_of :: "critical_event \<Rightarrow> io_event" where
  "io_event_of c =
     (case c of CrReset \<Rightarrow> ResetRequested | CrIp ip mask_ gw ms \<Rightarrow> IpAssigned ip mask_ gw ms
      | CrLink up ms \<Rightarrow> EthernetLink up ms)"

text \<open>The loop over the flags: \<open>flags\<close> was read before it, the exchange compares with the byte as it is now.\<close>

fun recv_flag :: "u8 \<Rightarrow> (u8 \<times> io_event) list \<Rightarrow> event_bus \<Rightarrow> io_event option \<times> event_bus" where
  "recv_flag flags [] b = (None, b)"
| "recv_flag flags ((flag, event) # fs) b =
     (if flags AND flag \<noteq> 0 \<and> eb_flags b = flags
      then (Some event, b\<lparr>eb_flags := flags AND NOT flag\<rparr>)
      else recv_flag flags fs b)"

text \<open>The events in \<open>between\<close> arrive after the flags were read.\<close>

definition recv_event :: "io_event list \<Rightarrow> event_bus \<Rightarrow> io_event option \<times> event_bus" where
  "recv_event between b =
     (case eb_critical b of
        Some c \<Rightarrow> (Some (io_event_of c), b\<lparr>eb_critical := None\<rparr>)
      | None \<Rightarrow> recv_flag (eb_flags b) flag_events (fold send_event between b))"

definition has_event :: "event_bus \<Rightarrow> bool" where
  "has_event b \<longleftrightarrow> eb_flags b \<noteq> 0 \<or> eb_critical b \<noteq> None"

definition event_count :: "event_bus \<Rightarrow> nat" where
  "event_count b = card {n. n < 8 \<and> bit (eb_flags b) n} + (if eb_critical b \<noteq> None then 1 else 0)"

definition event_bus_new :: event_bus where
  "event_bus_new = \<lparr>eb_flags = 0, eb_critical = None, eb_overwrites = 0\<rparr>"


section \<open>Nothing pending is lost\<close>

lemma recv_flag_cases:
  assumes "recv_flag flags fs b = (r, b')"
  shows "(r = None \<and> b' = b) \<or>
    (\<exists>flag event. (flag, event) \<in> set fs \<and> r = Some event \<and> eb_flags b = flags \<and> flags AND flag \<noteq> 0 \<and>
       b' = b\<lparr>eb_flags := flags AND NOT flag\<rparr>)"
  using assms by (induction flags fs b rule: recv_flag.induct) (auto split: if_splits)

text \<open>An event not received stays pending: an ordinary event returned clears its own flag only, and a
  failed exchange clears none.\<close>

lemma recv_event_pending:
  assumes "recv_event between b = (r, b')"
  shows "case eb_critical b of
      Some c \<Rightarrow> r = Some (io_event_of c) \<and> eb_flags b' = eb_flags b \<and> eb_critical b' = None
    | None \<Rightarrow> eb_critical b' = eb_critical (fold send_event between b) \<and>
        (r = None \<and> b' = fold send_event between b \<or>
         (\<exists>flag event. (flag, event) \<in> set flag_events \<and> r = Some event \<and>
            eb_flags (fold send_event between b) AND flag \<noteq> 0 \<and>
            eb_flags b' = eb_flags (fold send_event between b) AND NOT flag))"
proof (cases "eb_critical b")
  case None
  then have "recv_flag (eb_flags b) flag_events (fold send_event between b) = (r, b')"
    using assms by (simp add: recv_event_def)
  from recv_flag_cases [OF this] show ?thesis using None by auto
qed (use assms in \<open>auto simp: recv_event_def\<close>)

text \<open>With no producer in between, a pending ordinary event is received at once, the lowest flag first.\<close>

lemma recv_event_lowest:
  assumes "eb_critical b = None" and "eb_flags b AND 15 \<noteq> 0"
  shows "fst (recv_event [] b) \<noteq> None"
proof (rule ccontr)
  assume "\<not> fst (recv_event [] b) \<noteq> None"
  then have z: "eb_flags b AND 1 = 0" "eb_flags b AND 2 = 0" "eb_flags b AND 4 = 0" "eb_flags b AND 8 = 0"
    using assms(1) by (auto simp: recv_event_def flag_events_def split: if_splits)
  have "(15 :: u8) = 1 OR 2 OR 4 OR 8" by simp
  then have "eb_flags b AND 15 = (eb_flags b AND 1) OR (eb_flags b AND 2) OR (eb_flags b AND 4) OR (eb_flags b AND 8)"
    by (metis bit.conj_disj_distrib)
  with z assms(2) show False by simp
qed

text \<open>Samples never displace a critical event; a later critical event does.\<close>

lemma send_event_critical:
  "eb_critical (send_event e b) = (case e of
     ResetRequested \<Rightarrow> Some CrReset | IpAssigned i m g t \<Rightarrow> Some (CrIp i m g t)
   | EthernetLink u t \<Rightarrow> Some (CrLink u t) | _ \<Rightarrow> eb_critical b)"
  by (simp add: send_event_def put_critical_def Let_def split: io_event.split)

end
