(* ===== verification/Device_Store.thy ===== *)
theory Device_Store imports Bus_Writes begin

text \<open>
  What \<open>src/device/mod.rs\<close> keeps in the key-value flash beside the configuration: the protocol
  area in two blobs A and B with a marker of the active one, the device text with its magic word, and the
  states of the digital outputs.  Each write carries the outcome the driver gives it (\<open>Nvs\<close>), so
  that a power loss at any point is an outcome.
\<close>

section \<open>Checksum and words\<close>

fun crc32_bits :: "nat \<Rightarrow> u32 \<Rightarrow> u32" where
  "crc32_bits 0 crc = crc"
| "crc32_bits (Suc n) crc =
     crc32_bits n (if crc AND 1 \<noteq> 0 then drop_bit 1 crc XOR 0xEDB88320 else drop_bit 1 crc)"

definition crc32 :: "u8 list \<Rightarrow> u32" where
  "crc32 data = NOT (foldl (\<lambda>crc b. crc32_bits 8 (crc XOR ucast b)) 0xFFFFFFFF data)"

text \<open>\<open>chunks_exact(2)\<close> read as little-endian words.\<close>

fun le_words :: "u8 list \<Rightarrow> u16 list" where
  "le_words (a # b # bs) = le16 a b # le_words bs"
| "le_words _ = []"

definition words_le :: "u16 list \<Rightarrow> u8 list" where
  "words_le ws = concat (map le_bytes ws)"

lemma length_words_le [simp]: "length (words_le ws) = 2 * length ws"
  unfolding words_le_def by (rule length_concat_2) simp

lemma words_le_simps [simp]: "words_le [] = []" "words_le (w # ws) = lo8 w # hi8 w # words_le ws"
  by (simp_all add: words_le_def le_bytes_def)

lemma words_le_append: "words_le (xs @ ys) = words_le xs @ words_le ys"
  by (simp add: words_le_def)

lemma le_words_words_le [simp]: "le_words (words_le ws) = ws"
  by (induction ws) simp_all

lemma nth_words_le:
  "i < length ws \<Longrightarrow> words_le ws ! (2 * i) = lo8 (ws ! i) \<and> words_le ws ! Suc (2 * i) = hi8 (ws ! i)"
proof (induction ws arbitrary: i)
  case (Cons w ws)
  then show ?case by (cases i) simp_all
qed simp

section \<open>The protocol area\<close>

abbreviation (input) PROTO_WORDS :: nat where "PROTO_WORDS \<equiv> 1500"
abbreviation (input) BLOB_HEADER_BYTES :: nat where "BLOB_HEADER_BYTES \<equiv> 10"
abbreviation (input) BLOB_TOTAL_BYTES :: nat where "BLOB_TOTAL_BYTES \<equiv> 3010"
abbreviation (input) BLOB_ALLOC_BYTES :: nat where "BLOB_ALLOC_BYTES \<equiv> 4097"

definition NVS_KEY_DATA_A :: string where "NVS_KEY_DATA_A = ''proto_a''"
definition NVS_KEY_DATA_B :: string where "NVS_KEY_DATA_B = ''proto_b''"
definition NVS_KEY_ACTIVE :: string where "NVS_KEY_ACTIVE = ''proto_act''"

lemmas proto_keys = NVS_KEY_DATA_A_def NVS_KEY_DATA_B_def NVS_KEY_ACTIVE_def

type_synonym loaded_proto = "u16 list \<times> u16 \<times> u16"

definition encode_proto :: "u16 list \<Rightarrow> u16 \<Rightarrow> u16 \<Rightarrow> u8 list" where
  "encode_proto data version len =
     (let blob = replicate BLOB_ALLOC_BYTES 0;
          blob = copy_at blob 0 (le_bytes PROTO_MAGIC_VALUE);
          blob = copy_at blob 2 (le_bytes version);
          blob = copy_at blob 4 (le_bytes len);
          blob = copy_at blob BLOB_HEADER_BYTES (words_le data);
          crc = crc32 (slice blob 0 6);
          crc_data = crc32 (slice blob BLOB_HEADER_BYTES BLOB_TOTAL_BYTES);
          blob = copy_at blob 6 (le32_bytes (crc + crc_data))
      in take BLOB_TOTAL_BYTES blob)"

definition decode_proto :: "u8 list \<Rightarrow> loaded_proto option" where
  "decode_proto bytes =
     (if le16 (bytes ! 0) (bytes ! 1) \<noteq> PROTO_MAGIC_VALUE then None
      else let version = le16 (bytes ! 2) (bytes ! 3);
               len = le16 (bytes ! 4) (bytes ! 5);
               stored_crc = le32 (bytes ! 6) (bytes ! 7) (bytes ! 8) (bytes ! 9);
               crc_header = crc32 (slice bytes 0 6);
               crc_data = crc32 (drop BLOB_HEADER_BYTES bytes)
        in if stored_crc \<noteq> crc_header + crc_data then None
           else let valid_words = min (unat len) PROTO_WORDS
             in Some (map (\<lambda>i. if i < valid_words
                       then le16 (bytes ! (BLOB_HEADER_BYTES + 2 * i)) (bytes ! (BLOB_HEADER_BYTES + 2 * i + 1))
                       else 0) [0..<PROTO_WORDS], version, len))"

definition load_single_blob :: "nvs \<Rightarrow> string \<Rightarrow> nvs_error + loaded_proto option" where
  "load_single_blob m k =
     (case nvs_blob m k BLOB_ALLOC_BYTES of
        Inl e \<Rightarrow> Inl e
      | Inr None \<Rightarrow> Inr None
      | Inr (Some b) \<Rightarrow> if length b = BLOB_TOTAL_BYTES then Inr (decode_proto b) else Inr None)"

definition load_proto_from_nvs :: "nvs \<Rightarrow> nvs_error + loaded_proto" where
  "load_proto_from_nvs m =
     (let empty = (replicate PROTO_WORDS 0, 0, 0) in
      case nvs_u8 m NVS_KEY_ACTIVE of
        None \<Rightarrow> Inr empty
      | Some act \<Rightarrow>
          let first_key = (if act = 0 then NVS_KEY_DATA_A else NVS_KEY_DATA_B);
              second_key = (if act = 0 then NVS_KEY_DATA_B else NVS_KEY_DATA_A)
          in case load_single_blob m first_key of
               Inl e \<Rightarrow> Inl e
             | Inr (Some p) \<Rightarrow> Inr p
             | Inr None \<Rightarrow>
                 (case load_single_blob m second_key of
                    Inl e \<Rightarrow> Inl e
                  | Inr (Some p) \<Rightarrow> Inr p
                  | Inr None \<Rightarrow> Inr empty))"

text \<open>The flash part of \<open>commit\<close>; \<open>oc\<close> gives the outcome of the write to each key.\<close>

definition commit_proto :: "(string \<Rightarrow> nvs_outcome) \<Rightarrow> loaded_proto \<Rightarrow> nvs \<Rightarrow> (nvs_error + u8) \<times> nvs" where
  "commit_proto oc p m =
     (let (data, version, len) = p;
          active = (case nvs_u8 m NVS_KEY_ACTIVE of None \<Rightarrow> 0 | Some a \<Rightarrow> a);
          write_key = (if active = 0 then NVS_KEY_DATA_B else NVS_KEY_DATA_A);
          new_active = (if active = 0 then 1 else 0)
      in case nvs_set_blob (oc write_key) write_key (encode_proto data version len) m of
           (Inl e, m1) \<Rightarrow> (Inl e, m1)
         | (Inr _, m1) \<Rightarrow>
             (case nvs_put (oc NVS_KEY_ACTIVE) NVS_KEY_ACTIVE (NvU8 new_active) m1 of
                (Inl e, m2) \<Rightarrow> (Inl e, m2)
              | (Inr _, m2) \<Rightarrow> (Inr new_active, m2)))"

definition proto_status_set :: "u8 \<Rightarrow> bus_state \<Rightarrow> bus_state" where
  "proto_status_set v s = s\<lparr>bus_proto_status := v\<rparr>"

text \<open>
  \<open>commit\<close> and \<open>reload\<close>.  The flash may be unavailable.  While it is written another task may
  publish a new protocol area (\<open>during\<close>); then the area stays marked dirty.
\<close>

definition proto_commit :: "(string \<Rightarrow> nvs_outcome) \<Rightarrow> proto_store option \<Rightarrow>
    nvs option \<times> bus_state \<Rightarrow> bool \<times> nvs option \<times> bus_state" where
  "proto_commit oc during ms =
     (let (nv, s) = ms;
          s = proto_status_set 1 s;
          p = sn_proto (bus_storage s)
      in case nv of
           None \<Rightarrow> (False, None, proto_status_set 3 s)
         | Some m \<Rightarrow>
             (case commit_proto oc (ps_data p, ps_version p, ps_length p) m of
                (Inl e, m') \<Rightarrow> (False, Some m', proto_status_set 3 s)
              | (Inr _, m') \<Rightarrow>
                  let s = (case during of None \<Rightarrow> s
                           | Some q \<Rightarrow> storage_modify (\<lambda>sn. sn\<lparr>sn_proto := q\<rparr>) s);
                      s = proto_status_set 0 s;
                      s = storage_modify (\<lambda>sn. if during = None
                            then sn\<lparr>sn_proto := (sn_proto sn)\<lparr>ps_dirty := False\<rparr>\<rparr> else sn) s
                  in (True, Some m', s)))"

definition proto_reload :: "nvs option \<Rightarrow> bus_state \<Rightarrow> bool \<times> bus_state" where
  "proto_reload nv s =
     (let s = proto_status_set 2 s in
      case nv of
        None \<Rightarrow> (False, s)
      | Some m \<Rightarrow>
          (case load_proto_from_nvs m of
             Inl e \<Rightarrow> (False, s)
           | Inr (data, version, len) \<Rightarrow>
               let s = proto_status_set 0 s
               in (True, storage_modify (\<lambda>sn. sn\<lparr>sn_proto := (sn_proto sn)
                     \<lparr>ps_data := data, ps_version := version, ps_length := len, ps_dirty := False\<rparr>\<rparr>) s)))"

section \<open>Reading and writing the protocol area\<close>

definition proto_read :: "u16 \<Rightarrow> bus_state \<Rightarrow> u16 option" where
  "proto_read addr s =
     (let idx = unat addr in if idx \<ge> 1500 then None else Some (ps_data (sn_proto (bus_storage s)) ! idx))"

definition proto_write :: "u16 \<Rightarrow> u16 \<Rightarrow> bus_state \<Rightarrow> bool \<times> bus_state" where
  "proto_write addr value s =
     (let idx = unat addr in
      if idx \<ge> 1500 then (False, s)
      else (True, storage_modify (\<lambda>sn. sn\<lparr>sn_proto := (sn_proto sn)
             \<lparr>ps_data := (ps_data (sn_proto sn))[idx := value], ps_dirty := True\<rparr>\<rparr>) s))"

fun bulk_addrs :: "u16 \<Rightarrow> nat \<Rightarrow> nat \<Rightarrow> nat list" where
  "bulk_addrs start i 0 = []"
| "bulk_addrs start i (Suc n) =
     (let a = unat (saturating_add start (of_nat i))
      in if a < 1500 then a # bulk_addrs start (i + 1) n else [])"

definition proto_read_bulk :: "u16 \<Rightarrow> u16 \<Rightarrow> bus_state \<Rightarrow> u16 list" where
  "proto_read_bulk start len s =
     map (\<lambda>a. ps_data (sn_proto (bus_storage s)) ! a) (bulk_addrs start 0 (unat len))"

definition proto_write_bulk :: "u16 \<Rightarrow> u16 list \<Rightarrow> bus_state \<Rightarrow> bool \<times> bus_state" where
  "proto_write_bulk start values s =
     (if values = [] then (True, s)
      else (True, storage_modify (\<lambda>sn. sn\<lparr>sn_proto := (sn_proto sn)
             \<lparr>ps_data := fold (\<lambda>(a, v) d. d[a := v]) (zip (bulk_addrs start 0 (length values)) values)
                 (ps_data (sn_proto sn)), ps_dirty := True\<rparr>\<rparr>) s))"

section \<open>Device text\<close>

abbreviation (input) DEVICE_TEXT_COUNT :: nat where "DEVICE_TEXT_COUNT \<equiv> 2000"
abbreviation (input) DEVICE_TEXT_BLOB_BYTES :: nat where "DEVICE_TEXT_BLOB_BYTES \<equiv> 4000"
abbreviation (input) DEV_TEXT_MAGIC :: u16 where "DEV_TEXT_MAGIC \<equiv> 0xDE54"

definition NVS_KEY_DEV_TEXT :: string where "NVS_KEY_DEV_TEXT = ''dev_text''"
definition NVS_KEY_DEV_TEXT_MAGIC :: string where "NVS_KEY_DEV_TEXT_MAGIC = ''dev_text_mag''"

definition load_device_text_from_nvs :: "nvs \<Rightarrow> u16 list" where
  "load_device_text_from_nvs m =
     (case nvs_blob m NVS_KEY_DEV_TEXT DEVICE_TEXT_BLOB_BYTES of
        Inr (Some b) \<Rightarrow> if length b = DEVICE_TEXT_BLOB_BYTES then le_words b else replicate DEVICE_TEXT_COUNT 0
      | _ \<Rightarrow> replicate DEVICE_TEXT_COUNT 0)"

definition persist_device_text_blob :: "(string \<Rightarrow> nvs_outcome) \<Rightarrow> u8 list \<Rightarrow> nvs \<Rightarrow> bool \<times> nvs" where
  "persist_device_text_blob oc blob m =
     (if length blob \<noteq> DEVICE_TEXT_BLOB_BYTES then (False, m)
      else let unchanged = (case nvs_blob m NVS_KEY_DEV_TEXT DEVICE_TEXT_BLOB_BYTES of
                 Inr (Some current) \<Rightarrow> length current = DEVICE_TEXT_BLOB_BYTES \<and> current = blob
               | _ \<Rightarrow> False);
               (r, m1) = (if \<not> unchanged then nvs_set_blob (oc NVS_KEY_DEV_TEXT) NVS_KEY_DEV_TEXT blob m
                          else (Inr (), m))
        in case r of
             Inl e \<Rightarrow> (False, m1)
           | Inr _ \<Rightarrow>
               (case nvs_put (oc NVS_KEY_DEV_TEXT_MAGIC) NVS_KEY_DEV_TEXT_MAGIC (NvU16 DEV_TEXT_MAGIC) m1 of
                  (Inl e, m2) \<Rightarrow> (False, m2)
                | (Inr _, m2) \<Rightarrow>
                    (case nvs_blob m2 NVS_KEY_DEV_TEXT DEVICE_TEXT_BLOB_BYTES of
                       Inr (Some current) \<Rightarrow> (current = blob, m2)
                     | _ \<Rightarrow> (False, m2))))"

definition save_device_text_to_nvs :: "(string \<Rightarrow> nvs_outcome) \<Rightarrow> u16 list \<Rightarrow> nvs \<Rightarrow> bool \<times> nvs" where
  "save_device_text_to_nvs oc words m =
     (if length words \<noteq> DEVICE_TEXT_COUNT then (False, m)
      else persist_device_text_blob oc (words_le words) m)"

section \<open>Digital outputs\<close>

abbreviation (input) DO_NVS_MAGIC :: u16 where "DO_NVS_MAGIC \<equiv> 0x1D07"
abbreviation (input) THROTTLE_MS :: u32 where "THROTTLE_MS \<equiv> 1000"

definition NVS_KEY_DO_BITS :: string where "NVS_KEY_DO_BITS = ''do_bits''"
definition NVS_KEY_DO_MAGIC :: string where "NVS_KEY_DO_MAGIC = ''do_magic''"

definition le64_bytes :: "u64 \<Rightarrow> u8 list" where
  "le64_bytes w = map (\<lambda>k. ucast (drop_bit (8 * k) w)) [0..<8]"

definition le64 :: "u8 list \<Rightarrow> u64" where
  "le64 b = foldr (\<lambda>k acc. push_bit (8 * k) (ucast (b ! k)) OR acc) [0..<8] 0"

definition load_do_bits_from_nvs :: "nvs \<Rightarrow> u64" where
  "load_do_bits_from_nvs m =
     (if (case nvs_u16 m NVS_KEY_DO_MAGIC of None \<Rightarrow> 0 | Some v \<Rightarrow> v) \<noteq> DO_NVS_MAGIC then 0
      else case nvs_blob m NVS_KEY_DO_BITS 8 of
             Inr (Some b) \<Rightarrow> if length b = 8 then le64 b else 0
           | _ \<Rightarrow> 0)"

definition save_do_bits_to_nvs :: "(string \<Rightarrow> nvs_outcome) \<Rightarrow> u64 \<Rightarrow> nvs option \<Rightarrow> bool \<times> nvs option" where
  "save_do_bits_to_nvs oc bits nv =
     (case nv of
        None \<Rightarrow> (False, None)
      | Some m \<Rightarrow>
          (case nvs_set_blob (oc NVS_KEY_DO_BITS) NVS_KEY_DO_BITS (le64_bytes bits) m of
             (Inl e, m1) \<Rightarrow> (False, Some m1)
           | (Inr _, m1) \<Rightarrow>
               (case nvs_put (oc NVS_KEY_DO_MAGIC) NVS_KEY_DO_MAGIC (NvU16 DO_NVS_MAGIC) m1 of
                  (Inl e, m2) \<Rightarrow> (False, Some m2)
                | (Inr _, m2) \<Rightarrow> (True, Some m2))))"

record do_persist =
  dp_last :: u64
  dp_last_ms :: u32

definition do_persist_new :: do_persist where
  "do_persist_new = \<lparr>dp_last = 0, dp_last_ms = 0\<rparr>"

definition persist_do_bits_throttled :: "(string \<Rightarrow> nvs_outcome) \<Rightarrow> u32 \<Rightarrow> bus_state \<Rightarrow>
    do_persist \<times> nvs option \<Rightarrow> do_persist \<times> nvs option" where
  "persist_do_bits_throttled oc now_ms s dn =
     (let (dp, nv) = dn;
          bits = load_bits (io_do (bus_io s)) AND NOT (load_bits (ctl_transient (bus_control s)))
      in if now_ms - dp_last_ms dp < THROTTLE_MS then (dp, nv)
         else if bits = dp_last dp then (dp, nv)
         else let (ok, nv) = save_do_bits_to_nvs oc bits nv
           in (if ok then \<lparr>dp_last = bits, dp_last_ms = now_ms\<rparr> else dp\<lparr>dp_last_ms := now_ms\<rparr>, nv))"


section \<open>The layout of a protocol blob\<close>

definition proto_header :: "u16 \<Rightarrow> u16 \<Rightarrow> u8 list" where
  "proto_header version len = le_bytes PROTO_MAGIC_VALUE @ le_bytes version @ le_bytes len"

definition proto_crc :: "u16 list \<Rightarrow> u16 \<Rightarrow> u16 \<Rightarrow> u32" where
  "proto_crc data version len = crc32 (proto_header version len) + crc32 (words_le data)"

lemma length_proto_header [simp]: "length (proto_header version len) = 6"
  by (simp add: proto_header_def)

lemma copy_at_middle:
  "length xs = i \<Longrightarrow> length old = length ys \<Longrightarrow> copy_at (xs @ old @ zs) i ys = xs @ ys @ zs"
  by (simp add: copy_at_def)

lemma encode_proto_layout:
  assumes "length data = 1500"
  shows "encode_proto data version len =
    proto_header version len @ le32_bytes (proto_crc data version len) @ words_le data"
proof -
  let ?h = "proto_header version len"
  let ?b = "copy_at (copy_at (copy_at (copy_at (replicate 4097 0) 0 (le_bytes 0x494D)) 2 (le_bytes version)) 4
      (le_bytes len)) 10 (words_le data)"
  have b1: "copy_at (copy_at (copy_at (replicate 4097 0) 0 (le_bytes 0x494D)) 2 (le_bytes version)) 4 (le_bytes len) =
      ?h @ replicate 4091 0"
    using copy_at_zeros_at [of 0 "[]" "le_bytes 0x494D" 4097]
    by (simp add: proto_header_def copy_at_zeros_at del: append_assoc)
  have b: "?b = ?h @ replicate 4 0 @ words_le data @ replicate 1087 0"
    unfolding b1 using assms by (simp add: copy_at_zeros)
  have 1: "slice ?b 0 6 = ?h" unfolding b by (simp add: slice_def)
  have 2: "slice ?b 10 3010 = words_le data" unfolding b using assms by (simp add: slice_def)
  have "copy_at ?b 6 (le32_bytes (proto_crc data version len)) =
      ?h @ le32_bytes (proto_crc data version len) @ words_le data @ replicate 1087 0"
    unfolding b by (rule copy_at_middle) simp_all
  moreover have "encode_proto data version len =
      take 3010 (copy_at ?b 6 (le32_bytes (proto_crc data version len)))"
    unfolding encode_proto_def Let_def 1 2 proto_crc_def ..
  ultimately show ?thesis using assms by simp
qed

lemma length_encode_proto: "length data = 1500 \<Longrightarrow> length (encode_proto data version len) = 3010"
  by (simp add: encode_proto_layout)

text \<open>What a reload brings back: the words up to the recorded length.\<close>

definition proto_kept :: "loaded_proto \<Rightarrow> loaded_proto" where
  "proto_kept p =
     (case p of (data, version, len) \<Rightarrow>
        (map (\<lambda>i. if i < min (unat len) PROTO_WORDS then data ! i else 0) [0..<PROTO_WORDS], version, len))"

lemma decode_encode_proto:
  assumes "length data = 1500"
  shows "decode_proto (encode_proto data version len) = Some (proto_kept (data, version, len))"
proof -
  let ?e = "encode_proto data version len" and ?c = "proto_crc data version len"
  have e: "?e = proto_header version len @ le32_bytes ?c @ words_le data" by (rule encode_proto_layout [OF assms])
  have hd: "?e ! 0 = lo8 0x494D" "?e ! 1 = hi8 0x494D" "?e ! 2 = lo8 version" "?e ! 3 = hi8 version"
    "?e ! 4 = lo8 len" "?e ! 5 = hi8 len"
    "?e ! 6 = ucast ?c" "?e ! 7 = ucast (drop_bit 8 ?c)" "?e ! 8 = ucast (drop_bit 16 ?c)" "?e ! 9 = ucast (drop_bit 24 ?c)"
    unfolding e by (simp_all add: proto_header_def le_bytes_def le32_bytes_def)
  have body: "slice ?e 0 6 = proto_header version len" "drop 10 ?e = words_le data"
    unfolding e by (simp_all add: slice_def)
  have at10: "?e ! (10 + k) = words_le data ! k" for k unfolding e by (simp add: nth_append)
  have word: "le16 (?e ! (10 + 2 * i)) (?e ! (10 + 2 * i + 1)) = data ! i" if "i < 1500" for i
  proof -
    have "?e ! (10 + 2 * i) = lo8 (data ! i)" "?e ! (10 + 2 * i + 1) = hi8 (data ! i)"
      using nth_words_le [of i data] assms that at10 [of "2 * i"] at10 [of "Suc (2 * i)"] by simp_all
    then show ?thesis by simp
  qed
  show ?thesis
    unfolding decode_proto_def hd body Let_def le32_le32_bytes proto_kept_def
    using word by (simp add: proto_crc_def)
qed

lemma load_single_encoded:
  "m k = Some (NvBlob (encode_proto data version len)) \<Longrightarrow> length data = 1500 \<Longrightarrow>
    load_single_blob m k = Inr (Some (proto_kept (data, version, len)))"
  by (simp add: load_single_blob_def nvs_blob_def length_encode_proto decode_encode_proto)

text \<open>The flash after a commit: the marker points at a blob of the committed area.\<close>

definition proto_saved :: "nvs \<Rightarrow> loaded_proto \<Rightarrow> bool" where
  "proto_saved m p \<longleftrightarrow> (\<exists>a. m NVS_KEY_ACTIVE = Some (NvU8 a) \<and>
     m (if a = 0 then NVS_KEY_DATA_A else NVS_KEY_DATA_B) =
       Some (NvBlob (encode_proto (fst p) (fst (snd p)) (snd (snd p)))))"

lemma load_proto_saved:
  "proto_saved m p \<Longrightarrow> length (fst p) = 1500 \<Longrightarrow> load_proto_from_nvs m = Inr (proto_kept p)"
  unfolding proto_saved_def
  by (elim exE) (auto simp: load_proto_from_nvs_def nvs_u8_def load_single_encoded)

lemma commit_proto_saved:
  "commit_proto oc p m = (Inr a, m') \<Longrightarrow> proto_saved m' p"
proof -
  assume run: "commit_proto oc p m = (Inr a, m')"
  obtain data version len where p: "p = (data, version, len)" by (rule prod_cases3)
  let ?act = "case nvs_u8 m NVS_KEY_ACTIVE of None \<Rightarrow> 0 | Some a \<Rightarrow> a"
  let ?wk = "if ?act = 0 then NVS_KEY_DATA_B else NVS_KEY_DATA_A"
  obtain r m1 where w: "nvs_set_blob (oc ?wk) ?wk (encode_proto data version len) m = (r, m1)" by (rule prod.exhaust)
  obtain u where u: "r = Inr u" using run w by (cases r) (simp_all add: commit_proto_def p Let_def)
  obtain r2 m2 where put: "nvs_put (oc NVS_KEY_ACTIVE) NVS_KEY_ACTIVE (NvU8 (if ?act = 0 then 1 else 0)) m1 = (r2, m2)"
    by (rule prod.exhaust)
  obtain v where v: "r2 = Inr v" "m' = m2"
    using run w put u by (cases r2) (simp_all add: commit_proto_def p Let_def)
  have "m1 ?wk = Some (NvBlob (encode_proto data version len))" "m2 = m1(NVS_KEY_ACTIVE \<mapsto> NvU8 (if ?act = 0 then 1 else 0))"
    using w u put v by (simp_all add: nvs_set_blob_ok nvs_put_ok)
  then show ?thesis
    unfolding proto_saved_def v(2) by (intro exI [of _ "if ?act = 0 then 1 else 0"]) (auto simp: p proto_keys)
qed

text \<open>Whatever happens to each write of a later commit, the flash holds the earlier or the new area.\<close>

lemma commit_proto_old_or_new:
  assumes "proto_saved m p0"
  shows "proto_saved (snd (commit_proto oc p m)) p0 \<or> proto_saved (snd (commit_proto oc p m)) p"
proof -
  obtain a where a: "m NVS_KEY_ACTIVE = Some (NvU8 a)"
    "m (if a = 0 then NVS_KEY_DATA_A else NVS_KEY_DATA_B) =
       Some (NvBlob (encode_proto (fst p0) (fst (snd p0)) (snd (snd p0))))"
    using assms unfolding proto_saved_def by blast
  obtain data version len where p: "p = (data, version, len)" by (rule prod_cases3)
  let ?wk = "if a = 0 then NVS_KEY_DATA_B else NVS_KEY_DATA_A"
  obtain r m1 where w: "nvs_set_blob (oc ?wk) ?wk (encode_proto data version len) m = (r, m1)" by (rule prod.exhaust)
  have frame: "m1 k = m k" if "k \<noteq> ?wk" for k
    using w that by (auto simp: nvs_set_blob_def nvs_put_def split: sum.splits nvs_outcome.splits)
  have old1: "proto_saved m1 p0"
    unfolding proto_saved_def using a frame by (intro exI [of _ a]) (auto simp: proto_keys)
  show ?thesis
  proof (cases r)
    case (Inl e)
    then have "snd (commit_proto oc p m) = m1"
      using w a by (simp add: commit_proto_def p nvs_u8_def split: if_splits)
    then show ?thesis using old1 by simp
  next
    case (Inr u)
    then have new: "m1 ?wk = Some (NvBlob (encode_proto data version len))"
      using w by (auto simp: nvs_set_blob_ok)
    let ?na = "if a = 0 then 1 else 0 :: u8"
    have "snd (commit_proto oc p m) = snd (nvs_put (oc NVS_KEY_ACTIVE) NVS_KEY_ACTIVE (NvU8 ?na) m1)"
      using w a Inr by (simp add: commit_proto_def p nvs_u8_def split: sum.split prod.split)
    moreover have "proto_saved m1 p0 \<or> proto_saved m1 p" using old1 by simp
    moreover have "proto_saved (m1(NVS_KEY_ACTIVE \<mapsto> NvU8 ?na)) p"
      unfolding proto_saved_def using new by (intro exI [of _ ?na]) (auto simp: p proto_keys)
    ultimately show ?thesis by (auto simp: nvs_put_def split: nvs_outcome.split)
  qed
qed


text \<open>The outputs restored at boot are not entered into the record of what was saved last: an output
  that is switched off before the first save compares equal to the initial zero, so the flash keeps it on.\<close>

lemma output_switched_off_stays_on_in_flash:
  assumes "load_do_bits_from_nvs m = on" and "load_bits (io_do (bus_io s)) = 0"
    and "persist_do_bits_throttled oc now_ms s (do_persist_new, Some m) = (dp, nv)"
  shows "\<exists>m'. nv = Some m' \<and> load_do_bits_from_nvs m' = on"
  using assms by (auto simp: persist_do_bits_throttled_def do_persist_new_def Let_def split: if_splits)

section \<open>Correctness\<close>

lemma proto_commit_saved:
  assumes "proto_commit oc during (Some m, s) = (True, Some m', s')"
  shows "proto_saved m' (ps_data (sn_proto (bus_storage s)), ps_version (sn_proto (bus_storage s)),
    ps_length (sn_proto (bus_storage s)))"
  using assms commit_proto_saved
  by (auto simp: proto_commit_def proto_status_set_def Let_def split: sum.splits prod.splits)

text \<open>C26: Power loss.  After a completed commit of the protocol area, whatever happens to each flash write
  of a later commit, a reload brings back the earlier area or the new one, up to its recorded length, and
  the new one when the commit reports success.\<close>

theorem torn_commit_keeps_a_proto:
  assumes "commit_proto oc0 p0 m0 = (Inr a0, m)" and "length (fst p0) = 1500" and "length (fst p) = 1500"
    and "commit_proto oc p m = (r, m')"
  shows "load_proto_from_nvs m' \<in> {Inr (proto_kept p0), Inr (proto_kept p)} \<and>
    (\<forall>a. r = Inr a \<longrightarrow> load_proto_from_nvs m' = Inr (proto_kept p))"
proof -
  have "proto_saved m' p0 \<or> proto_saved m' p"
    using commit_proto_old_or_new [OF commit_proto_saved [OF assms(1)], of oc p] assms(4) by simp
  moreover have "r = Inr a \<Longrightarrow> proto_saved m' p" for a using commit_proto_saved assms(4) by blast
  ultimately show ?thesis using load_proto_saved assms(2,3) by blast
qed

lemma commit_proto_ok: "\<exists>a m'. commit_proto (\<lambda>_. NvDone) p m = (Inr a, m')"
  by (simp add: commit_proto_def split_beta nvs_set_blob_def nvs_put_def key_bytes_def proto_keys Let_def)

theorem torn_commit_keeps_a_proto_witness:
  "\<exists>a m r m'. commit_proto (\<lambda>_. NvDone) (replicate 1500 7, 1, 1500) Map.empty = (Inr a, m) \<and>
     commit_proto (\<lambda>k. if k = ''proto_act'' then NvRefused else NvDone) (replicate 1500 9, 2, 3) m = (r, m') \<and>
     load_proto_from_nvs m' \<in> {Inr (proto_kept (replicate 1500 7, 1, 1500)), Inr (proto_kept (replicate 1500 9, 2, 3))}"
proof -
  obtain a m where 1: "commit_proto (\<lambda>_. NvDone) (replicate 1500 7, 1, 1500) Map.empty = (Inr a, m)"
    using commit_proto_ok by blast
  obtain r m' where 2: "commit_proto (\<lambda>k. if k = ''proto_act'' then NvRefused else NvDone)
      (replicate 1500 9, 2, 3) m = (r, m')" by (rule prod.exhaust)
  show ?thesis using torn_commit_keeps_a_proto [OF 1 _ _ 2] 1 2 by auto
qed

text \<open>A saved device text is read back as it was.\<close>

lemma load_device_text_saved:
  assumes "save_device_text_to_nvs oc words m = (True, m')"
  shows "load_device_text_from_nvs m' = words"
proof -
  have "nvs_blob m' NVS_KEY_DEV_TEXT 4000 = Inr (Some (words_le words))" and len: "length words = 2000"
    using assms
    by (auto simp: save_device_text_to_nvs_def persist_device_text_blob_def Let_def
        split: if_splits sum.splits option.splits prod.splits)
  then show ?thesis by (simp add: load_device_text_from_nvs_def)
qed

end
