(* ===== verification/Holding_Store.thy ===== *)
theory Holding_Store imports Device_Store begin

text \<open>
  The raw flash partition of the holding area (\<open>src/device/holding_store.rs\<close>): two slots A and B
  with a generation number and a checksum.  The partition is a list of bytes; an erase sets bytes to
  \<open>0xFF\<close>, a write can only clear bits, and an operation cut off by a power loss has changed the first
  bytes only.
\<close>

section \<open>Flash\<close>

datatype flash_outcome = FlOk | FlTorn nat

definition flash_len :: "flash_outcome \<Rightarrow> nat \<Rightarrow> nat" where
  "flash_len oc n = (case oc of FlOk \<Rightarrow> n | FlTorn k \<Rightarrow> min k n)"

definition flash_erase :: "flash_outcome \<Rightarrow> nat \<Rightarrow> nat \<Rightarrow> u8 list \<Rightarrow> bool \<times> u8 list" where
  "flash_erase oc off n part = (oc = FlOk, copy_at part off (replicate (flash_len oc n) 0xFF))"

definition flash_write :: "flash_outcome \<Rightarrow> nat \<Rightarrow> u8 list \<Rightarrow> u8 list \<Rightarrow> bool \<times> u8 list" where
  "flash_write oc off data part =
     (let d = take (flash_len oc (length data)) data
      in (oc = FlOk, copy_at part off (map2 (AND) (slice part off (off + length d)) d)))"

section \<open>Slots\<close>

abbreviation (input) SLOT_BYTES :: nat where "SLOT_BYTES \<equiv> 0x2000"
abbreviation (input) PARTITION_MIN_BYTES :: nat where "PARTITION_MIN_BYTES \<equiv> 0x8000"
abbreviation (input) NO_ACTIVE_SLOT :: u8 where "NO_ACTIVE_SLOT \<equiv> 255"
abbreviation (input) RAW_MAGIC :: u32 where "RAW_MAGIC \<equiv> 0x494D4332"
abbreviation (input) RAW_VERSION :: u16 where "RAW_VERSION \<equiv> 1"
abbreviation (input) RAW_HEADER_BYTES :: nat where "RAW_HEADER_BYTES \<equiv> 16"
abbreviation (input) HOLDING_WORDS :: nat where "HOLDING_WORDS \<equiv> 2048"
abbreviation (input) HOLDING_DATA_BYTES :: nat where "HOLDING_DATA_BYTES \<equiv> 4096"
abbreviation (input) MONITOR_DATA_BYTES :: nat where "MONITOR_DATA_BYTES \<equiv> 256"
abbreviation (input) CONTROL_DATA_BYTES :: nat where "CONTROL_DATA_BYTES \<equiv> 600"
abbreviation (input) LEGACY_COIL_BYTES :: nat where "LEGACY_COIL_BYTES \<equiv> 1536"
abbreviation (input) RAW_TOTAL_BYTES :: nat where "RAW_TOTAL_BYTES \<equiv> 6504"

record holding_state =
  ho_words :: "u16 list"
  ho_monitor :: "u16 list"
  ho_control :: "u16 list"
  ho_coils :: "u8 list"

record decoded_slot =
  dl_slot :: u8
  dl_generation :: u32
  dl_state :: holding_state

definition holding_empty :: holding_state where
  "holding_empty = \<lparr>ho_words = replicate 2048 0, ho_monitor = replicate 128 0,
     ho_control = replicate 300 0, ho_coils = replicate 1536 0\<rparr>"

definition holding_of :: "storage_snapshot \<Rightarrow> holding_state" where
  "holding_of sn = \<lparr>ho_words = sn_holding_buf sn, ho_monitor = sn_monitor_words sn,
     ho_control = sn_control_words sn, ho_coils = sn_legacy_coils sn\<rparr>"

definition encode_raw_body :: "holding_state \<Rightarrow> u8 list option" where
  "encode_raw_body h =
     (if length (ho_words h) \<noteq> 2048 \<or> length (ho_monitor h) \<noteq> 128 \<or> length (ho_control h) \<noteq> 300 \<or>
         length (ho_coils h) \<noteq> 1536 then None
      else let blob = replicate RAW_TOTAL_BYTES 0;
               blob = copy_at blob RAW_HEADER_BYTES (words_le (ho_words h));
               off = RAW_HEADER_BYTES + HOLDING_DATA_BYTES;
               blob = copy_at blob off (words_le (ho_monitor h));
               off = off + MONITOR_DATA_BYTES;
               blob = copy_at blob off (words_le (ho_control h));
               off = off + CONTROL_DATA_BYTES
        in Some (copy_at blob off (ho_coils h)))"

definition encode_raw_header :: "u8 list \<Rightarrow> u32 \<Rightarrow> u8 list" where
  "encode_raw_header blob generation =
     (let blob = copy_at blob 0 (le32_bytes RAW_MAGIC);
          blob = copy_at blob 4 (le_bytes RAW_VERSION);
          blob = copy_at blob 6 (le_bytes (of_nat HOLDING_WORDS));
          blob = copy_at blob 8 (le32_bytes generation);
          crc = crc32 (slice blob RAW_HEADER_BYTES RAW_TOTAL_BYTES)
      in copy_at blob 12 (le32_bytes crc))"

definition decode_raw_blob :: "u8 list \<Rightarrow> u8 \<Rightarrow> decoded_slot option" where
  "decode_raw_blob blob slot =
     (if length blob < RAW_TOTAL_BYTES \<or> le32 (blob ! 0) (blob ! 1) (blob ! 2) (blob ! 3) \<noteq> RAW_MAGIC \<or>
         unat (le16 (blob ! 6) (blob ! 7)) \<noteq> HOLDING_WORDS then None
      else if le16 (blob ! 4) (blob ! 5) \<noteq> RAW_VERSION then None
      else let generation = le32 (blob ! 8) (blob ! 9) (blob ! 10) (blob ! 11);
               stored_crc = le32 (blob ! 12) (blob ! 13) (blob ! 14) (blob ! 15);
               data = slice blob RAW_HEADER_BYTES RAW_TOTAL_BYTES
        in if crc32 data \<noteq> stored_crc then None
           else let words = le_words (take HOLDING_DATA_BYTES data);
                    off = HOLDING_DATA_BYTES;
                    monitor = le_words (slice data off (off + MONITOR_DATA_BYTES));
                    off = off + MONITOR_DATA_BYTES;
                    control = le_words (slice data off (off + CONTROL_DATA_BYTES));
                    off = off + CONTROL_DATA_BYTES
             in Some \<lparr>dl_slot = slot, dl_generation = generation,
                  dl_state = \<lparr>ho_words = words, ho_monitor = monitor, ho_control = control,
                    ho_coils = slice data off (off + LEGACY_COIL_BYTES)\<rparr>\<rparr>)"

definition generation_is_newer :: "u32 \<Rightarrow> u32 \<Rightarrow> bool" where
  "generation_is_newer candidate current \<longleftrightarrow> candidate \<noteq> current \<and> candidate - current < 2 ^ 31"

section \<open>Saving and loading\<close>

record holding_store =
  hs_part :: "u8 list option"
  hs_active :: u8
  hs_generation :: u32
  hs_valid :: bool

definition slot_offset :: "u8 \<Rightarrow> nat" where
  "slot_offset slot = unat slot * SLOT_BYTES"

definition read_slot :: "u8 list \<Rightarrow> u8 \<Rightarrow> decoded_slot option" where
  "read_slot part slot = decode_raw_blob (slice part (slot_offset slot) (slot_offset slot + RAW_TOTAL_BYTES)) slot"

text \<open>What the driver answers while a slot is written: the erase, the write and the read-back.\<close>

record flash_env =
  fe_erase :: flash_outcome
  fe_write :: flash_outcome
  fe_verify :: bool

definition write_slot :: "flash_env \<Rightarrow> u8 \<Rightarrow> u8 list \<Rightarrow> u8 list option \<Rightarrow> bool \<times> u8 list option" where
  "write_slot env slot blob part =
     (case part of
        None \<Rightarrow> (False, None)
      | Some p \<Rightarrow>
          let off = slot_offset slot;
              (ok, p) = flash_erase (fe_erase env) off SLOT_BYTES p
          in if \<not> ok then (False, Some p)
             else let (ok, p) = flash_write (fe_write env) off (take RAW_TOTAL_BYTES blob) p
               in if \<not> ok then (False, Some p)
                  else if \<not> fe_verify env then (False, Some p)
                  else (read_slot p slot \<noteq> None, Some p))"

record save_flags =
  sf_holding_dirty :: bool
  sf_legacy_dirty :: bool

text \<open>The storage snapshot is always published when the store is used, so that its own check cannot fail;
  the check of the poll table only logs.\<close>

definition save_to_nvs :: "flash_env \<Rightarrow> holding_state \<Rightarrow> save_flags \<times> holding_store \<Rightarrow>
    bool \<times> save_flags \<times> holding_store" where
  "save_to_nvs env h fs =
     (let (f, hs) = fs;
          holding_dirty = sf_holding_dirty f; legacy_dirty = sf_legacy_dirty f;
          f = \<lparr>sf_holding_dirty = False, sf_legacy_dirty = False\<rparr>
      in if \<not> holding_dirty \<and> \<not> legacy_dirty then (True, f, hs)
         else case encode_raw_body h of
           None \<Rightarrow> (False, \<lparr>sf_holding_dirty = holding_dirty, sf_legacy_dirty = legacy_dirty\<rparr>, hs)
         | Some blob \<Rightarrow>
             let generation = hs_generation hs + 1;
                 blob = encode_raw_header blob generation;
                 target = (if hs_active hs = 0 then 1 else 0);
                 (ok, part) = write_slot env target blob (hs_part hs)
             in if ok then (True, f, hs\<lparr>hs_part := part, hs_active := target, hs_generation := generation,
                                       hs_valid := True\<rparr>)
                else (False, \<lparr>sf_holding_dirty = True, sf_legacy_dirty = legacy_dirty\<rparr>, hs\<lparr>hs_part := part\<rparr>))"

text \<open>\<open>rd\<close> says which slots the driver can read.\<close>

fun best_slot :: "(u8 \<Rightarrow> bool) \<Rightarrow> u8 list \<Rightarrow> u8 list \<Rightarrow> decoded_slot option \<Rightarrow> unit + decoded_slot option" where
  "best_slot rd part [] best = Inr best"
| "best_slot rd part (slot # slots) best =
     (if \<not> rd slot then Inl ()
      else case read_slot part slot of
        None \<Rightarrow> best_slot rd part slots best
      | Some d \<Rightarrow>
          best_slot rd part slots
            (if (case best of None \<Rightarrow> True | Some b \<Rightarrow> generation_is_newer (dl_generation d) (dl_generation b))
             then Some d else best))"

definition load_best_raw_slot :: "(u8 \<Rightarrow> bool) \<Rightarrow> u8 list option \<Rightarrow> unit + decoded_slot option" where
  "load_best_raw_slot rd part =
     (case part of None \<Rightarrow> Inr None | Some p \<Rightarrow> best_slot rd p [0, 1] None)"

definition load_from_nvs :: "(u8 \<Rightarrow> bool) \<Rightarrow> holding_store \<Rightarrow> (unit + holding_state) \<times> holding_store" where
  "load_from_nvs rd hs =
     (case load_best_raw_slot rd (hs_part hs) of
        Inl e \<Rightarrow> (Inl e, hs)
      | Inr (Some d) \<Rightarrow> (Inr (dl_state d), hs\<lparr>hs_active := dl_slot d, hs_generation := dl_generation d,
                                              hs_valid := True\<rparr>)
      | Inr None \<Rightarrow> (Inr holding_empty, hs\<lparr>hs_active := NO_ACTIVE_SLOT, hs_generation := 0, hs_valid := False\<rparr>))"

section \<open>The blob\<close>

definition holding_wf :: "holding_state \<Rightarrow> bool" where
  "holding_wf h \<longleftrightarrow> length (ho_words h) = 2048 \<and> length (ho_monitor h) = 128 \<and>
     length (ho_control h) = 300 \<and> length (ho_coils h) = 1536"

definition raw_body :: "holding_state \<Rightarrow> u8 list" where
  "raw_body h = words_le (ho_words h) @ words_le (ho_monitor h) @ words_le (ho_control h) @ ho_coils h"

definition raw_blob :: "holding_state \<Rightarrow> u32 \<Rightarrow> u8 list" where
  "raw_blob h gen = le32_bytes RAW_MAGIC @ le_bytes RAW_VERSION @ le_bytes 2048 @ le32_bytes gen @
     le32_bytes (crc32 (raw_body h)) @ raw_body h"

lemma length_raw_body: "holding_wf h \<Longrightarrow> length (raw_body h) = 6488"
  by (simp add: holding_wf_def raw_body_def)

lemma length_raw_blob: "holding_wf h \<Longrightarrow> length (raw_blob h gen) = 6504"
  by (simp add: raw_blob_def length_raw_body)

lemma encode_raw_body_wf:
  assumes "holding_wf h"
  shows "encode_raw_body h = Some (replicate 16 0 @ raw_body h)"
proof -
  have 1: "copy_at (replicate 6504 0) 16 (words_le (ho_words h)) =
      (replicate 16 0 @ words_le (ho_words h)) @ replicate 2392 0"
    using copy_at_zeros [of "[]" 16 "words_le (ho_words h)" 6504] assms by (simp add: holding_wf_def)
  have 2: "copy_at ((replicate 16 0 @ words_le (ho_words h)) @ replicate 2392 0) 4112 (words_le (ho_monitor h)) =
      (replicate 16 0 @ words_le (ho_words h) @ words_le (ho_monitor h)) @ replicate 2136 0"
    by (subst copy_at_zeros_at) (use assms in \<open>simp_all add: holding_wf_def\<close>)
  have 3: "copy_at ((replicate 16 0 @ words_le (ho_words h) @ words_le (ho_monitor h)) @ replicate 2136 0) 4368
        (words_le (ho_control h)) =
      (replicate 16 0 @ words_le (ho_words h) @ words_le (ho_monitor h) @ words_le (ho_control h)) @ replicate 1536 0"
    by (subst copy_at_zeros_at) (use assms in \<open>simp_all add: holding_wf_def\<close>)
  have 4: "copy_at ((replicate 16 0 @ words_le (ho_words h) @ words_le (ho_monitor h) @ words_le (ho_control h)) @
        replicate 1536 0) 4968 (ho_coils h) = replicate 16 0 @ raw_body h"
    by (subst copy_at_zeros_at) (use assms in \<open>simp_all add: holding_wf_def raw_body_def\<close>)
  have len: "\<not> (length (ho_words h) \<noteq> 2048 \<or> length (ho_monitor h) \<noteq> 128 \<or> length (ho_control h) \<noteq> 300 \<or>
      length (ho_coils h) \<noteq> 1536)" using assms by (simp add: holding_wf_def)
  have off: "16 + 4096 = (4112::nat)" "4112 + 256 = (4368::nat)" "4368 + 600 = (4968::nat)" by simp_all
  show ?thesis unfolding encode_raw_body_def Let_def if_not_P [OF len] 1 off 2 3 4 ..
qed

lemma encode_raw_header_blob:
  assumes "holding_wf h"
  shows "encode_raw_header (replicate 16 0 @ raw_body h) gen = raw_blob h gen"
proof -
  let ?m = "le32_bytes 0x494D4332" and ?v = "le_bytes 1" and ?w = "le_bytes 2048"
  have 1: "copy_at (replicate 16 0 @ raw_body h) 0 ?m = ?m @ replicate 12 0 @ raw_body h"
    using copy_at_middle [of "[]" 0 "replicate 4 0" ?m "replicate 12 0 @ raw_body h"]
    by (simp add: replicate_app_Cons_same flip: append_assoc replicate_add)
  have 2: "copy_at (?m @ replicate 12 0 @ raw_body h) 4 ?v = (?m @ ?v) @ replicate 10 0 @ raw_body h"
    using copy_at_middle [of ?m 4 "replicate 2 0" ?v "replicate 10 0 @ raw_body h"]
    by (simp flip: append_assoc replicate_add)
  have 3: "copy_at ((?m @ ?v) @ replicate 10 0 @ raw_body h) 6 ?w = (?m @ ?v @ ?w) @ replicate 8 0 @ raw_body h"
    using copy_at_middle [of "?m @ ?v" 6 "replicate 2 0" ?w "replicate 8 0 @ raw_body h"]
    by (simp flip: append_assoc replicate_add)
  have 4: "copy_at ((?m @ ?v @ ?w) @ replicate 8 0 @ raw_body h) 8 (le32_bytes gen) =
      (?m @ ?v @ ?w @ le32_bytes gen) @ replicate 4 0 @ raw_body h"
    using copy_at_middle [of "?m @ ?v @ ?w" 8 "replicate 4 0" "le32_bytes gen" "replicate 4 0 @ raw_body h"]
    by (simp flip: append_assoc replicate_add)
  let ?b = "(?m @ ?v @ ?w @ le32_bytes gen) @ replicate 4 0 @ raw_body h"
  have body: "slice ?b 16 6504 = raw_body h" using length_raw_body [OF assms] by (simp add: slice_def)
  have 5: "copy_at ?b 12 (le32_bytes (crc32 (raw_body h))) = raw_blob h gen"
    unfolding raw_blob_def
    using copy_at_middle [of "?m @ ?v @ ?w @ le32_bytes gen" 12 "replicate 4 0" "le32_bytes (crc32 (raw_body h))" "raw_body h"]
    by (simp flip: append_assoc)
  have w: "of_nat 2048 = (2048 :: u16)" by simp
  show ?thesis unfolding encode_raw_header_def Let_def w 1 2 3 4 body 5 ..
qed

lemma decode_raw_blob_encoded:
  assumes "holding_wf h"
  shows "decode_raw_blob (raw_blob h gen) slot = Some \<lparr>dl_slot = slot, dl_generation = gen, dl_state = h\<rparr>"
proof -
  let ?b = "raw_blob h gen" and ?c = "crc32 (raw_body h)"
  have hd: "?b ! 0 = ucast (0x494D4332 :: u32)" "?b ! 1 = ucast (drop_bit 8 (0x494D4332 :: u32))"
    "?b ! 2 = ucast (drop_bit 16 (0x494D4332 :: u32))" "?b ! 3 = ucast (drop_bit 24 (0x494D4332 :: u32))"
    "?b ! 4 = lo8 1" "?b ! 5 = hi8 1" "?b ! 6 = lo8 2048" "?b ! 7 = hi8 2048"
    "?b ! 8 = ucast gen" "?b ! 9 = ucast (drop_bit 8 gen)" "?b ! 10 = ucast (drop_bit 16 gen)" "?b ! 11 = ucast (drop_bit 24 gen)"
    "?b ! 12 = ucast ?c" "?b ! 13 = ucast (drop_bit 8 ?c)" "?b ! 14 = ucast (drop_bit 16 ?c)" "?b ! 15 = ucast (drop_bit 24 ?c)"
    by (simp_all add: raw_blob_def le32_bytes_def le_bytes_def)
  have body: "slice ?b 16 6504 = raw_body h"
    using length_raw_body [OF assms] by (simp add: raw_blob_def slice_def)
  have wf: "length (ho_words h) = 2048" "length (ho_monitor h) = 128" "length (ho_control h) = 300"
    "length (ho_coils h) = 1536" using assms by (simp_all add: holding_wf_def)
  have parts: "take 4096 (raw_body h) = words_le (ho_words h)"
    "slice (raw_body h) 4096 (4096 + 256) = words_le (ho_monitor h)"
    "slice (raw_body h) (4096 + 256) (4096 + 256 + 600) = words_le (ho_control h)"
    "slice (raw_body h) (4096 + 256 + 600) (4096 + 256 + 600 + 1536) = ho_coils h"
    using wf by (simp_all add: raw_body_def slice_def)
  have unat: "unat (2048 :: u16) = 2048" by simp
  show ?thesis
    unfolding decode_raw_blob_def Let_def hd body le32_le32_bytes le16_lo_hi parts unat
    using length_raw_blob [OF assms, of gen] by simp
qed

section \<open>Writing a slot\<close>

lemma slice_copy_other:
  assumes "i + length xs \<le> a \<or> b \<le> i" and "i + length xs \<le> length p"
  shows "slice (copy_at p i xs) a b = slice p a b"
proof -
  have "slice (copy_at p i xs) a b ! k = slice p a b ! k" if "k < length (slice p a b)" for k
  proof -
    have "a + k < b" "a + k < length p" using that by auto
    then show ?thesis using assms by (auto simp: slice_def nth_copy_at)
  qed
  then show ?thesis using assms(2) by (intro nth_equalityI) simp_all
qed

lemma flash_erase_length: "off + n \<le> length p \<Longrightarrow> length (snd (flash_erase oc off n p)) = length p"
  by (simp add: flash_erase_def flash_len_def split: flash_outcome.split)

lemma flash_write_length:
  assumes "off + length d \<le> length p"
  shows "length (snd (flash_write oc off d p)) = length p"
proof -
  let ?d = "take (flash_len oc (length d)) d"
  have "length (map2 (AND) (slice p off (off + length ?d)) ?d) \<le> length d" by simp
  then show ?thesis using assms by (simp add: flash_write_def Let_def)
qed

lemma flash_erase_other:
  assumes "off + n \<le> length p" and "off + n \<le> a \<or> b \<le> off"
  shows "slice (snd (flash_erase oc off n p)) a b = slice p a b"
proof -
  have "flash_len oc n \<le> n" by (simp add: flash_len_def split: flash_outcome.split)
  then show ?thesis using assms by (auto simp: flash_erase_def intro!: slice_copy_other)
qed

lemma flash_write_other:
  assumes "off + length d \<le> length p" and "off + length d \<le> a \<or> b \<le> off"
  shows "slice (snd (flash_write oc off d p)) a b = slice p a b"
proof -
  let ?d = "take (flash_len oc (length d)) d"
  have "length (map2 (AND) (slice p off (off + length ?d)) ?d) \<le> length d" by simp
  then show ?thesis using assms unfolding flash_write_def Let_def snd_conv by (intro slice_copy_other) linarith+
qed

lemma map2_and_ones: "map2 (AND) (replicate (length d) 0xFF) d = d" for d :: "u8 list"
proof -
  have "(0xFF :: u8) = mask 8" by (simp add: mask_eq_exp_minus_1)
  then have "0xFF AND x = x" for x :: u8
    by (auto simp: bit_eq_iff bit_and_iff bit_mask_iff dest: bit_imp_le_length)
  then show ?thesis by (intro nth_equalityI) auto
qed

lemma erase_write_slot:
  assumes "off + 0x2000 \<le> length p" and "length d = 6504"
  shows "slice (snd (flash_write FlOk off d (snd (flash_erase FlOk off 0x2000 p)))) off (off + 6504) = d"
proof -
  let ?p = "snd (flash_erase FlOk off 0x2000 p)"
  have p: "?p = copy_at p off (replicate 0x2000 0xFF)" by (simp add: flash_erase_def flash_len_def)
  have "slice ?p off (off + 6504) = replicate (length d) 0xFF"
    unfolding p using assms by (simp add: slice_def copy_at_def)
  then have "snd (flash_write FlOk off d ?p) = copy_at ?p off d"
    using map2_and_ones [of d] assms(2) by (simp add: flash_write_def flash_len_def)
  then show ?thesis using slice_copy_at [of off d ?p] assms p by simp
qed

lemma slot_offset_simps [simp]: "slot_offset 0 = 0" "slot_offset 1 = 8192"
  by (simp_all add: slot_offset_def)

lemma write_slot_other:
  assumes "slot \<in> {0, 1}" and "length p \<ge> 0x8000" and "length blob = 6504" and "write_slot env slot blob (Some p) = (ok, part)"
  shows "\<exists>p'. part = Some p' \<and> length p' = length p \<and> read_slot p' (1 - slot) = read_slot p (1 - slot)"
proof -
  let ?off = "slot_offset slot"
  let ?p1 = "snd (flash_erase (fe_erase env) ?off 0x2000 p)"
  let ?p2 = "snd (flash_write (fe_write env) ?off (take 6504 blob) ?p1)"
  have off: "?off + 0x2000 \<le> length p" using assms(1,2) by auto
  have l1: "length ?p1 = length p" by (rule flash_erase_length [OF off])
  have l2: "length ?p2 = length p" using flash_write_length [of ?off "take 6504 blob" ?p1] off l1 assms(3) by simp
  have r1: "read_slot ?p1 (1 - slot) = read_slot p (1 - slot)"
    using flash_erase_other [OF off] assms(1) by (auto simp: read_slot_def)
  have r2: "read_slot ?p2 (1 - slot) = read_slot ?p1 (1 - slot)"
    using flash_write_other [of ?off "take 6504 blob" ?p1] off l1 assms(1,3) by (auto simp: read_slot_def)
  have "part = Some ?p1 \<or> part = Some ?p2"
    using assms(4) by (auto simp: write_slot_def Let_def split_beta split: if_splits)
  then show ?thesis using l1 l2 r1 r2 by auto
qed

lemma write_slot_ok:
  assumes "slot \<in> {0, 1}" and "length p \<ge> 0x8000" and "length blob = 6504" and "write_slot env slot blob (Some p) = (True, part)"
  shows "\<exists>p'. part = Some p' \<and> read_slot p' slot = decode_raw_blob blob slot"
proof -
  let ?off = "slot_offset slot"
  have off: "?off + 0x2000 \<le> length p" using assms(1,2) by auto
  have ok: "fe_erase env = FlOk" "fe_write env = FlOk"
    and part: "part = Some (snd (flash_write FlOk ?off (take 6504 blob) (snd (flash_erase FlOk ?off 0x2000 p))))"
    using assms(4) by (auto simp: write_slot_def Let_def split_beta flash_erase_def flash_write_def split: if_splits)
  show ?thesis unfolding part read_slot_def using erase_write_slot [OF off] assms(3) by simp
qed


section \<open>The state across saves\<close>

text \<open>The store knows which slot is current and holds the state of the last completed save,
  \<open>saved_state\<close>; what the next boot would load is \<open>stored\<close>.\<close>

definition store_wf :: "holding_store \<Rightarrow> bool" where
  "store_wf hs \<longleftrightarrow> (\<exists>p. hs_part hs = Some p \<and> length p \<ge> PARTITION_MIN_BYTES \<and>
     (hs_active hs \<in> {0, 1} \<and>
        (\<exists>d. read_slot p (hs_active hs) = Some d \<and> dl_generation d = hs_generation hs) \<or>
      hs_active hs = NO_ACTIVE_SLOT \<and> hs_generation hs = 0 \<and> read_slot p 1 = None))"

definition stored :: "holding_store \<Rightarrow> unit + holding_state" where
  "stored hs = fst (load_from_nvs (\<lambda>_. True) hs)"

definition saved_state :: "holding_store \<Rightarrow> holding_state" where
  "saved_state hs =
     (if hs_active hs = NO_ACTIVE_SLOT then holding_empty
      else case Option.bind (hs_part hs) (\<lambda>p. read_slot p (hs_active hs)) of
        None \<Rightarrow> holding_empty | Some d \<Rightarrow> dl_state d)"

lemma read_slot_slot: "read_slot p slot = Some d \<Longrightarrow> dl_slot d = slot"
  by (auto simp: read_slot_def decode_raw_blob_def Let_def split: if_splits)

lemma newer_succ: "generation_is_newer (g + 1) g" "\<not> generation_is_newer g (g + 1)"
proof -
  have "g - (g + 1) = (- 1 :: u32)" by simp
  then show "\<not> generation_is_newer g (g + 1)" unfolding generation_is_newer_def by simp
qed (simp add: generation_is_newer_def)

lemma newer_asym:
  assumes "generation_is_newer a b"
  shows "\<not> generation_is_newer b a"
proof
  assume "generation_is_newer b a"
  then have "unat (a - b) + unat (b - a) < 2 ^ LENGTH(32)"
    using assms by (simp add: generation_is_newer_def word_less_nat_alt)
  then have "unat ((a - b) + (b - a)) = unat (a - b) + unat (b - a)" by (simp only: unat_add_lem)
  then have "unat (a - b) = 0" by simp
  then show False using assms by (simp add: generation_is_newer_def unat_eq_0)
qed

lemma load_two_slots:
  "load_best_raw_slot (\<lambda>_. True) (Some p) = Inr (case (read_slot p 0, read_slot p 1) of
     (None, r) \<Rightarrow> r | (Some d, None) \<Rightarrow> Some d
   | (Some d, Some e) \<Rightarrow> if generation_is_newer (dl_generation e) (dl_generation d) then Some e else Some d)"
  by (simp add: load_best_raw_slot_def split: option.split)

text \<open>The slot that is not current is read only when it is newer.\<close>

lemma load_current_or_newer:
  assumes "slot \<in> {0, 1}" and "read_slot p slot = Some d" and "generation_is_newer (dl_generation e) (dl_generation d) \<or>
      generation_is_newer (dl_generation d) (dl_generation e)" and "read_slot p (1 - slot) = Some e"
  shows "load_best_raw_slot (\<lambda>_. True) (Some p) =
    Inr (Some (if generation_is_newer (dl_generation e) (dl_generation d) then e else d))"
  using assms newer_asym by (auto simp: load_two_slots)

lemma save_to_nvs_writes:
  assumes "store_wf hs" and "holding_wf h" and "sf_holding_dirty f \<or> sf_legacy_dirty f"
    and "save_to_nvs env h (f, hs) = (ok, f', hs')"
  shows "\<exists>p p' target. hs_part hs = Some p \<and> hs_part hs' = Some p' \<and> length p' = length p \<and>
    target = (if hs_active hs = 0 then 1 else 0 :: u8) \<and> read_slot p' (1 - target) = read_slot p (1 - target) \<and>
    (ok \<longrightarrow> hs_active hs' = target \<and> hs_generation hs' = hs_generation hs + 1 \<and> hs_valid hs' \<and>
       f' = \<lparr>sf_holding_dirty = False, sf_legacy_dirty = False\<rparr> \<and>
       read_slot p' target = Some \<lparr>dl_slot = target, dl_generation = hs_generation hs + 1, dl_state = h\<rparr>) \<and>
    (\<not> ok \<longrightarrow> sf_holding_dirty f' \<and> sf_legacy_dirty f' = sf_legacy_dirty f \<and> hs_active hs' = hs_active hs \<and>
       hs_generation hs' = hs_generation hs)"
proof -
  obtain p where p: "hs_part hs = Some p" "length p \<ge> 0x8000" using assms(1) by (auto simp: store_wf_def)
  let ?t = "if hs_active hs = 0 then 1 else 0 :: u8"
  let ?blob = "raw_blob h (hs_generation hs + 1)"
  obtain ok1 part where w: "write_slot env ?t ?blob (Some p) = (ok1, part)" by (rule prod.exhaust)
  have len: "length ?blob = 6504" by (rule length_raw_blob [OF assms(2)])
  have t: "?t \<in> {0, 1}" by simp
  obtain p' where p': "part = Some p'" "length p' = length p" "read_slot p' (1 - ?t) = read_slot p (1 - ?t)"
    using write_slot_other [OF t p(2) len w] by blast
  have new: "read_slot p' ?t = Some \<lparr>dl_slot = ?t, dl_generation = hs_generation hs + 1, dl_state = h\<rparr>" if ok1
  proof -
    have "write_slot env ?t ?blob (Some p) = (True, Some p')" using w that p'(1) by simp
    from write_slot_ok [OF t p(2) len this] show ?thesis
      using decode_raw_blob_encoded [OF assms(2)] by (simp del: split_paired_Ex)
  qed
  have res: "(ok, f', hs') = (if ok1 then (True, \<lparr>sf_holding_dirty = False, sf_legacy_dirty = False\<rparr>,
        hs\<lparr>hs_part := part, hs_active := ?t, hs_generation := hs_generation hs + 1, hs_valid := True\<rparr>)
      else (False, \<lparr>sf_holding_dirty = True, sf_legacy_dirty = sf_legacy_dirty f\<rparr>, hs\<lparr>hs_part := part\<rparr>))"
    using assms(3,4) w unfolding save_to_nvs_def Let_def prod.case encode_raw_body_wf [OF assms(2)] option.case
      encode_raw_header_blob [OF assms(2)] p(1) by auto
  show ?thesis
    using res p p' new by (intro exI [of _ p] exI [of _ p'] exI [of _ ?t]) (cases ok1; simp)
qed


lemma one_minus_slot: "(1 - slot :: u8) = (if slot = 0 then 1 else 0)" if "slot \<in> {0, 1}"
  using that by auto

text \<open>The slots after a save: the current one is as before, the target holds what was written, if anything.\<close>

lemma save_to_nvs_stored:
  assumes "store_wf hs" and "holding_wf h" and "sf_holding_dirty f \<or> sf_legacy_dirty f"
    and "save_to_nvs env h (f, hs) = (ok, f', hs')"
  obtains "ok" "stored hs' = Inr h" "saved_state hs' = h" "store_wf hs'"
  | p' where "\<not> ok" "hs_part hs' = Some p'" "saved_state hs' = saved_state hs" "store_wf hs'"
      "stored hs' = Inr (saved_state hs) \<or>
       (\<exists>d. read_slot p' (if hs_active hs = 0 then 1 else 0) = Some d \<and> stored hs' = Inr (dl_state d))"
proof -
  obtain p p' t where pp: "hs_part hs = Some p" "hs_part hs' = Some p'" "length p' = length p"
    and t: "t = (if hs_active hs = 0 then 1 else 0 :: u8)" and other: "read_slot p' (1 - t) = read_slot p (1 - t)"
    and yes: "ok \<longrightarrow> hs_active hs' = t \<and> hs_generation hs' = hs_generation hs + 1 \<and> hs_valid hs' \<and>
       f' = \<lparr>sf_holding_dirty = False, sf_legacy_dirty = False\<rparr> \<and>
       read_slot p' t = Some \<lparr>dl_slot = t, dl_generation = hs_generation hs + 1, dl_state = h\<rparr>"
    and no: "\<not> ok \<longrightarrow> sf_holding_dirty f' \<and> sf_legacy_dirty f' = sf_legacy_dirty f \<and> hs_active hs' = hs_active hs \<and>
       hs_generation hs' = hs_generation hs"
    using save_to_nvs_writes [OF assms] by blast
  have big: "length p' \<ge> 0x8000" using assms(1) pp by (auto simp: store_wf_def)
  have stored: "stored hs' = (case load_best_raw_slot (\<lambda>_. True) (Some p') of
      Inl e \<Rightarrow> Inl e | Inr (Some d) \<Rightarrow> Inr (dl_state d) | Inr None \<Rightarrow> Inr holding_empty)"
    by (simp add: stored_def load_from_nvs_def pp split: sum.split option.split)
  have t01: "t \<in> {0, 1}" by (simp add: t)
  from assms(1) pp consider
      d where "hs_active hs \<in> {0, 1}" "read_slot p (hs_active hs) = Some d" "dl_generation d = hs_generation hs"
    | "hs_active hs = 255" "hs_generation hs = 0" "read_slot p 1 = None"
    by (auto simp: store_wf_def)
  then show ?thesis
  proof cases
    case (1 d)
    have cur: "1 - t = hs_active hs" "hs_active hs \<noteq> 255" using 1(1) t by auto
    then have d: "read_slot p' (1 - t) = Some d" using other 1(2) by simp
    have sv: "saved_state hs = dl_state d" using cur 1(2) pp by (simp add: saved_state_def)
    show ?thesis
    proof (cases ok)
      case True
      then have e: "read_slot p' t = Some \<lparr>dl_slot = t, dl_generation = hs_generation hs + 1, dl_state = h\<rparr>"
        using yes by blast
      have "load_best_raw_slot (\<lambda>_. True) (Some p') = Inr (Some \<lparr>dl_slot = t, dl_generation = hs_generation hs + 1, dl_state = h\<rparr>)"
        using t01 d e 1(3) newer_succ [of "hs_generation hs"] by (auto simp: load_two_slots)
      then have "stored hs' = Inr h" using stored by simp
      moreover have "saved_state hs' = h" using True yes pp t01 by (auto simp: saved_state_def)
      moreover have "store_wf hs'" using True yes pp big t01 by (auto simp: store_wf_def)
      ultimately show ?thesis using that(1) True by blast
    next
      case False
      have "saved_state hs' = saved_state hs" using False no pp sv cur d by (simp add: saved_state_def)
      moreover have "store_wf hs'" using False no pp big cur d 1 by (auto simp: store_wf_def)
      moreover have "stored hs' = Inr (saved_state hs) \<or>
          (\<exists>e. read_slot p' t = Some e \<and> stored hs' = Inr (dl_state e))"
        unfolding stored sv load_two_slots using t01 d by (auto split: option.split)
      ultimately show ?thesis using that(2) False pp unfolding t by blast
    qed
  next
    case 2
    then have t0: "t = 0" by (simp add: t)
    then have n: "read_slot p' 1 = None" using other 2(3) by simp
    have sv: "saved_state hs = holding_empty" using 2(1) by (simp add: saved_state_def)
    show ?thesis
    proof (cases ok)
      case True
      have "stored hs' = Inr h" unfolding stored load_two_slots using True yes n t0 by simp
      moreover have "saved_state hs' = h" using True yes pp t0 by (simp add: saved_state_def)
      moreover have "store_wf hs'" using True yes pp big t0 by (auto simp: store_wf_def)
      ultimately show ?thesis using that(1) True by blast
    next
      case False
      have "saved_state hs' = saved_state hs" using False no 2(1) sv by (simp add: saved_state_def)
      moreover have "store_wf hs'" using False no pp big n 2 by (auto simp: store_wf_def)
      moreover have "stored hs' = Inr (saved_state hs) \<or>
          (\<exists>e. read_slot p' t = Some e \<and> stored hs' = Inr (dl_state e))"
        unfolding stored sv load_two_slots using n t0 by (auto split: option.split)
      ultimately show ?thesis using that(2) False pp unfolding t by blast
    qed
  qed
qed

text \<open>C27: A save of the holding area that reports success is what the next boot loads.  After a save that
  failed or lost power at any point of the erase or the write, the next boot loads the state of the last
  completed save, unless the slot that was being written passes its magic, version and checksum; the
  dirty flags are kept, and the store stays ready for another attempt.\<close>

theorem holding_save_is_atomic:
  assumes "store_wf hs" and "holding_wf h" and "sf_holding_dirty f \<or> sf_legacy_dirty f"
    and "save_to_nvs env h (f, hs) = (ok, f', hs')"
  shows "store_wf hs' \<and>
    (ok \<longrightarrow> stored hs' = Inr h \<and> saved_state hs' = h \<and> \<not> sf_holding_dirty f' \<and> \<not> sf_legacy_dirty f') \<and>
    (\<not> ok \<longrightarrow> sf_holding_dirty f' \<and> sf_legacy_dirty f' = sf_legacy_dirty f \<and> saved_state hs' = saved_state hs \<and>
       (stored hs' = Inr (saved_state hs) \<or>
        (\<exists>p' d. hs_part hs' = Some p' \<and> read_slot p' (if hs_active hs = 0 then 1 else 0) = Some d \<and>
           stored hs' = Inr (dl_state d))))"
proof -
  have flags: "ok \<Longrightarrow> \<not> sf_holding_dirty f' \<and> \<not> sf_legacy_dirty f'"
    "\<not> ok \<Longrightarrow> sf_holding_dirty f' \<and> sf_legacy_dirty f' = sf_legacy_dirty f"
    using save_to_nvs_writes [OF assms] by auto
  show ?thesis by (rule save_to_nvs_stored [OF assms]) (use flags in blast)+
qed

text \<open>A partition that was never written is ready for the first save.\<close>

lemma read_slot_erased: "read_slot (replicate 0x8000 0xFF) slot = None" if "slot \<in> {0, 1}"
proof -
  have s: "slice (replicate 0x8000 (0xFF :: u8)) (slot_offset slot) (slot_offset slot + 6504) = replicate 6504 0xFF"
    using that by (auto simp: slice_def)
  have "le32 0xFF 0xFF 0xFF 0xFF \<noteq> 0x494D4332" by (simp add: le32_def)
  then show ?thesis unfolding read_slot_def s by (simp add: decode_raw_blob_def)
qed

lemma store_wf_erased:
  "store_wf \<lparr>hs_part = Some (replicate 0x8000 0xFF), hs_active = 255, hs_generation = 0, hs_valid = False\<rparr>"
  by (simp add: store_wf_def read_slot_erased)

theorem holding_save_is_atomic_witness:
  "let hs = \<lparr>hs_part = Some (replicate 0x8000 0xFF), hs_active = 255, hs_generation = 0, hs_valid = False\<rparr>;
       f = \<lparr>sf_holding_dirty = True, sf_legacy_dirty = False\<rparr>
   in \<exists>ok f' hs'. save_to_nvs \<lparr>fe_erase = FlOk, fe_write = FlTorn 100, fe_verify = True\<rparr> holding_empty (f, hs) =
     (ok, f', hs') \<and> store_wf hs' \<and> (\<not> ok \<longrightarrow> sf_holding_dirty f')"
proof -
  let ?hs = "\<lparr>hs_part = Some (replicate 0x8000 0xFF), hs_active = 255, hs_generation = 0, hs_valid = False\<rparr>"
  let ?f = "\<lparr>sf_holding_dirty = True, sf_legacy_dirty = False\<rparr>"
  obtain ok f' hs' where s: "save_to_nvs \<lparr>fe_erase = FlOk, fe_write = FlTorn 100, fe_verify = True\<rparr>
      holding_empty (?f, ?hs) = (ok, f', hs')" by (rule prod_cases3)
  have "holding_wf holding_empty" by (simp add: holding_wf_def holding_empty_def)
  from holding_save_is_atomic [OF store_wf_erased this _ s] s show ?thesis unfolding Let_def by auto
qed

text \<open>Every load leaves the store ready for a save, as long as both slots can be read.\<close>

lemma load_from_nvs_wf:
  assumes "hs_part hs = Some p" and "length p \<ge> PARTITION_MIN_BYTES"
    and "load_from_nvs (\<lambda>_. True) hs = (r, hs')"
  shows "store_wf hs'"
  using assms read_slot_slot [of p 0] read_slot_slot [of p 1]
  by (auto simp: load_from_nvs_def load_two_slots store_wf_def split: option.splits if_splits)

end
