(* ===== verification/Device_Boot.thy ===== *)
theory Device_Boot imports Holding_Store Bus_Safety begin

text \<open>
  The start of the device module (\<open>init\<close> of \<open>src/device/mod.rs\<close>): everything the flash
  holds is loaded, a configuration that could not be saved is repaired, and the first snapshots are
  published.  The flash content is arbitrary.
\<close>

section \<open>Defaults in the holding area\<close>

definition is_uninitialized :: "u16 list \<Rightarrow> bool" where
  "is_uninitialized ws \<longleftrightarrow> list_all (\<lambda>v. v = 0) ws \<or> list_all (\<lambda>v. v = 0xFFFF) ws"

definition initialize_preg_defaults :: "u16 list \<Rightarrow> u16 list" where
  "initialize_preg_defaults buf =
     (let ports_start = unat (2239 - HOLD_PXX_BASE); ports_end = ports_start + 4;
          buf = (if ports_end \<le> length buf \<and> is_uninitialized (slice buf ports_start ports_end)
                 then copy_at buf ports_start TCP_PORTS_DEFAULT else buf);
          remote_start = unat (2269 - HOLD_PXX_BASE); remote_end = remote_start + 5
      in if remote_end \<le> length buf \<and> is_uninitialized (slice buf remote_start remote_end)
         then copy_at buf remote_start [502, 192, 168, 0, 1] else buf)"

definition mirror_ble_name_to_holding :: "u8 list \<Rightarrow> u16 list \<Rightarrow> bool \<times> u16 list" where
  "mirror_ble_name_to_holding ble_name holding =
     (let start = unat (HOLD_BLE_ADDR_BASE - HOLD_PXX_BASE); stop = start + unat HOLD_BLE_ADDR_COUNT
      in if stop > length holding then (False, holding)
         else foldl (\<lambda>(changed, h) i.
                let word = be16 (ble_name ! (2 * i)) (ble_name ! (2 * i + 1))
                in if h ! (start + i) \<noteq> word then (True, h[start + i := word]) else (changed, h))
              (False, holding) [0..<length ble_name div 2])"

section \<open>Start\<close>

text \<open>\<open>boot_hw\<close> is what the chip reports: the two addresses burnt in, the version of the build, and
  which keys and slots the driver can read.\<close>

record boot_hw =
  bh_eth_mac :: "u8 list"
  bh_ble_mac :: "u8 list"
  bh_fw_version :: u16
  bh_key_readable :: "string \<Rightarrow> bool"
  bh_slot_readable :: "u8 \<Rightarrow> bool"

datatype boot_error = BootProto nvs_error | BootConfig config_error | BootHolding

definition load_holding :: "boot_hw \<Rightarrow> nvs option \<Rightarrow> holding_store \<Rightarrow> (unit + holding_state) \<times> holding_store" where
  "load_holding hw nv hs =
     (case nv of None \<Rightarrow> (Inr holding_empty, hs) | Some _ \<Rightarrow> load_from_nvs (bh_slot_readable hw) hs)"

text \<open>The repair of a loaded configuration: ports, network settings, addresses and serial number.\<close>

definition repair_ports :: "system_config \<Rightarrow> bool \<times> system_config" where
  "repair_ports c =
     (if \<not> valid_tcp_ports (sc_tcp_ports c) then (True, c\<lparr>sc_tcp_ports := TCP_PORTS_DEFAULT\<rparr>) else (False, c))"

definition repair_network :: "system_config \<Rightarrow> bool \<times> system_config" where
  "repair_network c =
     (case validate_for_persistence c of
        Inr _ \<Rightarrow> (False, c)
      | Inl _ \<Rightarrow> let d = config_defaults in
          (True, c\<lparr>sc_dhcp := sc_dhcp d, sc_ip := sc_ip d, sc_mask := sc_mask d,
                  sc_gateway := sc_gateway d, sc_dns := sc_dns d\<rparr>))"

definition repair_config :: "boot_hw \<Rightarrow> system_config \<Rightarrow> bool \<times> system_config" where
  "repair_config hw c =
     (let (ports, c) = repair_ports c;
          (network, c) = repair_network c;
          c = fill_hw_macs (bh_eth_mac hw) (bh_ble_mac hw) c;
          (filled, c) = fill_default_sn_from_eth_mac (bh_eth_mac hw) c
      in (ports \<or> network \<or> filled, c\<lparr>sc_fw_version := bh_fw_version hw\<rparr>))"

definition device_init :: "boot_hw \<Rightarrow> nvs option \<Rightarrow> holding_store \<Rightarrow> bus_state \<Rightarrow>
    boot_error + bus_state \<times> holding_store" where
  "device_init hw nv hs s =
     (case (case nv of None \<Rightarrow> Inr (replicate 1500 0, 0, 0) | Some m \<Rightarrow> load_proto_from_nvs m) of
        Inl e \<Rightarrow> Inl (BootProto e)
      | Inr (data, version, len) \<Rightarrow>
          let device_text = (case nv of None \<Rightarrow> replicate 2000 0 | Some m \<Rightarrow> load_device_text_from_nvs m)
          in case (case nv of None \<Rightarrow> Inr config_defaults | Some m \<Rightarrow> load_config (bh_key_readable hw) m) of
               Inl e \<Rightarrow> Inl (BootConfig e)
             | Inr cfg \<Rightarrow>
                 let (config_repaired, cfg) = repair_config hw cfg;
                     s = proto_status_set 0 s
                 in case load_holding hw nv hs of
                      (Inl _, _) \<Rightarrow> Inl BootHolding
                    | (Inr h, hs) \<Rightarrow>
                        let words = initialize_preg_defaults (ho_words h);
                            (changed, words) = mirror_ble_name_to_holding (sc_ble_name cfg) words;
                            sn = \<lparr>sn_proto = \<lparr>ps_data = data, ps_version = version, ps_length = len,
                                    ps_dirty = False, ps_status = 0\<rparr>,
                                  sn_device_text = device_text, sn_holding_buf = words,
                                  sn_monitor_words = ho_monitor h, sn_control_words = ho_control h,
                                  sn_legacy_coils = ho_coils h\<rparr>;
                            s = s\<lparr>bus_storage := sn\<rparr>;
                            s = (if changed then mark_holding_dirty s else s);
                            s = publish_config cfg s;
                            s = (if config_repaired then request_persist_config s else s);
                            s = (case nv of None \<Rightarrow> s
                                 | Some m \<Rightarrow> notify_do (s\<lparr>bus_io :=
                                     (bus_io s)\<lparr>io_do := store_bits (load_do_bits_from_nvs m) (io_do (bus_io s))\<rparr>\<rparr>));
                            s = s\<lparr>bus_io := (bus_io s)\<lparr>io_sys :=
                                  (io_sys (bus_io s))\<lparr>sys_firmware_version := sc_fw_version cfg\<rparr>\<rparr>\<rparr>
                        in Inr (s, hs))"

section \<open>Whatever the flash holds, the state after start is well-formed\<close>

lemma load_config_wf: "load_config rd m = Inr c \<Longrightarrow> config_wf c"
proof -
  assume l: "load_config rd m = Inr c"
  have dec: "config_wf (decode_config d)" if "length d = 152" for d
    using that by (simp add: decode_config_def config_wf_def config_defaults_def ascii_def)
  show ?thesis
    using l config_wf_defaults dec
    by (auto simp: load_config_def Let_def split: if_splits sum.splits option.splits)
qed

lemma validate_cong:
  assumes "sc_tcp_ports c = sc_tcp_ports d" "sc_dhcp c = sc_dhcp d" "sc_ip c = sc_ip d" "sc_mask c = sc_mask d"
    "sc_gateway c = sc_gateway d" "sc_dns c = sc_dns d"
  shows "validate_for_persistence c = validate_for_persistence d"
  unfolding validate_for_persistence_def assms ..

lemma fill_hw_macs_fields:
  "sc_tcp_ports (fill_hw_macs e b c) = sc_tcp_ports c" "sc_dhcp (fill_hw_macs e b c) = sc_dhcp c"
  "sc_ip (fill_hw_macs e b c) = sc_ip c" "sc_mask (fill_hw_macs e b c) = sc_mask c"
  "sc_gateway (fill_hw_macs e b c) = sc_gateway c" "sc_dns (fill_hw_macs e b c) = sc_dns c"
  "config_wf c \<Longrightarrow> length e = 6 \<Longrightarrow> length b = 6 \<Longrightarrow> config_wf (fill_hw_macs e b c)"
  by (auto simp: fill_hw_macs_def config_wf_def Let_def)

lemma repair_ports_ok:
  "config_wf c \<Longrightarrow> config_wf (snd (repair_ports c)) \<and> valid_tcp_ports (sc_tcp_ports (snd (repair_ports c)))"
  by (simp add: repair_ports_def config_wf_def valid_tcp_ports_iff)

lemma repair_network_ok:
  assumes "config_wf c" and "valid_tcp_ports (sc_tcp_ports c)"
  shows "config_wf (snd (repair_network c)) \<and> validate_for_persistence (snd (repair_network c)) = Inr ()"
proof (cases "validate_for_persistence c")
  case (Inl e)
  then show ?thesis
    using assms netmask_24
    by (simp add: repair_network_def Let_def config_wf_def config_defaults_def validate_for_persistence_def)
next
  case (Inr u)
  then show ?thesis using assms by (simp add: repair_network_def)
qed

lemma repair_config_ok:
  assumes "config_wf c" and "length (bh_eth_mac hw) = 6" and "length (bh_ble_mac hw) = 6"
    and "repair_config hw c = (r, d)"
  shows "config_wf d \<and> validate_for_persistence d = Inr () \<and> sc_fw_version d = bh_fw_version hw"
proof -
  obtain p1 c1 where 1: "repair_ports c = (p1, c1)" by (rule prod.exhaust)
  obtain p2 c2 where 2: "repair_network c1 = (p2, c2)" by (rule prod.exhaust)
  have ok: "config_wf c2" "validate_for_persistence c2 = Inr ()"
    using repair_ports_ok [OF assms(1)] repair_network_ok [of c1] 1 2 by simp_all
  let ?c3 = "fill_hw_macs (bh_eth_mac hw) (bh_ble_mac hw) c2"
  obtain p4 c4 where 4: "fill_default_sn_from_eth_mac (bh_eth_mac hw) ?c3 = (p4, c4)" by (rule prod.exhaust)
  have 3: "config_wf ?c3" "validate_for_persistence ?c3 = validate_for_persistence c2"
    by (rule fill_hw_macs_fields(7) [OF ok(1) assms(2,3)], rule validate_cong) (rule fill_hw_macs_fields)+
  have "config_wf c4 \<and> validate_for_persistence c4 = validate_for_persistence ?c3"
    using 3(1) 4 length_sn_from_eth_mac
    by (auto simp: fill_default_sn_from_eth_mac_def config_wf_def intro!: validate_cong split: if_splits)
  moreover have "d = c4\<lparr>sc_fw_version := bh_fw_version hw\<rparr>"
    using assms(4) by (simp add: repair_config_def 1 2 4)
  moreover have "config_wf (c4\<lparr>sc_fw_version := v\<rparr>) = config_wf c4"
    "validate_for_persistence (c4\<lparr>sc_fw_version := v\<rparr>) = validate_for_persistence c4" for v
    by (simp add: config_wf_def, rule validate_cong) simp_all
  ultimately show ?thesis using 3 ok by simp
qed

lemma load_proto_length: "load_proto_from_nvs m = Inr (data, v, l) \<Longrightarrow> length data = 1500"
  by (auto simp: load_proto_from_nvs_def load_single_blob_def decode_proto_def Let_def
      split: option.splits sum.splits if_splits)

lemma length_le_words: "length (le_words b) = length b div 2"
  by (induction b rule: le_words.induct) auto

lemma load_device_text_length: "length (load_device_text_from_nvs m) = 2000"
  by (auto simp: load_device_text_from_nvs_def length_le_words nvs_blob_def split: sum.splits option.splits)

lemma read_slot_wf: "read_slot p slot = Some d \<Longrightarrow> holding_wf (dl_state d)"
proof -
  assume r: "read_slot p slot = Some d"
  let ?b = "slice p (slot_offset slot) (slot_offset slot + 6504)"
  have "length ?b = 6504" using r by (auto simp: read_slot_def decode_raw_blob_def split: if_splits)
  then show ?thesis
    using r by (auto simp: read_slot_def decode_raw_blob_def Let_def holding_wf_def length_le_words split: if_splits)
qed

lemma best_slot_wf:
  "best_slot rd p slots best = Inr (Some d) \<Longrightarrow> (\<forall>b. best = Some b \<longrightarrow> holding_wf (dl_state b)) \<Longrightarrow>
    holding_wf (dl_state d)"
  by (induction slots arbitrary: best)
    (force split: if_splits option.splits dest: read_slot_wf)+

lemma load_best_raw_slot_wf: "load_best_raw_slot rd part = Inr (Some d) \<Longrightarrow> holding_wf (dl_state d)"
  using best_slot_wf [of rd _ _ None d] unfolding load_best_raw_slot_def
  by (cases part) (auto simp del: best_slot.simps)

lemma load_holding_state_wf: "load_holding hw nv hs = (Inr h, hs') \<Longrightarrow> holding_wf h"
proof -
  have "holding_wf holding_empty" by (simp add: holding_wf_def holding_empty_def)
  then show "load_holding hw nv hs = (Inr h, hs') \<Longrightarrow> holding_wf h"
    by (auto simp: load_holding_def load_from_nvs_def split: option.splits sum.splits dest: load_best_raw_slot_wf)
qed

lemma mirror_ble_name_length:
  "length (snd (mirror_ble_name_to_holding name h)) = length h"
proof -
  have *: "length (snd (foldl (\<lambda>(changed, h) i. if h ! (st + i) \<noteq> w i then (True, h[st + i := w i]) else (changed, h))
      (b, h) xs)) = length h" for st w xs b h
    by (induction xs arbitrary: b h) auto
  show ?thesis unfolding mirror_ble_name_to_holding_def Let_def by (auto simp only: * snd_conv split: if_split)
qed

lemma initialize_preg_length: "length buf = 2048 \<Longrightarrow> length (initialize_preg_defaults buf) = 2048"
  by (simp add: initialize_preg_defaults_def Let_def)

text \<open>C28: Whatever the flash holds - nothing, the blobs of another version, damaged or truncated data -
  a start that does not report an error publishes a well-formed state: every area has its size, the
  configuration is one that can be saved again, and its TCP ports are distinct and allowed.\<close>

theorem boot_state_is_wellformed:
  assumes "bus_wf s" and "length (bh_eth_mac hw) = 6" and "length (bh_ble_mac hw) = 6"
    and "device_init hw nv hs s = Inr (s', hs')"
  shows "bus_wf s' \<and> validate_for_persistence (bus_config s') = Inr () \<and>
    valid_tcp_ports (sc_tcp_ports (bus_config s')) \<and> sc_fw_version (bus_config s') = bh_fw_version hw"
proof -
  obtain data version len where proto:
    "(case nv of None \<Rightarrow> Inr (replicate 1500 0, 0, 0) | Some m \<Rightarrow> load_proto_from_nvs m) = Inr (data, version, len)"
    using assms(4) unfolding device_init_def by (auto split: sum.splits)
  obtain cfg0 where cfg0:
    "(case nv of None \<Rightarrow> Inr config_defaults | Some m \<Rightarrow> load_config (bh_key_readable hw) m) = Inr cfg0"
    using assms(4) unfolding device_init_def proto Let_def by (auto split: sum.splits)
  obtain rep cfg where cfg: "repair_config hw cfg0 = (rep, cfg)" by (rule prod.exhaust)
  obtain h hs1 where h: "load_holding hw nv hs = (Inr h, hs1)"
    using assms(4) unfolding device_init_def proto Let_def sum.case prod.case cfg0 cfg
    by (auto split: sum.splits prod.splits)
  let ?words = "initialize_preg_defaults (ho_words h)"
  obtain ch words where words: "mirror_ble_name_to_holding (sc_ble_name cfg) ?words = (ch, words)" by (rule prod.exhaust)
  let ?text = "case nv of None \<Rightarrow> replicate 2000 0 | Some m \<Rightarrow> load_device_text_from_nvs m"
  let ?sn = "\<lparr>sn_proto = \<lparr>ps_data = data, ps_version = version, ps_length = len, ps_dirty = False, ps_status = 0\<rparr>,
      sn_device_text = ?text, sn_holding_buf = words, sn_monitor_words = ho_monitor h,
      sn_control_words = ho_control h, sn_legacy_coils = ho_coils h\<rparr>"
  have hwf: "holding_wf h" by (rule load_holding_state_wf [OF h])
  have "length data = 1500" using proto load_proto_length by (auto split: option.splits)
  moreover have "length ?text = 2000" by (simp add: load_device_text_length split: option.split)
  moreover have "length words = 2048"
    using mirror_ble_name_length [of "sc_ble_name cfg" ?words] words initialize_preg_length [of "ho_words h"] hwf
    by (simp add: holding_wf_def)
  ultimately have sn: "storage_wf ?sn" using hwf by (simp add: storage_wf_def holding_wf_def)
  have "config_wf cfg0" using cfg0 config_wf_defaults load_config_wf by (auto split: option.splits)
  then have ok: "config_wf cfg" "validate_for_persistence cfg = Inr ()" "sc_fw_version cfg = bh_fw_version hw"
    using repair_config_ok [OF _ assms(2,3) cfg] by auto
  have res: "bus_storage s' = ?sn" "bus_config s' = cfg" "bus_control s' = bus_control s" "bus_results s' = bus_results s"
    "io_wf (bus_io s) \<Longrightarrow> io_wf (bus_io s')" "bus_env s' = bus_env s"
    using assms(4) unfolding device_init_def proto Let_def sum.case prod.case cfg0 cfg h words
    by (auto simp: mark_holding_dirty_def mark_storage_mutated_def publish_config_def request_persist_config_def
        notify_do_def proto_status_set_def io_wf_def split: option.splits)
  have "valid_tcp_ports (sc_tcp_ports cfg)" using ok(2) by (auto simp: validate_for_persistence_def split: if_splits)
  then show ?thesis using assms(1) sn ok res by (simp add: bus_wf_def)
qed


theorem boot_state_is_wellformed_witness:
  "let hw = \<lparr>bh_eth_mac = [2, 0, 0, 0, 0, 1], bh_ble_mac = [2, 0, 0, 0, 0, 2], bh_fw_version = 270,
         bh_key_readable = \<lambda>_. True, bh_slot_readable = \<lambda>_. True\<rparr>;
       hs = \<lparr>hs_part = None, hs_active = 255, hs_generation = 0, hs_valid = False\<rparr>
   in \<exists>s' hs'. device_init hw (Some Map.empty) hs (bus_start env_idle) = Inr (s', hs') \<and> bus_wf s' \<and>
     valid_tcp_ports (sc_tcp_ports (bus_config s'))"
proof -
  let ?hw = "\<lparr>bh_eth_mac = [2, 0, 0, 0, 0, 1], bh_ble_mac = [2, 0, 0, 0, 0, 2], bh_fw_version = 270,
    bh_key_readable = \<lambda>_. True, bh_slot_readable = \<lambda>_. True\<rparr> :: boot_hw"
  let ?hs = "\<lparr>hs_part = None, hs_active = 255, hs_generation = 0, hs_valid = False\<rparr>"
  have "\<exists>r. device_init ?hw (Some Map.empty) ?hs (bus_start env_idle) = Inr r"
    unfolding device_init_def Let_def
    by (simp add: load_proto_from_nvs_def nvs_u8_def load_config_def nvs_u32_def nvs_u16_def load_holding_def
        load_from_nvs_def load_best_raw_slot_def split: prod.split)
  then obtain s' hs' where i: "device_init ?hw (Some Map.empty) ?hs (bus_start env_idle) = Inr (s', hs')"
    by (metis surj_pair)
  show ?thesis using boot_state_is_wellformed [OF bus_wf_idle _ _ i] i by (auto simp: Let_def)
qed

end
