(* ===== verification/Ble_Link.thy ===== *)
theory Ble_Link imports Bus_Safety Mpsc_Ring Ring_Items Modbus_Crc begin

text \<open>
  The transport of the handheld protocol (\<open>src/ble_at/mod.rs\<close>): the ring of frames waiting to be
  notified, their division into notifications, the slots in which the writes of a client are put
  together to frames, and the text buffer of the command channel.  The radio stack is a parameter: the
  result of handing over a notification, and which of the short locks another task holds at the moment.
\<close>

abbreviation (input) BLE_BINARY_FRAME_MAX :: nat where "BLE_BINARY_FRAME_MAX \<equiv> 512"
abbreviation (input) BLE_BINARY_PDU_MAX :: nat where "BLE_BINARY_PDU_MAX \<equiv> 504"
abbreviation (input) BLE_TX_FRAME_MAX :: nat where "BLE_TX_FRAME_MAX \<equiv> 272"
abbreviation (input) BLE_TX_SLOT_COUNT :: nat where "BLE_TX_SLOT_COUNT \<equiv> 8"
abbreviation (input) BLE_RX_SLOT_COUNT :: nat where "BLE_RX_SLOT_COUNT \<equiv> 4"
abbreviation (input) BLE_SLOT_NONE :: u8 where "BLE_SLOT_NONE \<equiv> 255"
abbreviation (input) BLE_ATT_PAYLOAD_MAX :: nat where "BLE_ATT_PAYLOAD_MAX \<equiv> 497"

section \<open>The ring of frames\<close>

record tx_frame =
  tf_bytes :: "u8 list"
  tf_offset :: nat

record tx_frame_ring =
  tr_slots :: "tx_frame list"
  tr_head :: nat
  tr_len :: nat

definition tx_frame_new :: tx_frame where
  "tx_frame_new = \<lparr>tf_bytes = [], tf_offset = 0\<rparr>"

definition tx_ring_new :: tx_frame_ring where
  "tx_ring_new = \<lparr>tr_slots = replicate BLE_TX_SLOT_COUNT tx_frame_new, tr_head = 0, tr_len = 0\<rparr>"

definition tx_try_push :: "u8 list \<Rightarrow> tx_frame_ring \<Rightarrow> bool \<times> tx_frame_ring" where
  "tx_try_push frame r =
     (if tr_len r = BLE_TX_SLOT_COUNT then (False, r)
      else let index = (tr_head r + tr_len r) mod BLE_TX_SLOT_COUNT in
        (True, r\<lparr>tr_slots := (tr_slots r)[index := \<lparr>tf_bytes = frame, tf_offset = 0\<rparr>], tr_len := tr_len r + 1\<rparr>))"

definition tx_front :: "tx_frame_ring \<Rightarrow> tx_frame option" where
  "tx_front r = (if tr_len r \<noteq> 0 then Some (tr_slots r ! tr_head r) else None)"

definition tx_pop_front :: "tx_frame_ring \<Rightarrow> tx_frame_ring" where
  "tx_pop_front r =
     (if tr_len r = 0 then r
      else r\<lparr>tr_slots := (tr_slots r)[tr_head r := tx_frame_new],
             tr_head := (tr_head r + 1) mod BLE_TX_SLOT_COUNT, tr_len := tr_len r - 1\<rparr>)"

function tx_drain :: "tx_frame_ring \<Rightarrow> tx_frame_ring" where
  "tx_drain r = (if tr_len r \<noteq> 0 then tx_drain (tx_pop_front r) else r)"
  by auto
termination by (relation "measure tr_len") (auto simp: tx_pop_front_def)

declare tx_drain.simps [simp del]

definition tx_clear :: "tx_frame_ring \<Rightarrow> tx_frame_ring" where
  "tx_clear r = (tx_drain r)\<lparr>tr_head := 0\<rparr>"

section \<open>State\<close>

datatype rx_state = RxFree | RxAssembling | RxReady | RxProcessing

record rx_slot =
  sl_state :: rx_state
  sl_frame :: "u8 list"
  sl_conn :: u16
  sl_epoch :: u32

definition rx_slot_new :: rx_slot where
  "rx_slot_new = \<lparr>sl_state = RxFree, sl_frame = [], sl_conn = 0xFFFF, sl_epoch = 0\<rparr>"

record ble_link =
  bl_tx :: tx_frame_ring
  bl_slots :: "rx_slot list"
  bl_active :: u8
  bl_requests :: "u8 list"
  bl_conn :: u16
  bl_epoch :: u32
  bl_notify :: bool
  bl_mtu :: u16
  bl_congested :: bool
  bl_dirty :: bool
  bl_text :: "u8 list"

definition ble_link_new :: ble_link where
  "ble_link_new = \<lparr>bl_tx = tx_ring_new, bl_slots = replicate BLE_RX_SLOT_COUNT rx_slot_new,
     bl_active = BLE_SLOT_NONE, bl_requests = [], bl_conn = 0xFFFF, bl_epoch = 0, bl_notify = False,
     bl_mtu = 23, bl_congested = False, bl_dirty = False, bl_text = []\<rparr>"

text \<open>The locks held by the other task.\<close>

record ble_locks =
  lk_slot :: "nat \<Rightarrow> bool"
  lk_requests :: bool
  lk_tx :: bool
  lk_text :: bool

definition no_locks :: ble_locks where
  "no_locks = \<lparr>lk_slot = (\<lambda>_. False), lk_requests = False, lk_tx = False, lk_text = False\<rparr>"

section \<open>Frames\<close>

definition build_ble_frame :: "u16 \<Rightarrow> u16 \<Rightarrow> u8 list \<Rightarrow> u8 list option" where
  "build_ble_frame tx_id proto_id pdu_data =
     (if length pdu_data > BLE_TX_FRAME_MAX - 8 then None
      else let frame = be_bytes tx_id @ be_bytes proto_id @ be_bytes (of_nat (length pdu_data)) @ pdu_data
        in Some (frame @ le_bytes (modbus_crc16 frame)))"

definition enqueue_tx_frame :: "ble_locks \<Rightarrow> u8 list \<Rightarrow> ble_link \<Rightarrow> bool \<times> ble_link" where
  "enqueue_tx_frame lk frame l =
     (if lk_tx lk then (False, l)
      else let (ok, tx) = tx_try_push frame (bl_tx l) in (ok, l\<lparr>bl_tx := tx\<rparr>))"

text \<open>Dropped frames are counted in the register map; every tenth is recorded as a failure.\<close>

definition count_drop :: "bus_state \<Rightarrow> bus_state" where
  "count_drop s = s\<lparr>bus_ble_drops := bus_ble_drops s + 1\<rparr>"

definition send_ble_frame :: "ble_locks \<Rightarrow> u64 \<Rightarrow> u16 \<Rightarrow> u16 \<Rightarrow> u8 list \<Rightarrow> ble_link \<times> bus_state \<Rightarrow>
    ble_link \<times> bus_state" where
  "send_ble_frame lk now tx_id proto_id pdu_data ls =
     (let (l, s) = ls in
      case build_ble_frame tx_id proto_id pdu_data of
        None \<Rightarrow> (l, count_drop s)
      | Some frame \<Rightarrow>
          let (ok, l) = enqueue_tx_frame lk frame l in
          if ok then (l, s)
          else let s = count_drop s in
            (l, if bus_ble_drops s mod 10 = 1
                then s\<lparr>bus_recovery := record_failure Recoverable now (bus_recovery s)\<rparr> else s))"

section \<open>Notifications\<close>

definition payload_limit :: "ble_link \<Rightarrow> nat" where
  "payload_limit l = max 1 (min (unat (saturating_sub (bl_mtu l) 3)) BLE_ATT_PAYLOAD_MAX)"

text \<open>\<open>submitted\<close> is whether the stack takes the notification, \<open>same\<close> whether the connection is
  still the one for which it was built.  The result is the notification handed over.\<close>

definition send_next_notification :: "ble_locks \<Rightarrow> bool \<Rightarrow> bool \<Rightarrow> ble_link \<Rightarrow> u8 list option \<times> ble_link" where
  "send_next_notification lk submitted same l =
     (if \<not> bl_notify l \<or> bl_congested l then (None, l)
      else if lk_tx lk then (None, l)
      else case tx_front (bl_tx l) of
        None \<Rightarrow> (None, l)
      | Some frame \<Rightarrow>
          let remaining = drop (tf_offset frame) (tf_bytes frame);
              chunk = take (payload_limit l) remaining
          in if \<not> submitted then (None, l)
             else if \<not> same then (Some chunk, l)
             else let offset = tf_offset frame + length chunk; r = bl_tx l;
                      r = r\<lparr>tr_slots := (tr_slots r)[tr_head r := frame\<lparr>tf_offset := offset\<rparr>]\<rparr>
                  in (Some chunk,
                      l\<lparr>bl_tx := (if length (tf_bytes frame) - offset = 0 then tx_pop_front r else r)\<rparr>))"

section \<open>Receiving\<close>

definition binary_frame_total_len :: "u8 list \<Rightarrow> nat option" where
  "binary_frame_total_len data =
     (if length data < 6 then None
      else let len = unat (be16 (data ! 4) (data ! 5)) in
        if \<not> (2 \<le> len \<and> len \<le> BLE_BINARY_PDU_MAX) then None else Some (6 + len + 2))"

definition set_slot :: "nat \<Rightarrow> rx_slot \<Rightarrow> ble_link \<Rightarrow> ble_link" where
  "set_slot i sl l = l\<lparr>bl_slots := (bl_slots l)[i := sl]\<rparr>"

fun claim_loop :: "ble_locks \<Rightarrow> u16 \<Rightarrow> nat list \<Rightarrow> ble_link \<Rightarrow> nat option \<times> ble_link" where
  "claim_loop lk conn [] l = (None, l)"
| "claim_loop lk conn (i # is) l =
     (if sl_state (bl_slots l ! i) = RxFree \<and> \<not> lk_slot lk i
      then (Some i, set_slot i \<lparr>sl_state = RxAssembling, sl_frame = [], sl_conn = conn, sl_epoch = bl_epoch l\<rparr> l)
      else claim_loop lk conn is l)"

definition claim_binary_rx_slot :: "ble_locks \<Rightarrow> u16 \<Rightarrow> ble_link \<Rightarrow> nat option \<times> ble_link" where
  "claim_binary_rx_slot lk conn l = claim_loop lk conn [0..<length (bl_slots l)] l"

definition release_binary_rx_slot :: "ble_locks \<Rightarrow> u8 \<Rightarrow> ble_link \<Rightarrow> bool \<times> ble_link" where
  "release_binary_rx_slot lk index l =
     (let i = unat index in
      if i \<ge> length (bl_slots l) then (False, l)
      else if lk_slot lk i then (False, l)
      else (True, set_slot i ((bl_slots l ! i)\<lparr>sl_frame := [], sl_conn := 0xFFFF, sl_state := RxFree\<rparr>) l))"

definition clear_binary_rx_slots :: "ble_locks \<Rightarrow> ble_link \<Rightarrow> bool \<times> ble_link" where
  "clear_binary_rx_slots lk l =
     (let l = l\<lparr>bl_active := BLE_SLOT_NONE, bl_requests := (if lk_requests lk then bl_requests l else [])\<rparr>
      in foldl (\<lambda>(cleared, l) i. let (ok, l) = release_binary_rx_slot lk (of_nat i) l in (cleared \<and> ok, l))
           (True, l) [0..<BLE_RX_SLOT_COUNT])"

text \<open>Giving up the frame in assembly.\<close>

definition abandon_slot :: "ble_locks \<Rightarrow> u8 \<Rightarrow> ble_link \<Rightarrow> ble_link" where
  "abandon_slot lk index l = snd (release_binary_rx_slot lk index (l\<lparr>bl_active := BLE_SLOT_NONE\<rparr>))"

definition try_enqueue_request :: "ble_locks \<Rightarrow> u8 \<Rightarrow> ble_link \<Rightarrow> bool \<times> ble_link" where
  "try_enqueue_request lk index l =
     (let (ok, q) = mpsc_try_enqueue 5 (lk_requests lk) index (bl_requests l) in (ok, l\<lparr>bl_requests := q\<rparr>))"

text \<open>A write of the client, when a frame is in assembly in slot \<open>index\<close>.\<close>

definition feed_slot :: "ble_locks \<Rightarrow> u8 list \<Rightarrow> u8 \<Rightarrow> ble_link \<times> bus_state \<Rightarrow> ble_link \<times> bus_state" where
  "feed_slot lk data index ls =
     (let (l, s) = ls; i = unat index in
      if i \<ge> length (bl_slots l) then (l\<lparr>bl_active := BLE_SLOT_NONE\<rparr>, s)
      else if lk_slot lk i then (l, s)
      else let sl = bl_slots l ! i in
      if length (sl_frame sl) + length data > BLE_BINARY_FRAME_MAX then (abandon_slot lk index l, s)
      else let rx = sl_frame sl @ data; l = set_slot i (sl\<lparr>sl_frame := rx\<rparr>) l in
      if length rx < 6 then (l, s)
      else case binary_frame_total_len rx of
        None \<Rightarrow> (abandon_slot lk index l, s)
      | Some expected \<Rightarrow>
          if expected > BLE_BINARY_FRAME_MAX then (abandon_slot lk index l, s)
          else if length rx < expected then (l, s)
          else if length rx \<noteq> expected then (abandon_slot lk index l, s)
          else let l = l\<lparr>bl_active := BLE_SLOT_NONE\<rparr>;
                   l = set_slot i ((bl_slots l ! i)\<lparr>sl_state := RxReady\<rparr>) l;
                   (ok, l) = try_enqueue_request lk index l
               in if ok then (l, s) else (snd (release_binary_rx_slot lk index l), count_drop s))"

definition starts_like_text :: "u8 list \<Rightarrow> bool" where
  "starts_like_text data \<longleftrightarrow> take 2 data = [65, 84] \<or> data = [65]"

definition try_feed_binary_protocol :: "ble_locks \<Rightarrow> u8 list \<Rightarrow> u16 \<Rightarrow> ble_link \<times> bus_state \<Rightarrow>
    bool \<times> ble_link \<times> bus_state" where
  "try_feed_binary_protocol lk data conn ls =
     (let (l, s) = ls in
      if bl_active l = BLE_SLOT_NONE \<and> starts_like_text data then (False, l, s)
      else if bl_active l = BLE_SLOT_NONE then
        (case claim_binary_rx_slot lk conn l of
           (None, l) \<Rightarrow> (True, l, count_drop s)
         | (Some i, l) \<Rightarrow> (True, feed_slot lk data (of_nat i) (l\<lparr>bl_active := of_nat i\<rparr>, s)))
      else (True, feed_slot lk data (bl_active l) (l, s)))"

section \<open>The text channel\<close>

definition feed_data :: "ble_locks \<Rightarrow> u8 list \<Rightarrow> ble_link \<times> bus_state \<Rightarrow> ble_link \<times> bus_state" where
  "feed_data lk data ls =
     (let (l, s) = ls in
      if lk_text lk then (l, count_drop s)
      else if \<not> list_all (\<lambda>b. b < 128) data \<or> length data > 512 - length (bl_text l) then (l\<lparr>bl_text := []\<rparr>, s)
      else (l\<lparr>bl_text := bl_text l @ data\<rparr>, s))"

definition trim_end_cr :: "u8 list \<Rightarrow> u8 list" where
  "trim_end_cr xs = rev (dropWhile (\<lambda>b. b = 13) (rev xs))"

text \<open>The first complete line is taken out of the buffer.\<close>

definition take_line :: "ble_locks \<Rightarrow> ble_link \<Rightarrow> u8 list option \<times> ble_link" where
  "take_line lk l =
     (if lk_text lk \<or> 10 \<notin> set (bl_text l) then (None, l)
      else let line = takeWhile (\<lambda>b. b \<noteq> 10) (bl_text l)
        in (Some (trim_end_cr line), l\<lparr>bl_text := drop (length line + 1) (bl_text l)\<rparr>))"

text \<open>What a connection leaves behind is cleared by the main loop; what is locked is retried.\<close>

definition clear_connection_buffers :: "ble_locks \<Rightarrow> ble_link \<Rightarrow> ble_link" where
  "clear_connection_buffers lk l =
     (if \<not> bl_dirty l then l
      else let l = l\<lparr>bl_dirty := False\<rparr>;
               l = (if lk_tx lk then l else l\<lparr>bl_tx := tx_clear (bl_tx l)\<rparr>);
               (slots_cleared, l) = clear_binary_rx_slots lk l;
               l = (if lk_text lk then l else l\<lparr>bl_text := []\<rparr>)
           in if \<not> lk_tx lk \<and> slots_cleared \<and> \<not> lk_text lk then l else l\<lparr>bl_dirty := True\<rparr>)"

section \<open>The ring as a list of frames\<close>

definition tx_list :: "tx_frame_ring \<Rightarrow> tx_frame list" where
  "tx_list r = ring_items BLE_TX_SLOT_COUNT (tr_slots r) (tr_head r) (tr_len r)"

definition tx_wf :: "tx_frame_ring \<Rightarrow> bool" where
  "tx_wf r \<longleftrightarrow> length (tr_slots r) = BLE_TX_SLOT_COUNT \<and> tr_head r < BLE_TX_SLOT_COUNT \<and>
     tr_len r \<le> BLE_TX_SLOT_COUNT \<and> list_all (\<lambda>f. tf_offset f \<le> length (tf_bytes f)) (tx_list r)"

text \<open>A queue of whole frames: what is pushed has offset 0, taking the front removes it.\<close>

definition tx_take :: "tx_frame_ring \<Rightarrow> u8 list option \<times> tx_frame_ring" where
  "tx_take r = (map_option tf_bytes (tx_front r), tx_pop_front r)"

lemma tx_list_length [simp]: "length (tx_list r) = tr_len r"
  by (simp add: tx_list_def)

lemma tx_push_list:
  assumes "tx_wf r" and "tr_len r < BLE_TX_SLOT_COUNT"
  shows "fst (tx_try_push f r) \<and> tx_list (snd (tx_try_push f r)) = tx_list r @ [\<lparr>tf_bytes = f, tf_offset = 0\<rparr>] \<and>
    tx_wf (snd (tx_try_push f r))"
proof -
  have l: "tx_list (snd (tx_try_push f r)) = tx_list r @ [\<lparr>tf_bytes = f, tf_offset = 0\<rparr>]"
    using assms ring_items_push [of "tr_slots r" 8 "tr_head r" "tr_len r"]
    by (simp add: tx_try_push_def tx_list_def tx_wf_def Let_def)
  then have "tx_wf (snd (tx_try_push f r))"
    unfolding tx_wf_def l using assms by (simp add: tx_wf_def tx_try_push_def Let_def)
  then show ?thesis using l assms by (simp add: tx_try_push_def Let_def)
qed

lemma tx_push_full: "tr_len r = BLE_TX_SLOT_COUNT \<Longrightarrow> tx_try_push f r = (False, r)"
  by (simp add: tx_try_push_def)

lemma tx_front_list: "tx_wf r \<Longrightarrow> tx_front r = (case tx_list r of [] \<Rightarrow> None | f # _ \<Rightarrow> Some f)"
  using ring_items_Cons [of "tr_len r" "tr_head r" 8 "tr_slots r"]
  by (auto simp: tx_front_def tx_list_def tx_wf_def)

lemma tx_pop_list:
  assumes "tx_wf r"
  shows "tx_list (tx_pop_front r) = tl (tx_list r) \<and> tx_wf (tx_pop_front r)"
proof (cases "tr_len r = 0")
  case True
  then show ?thesis using assms by (simp add: tx_pop_front_def tx_list_def)
next
  case False
  then have l: "tx_list (tx_pop_front r) = tl (tx_list r)"
    using assms ring_items_drop_head [of "tr_slots r" 8 "tr_head r" "tr_len r"]
    by (simp add: tx_pop_front_def tx_list_def tx_wf_def)
  have "tx_wf (tx_pop_front r)"
    unfolding tx_wf_def l using assms False
    by (cases "tx_list r") (auto simp: tx_wf_def tx_pop_front_def)
  then show ?thesis using l by simp
qed

interpretation tx: bounded_fifo "map tf_bytes \<circ> tx_list" BLE_TX_SLOT_COUNT tx_wf tx_try_push tx_take
proof
  fix r :: tx_frame_ring and f y :: "u8 list" and ys
  assume wf: "tx_wf r"
  show "length ((map tf_bytes \<circ> tx_list) r) \<le> 8" using wf by (simp add: tx_wf_def)
  show "tx_wf (snd (tx_try_push f r))"
    using tx_push_list [OF wf, of f] tx_push_full [of r f] wf by (cases "tr_len r = 8") (auto simp: tx_wf_def)
  show "tx_wf (snd (tx_take r))" using tx_pop_list [OF wf] by (simp add: tx_take_def)
  show "length ((map tf_bytes \<circ> tx_list) r) < 8 \<Longrightarrow>
      fst (tx_try_push f r) \<and> (map tf_bytes \<circ> tx_list) (snd (tx_try_push f r)) = (map tf_bytes \<circ> tx_list) r @ [f]"
    using tx_push_list [OF wf, of f] by simp
  show "length ((map tf_bytes \<circ> tx_list) r) = 8 \<Longrightarrow>
      \<not> fst (tx_try_push f r) \<and> (map tf_bytes \<circ> tx_list) (snd (tx_try_push f r)) = (map tf_bytes \<circ> tx_list) r"
    using tx_push_full [of r f] by simp
  show "(map tf_bytes \<circ> tx_list) r = [] \<Longrightarrow>
      fst (tx_take r) = None \<and> (map tf_bytes \<circ> tx_list) (snd (tx_take r)) = []"
    using tx_front_list [OF wf] tx_pop_list [OF wf] by (simp add: tx_take_def)
  show "(map tf_bytes \<circ> tx_list) r = y # ys \<Longrightarrow>
      fst (tx_take r) = Some y \<and> (map tf_bytes \<circ> tx_list) (snd (tx_take r)) = ys"
    using tx_front_list [OF wf] tx_pop_list [OF wf] by (auto simp: tx_take_def)
qed

section \<open>Notifications\<close>

definition pending_bytes :: "ble_link \<Rightarrow> u8 list" where
  "pending_bytes l = concat (map (\<lambda>f. drop (tf_offset f) (tf_bytes f)) (tx_list (bl_tx l)))"

text \<open>No frame is waiting with nothing left to send.\<close>

definition tx_live :: "ble_link \<Rightarrow> bool" where
  "tx_live l \<longleftrightarrow> tx_wf (bl_tx l) \<and> list_all (\<lambda>f. tf_offset f < length (tf_bytes f)) (tx_list (bl_tx l))"

lemma payload_limit_pos: "0 < payload_limit l"
  by (simp add: payload_limit_def)

lemma set_head_list:
  assumes "tx_wf r" and "tx_list r = f # fs"
  shows "tx_list (r\<lparr>tr_slots := (tr_slots r)[tr_head r := g]\<rparr>) = g # fs"
proof -
  have "tr_len r \<noteq> 0" using assms(2) by (metis tx_list_length length_0_conv list.distinct(1))
  then show ?thesis
    using assms ring_items_set_head [of "tr_slots r" 8 "tr_head r" "tr_len r" g] by (simp add: tx_list_def tx_wf_def)
qed

lemma pop_head_list:
  assumes "tx_wf r" and "tx_list r = f # fs"
  shows "tx_list (tx_pop_front (r\<lparr>tr_slots := (tr_slots r)[tr_head r := g]\<rparr>)) = fs \<and>
    tx_wf (tx_pop_front (r\<lparr>tr_slots := (tr_slots r)[tr_head r := g]\<rparr>))"
proof -
  have "tx_pop_front (r\<lparr>tr_slots := (tr_slots r)[tr_head r := g]\<rparr>) = tx_pop_front r"
  proof -
    have "tr_len r \<noteq> 0" using assms(2) by (metis tx_list_length length_0_conv list.distinct(1))
    then show ?thesis by (simp add: tx_pop_front_def)
  qed
  then show ?thesis using tx_pop_list [OF assms(1)] assms(2) by simp
qed

lemma notification_idle:
  assumes "\<not> bl_notify l \<or> bl_congested l \<or> lk_tx lk \<or> tx_list (bl_tx l) = [] \<or> \<not> submitted" and "tx_live l"
  shows "send_next_notification lk submitted same l = (None, l)"
  using assms tx_front_list [of "bl_tx l"]
  by (cases "tx_list (bl_tx l)") (auto simp: send_next_notification_def tx_live_def)

lemma notification_sent:
  assumes live: "tx_live l" and fs: "tx_list (bl_tx l) = f # fs"
    and go: "bl_notify l" "\<not> bl_congested l" "\<not> lk_tx lk"
  defines "chunk \<equiv> take (payload_limit l) (drop (tf_offset f) (tf_bytes f))"
  shows "\<exists>tx. send_next_notification lk True True l = (Some chunk, l\<lparr>bl_tx := tx\<rparr>) \<and> tx_live (l\<lparr>bl_tx := tx\<rparr>) \<and>
    pending_bytes l = chunk @ pending_bytes (l\<lparr>bl_tx := tx\<rparr>) \<and> chunk \<noteq> []"
proof -
  let ?r = "bl_tx l" let ?o = "tf_offset f + length chunk"
  let ?g = "f\<lparr>tf_offset := ?o\<rparr>"
  let ?r1 = "?r\<lparr>tr_slots := (tr_slots ?r)[tr_head ?r := ?g]\<rparr>"
  have wf: "tx_wf ?r" and off: "tf_offset f < length (tf_bytes f)"
    and rest: "list_all (\<lambda>f. tf_offset f < length (tf_bytes f)) fs"
    using live fs by (simp_all add: tx_live_def)
  have front: "tx_front ?r = Some f" using tx_front_list [OF wf] fs by simp
  have chunk: "chunk \<noteq> []" using off payload_limit_pos [of l] by (simp add: chunk_def)
  have split: "drop (tf_offset f) (tf_bytes f) = chunk @ drop ?o (tf_bytes f)"
    using append_take_drop_id [of "payload_limit l" "drop (tf_offset f) (tf_bytes f)"]
    by (simp add: chunk_def min_def add.commute)
  have res: "send_next_notification lk True True l =
      (Some chunk, l\<lparr>bl_tx := (if length (tf_bytes f) - ?o = 0 then tx_pop_front ?r1 else ?r1)\<rparr>)"
    using go front by (simp add: send_next_notification_def chunk_def Let_def)
  show ?thesis
  proof (cases "length (tf_bytes f) - ?o = 0")
    case True
    have "tx_live (l\<lparr>bl_tx := tx_pop_front ?r1\<rparr>)"
      using pop_head_list [OF wf fs, of ?g] rest by (simp add: tx_live_def)
    moreover have "pending_bytes l = chunk @ pending_bytes (l\<lparr>bl_tx := tx_pop_front ?r1\<rparr>)"
      using pop_head_list [OF wf fs, of ?g] fs split True by (simp add: pending_bytes_def)
    ultimately show ?thesis using res chunk True by auto
  next
    case False
    have l: "tx_list ?r1 = ?g # fs" by (rule set_head_list [OF wf fs])
    have "tx_wf ?r1" using wf rest False unfolding tx_wf_def l by (auto simp: list_all_iff)
    then have "tx_live (l\<lparr>bl_tx := ?r1\<rparr>)" using rest False by (simp add: tx_live_def l)
    moreover have "pending_bytes l = chunk @ pending_bytes (l\<lparr>bl_tx := ?r1\<rparr>)"
      using fs split by (simp add: pending_bytes_def l)
    ultimately show ?thesis using res chunk False by auto
  qed
qed

text \<open>The ticks of one connection: in each, the stack takes the notification or refuses it.\<close>

fun run_notifications :: "(ble_locks \<times> bool) list \<Rightarrow> ble_link \<Rightarrow> u8 list list \<times> ble_link" where
  "run_notifications [] l = ([], l)"
| "run_notifications ((lk, submitted) # es) l =
     (let (sent, l) = send_next_notification lk submitted True l; (cs, l) = run_notifications es l
      in (case sent of None \<Rightarrow> cs | Some c \<Rightarrow> c # cs, l))"

lemma run_notifications_stream:
  assumes "tx_live l" and "run_notifications es l = (cs, l')"
  shows "concat cs @ pending_bytes l' = pending_bytes l \<and> (\<forall>c \<in> set cs. c \<noteq> [] \<and> length c \<le> payload_limit l) \<and>
    tx_live l' \<and> (bl_notify l \<and> \<not> bl_congested l \<and> length (pending_bytes l) \<le> length (filter (\<lambda>(lk, ok). ok \<and> \<not> lk_tx lk) es) \<longrightarrow>
      pending_bytes l' = [])"
  using assms
proof (induction es arbitrary: l cs l')
  case Nil
  then show ?case by simp
next
  case (Cons e es)
  obtain lk ok where e: "e = (lk, ok)" by (cases e)
  obtain sent l1 where step: "send_next_notification lk ok True l = (sent, l1)" by fastforce
  obtain cs1 l2 where run: "run_notifications es l1 = (cs1, l2)" by fastforce
  have out: "cs = (case sent of None \<Rightarrow> cs1 | Some c \<Rightarrow> c # cs1)" "l' = l2"
    using Cons.prems(2) by (simp_all add: e step run)
  show ?case
  proof (cases "\<not> bl_notify l \<or> bl_congested l \<or> lk_tx lk \<or> tx_list (bl_tx l) = [] \<or> \<not> ok")
    case True
    then have "sent = None" "l1 = l"
      using notification_idle [of l lk ok True] Cons.prems(1) step by auto
    moreover have "tx_list (bl_tx l) = [] \<Longrightarrow> pending_bytes l = []" by (simp add: pending_bytes_def)
    ultimately show ?thesis using Cons.IH [OF Cons.prems(1), of cs1 l2] run out True e by auto
  next
    case False
    then obtain f fs where fs: "tx_list (bl_tx l) = f # fs" by (cases "tx_list (bl_tx l)") auto
    let ?c = "take (payload_limit l) (drop (tf_offset f) (tf_bytes f))"
    obtain tx where sent: "sent = Some ?c" and l1: "l1 = l\<lparr>bl_tx := tx\<rparr>" and live: "tx_live l1"
      and pend: "pending_bytes l = ?c @ pending_bytes l1" and c: "?c \<noteq> []"
      using notification_sent [OF Cons.prems(1) fs, of lk] False step by auto
    have lim: "payload_limit l1 = payload_limit l" by (simp add: l1 payload_limit_def)
    have "length (pending_bytes l) \<ge> Suc (length (pending_bytes l1))" using pend c by (cases ?c) auto
    then show ?thesis
      using Cons.IH [OF live run] pend c sent out False e lim by (auto simp: l1)
  qed
qed

section \<open>Reassembly\<close>

definition is_ble_frame :: "u8 list \<Rightarrow> bool" where
  "is_ble_frame f \<longleftrightarrow> binary_frame_total_len f = Some (length f)"

text \<open>A well-formed set of slots: there are four, and the active one, if any, is one of them.\<close>

lemma is_ble_frame_length: "is_ble_frame f \<Longrightarrow> 10 \<le> length f \<and> length f \<le> BLE_BINARY_FRAME_MAX"
  by (auto simp: is_ble_frame_def binary_frame_total_len_def Let_def split: if_splits)

lemma total_len_prefix:
  "6 \<le> length rx \<Longrightarrow> binary_frame_total_len (rx @ ys) = binary_frame_total_len rx"
  by (simp add: binary_frame_total_len_def nth_append)

lemma feed_slot_more:
  assumes f: "is_ble_frame (pre @ data @ ys)" and ys: "ys \<noteq> []"
    and i: "i < length (bl_slots l)" "length (bl_slots l) = 4" and sl: "sl_frame (bl_slots l ! i) = pre"
  shows "feed_slot no_locks data (of_nat i) (l, s) = (set_slot i ((bl_slots l ! i)\<lparr>sl_frame := pre @ data\<rparr>) l, s)"
proof -
  have u: "unat (of_nat i :: u8) = i" using i by (simp add: unat_of_nat)
  have short: "length pre + length data < length (pre @ data @ ys)" using ys by simp
  have tot: "6 \<le> length (pre @ data) \<Longrightarrow> binary_frame_total_len (pre @ data) = Some (length (pre @ data @ ys))"
    using total_len_prefix [of "pre @ data" ys] f by (simp add: is_ble_frame_def)
  show ?thesis
    using i sl short is_ble_frame_length [OF f] tot
    by (cases "6 \<le> length (pre @ data)") (simp_all add: feed_slot_def u no_locks_def Let_def)
qed

lemma feed_slot_last:
  assumes f: "is_ble_frame (pre @ data)" and i: "i < length (bl_slots l)" "length (bl_slots l) = 4"
    and sl: "sl_frame (bl_slots l ! i) = pre" and room: "length (bl_requests l) < 4"
  shows "feed_slot no_locks data (of_nat i) (l, s) =
    (set_slot i ((bl_slots l ! i)\<lparr>sl_frame := pre @ data, sl_state := RxReady\<rparr>) l
       \<lparr>bl_active := BLE_SLOT_NONE, bl_requests := bl_requests l @ [of_nat i]\<rparr>, s)"
proof -
  have u: "unat (of_nat i :: u8) = i" using i by (simp add: unat_of_nat)
  have tot: "binary_frame_total_len (pre @ data) = Some (length (pre @ data))" using f by (simp add: is_ble_frame_def)
  show ?thesis
    using i sl is_ble_frame_length [OF f] tot room
    by (simp add: feed_slot_def u no_locks_def Let_def set_slot_def try_enqueue_request_def mpsc_try_enqueue_def)
qed

text \<open>The writes of a client, one after the other.\<close>

definition feed_all :: "u16 \<Rightarrow> u8 list list \<Rightarrow> ble_link \<times> bus_state \<Rightarrow> ble_link \<times> bus_state" where
  "feed_all conn ds ls = foldl (\<lambda>ls d. snd (try_feed_binary_protocol no_locks d conn ls)) ls ds"

lemma feed_active:
  "bl_active l \<noteq> BLE_SLOT_NONE \<Longrightarrow>
    try_feed_binary_protocol no_locks d conn (l, s) = (True, feed_slot no_locks d (bl_active l) (l, s))"
  by (simp add: try_feed_binary_protocol_def)

lemma slot_index_ne_none: "i < 4 \<Longrightarrow> (of_nat i :: u8) \<noteq> BLE_SLOT_NONE"
proof
  assume i: "i < 4" and eq: "(of_nat i :: u8) = 255"
  have "unat (of_nat i :: u8) = i" using i by (simp add: unat_of_nat)
  then show False using i unfolding eq by simp
qed

lemma feed_rest:
  assumes "is_ble_frame (pre @ concat ds)" and "\<forall>d \<in> set ds. d \<noteq> []" and "ds \<noteq> []"
    and "bl_active l = of_nat i" and "i < 4" and "length (bl_slots l) = 4"
    and "sl_frame (bl_slots l ! i) = pre" and "length (bl_requests l) < 4"
  shows "feed_all conn ds (l, s) =
    (set_slot i ((bl_slots l ! i)\<lparr>sl_frame := pre @ concat ds, sl_state := RxReady\<rparr>) l
       \<lparr>bl_active := BLE_SLOT_NONE, bl_requests := bl_requests l @ [of_nat i]\<rparr>, s)"
  using assms
proof (induction ds arbitrary: pre l)
  case Nil
  then show ?case by simp
next
  case (Cons d ds)
  have act: "bl_active l \<noteq> BLE_SLOT_NONE" using slot_index_ne_none [OF Cons.prems(5)] Cons.prems(4) by simp
  show ?case
  proof (cases "ds = []")
    case True
    then show ?thesis
      using feed_slot_last [of pre d i l s] Cons.prems by (simp add: feed_all_def feed_active [OF act])
  next
    case False
    then have ne: "concat ds \<noteq> []" using Cons.prems(2) by (cases ds) auto
    let ?l = "set_slot i ((bl_slots l ! i)\<lparr>sl_frame := pre @ d\<rparr>) l"
    have step: "feed_slot no_locks d (of_nat i) (l, s) = (?l, s)"
      using feed_slot_more [of pre d "concat ds" i l s] Cons.prems ne by simp
    have "feed_all conn (d # ds) (l, s) = feed_all conn ds (?l, s)"
      using Cons.prems(4) by (simp add: feed_all_def feed_active [OF act] step)
    also have "\<dots> = (set_slot i ((bl_slots ?l ! i)\<lparr>sl_frame := (pre @ d) @ concat ds, sl_state := RxReady\<rparr>) ?l
        \<lparr>bl_active := BLE_SLOT_NONE, bl_requests := bl_requests ?l @ [of_nat i]\<rparr>, s)"
      by (rule Cons.IH) (use Cons.prems False in \<open>simp_all add: set_slot_def\<close>)
    finally show ?thesis using Cons.prems by (simp add: set_slot_def)
  qed
qed

lemma claim_first_free:
  assumes "\<forall>j \<in> set xs. sl_state (bl_slots l ! j) \<noteq> RxFree" and "sl_state (bl_slots l ! i) = RxFree"
  shows "claim_loop no_locks conn (xs @ i # ys) l =
    (Some i, set_slot i \<lparr>sl_state = RxAssembling, sl_frame = [], sl_conn = conn, sl_epoch = bl_epoch l\<rparr> l)"
  using assms by (induction xs) (auto simp: no_locks_def)

lemma fragments_reassembled:
  assumes f: "is_ble_frame (concat ds)" and ne: "\<forall>d \<in> set ds. d \<noteq> []" and bin: "\<not> starts_like_text (hd ds)"
    and idle: "bl_active l = BLE_SLOT_NONE" and n: "length (bl_slots l) = 4" and i: "i < 4"
    and free: "sl_state (bl_slots l ! i) = RxFree" and first: "\<forall>j < i. sl_state (bl_slots l ! j) \<noteq> RxFree"
    and room: "length (bl_requests l) < 4"
  shows "feed_all conn ds (l, s) =
    (l\<lparr>bl_slots := (bl_slots l)[i := \<lparr>sl_state = RxReady, sl_frame = concat ds, sl_conn = conn, sl_epoch = bl_epoch l\<rparr>],
       bl_requests := bl_requests l @ [of_nat i]\<rparr>, s)"
proof -
  obtain d es where ds: "ds = d # es" using is_ble_frame_length [OF f] by (cases ds) auto
  let ?sl = "\<lparr>sl_state = RxAssembling, sl_frame = [], sl_conn = conn, sl_epoch = bl_epoch l\<rparr>"
  let ?l = "(set_slot i ?sl l)\<lparr>bl_active := of_nat i\<rparr>"
  have "[0..<4::nat] = [0..<i] @ i # [Suc i..<4]"
    using i upt_add_eq_append [of 0 i "4 - i"] by (simp add: upt_conv_Cons)
  then have claim: "claim_binary_rx_slot no_locks conn l = (Some i, set_slot i ?sl l)"
    using claim_first_free [of "[0..<i]" l i conn "[Suc i..<4]"] free first n by (simp add: claim_binary_rx_slot_def)
  have act: "bl_active ?l \<noteq> BLE_SLOT_NONE" using slot_index_ne_none [OF i] by simp
  have "snd (try_feed_binary_protocol no_locks d conn (l, s)) = feed_slot no_locks d (of_nat i) (?l, s)"
    using bin ds idle claim by (simp add: try_feed_binary_protocol_def)
  then have "feed_all conn ds (l, s) = feed_all conn ds (?l, s)"
    unfolding ds by (simp add: feed_all_def feed_active [OF act])
  also have "\<dots> = (set_slot i ((bl_slots ?l ! i)\<lparr>sl_frame := [] @ concat ds, sl_state := RxReady\<rparr>) ?l
      \<lparr>bl_active := BLE_SLOT_NONE, bl_requests := bl_requests ?l @ [of_nat i]\<rparr>, s)"
    by (rule feed_rest) (use f ne ds i n room in \<open>simp_all add: set_slot_def\<close>)
  also have "\<dots> = (l\<lparr>bl_slots := (bl_slots l)[i := \<lparr>sl_state = RxReady, sl_frame = concat ds, sl_conn = conn, sl_epoch = bl_epoch l\<rparr>],
       bl_requests := bl_requests l @ [of_nat i]\<rparr>, s)"
    using i n idle by (simp add: set_slot_def)
  finally show ?thesis .
qed

text \<open>A small frame and an idle link for the examples.\<close>

definition sample_frame :: "u8 list" where
  "sample_frame = [0, 1, 0, 0, 0, 2, 1, 17, 7, 8]"

lemma sample_frame_ok: "is_ble_frame sample_frame"
  by (simp add: is_ble_frame_def binary_frame_total_len_def sample_frame_def be16_def)

definition sample_link :: ble_link where
  "sample_link = snd (enqueue_tx_frame no_locks sample_frame (ble_link_new\<lparr>bl_notify := True\<rparr>))"

lemma sample_link_tx: "tx_list (bl_tx sample_link) = [\<lparr>tf_bytes = sample_frame, tf_offset = 0\<rparr>]" "tx_wf (bl_tx sample_link)"
proof -
  have wf: "tx_wf tx_ring_new" by (simp add: tx_wf_def tx_ring_new_def tx_list_def)
  have e: "tx_list tx_ring_new = []" "tr_len tx_ring_new < 8" by (simp_all add: tx_list_def tx_ring_new_def)
  have "bl_tx sample_link = snd (tx_try_push sample_frame tx_ring_new)"
    by (simp add: sample_link_def enqueue_tx_frame_def no_locks_def ble_link_new_def split_beta)
  then show "tx_list (bl_tx sample_link) = [\<lparr>tf_bytes = sample_frame, tf_offset = 0\<rparr>]" "tx_wf (bl_tx sample_link)"
    using tx_push_list [OF wf e(2), of sample_frame] e(1) by simp_all
qed

section \<open>Correctness\<close>

text \<open>What the client receives is the stream of frames.  Over any sequence of ticks in which locks may be held
  and the stack may refuse, the notifications taken, followed by the bytes still queued, are the bytes that
  were queued, in order and without loss or repetition; no notification is empty or longer than the
  connection allows; and once as many ticks succeed as there are bytes, nothing is left.\<close>

theorem notifications_are_the_stream:
  assumes "tx_live l" and "run_notifications es l = (cs, l')"
  shows "concat cs @ pending_bytes l' = pending_bytes l \<and> (\<forall>c \<in> set cs. c \<noteq> [] \<and> length c \<le> payload_limit l) \<and>
    (bl_notify l \<and> \<not> bl_congested l \<and> length (pending_bytes l) \<le> length (filter (\<lambda>(lk, ok). ok \<and> \<not> lk_tx lk) es) \<longrightarrow>
      concat cs = pending_bytes l \<and> pending_bytes l' = [])"
  using run_notifications_stream [OF assms] by auto

theorem notifications_are_the_stream_witness:
  "\<exists>cs l'. run_notifications (replicate 10 (no_locks, True)) sample_link = (cs, l') \<and> concat cs = sample_frame"
proof -
  obtain cs l' where run: "run_notifications (replicate 10 (no_locks, True)) sample_link = (cs, l')" by fastforce
  have live: "tx_live sample_link"
    using sample_link_tx by (simp add: tx_live_def sample_frame_def)
  have "pending_bytes sample_link = sample_frame" by (simp add: pending_bytes_def sample_link_tx)
  moreover have "length sample_frame = 10" "bl_notify sample_link" "\<not> bl_congested sample_link"
    by (simp_all add: sample_frame_def sample_link_def enqueue_tx_frame_def no_locks_def ble_link_new_def split_beta)
  ultimately show ?thesis
    using notifications_are_the_stream [OF live run] run by (auto simp: no_locks_def)
qed

text \<open>C32: A request arrives whole, however the client cuts it.  When the first write does not look like a text
  command, any division of a frame into non-empty writes leaves exactly the frame in the first free
  slot, ready and queued for the main loop, and changes nothing else.\<close>

theorem fragments_become_the_request:
  assumes "is_ble_frame (concat ds)" and "\<forall>d \<in> set ds. d \<noteq> []" and "\<not> starts_like_text (hd ds)"
    and "bl_active l = BLE_SLOT_NONE" and "length (bl_slots l) = 4" and "i < 4"
    and "sl_state (bl_slots l ! i) = RxFree" and "\<forall>j < i. sl_state (bl_slots l ! j) \<noteq> RxFree"
    and "length (bl_requests l) < 4"
  shows "feed_all conn ds (l, s) =
    (l\<lparr>bl_slots := (bl_slots l)[i := \<lparr>sl_state = RxReady, sl_frame = concat ds, sl_conn = conn, sl_epoch = bl_epoch l\<rparr>],
       bl_requests := bl_requests l @ [of_nat i]\<rparr>, s)"
  by (rule fragments_reassembled [OF assms])

theorem fragments_become_the_request_witness:
  "feed_all 7 [[0, 1, 0], [0, 0, 2, 1], [17, 7, 8]] (ble_link_new, bus_start env_idle) =
    (ble_link_new\<lparr>bl_slots := (replicate 4 rx_slot_new)[0 := \<lparr>sl_state = RxReady, sl_frame = sample_frame, sl_conn = 7, sl_epoch = 0\<rparr>],
       bl_requests := [0]\<rparr>, bus_start env_idle)"
  using fragments_become_the_request [of "[[0, 1, 0], [0, 0, 2, 1], [17, 7, 8]]" ble_link_new 0 7 "bus_start env_idle"]
    sample_frame_ok
  by (simp add: sample_frame_def starts_like_text_def ble_link_new_def rx_slot_new_def)

end
