(* ===== verification/Ble_Logic.thy ===== *)
theory Ble_Logic imports Bus_Safety Rtu_Master begin

text \<open>
  The logic configuration commands of the handheld (\<open>src/ble_at/logic_handlers.rs\<close>): 0xD0 stores the
  configuration of a device type, 0xD1 reads it back, 0xD2 removes all and 0xD3 reports the inputs and
  outputs.  Type 0x01 is the table of device functions in the register map, types 0x20 and 0x21 the serial ports;
  the others are blobs in the key-value flash.
\<close>

abbreviation (input) CFG_VALID_FLAG :: u8 where "CFG_VALID_FLAG \<equiv> 0x55"
abbreviation (input) SUB_DEVICE_01 :: u8 where "SUB_DEVICE_01 \<equiv> 0x01"
abbreviation (input) SUB_RS485_01 :: u8 where "SUB_RS485_01 \<equiv> 0x20"
abbreviation (input) SUB_RS485_02 :: u8 where "SUB_RS485_02 \<equiv> 0x21"
abbreviation (input) SUB_COM_INPUT_ANS :: u8 where "SUB_COM_INPUT_ANS \<equiv> 0x27"
abbreviation (input) SUB_COM_OUTPUT_ANS :: u8 where "SUB_COM_OUTPUT_ANS \<equiv> 0x28"

type_synonym logic_state = "bus_state \<times> nvs option"

section \<open>Configurations in flash\<close>

definition hex_digit :: "nat \<Rightarrow> char" where
  "hex_digit n = (''0123456789abcdef'' ! n)"

definition nvs_key_for :: "u8 \<Rightarrow> string" where
  "nvs_key_for sub = ''cfg_'' @ [hex_digit (unat sub div 16), hex_digit (unat sub mod 16)]"

definition store_config :: "(string \<Rightarrow> nvs_outcome) \<Rightarrow> u8 \<Rightarrow> u8 list \<Rightarrow> nvs option \<Rightarrow> bool \<times> nvs option" where
  "store_config oc sub data nv =
     (if 2 + length data > 256 then (False, nv)
      else case nv of
        None \<Rightarrow> (False, None)
      | Some m \<Rightarrow>
          let key = nvs_key_for sub in
          (case nvs_put (oc key) key (NvBlob (CFG_VALID_FLAG # of_nat (length data) # data)) m of
             (Inr _, m) \<Rightarrow> (True, Some m)
           | (Inl _, m) \<Rightarrow> (False, Some m)))"

definition load_logic_config :: "u8 \<Rightarrow> nvs option \<Rightarrow> u8 list option" where
  "load_logic_config sub nv =
     (case nv of
        None \<Rightarrow> None
      | Some m \<Rightarrow>
          (case nvs_blob m (nvs_key_for sub) 256 of
             Inr (Some blob) \<Rightarrow>
               if length blob < 2 \<or> blob ! 0 \<noteq> CFG_VALID_FLAG then None
               else let len = unat (blob ! 1) in
                 if length blob < 2 + len then None else Some (slice blob 2 (2 + len))
           | _ \<Rightarrow> None))"

fun delete_configs :: "(string \<Rightarrow> nvs_outcome) \<Rightarrow> u8 list \<Rightarrow> nvs option \<Rightarrow> nvs option" where
  "delete_configs oc [] nv = nv"
| "delete_configs oc (sub # subs) nv =
     delete_configs oc subs (map_option (\<lambda>m. snd (nvs_remove (oc (nvs_key_for sub)) (nvs_key_for sub) m)) nv)"

definition delete_all_configs :: "(string \<Rightarrow> nvs_outcome) \<Rightarrow> nvs option \<Rightarrow> bool \<times> nvs option" where
  "delete_all_configs oc nv = (True, delete_configs oc (map of_nat [0..<41]) nv)"

section \<open>The table of device functions\<close>

text \<open>The bytes of a record as little-endian words; \<open>None\<close> when the words are full.\<close>

fun push_record :: "u8 list \<Rightarrow> u16 list \<Rightarrow> u16 list option" where
  "push_record [] ws = Some ws"
| "push_record [a] ws = (if length ws \<ge> HOLD_PXX_COUNT then None else Some (ws @ [le16 a 0]))"
| "push_record (a # b # rest) ws =
     (if length ws \<ge> HOLD_PXX_COUNT then None else push_record rest (ws @ [le16 a b]))"

fun store_records :: "u8 list \<Rightarrow> nat list \<Rightarrow> nat \<times> nat \<times> u16 list \<Rightarrow> (nat \<times> nat \<times> u16 list) option" where
  "store_records data [] st = Some st"
| "store_records data (index # rest) (pos, data_word, ws) =
     (case get_opt data pos of
        None \<Rightarrow> None
      | Some len_byte \<Rightarrow>
          let len = unat len_byte in
          if len = 0 \<or> pos + len > length data then None
          else if data_word \<ge> HOLD_PXX_COUNT then None
          else let pointer = unat HOLD_DEVICE_CONFIG + data_word in
          if pointer > 65535 then None
          else case push_record (slice data pos (pos + len)) (ws[index + 1 := of_nat pointer]) of
            None \<Rightarrow> None
          | Some ws \<Rightarrow> store_records data rest (pos + len, data_word + div_ceil len 2, ws))"

definition device_function_words :: "u8 list \<Rightarrow> u16 list option" where
  "device_function_words data =
     (if length data < 2 then None
      else let cnt = unat (le16 (data ! 0) (data ! 1)) in
      if cnt = 0 \<or> cnt > 255 then None
      else let table_words = cnt + 2 in
      if table_words \<ge> HOLD_PXX_COUNT then None
      else case store_records data [0..<cnt] (2, table_words, (replicate table_words 0)[0 := of_nat cnt]) of
        None \<Rightarrow> None
      | Some (_, data_word, ws) \<Rightarrow>
          if data_word > 65535 \<or> data_word \<ge> HOLD_PXX_COUNT then None
          else Some (ws[cnt + 1 := of_nat data_word]))"

definition store_device_function_config :: "u8 list \<Rightarrow> bus_state \<Rightarrow> bool \<times> bus_state" where
  "store_device_function_config data s =
     (case device_function_words data of
        None \<Rightarrow> (False, s)
      | Some ws \<Rightarrow>
          (case write_hold_regs HOLD_DEVICE_CONFIG ws (arm_logic_write s) of
             (False, s) \<Rightarrow> (False, disarm_logic_write s)
           | (True, s) \<Rightarrow> save_holding s))"

text \<open>The inner loop of the read: the bytes of one record, low byte first.\<close>

fun load_record :: "bus_state \<Rightarrow> u16 \<Rightarrow> nat list \<Rightarrow> u8 list option" where
  "load_record s pointer [] = Some []"
| "load_record s pointer (k # ks) =
     (case read_hold_reg s (pointer + of_nat (k div 2)) of
        None \<Rightarrow> None
      | Some word \<Rightarrow> map_option ((#) (if k mod 2 = 0 then lo8 word else hi8 word)) (load_record s pointer ks))"

fun load_records :: "bus_state \<Rightarrow> nat list \<Rightarrow> u8 list \<Rightarrow> u8 list option" where
  "load_records s [] out = Some out"
| "load_records s (index # rest) out =
     (case read_hold_reg s (HOLD_DEVICE_CONFIG + 1 + of_nat index) of
        None \<Rightarrow> None
      | Some pointer \<Rightarrow>
          (case read_hold_reg s pointer of
             None \<Rightarrow> None
           | Some word \<Rightarrow>
               let len = unat (word AND 0xFF) in
               if len = 0 \<or> length out + len > 254 then None
               else case load_record s pointer [0..<len] of
                 None \<Rightarrow> None
               | Some bytes \<Rightarrow> load_records s rest (out @ bytes)))"

definition load_device_function_config :: "bus_state \<Rightarrow> u8 list option" where
  "load_device_function_config s =
     (case read_hold_reg s HOLD_DEVICE_CONFIG of
        None \<Rightarrow> None
      | Some w \<Rightarrow>
          let cnt = unat w in
          if cnt = 0 \<or> cnt > 255 then None
          else load_records s [0..<cnt] (le_bytes (of_nat cnt)))"

section \<open>Serial ports\<close>

definition rs485_sub_base :: "u8 \<Rightarrow> u16 option" where
  "rs485_sub_base sub =
     (if sub = SUB_RS485_01 then Some HOLD_RS485_BASE
      else if sub = SUB_RS485_02 then Some (HOLD_RS485_BASE + HOLD_RS485_STRIDE) else None)"

fun le_words :: "u8 list \<Rightarrow> u16 list" where
  "le_words (a # b # rest) = le16 a b # le_words rest"
| "le_words _ = []"

definition store_rs485_config :: "u8 \<Rightarrow> u8 list \<Rightarrow> bus_state \<Rightarrow> bool \<times> bus_state" where
  "store_rs485_config sub data s =
     (if length data \<noteq> 10 then (False, s)
      else case rs485_sub_base sub of
        None \<Rightarrow> (False, s)
      | Some base \<Rightarrow> write_hold_regs base (le_words data) s)"

definition load_rs485_config :: "u8 \<Rightarrow> bus_state \<Rightarrow> u8 list option" where
  "load_rs485_config sub s =
     (case rs485_sub_base sub of
        None \<Rightarrow> None
      | Some base \<Rightarrow>
          map_option (\<lambda>ws. concat (map le_bytes ws))
            (those (map (\<lambda>offset. read_hold_reg s (base + of_nat offset)) [0..<5])))"

section \<open>Commands\<close>

definition build_ack :: "u8 \<Rightarrow> u8 \<Rightarrow> u8 \<Rightarrow> u8 list" where
  "build_ack cmd sub status = [cmd, sub, status]"

definition handle_logic_config :: "(string \<Rightarrow> nvs_outcome) \<Rightarrow> u8 list \<Rightarrow> logic_state \<Rightarrow> u8 list option \<times> logic_state" where
  "handle_logic_config oc data ls =
     (if length data < 2 then (None, ls)
      else let (s, nv) = ls; sub = data ! 0; payload = drop 1 data;
             (success, s, nv) =
               (if sub = SUB_DEVICE_01
                  then let (ok, s) = store_device_function_config payload s in (ok, s, nv)
                else if sub = SUB_RS485_01 \<or> sub = SUB_RS485_02
                  then let (ok, s) = store_rs485_config sub payload s in (ok, s, nv)
                else if sub \<le> 0x22 \<or> sub = 0x23 \<or> sub = 0x24 \<or> sub = 0x26
                  then let (ok, nv) = store_config oc sub payload nv in (ok, s, nv)
                else (False, s, nv))
           in (Some (build_ack 0xD0 sub (if success then 0 else 0x84)), s, nv))"

definition handle_logic_retrieve :: "u8 list \<Rightarrow> logic_state \<Rightarrow> u8 list option" where
  "handle_logic_retrieve data ls =
     (case data of
        [] \<Rightarrow> None
      | sub # _ \<Rightarrow>
          (case (if sub = SUB_DEVICE_01 then load_device_function_config (fst ls)
                 else if sub = SUB_RS485_01 \<or> sub = SUB_RS485_02 then load_rs485_config sub (fst ls)
                 else load_logic_config sub (snd ls)) of
             Some cfg \<Rightarrow> if 2 + length cfg > 256 then None else Some (0xD1 # sub # cfg)
           | None \<Rightarrow> Some (build_ack 0xD1 sub 0x84)))"

definition handle_delete_config :: "(string \<Rightarrow> nvs_outcome) \<Rightarrow> logic_state \<Rightarrow> u8 list option \<times> logic_state" where
  "handle_delete_config oc ls =
     (let (s, nv) = ls; (success, nv) = delete_all_configs oc nv
      in (Some (build_ack 0xD2 0 (if success then 0 else 0x84)), s, nv))"

text \<open>One byte of a point map: eight channels, the highest of the group first, left-aligned when short.\<close>

definition packed_group :: "(nat \<Rightarrow> bool) \<Rightarrow> nat \<Rightarrow> nat \<Rightarrow> u8" where
  "packed_group get cnt group_start =
     (let group_len = min (cnt - group_start) 8;
          byte = foldl (\<lambda>byte offset. push_bit 1 byte OR of_bool (get (cnt - group_start - 1 - offset))) 0
            [0..<group_len]
      in if group_len < 8 then push_bit (8 - group_len) byte else byte)"

definition read_io_bitmap :: "bool \<Rightarrow> bus_state \<Rightarrow> u8 list" where
  "read_io_bitmap is_di s =
     (let cnt = (if is_di then DI_COUNT else DO_COUNT) in
      map (\<lambda>g. packed_group (get_bit (if is_di then io_di (bus_io s) else io_do (bus_io s))) cnt (8 * g))
        [0..<div_ceil cnt 8])"

definition com_request_frames :: "bus_state \<Rightarrow> u8 list list" where
  "com_request_frames s =
     [0xD3 # SUB_COM_INPUT_ANS # read_io_bitmap True s, 0xD3 # SUB_COM_OUTPUT_ANS # read_io_bitmap False s]"

definition handle_com_request :: "bus_state \<Rightarrow> u8 list option" where
  "handle_com_request s = Some (concat (com_request_frames s))"

definition dispatch_logic_cmd :: "(string \<Rightarrow> nvs_outcome) \<Rightarrow> u8 \<Rightarrow> u8 list \<Rightarrow> logic_state \<Rightarrow>
    u8 list option \<times> logic_state" where
  "dispatch_logic_cmd oc func data ls =
     (if func = 0xD0 then handle_logic_config oc data ls
      else if func = 0xD1 then (handle_logic_retrieve data ls, ls)
      else if func = 0xD2 then handle_delete_config oc ls
      else if func = 0xD3 then (handle_com_request (fst ls), ls)
      else (None, ls))"

section \<open>The layout of the table in memory\<close>

text \<open>A table is the number of records and the records, each with its length as first byte.\<close>

definition is_record :: "u8 list \<Rightarrow> bool" where
  "is_record r \<longleftrightarrow> r \<noteq> [] \<and> unat (hd r) = length r"

definition legacy_packet :: "u8 list list \<Rightarrow> u8 list" where
  "legacy_packet recs = le_bytes (of_nat (length recs)) @ concat recs"

fun record_words :: "u8 list \<Rightarrow> u16 list" where
  "record_words [] = []"
| "record_words [a] = [le16 a 0]"
| "record_words (a # b # rest) = le16 a b # record_words rest"

fun record_starts :: "nat \<Rightarrow> u8 list list \<Rightarrow> nat list" where
  "record_starts d [] = []"
| "record_starts d (r # rs) = d # record_starts (d + div_ceil (length r) 2) rs"

definition records_end :: "nat \<Rightarrow> u8 list list \<Rightarrow> nat" where
  "records_end d rs = d + length (concat (map record_words rs))"

definition stored_table :: "u8 list list \<Rightarrow> u16 list" where
  "stored_table recs =
     (let n = length recs in
      of_nat n # map (\<lambda>k. of_nat (unat HOLD_DEVICE_CONFIG + k)) (record_starts (n + 2) recs) @
        of_nat (records_end (n + 2) recs) # concat (map record_words recs))"

lemma div_ceil_2: "div_ceil n 2 = (n + 1) div 2"
  by (simp add: div_ceil_def)

lemma length_record_words [simp]: "length (record_words r) = div_ceil (length r) 2"
  by (induction r rule: record_words.induct) (auto simp: div_ceil_2)

lemma length_record_starts [simp]: "length (record_starts d rs) = length rs"
  by (induction rs arbitrary: d) auto

lemma records_end_simps [simp]:
  "records_end d [] = d"
  "records_end d (r # rs) = records_end (d + div_ceil (length r) 2) rs"
  by (simp_all add: records_end_def)

lemma push_record_words:
  "length ws + div_ceil (length r) 2 \<le> HOLD_PXX_COUNT \<Longrightarrow> push_record r ws = Some (ws @ record_words r)"
proof (induction r ws rule: push_record.induct)
  case (3 a b rest ws)
  then show ?case by (simp add: div_ceil_2)
qed (auto simp: div_ceil_2)

lemma record_word_byte:
  "k < length r \<Longrightarrow> (if k mod 2 = 0 then lo8 (record_words r ! (k div 2)) else hi8 (record_words r ! (k div 2))) = r ! k"
proof (induction r arbitrary: k rule: record_words.induct)
  case (2 a)
  then show ?case by (simp add: le16_def)
next
  case (3 a b rest)
  show ?case
  proof (cases "k < 2")
    case True
    then consider "k = 0" | "k = 1" by linarith
    then show ?thesis by cases (simp_all add: le16_def)
  next
    case False
    then obtain j where k: "k = j + 2" by (metis add.commute le_Suc_ex linorder_not_less)
    then have "j < length rest" using 3 by simp
    from 3(1) [OF this] show ?thesis unfolding k by (simp split: if_splits)
  qed
qed simp

lemma copy_at_Cons:
  assumes "i < length ws" and "i + 1 + length xs \<le> length ws"
  shows "copy_at (ws[i := x] @ ys) (i + 1) xs = copy_at ws i (x # xs) @ ys"
proof -
  have "take (i + 1) (ws[i := x] @ ys) = take i ws @ [x]"
    using assms by (simp add: take_Suc_conv_app_nth)
  moreover have "drop (i + 1 + length xs) (ws[i := x] @ ys) = drop (i + 1 + length xs) ws @ ys"
    using assms by simp
  ultimately show ?thesis by (simp add: copy_at_def)
qed

lemma store_records_words:
  assumes "\<forall>r \<in> set rs. is_record r" and "pos \<le> length data" and "drop pos data = concat rs" and "length ws = d"
    and "i + 1 + length rs \<le> length ws" and "records_end d rs \<le> HOLD_PXX_COUNT"
  shows "store_records data [i..<i + length rs] (pos, d, ws) =
    Some (length data, records_end d rs,
      copy_at ws (i + 1) (map (\<lambda>k. of_nat (unat HOLD_DEVICE_CONFIG + k)) (record_starts d rs)) @
        concat (map record_words rs))"
  using assms
proof (induction rs arbitrary: pos d ws i)
  case Nil
  then show ?case by (simp add: copy_at_def)
next
  case (Cons r rs)
  let ?p = "of_nat (unat (HOLD_DEVICE_CONFIG) + d) :: u16"
  let ?ws = "ws[i + 1 := ?p] @ record_words r"
  let ?d = "d + div_ceil (length r) 2"
  have r: "r \<noteq> []" "unat (hd r) = length r" using Cons.prems(1) by (simp_all add: is_record_def)
  have data: "data = take pos data @ r @ concat rs" using Cons.prems(3) by (metis append_take_drop_id concat.simps(2))
  have len: "length data = pos + length r + length (concat rs)"
    using arg_cong [OF Cons.prems(3), of length] Cons.prems(2) by simp
  have hd: "get_opt data pos = Some (hd r)"
    using r(1) len Cons.prems(2) arg_cong [OF Cons.prems(3), of hd]
    by (cases r) (simp_all add: get_opt_def hd_drop_conv_nth)
  have rec: "slice data pos (pos + length r) = r" "drop (pos + length r) data = concat rs"
    using arg_cong [OF Cons.prems(3), of "take (length r)"] arg_cong [OF Cons.prems(3), of "drop (length r)"]
    by (simp_all add: slice_def drop_take add.commute)
  have lim: "?d \<le> records_end ?d rs" by (simp add: records_end_def)
  have dw: "0 < div_ceil (length r) 2" using r(1) by (cases r) (simp_all add: div_ceil_2)
  have push: "push_record r (ws[i + 1 := ?p]) = Some ?ws"
    by (rule push_record_words) (use Cons.prems(4,6) lim in simp)
  have idx: "[i..<i + length (r # rs)] = i # [Suc i..<Suc i + length rs]" by (simp add: upt_rec)
  have "store_records data [i..<i + length (r # rs)] (pos, d, ws) =
      store_records data [Suc i..<Suc i + length rs] (pos + length r, ?d, ?ws)"
    unfolding idx store_records.simps(2) hd option.case Let_def r(2) rec(1)
    using r(1) len Cons.prems(6) lim dw push by simp
  also have "\<dots> = Some (length data, records_end ?d rs,
      copy_at ?ws (Suc i + 1) (map (\<lambda>k. of_nat (unat HOLD_DEVICE_CONFIG + k)) (record_starts ?d rs)) @
        concat (map record_words rs))"
    by (rule Cons.IH) (use Cons.prems len rec lim in simp_all)
  also have "copy_at ?ws (Suc i + 1) (map (\<lambda>k. of_nat (unat HOLD_DEVICE_CONFIG + k)) (record_starts ?d rs)) =
      copy_at ws (i + 1) (?p # map (\<lambda>k. of_nat (unat HOLD_DEVICE_CONFIG + k)) (record_starts ?d rs)) @ record_words r"
    using copy_at_Cons [of "i + 1" ws _ ?p "record_words r"] Cons.prems(5) by simp
  finally show ?case by simp
qed

lemma legacy_packet_parts:
  assumes "length recs \<le> 255"
  shows "length (legacy_packet recs) = 2 + length (concat recs)" "drop 2 (legacy_packet recs) = concat recs"
    "unat (le16 (legacy_packet recs ! 0) (legacy_packet recs ! 1)) = length recs"
  using assms by (simp_all add: legacy_packet_def le_bytes_def unat_of_nat)

lemma records_end_le: "\<forall>r \<in> set rs. r \<noteq> [] \<Longrightarrow> records_end d rs \<le> d + length (concat rs)"
proof (induction rs arbitrary: d)
  case (Cons r rs)
  have "div_ceil (length r) 2 \<le> length r" using Cons.prems by (cases r) (simp_all add: div_ceil_2)
  then show ?case using Cons.IH [of "d + div_ceil (length r) 2"] Cons.prems by simp
qed simp

lemma length_recs_le: "\<forall>r \<in> set rs. r \<noteq> [] \<Longrightarrow> length rs \<le> length (concat rs)"
proof (induction rs)
  case (Cons r rs)
  then show ?case by (cases r) simp_all
qed simp

definition is_table :: "u8 list list \<Rightarrow> bool" where
  "is_table recs \<longleftrightarrow> recs \<noteq> [] \<and> list_all is_record recs \<and> length (legacy_packet recs) \<le> 254"

lemma is_table_bounds:
  assumes "is_table recs"
  shows "0 < length recs" "length recs \<le> 252" "records_end (length recs + 2) recs \<le> 506" "\<forall>r \<in> set recs. is_record r"
proof -
  have ne: "\<forall>r \<in> set recs. r \<noteq> []" and "length (concat recs) \<le> 252"
    using assms by (auto simp: is_table_def list_all_iff is_record_def legacy_packet_def)
  then show "length recs \<le> 252" "records_end (length recs + 2) recs \<le> 506"
    using length_recs_le [OF ne] records_end_le [OF ne, of "length recs + 2"] by linarith+
  show "0 < length recs" "\<forall>r \<in> set recs. is_record r" using assms by (simp_all add: is_table_def list_all_iff)
qed

lemma device_function_words_packet:
  assumes t: "is_table recs"
  shows "device_function_words (legacy_packet recs) = Some (stored_table recs)"
proof -
  let ?n = "length recs" and ?d = "legacy_packet recs"
  note b = is_table_bounds [OF t]
  have n: "?n \<le> 255" using b(2) by simp
  note parts = legacy_packet_parts [OF n]
  let ?ws = "(replicate (?n + 2) 0)[0 := of_nat ?n :: u16]"
  let ?ps = "map (\<lambda>k. of_nat (unat HOLD_DEVICE_CONFIG + k) :: u16) (record_starts (?n + 2) recs)"
  have "store_records ?d [0..<0 + ?n] (2, ?n + 2, ?ws) = Some (length ?d, records_end (?n + 2) recs,
      copy_at ?ws (0 + 1) ?ps @ concat (map record_words recs))"
    by (rule store_records_words) (use b parts in simp_all)
  moreover have "copy_at ?ws 1 ?ps = of_nat ?n # ?ps @ [0]"
    using replicate_append_same [of ?n "0 :: u16"] by (simp add: copy_at_def flip: replicate_append_same)
  ultimately have run: "store_records ?d [0..<?n] (2, ?n + 2, ?ws) = Some (length ?d, records_end (?n + 2) recs,
      (of_nat ?n # ?ps @ [0]) @ concat (map record_words recs))" by simp
  have upd: "((of_nat ?n # ?ps @ [0]) @ concat (map record_words recs))[?n + 1 := of_nat (records_end (?n + 2) recs)] =
      stored_table recs"
    by (simp add: stored_table_def Let_def list_update_append)
  show ?thesis
    unfolding device_function_words_def Let_def parts(3) run option.case prod.case upd
    using b parts(1) by simp
qed

section \<open>Writing the logic area\<close>

lemma batch_words_logic:
  assumes "2300 \<le> unat addr" and "unat addr + length vs \<le> 4222"
  shows "batch_words hw addr vs b =
    Some (b\<lparr>bt_storage := (bt_storage b)\<lparr>sn_holding_buf :=
              foldl (\<lambda>buf (k, v). buf[k := v]) (sn_holding_buf (bt_storage b)) (enumerate (unat addr - 2176) vs)\<rparr>,
            bt_holding_changed := vs \<noteq> [] \<or> bt_holding_changed b, bt_logic_changed := vs \<noteq> [] \<or> bt_logic_changed b\<rparr>)"
  using assms
proof (induction vs arbitrary: addr b)
  case (Cons v vs)
  have a: "unat addr < 4222" using Cons.prems(2) by simp
  have next_addr: "unat (addr + 1) = unat addr + 1" using a by (simp add: unat_word_ariths)
  have off: "unat (addr - 2176) = unat addr - 2176"
    using unat_diff [of 2176 addr] Cons.prems(1) by (simp add: word_le_nat_alt)
  have idx: "Suc (unat addr - 2176) = unat addr - 2175" using Cons.prems(1) by simp
  have word: "batch_word hw addr v b = Some (b\<lparr>bt_storage := put_holding (unat addr - 2176) v (bt_storage b),
      bt_holding_changed := True, bt_multicast_changed := bt_multicast_changed b, bt_logic_changed := True\<rparr>)"
    using Cons.prems(1) a off
    by (simp add: batch_word_def is_multicast_config_addr_def is_logic_config_addr_def range_defs word_le_nat_alt
        word_unat_eq_iff)
  show ?case
    unfolding batch_words.simps word option.case
    by (subst Cons.IH) (use Cons.prems next_addr idx in \<open>auto simp: put_holding_def\<close>)
qed simp

lemma foldl_enumerate_copy:
  "i + length vs \<le> length buf \<Longrightarrow> foldl (\<lambda>buf (k, v). buf[k := v]) buf (enumerate i vs) = copy_at buf i vs"
proof (induction vs arbitrary: i buf)
  case (Cons v vs)
  then show ?case using copy_at_Cons [of i buf vs v "[]"] by simp
qed (simp add: copy_at_def)

lemma write_logic_area:
  assumes wf: "bus_wf s" and vs: "vs \<noteq> []" and len: "2300 + length vs \<le> 4222"
  shows "\<exists>s'. write_hold_regs HOLD_DEVICE_CONFIG vs (arm_logic_write s) = (True, s') \<and>
    sn_holding_buf (bus_storage s') = (copy_at (sn_holding_buf (bus_storage s)) 124 vs)[PROTECT_INDEX := 0] \<and>
    bus_results s' = bus_results s \<and> bus_config s' = bus_config s \<and> bus_holding_dirty s' \<and> bus_env s' = bus_env s \<and>
    \<not> bus_logic_armed s'"
proof -
  let ?s = "arm_logic_write s"
  let ?b = "(batch_start ?s)\<lparr>bt_storage := (bus_storage s)\<lparr>sn_holding_buf := copy_at (sn_holding_buf (bus_storage s)) 124 vs\<rparr>,
      bt_holding_changed := True, bt_logic_changed := True\<rparr>"
  have n: "length (sn_holding_buf (bus_storage s)) = 2048" using wf by (simp add: bus_wf_def storage_wf_def)
  have writable: "list_all (\<lambda>k. is_writable_hold_reg (HOLD_DEVICE_CONFIG + of_nat k)) [0..<length vs]"
  proof -
    have "unat (HOLD_DEVICE_CONFIG + of_nat k :: u16) = 2300 + k" if "k < length vs" for k
      using that len by (simp add: unat_word_ariths unat_of_nat)
    then show ?thesis using len by (simp add: list_all_iff is_writable_hold_reg_def range_defs word_le_nat_alt)
  qed
  have "batch_words (env_hw_mac (bus_env ?s)) HOLD_DEVICE_CONFIG vs (batch_start ?s) = Some ?b"
    using batch_words_logic [of HOLD_DEVICE_CONFIG vs "env_hw_mac (bus_env ?s)" "batch_start ?s"] len n vs
    by (simp add: foldl_enumerate_copy batch_start_def arm_logic_write_def)
  then have "write_hold_regs HOLD_DEVICE_CONFIG vs ?s = (True, batch_publish ?b ?s)"
    using vs len writable by (simp add: write_hold_regs_def Let_def batch_start_def)
  then show ?thesis
    by (simp add: batch_publish_def batch_start_def arm_logic_write_def publish_storage_def sync_proto_status_def
        put_holding_def mark_holding_dirty_def mark_storage_mutated_def mark_logic_changed_def)
qed

section \<open>Reading the logic area\<close>

lemma read_logic_area:
  assumes "bus_wf s" and "2300 \<le> a" and "a < 4000"
  shows "read_hold_reg s (of_nat a) = Some (sn_holding_buf (bus_storage s) ! (a - 2176))"
proof -
  have n: "length (sn_holding_buf (bus_storage s)) = 2048" "config_wf (bus_config s)"
    using assms(1) by (simp_all add: bus_wf_def storage_wf_def)
  let ?a = "of_nat a :: u16"
  have u: "unat ?a = a" using assms(2,3) by (simp add: unat_of_nat)
  have "unat (?a - 2176) = a - 2176"
    using unat_diff [of 2176 ?a] u assms(2) by (simp add: word_le_nat_alt)
  moreover have "rs485_word s ?a None = None"
    using assms u by (simp add: rs485_word_def read_result_reg_def result_index_def checked_sub_def word_le_nat_alt)
  moreover have "read_reg (bus_config s) ?a = None"
    using locate_logic_addr [of ?a] u assms n(2) by (simp add: read_reg_locate config_wf_def)
  moreover have "a - 2176 < 2048" using assms(3) by simp
  ultimately show ?thesis
    using assms u n(1)
    by (simp add: read_hold_reg_def read_hold_reg_from_snapshots_def range_defs word_le_nat_alt word_less_nat_alt
        word_unat_eq_iff get_opt_def Let_def)
qed

lemma load_record_bytes:
  assumes "\<And>k. k \<in> set ks \<Longrightarrow> read_hold_reg s (p + of_nat (k div 2)) = Some (f k)"
  shows "load_record s p ks = Some (map (\<lambda>k. if k mod 2 = 0 then lo8 (f k) else hi8 (f k)) ks)"
  using assms by (induction ks) simp_all

text \<open>What the reads show: the word at every address of a table that starts at 2300.\<close>

definition shows_table :: "bus_state \<Rightarrow> u16 list \<Rightarrow> bool" where
  "shows_table s ws \<longleftrightarrow> length ws \<le> 1000 \<and> (\<forall>j < length ws. read_hold_reg s (of_nat (2300 + j)) = Some (ws ! j))"

lemma shows_table_read:
  "shows_table s ws \<Longrightarrow> j < length ws \<Longrightarrow> read_hold_reg s (of_nat (2300 + j)) = Some (ws ! j)"
  unfolding shows_table_def by blast

lemma load_records_packet:
  assumes "shows_table s ws" and "\<forall>r \<in> set rs. is_record r"
    and "\<forall>k < length rs. ws ! (i + 1 + k) = of_nat (2300 + record_starts d rs ! k)" and "i + 1 + length rs \<le> length ws"
    and "d \<le> length ws" and "drop d ws = concat (map record_words rs)" and "length out + length (concat rs) \<le> 254"
  shows "load_records s [i..<i + length rs] out = Some (out @ concat rs)"
  using assms
proof (induction rs arbitrary: i d out)
  case Nil
  then show ?case by simp
next
  case (Cons r rs)
  let ?p = "of_nat (2300 + d) :: u16"
  have r: "r \<noteq> []" "unat (hd r) = length r" using Cons.prems(2) by (simp_all add: is_record_def)
  have words: "drop d ws = record_words r @ concat (map record_words rs)" using Cons.prems(6) by simp
  have len: "length ws = d + length (record_words r @ concat (map record_words rs))"
    using arg_cong [OF words, of length] Cons.prems(5) by simp
  have dw: "0 < div_ceil (length r) 2" using r(1) by (cases r) (simp_all add: div_ceil_2)
  have word: "ws ! (d + j) = record_words r ! j" if "j < div_ceil (length r) 2" for j
    using arg_cong [OF words, of "\<lambda>xs. xs ! j"] that Cons.prems(5) by (simp add: nth_append)
  have at: "read_hold_reg s (?p + of_nat j) = Some (record_words r ! j)" if "j < div_ceil (length r) 2" for j
    using shows_table_read [OF Cons.prems(1), of "d + j"] word [OF that] that len by (simp add: ac_simps)
  have pointer: "read_hold_reg s (HOLD_DEVICE_CONFIG + 1 + of_nat i) = Some ?p"
    using shows_table_read [OF Cons.prems(1), of "i + 1"] Cons.prems(3,4) by (auto simp: ac_simps)
  have first: "read_hold_reg s ?p = Some (record_words r ! 0)" using at [OF dw] by simp
  have "lo8 (record_words r ! 0) = r ! 0" using record_word_byte [of 0 r] r(1) by simp
  then have len_word: "unat (record_words r ! 0 AND 0xFF) = length r"
  proof -
    have "unat (lo8 (record_words r ! 0)) = length r"
      using \<open>lo8 (record_words r ! 0) = r ! 0\<close> r by (simp add: hd_conv_nth)
    moreover have "unat (w AND 0xFF) = unat (lo8 w)" for w :: u16
    proof -
      have m: "(0xFF :: u16) = mask 8" by (simp add: mask_eq_exp_minus_1)
      have "w AND 0xFF = ucast (lo8 w)"
        unfolding m by (rule bit_word_eqI) (auto simp: lo8_def bit_simps)
      then show ?thesis using unat_u8_less [of "lo8 w"] by (simp add: unsigned_ucast_eq take_bit_nat_eq_self_iff)
    qed
    ultimately show ?thesis by simp
  qed
  have bytes: "load_record s ?p [0..<length r] = Some r"
  proof -
    have "load_record s ?p [0..<length r] =
        Some (map (\<lambda>k. if k mod 2 = 0 then lo8 (record_words r ! (k div 2)) else hi8 (record_words r ! (k div 2))) [0..<length r])"
      by (rule load_record_bytes) (use at in \<open>auto simp: div_ceil_2\<close>)
    also have "map (\<lambda>k. if k mod 2 = 0 then lo8 (record_words r ! (k div 2)) else hi8 (record_words r ! (k div 2))) [0..<length r] = r"
      by (rule nth_equalityI) (auto dest: record_word_byte split: if_splits)
    finally show ?thesis .
  qed
  have idx: "[i..<i + length (r # rs)] = i # [Suc i..<Suc i + length rs]" by (simp add: upt_rec)
  have "load_records s [i..<i + length (r # rs)] out = load_records s [Suc i..<Suc i + length rs] (out @ r)"
    unfolding idx load_records.simps(2) pointer option.case first Let_def len_word bytes
    using r(1) Cons.prems(7) by simp
  also have "\<dots> = Some ((out @ r) @ concat rs)"
  proof (rule Cons.IH [where d = "d + div_ceil (length r) 2"])
    show "\<forall>k < length rs. ws ! (Suc i + 1 + k) = of_nat (2300 + record_starts (d + div_ceil (length r) 2) rs ! k)"
      using Cons.prems(3) by (auto dest: spec [of _ "Suc _"])
    show "drop (d + div_ceil (length r) 2) ws = concat (map record_words rs)"
      using arg_cong [OF words, of "drop (div_ceil (length r) 2)"] by (simp add: add.commute)
  qed (use Cons.prems len in simp_all)
  finally show ?case by simp
qed

lemma stored_table_parts:
  assumes "is_table recs"
  defines "n \<equiv> length recs"
  shows "length (stored_table recs) = records_end (n + 2) recs" "stored_table recs ! 0 = of_nat n"
    "\<forall>k < n. stored_table recs ! (1 + k) = of_nat (2300 + record_starts (n + 2) recs ! k)"
    "stored_table recs ! (1 + n) = of_nat (records_end (n + 2) recs)"
    "drop (n + 2) (stored_table recs) = concat (map record_words recs)"
  by (simp_all add: stored_table_def Let_def records_end_def n_def nth_append)

lemma load_stored_table:
  assumes t: "is_table recs" and "shows_table s (stored_table recs)"
  shows "load_device_function_config s = Some (legacy_packet recs)"
proof -
  let ?n = "length recs"
  note b = is_table_bounds [OF t] and p = stored_table_parts [OF t]
  have cnt: "read_hold_reg s HOLD_DEVICE_CONFIG = Some (of_nat ?n)"
    using shows_table_read [OF assms(2), of 0] p(1,2) by (simp add: records_end_def)
  have u: "unat (of_nat ?n :: u16) = ?n" using b(2) by (simp add: unat_of_nat)
  have "load_records s [0..<0 + ?n] (le_bytes (of_nat ?n)) = Some (le_bytes (of_nat ?n) @ concat recs)"
    by (rule load_records_packet [OF assms(2) b(4), where d = "?n + 2"])
      (use p t in \<open>auto simp: is_table_def legacy_packet_def records_end_def\<close>)
  then show ?thesis
    unfolding load_device_function_config_def cnt option.case Let_def u
    using b by (simp add: legacy_packet_def)
qed

lemma save_holding_view:
  "bus_storage (snd (save_holding s)) = bus_storage s" "bus_results (snd (save_holding s)) = bus_results s"
  "bus_config (snd (save_holding s)) = bus_config s" "bus_wf s \<Longrightarrow> bus_wf (snd (save_holding s))"
  by (auto simp: save_holding_def bus_wf_def)

text \<open>Storing a table of functions: the ticket is the outcome of the flash save, and memory holds the table.\<close>

lemma store_table_result:
  assumes wf: "bus_wf s" and t: "is_table recs"
  shows "\<exists>s'. store_device_function_config (legacy_packet recs) s = (env_holding_save_ok (bus_env s), s') \<and> bus_wf s' \<and>
    sn_holding_buf (bus_storage s') =
      (copy_at (sn_holding_buf (bus_storage s)) 124 (stored_table recs))[PROTECT_INDEX := 0] \<and>
    (env_holding_save_ok (bus_env s) \<longrightarrow> fl_holding (bus_flash s') = sn_holding_buf (bus_storage s')) \<and>
    \<not> bus_logic_armed s'"
proof -
  note b = is_table_bounds [OF t] and p = stored_table_parts [OF t]
  have ne: "stored_table recs \<noteq> []" by (simp add: stored_table_def Let_def)
  obtain s1 where w: "write_hold_regs HOLD_DEVICE_CONFIG (stored_table recs) (arm_logic_write s) = (True, s1)"
    and buf: "sn_holding_buf (bus_storage s1) = (copy_at (sn_holding_buf (bus_storage s)) 124 (stored_table recs))[PROTECT_INDEX := 0]"
    and flags: "bus_holding_dirty s1" "bus_env s1 = bus_env s" "\<not> bus_logic_armed s1"
    using write_logic_area [OF wf ne] p(1) b(3) by auto
  have "bus_wf (arm_logic_write s)" using wf by (simp add: arm_logic_write_def bus_wf_def)
  then have wf1: "bus_wf s1" using bus_wf_hold_regs [of "arm_logic_write s" HOLD_DEVICE_CONFIG "stored_table recs"] w by simp
  have "store_device_function_config (legacy_packet recs) s = save_holding s1"
    unfolding store_device_function_config_def device_function_words_packet [OF t] option.case w by simp
  moreover have "fst (save_holding s1) = env_holding_save_ok (bus_env s)"
    using flags by (simp add: save_holding_def)
  moreover have "\<not> bus_logic_armed (snd (save_holding s1))"
    "env_holding_save_ok (bus_env s) \<Longrightarrow> fl_holding (bus_flash (snd (save_holding s1))) = sn_holding_buf (bus_storage s1)"
    using flags by (simp_all add: save_holding_def)
  ultimately show ?thesis
    using save_holding_view [of s1] wf1 buf by (cases "save_holding s1") auto
qed

lemma holding_shows_table:
  assumes wf: "bus_wf s" and len: "length ws \<le> 1000" and old: "length buf = 2048"
    and buf: "sn_holding_buf (bus_storage s) = (copy_at buf 124 ws)[PROTECT_INDEX := 0]"
  shows "shows_table s ws"
  unfolding shows_table_def
proof (intro conjI allI impI)
  fix j assume j: "j < length ws"
  then show "read_hold_reg s (of_nat (2300 + j)) = Some (ws ! j)"
    using read_logic_area [OF wf, of "2300 + j"] len old nth_copy_at [of 124 ws buf "124 + j"] buf by simp
qed (rule len)

text \<open>A function table written over Bluetooth can be read back.  For every table that fits the answer of the
  read command, the write command is acknowledged exactly when the flash save succeeds, the flash then holds the
  table, and the read command returns the bytes that were written.\<close>

theorem device_table_roundtrip:
  assumes "bus_wf s" and "is_table recs"
  shows "\<exists>s'. handle_logic_config oc (SUB_DEVICE_01 # legacy_packet recs) (s, nv) =
      (Some [0xD0, SUB_DEVICE_01, if env_holding_save_ok (bus_env s) then 0 else 0x84], s', nv) \<and> bus_wf s' \<and>
    handle_logic_retrieve [SUB_DEVICE_01] (s', nv) = Some (0xD1 # SUB_DEVICE_01 # legacy_packet recs) \<and>
    (env_holding_save_ok (bus_env s) \<longrightarrow> fl_holding (bus_flash s') = sn_holding_buf (bus_storage s'))"
proof -
  have n: "length (sn_holding_buf (bus_storage s)) = 2048" using assms(1) by (simp add: bus_wf_def storage_wf_def)
  have len: "length (legacy_packet recs) \<le> 254" "2 \<le> length (legacy_packet recs)"
    using assms(2) by (simp_all add: is_table_def legacy_packet_def)
  obtain s' where s': "store_device_function_config (legacy_packet recs) s = (env_holding_save_ok (bus_env s), s')"
    "bus_wf s'" "sn_holding_buf (bus_storage s') =
      (copy_at (sn_holding_buf (bus_storage s)) 124 (stored_table recs))[PROTECT_INDEX := 0]"
    "env_holding_save_ok (bus_env s) \<longrightarrow> fl_holding (bus_flash s') = sn_holding_buf (bus_storage s')"
    using store_table_result [OF assms] by blast
  have "shows_table s' (stored_table recs)"
    using holding_shows_table [OF s'(2) _ n s'(3)] stored_table_parts(1) [OF assms(2)] is_table_bounds(3) [OF assms(2)] by simp
  then have "load_device_function_config s' = Some (legacy_packet recs)" by (rule load_stored_table [OF assms(2)])
  then have "handle_logic_retrieve [SUB_DEVICE_01] (s', nv) = Some (0xD1 # SUB_DEVICE_01 # legacy_packet recs)"
    using len(1) by (simp add: handle_logic_retrieve_def)
  moreover have "handle_logic_config oc (SUB_DEVICE_01 # legacy_packet recs) (s, nv) =
      (Some [0xD0, SUB_DEVICE_01, if env_holding_save_ok (bus_env s) then 0 else 0x84], s', nv)"
    using len(2) s'(1) by (cases "legacy_packet recs") (simp_all add: handle_logic_config_def build_ack_def)
  ultimately show ?thesis using s' by blast
qed

theorem device_table_roundtrip_witness:
  "\<exists>s'. handle_logic_config (\<lambda>_. NvDone) [1, 1, 0, 3, 0x11, 0x22] (bus_start env_idle, None) =
      (Some [0xD0, 1, 0], s', None) \<and> handle_logic_retrieve [1] (s', None) = Some [0xD1, 1, 1, 0, 3, 0x11, 0x22]"
proof -
  have p: "legacy_packet [[3, 0x11, 0x22]] = [1, 0, 3, 0x11, 0x22]"
    by (simp add: legacy_packet_def le_bytes_def hi8_def lo8_def)
  have "is_table [[3, 0x11, 0x22]]" unfolding is_table_def p by (simp add: is_record_def)
  from device_table_roundtrip [OF bus_wf_idle this, of "\<lambda>_. NvDone" None] show ?thesis
    unfolding p by (auto simp: bus_start_def env_idle_def)
qed

section \<open>The table as the rest of the firmware reads it\<close>

text \<open>The parsers of the poll table and of the control logic take the entries of the directory as offsets from its
  start, but the write command stores addresses.\<close>

lemma stored_holding_word:
  assumes t: "is_table recs" and old: "length buf = 2048" and j: "j < length (stored_table recs)"
  shows "holding_word ((copy_at buf 124 (stored_table recs))[PROTECT_INDEX := 0]) (of_nat (2300 + j)) =
    Some (stored_table recs ! j)"
proof -
  have len: "length (stored_table recs) \<le> 506"
    using stored_table_parts(1) [OF t] is_table_bounds(3) [OF t] by simp
  have u: "unat (of_nat (2300 + j) :: u16) = 2300 + j" unfolding unat_of_nat using j len by simp
  have "unat (of_nat (2300 + j) - HOLD_PXX_BASE :: u16) = 124 + j"
    using unat_diff [of HOLD_PXX_BASE "of_nat (2300 + j)"] u by (simp add: word_le_nat_alt)
  moreover have "HOLD_PXX_BASE \<le> (of_nat (2300 + j) :: u16)" unfolding word_le_nat_alt u by simp
  ultimately show ?thesis
    using j len old nth_copy_at [of 124 "stored_table recs" buf "124 + j"]
    by (simp add: holding_word_def checked_sub_def get_opt_def)
qed

lemma record_starts_ge: "k < length rs \<Longrightarrow> \<forall>r \<in> set rs. r \<noteq> [] \<Longrightarrow>
    d + k \<le> record_starts d rs ! k \<and> record_starts d rs ! k < records_end d rs"
proof (induction rs arbitrary: d k)
  case (Cons r rs)
  have r: "0 < div_ceil (length r) 2" using Cons.prems(2) by (cases r) (simp_all add: div_ceil_2)
  show ?case
  proof (cases k)
    case 0
    then show ?thesis using r by (simp add: records_end_def)
  next
    case (Suc j)
    then show ?thesis using Cons.IH [of j "d + div_ceil (length r) 2"] Cons.prems r by simp
  qed
qed simp

text \<open>A pointer read as an offset ends behind the memory.\<close>

lemma unat_table_address: "m \<le> 60000 \<Longrightarrow> unat (2300 + of_nat m :: u16) = 2300 + m"
  by (simp add: unat_word_ariths unat_of_nat)

lemma stored_entry:
  assumes t: "is_table recs" and k: "k < length recs"
  shows "\<exists>p. stored_table recs ! (1 + k) = p \<and> 2303 \<le> unat p \<and> unat p \<le> 2806"
proof -
  have ne: "\<forall>r \<in> set recs. r \<noteq> []" using is_table_bounds(4) [OF t] by (simp add: is_record_def)
  have "3 \<le> record_starts (length recs + 2) recs ! k" "record_starts (length recs + 2) recs ! k \<le> 506"
    using record_starts_ge [OF k ne, of "length recs + 2"] is_table_bounds(1,3) [OF t] by linarith+
  then show ?thesis using stored_table_parts(3) [OF t] k unat_table_address by simp
qed

lemma record_behind_memory:
  assumes "length words = 2048" and "unat start \<le> 2806" and "unat end_off \<ge> 2303 \<or> unat end_off \<le> unat start" and "unat end_off \<le> 2806"
  shows "parse_record words index start end_off table = table"
proof (cases "unat end_off \<le> unat start")
  case True
  then show ?thesis by (simp add: parse_record_def word_le_nat_alt)
next
  case False
  have "unat (x - HOLD_PXX_BASE) = 124 + unat end_off" if "unat x = 2300 + unat end_off" for x :: u16
    using unat_diff [of HOLD_PXX_BASE x] that by (simp add: word_le_nat_alt)
  then show ?thesis
    using False assms(1,3)
    by (auto simp: parse_record_def checked_sub_def checked_add_Some_iff word_le_nat_alt split: option.split)
qed

lemma table_loop_behind_memory:
  assumes "\<And>index start end_off. index \<in> set ks \<Longrightarrow> holding_word words (HOLD_DEVICE_CONFIG + 1 + of_nat index) = Some start \<Longrightarrow>
    (if index + 1 < cnt then holding_word words (HOLD_DEVICE_CONFIG + 2 + of_nat index)
     else holding_word words (HOLD_DEVICE_CONFIG + 1 + of_nat cnt)) = Some end_off \<Longrightarrow>
    parse_record words index start end_off table = table"
  shows "parse_table_loop words cnt ks table = table"
  using assms
proof (induction ks)
  case (Cons k ks)
  have "parse_table_loop words cnt ks table = table" by (rule Cons.IH) (use Cons.prems in auto)
  then show ?case using Cons.prems [of k] by (auto split: option.splits)
qed simp

lemma stored_table_ignored:
  assumes t: "is_table recs" and old: "length buf = 2048"
  defines "words \<equiv> (copy_at buf 124 (stored_table recs))[PROTECT_INDEX := 0]"
  shows "parse_table words = empty_table"
proof -
  let ?n = "length recs"
  note b = is_table_bounds [OF t] and p = stored_table_parts [OF t]
  have len: "length (stored_table recs) = records_end (?n + 2) recs" "?n + 2 \<le> records_end (?n + 2) recs"
    using p(1) by (simp_all add: records_end_def)
  have word: "holding_word words (of_nat (2300 + j)) = Some (stored_table recs ! j)" if "j < length (stored_table recs)" for j
    unfolding words_def by (rule stored_holding_word [OF t old that])
  have w: "length words = 2048"
    using old b(3) len unfolding words_def by simp
  have count: "holding_word words HOLD_DEVICE_CONFIG = Some (of_nat ?n)" "unat (of_nat ?n :: u16) = ?n"
    using word [of 0] len p(2) b(2) by (simp_all add: unat_of_nat)
  let ?c = "min ?n MAX_LOGICS"
  have "parse_table_loop words ?c [0..<?c] empty_table = empty_table"
  proof (rule table_loop_behind_memory)
    fix index :: nat and start end_off :: u16
    assume i: "index \<in> set [0..<?c]" and st: "holding_word words (HOLD_DEVICE_CONFIG + 1 + of_nat index) = Some start"
      and en: "(if index + 1 < ?c then holding_word words (HOLD_DEVICE_CONFIG + 2 + of_nat index)
        else holding_word words (HOLD_DEVICE_CONFIG + 1 + of_nat ?c)) = Some end_off"
    have k: "index < ?n" using i by simp
    have s1: "start = stored_table recs ! (1 + index)" using st word [of "1 + index"] k len by (simp add: ac_simps)
    then have start: "2303 \<le> unat start" "unat start \<le> 2806" using stored_entry [OF t k] by auto
    let ?j = "if index + 1 < ?c then 2 + index else 1 + ?c"
    have "end_off = stored_table recs ! ?j"
      using en word [of ?j] k len by (auto simp: ac_simps split: if_splits)
    moreover have "?j \<le> 1 + ?n" using k by auto
    ultimately have "2303 \<le> unat end_off \<and> unat end_off \<le> 2806 \<or> unat end_off \<le> 506"
      using stored_entry [OF t, of "?j - 1"] p(4) b(3)
      by (cases "?j = 1 + ?n") (auto simp: unat_of_nat)
    then show "parse_record words index start end_off empty_table = empty_table"
      using record_behind_memory [OF w, of start end_off] start by auto
  qed
  then show ?thesis by (simp add: parse_table_def count)
qed

lemma poll_record_rejected:
  assumes start: "holding_word words (HOLD_DEVICE_CONFIG + 1) = Some start" "2303 \<le> unat start" "unat start \<le> 2806"
    and end_off: "(if 1 < n then ok_or ''missing next logic offset'' (holding_word words (HOLD_DEVICE_CONFIG + 2)) else Inr total_offset) = Inr end_off"
      "2303 \<le> unat end_off \<and> unat end_off \<le> 2806 \<or> unat end_off \<le> 506"
    and total: "unat total_end \<le> 4000"
  shows "\<exists>e. parse_poll_record words n total_offset total_end 0 items = Inl e"
proof (cases "start < end_off")
  case False
  then show ?thesis using start(1) end_off(1) by (cases "1 < n") (simp_all add: parse_poll_record_def)
next
  case True
  then have e: "2303 \<le> unat end_off" "unat end_off \<le> 2806" using end_off(2) start(2) by (auto simp: word_less_nat_alt)
  then have "unat (HOLD_DEVICE_CONFIG + end_off) = 2300 + unat end_off" by (simp add: unat_word_ariths)
  then have "\<not> HOLD_DEVICE_CONFIG + end_off \<le> total_end" using total e by (simp add: word_le_nat_alt)
  moreover have "checked_add HOLD_DEVICE_CONFIG end_off = Some (HOLD_DEVICE_CONFIG + end_off)"
    "checked_add HOLD_DEVICE_CONFIG start = Some (HOLD_DEVICE_CONFIG + start)"
    using e start(2,3) by (simp_all add: checked_add_Some_iff unat_word_ariths)
  ultimately show ?thesis using True start(1) end_off(1) by (cases "1 < n") (simp_all add: parse_poll_record_def)
qed

lemma stored_table_rejected:
  assumes t: "is_table recs" and old: "length buf = 2048"
  defines "words \<equiv> (copy_at buf 124 (stored_table recs))[PROTECT_INDEX := 0]"
  shows "\<exists>e. parse_poll_table words = Inl e"
proof -
  let ?n = "length recs" let ?e = "records_end (?n + 2) recs"
  note b = is_table_bounds [OF t] and p = stored_table_parts [OF t]
  have len: "length (stored_table recs) = ?e" "?n + 2 \<le> ?e"
    using p(1) by (simp_all add: records_end_def)
  have word: "holding_word words (of_nat (2300 + j)) = Some (stored_table recs ! j)" if "j < length (stored_table recs)" for j
    unfolding words_def by (rule stored_holding_word [OF t old that])
  have w: "length words = 2048" using old b(3) len unfolding words_def by simp
  have count: "holding_word words HOLD_DEVICE_CONFIG = Some (of_nat ?n)" "unat (of_nat ?n :: u16) = ?n"
    using word [of 0] len p(2) b(2) by (simp_all add: unat_of_nat)
  have n1: "unat (of_nat ?n + 1 :: u16) = ?n + 1" "unat (of_nat ?n + 2 :: u16) = ?n + 2"
    using b(2) by (simp_all add: unat_word_ariths unat_of_nat)
  have term_addr: "checked_add HOLD_DEVICE_CONFIG (of_nat ?n + 1) = Some (of_nat (2300 + (1 + ?n)))"
    using n1 b(2) by (simp add: checked_add_Some_iff unat_table_address [of "1 + ?n"] unat_word_ariths unat_of_nat)
  have total: "holding_word words (of_nat (2300 + (1 + ?n))) = Some (of_nat ?e)"
    using word [of "1 + ?n"] len p(4) by simp
  have te: "unat (HOLD_DEVICE_CONFIG + of_nat ?e :: u16) = 2300 + ?e" "unat (of_nat ?e :: u16) = ?e"
    using unat_table_address [of ?e] b(3) by (simp_all add: unat_of_nat)
  have total_end: "checked_add HOLD_DEVICE_CONFIG (of_nat ?e) = Some (HOLD_DEVICE_CONFIG + of_nat ?e)"
    using te b(3) by (simp add: checked_add_Some_iff)
  let ?st = "stored_table recs ! (1 + 0)"
  have st: "holding_word words (HOLD_DEVICE_CONFIG + 1) = Some ?st" "2303 \<le> unat ?st" "unat ?st \<le> 2806"
    using word [of 1] len stored_entry [OF t b(1)] by auto
  let ?en = "if 1 < ?n then stored_table recs ! 2 else of_nat ?e"
  have "\<exists>e. parse_poll_record words ?n (of_nat ?e) (HOLD_DEVICE_CONFIG + of_nat ?e) 0 [] = Inl e"
  proof (rule poll_record_rejected [OF st])
    show "(if 1 < ?n then ok_or ''missing next logic offset'' (holding_word words (HOLD_DEVICE_CONFIG + 2)) else Inr (of_nat ?e)) = Inr ?en"
      using word [of 2] len by simp
    show "2303 \<le> unat ?en \<and> unat ?en \<le> 2806 \<or> unat ?en \<le> 506"
      using stored_entry [OF t, of 1] te(2) b(3) by (auto simp: numeral_2_eq_2)
  qed (use te b(3) in simp)
  then obtain e where "parse_poll_record words ?n (of_nat ?e) (HOLD_DEVICE_CONFIG + of_nat ?e) 0 [] = Inl e" ..
  moreover have "[0..<?n] = 0 # [1..<?n]" using b(1) by (simp add: upt_conv_Cons)
  ultimately have loop: "parse_poll_records words ?n (of_nat ?e) (HOLD_DEVICE_CONFIG + of_nat ?e) [0..<?n] [] = Inl e"
    by simp
  show ?thesis
    unfolding parse_poll_table_def Let_def count ok_or_simps and_then_simps term_addr total total_end
    using b(1,2,3) te n1 len(2) w loop by (simp add: word_le_nat_alt)
qed

text \<open>What the handheld writes is not what the firmware runs.  After any function table has been written over
  Bluetooth and acknowledged, the control logic finds no record in memory and the poll table is rejected, because
  both parsers read the stored addresses as offsets.\<close>

theorem device_table_is_not_run:
  assumes "bus_wf s" and "is_table recs"
  shows "\<exists>s' e. store_device_function_config (legacy_packet recs) s = (env_holding_save_ok (bus_env s), s') \<and>
    parse_table (sn_holding_buf (bus_storage s')) = empty_table \<and>
    parse_poll_table (sn_holding_buf (bus_storage s')) = Inl e"
proof -
  have n: "length (sn_holding_buf (bus_storage s)) = 2048" using assms(1) by (simp add: bus_wf_def storage_wf_def)
  obtain s' where "store_device_function_config (legacy_packet recs) s = (env_holding_save_ok (bus_env s), s')"
    "sn_holding_buf (bus_storage s') =
      (copy_at (sn_holding_buf (bus_storage s)) 124 (stored_table recs))[PROTECT_INDEX := 0]"
    using store_table_result [OF assms] by blast
  then show ?thesis
    using stored_table_ignored [OF assms(2) n] stored_table_rejected [OF assms(2) n] by auto
qed

theorem device_table_is_not_run_witness:
  "\<exists>s' e. store_device_function_config [1, 0, 3, 0x11, 0x22] (bus_start env_idle) = (True, s') \<and>
    parse_table (sn_holding_buf (bus_storage s')) = empty_table \<and>
    parse_poll_table (sn_holding_buf (bus_storage s')) = Inl e"
proof -
  have p: "legacy_packet [[3, 0x11, 0x22]] = [1, 0, 3, 0x11, 0x22]"
    by (simp add: legacy_packet_def le_bytes_def hi8_def lo8_def)
  have "is_table [[3, 0x11, 0x22]]" unfolding is_table_def p by (simp add: is_record_def)
  from device_table_is_not_run [OF bus_wf_idle this] show ?thesis
    unfolding p by (simp add: bus_start_def env_idle_def)
qed

end
