(* ===== verification/Utf8.thy ===== *)
theory Utf8 imports Prelude begin

text \<open>
  The UTF-8 functions of the standard library that the firmware uses: \<open>str::from_utf8\<close> accepts exactly the
  well-formed byte strings, \<open>String::from_utf8_lossy\<close> replaces every maximal ill-formed part by the
  replacement character.
\<close>

definition is_cont :: "u8 \<Rightarrow> bool" where
  "is_cont b \<longleftrightarrow> 0x80 \<le> b \<and> b \<le> 0xBF"

text \<open>How many bytes after a first byte, and the range of the first of them.\<close>

definition utf8_lead :: "u8 \<Rightarrow> (nat \<times> u8 \<times> u8) option" where
  "utf8_lead b =
     (if b < 0x80 then Some (0, 0x80, 0xBF)
      else if 0xC2 \<le> b \<and> b \<le> 0xDF then Some (1, 0x80, 0xBF)
      else if b = 0xE0 then Some (2, 0xA0, 0xBF)
      else if b = 0xED then Some (2, 0x80, 0x9F)
      else if 0xE1 \<le> b \<and> b \<le> 0xEF then Some (2, 0x80, 0xBF)
      else if b = 0xF0 then Some (3, 0x90, 0xBF)
      else if 0xF1 \<le> b \<and> b \<le> 0xF3 then Some (3, 0x80, 0xBF)
      else if b = 0xF4 then Some (3, 0x80, 0x8F)
      else None)"

text \<open>The continuation bytes present, at most \<open>n\<close>, the first in the given range.\<close>

fun utf8_cont :: "nat \<Rightarrow> u8 \<Rightarrow> u8 \<Rightarrow> u8 list \<Rightarrow> nat" where
  "utf8_cont 0 lo hi bs = 0"
| "utf8_cont (Suc n) lo hi [] = 0"
| "utf8_cont (Suc n) lo hi (b # bs) = (if lo \<le> b \<and> b \<le> hi then Suc (utf8_cont n 0x80 0xBF bs) else 0)"

text \<open>The first character of a string: whether it is well formed, and its length.\<close>

definition utf8_step :: "u8 \<Rightarrow> u8 list \<Rightarrow> bool \<times> nat" where
  "utf8_step b bs =
     (case utf8_lead b of
        None \<Rightarrow> (False, 1)
      | Some (n, lo, hi) \<Rightarrow> let k = utf8_cont n lo hi bs in (k = n, Suc k))"

lemma utf8_step_pos: "0 < snd (utf8_step b bs)"
  by (simp add: utf8_step_def Let_def split: option.split)

function utf8_lossy :: "u8 list \<Rightarrow> u8 list" where
  "utf8_lossy [] = []"
| "utf8_lossy (b # bs) =
     (let (ok, n) = utf8_step b bs in
      (if ok then take n (b # bs) else [0xEF, 0xBF, 0xBD]) @ utf8_lossy (drop (n - 1) bs))"
  by pat_completeness auto
termination by (relation "measure length") auto

function utf8_valid :: "u8 list \<Rightarrow> bool" where
  "utf8_valid [] = True"
| "utf8_valid (b # bs) = (let (ok, n) = utf8_step b bs in ok \<and> utf8_valid (drop (n - 1) bs))"
  by pat_completeness auto
termination by (relation "measure length") auto

declare utf8_lossy.simps(2) [simp del] utf8_valid.simps(2) [simp del]

lemma utf8_lossy_valid: "utf8_valid bs \<Longrightarrow> utf8_lossy bs = bs"
proof (induction bs rule: utf8_lossy.induct)
  case (2 b bs)
  obtain ok n where st: "utf8_step b bs = (ok, n)" by fastforce
  then have n: "0 < n" using utf8_step_pos [of b bs] by simp
  then obtain m where m: "n = Suc m" by (cases n) auto
  have "ok" "utf8_valid (drop (n - 1) bs)" using 2(2) by (simp_all add: utf8_valid.simps st)
  then show ?case using 2(1) [OF st [symmetric] refl] by (simp add: utf8_lossy.simps st m)
qed simp

lemma utf8_valid_ascii: "list_all (\<lambda>b. b < 0x80) bs \<Longrightarrow> utf8_valid bs"
  by (induction bs) (simp_all add: utf8_valid.simps utf8_step_def utf8_lead_def)

end
