(* ===== verification/Rust_Str.thy ===== *)
theory Rust_Str imports Utf8 begin

text \<open>
  The string functions of the standard library that the firmware uses, on strings as UTF-8 bytes: trimming,
  splitting at an ASCII character, decimal text and its parser.
\<close>

section \<open>Characters\<close>

text \<open>The characters of a string, each with its bytes.\<close>

function utf8_chars :: "u8 list \<Rightarrow> u8 list list" where
  "utf8_chars [] = []"
| "utf8_chars (b # bs) = (let n = snd (utf8_step b bs) in take n (b # bs) # utf8_chars (drop (n - 1) bs))"
  by pat_completeness auto
termination by (relation "measure length") auto

declare utf8_chars.simps(2) [simp del]

section \<open>Trimming\<close>

text \<open>\<open>char::is_whitespace\<close>.\<close>

definition char_is_whitespace :: "u8 list \<Rightarrow> bool" where
  "char_is_whitespace c =
     (case c of
        [a] \<Rightarrow> (0x09 \<le> a \<and> a \<le> 0x0D) \<or> a = 0x20
      | [a, b] \<Rightarrow> a = 0xC2 \<and> (b = 0x85 \<or> b = 0xA0)
      | [a, b, d] \<Rightarrow> (a, b, d) = (0xE1, 0x9A, 0x80) \<or> (a, b) = (0xE2, 0x80) \<and> (0x80 \<le> d \<and> d \<le> 0x8A \<or> d \<in> {0xA8, 0xA9, 0xAF}) \<or>
          (a, b, d) = (0xE2, 0x81, 0x9F) \<or> (a, b, d) = (0xE3, 0x80, 0x80)
      | _ \<Rightarrow> False)"

definition str_trim_start :: "u8 list \<Rightarrow> u8 list" where
  "str_trim_start s = concat (dropWhile char_is_whitespace (utf8_chars s))"

definition str_trim :: "u8 list \<Rightarrow> u8 list" where
  "str_trim s = concat (rev (dropWhile char_is_whitespace (rev (dropWhile char_is_whitespace (utf8_chars s)))))"

lemma utf8_chars_nonempty: "c \<in> set (utf8_chars s) \<Longrightarrow> c \<noteq> []"
proof (induction s rule: utf8_chars.induct)
  case (2 b bs)
  obtain ok n where st: "utf8_step b bs = (ok, n)" by fastforce
  then obtain m where "n = Suc m" using utf8_step_pos [of b bs] by (cases n) auto
  with 2 st show ?case by (auto simp: utf8_chars.simps)
qed simp

lemma concat_utf8_chars: "concat (utf8_chars s) = s"
proof (induction s rule: utf8_chars.induct)
  case (2 b bs)
  obtain ok n where st: "utf8_step b bs = (ok, n)" by fastforce
  then obtain m where m: "n = Suc m" using utf8_step_pos [of b bs] by (cases n) auto
  with 2 st show ?case by (simp add: utf8_chars.simps)
qed simp

lemma length_concat_dropWhile: "length (concat (dropWhile p xs)) \<le> length (concat xs)"
  by (induction xs) auto

lemma length_str_trim: "length (str_trim s) \<le> length s"
proof -
  have "length (concat (rev xs)) = length (concat xs)" for xs :: "u8 list list"
    by (simp add: length_concat rev_map [symmetric] sum_list_rev)
  then show ?thesis
    using length_concat_dropWhile [of char_is_whitespace "rev (dropWhile char_is_whitespace (utf8_chars s))"]
      length_concat_dropWhile [of char_is_whitespace "utf8_chars s"]
    by (simp add: str_trim_def concat_utf8_chars)
qed

section \<open>Splitting\<close>

fun split_on :: "u8 \<Rightarrow> u8 list \<Rightarrow> u8 list list" where
  "split_on c [] = [[]]"
| "split_on c (b # bs) =
     (if b = c then [] # split_on c bs
      else case split_on c bs of [] \<Rightarrow> [[b]] | p # ps \<Rightarrow> (b # p) # ps)"

text \<open>\<open>split_once\<close>, and \<open>splitn(2, c)\<close> and \<open>splitn(3, c)\<close> through it.\<close>

fun split_once :: "u8 \<Rightarrow> u8 list \<Rightarrow> (u8 list \<times> u8 list) option" where
  "split_once c [] = None"
| "split_once c (b # bs) =
     (if b = c then Some ([], bs)
      else map_option (\<lambda>(l, r). (b # l, r)) (split_once c bs))"

fun splitn :: "nat \<Rightarrow> u8 \<Rightarrow> u8 list \<Rightarrow> u8 list list" where
  "splitn 0 c s = []"
| "splitn (Suc 0) c s = [s]"
| "splitn (Suc (Suc n)) c s = (case split_once c s of None \<Rightarrow> [s] | Some (l, r) \<Rightarrow> l # splitn (Suc n) c r)"

lemma split_on_nonempty: "split_on c s \<noteq> []"
  by (cases s) (simp_all split: list.split)

lemma split_on_no: "c \<notin> set s \<Longrightarrow> split_on c s = [s]"
  by (induction s) auto

lemma split_on_append: "c \<notin> set s \<Longrightarrow> split_on c (s @ c # t) = s # split_on c t"
  by (induction s) auto

lemma split_once_append: "c \<notin> set s \<Longrightarrow> split_once c (s @ c # t) = Some (s, t)"
  by (induction s) auto

section \<open>Numbers\<close>

definition dec_digit :: "u8 \<Rightarrow> nat option" where
  "dec_digit b = (if 0x30 \<le> b \<and> b \<le> 0x39 then Some (unat b - 48) else None)"

fun dec_value :: "nat \<Rightarrow> u8 list \<Rightarrow> nat option" where
  "dec_value acc [] = Some acc"
| "dec_value acc (b # bs) = (case dec_digit b of None \<Rightarrow> None | Some d \<Rightarrow> dec_value (acc * 10 + d) bs)"

text \<open>\<open>str::parse\<close> of an unsigned integer with the largest value \<open>mx\<close>: an optional plus sign and at least
  one digit.\<close>

definition parse_uint :: "nat \<Rightarrow> u8 list \<Rightarrow> nat option" where
  "parse_uint mx s =
     (if s = [] \<or> s = [0x2B] \<or> s = [0x2D] then None
      else let digits = (case s of b # bs \<Rightarrow> if b = 0x2B then bs else s | [] \<Rightarrow> s)
        in case dec_value 0 digits of None \<Rightarrow> None | Some n \<Rightarrow> if n \<le> mx then Some n else None)"

abbreviation (input) U8_MAX :: nat where "U8_MAX \<equiv> 255"
abbreviation (input) U16_MAX :: nat where "U16_MAX \<equiv> 65535"
abbreviation (input) USIZE_MAX :: nat where "USIZE_MAX \<equiv> 4294967295"

lemma parse_uint_le: "parse_uint mx s = Some n \<Longrightarrow> n \<le> mx"
  by (auto simp: parse_uint_def Let_def split: if_splits option.splits)

text \<open>Decimal text, as \<open>{}\<close> of \<open>format!\<close> writes it.\<close>

fun fmt_dec :: "nat \<Rightarrow> u8 list" where
  "fmt_dec n = (if n < 10 then [of_nat (48 + n)] else fmt_dec (n div 10) @ [of_nat (48 + n mod 10)])"

declare fmt_dec.simps [simp del]

lemma dec_value_append: "dec_value acc (xs @ [b]) =
    (case dec_value acc xs of None \<Rightarrow> None | Some v \<Rightarrow> map_option (\<lambda>d. v * 10 + d) (dec_digit b))"
  by (induction xs arbitrary: acc) (auto split: option.split)

lemma dec_digit_fmt: "d < 10 \<Longrightarrow> dec_digit (of_nat (48 + d)) = Some d"
proof -
  assume d: "d < 10"
  then have u: "unat (of_nat (48 + d) :: u8) = 48 + d" by (subst unat_of_nat) simp
  then show ?thesis using d by (simp add: dec_digit_def word_le_nat_alt)
qed

lemma dec_value_fmt: "dec_value 0 (fmt_dec n) = Some n"
proof (induction n rule: fmt_dec.induct)
  case (1 n)
  show ?case
  proof (cases "n < 10")
    case True
    then show ?thesis using dec_digit_fmt [of n] by (simp add: fmt_dec.simps)
  next
    case False
    then show ?thesis using 1 dec_digit_fmt [of "n mod 10"] by (subst fmt_dec.simps) (simp add: dec_value_append)
  qed
qed

lemma fmt_dec_digits: "b \<in> set (fmt_dec n) \<Longrightarrow> 0x30 \<le> b \<and> b \<le> 0x39"
proof (induction n rule: fmt_dec.induct)
  case (1 n)
  have d: "0x30 \<le> (of_nat (48 + k) :: u8) \<and> (of_nat (48 + k) :: u8) \<le> 0x39" if "k < 10" for k
  proof -
    have u: "unat (of_nat (48 + k) :: u8) = 48 + k" using that by (subst unat_of_nat) simp
    then show ?thesis using that by (simp add: word_le_nat_alt)
  qed
  show ?case using 1 d [of n] d [of "n mod 10"] by (subst (asm) (2) fmt_dec.simps) (auto split: if_splits)
qed

lemma fmt_dec_not_empty: "fmt_dec n \<noteq> []"
  by (subst fmt_dec.simps) simp

lemma parse_fmt_dec: "n \<le> mx \<Longrightarrow> parse_uint mx (fmt_dec n) = Some n"
proof -
  assume n: "n \<le> mx"
  obtain b bs where f: "fmt_dec n = b # bs" using fmt_dec_not_empty [of n] by (cases "fmt_dec n") auto
  have b: "0x30 \<le> b \<and> b \<le> 0x39" using fmt_dec_digits [of b n] f by simp
  then have "b \<noteq> 0x2B" "b \<noteq> 0x2D" by (auto simp: word_le_nat_alt)
  then show ?thesis using n dec_value_fmt [of n] unfolding f by (simp add: parse_uint_def)
qed

section \<open>ASCII case\<close>

definition ascii_lower :: "u8 \<Rightarrow> u8" where
  "ascii_lower b = (if 0x41 \<le> b \<and> b \<le> 0x5A then b + 32 else b)"

definition ascii_upper :: "u8 \<Rightarrow> u8" where
  "ascii_upper b = (if 0x61 \<le> b \<and> b \<le> 0x7A then b - 32 else b)"

definition eq_ignore_ascii_case :: "u8 list \<Rightarrow> u8 list \<Rightarrow> bool" where
  "eq_ignore_ascii_case a b \<longleftrightarrow> map ascii_lower a = map ascii_lower b"

end
