(* ===== verification/Ble_Protocol.thy ===== *)
theory Ble_Protocol imports Ble_Link Ble_Logic Utf8 begin

text \<open>
  The binary protocol of the handheld (\<open>src/ble_at/mod.rs\<close>): a request in a slot is checked and dispatched to the
  heartbeat, the device information reads, the configuration texts, the MCA commands, the logic commands or
  the Modbus server, and its answer is queued as a frame.
\<close>

abbreviation (input) BLE_RESPONSE_DATA_MAX :: nat where "BLE_RESPONSE_DATA_MAX \<equiv> 251"
abbreviation (input) FUNC_COUNT :: u16 where "FUNC_COUNT \<equiv> 0x08FC"

record ble_env =
  be_locks :: ble_locks
  be_now :: u64
  be_bt_mac :: "u8 list"
  be_outcome :: "string \<Rightarrow> nvs_outcome"

type_synonym ble_state = "ble_link \<times> bus_state \<times> nvs option"

definition ble_send :: "ble_env \<Rightarrow> u16 \<Rightarrow> u16 \<Rightarrow> u8 list \<Rightarrow> ble_state \<Rightarrow> ble_state" where
  "ble_send e tx_id proto_id pdu st =
     (let (l, s, nv) = st; (l, s) = send_ble_frame (be_locks e) (be_now e) tx_id proto_id pdu (l, s) in (l, s, nv))"

definition request_ble_reset :: "bus_state \<Rightarrow> bus_state" where
  "request_ble_reset s = s\<lparr>bus_io := (bus_io s)\<lparr>io_sys := request_reset BLE_AT (io_sys (bus_io s))\<rparr>\<rparr>"

section \<open>Modbus requests\<close>

definition is_final_logic_table_block :: "u16 list \<Rightarrow> u16 \<Rightarrow> u16 \<Rightarrow> u16 \<Rightarrow> u16 \<Rightarrow> nat \<Rightarrow> bool" where
  "is_final_logic_table_block holding holding_base logic_base holding_end address cnt =
     (case checked_sub logic_base holding_base of
        None \<Rightarrow> False
      | Some base \<Rightarrow>
          (case get_opt holding (unat base) of
             None \<Rightarrow> False
           | Some logic_count \<Rightarrow>
               if logic_count = 0 then address = logic_base \<and> cnt \<ge> 2
               else if logic_count > 255 then False
               else case get_opt holding (unat base + unat logic_count + 1) of
                 None \<Rightarrow> False
               | Some terminal_offset \<Rightarrow>
                   if terminal_offset < logic_count + 2 then False
                   else let end = unat address + cnt; declared_end = unat logic_base + unat terminal_offset
                     in end \<le> unat holding_end + 1 \<and> (end = declared_end \<or> end = declared_end + 1)))"

definition is_final_handheld_logic_block :: "u16 \<Rightarrow> nat \<Rightarrow> bus_state \<Rightarrow> bool" where
  "is_final_handheld_logic_block address cnt s =
     is_final_logic_table_block (sn_holding_buf (bus_storage s)) HOLD_PXX_BASE HOLD_DEVICE_CONFIG HOLD_CFG_END address cnt"

definition validate_handheld_ip_write_pdu :: "u8 list \<Rightarrow> bool" where
  "validate_handheld_ip_write_pdu pdu \<longleftrightarrow>
     length pdu = 29 \<and> pdu ! 4 = 24 \<and> list_all (\<lambda>k. pdu ! (5 + 2 * k) = 0) [0..<12]"

definition is_handheld_ip_write :: "u8 \<Rightarrow> u8 list \<Rightarrow> bool" where
  "is_handheld_ip_write func pdu \<longleftrightarrow>
     func = 0x10 \<and> length pdu = 29 \<and> be16 (pdu ! 0) (pdu ! 1) = HOLD_IP_BASE \<and>
     be16 (pdu ! 2) (pdu ! 3) = 12 \<and> pdu ! 4 = 24"

definition is_handheld_logic_write :: "u8 \<Rightarrow> u8 list \<Rightarrow> bool" where
  "is_handheld_logic_write func pdu \<longleftrightarrow>
     func = 0x10 \<and> length pdu \<ge> 7 \<and> be16 (pdu ! 0) (pdu ! 1) \<ge> HOLD_DEVICE_CONFIG \<and>
     be16 (pdu ! 0) (pdu ! 1) \<le> HOLD_CFG_END \<and> unat (pdu ! 4) = length pdu - 5 \<and> unat (pdu ! 4) mod 2 = 0 \<and>
     unat (be16 (pdu ! 2) (pdu ! 3)) = unat (pdu ! 4) div 2"

definition handheld_ip_write :: "u8 list \<Rightarrow> u8 list \<Rightarrow> bus_state \<Rightarrow> nat \<times> u8 list \<times> bus_state" where
  "handheld_ip_write pdu buf s =
     (if \<not> validate_handheld_ip_write_pdu pdu then (2, buf[0 := 0x90, 1 := 0x03], s)
      else let (written, buf, s) = handle_pdu bus_backend s 0x10 pdu buf in
        if written \<ge> 2 \<and> buf ! 0 = 0x10
        then (case persist_config_now s of
                (True, s) \<Rightarrow> (written, buf, request_ble_reset s)
              | (False, s) \<Rightarrow> (2, buf[0 := 0x90, 1 := 0x04], s))
        else (written, buf, s))"

definition handheld_logic_write :: "u8 list \<Rightarrow> u8 list \<Rightarrow> bus_state \<Rightarrow> nat \<times> u8 list \<times> bus_state" where
  "handheld_logic_write pdu buf s =
     (let address = be16 (pdu ! 0) (pdu ! 1); cnt = unat (be16 (pdu ! 2) (pdu ! 3));
          (written, buf, s) = handle_pdu bus_backend (arm_logic_write s) 0x10 pdu buf
      in if written \<ge> 2 \<and> buf ! 0 = 0x10
         then if is_final_handheld_logic_block address cnt s
           then (case save_holding s of
                   (True, s) \<Rightarrow> (written, buf, s)
                 | (False, s) \<Rightarrow> (2, buf[0 := 0x90, 1 := 0x04], s))
           else (written, buf, s)
         else (written, buf, disarm_logic_write s))"

definition build_embedded_modbus_response :: "u8 list \<Rightarrow> bus_state \<Rightarrow> u8 list option \<times> bus_state" where
  "build_embedded_modbus_response frame s =
     (case frame of
        slave # func # pdu \<Rightarrow>
          let buf = replicate PDU_BUF_SIZE 0;
              (n, buf, s) =
                (if is_handheld_ip_write func pdu then handheld_ip_write pdu buf s
                 else if is_handheld_logic_write func pdu then handheld_logic_write pdu buf s
                 else handle_pdu bus_backend s func pdu buf)
          in (Some (slave # take n buf), s)
      | _ \<Rightarrow> (None, s))"

definition handle_modbus_rtu :: "ble_env \<Rightarrow> u8 list \<Rightarrow> u16 \<Rightarrow> u16 \<Rightarrow> ble_state \<Rightarrow> bool \<times> ble_state" where
  "handle_modbus_rtu e frame tx_id proto_id st =
     (let (l, s, nv) = st in
      case build_embedded_modbus_response frame s of
        (None, s) \<Rightarrow> (False, l, s, nv)
      | (Some response, s) \<Rightarrow> (True, ble_send e tx_id proto_id response (l, s, nv)))"

section \<open>Configuration texts\<close>

definition hold_words_be :: "bus_state \<Rightarrow> u16 \<Rightarrow> nat \<Rightarrow> u8 list" where
  "hold_words_be s addr n =
     concat (map (\<lambda>i. be_bytes (case read_hold_reg s (saturating_add addr (of_nat i)) of None \<Rightarrow> 0 | Some v \<Rightarrow> v)) [0..<n])"

definition text_write :: "u8 \<Rightarrow> u8 list \<Rightarrow> bus_state \<Rightarrow> u8 list option \<times> bus_state" where
  "text_write func pdu s =
     (let addr = be16 (pdu ! 0) (pdu ! 1); cnt = unat (be16 (pdu ! 2) (pdu ! 3)) in
      if length pdu < 5 then (None, s)
      else let byte_count = unat (pdu ! 4) in
      if byte_count > MAX_REGS_PER_WRITE * 2 \<or> length pdu \<noteq> 5 + byte_count \<or> byte_count \<noteq> cnt * 2 then (None, s)
      else let write_addr = (if func = 0xB5 then DEVICE_TEXT_BASE else addr);
               vs = map (\<lambda>i. be16 (pdu ! (5 + i * 2)) (pdu ! (5 + i * 2 + 1))) [0..<cnt];
               s = (if func = 0xB3 then arm_logic_write s else s);
               (written, s) = write_hold_regs write_addr vs s;
               s = (if func = 0xB3 \<and> \<not> written then disarm_logic_write s else s)
           in if \<not> written then (None, s)
              else (Some (be_bytes write_addr @ be_bytes (of_nat cnt)), s))"

definition handle_handheld_config_text :: "ble_env \<Rightarrow> u8 \<Rightarrow> u8 list \<Rightarrow> u16 \<Rightarrow> u16 \<Rightarrow> u8 \<Rightarrow> ble_state \<Rightarrow> bool \<times> ble_state" where
  "handle_handheld_config_text e func pdu tx_id proto_id unit st =
     (let (l, s, nv) = st in
      if length pdu < 4 then (False, st)
      else if func = 0xB2 \<or> func = 0xB4 \<or> func = 0xB6
      then let addr = (if func = 0xB4 then DEVICE_TEXT_BASE else be16 (pdu ! 0) (pdu ! 1));
               n = min (unat (be16 (pdu ! 2) (pdu ! 3))) MAX_REGS_PER_WRITE;
               bytes = hold_words_be s addr n
           in (True, ble_send e tx_id proto_id ([unit, func, of_nat (length bytes)] @ bytes) st)
      else if func = 0xB3 \<or> func = 0xB5 \<or> func = 0xB7
      then (case text_write func pdu s of
              (None, s) \<Rightarrow> (False, l, s, nv)
            | (Some echo, s) \<Rightarrow> (True, ble_send e tx_id proto_id ([unit, func] @ echo) (l, s, nv)))
      else (False, st))"

section \<open>MCA commands\<close>

definition write_legacy_words_le :: "u16 \<Rightarrow> u8 list \<Rightarrow> nat \<Rightarrow> bus_state \<Rightarrow> bool \<times> bus_state" where
  "write_legacy_words_le base bytes word_count s =
     (if length bytes \<noteq> word_count * 2 then (False, s)
      else if length (le_words bytes) > 9 then (False, s)
      else write_hold_regs base (le_words bytes) s)"

definition read_legacy_words_le :: "u16 \<Rightarrow> u16 \<Rightarrow> bus_state \<Rightarrow> u8 list" where
  "read_legacy_words_le base cnt s =
     concat (map (\<lambda>i. le_bytes (case read_hold_reg s (base + of_nat i) of None \<Rightarrow> 0 | Some v \<Rightarrow> v)) [0..<unat cnt])"

definition write_ble_name_bytes :: "u8 list \<Rightarrow> bus_state \<Rightarrow> bool \<times> bus_state" where
  "write_ble_name_bytes bytes s =
     (if bytes = [] \<or> length bytes > 8 then (False, s)
      else let (_, s) = config_modify (\<lambda>c. ((), c\<lparr>sc_ble_name := copy_at (replicate (length (sc_ble_name c)) 0) 0 bytes\<rparr>)) s
           in (True, notify_ble_name_changed (request_persist_config (sync_ble_name_holding s))))"

fun switch_outputs :: "u8 list \<Rightarrow> bus_state \<Rightarrow> bool \<times> bus_state" where
  "switch_outputs (ch # v # rest) s =
     (if unat ch \<ge> DO_COUNT then (False, s)
      else case write_coil (COIL_DO_BASE + ucast ch) (v \<noteq> 0) s of
        (False, s) \<Rightarrow> (False, s)
      | (True, s) \<Rightarrow> switch_outputs rest s)"
| "switch_outputs _ s = (True, s)"

definition persist_and_reset :: "bus_state \<Rightarrow> bool \<times> bus_state" where
  "persist_and_reset s =
     (case persist_config_now s of (False, s) \<Rightarrow> (False, s) | (True, s) \<Rightarrow> (True, request_ble_reset s))"

definition set_net_info :: "u8 list \<Rightarrow> bus_state \<Rightarrow> bool \<times> bus_state" where
  "set_net_info data s =
     (if length data \<noteq> 12 then (False, s)
      else case write_hold_regs HOLD_IP_BASE (map ucast (slice data 0 4)) s of
        (False, s) \<Rightarrow> (False, s)
      | (True, s) \<Rightarrow>
          (case write_hold_regs HOLD_MASK_BASE (map ucast (slice data 8 12)) s of
             (False, s) \<Rightarrow> (False, s)
           | (True, s) \<Rightarrow>
               (case write_hold_regs HOLD_GW_BASE (map ucast (slice data 4 8)) s of
                  (False, s) \<Rightarrow> (False, s)
                | (True, s) \<Rightarrow> persist_and_reset s)))"

definition set_eth_mac :: "u8 list \<Rightarrow> bus_state \<Rightarrow> bool \<times> bus_state" where
  "set_eth_mac data s =
     (if length data \<noteq> 6 then (False, s)
      else case write_hold_regs HOLD_MAC_BASE (map ucast data) s of
        (False, s) \<Rightarrow> (False, s)
      | (True, s) \<Rightarrow> persist_and_reset s)"

text \<open>The answer of a command that only writes: the function and a zero.\<close>

definition custom_ack :: "u8 \<Rightarrow> u8 list" where
  "custom_ack func = [func, 0]"

definition acked :: "u8 \<Rightarrow> bool \<times> bus_state \<Rightarrow> u8 list option \<times> bus_state" where
  "acked func r = (if fst r then (Some (custom_ack func), snd r) else (None, snd r))"

definition input_state_answer :: "u8 list \<Rightarrow> bus_state \<Rightarrow> u8 list option" where
  "input_state_answer data s =
     (case data of
        [] \<Rightarrow> None
      | n # _ \<Rightarrow>
          if unat n = 0 \<or> unat n > DI_COUNT then None
          else Some (n # map (\<lambda>g. packed_group (\<lambda>ch. case read_disc s (of_nat ch) of None \<Rightarrow> False | Some b \<Rightarrow> b) (unat n) (g * 8))
                 [0..<div_ceil (unat n) 8]))"

definition build_mca_custom_response :: "u8 \<Rightarrow> u8 list \<Rightarrow> bus_state \<Rightarrow> u8 list option \<times> bus_state" where
  "build_mca_custom_response func data s =
     (let c = bus_config s; answer = (\<lambda>bytes. (Some (custom_ack func @ bytes), s)) in
      if func = 0xC0 then
        (if data = [] \<or> length data mod 2 \<noteq> 0 then (None, s) else acked func (switch_outputs data s))
      else if func = 0xC1 then (map_option (\<lambda>bytes. custom_ack func @ bytes) (input_state_answer data s), s)
      else if func = 0xC2 then answer (read_legacy_words_le HOLD_SN_BASE HOLD_SN_COUNT s)
      else if func = 0xC3 then acked func (write_legacy_words_le HOLD_SN_BASE data (unat HOLD_SN_COUNT) s)
      else if func = 0xC4 then answer (read_legacy_words_le HOLD_PLACE_BASE HOLD_PLACE_COUNT s)
      else if func = 0xC5 then acked func (write_legacy_words_le HOLD_PLACE_BASE data (unat HOLD_PLACE_COUNT) s)
      else if func = 0xC6 then answer (sc_eth_mac c)
      else if func = 0xC7 then acked func (set_eth_mac data s)
      else if func = 0xC8 then
        (case read_hold_reg s HOLD_TCP_COM_BASE of None \<Rightarrow> (None, s) | Some v \<Rightarrow> answer (le_bytes v))
      else if func = 0xC9 then
        (if length data \<noteq> 2 then (None, s)
         else acked func (write_hold_reg HOLD_TCP_COM_BASE (le16 (data ! 0) (data ! 1)) s))
      else if func = 0xCA then answer (take 2 (sc_ble_name c))
      else if func = 0xCB then acked func (write_ble_name_bytes data s)
      else if func = 0xCC then
        answer (le_bytes (case read_hold_reg s HOLD_HW_VER of None \<Rightarrow> 0 | Some v \<Rightarrow> v))
      else if func = 0xCD then acked func (set_net_info data s)
      else if func = 0xCE then answer (sc_ip c @ sc_mask c @ sc_gateway c)
      else if func = 0xCF then
        answer [ucast (sc_fw_version c div 100), ucast (sc_fw_version c mod 100 div 10), ucast (sc_fw_version c mod 10),
                ucast (drop_bit 8 (sc_fw_date c)), ucast (sc_fw_date c)]
      else (None, s))"

definition handle_mca_custom_command :: "ble_env \<Rightarrow> u8 \<Rightarrow> u8 list \<Rightarrow> u16 \<Rightarrow> u16 \<Rightarrow> ble_state \<Rightarrow> bool \<times> ble_state" where
  "handle_mca_custom_command e func data tx_id proto_id st =
     (let (l, s, nv) = st in
      case build_mca_custom_response func data s of
        (None, s) \<Rightarrow> (False, l, s, nv)
      | (Some rsp, s) \<Rightarrow>
          (case (if func = 0xC7 \<or> func = 0xCD then request_persist_config_and_reset s else (True, s)) of
             (False, s) \<Rightarrow> (False, l, s, nv)
           | (True, s) \<Rightarrow> (True, ble_send e tx_id proto_id rsp (l, s, nv))))"

section \<open>Device information\<close>

definition baud_to_index :: "u32 \<Rightarrow> u8" where
  "baud_to_index baud =
     (case map_of [(9600, 0), (1200, 1), (2400, 2), (4800, 3), (14400, 5), (19200, 6), (38400, 7), (57600, 8),
        (115200, 9), (128000, 10), (153600, 11), (230400, 12), (256000, 13), (460800, 14), (921600, 15)] baud of
        Some i \<Rightarrow> i | None \<Rightarrow> 0)"

definition encode_ble_name_read_response :: "u8 list \<Rightarrow> u8 list" where
  "encode_ble_name_read_response ble_name = of_nat (length (until_nul ble_name)) # ble_name"

definition encode_android_ip_read_response :: "u8 list \<Rightarrow> u8 list \<Rightarrow> u8 list \<Rightarrow> u8 list" where
  "encode_android_ip_read_response ip netmask gateway = 24 # concat (map (\<lambda>octet. [0, octet]) (ip @ netmask @ gateway))"

definition android_rs485_mode :: "u8 \<Rightarrow> u8" where
  "android_rs485_mode internal = (if internal = 0 then 1 else 2)"

definition rs485_answer :: "rs485_config \<Rightarrow> u8 list" where
  "rs485_answer r =
     (let packed = push_bit 4 (baud_to_index (rs_baudrate r) AND 0xF) OR push_bit 2 (rs_parity r AND 3) OR
            push_bit 1 (if rs_stop_bits r \<ge> 2 then 1 else 0) OR (if rs_data_bits r = 7 then 1 else 0)
      in [0x0A, packed, android_rs485_mode (rs_mode r), ucast (drop_bit 8 (ucast (rs_slave_addr r) :: u16)), rs_slave_addr r] @
         be_bytes (rs_retry_count r) @ be_bytes (rs_timeout_ms r) @ be_bytes (rs_interval_ms r))"

definition text_answer :: "u8 list \<Rightarrow> u8 list" where
  "text_answer stored =
     (let bytes = utf8_lossy (until_nul stored); n = min (length bytes) (BLE_RESPONSE_DATA_MAX - 1)
      in of_nat n # take n bytes)"

text \<open>Single bytes are pushed while there is room; what does not fit is dropped.\<close>

definition words_answer :: "(u16 \<Rightarrow> u16 option) \<Rightarrow> u16 \<Rightarrow> nat \<Rightarrow> u8 list" where
  "words_answer rd addr n =
     take BLE_RESPONSE_DATA_MAX
       (of_nat (n * 2) # concat (map (\<lambda>i. be_bytes (case rd (addr + of_nat i) of None \<Rightarrow> 0 | Some v \<Rightarrow> v)) [0..<n]))"

definition io_answer :: "(u16 \<Rightarrow> bool option) \<Rightarrow> u16 \<Rightarrow> u16 \<Rightarrow> u8 list" where
  "io_answer rd addr cnt =
     (let bit_count = min (unat cnt) (BLE_RESPONSE_DATA_MAX * 8); n_bytes = div_ceil bit_count 8 in
      take BLE_RESPONSE_DATA_MAX
        (of_nat n_bytes #
         map (\<lambda>i. foldl (\<lambda>acc j. if i * 8 + j < bit_count \<and> rd (addr + of_nat (i * 8 + j)) = Some True
                                  then acc OR push_bit j 1 else acc) 0 [0..<8]) [0..<n_bytes]))"

definition android_read_data :: "u8 \<Rightarrow> u16 \<Rightarrow> u16 \<Rightarrow> bus_state \<Rightarrow> u8 list option" where
  "android_read_data func addr cnt s =
     (let c = bus_config s in
      if addr = 0x087C \<and> cnt = 2 then
        Some [4, of_nat DO_COUNT, of_nat DI_COUNT, ucast AI_COUNT, of_nat (length (sc_rs485 c))]
      else if addr = 0x087E \<and> cnt = 2 then Some (4 # be_bytes (sc_fw_version c) @ be_bytes (sc_fw_date c))
      else if addr = 0x08A5 \<and> cnt = 1 then Some (2 # be_bytes (sc_hw_version c))
      else if addr = 0x08C7 \<and> cnt = 12 then
        Some (encode_android_ip_read_response (sc_ip c) (sc_mask c) (sc_gateway c))
      else if addr = 0x08D7 \<and> cnt = 6 then Some (12 # concat (map (\<lambda>b. [0, b]) (sc_eth_mac c)))
      else if addr = 0x08E2 \<and> cnt = 4 then Some (encode_ble_name_read_response (sc_ble_name c))
      else if addr = 0x0894 \<and> cnt = 9 then Some (text_answer (sc_sn c))
      else if addr = 0x089D \<and> cnt = 8 then Some (text_answer (sc_name c))
      else if (addr = 0x08A6 \<or> addr = 0x08AB \<or> addr = 0x08B0) \<and> cnt = 5 then
        (let port = unat ((addr - 0x08A6) div 5)
         in Some (rs485_answer (if port < length (sc_rs485 c) then sc_rs485 c ! port else sc_rs485 c ! 0)))
      else if addr = 0x0080 then
        Some (words_answer (read_input_reg s) 0x0080 (unat (min cnt AI_COUNT)))
      else if addr = 0x0000 \<or> addr = 0x0200 then
        Some (io_answer (if addr = 0x0200 then read_coil s else read_disc s) addr cnt)
      else if func = 0x04 \<and> \<not> in_range_incl 0x087C 0x087F addr \<and> addr \<noteq> 0x0080 \<and> addr < 0x4000 then
        Some (words_answer (read_input_reg s) addr (min (unat cnt) (BLE_RESPONSE_DATA_MAX div 2)))
      else if func = 0x03 \<and> \<not> in_range_incl 0x087C 0x08FF addr \<and> addr < 0x4000 then
        Some (words_answer (read_hold_reg s) addr (min (unat cnt) (BLE_RESPONSE_DATA_MAX div 2)))
      else None)"

definition handle_ble_android_read_command :: "ble_env \<Rightarrow> u8 \<Rightarrow> u8 list \<Rightarrow> u16 \<Rightarrow> u16 \<Rightarrow> u8 \<Rightarrow> ble_state \<Rightarrow>
    bool \<times> ble_state" where
  "handle_ble_android_read_command e func data tx_id proto_id unit st =
     (if length data < 4 then (False, st)
      else if func \<noteq> 0x03 \<and> func \<noteq> 0x04 then (False, st)
      else case android_read_data func (be16 (data ! 0) (data ! 1)) (be16 (data ! 2) (data ! 3)) (fst (snd st)) of
        None \<Rightarrow> (False, st)
      | Some rsp \<Rightarrow> (True, ble_send e tx_id proto_id ([unit, func] @ rsp) st))"

section \<open>Dispatch\<close>

definition build_heartbeat_pdu :: "u8 list \<Rightarrow> u8 \<Rightarrow> u8 list" where
  "build_heartbeat_pdu mac unit = [unit, 0x11, unit, 0x01] @ mac"

definition send_all :: "ble_env \<Rightarrow> u16 \<Rightarrow> u16 \<Rightarrow> u8 list list \<Rightarrow> ble_state \<Rightarrow> ble_state" where
  "send_all e tx_id proto_id rsps st = foldl (\<lambda>st rsp. ble_send e tx_id proto_id rsp st) st rsps"

text \<open>A frame with a correct checksum.\<close>

definition dispatch_frame :: "ble_env \<Rightarrow> u16 \<Rightarrow> u16 \<Rightarrow> u8 list \<Rightarrow> ble_state \<Rightarrow> bool \<times> ble_state" where
  "dispatch_frame e tx_id proto_id body st =
     (let unit = body ! 0; func = body ! 1; args = drop 2 body in
      if func = 0x11 then (True, ble_send e tx_id proto_id (build_heartbeat_pdu (be_bt_mac e) unit) st)
      else case (if (func = 0x03 \<or> func = 0x04) \<and> length body \<ge> 4
                 then handle_ble_android_read_command e func args tx_id proto_id unit st else (False, st)) of
        (True, st) \<Rightarrow> (True, st)
      | (False, st) \<Rightarrow>
      if func = 0xB0 then
        (let v = (case read_hold_reg (fst (snd st)) FUNC_COUNT of None \<Rightarrow> 0 | Some v \<Rightarrow> v)
         in (True, ble_send e tx_id proto_id ([unit, func] @ be_bytes v) st))
      else if 0xB2 \<le> func \<and> func \<le> 0xB7 then handle_handheld_config_text e func args tx_id proto_id unit st
      else if 0xC0 \<le> func \<and> func \<le> 0xCF then handle_mca_custom_command e func args tx_id proto_id st
      else if func = 0xD3 then (True, send_all e tx_id proto_id (com_request_frames (fst (snd st))) st)
      else let (l, s, nv) = st;
               (rsp, s, nv) = (if 0xD0 \<le> func \<and> func \<le> 0xD2 then dispatch_logic_cmd (be_outcome e) func args (s, nv)
                               else (None, s, nv))
           in case rsp of
                Some rsp \<Rightarrow> (True, ble_send e tx_id proto_id rsp (l, s, nv))
              | None \<Rightarrow> handle_modbus_rtu e body tx_id proto_id (l, s, nv))"

definition try_handle_binary_protocol :: "ble_env \<Rightarrow> u8 list \<Rightarrow> ble_state \<Rightarrow> bool \<times> ble_state" where
  "try_handle_binary_protocol e data st =
     (if length data < 10 then (False, st)
      else let len = unat (be16 (data ! 4) (data ! 5)) in
      if len < 2 then (False, st)
      else if length data < 6 + len + 2 then (False, st)
      else let crc_begin = 6 + len in
      if modbus_crc16 (take crc_begin data) \<noteq> le16 (data ! crc_begin) (data ! (crc_begin + 1)) then (True, st)
      else dispatch_frame e (be16 (data ! 0) (data ! 1)) (be16 (data ! 2) (data ! 3)) (slice data 6 crc_begin) st)"

definition process_binary_request_slot :: "ble_env \<Rightarrow> u8 \<Rightarrow> u16 \<Rightarrow> ble_state \<Rightarrow> ble_state" where
  "process_binary_request_slot e index current_conn st =
     (let (l, s, nv) = st; i = unat index in
      if i \<ge> length (bl_slots l) then st
      else let sl = bl_slots l ! i in
      if sl_state sl \<noteq> RxReady then st
      else let l = set_slot i (sl\<lparr>sl_state := RxProcessing\<rparr>) l;
               release = (\<lambda>(l, s, nv). let (ok, l) = release_binary_rx_slot (be_locks e) index l
                                       in (if ok then l else l\<lparr>bl_dirty := True\<rparr>, s, nv))
           in if sl_conn sl = current_conn \<and> sl_epoch sl = bl_epoch l
              then if lk_slot (be_locks e) i
                then let (ok, l) = try_enqueue_request (be_locks e) index (set_slot i sl l)
                  in (if ok then l else l\<lparr>bl_dirty := True\<rparr>, s, nv)
                else release (snd (try_handle_binary_protocol e (sl_frame sl) (l, s, nv)))
              else release (l, s, nv))"

definition send_di_status_report :: "ble_env \<Rightarrow> ble_state \<Rightarrow> ble_state" where
  "send_di_status_report e st =
     (let di_bits = load_bits (io_di (bus_io (fst (snd st)))) in
      ble_send e 0x0001 0 ([0x01, 0x94] @ map (\<lambda>i. ucast (drop_bit (8 * i) di_bits AND 0xFF)) [0..<div_ceil DI_COUNT 8]) st)"

text \<open>One request is taken from the queue in each tick.\<close>

definition serve_next_request :: "ble_env \<Rightarrow> u16 \<Rightarrow> ble_state \<Rightarrow> ble_state" where
  "serve_next_request e conn st =
     (let (l, s, nv) = st in
      case mpsc_dequeue (lk_requests (be_locks e)) (bl_requests l) of
        (None, q) \<Rightarrow> (l\<lparr>bl_requests := q\<rparr>, s, nv)
      | (Some index, q) \<Rightarrow> process_binary_request_slot e index conn (l\<lparr>bl_requests := q\<rparr>, s, nv))"

section \<open>Modbus over Bluetooth\<close>

definition ble_frame :: "u16 \<Rightarrow> u16 \<Rightarrow> u8 list \<Rightarrow> u8 list" where
  "ble_frame tx_id proto_id body =
     (let f = be_bytes tx_id @ be_bytes proto_id @ be_bytes (of_nat (length body)) @ body in f @ le_bytes (modbus_crc16 f))"

text \<open>The requests that are not treated in a way of their own.\<close>

definition is_plain_request :: "u8 \<Rightarrow> u8 list \<Rightarrow> bool" where
  "is_plain_request func pdu \<longleftrightarrow>
     func < 0xB0 \<and> func \<notin> {0x03, 0x04, 0x11} \<and> \<not> is_handheld_ip_write func pdu \<and> \<not> is_handheld_logic_write func pdu"

definition ble_idle :: "ble_link \<Rightarrow> bool" where
  "ble_idle l \<longleftrightarrow> bl_active l = BLE_SLOT_NONE \<and> length (bl_slots l) = 4 \<and> sl_state (bl_slots l ! 0) = RxFree \<and>
     bl_requests l = [] \<and> tx_live l"

lemma be_bytes_nth: "be_bytes w ! 0 = hi8 w" "be_bytes w ! Suc 0 = lo8 w" "le_bytes w ! 0 = lo8 w" "le_bytes w ! Suc 0 = hi8 w"
  by (simp_all add: be_bytes_def le_bytes_def)

lemma ble_frame_parts:
  fixes tx_id proto_id :: u16 and body :: "u8 list"
  assumes "length body \<le> 504"
  defines "f \<equiv> ble_frame tx_id proto_id body"
  shows "length f = length body + 8" "be16 (f ! 0) (f ! 1) = tx_id" "be16 (f ! 2) (f ! 3) = proto_id"
    "unat (be16 (f ! 4) (f ! 5)) = length body" "slice f 6 (6 + length body) = body"
    "modbus_crc16 (take (6 + length body) f) = le16 (f ! (6 + length body)) (f ! (6 + length body + 1))"
proof -
  let ?h = "be_bytes tx_id @ be_bytes proto_id @ be_bytes (of_nat (length body) :: u16)"
  have f: "f = ?h @ body @ le_bytes (modbus_crc16 (?h @ body))" by (simp add: f_def ble_frame_def Let_def)
  have h: "?h = [hi8 tx_id, lo8 tx_id, hi8 proto_id, lo8 proto_id, hi8 (of_nat (length body)), lo8 (of_nat (length body))]"
    by (simp add: be_bytes_def)
  show "length f = length body + 8" by (simp add: f)
  show "be16 (f ! 0) (f ! 1) = tx_id" "be16 (f ! 2) (f ! 3) = proto_id" unfolding f h by (simp_all add: numeral_2_eq_2 numeral_3_eq_3)
  show "unat (be16 (f ! 4) (f ! 5)) = length body"
    unfolding f h using assms by (simp add: unat_of_nat)
  have t: "take (6 + length body) f = ?h @ body" unfolding f by simp
  then show "slice f 6 (6 + length body) = body" unfolding slice_def t h by simp
  have "f ! (6 + length body) = lo8 (modbus_crc16 (?h @ body))" "f ! (6 + length body + 1) = hi8 (modbus_crc16 (?h @ body))"
    unfolding f by (simp_all add: nth_append le_bytes_def)
  then show "modbus_crc16 (take (6 + length body) f) = le16 (f ! (6 + length body)) (f ! (6 + length body + 1))" unfolding t by simp
qed

lemma build_ble_frame_fits: "length body \<le> 264 \<Longrightarrow> build_ble_frame tx_id proto_id body = Some (ble_frame tx_id proto_id body)"
  by (simp add: build_ble_frame_def ble_frame_def Let_def)

lemma is_ble_frame_built:
  assumes "2 \<le> length body" and "length body \<le> 504"
  shows "is_ble_frame (ble_frame tx_id proto_id body)"
  using ble_frame_parts(1,4) [OF assms(2), of tx_id proto_id] assms
  by (simp add: is_ble_frame_def binary_frame_total_len_def Let_def)

lemma try_handle_frame:
  assumes "2 \<le> length body" and "length body \<le> 504"
  shows "try_handle_binary_protocol e (ble_frame tx_id proto_id body) st = dispatch_frame e tx_id proto_id body st"
  unfolding try_handle_binary_protocol_def Let_def ble_frame_parts [OF assms(2)]
  using assms by simp

lemma ble_send_queues:
  assumes len: "length pdu \<le> 264" and free: "\<not> lk_tx (be_locks e)" and room: "tr_len (bl_tx l) < 8" and live: "tx_live l"
  shows "\<exists>tx. ble_send e tx_id proto_id pdu (l, s, nv) = (l\<lparr>bl_tx := tx\<rparr>, s, nv) \<and>
    pending_bytes (l\<lparr>bl_tx := tx\<rparr>) = pending_bytes l @ ble_frame tx_id proto_id pdu \<and> tx_live (l\<lparr>bl_tx := tx\<rparr>)"
proof -
  let ?f = "ble_frame tx_id proto_id pdu"
  obtain ok tx where push: "tx_try_push ?f (bl_tx l) = (ok, tx)" by fastforce
  have res: "ok" "tx_list tx = tx_list (bl_tx l) @ [\<lparr>tf_bytes = ?f, tf_offset = 0\<rparr>]" "tx_wf tx"
    using tx_push_list [of "bl_tx l" ?f] live room push by (simp_all add: tx_live_def)
  have "length ?f \<noteq> 0" using ble_frame_parts(1) [of pdu] len by simp
  then show ?thesis
    using res push live free len
    by (intro exI [of _ tx]) (simp add: ble_send_def send_ble_frame_def build_ble_frame_fits enqueue_tx_frame_def
        pending_bytes_def tx_live_def)
qed

lemma modbus_response_refines:
  assumes wf: "bus_wf s" and plain: "is_plain_request func pdu"
  shows "build_embedded_modbus_response (unit # func # pdu) s =
      (Some (unit # fst (serve_pdu bus_backend bus_view s func pdu)), snd (serve_pdu bus_backend bus_view s func pdu))"
    "2 \<le> length (fst (serve_pdu bus_backend bus_view s func pdu)) \<and> length (fst (serve_pdu bus_backend bus_view s func pdu)) \<le> 253"
    "bus_wf (snd (serve_pdu bus_backend bus_view s func pdu))"
proof -
  obtain n out s' where run: "handle_pdu bus_backend s func pdu (replicate 253 0) = (n, out, s')" by (rule prod_cases3)
  have len: "length (replicate 253 0 :: u8 list) = 253" by (rule length_replicate)
  note * = bus.handle_pdu_refines [OF wf len run]
  show "build_embedded_modbus_response (unit # func # pdu) s =
      (Some (unit # fst (serve_pdu bus_backend bus_view s func pdu)), snd (serve_pdu bus_backend bus_view s func pdu))"
    using plain run *(1) [symmetric] by (simp add: build_embedded_modbus_response_def is_plain_request_def)
  show "2 \<le> length (fst (serve_pdu bus_backend bus_view s func pdu)) \<and> length (fst (serve_pdu bus_backend bus_view s func pdu)) \<le> 253"
    "bus_wf (snd (serve_pdu bus_backend bus_view s func pdu))"
    unfolding *(1) [symmetric] using *(2-5) by simp_all
qed

lemma dispatch_plain:
  "is_plain_request func pdu \<Longrightarrow> dispatch_frame e tx_id proto_id (unit # func # pdu) st =
    handle_modbus_rtu e (unit # func # pdu) tx_id proto_id st"
  by (cases st) (auto simp: dispatch_frame_def is_plain_request_def word_less_nat_alt word_le_nat_alt)

lemma process_ready_slot:
  assumes "unat index < length (bl_slots l)" and "sl = bl_slots l ! unat index" and "sl_state sl = RxReady" and "sl_conn sl = conn"
    and "sl_epoch sl = bl_epoch l" and "be_locks e = no_locks"
    and "try_handle_binary_protocol e (sl_frame sl) (set_slot (unat index) (sl\<lparr>sl_state := RxProcessing\<rparr>) l, s, nv) = (b, l', s', nv')"
    and "length (bl_slots l') = length (bl_slots l)"
  shows "process_binary_request_slot e index conn (l, s, nv) =
    (set_slot (unat index) ((bl_slots l' ! unat index)\<lparr>sl_frame := [], sl_conn := 0xFFFF, sl_state := RxFree\<rparr>) l', s', nv')"
proof -
  have "bl_epoch (set_slot (unat index) (sl\<lparr>sl_state := RxProcessing\<rparr>) l) = bl_epoch l" by (simp add: set_slot_def)
  then show ?thesis
    unfolding process_binary_request_slot_def Let_def prod.case assms(2) [symmetric]
    using assms(1,3-) by (simp add: release_binary_rx_slot_def no_locks_def Let_def)
qed

lemma exchange_result:
  assumes wf: "bus_wf s" and plain: "is_plain_request func pdu" and len: "length pdu \<le> 502"
    and ds: "concat ds = ble_frame tx_id proto_id (unit # func # pdu)" and ne: "\<forall>d \<in> set ds. d \<noteq> []"
    and bin: "\<not> starts_like_text (hd ds)" and idle: "ble_idle l" and room: "tr_len (bl_tx l) < 8"
    and env: "be_locks e = no_locks"
    and run: "feed_all conn ds (l, s) = (l1, s1)" "serve_next_request e conn (l1, s1, nv) = (l2, s2, nv2)"
  shows "s2 = snd (serve_pdu bus_backend bus_view s func pdu) \<and> nv2 = nv \<and> ble_idle l2 \<and> bus_wf s2 \<and>
    pending_bytes l2 = pending_bytes l @
      ble_frame tx_id proto_id (unit # fst (serve_pdu bus_backend bus_view s func pdu))"
proof -
  let ?body = "unit # func # pdu" let ?r = "serve_pdu bus_backend bus_view s func pdu"
  let ?f = "ble_frame tx_id proto_id ?body"
  let ?sl = "\<lparr>sl_state = RxReady, sl_frame = ?f, sl_conn = conn, sl_epoch = bl_epoch l\<rparr>"
  let ?p = "set_slot 0 (?sl\<lparr>sl_state := RxProcessing\<rparr>) (l\<lparr>bl_slots := (bl_slots l)[0 := ?sl]\<rparr>)"
  have frame: "is_ble_frame (concat ds)" unfolding ds by (rule is_ble_frame_built) (use len in simp_all)
  have link: "bl_active l = BLE_SLOT_NONE" "length (bl_slots l) = 4" "sl_state (bl_slots l ! 0) = RxFree"
    "bl_requests l = []" "tx_live l" using idle by (simp_all add: ble_idle_def)
  have "feed_all conn ds (l, s) = (l\<lparr>bl_slots := (bl_slots l)[0 := ?sl], bl_requests := [0]\<rparr>, s)"
    using fragments_reassembled [OF frame ne bin link(1,2), of 0 conn s] link ds by simp
  then have l1: "l1 = l\<lparr>bl_slots := (bl_slots l)[0 := ?sl], bl_requests := [0]\<rparr>" "s1 = s" using run(1) by simp_all
  note resp = modbus_response_refines [OF wf plain]
  have tx: "\<not> lk_tx (be_locks e)" by (simp add: env no_locks_def)
  have live: "tx_live ?p" "tr_len (bl_tx ?p) < 8" "pending_bytes ?p = pending_bytes l"
    using link room by (simp_all add: tx_live_def set_slot_def pending_bytes_def)
  have small: "length (unit # fst ?r) \<le> 264" using resp(2) by simp
  obtain t where t: "ble_send e tx_id proto_id (unit # fst ?r) (?p, snd ?r, nv) = (?p\<lparr>bl_tx := t\<rparr>, snd ?r, nv)"
    "pending_bytes (?p\<lparr>bl_tx := t\<rparr>) = pending_bytes l @ ble_frame tx_id proto_id (unit # fst ?r)" "tx_live (?p\<lparr>bl_tx := t\<rparr>)"
    using ble_send_queues [OF small tx live(2,1), of tx_id proto_id "snd ?r" nv] live(3) by auto
  have handled: "try_handle_binary_protocol e ?f (?p, s, nv) = (True, ?p\<lparr>bl_tx := t\<rparr>, snd ?r, nv)"
    using try_handle_frame [of ?body e tx_id proto_id "(?p, s, nv)"] dispatch_plain [OF plain, of e tx_id proto_id unit] len t(1) resp(1) [of unit]
    by (simp add: handle_modbus_rtu_def)
  let ?l2 = "set_slot 0 (?sl\<lparr>sl_frame := [], sl_conn := 0xFFFF, sl_state := RxFree\<rparr>) (?p\<lparr>bl_tx := t, bl_requests := []\<rparr>)"
  have deq: "serve_next_request e conn (l1, s1, nv) = process_binary_request_slot e 0 conn (l\<lparr>bl_slots := (bl_slots l)[0 := ?sl], bl_requests := []\<rparr>, s, nv)"
    by (simp add: serve_next_request_def l1 env no_locks_def mpsc_dequeue_def)
  have same: "set_slot 0 (?sl\<lparr>sl_state := RxProcessing\<rparr>) (l\<lparr>bl_slots := (bl_slots l)[0 := ?sl], bl_requests := []\<rparr>) = ?p"
    using link(4) by (simp add: set_slot_def)
  let ?lq = "l\<lparr>bl_slots := (bl_slots l)[0 := ?sl], bl_requests := []\<rparr>"
  have h: "try_handle_binary_protocol e (sl_frame ?sl) (set_slot (unat (0 :: u8)) (?sl\<lparr>sl_state := RxProcessing\<rparr>) ?lq, s, nv) =
      (True, ?p\<lparr>bl_tx := t\<rparr>, snd ?r, nv)"
    using handled same by simp
  have "process_binary_request_slot e 0 conn (?lq, s, nv) =
      (set_slot (unat (0 :: u8)) ((bl_slots (?p\<lparr>bl_tx := t\<rparr>) ! unat (0 :: u8))\<lparr>sl_frame := [], sl_conn := 0xFFFF, sl_state := RxFree\<rparr>)
         (?p\<lparr>bl_tx := t\<rparr>), snd ?r, nv)"
    by (rule process_ready_slot [OF _ _ _ _ _ env h]) (use link in \<open>simp_all add: set_slot_def\<close>)
  also have "\<dots> = (?l2, snd ?r, nv)" using link by (simp add: set_slot_def)
  finally have "process_binary_request_slot e 0 conn (?lq, s, nv) = (?l2, snd ?r, nv)" .
  then have "l2 = ?l2" "s2 = snd ?r" "nv2 = nv" using run(2) deq by simp_all
  then show ?thesis
    using t(2,3) link resp(3) by (simp add: ble_idle_def set_slot_def pending_bytes_def tx_live_def)
qed

section \<open>Network settings\<close>

lemma ucast_byte_masked: "ucast ((ucast x :: u16) AND 0xFF) = x" for x :: u8
proof -
  have m: "(0xFF :: u16) = mask 8" by (simp add: mask_eq_exp_minus_1)
  show ?thesis unfolding m by (rule bit_word_eqI) (auto simp: bit_simps)
qed

definition applied :: "(system_config \<Rightarrow> system_config) \<Rightarrow> batch \<Rightarrow> batch" where
  "applied f b = b\<lparr>bt_cfg := f (bt_cfg b), bt_config_changed := True, bt_config_persist := True,
     bt_runtime_apply := True, bt_needs_version_bump := True\<rparr>"

lemma batch_octet:
  assumes "k < 4"
  shows "batch_word hw (HOLD_IP_BASE + of_nat k) (ucast x) b = Some (applied (\<lambda>c. c\<lparr>sc_ip := (sc_ip c)[k := x]\<rparr>) b)"
    "batch_word hw (HOLD_MASK_BASE + of_nat k) (ucast x) b = Some (applied (\<lambda>c. c\<lparr>sc_mask := (sc_mask c)[k := x]\<rparr>) b)"
    "batch_word hw (HOLD_GW_BASE + of_nat k) (ucast x) b = Some (applied (\<lambda>c. c\<lparr>sc_gateway := (sc_gateway c)[k := x]\<rparr>) b)"
proof -
  have le: "\<not> (4 :: u16) \<le> 1" by (simp add: word_le_nat_alt)
  consider "k = 0" | "k = 1" | "k = 2" | "k = 3" using assms by linarith
  then show "batch_word hw (HOLD_IP_BASE + of_nat k) (ucast x) b = Some (applied (\<lambda>c. c\<lparr>sc_ip := (sc_ip c)[k := x]\<rparr>) b)"
    by cases (simp_all add: batch_word_def write_reg_def range_defs write_ipv4_def checked_sub_def is_ble_name_hold_addr_def
        applied_def ucast_byte_masked le)
  consider "k = 0" | "k = 1" | "k = 2" | "k = 3" using assms by linarith
  then show "batch_word hw (HOLD_MASK_BASE + of_nat k) (ucast x) b = Some (applied (\<lambda>c. c\<lparr>sc_mask := (sc_mask c)[k := x]\<rparr>) b)"
    by cases (simp_all add: batch_word_def write_reg_def range_defs write_ipv4_def checked_sub_def is_ble_name_hold_addr_def
        applied_def ucast_byte_masked le)
  consider "k = 0" | "k = 1" | "k = 2" | "k = 3" using assms by linarith
  then show "batch_word hw (HOLD_GW_BASE + of_nat k) (ucast x) b = Some (applied (\<lambda>c. c\<lparr>sc_gateway := (sc_gateway c)[k := x]\<rparr>) b)"
    by cases (simp_all add: batch_word_def write_reg_def range_defs write_ipv4_def checked_sub_def is_ble_name_hold_addr_def
        applied_def ucast_byte_masked le)
qed

text \<open>Four octets of an address, and the publication that follows.\<close>

lemma batch_octets:
  assumes word: "\<And>k x b. k < 4 \<Longrightarrow> batch_word hw (base + of_nat k) (ucast x) b = Some (applied (\<lambda>c. f (k, x) c) b)"
    and xs: "length xs = 4"
  shows "batch_words hw base (map ucast (xs :: u8 list)) b = Some (applied (\<lambda>c. foldl (\<lambda>c kx. f kx c) c (enumerate 0 xs)) b)"
proof -
  obtain p q r t where l: "xs = [p, q, r, t]" using xs by (auto simp: length_Suc_conv eval_nat_numeral)
  have addr: "base + 1 + 1 = base + of_nat 2" "base + 1 = base + of_nat 1" "base + of_nat 2 + 1 = base + of_nat 3" "base = base + of_nat 0"
    by simp_all
  show ?thesis
    using word [of 0 p] word [of 1 q] word [of 2 r] word [of 3 t]
    by (simp add: l applied_def add.assoc eval_nat_numeral)
qed

lemma write_network_words:
  assumes word: "\<And>k x b. k < 4 \<Longrightarrow> batch_word (env_hw_mac (bus_env s)) (base + of_nat k) (ucast x) b =
      Some (applied (\<lambda>c. f (k, x) c) b)"
    and base: "HOLD_IP_BASE \<le> base" "base \<le> HOLD_GW_BASE" and xs: "length xs = 4"
    and ports: "valid_tcp_ports (sc_tcp_ports (foldl (\<lambda>c kx. f kx c) (bus_config s) (enumerate 0 xs)))"
  shows "write_hold_regs base (map ucast (xs :: u8 list)) s =
    (True, request_apply_config (publish_config
      ((\<lambda>c. c\<lparr>sc_cfg_version := sc_cfg_version c + 1\<rparr>) (foldl (\<lambda>c kx. f kx c) (bus_config s) (enumerate 0 xs))) s))"
proof -
  have u: "2247 \<le> unat base" "unat base \<le> 2255" using base by (simp_all add: word_le_nat_alt)
  have words: "batch_words (env_hw_mac (bus_env s)) base (map ucast xs) (batch_start s) =
      Some (applied (\<lambda>c. foldl (\<lambda>c kx. f kx c) c (enumerate 0 xs)) (batch_start s))"
    by (rule batch_octets [OF word xs])
  have writable: "list_all (\<lambda>k. is_writable_hold_reg (base + of_nat k)) [0..<length (map ucast xs :: u16 list)]"
  proof -
    have "unat (base + of_nat k :: u16) = unat base + k" if "k < 4" for k
      using that u by (simp add: unat_word_ariths unat_of_nat)
    then show ?thesis using xs u by (simp add: list_all_iff is_writable_hold_reg_def range_defs word_le_nat_alt)
  qed
  have "xs \<noteq> []" using xs by auto
  moreover have "batch_publish (applied (\<lambda>c. foldl (\<lambda>c kx. f kx c) c (enumerate 0 xs)) (batch_start s)) s =
      request_apply_config (publish_config
      ((\<lambda>c. c\<lparr>sc_cfg_version := sc_cfg_version c + 1\<rparr>) (foldl (\<lambda>c kx. f kx c) (bus_config s) (enumerate 0 xs))) s)"
    by (simp add: batch_publish_def applied_def batch_start_def)
  moreover have "\<not> DEVICE_TEXT_BASE \<le> base" "HOLD_CFG_BASE \<le> base" using u by (simp_all add: word_le_nat_alt)
  ultimately show ?thesis
    using xs u writable words ports by (simp add: write_hold_regs_def applied_def batch_start_def)
qed

lemma write_network:
  assumes wf: "bus_wf s" and ports: "valid_tcp_ports (sc_tcp_ports (bus_config s))" and xs: "length (xs :: u8 list) = 4"
  shows "write_hold_regs HOLD_IP_BASE (map ucast xs) s = (True, request_apply_config (publish_config
      ((bus_config s)\<lparr>sc_ip := xs, sc_cfg_version := sc_cfg_version (bus_config s) + 1\<rparr>) s))"
    "write_hold_regs HOLD_MASK_BASE (map ucast xs) s = (True, request_apply_config (publish_config
      ((bus_config s)\<lparr>sc_mask := xs, sc_cfg_version := sc_cfg_version (bus_config s) + 1\<rparr>) s))"
    "write_hold_regs HOLD_GW_BASE (map ucast xs) s = (True, request_apply_config (publish_config
      ((bus_config s)\<lparr>sc_gateway := xs, sc_cfg_version := sc_cfg_version (bus_config s) + 1\<rparr>) s))"
proof -
  let ?c = "bus_config s"
  have len: "length (sc_ip ?c) = 4" "length (sc_mask ?c) = 4" "length (sc_gateway ?c) = 4"
    using wf by (simp_all add: bus_wf_def config_wf_def)
  have ip: "foldl (\<lambda>c kx. c\<lparr>sc_ip := (sc_ip c)[fst kx := snd kx]\<rparr>) ?c (enumerate 0 xs) = ?c\<lparr>sc_ip := xs\<rparr>"
    and netmask: "foldl (\<lambda>c kx. c\<lparr>sc_mask := (sc_mask c)[fst kx := snd kx]\<rparr>) ?c (enumerate 0 xs) = ?c\<lparr>sc_mask := xs\<rparr>"
    and gw: "foldl (\<lambda>c kx. c\<lparr>sc_gateway := (sc_gateway c)[fst kx := snd kx]\<rparr>) ?c (enumerate 0 xs) = ?c\<lparr>sc_gateway := xs\<rparr>"
    using xs len by (auto simp: length_Suc_conv eval_nat_numeral)
  show "write_hold_regs HOLD_IP_BASE (map ucast xs) s = (True, request_apply_config (publish_config
      (?c\<lparr>sc_ip := xs, sc_cfg_version := sc_cfg_version ?c + 1\<rparr>) s))"
    using write_network_words [of s HOLD_IP_BASE "\<lambda>kx c. c\<lparr>sc_ip := (sc_ip c)[fst kx := snd kx]\<rparr>" xs]
      batch_octet(1) xs ports ip by simp
  show "write_hold_regs HOLD_MASK_BASE (map ucast xs) s = (True, request_apply_config (publish_config
      (?c\<lparr>sc_mask := xs, sc_cfg_version := sc_cfg_version ?c + 1\<rparr>) s))"
    using write_network_words [of s HOLD_MASK_BASE "\<lambda>kx c. c\<lparr>sc_mask := (sc_mask c)[fst kx := snd kx]\<rparr>" xs]
      batch_octet(2) xs ports netmask by simp
  show "write_hold_regs HOLD_GW_BASE (map ucast xs) s = (True, request_apply_config (publish_config
      (?c\<lparr>sc_gateway := xs, sc_cfg_version := sc_cfg_version ?c + 1\<rparr>) s))"
    using write_network_words [of s HOLD_GW_BASE "\<lambda>kx c. c\<lparr>sc_gateway := (sc_gateway c)[fst kx := snd kx]\<rparr>" xs]
      batch_octet(3) xs ports gw by simp
qed

lemma persist_invalid:
  "bus_config_dirty s \<Longrightarrow> validate_for_persistence (bus_config s) \<noteq> Inr () \<Longrightarrow> fst (persist_config_now s) = False \<and>
    bus_config (snd (persist_config_now s)) = bus_config s"
  by (simp add: persist_config_now_def commit_pending_def Let_def split_beta)

lemma set_net_info_result:
  assumes wf: "bus_wf s" and ports: "valid_tcp_ports (sc_tcp_ports (bus_config s))"
    and len: "length ip = 4" "length gw = 4" "length mk = 4"
  shows "\<exists>t. set_net_info (ip @ gw @ mk) s = persist_and_reset t \<and> bus_config_dirty t \<and>
    bus_config t = (bus_config s)\<lparr>sc_ip := ip, sc_mask := mk, sc_gateway := gw, sc_cfg_version := sc_cfg_version (bus_config s) + 3\<rparr>"
proof -
  let ?v = "sc_cfg_version (bus_config s)"
  let ?step = "\<lambda>c s. request_apply_config (publish_config c s)"
  let ?c1 = "(bus_config s)\<lparr>sc_ip := ip, sc_cfg_version := ?v + 1\<rparr>"
  let ?s1 = "?step ?c1 s"
  let ?c2 = "?c1\<lparr>sc_mask := mk, sc_cfg_version := ?v + 1 + 1\<rparr>"
  let ?s2 = "?step ?c2 ?s1"
  let ?c3 = "?c2\<lparr>sc_gateway := gw, sc_cfg_version := ?v + 1 + 1 + 1\<rparr>"
  let ?s3 = "?step ?c3 ?s2"
  have cfg: "bus_config (?step c u) = c" "bus_config_dirty (?step c u)" for c u
    by (simp_all add: request_apply_config_def request_persist_config_def publish_config_def)
  have wfs: "bus_wf ?s1" "bus_wf ?s2"
    using wf len unfolding request_apply_config_def request_persist_config_def publish_config_def
    by (simp_all add: bus_wf_def config_wf_def)
  have slices: "slice (ip @ gw @ mk) 0 4 = ip" "slice (ip @ gw @ mk) 8 12 = mk" "slice (ip @ gw @ mk) 4 8 = gw"
    using len by (simp_all add: slice_def)
  have w1: "write_hold_regs HOLD_IP_BASE (map ucast ip) s = (True, ?s1)" by (rule write_network(1) [OF wf ports len(1)])
  have w2: "write_hold_regs HOLD_MASK_BASE (map ucast mk) ?s1 = (True, ?s2)"
    using write_network(2) [OF wfs(1) _ len(3)] ports by (simp add: cfg)
  have w3: "write_hold_regs HOLD_GW_BASE (map ucast gw) ?s2 = (True, ?s3)"
    using write_network(3) [OF wfs(2) _ len(2)] ports by (simp add: cfg)
  have "set_net_info (ip @ gw @ mk) s = persist_and_reset ?s3"
    unfolding set_net_info_def slices w1 w2 w3 prod.case bool.case using len by simp
  then show ?thesis using cfg [of ?c3 ?s2] by (intro exI [of _ ?s3]) (simp add: add.assoc)
qed

lemma net_info_swapped:
  assumes wf: "bus_wf s" and ports: "valid_tcp_ports (sc_tcp_ports (bus_config s))"
    and dhcp: "\<not> sc_dhcp (bus_config s)" and gw: "\<not> is_ipv4_netmask (sc_gateway (bus_config s))"
  shows "\<exists>info s'. build_mca_custom_response 0xCE [] s = (Some ([0xCE, 0] @ info), s) \<and>
    build_mca_custom_response 0xCD info s = (None, s') \<and>
    sc_mask (bus_config s') = sc_gateway (bus_config s) \<and> sc_gateway (bus_config s') = sc_mask (bus_config s)"
proof -
  let ?c = "bus_config s" let ?info = "sc_ip ?c @ sc_mask ?c @ sc_gateway ?c"
  have len: "length (sc_ip ?c) = 4" "length (sc_mask ?c) = 4" "length (sc_gateway ?c) = 4"
    using wf by (simp_all add: bus_wf_def config_wf_def)
  obtain t where t: "set_net_info ?info s = persist_and_reset t" "bus_config_dirty t"
    "bus_config t = ?c\<lparr>sc_mask := sc_gateway ?c, sc_gateway := sc_mask ?c, sc_cfg_version := sc_cfg_version ?c + 3\<rparr>"
    using set_net_info_result [OF wf ports len] by auto
  have "validate_for_persistence (bus_config t) \<noteq> Inr ()"
    using dhcp gw ports by (simp add: t(3) validate_for_persistence_def)
  from persist_invalid [OF t(2) this] have p: "persist_and_reset t = (False, snd (persist_config_now t))"
    "bus_config (snd (persist_config_now t)) = bus_config t"
    by (cases "persist_config_now t"; simp add: persist_and_reset_def)+
  have "build_mca_custom_response 0xCD ?info s = (None, snd (persist_config_now t))"
    by (simp add: build_mca_custom_response_def t(1) p(1) acked_def)
  moreover have "build_mca_custom_response 0xCE [] s = (Some ([0xCE, 0] @ ?info), s)"
    by (simp add: build_mca_custom_response_def custom_ack_def Let_def)
  ultimately show ?thesis using p(2) t(3) by auto
qed

lemma io_answer_short:
  assumes "2000 < unat cnt"
  shows "hd (io_answer rd addr cnt) = 251 \<and> length (tl (io_answer rd addr cnt)) = 250"
proof -
  have "(n + 7) div 8 = 251" if "2000 < n" "n \<le> 2008" for n :: nat using that by presburger
  then have "div_ceil (min (unat cnt) 2008) 8 = 251" using assms by (simp add: div_ceil_8 min_def)
  then show ?thesis by (simp add: io_answer_def Let_def)
qed

section \<open>Correctness\<close>

text \<open>C33: A Modbus request over Bluetooth that the handheld protocol does not answer itself is served as the specification
  says; it answers itself the functions 03, 04, 11 and from B0 on (hexadecimal), and writes of several registers to its
  network and logic registers.  A client puts any other request into a frame, cuts the frame into writes as it likes (the first
  must not look like text), and the main loop of a link that was idle takes it from the queue; then the registers are changed as the abstract server changes them, the frame with the
  server's answer and the request's transaction number is queued behind what was already waiting, and the link is free
  for the next request; here no lock is held by another task.\<close>

theorem ble_exchange_refines:
  assumes "bus_wf s" and "is_plain_request func pdu" and "length pdu \<le> 502"
    and "concat ds = ble_frame tx_id proto_id (unit # func # pdu)" and "\<forall>d \<in> set ds. d \<noteq> []"
    and "\<not> starts_like_text (hd ds)" and "ble_idle l" and "tr_len (bl_tx l) < 8" and "be_locks e = no_locks"
    and "feed_all conn ds (l, s) = (l1, s1)" and "serve_next_request e conn (l1, s1, nv) = (l2, s2, nv2)"
  shows "s2 = snd (serve_pdu bus_backend bus_view s func pdu) \<and> nv2 = nv \<and> ble_idle l2 \<and> bus_wf s2 \<and>
    pending_bytes l2 = pending_bytes l @
      ble_frame tx_id proto_id (unit # fst (serve_pdu bus_backend bus_view s func pdu))"
  by (rule exchange_result [OF assms])

definition ble_env_free :: ble_env where
  "ble_env_free = \<lparr>be_locks = no_locks, be_now = 0, be_bt_mac = replicate 6 0, be_outcome = (\<lambda>_. NvDone)\<rparr>"

lemma ble_idle_new: "ble_idle ble_link_new" "tr_len (bl_tx ble_link_new) = 0" "pending_bytes ble_link_new = []"
  by (simp_all add: ble_idle_def ble_link_new_def rx_slot_new_def tx_live_def tx_wf_def tx_list_def tx_ring_new_def
      pending_bytes_def)

text \<open>A register is written over the link.\<close>

theorem ble_exchange_refines_witness:
  "\<exists>l2 s2. serve_next_request ble_env_free 7 (fst (feed_all 7 [ble_frame 9 0 [1, 6, 0, 0, 0, 7]] (ble_link_new, bus_start env_idle)),
       snd (feed_all 7 [ble_frame 9 0 [1, 6, 0, 0, 0, 7]] (ble_link_new, bus_start env_idle)), None) = (l2, s2, None) \<and>
     pending_bytes l2 = ble_frame 9 0 [1, 6, 0, 0, 0, 7] \<and> sn_control_words (bus_storage s2) ! 0 = 7"
proof -
  let ?f = "ble_frame 9 0 [1, 6, 0, 0, 0, 7]"
  obtain l1 s1 where f: "feed_all 7 [?f] (ble_link_new, bus_start env_idle) = (l1, s1)" by fastforce
  obtain l2 s2 nv2 where r: "serve_next_request ble_env_free 7 (l1, s1, None) = (l2, s2, nv2)" by (rule prod_cases3)
  have "take 2 ?f = [0, 9]"
    by (simp add: ble_frame_def be_bytes_def hi8_def lo8_def Let_def)
  then have ds: "?f \<noteq> []" "\<not> starts_like_text ?f"
    by (auto simp: starts_like_text_def)
  have plain: "is_plain_request 6 [0, 0, 0, 7]"
    by (simp add: is_plain_request_def is_handheld_ip_write_def is_handheld_logic_write_def word_less_nat_alt be16_def range_defs Let_def)
  have parse: "pdu_request 6 [0, 0, 0, 7] = Inr (WriteReg 0 7)" by (simp add: pdu_request_def be16_def)
  have reg: "write_hold_reg 0 7 (bus_start env_idle) =
      (True, bus_control_written 0 7 (write_control_word 0 7 (bus_start env_idle)))"
    by (simp add: write_hold_reg_def write_hold_reg_locked_def range_defs is_ble_name_hold_addr_def)
  have spec: "fst (serve_pdu bus_backend bus_view (bus_start env_idle) 6 [0, 0, 0, 7]) = [6, 0, 0, 0, 7]"
    "snd (serve_pdu bus_backend bus_view (bus_start env_idle) 6 [0, 0, 0, 7]) =
      bus_control_written 0 7 (write_control_word 0 7 (bus_start env_idle))"
    by (simp_all add: serve_pdu_def parse bus_backend_def reg ack_body_def respond_def be_bytes_def hi8_def lo8_def)
  have w: "sn_control_words (bus_storage (bus_control_written 0 7 (write_control_word 0 7 (bus_start env_idle)))) ! 0 = 7"
    by (simp add: bus_control_written_def write_control_word_def mark_legacy_io_dirty_def
        mark_storage_mutated_def publish_storage_def sync_proto_status_def bus_start_def storage_new_def)
  show ?thesis
    using ble_exchange_refines [OF bus_wf_idle plain, of "[?f]" 9 0 1 ble_link_new ble_env_free 7 l1 s1 None l2 s2 nv2]
      f r ds ble_idle_new w
    by (simp add: ble_env_free_def spec)
qed

text \<open>Network settings read over Bluetooth cannot be written back.  For every state with a static address and a gateway that
  is not itself a netmask, sending the answer of the read command with the write command exchanges netmask and gateway in the
  running configuration, and the command is refused because the result cannot be saved.\<close>

theorem net_info_written_back_is_swapped:
  assumes "bus_wf s" and "valid_tcp_ports (sc_tcp_ports (bus_config s))" and "\<not> sc_dhcp (bus_config s)"
    and "\<not> is_ipv4_netmask (sc_gateway (bus_config s))"
  shows "\<exists>info s'. build_mca_custom_response 0xCE [] s = (Some ([0xCE, 0] @ info), s) \<and>
    build_mca_custom_response 0xCD info s = (None, s') \<and>
    sc_mask (bus_config s') = sc_gateway (bus_config s) \<and> sc_gateway (bus_config s') = sc_mask (bus_config s)"
  by (rule net_info_swapped [OF assms])

theorem net_info_written_back_is_swapped_witness:
  "\<exists>info s'. build_mca_custom_response 0xCE [] (bus_start env_idle) = (Some ([0xCE, 0] @ info), bus_start env_idle) \<and>
    build_mca_custom_response 0xCD info (bus_start env_idle) = (None, s') \<and>
    sc_mask (bus_config s') = [192, 168, 1, 1] \<and> sc_gateway (bus_config s') = [255, 255, 255, 0]"
proof -
  have cfg: "bus_config (bus_start env_idle) = config_defaults" by (simp add: bus_start_def)
  have ports: "valid_tcp_ports (sc_tcp_ports config_defaults)" "\<not> sc_dhcp config_defaults"
    "sc_mask config_defaults = [255, 255, 255, 0]" "sc_gateway config_defaults = [192, 168, 1, 1]"
    by (simp_all add: config_defaults_def valid_tcp_ports_def)
  have "\<not> is_ipv4_netmask [192, 168, 1, 1]" by code_simp
  then show ?thesis
    using net_info_written_back_is_swapped [OF bus_wf_idle] ports unfolding cfg by simp
qed

end
