(* ===== verification/Web_Info.thy ===== *)
theory Web_Info imports Rust_Str Nvs begin

text \<open>
  The device name, manufacturer and model shown on the web pages (\<open>src/web/mod.rs\<close>): one blob of three
  fields of 64 bytes, a cache in memory with a dirty flag, and the save that reads back what it wrote.  A
  Rust string is its list of UTF-8 bytes.
\<close>

section \<open>Text\<close>

text \<open>\<open>char::is_control\<close>: U+0000 to U+001F and U+007F to U+009F.\<close>

definition char_is_control :: "u8 list \<Rightarrow> bool" where
  "char_is_control c =
     (case c of [a] \<Rightarrow> a < 0x20 \<or> a = 0x7F | [a, b] \<Rightarrow> a = 0xC2 \<and> b \<le> 0x9F | _ \<Rightarrow> False)"

abbreviation (input) WEB_SYSTEM_INFO_FIELD_LEN :: nat where "WEB_SYSTEM_INFO_FIELD_LEN \<equiv> 63"
abbreviation (input) WEB_SYSTEM_INFO_BLOB_LEN :: nat where "WEB_SYSTEM_INFO_BLOB_LEN \<equiv> 192"

definition NVS_KEY_WEB_SYSTEM_INFO :: string where "NVS_KEY_WEB_SYSTEM_INFO = ''web_sysinfo''"

record web_system_info =
  wi_device_name :: "u8 list"
  wi_manufacturer :: "u8 list"
  wi_model :: "u8 list"

definition valid_web_system_text :: "u8 list \<Rightarrow> bool" where
  "valid_web_system_text v \<longleftrightarrow> length v \<le> WEB_SYSTEM_INFO_FIELD_LEN \<and> 0 \<notin> set v \<and>
     \<not> list_ex char_is_control (utf8_chars v)"

section \<open>The blob\<close>

definition encode_web_system_info :: "web_system_info \<Rightarrow> u8 list option" where
  "encode_web_system_info info =
     (if \<not> valid_web_system_text (wi_device_name info) \<or> \<not> valid_web_system_text (wi_manufacturer info) \<or>
         \<not> valid_web_system_text (wi_model info) then None
      else Some (foldl (\<lambda>blob (index, v).
                   let offset = index * (WEB_SYSTEM_INFO_FIELD_LEN + 1);
                       blob = blob[offset := of_nat (length v)]
                   in copy_at blob (offset + 1) v)
             (replicate WEB_SYSTEM_INFO_BLOB_LEN 0)
             (enumerate 0 [wi_device_name info, wi_manufacturer info, wi_model info])))"

definition web_field :: "u8 list \<Rightarrow> nat \<Rightarrow> u8 list option" where
  "web_field blob index =
     (let offset = index * (WEB_SYSTEM_INFO_FIELD_LEN + 1);
          len = unat (blob ! offset)
      in if len > WEB_SYSTEM_INFO_FIELD_LEN then None
         else let bytes = slice blob (offset + 1) (offset + 1 + len)
           in if utf8_valid bytes then Some bytes else None)"

definition decode_web_system_info :: "u8 list \<Rightarrow> web_system_info option" where
  "decode_web_system_info blob =
     (if length blob \<noteq> WEB_SYSTEM_INFO_BLOB_LEN then None
      else case web_field blob 0 of
        None \<Rightarrow> None
      | Some n \<Rightarrow> (case web_field blob 1 of
          None \<Rightarrow> None
        | Some f \<Rightarrow> (case web_field blob 2 of
            None \<Rightarrow> None
          | Some d \<Rightarrow> Some \<lparr>wi_device_name = n, wi_manufacturer = f, wi_model = d\<rparr>)))"

definition web_info_default :: web_system_info where
  "web_info_default =
     \<lparr>wi_device_name = [0xE5, 0xB7, 0xA5, 0xE4, 0xB8, 0x9A, 0xE6, 0xB5, 0x8B, 0xE6, 0x8E, 0xA7, 0xE6, 0x89,
        0xA7, 0xE8, 0xA1, 0x8C, 0xE5, 0x99, 0xA8],
      wi_manufacturer = [0xE6, 0xB7, 0xB1, 0xE5, 0x9C, 0xB3, 0xE8, 0xBF, 0x88, 0xE9, 0x94, 0x90, 0xE4, 0xBA,
        0xA4, 0xE9, 0x80, 0x9A, 0xE6, 0x9C, 0x89, 0xE9, 0x99, 0x90, 0xE5, 0x85, 0xAC, 0xE5, 0x8F, 0xB8],
      wi_model = [0x4D, 0x5A, 0x2D, 0x4D, 0x43, 0x41, 0x2D, 0x53, 0x46, 0x50]\<rparr>"

definition load_web_system_info_from_nvs :: "nvs option \<Rightarrow> web_system_info" where
  "load_web_system_info_from_nvs nv =
     (case nv of
        None \<Rightarrow> web_info_default
      | Some m \<Rightarrow> (case nvs_blob m NVS_KEY_WEB_SYSTEM_INFO WEB_SYSTEM_INFO_BLOB_LEN of
          Inr (Some b) \<Rightarrow> (case decode_web_system_info b of None \<Rightarrow> web_info_default | Some i \<Rightarrow> i)
        | _ \<Rightarrow> web_info_default))"

section \<open>Cache and save\<close>

record web_cell =
  wc_info :: web_system_info
  wc_dirty :: bool

definition save_web_system_info :: "web_system_info \<Rightarrow> web_cell \<Rightarrow> bool \<times> web_cell" where
  "save_web_system_info info w =
     (case encode_web_system_info info of
        None \<Rightarrow> (False, w)
      | Some _ \<Rightarrow> (True, w\<lparr>wc_info := info, wc_dirty := True\<rparr>))"

datatype web_persist_error = WpInvalid | WpNvs | WpReadBack | WpUnavailable

text \<open>\<open>between\<close> is a save another task requests after the cache was copied.\<close>

definition web_save_between :: "web_system_info option \<Rightarrow> web_cell \<Rightarrow> web_cell" where
  "web_save_between between w = (case between of None \<Rightarrow> w | Some i \<Rightarrow> snd (save_web_system_info i w))"

definition web_write_verified :: "(string \<Rightarrow> nvs_outcome) \<Rightarrow> u8 list \<Rightarrow> nvs \<Rightarrow> (web_persist_error + unit) \<times> nvs" where
  "web_write_verified oc blob m =
     (case nvs_set_blob (oc NVS_KEY_WEB_SYSTEM_INFO) NVS_KEY_WEB_SYSTEM_INFO blob m of
        (Inl _, m1) \<Rightarrow> (Inl WpNvs, m1)
      | (Inr _, m1) \<Rightarrow>
          (case nvs_blob m1 NVS_KEY_WEB_SYSTEM_INFO WEB_SYSTEM_INFO_BLOB_LEN of
             Inl _ \<Rightarrow> (Inl WpNvs, m1)
           | Inr (Some saved) \<Rightarrow> if saved = blob then (Inr (), m1) else (Inl WpReadBack, m1)
           | Inr None \<Rightarrow> (Inl WpReadBack, m1)))"

definition persist_pending_system_info :: "(string \<Rightarrow> nvs_outcome) \<Rightarrow> web_system_info option \<Rightarrow>
    nvs option \<times> web_cell \<Rightarrow> (web_persist_error + bool) \<times> nvs option \<times> web_cell" where
  "persist_pending_system_info oc between nw =
     (let (nv, w) = nw in
      if \<not> wc_dirty w then (Inr False, nv, w)
      else let w = w\<lparr>wc_dirty := False\<rparr>;
               info = wc_info w
        in case encode_web_system_info info of
             None \<Rightarrow> (Inl WpInvalid, nv, w\<lparr>wc_dirty := True\<rparr>)
           | Some blob \<Rightarrow>
               let w = web_save_between between w
               in case nv of
                    None \<Rightarrow> (Inl WpUnavailable, None, w\<lparr>wc_dirty := True\<rparr>)
                  | Some m \<Rightarrow>
                      (case web_write_verified oc blob m of
                         (Inr _, m) \<Rightarrow> (Inr True, Some m, w)
                       | (Inl e, m) \<Rightarrow> (Inl e, Some m, w\<lparr>wc_dirty := True\<rparr>)))"

section \<open>Round trip\<close>

definition web_info_utf8 :: "web_system_info \<Rightarrow> bool" where
  "web_info_utf8 info \<longleftrightarrow> utf8_valid (wi_device_name info) \<and> utf8_valid (wi_manufacturer info) \<and> utf8_valid (wi_model info)"

definition web_field_bytes :: "u8 list \<Rightarrow> u8 list" where
  "web_field_bytes v = of_nat (length v) # v @ replicate (63 - length v) 0"

lemma length_web_field_bytes [simp]: "length v \<le> 63 \<Longrightarrow> length (web_field_bytes v) = 64"
  by (simp add: web_field_bytes_def)

lemma put_web_field:
  assumes "length v \<le> 63" and "length xs = o'"
  shows "copy_at ((xs @ replicate (64 + n) 0)[o' := of_nat (length v)]) (o' + 1) v =
    (xs @ web_field_bytes v) @ replicate n 0"
proof -
  have z: "replicate (64 + n) (0 :: u8) = 0 # replicate (63 + n) 0" by (simp flip: replicate_Suc)
  have u: "(xs @ replicate (64 + n) 0)[o' := of_nat (length v)] = (xs @ [of_nat (length v)]) @ replicate (63 + n) (0 :: u8)"
    unfolding z using assms(2) by (simp add: list_update_append)
  have r: "replicate (63 + n - length v) (0 :: u8) = replicate (63 - length v) 0 @ replicate n 0"
    using assms(1) by (simp flip: replicate_add)
  show ?thesis
    unfolding u web_field_bytes_def using assms
    by (simp add: copy_at_def r drop_replicate del: append_assoc replicate_add)
qed

lemma encode_web_layout:
  assumes "encode_web_system_info i = Some b"
  shows "b = web_field_bytes (wi_device_name i) @ web_field_bytes (wi_manufacturer i) @ web_field_bytes (wi_model i)"
    and "length (wi_device_name i) \<le> 63" and "length (wi_manufacturer i) \<le> 63" and "length (wi_model i) \<le> 63"
proof -
  show l: "length (wi_device_name i) \<le> 63" "length (wi_manufacturer i) \<le> 63" "length (wi_model i) \<le> 63"
    using assms by (auto simp: encode_web_system_info_def valid_web_system_text_def split: if_splits)
  let ?a = "web_field_bytes (wi_device_name i)" and ?b = "web_field_bytes (wi_manufacturer i)"
  have 1: "copy_at ((replicate 192 0)[0 := of_nat (length (wi_device_name i))]) (0 + 1) (wi_device_name i) =
      ?a @ replicate 128 0"
    using put_web_field [OF l(1), of "[]" 0 128] by simp
  have 2: "copy_at ((?a @ replicate 128 0)[64 := of_nat (length (wi_manufacturer i))]) (64 + 1) (wi_manufacturer i) =
      (?a @ ?b) @ replicate 64 0"
    using put_web_field [OF l(2), of ?a 64 64] l(1) by simp
  have 3: "copy_at (((?a @ ?b) @ replicate 64 0)[128 := of_nat (length (wi_model i))]) (128 + 1) (wi_model i) =
      ((?a @ ?b) @ web_field_bytes (wi_model i)) @ replicate 0 0"
    using put_web_field [OF l(3), of "?a @ ?b" 128 0] l(1,2) by simp
  show "b = ?a @ ?b @ web_field_bytes (wi_model i)"
    using assms 1 2 3 unfolding encode_web_system_info_def by (auto simp: Let_def split: if_splits)
qed

lemma web_field_at:
  assumes "length v \<le> 63" and "utf8_valid v" and "length xs = 64 * k"
  shows "web_field (xs @ web_field_bytes v @ ys) k = Some v"
proof -
  have n: "unat (of_nat (length v) :: u8) = length v" using assms(1) by (simp add: unat_of_nat take_bit_nat_eq_self)
  have h: "(xs @ web_field_bytes v @ ys) ! (k * (63 + 1)) = of_nat (length v)"
    using assms(3) by (simp add: nth_append web_field_bytes_def mult.commute)
  have s: "slice (xs @ web_field_bytes v @ ys) (k * (63 + 1) + 1) (k * (63 + 1) + 1 + length v) = v"
    using assms(1,3) by (simp add: slice_def web_field_bytes_def mult.commute)
  show ?thesis unfolding web_field_def Let_def h n s using assms(1,2) by simp
qed

lemma decode_encode_web:
  assumes "encode_web_system_info i = Some b" and "web_info_utf8 i"
  shows "decode_web_system_info b = Some i" and "length b = 192"
proof -
  let ?a = "web_field_bytes (wi_device_name i)" and ?b = "web_field_bytes (wi_manufacturer i)"
    and ?c = "web_field_bytes (wi_model i)"
  note lay = encode_web_layout [OF assms(1)]
  show len: "length b = 192" using lay by simp
  have "web_field b 0 = Some (wi_device_name i)" "web_field b 1 = Some (wi_manufacturer i)"
      "web_field b 2 = Some (wi_model i)"
    using web_field_at [OF lay(2), of "[]" 0 "?b @ ?c"] web_field_at [OF lay(3), of ?a 1 ?c]
      web_field_at [OF lay(4), of "?a @ ?b" 2 "[]"] assms(2) lay
    by (simp_all add: web_info_utf8_def)
  then show "decode_web_system_info b = Some i" using len by (simp add: decode_web_system_info_def)
qed

text \<open>A save that reports success is what the next boot shows; a save requested meanwhile stays pending, and a
  failed save stays pending too.\<close>

lemma web_write_ok:
  "web_write_verified oc blob m = (Inr u, m') \<Longrightarrow> m' = m(NVS_KEY_WEB_SYSTEM_INFO \<mapsto> NvBlob blob)"
  by (auto simp: web_write_verified_def nvs_set_blob_ok split: sum.splits prod.splits option.splits if_splits)

lemma load_web_saved:
  assumes "m NVS_KEY_WEB_SYSTEM_INFO = Some (NvBlob b)" and "encode_web_system_info i = Some b" and "web_info_utf8 i"
  shows "load_web_system_info_from_nvs (Some m) = i"
  using assms decode_encode_web [OF assms(2,3)] by (simp add: load_web_system_info_from_nvs_def nvs_blob_def)

lemma persist_web_frame:
  assumes "persist_pending_system_info oc bw (Some m, w) = (r, nv, w')" and "k \<noteq> NVS_KEY_WEB_SYSTEM_INFO"
  shows "\<exists>m'. nv = Some m' \<and> m' k = m k"
  using assms
  by (auto simp: persist_pending_system_info_def web_write_verified_def nvs_set_blob_def nvs_put_def Let_def
      split: if_splits option.splits sum.splits prod.splits nvs_outcome.splits)

lemma save_web_cases: "snd (save_web_system_info i w) = w \<or> wc_dirty (snd (save_web_system_info i w))"
  by (simp add: save_web_system_info_def split: option.split)

text \<open>What a clean cache means: the flash has it.\<close>

definition web_synced :: "nvs option \<Rightarrow> web_cell \<Rightarrow> bool" where
  "web_synced nv w \<longleftrightarrow> web_info_utf8 (wc_info w) \<and> (wc_dirty w \<or> load_web_system_info_from_nvs nv = wc_info w)"

lemma persist_web_synced:
  assumes "web_synced nv w" and "persist_pending_system_info oc bw (nv, w) = (r, nv', w')"
    and "\<And>i. bw = Some i \<Longrightarrow> web_info_utf8 i"
  shows "web_synced nv' w'"
proof (cases "wc_dirty w")
  case True
  have u: "web_info_utf8 (wc_info (web_save_between bw w0))" if "web_info_utf8 (wc_info w0)" for w0
    using that assms(3) by (auto simp: web_save_between_def save_web_system_info_def split: option.split)
  have i: "web_save_between bw w0 = w0 \<or> wc_dirty (web_save_between bw w0)" for w0
    using save_web_cases by (auto simp: web_save_between_def split: option.split)
  let ?w = "w\<lparr>wc_dirty := False\<rparr>"
  show ?thesis
  proof (cases "encode_web_system_info (wc_info w)")
    case None
    then show ?thesis using True assms(1,2) by (auto simp: persist_pending_system_info_def web_synced_def)
  next
    case (Some blob)
    have w0: "web_info_utf8 (wc_info ?w)" using assms(1) by (simp add: web_synced_def)
    show ?thesis
    proof (cases nv)
      case None
      then show ?thesis using True assms(1,2) u [OF w0] Some
        by (auto simp: persist_pending_system_info_def web_synced_def)
    next
      case (Some m)
      obtain q m1 where q: "web_write_verified oc blob m = (q, m1)" by (rule prod.exhaust)
      show ?thesis
      proof (cases q)
        case (Inl e)
        then show ?thesis using True assms(2) u [OF w0] \<open>encode_web_system_info _ = _\<close> Some q
          by (auto simp: persist_pending_system_info_def web_synced_def)
      next
        case (Inr z)
        have m1: "m1 NVS_KEY_WEB_SYSTEM_INFO = Some (NvBlob blob)" using web_write_ok [of oc blob m] q Inr by simp
        have "load_web_system_info_from_nvs (Some m1) = wc_info w"
                using load_web_saved [of m1 blob "wc_info w"] m1 \<open>encode_web_system_info _ = _\<close> w0 by simp
        then show ?thesis using True assms(2) u [OF w0] i [of ?w] \<open>encode_web_system_info _ = _\<close> Some q Inr
          by (auto simp: persist_pending_system_info_def web_synced_def)
      qed
    qed
  qed
qed (use assms in \<open>auto simp: persist_pending_system_info_def\<close>)

end
