(* ===== verification/Device_Actor.thy ===== *)
theory Device_Actor imports Device_Boot Web_Info Mpsc_Ring begin

text \<open>
  The storage actor (\<open>DeviceActor\<close> of \<open>src/device/mod.rs\<close> on the loop of \<open>src/actor/mod.rs\<close>): one thread
  takes messages from a mailbox of 32 places, at most eight in a row, and then does its periodic saves.
  The state is the bus state, the key-value flash, the raw holding partition, the cache of the web
  information and the record of the saved outputs.  What the flash driver answers, what other tasks
  publish while a save runs and which messages arrive are the environment of a step.
\<close>

section \<open>State and environment\<close>

record device_world =
  dw_bus :: bus_state
  dw_nvs :: "nvs option"
  dw_store :: holding_store
  dw_web :: web_cell
  dw_do :: do_persist
  dw_wait_ok :: bool
  dw_wait_completed :: u32

record device_env =
  de_nvs :: "string \<Rightarrow> nvs_outcome"
  de_flash :: flash_env
  de_config_between :: "system_config option"
  de_text_between :: "u16 list option"
  de_proto_between :: "proto_store option"
  de_web_between :: "web_system_info option"
  de_timer_ms :: u32
  de_clock :: "nat \<Rightarrow> nat"
  de_arrivals :: "device_cmd list"

definition on_bus :: "(bus_state \<Rightarrow> bus_state) \<Rightarrow> device_world \<Rightarrow> device_world" where
  "on_bus f w = w\<lparr>dw_bus := f (dw_bus w)\<rparr>"

section \<open>Numbers kept across resets\<close>

definition load_reset_count :: "nvs option \<Rightarrow> u16" where
  "load_reset_count nv = case_option 0 (\<lambda>m. case_option 0 id (nvs_u16 m ''rst_cnt'')) nv"

definition load_last_reset_reason :: "nvs option \<Rightarrow> u8" where
  "load_last_reset_reason nv = case_option 0 (\<lambda>m. case_option 0 id (nvs_u8 m ''rst_reason'')) nv"

definition load_mesh_keys :: "nvs option \<Rightarrow> u16 \<times> u16" where
  "load_mesh_keys nv =
     (case nv of
        None \<Rightarrow> (0, 0)
      | Some m \<Rightarrow> (case_option 0 id (nvs_u16 m ''mesh_nidx''), case_option 0 id (nvs_u16 m ''mesh_aidx'')))"

definition nvs_put_two :: "(string \<Rightarrow> nvs_outcome) \<Rightarrow> string \<times> nvs_value \<Rightarrow> string \<times> nvs_value \<Rightarrow> nvs \<Rightarrow> bool \<times> nvs" where
  "nvs_put_two oc a b m =
     (case nvs_put (oc (fst a)) (fst a) (snd a) m of
        (Inl _, m) \<Rightarrow> (False, m)
      | (Inr _, m) \<Rightarrow> (case nvs_put (oc (fst b)) (fst b) (snd b) m of (Inl _, m) \<Rightarrow> (False, m) | (Inr _, m) \<Rightarrow> (True, m)))"

definition persist_reset_record :: "(string \<Rightarrow> nvs_outcome) \<Rightarrow> u16 \<Rightarrow> u8 \<Rightarrow> nvs \<Rightarrow> bool \<times> nvs" where
  "persist_reset_record oc cnt reason = nvs_put_two oc (''rst_cnt'', NvU16 cnt) (''rst_reason'', NvU8 reason)"

definition persist_mesh_keys :: "(string \<Rightarrow> nvs_outcome) \<Rightarrow> u16 \<Rightarrow> u16 \<Rightarrow> nvs \<Rightarrow> bool \<times> nvs" where
  "persist_mesh_keys oc net_idx app_idx = nvs_put_two oc (''mesh_nidx'', NvU16 net_idx) (''mesh_aidx'', NvU16 app_idx)"

definition save_reset_record :: "u16 \<Rightarrow> u8 \<Rightarrow> bus_state \<Rightarrow> bool \<times> bus_state" where
  "save_reset_record cnt reason = request_device (CmdPersistResetRecord cnt reason)"

definition save_mesh_keys :: "u16 \<Rightarrow> u16 \<Rightarrow> bus_state \<Rightarrow> bool \<times> bus_state" where
  "save_mesh_keys net_idx app_idx = request_device (CmdPersistMeshKeys net_idx app_idx)"

text \<open>Plain access to the flash for other modules.\<close>

definition nvs_read_to_buf :: "nvs option \<Rightarrow> string \<Rightarrow> nat \<Rightarrow> u8 list option" where
  "nvs_read_to_buf nv key n =
     (case nv of None \<Rightarrow> None | Some m \<Rightarrow> (case nvs_blob m key n of Inr b \<Rightarrow> b | Inl _ \<Rightarrow> None))"

definition nvs_write :: "(string \<Rightarrow> nvs_outcome) \<Rightarrow> string \<Rightarrow> u8 list \<Rightarrow> nvs option \<Rightarrow> bool \<times> nvs option" where
  "nvs_write oc key data nv =
     (case nv of None \<Rightarrow> (False, None)
      | Some m \<Rightarrow> let (r, m) = nvs_set_blob (oc key) key data m in (\<not> isl r, Some m))"

record proto_info =
  pf_capacity :: u16
  pf_version :: u16
  pf_length :: u16
  pf_dirty :: bool
  pf_status :: u8
  pf_magic :: u16

definition proto_info_of :: "bus_state \<Rightarrow> proto_info" where
  "proto_info_of s =
     (let p = sn_proto (bus_storage s)
      in \<lparr>pf_capacity = 1500, pf_version = ps_version p, pf_length = ps_length p, pf_dirty = ps_dirty p,
           pf_status = bus_proto_status s, pf_magic = PROTO_MAGIC_VALUE\<rparr>)"

section \<open>Saving\<close>

text \<open>A configuration another task publishes while the flash is written: it counts as a new generation.\<close>

definition config_between :: "system_config option \<Rightarrow> bus_state \<Rightarrow> bus_state" where
  "config_between c s = (case c of None \<Rightarrow> s | Some c \<Rightarrow> request_persist_config (publish_config c s))"

definition apply_config_inner :: "device_env \<Rightarrow> device_world \<Rightarrow> bool \<times> device_world" where
  "apply_config_inner env w =
     (let generation = bus_config_gen (dw_bus w);
          cfg = bus_config (dw_bus w);
          w = on_bus (config_between (de_config_between env)) w
      in case dw_nvs w of
           None \<Rightarrow> (False, w)
         | Some m \<Rightarrow>
             (case save_config (de_nvs env) cfg m of
                (Inl _, m) \<Rightarrow> (False, w\<lparr>dw_nvs := Some m\<rparr>)
              | (Inr _, m) \<Rightarrow> (bus_config_gen (dw_bus w) = generation, w\<lparr>dw_nvs := Some m\<rparr>)))"

text \<open>\<open>commit_pending\<close> around a save: the flag is consumed first and set again when the save fails.\<close>

definition commit_config :: "bool \<Rightarrow> device_env \<Rightarrow> device_world \<Rightarrow> bool \<times> device_world" where
  "commit_config force env w =
     (let pending = bus_config_dirty (dw_bus w);
          w = on_bus (\<lambda>s. s\<lparr>bus_config_dirty := False\<rparr>) w
      in if \<not> pending \<and> \<not> force then (True, w)
         else case apply_config_inner env w of
           (True, w) \<Rightarrow> (True, w)
         | (False, w) \<Rightarrow> (False, on_bus (\<lambda>s. s\<lparr>bus_config_dirty := True\<rparr>) w))"

definition apply_config :: "device_env \<Rightarrow> device_world \<Rightarrow> bool \<times> device_world" where
  "apply_config = commit_config True"

definition dev_persist_config_now :: "device_env \<Rightarrow> device_world \<Rightarrow> bool \<times> device_world" where
  "dev_persist_config_now env w =
     (case commit_config False env w of
        (False, w) \<Rightarrow> (False, w)
      | (True, w) \<Rightarrow> (\<not> bus_config_dirty (dw_bus w), w))"

definition text_between :: "u16 list option \<Rightarrow> bus_state \<Rightarrow> bus_state" where
  "text_between t s =
     (case t of None \<Rightarrow> s
      | Some t \<Rightarrow> (publish_storage ((bus_storage s)\<lparr>sn_device_text := t\<rparr>) s)\<lparr>bus_text_dirty := True\<rparr>)"

definition save_current_device_text :: "device_env \<Rightarrow> device_world \<Rightarrow> bool \<times> device_world" where
  "save_current_device_text env w =
     (let words = sn_device_text (bus_storage (dw_bus w)) in
      if length words \<noteq> DEVICE_TEXT_COUNT then (False, w)
      else let w = on_bus (text_between (de_text_between env)) w
        in case dw_nvs w of
             None \<Rightarrow> (False, w)
           | Some m \<Rightarrow> let (ok, m) = save_device_text_to_nvs (de_nvs env) words m
               in (ok \<and> de_text_between env = None, w\<lparr>dw_nvs := Some m\<rparr>))"

definition persist_pending_device_text :: "bool \<Rightarrow> device_env \<Rightarrow> device_world \<Rightarrow> bool \<times> device_world" where
  "persist_pending_device_text force env w =
     (let pending = bus_text_dirty (dw_bus w);
          w = on_bus (\<lambda>s. s\<lparr>bus_text_dirty := False\<rparr>) w
      in if \<not> pending \<and> \<not> force then (True, w)
         else case save_current_device_text env w of
           (True, w) \<Rightarrow> (True, w)
         | (False, w) \<Rightarrow> (False, on_bus (\<lambda>s. s\<lparr>bus_text_dirty := True\<rparr>) w))"

definition save_holding_area :: "device_env \<Rightarrow> device_world \<Rightarrow> bool \<times> device_world" where
  "save_holding_area env w =
     (let s = dw_bus w;
          (ok, f, hs) = save_to_nvs (de_flash env) (holding_of (bus_storage s))
            (\<lparr>sf_holding_dirty = bus_holding_dirty s, sf_legacy_dirty = bus_legacy_dirty s\<rparr>, dw_store w)
      in (ok, w\<lparr>dw_store := hs,
            dw_bus := s\<lparr>bus_holding_dirty := sf_holding_dirty f, bus_legacy_dirty := sf_legacy_dirty f\<rparr>\<rparr>))"

definition persist_web_info :: "device_env \<Rightarrow> device_world \<Rightarrow> bool \<times> device_world" where
  "persist_web_info env w =
     (let (r, nv, c) = persist_pending_system_info (de_nvs env) (de_web_between env) (dw_nvs w, dw_web w)
      in (\<not> isl r, w\<lparr>dw_nvs := nv, dw_web := c\<rparr>))"

text \<open>The outputs that are kept: those no pulse is running on.\<close>

definition do_kept_bits :: "bus_state \<Rightarrow> u64" where
  "do_kept_bits s = load_bits (io_do (bus_io s)) AND NOT (load_bits (ctl_transient (bus_control s)))"

definition flush_outputs :: "device_env \<Rightarrow> device_world \<Rightarrow> bool \<times> device_world" where
  "flush_outputs env w =
     (let bits = do_kept_bits (dw_bus w) in
      if bits = dp_last (dw_do w) then (True, w)
      else case save_do_bits_to_nvs (de_nvs env) bits (dw_nvs w) of
        (False, nv) \<Rightarrow> (False, w\<lparr>dw_nvs := nv\<rparr>)
      | (True, nv) \<Rightarrow> (True, w\<lparr>dw_nvs := nv, dw_do := \<lparr>dp_last = bits, dp_last_ms = de_timer_ms env\<rparr>\<rparr>))"

text \<open>The saves of the barrier, each only when the one before succeeded.\<close>

fun in_order :: "(device_world \<Rightarrow> bool \<times> device_world) list \<Rightarrow> device_world \<Rightarrow> bool \<times> device_world" where
  "in_order [] w = (True, w)"
| "in_order (f # fs) w = (case f w of (False, w) \<Rightarrow> (False, w) | (True, w) \<Rightarrow> in_order fs w)"

definition flush_pending_before_reset :: "device_env \<Rightarrow> device_world \<Rightarrow> bool \<times> device_world" where
  "flush_pending_before_reset env =
     in_order [dev_persist_config_now env, save_holding_area env, persist_pending_device_text False env,
       persist_web_info env, flush_outputs env]"

section \<open>Messages\<close>

definition on_nvs :: "(nvs \<Rightarrow> bool \<times> nvs) \<Rightarrow> device_world \<Rightarrow> device_world" where
  "on_nvs f w = (case dw_nvs w of None \<Rightarrow> w | Some m \<Rightarrow> w\<lparr>dw_nvs := Some (snd (f m))\<rparr>)"

definition actor_handle :: "device_env \<Rightarrow> device_cmd \<Rightarrow> device_world \<Rightarrow> device_world" where
  "actor_handle env msg w =
     (case msg of
        CmdFlushPending ticket \<Rightarrow>
          let (ok, w) = flush_pending_before_reset env w
          in w\<lparr>dw_wait_ok := ok, dw_wait_completed := ticket\<rparr>
      | CmdCommit \<Rightarrow>
          let (ok, nv, s) = proto_commit (de_nvs env) (de_proto_between env) (dw_nvs w, dw_bus w)
          in w\<lparr>dw_nvs := nv, dw_bus := (if ok then s else proto_status_set 3 s)\<rparr>
      | CmdReload \<Rightarrow>
          let (ok, s) = proto_reload (dw_nvs w) (dw_bus w)
          in w\<lparr>dw_bus := (if ok then s else proto_status_set 3 s)\<rparr>
      | CmdPersistResetRecord cnt reason \<Rightarrow> on_nvs (persist_reset_record (de_nvs env) cnt reason) w
      | CmdPersistMeshKeys net_idx app_idx \<Rightarrow> on_nvs (persist_mesh_keys (de_nvs env) net_idx app_idx) w
      | CmdPersistHolding \<Rightarrow> snd (save_holding_area env w)
      | CmdPersistConfigAndReset \<Rightarrow>
          (case apply_config env w of
             (True, w) \<Rightarrow> on_bus (\<lambda>s. s\<lparr>bus_io := (bus_io s)\<lparr>io_sys :=
                 request_reset WEB_CONFIG_SAVED (io_sys (bus_io s))\<rparr>\<rparr>) w
           | (False, w) \<Rightarrow> on_bus (\<lambda>s. s\<lparr>bus_config_dirty := True\<rparr>) w))"

section \<open>Periodic saves\<close>

record device_actor =
  da_next_holding :: nat
  da_next_text :: nat
  da_next_config :: nat
  da_next_web :: nat
  da_next_do :: nat

definition device_actor_new :: "nat \<Rightarrow> device_actor" where
  "device_actor_new now = \<lparr>da_next_holding = now, da_next_text = now, da_next_config = now, da_next_web = now,
     da_next_do = now\<rparr>"

text \<open>The clock is read once for all deadlines (\<open>now\<close>) and again before each save.\<close>

type_synonym actor_state = "device_actor \<times> device_world"

definition idle_outputs :: "device_env \<Rightarrow> nat \<Rightarrow> actor_state \<Rightarrow> actor_state" where
  "idle_outputs env now aw =
     (let (a, w) = aw in
      if now \<ge> da_next_do a
      then let (dp, nv) = persist_do_bits_throttled (de_nvs env) (de_timer_ms env) (dw_bus w) (dw_do w, dw_nvs w)
        in (a\<lparr>da_next_do := de_clock env 1 + 1000\<rparr>, w\<lparr>dw_do := dp, dw_nvs := nv\<rparr>)
      else (a, w))"

definition idle_holding :: "device_env \<Rightarrow> nat \<Rightarrow> actor_state \<Rightarrow> actor_state" where
  "idle_holding env now aw =
     (let (a, w) = aw in
      if now \<ge> da_next_holding a \<and> (bus_holding_dirty (dw_bus w) \<or> bus_legacy_dirty (dw_bus w)) \<and>
         storage_mutation_quiet_for 2000 (dw_bus w)
      then (a\<lparr>da_next_holding := de_clock env 2 + 1000\<rparr>, snd (save_holding_area env w))
      else (a, w))"

definition idle_config :: "device_env \<Rightarrow> nat \<Rightarrow> actor_state \<Rightarrow> actor_state" where
  "idle_config env now aw =
     (let (a, w) = aw in
      if now \<ge> da_next_config a \<and> bus_config_dirty (dw_bus w)
      then (a\<lparr>da_next_config := de_clock env 3 + 1000\<rparr>, snd (dev_persist_config_now env w))
      else (a, w))"

definition idle_web :: "device_env \<Rightarrow> nat \<Rightarrow> actor_state \<Rightarrow> actor_state" where
  "idle_web env now aw =
     (let (a, w) = aw in
      if now \<ge> da_next_web a
      then (a\<lparr>da_next_web := de_clock env 4 + 1000\<rparr>, snd (persist_web_info env w))
      else (a, w))"

definition idle_text :: "device_env \<Rightarrow> nat \<Rightarrow> actor_state \<Rightarrow> actor_state" where
  "idle_text env now aw =
     (let (a, w) = aw in
      if now \<ge> da_next_text a \<and> bus_text_dirty (dw_bus w)
      then (a\<lparr>da_next_text := de_clock env 5 + 1000\<rparr>,
            case persist_pending_device_text False env w of
              (True, w) \<Rightarrow> w
            | (False, w) \<Rightarrow> on_bus (\<lambda>s. s\<lparr>bus_text_dirty := True\<rparr>) w)
      else (a, w))"

text \<open>The result is the nap in milliseconds.\<close>

definition actor_idle :: "device_env \<Rightarrow> actor_state \<Rightarrow> nat \<times> actor_state" where
  "actor_idle env aw =
     (50, fold (\<lambda>f. f env (de_clock env 0)) [idle_outputs, idle_holding, idle_config, idle_web, idle_text] aw)"

section \<open>The loop\<close>

abbreviation (input) MAILBOX :: nat where "MAILBOX \<equiv> 32"

definition mailbox_send :: "device_cmd \<Rightarrow> device_world \<Rightarrow> device_world" where
  "mailbox_send c = on_bus (\<lambda>s. s\<lparr>bus_mailbox := snd (mpsc_try_enqueue MAILBOX False c (bus_mailbox s))\<rparr>)"

text \<open>Up to \<open>n\<close> messages; \<open>busy i\<close> says that the mailbox is locked when the \<open>i\<close>-th is to be taken, and messages
  that arrive while one is handled are queued behind it.\<close>

fun actor_batch :: "nat \<Rightarrow> nat \<Rightarrow> (nat \<Rightarrow> bool) \<Rightarrow> (nat \<Rightarrow> device_env) \<Rightarrow> device_world \<Rightarrow> device_cmd list \<times> device_world" where
  "actor_batch i 0 busy envs w = ([], w)"
| "actor_batch i (Suc n) busy envs w =
     (case mpsc_dequeue (busy i) (bus_mailbox (dw_bus w)) of
        (None, _) \<Rightarrow> ([], w)
      | (Some c, q) \<Rightarrow>
          let w = actor_handle (envs i) c (on_bus (\<lambda>s. s\<lparr>bus_mailbox := q\<rparr>) w);
              w = fold mailbox_send (de_arrivals (envs i)) w;
              (cs, w) = actor_batch (Suc i) n busy envs w
          in (c # cs, w))"

definition actor_round :: "(nat \<Rightarrow> bool) \<Rightarrow> (nat \<Rightarrow> device_env) \<Rightarrow> device_actor \<times> device_world \<Rightarrow>
    device_cmd list \<times> device_actor \<times> device_world" where
  "actor_round busy envs aw =
     (let (a, w) = aw;
          (cs, w) = actor_batch 0 8 busy envs w;
          (_, a, w) = actor_idle (envs 8) (a, w)
      in (cs, a, fold mailbox_send (de_arrivals (envs 8)) w))"

fun actor_rounds :: "nat \<Rightarrow> (nat \<Rightarrow> nat \<Rightarrow> bool) \<Rightarrow> (nat \<Rightarrow> nat \<Rightarrow> device_env) \<Rightarrow> device_actor \<times> device_world \<Rightarrow>
    device_cmd list \<times> device_actor \<times> device_world" where
  "actor_rounds 0 busy envs aw = ([], aw)"
| "actor_rounds (Suc n) busy envs aw =
     (let (cs, aw) = actor_round (busy n) (envs n) aw;
          (ds, aw) = actor_rounds n busy envs aw
      in (cs @ ds, aw))"


section \<open>Waiting for a confirmed save\<close>

text \<open>
  \<open>await_pending_persistence\<close>: a caller with a small stack queues a flush with a fresh ticket and polls every
  10 ms, at most 8 s.  \<open>step i\<close> is what the actor does between two polls, \<open>slack i\<close> how much longer than 10 ms
  the sleep took.
\<close>

datatype await_error = AwBusy | AwUnavailable | AwNotSaved | AwTimedOut

record await_state =
  aw_busy :: bool
  aw_next :: u32

function await_loop :: "(nat \<Rightarrow> actor_state \<Rightarrow> actor_state) \<Rightarrow> (nat \<Rightarrow> nat) \<Rightarrow> u32 \<Rightarrow> nat \<Rightarrow> nat \<Rightarrow> nat \<Rightarrow> actor_state \<Rightarrow>
    (await_error + unit) \<times> nat \<times> actor_state" where
  "await_loop step slack ticket deadline now i aw =
     (if dw_wait_completed (snd aw) = ticket
      then (if dw_wait_ok (snd aw) then Inr () else Inl AwNotSaved, i, aw)
      else if now \<ge> deadline then (Inl AwTimedOut, i, aw)
      else await_loop step slack ticket deadline (now + 10 + slack i) (Suc i) (step i aw))"
  by pat_completeness auto
termination by (relation "measure (\<lambda>(step, slack, ticket, deadline, now, i, aw). deadline - now)") auto

declare await_loop.simps [simp del]

definition await_pending_persistence :: "(nat \<Rightarrow> actor_state \<Rightarrow> actor_state) \<Rightarrow> (nat \<Rightarrow> nat) \<Rightarrow> nat \<Rightarrow>
    await_state \<Rightarrow> actor_state \<Rightarrow> (await_error + unit) \<times> nat \<times> await_state \<times> actor_state" where
  "await_pending_persistence step slack now st aw =
     (if aw_busy st then (Inl AwBusy, 0, st, aw)
      else let ticket = aw_next st + 1;
               st = st\<lparr>aw_next := ticket\<rparr>;
               (a, w) = aw;
               (sent, q) = mpsc_try_enqueue MAILBOX False (CmdFlushPending ticket) (bus_mailbox (dw_bus w))
        in if \<not> env_actor_started (bus_env (dw_bus w)) \<or> \<not> sent then (Inl AwUnavailable, 0, st, aw)
           else let (r, polls, aw) = await_loop step slack ticket (now + 8000) now 0
                      (a, on_bus (\<lambda>s. s\<lparr>bus_mailbox := q\<rparr>) w)
             in (r, polls, st, aw))"

text \<open>Between two polls the actor runs some rounds of its loop.\<close>

definition actor_between :: "(nat \<Rightarrow> nat) \<Rightarrow> (nat \<Rightarrow> nat \<Rightarrow> nat \<Rightarrow> bool) \<Rightarrow> (nat \<Rightarrow> nat \<Rightarrow> nat \<Rightarrow> device_env) \<Rightarrow>
    nat \<Rightarrow> actor_state \<Rightarrow> actor_state" where
  "actor_between rounds busy envs i aw = snd (actor_rounds (rounds i) (busy i) (envs i) aw)"

end
