(* ===== verification/Device_Sync.thy ===== *)
theory Device_Sync imports Device_Actor "HOL-Library.Sublist" begin

text \<open>
  What the storage actor guarantees: an area that is not marked dirty is in the flash as it is in memory, every
  message and every periodic save keep it so, an acknowledged flush was really saved, and the mailbox is served
  in order.  The locale \<open>flash_area\<close> says that an area of the key-value flash is read through its own keys, so
  that writes of the others leave it alone; it is interpreted for the configuration, the device text, the web
  texts and the outputs.
\<close>

section \<open>Areas of the flash\<close>

text \<open>The flash \<open>nv'\<close> differs from \<open>nv\<close> at most at the keys in \<open>W\<close>.\<close>

definition only_keys :: "string set \<Rightarrow> nvs option \<Rightarrow> nvs option \<Rightarrow> bool" where
  "only_keys W nv nv' \<longleftrightarrow>
     (case nv of None \<Rightarrow> nv' = None | Some m \<Rightarrow> \<exists>m'. nv' = Some m' \<and> (\<forall>k. k \<notin> W \<longrightarrow> m' k = m k))"

lemma only_keys_refl [simp]: "only_keys W nv nv"
  by (simp add: only_keys_def split: option.split)

lemma only_keys_trans: "only_keys W a b \<Longrightarrow> only_keys V b c \<Longrightarrow> only_keys (W \<union> V) a c"
  by (auto simp: only_keys_def split: option.splits)

text \<open>An area is read through its own keys: what is written elsewhere does not change what is loaded.\<close>

locale flash_area =
  fixes keys :: "string set" and load :: "nvs option \<Rightarrow> 'v"
  assumes own_keys: "(\<And>k. k \<in> keys \<Longrightarrow> m' k = m k) \<Longrightarrow> load (Some m') = load (Some m)"
begin

lemma keeps: "only_keys W nv nv' \<Longrightarrow> W \<inter> keys = {} \<Longrightarrow> load nv' = load nv"
proof (cases nv)
  case (Some m)
  assume "only_keys W nv nv'" and d: "W \<inter> keys = {}"
  then obtain m' where m': "nv' = Some m'" "\<And>k. k \<notin> W \<Longrightarrow> m' k = m k"
    using Some by (auto simp: only_keys_def)
  have "load (Some m') = load (Some m)" by (rule own_keys) (use d m'(2) in blast)
  then show ?thesis using Some m'(1) by simp
qed (simp add: only_keys_def)

end

definition load_boot_config :: "nvs option \<Rightarrow> config_error + system_config" where
  "load_boot_config nv = (case nv of None \<Rightarrow> Inr config_defaults | Some m \<Rightarrow> load_config (\<lambda>_. True) m)"

definition load_boot_text :: "nvs option \<Rightarrow> u16 list" where
  "load_boot_text nv = (case nv of None \<Rightarrow> replicate 2000 0 | Some m \<Rightarrow> load_device_text_from_nvs m)"

abbreviation (input) config_keys :: "string set" where
  "config_keys \<equiv> {''sys_cfg'', ''sys_cfg_mag'', ''sys_cfg_ver''}"
abbreviation (input) text_keys :: "string set" where "text_keys \<equiv> {''dev_text'', ''dev_text_mag''}"
abbreviation (input) web_keys :: "string set" where "web_keys \<equiv> {''web_sysinfo''}"
abbreviation (input) proto_area_keys :: "string set" where "proto_area_keys \<equiv> {''proto_a'', ''proto_b'', ''proto_act''}"
abbreviation (input) do_keys :: "string set" where "do_keys \<equiv> {''do_bits'', ''do_magic''}"

interpretation config_area: flash_area config_keys load_boot_config
  by unfold_locales
    (simp add: load_boot_config_def load_config_def nvs_u32_def nvs_u16_def nvs_blob_def cong: if_cong)

interpretation text_area: flash_area text_keys load_boot_text
  by unfold_locales
    (simp add: load_boot_text_def load_device_text_from_nvs_def nvs_blob_def NVS_KEY_DEV_TEXT_def)

interpretation web_area: flash_area web_keys load_web_system_info_from_nvs
  by unfold_locales (simp add: load_web_system_info_from_nvs_def nvs_blob_def NVS_KEY_WEB_SYSTEM_INFO_def)

interpretation do_area: flash_area do_keys "\<lambda>nv. map_option load_do_bits_from_nvs nv"
  by unfold_locales
    (simp add: load_do_bits_from_nvs_def nvs_u16_def nvs_blob_def NVS_KEY_DO_BITS_def NVS_KEY_DO_MAGIC_def)

text \<open>What each write touches.\<close>

lemma nvs_put_only: "only_keys {k} (Some m) (Some (snd (nvs_put oc k v m)))"
  by (simp add: only_keys_def nvs_put_frame)

lemma save_config_only: "only_keys config_keys (Some m) (Some (snd (save_config oc c m)))"
  by (auto simp: only_keys_def save_config_def nvs_set_blob_def nvs_put_def split: sum.split nvs_outcome.split)

lemma save_text_only: "only_keys text_keys (Some m) (Some (snd (save_device_text_to_nvs oc ws m)))"
  by (auto simp: only_keys_def save_device_text_to_nvs_def persist_device_text_blob_def nvs_set_blob_def nvs_put_def Let_def
      NVS_KEY_DEV_TEXT_def NVS_KEY_DEV_TEXT_MAGIC_def split: sum.split nvs_outcome.split option.split)

lemma save_web_only:
  assumes "persist_pending_system_info oc bw (nv, w) = (r, nv', w')"
  shows "only_keys web_keys nv nv'"
proof (cases nv)
  case None
  then show ?thesis using assms
    by (simp add: only_keys_def persist_pending_system_info_def Let_def split: if_splits option.splits)
next
  case (Some m)
  note p = persist_web_frame [OF assms [unfolded Some], unfolded NVS_KEY_WEB_SYSTEM_INFO_def]
  from p [of "[]"] obtain m' where "nv' = Some m'" by auto
  then show ?thesis using p by (auto simp: only_keys_def Some)
qed

lemma save_do_only: "save_do_bits_to_nvs oc bits nv = (r, nv') \<Longrightarrow> only_keys do_keys nv nv'"
  by (auto simp: only_keys_def save_do_bits_to_nvs_def nvs_set_blob_def nvs_put_def NVS_KEY_DO_BITS_def NVS_KEY_DO_MAGIC_def
      split: option.splits sum.splits prod.splits nvs_outcome.splits)

lemma put_two_only: "only_keys {fst a, fst b} (Some m) (Some (snd (nvs_put_two oc a b m)))"
  by (auto simp: only_keys_def nvs_put_two_def nvs_put_def split: sum.split nvs_outcome.split)

lemma commit_proto_only: "only_keys proto_area_keys (Some m) (Some (snd (commit_proto oc p m)))"
  by (auto simp: only_keys_def commit_proto_def nvs_set_blob_def nvs_put_def proto_keys Let_def split_beta
      split: sum.split nvs_outcome.split)


section \<open>What is not marked dirty is in the flash\<close>

text \<open>
  What the next boot would publish (\<open>device_init\<close>) is what is in memory now, for each area that is not
  marked dirty; the boot repairs a configuration and puts defaults into empty registers.
\<close>

definition boot_config :: "boot_hw \<Rightarrow> nvs option \<Rightarrow> system_config option" where
  "boot_config hw nv = (case load_boot_config nv of Inl _ \<Rightarrow> None | Inr c \<Rightarrow> Some (snd (repair_config hw c)))"

definition config_synced :: "boot_hw \<Rightarrow> bus_state \<Rightarrow> nvs option \<Rightarrow> bool" where
  "config_synced hw s nv \<longleftrightarrow> config_wf (bus_config s) \<and>
     (bus_config_dirty s \<or> boot_config hw nv = Some (snd (repair_config hw (config_filled (bus_config s)))))"

definition text_synced :: "bus_state \<Rightarrow> nvs option \<Rightarrow> bool" where
  "text_synced s nv \<longleftrightarrow> length (sn_device_text (bus_storage s)) = 2000 \<and>
     (bus_text_dirty s \<or> load_boot_text nv = sn_device_text (bus_storage s))"

definition boot_holding :: "holding_state \<Rightarrow> holding_state" where
  "boot_holding h = h\<lparr>ho_words := initialize_preg_defaults (ho_words h)\<rparr>"

definition holding_synced :: "bus_state \<Rightarrow> holding_store \<Rightarrow> bool" where
  "holding_synced s hs \<longleftrightarrow> holding_wf (holding_of (bus_storage s)) \<and> store_wf hs \<and>
     (bus_holding_dirty s \<or> bus_legacy_dirty s \<or>
      (\<exists>h. stored hs = Inr h \<and> boot_holding h = boot_holding (holding_of (bus_storage s))))"

definition world_synced :: "boot_hw \<Rightarrow> device_world \<Rightarrow> bool" where
  "world_synced hw w \<longleftrightarrow> config_synced hw (dw_bus w) (dw_nvs w) \<and> text_synced (dw_bus w) (dw_nvs w) \<and>
     holding_synced (dw_bus w) (dw_store w) \<and> web_synced (dw_nvs w) (dw_web w)"

lemmas synced_defs = config_synced_def text_synced_def holding_synced_def web_synced_def

text \<open>What the other tasks publish is well-formed.\<close>

definition env_wf :: "device_env \<Rightarrow> bool" where
  "env_wf env \<longleftrightarrow> (case de_config_between env of None \<Rightarrow> True | Some c \<Rightarrow> config_wf c) \<and>
     (case de_text_between env of None \<Rightarrow> True | Some t \<Rightarrow> length t = 2000) \<and>
     (case de_web_between env of None \<Rightarrow> True | Some i \<Rightarrow> web_info_utf8 i)"

lemma on_bus_sel [simp]:
  "dw_bus (on_bus f w) = f (dw_bus w)" "dw_nvs (on_bus f w) = dw_nvs w" "dw_store (on_bus f w) = dw_store w"
  "dw_web (on_bus f w) = dw_web w" "dw_do (on_bus f w) = dw_do w" "dw_wait_ok (on_bus f w) = dw_wait_ok w"
  "dw_wait_completed (on_bus f w) = dw_wait_completed w"
  by (simp_all add: on_bus_def)

text \<open>A write elsewhere in the key-value flash keeps an area synchronised.\<close>

lemma boot_config_keeps: "only_keys W nv nv' \<Longrightarrow> W \<inter> config_keys = {} \<Longrightarrow> boot_config hw nv' = boot_config hw nv"
  unfolding boot_config_def using config_area.keeps by metis

lemma nvs_frame:
  assumes "only_keys W nv nv'"
  shows "W \<inter> config_keys = {} \<Longrightarrow> config_synced hw s nv \<Longrightarrow> config_synced hw s nv'"
    and "W \<inter> text_keys = {} \<Longrightarrow> text_synced s nv \<Longrightarrow> text_synced s nv'"
    and "W \<inter> web_keys = {} \<Longrightarrow> web_synced nv c \<Longrightarrow> web_synced nv' c"
  using boot_config_keeps [OF assms] text_area.keeps [OF assms] web_area.keeps [OF assms]
  by (simp_all add: synced_defs)

text \<open>The fields of the bus state each area looks at.\<close>

lemma bus_frame:
  "bus_config s' = bus_config s \<Longrightarrow> bus_config_dirty s' = bus_config_dirty s \<Longrightarrow>
     config_synced hw s' nv = config_synced hw s nv"
  "sn_device_text (bus_storage s') = sn_device_text (bus_storage s) \<Longrightarrow> bus_text_dirty s' = bus_text_dirty s \<Longrightarrow>
     text_synced s' nv = text_synced s nv"
  "holding_of (bus_storage s') = holding_of (bus_storage s) \<Longrightarrow> bus_holding_dirty s' = bus_holding_dirty s \<Longrightarrow>
     bus_legacy_dirty s' = bus_legacy_dirty s \<Longrightarrow> holding_synced s' hs = holding_synced s hs"
  by (simp_all add: synced_defs)

lemma save_config_filled:
  assumes "config_wf c" and "save_config oc c m = (Inr u, m')"
  shows "boot_config hw (Some m') = Some (snd (repair_config hw (config_filled c)))"
proof -
  have "save_config oc c m = (Inr (), m')" using assms(2) by (cases u) simp
  from save_config_ok(2) [OF this] load_config_saved [OF assms(1), of m]
  show ?thesis by (simp add: boot_config_def load_boot_config_def)
qed

lemma config_between_fields:
  "bus_storage (config_between c s) = bus_storage s" "bus_text_dirty (config_between c s) = bus_text_dirty s"
  "bus_holding_dirty (config_between c s) = bus_holding_dirty s" "bus_legacy_dirty (config_between c s) = bus_legacy_dirty s"
  "bus_mailbox (config_between c s) = bus_mailbox s" "bus_env (config_between c s) = bus_env s"
  "bus_config_gen (config_between c s) = bus_config_gen s \<longleftrightarrow> c = None"
  by (simp_all add: config_between_def request_persist_config_def publish_config_def split: option.split)

lemma config_between_wf:
  "config_wf (bus_config s) \<Longrightarrow> (case c of None \<Rightarrow> True | Some c \<Rightarrow> config_wf c) \<Longrightarrow> config_wf (bus_config (config_between c s))"
  by (simp add: config_between_def request_persist_config_def publish_config_def split: option.splits)

text \<open>A save keeps the areas synchronised and leaves mailbox and acknowledgement alone.\<close>

definition saves_ok :: "boot_hw \<Rightarrow> device_world \<Rightarrow> device_world \<Rightarrow> bool" where
  "saves_ok hw w w' \<longleftrightarrow> world_synced hw w' \<and> dw_wait_ok w' = dw_wait_ok w \<and>
     dw_wait_completed w' = dw_wait_completed w \<and> bus_mailbox (dw_bus w') = bus_mailbox (dw_bus w) \<and>
     bus_env (dw_bus w') = bus_env (dw_bus w)"

lemma saves_ok_refl: "world_synced hw w \<Longrightarrow> saves_ok hw w w"
  by (simp add: saves_ok_def)

lemma saves_ok_trans: "saves_ok hw a b \<Longrightarrow> saves_ok hw b c \<Longrightarrow> saves_ok hw a c"
  by (simp add: saves_ok_def)

lemma saves_okD: "saves_ok hw w w' \<Longrightarrow> world_synced hw w'"
  by (simp add: saves_ok_def)

lemma commit_config_synced:
  assumes "world_synced hw w" and "env_wf env" and "commit_config force env w = (ok, w')"
  shows "saves_ok hw w w' \<and> (ok \<longrightarrow> \<not> bus_config_dirty (dw_bus w'))"
proof -
  let ?w = "on_bus (config_between (de_config_between env)) (on_bus (\<lambda>s. s\<lparr>bus_config_dirty := False\<rparr>) w)"
  have gen: "bus_config_gen (config_between c (s\<lparr>bus_config_dirty := b\<rparr>)) = bus_config_gen s \<longleftrightarrow> c = None" for c s b
    using config_between_fields(7) [of c "s\<lparr>bus_config_dirty := b\<rparr>"] by simp
  have cw: "config_wf (bus_config (dw_bus ?w))"
    using assms(1,2) by (auto simp: world_synced_def config_synced_def env_wf_def intro!: config_between_wf)
  have fields: "text_synced (dw_bus ?w) nv = text_synced (dw_bus w) nv"
      "holding_synced (dw_bus ?w) hs = holding_synced (dw_bus w) hs" for nv hs
    by (rule bus_frame; simp add: config_between_fields)+
  have dirty: "config_synced hw (s\<lparr>bus_config_dirty := True\<rparr>) nv \<longleftrightarrow> config_wf (bus_config s)"
      "text_synced (s\<lparr>bus_config_dirty := b\<rparr>) nv = text_synced s nv"
      "holding_synced (s\<lparr>bus_config_dirty := b\<rparr>) hs = holding_synced s hs" for s nv hs b
    by (simp_all add: synced_defs)
  show ?thesis
  proof (cases "\<not> bus_config_dirty (dw_bus w) \<and> \<not> force")
    case True
    then have "ok" "w' = on_bus (\<lambda>s. s\<lparr>bus_config_dirty := False\<rparr>) w" using assms(3) by (simp_all add: commit_config_def)
    moreover have "(dw_bus w)\<lparr>bus_config_dirty := False\<rparr> = dw_bus w" using True by simp
    ultimately show ?thesis using assms(1) True by (simp add: on_bus_def saves_ok_def)
  next
    case False
    show ?thesis
    proof (cases "dw_nvs w")
      case None
      then have "\<not> ok" "w' = on_bus (\<lambda>s. s\<lparr>bus_config_dirty := True\<rparr>) ?w"
        using assms(3) False by (auto simp: commit_config_def apply_config_inner_def)
      then show ?thesis using assms(1) cw fields None
        by (simp add: world_synced_def saves_ok_def dirty config_between_fields)
    next
      case (Some m)
      obtain r m1 where sv: "save_config (de_nvs env) (bus_config (dw_bus w)) m = (r, m1)" by (rule prod.exhaust)
      have only: "only_keys config_keys (Some m) (Some m1)" using save_config_only [of m "de_nvs env" "bus_config (dw_bus w)"] sv by simp
      note fr = nvs_frame [OF only]
      let ?ok = "\<not> isl r \<and> de_config_between env = None"
      have w': "(ok, w') = (if ?ok then (True, ?w\<lparr>dw_nvs := Some m1\<rparr>)
          else (False, on_bus (\<lambda>s. s\<lparr>bus_config_dirty := True\<rparr>) (?w\<lparr>dw_nvs := Some m1\<rparr>)))"
        using assms(3) False sv Some
        by (cases r; cases "de_config_between env") (auto simp: commit_config_def apply_config_inner_def gen Let_def)
      have others: "text_synced (dw_bus ?w) (Some m1)" "holding_synced (dw_bus ?w) (dw_store w)" "web_synced (Some m1) (dw_web w)"
        using assms(1) fr Some unfolding fields world_synced_def by simp_all
      show ?thesis
      proof (cases ?ok)
        case True
        then obtain u where u: "r = Inr u" by (cases r) auto
        have "config_wf (bus_config (dw_bus w))" using assms(1) by (simp add: world_synced_def config_synced_def)
        from save_config_filled [OF this sv [unfolded u]]
        have "config_synced hw (dw_bus ?w) (Some m1)" using True cw by (simp add: config_synced_def config_between_def)
        then show ?thesis using w' True others
          by (simp add: world_synced_def saves_ok_def config_between_fields) (simp add: config_between_def)
      next
        case False
        have "\<not> ok" "w' = on_bus (\<lambda>s. s\<lparr>bus_config_dirty := True\<rparr>) (?w\<lparr>dw_nvs := Some m1\<rparr>)"
          using w' unfolding if_not_P [OF False] by simp_all
        then show ?thesis using others cw by (simp add: world_synced_def saves_ok_def dirty config_between_fields)
      qed
    qed
  qed
qed


lemma persist_text_synced:
  assumes "world_synced hw w" and "env_wf env" and "persist_pending_device_text force env w = (ok, w')"
  shows "saves_ok hw w w' \<and> (ok \<longrightarrow> \<not> bus_text_dirty (dw_bus w')) \<and>
    (bus_config_dirty (dw_bus w') = bus_config_dirty (dw_bus w)) \<and>
    (bus_holding_dirty (dw_bus w') = bus_holding_dirty (dw_bus w)) \<and>
    (bus_legacy_dirty (dw_bus w') = bus_legacy_dirty (dw_bus w))"
proof -
  let ?t = "de_text_between env"
  let ?w = "on_bus (text_between ?t) (on_bus (\<lambda>s. s\<lparr>bus_text_dirty := False\<rparr>) w)"
  have tb: "bus_config (text_between t s) = bus_config s" "bus_config_dirty (text_between t s) = bus_config_dirty s"
    "bus_holding_dirty (text_between t s) = bus_holding_dirty s" "bus_legacy_dirty (text_between t s) = bus_legacy_dirty s"
    "bus_mailbox (text_between t s) = bus_mailbox s" "bus_env (text_between t s) = bus_env s"
    "holding_of (bus_storage (text_between t s)) = holding_of (bus_storage s)"
    "bus_text_dirty (text_between t s) \<longleftrightarrow> bus_text_dirty s \<or> t \<noteq> None" for t s
    by (simp_all add: text_between_def publish_storage_def sync_proto_status_def holding_of_def split: option.split)
  have tl: "length (sn_device_text (bus_storage (dw_bus ?w))) = 2000"
    using assms(1,2) by (auto simp: world_synced_def text_synced_def env_wf_def text_between_def publish_storage_def
        sync_proto_status_def split: option.splits)
  have fields: "config_synced hw (dw_bus ?w) nv = config_synced hw (dw_bus w) nv"
      "holding_synced (dw_bus ?w) hs = holding_synced (dw_bus w) hs" for nv hs
    by (rule bus_frame; simp add: tb)+
  have dirty: "text_synced (s\<lparr>bus_text_dirty := True\<rparr>) nv \<longleftrightarrow> length (sn_device_text (bus_storage s)) = 2000"
      "config_synced hw (s\<lparr>bus_text_dirty := b\<rparr>) nv = config_synced hw s nv"
      "holding_synced (s\<lparr>bus_text_dirty := b\<rparr>) hs = holding_synced s hs" for s nv hs b
    by (simp_all add: synced_defs)
  have len: "length (sn_device_text (bus_storage (dw_bus w))) = 2000"
    using assms(1) by (simp add: world_synced_def text_synced_def)
  show ?thesis
  proof (cases "\<not> bus_text_dirty (dw_bus w) \<and> \<not> force")
    case True
    then have "ok" "w' = on_bus (\<lambda>s. s\<lparr>bus_text_dirty := False\<rparr>) w" using assms(3) by (simp_all add: persist_pending_device_text_def)
    moreover have "(dw_bus w)\<lparr>bus_text_dirty := False\<rparr> = dw_bus w" using True by simp
    ultimately show ?thesis using assms(1) True by (simp add: on_bus_def saves_ok_def)
  next
    case False
    show ?thesis
    proof (cases "dw_nvs w")
      case None
      then have "\<not> ok" "w' = on_bus (\<lambda>s. s\<lparr>bus_text_dirty := True\<rparr>) ?w"
        using assms(3) False len by (auto simp: persist_pending_device_text_def save_current_device_text_def)
      then show ?thesis using assms(1) tl fields None
        by (simp add: world_synced_def saves_ok_def dirty tb)
    next
      case (Some m)
      obtain r m1 where sv: "save_device_text_to_nvs (de_nvs env) (sn_device_text (bus_storage (dw_bus w))) m = (r, m1)"
        by (rule prod.exhaust)
      have only: "only_keys text_keys (Some m) (Some m1)"
        using save_text_only [of m "de_nvs env" "sn_device_text (bus_storage (dw_bus w))"] sv by simp
      note fr = nvs_frame [OF only]
      let ?ok = "r \<and> ?t = None"
      have w': "(ok, w') = (if ?ok then (True, ?w\<lparr>dw_nvs := Some m1\<rparr>)
          else (False, on_bus (\<lambda>s. s\<lparr>bus_text_dirty := True\<rparr>) (?w\<lparr>dw_nvs := Some m1\<rparr>)))"
        using assms(3) False sv Some len
        by (cases r) (auto simp: persist_pending_device_text_def save_current_device_text_def)
      have others: "config_synced hw (dw_bus ?w) (Some m1)" "holding_synced (dw_bus ?w) (dw_store w)" "web_synced (Some m1) (dw_web w)"
        using assms(1) fr Some unfolding fields world_synced_def by simp_all
      show ?thesis
      proof (cases ?ok)
        case True
        have "load_boot_text (Some m1) = sn_device_text (bus_storage (dw_bus w))"
          using load_device_text_saved sv True by (simp add: load_boot_text_def)
        then have "text_synced (dw_bus ?w) (Some m1)" using True len by (simp add: text_synced_def text_between_def)
        then show ?thesis using w' True others by (simp add: world_synced_def saves_ok_def tb)
      next
        case False
        have "\<not> ok" "w' = on_bus (\<lambda>s. s\<lparr>bus_text_dirty := True\<rparr>) (?w\<lparr>dw_nvs := Some m1\<rparr>)"
          using w' unfolding if_not_P [OF False] by simp_all
        then show ?thesis using others tl by (simp add: world_synced_def saves_ok_def dirty tb)
      qed
    qed
  qed
qed

lemma save_holding_synced:
  assumes "world_synced hw w" and "save_holding_area env w = (ok, w')"
  shows "saves_ok hw w w' \<and> (ok \<longrightarrow> \<not> bus_holding_dirty (dw_bus w') \<and> \<not> bus_legacy_dirty (dw_bus w')) \<and>
    bus_config_dirty (dw_bus w') = bus_config_dirty (dw_bus w) \<and> bus_text_dirty (dw_bus w') = bus_text_dirty (dw_bus w)"
proof -
  let ?s = "dw_bus w" and ?f = "\<lparr>sf_holding_dirty = bus_holding_dirty (dw_bus w), sf_legacy_dirty = bus_legacy_dirty (dw_bus w)\<rparr>"
  let ?h = "holding_of (bus_storage (dw_bus w))"
  obtain f hs where sv: "save_to_nvs (de_flash env) ?h (?f, dw_store w) = (ok, f, hs)"
    and w': "w' = w\<lparr>dw_store := hs, dw_bus := ?s\<lparr>bus_holding_dirty := sf_holding_dirty f, bus_legacy_dirty := sf_legacy_dirty f\<rparr>\<rparr>"
    using assms(2) by (auto simp: save_holding_area_def Let_def split: prod.splits)
  have wf: "holding_wf ?h" "store_wf (dw_store w)" using assms(1) by (simp_all add: world_synced_def holding_synced_def)
  have other: "config_synced hw (dw_bus w') nv = config_synced hw ?s nv" "text_synced (dw_bus w') nv = text_synced ?s nv" for nv
    by (rule bus_frame; simp add: w')+
  show ?thesis
  proof (cases "sf_holding_dirty ?f \<or> sf_legacy_dirty ?f")
    case True
    consider "ok" "stored hs = Inr ?h" "store_wf hs" | "\<not> ok" "store_wf hs"
      by (rule save_to_nvs_stored [OF wf(2,1) True sv]) blast+
    then have "holding_synced (dw_bus w') hs \<and> (ok \<longrightarrow> \<not> sf_holding_dirty f \<and> \<not> sf_legacy_dirty f)"
      using save_to_nvs_writes [OF wf(2,1) True sv] wf(1) by cases (auto simp: holding_synced_def w')
    then show ?thesis using assms(1) other by (simp add: world_synced_def saves_ok_def) (simp add: w')
  next
    case False
    then have f: "ok" "f = \<lparr>sf_holding_dirty = False, sf_legacy_dirty = False\<rparr>" "hs = dw_store w"
      using sv by (simp_all add: save_to_nvs_def)
    have "?s\<lparr>bus_holding_dirty := False, bus_legacy_dirty := False\<rparr> = ?s" using False by simp
    then have "w' = w" unfolding w' f save_flags.simps by (metis device_world.surjective device_world.update_convs(1,3))
    then show ?thesis using assms(1) False by (simp add: saves_ok_def)
  qed
qed

lemma persist_web_world_synced:
  assumes "world_synced hw w" and "env_wf env" and "persist_web_info env w = (ok, w')"
  shows "saves_ok hw w w' \<and> dw_bus w' = dw_bus w \<and> dw_store w' = dw_store w"
proof -
  obtain r nv c where p: "persist_pending_system_info (de_nvs env) (de_web_between env) (dw_nvs w, dw_web w) = (r, nv, c)"
    by (rule prod_cases3)
  have w': "w' = w\<lparr>dw_nvs := nv, dw_web := c\<rparr>" using assms(3) p by (simp add: persist_web_info_def)
  have "web_synced nv c"
    by (rule persist_web_synced [OF _ p]) (use assms(1,2) in \<open>auto simp: world_synced_def env_wf_def\<close>)
  then show ?thesis using nvs_frame [OF save_web_only [OF p]] assms(1)
    by (simp add: world_synced_def saves_ok_def w')
qed

text \<open>The other writers touch none of the four areas.\<close>

lemma nvs_only_synced:
  assumes "world_synced hw w" and "only_keys W (dw_nvs w) nv"
    and "W \<inter> (config_keys \<union> text_keys \<union> web_keys) = {}"
    and "dw_nvs w' = nv" "dw_bus w' = dw_bus w" "dw_store w' = dw_store w" "dw_web w' = dw_web w"
    and "dw_wait_ok w' = dw_wait_ok w" "dw_wait_completed w' = dw_wait_completed w"
  shows "saves_ok hw w w'"
proof -
  have d: "W \<inter> config_keys = {}" "W \<inter> text_keys = {}" "W \<inter> web_keys = {}"
    using assms(3) unfolding Int_Un_distrib Un_empty by simp_all
  have "config_synced hw (dw_bus w) (dw_nvs w)" "text_synced (dw_bus w) (dw_nvs w)" "web_synced (dw_nvs w) (dw_web w)"
      "holding_synced (dw_bus w) (dw_store w)"
    using assms(1) unfolding world_synced_def by blast+
  then show ?thesis
    using nvs_frame(1) [OF assms(2) d(1)] nvs_frame(2) [OF assms(2) d(2)] nvs_frame(3) [OF assms(2) d(3)]
    unfolding world_synced_def saves_ok_def assms(4-9) by blast
qed

lemma flush_outputs_synced:
  assumes "world_synced hw w" and "flush_outputs env w = (ok, w')"
  shows "saves_ok hw w w' \<and> dw_bus w' = dw_bus w \<and> dw_store w' = dw_store w \<and> dw_web w' = dw_web w"
proof (cases "do_kept_bits (dw_bus w) = dp_last (dw_do w)")
  case True
  then show ?thesis using assms by (simp add: flush_outputs_def saves_ok_def)
next
  case False
  obtain r nv where s: "save_do_bits_to_nvs (de_nvs env) (do_kept_bits (dw_bus w)) (dw_nvs w) = (r, nv)" by (rule prod.exhaust)
  have f: "dw_nvs w' = nv" "dw_bus w' = dw_bus w" "dw_store w' = dw_store w" "dw_web w' = dw_web w"
    "dw_wait_ok w' = dw_wait_ok w" "dw_wait_completed w' = dw_wait_completed w"
    using assms(2) False s by (auto simp: flush_outputs_def split: bool.splits)
  show ?thesis using nvs_only_synced [OF assms(1) save_do_only [OF s] _ f] f by simp
qed


section \<open>Every step keeps the areas synchronised\<close>

lemma persist_config_now_synced:
  assumes "world_synced hw w" and "env_wf env" and "dev_persist_config_now env w = (ok, w')"
  shows "saves_ok hw w w' \<and> (ok \<longrightarrow> \<not> bus_config_dirty (dw_bus w'))"
  using assms(3) commit_config_synced [OF assms(1,2), of False]
  by (cases "commit_config False env w") (auto simp: dev_persist_config_now_def split: bool.splits)

lemma bit_le64_bytes:
  "bit (foldr (\<lambda>k acc. push_bit (8 * k) (ucast (b ! k :: u8)) OR acc) ks (0 :: u64)) n \<longleftrightarrow>
     n < 64 \<and> (\<exists>k\<in>set ks. 8 * k \<le> n \<and> bit (b ! k) (n - 8 * k))"
  by (induction ks) (auto simp: bit_simps dest: bit_imp_le_length)

lemma le64_bytes_inverse: "le64 (le64_bytes w) = w"
proof (rule bit_word_eqI)
  fix n assume "n < LENGTH(64)"
  then have n: "n < 64" by simp
  have "bit (le64 (le64_bytes w)) n \<longleftrightarrow> (\<exists>k\<in>set [0..<8]. 8 * k \<le> n \<and> bit (le64_bytes w ! k) (n - 8 * k))"
    using n by (simp add: le64_def bit_le64_bytes)
  also have "\<dots> \<longleftrightarrow> (\<exists>k\<in>set [0..<8]. 8 * k \<le> n \<and> n - 8 * k < 8 \<and> bit w n)"
    by (rule bex_cong) (auto simp: le64_bytes_def bit_ucast_iff bit_drop_bit_eq)
  finally have "bit (le64 (le64_bytes w)) n \<longleftrightarrow> (\<exists>k\<in>set [0..<8]. 8 * k \<le> n \<and> n - 8 * k < 8 \<and> bit w n)" .
  moreover have "n div 8 < 8 \<and> 8 * (n div 8) \<le> n \<and> n - 8 * (n div 8) < 8"
    using n by (simp add: minus_mult_div_eq_mod)
  ultimately show "bit (le64 (le64_bytes w)) n \<longleftrightarrow> bit w n" by force
qed

lemma save_do_loaded:
  assumes "save_do_bits_to_nvs oc bits nv = (True, nv')"
  shows "map_option load_do_bits_from_nvs nv' = Some bits"
proof -
  have len: "length (le64_bytes bits) = 8" by (simp add: le64_bytes_def)
  obtain m where m: "nv = Some m" using assms by (cases nv) (simp_all add: save_do_bits_to_nvs_def)
  obtain r m1 where w: "nvs_set_blob (oc NVS_KEY_DO_BITS) NVS_KEY_DO_BITS (le64_bytes bits) m = (r, m1)" by (rule prod.exhaust)
  obtain u where r: "r = Inr u" using assms m w by (cases r) (simp_all add: save_do_bits_to_nvs_def)
  obtain r2 m2 where p: "nvs_put (oc NVS_KEY_DO_MAGIC) NVS_KEY_DO_MAGIC (NvU16 DO_NVS_MAGIC) m1 = (r2, m2)" by (rule prod.exhaust)
  obtain v where v: "r2 = Inr v" "nv' = Some m2" using assms m w r p by (cases r2) (simp_all add: save_do_bits_to_nvs_def)
  have "m2 = m(NVS_KEY_DO_BITS \<mapsto> NvBlob (le64_bytes bits), NVS_KEY_DO_MAGIC \<mapsto> NvU16 DO_NVS_MAGIC)"
    using w r p v by (simp add: nvs_set_blob_ok nvs_put_ok)
  then show ?thesis
    by (simp add: v load_do_bits_from_nvs_def nvs_u16_def nvs_blob_def NVS_KEY_DO_BITS_def NVS_KEY_DO_MAGIC_def len
        le64_bytes_inverse)
qed

text \<open>What a restart would bring back is what is in memory; a web save requested meanwhile is still pending.\<close>

definition restart_keeps :: "boot_hw \<Rightarrow> device_world \<Rightarrow> bool" where
  "restart_keeps hw w \<longleftrightarrow>
     boot_config hw (dw_nvs w) = Some (snd (repair_config hw (config_filled (bus_config (dw_bus w))))) \<and>
     load_boot_text (dw_nvs w) = sn_device_text (bus_storage (dw_bus w)) \<and>
     (\<exists>h. stored (dw_store w) = Inr h \<and> boot_holding h = boot_holding (holding_of (bus_storage (dw_bus w)))) \<and>
     (wc_dirty (dw_web w) \<or> load_web_system_info_from_nvs (dw_nvs w) = wc_info (dw_web w))"

lemma in_order_Cons:
  "in_order (f # fs) w = (True, w') \<longleftrightarrow> (\<exists>w1. f w = (True, w1) \<and> in_order fs w1 = (True, w'))"
  by (auto split: prod.split bool.split)

text \<open>A barrier keeps what each of its saves keeps, whether or not it gets to the end.\<close>

lemma in_order_keeps:
  assumes "P w" and "\<And>f w ok w'. f \<in> set fs \<Longrightarrow> P w \<Longrightarrow> f w = (ok, w') \<Longrightarrow> P w'" and "in_order fs w = (ok, w')"
  shows "P w'"
  using assms
proof (induction fs arbitrary: w)
  case (Cons f fs)
  obtain o1 w1 where f: "f w = (o1, w1)" by (rule prod.exhaust)
  have "P w1" using Cons.prems(2) [of f w o1 w1] Cons.prems(1) f by simp
  then show ?case using Cons.IH [of w1] Cons.prems f by (cases o1) auto
qed simp

lemma flush_keeps:
  assumes "world_synced hw w" and "env_wf env" and "flush_pending_before_reset env w = (ok, w')"
  shows "saves_ok hw w w'"
proof -
  let ?P = "saves_ok hw w"
  have "?P w2" if "f \<in> set [dev_persist_config_now env, save_holding_area env, persist_pending_device_text False env,
      persist_web_info env, flush_outputs env]" "?P w1" "f w1 = (o1, w2)" for f w1 o1 w2
  proof -
    have s: "world_synced hw w1" using that(2) by (rule saves_okD)
    from that(1) consider "f = dev_persist_config_now env" | "f = save_holding_area env"
      | "f = persist_pending_device_text False env" | "f = persist_web_info env" | "f = flush_outputs env" by auto
    then have "saves_ok hw w1 w2"
    proof cases
      case 1 then show ?thesis using persist_config_now_synced [OF s assms(2)] that(3) by blast
    next
      case 2 then show ?thesis using save_holding_synced [OF s] that(3) by blast
    next
      case 3 then show ?thesis using persist_text_synced [OF s assms(2)] that(3) by blast
    next
      case 4 then show ?thesis using persist_web_world_synced [OF s assms(2)] that(3) by blast
    next
      case 5 then show ?thesis using flush_outputs_synced [OF s] that(3) by blast
    qed
    with that(2) show ?thesis by (rule saves_ok_trans)
  qed
  then show ?thesis
    using in_order_keeps [of ?P, OF saves_ok_refl [OF assms(1)] _ assms(3) [unfolded flush_pending_before_reset_def]] by blast
qed

lemma flush_done:
  assumes "world_synced hw w" and "env_wf env" and "flush_pending_before_reset env w = (True, w')"
  shows "restart_keeps hw w' \<and> (\<exists>w0. dw_bus w0 = dw_bus w' \<and> flush_outputs env w0 = (True, w'))"
proof -
  obtain w1 w2 w3 w4 where c: "dev_persist_config_now env w = (True, w1)" and h: "save_holding_area env w1 = (True, w2)"
    and t: "persist_pending_device_text False env w2 = (True, w3)" and b: "persist_web_info env w3 = (True, w4)"
    and d: "flush_outputs env w4 = (True, w')"
    using assms(3) unfolding flush_pending_before_reset_def in_order_Cons by auto
  have 1: "saves_ok hw w w1" "\<not> bus_config_dirty (dw_bus w1)" using persist_config_now_synced [OF assms(1,2) c] by simp_all
  have 2: "saves_ok hw w1 w2" "\<not> bus_config_dirty (dw_bus w2)" "\<not> bus_holding_dirty (dw_bus w2)" "\<not> bus_legacy_dirty (dw_bus w2)"
    using save_holding_synced [OF saves_okD [OF 1(1)] h] 1 by simp_all
  have 3: "saves_ok hw w2 w3" "\<not> bus_config_dirty (dw_bus w3)" "\<not> bus_holding_dirty (dw_bus w3)" "\<not> bus_legacy_dirty (dw_bus w3)"
    "\<not> bus_text_dirty (dw_bus w3)"
    using persist_text_synced [OF saves_okD [OF 2(1)] assms(2) t] 2 by simp_all
  have 4: "saves_ok hw w3 w4" "dw_bus w4 = dw_bus w3"
    using persist_web_world_synced [OF saves_okD [OF 3(1)] assms(2) b] by simp_all
  have 5: "world_synced hw w'" "dw_bus w' = dw_bus w4"
    using flush_outputs_synced [OF saves_okD [OF 4(1)] d] saves_okD by auto
  have "restart_keeps hw w'"
    using 5 4(2) 3 unfolding world_synced_def synced_defs restart_keeps_def by simp
  then show ?thesis using d 5(2) by metis
qed

definition same_areas :: "bus_state \<Rightarrow> bus_state \<Rightarrow> bool" where
  "same_areas s s' \<longleftrightarrow> bus_config s' = bus_config s \<and> bus_config_dirty s' = bus_config_dirty s \<and>
     bus_text_dirty s' = bus_text_dirty s \<and> bus_holding_dirty s' = bus_holding_dirty s \<and>
     bus_legacy_dirty s' = bus_legacy_dirty s \<and> bus_mailbox s' = bus_mailbox s \<and> bus_env s' = bus_env s \<and>
     sn_device_text (bus_storage s') = sn_device_text (bus_storage s) \<and>
     holding_of (bus_storage s') = holding_of (bus_storage s)"

lemma same_areas_simps [simp]:
  "same_areas s s" "same_areas s (proto_status_set v s') = same_areas s s'"
  "same_areas s (storage_modify (\<lambda>sn. sn\<lparr>sn_proto := g sn\<rparr>) s') = same_areas s s'"
  "same_areas s (s'\<lparr>bus_io := io\<rparr>) = same_areas s s'"
  by (simp_all add: same_areas_def proto_status_set_def storage_modify_def publish_storage_def
      sync_proto_status_def holding_of_def)

lemma proto_commit_areas:
  assumes "proto_commit oc bw (nv, s) = (ok, nv', s')"
  shows "same_areas s s' \<and> only_keys proto_area_keys nv nv'"
proof (cases nv)
  case None
  then show ?thesis using assms by (auto simp: proto_commit_def Let_def)
next
  case (Some m)
  obtain r m1 where c: "commit_proto oc (ps_data (sn_proto (bus_storage s)), ps_version (sn_proto (bus_storage s)),
      ps_length (sn_proto (bus_storage s))) m = (r, m1)" by (rule prod.exhaust)
  have st: "bus_storage (proto_status_set 1 s) = bus_storage s" by (simp add: proto_status_set_def)
  have u: "(\<lambda>sn. if bw = None then sn\<lparr>sn_proto := p sn\<rparr> else sn) =
      (\<lambda>sn. sn\<lparr>sn_proto := if bw = None then p sn else sn_proto sn\<rparr>)" for p by auto
  have "nv' = Some m1 \<and> same_areas s s'"
    using assms c unfolding Some proto_commit_def Let_def prod.case option.case st u
    by (cases r) (auto split: option.split)
  then show ?thesis using commit_proto_only [of m oc] c Some by (metis snd_conv)
qed

lemma proto_reload_areas: "proto_reload nv s = (ok, s') \<Longrightarrow> same_areas s s'"
  by (auto simp: proto_reload_def Let_def split: option.splits sum.splits prod.splits)

lemma world_same_areas:
  assumes "world_synced hw w" and "same_areas (dw_bus w) s"
  shows "saves_ok hw w (w\<lparr>dw_bus := s\<rparr>)"
  using assms bus_frame [of s "dw_bus w"] unfolding world_synced_def saves_ok_def same_areas_def by simp


lemma reset_record_areas:
  "{''rst_cnt'', ''rst_reason''} \<inter> (config_keys \<union> text_keys \<union> web_keys) = {}"
  "{''mesh_nidx'', ''mesh_aidx''} \<inter> (config_keys \<union> text_keys \<union> web_keys) = {}"
  "proto_area_keys \<inter> (config_keys \<union> text_keys \<union> web_keys) = {}"
  "do_keys \<inter> (config_keys \<union> text_keys \<union> web_keys) = {}"
  by simp_all

lemma on_nvs_synced:
  assumes "world_synced hw w" and "\<And>m. only_keys W (Some m) (Some (snd (f m)))"
    and "W \<inter> (config_keys \<union> text_keys \<union> web_keys) = {}"
  shows "saves_ok hw w (on_nvs f w)"
proof (cases "dw_nvs w")
  case None
  then show ?thesis using assms(1) by (simp add: on_nvs_def saves_ok_def)
next
  case (Some m)
  show ?thesis
    by (rule nvs_only_synced [OF assms(1) _ assms(3)]) (use assms(2) Some in \<open>simp_all add: on_nvs_def\<close>)
qed

lemma commit_msg_synced:
  assumes "world_synced hw w" and "proto_commit oc bw (dw_nvs w, dw_bus w) = (ok, nv, s)"
  shows "saves_ok hw w (w\<lparr>dw_nvs := nv, dw_bus := (if ok then s else proto_status_set 3 s)\<rparr>)"
proof -
  note a = proto_commit_areas [OF assms(2)]
  let ?s = "if ok then s else proto_status_set 3 s"
  have s: "same_areas (dw_bus w) ?s" using a by simp
  have 1: "saves_ok hw w (w\<lparr>dw_bus := ?s\<rparr>)" by (rule world_same_areas [OF assms(1) s])
  have "saves_ok hw (w\<lparr>dw_bus := ?s\<rparr>) (w\<lparr>dw_nvs := nv, dw_bus := ?s\<rparr>)"
    by (rule nvs_only_synced [OF saves_okD [OF 1] _ reset_record_areas(3)]) (use a in simp_all)
  with 1 show ?thesis by (rule saves_ok_trans)
qed

text \<open>A handled message keeps the areas; only a flush acknowledges, and what it acknowledges is saved.\<close>

lemma handle_synced:
  assumes "world_synced hw w" and "env_wf env"
  shows "world_synced hw (actor_handle env c w)" and "bus_mailbox (dw_bus (actor_handle env c w)) = bus_mailbox (dw_bus w)"
    and "bus_env (dw_bus (actor_handle env c w)) = bus_env (dw_bus w)"
    and "(\<forall>t. c \<noteq> CmdFlushPending t) \<Longrightarrow> dw_wait_ok (actor_handle env c w) = dw_wait_ok w \<and>
      dw_wait_completed (actor_handle env c w) = dw_wait_completed w"
proof -
  have "saves_ok hw w (actor_handle env c w)" if nf: "\<forall>t. c \<noteq> CmdFlushPending t"
  proof (cases c)
    case CmdCommit
    then show ?thesis using commit_msg_synced [OF assms(1)]
      by (simp add: actor_handle_def split: prod.split)
  next
    case CmdReload
    have r: "same_areas (dw_bus w) (if ok then s else proto_status_set 3 s)"
      if "proto_reload (dw_nvs w) (dw_bus w) = (ok, s)" for ok s
      using proto_reload_areas [OF that] by simp
    obtain ok s where e: "proto_reload (dw_nvs w) (dw_bus w) = (ok, s)" by (rule prod.exhaust)
    have "actor_handle env c w = w\<lparr>dw_bus := (if ok then s else proto_status_set 3 s)\<rparr>"
      by (simp add: actor_handle_def CmdReload e)
    then show ?thesis using world_same_areas [OF assms(1) r [OF e]] by simp
  next
    case (CmdPersistResetRecord cnt reason)
    have "only_keys {''rst_cnt'', ''rst_reason''} (Some m) (Some (snd (persist_reset_record (de_nvs env) cnt reason m)))" for m
      using put_two_only [of "(''rst_cnt'', NvU16 cnt)" "(''rst_reason'', NvU8 reason)" m "de_nvs env"]
      by (simp add: persist_reset_record_def)
    from on_nvs_synced [OF assms(1) this reset_record_areas(1)] show ?thesis
      by (simp add: actor_handle_def CmdPersistResetRecord)
  next
    case (CmdPersistMeshKeys a b)
    have "only_keys {''mesh_nidx'', ''mesh_aidx''} (Some m) (Some (snd (persist_mesh_keys (de_nvs env) a b m)))" for m
      using put_two_only [of "(''mesh_nidx'', NvU16 a)" "(''mesh_aidx'', NvU16 b)" m "de_nvs env"]
      by (simp add: persist_mesh_keys_def)
    from on_nvs_synced [OF assms(1) this reset_record_areas(2)] show ?thesis
      by (simp add: actor_handle_def CmdPersistMeshKeys)
  next
    case CmdPersistHolding
    then show ?thesis using save_holding_synced [OF assms(1)]
      by (cases "save_holding_area env w") (auto simp: actor_handle_def)
  next
    case CmdPersistConfigAndReset
    obtain ok w1 where a: "apply_config env w = (ok, w1)" by (rule prod.exhaust)
    have 1: "saves_ok hw w w1" using commit_config_synced [OF assms, of True] a by (simp add: apply_config_def)
    have io: "saves_ok hw w1 (on_bus (\<lambda>s. s\<lparr>bus_io := f s\<rparr>) w1)" for f
      unfolding on_bus_def by (rule world_same_areas [OF saves_okD [OF 1]]) simp
    have "config_wf (bus_config (dw_bus w1))" using saves_okD [OF 1] by (simp add: world_synced_def config_synced_def)
    then have cd: "saves_ok hw w1 (on_bus (\<lambda>s. s\<lparr>bus_config_dirty := True\<rparr>) w1)"
      using saves_okD [OF 1] by (simp add: world_synced_def saves_ok_def synced_defs)
    show ?thesis using a saves_ok_trans [OF 1 io] saves_ok_trans [OF 1 cd]
      by (cases ok) (simp_all add: actor_handle_def CmdPersistConfigAndReset)
  next
    case (CmdFlushPending t)
    then show ?thesis using nf by simp
  qed
  moreover have "world_synced hw (actor_handle env (CmdFlushPending t) w) \<and>
      bus_mailbox (dw_bus (actor_handle env (CmdFlushPending t) w)) = bus_mailbox (dw_bus w) \<and>
      bus_env (dw_bus (actor_handle env (CmdFlushPending t) w)) = bus_env (dw_bus w)" for t
  proof -
    obtain ok w1 where f: "flush_pending_before_reset env w = (ok, w1)" by (rule prod.exhaust)
    from flush_keeps [OF assms f] show ?thesis by (simp add: actor_handle_def f saves_ok_def world_synced_def)
  qed
  ultimately have *: "world_synced hw (actor_handle env c w) \<and> bus_mailbox (dw_bus (actor_handle env c w)) = bus_mailbox (dw_bus w) \<and>
      bus_env (dw_bus (actor_handle env c w)) = bus_env (dw_bus w)"
    by (cases "\<exists>t. c = CmdFlushPending t") (auto simp: saves_ok_def)
  then show "world_synced hw (actor_handle env c w)" "bus_mailbox (dw_bus (actor_handle env c w)) = bus_mailbox (dw_bus w)"
    "bus_env (dw_bus (actor_handle env c w)) = bus_env (dw_bus w)" by blast+
  show "(\<forall>t. c \<noteq> CmdFlushPending t) \<Longrightarrow> dw_wait_ok (actor_handle env c w) = dw_wait_ok w \<and>
      dw_wait_completed (actor_handle env c w) = dw_wait_completed w"
    using \<open>(\<forall>t. c \<noteq> CmdFlushPending t) \<Longrightarrow> saves_ok hw w (actor_handle env c w)\<close> by (simp add: saves_ok_def)
qed

lemma handle_flush:
  assumes "world_synced hw w" and "env_wf env"
  shows "dw_wait_completed (actor_handle env (CmdFlushPending t) w) = t"
    and "dw_wait_ok (actor_handle env (CmdFlushPending t) w) \<Longrightarrow> restart_keeps hw (actor_handle env (CmdFlushPending t) w)"
proof -
  obtain ok w1 where f: "flush_pending_before_reset env w = (ok, w1)" by (rule prod.exhaust)
  have e: "actor_handle env (CmdFlushPending t) w = w1\<lparr>dw_wait_ok := ok, dw_wait_completed := t\<rparr>"
    by (simp add: actor_handle_def f)
  show "dw_wait_completed (actor_handle env (CmdFlushPending t) w) = t" by (simp add: e)
  show "restart_keeps hw (actor_handle env (CmdFlushPending t) w)" if "dw_wait_ok (actor_handle env (CmdFlushPending t) w)"
  proof -
    have "ok" using that by (simp add: e)
    then have "restart_keeps hw w1" using flush_done [OF assms, of w1] f by simp
    then show ?thesis by (simp add: e restart_keeps_def)
  qed
qed


lemma text_dirty_synced:
  "world_synced hw w \<Longrightarrow> saves_ok hw w (on_bus (\<lambda>s. s\<lparr>bus_text_dirty := True\<rparr>) w)"
  by (simp add: world_synced_def saves_ok_def synced_defs)

lemma throttled_only:
  "persist_do_bits_throttled oc now_ms s (dp, nv) = (dp', nv') \<Longrightarrow> only_keys do_keys nv nv'"
  using save_do_only [of oc _ nv]
  by (auto simp: persist_do_bits_throttled_def Let_def split: if_splits prod.splits)

lemma idle_steps_synced:
  assumes "world_synced hw w" and "env_wf env"
    and "f \<in> {idle_outputs, idle_holding, idle_config, idle_web, idle_text}"
  shows "saves_ok hw w (snd (f env now (a, w)))"
proof -
  have 1: "saves_ok hw w (snd (idle_outputs env now (a, w)))"
  proof (cases "now \<ge> da_next_do a")
    case True
    obtain dp nv where p: "persist_do_bits_throttled (de_nvs env) (de_timer_ms env) (dw_bus w) (dw_do w, dw_nvs w) = (dp, nv)"
      by (rule prod.exhaust)
    have "snd (idle_outputs env now (a, w)) = w\<lparr>dw_do := dp, dw_nvs := nv\<rparr>" using True by (simp add: idle_outputs_def p)
    then show ?thesis
      using nvs_only_synced [OF assms(1) throttled_only [OF p] reset_record_areas(4), of "w\<lparr>dw_do := dp, dw_nvs := nv\<rparr>"] by simp
  qed (simp add: idle_outputs_def saves_ok_refl assms(1))
  have 2: "saves_ok hw w (snd (idle_holding env now (a, w)))"
    using save_holding_synced [OF assms(1)] saves_ok_refl [OF assms(1)]
    by (cases "save_holding_area env w") (simp add: idle_holding_def)
  have 3: "saves_ok hw w (snd (idle_config env now (a, w)))"
    using persist_config_now_synced [OF assms(1,2)] saves_ok_refl [OF assms(1)]
    by (cases "dev_persist_config_now env w") (simp add: idle_config_def)
  have 4: "saves_ok hw w (snd (idle_web env now (a, w)))"
    using persist_web_world_synced [OF assms(1,2)] saves_ok_refl [OF assms(1)]
    by (cases "persist_web_info env w") (simp add: idle_web_def)
  have 5: "saves_ok hw w (snd (idle_text env now (a, w)))"
  proof -
    obtain ok w1 where p: "persist_pending_device_text False env w = (ok, w1)" by (rule prod.exhaust)
    have 1: "saves_ok hw w w1" using persist_text_synced [OF assms(1,2) p] by simp
    have 2: "saves_ok hw w (on_bus (\<lambda>s. s\<lparr>bus_text_dirty := True\<rparr>) w1)"
      by (rule saves_ok_trans [OF 1 text_dirty_synced [OF saves_okD [OF 1]]])
    show ?thesis using saves_ok_refl [OF assms(1)] 1 2 by (cases ok) (simp_all add: idle_text_def p)
  qed
  show ?thesis using assms(3) 1 2 3 4 5 by auto
qed

lemma idle_synced:
  assumes "world_synced hw w" and "env_wf env" and "actor_idle env (a, w) = (nap, a', w')"
  shows "saves_ok hw w w'"
proof -
  have "saves_ok hw w (snd (fold (\<lambda>f. f env now) fs (a, v)))"
    if "saves_ok hw w v" "set fs \<subseteq> {idle_outputs, idle_holding, idle_config, idle_web, idle_text}" for fs v a now
    using that
  proof (induction fs arbitrary: a v)
    case (Cons f fs)
    obtain b u where u: "f env now (a, v) = (b, u)" by (rule prod.exhaust)
    have "saves_ok hw v u"
      using idle_steps_synced [OF saves_okD [OF Cons.prems(1)] assms(2), of f now a] Cons.prems(2) u by auto
    then show ?case using Cons.IH [of u b] Cons.prems saves_ok_trans u by auto
  qed simp
  from this [OF saves_ok_refl [OF assms(1)], of "[idle_outputs, idle_holding, idle_config, idle_web, idle_text]" "de_clock env 0" a]
  show ?thesis using assms(3) by (simp add: actor_idle_def)
qed

section \<open>The run of the actor\<close>

text \<open>What another task may do to the shared state: change the configuration, the device text and the holding area with
  what is stored beside it, as long as it marks what it changes and takes no mark away.\<close>

definition marked_change :: "device_world \<Rightarrow> device_world \<Rightarrow> bool" where
  "marked_change w w' \<longleftrightarrow> (\<exists>s'. w' = w\<lparr>dw_bus := s'\<rparr> \<and> (let s = dw_bus w in
     bus_mailbox s' = bus_mailbox s \<and> config_wf (bus_config s') \<and> length (sn_device_text (bus_storage s')) = 2000 \<and>
     holding_wf (holding_of (bus_storage s')) \<and>
     (bus_config_dirty s' \<or> \<not> bus_config_dirty s \<and> bus_config s' = bus_config s) \<and>
     (bus_text_dirty s' \<or> \<not> bus_text_dirty s \<and> sn_device_text (bus_storage s') = sn_device_text (bus_storage s)) \<and>
     (bus_holding_dirty s' \<or> bus_legacy_dirty s' \<or> \<not> bus_holding_dirty s \<and> \<not> bus_legacy_dirty s \<and>
       holding_of (bus_storage s') = holding_of (bus_storage s))))"

lemma marked_synced:
  assumes "marked_change w w'" and "world_synced hw w"
  shows "world_synced hw w'"
proof -
  from assms(1) obtain s' where s': "w' = w\<lparr>dw_bus := s'\<rparr>" and m: "config_wf (bus_config s')"
      "length (sn_device_text (bus_storage s')) = 2000" "holding_wf (holding_of (bus_storage s'))"
      "bus_config_dirty s' \<or> \<not> bus_config_dirty (dw_bus w) \<and> bus_config s' = bus_config (dw_bus w)"
      "bus_text_dirty s' \<or> \<not> bus_text_dirty (dw_bus w) \<and> sn_device_text (bus_storage s') = sn_device_text (bus_storage (dw_bus w))"
      "bus_holding_dirty s' \<or> bus_legacy_dirty s' \<or> \<not> bus_holding_dirty (dw_bus w) \<and> \<not> bus_legacy_dirty (dw_bus w) \<and>
        holding_of (bus_storage s') = holding_of (bus_storage (dw_bus w))"
    unfolding marked_change_def Let_def by blast
  have "config_synced hw s' (dw_nvs w)" using m assms(2) by (auto simp: world_synced_def config_synced_def)
  moreover have "text_synced s' (dw_nvs w)" using m assms(2) by (auto simp: world_synced_def text_synced_def)
  moreover have "holding_synced s' (dw_store w)" using m assms(2) by (auto simp: world_synced_def holding_synced_def)
  ultimately show ?thesis using assms(2) by (simp add: world_synced_def s')
qed

text \<open>No change is one, and so is a write to the holding area.\<close>

lemma same_marked: "world_synced hw w \<Longrightarrow> marked_change w w"
  by (auto simp: marked_change_def Let_def world_synced_def synced_defs intro!: exI [of _ "dw_bus w"])

lemma holding_write_marked:
  assumes "world_synced hw w" and "length (f (sn_holding_buf (bus_storage (dw_bus w)))) = 2048"
  shows "marked_change w (on_bus (storage_modify_holding f) w)"
  using assms by (auto simp: marked_change_def world_synced_def synced_defs on_bus_def storage_modify_holding_def
      storage_modify_holding_raw_def mark_holding_dirty_def mark_storage_mutated_def publish_storage_def sync_proto_status_def
      holding_wf_def holding_of_def)

text \<open>One step: a message handled, the periodic saves, a message that arrives, or a change by another task.\<close>

inductive actor_step :: "device_world \<Rightarrow> device_world \<Rightarrow> bool" where
  handled: "bus_mailbox (dw_bus w) = c # q \<Longrightarrow> env_wf env \<Longrightarrow>
    actor_step w (actor_handle env c (on_bus (\<lambda>s. s\<lparr>bus_mailbox := q\<rparr>) w))"
| idled: "env_wf env \<Longrightarrow> actor_idle env (a, w) = (nap, a', w') \<Longrightarrow> actor_step w w'"
| arrived: "actor_step w (mailbox_send c w)"
| changed: "marked_change w w' \<Longrightarrow> actor_step w w'"

abbreviation actor_run :: "device_world \<Rightarrow> device_world \<Rightarrow> bool" where "actor_run \<equiv> actor_step\<^sup>*\<^sup>*"

lemma mailbox_synced:
  "world_synced hw w \<Longrightarrow> world_synced hw (on_bus (\<lambda>s. s\<lparr>bus_mailbox := q\<rparr>) w)"
  by (simp add: world_synced_def synced_defs)

lemma mailbox_send_synced: "world_synced hw w \<Longrightarrow> world_synced hw (mailbox_send c w)"
  by (simp add: mailbox_send_def world_synced_def synced_defs)

lemma actor_step_synced: "actor_step w w' \<Longrightarrow> world_synced hw w \<Longrightarrow> world_synced hw w'"
proof (induction rule: actor_step.induct)
  case (handled w c q env)
  then show ?case using handle_synced(1) [OF mailbox_synced] by blast
next
  case (idled env a w nap a' w')
  then show ?case using idle_synced saves_okD by blast
qed (rule mailbox_send_synced, assumption, rule marked_synced)

lemma actor_run_synced: "actor_run w w' \<Longrightarrow> world_synced hw w \<Longrightarrow> world_synced hw w'"
  by (induction rule: rtranclp_induct) (auto intro: actor_step_synced)

lemma sends_run: "actor_run w (fold mailbox_send cs w)"
  by (induction cs arbitrary: w) (auto intro: converse_rtranclp_into_rtranclp actor_step.arrived)

lemma actor_batch_run:
  assumes "\<And>i. env_wf (envs i)" and "actor_batch i n busy envs w = (cs, w')"
  shows "actor_run w w'"
  using assms(2)
proof (induction n arbitrary: i w cs)
  case (Suc n)
  show ?case
  proof (cases "mpsc_dequeue (busy i) (bus_mailbox (dw_bus w))")
    case (Pair r q)
    show ?thesis
    proof (cases r)
      case None
      then show ?thesis using Suc.prems Pair by simp
    next
      case (Some c)
      then have q: "bus_mailbox (dw_bus w) = c # q" using Pair by (auto simp: mpsc_dequeue_def split: if_splits list.splits)
      let ?w1 = "actor_handle (envs i) c (on_bus (\<lambda>s. s\<lparr>bus_mailbox := q\<rparr>) w)"
      let ?w2 = "fold mailbox_send (de_arrivals (envs i)) ?w1"
      obtain ds where b: "actor_batch (Suc i) n busy envs ?w2 = (ds, w')"
        using Suc.prems Pair Some by (auto simp: Let_def split: prod.splits)
      have "actor_step w ?w1" by (rule actor_step.handled [where c = c and q = q, OF q assms(1)])
      then show ?thesis using sends_run [of ?w1] Suc.IH [OF b] by (metis converse_rtranclp_into_rtranclp rtranclp_trans)
    qed
  qed
qed simp

lemma actor_round_run:
  assumes "\<And>i. env_wf (envs i)" and "actor_round busy envs (a, w) = (cs, a', w')"
  shows "actor_run w w'"
proof -
  obtain ds w1 where b: "actor_batch 0 8 busy envs w = (ds, w1)" by (rule prod.exhaust)
  obtain nap b2 w2 where i: "actor_idle (envs 8) (a, w1) = (nap, b2, w2)" by (rule prod_cases3)
  have w': "w' = fold mailbox_send (de_arrivals (envs 8)) w2" using assms(2) b i by (simp add: actor_round_def)
  have "actor_step w1 w2" by (rule actor_step.idled [OF assms(1) i])
  then show ?thesis
    using actor_batch_run [OF assms(1) b] sends_run [of w2 "de_arrivals (envs 8)"] unfolding w'
    by (metis rtranclp.rtrancl_into_rtrancl rtranclp_trans)
qed

lemma actor_rounds_run:
  assumes "\<And>n i. env_wf (envs n i)" and "actor_rounds k busy envs (a, w) = (cs, a', w')"
  shows "actor_run w w'"
  using assms(2)
proof (induction k arbitrary: a w cs)
  case (Suc k)
  obtain c1 a1 w1 where r: "actor_round (busy k) (envs k) (a, w) = (c1, a1, w1)" by (rule prod_cases3)
  obtain c2 where "actor_rounds k busy envs (a1, w1) = (c2, a', w')"
    using Suc.prems r by (auto simp: Let_def split: prod.splits)
  from Suc.IH [OF this] actor_round_run [OF assms(1) r] show ?case by (rule rtranclp_trans [rotated])
qed simp


section \<open>Correctness\<close>

lemma await_loop_polls:
  assumes "await_loop step slack ticket deadline now i aw = (r, polls, aw')"
  shows "polls \<le> i + (deadline - now + 9) div 10"
  using assms
proof (induction step slack ticket deadline now i aw rule: await_loop.induct)
  case (1 step slack ticket deadline now i aw)
  show ?case
  proof (cases "dw_wait_completed (snd aw) = ticket \<or> now \<ge> deadline")
    case True
    then have "polls = i" using "1.prems" by (subst (asm) await_loop.simps) (auto split: if_splits)
    then show ?thesis by simp
  next
    case False
    then have "await_loop step slack ticket deadline (now + 10 + slack i) (Suc i) (step i aw) = (r, polls, aw')"
      using "1.prems" by (subst (asm) await_loop.simps) simp
    with "1.IH" False have "polls \<le> Suc i + (deadline - (now + 10 + slack i) + 9) div 10" by simp
    also have "\<dots> \<le> Suc i + (deadline - (now + 10) + 9) div 10" by (intro add_left_mono div_le_mono) simp
    also have "Suc i + (deadline - (now + 10) + 9) div 10 \<le> i + (deadline - now + 9) div 10"
    proof -
      obtain d where d: "deadline = now + Suc d" using False by (metis less_iff_Suc_add linorder_not_le add_Suc_right)
      show ?thesis unfolding d by (cases "d \<ge> 9") (simp_all add: div_if)
    qed
    finally show ?thesis .
  qed
qed

text \<open>What holds of the state the polls start from and is kept between two polls holds at the end.\<close>

lemma await_loop_invariant:
  assumes "P aw" and "\<And>i aw. P aw \<Longrightarrow> P (step i aw)" and "await_loop step slack ticket deadline now i aw = (r, polls, aw')"
  shows "P aw' \<and> (r = Inr () \<longrightarrow> dw_wait_completed (snd aw') = ticket \<and> dw_wait_ok (snd aw')) \<and>
    (r = Inl AwTimedOut \<longrightarrow> dw_wait_completed (snd aw') \<noteq> ticket) \<and> r \<noteq> Inl AwBusy \<and> r \<noteq> Inl AwUnavailable"
  using assms(1,3,2)
proof (induction step slack ticket deadline now i aw rule: await_loop.induct)
  case (1 step slack ticket deadline now i aw)
  show ?case
  proof (cases "dw_wait_completed (snd aw) = ticket \<or> now \<ge> deadline")
    case True
    then show ?thesis using "1.prems" by (subst (asm) await_loop.simps) (auto split: if_splits)
  next
    case False
    then have "await_loop step slack ticket deadline (now + 10 + slack i) (Suc i) (step i aw) = (r, polls, aw')"
      using "1.prems"(2) by (subst (asm) await_loop.simps) simp
    then show ?thesis using "1.IH" [OF _ _ "1.prems"(3) [OF "1.prems"(1)] _ "1.prems"(3)] False by simp
  qed
qed

text \<open>C11: Waiting for a save ends.  Whatever the actor does meanwhile, a caller that waits for its pending changes
  to be saved polls at most 800 times, 10 ms apart; it reports a timeout only when its request has not been
  answered by then, and reports success only after the actor answered it with success.\<close>

theorem await_ends:
  assumes "await_pending_persistence step slack now st aw = (r, polls, st', aw')"
  shows "polls \<le> 800 \<and>
    (r = Inl AwTimedOut \<longrightarrow> dw_wait_completed (snd aw') \<noteq> aw_next st') \<and>
    (r = Inr () \<longrightarrow> dw_wait_completed (snd aw') = aw_next st' \<and> dw_wait_ok (snd aw')) \<and>
    (aw_busy st \<longrightarrow> r = Inl AwBusy \<and> aw' = aw)"
proof (cases "aw_busy st")
  case False
  obtain a w where aw: "aw = (a, w)" by (rule prod.exhaust)
  let ?ticket = "aw_next st + 1"
  obtain sent q where q: "mpsc_try_enqueue MAILBOX False (CmdFlushPending ?ticket) (bus_mailbox (dw_bus w)) = (sent, q)"
    by (rule prod.exhaust)
  show ?thesis
  proof (cases "\<not> env_actor_started (bus_env (dw_bus w)) \<or> \<not> sent")
    case True
    then show ?thesis using assms False q by (auto simp: await_pending_persistence_def aw)
  next
    case started: False
    obtain p aw2 where l: "await_loop step slack ?ticket (now + 8000) now 0 (a, on_bus (\<lambda>s. s\<lparr>bus_mailbox := q\<rparr>) w) = (r, p, aw2)"
      and e: "polls = p" "aw' = aw2" "st' = st\<lparr>aw_next := ?ticket\<rparr>"
      using assms False q started by (auto simp: await_pending_persistence_def aw Let_def split: prod.splits)
    show ?thesis
      using await_loop_polls [OF l] await_loop_invariant [of "\<lambda>_. True", OF _ _ l] False by (simp add: e)
  qed
qed (use assms in \<open>auto simp: await_pending_persistence_def\<close>)

text \<open>A concrete device: default configuration not yet saved, an erased partition, every driver call succeeds.\<close>

definition quiet_env :: device_env where
  "quiet_env = \<lparr>de_nvs = \<lambda>_. NvDone, de_flash = \<lparr>fe_erase = FlOk, fe_write = FlOk, fe_verify = True\<rparr>,
     de_config_between = None, de_text_between = None, de_proto_between = None, de_web_between = None,
     de_timer_ms = 0, de_clock = \<lambda>_. 0, de_arrivals = []\<rparr>"

definition fresh_world :: device_world where
  "fresh_world = \<lparr>dw_bus = (bus_start env_idle)\<lparr>bus_config_dirty := True\<rparr>, dw_nvs = Some Map.empty,
     dw_store = \<lparr>hs_part = Some (replicate 0x8000 0xFF), hs_active = 255, hs_generation = 0, hs_valid = False\<rparr>,
     dw_web = \<lparr>wc_info = web_info_default, wc_dirty = False\<rparr>, dw_do = do_persist_new,
     dw_wait_ok = False, dw_wait_completed = 0\<rparr>"

abbreviation (input) quiet_step :: "nat \<Rightarrow> actor_state \<Rightarrow> actor_state" where
  "quiet_step \<equiv> actor_between (\<lambda>_. Suc 0) (\<lambda>_ _ _. False) (\<lambda>_ _ _. quiet_env)"

lemma env_wf_quiet: "env_wf quiet_env"
  by (simp add: env_wf_def quiet_env_def)

lemma web_default_utf8: "web_info_utf8 web_info_default"
  by code_simp

lemma fresh_world_synced: "world_synced hw fresh_world"
proof -
  have st: "stored (dw_store fresh_world) = Inr holding_empty"
    by (simp add: stored_def load_from_nvs_def load_two_slots fresh_world_def read_slot_erased)
  have h: "holding_of (bus_storage (dw_bus fresh_world)) = holding_empty"
    by (simp add: fresh_world_def bus_start_def storage_new_def holding_of_def holding_empty_def)
  have "holding_synced (dw_bus fresh_world) (dw_store fresh_world)"
    using st h store_wf_erased by (simp add: holding_synced_def holding_wf_def holding_empty_def) (simp add: fresh_world_def)
  then show ?thesis
    by (simp add: world_synced_def)
      (simp add: fresh_world_def config_synced_def text_synced_def web_synced_def bus_start_def
        config_wf_defaults storage_new_def load_boot_text_def load_device_text_from_nvs_def nvs_blob_def
        web_default_utf8 load_web_system_info_from_nvs_def)
qed

lemma fresh_world_flush:
  "fst (flush_pending_before_reset quiet_env (on_bus (\<lambda>s. s\<lparr>bus_mailbox := q\<rparr>) fresh_world))"
proof -
  obtain m' where sv: "save_config (\<lambda>_. NvDone) config_defaults Map.empty = (Inr (), m')"
    using save_defaults_ok [of Map.empty] by (cases "save_config (\<lambda>_. NvDone) config_defaults Map.empty") auto
  let ?w = "on_bus (\<lambda>s. s\<lparr>bus_mailbox := q\<rparr>) fresh_world"
  let ?w1 = "on_bus (\<lambda>s. s\<lparr>bus_config_dirty := False\<rparr>) ?w\<lparr>dw_nvs := Some m'\<rparr>"
  have c: "dev_persist_config_now quiet_env ?w = (True, ?w1)"
    using sv by (simp add: dev_persist_config_now_def commit_config_def apply_config_inner_def on_bus_def fresh_world_def
        bus_start_def quiet_env_def config_between_def)
  have h: "save_holding_area quiet_env ?w1 = (True, ?w1)"
    by (simp add: save_holding_area_def save_to_nvs_def on_bus_def fresh_world_def bus_start_def)
  have t: "persist_pending_device_text False quiet_env ?w1 = (True, ?w1)"
    by (simp add: persist_pending_device_text_def on_bus_def fresh_world_def bus_start_def)
  have b: "persist_web_info quiet_env ?w1 = (True, ?w1)"
    by (simp add: persist_web_info_def persist_pending_system_info_def on_bus_def fresh_world_def)
  have bits: "do_kept_bits (dw_bus ?w1) = 0"
    by (simp add: do_kept_bits_def on_bus_def fresh_world_def bus_start_def io_bundle_new_def)
  have d: "flush_outputs quiet_env ?w1 = (True, ?w1)"
    using bits by (simp add: flush_outputs_def) (simp add: fresh_world_def do_persist_new_def)
  show ?thesis by (simp add: flush_pending_before_reset_def c h t b d)
qed


text \<open>The run from \<open>w\<close> to \<open>v\<close> handled the flush with this ticket, and when it was handled everything was saved.\<close>

definition saved_in_run :: "boot_hw \<Rightarrow> u32 \<Rightarrow> device_world \<Rightarrow> device_world \<Rightarrow> bool" where
  "saved_in_run hw t w v \<longleftrightarrow> (\<exists>w0 q env w1. actor_run w w0 \<and> bus_mailbox (dw_bus w0) = CmdFlushPending t # q \<and>
     w1 = actor_handle env (CmdFlushPending t) (on_bus (\<lambda>s. s\<lparr>bus_mailbox := q\<rparr>) w0) \<and>
     restart_keeps hw w1 \<and> actor_run w1 v)"

definition ack_means_saved :: "boot_hw \<Rightarrow> u32 \<Rightarrow> device_world \<Rightarrow> device_world \<Rightarrow> bool" where
  "ack_means_saved hw t w v \<longleftrightarrow> actor_run w v \<and> (dw_wait_completed v = t \<and> dw_wait_ok v \<longrightarrow> saved_in_run hw t w v)"

lemma ack_keep:
  assumes "ack_means_saved hw t w v" and "actor_step v v'"
    and "dw_wait_completed v' = dw_wait_completed v" "dw_wait_ok v' = dw_wait_ok v"
  shows "ack_means_saved hw t w v'"
proof -
  have r: "actor_run x v'" if "actor_run x v" for x using that assms(2) by (rule rtranclp.rtrancl_into_rtrancl)
  show ?thesis using assms(1,3,4) r unfolding ack_means_saved_def saved_in_run_def by metis
qed

lemma ack_step:
  assumes "world_synced hw w" and "actor_step v v'" and "ack_means_saved hw t w v"
  shows "ack_means_saved hw t w v'"
proof -
  have run: "actor_run w v" using assms(3) by (simp add: ack_means_saved_def)
  have sy: "world_synced hw v" by (rule actor_run_synced [OF run assms(1)])
  note keep = ack_keep [OF assms(3,2)]
  from assms(2) show ?thesis
  proof cases
    case (handled c q env)
    let ?v = "on_bus (\<lambda>s. s\<lparr>bus_mailbox := q\<rparr>) v"
    have sv: "world_synced hw ?v" using sy by (rule mailbox_synced)
    show ?thesis
    proof (cases "\<exists>t. c = CmdFlushPending t")
      case True
      then obtain u where u: "c = CmdFlushPending u" by blast
      have "saved_in_run hw t w v'" if "u = t" "dw_wait_ok v'"
        unfolding saved_in_run_def
        by (rule exI [of _ v], rule exI [of _ q], rule exI [of _ env], rule exI [of _ v'])
          (use handle_flush(2) [OF sv handled(3), of u] handled(1,2) u that run in simp)
      moreover have "actor_run w v'" using run assms(2) by (rule rtranclp.rtrancl_into_rtrancl)
      moreover have "dw_wait_completed v' = u" using handle_flush(1) [OF sv handled(3), of u] handled(1) u by simp
      ultimately show ?thesis unfolding ack_means_saved_def by blast
    next
      case False
      then show ?thesis using keep handle_synced(4) [OF sv handled(3), of c] handled(1) by simp
    qed
  next
    case (idled env b nap b')
    then show ?thesis using keep idle_synced [OF sy idled(1,2)] by (simp add: saves_ok_def)
  next
    case (arrived c)
    then show ?thesis using keep by (simp add: mailbox_send_def)
  next
    case changed
    then show ?thesis using keep by (auto simp: marked_change_def)
  qed
qed

lemma ack_run:
  assumes "actor_run v v'" and "world_synced hw w" and "ack_means_saved hw t w v"
  shows "ack_means_saved hw t w v'"
  using assms(1,3) by (induction rule: rtranclp_induct) (auto intro: ack_step [OF assms(2)])

text \<open>What happens between two polls of the caller: another task changes the shared state, then the actor runs.\<close>

definition others_and_actor :: "(nat \<Rightarrow> device_world \<Rightarrow> device_world) \<Rightarrow> (nat \<Rightarrow> actor_state \<Rightarrow> actor_state) \<Rightarrow> nat \<Rightarrow> actor_state \<Rightarrow> actor_state" where
  "others_and_actor others step i aw = (let (a, w) = aw in step i (a, others i w))"

text \<open>C9: An acknowledged save is in flash.  When a caller that waited for its pending changes is told that they are
  saved, the actor has meanwhile taken its request from the mailbox and handled it, and at that moment a restart
  would have brought back the configuration, device text, holding area and (unless changed again) web texts of memory.
  This holds from any state in which what is not marked for saving agrees with flash, as after the start; for any other
  messages, refused or torn writes, and any changes other tasks make to the configuration, the device text and the holding
  area between two polls, provided they mark what they change; in the middle of a save the configuration, the device
  text or the web texts may change.  A change that is not marked is no pending change: nothing is promised for it.\<close>

theorem acknowledged_save_is_durable:
  assumes "world_synced hw w" and "dw_wait_completed w \<noteq> aw_next st + 1"
    and "\<And>i n k. env_wf (envs i n k)" and "\<And>i v. world_synced hw v \<Longrightarrow> marked_change v (others i v)"
    and "await_pending_persistence (others_and_actor others (actor_between rounds busy envs)) slack now st (a, w) =
      (Inr (), polls, st', a', w')"
  shows "saved_in_run hw (aw_next st + 1) w w' \<and> world_synced hw w'"
proof -
  let ?t = "aw_next st + 1"
  let ?step = "others_and_actor others (actor_between rounds busy envs)"
  obtain sent q where q: "mpsc_try_enqueue MAILBOX False (CmdFlushPending ?t) (bus_mailbox (dw_bus w)) = (sent, q)"
    by (rule prod.exhaust)
  let ?w = "on_bus (\<lambda>s. s\<lparr>bus_mailbox := q\<rparr>) w"
  obtain p where l: "await_loop ?step slack ?t (now + 8000) now 0 (a, ?w) = (Inr (), p, a', w')"
    using assms(5) q by (auto simp: await_pending_persistence_def Let_def split: if_splits prod.splits)
  have "mailbox_send (CmdFlushPending ?t) w = ?w" using q by (simp add: mailbox_send_def on_bus_def)
  then have "actor_step w ?w" using actor_step.arrived [of w "CmdFlushPending ?t"] by simp
  then have start: "ack_means_saved hw ?t w ?w" using assms(2) by (auto simp: ack_means_saved_def)
  have step: "ack_means_saved hw ?t w (snd (?step i av))" if ack: "ack_means_saved hw ?t w (snd av)" for i av
  proof -
    let ?v = "others i (snd av)"
    obtain cs a2 w2 where r: "actor_rounds (rounds i) (busy i) (envs i) (fst av, ?v) = (cs, a2, w2)" by (rule prod_cases3)
    have "world_synced hw (snd av)" using ack actor_run_synced [OF _ assms(1)] by (simp add: ack_means_saved_def)
    then have "actor_run (snd av) ?v" using assms(4) by (blast intro: actor_step.changed)
    then have "ack_means_saved hw ?t w ?v" by (rule ack_run [OF _ assms(1) ack])
    then show ?thesis using ack_run [OF actor_rounds_run [OF assms(3) r] assms(1)] r
      by (simp add: actor_between_def others_and_actor_def split_beta)
  qed
  have "ack_means_saved hw ?t w w' \<and> dw_wait_completed w' = ?t \<and> dw_wait_ok w'"
    using await_loop_invariant [of "\<lambda>av. ack_means_saved hw ?t w (snd av)", OF _ step l] start by simp
  then show ?thesis using actor_run_synced [OF _ assms(1)] by (auto simp: ack_means_saved_def)
qed

theorem acknowledged_save_is_durable_witness:
  "\<exists>polls st' a' w'. await_pending_persistence (others_and_actor (\<lambda>_ v. v) quiet_step) (\<lambda>_. 0) 0 \<lparr>aw_busy = False, aw_next = 0\<rparr>
      (device_actor_new 0, fresh_world) = (Inr (), polls, st', a', w') \<and>
    saved_in_run \<lparr>bh_eth_mac = [2, 0, 0, 0, 0, 1], bh_ble_mac = [2, 0, 0, 0, 0, 2], bh_fw_version = 270,
       bh_key_readable = \<lambda>_. True, bh_slot_readable = \<lambda>_. True\<rparr> 1 fresh_world w'"
proof -
  let ?hw = "\<lparr>bh_eth_mac = [2, 0, 0, 0, 0, 1], bh_ble_mac = [2, 0, 0, 0, 0, 2], bh_fw_version = 270,
    bh_key_readable = \<lambda>_. True, bh_slot_readable = \<lambda>_. True\<rparr> :: boot_hw"
  let ?w = "on_bus (\<lambda>s. s\<lparr>bus_mailbox := [CmdFlushPending 1]\<rparr>) fresh_world"
  let ?v = "on_bus (\<lambda>s. s\<lparr>bus_mailbox := []\<rparr>) ?w"
  let ?u = "actor_handle quiet_env (CmdFlushPending 1) ?v"
  have v: "?v = on_bus (\<lambda>s. s\<lparr>bus_mailbox := []\<rparr>) fresh_world" by (simp add: on_bus_def)
  have s: "world_synced ?hw ?v" unfolding v by (intro mailbox_synced fresh_world_synced)
  have "dw_wait_ok ?u" using fresh_world_flush [of "[]"] by (simp add: actor_handle_def v split_beta)
  moreover have "dw_wait_completed ?u = 1" by (rule handle_flush(1) [OF s env_wf_quiet])
  moreover have "bus_mailbox (dw_bus ?u) = []" unfolding handle_synced(2) [OF s env_wf_quiet] by simp
  ultimately have u: "dw_wait_ok ?u" "dw_wait_completed ?u = 1" "bus_mailbox (dw_bus ?u) = []" by blast+
  have na: "de_arrivals quiet_env = []" by (simp add: quiet_env_def)
  have su: "world_synced ?hw ?u" by (rule handle_synced(1) [OF s env_wf_quiet])
  have b: "actor_batch 0 8 (\<lambda>_. False) (\<lambda>_. quiet_env) ?w = ([CmdFlushPending 1], ?u)"
    using u(3) by (simp add: eval_nat_numeral mpsc_dequeue_def na)
  obtain nap a2 w2 where i: "actor_idle quiet_env (device_actor_new 0, ?u) = (nap, a2, w2)" by (rule prod_cases3)
  have w2: "dw_wait_ok w2" "dw_wait_completed w2 = 1"
    using idle_synced [OF su env_wf_quiet i] u by (simp_all add: saves_ok_def)
  have r: "quiet_step 0 (device_actor_new 0, ?w) = (a2, w2)"
    using b i by (simp add: actor_between_def actor_round_def na)
  have f: "env_actor_started (bus_env (dw_bus fresh_world))" "bus_mailbox (dw_bus fresh_world) = []"
    "dw_wait_completed fresh_world = 0"
    by (simp_all add: fresh_world_def bus_start_def env_idle_def)
  have "await_loop quiet_step (\<lambda>_. 0) 1 8000 0 0 (device_actor_new 0, ?w) = await_loop quiet_step (\<lambda>_. 0) 1 8000 10 1 (a2, w2)"
    by (subst await_loop.simps) (simp add: f r)
  also have "\<dots> = (Inr (), 1, a2, w2)" by (subst await_loop.simps) (simp add: w2)
  finally have l: "await_loop quiet_step (\<lambda>_. 0) 1 8000 0 0 (device_actor_new 0, ?w) = (Inr (), 1, a2, w2)" .
  have a: "await_pending_persistence quiet_step (\<lambda>_. 0) 0 \<lparr>aw_busy = False, aw_next = 0\<rparr>
      (device_actor_new 0, fresh_world) = (Inr (), 1, \<lparr>aw_busy = False, aw_next = 1\<rparr>, a2, w2)"
    by (simp add: await_pending_persistence_def mpsc_try_enqueue_def f l)
  have "others_and_actor (\<lambda>_ v. v) quiet_step = quiet_step" by (intro ext) (simp add: others_and_actor_def split_beta)
  then have a': "await_pending_persistence (others_and_actor (\<lambda>_ v. v) quiet_step) (\<lambda>_. 0) 0 \<lparr>aw_busy = False, aw_next = 0\<rparr>
      (device_actor_new 0, fresh_world) = (Inr (), 1, \<lparr>aw_busy = False, aw_next = 1\<rparr>, a2, w2)" using a by simp
  have "saved_in_run ?hw (aw_next \<lparr>aw_busy = False, aw_next = 0\<rparr> + 1) fresh_world w2 \<and> world_synced ?hw w2"
    by (rule acknowledged_save_is_durable [OF fresh_world_synced _ _ same_marked a']) (simp_all add: f env_wf_quiet)
  then show ?thesis using a' by auto
qed


text \<open>The mailbox on its own: a queue of 31 places that refuses what does not fit.  The result of a batch, a round and
  some rounds is what was taken out, what was offered meanwhile, and the queue.\<close>

definition queue_offer :: "device_cmd list \<Rightarrow> device_cmd list \<Rightarrow> device_cmd list" where
  "queue_offer cs q = q @ take (31 - length q) cs"

fun queue_batch :: "nat \<Rightarrow> nat \<Rightarrow> (nat \<Rightarrow> device_cmd list) \<Rightarrow> device_cmd list \<Rightarrow>
    device_cmd list \<times> device_cmd list \<times> device_cmd list" where
  "queue_batch i (Suc n) offers (c # q) =
     (let (cs, os, q) = queue_batch (Suc i) n offers (queue_offer (offers i) q) in (c # cs, offers i @ os, q))"
| "queue_batch i n offers q = ([], [], q)"

definition queue_round :: "(nat \<Rightarrow> device_cmd list) \<Rightarrow> device_cmd list \<Rightarrow> device_cmd list \<times> device_cmd list \<times> device_cmd list" where
  "queue_round offers q = (let (cs, os, q) = queue_batch 0 8 offers q in (cs, os @ offers 8, queue_offer (offers 8) q))"

fun queue_rounds :: "nat \<Rightarrow> (nat \<Rightarrow> nat \<Rightarrow> device_cmd list) \<Rightarrow> device_cmd list \<Rightarrow>
    device_cmd list \<times> device_cmd list \<times> device_cmd list" where
  "queue_rounds 0 offers q = ([], [], q)"
| "queue_rounds (Suc n) offers q =
     (let (cs, os, q) = queue_round (offers n) q; (ds, ps, q) = queue_rounds n offers q in (cs @ ds, os @ ps, q))"

text \<open>What the queue gives and keeps: the old messages, then those accepted of the ones offered; all of them when
  they fit.\<close>

definition queue_keeps :: "device_cmd list \<Rightarrow> device_cmd list \<times> device_cmd list \<times> device_cmd list \<Rightarrow> bool" where
  "queue_keeps q r \<longleftrightarrow> (\<exists>acc. fst r @ snd (snd r) = q @ acc \<and> subseq acc (fst (snd r)) \<and>
     (length q + length (fst (snd r)) \<le> 31 \<longrightarrow> acc = fst (snd r)))"

lemma queue_offer_acc: "queue_offer cs q = q @ take (31 - length q) cs" "subseq (take k cs) cs"
  by (simp_all add: queue_offer_def prefix_imp_subseq take_is_prefix)

lemma queue_batch_keeps: "queue_keeps q (queue_batch i n offers q)"
proof (induction i n offers q rule: queue_batch.induct)
  case (1 i n offers c q)
  obtain cs os q' where b: "queue_batch (Suc i) n offers (queue_offer (offers i) q) = (cs, os, q')" by (rule prod_cases3)
  then obtain acc where a: "cs @ q' = queue_offer (offers i) q @ acc" "subseq acc os"
    "length (queue_offer (offers i) q) + length os \<le> 31 \<longrightarrow> acc = os" using "1.IH" by (auto simp: queue_keeps_def)
  show ?case unfolding queue_keeps_def
    using a b by (intro exI [of _ "take (31 - length q) (offers i) @ acc"])
      (auto simp: queue_offer_def intro!: list_emb_append_mono queue_offer_acc(2))
qed (auto simp: queue_keeps_def)

lemma queue_round_keeps: "queue_keeps q (queue_round offers q)"
proof -
  obtain cs os q' where b: "queue_batch 0 8 offers q = (cs, os, q')" by (rule prod_cases3)
  obtain acc where a: "cs @ q' = q @ acc" "subseq acc os" "length q + length os \<le> 31 \<longrightarrow> acc = os"
    using queue_batch_keeps [of q 0 8 offers] b by (auto simp: queue_keeps_def)
  have "length q' \<le> length q + length acc" using arg_cong [OF a(1), of length] by simp
  then show ?thesis unfolding queue_keeps_def
    using a b by (intro exI [of _ "acc @ take (31 - length q') (offers 8)"])
      (auto simp: queue_round_def queue_offer_def intro!: list_emb_append_mono queue_offer_acc(2))
qed

lemma queue_rounds_keep: "queue_keeps q (queue_rounds n offers q)"
proof (induction n arbitrary: q)
  case (Suc n)
  obtain cs os q1 where r: "queue_round (offers n) q = (cs, os, q1)" by (rule prod_cases3)
  obtain ds ps q2 where s: "queue_rounds n offers q1 = (ds, ps, q2)" by (rule prod_cases3)
  obtain a1 where a1: "cs @ q1 = q @ a1" "subseq a1 os" "length q + length os \<le> 31 \<longrightarrow> a1 = os"
    using queue_round_keeps [of q "offers n"] r by (auto simp: queue_keeps_def)
  obtain a2 where a2: "ds @ q2 = q1 @ a2" "subseq a2 ps" "length q1 + length ps \<le> 31 \<longrightarrow> a2 = ps"
    using Suc.IH [of q1] s by (auto simp: queue_keeps_def)
  have "length q1 \<le> length q + length a1" using arg_cong [OF a1(1), of length] by simp
  moreover have "(cs @ ds) @ q2 = q @ a1 @ a2" using a1(1) a2(1) by (metis append.assoc)
  ultimately show ?case unfolding queue_keeps_def
    using r s a1(2,3) a2(2,3) by (intro exI [of _ "a1 @ a2"]) (auto intro!: list_emb_append_mono)
qed (simp add: queue_keeps_def)

text \<open>The actor's mailbox is this queue.\<close>

lemma send_mailbox: "bus_mailbox (dw_bus (fold mailbox_send cs w)) = queue_offer cs (bus_mailbox (dw_bus w))"
proof (induction cs arbitrary: w)
  case (Cons c cs)
  have "bus_mailbox (dw_bus (mailbox_send c w)) = queue_offer [c] (bus_mailbox (dw_bus w))"
    by (cases "31 - length (bus_mailbox (dw_bus w))") (simp_all add: mailbox_send_def mpsc_try_enqueue_def queue_offer_def)
  moreover have "queue_offer cs (queue_offer [c] q) = queue_offer (c # cs) q" for q
  proof (cases "length q < 31")
    case True
    then have "31 - length q = Suc (31 - length (q @ [c]))" by simp
    then show ?thesis using True by (simp add: queue_offer_def del: length_append)
  qed (simp add: queue_offer_def)
  ultimately show ?case using Cons.IH [of "mailbox_send c w"] by simp
qed (simp add: queue_offer_def)

lemma sends_synced: "world_synced hw w \<Longrightarrow> world_synced hw (fold mailbox_send cs w)"
  by (induction cs arbitrary: w) (simp_all add: mailbox_send_synced)

lemma actor_batch_queue:
  assumes "world_synced hw w" and "\<And>i. env_wf (envs i)" and "actor_batch i n (\<lambda>_. False) envs w = (cs, w')"
  shows "world_synced hw w' \<and>
    (\<exists>os. queue_batch i n (\<lambda>i. de_arrivals (envs i)) (bus_mailbox (dw_bus w)) = (cs, os, bus_mailbox (dw_bus w')))"
  using assms(1,3)
proof (induction n arbitrary: i w cs)
  case (Suc n)
  show ?case
  proof (cases "bus_mailbox (dw_bus w)")
    case Nil
    then show ?thesis using Suc.prems by (simp add: mpsc_dequeue_def)
  next
    case (Cons c q)
    let ?w0 = "on_bus (\<lambda>s. s\<lparr>bus_mailbox := q\<rparr>) w"
    let ?w1 = "actor_handle (envs i) c ?w0"
    let ?w2 = "fold mailbox_send (de_arrivals (envs i)) ?w1"
    have s0: "world_synced hw ?w0" by (rule mailbox_synced [OF Suc.prems(1)])
    have s2: "world_synced hw ?w2" by (rule sends_synced [OF handle_synced(1) [OF s0 assms(2)]])
    have "bus_mailbox (dw_bus ?w1) = q" using handle_synced(2) [OF s0 assms(2)] by simp
    then have q2: "bus_mailbox (dw_bus ?w2) = queue_offer (de_arrivals (envs i)) q" by (simp add: send_mailbox)
    obtain ds where b: "actor_batch (Suc i) n (\<lambda>_. False) envs ?w2 = (ds, w')" and cs: "cs = c # ds"
      using Suc.prems(2) Cons by (auto simp: mpsc_dequeue_def Let_def split: prod.splits)
    from Suc.IH [OF s2 b] q2 show ?thesis by (auto simp: cs Cons)
  qed
qed simp

lemma actor_round_queue:
  assumes "world_synced hw w" and "\<And>i. env_wf (envs i)" and "actor_round (\<lambda>_. False) envs (a, w) = (cs, a', w')"
  shows "world_synced hw w' \<and>
    (\<exists>os. queue_round (\<lambda>i. de_arrivals (envs i)) (bus_mailbox (dw_bus w)) = (cs, os, bus_mailbox (dw_bus w')))"
proof -
  obtain ds w1 where b: "actor_batch 0 8 (\<lambda>_. False) envs w = (ds, w1)" by (rule prod.exhaust)
  obtain nap b2 w2 where i: "actor_idle (envs 8) (a, w1) = (nap, b2, w2)" by (rule prod_cases3)
  have e: "w' = fold mailbox_send (de_arrivals (envs 8)) w2" "cs = ds" using assms(3) b i by (simp_all add: actor_round_def)
  note bo = actor_batch_queue [OF assms(1,2) b]
  have "saves_ok hw w1 w2" using idle_synced [OF _ assms(2) i] bo by blast
  then have "world_synced hw w2" "bus_mailbox (dw_bus w2) = bus_mailbox (dw_bus w1)" by (simp_all add: saves_ok_def)
  then show ?thesis using bo by (auto simp: e queue_round_def send_mailbox sends_synced)
qed

lemma actor_rounds_queue:
  assumes "world_synced hw w" and "\<And>n i. env_wf (envs n i)" and "actor_rounds k (\<lambda>_ _. False) envs (a, w) = (cs, a', w')"
  shows "\<exists>os. queue_rounds k (\<lambda>n i. de_arrivals (envs n i)) (bus_mailbox (dw_bus w)) = (cs, os, bus_mailbox (dw_bus w'))"
  using assms(1,3)
proof (induction k arbitrary: a w cs)
  case (Suc k)
  obtain c1 a1 w1 where r: "actor_round (\<lambda>_. False) (envs k) (a, w) = (c1, a1, w1)" by (rule prod_cases3)
  obtain c2 where r2: "actor_rounds k (\<lambda>_ _. False) envs (a1, w1) = (c2, a', w')" and cs: "cs = c1 @ c2"
    using Suc.prems(2) r by (auto simp: Let_def split: prod.splits)
  note o1 = actor_round_queue [OF Suc.prems(1) assms(2) r]
  then show ?case using Suc.IH [of w1, OF _ r2] by (auto simp: cs)
qed simp

text \<open>How many are taken: eight a round, or all.\<close>

lemma queue_batch_takes: "min n (length q) \<le> length (fst (queue_batch i n offers q))"
proof (induction i n offers q rule: queue_batch.induct)
  case (1 i n offers c q)
  have "length q \<le> length (queue_offer (offers i) q)" by (simp add: queue_offer_def)
  then show ?case using "1.IH" by (simp add: split_beta)
qed simp_all

lemma queue_rounds_take: "min (8 * k) (length q) \<le> length (fst (queue_rounds k offers q))"
proof (induction k arbitrary: q)
  case (Suc k)
  obtain cs os q1 where r: "queue_round (offers k) q = (cs, os, q1)" by (rule prod_cases3)
  have "min 8 (length q) \<le> length cs"
    using queue_batch_takes [of 8 q 0 "offers k"] r by (auto simp: queue_round_def split: prod.splits)
  moreover obtain acc where "cs @ q1 = q @ acc" using queue_round_keeps [of q "offers k"] r by (auto simp: queue_keeps_def)
  then have "length q \<le> length cs + length q1" by (metis length_append le_add1)
  ultimately show ?case using Suc.IH [of q1] r by (auto simp: split_beta)
qed simp

text \<open>C10: The mailbox is a queue that loses only what does not fit.  In any number of rounds in which it is not locked
  at the wrong moment, the messages handled and the contents left are those of a queue of 31 places: taken from the
  front, eight a round while there are any, even when new ones keep arriving.  What was handled and what is left
  are together the messages that were waiting followed by those accepted later, each once and in the order
  offered; all of the offered ones when they fit.\<close>

theorem mailbox_served_in_order:
  assumes "world_synced hw w" and "\<And>n i. env_wf (envs n i)"
    and "actor_rounds k (\<lambda>_ _. False) envs (a, w) = (cs, a', w')"
  shows "\<exists>offered acc. queue_rounds k (\<lambda>n i. de_arrivals (envs n i)) (bus_mailbox (dw_bus w)) = (cs, offered, bus_mailbox (dw_bus w')) \<and>
    cs @ bus_mailbox (dw_bus w') = bus_mailbox (dw_bus w) @ acc \<and> subseq acc offered \<and>
    (length (bus_mailbox (dw_bus w)) + length offered \<le> 31 \<longrightarrow> acc = offered) \<and>
    take (8 * k) (bus_mailbox (dw_bus w)) = take (min (8 * k) (length (bus_mailbox (dw_bus w)))) cs"
proof -
  let ?q = "bus_mailbox (dw_bus w)"
  obtain offered where r: "queue_rounds k (\<lambda>n i. de_arrivals (envs n i)) ?q = (cs, offered, bus_mailbox (dw_bus w'))"
    using actor_rounds_queue [OF assms] by blast
  then obtain acc where acc: "cs @ bus_mailbox (dw_bus w') = ?q @ acc" "subseq acc offered"
      "length ?q + length offered \<le> 31 \<longrightarrow> acc = offered"
    using queue_rounds_keep [of ?q k "\<lambda>n i. de_arrivals (envs n i)"] by (auto simp: queue_keeps_def)
  let ?m = "min (8 * k) (length ?q)"
  have n: "?m \<le> length cs" using queue_rounds_take [of k ?q "\<lambda>n i. de_arrivals (envs n i)"] r by simp
  have "take ?m ?q = take ?m cs" using arg_cong [OF acc(1), of "take ?m"] n by simp
  moreover have "take ?m ?q = take (8 * k) ?q" by (cases "8 * k \<le> length ?q") (simp_all add: min_def)
  ultimately show ?thesis using r acc by auto
qed

theorem mailbox_served_in_order_witness:
  "take 3 (fst (actor_rounds 1 (\<lambda>_ _. False) (\<lambda>_ _. quiet_env) (device_actor_new 0,
      on_bus (\<lambda>s. s\<lparr>bus_mailbox := [CmdPersistHolding, CmdPersistMeshKeys 1 2, CmdFlushPending 3]\<rparr>) fresh_world))) =
    [CmdPersistHolding, CmdPersistMeshKeys 1 2, CmdFlushPending 3]"
proof -
  let ?q = "[CmdPersistHolding, CmdPersistMeshKeys 1 2, CmdFlushPending 3]"
  let ?w = "on_bus (\<lambda>s. s\<lparr>bus_mailbox := ?q\<rparr>) fresh_world"
  have s: "world_synced undefined ?w" by (intro mailbox_synced fresh_world_synced)
  obtain cs a' w' where e: "actor_rounds 1 (\<lambda>_ _. False) (\<lambda>_ _. quiet_env) (device_actor_new 0, ?w) = (cs, a', w')"
    by (rule prod_cases3)
  have "bus_mailbox (dw_bus ?w) = ?q" by simp
  moreover have "take (8 * 1) (bus_mailbox (dw_bus ?w)) = take (min (8 * 1) (length (bus_mailbox (dw_bus ?w)))) cs"
    using mailbox_served_in_order [OF s env_wf_quiet e] by blast
  ultimately have "take 3 cs = ?q" by (simp add: numeral_3_eq_3)
  then show ?thesis unfolding e by simp
qed

theorem await_ends_witness:
  "\<exists>r polls st' aw'. await_pending_persistence quiet_step (\<lambda>_. 3) 0 \<lparr>aw_busy = False, aw_next = 0\<rparr>
      (device_actor_new 0, fresh_world) = (r, polls, st', aw') \<and> polls \<le> 800"
proof -
  obtain r polls st' aw' where e: "await_pending_persistence quiet_step (\<lambda>_. 3) 0 \<lparr>aw_busy = False, aw_next = 0\<rparr>
      (device_actor_new 0, fresh_world) = (r, polls, st', aw')" by (metis prod.exhaust)
  show ?thesis using await_ends [OF e] e by blast
qed

end
