(* ===== verification/Web_Http.thy ===== *)
theory Web_Http imports Rust_Str System_Config begin

text \<open>
  Reading a request of the web server (\<open>src/web/mod.rs\<close>): a buffered reader over a socket with a deadline,
  header lines of limited length, the request line and the headers, the body, form fields and URL decoding.
  The socket is a list of what the peer does and after how many milliseconds; when the list is used up the
  peer stays silent.
\<close>

section \<open>The socket and its reader\<close>

datatype io_error = IoWouldBlock | IoTimedOut | IoInterrupted | IoInvalidData | IoUnexpectedEof | IoOther

datatype sock_event = SkData "u8 list" | SkEof | SkFail io_error

record http_reader =
  hr_buf :: "u8 list"
  hr_sock :: "(nat \<times> sock_event) list"
  hr_now :: nat

text \<open>The buffer of the standard library's reader on this platform.\<close>

abbreviation (input) READER_CAP :: nat where "READER_CAP \<equiv> 512"
abbreviation (input) MAX_HEADER_LINE :: nat where "MAX_HEADER_LINE \<equiv> 1024"
abbreviation (input) MAX_BODY_SIZE :: nat where "MAX_BODY_SIZE \<equiv> 16384"
abbreviation (input) MAX_HEADER_BYTES :: nat where "MAX_HEADER_BYTES \<equiv> 8192"
abbreviation (input) MAX_HEADER_COUNT :: nat where "MAX_HEADER_COUNT \<equiv> 32"
abbreviation (input) MAX_HTTP_METHOD :: nat where "MAX_HTTP_METHOD \<equiv> 8"
abbreviation (input) MAX_HTTP_PATH :: nat where "MAX_HTTP_PATH \<equiv> 192"
abbreviation (input) MAX_COOKIE_VALUE :: nat where "MAX_COOKIE_VALUE \<equiv> 512"
abbreviation (input) MAX_FORM_VALUE :: nat where "MAX_FORM_VALUE \<equiv> 256"
abbreviation (input) REQUEST_PARSE_TIMEOUT :: nat where "REQUEST_PARSE_TIMEOUT \<equiv> 8000"

text \<open>One read of at most \<open>n\<close> bytes that waits at most \<open>tmo\<close>; no bytes mean that the peer has closed.\<close>

definition sock_read :: "nat \<Rightarrow> nat \<Rightarrow> http_reader \<Rightarrow> (io_error + u8 list) \<times> http_reader" where
  "sock_read tmo n r =
     (case hr_sock r of
        [] \<Rightarrow> (Inl IoWouldBlock, r\<lparr>hr_now := hr_now r + tmo\<rparr>)
      | (d, ev) # es \<Rightarrow>
          if tmo \<le> d then (Inl IoWouldBlock, r\<lparr>hr_now := hr_now r + tmo, hr_sock := (d - tmo, ev) # es\<rparr>)
          else let r = r\<lparr>hr_now := hr_now r + d\<rparr>
            in case ev of
                 SkData bs \<Rightarrow>
                   (Inr (take n bs), r\<lparr>hr_sock := (if length bs \<le> n then es else (0, SkData (drop n bs)) # es)\<rparr>)
               | SkEof \<Rightarrow> (Inr [], r\<lparr>hr_sock := (0, SkEof) # es\<rparr>)
               | SkFail e \<Rightarrow> (Inl e, r\<lparr>hr_sock := es\<rparr>))"

definition fill_buf :: "nat \<Rightarrow> http_reader \<Rightarrow> (io_error + u8 list) \<times> http_reader" where
  "fill_buf tmo r =
     (if hr_buf r \<noteq> [] then (Inr (hr_buf r), r)
      else case sock_read tmo READER_CAP r of
        (Inl e, r) \<Rightarrow> (Inl e, r)
      | (Inr bs, r) \<Rightarrow> (Inr bs, r\<lparr>hr_buf := bs\<rparr>))"

text \<open>A read into \<open>n\<close> places: it goes past the buffer when that is empty and not larger.\<close>

definition reader_read :: "nat \<Rightarrow> nat \<Rightarrow> http_reader \<Rightarrow> (io_error + u8 list) \<times> http_reader" where
  "reader_read tmo n r =
     (if hr_buf r = [] \<and> READER_CAP \<le> n then sock_read tmo n r
      else case fill_buf tmo r of
        (Inl e, r) \<Rightarrow> (Inl e, r)
      | (Inr bs, r) \<Rightarrow> (Inr (take n bs), r\<lparr>hr_buf := drop n bs\<rparr>))"

text \<open>The time-out of the next read, at most three seconds and never past the deadline.\<close>

definition set_read_timeout_to_deadline :: "nat \<Rightarrow> http_reader \<Rightarrow> nat option" where
  "set_read_timeout_to_deadline deadline r =
     (if hr_now r \<ge> deadline then None else Some (min (deadline - hr_now r) 3000))"

section \<open>Header lines\<close>

definition line_take :: "u8 list \<Rightarrow> nat" where
  "line_take available = (if 0x0A \<in> set available then length (takeWhile (\<lambda>b. b \<noteq> 0x0A) available) + 1 else length available)"

lemma line_take_Nil [simp]: "line_take [] = 0"
  by (simp add: line_take_def)

lemma line_take_pos: "available \<noteq> [] \<Longrightarrow> 0 < line_take available"
  by (simp add: line_take_def)

lemma line_take_le: "line_take available \<le> length available"
proof (cases "0x0A \<in> set available")
  case True
  then have "length (takeWhile (\<lambda>b. b \<noteq> 0x0A) available) < length available"
    by (metis (mono_tags, lifting) length_takeWhile_le nat_less_le takeWhile_eq_all_conv takeWhile_eq_take take_all_iff order_refl)
  then show ?thesis using True by (simp add: line_take_def)
qed (simp add: line_take_def)

function read_header_line :: "nat \<Rightarrow> u8 list \<Rightarrow> http_reader \<Rightarrow> (io_error + u8 list) \<times> http_reader" where
  "read_header_line deadline line r =
     (case set_read_timeout_to_deadline deadline r of
        None \<Rightarrow> (Inl IoTimedOut, r)
      | Some tmo \<Rightarrow>
          (case fill_buf tmo r of
             (Inl e, r) \<Rightarrow> (Inl e, r)
           | (Inr available, r) \<Rightarrow>
               if available = [] then (Inr line, r)
               else let n = line_take available in
                 if length line + n > MAX_HEADER_LINE then (Inl IoInvalidData, r)
                 else if \<not> utf8_valid (take n available) then (Inl IoInvalidData, r)
                 else let line = line @ take n available;
                          complete = (available ! (n - 1) = 0x0A);
                          r = r\<lparr>hr_buf := drop n (hr_buf r)\<rparr>
                   in if complete then (Inr line, r) else read_header_line deadline line r))"
  by pat_completeness auto
termination
  by (relation "measure (\<lambda>(deadline, line, r). 1024 - length line)")
    (auto simp: Let_def min_def dest!: line_take_pos split: if_splits intro!: diff_less_mono2)

declare read_header_line.simps [simp del]


section \<open>URL decoding\<close>

definition hex_value :: "u8 \<Rightarrow> nat option" where
  "hex_value b =
     (if 0x30 \<le> b \<and> b \<le> 0x39 then Some (unat b - 48)
      else if 0x61 \<le> b \<and> b \<le> 0x66 then Some (unat b - 87)
      else if 0x41 \<le> b \<and> b \<le> 0x46 then Some (unat b - 55) else None)"

text \<open>\<open>u8::from_str_radix(_, 16)\<close> of two characters: a leading plus sign is accepted.\<close>

definition hex_pair :: "u8 \<Rightarrow> u8 \<Rightarrow> u8 option" where
  "hex_pair a b =
     (if a = 0x2B then map_option of_nat (hex_value b)
      else case (hex_value a, hex_value b) of (Some x, Some y) \<Rightarrow> Some (of_nat (16 * x + y)) | _ \<Rightarrow> None)"

text \<open>A percent sign needs two bytes after it; nearer the end it stands for itself.  \<open>n\<close> is the capacity.\<close>

function url_decode_bytes :: "nat \<Rightarrow> u8 list \<Rightarrow> u8 list \<Rightarrow> u8 list option" where
  "url_decode_bytes n [] out = Some out"
| "url_decode_bytes n (c # cs) out =
     (if c = 0x25 \<and> 2 \<le> length cs
      then if \<not> utf8_valid (take 2 cs) then None
        else case hex_pair (cs ! 0) (cs ! 1) of
          None \<Rightarrow> None
        | Some b \<Rightarrow> if length out < n then url_decode_bytes n (drop 2 cs) (out @ [b]) else None
      else if length out < n then url_decode_bytes n cs (out @ [if c = 0x2B then 0x20 else c]) else None)"
  by pat_completeness auto
termination by (relation "measure (\<lambda>(n, cs, out). length cs)") auto

definition url_decode_into :: "nat \<Rightarrow> u8 list \<Rightarrow> u8 list option" where
  "url_decode_into n s =
     (case url_decode_bytes n s [] of None \<Rightarrow> None | Some d \<Rightarrow> if utf8_valid d then Some d else None)"

definition url_decode_bounded :: "u8 list \<Rightarrow> u8 list option" where
  "url_decode_bounded = url_decode_into MAX_HTTP_PATH"

section \<open>Requests\<close>

record http_request =
  rq_method :: "u8 list"
  rq_path :: "u8 list"
  rq_cookie :: "u8 list"
  rq_body :: "u8 list"

text \<open>One header: its effect on the cookie and the content length; repeated cookies are joined.\<close>

definition header_field :: "u8 list \<Rightarrow> u8 list \<times> nat \<Rightarrow> io_error + u8 list \<times> nat" where
  "header_field trimmed cl =
     (let (cookie, content_length) = cl in
      case split_once 0x3A trimmed of
        None \<Rightarrow> Inr (cookie, content_length)
      | Some (k, v) \<Rightarrow>
          let name = str_trim k; v = str_trim v
          in if eq_ignore_ascii_case name (ascii ''Content-Length'')
             then case parse_uint USIZE_MAX v of None \<Rightarrow> Inl IoInvalidData | Some n \<Rightarrow> Inr (cookie, n)
             else if eq_ignore_ascii_case name (ascii ''Cookie'')
             then if length cookie + length v > MAX_COOKIE_VALUE then Inl IoInvalidData else Inr (cookie @ v, content_length)
             else Inr (cookie, content_length))"

function read_headers :: "nat \<Rightarrow> nat \<Rightarrow> nat \<Rightarrow> u8 list \<times> nat \<Rightarrow> http_reader \<Rightarrow> (io_error + u8 list \<times> nat) \<times> http_reader" where
  "read_headers deadline header_count header_bytes cl r =
     (case read_header_line deadline [] r of
        (Inl e, r) \<Rightarrow> (Inl e, r)
      | (Inr line, r) \<Rightarrow>
          if line = [] then (Inl IoUnexpectedEof, r)
          else let header_bytes = header_bytes + length line in
            if header_bytes > MAX_HEADER_BYTES then (Inl IoInvalidData, r)
            else let trimmed = str_trim line in
              if trimmed = [] then (Inr cl, r)
              else if header_count \<ge> MAX_HEADER_COUNT then (Inl IoInvalidData, r)
              else case header_field trimmed cl of
                Inl e \<Rightarrow> (Inl e, r)
              | Inr cl \<Rightarrow> read_headers deadline (header_count + 1) header_bytes cl r)"
  by pat_completeness auto
termination by (relation "measure (\<lambda>(deadline, header_count, header_bytes, cl, r). 33 - header_count)") auto

declare read_headers.simps [simp del]

definition request_of_line :: "u8 list \<Rightarrow> io_error + u8 list \<times> u8 list" where
  "request_of_line request_line =
     (let parts = splitn 3 0x20 (str_trim request_line);
          method_raw = (case parts of [] \<Rightarrow> [] | m # _ \<Rightarrow> m);
          path_raw = (case parts of _ # p # _ \<Rightarrow> p | _ \<Rightarrow> ascii ''/'')
      in if length method_raw > MAX_HTTP_METHOD then Inl IoInvalidData
         else case url_decode_bounded path_raw of
           None \<Rightarrow> Inl IoInvalidData
         | Some path \<Rightarrow> Inr (method_raw, path))"

text \<open>The result: the request without its body, the content length and the deadline for the rest.\<close>

definition parse_request_headers :: "http_reader \<Rightarrow> (io_error + http_request \<times> nat \<times> nat) \<times> http_reader" where
  "parse_request_headers r =
     (let deadline = hr_now r + REQUEST_PARSE_TIMEOUT in
      case read_header_line deadline [] r of
        (Inl e, r) \<Rightarrow> (Inl e, r)
      | (Inr request_line, r) \<Rightarrow>
          if request_line = [] then (Inl IoUnexpectedEof, r)
          else case request_of_line request_line of
            Inl e \<Rightarrow> (Inl e, r)
          | Inr (method, path) \<Rightarrow>
              (case read_headers deadline 0 (length request_line) ([], 0) r of
                 (Inl e, r) \<Rightarrow> (Inl e, r)
               | (Inr (cookie, content_length), r) \<Rightarrow>
                   (Inr (\<lparr>rq_method = method, rq_path = path, rq_cookie = cookie, rq_body = []\<rparr>,
                      content_length, deadline), r)))"

text \<open>The body: interruptions and time-outs of a single read are ignored until the deadline.\<close>

lemma sock_read_progress:
  assumes "sock_read tmo n r = (q, r')" and "0 < tmo"
  shows "hr_now r \<le> hr_now r' \<and> (q = Inl IoWouldBlock \<longrightarrow> hr_now r < hr_now r' \<or> length (hr_sock r') < length (hr_sock r)) \<and>
    (\<forall>e. q = Inl e \<longrightarrow> hr_now r < hr_now r' \<or> length (hr_sock r') < length (hr_sock r))"
  using assms by (auto simp: sock_read_def Let_def split: list.splits sock_event.splits if_splits)

lemma sock_read_data_len:
  "sock_read tmo n r = (Inr bs, r') \<Longrightarrow> length bs \<le> n \<and> hr_now r \<le> hr_now r' \<and> hr_buf r' = hr_buf r"
  by (auto simp: sock_read_def Let_def split: list.splits sock_event.splits if_splits)

lemma sock_read_len: "sock_read tmo n r = (q, r') \<Longrightarrow> length (hr_sock r') \<le> length (hr_sock r) \<and> hr_buf r' = hr_buf r"
  by (auto simp: sock_read_def Let_def split: list.splits sock_event.splits if_splits)

lemma reader_read_cases:
  assumes "reader_read tmo n r = (q, r')" and "0 < tmo"
  shows "hr_now r \<le> hr_now r' \<and> length (hr_sock r') \<le> length (hr_sock r) \<and>
    (\<forall>e. q = Inl e \<longrightarrow> hr_now r < hr_now r' \<or> length (hr_sock r') < length (hr_sock r)) \<and>
    (\<forall>bs. q = Inr bs \<longrightarrow> length bs \<le> n)"
proof (cases "hr_buf r = [] \<and> READER_CAP \<le> n")
  case True
  then show ?thesis using assms sock_read_progress [of tmo n r q r'] sock_read_len [of tmo n r q r'] sock_read_data_len [of tmo n r _ r']
    by (auto simp: reader_read_def)
next
  case False
  obtain q1 r1 where f: "fill_buf tmo r = (q1, r1)" by (rule prod.exhaust)
  have "hr_now r \<le> hr_now r1 \<and> length (hr_sock r1) \<le> length (hr_sock r) \<and>
      (\<forall>e. q1 = Inl e \<longrightarrow> hr_now r < hr_now r1 \<or> length (hr_sock r1) < length (hr_sock r))"
  proof (cases "hr_buf r = []")
    case True
    obtain q2 r2 where s: "sock_read tmo READER_CAP r = (q2, r2)" by (rule prod.exhaust)
    show ?thesis using sock_read_progress [OF s assms(2)] sock_read_len [OF s] f s True
      by (cases q2) (auto simp: fill_buf_def)
  qed (use f in \<open>auto simp: fill_buf_def\<close>)
  then show ?thesis using assms(1) False f by (cases q1) (auto simp: reader_read_def)
qed

function read_bounded_body :: "nat \<Rightarrow> nat \<Rightarrow> u8 list \<Rightarrow> http_reader \<Rightarrow> (io_error + u8 list) \<times> http_reader" where
  "read_bounded_body deadline want body r =
     (if want \<le> length body then (Inr body, r)
      else case set_read_timeout_to_deadline deadline r of
        None \<Rightarrow> (Inl IoTimedOut, r)
      | Some tmo \<Rightarrow>
          (case reader_read tmo (want - length body) r of
             (Inr bs, r) \<Rightarrow> if bs = [] then (Inl IoUnexpectedEof, r) else read_bounded_body deadline want (body @ bs) r
           | (Inl e, r) \<Rightarrow>
               if e \<in> {IoInterrupted, IoWouldBlock, IoTimedOut} then read_bounded_body deadline want body r
               else (Inl e, r)))"
  by pat_completeness auto
termination
proof (relation "measures [\<lambda>(deadline, want, body, r). want - length body,
    \<lambda>(deadline, want, body, r). deadline - hr_now r, \<lambda>(deadline, want, body, r). length (hr_sock r)]", goal_cases)
  case 1
  show ?case by simp
next
  case (2 deadline want body r tmo q r' e)
  have tmo: "0 < tmo" "hr_now r < deadline" using 2(2) by (auto simp: set_read_timeout_to_deadline_def split: if_splits)
  have "reader_read tmo (want - length body) r = (Inl e, r')" using 2(3,4) by simp
  from reader_read_cases [OF this tmo(1)] show ?case using tmo(2) by auto
next
  case (3 deadline want body r tmo q r' bs)
  then show ?case by (cases bs) auto
qed

declare read_bounded_body.simps [simp del]

definition parse_request :: "http_reader \<Rightarrow> (io_error + http_request) \<times> http_reader" where
  "parse_request r =
     (case parse_request_headers r of
        (Inl e, r) \<Rightarrow> (Inl e, r)
      | (Inr (req, content_length, deadline), r) \<Rightarrow>
          if content_length > MAX_BODY_SIZE then (Inl IoInvalidData, r)
          else case read_bounded_body deadline content_length [] r of
            (Inl e, r) \<Rightarrow> (Inl e, r)
          | (Inr body, r) \<Rightarrow> (Inr (req\<lparr>rq_body := body\<rparr>), r))"

section \<open>Fields\<close>

definition rq_header :: "u8 list \<Rightarrow> http_request \<Rightarrow> u8 list option" where
  "rq_header name req =
     (if eq_ignore_ascii_case name (ascii ''Cookie'') \<and> rq_cookie req \<noteq> [] then Some (rq_cookie req) else None)"

fun form_lookup :: "u8 list \<Rightarrow> u8 list list \<Rightarrow> u8 list option" where
  "form_lookup name [] = None"
| "form_lookup name (pair # pairs) =
     (let (key, val) = (case split_once 0x3D pair of None \<Rightarrow> (pair, []) | Some kv \<Rightarrow> kv)
      in if key = name then Some val else form_lookup name pairs)"

definition form_field :: "string \<Rightarrow> http_request \<Rightarrow> u8 list option" where
  "form_field name req =
     (if \<not> utf8_valid (rq_body req) then None
      else Option.bind (form_lookup (ascii name) (split_on 0x26 (rq_body req))) (url_decode_into MAX_FORM_VALUE))"

end
