(* ===== verification/Web_Parse.thy ===== *)
theory Web_Parse imports Web_Http begin

text \<open>
  What reading a request guarantees: it ends at its deadline and within its size limits whatever the peer does,
  and what it reads does not depend on how the bytes were cut into segments.
\<close>

section \<open>Limits\<close>

lemma sock_read_now: "sock_read tmo n r = (q, r') \<Longrightarrow> hr_now r' \<le> hr_now r + tmo"
  by (auto simp: sock_read_def Let_def split: list.splits sock_event.splits if_splits)

lemma fill_buf_now: "fill_buf tmo r = (q, r') \<Longrightarrow> hr_now r' \<le> hr_now r + tmo"
  by (auto simp: fill_buf_def split: if_splits prod.splits sum.splits dest!: sock_read_now)

lemma reader_read_now: "reader_read tmo n r = (q, r') \<Longrightarrow> hr_now r' \<le> hr_now r + tmo"
  by (auto simp: reader_read_def split: if_splits prod.splits sum.splits dest!: sock_read_now fill_buf_now)

lemma timeout_to_deadline:
  "set_read_timeout_to_deadline deadline r = Some tmo \<Longrightarrow> hr_now r + tmo \<le> deadline \<and> 0 < tmo"
  by (auto simp: set_read_timeout_to_deadline_def split: if_splits)

lemma read_header_line_limits:
  assumes "read_header_line deadline line r = (q, r')" and "hr_now r \<le> deadline" and "length line \<le> 1024"
  shows "hr_now r' \<le> deadline \<and> (\<forall>l. q = Inr l \<longrightarrow> length l \<le> 1024)"
  using assms
proof (induction deadline line r rule: read_header_line.induct)
  case (1 deadline line r)
  show ?case
  proof (cases "set_read_timeout_to_deadline deadline r")
    case None
    then show ?thesis using "1.prems" by (subst (asm) read_header_line.simps) auto
  next
    case (Some tmo)
    obtain q1 r1 where f: "fill_buf tmo r = (q1, r1)" by (rule prod.exhaust)
    have now: "hr_now r1 \<le> deadline" using fill_buf_now [OF f] timeout_to_deadline [OF Some] by simp
    show ?thesis
    proof (cases q1)
      case (Inl e)
      then show ?thesis using "1.prems" Some f now by (subst (asm) read_header_line.simps) auto
    next
      case (Inr available)
      let ?n = "line_take available" and ?r = "r1\<lparr>hr_buf := drop (line_take available) (hr_buf r1)\<rparr>"
      let ?line = "line @ take (line_take available) available"
      have e: "read_header_line deadline line r =
          (if available = [] then (Inr line, r1)
           else if length line + ?n > 1024 then (Inl IoInvalidData, r1)
           else if \<not> utf8_valid (take ?n available) then (Inl IoInvalidData, r1)
           else if available ! (?n - 1) = 0x0A then (Inr ?line, ?r) else read_header_line deadline ?line ?r)"
        using Some f Inr by (subst read_header_line.simps) (simp add: Let_def)
      show ?thesis
      proof (cases "available = [] \<or> length line + ?n > 1024 \<or> \<not> utf8_valid (take ?n available) \<or>
          available ! (?n - 1) = 0x0A")
        case True
        then show ?thesis using "1.prems" now line_take_le [of available] unfolding e by (auto split: if_splits)
      next
        case False
        have "read_header_line deadline ?line ?r = (q, r')" using "1.prems"(1) False unfolding e by simp
        moreover have "length ?line \<le> 1024" using False line_take_le [of available] by simp
        ultimately show ?thesis
          using "1.IH" [OF Some f [symmetric] Inr, of ?n "?line" "available ! (?n - 1) = 0x0A" ?r] False now by simp
      qed
    qed
  qed
qed

lemma header_field_limits:
  "header_field t (cookie, n) = Inr (cookie', n') \<Longrightarrow> length cookie \<le> 512 \<Longrightarrow> length cookie' \<le> 512"
  by (auto simp: header_field_def Let_def split: option.splits if_splits prod.splits)

lemma read_headers_limits:
  assumes "read_headers deadline cnt bytes cl r = (q, r')" and "hr_now r \<le> deadline" and "length (fst cl) \<le> 512"
  shows "hr_now r' \<le> deadline \<and> (\<forall>c n. q = Inr (c, n) \<longrightarrow> length c \<le> 512)"
  using assms
proof (induction deadline cnt bytes cl r rule: read_headers.induct)
  case (1 deadline cnt bytes cl r)
  obtain q1 r1 where l: "read_header_line deadline [] r = (q1, r1)" by (rule prod.exhaust)
  have now: "hr_now r1 \<le> deadline" using read_header_line_limits [OF l "1.prems"(2)] by simp
  show ?case
  proof (cases q1)
    case (Inl e)
    then show ?thesis using "1.prems" l now by (subst (asm) read_headers.simps) auto
  next
    case (Inr line)
    have e: "read_headers deadline cnt bytes cl r =
        (if line = [] then (Inl IoUnexpectedEof, r1) else if bytes + length line > 8192 then (Inl IoInvalidData, r1)
         else if str_trim line = [] then (Inr cl, r1) else if cnt \<ge> 32 then (Inl IoInvalidData, r1)
         else case header_field (str_trim line) cl of
           Inl e \<Rightarrow> (Inl e, r1) | Inr cl \<Rightarrow> read_headers deadline (cnt + 1) (bytes + length line) cl r1)"
      using l Inr by (subst read_headers.simps) (simp add: Let_def)
    show ?thesis
    proof (cases "line = [] \<or> bytes + length line > 8192 \<or> str_trim line = [] \<or> cnt \<ge> 32")
      case True
      then show ?thesis using "1.prems" now unfolding e by (auto split: if_splits)
    next
      case False
      show ?thesis
      proof (cases "header_field (str_trim line) cl")
        case (Inl e2)
        then show ?thesis using "1.prems"(1) now False unfolding e by auto
      next
        case I2: (Inr cl2)
        have "length (fst cl2) \<le> 512" using I2 header_field_limits [of _ "fst cl" "snd cl" "fst cl2" "snd cl2"] "1.prems"(3) by simp
        then show ?thesis
          using "1.IH" [OF l [symmetric] Inr _ refl _ refl _ _ I2] False "1.prems"(1) now I2 unfolding e by simp
      qed
    qed
  qed
qed

lemma url_decode_bytes_limit:
  "url_decode_bytes n s out = Some d \<Longrightarrow> length out \<le> n \<Longrightarrow> length d \<le> n"
  by (induction n s out rule: url_decode_bytes.induct) (auto split: if_splits option.splits)

lemma request_of_line_limits:
  "request_of_line l = Inr (m, p) \<Longrightarrow> length m \<le> 8 \<and> length p \<le> 192 \<and> utf8_valid p"
  by (auto simp: request_of_line_def url_decode_bounded_def url_decode_into_def Let_def
      split: if_splits option.splits dest!: url_decode_bytes_limit)

text \<open>What the peer sends: the bytes read but not yet used, and those still to come.\<close>

definition event_bytes :: "nat \<times> sock_event \<Rightarrow> u8 list" where
  "event_bytes e = (case snd e of SkData bs \<Rightarrow> bs | _ \<Rightarrow> [])"

definition peer_bytes :: "http_reader \<Rightarrow> u8 list" where
  "peer_bytes r = hr_buf r @ concat (map event_bytes (hr_sock r))"

lemma sock_read_bytes:
  assumes "sock_read tmo n r = (q, r')"
  shows "peer_bytes r = hr_buf r @ (case q of Inl e \<Rightarrow> [] | Inr bs \<Rightarrow> bs) @ concat (map event_bytes (hr_sock r')) \<and>
    hr_buf r' = hr_buf r"
  using assms by (auto simp: sock_read_def peer_bytes_def event_bytes_def Let_def
      split: list.splits if_splits sock_event.splits prod.splits)

lemma reader_read_bytes:
  assumes "reader_read tmo n r = (q, r')"
  shows "peer_bytes r = (case q of Inl e \<Rightarrow> [] | Inr bs \<Rightarrow> bs) @ peer_bytes r'"
proof (cases "hr_buf r = [] \<and> 512 \<le> n")
  case True
  then show ?thesis using assms sock_read_bytes [of tmo n r q r'] by (simp add: reader_read_def peer_bytes_def)
next
  case False
  obtain q1 r1 where f: "fill_buf tmo r = (q1, r1)" by (rule prod.exhaust)
  have "peer_bytes r = peer_bytes r1 \<and> (\<forall>bs. q1 = Inr bs \<longrightarrow> hr_buf r1 = bs)"
  proof (cases "hr_buf r = []")
    case True
    obtain q2 r2 where sr: "sock_read tmo 512 r = (q2, r2)" by (rule prod.exhaust)
    show ?thesis using f True sr sock_read_bytes [OF sr] by (cases q2) (auto simp: fill_buf_def peer_bytes_def)
  next
    case False
    then show ?thesis using f by (auto simp: fill_buf_def)
  qed
  then show ?thesis using assms False f by (cases q1) (auto simp: reader_read_def peer_bytes_def)
qed

lemma read_body_limits:
  assumes "read_bounded_body deadline want body r = (q, r')" and "hr_now r \<le> deadline" and "length body \<le> want"
  shows "hr_now r' \<le> deadline \<and> (\<forall>b. q = Inr b \<longrightarrow> length b = want \<and> b @ peer_bytes r' = body @ peer_bytes r)"
  using assms
proof (induction deadline want body r rule: read_bounded_body.induct)
  case (1 deadline want body r)
  show ?case
  proof (cases "want \<le> length body \<or> set_read_timeout_to_deadline deadline r = None")
    case True
    then show ?thesis using "1.prems" by (subst (asm) read_bounded_body.simps) (auto split: if_splits)
  next
    case False
    then have more: "\<not> want \<le> length body" by simp
    from False obtain tmo where tmo: "set_read_timeout_to_deadline deadline r = Some tmo" by auto
    obtain q1 r1 where f: "reader_read tmo (want - length body) r = (q1, r1)" by (rule prod.exhaust)
    have now: "hr_now r1 \<le> deadline" using reader_read_now [OF f] timeout_to_deadline [OF tmo] by simp
    note sent = reader_read_bytes [OF f]
    show ?thesis
    proof (cases q1)
      case (Inl e)
      have e: "read_bounded_body deadline want body r =
          (if e \<in> {IoInterrupted, IoWouldBlock, IoTimedOut} then read_bounded_body deadline want body r1 else (Inl e, r1))"
        using False tmo f Inl by (subst read_bounded_body.simps) simp
      show ?thesis
      proof (cases "e \<in> {IoInterrupted, IoWouldBlock, IoTimedOut}")
        case True
        then show ?thesis using "1.prems" "1.IH"(1) [OF _ tmo f [symmetric] Inl True] False now sent Inl unfolding e by simp
      qed (use "1.prems"(1) now in \<open>auto simp: e\<close>)
    next
      case (Inr bs)
      have "length bs \<le> want - length body" using reader_read_cases [OF f] timeout_to_deadline [OF tmo] Inr by simp
      then have len: "length (body @ bs) \<le> want" using "1.prems"(3) by simp
      have e: "read_bounded_body deadline want body r =
          (if bs = [] then (Inl IoUnexpectedEof, r1) else read_bounded_body deadline want (body @ bs) r1)"
        using False tmo f Inr by (subst read_bounded_body.simps) simp
      show ?thesis
      proof (cases "bs = []")
        case False
        then have "read_bounded_body deadline want (body @ bs) r1 = (q, r')" using "1.prems"(1) e by simp
        from "1.IH"(2) [OF more tmo f [symmetric] Inr False this now len] show ?thesis using sent Inr by simp
      qed (use "1.prems"(1) now in \<open>auto simp: e\<close>)
    qed
  qed
qed

text \<open>C22: Reading a request cannot hold the web task, and what is read is what was announced.  However slowly or badly
  the peer sends, the header of a request ends at most eight seconds after it began; an accepted one has a method of
  at most 8 bytes, a path of at most 192 bytes that is valid UTF-8 and at most 512 bytes of cookies, and hands on a
  deadline eight seconds after the begin.  Reading a body against this deadline ends by then as well, and a body is
  accepted only when it is exactly as long as announced and made of the next bytes the peer sent.  These are the two
  reads of \<open>handle_connection\<close> before a page is served; a firmware upload reads its bytes without this deadline.\<close>

theorem request_read_is_bounded:
  assumes "parse_request_headers r = (q, r1)"
  shows "hr_now r1 \<le> hr_now r + 8000 \<and>
    (\<forall>req n deadline. q = Inr (req, n, deadline) \<longrightarrow> length (rq_method req) \<le> 8 \<and> length (rq_path req) \<le> 192 \<and>
       utf8_valid (rq_path req) \<and> length (rq_cookie req) \<le> 512 \<and> deadline = hr_now r + 8000 \<and>
       (\<forall>b r2. read_bounded_body deadline n [] r1 = (b, r2) \<longrightarrow> hr_now r2 \<le> hr_now r + 8000 \<and>
          (\<forall>body. b = Inr body \<longrightarrow> length body = n \<and> body = take n (peer_bytes r1))))"
proof -
  let ?d = "hr_now r + 8000"
  obtain q1 r0 where l: "read_header_line ?d [] r = (q1, r0)" by (rule prod.exhaust)
  have n1: "hr_now r0 \<le> ?d" using read_header_line_limits [OF l] by simp
  have hd: "(q, r1) = (case q1 of Inl e \<Rightarrow> (Inl e, r0) | Inr line \<Rightarrow>
      if line = [] then (Inl IoUnexpectedEof, r0)
      else case request_of_line line of Inl e \<Rightarrow> (Inl e, r0) | Inr (m, p) \<Rightarrow>
        (case read_headers ?d 0 (length line) ([], 0) r0 of (Inl e, r) \<Rightarrow> (Inl e, r)
         | (Inr (c, n), r) \<Rightarrow> (Inr (\<lparr>rq_method = m, rq_path = p, rq_cookie = c, rq_body = []\<rparr>, n, ?d), r)))"
    unfolding assms [symmetric] parse_request_headers_def Let_def l by simp
  consider e where "q = Inl e" "r1 = r0"
    | line m p where "q1 = Inr line" "request_of_line line = Inr (m, p)" "(q, r1) =
        (case read_headers ?d 0 (length line) ([], 0) r0 of (Inl e, r) \<Rightarrow> (Inl e, r)
         | (Inr (c, n), r) \<Rightarrow> (Inr (\<lparr>rq_method = m, rq_path = p, rq_cookie = c, rq_body = []\<rparr>, n, ?d), r))"
    using hd by (cases q1; cases "request_of_line (projr q1)"; cases "projr q1 = []") (auto split: prod.splits)
  then show ?thesis
  proof cases
    case 1
    then show ?thesis using n1 by simp
  next
    case (2 line m p)
    obtain q2 r2 where h: "read_headers ?d 0 (length line) ([], 0) r0 = (q2, r2)" by (rule prod.exhaust)
    have h2: "hr_now r2 \<le> ?d" "\<And>c n. q2 = Inr (c, n) \<Longrightarrow> length c \<le> 512" using read_headers_limits [OF h n1] by auto
    show ?thesis
    proof (cases q2)
      case (Inl e)
      then show ?thesis using 2(3) h h2 by simp
    next
      case (Inr cl)
      obtain c n where cl: "cl = (c, n)" by (rule prod.exhaust)
      have q: "q = Inr (\<lparr>rq_method = m, rq_path = p, rq_cookie = c, rq_body = []\<rparr>, n, ?d)" "r1 = r2"
        using 2(3) h Inr cl by simp_all
      have "hr_now r3 \<le> ?d \<and> (\<forall>body. b = Inr body \<longrightarrow> length body = n \<and> body = take n (peer_bytes r2))"
        if "read_bounded_body ?d n [] r2 = (b, r3)" for b r3
        using read_body_limits [OF that h2(1)] by (auto simp: append_eq_conv_conj)
      then show ?thesis using q h2 Inr cl request_of_line_limits [OF 2(2)] by (simp, blast)
    qed
  qed
qed

theorem request_read_is_bounded_witness:
  "hr_now (snd (parse_request_headers \<lparr>hr_buf = [], hr_sock = [(1000, SkData (ascii ''POST /login HTT'')),
      (2000, SkFail IoWouldBlock)], hr_now = 5\<rparr>)) \<le> 8005"
proof -
  let ?r = "\<lparr>hr_buf = [], hr_sock = [(1000, SkData (ascii ''POST /login HTT'')), (2000, SkFail IoWouldBlock)], hr_now = 5\<rparr>"
  obtain q r' where e: "parse_request_headers ?r = (q, r')" by (rule prod.exhaust)
  show ?thesis using request_read_is_bounded [OF e] e by simp
qed

section \<open>How the bytes arrive\<close>

text \<open>A peer that sends its bytes, in pieces of any size, without long pauses.\<close>

definition peer_steady :: "http_reader \<Rightarrow> bool" where
  "peer_steady r \<longleftrightarrow> list_all (\<lambda>e. event_bytes e \<noteq> []) (hr_sock r) \<and> sum_list (map fst (hr_sock r)) < 3000 \<and>
     list_all (\<lambda>b. b < 0x80) (peer_bytes r)"

text \<open>A reader within a request that began at \<open>s\<close>, with \<open>c\<close> still to come.\<close>

definition steady_at :: "nat \<Rightarrow> u8 list \<Rightarrow> http_reader \<Rightarrow> bool" where
  "steady_at s c r \<longleftrightarrow> list_all (\<lambda>e. event_bytes e \<noteq> []) (hr_sock r) \<and> s \<le> hr_now r \<and>
     hr_now r + sum_list (map fst (hr_sock r)) < s + 3000 \<and> peer_bytes r = c \<and> list_all (\<lambda>b. b < 0x80) c"

lemma steady_timeout: "steady_at s c r \<Longrightarrow> set_read_timeout_to_deadline (s + 8000) r = Some 3000"
  by (auto simp: steady_at_def set_read_timeout_to_deadline_def min_def)

lemma steady_over:
  assumes "steady_at s [] r"
  shows "hr_buf r = [] \<and> hr_sock r = []"
  using assms by (cases "hr_sock r") (auto simp: steady_at_def peer_bytes_def)

lemma steady_drop:
  assumes "steady_at s c r" and "k \<le> length (hr_buf r)"
  shows "steady_at s (drop k c) (r\<lparr>hr_buf := drop k (hr_buf r)\<rparr>)"
  using assms by (auto simp: steady_at_def peer_bytes_def list_all_iff dest: in_set_dropD)

lemma steady_sock_read:
  assumes "steady_at s c r" and "hr_buf r = []" and "c \<noteq> []" and "0 < n"
  shows "\<exists>bs r'. sock_read 3000 n r = (Inr bs, r') \<and> bs \<noteq> [] \<and> length bs \<le> n \<and> bs = take (length bs) c \<and>
    hr_buf r' = [] \<and> steady_at s c (r'\<lparr>hr_buf := bs\<rparr>)"
proof (cases "hr_sock r")
  case Nil
  then show ?thesis using assms by (simp add: steady_at_def peer_bytes_def)
next
  case (Cons e es)
  obtain d bs where e: "e = (d, SkData bs)" and bs: "bs \<noteq> []"
    using assms(1) Cons by (cases e; cases "snd e") (auto simp: steady_at_def event_bytes_def)
  have d: "\<not> 3000 \<le> d" using assms(1) Cons e by (auto simp: steady_at_def)
  show ?thesis
    using assms Cons e bs d
    by (auto simp: sock_read_def Let_def steady_at_def peer_bytes_def event_bytes_def min_def)
qed

lemma steady_fill:
  assumes "steady_at s c r" and "c \<noteq> []"
  shows "\<exists>bs r'. fill_buf 3000 r = (Inr bs, r') \<and> bs \<noteq> [] \<and> hr_buf r' = bs \<and> bs = take (length bs) c \<and> steady_at s c r'"
proof (cases "hr_buf r = []")
  case True
  from steady_sock_read [OF assms(1) True assms(2), of 512] obtain bs r'
    where "sock_read 3000 512 r = (Inr bs, r')" "bs \<noteq> []" "bs = take (length bs) c" "steady_at s c (r'\<lparr>hr_buf := bs\<rparr>)" by auto
  then show ?thesis using True by (simp add: fill_buf_def)
qed (use assms in \<open>auto simp: fill_buf_def steady_at_def peer_bytes_def\<close>)

lemma take_length_self: "xs = take k c \<Longrightarrow> xs = take (length xs) c"
  by (auto simp: min_def)

lemma steady_read:
  assumes "steady_at s c r" and "c \<noteq> []" and "0 < n"
  shows "\<exists>bs r'. reader_read 3000 n r = (Inr bs, r') \<and> bs \<noteq> [] \<and> length bs \<le> n \<and> bs = take (length bs) c \<and>
    steady_at s (drop (length bs) c) r'"
proof (cases "hr_buf r = [] \<and> 512 \<le> n")
  case True
  from steady_sock_read [OF assms(1) _ assms(2,3)] True obtain bs r'
    where s: "sock_read 3000 n r = (Inr bs, r')" "bs \<noteq> []" "length bs \<le> n" "bs = take (length bs) c" "hr_buf r' = []"
      "steady_at s c (r'\<lparr>hr_buf := bs\<rparr>)" by blast
  have "r'\<lparr>hr_buf := []\<rparr> = r'" using s(5) by simp
  then have "steady_at s (drop (length bs) c) r'" using steady_drop [OF s(6), of "length bs"] by simp
  then show ?thesis using s True by (auto simp: reader_read_def)
next
  case False
  from steady_fill [OF assms(1,2)] obtain bs r' where f: "fill_buf 3000 r = (Inr bs, r')" "bs \<noteq> []" "hr_buf r' = bs"
    "bs = take (length bs) c" "steady_at s c r'" by blast
  have "take n bs = take (min (length bs) n) c" using f(4) by (metis take_take min.commute)
  then have p: "take n bs = take (length (take n bs)) c" by (rule take_length_self)
  have st: "steady_at s (drop (length (take n bs)) c) (r'\<lparr>hr_buf := drop n bs\<rparr>)"
    using steady_drop [OF f(5), of "length (take n bs)"] f(3) by (cases "length bs \<le> n") (simp_all add: min_def)
  have e: "reader_read 3000 n r = (Inr (take n bs), r'\<lparr>hr_buf := drop n bs\<rparr>)" using False f by (auto simp: reader_read_def)
  have "take n bs \<noteq> []" and "length (take n bs) \<le> n" using f(2) assms(3) by auto
  with e p st show ?thesis by blast
qed

lemma steady_fill_over: "steady_at s [] r \<Longrightarrow> fst (fill_buf 3000 r) = Inl IoWouldBlock"
  using steady_over [of s r] by (simp add: fill_buf_def sock_read_def)

text \<open>The line that a peer's bytes begin with.\<close>

definition line_ref :: "u8 list \<Rightarrow> u8 list \<Rightarrow> io_error + u8 list" where
  "line_ref line c =
     (if length line + line_take c > 1024 then Inl IoInvalidData
      else if 0x0A \<in> set c then Inr (line @ take (line_take c) c) else Inl IoWouldBlock)"

lemma takeWhile_ne_append: "x \<notin> set ys \<Longrightarrow> takeWhile (\<lambda>b. b \<noteq> x) (ys @ zs) = ys @ takeWhile (\<lambda>b. b \<noteq> x) zs"
  by (rule takeWhile_append2) auto

lemma line_take_append: "line_take (bs @ c) = (if 0x0A \<in> set bs then line_take bs else length bs + line_take c)"
  by (auto simp: line_take_def takeWhile_ne_append takeWhile_append1)

lemma line_take_none: "0x0A \<notin> set bs \<Longrightarrow> line_take bs = length bs"
  by (simp add: line_take_def)

lemma line_take_newline:
  assumes "bs \<noteq> []"
  shows "bs ! (line_take bs - Suc 0) = 0x0A \<longleftrightarrow> 0x0A \<in> set bs"
proof (cases "0x0A \<in> set bs")
  case True
  then obtain ys zs where "bs = ys @ 0x0A # zs" "0x0A \<notin> set ys" by (meson split_list_first)
  then show ?thesis by (auto simp: line_take_def takeWhile_ne_append nth_append)
next
  case False
  then show ?thesis using assms by (metis diff_less length_greater_0_conv lessI nth_mem line_take_none)
qed

lemma steady_line:
  assumes "steady_at s c r" and "length line \<le> 1024"
  shows "\<exists>r'. read_header_line (s + 8000) line r = (line_ref line c, r') \<and>
    (\<forall>l. line_ref line c = Inr l \<longrightarrow> steady_at s (drop (line_take c) c) r')"
  using assms
proof (induction c arbitrary: line r rule: length_induct)
  case (1 c)
  note t = steady_timeout [OF "1.prems"(1)]
  show ?case
  proof (cases "c = []")
    case True
    then have "fst (fill_buf 3000 r) = Inl IoWouldBlock" using "1.prems"(1) steady_fill_over by blast
    then show ?thesis using True t "1.prems"(2)
      by (subst read_header_line.simps) (auto simp: line_ref_def split: prod.splits)
  next
    case False
    from steady_fill [OF "1.prems"(1) False] obtain bs r1 where f: "fill_buf 3000 r = (Inr bs, r1)" and bs: "bs \<noteq> []"
      and buf: "hr_buf r1 = bs" and pre: "bs = take (length bs) c" and st: "steady_at s c r1" by blast
    obtain rest where c: "c = bs @ rest" using pre append_take_drop_id [of "length bs" c] by metis
    let ?n = "line_take bs"
    let ?r = "r1\<lparr>hr_buf := drop ?n (hr_buf r1)\<rparr>"
    have "list_all (\<lambda>b. b < 0x80) (take ?n bs)"
      using st by (auto simp: steady_at_def c list_all_iff dest: in_set_takeD)
    then have e: "read_header_line (s + 8000) line r =
        (if length line + ?n > 1024 then (Inl IoInvalidData, r1)
         else if 0x0A \<in> set bs then (Inr (line @ take ?n bs), ?r)
         else read_header_line (s + 8000) (line @ take ?n bs) ?r)"
      using t f bs by (subst read_header_line.simps) (simp add: Let_def utf8_valid_ascii line_take_newline)
    have st2: "steady_at s (drop ?n c) ?r" using st buf line_take_le [of bs] by (intro steady_drop) auto
    show ?thesis
    proof (cases "length line + ?n > 1024 \<or> 0x0A \<in> set bs")
      case True
      then show ?thesis using st2 line_take_le [of bs]
        by (cases "0x0A \<in> set bs") (auto simp: e line_ref_def c line_take_append line_take_none)
    next
      case False
      then have n: "?n = length bs" by (simp add: line_take_def)
      have "length rest < length c" using bs c by simp
      moreover have "steady_at s rest ?r" using st2 n c by simp
      moreover have "length (line @ bs) \<le> 1024" using False n by simp
      ultimately obtain r' where "read_header_line (s + 8000) (line @ bs) ?r = (line_ref (line @ bs) rest, r')"
        "\<forall>l. line_ref (line @ bs) rest = Inr l \<longrightarrow> steady_at s (drop (line_take rest) rest) r'"
        using "1.IH" by blast
      moreover have "line_ref line c = line_ref (line @ bs) rest"
        using False by (simp add: line_ref_def c line_take_append)
      ultimately show ?thesis using False n by (simp add: e c line_take_append)
    qed
  qed
qed

text \<open>Two peers that send the same bytes: the headers and the body are the same.\<close>

lemma steady_headers:
  assumes "steady_at s1 c r1" and "steady_at s2 c r2"
  shows "\<exists>q r1' r2'. read_headers (s1 + 8000) cnt bytes cl r1 = (q, r1') \<and>
    read_headers (s2 + 8000) cnt bytes cl r2 = (q, r2') \<and>
    (\<forall>x. q = Inr x \<longrightarrow> (\<exists>c'. steady_at s1 c' r1' \<and> steady_at s2 c' r2'))"
  using assms
proof (induction "33 - cnt" arbitrary: cnt bytes cl c r1 r2 rule: less_induct)
  case less
  obtain r1' r2' where l: "read_header_line (s1 + 8000) [] r1 = (line_ref [] c, r1')"
      "read_header_line (s2 + 8000) [] r2 = (line_ref [] c, r2')"
    and st: "\<And>l. line_ref [] c = Inr l \<Longrightarrow> steady_at s1 (drop (line_take c) c) r1' \<and> steady_at s2 (drop (line_take c) c) r2'"
    using steady_line [OF less.prems(1), of "[]"] steady_line [OF less.prems(2), of "[]"] by auto
  show ?case
  proof (cases "line_ref [] c")
    case (Inl e)
    then show ?thesis using l by (subst (1 2) read_headers.simps) simp
  next
    case (Inr line)
    have e: "read_headers d cnt bytes cl r =
        (if line = [] then (Inl IoUnexpectedEof, r') else if bytes + length line > 8192 then (Inl IoInvalidData, r')
         else if str_trim line = [] then (Inr cl, r') else if cnt \<ge> 32 then (Inl IoInvalidData, r')
         else case header_field (str_trim line) cl of
           Inl e \<Rightarrow> (Inl e, r') | Inr cl \<Rightarrow> read_headers d (cnt + 1) (bytes + length line) cl r')"
      if "read_header_line d [] r = (Inr line, r')" for d r r'
      using that by (subst read_headers.simps) (simp add: Let_def)
    note e1 = e [OF l(1) [unfolded Inr]] and e2 = e [OF l(2) [unfolded Inr]]
    show ?thesis
    proof (cases "\<exists>cl'. header_field (str_trim line) cl = Inr cl' \<and> cnt < 32 \<and> line \<noteq> [] \<and> bytes + length line \<le> 8192 \<and>
        str_trim line \<noteq> []")
      case True
      then obtain cl' where cl': "header_field (str_trim line) cl = Inr cl'" "cnt < 32" "line \<noteq> []"
        "\<not> bytes + length line > 8192" "str_trim line \<noteq> []" by auto
      show ?thesis using less.hyps [of "cnt + 1" "drop (line_take c) c" r1' r2' "bytes + length line" cl'] st [OF Inr] cl'
        by (simp add: e1 e2)
    next
      case False
      then show ?thesis using st [OF Inr] unfolding e1 e2 by (auto split: sum.split)
    qed
  qed
qed

lemma steady_body_over:
  assumes "hr_buf r = []" and "hr_sock r = []" and "length body < want"
  shows "fst (read_bounded_body deadline want body r) = Inl IoTimedOut"
  using assms
proof (induction deadline want body r rule: read_bounded_body.induct)
  case (1 deadline want body r)
  show ?case
  proof (cases "set_read_timeout_to_deadline deadline r")
    case None
    then show ?thesis using "1.prems" by (subst read_bounded_body.simps) simp
  next
    case (Some tmo)
    have rd: "reader_read tmo (want - length body) r = (Inl IoWouldBlock, r\<lparr>hr_now := hr_now r + tmo\<rparr>)"
      using "1.prems" by (simp add: reader_read_def fill_buf_def sock_read_def)
    have "fst (read_bounded_body deadline want body (r\<lparr>hr_now := hr_now r + tmo\<rparr>)) = Inl IoTimedOut"
      using "1.prems" by (intro "1.IH"(1) [OF _ Some rd [symmetric] refl]) auto
    then show ?thesis using "1.prems" Some rd by (subst read_bounded_body.simps) simp
  qed
qed

lemma steady_body:
  assumes "steady_at s c r"
  shows "fst (read_bounded_body (s + 8000) want body r) =
    (if want \<le> length body + length c then Inr (body @ take (want - length body) c) else Inl IoTimedOut)"
  using assms
proof (induction c arbitrary: body r rule: length_induct)
  case (1 c)
  note t = steady_timeout [OF "1.prems"]
  show ?case
  proof (cases "want \<le> length body \<or> c = []")
    case True
    then show ?thesis using steady_body_over [of r body want "s + 8000"] steady_over [of s r] "1.prems"
      by (cases "want \<le> length body") (subst read_bounded_body.simps, simp, auto)
  next
    case False
    let ?k = "want - length body"
    obtain bs r1 where rd: "reader_read 3000 ?k r = (Inr bs, r1)" and bs: "bs \<noteq> []" "length bs \<le> ?k"
      and pre: "bs = take (length bs) c" and st: "steady_at s (drop (length bs) c) r1"
      using steady_read [OF "1.prems", of ?k] False by auto
    have e: "read_bounded_body (s + 8000) want body r = read_bounded_body (s + 8000) want (body @ bs) r1"
      using False t rd bs by (subst read_bounded_body.simps) simp
    obtain rest where c: "c = bs @ rest" using pre append_take_drop_id [of "length bs" c] by metis
    have "length rest < length c" and "steady_at s rest r1" using bs c st by simp_all
    then have "fst (read_bounded_body (s + 8000) want (body @ bs) r1) =
        (if want \<le> length (body @ bs) + length rest then Inr ((body @ bs) @ take (want - length (body @ bs)) rest)
         else Inl IoTimedOut)" by (rule "1.IH" [rule_format])
    then show ?thesis using bs by (simp add: e c)
  qed
qed

lemma parse_request_parts:
  assumes "read_header_line (hr_now r + 8000) [] r = (Inr line, q0)"
    and "read_headers (hr_now r + 8000) 0 (length line) ([], 0) q0 = (q, r')"
  shows "fst (parse_request r) =
    (if line = [] then Inl IoUnexpectedEof
     else case request_of_line line of Inl e \<Rightarrow> Inl e
     | Inr (m, p) \<Rightarrow> (case q of Inl e \<Rightarrow> Inl e
       | Inr (c, n) \<Rightarrow> if n > 16384 then Inl IoInvalidData
           else case fst (read_bounded_body (hr_now r + 8000) n [] r') of Inl e \<Rightarrow> Inl e
           | Inr b \<Rightarrow> Inr \<lparr>rq_method = m, rq_path = p, rq_cookie = c, rq_body = b\<rparr>))"
  using assms by (simp add: parse_request_def parse_request_headers_def split: sum.split prod.split)

text \<open>C23: What a request says does not depend on how it arrives.  Two peers that send the same ASCII bytes, cut
  into any pieces and with pauses of less than three seconds in all, are read as the same request, or fail in the
  same way.\<close>

theorem same_bytes_same_request:
  assumes "peer_steady r1" and "peer_steady r2" and "peer_bytes r1 = peer_bytes r2"
  shows "fst (parse_request r1) = fst (parse_request r2)"
proof -
  let ?s1 = "hr_now r1" and ?s2 = "hr_now r2" and ?c = "peer_bytes r1"
  have st: "steady_at ?s1 ?c r1" "steady_at ?s2 ?c r2" using assms by (simp_all add: peer_steady_def steady_at_def)
  obtain q1 q2 where l: "read_header_line (?s1 + 8000) [] r1 = (line_ref [] ?c, q1)"
      "read_header_line (?s2 + 8000) [] r2 = (line_ref [] ?c, q2)"
    and st': "\<And>l. line_ref [] ?c = Inr l \<Longrightarrow> steady_at ?s1 (drop (line_take ?c) ?c) q1 \<and> steady_at ?s2 (drop (line_take ?c) ?c) q2"
    using steady_line [OF st(1), of "[]"] steady_line [OF st(2), of "[]"] by auto
  show ?thesis
  proof (cases "line_ref [] ?c")
    case (Inl e)
    then show ?thesis using l by (simp add: parse_request_def parse_request_headers_def)
  next
    case (Inr line)
    obtain q r1' r2' where h: "read_headers (?s1 + 8000) 0 (length line) ([], 0) q1 = (q, r1')"
        "read_headers (?s2 + 8000) 0 (length line) ([], 0) q2 = (q, r2')"
      and hs: "\<And>x. q = Inr x \<Longrightarrow> \<exists>c'. steady_at ?s1 c' r1' \<and> steady_at ?s2 c' r2'"
      using steady_headers [of ?s1 _ q1 ?s2 q2 0 "length line" "([], 0)"] st' [OF Inr] by blast
    have "fst (read_bounded_body (?s1 + 8000) n [] r1') = fst (read_bounded_body (?s2 + 8000) n [] r2')"
      if "q = Inr (c, n)" for c n
      using hs [OF that] steady_body by (metis (no_types, lifting))
    then show ?thesis
      unfolding parse_request_parts [OF l(1) [unfolded Inr] h(1)] parse_request_parts [OF l(2) [unfolded Inr] h(2)]
      by (cases q) (auto split: sum.split prod.split)
  qed
qed

theorem same_bytes_same_request_witness:
  "fst (parse_request \<lparr>hr_buf = [], hr_sock = [(100, SkData (ascii ''GET /io HT'')), (900, SkData (ascii ''TP/1.1'')),
       (500, SkData [0x0D]), (1400, SkData [0x0A, 0x0D, 0x0A])], hr_now = 7\<rparr>) =
   fst (parse_request \<lparr>hr_buf = [], hr_sock = [(0, SkData (ascii ''GET /io HTTP/1.1'' @ [0x0D, 0x0A, 0x0D, 0x0A]))], hr_now = 90\<rparr>)"
  by (rule same_bytes_same_request) (simp_all add: peer_steady_def peer_bytes_def event_bytes_def ascii_def)

end
