(* ===== verification/Web_Session.thy ===== *)
theory Web_Session imports Web_Http Web_Info Nvs begin

text \<open>
  Logging in to the web pages (\<open>src/web/mod.rs\<close>): the one session of the server, its cookie, the password
  kept in flash and the check of a request's cookie.  Time is in milliseconds, the random token of a login is a
  parameter.
\<close>

section \<open>The session\<close>

abbreviation (input) SESSION_TTL_SECS :: nat where "SESSION_TTL_SECS \<equiv> 86400"

record session =
  se_token :: "u8 list"
  se_active :: bool
  se_created :: "nat option"

definition session_empty :: session where
  "session_empty = \<lparr>se_token = replicate 16 0, se_active = False, se_created = None\<rparr>"

definition hex_low :: "u8 \<Rightarrow> u8" where
  "hex_low n = (if n < 10 then 0x30 + n else 0x57 + n)"

definition hex_encode_16 :: "u8 list \<Rightarrow> u8 list" where
  "hex_encode_16 src = concat (map (\<lambda>b. [hex_low (drop_bit 4 b), hex_low (b AND 0x0F)]) src)"

text \<open>\<open>rnd\<close> are the four words of the random generator.\<close>

definition generate_session_token :: "u32 list \<Rightarrow> u8 list" where
  "generate_session_token rnd = concat (map le32_bytes rnd)"

definition create_session_cookie :: "nat \<Rightarrow> u32 list \<Rightarrow> session \<Rightarrow> u8 list \<times> session" where
  "create_session_cookie now rnd s =
     (let token = generate_session_token rnd
      in (ascii ''ESPSESSIONID='' @ hex_encode_16 token @ ascii ''; HttpOnly; SameSite=Strict; Path=/; Max-Age='' @
            fmt_dec SESSION_TTL_SECS,
          s\<lparr>se_token := token, se_active := True, se_created := Some now\<rparr>))"

definition destroy_session :: "session \<Rightarrow> session" where
  "destroy_session s = s\<lparr>se_token := replicate 16 0, se_active := False, se_created := None\<rparr>"

definition session_expired :: "nat \<Rightarrow> session \<Rightarrow> bool" where
  "session_expired now s = (case se_created s of None \<Rightarrow> True | Some c \<Rightarrow> (now - c) div 1000 \<ge> SESSION_TTL_SECS)"

text \<open>All 32 bytes are compared whatever the first difference is.\<close>

definition token_diff :: "u8 list \<Rightarrow> u8 list \<Rightarrow> u8" where
  "token_diff expected token_hex = fold (\<lambda>i diff. diff OR (expected ! i XOR token_hex ! i)) [0..<32] 0"

definition validate_session_cookie :: "nat \<Rightarrow> u8 list \<Rightarrow> session \<Rightarrow> bool \<times> session" where
  "validate_session_cookie now token_hex s =
     (if length token_hex \<noteq> 32 then (False, s)
      else if \<not> se_active s then (False, s)
      else if session_expired now s then (False, destroy_session s)
      else (token_diff (hex_encode_16 (se_token s)) token_hex = 0, s))"

fun auth_pairs :: "nat \<Rightarrow> u8 list list \<Rightarrow> session \<Rightarrow> bool \<times> session" where
  "auth_pairs now [] s = (False, s)"
| "auth_pairs now (pair # pairs) s =
     (case split_once 0x3D (str_trim pair) of
        Some (k, v) \<Rightarrow>
          if str_trim k = ascii ''ESPSESSIONID'' then validate_session_cookie now (str_trim v) s
          else auth_pairs now pairs s
      | None \<Rightarrow> auth_pairs now pairs s)"

definition is_authenticated :: "nat \<Rightarrow> http_request \<Rightarrow> session \<Rightarrow> bool \<times> session" where
  "is_authenticated now req s =
     (case rq_header (ascii ''Cookie'') req of
        None \<Rightarrow> (False, s)
      | Some cookie \<Rightarrow> auth_pairs now (split_on 0x3B cookie) s)"

section \<open>The password\<close>

definition NVS_KEY_WEB_PWD :: string where "NVS_KEY_WEB_PWD = ''web_pwd''"
definition NVS_KEY_WEB_PWD_FLAG :: string where "NVS_KEY_WEB_PWD_FLAG = ''web_pwd_f''"

definition load_web_password :: "nvs option \<Rightarrow> u8 list" where
  "load_web_password nv =
     (case nv of
        None \<Rightarrow> ascii ''admin123456''
      | Some m \<Rightarrow>
          if nvs_u8 m NVS_KEY_WEB_PWD_FLAG = Some 0x66
          then (case nvs_str m NVS_KEY_WEB_PWD 64 of Inr (Some p) \<Rightarrow> p | _ \<Rightarrow> ascii ''admin123456'')
          else ascii ''admin123456'')"

definition valid_web_password :: "u8 list \<Rightarrow> bool" where
  "valid_web_password v \<longleftrightarrow> v \<noteq> [] \<and> length v \<le> 63 \<and> 0 \<notin> set v"

text \<open>The password first, then the flag.\<close>

definition store_web_password :: "(string \<Rightarrow> nvs_outcome) \<Rightarrow> u8 list \<Rightarrow> nvs option \<Rightarrow> bool \<times> nvs option" where
  "store_web_password oc pwd nv =
     (case nv of
        None \<Rightarrow> (False, None)
      | Some m \<Rightarrow>
          (case nvs_put (oc NVS_KEY_WEB_PWD) NVS_KEY_WEB_PWD (NvStr pwd) m of
             (Inl _, m) \<Rightarrow> (False, Some m)
           | (Inr _, m) \<Rightarrow>
               (case nvs_put (oc NVS_KEY_WEB_PWD_FLAG) NVS_KEY_WEB_PWD_FLAG (NvU8 0x66) m of
                  (Inl _, m) \<Rightarrow> (False, Some m)
                | (Inr _, m) \<Rightarrow> (True, Some m))))"

section \<open>The comparison is exact\<close>

lemma or_fold_zero: "fold (\<lambda>i d. d OR f i) xs (d :: u8) = 0 \<longleftrightarrow> d = 0 \<and> (\<forall>i\<in>set xs. f i = 0)"
  by (induction xs arbitrary: d) (auto simp: or_eq_0_iff)

lemma length_hex_encode [simp]: "length (hex_encode_16 src) = 2 * length src"
  by (induction src) (simp_all add: hex_encode_16_def)

lemma xor_zero_iff: "x XOR y = 0 \<longleftrightarrow> x = (y :: u8)"
proof
  assume "x XOR y = 0"
  moreover have "(x XOR y) XOR y = x" by (simp add: xor.assoc)
  ultimately show "x = y" by simp
qed simp

lemma token_diff_eq:
  assumes "length expected = 32" and "length token_hex = 32"
  shows "token_diff expected token_hex = 0 \<longleftrightarrow> expected = token_hex"
proof
  assume "token_diff expected token_hex = 0"
  then have "\<forall>i<32. expected ! i XOR token_hex ! i = 0" by (simp add: token_diff_def or_fold_zero)
  then have "\<forall>i<32. expected ! i = token_hex ! i" by (simp add: xor_zero_iff)
  then show "expected = token_hex" using assms by (simp add: list_eq_iff_nth_eq)
next
  assume "expected = token_hex"
  then have "\<forall>i\<in>set [0..<32]. expected ! i XOR token_hex ! i = 0" by simp
  then show "token_diff expected token_hex = 0" unfolding token_diff_def or_fold_zero by blast
qed

lemma validate_session_cookie_True:
  assumes "validate_session_cookie now t s = (True, s')" and "length (se_token s) = 16"
  shows "se_active s \<and> s' = s \<and> t = hex_encode_16 (se_token s) \<and>
    (\<exists>c. se_created s = Some c \<and> now - c < 86400000)"
  using assms token_diff_eq [of "hex_encode_16 (se_token s)" t]
  by (auto simp: validate_session_cookie_def session_expired_def split: if_splits option.splits)

lemma validate_session_cookie_False:
  "validate_session_cookie now t s = (False, s') \<Longrightarrow> s' = s \<or> s' = destroy_session s"
  by (auto simp: validate_session_cookie_def split: if_splits)

lemma auth_pairs_cases:
  assumes "auth_pairs now pairs s = (ok, s')"
  shows "(\<exists>t. validate_session_cookie now t s = (ok, s')) \<or> \<not> ok \<and> s' = s"
  using assms
proof (induction pairs)
  case (Cons pair pairs)
  show ?case
  proof (cases "split_once 0x3D (str_trim pair)")
    case None
    then show ?thesis using Cons by simp
  next
    case (Some kv)
    then show ?thesis using Cons by (cases kv) (auto split: if_splits)
  qed
qed simp

end
