(* ===== verification/Web_Text.thy ===== *)
theory Web_Text imports Web_Session begin

text \<open>
  The text of the web server's answers (\<open>src/web/mod.rs\<close>): escaping for JSON and HTML, numbers in hexadecimal
  and dotted form, and the responses with their headers.
\<close>

section \<open>Characters and bytes\<close>

lemma utf8_cont_high:
  assumes "0x80 \<le> lo"
  shows "\<forall>b\<in>set (take (utf8_cont n lo hi bs) bs). 0x80 \<le> b"
  using assms by (induction n lo hi bs rule: utf8_cont.induct) auto

lemma utf8_step_chars:
  "(b < 0x80 \<and> utf8_step b bs = (True, 1)) \<or> (0x80 \<le> b \<and> (\<forall>c\<in>set (take (snd (utf8_step b bs)) (b # bs)). 0x80 \<le> c))"
proof (cases "b < 0x80")
  case True
  then show ?thesis by (simp add: utf8_step_def utf8_lead_def)
next
  case False
  have "0x80 \<le> lo" if "utf8_lead b = Some (n, lo, hi)" for n lo hi
    using that by (auto simp: utf8_lead_def split: if_splits)
  then show ?thesis using False utf8_cont_high
    by (auto simp: utf8_step_def Let_def split: option.split)
qed

lemma utf8_chars_cases:
  assumes "c \<in> set (utf8_chars s)"
  shows "(\<exists>b. b < 0x80 \<and> c = [b]) \<or> (\<forall>b\<in>set c. 0x80 \<le> b)"
  using assms
proof (induction s rule: utf8_chars.induct)
  case (2 b bs)
  then show ?case using utf8_step_chars [of b bs] by (auto simp: utf8_chars.simps Let_def)
qed simp

lemma concat_map_parts: "concat (map (\<lambda>c. concat (map g c)) cs) = concat (map g (concat cs))"
  by (induction cs) simp_all

text \<open>A function on characters that changes only ASCII ones works byte by byte.\<close>

lemma ascii_only_bytewise:
  assumes "\<And>c. \<forall>b\<in>set c. 0x80 \<le> b \<Longrightarrow> f c = c"
  shows "concat (map f (utf8_chars s)) = concat (map (\<lambda>b. f [b]) s)"
proof -
  have high: "concat (map (\<lambda>b. f [b]) c) = c" if "\<forall>b\<in>set c. 0x80 \<le> b" for c
    using that by (induction c) (simp_all add: assms)
  have "map f (utf8_chars s) = map (\<lambda>c. concat (map (\<lambda>b. f [b]) c)) (utf8_chars s)"
    using utf8_chars_cases assms high by (intro map_cong refl) fastforce
  then have "concat (map f (utf8_chars s)) = concat (map (\<lambda>b. f [b]) (concat (utf8_chars s)))"
    by (simp only: concat_map_parts)
  then show ?thesis by (simp add: concat_utf8_chars)
qed

section \<open>Escaping\<close>

definition json_escape_char :: "u8 list \<Rightarrow> u8 list" where
  "json_escape_char c =
     (if c = [0x22] then [0x5C, 0x22]
      else if c = [0x5C] then [0x5C, 0x5C]
      else if c = [0x0A] then [0x5C, 0x6E]
      else if c = [0x0D] then [0x5C, 0x72]
      else if c = [0x09] then [0x5C, 0x74]
      else case c of
        [b] \<Rightarrow> if b < 0x20 then [0x5C, 0x75, 0x30, 0x30, hex_low (drop_bit 4 b), hex_low (b AND 0x0F)] else c
      | _ \<Rightarrow> c)"

definition escape_json :: "u8 list \<Rightarrow> u8 list" where
  "escape_json s = concat (map json_escape_char (utf8_chars s))"

definition html_escape_char :: "u8 list \<Rightarrow> u8 list" where
  "html_escape_char c =
     (if c = [0x26] then ascii ''&amp;''
      else if c = [0x3C] then ascii ''&lt;''
      else if c = [0x3E] then ascii ''&gt;''
      else if c = [0x22] then ascii ''&quot;''
      else if c = [0x27] then ascii ''&#39;''
      else c)"

definition escape_html_text :: "u8 list \<Rightarrow> u8 list" where
  "escape_html_text s = concat (map html_escape_char (utf8_chars s))"

text \<open>Replacing every occurrence of a text, from the left.\<close>

function str_replace :: "u8 list \<Rightarrow> u8 list \<Rightarrow> u8 list \<Rightarrow> u8 list" where
  "str_replace pat new s =
     (if pat = [] \<or> s = [] then s
      else if take (length pat) s = pat then new @ str_replace pat new (drop (length pat) s)
      else hd s # str_replace pat new (tl s))"
  by pat_completeness auto
termination by (relation "measure (\<lambda>(pat, new, s). length s)") auto

declare str_replace.simps [simp del]

definition login_page_html :: "u8 list \<Rightarrow> web_cell \<Rightarrow> u8 list" where
  "login_page_html login_html cell =
     str_replace (ascii ''{{MANUFACTURER}}'') (escape_html_text (wi_manufacturer (wc_info cell))) login_html"

section \<open>Reading escaped text back\<close>

text \<open>A JSON string up to its closing quote, as the reader of the page parses it (escapes of ASCII characters).\<close>

fun json_str :: "u8 list \<Rightarrow> (u8 list \<times> u8 list) option" where
  "json_str [] = None"
| "json_str (b # bs) =
     (if b = 0x22 then Some ([], bs)
      else if b = 0x5C then
        (case bs of
           [] \<Rightarrow> None
         | e # r \<Rightarrow>
             if e = 0x22 \<or> e = 0x5C \<or> e = 0x2F then map_option (apfst (Cons e)) (json_str r)
             else if e = 0x6E then map_option (apfst (Cons 0x0A)) (json_str r)
             else if e = 0x72 then map_option (apfst (Cons 0x0D)) (json_str r)
             else if e = 0x74 then map_option (apfst (Cons 0x09)) (json_str r)
             else if e = 0x75 then
               (case r of
                  h1 # h2 # h3 # h4 # r \<Rightarrow>
                    if h1 = 0x30 \<and> h2 = 0x30
                    then (case (hex_value h3, hex_value h4) of
                            (Some x, Some y) \<Rightarrow> if x < 8 then map_option (apfst (Cons (of_nat (16 * x + y)))) (json_str r) else None
                          | _ \<Rightarrow> None)
                    else None
                | _ \<Rightarrow> None)
             else None)
      else if b < 0x20 then None
      else map_option (apfst (Cons b)) (json_str bs))"

text \<open>The text of an HTML element up to the next tag.\<close>

definition html_entities :: "(u8 list \<times> u8) list" where
  "html_entities = [(ascii ''amp;'', 0x26), (ascii ''lt;'', 0x3C), (ascii ''gt;'', 0x3E), (ascii ''quot;'', 0x22), (ascii ''#39;'', 0x27)]"

definition html_entity :: "u8 list \<Rightarrow> (u8 \<times> nat) option" where
  "html_entity s = map_option (\<lambda>(e, b). (b, length e)) (List.find (\<lambda>(e, b). take (length e) s = e) html_entities)"

function html_text :: "u8 list \<Rightarrow> (u8 list \<times> u8 list) option" where
  "html_text [] = Some ([], [])"
| "html_text (b # bs) =
     (if b = 0x3C then Some ([], b # bs)
      else if b = 0x26 then
        (case html_entity bs of None \<Rightarrow> None | Some (c, n) \<Rightarrow> map_option (apfst (Cons c)) (html_text (drop n bs)))
      else map_option (apfst (Cons b)) (html_text bs))"
  by pat_completeness auto
termination by (relation "measure length") auto

text \<open>An encoding of bytes and a reader that takes one encoded byte off its input.\<close>

locale escape_code =
  fixes enc :: "u8 \<Rightarrow> u8 list" and rd :: "u8 list \<Rightarrow> (u8 list \<times> u8 list) option"
  assumes rd_enc: "rd (enc b @ t) = map_option (apfst (Cons b)) (rd t)"
begin

lemma rd_encs: "rd (concat (map enc s) @ t) = map_option (apfst ((@) s)) (rd t)"
proof (induction s)
  case Nil
  show ?case by (cases "rd t") auto
next
  case (Cons b s)
  have "rd (concat (map enc (b # s)) @ t) = map_option (apfst (Cons b)) (rd (concat (map enc s) @ t))" by (simp add: rd_enc)
  then show ?case using Cons by (cases "rd t") auto
qed

lemma rd_encs_end: "rd t = Some ([], r) \<Longrightarrow> rd (concat (map enc s) @ t) = Some (s, r)"
  by (simp add: rd_encs)

end

lemma hex_control:
  assumes "(b :: u8) < 0x20"
  shows "hex_value (hex_low (drop_bit 4 b)) = Some (unat b div 16)" and "hex_value (hex_low (b AND 0x0F)) = Some (unat b mod 16)"
    and "unat b div 16 < 8" and "(of_nat (16 * (unat b div 16) + unat b mod 16) :: u8) = b"
proof -
  have all: "\<forall>i\<in>{0..<32::nat}. hex_value (hex_low (drop_bit 4 (of_nat i))) = Some (i div 16) \<and>
      hex_value (hex_low ((of_nat i) AND 0x0F)) = Some (i mod 16)"
    by (simp add: atLeastLessThan_nat_numeral) code_simp
  have "unat b \<in> {0..<32}" using assms by (simp add: word_less_nat_alt)
  from bspec [OF all this] show "hex_value (hex_low (drop_bit 4 b)) = Some (unat b div 16)"
    "hex_value (hex_low (b AND 0x0F)) = Some (unat b mod 16)" by simp_all
  have "unat b < 32" using assms by (simp add: word_less_nat_alt)
  then show "unat b div 16 < 8" by simp
  show "(of_nat (16 * (unat b div 16) + unat b mod 16) :: u8) = b" by simp
qed

lemma json_step: "json_str (json_escape_char [b] @ t) = map_option (apfst (Cons b)) (json_str t)"
proof (cases "b < 0x20 \<and> b \<noteq> 0x0A \<and> b \<noteq> 0x0D \<and> b \<noteq> 0x09")
  case True
  then have "b \<noteq> 0x22" "b \<noteq> 0x5C" by auto
  then have "json_escape_char [b] = [0x5C, 0x75, 0x30, 0x30, hex_low (drop_bit 4 b), hex_low (b AND 0x0F)]"
    using True by (simp add: json_escape_char_def)
  then show ?thesis using hex_control [of b] True by simp
qed (auto simp: json_escape_char_def)

interpretation json: escape_code "\<lambda>b. json_escape_char [b]" json_str
  by unfold_locales (rule json_step)

lemma html_step: "html_text (html_escape_char [b] @ t) = map_option (apfst (Cons b)) (html_text t)"
  by (auto simp: html_escape_char_def html_entity_def html_entities_def ascii_def)

interpretation html: escape_code "\<lambda>b. html_escape_char [b]" html_text
  by unfold_locales (rule html_step)

lemma json_escape_high: "\<forall>b\<in>set c. 0x80 \<le> b \<Longrightarrow> json_escape_char c = c"
  by (auto simp: json_escape_char_def word_le_nat_alt word_less_nat_alt split: list.split)

lemma html_escape_high: "\<forall>b\<in>set c. 0x80 \<le> b \<Longrightarrow> html_escape_char c = c"
  by (auto simp: html_escape_char_def word_le_nat_alt)

lemma escape_json_bytes: "escape_json s = concat (map (\<lambda>b. json_escape_char [b]) s)"
  unfolding escape_json_def by (rule ascii_only_bytewise) (rule json_escape_high)

lemma escape_html_bytes: "escape_html_text s = concat (map (\<lambda>b. html_escape_char [b]) s)"
  unfolding escape_html_text_def by (rule ascii_only_bytewise) (rule html_escape_high)

text \<open>Text that a user may set is shown as that text.  Whatever bytes a name has, a JSON parser reads the escaped
  name back up to the closing quote, and a browser reads the escaped manufacturer back up to the next tag, so no
  name can end its string or open a tag of its own.\<close>

theorem shown_text_reads_back:
  "json_str (escape_json s @ 0x22 # rest) = Some (s, rest) \<and>
   html_text (escape_html_text s @ 0x3C # rest) = Some (s, 0x3C # rest)"
  unfolding escape_json_bytes escape_html_bytes by (auto intro!: json.rd_encs_end html.rd_encs_end)

section \<open>Numbers\<close>

definition hex_up :: "u8 \<Rightarrow> u8" where
  "hex_up n = (if n < 10 then 0x30 + n else 0x37 + n)"

fun fmt_hex :: "(u8 \<Rightarrow> u8) \<Rightarrow> nat \<Rightarrow> nat \<Rightarrow> u8 list" where
  "fmt_hex d 0 n = []"
| "fmt_hex d (Suc w) n = fmt_hex d w (n div 16) @ [d (of_nat (n mod 16))]"

fun join_bytes :: "u8 \<Rightarrow> u8 list list \<Rightarrow> u8 list" where
  "join_bytes sep [] = []"
| "join_bytes sep [x] = x"
| "join_bytes sep (x # y # xs) = x @ sep # join_bytes sep (y # xs)"

definition fmt_ip :: "u8 list \<Rightarrow> u8 list" where
  "fmt_ip a = join_bytes 0x2E (map (\<lambda>i. fmt_dec (unat (a ! i))) [0..<4])"

definition fmt_mac :: "(u8 \<Rightarrow> u8) \<Rightarrow> u8 list \<Rightarrow> u8 list" where
  "fmt_mac d a = join_bytes 0x3A (map (\<lambda>i. fmt_hex d 2 (unat (a ! i))) [0..<6])"

definition fmt_bool :: "bool \<Rightarrow> u8 list" where
  "fmt_bool b = (if b then ascii ''true'' else ascii ''false'')"

section \<open>Responses\<close>

definition crlf :: "u8 list" where "crlf = [0x0D, 0x0A]"

definition status_text :: "nat \<Rightarrow> u8 list" where
  "status_text status =
     (if status = 200 then ascii ''OK'' else if status = 204 then ascii ''No Content''
      else if status = 301 then ascii ''Moved Permanently'' else if status = 400 then ascii ''Bad Request''
      else if status = 401 then ascii ''Unauthorized'' else if status = 413 then ascii ''Payload Too Large''
      else if status = 404 then ascii ''Not Found'' else if status = 405 then ascii ''Method Not Allowed''
      else if status = 500 then ascii ''Internal Server Error'' else ascii ''Error'')"

definition send_response :: "nat \<Rightarrow> string \<Rightarrow> u8 list \<Rightarrow> u8 list" where
  "send_response status content_type body =
     ascii ''HTTP/1.1 '' @ fmt_dec status @ ascii '' '' @ status_text status @ crlf @
     ascii ''Content-Type: '' @ ascii content_type @ crlf @ ascii ''Cache-Control: no-store'' @ crlf @
     ascii ''Content-Length: '' @ fmt_dec (length body) @ crlf @ ascii ''Connection: close'' @ crlf @ crlf @ body"

definition send_json :: "nat \<Rightarrow> u8 list \<Rightarrow> u8 list" where
  "send_json status json = send_response status ''application/json'' json"

definition send_json_with_cookie :: "nat \<Rightarrow> u8 list \<Rightarrow> u8 list \<Rightarrow> u8 list" where
  "send_json_with_cookie status json cookie =
     ascii ''HTTP/1.1 '' @ fmt_dec status @ ascii '' '' @ (if status = 200 then ascii ''OK'' else ascii ''Error'') @ crlf @
     ascii ''Content-Type: application/json'' @ crlf @ ascii ''Cache-Control: no-store'' @ crlf @
     ascii ''Set-Cookie: '' @ cookie @ crlf @
     ascii ''Content-Length: '' @ fmt_dec (length json) @ crlf @ ascii ''Connection: close'' @ crlf @ crlf @ json"

definition send_redirect :: "string \<Rightarrow> u8 list" where
  "send_redirect location =
     ascii ''HTTP/1.1 301 Moved Permanently'' @ crlf @ ascii ''Location: '' @ ascii location @ crlf @
     ascii ''Cache-Control: no-cache'' @ crlf @ ascii ''Content-Length: 0'' @ crlf @ ascii ''Connection: close'' @ crlf @ crlf"

definition logout_response :: "u8 list" where
  "logout_response =
     ascii ''HTTP/1.1 301 Moved Permanently'' @ crlf @ ascii ''Location: /login'' @ crlf @
     ascii ''Cache-Control: no-cache'' @ crlf @ ascii ''Set-Cookie: ESPSESSIONID=0; Path=/; Max-Age=0'' @ crlf @
     ascii ''Content-Length: 0'' @ crlf @ ascii ''Connection: close'' @ crlf @ crlf"

definition json_response :: "string \<Rightarrow> string \<Rightarrow> u8 list" where
  "json_response response_type code =
     ascii ''{\"type\":\"'' @ ascii response_type @ ascii ''\",\"code\":\"'' @ ascii code @ ascii ''\",\"msg\":\"\",\"data\":{}}''"

end
