(* ===== verification/Web_Pages.thy ===== *)
theory Web_Pages imports Web_Text Device_Actor begin

text \<open>
  The pages that only show values (the \<open>handle_get_*\<close> functions of \<open>src/web/mod.rs\<close>).  What they show of
  other modules that are not part of the state is a record of readings.
\<close>

section \<open>State of the server\<close>

record web_readings =
  wr_eth_link :: bool
  wr_ble_client :: bool
  wr_ble_notify :: bool
  wr_udp_receiving :: bool
  wr_udp_len :: nat
  wr_free_heap :: nat
  wr_uptime_ms :: u32
  wr_nfc_started :: bool
  wr_nfc_state :: string
  wr_fiber :: "bool \<times> bool"
  wr_io_health :: "u8 list"
  wr_telemetry :: "u8 list"
  wr_calib_status :: nat
  wr_config_wait_us :: nat
  wr_storage_wait_us :: nat
  wr_login_html :: "u8 list"
  wr_index_html :: "u8 list"

text \<open>The server's thread sees the storage actor's world, its own save request and the session.\<close>

record web_world =
  ww_aw :: actor_state
  ww_await :: await_state
  ww_session :: session
  ww_now :: nat

definition web_bus :: "web_world \<Rightarrow> bus_state" where
  "web_bus w = dw_bus (snd (ww_aw w))"

definition web_dev :: "(device_world \<Rightarrow> device_world) \<Rightarrow> web_world \<Rightarrow> web_world" where
  "web_dev f w = w\<lparr>ww_aw := (fst (ww_aw w), f (snd (ww_aw w)))\<rparr>"

definition web_on_bus :: "(bus_state \<Rightarrow> bus_state) \<Rightarrow> web_world \<Rightarrow> web_world" where
  "web_on_bus f = web_dev (on_bus f)"

definition json_ok :: "u8 list \<Rightarrow> u8 list" where
  "json_ok = send_json 200"

definition until_zero :: "u8 list \<Rightarrow> u8 list" where
  "until_zero = takeWhile (\<lambda>b. b \<noteq> 0)"

definition sn_str :: "system_config \<Rightarrow> u8 list" where "sn_str c = utf8_lossy (until_zero (sc_sn c))"
definition name_str :: "system_config \<Rightarrow> u8 list" where "name_str c = utf8_lossy (until_zero (sc_name c))"
definition ble_name_str :: "system_config \<Rightarrow> u8 list" where "ble_name_str c = utf8_lossy (until_zero (sc_ble_name c))"

definition load_web_system_info :: "web_world \<Rightarrow> web_system_info" where
  "load_web_system_info w = wc_info (dw_web (snd (ww_aw w)))"

section \<open>System information\<close>

definition system_info_json :: "web_system_info \<Rightarrow> system_config \<Rightarrow> u8 list" where
  "system_info_json info c =
     (let fw = unat (sc_fw_version c) in
      ascii ''{\"type\":\"getsysteminfo\",\"code\":\"0\",\"msg\":\"\",\"data\":{\"devicename\":\"'' @ escape_json (wi_device_name info) @
      ascii ''\",\"manufacturer\":\"'' @ escape_json (wi_manufacturer info) @
      ascii ''\",\"model\":\"'' @ escape_json (wi_model info) @
      ascii ''\",\"version\":\"V'' @ fmt_dec (fw div 100) @ ascii ''.'' @ fmt_dec (fw mod 100 div 10) @ ascii ''.'' @
      fmt_dec (fw mod 10) @ ascii ''.'' @ fmt_dec (unat (sc_fw_date c)) @
      ascii ''\",\"hw_version\":\"0x'' @ fmt_hex hex_up 4 (unat (sc_hw_version c)) @
      ascii ''\",\"addressinfo\":\"'' @ escape_json (name_str c) @ ascii ''\"}}'')"

definition handle_get_system_info :: "web_world \<Rightarrow> u8 list" where
  "handle_get_system_info w = json_ok (system_info_json (load_web_system_info w) (bus_config (web_bus w)))"

section \<open>Network\<close>

definition network_json :: "system_config \<Rightarrow> u8 list" where
  "network_json c =
     ascii ''{\"type\":\"getnetworkconfig\",\"code\":\"0\",\"msg\":\"\",\"data\":{\"ip\":\"'' @ fmt_ip (sc_ip c) @
     ascii ''\",\"mask\":\"'' @ fmt_ip (sc_mask c) @ ascii ''\",\"gateway\":\"'' @ fmt_ip (sc_gateway c) @
     ascii ''\",\"dns\":\"'' @ fmt_ip (sc_dns c) @ ascii ''\",\"mac\":\"'' @ fmt_mac hex_low (sc_eth_mac c) @
     ascii ''\",\"sn\":\"'' @ escape_json (sn_str c) @ ascii ''\",\"addressinfo\":\"'' @ escape_json (name_str c) @
     ascii ''\",\"dhcp\":'' @ fmt_dec (if sc_dhcp c then 1 else 0) @ ascii '',\"version\":\"F3'' @
     ascii ''\",\"bloothaddress\":\"'' @ escape_json (ble_name_str c) @ ascii ''\"}}''"

definition handle_get_network_config :: "web_world \<Rightarrow> u8 list" where
  "handle_get_network_config w = json_ok (network_json (bus_config (web_bus w)))"

section \<open>Serial ports\<close>

definition C_BAUD_TABLE :: "u32 list" where
  "C_BAUD_TABLE = [9600, 1200, 2400, 4800, 9600, 14400, 19200, 38400, 57600, 115200, 128000, 153600, 230400,
     256000, 460800, 921600]"

definition internal_to_legacy_port_mode :: "u8 \<Rightarrow> u8" where
  "internal_to_legacy_port_mode mode = (if mode = 0 then 1 else 2)"

definition legacy_to_internal_port_mode :: "u8 \<Rightarrow> u8" where
  "legacy_to_internal_port_mode mode = (if mode = 1 then 0 else 1)"

fun position :: "('a \<Rightarrow> bool) \<Rightarrow> 'a list \<Rightarrow> nat option" where
  "position p [] = None"
| "position p (x # xs) = (if p x then Some 0 else map_option Suc (position p xs))"

text \<open>The values of one port in the order of the form.\<close>

definition port_values :: "rs485_config \<Rightarrow> (string \<times> nat) list" where
  "port_values r =
     [(''datalen'', if rs_data_bits r = 7 then 1 else 0),
      (''checkmode'', unat (rs_parity r)),
      (''stopbit'', unat (rs_stop_bits r) - 1),
      (''baud'', case_option 0 id (position (\<lambda>b. b = rs_baudrate r) C_BAUD_TABLE)),
      (''masterslaveport'', unat (internal_to_legacy_port_mode (rs_mode r))),
      (''slaveaddress'', unat (rs_slave_addr r)),
      (''retrycount'', unat (rs_retry_count r)),
      (''responeinteval'', unat (rs_timeout_ms r)),
      (''tti'', unat (rs_interval_ms r))]"

definition port_values_missing :: "(string \<times> nat) list" where
  "port_values_missing =
     [(''datalen'', 0), (''checkmode'', 0), (''stopbit'', 0), (''baud'', 0), (''masterslaveport'', 0), (''slaveaddress'', 1),
      (''retrycount'', 3), (''responeinteval'', 1000), (''tti'', 20)]"

definition port_fields :: "system_config \<Rightarrow> nat \<Rightarrow> u8 list" where
  "port_fields c i =
     join_bytes 0x2C (map (\<lambda>(n, v). ascii ''\"'' @ ascii n @ ascii ''_'' @ fmt_dec i @ ascii ''\":'' @ fmt_dec v)
       (if i < length (sc_rs485 c) then port_values (sc_rs485 c ! i) else port_values_missing))"

definition port_config_json :: "system_config \<Rightarrow> u8 list" where
  "port_config_json c =
     ascii ''{\"type\":\"getportconfig\",\"code\":\"0\",\"data\":{'' @ port_fields c 0 @ ascii '','' @ port_fields c 1 @
     ascii '','' @ port_fields c 2 @ ascii ''}}''"

definition handle_get_port_config :: "web_world \<Rightarrow> u8 list" where
  "handle_get_port_config w = json_ok (port_config_json (bus_config (web_bus w)))"

section \<open>State and diagnostics\<close>

definition recovery_mode_text :: "degraded_mode \<Rightarrow> u8 list" where
  "recovery_mode_text m =
     (case m of NormalMode \<Rightarrow> ascii ''Normal'' | BleOnly \<Rightarrow> ascii ''BleOnly'' | LocalOnly \<Rightarrow> ascii ''LocalOnly''
      | Minimal \<Rightarrow> ascii ''Minimal'')"

definition json_num :: "string \<Rightarrow> nat \<Rightarrow> u8 list" where
  "json_num name n = ascii ''\"'' @ ascii name @ ascii ''\":'' @ fmt_dec n"

definition json_bool :: "string \<Rightarrow> bool \<Rightarrow> u8 list" where
  "json_bool name b = ascii ''\"'' @ ascii name @ ascii ''\":'' @ fmt_bool b"

definition system_status_json :: "web_readings \<Rightarrow> bus_state \<Rightarrow> u8 list" where
  "system_status_json r s =
     (let st = bus_stats s; rc = bus_recovery s; sys = io_sys (bus_io s) in
      ascii ''{\"type\":\"getsystemstatus\",\"code\":\"0\",\"msg\":\"\",\"data\":{'' @
      join_bytes 0x2C
        [json_num ''uptime'' (unat (sys_uptime_s sys)), json_bool ''ethernet_link'' (wr_eth_link r),
         json_bool ''ble_connected'' (wr_ble_client r), json_bool ''ble_notify'' (wr_ble_notify r),
         json_bool ''udp_multicast'' (wr_udp_receiving r), json_num ''udp_received_bytes'' (wr_udp_len r),
         json_num ''rs485_1_comerr'' (unat (port_comerr st 0)), json_num ''rs485_1_apperr'' (unat (port_apperr st 0)),
         json_num ''rs485_2_comerr'' (unat (port_comerr st 1)), json_num ''rs485_2_apperr'' (unat (port_apperr st 1)),
         json_num ''rs485_3_comerr'' (unat (port_comerr st 2)), json_num ''rs485_3_apperr'' (unat (port_apperr st 2)),
         ascii ''\"recovery_mode\":\"'' @ recovery_mode_text (recovery_mode rc) @ ascii ''\"'',
         json_num ''recoverable'' (unat (rc_recoverable rc)), json_num ''degradable'' (unat (rc_degradable rc)),
         json_num ''severe'' (unat (rc_severe rc)), json_num ''free_heap'' (wr_free_heap r),
         json_num ''reset_count'' (unat (sys_reset_count sys)), json_num ''reset_reason'' (unat (sys_reset_reason sys))] @
      ascii ''}}'')"

definition handle_get_system_status :: "web_readings \<Rightarrow> web_world \<Rightarrow> u8 list" where
  "handle_get_system_status r w = json_ok (system_status_json r (web_bus w))"

definition handle_get_nfc_status :: "web_readings \<Rightarrow> http_request \<Rightarrow> u8 list" where
  "handle_get_nfc_status r req =
     (if rq_method req \<noteq> ascii ''GET'' then send_json 405 (json_response ''getnfcstatus'' ''405'')
      else json_ok (ascii ''{\"type\":\"getnfcstatus\",\"code\":\"0\",\"msg\":\"\",\"data\":{\"started\":'' @
        fmt_bool (wr_nfc_started r) @ ascii '',\"state\":\"'' @ ascii (wr_nfc_state r) @ ascii ''\"}}''))"

definition indexed :: "string \<Rightarrow> nat \<Rightarrow> (nat \<Rightarrow> nat) \<Rightarrow> u8 list" where
  "indexed name n f =
     join_bytes 0x2C (map (\<lambda>i. ascii ''\"'' @ ascii name @ ascii ''_'' @ fmt_dec i @ ascii ''\":'' @ fmt_dec (f i)) [0..<n])"

definition bit_num :: "u64 \<Rightarrow> nat \<Rightarrow> nat" where
  "bit_num bits i = (if drop_bit i bits AND 1 \<noteq> 0 then 1 else 0)"

definition hold_or_zero :: "bus_state \<Rightarrow> u16 \<Rightarrow> nat" where
  "hold_or_zero s a = case_option 0 unat (read_hold_reg s a)"

definition state_lamps :: "web_readings \<Rightarrow> bus_state \<Rightarrow> nat list" where
  "state_lamps r s =
     [1, unat (sys_uptime_s (io_sys (bus_io s)) AND 1), of_bool (wr_ble_client r), of_bool (wr_eth_link r),
      of_bool (port_active (wr_uptime_ms r) 0 (bus_stats s)), of_bool (port_active (wr_uptime_ms r) 1 (bus_stats s)),
      of_bool (fst (wr_fiber r)), of_bool (snd (wr_fiber r))]"

definition io_data_json :: "web_readings \<Rightarrow> bus_state \<Rightarrow> u8 list" where
  "io_data_json r s =
     ascii ''{\"type\":\"getiodata\",\"code\":\"0\",\"msg\":\"\",\"data\":{\"state_data\":{'' @
       indexed ''state_addr'' 8 (\<lambda>i. state_lamps r s ! i) @
     ascii ''},\"di_data\":{'' @ indexed ''di_addr'' DI_COUNT (bit_num (load_bits (io_di (bus_io s)))) @
     ascii ''},\"do_data\":{'' @ indexed ''do_addr'' DO_COUNT (bit_num (load_bits (io_do (bus_io s)))) @
     ascii ''},\"ai_data\":{'' @
       indexed ''ai_addr'' (unat AI_COUNT) (\<lambda>i. case_option 0 unat (read_input_reg s (INREG_AI_BASE + of_nat i))) @
     ascii ''},\"ai_data_max\":{'' @ indexed ''ai_addr_max'' (unat AI_COUNT) (\<lambda>i. hold_or_zero s (2288 + of_nat i)) @
     ascii ''},\"ai_data_min\":{'' @ indexed ''ai_addr_min'' (unat AI_COUNT) (\<lambda>i. hold_or_zero s (2280 + of_nat i)) @
     ascii ''},\"diagnostics\":{\"io\":'' @ wr_io_health r @ ascii '',\"calibration_status\":'' @ fmt_dec (wr_calib_status r) @
     ascii '',\"performance\":'' @ wr_telemetry r @ ascii '',\"rcu_reclaim_max_us\":{\"config\":'' @ fmt_dec (wr_config_wait_us r) @
     ascii '',\"storage\":'' @ fmt_dec (wr_storage_wait_us r) @ ascii ''}}}}''"

definition handle_get_io_data :: "web_readings \<Rightarrow> web_world \<Rightarrow> u8 list" where
  "handle_get_io_data r w = json_ok (io_data_json r (web_bus w))"

definition handle_get_ble_config :: "web_world \<Rightarrow> u8 list" where
  "handle_get_ble_config w =
     (let c = bus_config (web_bus w) in
      json_ok (ascii ''{\"type\":\"getbleconfig\",\"code\":\"0\",\"data\":{\"blename\":\"'' @
        escape_json (utf8_lossy (takeWhile (\<lambda>b. b \<noteq> 0) (sc_ble_name c))) @
        ascii ''\",\"mac\":\"'' @ escape_json (fmt_mac hex_up (sc_ble_mac c)) @ ascii ''\"}}''))"

abbreviation (input) SENSOR_MIN_INDEX :: nat where "SENSOR_MIN_INDEX \<equiv> 104"
abbreviation (input) SENSOR_MAX_INDEX :: nat where "SENSOR_MAX_INDEX \<equiv> 112"

definition sensor_config_json :: "storage_snapshot \<Rightarrow> u8 list" where
  "sensor_config_json sn =
     (let word = (\<lambda>i default. case_option default unat (get_opt (sn_holding_buf sn) i)) in
      ascii ''{\"type\":\"getsensorconfig\",\"code\":\"0\",\"data\":{'' @
      join_bytes 0x2C (map (\<lambda>i. ascii ''\"ai_'' @ fmt_dec i @ ascii ''\":{\"min\":'' @ fmt_dec (word (SENSOR_MIN_INDEX + i) 605) @
        ascii '',\"max\":'' @ fmt_dec (word (SENSOR_MAX_INDEX + i) 3016) @ ascii ''}'') [0..<unat AI_COUNT]) @
      ascii ''}}'')"

definition handle_get_sensor_config :: "web_world \<Rightarrow> u8 list" where
  "handle_get_sensor_config w = json_ok (sensor_config_json (bus_storage (web_bus w)))"

end
