(* ===== verification/Web_Forms.thy ===== *)
theory Web_Forms imports Web_Pages Device_Sync begin

text \<open>
  The pages that change something (the \<open>handle_update_*\<close>, \<open>handle_io_control\<close>, \<open>handle_reboot\<close> and
  \<open>handle_login\<close> functions of \<open>src/web/mod.rs\<close>) and the dispatch of a request.  A handler gives the bytes it
  writes and the new state.  While a handler waits for the storage actor, the actor runs (\<open>we_step\<close>); the
  rest of a handler is one step.
\<close>

section \<open>Environment\<close>

record web_env =
  we_readings :: web_readings
  we_step :: "nat \<Rightarrow> actor_state \<Rightarrow> actor_state"
  we_slack :: "nat \<Rightarrow> nat"
  we_random :: "u32 list"
  we_nvs :: "string \<Rightarrow> nvs_outcome"
  we_nfc_backup :: "device_world \<Rightarrow> bool \<times> device_world"
  we_nfc_restore :: "device_world \<Rightarrow> bool \<times> device_world"

definition web_await :: "web_env \<Rightarrow> web_world \<Rightarrow> bool \<times> web_world" where
  "web_await env w =
     (let (r, polls, st, aw) = await_pending_persistence (we_step env) (we_slack env) (ww_now w) (ww_await w) (ww_aw w)
      in (r = Inr (), w\<lparr>ww_await := st, ww_aw := aw\<rparr>))"

definition web_answer :: "nat \<Rightarrow> string \<Rightarrow> string \<Rightarrow> u8 list" where
  "web_answer status kind code = send_json status (json_response kind code)"

text \<open>The end of most handlers: wait for the save, then report.\<close>

definition web_saved :: "web_env \<Rightarrow> string \<Rightarrow> web_world \<Rightarrow> u8 list \<times> web_world" where
  "web_saved env kind w =
     (case web_await env w of
        (False, w) \<Rightarrow> (web_answer 503 kind ''0x01000005'', w)
      | (True, w) \<Rightarrow> (web_answer 200 kind ''0'', w))"

definition web_config_modify :: "(system_config \<Rightarrow> system_config) \<Rightarrow> web_world \<Rightarrow> web_world" where
  "web_config_modify f = web_on_bus (\<lambda>s. snd (config_modify (\<lambda>c. ((), f c)) s))"

section \<open>System information\<close>

definition too_long :: "nat \<Rightarrow> u8 list option \<Rightarrow> bool" where
  "too_long n v = (case v of None \<Rightarrow> False | Some x \<Rightarrow> length x > n)"

definition system_info_with :: "http_request \<Rightarrow> web_system_info \<Rightarrow> web_system_info" where
  "system_info_with req info =
     (let info = (case form_field ''devicename'' req of None \<Rightarrow> info | Some v \<Rightarrow> info\<lparr>wi_device_name := v\<rparr>);
          info = (case form_field ''manufacturer'' req of None \<Rightarrow> info | Some v \<Rightarrow> info\<lparr>wi_manufacturer := v\<rparr>)
      in case form_field ''model'' req of None \<Rightarrow> info | Some v \<Rightarrow> info\<lparr>wi_model := v\<rparr>)"

definition set_name :: "u8 list \<Rightarrow> system_config \<Rightarrow> system_config" where
  "set_name bytes c = c\<lparr>sc_name := copy_at (replicate 16 0) 0 bytes\<rparr>"

definition handle_update_system_info :: "web_env \<Rightarrow> http_request \<Rightarrow> web_world \<Rightarrow> u8 list \<times> web_world" where
  "handle_update_system_info env req w =
     (let kind = ''updatesysteminfoconfig''; addressinfo = form_field ''addressinfo'' req in
      if rq_method req \<noteq> ascii ''POST'' then (web_answer 405 kind ''405'', w)
      else if form_field ''devicename'' req = None \<and> form_field ''manufacturer'' req = None \<and>
          form_field ''model'' req = None \<and> addressinfo = None then (web_answer 200 kind ''0x01000001'', w)
      else if too_long 16 addressinfo then (web_answer 200 kind ''0x01000003'', w)
      else case save_web_system_info (system_info_with req (load_web_system_info w)) (dw_web (snd (ww_aw w))) of
        (False, _) \<Rightarrow> (web_answer 200 kind ''0x01000003'', w)
      | (True, cell) \<Rightarrow>
          let w = web_dev (\<lambda>d. d\<lparr>dw_web := cell\<rparr>) w;
              w = (case addressinfo of None \<Rightarrow> w
                   | Some name \<Rightarrow> web_on_bus request_persist_config (web_config_modify (set_name name) w))
          in web_saved env kind w)"

section \<open>Network\<close>

definition parse_ip :: "u8 list \<Rightarrow> u8 list option" where
  "parse_ip s =
     (let parts = split_on 0x2E s in
      if length parts \<noteq> 4 then None
      else case map (parse_uint U8_MAX) parts of
        [Some a, Some b, Some c, Some d] \<Rightarrow> Some [of_nat a, of_nat b, of_nat c, of_nat d]
      | _ \<Rightarrow> None)"

datatype form_result = FormMissing | FormInvalid | FormOk

text \<open>Address, mask, gateway and perhaps the name server; \<open>None\<close> when the form has no network field.\<close>

definition mask_contiguous :: "u8 list \<Rightarrow> bool" where
  "mask_contiguous m = (let inverted = NOT (be32_of m) in inverted AND (inverted + 1) = 0)"

definition network_of_form :: "http_request \<Rightarrow>
    form_result \<times> (u8 list \<times> u8 list \<times> u8 list \<times> u8 list option) option" where
  "network_of_form req =
     (let ip_field = form_field ''ip'' req; mask_field = form_field ''mask'' req;
          gateway_field = form_field ''gateway'' req; dns_field = form_field ''dns'' req in
      if ip_field = None \<and> mask_field = None \<and> gateway_field = None \<and> dns_field = None then (FormOk, None)
      else case (ip_field, mask_field, gateway_field) of
        (Some ip_text, Some mask_text, Some gateway_text) \<Rightarrow>
          (case (parse_ip ip_text, parse_ip mask_text, parse_ip gateway_text) of
             (Some ip, Some msk, Some gw) \<Rightarrow>
               if ip = [0, 0, 0, 0] \<or> ip ! 0 = 0 \<or> ip ! 0 \<ge> 224 \<or> msk = [0, 0, 0, 0] then (FormInvalid, None)
               else if \<not> mask_contiguous msk then (FormInvalid, None)
               else (case dns_field of
                 None \<Rightarrow> (FormOk, Some (ip, msk, gw, None))
               | Some v \<Rightarrow> (case parse_ip v of None \<Rightarrow> (FormInvalid, None) | Some d \<Rightarrow> (FormOk, Some (ip, msk, gw, Some d))))
           | _ \<Rightarrow> (FormInvalid, None))
      | _ \<Rightarrow> (FormMissing, None))"

definition set_network :: "u8 list \<times> u8 list \<times> u8 list \<times> u8 list option \<Rightarrow> system_config \<Rightarrow> system_config" where
  "set_network n c =
     (let (ip, msk, gw, dns) = n;
          c = c\<lparr>sc_ip := ip, sc_mask := msk, sc_gateway := gw\<rparr>;
          c = (case dns of None \<Rightarrow> c | Some d \<Rightarrow> c\<lparr>sc_dns := d\<rparr>)
      in c\<lparr>sc_dhcp := False\<rparr>)"

definition network_update :: "(u8 list \<times> u8 list \<times> u8 list \<times> u8 list option) option \<Rightarrow> http_request \<Rightarrow>
    system_config \<Rightarrow> system_config" where
  "network_update network req c =
     (let c = (case network of None \<Rightarrow> c | Some n \<Rightarrow> set_network n c);
          c = (case form_field ''addressinfo'' req of None \<Rightarrow> c | Some b \<Rightarrow> set_name b c);
          c = (case form_field ''sn'' req of None \<Rightarrow> c | Some b \<Rightarrow> c\<lparr>sc_sn := copy_at (replicate 32 0) 0 b\<rparr>)
      in case form_field ''bloothaddress'' req of None \<Rightarrow> c | Some b \<Rightarrow> c\<lparr>sc_ble_name := copy_at (replicate 8 0) 0 b\<rparr>)"

definition handle_update_network_config :: "web_env \<Rightarrow> http_request \<Rightarrow> web_world \<Rightarrow> u8 list \<times> web_world" where
  "handle_update_network_config env req w =
     (let kind = ''updatenetworkconfig'' in
      if rq_method req \<noteq> ascii ''POST'' then (web_answer 405 kind ''405'', w)
      else case network_of_form req of
        (FormMissing, _) \<Rightarrow> (web_answer 200 kind ''0x01000001'', w)
      | (FormInvalid, _) \<Rightarrow> (web_answer 200 kind ''0x01000003'', w)
      | (FormOk, network) \<Rightarrow>
          if network = None \<and> form_field ''addressinfo'' req = None \<and> form_field ''sn'' req = None \<and>
             form_field ''bloothaddress'' req = None then (web_answer 200 kind ''0x01000001'', w)
          else if too_long 16 (form_field ''addressinfo'' req) \<or> too_long 32 (form_field ''sn'' req) \<or>
             too_long 8 (form_field ''bloothaddress'' req) then (web_answer 200 kind ''0x01000003'', w)
          else let w = web_on_bus request_persist_config (web_config_modify (network_update network req) w);
                   w = (if form_field ''bloothaddress'' req \<noteq> None
                        then web_on_bus notify_ble_name_changed (web_on_bus sync_ble_name_holding w) else w)
            in web_saved env kind w)"

section \<open>Serial ports\<close>

definition form_num :: "nat \<Rightarrow> string \<Rightarrow> http_request \<Rightarrow> nat option" where
  "form_num mx name req = Option.bind (form_field name req) (parse_uint mx)"

definition form_num2 :: "nat \<Rightarrow> string \<Rightarrow> string \<Rightarrow> http_request \<Rightarrow> nat option" where
  "form_num2 mx name other req =
     Option.bind (case form_field name req of None \<Rightarrow> form_field other req | Some v \<Rightarrow> Some v) (parse_uint mx)"

record port_form =
  po_index :: nat
  po_baud :: nat
  po_mode :: nat
  po_slave :: nat
  po_datalen :: nat
  po_stopbit :: nat
  po_parity :: nat
  po_retry :: nat
  po_timeout :: nat
  po_interval :: nat

definition port_form_of :: "http_request \<Rightarrow> port_form option" where
  "port_form_of req =
     Option.bind (form_num USIZE_MAX ''index'' req) (\<lambda>index.
      Option.bind (form_num USIZE_MAX ''baud'' req) (\<lambda>baud.
      Option.bind (form_num U8_MAX ''masterslaveport'' req) (\<lambda>mode.
      Option.bind (form_num U16_MAX ''slaveaddress'' req) (\<lambda>slave.
      Option.bind (form_num U8_MAX ''datalen'' req) (\<lambda>datalen.
      Option.bind (form_num U8_MAX ''stopbit'' req) (\<lambda>stopbit.
      Option.bind (form_num U8_MAX ''checkmode'' req) (\<lambda>parity.
      Option.bind (form_num2 U16_MAX ''retrycount'' ''retry'' req) (\<lambda>retry.
      Option.bind (form_num2 U16_MAX ''responeinteval'' ''timeout'' req) (\<lambda>timeout.
      Option.bind (form_num2 U16_MAX ''tti'' ''interval'' req) (\<lambda>interval.
        Some \<lparr>po_index = index, po_baud = baud, po_mode = mode, po_slave = slave, po_datalen = datalen,
          po_stopbit = stopbit, po_parity = parity, po_retry = retry, po_timeout = timeout, po_interval = interval\<rparr>))))))))))"

definition port_form_valid :: "port_form \<Rightarrow> bool" where
  "port_form_valid p \<longleftrightarrow> po_index p < 3 \<and> po_baud p < length C_BAUD_TABLE \<and> po_mode p \<le> 2 \<and> po_datalen p \<le> 1 \<and>
     po_stopbit p \<le> 1 \<and> 1 \<le> po_slave p \<and> po_slave p \<le> 247 \<and> po_parity p \<le> 2 \<and> po_retry p \<le> 5 \<and>
     20 \<le> po_timeout p \<and> po_timeout p \<le> 5000 \<and> 20 \<le> po_interval p \<and> po_interval p \<le> 5000"

definition port_of_form :: "port_form \<Rightarrow> rs485_config" where
  "port_of_form p =
     \<lparr>rs_baudrate = C_BAUD_TABLE ! po_baud p, rs_data_bits = (if po_datalen p = 1 then 7 else 8),
      rs_stop_bits = (if po_stopbit p = 1 then 2 else 1), rs_parity = of_nat (po_parity p),
      rs_slave_addr = of_nat (po_slave p), rs_mode = legacy_to_internal_port_mode (of_nat (po_mode p)),
      rs_retry_count = of_nat (po_retry p), rs_timeout_ms = of_nat (po_timeout p), rs_interval_ms = of_nat (po_interval p)\<rparr>"

definition handle_update_port_config :: "web_env \<Rightarrow> http_request \<Rightarrow> web_world \<Rightarrow> u8 list \<times> web_world" where
  "handle_update_port_config env req w =
     (let kind = ''updateportconfig'' in
      if rq_method req \<noteq> ascii ''POST'' then (web_answer 405 kind ''405'', w)
      else case port_form_of req of
        None \<Rightarrow> (web_answer 200 kind ''0x01000003'', w)
      | Some p \<Rightarrow>
          if \<not> port_form_valid p then (web_answer 200 kind ''0x01000003'', w)
          else web_saved env kind (web_on_bus request_persist_config
            (web_config_modify (\<lambda>c. c\<lparr>sc_rs485 := (sc_rs485 c)[po_index p := port_of_form p]\<rparr>) w)))"

section \<open>Outputs, Bluetooth name, sensors\<close>

definition parse_io_control_fields :: "u8 list option \<Rightarrow> u8 list option \<Rightarrow> (nat \<times> bool) option" where
  "parse_io_control_fields addr v =
     (case Option.bind addr (parse_uint U16_MAX) of None \<Rightarrow> None | Some a \<Rightarrow>
      (case Option.bind v (parse_uint U8_MAX) of None \<Rightarrow> None | Some n \<Rightarrow> if n \<le> 1 then Some (a, n = 1) else None))"

definition handle_io_control :: "http_request \<Rightarrow> web_world \<Rightarrow> u8 list \<times> web_world" where
  "handle_io_control req w =
     (let kind = ''iocontrol'' in
      if rq_method req \<noteq> ascii ''POST'' then (web_answer 405 kind ''405'', w)
      else case parse_io_control_fields (form_field ''addr'' req) (form_field ''value'' req) of
        None \<Rightarrow> (web_answer 200 kind ''0x01000003'', w)
      | Some (addr, v) \<Rightarrow>
          if addr \<ge> DO_COUNT then (web_answer 200 kind ''0x01000003'', w)
          else let (ok, s) = write_coil (COIL_DO_BASE + of_nat addr) v (web_bus w);
                   w = web_on_bus (\<lambda>_. s) w
            in (web_answer 200 kind (if ok then ''0'' else ''0x01000005''), w))"

definition handle_update_ble_config :: "web_env \<Rightarrow> http_request \<Rightarrow> web_world \<Rightarrow> u8 list \<times> web_world" where
  "handle_update_ble_config env req w =
     (let kind = ''updatebleconfig'' in
      if rq_method req \<noteq> ascii ''POST'' then (web_answer 405 kind ''405'', w)
      else case form_field ''blename'' req of
        None \<Rightarrow> (web_answer 200 kind ''0x01000003'', w)
      | Some name \<Rightarrow>
          if length name > 8 \<or> 0 \<in> set name then (web_answer 200 kind ''0x01000004'', w)
          else web_saved env kind (web_on_bus notify_ble_name_changed (web_on_bus request_persist_config
            (web_on_bus sync_ble_name_holding
              (web_config_modify (\<lambda>c. c\<lparr>sc_ble_name := copy_at (replicate 8 0) 0 (take 8 name)\<rparr>) w)))))"

definition parse_sensor_fields :: "u8 list option \<Rightarrow> u8 list option \<Rightarrow> u8 list option \<Rightarrow> (nat \<times> u16 \<times> u16) option" where
  "parse_sensor_fields ch mn mx =
     (case Option.bind ch (parse_uint USIZE_MAX) of None \<Rightarrow> None | Some c \<Rightarrow>
      (case Option.bind mn (parse_uint U16_MAX) of None \<Rightarrow> None | Some lo \<Rightarrow>
      (case Option.bind mx (parse_uint U16_MAX) of None \<Rightarrow> None | Some hi \<Rightarrow>
         if lo \<le> 4095 \<and> hi \<le> 4095 \<and> (lo = 0 \<or> hi = 0 \<or> lo \<noteq> hi) then Some (c, of_nat lo, of_nat hi) else None)))"

definition request_persist_holding :: "bus_state \<Rightarrow> bus_state" where
  "request_persist_holding s = snd (request_device CmdPersistHolding s)"

definition handle_update_sensor_config :: "web_env \<Rightarrow> http_request \<Rightarrow> web_world \<Rightarrow> u8 list \<times> web_world" where
  "handle_update_sensor_config env req w =
     (let kind = ''updatesensorconfig'' in
      if rq_method req \<noteq> ascii ''POST'' then (web_answer 405 kind ''405'', w)
      else case parse_sensor_fields (form_field ''ch'' req) (form_field ''min'' req) (form_field ''max'' req) of
        None \<Rightarrow> (web_answer 200 kind ''0x01000003'', w)
      | Some (ch, lo, hi) \<Rightarrow>
          if ch \<ge> unat AI_COUNT then (web_answer 200 kind ''0x01000003'', w)
          else web_saved env kind (web_on_bus request_persist_holding
            (web_on_bus (storage_modify_holding (\<lambda>h. h[SENSOR_MIN_INDEX + ch := lo, SENSOR_MAX_INDEX + ch := hi])) w)))"

section \<open>Tag commands, restart, password\<close>

definition handle_nfc_command :: "web_env \<Rightarrow> string \<Rightarrow> (device_world \<Rightarrow> bool \<times> device_world) \<Rightarrow> http_request \<Rightarrow>
    web_world \<Rightarrow> u8 list \<times> web_world" where
  "handle_nfc_command env kind command req w =
     (if rq_method req \<noteq> ascii ''POST'' then (web_answer 405 kind ''405'', w)
      else if \<not> wr_nfc_started (we_readings env) then (web_answer 503 kind ''0x01000004'', w)
      else case command (snd (ww_aw w)) of
        (True, d) \<Rightarrow> (web_answer 200 kind ''0'', web_dev (\<lambda>_. d) w)
      | (False, d) \<Rightarrow> (web_answer 500 kind ''0x01000003'', web_dev (\<lambda>_. d) w))"

definition handle_nfc_backup :: "web_env \<Rightarrow> http_request \<Rightarrow> web_world \<Rightarrow> u8 list \<times> web_world" where
  "handle_nfc_backup env = handle_nfc_command env ''nfcbackup'' (we_nfc_backup env)"

definition handle_nfc_restore :: "web_env \<Rightarrow> http_request \<Rightarrow> web_world \<Rightarrow> u8 list \<times> web_world" where
  "handle_nfc_restore env = handle_nfc_command env ''nfcrestore'' (we_nfc_restore env)"

definition handle_reboot :: "web_env \<Rightarrow> http_request \<Rightarrow> web_world \<Rightarrow> u8 list \<times> web_world" where
  "handle_reboot env req w =
     (let kind = ''reboot'' in
      if rq_method req \<noteq> ascii ''POST'' then (web_answer 405 kind ''405'', w)
      else case web_await env w of
        (False, w) \<Rightarrow> (web_answer 503 kind ''0x01000005'', w)
      | (True, w) \<Rightarrow>
          if form_field ''after_config_save'' req = Some (ascii ''1'')
          then (case request_persist_config_and_reset (web_bus w) of
                  (False, s) \<Rightarrow> (web_answer 200 kind ''0x01000005'', web_on_bus (\<lambda>_. s) w)
                | (True, s) \<Rightarrow> (web_answer 200 kind ''0'', web_on_bus (\<lambda>_. s) w))
          else (web_answer 200 kind ''0'',
                web_on_bus (\<lambda>s. s\<lparr>bus_io := (bus_io s)\<lparr>io_sys := request_reset WEB (io_sys (bus_io s))\<rparr>\<rparr>) w))"

definition field_or_empty :: "string \<Rightarrow> http_request \<Rightarrow> u8 list" where
  "field_or_empty name req = case_option [] id (form_field name req)"

definition handle_update_password :: "web_env \<Rightarrow> http_request \<Rightarrow> web_world \<Rightarrow> u8 list \<times> web_world" where
  "handle_update_password env req w =
     (let kind = ''updatepwd''; old_pwd = field_or_empty ''opwd'' req; new_pwd = field_or_empty ''npwd'' req in
      if rq_method req \<noteq> ascii ''POST'' then (web_answer 405 kind ''405'', w)
      else if \<not> valid_web_password new_pwd then (web_answer 200 kind ''0x01000003'', w)
      else if old_pwd \<noteq> load_web_password (dw_nvs (snd (ww_aw w))) then (web_answer 200 kind ''0x00010001'', w)
      else let (ok, nv) = store_web_password (we_nvs env) new_pwd (dw_nvs (snd (ww_aw w)));
               w = web_dev (\<lambda>d. d\<lparr>dw_nvs := nv\<rparr>) w
        in if ok then (web_answer 200 kind ''0'', w\<lparr>ww_session := destroy_session (ww_session w)\<rparr>)
           else (web_answer 500 kind ''0x01000003'', w))"

definition login_ok :: "http_request \<Rightarrow> web_world \<Rightarrow> bool" where
  "login_ok req w \<longleftrightarrow> field_or_empty ''username'' req = ascii ''admin'' \<and>
     field_or_empty ''pwd'' req = load_web_password (dw_nvs (snd (ww_aw w)))"

definition handle_login :: "web_env \<Rightarrow> http_request \<Rightarrow> web_world \<Rightarrow> u8 list \<times> web_world" where
  "handle_login env req w =
     (if rq_method req \<noteq> ascii ''POST''
      then (send_response 200 ''text/html; charset=utf-8''
              (login_page_html (wr_login_html (we_readings env)) (dw_web (snd (ww_aw w)))), w)
      else if field_or_empty ''username'' req \<noteq> ascii ''admin'' then (web_answer 200 ''login'' ''0x01000001'', w)
      else if field_or_empty ''pwd'' req \<noteq> load_web_password (dw_nvs (snd (ww_aw w)))
      then (web_answer 200 ''login'' ''0x01000002'', w)
      else let (cookie, se) = create_session_cookie (ww_now w) (we_random env) (ww_session w)
        in (send_json_with_cookie 200 (json_response ''login'' ''0'') cookie, w\<lparr>ww_session := se\<rparr>))"

section \<open>Dispatch\<close>

definition protected_page :: "web_env \<Rightarrow> http_request \<Rightarrow> web_world \<Rightarrow> u8 list \<times> web_world" where
  "protected_page env req w =
     (let r = we_readings env; is_path = (\<lambda>p. rq_path req = ascii p) in
      if is_path ''/getsysteminfo'' then (handle_get_system_info w, w)
      else if is_path ''/updatesysteminfoconfig'' then handle_update_system_info env req w
      else if is_path ''/getportconfig'' then (handle_get_port_config w, w)
      else if is_path ''/updateportconfig'' then handle_update_port_config env req w
      else if is_path ''/getiodata'' then (handle_get_io_data r w, w)
      else if is_path ''/iocontrol'' then handle_io_control req w
      else if is_path ''/getnetworkconfig'' then (handle_get_network_config w, w)
      else if is_path ''/updatenetworkconfig'' then handle_update_network_config env req w
      else if is_path ''/getbleconfig'' then (handle_get_ble_config w, w)
      else if is_path ''/updatebleconfig'' then handle_update_ble_config env req w
      else if is_path ''/getsensorconfig'' then (handle_get_sensor_config w, w)
      else if is_path ''/updatesensorconfig'' then handle_update_sensor_config env req w
      else if is_path ''/getsystemstatus'' then (handle_get_system_status r w, w)
      else if is_path ''/getnfcstatus'' then (handle_get_nfc_status r req, w)
      else if is_path ''/nfcbackup'' then handle_nfc_backup env req w
      else if is_path ''/nfcrestore'' then handle_nfc_restore env req w
      else if is_path ''/reboot'' then handle_reboot env req w
      else if is_path ''/updatepwd'' then handle_update_password env req w
      else (send_json 404 (json_response ''error'' ''404''), w))"

definition web_authenticated :: "http_request \<Rightarrow> web_world \<Rightarrow> bool \<times> web_world" where
  "web_authenticated req w =
     (let (ok, se) = is_authenticated (ww_now w) req (ww_session w) in (ok, w\<lparr>ww_session := se\<rparr>))"

definition dispatch_request :: "web_env \<Rightarrow> http_request \<Rightarrow> web_world \<Rightarrow> u8 list \<times> web_world" where
  "dispatch_request env req w =
     (if rq_path req = ascii ''/login'' then handle_login env req w
      else if rq_path req = ascii ''/logout'' then (logout_response, w\<lparr>ww_session := destroy_session (ww_session w)\<rparr>)
      else if rq_path req = ascii ''/favicon.ico'' then (send_response 204 ''text/plain'' [], w)
      else let (ok, w) = web_authenticated req w in
        if rq_path req = ascii ''/''
        then if ok then (send_response 200 ''text/html; charset=utf-8'' (wr_index_html (we_readings env)), w)
             else (send_redirect ''/login'', w)
        else if \<not> ok then (send_redirect ''/login'', w)
        else protected_page env req w)"

end
