(* ===== verification/Web_Access.thy ===== *)
theory Web_Access imports Web_Forms begin

text \<open>
  Who may do what: what each page keeps of the session, which requests open or end it, and that no page but the
  login itself changes anything without the cookie of the open session.
\<close>

section \<open>What the handlers keep\<close>

lemma web_dev_fields [simp]:
  "ww_session (web_dev f w) = ww_session w" "ww_now (web_dev f w) = ww_now w" "ww_await (web_dev f w) = ww_await w"
  by (simp_all add: web_dev_def)

lemma web_on_bus_fields [simp]:
  "ww_session (web_on_bus f w) = ww_session w" "ww_now (web_on_bus f w) = ww_now w" "ww_await (web_on_bus f w) = ww_await w"
  by (simp_all add: web_on_bus_def)

lemma web_config_modify_fields [simp]:
  "ww_session (web_config_modify f w) = ww_session w" "ww_now (web_config_modify f w) = ww_now w"
  "ww_await (web_config_modify f w) = ww_await w"
  by (simp_all add: web_config_modify_def)

lemma web_await_session: "web_await env w = (ok, w') \<Longrightarrow> ww_session w' = ww_session w \<and> ww_now w' = ww_now w"
  by (auto simp: web_await_def split: prod.splits)

lemma web_saved_session: "ww_session (snd (web_saved env kind w)) = ww_session w \<and> ww_now (snd (web_saved env kind w)) = ww_now w"
proof -
  obtain ok w1 where a: "web_await env w = (ok, w1)" by (rule prod.exhaust)
  show ?thesis using web_await_session [OF a] by (cases ok) (simp_all add: web_saved_def a)
qed

named_theorems keeps_session

lemma system_info_session [keeps_session]:
  "ww_session (snd (handle_update_system_info env req w)) = ww_session w \<and> ww_now (snd (handle_update_system_info env req w)) = ww_now w"
  by (auto simp: handle_update_system_info_def Let_def web_saved_session split: prod.split bool.split option.split)

lemma network_session [keeps_session]:
  "ww_session (snd (handle_update_network_config env req w)) = ww_session w \<and>
   ww_now (snd (handle_update_network_config env req w)) = ww_now w"
  by (auto simp: handle_update_network_config_def Let_def web_saved_session split: prod.split form_result.split)

lemma port_session [keeps_session]:
  "ww_session (snd (handle_update_port_config env req w)) = ww_session w \<and>
   ww_now (snd (handle_update_port_config env req w)) = ww_now w"
  by (auto simp: handle_update_port_config_def Let_def web_saved_session split: option.split)

lemma io_session [keeps_session]:
  "ww_session (snd (handle_io_control req w)) = ww_session w \<and> ww_now (snd (handle_io_control req w)) = ww_now w"
  by (auto simp: handle_io_control_def Let_def split: prod.split option.split)

lemma ble_session [keeps_session]:
  "ww_session (snd (handle_update_ble_config env req w)) = ww_session w \<and>
   ww_now (snd (handle_update_ble_config env req w)) = ww_now w"
  by (auto simp: handle_update_ble_config_def Let_def web_saved_session split: option.split)

lemma sensor_session [keeps_session]:
  "ww_session (snd (handle_update_sensor_config env req w)) = ww_session w \<and>
   ww_now (snd (handle_update_sensor_config env req w)) = ww_now w"
  by (auto simp: handle_update_sensor_config_def Let_def web_saved_session split: prod.split option.split)

lemma nfc_session [keeps_session]:
  "ww_session (snd (handle_nfc_command env kind c req w)) = ww_session w \<and> ww_now (snd (handle_nfc_command env kind c req w)) = ww_now w"
  by (auto simp: handle_nfc_command_def split: prod.split bool.split)

lemma reboot_session [keeps_session]:
  "ww_session (snd (handle_reboot env req w)) = ww_session w \<and> ww_now (snd (handle_reboot env req w)) = ww_now w"
proof -
  obtain ok w1 where a: "web_await env w = (ok, w1)" by (rule prod.exhaust)
  show ?thesis using web_await_session [OF a] by (cases ok) (simp_all add: handle_reboot_def Let_def a split: prod.split bool.split)
qed

text \<open>The one page that ends the session is the change of the password.\<close>

definition password_changes :: "web_env \<Rightarrow> http_request \<Rightarrow> web_world \<Rightarrow> bool" where
  "password_changes env req w \<longleftrightarrow> rq_method req = ascii ''POST'' \<and> valid_web_password (field_or_empty ''npwd'' req) \<and>
     field_or_empty ''opwd'' req = load_web_password (dw_nvs (snd (ww_aw w))) \<and>
     fst (store_web_password (we_nvs env) (field_or_empty ''npwd'' req) (dw_nvs (snd (ww_aw w))))"

lemma password_session:
  "ww_session (snd (handle_update_password env req w)) =
    (if password_changes env req w then destroy_session (ww_session w) else ww_session w)"
  by (auto simp: handle_update_password_def password_changes_def Let_def split: prod.split)

lemma password_path: "ascii ''/updatepwd'' \<notin> {ascii ''/getsysteminfo'', ascii ''/updatesysteminfoconfig'', ascii ''/getportconfig'',
   ascii ''/updateportconfig'', ascii ''/getiodata'', ascii ''/iocontrol'', ascii ''/getnetworkconfig'',
   ascii ''/updatenetworkconfig'', ascii ''/getbleconfig'', ascii ''/updatebleconfig'', ascii ''/getsensorconfig'',
   ascii ''/updatesensorconfig'', ascii ''/getsystemstatus'', ascii ''/getnfcstatus'', ascii ''/nfcbackup'', ascii ''/nfcrestore'',
   ascii ''/reboot''}"
  by (simp add: ascii_def)

lemma protected_page_session:
  "ww_session (snd (protected_page env req w)) =
    (if rq_path req = ascii ''/updatepwd'' \<and> password_changes env req w then destroy_session (ww_session w) else ww_session w)"
proof (cases "rq_path req = ascii ''/updatepwd''")
  case True
  then show ?thesis using password_path by (simp add: protected_page_def Let_def password_session)
next
  case False
  then show ?thesis
    by (simp add: protected_page_def Let_def keeps_session handle_nfc_backup_def handle_nfc_restore_def)
qed

section \<open>One request\<close>

text \<open>The value of the first session cookie of a request.\<close>

fun session_cookie :: "u8 list list \<Rightarrow> u8 list option" where
  "session_cookie [] = None"
| "session_cookie (pair # pairs) =
     (case split_once 0x3D (str_trim pair) of
        Some (k, v) \<Rightarrow> if str_trim k = ascii ''ESPSESSIONID'' then Some (str_trim v) else session_cookie pairs
      | None \<Rightarrow> session_cookie pairs)"

definition cookie_token :: "http_request \<Rightarrow> u8 list option" where
  "cookie_token req = session_cookie (split_on 0x3B (rq_cookie req))"

lemma auth_pairs_cookie:
  "auth_pairs now pairs s = (case session_cookie pairs of None \<Rightarrow> (False, s) | Some t \<Rightarrow> validate_session_cookie now t s)"
  by (induction pairs) (auto split: option.split)

lemma authenticated_cookie:
  assumes "web_authenticated req w = (True, w')" and "length (se_token (ww_session w)) = 16"
  shows "w' = w \<and> se_active (ww_session w) \<and> cookie_token req = Some (hex_encode_16 (se_token (ww_session w))) \<and>
    (\<exists>c. se_created (ww_session w) = Some c \<and> ww_now w - c < 86400000)"
proof -
  obtain se where a: "is_authenticated (ww_now w) req (ww_session w) = (True, se)" and w': "w' = w\<lparr>ww_session := se\<rparr>"
    using assms(1) by (auto simp: web_authenticated_def split: prod.splits)
  from a have p: "auth_pairs (ww_now w) (split_on 0x3B (rq_cookie req)) (ww_session w) = (True, se)"
    by (auto simp: is_authenticated_def rq_header_def split: option.splits if_splits)
  then obtain t where t: "cookie_token req = Some t" and v: "validate_session_cookie (ww_now w) t (ww_session w) = (True, se)"
    by (auto simp: auth_pairs_cookie cookie_token_def split: option.splits)
  show ?thesis using validate_session_cookie_True [OF v assms(2)] t w' by simp
qed

lemma authenticated_session:
  assumes "web_authenticated req w = (ok, w')"
  shows "(ww_session w' = ww_session w \<or> \<not> se_active (ww_session w')) \<and> ww_aw w' = ww_aw w \<and> ww_now w' = ww_now w \<and>
    (ok \<longrightarrow> ww_session w' = ww_session w)"
proof -
  obtain se where a: "is_authenticated (ww_now w) req (ww_session w) = (ok, se)" and w': "w' = w\<lparr>ww_session := se\<rparr>"
    using assms by (auto simp: web_authenticated_def split: prod.splits)
  have "se = ww_session w \<or> (\<not> ok \<and> se = destroy_session (ww_session w))"
    using a by (auto simp: is_authenticated_def auth_pairs_cookie validate_session_cookie_def split: option.splits if_splits)
  then show ?thesis using w' by (auto simp: destroy_session_def)
qed

definition login_request :: "http_request \<Rightarrow> web_world \<Rightarrow> bool" where
  "login_request req w \<longleftrightarrow> rq_path req = ascii ''/login'' \<and> rq_method req = ascii ''POST'' \<and> login_ok req w"

definition ends_session :: "web_env \<Rightarrow> http_request \<Rightarrow> web_world \<Rightarrow> bool" where
  "ends_session env req w \<longleftrightarrow> rq_path req = ascii ''/logout'' \<or>
     rq_path req = ascii ''/updatepwd'' \<and> fst (web_authenticated req w) \<and> password_changes env req w"

lemma web_paths:
  "ascii ''/login'' \<noteq> ascii ''/logout''" "ascii ''/login'' \<noteq> ascii ''/updatepwd''" "ascii ''/logout'' \<noteq> ascii ''/updatepwd''"
  "ascii ''/updatepwd'' \<noteq> ascii ''/favicon.ico''" "ascii ''/updatepwd'' \<noteq> ascii ''/''"
  by (simp_all add: ascii_def)

lemma handle_login_session:
  "ww_session (snd (handle_login env req w)) =
    (if rq_method req = ascii ''POST'' \<and> login_ok req w
     then snd (create_session_cookie (ww_now w) (we_random env) (ww_session w)) else ww_session w)"
  by (auto simp: handle_login_def login_ok_def Let_def split: prod.split)

text \<open>An open session after a request is the one of the request's login, or the one before it.\<close>

lemma dispatch_session:
  assumes "dispatch_request env req w = (resp, w')" and "se_active (ww_session w')"
  shows "(login_request req w \<and> ww_session w' = snd (create_session_cookie (ww_now w) (we_random env) (ww_session w))) \<or>
    (\<not> login_request req w \<and> \<not> ends_session env req w \<and> ww_session w' = ww_session w)"
proof (cases "rq_path req = ascii ''/login''")
  case True
  have "w' = snd (handle_login env req w)" using assms(1) True by (simp add: dispatch_request_def)
  moreover have "\<not> ends_session env req w" using True web_paths by (simp add: ends_session_def)
  ultimately show ?thesis using True by (auto simp: handle_login_session login_request_def)
next
  case False
  then have nl: "\<not> login_request req w" by (simp add: login_request_def)
  show ?thesis
  proof (cases "rq_path req = ascii ''/logout''")
    case True
    then show ?thesis using assms False by (auto simp: dispatch_request_def destroy_session_def)
  next
    case nlo: False
    obtain ok w1 where a: "web_authenticated req w = (ok, w1)" by (rule prod.exhaust)
    note au = authenticated_session [OF a]
    have ne: "\<not> ends_session env req w" if "\<not> (rq_path req = ascii ''/updatepwd'' \<and> ok \<and> password_changes env req w)"
      using that nlo a by (auto simp: ends_session_def)
    consider "rq_path req = ascii ''/favicon.ico''" "w' = w" | "rq_path req \<noteq> ascii ''/favicon.ico''" "w' = w1"
        "rq_path req = ascii ''/'' \<or> \<not> ok"
      | "ok" "w' = snd (protected_page env req w1)"
      using assms(1) False nlo a by (auto simp: dispatch_request_def split: if_splits)
    then show ?thesis
    proof cases
      case 1
      then show ?thesis using nl ne web_paths by auto
    next
      case 2
      then show ?thesis using nl ne web_paths au assms(2) by auto
    next
      case 3
      have w1: "w1 = w" using au 3(1) a by (auto simp: web_authenticated_def split: prod.splits)
      have "\<not> (rq_path req = ascii ''/updatepwd'' \<and> password_changes env req w)"
        using assms(2) 3 w1 by (auto simp: protected_page_session destroy_session_def)
      then show ?thesis using nl ne 3 w1 by (auto simp: protected_page_session)
    qed
  qed
qed

lemma dispatch_needs_auth:
  assumes "dispatch_request env req w = (resp, w')" and "ww_aw w' \<noteq> ww_aw w"
  shows "fst (web_authenticated req w)"
proof -
  obtain ok w1 where a: "web_authenticated req w = (ok, w1)" by (rule prod.exhaust)
  have "ww_aw (snd (handle_login env req w)) = ww_aw w" by (auto simp: handle_login_def split: prod.split)
  then show ?thesis using assms a authenticated_session [OF a] by (auto simp: dispatch_request_def split: if_splits)
qed

lemma dispatch_needs_cookie:
  assumes "dispatch_request env req w = (resp, w')" and "ww_aw w' \<noteq> ww_aw w" and "length (se_token (ww_session w)) = 16"
  shows "se_active (ww_session w) \<and> cookie_token req = Some (hex_encode_16 (se_token (ww_session w))) \<and>
    (\<exists>c. se_created (ww_session w) = Some c \<and> ww_now w - c < 86400000)"
proof -
  obtain ok w1 where a: "web_authenticated req w = (ok, w1)" by (rule prod.exhaust)
  then show ?thesis using dispatch_needs_auth [OF assms(1,2)] authenticated_cookie [of req w w1] assms(3) by simp
qed

section \<open>Two example requests\<close>

definition no_readings :: web_readings where
  "no_readings = \<lparr>wr_eth_link = False, wr_ble_client = False, wr_ble_notify = False, wr_udp_receiving = False, wr_udp_len = 0,
     wr_free_heap = 0, wr_uptime_ms = 0, wr_nfc_started = False, wr_nfc_state = ''Idle'', wr_fiber = (False, False),
     wr_io_health = [], wr_telemetry = [], wr_calib_status = 0, wr_config_wait_us = 0, wr_storage_wait_us = 0,
     wr_login_html = [], wr_index_html = []\<rparr>"

definition quiet_web :: web_env where
  "quiet_web = \<lparr>we_readings = no_readings, we_step = quiet_step, we_slack = (\<lambda>_. 0), we_random = [1, 2, 3, 4],
     we_nvs = (\<lambda>_. NvDone), we_nfc_backup = (\<lambda>d. (True, d)), we_nfc_restore = (\<lambda>d. (True, d))\<rparr>"

definition fresh_web :: web_world where
  "fresh_web = \<lparr>ww_aw = (device_actor_new 0, fresh_world), ww_await = \<lparr>aw_busy = False, aw_next = 0\<rparr>,
     ww_session = session_empty, ww_now = 0\<rparr>"

definition post_request :: "string \<Rightarrow> string \<Rightarrow> string \<Rightarrow> http_request" where
  "post_request path cookie body =
     \<lparr>rq_method = ascii ''POST'', rq_path = ascii path, rq_cookie = ascii cookie, rq_body = ascii body\<rparr>"

definition demo_login :: http_request where
  "demo_login = post_request ''/login'' '''' ''username=admin&pwd=admin123456''"

definition demo_output :: http_request where
  "demo_output = post_request ''/iocontrol'' ''a=b; ESPSESSIONID=01000000020000000300000004000000'' ''addr=3&value=1''"

definition demo_session :: session where
  "demo_session = \<lparr>se_token = [1, 0, 0, 0, 2, 0, 0, 0, 3, 0, 0, 0, 4, 0, 0, 0], se_active = True, se_created = Some 5\<rparr>"

lemma demo_token: "generate_session_token [1, 2, 3, 4] = se_token demo_session"
  by code_simp

lemma demo_login_run:
  "dispatch_request quiet_web demo_login (fresh_web\<lparr>ww_now := 5\<rparr>) =
     (fst (dispatch_request quiet_web demo_login (fresh_web\<lparr>ww_now := 5\<rparr>)), fresh_web\<lparr>ww_now := 5, ww_session := demo_session\<rparr>)"
proof -
  have f: "field_or_empty ''username'' demo_login = ascii ''admin''"
    "field_or_empty ''pwd'' demo_login = ascii ''admin123456''" by code_simp+
  have r: "rq_path demo_login = ascii ''/login''" "rq_method demo_login = ascii ''POST''"
    by (simp_all add: demo_login_def post_request_def)
  have pw: "load_web_password (dw_nvs (snd (ww_aw (fresh_web\<lparr>ww_now := 5\<rparr>)))) = ascii ''admin123456''"
    by (simp add: fresh_web_def fresh_world_def load_web_password_def nvs_u8_def)
  have e: "we_random quiet_web = [1, 2, 3, 4]" by (simp add: quiet_web_def)
  have "snd (handle_login quiet_web demo_login (fresh_web\<lparr>ww_now := 5\<rparr>)) =
      fresh_web\<lparr>ww_now := 5, ww_session := snd (create_session_cookie 5 [1, 2, 3, 4] session_empty)\<rparr>"
    unfolding handle_login_def r f pw e by (simp add: Let_def fresh_web_def split: prod.split)
  then have "snd (dispatch_request quiet_web demo_login (fresh_web\<lparr>ww_now := 5\<rparr>)) = fresh_web\<lparr>ww_now := 5, ww_session := demo_session\<rparr>"
    by (simp add: dispatch_request_def r create_session_cookie_def demo_token session_empty_def Let_def) (simp add: demo_session_def)
  then show ?thesis by (metis prod.collapse)
qed

lemma demo_output_run:
  "ww_aw (snd (dispatch_request quiet_web demo_output (fresh_web\<lparr>ww_session := demo_session, ww_now := 10\<rparr>))) \<noteq> ww_aw fresh_web"
proof -
  let ?se = "\<lparr>se_token = [1, 0, 0, 0, 2, 0, 0, 0, 3, 0, 0, 0, 4, 0, 0, 0], se_active = True, se_created = Some 5\<rparr> :: session"
  let ?w = "fresh_web\<lparr>ww_session := ?se, ww_now := 10\<rparr>"
  let ?t = "ascii ''01000000020000000300000004000000''"
  have c: "session_cookie (split_on 0x3B (rq_cookie demo_output)) = Some ?t"
    and h: "hex_encode_16 (se_token ?se) = ?t" and ne: "rq_cookie demo_output \<noteq> []" by code_simp+
  have "length ?t = 32" by (simp add: ascii_def)
  moreover have "\<not> session_expired 10 ?se" by (simp add: session_expired_def)
  moreover have "token_diff ?t ?t = 0" using token_diff_eq [of ?t ?t] by (simp add: ascii_def)
  ultimately have "validate_session_cookie 10 ?t ?se = (True, ?se)" unfolding validate_session_cookie_def h by simp
  then have a: "is_authenticated 10 demo_output ?se = (True, ?se)"
    using ne by (simp add: is_authenticated_def rq_header_def eq_ignore_ascii_case_def auth_pairs_cookie c)
  then have auth: "web_authenticated demo_output ?w = (True, ?w)" by (simp add: web_authenticated_def)
  have r: "rq_path demo_output = ascii ''/iocontrol''" "rq_method demo_output = ascii ''POST''"
    by (simp_all add: demo_output_def post_request_def)
  have "form_field ''addr'' demo_output = Some (ascii ''3'')"
    "form_field ''value'' demo_output = Some (ascii ''1'')" by code_simp+
  then have f: "parse_io_control_fields (form_field ''addr'' demo_output) (form_field ''value'' demo_output) =
      Some (3, True)" by (simp add: parse_io_control_fields_def parse_uint_def ascii_def dec_digit_def)
  have p: "ascii ''/iocontrol'' \<noteq> ascii ''/login''" "ascii ''/iocontrol'' \<noteq> ascii ''/logout''" "ascii ''/iocontrol'' \<noteq> ascii ''/''"
    "ascii ''/iocontrol'' \<noteq> ascii ''/favicon.ico''" "ascii ''/iocontrol'' \<noteq> ascii ''/getsysteminfo''"
    "ascii ''/iocontrol'' \<noteq> ascii ''/updatesysteminfoconfig''" "ascii ''/iocontrol'' \<noteq> ascii ''/getportconfig''"
    "ascii ''/iocontrol'' \<noteq> ascii ''/updateportconfig''" "ascii ''/iocontrol'' \<noteq> ascii ''/getiodata''" by (simp_all add: ascii_def)
  have d: "snd (dispatch_request quiet_web demo_output ?w) = snd (handle_io_control demo_output ?w)"
    by (simp add: dispatch_request_def auth r protected_page_def Let_def p)
  have "bus_do_notified (web_bus (snd (handle_io_control demo_output ?w)))"
    by (simp add: handle_io_control_def r f write_coil_def range_defs Let_def web_bus_def web_on_bus_def web_dev_def on_bus_def
      notify_do_def)
  moreover have "\<not> bus_do_notified (web_bus ?w)"
    by (simp add: web_bus_def fresh_web_def fresh_world_def bus_start_def)
  ultimately show ?thesis unfolding demo_session_def d by (auto simp: web_bus_def)
qed

end
