(* ===== verification/Web_Lockout.thy ===== *)
theory Web_Lockout imports Web_Access begin

text \<open>
  What a configuration that cannot be saved does to the web server: the network page accepts a gateway (or name
  server) of 0.0.0.0, which every later save refuses, so no page reports success again and the device cannot be
  restarted from the web.
\<close>

section \<open>What the actor keeps of such a configuration\<close>

definition same_config :: "device_world \<Rightarrow> device_world \<Rightarrow> bool" where
  "same_config w w' \<longleftrightarrow> bus_config (dw_bus w') = bus_config (dw_bus w) \<and>
     bus_config_dirty (dw_bus w') = bus_config_dirty (dw_bus w) \<and> bus_io (dw_bus w') = bus_io (dw_bus w) \<and>
     dw_wait_ok w' = dw_wait_ok w \<and> dw_wait_completed w' = dw_wait_completed w"

lemma same_config_refl [simp]: "same_config w w"
  by (simp add: same_config_def)

lemma same_config_trans: "same_config a b \<Longrightarrow> same_config b c \<Longrightarrow> same_config a c"
  by (simp add: same_config_def)

lemma same_config_simps [simp]:
  "same_config w (w'\<lparr>dw_nvs := nv\<rparr>) = same_config w w'" "same_config w (w'\<lparr>dw_store := hs\<rparr>) = same_config w w'"
  "same_config w (w'\<lparr>dw_web := c\<rparr>) = same_config w w'" "same_config w (w'\<lparr>dw_do := d\<rparr>) = same_config w w'"
  "same_config w (on_bus (\<lambda>s. s\<lparr>bus_mailbox := q\<rparr>) w') = same_config w w'"
  "same_config w (on_bus (\<lambda>s. s\<lparr>bus_text_dirty := b\<rparr>) w') = same_config w w'"
  by (simp_all add: same_config_def on_bus_def)

lemma holding_same_config: "same_config w (snd (save_holding_area env w))"
  by (simp add: save_holding_area_def Let_def same_config_def split_beta)

lemma web_same_config: "same_config w (snd (persist_web_info env w))"
  by (simp add: persist_web_info_def split_beta)

lemma text_between_same [simp]: "same_config w (on_bus (text_between t) w') = same_config w w'"
  by (simp add: same_config_def on_bus_def text_between_def publish_storage_def split: option.split)

lemma save_text_same_config: "same_config w (snd (save_current_device_text env w))"
  by (simp add: save_current_device_text_def Let_def split_beta split: option.split)

lemma text_same_config: "same_config w (snd (persist_pending_device_text force env w))"
proof -
  let ?v = "on_bus (\<lambda>s. s\<lparr>bus_text_dirty := False\<rparr>) w"
  have v: "same_config w ?v" by simp
  obtain ok w1 where s: "save_current_device_text env ?v = (ok, w1)" by (rule prod.exhaust)
  have "same_config ?v w1" using save_text_same_config [of ?v env] s by simp
  then have "same_config w w1" using v same_config_trans by blast
  then show ?thesis using v by (cases ok) (simp_all add: persist_pending_device_text_def Let_def s)
qed

lemma on_nvs_same_config: "same_config w (on_nvs f w)"
  by (simp add: on_nvs_def split: option.split)

lemma proto_same_config:
  "proto_commit oc bw (nv, s) = (ok, nv', s') \<Longrightarrow> bus_config s' = bus_config s \<and> bus_config_dirty s' = bus_config_dirty s \<and> bus_io s' = bus_io s"
  "proto_reload nv s = (ok, s') \<Longrightarrow> bus_config s' = bus_config s \<and> bus_config_dirty s' = bus_config_dirty s \<and> bus_io s' = bus_io s"
  by (auto simp: proto_commit_def proto_reload_def Let_def proto_status_set_def storage_modify_def publish_storage_def
      split: option.splits sum.splits prod.splits)

definition unsavable :: "device_world \<Rightarrow> bool" where
  "unsavable w \<longleftrightarrow> bus_config_dirty (dw_bus w) \<and> validate_for_persistence (bus_config (dw_bus w)) \<noteq> Inr ()"

lemma same_config_unsavable: "same_config w w' \<Longrightarrow> unsavable w' = unsavable w"
  by (simp add: same_config_def unsavable_def)

lemma unsavable_commit:
  assumes "unsavable w" and "de_config_between env = None"
  shows "fst (commit_config force env w) = False \<and> same_config w (snd (commit_config force env w))"
proof -
  obtain e where e: "validate_for_persistence (bus_config (dw_bus w)) = Inl e"
    using assms(1) by (cases "validate_for_persistence (bus_config (dw_bus w))") (auto simp: unsavable_def)
  have "fst (apply_config_inner env (on_bus (\<lambda>s. s\<lparr>bus_config_dirty := False\<rparr>) w)) = False \<and>
      same_config (on_bus (\<lambda>s. s\<lparr>bus_config_dirty := False\<rparr>) w)
        (snd (apply_config_inner env (on_bus (\<lambda>s. s\<lparr>bus_config_dirty := False\<rparr>) w)))"
    using assms(2) e
    by (cases "dw_nvs w") (simp_all add: apply_config_inner_def Let_def config_between_def save_config_def same_config_def on_bus_def)
  then show ?thesis using assms(1)
    by (cases "apply_config_inner env (on_bus (\<lambda>s. s\<lparr>bus_config_dirty := False\<rparr>) w)")
      (simp add: commit_config_def Let_def unsavable_def same_config_def on_bus_def)
qed

lemma unsavable_now:
  assumes "unsavable w" and "de_config_between env = None"
  shows "fst (dev_persist_config_now env w) = False \<and> same_config w (snd (dev_persist_config_now env w))"
  using unsavable_commit [OF assms, of False]
  by (cases "commit_config False env w") (simp add: dev_persist_config_now_def)

text \<open>A flush fails; what else the actor does keeps the configuration, and no restart is requested.\<close>

lemma unsavable_handle:
  assumes "unsavable w" and "de_config_between env = None"
  shows "(\<exists>t. c = CmdFlushPending t \<and> dw_wait_completed (actor_handle env c w) = t \<and> \<not> dw_wait_ok (actor_handle env c w) \<and>
      bus_config (dw_bus (actor_handle env c w)) = bus_config (dw_bus w) \<and>
      bus_config_dirty (dw_bus (actor_handle env c w)) \<and> bus_io (dw_bus (actor_handle env c w)) = bus_io (dw_bus w)) \<or>
    same_config w (actor_handle env c w)"
proof (cases c)
  case (CmdFlushPending t)
  obtain ok w1 where n: "dev_persist_config_now env w = (ok, w1)" by (rule prod.exhaust)
  then have "\<not> ok" "same_config w w1" using unsavable_now [OF assms] by simp_all
  then show ?thesis using assms(1) n CmdFlushPending
    by (simp add: actor_handle_def flush_pending_before_reset_def unsavable_def same_config_def)
next
  case CmdCommit
  obtain ok nv s where p: "proto_commit (de_nvs env) (de_proto_between env) (dw_nvs w, dw_bus w) = (ok, nv, s)" by (rule prod_cases3)
  show ?thesis using proto_same_config(1) [OF p] CmdCommit p
    by (simp add: actor_handle_def same_config_def proto_status_set_def)
next
  case CmdReload
  obtain ok s where p: "proto_reload (dw_nvs w) (dw_bus w) = (ok, s)" by (rule prod.exhaust)
  show ?thesis using proto_same_config(2) [OF p] CmdReload p
    by (simp add: actor_handle_def same_config_def proto_status_set_def)
next
  case CmdPersistConfigAndReset
  obtain ok w1 where n: "apply_config env w = (ok, w1)" by (rule prod.exhaust)
  then have "\<not> ok" "same_config w w1" using unsavable_commit [OF assms, of True] by (simp_all add: apply_config_def)
  then show ?thesis using assms(1) n CmdPersistConfigAndReset
    by (simp add: actor_handle_def on_bus_def unsavable_def same_config_def)
qed (auto simp: actor_handle_def on_nvs_same_config holding_same_config)

text \<open>The invariant of the polls for ticket \<open>t\<close>.\<close>

definition refuses :: "u32 \<Rightarrow> system_config \<Rightarrow> io_bundle \<Rightarrow> device_world \<Rightarrow> bool" where
  "refuses t c io w \<longleftrightarrow> unsavable w \<and> bus_config (dw_bus w) = c \<and> bus_io (dw_bus w) = io \<and>
     (dw_wait_completed w = t \<longrightarrow> \<not> dw_wait_ok w)"

lemma refuses_same: "same_config w w' \<Longrightarrow> refuses t c io w \<Longrightarrow> refuses t c io w'"
  by (auto simp: refuses_def same_config_unsavable) (simp_all add: same_config_def)

lemma refuses_handle:
  assumes "refuses t c io w" and "de_config_between env = None"
  shows "refuses t c io (actor_handle env msg w)"
proof -
  have u: "unsavable w" using assms(1) by (simp add: refuses_def)
  from unsavable_handle [OF u assms(2), of msg] show ?thesis
  proof
    assume "same_config w (actor_handle env msg w)"
    then show ?thesis using assms(1) refuses_same by blast
  qed (use assms(1) in \<open>auto simp: refuses_def unsavable_def\<close>)
qed

lemma idle_steps_same:
  assumes "unsavable w" and "de_config_between env = None"
    and "f \<in> {idle_outputs, idle_holding, idle_config, idle_web, idle_text}"
  shows "same_config w (snd (f env now (a, w)))"
proof -
  have "same_config w (snd (case persist_pending_device_text False env w of (True, w) \<Rightarrow> (b, w)
      | (False, w) \<Rightarrow> (b, on_bus (\<lambda>s. s\<lparr>bus_text_dirty := True\<rparr>) w)))" for b :: device_actor
    using text_same_config [of w False env] by (auto split: prod.split bool.split)
  then have t: "same_config w (snd (idle_text env now (a, w)))"
    using text_same_config [of w False env] by (auto simp: idle_text_def split: prod.split bool.split)
  show ?thesis using assms t unsavable_now [OF assms(1,2)] holding_same_config [of w env] web_same_config [of w env]
    by (auto simp: idle_outputs_def idle_holding_def idle_config_def idle_web_def split: prod.split)
qed

lemma refuses_idle:
  assumes "refuses t c io w" and "de_config_between env = None" and "actor_idle env (a, w) = (nap, a', w')"
  shows "refuses t c io w'"
proof -
  have "refuses t c io (snd (fold (\<lambda>f. f env now) fs (b, v)))"
    if "refuses t c io v" "set fs \<subseteq> {idle_outputs, idle_holding, idle_config, idle_web, idle_text}" for fs b v now
    using that
  proof (induction fs arbitrary: b v)
    case (Cons f fs)
    obtain b1 v1 where f: "f env now (b, v) = (b1, v1)" by (rule prod.exhaust)
    have "same_config v v1"
      using idle_steps_same [OF _ assms(2), of v f now b] Cons.prems f by (auto simp: refuses_def)
    then have "refuses t c io v1" using Cons.prems(1) by (rule refuses_same)
    then show ?case using Cons.IH [of v1 b1] Cons.prems(2) f by simp
  qed simp
  from this [OF assms(1), of "[idle_outputs, idle_holding, idle_config, idle_web, idle_text]"] show ?thesis
    using assms(3) by (auto simp: actor_idle_def dest!: arg_cong [where f = snd])
qed

lemma refuses_send: "refuses t c io w \<Longrightarrow> refuses t c io (fold mailbox_send cs w)"
proof (induction cs arbitrary: w)
  case (Cons x cs)
  have "same_config w (mailbox_send x w)" by (simp add: mailbox_send_def same_config_def)
  then show ?case using Cons refuses_same by simp
qed simp

lemma refuses_batch:
  assumes "\<And>i. de_config_between (envs i) = None" and "refuses t c io w" and "actor_batch i n busy envs w = (cs, w')"
  shows "refuses t c io w'"
  using assms(2,3)
proof (induction n arbitrary: i w cs)
  case (Suc n)
  show ?case
  proof (cases "mpsc_dequeue (busy i) (bus_mailbox (dw_bus w))")
    case (Pair r q)
    show ?thesis
    proof (cases r)
      case None
      then show ?thesis using Suc.prems Pair by simp
    next
      case (Some m)
      have "refuses t c io (on_bus (\<lambda>s. s\<lparr>bus_mailbox := q\<rparr>) w)" using Suc.prems(1) by (rule refuses_same [rotated]) simp
      then have "refuses t c io (fold mailbox_send (de_arrivals (envs i)) (actor_handle (envs i) m (on_bus (\<lambda>s. s\<lparr>bus_mailbox := q\<rparr>) w)))"
        using assms(1) by (intro refuses_send refuses_handle)
      then show ?thesis using Suc.IH Suc.prems(2) Pair Some by (auto simp: Let_def split: prod.splits)
    qed
  qed
qed simp

lemma refuses_rounds:
  assumes "\<And>n i. de_config_between (envs n i) = None" and "refuses t c io (snd aw)"
  shows "refuses t c io (snd (snd (actor_rounds k busy envs aw)))"
  using assms(2)
proof (induction k arbitrary: aw)
  case (Suc k)
  obtain a w where aw: "aw = (a, w)" by (rule prod.exhaust)
  obtain ds w1 where b: "actor_batch 0 8 (busy k) (envs k) w = (ds, w1)" by (rule prod.exhaust)
  obtain nap b2 w2 where i: "actor_idle (envs k 8) (a, w1) = (nap, b2, w2)" by (rule prod_cases3)
  have "refuses t c io w1" using refuses_batch [OF assms(1) _ b] Suc.prems aw by simp
  then have "refuses t c io (fold mailbox_send (de_arrivals (envs k 8)) w2)" using refuses_idle [OF _ assms(1) i] refuses_send by blast
  then show ?case using Suc.IH [of "(b2, fold mailbox_send (de_arrivals (envs k 8)) w2)"] b i
    by (simp add: aw actor_round_def Let_def split_beta)
qed simp

section \<open>The web pages\<close>

text \<open>Nobody else publishes a configuration while the actor works for this server.\<close>

definition lone_actor :: "web_env \<Rightarrow> bool" where
  "lone_actor env \<longleftrightarrow> (\<exists>rounds busy envs. we_step env = actor_between rounds busy envs \<and>
     (\<forall>i n j. de_config_between (envs i n j) = None))"

lemma refuses_await:
  assumes "lone_actor env" and "web_await env w = (ok, w')"
    and "\<And>t. t \<in> T \<Longrightarrow> refuses t c io (snd (ww_aw w))" and "aw_next (ww_await w) + 1 \<in> T"
  shows "\<not> ok \<and> (\<forall>t\<in>T. refuses t c io (snd (ww_aw w'))) \<and>
    (aw_busy (ww_await w') = aw_busy (ww_await w)) \<and>
    (\<not> aw_busy (ww_await w) \<longrightarrow> aw_next (ww_await w') = aw_next (ww_await w) + 1)"
proof -
  obtain rounds busy envs where step: "we_step env = actor_between rounds busy envs"
    and lone: "\<And>i n j. de_config_between (envs i n j) = None" using assms(1) by (auto simp: lone_actor_def)
  let ?P = "\<lambda>aw. \<forall>t\<in>T. refuses t c io (snd aw)" and ?st = "ww_await w" and ?t = "aw_next (ww_await w) + 1"
  obtain a d where aw: "ww_aw w = (a, d)" by (rule prod.exhaust)
  obtain r polls st aw' where p: "await_pending_persistence (we_step env) (we_slack env) (ww_now w) ?st (a, d) = (r, polls, st, aw')"
    by (rule prod_cases4)
  have w': "ok = (r = Inr ())" "w' = w\<lparr>ww_await := st, ww_aw := aw'\<rparr>" using assms(2) p by (auto simp: web_await_def aw)
  have P: "?P (a, d)" using assms(3) aw by simp
  obtain sent q where q: "mpsc_try_enqueue MAILBOX False (CmdFlushPending ?t) (bus_mailbox (dw_bus d)) = (sent, q)"
    by (rule prod.exhaust)
  show ?thesis
  proof (cases "aw_busy ?st \<or> \<not> env_actor_started (bus_env (dw_bus d)) \<or> \<not> sent")
    case True
    then show ?thesis using p P q w' by (auto simp: await_pending_persistence_def Let_def split: if_splits)
  next
    case False
    obtain k where l: "await_loop (we_step env) (we_slack env) ?t (ww_now w + 8000) (ww_now w) 0
        (a, on_bus (\<lambda>s. s\<lparr>bus_mailbox := q\<rparr>) d) = (r, k, aw')" and st: "st = ?st\<lparr>aw_next := ?t\<rparr>"
      using p False q by (auto simp: await_pending_persistence_def Let_def split: prod.splits)
    have P1: "?P (a, on_bus (\<lambda>s. s\<lparr>bus_mailbox := q\<rparr>) d)"
      using P by (auto intro: refuses_same [rotated])
    have "?P (we_step env i aw)" if "?P aw" for i aw
      using that refuses_rounds [OF lone] by (auto simp: step actor_between_def)
    from await_loop_invariant [where P = ?P, OF P1 this l] have "?P aw'" and
      ok: "r = Inr () \<Longrightarrow> dw_wait_completed (snd aw') = ?t \<and> dw_wait_ok (snd aw')" by simp_all
    then have "r \<noteq> Inr ()" using assms(4) by (auto simp: refuses_def)
    with \<open>?P aw'\<close> show ?thesis by (simp add: w' st)
  qed
qed

definition network_accepted :: "http_request \<Rightarrow> (u8 list \<times> u8 list \<times> u8 list \<times> u8 list option) \<Rightarrow> bool" where
  "network_accepted req n \<longleftrightarrow> rq_method req = ascii ''POST'' \<and> network_of_form req = (FormOk, Some n) \<and>
     \<not> too_long 16 (form_field ''addressinfo'' req) \<and> \<not> too_long 32 (form_field ''sn'' req) \<and>
     \<not> too_long 8 (form_field ''bloothaddress'' req)"

lemma update_config_fields:
  "sc_gateway (network_update (Some (ip, m, gw, dns)) req c) = gw" "\<not> sc_dhcp (network_update (Some (ip, m, gw, dns)) req c)"
  "dns = Some d \<Longrightarrow> sc_dns (network_update (Some (ip, m, gw, dns)) req c) = d"
  by (simp_all add: network_update_def set_network_def set_name_def Let_def split: option.split)

lemma unsavable_network:
  assumes "\<not> sc_dhcp c" and "sc_gateway c = [0, 0, 0, 0] \<or> sc_dns c = [0, 0, 0, 0]"
  shows "validate_for_persistence c \<noteq> Inr ()"
  using assms by (auto simp: validate_for_persistence_def)

text \<open>C13: An address of 0.0.0.0 locks the web server out.  The network page accepts 0.0.0.0 as gateway or name
  server and makes it the running configuration, although no save accepts it.  The page then reports an error,
  and the restart page, asked next, refuses as well without requesting a restart, whatever the storage actor does
  in the meantime.\<close>

theorem zero_gateway_locks_out:
  assumes "network_accepted req (ip, m, gw, dns)" and "gw = [0, 0, 0, 0] \<or> dns = Some [0, 0, 0, 0]"
    and "lone_actor env" and "lone_actor env2"
    and "dw_wait_completed (snd (ww_aw w)) \<notin> {aw_next (ww_await w) + 1, aw_next (ww_await w) + 2}"
    and "handle_update_network_config env req w = (resp, w1)"
    and "rq_method req2 = ascii ''POST''" and "handle_reboot env2 req2 w1 = (resp2, w2)"
  shows "resp = web_answer 503 ''updatenetworkconfig'' ''0x01000005'' \<and> resp2 = web_answer 503 ''reboot'' ''0x01000005'' \<and>
    sys_reset_request (io_sys (bus_io (web_bus w2))) = sys_reset_request (io_sys (bus_io (web_bus w))) \<and>
    bus_config (web_bus w2) = network_update (Some (ip, m, gw, dns)) req (bus_config (web_bus w))"
proof -
  let ?c = "network_update (Some (ip, m, gw, dns)) req (bus_config (web_bus w))" and ?io = "bus_io (web_bus w)"
  let ?v = "web_on_bus request_persist_config (web_config_modify (network_update (Some (ip, m, gw, dns)) req) w)"
  let ?u = "if form_field ''bloothaddress'' req \<noteq> None
    then web_on_bus notify_ble_name_changed (web_on_bus sync_ble_name_holding ?v) else ?v"
  let ?T = "{aw_next (ww_await w) + 1, aw_next (ww_await w) + 2}"
  have h: "handle_update_network_config env req w = web_saved env ''updatenetworkconfig'' ?u"
    using assms(1) by (simp add: handle_update_network_config_def network_accepted_def Let_def)
  have bad: "validate_for_persistence ?c \<noteq> Inr ()"
    using assms(2) update_config_fields by (intro unsavable_network) auto
  have v: "bus_config (web_bus ?v) = ?c" "bus_config_dirty (web_bus ?v)" "bus_io (web_bus ?v) = ?io"
    by (simp_all add: web_bus_def web_on_bus_def web_dev_def web_config_modify_def config_modify_def publish_config_def
      request_persist_config_def on_bus_def)
  have u: "bus_config (web_bus ?u) = ?c" "bus_config_dirty (web_bus ?u)" "bus_io (web_bus ?u) = ?io"
    using v by (auto simp: web_bus_def web_on_bus_def web_dev_def on_bus_def notify_ble_name_changed_def
      sync_ble_name_holding_def mark_holding_dirty_def mark_storage_mutated_def publish_storage_def)
  have d: "dw_wait_completed (snd (ww_aw ?u)) = dw_wait_completed (snd (ww_aw w))" "ww_await ?u = ww_await w"
    by (simp_all add: web_on_bus_def web_config_modify_def web_dev_def)
  have R: "refuses t ?c ?io (snd (ww_aw ?u))" if "t \<in> ?T" for t
    using that assms(5) u bad d(1) unfolding refuses_def unsavable_def web_bus_def by auto
  obtain ok v1 where a: "web_await env ?u = (ok, v1)" by (rule prod.exhaust)
  note r1 = refuses_await [OF assms(3) a R, of ?T]
  have n1: "\<not> ok" "\<forall>t\<in>?T. refuses t ?c ?io (snd (ww_aw v1))" "aw_busy (ww_await v1) = aw_busy (ww_await w)"
    "\<not> aw_busy (ww_await w) \<Longrightarrow> aw_next (ww_await v1) = aw_next (ww_await w) + 1" using r1 d(2) by auto
  have w1: "w1 = v1" "resp = web_answer 503 ''updatenetworkconfig'' ''0x01000005''"
    using assms(6) h a n1(1) by (simp_all add: web_saved_def)
  obtain ok2 v2 where a2: "web_await env2 v1 = (ok2, v2)" by (rule prod.exhaust)
  have n2: "\<not> ok2 \<and> (\<forall>t\<in>?T. refuses t ?c ?io (snd (ww_aw v2)))"
  proof (cases "aw_busy (ww_await w)")
    case True
    then have "v2 = v1 \<and> \<not> ok2" using a2 n1(3) by (auto simp: web_await_def await_pending_persistence_def split: prod.splits)
    then show ?thesis using n1(2) by simp
  next
    case False
    have "aw_next (ww_await v1) + 1 = aw_next (ww_await w) + 2" using n1(4) [OF False] by simp
    then show ?thesis using refuses_await [OF assms(4) a2, of ?T ?c ?io] n1(2) by auto
  qed
  then have "w2 = v2" "resp2 = web_answer 503 ''reboot'' ''0x01000005''"
    using assms(7,8) a2 w1 by (simp_all add: handle_reboot_def)
  then show ?thesis using w1 n2 by (auto simp: refuses_def web_bus_def)
qed

definition zero_gateway :: http_request where
  "zero_gateway = post_request ''/updatenetworkconfig'' '''' ''ip=192.168.1.5&mask=255.255.255.0&gateway=0.0.0.0''"

definition restart_request :: http_request where
  "restart_request = post_request ''/reboot'' '''' ''''"

lemma zero_gateway_accepted: "network_accepted zero_gateway ([192, 168, 1, 5], [255, 255, 255, 0], [0, 0, 0, 0], None)"
proof -
  have f: "form_field ''ip'' zero_gateway = Some (ascii ''192.168.1.5'')"
    "form_field ''mask'' zero_gateway = Some (ascii ''255.255.255.0'')"
    "form_field ''gateway'' zero_gateway = Some (ascii ''0.0.0.0'')" "form_field ''dns'' zero_gateway = None"
    "form_field ''addressinfo'' zero_gateway = None" "form_field ''sn'' zero_gateway = None"
    "form_field ''bloothaddress'' zero_gateway = None" by code_simp+
  have split_ip: "split_on 0x2E (ascii ''192.168.1.5'') = [ascii ''192'', ascii ''168'', ascii ''1'', ascii ''5'']"
    "split_on 0x2E (ascii ''255.255.255.0'') = [ascii ''255'', ascii ''255'', ascii ''255'', ascii ''0'']"
    "split_on 0x2E (ascii ''0.0.0.0'') = [ascii ''0'', ascii ''0'', ascii ''0'', ascii ''0'']" by code_simp+
  have num: "parse_uint U8_MAX (ascii ''192'') = Some 192" "parse_uint U8_MAX (ascii ''168'') = Some 168"
    "parse_uint U8_MAX (ascii ''1'') = Some 1" "parse_uint U8_MAX (ascii ''5'') = Some 5"
    "parse_uint U8_MAX (ascii ''255'') = Some 255" "parse_uint U8_MAX (ascii ''0'') = Some 0"
    by (simp_all add: parse_uint_def ascii_def dec_digit_def)
  have p: "parse_ip (ascii ''192.168.1.5'') = Some [192, 168, 1, 5]" "parse_ip (ascii ''255.255.255.0'') = Some [255, 255, 255, 0]"
    "parse_ip (ascii ''0.0.0.0'') = Some [0, 0, 0, 0]"
    unfolding parse_ip_def Let_def split_ip by (simp_all add: num)
  have m: "mask_contiguous [255, 255, 255, 0]" by code_simp
  show ?thesis
    by (simp add: network_accepted_def network_of_form_def f p m too_long_def) (simp add: zero_gateway_def post_request_def)
qed

theorem zero_gateway_locks_out_witness:
  "fst (handle_update_network_config quiet_web zero_gateway fresh_web) = web_answer 503 ''updatenetworkconfig'' ''0x01000005'' \<and>
   fst (handle_reboot quiet_web restart_request (snd (handle_update_network_config quiet_web zero_gateway fresh_web))) =
     web_answer 503 ''reboot'' ''0x01000005''"
proof -
  obtain resp w1 where u: "handle_update_network_config quiet_web zero_gateway fresh_web = (resp, w1)" by (rule prod.exhaust)
  obtain resp2 w2 where r: "handle_reboot quiet_web restart_request w1 = (resp2, w2)" by (rule prod.exhaust)
  have l: "lone_actor quiet_web" unfolding lone_actor_def
    by (intro exI [of _ "\<lambda>_. Suc 0"] exI [of _ "\<lambda>_ _ _. False"] exI [of _ "\<lambda>_ _ _. quiet_env"])
      (simp add: quiet_web_def quiet_env_def)
  have t: "dw_wait_completed (snd (ww_aw fresh_web)) \<notin> {aw_next (ww_await fresh_web) + 1, aw_next (ww_await fresh_web) + 2}"
    by (simp add: fresh_web_def fresh_world_def)
  have p: "rq_method restart_request = ascii ''POST''" by (simp add: restart_request_def post_request_def)
  from zero_gateway_locks_out [OF zero_gateway_accepted _ l l t u p r] u r show ?thesis by simp
qed

end
