(* ===== verification/Web_Ports.thy ===== *)
theory Web_Ports imports Web_Access begin

text \<open>
  The serial port page and its form: what the page shows, sent back unchanged, changes nothing.
\<close>

section \<open>Reading a form\<close>

text \<open>The form fields of a browser, all with decimal values.\<close>

definition form_body :: "(string \<times> nat) list \<Rightarrow> u8 list" where
  "form_body fs = join_bytes 0x26 (map (\<lambda>(n, v). ascii n @ 0x3D # fmt_dec v) fs)"

definition plain_bytes :: "u8 list \<Rightarrow> bool" where
  "plain_bytes bs \<longleftrightarrow> list_all (\<lambda>b. b < 0x80 \<and> b \<notin> {0x25, 0x26, 0x2B, 0x3D}) bs"

lemma plain_append [simp]: "plain_bytes (a @ b) = (plain_bytes a \<and> plain_bytes b)"
  by (simp add: plain_bytes_def)

lemma plain_fmt_dec: "plain_bytes (fmt_dec n)"
  using fmt_dec_digits [of _ n] by (fastforce simp: plain_bytes_def list_all_iff word_le_nat_alt word_less_nat_alt)

lemma plain_no: "plain_bytes bs \<Longrightarrow> 0x26 \<notin> set bs \<and> 0x3D \<notin> set bs"
  by (auto simp: plain_bytes_def list_all_iff)

lemma split_join: "ps \<noteq> [] \<Longrightarrow> \<forall>p\<in>set ps. c \<notin> set p \<Longrightarrow> split_on c (join_bytes c ps) = ps"
  by (induction c ps rule: join_bytes.induct) (auto simp: split_on_append split_on_no)

lemma plain_decode:
  assumes "plain_bytes bs" and "length out + length bs \<le> n"
  shows "url_decode_bytes n bs out = Some (out @ bs)"
  using assms
proof (induction bs arbitrary: out)
  case (Cons b bs)
  then show ?case using Cons.IH [of "out @ [b]"] by (auto simp: plain_bytes_def)
qed simp

lemma plain_decode_into: "plain_bytes bs \<Longrightarrow> length bs \<le> n \<Longrightarrow> url_decode_into n bs = Some bs"
proof -
  assume p: "plain_bytes bs" and "length bs \<le> n"
  then have "url_decode_bytes n bs [] = Some bs" using plain_decode [of bs "[]" n] by simp
  moreover have "utf8_valid bs" using p by (intro utf8_valid_ascii) (simp add: plain_bytes_def list_all_iff)
  ultimately show ?thesis by (simp add: url_decode_into_def)
qed

lemma length_fmt_dec: "n < 10 ^ k \<Longrightarrow> 0 < k \<Longrightarrow> length (fmt_dec n) \<le> k"
proof (induction n arbitrary: k rule: fmt_dec.induct)
  case (1 n)
  show ?case
  proof (cases "n < 10")
    case True
    then show ?thesis using 1 by (subst fmt_dec.simps) simp
  next
    case False
    obtain j where k: "k = Suc j" using 1(3) by (cases k) auto
    then have j: "k = Suc j" "0 < j" using 1(2) False by (cases j; simp)+
    then have "n div 10 < 10 ^ j" using 1(2) by (simp add: less_mult_imp_div_less mult.commute)
    then have "length (fmt_dec (n div 10)) \<le> j" using 1(1) False j by simp
    then show ?thesis using False j by (subst fmt_dec.simps) simp
  qed
qed

lemma ascii_inj [simp]: "ascii a = ascii b \<longleftrightarrow> a = b"
proof -
  have u: "unat (of_nat (of_char x) :: u8) = (of_char x :: nat)" for x :: char by (simp add: unat_of_nat)
  have "(of_nat (of_char x) :: u8) = of_nat (of_char y) \<longleftrightarrow> x = y" for x y :: char
    using u [of x] u [of y] by (metis of_char_eq_iff)
  then show ?thesis by (auto simp: ascii_def inj_map_eq_map inj_on_def)
qed

lemma form_lookup_pairs:
  assumes "\<forall>(k, v)\<in>set fs. plain_bytes (ascii k)" and "distinct (map fst fs)" and "(name, v) \<in> set fs"
  shows "form_lookup (ascii name) (map (\<lambda>(n, v). ascii n @ 0x3D # fmt_dec v) fs) = Some (fmt_dec v)"
  using assms
proof (induction fs)
  case (Cons f fs)
  obtain k u where f: "f = (k, u)" by (rule prod.exhaust)
  have s: "split_once 0x3D (ascii k @ 0x3D # fmt_dec u) = Some (ascii k, fmt_dec u)"
    using Cons.prems(1) f plain_no by (intro split_once_append) auto
  show ?case
  proof (cases "k = name")
    case True
    then have "u = v" using Cons.prems(2,3) f by (auto dest: set_zip_leftD intro: rev_image_eqI)
    then show ?thesis using s f True by simp
  next
    case False
    then show ?thesis using s f Cons by auto
  qed
qed simp

lemma form_field_dec:
  assumes "rq_body req = form_body fs" and "\<forall>(k, v)\<in>set fs. plain_bytes (ascii k)" and "distinct (map fst fs)"
    and "(name, v) \<in> set fs" and "v < 10 ^ 200"
  shows "form_field name req = Some (fmt_dec v)"
proof -
  let ?ps = "map (\<lambda>(n, v). ascii n @ 0x3D # fmt_dec v) fs"
  have asc: "list_all (\<lambda>b. b < 0x80) (join_bytes 0x26 ps)" if "\<forall>p\<in>set ps. list_all (\<lambda>b. b < 0x80) p" for ps :: "u8 list list"
    using that by (induction "0x26 :: u8" ps rule: join_bytes.induct) auto
  have pl: "list_all (\<lambda>b. b < 0x80) (ascii k @ 0x3D # fmt_dec u)" "0x26 \<notin> set (ascii k @ 0x3D # fmt_dec u)"
    if "(k, u) \<in> set fs" for k u
    using assms(2) that plain_fmt_dec [of u] plain_no [of "fmt_dec u"] plain_no [of "ascii k"]
    by (auto simp: plain_bytes_def list_all_iff)
  have "utf8_valid (rq_body req)"
    unfolding assms(1) form_body_def using pl(1) by (intro utf8_valid_ascii asc) auto
  moreover have "split_on 0x26 (rq_body req) = ?ps"
    unfolding assms(1) form_body_def using assms(4) pl(2) by (intro split_join) auto
  moreover have "url_decode_into 256 (fmt_dec v) = Some (fmt_dec v)"
    using length_fmt_dec [OF assms(5)] plain_fmt_dec by (intro plain_decode_into) auto
  ultimately show ?thesis using form_lookup_pairs [OF assms(2-4)] by (simp add: form_field_def)
qed

section \<open>The port form\<close>

definition port_in_form :: "rs485_config \<Rightarrow> bool" where
  "port_in_form r \<longleftrightarrow> rs_baudrate r \<in> set C_BAUD_TABLE \<and> rs_data_bits r \<in> {7, 8} \<and> rs_stop_bits r \<in> {1, 2} \<and>
     rs_parity r \<le> 2 \<and> rs_mode r \<le> 1 \<and> 1 \<le> rs_slave_addr r \<and> rs_slave_addr r \<le> 247 \<and> rs_retry_count r \<le> 5 \<and>
     20 \<le> rs_timeout_ms r \<and> rs_timeout_ms r \<le> 5000 \<and> 20 \<le> rs_interval_ms r \<and> rs_interval_ms r \<le> 5000"

lemma position_nth: "x \<in> set xs \<Longrightarrow> \<exists>i. position (\<lambda>b. b = x) xs = Some i \<and> i < length xs \<and> xs ! i = x"
  by (induction xs) auto

definition port_form_shown :: "nat \<Rightarrow> rs485_config \<Rightarrow> port_form" where
  "port_form_shown i r =
     \<lparr>po_index = i, po_baud = case_option 0 id (position (\<lambda>b. b = rs_baudrate r) C_BAUD_TABLE),
      po_mode = unat (internal_to_legacy_port_mode (rs_mode r)), po_slave = unat (rs_slave_addr r),
      po_datalen = (if rs_data_bits r = 7 then 1 else 0), po_stopbit = unat (rs_stop_bits r) - 1, po_parity = unat (rs_parity r),
      po_retry = unat (rs_retry_count r), po_timeout = unat (rs_timeout_ms r), po_interval = unat (rs_interval_ms r)\<rparr>"

lemma port_form_shown_valid:
  assumes "port_in_form r" and "i < 3"
  shows "port_form_valid (port_form_shown i r) \<and> port_of_form (port_form_shown i r) = r"
proof -
  obtain k where k: "position (\<lambda>b. b = rs_baudrate r) C_BAUD_TABLE = Some k" "k < length C_BAUD_TABLE" "C_BAUD_TABLE ! k = rs_baudrate r"
    using position_nth [of "rs_baudrate r" C_BAUD_TABLE] assms(1) by (auto simp: port_in_form_def)
  have m: "rs_mode r = 0 \<or> rs_mode r = 1" using assms(1) by (auto simp: port_in_form_def word_le_nat_alt word_unat_eq_iff)
  have mode: "unat (internal_to_legacy_port_mode (rs_mode r)) \<le> 2"
    "legacy_to_internal_port_mode (of_nat (unat (internal_to_legacy_port_mode (rs_mode r)))) = rs_mode r"
    using m by (auto simp: internal_to_legacy_port_mode_def legacy_to_internal_port_mode_def)
  show ?thesis using assms k mode
    by (cases r) (auto simp: port_in_form_def port_form_valid_def port_of_form_def port_form_shown_def word_le_nat_alt)
qed

lemma shown_small:
  assumes "port_in_form r"
  shows "case_option 0 id (position (\<lambda>b. b = rs_baudrate r) C_BAUD_TABLE) < 16"
  using position_nth [of "rs_baudrate r" C_BAUD_TABLE] assms by (auto simp: port_in_form_def C_BAUD_TABLE_def)

lemma num_of_field: "form_field name req = Some (fmt_dec v) \<Longrightarrow> v \<le> mx \<Longrightarrow> form_num mx name req = Some v"
  by (simp add: form_num_def parse_fmt_dec)

lemma num2_of_field: "form_field name req = Some (fmt_dec v) \<Longrightarrow> v \<le> mx \<Longrightarrow> form_num2 mx name other req = Some v"
  by (simp add: form_num2_def parse_fmt_dec)

lemma word_le_max8: "unat (b :: u8) \<le> 255"
  using unsigned_less [of b, where 'a = nat] by simp

lemma word_le_max16: "unat (w :: u16) \<le> 65535"
  using unsigned_less [of w, where 'a = nat] by simp

lemma port_form_read:
  assumes "rq_body req = form_body ((''index'', i) # port_values r)" and "port_in_form r" and "i < 3"
  shows "port_form_of req = Some (port_form_shown i r)"
proof -
  let ?fs = "(''index'', i) # port_values r"
  have names: "\<forall>(k, v)\<in>set ?fs. plain_bytes (ascii k)" by (simp add: port_values_def plain_bytes_def ascii_def)
  have dist: "distinct (map fst ?fs)" by (simp add: port_values_def)
  have big: "v < 10 ^ 200" if "v \<le> 65535" for v :: nat
    using that by (rule order.strict_trans1) simp
  have small: "unat (w :: u16) < 10 ^ 200" "unat (b :: u8) < 10 ^ 200" for w b
    using word_le_max8 [of b] word_le_max16 [of w] by (auto intro: big)
  note f = form_field_dec [OF assms(1) names dist]
  have b: "case_option 0 id (position (\<lambda>b. b = rs_baudrate r) C_BAUD_TABLE) \<le> 65535" using shown_small [OF assms(2)] by simp
  have "form_num USIZE_MAX ''index'' req = Some i"
    using assms(3) by (intro num_of_field f big) (simp_all add: port_values_def)
  moreover have "form_num USIZE_MAX ''baud'' req = Some (case_option 0 id (position (\<lambda>b. b = rs_baudrate r) C_BAUD_TABLE))"
    using b by (intro num_of_field f big) (simp_all add: port_values_def)
  moreover have "form_num U8_MAX ''masterslaveport'' req = Some (unat (internal_to_legacy_port_mode (rs_mode r)))"
    using word_le_max8 by (intro num_of_field f small) (simp_all add: port_values_def)
  moreover have "form_num U16_MAX ''slaveaddress'' req = Some (unat (rs_slave_addr r))"
    using word_le_max8 [of "rs_slave_addr r"] by (intro num_of_field f small) (simp_all add: port_values_def)
  moreover have "form_num U8_MAX ''datalen'' req = Some (if rs_data_bits r = 7 then 1 else 0)"
    by (intro num_of_field f big) (simp_all add: port_values_def)
  moreover have "form_num U8_MAX ''stopbit'' req = Some (unat (rs_stop_bits r) - 1)"
    using word_le_max8 [of "rs_stop_bits r"] by (intro num_of_field f big) (simp_all add: port_values_def)
  moreover have "form_num U8_MAX ''checkmode'' req = Some (unat (rs_parity r))"
    using word_le_max8 by (intro num_of_field f small) (simp_all add: port_values_def)
  moreover have "form_num2 U16_MAX ''retrycount'' ''retry'' req = Some (unat (rs_retry_count r))"
    using word_le_max16 by (intro num2_of_field f small) (simp_all add: port_values_def)
  moreover have "form_num2 U16_MAX ''responeinteval'' ''timeout'' req = Some (unat (rs_timeout_ms r))"
    using word_le_max16 by (intro num2_of_field f small) (simp_all add: port_values_def)
  moreover have "form_num2 U16_MAX ''tti'' ''interval'' req = Some (unat (rs_interval_ms r))"
    using word_le_max16 by (intro num2_of_field f small) (simp_all add: port_values_def)
  ultimately show ?thesis by (simp add: port_form_of_def port_form_shown_def)
qed

text \<open>The port page and its form agree.  When the settings of a serial port that the page shows are sent back as
  they are shown, the form is accepted and the configuration stays what it was; it is only saved again.  The
  page's numbering of roles, word lengths, stop bits and baud rates is thus undone exactly by the form.\<close>

theorem port_form_roundtrip:
  assumes "rq_method req = ascii ''POST''" and "i < 3" and "i < length (sc_rs485 (bus_config (web_bus w)))"
    and "port_in_form (sc_rs485 (bus_config (web_bus w)) ! i)"
    and "rq_body req = form_body ((''index'', i) # port_values (sc_rs485 (bus_config (web_bus w)) ! i))"
  shows "handle_update_port_config env req w = web_saved env ''updateportconfig'' (web_on_bus request_persist_config w)"
proof -
  let ?c = "bus_config (web_bus w)"
  let ?p = "port_form_shown i (sc_rs485 ?c ! i)"
  have p: "port_form_of req = Some ?p" by (rule port_form_read [OF assms(5,4,2)])
  have v: "port_form_valid ?p" "port_of_form ?p = sc_rs485 ?c ! i" using port_form_shown_valid [OF assms(4,2)] by simp_all
  have "?c\<lparr>sc_rs485 := (sc_rs485 ?c)[po_index ?p := port_of_form ?p]\<rparr> = ?c"
    by (simp add: v) (simp add: port_form_shown_def)
  then have "web_config_modify (\<lambda>c. c\<lparr>sc_rs485 := (sc_rs485 c)[po_index ?p := port_of_form ?p]\<rparr>) w = w"
    by (simp add: web_config_modify_def web_on_bus_def web_dev_def on_bus_def config_modify_def publish_config_def web_bus_def)
  then show ?thesis using assms(1) p v(1) by (simp add: handle_update_port_config_def Let_def)
qed

theorem port_form_roundtrip_witness:
  "handle_update_port_config quiet_web (post_request ''/updateportconfig'' ''''
      ''index=1&datalen=0&checkmode=0&stopbit=0&baud=0&masterslaveport=2&slaveaddress=1&retrycount=0&responeinteval=1000&tti=20'')
      fresh_web = web_saved quiet_web ''updateportconfig'' (web_on_bus request_persist_config fresh_web)"
proof -
  have c: "sc_rs485 (bus_config (web_bus fresh_web)) ! 1 = rs485_default\<lparr>rs_mode := 1\<rparr>"
    "1 < length (sc_rs485 (bus_config (web_bus fresh_web)))"
    by (simp_all add: web_bus_def fresh_web_def fresh_world_def bus_start_def config_defaults_def)
  have d: "fmt_dec 0 = [48]" "fmt_dec (Suc 0) = [49]" "fmt_dec 2 = [50]" "fmt_dec 20 = [50, 48]" "fmt_dec 1000 = [49, 48, 48, 48]"
    by (simp_all add: fmt_dec.simps)
  have "form_body ((''index'', 1) # port_values (rs485_default\<lparr>rs_mode := 1\<rparr>)) =
      ascii ''index=1&datalen=0&checkmode=0&stopbit=0&baud=0&masterslaveport=2&slaveaddress=1&retrycount=0&responeinteval=1000&tti=20''"
    by (simp add: form_body_def port_values_def rs485_default_def C_BAUD_TABLE_def internal_to_legacy_port_mode_def ascii_def d)
  then show ?thesis
    by (intro port_form_roundtrip [where i = 1])
      (use c in \<open>simp_all add: post_request_def port_in_form_def rs485_default_def C_BAUD_TABLE_def\<close>)
qed

end
