(* ===== verification/Ota.thy ===== *)
theory Ota imports Prelude begin

text \<open>
  Firmware update (\<open>src/ota/mod.rs\<close>): one session at a time that writes an image to the next application slot
  and selects that slot for the next start.  The update driver of the platform is a parameter: its calls act on a
  flash state of any type, and \<open>ota_driver_ok\<close> states what its documentation says of the images and of the slot
  to start from.  A partition is named by its address.
\<close>

section \<open>The driver\<close>

record 'f ota_driver =
  od_next :: "'f \<Rightarrow> (nat \<times> u32) option"
  od_begin :: "nat \<Rightarrow> u32 \<Rightarrow> 'f \<Rightarrow> u32 option \<times> 'f"
  od_write :: "u32 \<Rightarrow> u8 list \<Rightarrow> 'f \<Rightarrow> bool \<times> 'f"
  od_end :: "u32 \<Rightarrow> 'f \<Rightarrow> bool \<times> 'f"
  od_set_boot :: "nat \<Rightarrow> 'f \<Rightarrow> bool \<times> 'f"
  od_abort :: "u32 \<Rightarrow> 'f \<Rightarrow> bool \<times> 'f"

text \<open>What can be seen of the flash: the image in a slot, the slot an open handle writes, the slot to start from,
  and which images the driver finds valid.\<close>

record 'f ota_view =
  ov_image :: "'f \<Rightarrow> nat \<Rightarrow> u8 list"
  ov_open :: "'f \<Rightarrow> u32 \<Rightarrow> nat option"
  ov_boot :: "'f \<Rightarrow> nat"
  ov_valid :: "u8 list \<Rightarrow> bool"

text \<open>A handle is released by an end whatever its result; only selecting a slot changes the slot to start from.\<close>

definition ota_driver_ok :: "'f ota_driver \<Rightarrow> 'f ota_view \<Rightarrow> bool" where
  "ota_driver_ok d v \<longleftrightarrow>
     (\<forall>slot n f h f'. od_begin d slot n f = (h, f') \<longrightarrow> ov_boot v f' = ov_boot v f \<and>
        (\<forall>k. h = Some k \<longrightarrow> ov_open v f' k = Some slot \<and> ov_image v f' slot = [])) \<and>
     (\<forall>h data f ok f'. od_write d h data f = (ok, f') \<longrightarrow> ov_boot v f' = ov_boot v f \<and>
        (\<forall>slot. ok \<and> ov_open v f h = Some slot \<longrightarrow>
           ov_open v f' h = Some slot \<and> ov_image v f' slot = ov_image v f slot @ data)) \<and>
     (\<forall>h f ok f'. od_end d h f = (ok, f') \<longrightarrow> ov_boot v f' = ov_boot v f \<and> ov_open v f' h = None \<and>
        ov_image v f' = ov_image v f \<and>
        (ok \<longrightarrow> (\<exists>slot. ov_open v f h = Some slot \<and> ov_valid v (ov_image v f slot)))) \<and>
     (\<forall>slot f ok f'. od_set_boot d slot f = (ok, f') \<longrightarrow> ov_boot v f' = (if ok then slot else ov_boot v f) \<and>
        ov_image v f' = ov_image v f \<and> ov_open v f' = ov_open v f) \<and>
     (\<forall>h f ok f'. od_abort d h f = (ok, f') \<longrightarrow> ov_boot v f' = ov_boot v f)"

section \<open>The session\<close>

datatype ota_status = OtIdle | OtReceiving | OtDonePendingReboot | OtVerifyFailed | OtNoSpace | OtAborted

fun ota_status_code :: "ota_status \<Rightarrow> u16" where
  "ota_status_code OtIdle = 0"
| "ota_status_code OtReceiving = 1"
| "ota_status_code OtDonePendingReboot = 2"
| "ota_status_code OtVerifyFailed = 3"
| "ota_status_code OtNoSpace = 4"
| "ota_status_code OtAborted = 5"

definition ota_status_from :: "u8 \<Rightarrow> ota_status" where
  "ota_status_from v =
     (if v = 1 then OtReceiving else if v = 2 then OtDonePendingReboot else if v = 3 then OtVerifyFailed
      else if v = 4 then OtNoSpace else if v = 5 then OtAborted else OtIdle)"

record ota_session =
  os_handle :: u32
  os_handle_active :: bool
  os_partition :: nat
  os_partition_size :: u32
  os_total :: u32
  os_written :: u32
  os_status :: ota_status

text \<open>The last status is kept as its code.\<close>

record 'f ota_state =
  ot_session :: "ota_session option"
  ot_last :: u8
  ot_pending_total :: u32
  ot_flash :: 'f

abbreviation (input) OTA_CHUNK_MAX :: nat where "OTA_CHUNK_MAX \<equiv> 4096"
abbreviation (input) OTA_WITH_SEQUENTIAL_WRITES :: u32 where "OTA_WITH_SEQUENTIAL_WRITES \<equiv> 0xFFFFFFFE"

definition ota_store :: "ota_status \<Rightarrow> 'f ota_state \<Rightarrow> 'f ota_state" where
  "ota_store v st = st\<lparr>ot_last := ucast (ota_status_code v)\<rparr>"

definition set_pending_total :: "u32 \<Rightarrow> 'f ota_state \<Rightarrow> 'f ota_state" where
  "set_pending_total n st = st\<lparr>ot_pending_total := n\<rparr>"

definition pending_total :: "'f ota_state \<Rightarrow> u32" where
  "pending_total st = ot_pending_total st"

definition ota_current_status :: "'f ota_state \<Rightarrow> ota_status" where
  "ota_current_status st = (case ot_session st of None \<Rightarrow> ota_status_from (ot_last st) | Some s \<Rightarrow> os_status s)"

definition written_bytes :: "'f ota_state \<Rightarrow> u32" where
  "written_bytes st = case_option 0 os_written (ot_session st)"

definition total_bytes :: "'f ota_state \<Rightarrow> u32" where
  "total_bytes st = case_option 0 os_total (ot_session st)"

definition ota_begin :: "'f ota_driver \<Rightarrow> u32 \<Rightarrow> 'f ota_state \<Rightarrow> bool \<times> 'f ota_state" where
  "ota_begin d n st =
     (if ot_session st \<noteq> None then (False, st)
      else case od_next d (ot_flash st) of
        None \<Rightarrow> (False, st)
      | Some (part, part_size) \<Rightarrow>
          if n > 0 \<and> n > part_size then (False, ota_store OtNoSpace st)
          else let image_size = (if n = 0 then OTA_WITH_SEQUENTIAL_WRITES else n) in
            (case od_begin d part image_size (ot_flash st) of
               (None, f) \<Rightarrow> (False, st\<lparr>ot_flash := f\<rparr>)
             | (Some handle, f) \<Rightarrow> (True, ota_store OtReceiving (st\<lparr>ot_flash := f, ot_session :=
                 Some \<lparr>os_handle = handle, os_handle_active = True, os_partition = part,
                   os_partition_size = part_size, os_total = n, os_written = 0, os_status = OtReceiving\<rparr>\<rparr>))))"

definition ota_limit :: "ota_session \<Rightarrow> u32" where
  "ota_limit s = (if os_total s > 0 then min (os_total s) (os_partition_size s) else os_partition_size s)"

text \<open>The result is the number of bytes taken.\<close>

definition ota_write_chunk :: "'f ota_driver \<Rightarrow> u8 list \<Rightarrow> 'f ota_state \<Rightarrow> nat option \<times> 'f ota_state" where
  "ota_write_chunk d data st =
     (if length data > OTA_CHUNK_MAX then (None, st)
      else case ot_session st of
        None \<Rightarrow> (None, st)
      | Some s \<Rightarrow>
          if os_status s \<noteq> OtReceiving then (None, st)
          else if unat (os_written s) + length data > 4294967295 then (None, st)
          else let next_written = os_written s + of_nat (length data) in
            if next_written > ota_limit s then (None, st)
            else case od_write d (os_handle s) data (ot_flash st) of
              (False, f) \<Rightarrow>
                let (_, f) = od_abort d (os_handle s) f
                in (None, ota_store OtVerifyFailed (st\<lparr>ot_flash := f, ot_session := None\<rparr>))
            | (True, f) \<Rightarrow>
                (Some (length data), st\<lparr>ot_flash := f, ot_session := Some (s\<lparr>os_written := next_written\<rparr>)\<rparr>))"

text \<open>\<open>await\<close> waits until the pending settings are saved.  The address of a partition is never null.\<close>

definition ota_end :: "'f ota_driver \<Rightarrow> ('w \<Rightarrow> bool \<times> 'w) \<Rightarrow> 'f ota_state \<times> 'w \<Rightarrow> bool \<times> 'f ota_state \<times> 'w" where
  "ota_end d await sw =
     (let (st, w) = sw in
      case ot_session st of
        None \<Rightarrow> (False, st, w)
      | Some s \<Rightarrow>
          if os_total s > 0 \<and> os_written s < os_total s then (False, st, w)
          else (case await w of
            (False, w) \<Rightarrow> (False, st, w)
          | (True, w) \<Rightarrow>
              (case od_end d (os_handle s) (ot_flash st) of
                 (False, f) \<Rightarrow> (False, ota_store OtVerifyFailed (st\<lparr>ot_flash := f, ot_session := None\<rparr>), w)
               | (True, f) \<Rightarrow>
                   (case od_set_boot d (os_partition s) f of
                      (False, f) \<Rightarrow> (False, ota_store OtVerifyFailed (st\<lparr>ot_flash := f, ot_session := None\<rparr>), w)
                    | (True, f) \<Rightarrow>
                        (True, ota_store OtDonePendingReboot (st\<lparr>ot_flash := f,
                           ot_session := Some (s\<lparr>os_handle_active := False, os_status := OtDonePendingReboot\<rparr>)\<rparr>), w)))))"

definition ota_abort :: "'f ota_driver \<Rightarrow> 'f ota_state \<Rightarrow> bool \<times> 'f ota_state" where
  "ota_abort d st =
     (case ot_session st of
        None \<Rightarrow> (True, st)
      | Some s \<Rightarrow>
          let (ok, f) = (if os_handle_active s then od_abort d (os_handle s) (ot_flash st) else (True, ot_flash st));
              st = st\<lparr>ot_session := None, ot_flash := f\<rparr>
          in if ok then (True, ota_store OtAborted st) else (False, st))"

section \<open>Runs\<close>

text \<open>Calls by the web server and by the radio commands, one after the other; of the wait for pending settings
  only the outcome matters here.\<close>

datatype ota_op = OpBegin u32 | OpWrite "u8 list" | OpEnd bool | OpAbort

definition ota_do :: "'f ota_driver \<Rightarrow> ota_op \<Rightarrow> 'f ota_state \<Rightarrow> bool \<times> 'f ota_state" where
  "ota_do d op st =
     (case op of
        OpBegin n \<Rightarrow> ota_begin d n st
      | OpWrite data \<Rightarrow> (let (r, st) = ota_write_chunk d data st in (r \<noteq> None, st))
      | OpEnd saved \<Rightarrow> (let (r, st, _) = ota_end d (\<lambda>w. (saved, w)) (st, ()) in (r, st))
      | OpAbort \<Rightarrow> ota_abort d st)"

definition ota_run :: "'f ota_driver \<Rightarrow> ota_op list \<Rightarrow> 'f ota_state \<Rightarrow> 'f ota_state" where
  "ota_run d ops st = fold (\<lambda>op st. snd (ota_do d op st)) ops st"

lemma ota_run_snoc [simp]: "ota_run d (ops @ [op]) st = snd (ota_do d op (ota_run d ops st))"
  by (simp add: ota_run_def)

text \<open>The bytes accepted since the last accepted begin.\<close>

definition ota_upload_step :: "ota_op \<Rightarrow> bool \<Rightarrow> u8 list \<Rightarrow> u8 list" where
  "ota_upload_step op ok up =
     (case op of OpBegin n \<Rightarrow> if ok then [] else up | OpWrite data \<Rightarrow> if ok then up @ data else up | _ \<Rightarrow> up)"

fun ota_uploaded :: "'f ota_driver \<Rightarrow> ota_op list \<Rightarrow> 'f ota_state \<Rightarrow> u8 list \<Rightarrow> u8 list" where
  "ota_uploaded d [] st acc = acc"
| "ota_uploaded d (op # ops) st acc =
     (let (ok, st') = ota_do d op st in ota_uploaded d ops st' (ota_upload_step op ok acc))"

lemma ota_uploaded_snoc:
  "ota_uploaded d (ops @ [op]) st acc =
    ota_upload_step op (fst (ota_do d op (ota_run d ops st))) (ota_uploaded d ops st acc)"
  by (induction ops arbitrary: st acc) (auto simp: ota_run_def Let_def split_beta)

definition ota_start :: "'f \<Rightarrow> 'f ota_state" where
  "ota_start f = \<lparr>ot_session = None, ot_last = 0, ot_pending_total = 0, ot_flash = f\<rparr>"

text \<open>What a session knows about the slot it writes.\<close>

definition ota_inv :: "'f ota_view \<Rightarrow> u8 list \<Rightarrow> 'f ota_state \<Rightarrow> bool" where
  "ota_inv v up st \<longleftrightarrow>
     (case ot_session st of None \<Rightarrow> True
      | Some s \<Rightarrow> (os_status s = OtReceiving \<longleftrightarrow> os_handle_active s) \<and>
          (\<not> os_handle_active s \<longrightarrow> ov_open v (ot_flash st) (os_handle s) = None) \<and>
          (os_handle_active s \<longrightarrow> ov_open v (ot_flash st) (os_handle s) = Some (os_partition s) \<and>
             ov_image v (ot_flash st) (os_partition s) = up \<and> length up = unat (os_written s) \<and>
             os_written s \<le> ota_limit s))"

lemma ota_laws:
  assumes "ota_driver_ok d v"
  shows ota_law_begin: "od_begin d slot n f = (h, f') \<Longrightarrow> ov_boot v f' = ov_boot v f \<and>
      (\<forall>k. h = Some k \<longrightarrow> ov_open v f' k = Some slot \<and> ov_image v f' slot = [])"
    and ota_law_write: "od_write d k data f = (ok, f') \<Longrightarrow> ov_boot v f' = ov_boot v f \<and>
      (\<forall>slot. ok \<and> ov_open v f k = Some slot \<longrightarrow>
         ov_open v f' k = Some slot \<and> ov_image v f' slot = ov_image v f slot @ data)"
    and ota_law_end: "od_end d k f = (ok, f') \<Longrightarrow> ov_boot v f' = ov_boot v f \<and> ov_open v f' k = None \<and>
      ov_image v f' = ov_image v f \<and>
      (ok \<longrightarrow> (\<exists>slot. ov_open v f k = Some slot \<and> ov_valid v (ov_image v f slot)))"
    and ota_law_boot: "od_set_boot d slot f = (ok, f') \<Longrightarrow> ov_boot v f' = (if ok then slot else ov_boot v f) \<and>
      ov_image v f' = ov_image v f \<and> ov_open v f' = ov_open v f"
    and ota_law_abort: "od_abort d k f = (ok, f') \<Longrightarrow> ov_boot v f' = ov_boot v f"
  using assms unfolding ota_driver_ok_def by (elim conjE, metis)+

lemma ota_begin_inv:
  assumes "ota_driver_ok d v" and "ota_inv v up st" and "ota_begin d n st = (ok, st')"
  shows "ota_inv v (if ok then [] else up) st' \<and> ov_boot v (ot_flash st') = ov_boot v (ot_flash st)"
proof (cases "ot_session st = None \<and> od_next d (ot_flash st) \<noteq> None")
  case False
  then show ?thesis using assms
    by (cases "od_next d (ot_flash st)"; cases "ot_session st") (simp_all add: ota_begin_def)
next
  case True
  then obtain p z where p: "od_next d (ot_flash st) = Some (p, z)" by auto
  let ?z = "if n = 0 then OTA_WITH_SEQUENTIAL_WRITES else n"
  obtain h f where b: "od_begin d p ?z (ot_flash st) = (h, f)" by (rule prod.exhaust)
  have "ov_boot v f = ov_boot v (ot_flash st) \<and> (\<forall>k. h = Some k \<longrightarrow> ov_open v f k = Some p \<and> ov_image v f p = [])"
    by (rule ota_law_begin [OF assms(1) b])
  then show ?thesis using assms(2,3) True p b
    by (cases h) (auto simp: ota_begin_def ota_inv_def ota_store_def ota_limit_def split: if_splits)
qed

lemma ota_abort_boot: "ota_driver_ok d v \<Longrightarrow> ov_boot v (snd (od_abort d h f)) = ov_boot v f"
  using ota_law_abort [of d v h f "fst (od_abort d h f)" "snd (od_abort d h f)"] by simp

lemma ota_write_inv:
  assumes "ota_driver_ok d v" and "ota_inv v up st" and "ota_write_chunk d data st = (r, st')"
  shows "ota_inv v (if r \<noteq> None then up @ data else up) st' \<and> ov_boot v (ot_flash st') = ov_boot v (ot_flash st) \<and>
    (\<forall>n. r = Some n \<longrightarrow> n = length data)"
proof (cases "ot_session st")
  case None
  then show ?thesis using assms by (auto simp: ota_write_chunk_def split: if_splits)
next
  case (Some s)
  let ?next = "os_written s + of_nat (length data)"
  show ?thesis
  proof (cases "length data \<le> 4096 \<and> os_status s = OtReceiving \<and> unat (os_written s) + length data \<le> 4294967295 \<and>
      ?next \<le> ota_limit s")
    case True
    have n: "unat ?next = unat (os_written s) + length data"
      using True by (simp add: unat_word_ariths unat_of_nat)
    obtain ok f where w: "od_write d (os_handle s) data (ot_flash st) = (ok, f)" by (rule prod.exhaust)
    have f: "ov_boot v f = ov_boot v (ot_flash st) \<and> (\<forall>slot. ok \<and> ov_open v (ot_flash st) (os_handle s) = Some slot \<longrightarrow>
        ov_open v f (os_handle s) = Some slot \<and> ov_image v f slot = ov_image v (ot_flash st) slot @ data)"
      by (rule ota_law_write [OF assms(1) w])
    show ?thesis
    proof (cases ok)
      case True': True
      have "r = Some (length data)" "st' = st\<lparr>ot_flash := f, ot_session := Some (s\<lparr>os_written := ?next\<rparr>)\<rparr>"
        using assms(3) True True' Some w by (auto simp: ota_write_chunk_def Let_def not_less split: if_splits)
      then show ?thesis using assms(2) Some True True' f n by (auto simp: ota_inv_def ota_limit_def)
    next
      case False
      obtain a g where "od_abort d (os_handle s) f = (a, g)" by (rule prod.exhaust)
      then show ?thesis using assms(2,3) Some True False f w ota_abort_boot [OF assms(1), of "os_handle s" f]
        by (auto simp: ota_write_chunk_def Let_def ota_inv_def ota_store_def not_less split: if_splits)
    qed
  next
    case False
    then have "r = None \<and> st' = st" using assms(3) Some by (auto simp: ota_write_chunk_def Let_def split: if_splits)
    then show ?thesis using assms(2) by simp
  qed
qed

lemma ota_abort_inv:
  assumes "ota_driver_ok d v" and "ota_abort d st = (ok, st')"
  shows "ot_session st' = None \<and> ov_boot v (ot_flash st') = ov_boot v (ot_flash st)"
proof (cases "ot_session st")
  case None
  then show ?thesis using assms by (auto simp: ota_abort_def)
next
  case (Some s)
  obtain a g where "od_abort d (os_handle s) (ot_flash st) = (a, g)" by (rule prod.exhaust)
  then show ?thesis using assms(2) Some ota_abort_boot [OF assms(1), of "os_handle s" "ot_flash st"]
    by (auto simp: ota_abort_def Let_def ota_store_def split: if_splits)
qed

text \<open>The end of a session: only a success selects the slot, and it means that the image is complete and valid.\<close>

lemma ota_end_inv:
  assumes "ota_driver_ok d v" and "ota_inv v up st" and "ota_end d await (st, w) = (ok, st', w')"
  shows "ota_inv v up st' \<and>
    (ok \<longrightarrow> (\<exists>s. ot_session st = Some s \<and> os_handle_active s \<and> ov_boot v (ot_flash st') = os_partition s \<and>
       ov_valid v (ov_image v (ot_flash st) (os_partition s)) \<and> os_total s \<le> os_written s \<and> fst (await w) \<and>
       ov_image v (ot_flash st') = ov_image v (ot_flash st))) \<and>
    (\<not> ok \<longrightarrow> ov_boot v (ot_flash st') = ov_boot v (ot_flash st))"
proof (cases "ot_session st")
  case None
  then show ?thesis using assms by (auto simp: ota_end_def)
next
  case (Some s)
  obtain sv w1 where a: "await w = (sv, w1)" by (rule prod.exhaust)
  obtain k f where e: "od_end d (os_handle s) (ot_flash st) = (k, f)" by (rule prod.exhaust)
  obtain b g where g: "od_set_boot d (os_partition s) f = (b, g)" by (rule prod.exhaust)
  have lf: "ov_boot v f = ov_boot v (ot_flash st)" "ov_open v f (os_handle s) = None"
    "ov_image v f = ov_image v (ot_flash st)"
    "k \<Longrightarrow> \<exists>slot. ov_open v (ot_flash st) (os_handle s) = Some slot \<and> ov_valid v (ov_image v (ot_flash st) slot)"
    using ota_law_end [OF assms(1) e] by simp_all
  have lg: "ov_boot v g = (if b then os_partition s else ov_boot v f)" "ov_image v g = ov_image v f" "ov_open v g = ov_open v f"
    using ota_law_boot [OF assms(1) g] by simp_all
  have full: "os_total s \<le> os_written s" if "\<not> (os_total s > 0 \<and> os_written s < os_total s)"
    using that by (auto simp: word_less_nat_alt word_le_nat_alt)
  show ?thesis
  proof (cases "os_total s > 0 \<and> os_written s < os_total s")
    case True
    then show ?thesis using assms(2,3) Some by (auto simp: ota_end_def)
  next
    case False
    then show ?thesis using assms(2,3) Some a e g lf lg full
      by (cases sv; cases k; cases b) (auto simp: ota_end_def ota_inv_def ota_store_def)
  qed
qed

lemma ota_do_inv:
  assumes "ota_driver_ok d v" and "ota_inv v up st" and "ota_do d op st = (ok, st')"
  shows "ota_inv v (ota_upload_step op ok up) st' \<and>
    (ov_boot v (ot_flash st') \<noteq> ov_boot v (ot_flash st) \<longrightarrow> (\<exists>s. op = OpEnd True \<and> ok \<and> ot_session st = Some s \<and>
       os_handle_active s \<and> ov_boot v (ot_flash st') = os_partition s \<and>
       ov_valid v (ov_image v (ot_flash st) (os_partition s)) \<and>
       os_total s \<le> os_written s \<and> ov_image v (ot_flash st') = ov_image v (ot_flash st)))"
proof (cases op)
  case (OpBegin n)
  then show ?thesis using ota_begin_inv [OF assms(1,2)] assms(3) by (simp add: ota_do_def ota_upload_step_def)
next
  case (OpWrite data)
  obtain r st1 where w: "ota_write_chunk d data st = (r, st1)" by (rule prod.exhaust)
  then show ?thesis using ota_write_inv [OF assms(1,2) w] assms(3) OpWrite by (auto simp: ota_do_def ota_upload_step_def)
next
  case (OpEnd saved)
  obtain r st1 u where e: "ota_end d (\<lambda>w. (saved, w)) (st, ()) = (r, st1, u)" by (rule prod_cases3)
  then have o: "ok = r" "st' = st1" using assms(3) OpEnd by (simp_all add: ota_do_def)
  note i = ota_end_inv [OF assms(1,2) e]
  show ?thesis
  proof (cases r)
    case True
    then obtain s where "ot_session st = Some s" "os_handle_active s" "ov_boot v (ot_flash st1) = os_partition s"
      "ov_valid v (ov_image v (ot_flash st) (os_partition s))" "os_total s \<le> os_written s" "saved"
      "ov_image v (ot_flash st1) = ov_image v (ot_flash st)" using i by auto
    then show ?thesis using i o True OpEnd by (simp add: ota_upload_step_def)
  next
    case False
    then show ?thesis using i o OpEnd by (simp add: ota_upload_step_def)
  qed
next
  case OpAbort
  then show ?thesis using ota_abort_inv [OF assms(1), of st ok st'] assms by (simp add: ota_do_def ota_inv_def)
qed

lemma ota_run_inv:
  "ota_driver_ok d v \<Longrightarrow> ota_inv v (ota_uploaded d ops (ota_start f) []) (ota_run d ops (ota_start f))"
proof (induction ops rule: rev_induct)
  case Nil
  show ?case by (simp add: ota_run_def ota_start_def ota_inv_def)
next
  case (snoc op ops)
  obtain ok st' where d: "ota_do d op (ota_run d ops (ota_start f)) = (ok, st')" by (rule prod.exhaust)
  from ota_do_inv [OF snoc(2) snoc(1) d] snoc(2) show ?case by (simp add: ota_uploaded_snoc d)
qed

text \<open>C14: The device starts only firmware that was uploaded whole and verified.  Whatever the web server and the radio
  commands call, in any order and with any failures of the driver, a call that changes the slot to start from is
  an end that reports success, after the pending settings were saved; the slot then holds exactly the bytes
  accepted since the upload began, as many as were announced, and the driver found them valid.\<close>

theorem boot_slot_is_verified:
  assumes "ota_driver_ok d v" and "st = ota_run d ops (ota_start f)" and "ota_do d op st = (ok, st')"
    and "ov_boot v (ot_flash st') \<noteq> ov_boot v (ot_flash st)"
  shows "op = OpEnd True \<and> ok \<and> ov_valid v (ov_image v (ot_flash st') (ov_boot v (ot_flash st'))) \<and>
    ov_image v (ot_flash st') (ov_boot v (ot_flash st')) = ota_uploaded d ops (ota_start f) [] \<and>
    (total_bytes st > 0 \<longrightarrow> length (ota_uploaded d ops (ota_start f) []) = unat (total_bytes st))"
proof -
  let ?up = "ota_uploaded d ops (ota_start f) []"
  have inv: "ota_inv v ?up st" using ota_run_inv [OF assms(1)] assms(2) by simp
  obtain s where o: "op = OpEnd True" "ok" "ot_session st = Some s" "os_handle_active s" "ov_boot v (ot_flash st') = os_partition s"
    "ov_valid v (ov_image v (ot_flash st) (os_partition s))" "os_total s \<le> os_written s"
    "ov_image v (ot_flash st') = ov_image v (ot_flash st)"
    using ota_do_inv [OF assms(1) inv assms(3)] assms(4) by blast
  have up: "ov_image v (ot_flash st) (os_partition s) = ?up" "length ?up = unat (os_written s)" "os_written s \<le> ota_limit s"
    using inv o(3,4) by (simp_all add: ota_inv_def)
  have "os_written s = os_total s" if "os_total s > 0"
    using up(3) o(7) that by (auto simp: ota_limit_def min_def split: if_splits)
  then show ?thesis using o up by (auto simp: total_bytes_def)
qed

section \<open>A driver\<close>

text \<open>A driver with one free slot that works always; valid images start with the byte \<open>0xE9\<close>.\<close>

record demo_flash =
  df_image :: "nat \<Rightarrow> u8 list"
  df_open :: "nat option"
  df_boot :: nat

definition demo_driver :: "demo_flash ota_driver" where
  "demo_driver = \<lparr>od_next = (\<lambda>f. Some (1, 0x240000)),
     od_begin = (\<lambda>slot n f. (Some 7, f\<lparr>df_image := (df_image f)(slot := []), df_open := Some slot\<rparr>)),
     od_write = (\<lambda>h data f. (case df_open f of None \<Rightarrow> (False, f)
       | Some slot \<Rightarrow> if h = 7 then (True, f\<lparr>df_image := (df_image f)(slot := df_image f slot @ data)\<rparr>) else (False, f))),
     od_end = (\<lambda>h f. (case df_open f of None \<Rightarrow> (False, f)
       | Some slot \<Rightarrow> if h = 7 then (take 1 (df_image f slot) = [0xE9], f\<lparr>df_open := None\<rparr>) else (False, f))),
     od_set_boot = (\<lambda>slot f. (True, f\<lparr>df_boot := slot\<rparr>)),
     od_abort = (\<lambda>h f. (True, f\<lparr>df_open := None\<rparr>))\<rparr>"

definition demo_view :: "demo_flash ota_view" where
  "demo_view = \<lparr>ov_image = df_image, ov_open = (\<lambda>f h. if h = 7 then df_open f else None), ov_boot = df_boot,
     ov_valid = (\<lambda>i. take 1 i = [0xE9])\<rparr>"

definition demo_flash0 :: demo_flash where
  "demo_flash0 = \<lparr>df_image = (\<lambda>_. []), df_open = None, df_boot = 0\<rparr>"

lemma demo_driver_ok: "ota_driver_ok demo_driver demo_view"
  by (auto simp: ota_driver_ok_def demo_driver_def demo_view_def split: option.splits if_splits)

theorem boot_slot_is_verified_witness:
  "ota_uploaded demo_driver [OpBegin 3, OpWrite [0xE9], OpWrite [1, 2]] (ota_start demo_flash0) [] = [0xE9, 1, 2]"
proof -
  let ?ops = "[OpBegin 3, OpWrite [0xE9], OpWrite [1, 2]]"
  have ran: "ota_run demo_driver ?ops (ota_start demo_flash0) =
      \<lparr>ot_session = Some \<lparr>os_handle = 7, os_handle_active = True, os_partition = 1, os_partition_size = 0x240000,
        os_total = 3, os_written = 3, os_status = OtReceiving\<rparr>, ot_last = 1, ot_pending_total = 0,
       ot_flash = \<lparr>df_image = (\<lambda>_. [])(1 := [0xE9, 1, 2]), df_open = Some 1, df_boot = 0\<rparr>\<rparr>"
    by (simp add: ota_run_def ota_do_def ota_start_def ota_begin_def ota_write_chunk_def ota_limit_def demo_driver_def
      demo_flash0_def ota_store_def Let_def min_def)
  obtain ok st' where d: "ota_do demo_driver (OpEnd True) (ota_run demo_driver ?ops (ota_start demo_flash0)) = (ok, st')"
    by (rule prod.exhaust)
  have b: "ov_boot demo_view (ot_flash st') \<noteq> ov_boot demo_view (ot_flash (ota_run demo_driver ?ops (ota_start demo_flash0)))"
    and im: "ov_image demo_view (ot_flash st') (ov_boot demo_view (ot_flash st')) = [0xE9, 1, 2]"
    using d unfolding ran
    by (auto simp: ota_do_def ota_end_def demo_driver_def demo_view_def ota_store_def)
  show ?thesis using boot_slot_is_verified [OF demo_driver_ok refl d b] im by auto
qed

end
