(* ===== verification/Web_Upload.thy ===== *)
theory Web_Upload imports Web_Access Web_Parse Ota begin

text \<open>
  One connection of the web server (\<open>handle_connection\<close> of \<open>src/web/mod.rs\<close>): the request is read, a firmware
  upload is streamed into the update session, any other request is dispatched.  The state is the update session
  beside the state of the pages.
\<close>

section \<open>The upload stream\<close>

datatype upload_end = UpComplete | UpClosed | UpIdle | UpReadFailed | UpWriteFailed

abbreviation (input) MAX_OTA_SIZE :: nat where "MAX_OTA_SIZE \<equiv> 2359296"

lemma ota_write_len: "ota_write_chunk d bs st = (Some n, st') \<Longrightarrow> n = length bs"
  by (auto simp: ota_write_chunk_def Let_def split: option.splits if_splits prod.splits bool.splits)

text \<open>A read waits at most one second; a minute without a byte ends the upload.\<close>

function ota_receive :: "'f ota_driver \<Rightarrow> nat \<Rightarrow> nat \<Rightarrow> nat \<Rightarrow> http_reader \<Rightarrow> 'f ota_state \<Rightarrow>
    upload_end \<times> http_reader \<times> 'f ota_state" where
  "ota_receive d content_length received last_progress r st =
     (if content_length \<le> received then (UpComplete, r, st)
      else case reader_read 1000 (min (content_length - received) 2048) r of
        (Inr bs, r) \<Rightarrow>
          if bs = [] then (UpClosed, r, st)
          else (case ota_write_chunk d bs st of
            (None, st) \<Rightarrow> (UpWriteFailed, r, st)
          | (Some n, st) \<Rightarrow> ota_receive d content_length (received + n) (hr_now r) r st)
      | (Inl e, r) \<Rightarrow>
          if e = IoWouldBlock \<or> e = IoTimedOut
          then if hr_now r - last_progress < 60000 then ota_receive d content_length received last_progress r st
               else (UpIdle, r, st)
          else (UpReadFailed, r, st))"
  by pat_completeness auto
termination
proof (relation "measures [\<lambda>(d, len, received, last_progress, r, st). len - received,
    \<lambda>(d, len, received, last_progress, r, st). last_progress + 60000 - hr_now r,
    \<lambda>(d, len, received, last_progress, r, st). length (hr_sock r)]", goal_cases)
  case 1
  show ?case by simp
next
  case (2 d len received last_progress r st q r' e)
  then have "reader_read 1000 (min (len - received) 2048) r = (Inl e, r')" by simp
  from reader_read_cases [OF this] 2 show ?case by auto
next
  case 3
  then show ?case by (auto dest!: sym [THEN ota_write_len] simp flip: length_greater_0_conv)
qed

declare ota_receive.simps [simp del]

text \<open>The answer, whether the device restarts, and the state.  \<open>sent\<close> says whether the answer of a success
  could be written.\<close>

definition web_at :: "http_reader \<Rightarrow> web_world \<Rightarrow> web_world" where
  "web_at r w = w\<lparr>ww_now := hr_now r\<rparr>"

definition handle_ota_upload_stream :: "'f ota_driver \<Rightarrow> web_env \<Rightarrow> bool \<Rightarrow> nat \<Rightarrow> http_reader \<Rightarrow> 'f ota_state \<times> web_world \<Rightarrow>
    u8 list \<times> bool \<times> 'f ota_state \<times> web_world" where
  "handle_ota_upload_stream d env sent content_length r sw =
     (let (st, w) = sw in
      if content_length = 0 then (web_answer 400 ''updateota'' ''400'', False, st, w)
      else if content_length > MAX_OTA_SIZE then (web_answer 413 ''updateota'' ''413'', False, st, w)
      else let total_size = of_nat content_length in
        case ota_begin d total_size st of
          (False, st) \<Rightarrow> (web_answer 500 ''updateota'' ''500'', False, snd (ota_abort d st), w)
        | (True, st) \<Rightarrow>
            (case ota_receive d content_length 0 (hr_now r) r st of
               (UpComplete, r, st) \<Rightarrow>
                 (case ota_end d (web_await env) (st, web_at r w) of
                    (True, st, w) \<Rightarrow> (web_answer 200 ''updateota'' ''0'', sent, st, w)
                  | (False, st, w) \<Rightarrow> (web_answer 500 ''updateota'' ''500'', False, snd (ota_abort d st), w))
             | (UpClosed, r, st) \<Rightarrow> (web_answer 400 ''updateota'' ''400'', False, snd (ota_abort d st), web_at r w)
             | (_, r, st) \<Rightarrow> (web_answer 500 ''updateota'' ''500'', False, snd (ota_abort d st), web_at r w)))"

section \<open>A connection\<close>

text \<open>A request that cannot be read gets no answer.  The clock of the connection goes on from the one of the pages.\<close>

definition handle_connection :: "'f ota_driver \<Rightarrow> web_env \<Rightarrow> bool \<Rightarrow> http_reader \<Rightarrow> 'f ota_state \<times> web_world \<Rightarrow>
    (io_error + u8 list) \<times> bool \<times> 'f ota_state \<times> web_world" where
  "handle_connection d env sent r sw =
     (let (st, w) = sw in
      case parse_request_headers r of
        (Inl e, r) \<Rightarrow> (Inl e, False, st, web_at r w)
      | (Inr (req, content_length, deadline), r) \<Rightarrow>
          if rq_path req = ascii ''/updateota''
          then if rq_method req \<noteq> ascii ''POST''
            then (Inr (web_answer 405 ''updateota'' ''405''), False, st, web_at r w)
            else let (ok, w) = web_authenticated req (web_at r w) in
              if \<not> ok then (Inr (send_redirect ''/login''), False, st, w)
              else let (resp, restart, st, w) = handle_ota_upload_stream d env sent content_length r (st, w)
                in (Inr resp, restart, st, w)
          else if content_length > MAX_BODY_SIZE then (Inr (web_answer 413 ''error'' ''413''), False, st, web_at r w)
          else if content_length > 0
          then (case read_bounded_body deadline content_length [] r of
              (Inl e, r) \<Rightarrow> (Inl e, False, st, web_at r w)
            | (Inr body, r) \<Rightarrow>
                let (resp, w) = dispatch_request env (req\<lparr>rq_body := body\<rparr>) (web_at r w) in (Inr resp, False, st, w))
          else let (resp, w) = dispatch_request env req (web_at r w) in (Inr resp, False, st, w))"

section \<open>An upload as a run of the session\<close>

text \<open>The session while an upload is received: the slot holds what was taken from the connection.\<close>

definition receiving :: "'f ota_view \<Rightarrow> nat \<Rightarrow> u8 list \<Rightarrow> 'f ota_state \<Rightarrow> bool" where
  "receiving v n up st \<longleftrightarrow> ota_inv v up st \<and>
     (\<exists>s. ot_session st = Some s \<and> os_handle_active s \<and> unat (os_total s) = n)"

lemma receiving_write:
  assumes "ota_driver_ok d v" and "receiving v n up st" and "ota_write_chunk d bs st = (q, st')"
  shows "ov_boot v (ot_flash st') = ov_boot v (ot_flash st) \<and>
    (\<forall>k. q = Some k \<longrightarrow> k = length bs \<and> receiving v n (up @ bs) st')"
proof -
  obtain s where s: "ot_session st = Some s" "os_handle_active s" "unat (os_total s) = n" and inv: "ota_inv v up st"
    using assms(2) by (auto simp: receiving_def)
  note w = ota_write_inv [OF assms(1) inv assms(3)]
  have "ot_session st' = Some (s\<lparr>os_written := os_written s + of_nat (length bs)\<rparr>)" if "q = Some k" for k
    using assms(3) s(1) that by (auto simp: ota_write_chunk_def Let_def split: if_splits prod.splits bool.splits)
  then show ?thesis using w s by (auto simp: receiving_def)
qed

lemma ota_receive_takes:
  assumes "ota_driver_ok d v" and "receiving v len up st" and "length up = received" and "received \<le> len"
    and "ota_receive d len received last_progress r st = (e, r', st')"
  shows "ov_boot v (ot_flash st') = ov_boot v (ot_flash st) \<and>
    (e = UpComplete \<longrightarrow> receiving v len (up @ take (len - received) (peer_bytes r)) st' \<and>
       len \<le> received + length (peer_bytes r))"
  using assms
proof (induction d len received last_progress r st arbitrary: up rule: ota_receive.induct)
  case (1 d len received last_progress r st)
  show ?case
  proof (cases "len \<le> received")
    case True
    then show ?thesis using "1.prems" by (simp add: ota_receive.simps)
  next
    case False
    let ?n = "min (len - received) 2048"
    obtain q r1 where rd: "reader_read 1000 ?n r = (q, r1)" by (rule prod.exhaust)
    note b = reader_read_bytes [OF rd]
    have ln: "length bs \<le> ?n" if "q = Inr bs" for bs using reader_read_cases [OF rd] that by simp
    show ?thesis
    proof (cases q)
      case (Inl err)
      show ?thesis
      proof (cases "(err = IoWouldBlock \<or> err = IoTimedOut) \<and> hr_now r1 - last_progress < 60000")
        case True
        then have "ota_receive d len received last_progress r1 st = (e, r', st')"
          using "1.prems"(5) False rd Inl by (subst (asm) ota_receive.simps) simp
        from "1.IH"(1) [OF False rd [symmetric] _ _ _ "1.prems"(1-4) this] True Inl b
        show ?thesis by simp
      next
        case no: False
        then show ?thesis using "1.prems"(5) False rd Inl
          by (subst (asm) ota_receive.simps) (auto split: if_splits)
      qed
    next
      case (Inr bs)
      obtain w st1 where wr: "ota_write_chunk d bs st = (w, st1)" by (rule prod.exhaust)
      note rw = receiving_write [OF "1.prems"(1,2) wr]
      show ?thesis
      proof (cases "bs = [] \<or> w = None")
        case True
        then show ?thesis using "1.prems"(5) False rd Inr wr rw
          by (subst (asm) ota_receive.simps) (auto split: if_splits)
      next
        case no: False
        then obtain k where w: "w = Some k" by (cases w) simp_all
        with rw have k: "w = Some k" "k = length bs" "receiving v len (up @ bs) st1" by simp_all
        have nxt: "ota_receive d len (received + k) (hr_now r1) r1 st1 = (e, r', st')"
          using "1.prems"(5) False rd Inr wr no k by (subst (asm) ota_receive.simps) simp
        have up: "length (up @ bs) = received + k" "received + k \<le> len" using "1.prems"(3,4) k ln [OF Inr] by auto
        have ih: "ov_boot v (ot_flash st') = ov_boot v (ot_flash st1) \<and>
            (e = UpComplete \<longrightarrow> receiving v len ((up @ bs) @ take (len - (received + k)) (peer_bytes r1)) st' \<and>
               len \<le> received + k + length (peer_bytes r1))"
          using "1.IH"(2) [OF False rd [symmetric] Inr _ wr [symmetric] k(1) "1.prems"(1) k(3) up nxt] no by blast
        have "take (len - received) (peer_bytes r) = bs @ take (len - (received + k)) (peer_bytes r1)"
          "length (peer_bytes r) = k + length (peer_bytes r1)" using b Inr k(2) ln [OF Inr] by simp_all
        then show ?thesis using ih rw by (simp add: add.assoc)
      qed
    qed
  qed
qed

lemma ota_abort_none: "ota_driver_ok d v \<Longrightarrow> ot_session (snd (ota_abort d st)) = None \<and>
    ov_boot v (ot_flash (snd (ota_abort d st))) = ov_boot v (ot_flash st)"
  using ota_abort_inv [of d v st "fst (ota_abort d st)" "snd (ota_abort d st)"] by simp

lemma ota_begin_receiving:
  assumes "ota_driver_ok d v" and "ota_begin d n st = (ok, st')"
  shows "ov_boot v (ot_flash st') = ov_boot v (ot_flash st) \<and> (ok \<longrightarrow> receiving v (unat n) [] st')"
proof (cases "ot_session st")
  case None
  then have "ota_inv v [] st" by (simp add: ota_inv_def)
  from ota_begin_inv [OF assms(1) this assms(2)]
  show ?thesis using assms(2) None
    by (auto simp: ota_begin_def ota_store_def receiving_def Let_def split: option.splits prod.splits if_splits)
next
  case (Some s)
  then show ?thesis using assms(2) by (simp add: ota_begin_def)
qed

text \<open>C15: An upload through the web page installs all of the image or nothing.  After any upload request, from any
  state of the session and however the connection and the driver behave, one of two things holds: the answer
  reports success, the slot to start from holds exactly the announced number of bytes, in the order the browser
  sent them, and the driver found them valid; or the answer reports an error, the device does not restart, the
  slot to start from is the one before, and no half-written session is left behind.\<close>

theorem upload_is_all_or_nothing:
  assumes "ota_driver_ok d v" and "handle_ota_upload_stream d env sent n r (st, w) = (resp, restart, st', w')"
  shows "(resp = web_answer 200 ''updateota'' ''0'' \<and> restart = sent \<and> n \<le> length (peer_bytes r) \<and>
      ov_image v (ot_flash st') (ov_boot v (ot_flash st')) = take n (peer_bytes r) \<and>
      ov_valid v (take n (peer_bytes r)) \<and> ota_current_status st' = OtDonePendingReboot) \<or>
    (resp \<in> {web_answer 400 ''updateota'' ''400'', web_answer 413 ''updateota'' ''413'', web_answer 500 ''updateota'' ''500''} \<and>
      restart = False \<and> ov_boot v (ot_flash st') = ov_boot v (ot_flash st) \<and>
      ot_session st' = (if n = 0 \<or> n > 2359296 then ot_session st else None))"
proof (cases "n = 0 \<or> n > 2359296")
  case True
  then show ?thesis using assms(2) by (auto simp: handle_ota_upload_stream_def)
next
  case False
  obtain ok st1 where b: "ota_begin d (of_nat n) st = (ok, st1)" by (rule prod.exhaust)
  note b1 = ota_begin_receiving [OF assms(1) b]
  note ab = ota_abort_none [OF assms(1)]
  show ?thesis
  proof (cases ok)
    case no: False
    then show ?thesis using assms(2) False b b1 ab by (auto simp: handle_ota_upload_stream_def)
  next
    case ok: True
    obtain e r1 st2 where rc: "ota_receive d n 0 (hr_now r) r st1 = (e, r1, st2)" by (rule prod_cases3)
    have "unat (of_nat n :: u32) = n" using False by (simp add: unat_of_nat)
    then have "receiving v n [] st1" using b1 ok by simp
    from ota_receive_takes [OF assms(1) this _ _ rc]
    have t: "ov_boot v (ot_flash st2) = ov_boot v (ot_flash st1)"
      "e = UpComplete \<Longrightarrow> receiving v n (take n (peer_bytes r)) st2 \<and> n \<le> length (peer_bytes r)" by simp_all
    show ?thesis
    proof (cases "e = UpComplete")
      case no: False
      then show ?thesis using assms(2) False b ok rc t(1) b1 ab
        by (cases e) (auto simp: handle_ota_upload_stream_def Let_def)
    next
      case c: True
      obtain ok2 st3 w3 where en: "ota_end d (web_await env) (st2, web_at r1 w) = (ok2, st3, w3)" by (rule prod_cases3)
      have "ota_inv v (take n (peer_bytes r)) st2" using t(2) [OF c] by (simp add: receiving_def)
      note i = ota_end_inv [OF assms(1) this en]
      show ?thesis
      proof (cases ok2)
        case no: False
        then show ?thesis using assms(2) False b ok rc c t(1) b1 ab en i
          by (auto simp: handle_ota_upload_stream_def Let_def)
      next
        case ok2: True
        then obtain s where s: "ot_session st2 = Some s" "os_handle_active s" "ov_boot v (ot_flash st3) = os_partition s"
            "ov_valid v (ov_image v (ot_flash st2) (os_partition s))"
            "ov_image v (ot_flash st3) = ov_image v (ot_flash st2)" using i by auto
        have im: "ov_image v (ot_flash st2) (os_partition s) = take n (peer_bytes r)"
          using t(2) [OF c] s(1,2) by (auto simp: receiving_def ota_inv_def)
        have "ota_current_status st3 = OtDonePendingReboot" using en ok2
          by (auto simp: ota_end_def ota_current_status_def ota_store_def split: option.splits if_splits prod.splits bool.splits)
        then show ?thesis using assms(2) False b ok rc c en ok2 s im t(2) [OF c]
          by (simp add: handle_ota_upload_stream_def Let_def)
      qed
    qed
  qed
qed

text \<open>A browser that sends one image in two pieces.\<close>

theorem upload_is_all_or_nothing_witness:
  "\<exists>resp restart st' w'. handle_ota_upload_stream demo_driver quiet_web True 3
      \<lparr>hr_buf = [0xE9], hr_sock = [(10, SkData [1, 2])], hr_now = 5\<rparr> (ota_start demo_flash0, fresh_web) = (resp, restart, st', w') \<and>
    (df_image (ot_flash st') (df_boot (ot_flash st')) = [0xE9, 1, 2] \<or> df_boot (ot_flash st') = 0)"
proof -
  obtain resp restart st' w' where h: "handle_ota_upload_stream demo_driver quiet_web True 3
      \<lparr>hr_buf = [0xE9], hr_sock = [(10, SkData [1, 2])], hr_now = 5\<rparr> (ota_start demo_flash0, fresh_web) = (resp, restart, st', w')"
    by (metis prod.exhaust)
  from upload_is_all_or_nothing [OF demo_driver_ok h]
  show ?thesis unfolding h by (auto simp: demo_view_def peer_bytes_def event_bytes_def ota_start_def demo_flash0_def)
qed

text \<open>An upload request that cannot begin ends the upload that is running.  While another client is sending an
  image, a second upload request of any admissible size is answered with an error, as it should be, but it also
  aborts the session of the first: its open handle is given back and its next piece is refused.\<close>

theorem failed_begin_ends_other_upload:
  assumes "ot_session st = Some s" and "0 < n" and "n \<le> 2359296"
  shows "\<exists>st'. handle_ota_upload_stream d env sent n r (st, w) = (web_answer 500 ''updateota'' ''500'', False, st', w) \<and>
    ot_session st' = None \<and>
    ot_flash st' = (if os_handle_active s then snd (od_abort d (os_handle s) (ot_flash st)) else ot_flash st) \<and>
    ota_write_chunk d bs st' = (None, st')"
  using assms by (auto simp: handle_ota_upload_stream_def ota_begin_def ota_abort_def ota_store_def ota_write_chunk_def Let_def
      split: prod.split)

theorem failed_begin_ends_other_upload_witness:
  "\<exists>st'. handle_ota_upload_stream demo_driver quiet_web True 1000 \<lparr>hr_buf = [], hr_sock = [], hr_now = 5\<rparr>
      (snd (ota_begin demo_driver 5000 (ota_start demo_flash0)), fresh_web) = (web_answer 500 ''updateota'' ''500'', False, st', fresh_web) \<and>
    ot_session st' = None"
proof -
  let ?st = "snd (ota_begin demo_driver 5000 (ota_start demo_flash0))"
  have "ot_session ?st \<noteq> None"
    by (simp add: ota_begin_def ota_start_def demo_driver_def ota_store_def Let_def)
  then obtain s where "ot_session ?st = Some s" by auto
  from failed_begin_ends_other_upload [OF this, of 1000 demo_driver quiet_web True "\<lparr>hr_buf = [], hr_sock = [], hr_now = 5\<rparr>" fresh_web "[]"]
  show ?thesis by auto
qed

text \<open>Without the token of the open session a connection leaves the update session alone.\<close>

lemma upload_needs_a_login:
  assumes "handle_connection d env sent r (st, w) = (resp, restart, st', w')" and "st' \<noteq> st"
  shows "\<exists>req n deadline r1. parse_request_headers r = (Inr (req, n, deadline), r1) \<and>
    rq_path req = ascii ''/updateota'' \<and> rq_method req = ascii ''POST'' \<and> fst (web_authenticated req (web_at r1 w))"
  using assms by (auto simp: handle_connection_def Let_def split: sum.splits prod.splits if_splits)

end
