(* ===== verification/Web_Clients.thy ===== *)
theory Web_Clients imports Web_Upload begin

text \<open>
  The web server over many connections: each is one run of \<open>handle_connection\<close>, pages and firmware upload alike;
  between two of them time passes and the other tasks change the device and the update session as they like.
\<close>

section \<open>The request of a connection\<close>

text \<open>The request that reaches the pages, with its body, and the one that reaches the upload, with its length.\<close>

definition page_request :: "http_reader \<Rightarrow> (http_request \<times> http_reader) option" where
  "page_request r =
     (case parse_request_headers r of
        (Inl e, r) \<Rightarrow> None
      | (Inr (req, n, deadline), r) \<Rightarrow>
          if rq_path req = ascii ''/updateota'' \<or> n > MAX_BODY_SIZE then None
          else if n = 0 then Some (req, r)
          else (case read_bounded_body deadline n [] r of
             (Inl e, r) \<Rightarrow> None | (Inr body, r) \<Rightarrow> Some (req\<lparr>rq_body := body\<rparr>, r)))"

definition upload_request :: "http_reader \<Rightarrow> (http_request \<times> http_reader) option" where
  "upload_request r =
     (case parse_request_headers r of
        (Inl e, r) \<Rightarrow> None
      | (Inr (req, n, deadline), r) \<Rightarrow>
          if rq_path req = ascii ''/updateota'' \<and> rq_method req = ascii ''POST'' then Some (req, r) else None)"

lemma ota_end_world:
  "ota_end d commit (st, w) = (ok, st', w') \<Longrightarrow> w' = w \<or> (\<exists>ok. commit w = (ok, w'))"
  by (auto simp: ota_end_def split: option.splits if_splits prod.splits bool.splits)

lemma upload_session:
  assumes "handle_ota_upload_stream d env sent n r (st, w) = (resp, restart, st', w')"
  shows "ww_session w' = ww_session w"
proof -
  have e: "ww_session v = ww_session w" if "ota_end d (web_await env) (st2, web_at r2 w) = (ok, st3, v)" for st2 r2 ok st3 v
    using ota_end_world [OF that] by (auto simp: web_at_def dest: web_await_session)
  show ?thesis using assms
    by (auto simp: handle_ota_upload_stream_def Let_def web_at_def
        split: if_splits prod.splits bool.splits upload_end.splits dest!: e [unfolded web_at_def])
qed

text \<open>What a connection can be: a request to a page, an upload, or nothing that gets further than an answer.\<close>

lemma connection_cases:
  assumes "handle_connection d env sent r (st, w) = (resp, restart, st', w')"
  shows "(\<exists>req r1 a. page_request r = Some (req, r1) \<and> upload_request r = None \<and> st' = st \<and>
      dispatch_request env req (web_at r1 w) = (a, w')) \<or>
    (\<exists>req r1 ok w1. page_request r = None \<and> upload_request r = Some (req, r1) \<and>
      web_authenticated req (web_at r1 w) = (ok, w1) \<and> (\<not> ok \<longrightarrow> st' = st \<and> w' = w1) \<and> ww_session w' = ww_session w1) \<or>
    page_request r = None \<and> upload_request r = None \<and> st' = st \<and> ww_aw w' = ww_aw w \<and> ww_session w' = ww_session w"
proof -
  obtain q r1 where h: "parse_request_headers r = (q, r1)" by (rule prod.exhaust)
  show ?thesis
  proof (cases q)
    case (Inl e)
    then show ?thesis using assms h by (auto simp: handle_connection_def page_request_def upload_request_def web_at_def)
  next
    case (Inr p)
    obtain req n deadline where p: "p = (req, n, deadline)" by (rule prod_cases3)
    show ?thesis
    proof (cases "rq_path req = ascii ''/updateota''")
      case True
      obtain ok w1 where a: "web_authenticated req (web_at r1 w) = (ok, w1)" by (rule prod.exhaust)
      obtain a2 re2 st2 w2 where u: "handle_ota_upload_stream d env sent n r1 (st, w1) = (a2, re2, st2, w2)" by (rule prod_cases4)
      show ?thesis using assms h Inr p True a u upload_session [OF u]
        by (auto simp: handle_connection_def page_request_def upload_request_def web_at_def split: if_splits)
    next
      case False
      have up: "upload_request r = None" using h Inr p False by (simp add: upload_request_def)
      show ?thesis
      proof (cases "n > MAX_BODY_SIZE")
        case True
        then show ?thesis using assms h Inr p False up by (auto simp: handle_connection_def page_request_def web_at_def)
      next
        case le: False
        show ?thesis
        proof (cases "n = 0")
          case True
          obtain a w2 where d: "dispatch_request env req (web_at r1 w) = (a, w2)" by (rule prod.exhaust)
          then show ?thesis using assms h Inr p False up True by (simp add: handle_connection_def page_request_def)
        next
          case n: False
          obtain q2 r2 where b: "read_bounded_body deadline n [] r1 = (q2, r2)" by (rule prod.exhaust)
          show ?thesis
          proof (cases q2)
            case (Inl e)
            then show ?thesis using assms h Inr p False up le n b by (auto simp: handle_connection_def page_request_def web_at_def)
          next
            case I: (Inr body)
            obtain a w2 where d: "dispatch_request env (req\<lparr>rq_body := body\<rparr>) (web_at r2 w) = (a, w2)" by (rule prod.exhaust)
            then show ?thesis using assms h Inr p False up le n b I by (simp add: handle_connection_def page_request_def)
          qed
        qed
      qed
    qed
  qed
qed

section \<open>Runs of connections\<close>

text \<open>A connection brings the reads it offers, the time since the last one, and what the other tasks did before it.\<close>

record 'f web_client =
  wc_driver :: "'f ota_driver"
  wc_env :: web_env
  wc_sent :: bool
  wc_sock :: "(nat \<times> sock_event) list"
  wc_pause :: nat
  wc_others :: "'f ota_state \<times> actor_state \<Rightarrow> 'f ota_state \<times> actor_state"

type_synonym 'f web_system = "'f ota_state \<times> web_world"

definition others_run :: "'f web_client \<Rightarrow> 'f web_system \<Rightarrow> 'f web_system" where
  "others_run c sw =
     (let (st, w) = sw; (st, aw) = wc_others c (st, ww_aw w) in (st, w\<lparr>ww_aw := aw, ww_now := ww_now w + wc_pause c\<rparr>))"

definition client_reader :: "'f web_client \<Rightarrow> 'f web_system \<Rightarrow> http_reader" where
  "client_reader c sw = \<lparr>hr_buf = [], hr_sock = wc_sock c, hr_now = ww_now (snd (others_run c sw))\<rparr>"

definition serve_client :: "'f web_client \<Rightarrow> 'f web_system \<Rightarrow> 'f web_system" where
  "serve_client c sw = snd (snd (handle_connection (wc_driver c) (wc_env c) (wc_sent c) (client_reader c sw) (others_run c sw)))"

definition serve_clients :: "'f web_client list \<Rightarrow> 'f web_system \<Rightarrow> 'f web_system" where
  "serve_clients cs sw = fold serve_client cs sw"

lemma serve_clients_simps [simp]: "serve_clients [] sw = sw"
  "serve_clients (cs @ [c]) sw = serve_client c (serve_clients cs sw)"
  by (simp_all add: serve_clients_def)

text \<open>Whether the connection is a successful login, or a logout or a completed change of the password; the time at
  which its request was read; the token of its login.\<close>

definition client_logs_in :: "'f web_client \<Rightarrow> 'f web_system \<Rightarrow> bool" where
  "client_logs_in c sw = (case page_request (client_reader c sw) of
     None \<Rightarrow> False | Some (req, r) \<Rightarrow> login_request req (web_at r (snd (others_run c sw))))"

definition client_ends :: "'f web_client \<Rightarrow> 'f web_system \<Rightarrow> bool" where
  "client_ends c sw = (case page_request (client_reader c sw) of
     None \<Rightarrow> False | Some (req, r) \<Rightarrow> ends_session (wc_env c) req (web_at r (snd (others_run c sw))))"

definition client_request :: "'f web_client \<Rightarrow> 'f web_system \<Rightarrow> (http_request \<times> http_reader) option" where
  "client_request c sw = (case page_request (client_reader c sw) of
     None \<Rightarrow> upload_request (client_reader c sw) | Some p \<Rightarrow> Some p)"

definition client_time :: "'f web_client \<Rightarrow> 'f web_system \<Rightarrow> nat" where
  "client_time c sw = (case client_request c sw of None \<Rightarrow> hr_now (client_reader c sw) | Some (req, r) \<Rightarrow> hr_now r)"

definition client_token :: "'f web_client \<Rightarrow> u8 list" where
  "client_token c = generate_session_token (we_random (wc_env c))"

text \<open>A login still counts after the connections \<open>cs\<close>: none of them is a login, a logout or a change of the password.\<close>

fun login_counts :: "'f web_client list \<Rightarrow> 'f web_system \<Rightarrow> bool" where
  "login_counts [] sw = True"
| "login_counts (c # cs) sw = (\<not> client_logs_in c sw \<and> \<not> client_ends c sw \<and> login_counts cs (serve_client c sw))"

lemma login_counts_snoc [simp]:
  "login_counts (cs @ [c]) sw =
    (login_counts cs sw \<and> \<not> client_logs_in c (serve_clients cs sw) \<and> \<not> client_ends c (serve_clients cs sw))"
  by (induction cs arbitrary: sw) (auto simp: serve_clients_def)

lemma others_session [simp]: "ww_session (snd (others_run c sw)) = ww_session (snd sw)"
  by (simp add: others_run_def split: prod.split)

lemma web_at_fields [simp]: "ww_session (web_at r w) = ww_session w" "ww_aw (web_at r w) = ww_aw w" "ww_now (web_at r w) = hr_now r"
  by (simp_all add: web_at_def)

lemma serve_client_eq:
  obtains resp restart where "handle_connection (wc_driver c) (wc_env c) (wc_sent c) (client_reader c sw)
    (fst (others_run c sw), snd (others_run c sw)) = (resp, restart, fst (serve_client c sw), snd (serve_client c sw))"
  by (cases "handle_connection (wc_driver c) (wc_env c) (wc_sent c) (client_reader c sw) (others_run c sw)")
    (simp add: serve_client_def)

text \<open>The session after a connection is the one its login opened, or the one before it.\<close>

lemma client_session:
  assumes "se_active (ww_session (snd (serve_client c sw)))"
  shows "client_logs_in c sw \<and> ww_session (snd (serve_client c sw)) =
      snd (create_session_cookie (client_time c sw) (we_random (wc_env c)) (ww_session (snd sw))) \<or>
    \<not> client_logs_in c sw \<and> \<not> client_ends c sw \<and> ww_session (snd (serve_client c sw)) = ww_session (snd sw)"
proof -
  obtain resp restart where h: "handle_connection (wc_driver c) (wc_env c) (wc_sent c) (client_reader c sw)
    (fst (others_run c sw), snd (others_run c sw)) = (resp, restart, fst (serve_client c sw), snd (serve_client c sw))"
    by (rule serve_client_eq)
  from connection_cases [OF h] show ?thesis
  proof (elim disjE exE conjE)
    fix req r1 a
    assume p: "page_request (client_reader c sw) = Some (req, r1)"
      and d: "dispatch_request (wc_env c) req (web_at r1 (snd (others_run c sw))) = (a, snd (serve_client c sw))"
    show ?thesis using dispatch_session [OF d assms] p
      by (auto simp: client_logs_in_def client_ends_def client_time_def client_request_def)
  next
    fix req r1 ok w1
    assume p: "page_request (client_reader c sw) = None"
      and a: "web_authenticated req (web_at r1 (snd (others_run c sw))) = (ok, w1)"
      and s: "ww_session (snd (serve_client c sw)) = ww_session w1"
    show ?thesis using authenticated_session [OF a] assms s p by (auto simp: client_logs_in_def client_ends_def)
  next
    assume "page_request (client_reader c sw) = None"
      and "ww_session (snd (serve_client c sw)) = ww_session (snd (others_run c sw))"
    then show ?thesis by (simp add: client_logs_in_def client_ends_def)
  qed
qed

lemma change_needs_cookie:
  assumes "fst (serve_client c sw) \<noteq> fst (others_run c sw) \<or> ww_aw (snd (serve_client c sw)) \<noteq> ww_aw (snd (others_run c sw))"
    and "length (se_token (ww_session (snd sw))) = 16 \<or> \<not> se_active (ww_session (snd sw))"
  shows "se_active (ww_session (snd sw)) \<and> (\<exists>req r. client_request c sw = Some (req, r) \<and>
    cookie_token req = Some (hex_encode_16 (se_token (ww_session (snd sw))))) \<and>
    (\<exists>t. se_created (ww_session (snd sw)) = Some t \<and> client_time c sw - t < 86400000)"
proof -
  obtain resp restart where h: "handle_connection (wc_driver c) (wc_env c) (wc_sent c) (client_reader c sw)
    (fst (others_run c sw), snd (others_run c sw)) = (resp, restart, fst (serve_client c sw), snd (serve_client c sw))"
    by (rule serve_client_eq)
  have act: "se_active (ww_session w)" if "web_authenticated req w = (True, w1)" for req w w1
    using that by (auto simp: web_authenticated_def is_authenticated_def auth_pairs_cookie validate_session_cookie_def
        split: prod.splits option.splits if_splits)
  from connection_cases [OF h] show ?thesis
  proof (elim disjE exE conjE)
    fix req r1 a
    assume p: "page_request (client_reader c sw) = Some (req, r1)" and st: "fst (serve_client c sw) = fst (others_run c sw)"
      and d: "dispatch_request (wc_env c) req (web_at r1 (snd (others_run c sw))) = (a, snd (serve_client c sw))"
    let ?w = "web_at r1 (snd (others_run c sw))"
    obtain ok w1 where au: "web_authenticated req ?w = (ok, w1)" by (rule prod.exhaust)
    have ch: "ww_aw (snd (serve_client c sw)) \<noteq> ww_aw ?w" using assms(1) st by simp
    have ok using dispatch_needs_auth [OF d ch] au by simp
    then have "length (se_token (ww_session ?w)) = 16" using act [of req ?w w1] au assms(2) by simp
    from dispatch_needs_cookie [OF d ch this] show ?thesis using p by (auto simp: client_request_def client_time_def)
  next
    fix req r1 ok w1
    let ?w = "web_at r1 (snd (others_run c sw))"
    assume p: "page_request (client_reader c sw) = None" "upload_request (client_reader c sw) = Some (req, r1)"
      and a: "web_authenticated req ?w = (ok, w1)"
      and n: "\<not> ok \<longrightarrow> fst (serve_client c sw) = fst (others_run c sw) \<and> snd (serve_client c sw) = w1"
    have ok using n assms(1) authenticated_session [OF a] by auto
    then have "length (se_token (ww_session ?w)) = 16" using act [of req ?w w1] a assms(2) by simp
    from authenticated_cookie [OF a [unfolded eqTrueI [OF \<open>ok\<close>]] this] show ?thesis
      using p by (auto simp: client_request_def client_time_def)
  next
    assume "fst (serve_client c sw) = fst (others_run c sw)" "ww_aw (snd (serve_client c sw)) = ww_aw (snd (others_run c sw))"
    then show ?thesis using assms(1) by simp
  qed
qed

lemma open_session_from_login:
  assumes "\<not> se_active (ww_session (snd s0))" and "se_active (ww_session (snd (serve_clients cs s0)))"
  shows "\<exists>before c after. cs = before @ c # after \<and> client_logs_in c (serve_clients before s0) \<and>
    login_counts after (serve_client c (serve_clients before s0)) \<and>
    se_token (ww_session (snd (serve_clients cs s0))) = client_token c \<and>
    se_created (ww_session (snd (serve_clients cs s0))) = Some (client_time c (serve_clients before s0))"
  using assms(2)
proof (induction cs rule: rev_induct)
  case Nil
  then show ?case using assms(1) by simp
next
  case (snoc c cs)
  let ?s = "serve_clients cs s0"
  from client_session [of c ?s] snoc.prems consider
    "client_logs_in c ?s" "ww_session (snd (serve_client c ?s)) =
       snd (create_session_cookie (client_time c ?s) (we_random (wc_env c)) (ww_session (snd ?s)))"
    | "\<not> client_logs_in c ?s" "\<not> client_ends c ?s" "ww_session (snd (serve_client c ?s)) = ww_session (snd ?s)" by auto
  then show ?case
  proof cases
    case 1
    have "cs @ [c] = cs @ c # []" and "login_counts [] (serve_client c ?s)" by simp_all
    moreover have "se_token (ww_session (snd (serve_clients (cs @ [c]) s0))) = client_token c \<and>
        se_created (ww_session (snd (serve_clients (cs @ [c]) s0))) = Some (client_time c ?s)"
      using 1 by (simp add: client_token_def create_session_cookie_def Let_def)
    ultimately show ?thesis using 1(1) by blast
  next
    case 2
    then obtain before c' after where h: "cs = before @ c' # after" "client_logs_in c' (serve_clients before s0)"
      "login_counts after (serve_client c' (serve_clients before s0))" "se_token (ww_session (snd ?s)) = client_token c'"
      "se_created (ww_session (snd ?s)) = Some (client_time c' (serve_clients before s0))"
      using snoc.IH snoc.prems by auto
    have run: "serve_clients after (serve_client c' (serve_clients before s0)) = ?s" by (simp add: h(1) serve_clients_def)
    have "cs @ [c] = before @ c' # (after @ [c])" using h(1) by simp
    moreover have "login_counts (after @ [c]) (serve_client c' (serve_clients before s0))" using 2 h(3) run by simp
    moreover have "ww_session (snd (serve_clients (cs @ [c]) s0)) = ww_session (snd ?s)" using 2 by simp
    ultimately show ?thesis using h(2,4,5) by metis
  qed
qed

text \<open>C12: Every change a connection makes outside the session goes back to a login.  In any run of connections to the
  web server, pages and firmware uploads alike, from a state without a session, a connection that changes the device or
  the update session carries the token of an earlier successful login with the password of that moment; the login is
  less than a day old, and no other successful login, no logout and no completed change of the password came in
  between.  (A change of the password whose last write to flash fails is reported as failed and keeps the session.)\<close>

theorem changes_need_a_login:
  assumes "\<not> se_active (ww_session (snd s0))" and "\<forall>x\<in>set cs. length (we_random (wc_env x)) = 4"
    and "fst (serve_client c (serve_clients cs s0)) \<noteq> fst (others_run c (serve_clients cs s0)) \<or>
      ww_aw (snd (serve_client c (serve_clients cs s0))) \<noteq> ww_aw (snd (others_run c (serve_clients cs s0)))"
  shows "\<exists>before login after req r. cs = before @ login # after \<and>
    client_logs_in login (serve_clients before s0) \<and>
    login_counts after (serve_client login (serve_clients before s0)) \<and>
    client_request c (serve_clients cs s0) = Some (req, r) \<and>
    cookie_token req = Some (hex_encode_16 (client_token login)) \<and>
    client_time c (serve_clients cs s0) - client_time login (serve_clients before s0) < 86400000"
proof -
  let ?s = "serve_clients cs s0"
  have tok: "length (client_token x) = 16" if "x \<in> set cs" for x
    using assms(2) that by (auto simp: client_token_def generate_session_token_def le32_bytes_def length_concat comp_def
      sum_list_triv)
  have len: "length (se_token (ww_session (snd ?s))) = 16 \<or> \<not> se_active (ww_session (snd ?s))"
    using open_session_from_login [OF assms(1), of cs] tok by auto
  note ch = change_needs_cookie [OF assms(3) len]
  then obtain before login after where h: "cs = before @ login # after" "client_logs_in login (serve_clients before s0)"
      "login_counts after (serve_client login (serve_clients before s0))" "se_token (ww_session (snd ?s)) = client_token login"
      "se_created (ww_session (snd ?s)) = Some (client_time login (serve_clients before s0))"
    using open_session_from_login [OF assms(1), of cs] by blast
  from ch obtain req r where "client_request c ?s = Some (req, r)" "cookie_token req = Some (hex_encode_16 (client_token login))"
    unfolding h(4) by blast
  moreover have "client_time c ?s - client_time login (serve_clients before s0) < 86400000" using ch h(5) by simp
  ultimately show ?thesis using h(1-3) by blast
qed

section \<open>An example: a login and an output\<close>

text \<open>A request with two header fields that arrives in one piece.\<close>

lemma line_in_buffer:
  assumes "hr_buf r = l @ 10 # rest" and "10 \<notin> set l" and "list_all (\<lambda>b. b < 0x80) l" and "length l < 1024" and "hr_now r < d"
  shows "read_header_line d [] r = (Inr (l @ [10]), r\<lparr>hr_buf := rest\<rparr>)"
proof -
  have tw: "takeWhile (\<lambda>b. b \<noteq> 10) (l @ 10 # rest) = l" using assms(2) by (subst takeWhile_append2) auto
  have n: "line_take (l @ 10 # rest) = Suc (length l)" by (simp add: line_take_def tw)
  have f: "fill_buf tmo r = (Inr (l @ 10 # rest), r)" for tmo using assms(1) by (simp add: fill_buf_def)
  have u: "utf8_valid (l @ [10])" using assms(3) by (intro utf8_valid_ascii) simp
  show ?thesis using assms u
    by (subst read_header_line.simps) (simp add: set_read_timeout_to_deadline_def f n Let_def nth_append)
qed

lemma first_line_arrives:
  assumes "length bs \<le> 512" and "bs \<noteq> []" and "t < d"
  shows "read_header_line d [] \<lparr>hr_buf = [], hr_sock = [(0, SkData bs)], hr_now = t\<rparr> =
    read_header_line d [] \<lparr>hr_buf = bs, hr_sock = [], hr_now = t\<rparr>"
  using assms by (subst (1 2) read_header_line.simps) (simp add: set_read_timeout_to_deadline_def fill_buf_def sock_read_def min_def)

lemma two_field_request:
  assumes "list_all (\<lambda>b. b < 0x80 \<and> b \<noteq> 10) (l1 @ l2 @ l3)" and "length l1 < 150 \<and> length l2 < 150 \<and> length l3 < 150 \<and> length body < 32"
    and "request_of_line (l1 @ [10]) = Inr (m, p)" and "str_trim (l2 @ [10]) \<noteq> []" and "str_trim (l3 @ [10]) \<noteq> []"
    and "header_field (str_trim (l2 @ [10])) ([], 0) = Inr cl" and "header_field (str_trim (l3 @ [10])) cl = Inr (c, n)"
  shows "parse_request_headers \<lparr>hr_buf = [], hr_sock = [(0, SkData (l1 @ 10 # l2 @ 10 # l3 @ 10 # 13 # 10 # body))], hr_now = t\<rparr> =
    (Inr (\<lparr>rq_method = m, rq_path = p, rq_cookie = c, rq_body = []\<rparr>, n, t + 8000), \<lparr>hr_buf = body, hr_sock = [], hr_now = t\<rparr>)"
proof -
  have a: "10 \<notin> set l \<and> list_all (\<lambda>b. b < 0x80) l" if "l \<in> {l1, l2, l3}" for l using assms(1) that by (auto simp: list_all_iff)
  have l: "read_header_line (t + 8000) [] \<lparr>hr_buf = l @ 10 # rest, hr_sock = [], hr_now = t\<rparr> =
      (Inr (l @ [10]), \<lparr>hr_buf = rest, hr_sock = [], hr_now = t\<rparr>)" if "l \<in> {l1, l2, l3}" for l rest
    using a [OF that] assms(2) that by (subst line_in_buffer [of _ l rest]) auto
  have z: "read_header_line (t + 8000) [] \<lparr>hr_buf = 13 # 10 # body, hr_sock = [], hr_now = t\<rparr> =
      (Inr [13, 10], \<lparr>hr_buf = body, hr_sock = [], hr_now = t\<rparr>)"
    by (subst line_in_buffer [of _ "[13]" body]) auto
  have sz: "str_trim [13, 10] = []" by code_simp
  have "read_header_line (t + 8000) [] \<lparr>hr_buf = [], hr_sock = [(0, SkData (l1 @ 10 # l2 @ 10 # l3 @ 10 # 13 # 10 # body))], hr_now = t\<rparr> =
      (Inr (l1 @ [10]), \<lparr>hr_buf = l2 @ 10 # l3 @ 10 # 13 # 10 # body, hr_sock = [], hr_now = t\<rparr>)"
    using assms(2) by (subst first_line_arrives) (simp_all add: l)
  moreover have "read_headers (t + 8000) 0 (Suc (length l1)) ([], 0) \<lparr>hr_buf = l2 @ 10 # l3 @ 10 # 13 # 10 # body, hr_sock = [], hr_now = t\<rparr> =
      (Inr (c, n), \<lparr>hr_buf = body, hr_sock = [], hr_now = t\<rparr>)"
    using assms(2,4-7) by (subst read_headers.simps, simp add: l, subst read_headers.simps, simp add: l, subst read_headers.simps, simp add: z sz)
  ultimately show ?thesis using assms(3) by (simp add: parse_request_headers_def Let_def)
qed

lemma body_in_buffer:
  assumes "t < d" and "b \<noteq> []"
  shows "read_bounded_body d (length b) [] \<lparr>hr_buf = b, hr_sock = [], hr_now = t\<rparr> = (Inr b, \<lparr>hr_buf = [], hr_sock = [], hr_now = t\<rparr>)"
proof -
  have "\<exists>tmo. set_read_timeout_to_deadline d \<lparr>hr_buf = b, hr_sock = [], hr_now = t\<rparr> = Some tmo"
    using assms(1) by (simp add: set_read_timeout_to_deadline_def)
  moreover have "reader_read tmo (length b) \<lparr>hr_buf = b, hr_sock = [], hr_now = t\<rparr> = (Inr b, \<lparr>hr_buf = [], hr_sock = [], hr_now = t\<rparr>)" for tmo
    using assms(2) by (simp add: reader_read_def fill_buf_def)
  ultimately show ?thesis using assms by (subst read_bounded_body.simps) (auto, subst read_bounded_body.simps, auto)
qed

definition bytes_of :: "string \<Rightarrow> string \<Rightarrow> string \<Rightarrow> string \<Rightarrow> u8 list" where
  "bytes_of l1 l2 l3 body = (ascii l1 @ [13]) @ 10 # (ascii l2 @ [13]) @ 10 # (ascii l3 @ [13]) @ 10 # 13 # 10 # ascii body"

definition demo_client :: "u8 list \<Rightarrow> demo_flash web_client" where
  "demo_client bs = \<lparr>wc_driver = demo_driver, wc_env = quiet_web, wc_sent = True, wc_sock = [(0, SkData bs)], wc_pause = 5,
     wc_others = (\<lambda>x. x)\<rparr>"

definition login_bytes :: "u8 list" where
  "login_bytes = bytes_of ''POST /login HTTP/1.1'' ''Host: a'' ''Content-Length: 30'' ''username=admin&pwd=admin123456''"

definition output_bytes :: "u8 list" where
  "output_bytes = bytes_of ''POST /iocontrol HTTP/1.1'' ''Cookie: a=b; ESPSESSIONID=01000000020000000300000004000000''
     ''Content-Length: 14'' ''addr=3&value=1''"

lemma content_length_field:
  assumes "parse_uint USIZE_MAX (ascii n) = Some k" and "str_trim (32 # ascii n) = ascii n"
  shows "header_field (ascii ''Content-Length:'' @ 32 # ascii n) (c, m) = Inr (c, k)"
proof -
  have "split_once 0x3A (ascii ''Content-Length:'' @ 32 # ascii n) = Some (ascii ''Content-Length'', 32 # ascii n)"
    by (simp add: ascii_def)
  moreover have "str_trim (ascii ''Content-Length'') = ascii ''Content-Length''" by code_simp
  moreover have "eq_ignore_ascii_case (ascii ''Content-Length'') (ascii ''Content-Length'')" by code_simp
  ultimately show ?thesis using assms by (simp add: header_field_def Let_def)
qed

lemma demo_lengths: "parse_uint USIZE_MAX (ascii ''30'') = Some 30" "parse_uint USIZE_MAX (ascii ''14'') = Some 14"
  by (simp_all add: parse_uint_def ascii_def dec_digit_def)

lemma login_lines:
  "request_of_line ((ascii ''POST /login HTTP/1.1'' @ [13]) @ [10]) = Inr (ascii ''POST'', ascii ''/login'')"
  "str_trim ((ascii ''Host: a'' @ [13]) @ [10]) = ascii ''Host: a''"
  "str_trim ((ascii ''Content-Length: 30'' @ [13]) @ [10]) = ascii ''Content-Length:'' @ 32 # ascii ''30''"
  "str_trim (32 # ascii ''30'') = ascii ''30''"
  "header_field (ascii ''Host: a'') ([], 0) = Inr ([], 0)"
  by code_simp+

lemma output_lines:
  "request_of_line ((ascii ''POST /iocontrol HTTP/1.1'' @ [13]) @ [10]) = Inr (ascii ''POST'', ascii ''/iocontrol'')"
  "str_trim ((ascii ''Cookie: a=b; ESPSESSIONID=01000000020000000300000004000000'' @ [13]) @ [10]) =
     ascii ''Cookie: a=b; ESPSESSIONID=01000000020000000300000004000000''"
  "str_trim ((ascii ''Content-Length: 14'' @ [13]) @ [10]) = ascii ''Content-Length:'' @ 32 # ascii ''14''"
  "str_trim (32 # ascii ''14'') = ascii ''14''"
  by code_simp+

lemma output_cookie:
  "header_field (ascii ''Cookie: a=b; ESPSESSIONID=01000000020000000300000004000000'') ([], 0) =
     Inr (ascii ''a=b; ESPSESSIONID=01000000020000000300000004000000'', 0)"
proof -
  have "split_once 0x3A (ascii ''Cookie: a=b; ESPSESSIONID=01000000020000000300000004000000'') =
      Some (ascii ''Cookie'', 32 # ascii ''a=b; ESPSESSIONID=01000000020000000300000004000000'')" by (simp add: ascii_def)
  moreover have "str_trim (ascii ''Cookie'') = ascii ''Cookie''" by code_simp
  moreover have "str_trim (32 # ascii ''a=b; ESPSESSIONID=01000000020000000300000004000000'') =
      ascii ''a=b; ESPSESSIONID=01000000020000000300000004000000''" by code_simp
  moreover have "\<not> eq_ignore_ascii_case (ascii ''Cookie'') (ascii ''Content-Length'')"
    "eq_ignore_ascii_case (ascii ''Cookie'') (ascii ''Cookie'')" by code_simp+
  ultimately show ?thesis by (simp add: header_field_def Let_def) (simp add: ascii_def)
qed

lemma login_parses: "page_request \<lparr>hr_buf = [], hr_sock = [(0, SkData login_bytes)], hr_now = t\<rparr> =
    Some (demo_login, \<lparr>hr_buf = [], hr_sock = [], hr_now = t\<rparr>)"
proof -
  have p: "parse_request_headers \<lparr>hr_buf = [], hr_sock = [(0, SkData login_bytes)], hr_now = t\<rparr> =
      (Inr (\<lparr>rq_method = ascii ''POST'', rq_path = ascii ''/login'', rq_cookie = [], rq_body = []\<rparr>, 30, t + 8000),
       \<lparr>hr_buf = ascii ''username=admin&pwd=admin123456'', hr_sock = [], hr_now = t\<rparr>)"
    unfolding login_bytes_def bytes_of_def
    by (rule two_field_request [where cl = "([], 0)"])
      (simp_all only: login_lines content_length_field [OF demo_lengths(1) login_lines(4)], simp_all add: ascii_def)
  have l: "length (ascii ''username=admin&pwd=admin123456'') = 30" "ascii ''username=admin&pwd=admin123456'' \<noteq> []" by (simp_all add: ascii_def)
  have b: "read_bounded_body (t + 8000) 30 [] \<lparr>hr_buf = ascii ''username=admin&pwd=admin123456'', hr_sock = [], hr_now = t\<rparr> =
      (Inr (ascii ''username=admin&pwd=admin123456''), \<lparr>hr_buf = [], hr_sock = [], hr_now = t\<rparr>)"
    using body_in_buffer [OF _ l(2), of t "t + 8000"] unfolding l(1) by simp
  have "ascii ''/login'' \<noteq> ascii ''/updateota''" by (simp add: ascii_def)
  then show ?thesis by (simp add: page_request_def p b demo_login_def post_request_def) (simp add: ascii_def)
qed

lemma output_parses: "page_request \<lparr>hr_buf = [], hr_sock = [(0, SkData output_bytes)], hr_now = t\<rparr> =
    Some (demo_output, \<lparr>hr_buf = [], hr_sock = [], hr_now = t\<rparr>)"
proof -
  have p: "parse_request_headers \<lparr>hr_buf = [], hr_sock = [(0, SkData output_bytes)], hr_now = t\<rparr> =
      (Inr (\<lparr>rq_method = ascii ''POST'', rq_path = ascii ''/iocontrol'',
         rq_cookie = ascii ''a=b; ESPSESSIONID=01000000020000000300000004000000'', rq_body = []\<rparr>, 14, t + 8000),
       \<lparr>hr_buf = ascii ''addr=3&value=1'', hr_sock = [], hr_now = t\<rparr>)"
    unfolding output_bytes_def bytes_of_def
    by (rule two_field_request [where cl = "(ascii ''a=b; ESPSESSIONID=01000000020000000300000004000000'', 0)"])
      (simp_all only: output_lines output_cookie content_length_field [OF demo_lengths(2) output_lines(4)], simp_all add: ascii_def)
  have l: "length (ascii ''addr=3&value=1'') = 14" "ascii ''addr=3&value=1'' \<noteq> []" by (simp_all add: ascii_def)
  have b: "read_bounded_body (t + 8000) 14 [] \<lparr>hr_buf = ascii ''addr=3&value=1'', hr_sock = [], hr_now = t\<rparr> =
      (Inr (ascii ''addr=3&value=1''), \<lparr>hr_buf = [], hr_sock = [], hr_now = t\<rparr>)"
    using body_in_buffer [OF _ l(2), of t "t + 8000"] unfolding l(1) by simp
  have "ascii ''/iocontrol'' \<noteq> ascii ''/updateota''" by (simp add: ascii_def)
  then show ?thesis by (simp add: page_request_def p b demo_output_def post_request_def)
qed

text \<open>A page request is dispatched, and nothing else happens.\<close>

lemma serve_page:
  assumes "page_request (client_reader c sw) = Some (req, r)"
  shows "serve_client c sw = (fst (others_run c sw), snd (dispatch_request (wc_env c) req (web_at r (snd (others_run c sw)))))"
proof -
  obtain resp restart where h: "handle_connection (wc_driver c) (wc_env c) (wc_sent c) (client_reader c sw)
    (fst (others_run c sw), snd (others_run c sw)) = (resp, restart, fst (serve_client c sw), snd (serve_client c sw))"
    by (rule serve_client_eq)
  show ?thesis using connection_cases [OF h] assms by (auto intro: prod_eqI)
qed

definition demo_start :: "demo_flash web_system" where
  "demo_start = (ota_start demo_flash0, fresh_web)"

lemma demo_others: "others_run (demo_client bs) (st, w) = (st, w\<lparr>ww_now := ww_now w + 5\<rparr>)"
  by (simp add: others_run_def demo_client_def)

lemma demo_reader: "client_reader (demo_client bs) (st, w) = \<lparr>hr_buf = [], hr_sock = [(0, SkData bs)], hr_now = ww_now w + 5\<rparr>"
  by (simp add: client_reader_def demo_others) (simp add: demo_client_def)

lemma demo_logged_in: "serve_clients [demo_client login_bytes] demo_start =
    (ota_start demo_flash0, fresh_web\<lparr>ww_now := 5, ww_session := demo_session\<rparr>)"
proof -
  have n: "ww_now fresh_web = 0" by (simp add: fresh_web_def)
  have e: "wc_env (demo_client bs) = quiet_web" for bs by (simp add: demo_client_def)
  have "serve_client (demo_client login_bytes) demo_start =
      (ota_start demo_flash0, snd (dispatch_request quiet_web demo_login (fresh_web\<lparr>ww_now := 5\<rparr>)))"
    using serve_page [of "demo_client login_bytes" demo_start demo_login] login_parses [of 5]
    by (simp add: demo_start_def demo_reader demo_others n e web_at_def)
  also have "snd (dispatch_request quiet_web demo_login (fresh_web\<lparr>ww_now := 5\<rparr>)) = fresh_web\<lparr>ww_now := 5, ww_session := demo_session\<rparr>"
    by (subst demo_login_run) simp
  finally show ?thesis by (simp add: serve_clients_def)
qed

lemma demo_changes:
  "ww_aw (snd (serve_client (demo_client output_bytes) (serve_clients [demo_client login_bytes] demo_start))) \<noteq>
     ww_aw (snd (others_run (demo_client output_bytes) (serve_clients [demo_client login_bytes] demo_start)))"
proof -
  let ?sw = "(ota_start demo_flash0, fresh_web\<lparr>ww_now := 5, ww_session := demo_session\<rparr>)"
  have e: "wc_env (demo_client bs) = quiet_web" for bs by (simp add: demo_client_def)
  have "serve_client (demo_client output_bytes) ?sw =
      (ota_start demo_flash0, snd (dispatch_request quiet_web demo_output (fresh_web\<lparr>ww_session := demo_session, ww_now := 10\<rparr>)))"
    using serve_page [of "demo_client output_bytes" ?sw demo_output] output_parses [of 10]
    by (simp add: demo_reader demo_others e web_at_def)
  then show ?thesis using demo_output_run unfolding demo_logged_in by (simp add: demo_others)
qed

theorem changes_need_a_login_witness:
  "\<exists>before login after. [demo_client login_bytes] = before @ login # after \<and>
    client_logs_in login (serve_clients before demo_start) \<and>
    login_counts after (serve_client login (serve_clients before demo_start))"
proof -
  have "\<not> se_active (ww_session (snd demo_start))" by (simp add: demo_start_def fresh_web_def session_empty_def)
  moreover have "\<forall>x\<in>set [demo_client login_bytes]. length (we_random (wc_env x)) = 4" by (simp add: demo_client_def quiet_web_def)
  ultimately show ?thesis using changes_need_a_login [OF _ _ disjI2 [OF demo_changes]] by blast
qed

end
