(* ===== verification/At_Text.thy ===== *)
theory At_Text imports Web_Text Ble_Link begin

text \<open>
  Text commands of the radio link (\<open>src/ble_at/parser.rs\<close>): the numbers in them, the answers and the split of
  a line into command and arguments.  A slice that does not start and end at a character ends the program; it is
  the value \<open>None\<close>.
\<close>

section \<open>Answers\<close>

definition ok_none :: "u8 list" where
  "ok_none = ascii ''OK'' @ crlf"

definition ok_data :: "u8 list \<Rightarrow> u8 list" where
  "ok_data data = ascii ''OK '' @ data @ crlf"

definition at_err :: "nat \<Rightarrow> u8 list \<Rightarrow> u8 list" where
  "at_err code msg = ascii ''ERROR '' @ fmt_dec code @ ascii '': '' @ msg @ crlf"

section \<open>Numbers\<close>

fun hex_digits_value :: "nat \<Rightarrow> u8 list \<Rightarrow> nat option" where
  "hex_digits_value acc [] = Some acc"
| "hex_digits_value acc (b # bs) = (case hex_value b of None \<Rightarrow> None | Some d \<Rightarrow> hex_digits_value (acc * 16 + d) bs)"

text \<open>\<open>from_str_radix(s, 16)\<close> of an unsigned integer with the largest value \<open>mx\<close>.\<close>

definition from_hex :: "nat \<Rightarrow> u8 list \<Rightarrow> nat option" where
  "from_hex mx s =
     (if s = [] \<or> s = [0x2B] \<or> s = [0x2D] then None
      else let digits = (case s of b # bs \<Rightarrow> if b = 0x2B then bs else s | [] \<Rightarrow> s)
        in case hex_digits_value 0 digits of None \<Rightarrow> None | Some n \<Rightarrow> if n \<le> mx then Some n else None)"

definition strip_prefix :: "u8 list \<Rightarrow> u8 list \<Rightarrow> u8 list option" where
  "strip_prefix p s = (if take (length p) s = p then Some (drop (length p) s) else None)"

definition parse_number :: "nat \<Rightarrow> u8 list \<Rightarrow> nat option" where
  "parse_number mx s =
     (let s = str_trim s in
      if s = [] then None
      else case (case strip_prefix (ascii ''0x'') s of Some hex \<Rightarrow> Some hex | None \<Rightarrow> strip_prefix (ascii ''0X'') s) of
        Some hex \<Rightarrow> from_hex mx hex
      | None \<Rightarrow> parse_uint mx s)"

definition parse_u16 :: "u8 list \<Rightarrow> u16 option" where
  "parse_u16 s = map_option of_nat (parse_number 65535 s)"

definition parse_u32 :: "u8 list \<Rightarrow> u32 option" where
  "parse_u32 s = map_option of_nat (parse_number 4294967295 s)"

text \<open>What is no number is left out; at most 128 numbers are kept.\<close>

fun parse_parts :: "nat \<Rightarrow> u8 list list \<Rightarrow> u16 list" where
  "parse_parts room [] = []"
| "parse_parts room (p # ps) =
     (case parse_u16 p of None \<Rightarrow> parse_parts room ps
      | Some n \<Rightarrow> if room = 0 then [] else n # parse_parts (room - 1) ps)"

definition parse_u16_list :: "u8 list \<Rightarrow> u16 list" where
  "parse_u16_list s = parse_parts 128 (split_on 0x2C s)"

section \<open>The line\<close>

definition is_char_boundary :: "u8 list \<Rightarrow> nat \<Rightarrow> bool" where
  "is_char_boundary s i \<longleftrightarrow> i = 0 \<or> i = length s \<or> i < length s \<and> \<not> (0x80 \<le> s ! i \<and> s ! i \<le> 0xBF)"

definition slice_to :: "nat \<Rightarrow> u8 list \<Rightarrow> u8 list option" where
  "slice_to i s = (if is_char_boundary s i then Some (take i s) else None)"

text \<open>A line is empty, not a command, the bare prefix, or a command with its arguments.\<close>

datatype at_line = AtEmpty | AtNotCommand | AtBare | AtCommand "u8 list" "u8 list"

definition command_split :: "u8 list \<Rightarrow> u8 list \<times> u8 list" where
  "command_split rest =
     (let cmd = takeWhile (\<lambda>b. b \<noteq> 0x3D \<and> b \<noteq> 0x3F) rest
      in case drop (length cmd) rest of
           [] \<Rightarrow> (rest, [])
         | sep # args \<Rightarrow> (cmd, if sep = 0x3F then [] else args))"

definition parse_line :: "u8 list \<Rightarrow> at_line option" where
  "parse_line line =
     (let line = str_trim line in
      if line = [] then Some AtEmpty
      else if length line < 2 then Some AtNotCommand
      else case slice_to 2 line of
        None \<Rightarrow> None
      | Some p \<Rightarrow>
          Some (if \<not> eq_ignore_ascii_case p (ascii ''AT'') then AtNotCommand
            else if length line = 2 then AtBare
            else let rest = drop 2 line;
                     rest = (case strip_prefix (ascii ''+'') rest of Some r \<Rightarrow> r | None \<Rightarrow> rest);
                     (cmd, args) = command_split rest
              in AtCommand cmd args))"

end
