(* ===== verification/At_Config.thy ===== *)
theory At_Config imports At_Text Web_Pages begin

text \<open>
  Text commands for the configuration (\<open>src/ble_at/cfg_handlers.rs\<close>).  A command without arguments shows a
  value, one with arguments checks them and publishes a new configuration; it is saved only by the commands that
  say so.
\<close>

section \<open>Reading and changing the configuration\<close>

definition with_cfg_mut :: "(system_config \<Rightarrow> system_config) \<Rightarrow> bus_state \<Rightarrow> bus_state" where
  "with_cfg_mut f s = snd (config_modify (\<lambda>c. ((), f c)) s)"

definition fill_text :: "nat \<Rightarrow> u8 list \<Rightarrow> u8 list" where
  "fill_text n args = copy_at (replicate n 0) 0 args"

definition handle_cfgsn :: "u8 list \<Rightarrow> bus_state \<Rightarrow> u8 list \<times> bus_state" where
  "handle_cfgsn args s =
     (let args = str_trim args in
      if args = [] then (ok_data (sn_str (bus_config s)), s)
      else if length args > 32 then (at_err 10 (ascii ''sn too long (max 32)''), s)
      else (ok_none, with_cfg_mut (\<lambda>c. c\<lparr>sc_sn := fill_text 32 args\<rparr>) s))"

definition handle_cfgname :: "u8 list \<Rightarrow> bus_state \<Rightarrow> u8 list \<times> bus_state" where
  "handle_cfgname args s =
     (let args = str_trim args in
      if args = [] then (ok_data (name_str (bus_config s)), s)
      else if length args > 16 then (at_err 10 (ascii ''name too long (max 16)''), s)
      else (ok_none, with_cfg_mut (\<lambda>c. c\<lparr>sc_name := fill_text 16 args\<rparr>) s))"

section \<open>Network\<close>

definition parse_ipv4 :: "u8 list \<Rightarrow> u8 list option" where
  "parse_ipv4 s =
     (let parts = split_on 0x2E s in
      if length parts \<noteq> 4 then None
      else case map (parse_uint U8_MAX) parts of
        [Some a, Some b, Some c, Some d] \<Rightarrow> Some [of_nat a, of_nat b, of_nat c, of_nat d]
      | _ \<Rightarrow> None)"

definition host_ip_ok :: "u8 list \<Rightarrow> bool" where
  "host_ip_ok a \<longleftrightarrow> \<not> (a = [0, 0, 0, 0] \<or> a ! 0 \<ge> 224)"

definition cfgip_text :: "system_config \<Rightarrow> u8 list" where
  "cfgip_text c =
     ascii ''ip='' @ fmt_ip (sc_ip c) @ ascii '',mask='' @ fmt_ip (sc_mask c) @ ascii '',gw='' @ fmt_ip (sc_gateway c) @
     ascii '',dns='' @ fmt_ip (sc_dns c) @ ascii '',dhcp='' @ fmt_dec (if sc_dhcp c then 1 else 0)"

text \<open>The addresses of the command, or the message of the check that fails first.\<close>

definition cfgip_addrs :: "u8 list list \<Rightarrow> u8 list + u8 list \<times> u8 list \<times> u8 list \<times> u8 list" where
  "cfgip_addrs parts =
     (case parse_ipv4 (parts ! 0) of None \<Rightarrow> Inl (at_err 11 (ascii ''invalid ip'')) | Some ip \<Rightarrow>
     (case parse_ipv4 (parts ! 1) of None \<Rightarrow> Inl (at_err 11 (ascii ''invalid mask'')) | Some msk \<Rightarrow>
      if \<not> is_ipv4_netmask msk then Inl (at_err 11 (ascii ''mask is not contiguous''))
      else
     (case parse_ipv4 (parts ! 2) of None \<Rightarrow> Inl (at_err 11 (ascii ''invalid gw'')) | Some gw \<Rightarrow>
     (case (if length parts = 4 then parse_ipv4 (parts ! 3) else Some gw) of
        None \<Rightarrow> Inl (at_err 11 (ascii ''invalid dns''))
      | Some dns \<Rightarrow>
          if \<not> host_ip_ok ip then Inl (at_err 11 (ascii ''invalid ip''))
          else if \<not> host_ip_ok gw then Inl (at_err 11 (ascii ''invalid gw''))
          else if \<not> host_ip_ok dns then Inl (at_err 11 (ascii ''invalid dns''))
          else Inr (ip, msk, gw, dns)))))"

definition handle_cfgip :: "u8 list \<Rightarrow> bus_state \<Rightarrow> u8 list \<times> bus_state" where
  "handle_cfgip args s =
     (let args = str_trim args in
      if args = [] then (ok_data (cfgip_text (bus_config s)), s)
      else let parts = split_on 0x2C args in
        if length parts < 3 \<or> length parts > 4
        then (at_err 10 (ascii ''usage: AT+CFGIP=<ip>,<mask>,<gw>[,<dns>]''), s)
        else (case cfgip_addrs parts of
            Inl e \<Rightarrow> (e, s)
          | Inr (ip, msk, gw, dns) \<Rightarrow>
              (ok_none, with_cfg_mut (\<lambda>c. c\<lparr>sc_ip := ip, sc_mask := msk, sc_gateway := gw, sc_dns := dns, sc_dhcp := False\<rparr>) s)))"

definition handle_cfgdhcp :: "u8 list \<Rightarrow> bus_state \<Rightarrow> u8 list \<times> bus_state" where
  "handle_cfgdhcp args s =
     (case parse_u16 args of
        None \<Rightarrow> (at_err 10 (ascii ''invalid value''), s)
      | Some v \<Rightarrow>
          if v > 1 then (at_err 11 (ascii ''dhcp must be 0 or 1''), s)
          else (ok_data (ascii ''dhcp='' @ fmt_dec (unat v)), with_cfg_mut (\<lambda>c. c\<lparr>sc_dhcp := v \<noteq> 0\<rparr>) s))"

definition handle_cfgmac :: "bus_state \<Rightarrow> u8 list" where
  "handle_cfgmac s = ok_data (fmt_mac hex_up (sc_eth_mac (bus_config s)))"

definition handle_cfgbtmac :: "bus_state \<Rightarrow> u8 list" where
  "handle_cfgbtmac s = ok_data (fmt_mac hex_up (sc_ble_mac (bus_config s)))"

text \<open>The command comes over a connection, during which the name of the radio is only marked for an update.\<close>

definition handle_cfgbtname :: "u8 list \<Rightarrow> bus_state \<Rightarrow> u8 list \<times> bus_state" where
  "handle_cfgbtname args s =
     (let args = str_trim args in
      if args = [] then (ok_data (ble_name_str (bus_config s)), s)
      else if length args > 8 then (at_err 10 (ascii ''ble name too long (max 8)''), s)
      else (ok_none, notify_ble_name_changed (request_persist_config (sync_ble_name_holding
              (with_cfg_mut (\<lambda>c. c\<lparr>sc_ble_name := fill_text 8 args\<rparr>) s)))))"

section \<open>Serial ports\<close>

definition cfg485_text :: "nat \<Rightarrow> rs485_config \<Rightarrow> u8 list" where
  "cfg485_text idx r =
     ascii ''idx='' @ fmt_dec idx @ ascii '',baud='' @ fmt_dec (unat (rs_baudrate r)) @
     ascii '',data='' @ fmt_dec (unat (rs_data_bits r)) @ ascii '',stop='' @ fmt_dec (unat (rs_stop_bits r)) @
     ascii '',parity='' @ fmt_dec (unat (rs_parity r)) @ ascii '',slave='' @ fmt_dec (unat (rs_slave_addr r)) @
     ascii '',mode='' @ fmt_dec (unat (rs_mode r))"

text \<open>One argument: its value when it is in the list, else the message.\<close>

definition one_of :: "u16 list \<Rightarrow> string \<Rightarrow> u8 list \<Rightarrow> u8 list + u8" where
  "one_of vs msg p =
     (case parse_u16 p of
        None \<Rightarrow> Inl (at_err 11 (ascii msg))
      | Some v \<Rightarrow> if v \<in> set vs then Inr (ucast v) else Inl (at_err 11 (ascii msg)))"

definition baud_arg :: "u8 list \<Rightarrow> u8 list + u32" where
  "baud_arg p =
     (case parse_u32 p of
        None \<Rightarrow> Inl (at_err 11 (ascii ''invalid baud''))
      | Some v \<Rightarrow> if 300 \<le> v \<and> v \<le> 921600 then Inr v else Inl (at_err 11 (ascii ''baud out of range (300..921600)'')))"

definition slave_arg :: "u8 list \<Rightarrow> u8 list + u8" where
  "slave_arg p =
     (case parse_u16 p of
        None \<Rightarrow> Inl (at_err 11 (ascii ''invalid slave''))
      | Some v \<Rightarrow> if 1 \<le> v \<and> v \<le> 247 then Inr (ucast v) else Inl (at_err 11 (ascii ''slave out of range (1..247)'')))"

definition cfg485_args :: "u8 list list \<Rightarrow> u8 list + (rs485_config \<Rightarrow> rs485_config)" where
  "cfg485_args parts =
     (case baud_arg (parts ! 1) of Inl e \<Rightarrow> Inl e | Inr baud \<Rightarrow>
     (case one_of [7, 8] ''data_bits must be 7 or 8'' (parts ! 2) of Inl e \<Rightarrow> Inl e | Inr data \<Rightarrow>
     (case one_of [1, 2] ''stop_bits must be 1 or 2'' (parts ! 3) of Inl e \<Rightarrow> Inl e | Inr stop \<Rightarrow>
     (case one_of [0, 1, 2] ''parity must be 0/1/2'' (parts ! 4) of Inl e \<Rightarrow> Inl e | Inr parity \<Rightarrow>
     (case slave_arg (parts ! 5) of Inl e \<Rightarrow> Inl e | Inr slave \<Rightarrow>
     (case one_of [0, 1, 2] ''mode must be 0/1/2'' (parts ! 6) of Inl e \<Rightarrow> Inl e | Inr mode \<Rightarrow>
        Inr (\<lambda>r. r\<lparr>rs_baudrate := baud, rs_data_bits := data, rs_stop_bits := stop, rs_parity := parity,
          rs_slave_addr := slave, rs_mode := mode\<rparr>)))))))"

definition handle_cfg485 :: "u8 list \<Rightarrow> bus_state \<Rightarrow> u8 list \<times> bus_state" where
  "handle_cfg485 args s =
     (let parts = split_on 0x2C args in
      case parse_u16 (parts ! 0) of
        None \<Rightarrow> (at_err 11 (ascii ''invalid idx (0..2)''), s)
      | Some i \<Rightarrow>
          if \<not> i < 3 then (at_err 11 (ascii ''invalid idx (0..2)''), s)
          else let idx = unat i in
            if length parts = 1 then (ok_data (cfg485_text idx (sc_rs485 (bus_config s) ! idx)), s)
            else if length parts = 7
            then (case cfg485_args parts of
                Inl e \<Rightarrow> (e, s)
              | Inr f \<Rightarrow> (ok_none, with_cfg_mut (\<lambda>c. c\<lparr>sc_rs485 := (sc_rs485 c)[idx := f (sc_rs485 c ! idx)]\<rparr>) s))
            else (at_err 10 (ascii ''expected 1 or 7 args''), s))"

section \<open>Saving\<close>

text \<open>\<open>reason\<close> is the text of the failed save.\<close>

definition apply_and_answer :: "device_env \<Rightarrow> u8 list \<Rightarrow> string \<Rightarrow> device_world \<Rightarrow> u8 list \<times> device_world" where
  "apply_and_answer env reason msg w =
     (case apply_config env w of
        (True, w) \<Rightarrow> (ok_data (ascii msg), on_bus request_apply_config w)
      | (False, w) \<Rightarrow> (at_err 20 (ascii ''apply: '' @ reason), w))"

definition handle_cfgapply :: "device_env \<Rightarrow> u8 list \<Rightarrow> device_world \<Rightarrow> u8 list \<times> device_world" where
  "handle_cfgapply env reason w =
     apply_and_answer env reason ''applied''
       (on_bus (with_cfg_mut (\<lambda>c. c\<lparr>sc_cfg_version := sc_cfg_version c + 1\<rparr>)) w)"

definition handle_cfgreset :: "device_env \<Rightarrow> u8 list \<Rightarrow> device_world \<Rightarrow> u8 list \<times> device_world" where
  "handle_cfgreset env reason w =
     apply_and_answer env reason ''reset to defaults''
       (on_bus (\<lambda>s. with_cfg_mut (\<lambda>_. defaults_with_hardware_sn (env_hw_mac (bus_env s))) s) w)"

section \<open>All values, and registers by address\<close>

definition cfginfo_text :: "system_config \<Rightarrow> u8 list" where
  "cfginfo_text c =
     ascii ''sn='' @ sn_str c @ ascii '',name='' @ name_str c @ ascii '',hw=0x'' @ fmt_hex hex_up 4 (unat (sc_hw_version c)) @
     ascii '',fw=0x'' @ fmt_hex hex_up 4 (unat (sc_fw_version c)) @ ascii '',cfg_ver='' @ fmt_dec (unat (sc_cfg_version c)) @
     ascii '',ip='' @ fmt_ip (sc_ip c) @ ascii '',mask='' @ fmt_ip (sc_mask c) @ ascii '',gw='' @ fmt_ip (sc_gateway c) @
     ascii '',dhcp='' @ fmt_dec (if sc_dhcp c then 1 else 0) @ ascii '',eth_mac='' @ fmt_mac hex_up (sc_eth_mac c) @
     ascii '',ble_mac='' @ fmt_mac hex_up (sc_ble_mac c) @ ascii '',ble_name='' @ ble_name_str c @
     concat (map (\<lambda>i. ascii '',rs485_'' @ fmt_dec i @ ascii ''=baud'' @ fmt_dec (unat (rs_baudrate (sc_rs485 c ! i))) @
       ascii ''/slave'' @ fmt_dec (unat (rs_slave_addr (sc_rs485 c ! i)))) [0..<3])"

definition handle_cfginfo :: "bus_state \<Rightarrow> u8 list" where
  "handle_cfginfo s = ok_data (cfginfo_text (bus_config s))"

definition value_answer :: "u16 \<Rightarrow> u8 list" where
  "value_answer v = ok_data (fmt_dec (unat v) @ ascii '',0x'' @ fmt_hex hex_up 4 (unat v))"

definition handle_cfgread :: "u8 list \<Rightarrow> bus_state \<Rightarrow> u8 list" where
  "handle_cfgread args s =
     (case parse_u16 args of
        None \<Rightarrow> at_err 10 (ascii ''invalid addr'')
      | Some addr \<Rightarrow>
          if \<not> in_range HOLD_CFG_BASE (HOLD_CFG_END + 1) addr
          then at_err 11 (ascii ''addr out of range [0x'' @ fmt_hex hex_up 4 (unat HOLD_CFG_BASE) @ ascii ''..0x'' @
            fmt_hex hex_up 4 (unat (HOLD_CFG_END + 1 :: u16)) @ ascii '')'')
          else value_answer (case_option 0 id (read_reg (bus_config s) addr)))"

definition handle_cfgwrite :: "u8 list \<Rightarrow> bus_state \<Rightarrow> u8 list \<times> bus_state" where
  "handle_cfgwrite args s =
     (let parts = splitn 2 0x2C args in
      if length parts \<noteq> 2 then (at_err 10 (ascii ''usage: AT+CFGWRITE=<addr>,<value>''), s)
      else case parse_u16 (parts ! 0) of
        None \<Rightarrow> (at_err 10 (ascii ''invalid addr''), s)
      | Some addr \<Rightarrow>
          (case parse_u16 (parts ! 1) of
             None \<Rightarrow> (at_err 10 (ascii ''invalid value''), s)
           | Some v \<Rightarrow>
               if \<not> in_range HOLD_CFG_BASE (HOLD_CFG_END + 1) addr then (at_err 11 (ascii ''addr out of range''), s)
               else let (result, s) = config_modify (write_reg addr v) s;
                        s = (if result \<noteq> WNotFound \<and> is_ble_name_hold_addr addr
                             then notify_ble_name_changed (sync_ble_name_holding s) else s)
                 in (case result of
                       WOk \<Rightarrow> (ok_none, s)
                     | WPersist \<Rightarrow> (ok_data (ascii ''persist requested''), request_apply_config s)
                     | WApply \<Rightarrow> (ok_data (ascii ''apply requested''), request_apply_config s)
                     | WReset \<Rightarrow> (ok_data (ascii ''reset to defaults''), request_apply_config s)
                     | WNotFound \<Rightarrow> (at_err 12 (ascii ''field not found''), s)
                     | WInvalidValue \<Rightarrow> (at_err 11 (ascii ''value out of range''), s))))"

end
