(* ===== verification/At_Commands.thy ===== *)
theory At_Commands imports At_Config Ota begin

text \<open>
  The other text commands (\<open>src/ble_at/handlers.rs\<close>, \<open>ota_handlers.rs\<close>) and their dispatch (\<open>process\<close> of
  \<open>parser.rs\<close>).  The state is the world of the storage actor, the wait for pending settings and the update
  session; constants of the build, the texts of failed calls and the drivers are the environment.
\<close>

record 'f at_world =
  at_aw :: actor_state
  at_await :: await_state
  at_ota :: "'f ota_state"

record 'f at_env =
  ae_dev :: device_env
  ae_ota :: "'f ota_driver"
  ae_step :: "nat \<Rightarrow> actor_state \<Rightarrow> actor_state"
  ae_slack :: "nat \<Rightarrow> nat"
  ae_now :: nat
  ae_reason :: "u8 list"
  ae_app_version :: "u8 list"
  ae_hw_name :: "u8 list"

definition at_bus :: "'f at_world \<Rightarrow> bus_state" where
  "at_bus w = dw_bus (snd (at_aw w))"

definition at_dev :: "(device_world \<Rightarrow> 'a \<times> device_world) \<Rightarrow> 'f at_world \<Rightarrow> 'a \<times> 'f at_world" where
  "at_dev f w = (let (a, d) = at_aw w; (r, d) = f d in (r, w\<lparr>at_aw := (a, d)\<rparr>))"

definition at_on_bus :: "(bus_state \<Rightarrow> 'a \<times> bus_state) \<Rightarrow> 'f at_world \<Rightarrow> 'a \<times> 'f at_world" where
  "at_on_bus f = at_dev (\<lambda>d. let (r, s) = f (dw_bus d) in (r, d\<lparr>dw_bus := s\<rparr>))"

section \<open>The protocol area\<close>

definition handle_at_read :: "u8 list \<Rightarrow> bus_state \<Rightarrow> u8 list" where
  "handle_at_read args s =
     (case parse_u16 args of
        None \<Rightarrow> at_err 10 (ascii ''invalid addr'')
      | Some addr \<Rightarrow>
          (case proto_read addr s of
             None \<Rightarrow> at_err 11 (ascii ''addr out of range'')
           | Some v \<Rightarrow> value_answer v))"

text \<open>The second of two parts, empty when there is none.\<close>

definition nth_part :: "nat \<Rightarrow> u8 list list \<Rightarrow> u8 list" where
  "nth_part i parts = (if i < length parts then parts ! i else [])"

definition handle_at_write :: "u8 list \<Rightarrow> bus_state \<Rightarrow> u8 list \<times> bus_state" where
  "handle_at_write args s =
     (let parts = splitn 2 0x2C args in
      case parse_u16 (nth_part 0 parts) of
        None \<Rightarrow> (at_err 10 (ascii ''usage: AT+WRITE=<addr>,<value>''), s)
      | Some addr \<Rightarrow>
          (case parse_u16 (nth_part 1 parts) of
             None \<Rightarrow> (at_err 10 (ascii ''invalid value''), s)
           | Some v \<Rightarrow>
               (case proto_write addr v s of
                  (True, s) \<Rightarrow> (ok_none, s)
                | (False, s) \<Rightarrow> (at_err 11 (ascii ''addr out of range''), s))))"

definition handle_bulkr :: "u8 list \<Rightarrow> bus_state \<Rightarrow> u8 list" where
  "handle_bulkr args s =
     (let parts = splitn 2 0x2C args in
      case parse_u16 (nth_part 0 parts) of
        None \<Rightarrow> at_err 10 (ascii ''invalid start'')
      | Some start \<Rightarrow>
          (case parse_u16 (nth_part 1 parts) of
             None \<Rightarrow> at_err 10 (ascii ''invalid len'')
           | Some len \<Rightarrow>
               if len = 0 \<or> len > 1500 then at_err 12 (ascii ''len out of range (1..=1500)'')
               else let data = proto_read_bulk start len s in
                 if data = [] then at_err 11 (ascii ''start out of range'')
                 else ok_data (join_bytes 0x2C (map (\<lambda>v. ascii ''0x'' @ fmt_hex hex_up 4 (unat v)) data))))"

definition handle_bulkw :: "u8 list \<Rightarrow> bus_state \<Rightarrow> u8 list \<times> bus_state" where
  "handle_bulkw args s =
     (case parse_u16_list args of
        start # v # vs \<Rightarrow>
          (case proto_write_bulk start (v # vs) s of
             (True, s) \<Rightarrow> (ok_data (fmt_dec (length (v # vs)) @ ascii '' words''), s)
           | (False, s) \<Rightarrow> (at_err 11 (ascii ''write failed''), s))
      | _ \<Rightarrow> (at_err 10 (ascii ''usage: AT+BULKW=<start>,<v1>,<v2>,...''), s))"

definition handle_commit :: "'f at_env \<Rightarrow> device_world \<Rightarrow> u8 list \<times> device_world" where
  "handle_commit env w =
     (let (ok, nv, s) = proto_commit (de_nvs (ae_dev env)) (de_proto_between (ae_dev env)) (dw_nvs w, dw_bus w);
          w = w\<lparr>dw_nvs := nv, dw_bus := s\<rparr>
      in (if ok then ok_data (ascii ''committed'') else at_err 20 (ascii ''commit: '' @ ae_reason env), w))"

definition handle_reload :: "'f at_env \<Rightarrow> device_world \<Rightarrow> u8 list \<times> device_world" where
  "handle_reload env w =
     (let (ok, s) = proto_reload (dw_nvs w) (dw_bus w)
      in (if ok then ok_data (ascii ''reloaded'') else at_err 20 (ascii ''reload: '' @ ae_reason env), w\<lparr>dw_bus := s\<rparr>))"

definition handle_info :: "bus_state \<Rightarrow> u8 list" where
  "handle_info s =
     (let info = proto_info_of s in
      ok_data (ascii ''cap='' @ fmt_dec (unat (pf_capacity info)) @ ascii '',ver='' @ fmt_dec (unat (pf_version info)) @
        ascii '',len='' @ fmt_dec (unat (pf_length info)) @ ascii '',dirty='' @ fmt_dec (if pf_dirty info then 1 else 0) @
        ascii '',status='' @ fmt_dec (unat (pf_status info)) @ ascii '',magic=0x'' @ fmt_hex hex_up 4 (unat (pf_magic info)) @
        ascii '',proto_base=0x'' @ fmt_hex hex_up 4 (unat PROTO_BASE)))"

section \<open>Status\<close>

text \<open>Hexadecimal without leading zeros.\<close>

fun fmt_hex_short :: "nat \<Rightarrow> u8 list" where
  "fmt_hex_short n = (if n < 16 then [hex_up (of_nat n)] else fmt_hex_short (n div 16) @ [hex_up (of_nat (n mod 16))])"

declare fmt_hex_short.simps [simp del]

definition handle_status :: "'f at_env \<Rightarrow> bus_state \<Rightarrow> u8 list" where
  "handle_status env s =
     (let io = bus_io s; word = (\<lambda>v::u16. ascii ''0x'' @ fmt_hex hex_up 4 (unat v)) in
      ok_data (ascii ''uptime='' @ fmt_dec (unat (sys_uptime_s (io_sys io))) @
        ascii ''s,fw='' @ word (sys_firmware_version (io_sys io)) @
        ascii '',rst='' @ fmt_dec (unat (sys_reset_count (io_sys io))) @ ascii '',ver='' @ ae_hw_name env @
        ascii '',di=0x'' @ fmt_hex_short (unat (load_bits (io_di io))) @
        ascii '',do=0x'' @ fmt_hex_short (unat (load_bits (io_do io))) @
        ascii '',ai='' @ join_bytes 0x2C (map (\<lambda>i. word (ai_get_scaled (io_ai io) i)) [0..<6]) @
        ascii '',ao='' @ join_bytes 0x2C (map (\<lambda>i. word (ao_get_scaled (io_ao io) i)) [0..<4])))"

definition request_reset_by :: "reset_source \<Rightarrow> bus_state \<Rightarrow> bus_state" where
  "request_reset_by src s = s\<lparr>bus_io := (bus_io s)\<lparr>io_sys := request_reset src (io_sys (bus_io s))\<rparr>\<rparr>"

definition handle_reset :: "bus_state \<Rightarrow> u8 list \<times> bus_state" where
  "handle_reset s = (ok_data (ascii ''resetting in 200ms''), request_reset_by BLE_AT s)"

definition handle_version :: "'f at_env \<Rightarrow> u8 list" where
  "handle_version env =
     ok_data (ascii ''imc-controller v'' @ ae_app_version env @ ascii '' (HW: '' @ ae_hw_name env @ ascii '')'')"

section \<open>Firmware update\<close>

abbreviation (input) OTA_AT_CHUNK_MAX :: nat where "OTA_AT_CHUNK_MAX \<equiv> 512"

definition handle_ota_begin :: "'f at_env \<Rightarrow> u8 list \<Rightarrow> 'f ota_state \<Rightarrow> u8 list \<times> 'f ota_state" where
  "handle_ota_begin env args st =
     (case parse_uint 4294967295 (str_trim args) of
        None \<Rightarrow> (at_err 10 (ascii ''usage: AT+OTA=BEGIN,<total_size>''), st)
      | Some n \<Rightarrow>
          (case ota_begin (ae_ota env) (of_nat n) (set_pending_total (of_nat n) st) of
             (True, st) \<Rightarrow> (ok_data (ascii ''begin total='' @ fmt_dec n), st)
           | (False, st) \<Rightarrow> (at_err 20 (ascii ''begin: '' @ ae_reason env), st)))"

text \<open>The bytes of the text, or the place of the first character that is no digit.\<close>

fun hex_bytes :: "nat \<Rightarrow> u8 list \<Rightarrow> nat + u8 list" where
  "hex_bytes i (a # b # rest) =
     (case hex_value a of None \<Rightarrow> Inl i | Some hi \<Rightarrow>
      (case hex_value b of None \<Rightarrow> Inl (i + 1) | Some lo \<Rightarrow>
       (case hex_bytes (i + 2) rest of Inl e \<Rightarrow> Inl e
        | Inr bs \<Rightarrow> Inr ((push_bit 4 (of_nat hi) OR of_nat lo) # bs))))"
| "hex_bytes i rest = Inr []"

definition handle_ota_write :: "'f at_env \<Rightarrow> u8 list \<Rightarrow> 'f ota_state \<Rightarrow> u8 list \<times> 'f ota_state" where
  "handle_ota_write env args st =
     (let hex = str_trim args in
      if hex = [] then (at_err 10 (ascii ''empty data''), st)
      else if length hex mod 2 \<noteq> 0 then (at_err 11 (ascii ''odd hex length''), st)
      else if length hex div 2 > OTA_AT_CHUNK_MAX then (at_err 12 (ascii ''chunk too large (max 512 bytes)''), st)
      else case hex_bytes 0 hex of
        Inl i \<Rightarrow> (at_err 13 (ascii ''invalid hex at '' @ fmt_dec i), st)
      | Inr buf \<Rightarrow>
          (case ota_write_chunk (ae_ota env) buf st of
             (Some n, st) \<Rightarrow> (ok_data (ascii ''written='' @ fmt_dec n @ ascii '',total='' @ fmt_dec (length buf)), st)
           | (None, st) \<Rightarrow> (at_err 20 (ascii ''write: '' @ ae_reason env), st)))"

definition at_wait :: "'f at_env \<Rightarrow> await_state \<times> actor_state \<Rightarrow> bool \<times> await_state \<times> actor_state" where
  "at_wait env sa =
     (let (r, polls, st, aw) = await_pending_persistence (ae_step env) (ae_slack env) (ae_now env) (fst sa) (snd sa)
      in (r = Inr (), st, aw))"

definition handle_ota_end :: "'f at_env \<Rightarrow> 'f at_world \<Rightarrow> u8 list \<times> 'f at_world" where
  "handle_ota_end env w =
     (let (ok, st, a, aw) = ota_end (ae_ota env) (at_wait env) (at_ota w, at_await w, at_aw w)
      in (if ok then ok_data (ascii ''ended, send AT+OTA=REBOOT to apply'') else at_err 20 (ascii ''end: '' @ ae_reason env),
          w\<lparr>at_ota := st, at_await := a, at_aw := aw\<rparr>))"

definition handle_ota_abort :: "'f at_env \<Rightarrow> 'f ota_state \<Rightarrow> u8 list \<times> 'f ota_state" where
  "handle_ota_abort env st =
     (case ota_abort (ae_ota env) st of
        (True, st) \<Rightarrow> (ok_data (ascii ''aborted''), st)
      | (False, st) \<Rightarrow> (at_err 20 (ascii ''abort: '' @ ae_reason env), st))"

definition handle_ota_status :: "'f ota_state \<Rightarrow> u8 list" where
  "handle_ota_status st =
     ok_data (ascii ''status='' @ fmt_dec (unat (ota_status_code (ota_current_status st))) @
       ascii '',written='' @ fmt_dec (unat (written_bytes st)) @ ascii '',total='' @ fmt_dec (unat (total_bytes st)))"

definition handle_ota_reboot :: "'f ota_state \<Rightarrow> bus_state \<Rightarrow> u8 list \<times> bus_state" where
  "handle_ota_reboot st s =
     (let status = ota_current_status st in
      if status \<noteq> OtDonePendingReboot
      then (at_err 30 (ascii ''cannot reboot: status='' @ fmt_dec (unat (ota_status_code status))), s)
      else (ok_none, request_reset_by BLE_OTA s))"

definition at_on_ota :: "('f ota_state \<Rightarrow> 'a \<times> 'f ota_state) \<Rightarrow> 'f at_world \<Rightarrow> 'a \<times> 'f at_world" where
  "at_on_ota f w = (let (r, st) = f (at_ota w) in (r, w\<lparr>at_ota := st\<rparr>))"

definition handle_ota :: "'f at_env \<Rightarrow> u8 list \<Rightarrow> 'f at_world \<Rightarrow> u8 list \<times> 'f at_world" where
  "handle_ota env args w =
     (let parts = splitn 2 0x2C args; sub = str_trim (nth_part 0 parts); rest = nth_part 1 parts;
          is = (\<lambda>name. eq_ignore_ascii_case sub (ascii name)) in
      if is ''BEGIN'' then at_on_ota (handle_ota_begin env rest) w
      else if is ''WRITE'' then at_on_ota (handle_ota_write env rest) w
      else if is ''END'' then handle_ota_end env w
      else if is ''ABORT'' then at_on_ota (handle_ota_abort env) w
      else if is ''STATUS'' then (handle_ota_status (at_ota w), w)
      else if is ''REBOOT'' then at_on_bus (handle_ota_reboot (at_ota w)) w
      else (at_err 2 (ascii ''usage: AT+OTA=BEGIN/WRITE/END/ABORT/STATUS/REBOOT''), w))"

section \<open>Dispatch\<close>

definition dispatch_command :: "'f at_env \<Rightarrow> u8 list \<Rightarrow> u8 list \<Rightarrow> 'f at_world \<Rightarrow> u8 list \<times> 'f at_world" where
  "dispatch_command env cmd args w =
     (let is = (\<lambda>name. eq_ignore_ascii_case cmd (ascii name)) in
      if is ''READ'' then (handle_at_read args (at_bus w), w)
      else if is ''WRITE'' then at_on_bus (handle_at_write args) w
      else if is ''BULKR'' then (handle_bulkr args (at_bus w), w)
      else if is ''BULKW'' then at_on_bus (handle_bulkw args) w
      else if is ''COMMIT'' then at_dev (handle_commit env) w
      else if is ''RELOAD'' then at_dev (handle_reload env) w
      else if is ''INFO'' then (handle_info (at_bus w), w)
      else if is ''STATUS'' then (handle_status env (at_bus w), w)
      else if is ''RESET'' then at_on_bus handle_reset w
      else if is ''VERSION'' then (handle_version env, w)
      else if is ''CFGSN'' then at_on_bus (handle_cfgsn args) w
      else if is ''CFGNAME'' then at_on_bus (handle_cfgname args) w
      else if is ''CFGIP'' then at_on_bus (handle_cfgip args) w
      else if is ''CFGDHCP'' then at_on_bus (handle_cfgdhcp args) w
      else if is ''CFGMAC'' then (handle_cfgmac (at_bus w), w)
      else if is ''CFGBTMAC'' then (handle_cfgbtmac (at_bus w), w)
      else if is ''CFGBTNAME'' then at_on_bus (handle_cfgbtname args) w
      else if is ''CFG485'' then at_on_bus (handle_cfg485 args) w
      else if is ''CFGAPPLY'' then at_dev (handle_cfgapply (ae_dev env) (ae_reason env)) w
      else if is ''CFGRESET'' then at_dev (handle_cfgreset (ae_dev env) (ae_reason env)) w
      else if is ''CFGINFO'' then (handle_cfginfo (at_bus w), w)
      else if is ''CFGREAD'' then (handle_cfgread args (at_bus w), w)
      else if is ''CFGWRITE'' then at_on_bus (handle_cfgwrite args) w
      else if is ''OTA'' then handle_ota env args w
      else (at_err 2 (ascii ''unknown command''), w))"

definition process_line :: "'f at_env \<Rightarrow> u8 list \<Rightarrow> 'f at_world \<Rightarrow> (u8 list \<times> 'f at_world) option" where
  "process_line env line w =
     (case parse_line line of
        None \<Rightarrow> None
      | Some AtEmpty \<Rightarrow> Some (ok_none, w)
      | Some AtNotCommand \<Rightarrow> Some (at_err 1 (ascii ''not AT command''), w)
      | Some AtBare \<Rightarrow> Some (ok_none, w)
      | Some (AtCommand cmd args) \<Rightarrow> Some (dispatch_command env cmd args w))"

end
