(* ===== verification/At_Facts.thy ===== *)
theory At_Facts imports At_Commands Web_Ports "HOL-Library.Sublist" begin

text \<open>
  What the text commands promise: a line that came over the link is always answered, addresses and firmware bytes
  survive their way through the text, and which checks the register commands leave out.
\<close>

section \<open>Lines from the link\<close>

text \<open>One step of the text channel in the main loop: the first complete line is executed and its answer queued.\<close>

definition serve_text_line :: "'f at_env \<Rightarrow> ble_locks \<Rightarrow> ble_link \<times> 'f at_world \<Rightarrow> (ble_link \<times> 'f at_world) option" where
  "serve_text_line env lk lw =
     (let (l, w) = lw in
      case take_line lk l of
        (None, l) \<Rightarrow> Some (l, w)
      | (Some line, l) \<Rightarrow>
          (case process_line env line w of
             None \<Rightarrow> None
           | Some (resp, w) \<Rightarrow>
               let frame = (case build_ble_frame 0 0 resp of Some f \<Rightarrow> Some f
                 | None \<Rightarrow> build_ble_frame 0 0 (at_err 3 (ascii ''response too long'')))
               in Some (case frame of None \<Rightarrow> l | Some f \<Rightarrow> snd (enqueue_tx_frame lk f l), w)))"

datatype 'f text_step = TextWrite ble_locks "u8 list" bus_state | TextServe ble_locks "'f at_env"

fun run_text :: "'f text_step list \<Rightarrow> ble_link \<times> 'f at_world \<Rightarrow> (ble_link \<times> 'f at_world) option" where
  "run_text [] lw = Some lw"
| "run_text (TextWrite lk data s # ss) lw = run_text ss (fst (feed_data lk data (fst lw, s)), snd lw)"
| "run_text (TextServe lk env # ss) lw = (case serve_text_line env lk lw of None \<Rightarrow> None | Some lw \<Rightarrow> run_text ss lw)"

definition ascii_text :: "u8 list \<Rightarrow> bool" where
  "ascii_text s \<longleftrightarrow> list_all (\<lambda>b. b < 128) s"

lemma utf8_chars_ascii: "ascii_text s \<Longrightarrow> utf8_chars s = map (\<lambda>b. [b]) s"
  by (induction s) (simp_all add: ascii_text_def utf8_chars.simps utf8_step_def utf8_lead_def)

lemma concat_singles [simp]: "concat (map (\<lambda>b. [b]) s) = s"
  by (induction s) auto

lemma ascii_text_trim:
  assumes "ascii_text s"
  shows "ascii_text (str_trim s)"
proof -
  have "set (str_trim s) \<subseteq> set s"
    by (auto simp: str_trim_def utf8_chars_ascii [OF assms] dest!: set_dropWhileD)
  then show ?thesis using assms by (auto simp: ascii_text_def list_all_iff)
qed

lemma parse_line_ascii: "ascii_text s \<Longrightarrow> parse_line s \<noteq> None"
proof -
  assume a: "ascii_text s"
  have "is_char_boundary (str_trim s) 2" if "2 \<le> length (str_trim s)"
  proof (cases "length (str_trim s) = 2")
    case False
    then have "str_trim s ! 2 \<in> set (str_trim s)" using that by simp
    then have "str_trim s ! 2 < 128" using ascii_text_trim [OF a] by (auto simp: ascii_text_def list_all_iff)
    then show ?thesis using False that by (auto simp: is_char_boundary_def word_le_nat_alt word_less_nat_alt)
  qed (simp add: is_char_boundary_def)
  then show ?thesis by (auto simp: parse_line_def Let_def slice_to_def)
qed

lemma serve_text_ascii:
  assumes "ascii_text (bl_text l)"
  shows "\<exists>l' w'. serve_text_line env lk (l, w) = Some (l', w') \<and> ascii_text (bl_text l')"
proof -
  obtain q l1 where t: "take_line lk l = (q, l1)" by (rule prod.exhaust)
  have l1: "ascii_text (bl_text l1)" using assms t set_drop_subset [of _ "bl_text l"]
    by (auto simp: take_line_def ascii_text_def list_all_iff Let_def split: if_splits) blast
  show ?thesis
  proof (cases q)
    case None
    then show ?thesis using t l1 by (simp add: serve_text_line_def)
  next
    case (Some line)
    have "ascii_text line" using assms t Some
      by (auto simp: take_line_def ascii_text_def list_all_iff trim_end_cr_def Let_def dest!: set_dropWhileD set_takeWhileD
          split: if_splits)
    then obtain p where "parse_line line = Some p" using parse_line_ascii by auto
    then obtain resp w1 where p: "process_line env line w = Some (resp, w1)"
      by (cases p) (auto simp: process_line_def intro: prod.exhaust)
    have "bl_text (snd (enqueue_tx_frame lk f l1)) = bl_text l1" for f
      by (simp add: enqueue_tx_frame_def split: prod.split)
    then show ?thesis using t Some p l1 by (auto simp: serve_text_line_def Let_def split: option.split)
  qed
qed

text \<open>What a text is to be cut into: its complete lines, without the carriage returns that end them.\<close>

definition text_lines :: "u8 list \<Rightarrow> u8 list list" where
  "text_lines bs = map trim_end_cr (butlast (split_on 10 bs))"

lemma text_lines_cons: "10 \<notin> set line \<Longrightarrow> split_on 10 (line @ 10 # bs) = line # split_on 10 bs"
  "10 \<notin> set line \<Longrightarrow> text_lines (line @ 10 # bs) = trim_end_cr line # text_lines bs"
  by (simp_all add: text_lines_def split_on_append split_on_nonempty)

lemma text_lines_none: "10 \<notin> set bs \<Longrightarrow> text_lines bs = []"
  by (simp add: text_lines_def split_on_no)

text \<open>The commands of some lines one after the other, with their answers, and the answers put into the queue.\<close>

fun exec_lines :: "('f at_env \<times> u8 list) list \<Rightarrow> 'f at_world \<Rightarrow> (u8 list list \<times> 'f at_world) option" where
  "exec_lines [] w = Some ([], w)"
| "exec_lines ((env, line) # xs) w =
     (case process_line env line w of None \<Rightarrow> None
      | Some (resp, w) \<Rightarrow> map_option (\<lambda>(rs, w). (resp # rs, w)) (exec_lines xs w))"

definition queue_answer :: "ble_link \<Rightarrow> u8 list \<Rightarrow> ble_link" where
  "queue_answer l resp =
     (case (case build_ble_frame 0 0 resp of Some f \<Rightarrow> Some f
        | None \<Rightarrow> build_ble_frame 0 0 (at_err 3 (ascii ''response too long''))) of
        None \<Rightarrow> l | Some f \<Rightarrow> snd (enqueue_tx_frame no_locks f l))"

lemma queue_answer_text: "queue_answer (l\<lparr>bl_text := t\<rparr>) r = (queue_answer l r)\<lparr>bl_text := t\<rparr>"
  by (simp add: queue_answer_def enqueue_tx_frame_def no_locks_def split: option.split prod.split)

lemma queue_answers_text: "foldl queue_answer (l\<lparr>bl_text := t\<rparr>) rs = (foldl queue_answer l rs)\<lparr>bl_text := t\<rparr>"
  by (induction rs arbitrary: l) (simp_all add: queue_answer_text)

text \<open>Writes that are taken and line handling that is not held up; the text of a run, its line handlers, and how
  many of these come after the last write.\<close>

definition step_free :: "'f text_step \<Rightarrow> bool" where
  "step_free x \<longleftrightarrow> (case x of TextWrite lk d _ \<Rightarrow> lk = no_locks \<and> ascii_text d | TextServe lk _ \<Rightarrow> lk = no_locks)"

fun run_bytes :: "'f text_step list \<Rightarrow> u8 list" where
  "run_bytes [] = []"
| "run_bytes (TextWrite _ d _ # ss) = d @ run_bytes ss"
| "run_bytes (TextServe _ _ # ss) = run_bytes ss"

fun run_envs :: "'f text_step list \<Rightarrow> 'f at_env list" where
  "run_envs [] = []"
| "run_envs (TextWrite _ _ _ # ss) = run_envs ss"
| "run_envs (TextServe _ env # ss) = env # run_envs ss"

fun late_serves :: "'f text_step list \<Rightarrow> nat" where
  "late_serves [] = 0"
| "late_serves (TextWrite _ _ _ # ss) = late_serves ss"
| "late_serves (TextServe _ _ # ss) = (if late_serves ss = length ss then Suc (length ss) else late_serves ss)"

lemma late_serves_le: "late_serves ss \<le> length ss"
  by (induction ss rule: late_serves.induct) auto

lemma late_serves_all: "late_serves ss = length ss \<Longrightarrow> run_bytes ss = []"
proof (induction ss rule: late_serves.induct)
  case (2 lk d s ss)
  then show ?case using late_serves_le [of ss] by simp
next
  case (3 lk env ss)
  then show ?case using late_serves_le [of ss] by (simp split: if_splits)
qed simp

lemma serve_line:
  assumes "ascii_text (bl_text l)" and "bl_text l = line @ 10 # rest" and "10 \<notin> set line"
  shows "\<exists>resp w1. process_line env (trim_end_cr line) w = Some (resp, w1) \<and>
    serve_text_line env no_locks (l, w) = Some ((queue_answer l resp)\<lparr>bl_text := rest\<rparr>, w1)"
proof -
  have tw: "takeWhile (\<lambda>b. b \<noteq> 10) (line @ 10 # rest) = line"
    using assms(3) by (subst takeWhile_append2) auto
  have t: "take_line no_locks l = (Some (trim_end_cr line), l\<lparr>bl_text := rest\<rparr>)"
    using assms(2) by (simp add: take_line_def no_locks_def Let_def tw)
  have "ascii_text (trim_end_cr line)" using assms(1,2)
    by (auto simp: ascii_text_def list_all_iff trim_end_cr_def dest!: set_dropWhileD)
  then obtain p where "parse_line (trim_end_cr line) = Some p" using parse_line_ascii by auto
  then obtain resp w1 where p: "process_line env (trim_end_cr line) w = Some (resp, w1)"
    by (cases p) (auto simp: process_line_def intro: prod.exhaust)
  have "serve_text_line env no_locks (l, w) = Some ((queue_answer l resp)\<lparr>bl_text := rest\<rparr>, w1)"
    unfolding serve_text_line_def by (simp add: t p queue_answer_def flip: queue_answer_text) (simp add: enqueue_tx_frame_def no_locks_def split: option.split prod.split)
  then show ?thesis using p by blast
qed

lemma text_run:
  assumes "list_all step_free ss" and "ascii_text (bl_text l)" and "length (bl_text l @ run_bytes ss) \<le> 512"
  shows "\<exists>envs rs l' w'. run_text ss (l, w) = Some (l', w') \<and> subseq envs (run_envs ss) \<and>
    exec_lines (zip envs (text_lines (bl_text l @ run_bytes ss))) w = Some (rs, w') \<and>
    min (length (text_lines (bl_text l @ run_bytes ss))) (late_serves ss) \<le> length envs \<and>
    length envs \<le> length (text_lines (bl_text l @ run_bytes ss)) \<and>
    split_on 10 (bl_text l') = drop (length envs) (split_on 10 (bl_text l @ run_bytes ss)) \<and>
    l' = (foldl queue_answer l rs)\<lparr>bl_text := bl_text l'\<rparr>"
  using assms
proof (induction ss arbitrary: l w)
  case Nil
  then show ?case by (intro exI [of _ "[]"] exI [of _ l] exI [of _ w]) simp
next
  case (Cons x ss)
  show ?case
  proof (cases x)
    case (TextWrite lk d s)
    let ?l = "l\<lparr>bl_text := bl_text l @ d\<rparr>"
    have lk: "lk = no_locks" "ascii_text d" using Cons.prems(1) TextWrite by (simp_all add: step_free_def)
    then have "fst (feed_data lk d (l, s)) = ?l" using Cons.prems(3) TextWrite
      by (simp add: feed_data_def no_locks_def ascii_text_def)
    moreover have "ascii_text (bl_text ?l)" "length (bl_text ?l @ run_bytes ss) \<le> 512"
      using Cons.prems lk TextWrite by (simp_all add: ascii_text_def)
    ultimately show ?thesis using Cons.IH [of ?l w] Cons.prems(1) TextWrite by (simp add: queue_answers_text)
  next
    case (TextServe lk env)
    have free: "list_all step_free ss" and "step_free x" using Cons.prems(1) by simp_all
    then have lk: "lk = no_locks" using TextServe by (simp add: step_free_def)
    show ?thesis
    proof (cases "10 \<in> set (bl_text l)")
      case False
      then have "serve_text_line env lk (l, w) = Some (l, w)" by (simp add: serve_text_line_def take_line_def)
      moreover have "text_lines (bl_text l @ run_bytes ss) = []" if "late_serves ss = length ss"
        using late_serves_all [OF that] False by (simp add: text_lines_none)
      moreover obtain envs rs l' w' where i: "run_text ss (l, w) = Some (l', w')" "subseq envs (run_envs ss)"
        "exec_lines (zip envs (text_lines (bl_text l @ run_bytes ss))) w = Some (rs, w')"
        "min (length (text_lines (bl_text l @ run_bytes ss))) (late_serves ss) \<le> length envs"
        "length envs \<le> length (text_lines (bl_text l @ run_bytes ss))"
        "split_on 10 (bl_text l') = drop (length envs) (split_on 10 (bl_text l @ run_bytes ss))"
        "l' = (foldl queue_answer l rs)\<lparr>bl_text := bl_text l'\<rparr>"
        using Cons.IH [OF free Cons.prems(2), of w] Cons.prems(3) TextServe by auto
      ultimately show ?thesis using TextServe lk
        by (intro exI [of _ envs] exI [of _ rs] exI [of _ l'] exI [of _ w']) (auto intro: list_emb_Cons)
    next
      case True
      then obtain line rest where b: "bl_text l = line @ 10 # rest" "10 \<notin> set line" by (auto dest: split_list_first)
      obtain resp w1 where p: "process_line env (trim_end_cr line) w = Some (resp, w1)"
        "serve_text_line env no_locks (l, w) = Some ((queue_answer l resp)\<lparr>bl_text := rest\<rparr>, w1)"
        using serve_line [OF Cons.prems(2) b] by blast
      let ?l = "(queue_answer l resp)\<lparr>bl_text := rest\<rparr>"
      have "ascii_text (bl_text ?l)" "length (bl_text ?l @ run_bytes ss) \<le> 512"
        using Cons.prems(2,3) b TextServe by (simp_all add: ascii_text_def)
      then obtain envs rs l' w' where i: "run_text ss (?l, w1) = Some (l', w')" "subseq envs (run_envs ss)"
        "exec_lines (zip envs (text_lines (rest @ run_bytes ss))) w1 = Some (rs, w')"
        "min (length (text_lines (rest @ run_bytes ss))) (late_serves ss) \<le> length envs"
        "length envs \<le> length (text_lines (rest @ run_bytes ss))"
        "split_on 10 (bl_text l') = drop (length envs) (split_on 10 (rest @ run_bytes ss))"
        "l' = (foldl queue_answer ?l rs)\<lparr>bl_text := bl_text l'\<rparr>"
        using Cons.IH [OF free, of ?l w1] by auto
      have "l' = (foldl queue_answer l (resp # rs))\<lparr>bl_text := bl_text l'\<rparr>" by (subst i(7)) (simp add: queue_answers_text)
      then show ?thesis using i(1-6) p b TextServe lk late_serves_le [of ss]
        by (intro exI [of _ "env # envs"] exI [of _ "resp # rs"] exI [of _ l'] exI [of _ w'])
          (auto simp: text_lines_cons split: if_splits)
    qed
  qed
qed

lemma text_run_total:
  assumes "ascii_text (bl_text l)"
  shows "run_text ss (l, w) \<noteq> None"
  using assms
proof (induction ss arbitrary: l w)
  case (Cons x ss)
  show ?case
  proof (cases x)
    case (TextWrite lk data s)
    have "ascii_text (bl_text (fst (feed_data lk data (l, s))))" using Cons.prems
      by (auto simp: feed_data_def ascii_text_def)
    then show ?thesis using TextWrite Cons.IH by simp
  next
    case (TextServe lk env)
    then show ?thesis using serve_text_ascii [OF Cons.prems, of env lk w] Cons.IH by auto
  qed
qed simp


section \<open>Text without spaces\<close>

definition solid_text :: "u8 list \<Rightarrow> bool" where
  "solid_text s \<longleftrightarrow> list_all (\<lambda>b. 0x21 \<le> b \<and> b < 0x80) s"

lemma solid_simps [simp]: "solid_text []" "solid_text (b # s) = ((0x21 \<le> b \<and> b < 0x80) \<and> solid_text s)"
  "solid_text (s @ t) = (solid_text s \<and> solid_text t)"
  by (simp_all add: solid_text_def)

lemma solid_trim: "solid_text s \<Longrightarrow> str_trim s = s"
proof -
  assume s: "solid_text s"
  have w: "\<not> char_is_whitespace [b]" if "b \<in> set s" for b
    using s that by (auto simp: solid_text_def list_all_iff char_is_whitespace_def word_le_nat_alt)
  have d: "dropWhile char_is_whitespace (map (\<lambda>b. [b]) t) = map (\<lambda>b. [b]) t" if "set t \<subseteq> set s" for t
    using that w by (cases t) auto
  have "utf8_chars s = map (\<lambda>b. [b]) s" using s by (intro utf8_chars_ascii) (auto simp: ascii_text_def solid_text_def list_all_iff)
  moreover have "rev (dropWhile char_is_whitespace (rev (map (\<lambda>b. [b]) s))) = map (\<lambda>b. [b]) s"
    using d [of "rev s"] by (simp add: rev_map)
  ultimately show ?thesis using d [of s] by (simp add: str_trim_def)
qed

lemma solid_fmt_dec: "solid_text (fmt_dec n)"
  using fmt_dec_digits [of _ n] by (force simp: solid_text_def list_all_iff word_le_nat_alt word_less_nat_alt)

lemma fmt_dec_no: "b < 0x30 \<Longrightarrow> b \<notin> set (fmt_dec n)"
  using fmt_dec_digits [of b n] by auto

lemma fmt_dec_hex: "strip_prefix (ascii ''0x'') (fmt_dec n) = None" "strip_prefix (ascii ''0X'') (fmt_dec n) = None"
proof -
  have d: "fmt_dec n ! 1 \<le> 0x39" if "1 < length (fmt_dec n)" using fmt_dec_digits [of "fmt_dec n ! 1" n] that by simp
  have t: "take 2 (fmt_dec n) \<noteq> [0x30, x]" if "x > 0x39" for x :: u8
    using that d by (cases "fmt_dec n"; cases "tl (fmt_dec n)") auto
  show "strip_prefix (ascii ''0x'') (fmt_dec n) = None" "strip_prefix (ascii ''0X'') (fmt_dec n) = None"
    by (simp_all add: strip_prefix_def ascii_def t flip: numeral_2_eq_2)
qed

lemma parse_number_fmt: "n \<le> mx \<Longrightarrow> parse_number mx (fmt_dec n) = Some n"
  by (simp add: parse_number_def Let_def solid_trim [OF solid_fmt_dec] fmt_dec_not_empty fmt_dec_hex parse_fmt_dec)

lemma parse_u16_fmt: "parse_u16 (fmt_dec (unat v)) = Some v"
  using unsigned_less [of v, where 'a = nat] by (simp add: parse_u16_def parse_number_fmt)

section \<open>Addresses\<close>

lemma upt_four: "[0..<4] = [0, 1, 2, 3::nat]"
  by (simp add: upt_rec numeral_eq_Suc)

lemma fmt_ip_eq: "fmt_ip a = fmt_dec (unat (a ! 0)) @ 0x2E # fmt_dec (unat (a ! 1)) @ 0x2E # fmt_dec (unat (a ! 2)) @
    0x2E # fmt_dec (unat (a ! 3))"
  by (simp add: fmt_ip_def upt_four)

lemma solid_fmt_ip: "solid_text (fmt_ip a)" and fmt_ip_no_comma: "0x2C \<notin> set (fmt_ip a)"
  by (simp_all add: fmt_ip_eq solid_fmt_dec fmt_dec_no)

lemma parse_fmt_ip:
  assumes "length a = 4"
  shows "parse_ipv4 (fmt_ip a) = Some a"
proof -
  have p: "parse_uint 255 (fmt_dec (unat (a ! i))) = Some (unat (a ! i))" for i
    using unsigned_less [of "a ! i", where 'a = nat] by (intro parse_fmt_dec) simp
  have "split_on 0x2E (fmt_ip a) = map (\<lambda>i. fmt_dec (unat (a ! i))) [0..<4]"
    unfolding fmt_ip_def by (rule split_join) (auto simp: fmt_dec_no)
  moreover have "a = [a ! 0, a ! 1, a ! 2, a ! 3]" using assms by (intro nth_equalityI) (auto simp: less_Suc_eq numeral_eq_Suc)
  ultimately show ?thesis by (simp add: parse_ipv4_def p upt_four)
qed

text \<open>The text of the command for four addresses.\<close>

definition cfgip_args :: "u8 list \<Rightarrow> u8 list \<Rightarrow> u8 list \<Rightarrow> u8 list \<Rightarrow> u8 list" where
  "cfgip_args ip msk gw dns = join_bytes 0x2C [fmt_ip ip, fmt_ip msk, fmt_ip gw, fmt_ip dns]"

text \<open>C18: The network command sets what it is given and nothing that cannot be saved.  For addresses of hosts and a
  contiguous mask, sent as text, the command publishes exactly these addresses as static ones, the query shows
  them again, and the new configuration passes the check before a save when its ports do.  Every other set of
  addresses is answered with error 11 and the first of mask, address, gateway and name server that is not usable,
  and changes nothing.\<close>

theorem network_command_roundtrip:
  assumes "length ip = 4" and "length msk = 4" and "length gw = 4" and "length dns = 4"
    and "handle_cfgip (cfgip_args ip msk gw dns) s = (resp, s')"
  shows "if is_ipv4_netmask msk \<and> host_ip_ok ip \<and> host_ip_ok gw \<and> host_ip_ok dns
    then resp = ok_none \<and>
      bus_config s' = (bus_config s)\<lparr>sc_ip := ip, sc_mask := msk, sc_gateway := gw, sc_dns := dns, sc_dhcp := False\<rparr> \<and>
      handle_cfgip [] s' = (ok_data (ascii ''ip='' @ fmt_ip ip @ ascii '',mask='' @ fmt_ip msk @ ascii '',gw='' @ fmt_ip gw @
        ascii '',dns='' @ fmt_ip dns @ ascii '',dhcp=0''), s') \<and>
      (valid_tcp_ports (sc_tcp_ports (bus_config s)) = (validate_for_persistence (bus_config s') = Inr ()))
    else s' = s \<and> resp = at_err 11 (if \<not> is_ipv4_netmask msk then ascii ''mask is not contiguous''
      else if \<not> host_ip_ok ip then ascii ''invalid ip'' else if \<not> host_ip_ok gw then ascii ''invalid gw''
      else ascii ''invalid dns'')"
proof -
  let ?args = "cfgip_args ip msk gw dns"
  have solid: "solid_text ?args" by (simp add: cfgip_args_def solid_fmt_ip)
  have ne: "?args \<noteq> []" by (simp add: cfgip_args_def)
  have parts: "split_on 0x2C ?args = [fmt_ip ip, fmt_ip msk, fmt_ip gw, fmt_ip dns]"
    unfolding cfgip_args_def by (rule split_join) (auto simp: fmt_ip_no_comma)
  have h: "handle_cfgip ?args s = (case cfgip_addrs [fmt_ip ip, fmt_ip msk, fmt_ip gw, fmt_ip dns] of Inl e \<Rightarrow> (e, s)
     | Inr (ip, msk, gw, dns) \<Rightarrow>
         (ok_none, with_cfg_mut (\<lambda>c. c\<lparr>sc_ip := ip, sc_mask := msk, sc_gateway := gw, sc_dns := dns, sc_dhcp := False\<rparr>) s))"
    unfolding handle_cfgip_def Let_def solid_trim [OF solid] parts using ne by simp
  have a: "cfgip_addrs [fmt_ip ip, fmt_ip msk, fmt_ip gw, fmt_ip dns] =
      (if \<not> is_ipv4_netmask msk then Inl (at_err 11 (ascii ''mask is not contiguous''))
       else if \<not> host_ip_ok ip then Inl (at_err 11 (ascii ''invalid ip''))
       else if \<not> host_ip_ok gw then Inl (at_err 11 (ascii ''invalid gw''))
       else if \<not> host_ip_ok dns then Inl (at_err 11 (ascii ''invalid dns''))
       else Inr (ip, msk, gw, dns))"
    using assms(1-4) by (simp add: cfgip_addrs_def parse_fmt_ip)
  have z: "str_trim [] = []" by (simp add: solid_trim)
  have d0: "fmt_dec 0 = ascii ''0''" by (simp add: fmt_dec.simps ascii_def)
  show ?thesis
  proof (cases "is_ipv4_netmask msk \<and> host_ip_ok ip \<and> host_ip_ok gw \<and> host_ip_ok dns")
    case True
    then have s': "resp = ok_none" "s' = with_cfg_mut (\<lambda>c. c\<lparr>sc_ip := ip, sc_mask := msk, sc_gateway := gw, sc_dns := dns, sc_dhcp := False\<rparr>) s"
      using assms(5) h a by simp_all
    then have c: "bus_config s' = (bus_config s)\<lparr>sc_ip := ip, sc_mask := msk, sc_gateway := gw, sc_dns := dns, sc_dhcp := False\<rparr>"
      by (simp add: with_cfg_mut_def config_modify_def publish_config_def)
    have v: "validate_for_persistence (bus_config s') = (if valid_tcp_ports (sc_tcp_ports (bus_config s)) then Inr () else Inl BadTcpPorts)"
      using True unfolding c by (simp add: validate_for_persistence_def host_ip_ok_def)
    have q: "handle_cfgip [] s' = (ok_data (ascii ''ip='' @ fmt_ip ip @ ascii '',mask='' @ fmt_ip msk @ ascii '',gw='' @ fmt_ip gw @
        ascii '',dns='' @ fmt_ip dns @ ascii '',dhcp=0''), s')"
      by (simp add: handle_cfgip_def z cfgip_text_def c d0) (simp add: ascii_def)
    show ?thesis using True s' c q v by simp
  next
    case False
    then have "s' = s \<and> resp = at_err 11 (if \<not> is_ipv4_netmask msk then ascii ''mask is not contiguous''
      else if \<not> host_ip_ok ip then ascii ''invalid ip'' else if \<not> host_ip_ok gw then ascii ''invalid gw''
      else ascii ''invalid dns'')" using assms(5) unfolding h a by (auto split: if_splits)
    then show ?thesis unfolding if_not_P [OF False] .
  qed
qed

theorem network_command_roundtrip_witness:
  "\<exists>resp s'. handle_cfgip (cfgip_args [192, 168, 1, 9] [255, 255, 255, 0] [192, 168, 1, 1] [8, 8, 8, 8]) (dw_bus fresh_world) = (resp, s') \<and>
    resp = ok_none \<and> sc_ip (bus_config s') = [192, 168, 1, 9]"
proof -
  obtain resp s' where h: "handle_cfgip (cfgip_args [192, 168, 1, 9] [255, 255, 255, 0] [192, 168, 1, 1] [8, 8, 8, 8]) (dw_bus fresh_world) = (resp, s')"
    by (rule prod.exhaust)
  have "is_ipv4_netmask [255, 255, 255, 0]" by code_simp
  then show ?thesis using network_command_roundtrip [OF _ _ _ _ h] h by (simp add: host_ip_ok_def)
qed

section \<open>Registers by address\<close>

lemma splitn_two: "c \<notin> set a \<Longrightarrow> splitn 2 c (a @ c # b) = [a, b]"
  by (simp add: numeral_2_eq_2 split_once_append)

text \<open>C19: The register command skips a check that Modbus makes.  A value for one of the four TCP ports that collides
  with another port or with the web server is refused when it is written by Modbus; the text command accepts it
  and reports that it will be saved.  From then on no configuration is saved: every save is refused, so the
  barrier before a restart fails as well.\<close>

theorem register_command_skips_port_check:
  assumes "config_wf (bus_config s)" and "2243 \<le> unat addr" and "unat addr < 2247" and "v \<noteq> 0"
    and "\<not> valid_tcp_ports ((sc_tcp_ports (bus_config s))[unat addr - 2243 := v])"
  shows "\<exists>s'. handle_cfgwrite (fmt_dec (unat addr) @ 0x2C # fmt_dec (unat v)) s = (ok_data (ascii ''persist requested''), s') \<and>
    write_config_word addr v s = (False, s) \<and>
    fst (save_config oc (bus_config s') m) = Inl BadTcpPorts \<and> fst (persist_config_now s') = False"
proof -
  have f: "locate addr = Some (FTcpPort (unat addr - 2243))"
    using assms(2,3) by (simp add: locate_def locate_writable_def Let_def)
  let ?c = "(bus_config s)\<lparr>sc_tcp_ports := (sc_tcp_ports (bus_config s))[unat addr - 2243 := v]\<rparr>"
  have w: "write_reg addr v (bus_config s) = (WPersist, ?c)"
    using write_reg_locate [of "bus_config s" addr v] assms(1,4) by (simp add: config_wf_def f)
  have r: "in_range 0x0880 (4223 + 1) addr" "\<not> is_ble_name_hold_addr addr"
    using assms(2,3) by (simp_all add: is_ble_name_hold_addr_def addr_nat)
  let ?s = "request_apply_config (publish_config ?c s)"
  have h: "handle_cfgwrite (fmt_dec (unat addr) @ 0x2C # fmt_dec (unat v)) s = (ok_data (ascii ''persist requested''), ?s)"
    using r by (simp add: handle_cfgwrite_def Let_def splitn_two fmt_dec_no parse_u16_fmt config_modify_def w)
  have c: "bus_config ?s = ?c" "bus_config_dirty ?s"
    by (simp_all add: request_apply_config_def request_persist_config_def publish_config_def)
  have bad: "validate_for_persistence ?c = Inl BadTcpPorts" using assms(5) by (simp add: validate_for_persistence_def)
  have "fst (persist_config_now ?s) = False"
    using c bad by (simp add: persist_config_now_def Let_def commit_pending_def)
  moreover have "write_config_word addr v s = (False, s)" using assms(5) by (simp add: write_config_word_def w)
  moreover have "fst (save_config oc (bus_config ?s) m) = Inl BadTcpPorts" unfolding c(1) by (simp add: save_config_def bad)
  ultimately show ?thesis using h by blast
qed

theorem register_command_skips_port_check_witness:
  "\<exists>s'. handle_cfgwrite (fmt_dec 2243 @ 0x2C # fmt_dec 80) (dw_bus fresh_world) = (ok_data (ascii ''persist requested''), s') \<and>
    fst (persist_config_now s') = False"
proof -
  have c: "bus_config (dw_bus fresh_world) = config_defaults" by (simp add: fresh_world_def bus_start_def)
  have p: "\<not> valid_tcp_ports ((sc_tcp_ports config_defaults)[unat (2243::u16) - 2243 := 80])"
    by (simp add: config_defaults_def valid_tcp_ports_def)
  show ?thesis
    using register_command_skips_port_check [of "dw_bus fresh_world" 2243 80] config_wf_defaults p unfolding c by auto
qed

section \<open>Firmware bytes as text\<close>

definition hex_text :: "u8 list \<Rightarrow> u8 list" where
  "hex_text bs = concat (map (\<lambda>b. fmt_hex hex_up 2 (unat b)) bs)"

lemma hex_digits_ok: "n < 16 \<Longrightarrow> hex_value (hex_up (of_nat n)) = Some n \<and> 0x21 \<le> hex_up (of_nat n) \<and> hex_up (of_nat n) < 0x80"
proof -
  have "list_all (\<lambda>n. hex_value (hex_up (of_nat n)) = Some n \<and> 0x21 \<le> hex_up (of_nat n) \<and> hex_up (of_nat n) < 0x80) [0..<16]"
    by code_simp
  then show "n < 16 \<Longrightarrow> ?thesis" by (simp add: list_all_iff)
qed

lemma byte_halves: "push_bit 4 (of_nat (unat b div 16)) OR of_nat (unat b mod 16) = (b :: u8)"
proof -
  have b: "unat b < 256" using unsigned_less [of b, where 'a = nat] by simp
  then have u: "unat (of_nat (unat b div 16) :: u8) = unat b div 16" "unat (of_nat (unat b mod 16) :: u8) = unat b mod 16"
    by (simp_all add: unat_of_nat)
  have "of_nat (unat b div 16) = drop_bit 4 b" and "of_nat (unat b mod 16) = take_bit 4 b"
    using u by (simp_all add: drop_bit_eq_div take_bit_eq_mod word_unat_eq_iff unat_div unat_mod)
  then show ?thesis by (simp add: bit_eq_iff) (auto simp: bit_simps)
qed

lemma fmt_hex_two: "fmt_hex d 2 n = [d (of_nat (n div 16 mod 16)), d (of_nat (n mod 16))]"
  by (simp add: numeral_2_eq_2)

lemma hex_bytes_text: "hex_bytes i (hex_text bs) = Inr bs"
proof (induction bs arbitrary: i)
  case (Cons b bs)
  have "unat b div 16 mod 16 = unat b div 16" using unsigned_less [of b, where 'a = nat] by simp
  then show ?case using Cons [of "Suc (Suc i)"] hex_digits_ok [of "unat b div 16 mod 16"] hex_digits_ok [of "unat b mod 16"] byte_halves [of b]
    by (simp add: hex_text_def fmt_hex_two)
qed (simp add: hex_text_def)

lemma hex_text_facts: "length (hex_text bs) = 2 * length bs" "solid_text (hex_text bs)"
  by (induction bs) (simp_all add: hex_text_def fmt_hex_two hex_digits_ok)

text \<open>Firmware sent as text arrives as it was.  The two hexadecimal digits of each byte, sent with one write
  command of at most 512 bytes, hand exactly these bytes to the update session, and the answer reports their
  number or the failure of the session.\<close>

theorem hex_write_is_exact:
  assumes "bs \<noteq> []" and "length bs \<le> 512"
  shows "handle_ota_write env (hex_text bs) st =
    (case ota_write_chunk (ae_ota env) bs st of
       (Some n, st) \<Rightarrow> (ok_data (ascii ''written='' @ fmt_dec n @ ascii '',total='' @ fmt_dec (length bs)), st)
     | (None, st) \<Rightarrow> (at_err 20 (ascii ''write: '' @ ae_reason env), st))"
proof -
  have "hex_text bs \<noteq> []" using assms(1) hex_text_facts(1) [of bs] by auto
  then show ?thesis using assms(2)
    by (simp add: handle_ota_write_def Let_def solid_trim [OF hex_text_facts(2)] hex_text_facts(1) hex_bytes_text)
qed

text \<open>An environment in which the settings are saved at once.\<close>

definition demo_at_env :: "demo_flash at_env" where
  "demo_at_env = \<lparr>ae_dev = quiet_env, ae_ota = demo_driver, 
     ae_step = (\<lambda>i (a, w). (a, w\<lparr>dw_wait_ok := True, dw_wait_completed := 1\<rparr>)), ae_slack = (\<lambda>_. 0), ae_now = 0,
     ae_reason = [], ae_app_version = ascii ''2.2.21'', ae_hw_name = ascii ''F3''\<rparr>"

theorem hex_write_is_exact_witness:
  "fst (handle_ota_write demo_at_env (hex_text [0xE9, 0x0A]) (ota_start demo_flash0)) = at_err 20 (ascii ''write: '')"
  using hex_write_is_exact [of "[0xE9, 0x0A]" demo_at_env "ota_start demo_flash0"]
  by (simp add: demo_at_env_def ota_write_chunk_def ota_start_def)

section \<open>The update session under text commands\<close>

text \<open>What every command keeps of the update session, and when it changes the slot to start from.\<close>

definition session_step :: "'f ota_view \<Rightarrow> u8 list \<Rightarrow> 'f ota_state \<Rightarrow> 'f ota_state \<Rightarrow> bool" where
  "session_step v resp st st' \<longleftrightarrow> (\<exists>up. ota_inv v up st') \<and>
     (ov_boot v (ot_flash st') \<noteq> ov_boot v (ot_flash st) \<longrightarrow>
        resp = ok_data (ascii ''ended, send AT+OTA=REBOOT to apply'') \<and>
        (let image = ov_image v (ot_flash st') (ov_boot v (ot_flash st')) in
         ov_valid v image \<and> (total_bytes st > 0 \<longrightarrow> length image = unat (total_bytes st))))"

lemma ota_inv_pending: "ota_inv v up (set_pending_total n st) = ota_inv v up st"
  by (cases "ot_session st") (simp_all add: ota_inv_def set_pending_total_def)

lemma begin_step:
  assumes "ota_driver_ok (ae_ota env) v" and "ota_inv v up st" and "handle_ota_begin env args st = (resp, st')"
  shows "session_step v resp st st'"
proof (cases "parse_uint 4294967295 (str_trim args)")
  case None
  then show ?thesis using assms by (auto simp: handle_ota_begin_def session_step_def)
next
  case (Some n)
  obtain ok st1 where b: "ota_begin (ae_ota env) (of_nat n) (set_pending_total (of_nat n) st) = (ok, st1)" by (rule prod.exhaust)
  have "st' = st1" using assms(3) Some b by (auto simp: handle_ota_begin_def split: bool.splits)
  have "ota_inv v up (set_pending_total (of_nat n) st)" using assms(2) by (simp add: ota_inv_pending)
  then show ?thesis using ota_begin_inv [OF assms(1) _ b] \<open>st' = st1\<close>
    by (auto simp: session_step_def set_pending_total_def)
qed

lemma write_step:
  assumes "ota_driver_ok (ae_ota env) v" and "ota_inv v up st" and "handle_ota_write env args st = (resp, st')"
  shows "session_step v resp st st'"
proof (cases "st' = st")
  case True
  then show ?thesis using assms(2) by (auto simp: session_step_def)
next
  case False
  then obtain buf where "hex_bytes 0 (str_trim args) = Inr buf" using assms(3)
    by (auto simp: handle_ota_write_def Let_def split: if_splits sum.splits)
  then obtain r where "ota_write_chunk (ae_ota env) buf st = (r, st')" using assms(3) False
    by (auto simp: handle_ota_write_def Let_def split: if_splits prod.splits option.splits)
  from ota_write_inv [OF assms(1,2) this] show ?thesis by (auto simp: session_step_def)
qed

lemma abort_step:
  assumes "ota_driver_ok (ae_ota env) v" and "handle_ota_abort env st = (resp, st')"
  shows "session_step v resp st st'"
proof -
  obtain ok where "ota_abort (ae_ota env) st = (ok, st')" using assms(2)
    by (auto simp: handle_ota_abort_def split: prod.splits bool.splits)
  from ota_abort_inv [OF assms(1) this] show ?thesis by (auto simp: session_step_def ota_inv_def)
qed

lemma end_step:
  assumes "ota_driver_ok (ae_ota env) v" and "ota_inv v up (at_ota w)" and "handle_ota_end env w = (resp, w')"
  shows "session_step v resp (at_ota w) (at_ota w')"
proof -
  obtain ok st1 u where e: "ota_end (ae_ota env) (at_wait env) (at_ota w, at_await w, at_aw w) = (ok, st1, u)" by (rule prod_cases3)
  have w': "at_ota w' = st1" "ok \<Longrightarrow> resp = ok_data (ascii ''ended, send AT+OTA=REBOOT to apply'')"
    using assms(3) e by (cases u, auto simp: handle_ota_end_def)+
  note i = ota_end_inv [OF assms(1,2) e]
  show ?thesis
  proof (cases ok)
    case False
    then show ?thesis using i w'(1) by (auto simp: session_step_def)
  next
    case True
    then obtain s where s: "ot_session (at_ota w) = Some s" "os_handle_active s" "ov_boot v (ot_flash st1) = os_partition s"
      "ov_valid v (ov_image v (ot_flash (at_ota w)) (os_partition s))" "os_total s \<le> os_written s"
      "ov_image v (ot_flash st1) = ov_image v (ot_flash (at_ota w))" using i by auto
    have up: "ov_image v (ot_flash (at_ota w)) (os_partition s) = up" "length up = unat (os_written s)" "os_written s \<le> ota_limit s"
      using assms(2) s(1,2) by (simp_all add: ota_inv_def)
    have "os_written s = os_total s" if "os_total s > 0"
      using up(3) s(5) that by (auto simp: ota_limit_def min_def split: if_splits)
    then show ?thesis using i w' True s up by (auto simp: session_step_def Let_def total_bytes_def)
  qed
qed

lemma same_session_step: "ota_inv v up st \<Longrightarrow> session_step v resp st st"
  by (auto simp: session_step_def)

lemma at_on_bus_ota: "at_ota (snd (at_on_bus f w)) = at_ota w" and at_dev_ota: "at_ota (snd (at_dev g w)) = at_ota w"
  by (simp_all add: at_on_bus_def at_dev_def split: prod.split)

lemma other_commands_ota:
  "dispatch_command env cmd args w = handle_ota env args w \<or> at_ota (snd (dispatch_command env cmd args w)) = at_ota w"
  by (auto simp: dispatch_command_def Let_def at_on_bus_ota at_dev_ota)

lemma line_step:
  assumes "ota_driver_ok (ae_ota env) v" and "ota_inv v up (at_ota w)" and "process_line env line w = Some (resp, w')"
  shows "session_step v resp (at_ota w) (at_ota w')"
proof (cases "at_ota w' = at_ota w")
  case True
  then show ?thesis using same_session_step [OF assms(2)] by simp
next
  case False
  obtain cmd args where d: "dispatch_command env cmd args w = (resp, w')"
    using assms(3) False by (auto simp: process_line_def split: option.splits at_line.splits)
  then have h: "handle_ota env args w = (resp, w')" using other_commands_ota [of env cmd args w] False by auto
  obtain rest where "at_on_ota (handle_ota_begin env rest) w = (resp, w') \<or> at_on_ota (handle_ota_write env rest) w = (resp, w') \<or>
      handle_ota_end env w = (resp, w') \<or> at_on_ota (handle_ota_abort env) w = (resp, w')"
    using h False at_on_bus_ota [of "handle_ota_reboot (at_ota w)" w] by (auto simp: handle_ota_def Let_def split: if_splits)
  then show ?thesis
    using begin_step [OF assms(1,2)] write_step [OF assms(1,2)] end_step [OF assms(1,2)] abort_step [OF assms(1)]
    by (auto simp: at_on_ota_def split: prod.splits)
qed

fun at_run :: "('f at_env \<times> u8 list) list \<Rightarrow> 'f at_world \<Rightarrow> 'f at_world option" where
  "at_run [] w = Some w"
| "at_run ((env, line) # ls) w = (case process_line env line w of None \<Rightarrow> None | Some (resp, w) \<Rightarrow> at_run ls w)"

text \<open>C16: By text commands, too, only a whole and verified image is started.  After any lines, with any failures of
  the driver, a line that changes the slot to start from is answered as the end of an update; the image in the
  new slot was found valid and has the announced length.\<close>

theorem text_update_is_verified:
  assumes "\<forall>x\<in>set ((env, line) # ls). ota_driver_ok (ae_ota (fst x)) v" and "at_ota w0 = ota_start f"
    and "at_run ls w0 = Some w" and "process_line env line w = Some (resp, w')"
    and "ov_boot v (ot_flash (at_ota w')) \<noteq> ov_boot v (ot_flash (at_ota w))"
  shows "resp = ok_data (ascii ''ended, send AT+OTA=REBOOT to apply'') \<and>
    (let image = ov_image v (ot_flash (at_ota w')) (ov_boot v (ot_flash (at_ota w'))) in
     ov_valid v image \<and> (total_bytes (at_ota w) > 0 \<longrightarrow> length image = unat (total_bytes (at_ota w))))"
proof -
  have "\<exists>up. ota_inv v up (at_ota w)" if "ota_inv v up (at_ota w0)" "at_run ls w0 = Some w"
      "\<forall>x\<in>set ls. ota_driver_ok (ae_ota (fst x)) v" for up ls w0
    using that
  proof (induction ls arbitrary: w0 up)
    case (Cons x ls)
    obtain env line where x: "x = (env, line)" by (rule prod.exhaust)
    then obtain r w1 where p: "process_line env line w0 = Some (r, w1)" "at_run ls w1 = Some w"
      using Cons.prems(2) by (auto split: option.splits)
    have "session_step v r (at_ota w0) (at_ota w1)" using line_step [OF _ Cons.prems(1) p(1)] Cons.prems(3) x by simp
    then show ?case using Cons.IH [OF _ p(2)] Cons.prems(3) by (auto simp: session_step_def)
  qed auto
  moreover have "ota_inv v [] (at_ota w0)" using assms(2) by (simp add: ota_inv_def ota_start_def)
  moreover have "\<forall>x\<in>set ls. ota_driver_ok (ae_ota (fst x)) v" using assms(1) by simp
  ultimately obtain up where "ota_inv v up (at_ota w)" using assms(3) by blast
  from line_step [OF _ this assms(4)] assms(1,5) show ?thesis by (simp add: session_step_def)
qed

definition demo_at_world :: "demo_flash at_world" where
  "demo_at_world = \<lparr>at_aw = (device_actor_new 0, fresh_world), at_await = \<lparr>aw_busy = False, aw_next = 0\<rparr>,
     at_ota = ota_start demo_flash0\<rparr>"

lemma link_new_empty: "bl_text ble_link_new = []"
  by (simp add: ble_link_new_def)


lemma demo_lines:
  "parse_line (ascii ''AT+OTA=BEGIN,3'') = Some (AtCommand (ascii ''OTA'') (ascii ''BEGIN,3''))"
  "parse_line (ascii ''AT+OTA=WRITE,E90102'') = Some (AtCommand (ascii ''OTA'') (ascii ''WRITE,E90102''))"
  "parse_line (ascii ''at+ota=end'') = Some (AtCommand (ascii ''ota'') (ascii ''end''))"
  by code_simp+

lemma demo_args:
  "str_trim (nth_part 0 (splitn 2 0x2C (ascii ''BEGIN,3''))) = ascii ''BEGIN''"
  "nth_part 1 (splitn 2 0x2C (ascii ''BEGIN,3'')) = ascii ''3''"
  "str_trim (nth_part 0 (splitn 2 0x2C (ascii ''WRITE,E90102''))) = ascii ''WRITE''"
  "nth_part 1 (splitn 2 0x2C (ascii ''WRITE,E90102'')) = ascii ''E90102''"
  "str_trim (nth_part 0 (splitn 2 0x2C (ascii ''end''))) = ascii ''end''"
  "hex_bytes 0 (str_trim (ascii ''E90102'')) = Inr [0xE9, 1, 2]"
  "length (str_trim (ascii ''E90102'')) = 6"
  "str_trim (ascii ''E90102'') \<noteq> []"
  by code_simp+

lemma demo_number: "parse_uint 4294967295 (str_trim (ascii ''3'')) = Some 3"
proof -
  have "ascii ''3'' = fmt_dec 3" by (simp add: fmt_dec.simps ascii_def)
  then show ?thesis by (simp add: solid_trim [OF solid_fmt_dec] parse_fmt_dec)
qed

lemma demo_run:
  "\<exists>w. at_run [(demo_at_env, ascii ''AT+OTA=BEGIN,3''), (demo_at_env, ascii ''AT+OTA=WRITE,E90102'')] demo_at_world = Some w \<and>
     at_aw w = (device_actor_new 0, fresh_world) \<and> at_await w = \<lparr>aw_busy = False, aw_next = 0\<rparr> \<and>
     at_ota w = \<lparr>ot_session = Some \<lparr>os_handle = 7, os_handle_active = True, os_partition = 1, os_partition_size = 0x240000,
        os_total = 3, os_written = 3, os_status = OtReceiving\<rparr>, ot_last = 1, ot_pending_total = 3,
       ot_flash = \<lparr>df_image = (\<lambda>_. [])(1 := [0xE9, 1, 2]), df_open = Some 1, df_boot = 0\<rparr>\<rparr>"
proof -
  have ota: "dispatch_command env (ascii ''OTA'') args w = handle_ota env args w" for env :: "demo_flash at_env" and args w
    by (simp add: dispatch_command_def eq_ignore_ascii_case_def ascii_def ascii_lower_def)
  have b: "handle_ota env (ascii ''BEGIN,3'') w = at_on_ota (handle_ota_begin env (ascii ''3'')) w" for env :: "demo_flash at_env" and w
    unfolding handle_ota_def Let_def demo_args by (simp add: eq_ignore_ascii_case_def)
  have wr: "handle_ota env (ascii ''WRITE,E90102'') w = at_on_ota (handle_ota_write env (ascii ''E90102'')) w" for env :: "demo_flash at_env" and w
    unfolding handle_ota_def Let_def demo_args by (simp add: eq_ignore_ascii_case_def ascii_def ascii_lower_def)
  show ?thesis
    by (simp add: process_line_def demo_lines ota b wr at_on_ota_def handle_ota_begin_def handle_ota_write_def Let_def demo_args demo_number
      demo_at_env_def demo_at_world_def ota_begin_def ota_write_chunk_def ota_limit_def ota_start_def demo_driver_def demo_flash0_def
      ota_store_def set_pending_total_def min_def)
qed

theorem text_update_is_verified_witness:
  "\<exists>w resp w'. at_run [(demo_at_env, ascii ''AT+OTA=BEGIN,3''), (demo_at_env, ascii ''AT+OTA=WRITE,E90102'')] demo_at_world = Some w \<and>
     process_line demo_at_env (ascii ''at+ota=end'') w = Some (resp, w') \<and>
     resp = ok_data (ascii ''ended, send AT+OTA=REBOOT to apply'') \<and> df_boot (ot_flash (at_ota w')) = 1"
proof -
  obtain w where run: "at_run [(demo_at_env, ascii ''AT+OTA=BEGIN,3''), (demo_at_env, ascii ''AT+OTA=WRITE,E90102'')] demo_at_world = Some w"
    and aw: "at_aw w = (device_actor_new 0, fresh_world)" "at_await w = \<lparr>aw_busy = False, aw_next = 0\<rparr>"
    and ota: "at_ota w = \<lparr>ot_session = Some \<lparr>os_handle = 7, os_handle_active = True, os_partition = 1, os_partition_size = 0x240000,
        os_total = 3, os_written = 3, os_status = OtReceiving\<rparr>, ot_last = 1, ot_pending_total = 3,
       ot_flash = \<lparr>df_image = (\<lambda>_. [])(1 := [0xE9, 1, 2]), df_open = Some 1, df_boot = 0\<rparr>\<rparr>"
    using demo_run by blast
  have saved: "\<exists>u. at_wait demo_at_env (at_await w, at_aw w) = (True, u)"
    by (simp add: at_wait_def aw demo_at_env_def await_pending_persistence_def fresh_world_def bus_start_def env_idle_def
      on_bus_def mpsc_try_enqueue_def Let_def await_loop.simps)
  have disp: "dispatch_command demo_at_env (ascii ''ota'') (ascii ''end'') w = handle_ota_end demo_at_env w"
    unfolding dispatch_command_def handle_ota_def Let_def demo_args
    by (simp add: eq_ignore_ascii_case_def ascii_def ascii_lower_def)
  obtain resp w' where p: "process_line demo_at_env (ascii ''at+ota=end'') w = Some (resp, w')"
    by (simp add: process_line_def demo_lines disp) (metis prod.exhaust)
  then have e: "handle_ota_end demo_at_env w = (resp, w')" by (simp add: process_line_def demo_lines disp)
  have boot: "df_boot (ot_flash (at_ota w')) = 1" using saved e
    by (auto simp: handle_ota_end_def ota_end_def ota demo_at_env_def demo_driver_def ota_store_def)
  then have "ov_boot demo_view (ot_flash (at_ota w')) \<noteq> ov_boot demo_view (ot_flash (at_ota w))"
    by (simp add: demo_view_def ota)
  from text_update_is_verified [OF _ _ run p this, of demo_flash0]
  have "resp = ok_data (ascii ''ended, send AT+OTA=REBOOT to apply'')"
    using demo_driver_ok by (simp add: demo_at_env_def demo_at_world_def)
  then show ?thesis using run p boot by blast
qed

section \<open>Bulk writes\<close>

text \<open>A start address that is no number is left out like any other part: the first value becomes the address.\<close>

lemma bulk_write_shifts:
  assumes "parse_u16 x = None" and "0x2C \<notin> set x"
  shows "handle_bulkw (x @ 0x2C # fmt_dec (unat a) @ 0x2C # fmt_dec (unat b)) s =
    (ok_data (ascii ''1 words''), snd (proto_write_bulk a [b] s))"
proof -
  have "parse_u16_list (x @ 0x2C # fmt_dec (unat a) @ 0x2C # fmt_dec (unat b)) = [a, b]"
    using assms by (simp add: parse_u16_list_def split_on_append split_on_no fmt_dec_no parse_u16_fmt)
  moreover have "fmt_dec 1 @ ascii '' words'' = ascii ''1 words''" by (simp add: fmt_dec.simps ascii_def)
  moreover obtain s1 where "proto_write_bulk a [b] s = (True, s1)" by (simp add: proto_write_bulk_def)
  ultimately show ?thesis by (simp add: handle_bulkw_def)
qed

end
