(* ===== verification/Seqlock.thy ===== *)
theory Seqlock imports Atomic_Bits begin

text \<open>
  The interleaved protocol of \<open>AtomicBits64\<close> (\<open>src/sync.rs\<close>): any number of threads, each rule one atomic
  operation of the source.  A reader loads the counter, the four words and the counter again; a writer makes the
  counter odd with a compare-and-exchange, changes the words one by one and makes the counter even again.
  Sequentially consistent memory, as the orderings of the source ask for.
\<close>

section \<open>Operations, word by word\<close>

datatype bit_op = BoStore u64 | BoSet nat bool | BoMask u64 u64

text \<open>Which words an operation writes, and the new value of a word.\<close>

definition word_touched :: "bit_op \<Rightarrow> nat \<Rightarrow> bool" where
  "word_touched op i =
     (case op of
        BoStore v \<Rightarrow> True
      | BoSet ch v \<Rightarrow> i = ch div 16
      | BoMask m v \<Rightarrow> (ucast (drop_bit (i * 16) m AND 0xFFFF) :: u16) \<noteq> 0)"

definition op_word :: "bit_op \<Rightarrow> nat \<Rightarrow> u16 \<Rightarrow> u16" where
  "op_word op i cur =
     (case op of
        BoStore v \<Rightarrow> ucast (drop_bit (16 * i) v)
      | BoSet ch v \<Rightarrow> if i = ch div 16 then set_word_bit (ch mod 16) v cur else cur
      | BoMask m v \<Rightarrow> mask_replace_word m v i cur)"

text \<open>The same operation when nothing runs in between, and its effect on the words.\<close>

definition run_op :: "bit_op \<Rightarrow> atomic_bits64 \<Rightarrow> atomic_bits64" where
  "run_op op a = (case op of BoStore v \<Rightarrow> store_bits v a | BoSet ch v \<Rightarrow> snd (set_bit_at ch v a) | BoMask m v \<Rightarrow> mask_replace m v a)"

definition op_ok :: "bit_op \<Rightarrow> bool" where
  "op_ok op = (case op of BoSet ch v \<Rightarrow> ch < 64 | _ \<Rightarrow> True)"

definition apply_words :: "bit_op \<Rightarrow> nat \<Rightarrow> u16 list \<Rightarrow> u16 list" where
  "apply_words op i ws = map (\<lambda>j. if j < i then op_word op j (ws ! j) else ws ! j) [0..<4]"

lemma four: "[0..<4] = [0, 1, 2, 3::nat]"
  by (simp add: upt_rec numeral_eq_Suc)

lemma apply_words_start: "length ws = 4 \<Longrightarrow> apply_words op 0 ws = ws"
  by (auto simp: apply_words_def four dest: list_4_eq)

lemma apply_words_skip: "\<not> word_touched op i \<Longrightarrow> apply_words op (Suc i) ws = apply_words op i ws"
  by (auto simp: apply_words_def less_Suc_eq op_word_def word_touched_def mask_replace_word_def Let_def split: bit_op.splits)

lemma apply_words_nth: "i < 4 \<Longrightarrow> apply_words op i ws ! i = ws ! i"
  by (simp add: apply_words_def)

lemma apply_words_put: "i < 4 \<Longrightarrow> (apply_words op i ws)[i := op_word op i (ws ! i)] = apply_words op (Suc i) ws"
  by (rule nth_equalityI) (auto simp: apply_words_def nth_list_update less_Suc_eq)

lemma apply_words_whole: "bits_wf a \<Longrightarrow> op_ok op \<Longrightarrow> apply_words op 4 (ab_words a) = ab_words (run_op op a)"
proof -
  assume a: "bits_wf a" and o: "op_ok op"
  then have w: "length (ab_words a) = 4" by (simp add: bits_wf_def)
  have n: "ab_words (run_op op a) ! j = op_word op j (ab_words a ! j)" if "j < 4" for j
  proof (cases op)
    case (BoStore v)
    then show ?thesis using that by (simp add: run_op_def store_bits_def with_write_def bits_words_def op_word_def)
  next
    case (BoSet ch v)
    then show ?thesis using that o w
      by (simp add: run_op_def set_bit_at_def with_write_def op_word_def op_ok_def nth_list_update)
  next
    case (BoMask m v)
    then show ?thesis using that w by (simp add: run_op_def mask_replace_def with_write_def op_word_def nth_enumerate_eq)
  qed
  have "length (ab_words (run_op op a)) = 4" using w
    by (cases op) (simp_all add: run_op_def store_bits_def set_bit_at_def mask_replace_def with_write_def bits_words_def)
  then show ?thesis using n by (intro nth_equalityI) (simp_all add: apply_words_def)
qed

section \<open>State and steps\<close>

datatype seq_pc =
    SqIdle
  | SqRead                          \<comment> \<open>a read attempt begins\<close>
  | SqWords u32 "u16 list"          \<comment> \<open>the counter and the words read so far\<close>
  | SqGot "u16 list"                \<comment> \<open>the counter was confirmed\<close>
  | SqBegin bit_op                  \<comment> \<open>about to load the counter\<close>
  | SqCas bit_op u32                \<comment> \<open>about to make it odd\<close>
  | SqAt bit_op u32 nat             \<comment> \<open>the sole writer, at a word\<close>
  | SqPut bit_op u32 nat u16        \<comment> \<open>the word is loaded, its new value to be stored\<close>

text \<open>\<open>sl_init\<close>, \<open>sl_log\<close>, \<open>sl_ops\<close>, \<open>sl_holder\<close>, \<open>sl_call\<close> and \<open>sl_from\<close> only record the run: the first value, the
  words the finished writes have left, these writes in order, the writer between its two changes of the counter, and for each reader
  how many writes were finished when its call began and when it loaded the counter.\<close>

record seqlock =
  sl_words :: "u16 list"
  sl_seq :: u32
  sl_pcs :: "nat \<Rightarrow> seq_pc"
  sl_init :: u64
  sl_log :: "u16 list list"
  sl_ops :: "bit_op list"
  sl_holder :: "nat option"
  sl_call :: "nat \<Rightarrow> nat"
  sl_from :: "nat \<Rightarrow> nat"

definition seqlock_new :: "u64 \<Rightarrow> seqlock" where
  "seqlock_new v = \<lparr>sl_words = bits_words v, sl_seq = 0, sl_pcs = (\<lambda>_. SqIdle), sl_init = v, sl_log = [], sl_ops = [],
     sl_holder = None, sl_call = (\<lambda>_. 0), sl_from = (\<lambda>_. 0)\<rparr>"

definition sl_values :: "seqlock \<Rightarrow> u16 list list" where
  "sl_values s = bits_words (sl_init s) # sl_log s"

definition set_seq_pc :: "nat \<Rightarrow> seq_pc \<Rightarrow> seqlock \<Rightarrow> seqlock" where
  "set_seq_pc t pc s = s\<lparr>sl_pcs := (sl_pcs s)(t := pc)\<rparr>"

inductive seq_step :: "seqlock \<Rightarrow> seqlock \<Rightarrow> bool" where
  call_read: "sl_pcs s t = SqIdle \<Longrightarrow> seq_step s (set_seq_pc t SqRead (s\<lparr>sl_call := (sl_call s)(t := length (sl_log s))\<rparr>))"
| load_odd: "sl_pcs s t = SqRead \<Longrightarrow> bit (sl_seq s) 0 \<Longrightarrow> seq_step s s"
| give_up: "sl_pcs s t = SqRead \<Longrightarrow> seq_step s (set_seq_pc t SqIdle s)"
| load_even: "sl_pcs s t = SqRead \<Longrightarrow> \<not> bit (sl_seq s) 0 \<Longrightarrow>
    seq_step s (set_seq_pc t (SqWords (sl_seq s) []) (s\<lparr>sl_from := (sl_from s)(t := length (sl_log s))\<rparr>))"
| load_word: "sl_pcs s t = SqWords b ws \<Longrightarrow> length ws < 4 \<Longrightarrow>
    seq_step s (set_seq_pc t (SqWords b (ws @ [sl_words s ! length ws])) s)"
| confirm: "sl_pcs s t = SqWords b ws \<Longrightarrow> length ws = 4 \<Longrightarrow> sl_seq s = b \<Longrightarrow> seq_step s (set_seq_pc t (SqGot ws) s)"
| changed: "sl_pcs s t = SqWords b ws \<Longrightarrow> length ws = 4 \<Longrightarrow> sl_seq s \<noteq> b \<Longrightarrow> seq_step s (set_seq_pc t SqRead s)"
| return: "sl_pcs s t = SqGot ws \<Longrightarrow> seq_step s (set_seq_pc t SqIdle s)"
| call_write: "sl_pcs s t = SqIdle \<Longrightarrow> op_ok op \<Longrightarrow> seq_step s (set_seq_pc t (SqBegin op) s)"
| begin_odd: "sl_pcs s t = SqBegin op \<Longrightarrow> bit (sl_seq s) 0 \<Longrightarrow> seq_step s s"
| begin_even: "sl_pcs s t = SqBegin op \<Longrightarrow> \<not> bit (sl_seq s) 0 \<Longrightarrow> seq_step s (set_seq_pc t (SqCas op (sl_seq s)) s)"
| cas_fail: "sl_pcs s t = SqCas op q \<Longrightarrow> seq_step s (set_seq_pc t (SqBegin op) s)"
| cas_ok: "sl_pcs s t = SqCas op q \<Longrightarrow> sl_seq s = q \<Longrightarrow>
    seq_step s (set_seq_pc t (SqAt op q 0) (s\<lparr>sl_seq := q + 1, sl_holder := Some t\<rparr>))"
| skip_word: "sl_pcs s t = SqAt op q i \<Longrightarrow> i < 4 \<Longrightarrow> \<not> word_touched op i \<Longrightarrow> seq_step s (set_seq_pc t (SqAt op q (Suc i)) s)"
| take_word: "sl_pcs s t = SqAt op q i \<Longrightarrow> i < 4 \<Longrightarrow> word_touched op i \<Longrightarrow>
    seq_step s (set_seq_pc t (SqPut op q i (op_word op i (sl_words s ! i))) s)"
| put_word: "sl_pcs s t = SqPut op q i w \<Longrightarrow>
    seq_step s (set_seq_pc t (SqAt op q (Suc i)) (s\<lparr>sl_words := (sl_words s)[i := w]\<rparr>))"
| end_write: "sl_pcs s t = SqAt op q 4 \<Longrightarrow>
    seq_step s (set_seq_pc t SqIdle (s\<lparr>sl_seq := q + 2, sl_holder := None, sl_log := sl_log s @ [sl_words s],
      sl_ops := sl_ops s @ [op]\<rparr>))"

inductive seq_reachable :: "seqlock \<Rightarrow> bool" where
  start: "seq_reachable (seqlock_new v)"
| step: "seq_reachable s \<Longrightarrow> seq_step s s' \<Longrightarrow> seq_reachable s'"

section \<open>The invariant\<close>

definition sl_now :: "seqlock \<Rightarrow> u16 list" where
  "sl_now s = last (sl_values s)"

text \<open>Only the holder is between its two changes of the counter, and it has changed the words before its own.\<close>

definition writing_ok :: "seqlock \<Rightarrow> nat \<Rightarrow> seq_pc \<Rightarrow> bool" where
  "writing_ok s t pc =
     (case pc of
        SqAt op q i \<Rightarrow> sl_holder s = Some t \<and> q = of_nat (2 * length (sl_log s)) \<and> i \<le> 4 \<and> op_ok op \<and>
          sl_words s = apply_words op i (sl_now s)
      | SqPut op q i w \<Rightarrow> sl_holder s = Some t \<and> q = of_nat (2 * length (sl_log s)) \<and> i < 4 \<and> op_ok op \<and>
          sl_words s = apply_words op i (sl_now s) \<and> w = op_word op i (sl_now s ! i)
      | SqCas op q \<Rightarrow> sl_holder s \<noteq> Some t \<and> \<not> bit q 0 \<and> op_ok op
      | SqBegin op \<Rightarrow> sl_holder s \<noteq> Some t \<and> op_ok op
      | _ \<Rightarrow> sl_holder s \<noteq> Some t)"

text \<open>What a reader has read is right as long as nothing was written since it loaded the counter.\<close>

definition reading_ok :: "seqlock \<Rightarrow> nat \<Rightarrow> seq_pc \<Rightarrow> bool" where
  "reading_ok s t pc =
     (case pc of
        SqRead \<Rightarrow> sl_call s t \<le> length (sl_log s)
      | SqWords b ws \<Rightarrow> sl_call s t \<le> sl_from s t \<and> sl_from s t \<le> length (sl_log s) \<and> b = of_nat (2 * sl_from s t) \<and>
          length ws \<le> 4 \<and>
          (sl_from s t = length (sl_log s) \<and> sl_holder s = None \<longrightarrow> ws = take (length ws) (sl_now s))
      | _ \<Rightarrow> True)"

definition seq_inv :: "seqlock \<Rightarrow> bool" where
  "seq_inv s \<longleftrightarrow> (\<forall>v\<in>set (sl_values s). length v = 4) \<and>
     sl_seq s = of_nat (2 * length (sl_log s) + (if sl_holder s = None then 0 else 1)) \<and>
     (sl_holder s = None \<longrightarrow> sl_words s = sl_now s) \<and>
     (\<forall>t. writing_ok s t (sl_pcs s t)) \<and> (\<forall>t. reading_ok s t (sl_pcs s t))"

lemma even_count: "bit (of_nat n :: u32) 0 \<longleftrightarrow> odd n"
  by (simp add: bit_0)

lemma seq_inv_new: "seq_inv (seqlock_new v)"
  by (simp add: seq_inv_def seqlock_new_def sl_values_def sl_now_def bits_words_def writing_ok_def reading_ok_def)

lemma ok_pcs [simp]: "writing_ok (s\<lparr>sl_pcs := p\<rparr>) = writing_ok s" "reading_ok (s\<lparr>sl_pcs := p\<rparr>) = reading_ok s"
  by (auto simp: fun_eq_iff writing_ok_def reading_ok_def sl_now_def sl_values_def split: seq_pc.split)

lemma inv_set_pc:
  assumes "seq_inv s" and "writing_ok s t pc" and "reading_ok s t pc"
  shows "seq_inv (set_seq_pc t pc s)"
  using assms by (auto simp: seq_inv_def set_seq_pc_def sl_now_def sl_values_def)

lemma inv_call:
  assumes "seq_inv s" and "sl_pcs s t = SqIdle"
  shows "seq_inv (s\<lparr>sl_call := (sl_call s)(t := n)\<rparr>)"
proof -
  have "writing_ok (s\<lparr>sl_call := (sl_call s)(t := n)\<rparr>) u pc = writing_ok s u pc" for u pc
    by (simp add: writing_ok_def sl_now_def sl_values_def split: seq_pc.split)
  moreover have "reading_ok (s\<lparr>sl_call := (sl_call s)(t := n)\<rparr>) u (sl_pcs s u)" if "reading_ok s u (sl_pcs s u)" for u
    using that assms(2) by (cases "u = t"; cases "sl_pcs s u") (auto simp: reading_ok_def sl_now_def sl_values_def)
  ultimately show ?thesis using assms(1) by (simp add: seq_inv_def sl_now_def sl_values_def)
qed

lemma inv_from:
  assumes "seq_inv s" and "sl_pcs s t = SqRead"
  shows "seq_inv (s\<lparr>sl_from := (sl_from s)(t := n)\<rparr>)"
proof -
  have "writing_ok (s\<lparr>sl_from := (sl_from s)(t := n)\<rparr>) u pc = writing_ok s u pc" for u pc
    by (simp add: writing_ok_def sl_now_def sl_values_def split: seq_pc.split)
  moreover have "reading_ok (s\<lparr>sl_from := (sl_from s)(t := n)\<rparr>) u (sl_pcs s u)" if "reading_ok s u (sl_pcs s u)" for u
    using that assms(2) by (cases "u = t"; cases "sl_pcs s u") (auto simp: reading_ok_def sl_now_def sl_values_def)
  ultimately show ?thesis using assms(1) by (simp add: seq_inv_def sl_now_def sl_values_def)
qed

lemma inv_threads:
  assumes "seq_inv s"
  shows "writing_ok s t (sl_pcs s t)" and "reading_ok s t (sl_pcs s t)"
  using assms by (simp_all add: seq_inv_def)

lemma inv_now: "seq_inv s \<Longrightarrow> length (sl_now s) = 4"
  by (simp add: seq_inv_def sl_now_def sl_values_def)

lemma inv_seq: "seq_inv s \<Longrightarrow> sl_seq s = of_nat (2 * length (sl_log s) + (if sl_holder s = None then 0 else 1))"
  by (simp only: seq_inv_def)

lemma inv_even: "seq_inv s \<Longrightarrow> \<not> bit (sl_seq s) 0 \<longleftrightarrow> sl_holder s = None"
  by (simp only: inv_seq even_count) simp

lemma inv_cas:
  assumes "seq_inv s" and "sl_pcs s t = SqCas op q" and "sl_seq s = q"
  shows "seq_inv (set_seq_pc t (SqAt op q 0) (s\<lparr>sl_seq := q + 1, sl_holder := Some t\<rparr>))"
proof -
  have q: "\<not> bit q 0" "op_ok op" using inv_threads(1) [OF assms(1), of t] assms(2) by (simp_all add: writing_ok_def)
  then have h: "sl_holder s = None" using inv_even [OF assms(1)] assms(3) by simp
  have n: "q = of_nat (2 * length (sl_log s))" "sl_words s = sl_now s" using assms(1,3) h by (simp_all add: seq_inv_def)
  let ?s = "s\<lparr>sl_seq := q + 1, sl_holder := Some t\<rparr>"
  have w: "writing_ok ?s u (sl_pcs s u)" if "u \<noteq> t" for u
    using inv_threads(1) [OF assms(1), of u] h that
    by (cases "sl_pcs s u") (simp_all add: writing_ok_def)
  have r: "reading_ok ?s u (sl_pcs s u)" for u
    using inv_threads(2) [OF assms(1), of u] by (cases "sl_pcs s u") (simp_all add: reading_ok_def)
  have t: "writing_ok ?s t (SqAt op q 0)" "reading_ok ?s t (SqAt op q 0)"
    using n q inv_now [OF assms(1)] by (simp_all add: writing_ok_def reading_ok_def sl_now_def sl_values_def apply_words_start)
  show ?thesis using assms(1) w r t n by (simp add: seq_inv_def set_seq_pc_def sl_now_def sl_values_def)
qed

lemma inv_put:
  assumes "seq_inv s" and "sl_pcs s t = SqPut op q i w"
  shows "seq_inv (set_seq_pc t (SqAt op q (Suc i)) (s\<lparr>sl_words := (sl_words s)[i := w]\<rparr>))"
proof -
  have p: "sl_holder s = Some t" "q = of_nat (2 * length (sl_log s))" "i < 4" "op_ok op"
      "sl_words s = apply_words op i (sl_now s)" "w = op_word op i (sl_now s ! i)"
    using inv_threads(1) [OF assms(1), of t] assms(2) by (simp_all add: writing_ok_def)
  let ?s = "s\<lparr>sl_words := (sl_words s)[i := w]\<rparr>"
  have w: "writing_ok ?s u (sl_pcs s u)" if "u \<noteq> t" for u
    using inv_threads(1) [OF assms(1), of u] p(1) that by (cases "sl_pcs s u") (simp_all add: writing_ok_def)
  have r: "reading_ok ?s u (sl_pcs s u)" for u
    using inv_threads(2) [OF assms(1), of u] p(1) by (cases "sl_pcs s u") (simp_all add: reading_ok_def)
  have t: "writing_ok ?s t (SqAt op q (Suc i))" "reading_ok ?s t (SqAt op q (Suc i))"
    using p by (simp_all add: writing_ok_def reading_ok_def sl_now_def sl_values_def apply_words_put)
  show ?thesis using assms(1) w r t p(1) by (simp add: seq_inv_def set_seq_pc_def sl_now_def sl_values_def)
qed

lemma inv_end:
  assumes "seq_inv s" and "sl_pcs s t = SqAt op q 4"
  shows "seq_inv (set_seq_pc t SqIdle (s\<lparr>sl_seq := q + 2, sl_holder := None, sl_log := sl_log s @ [sl_words s],
      sl_ops := sl_ops s @ [op]\<rparr>))"
proof -
  have p: "sl_holder s = Some t" "q = of_nat (2 * length (sl_log s))" "sl_words s = apply_words op 4 (sl_now s)"
    using inv_threads(1) [OF assms(1), of t] assms(2) by (simp_all add: writing_ok_def)
  let ?s = "s\<lparr>sl_seq := q + 2, sl_holder := None, sl_log := sl_log s @ [sl_words s], sl_ops := sl_ops s @ [op]\<rparr>"
  have w: "writing_ok ?s u (sl_pcs s u)" if "u \<noteq> t" for u
    using inv_threads(1) [OF assms(1), of u] p(1) that by (cases "sl_pcs s u") (simp_all add: writing_ok_def)
  have r: "reading_ok ?s u (sl_pcs s u)" for u
    using inv_threads(2) [OF assms(1), of u] by (cases "sl_pcs s u") (auto simp: reading_ok_def)
  have t: "writing_ok ?s t SqIdle" "reading_ok ?s t SqIdle" by (simp_all add: writing_ok_def reading_ok_def)
  have l: "length (sl_words s) = 4" using p(3) by (simp add: apply_words_def)
  have q: "q + 2 = of_nat (2 * length (sl_log s @ [sl_words s]))" using p(2) by simp
  have len: "\<forall>v\<in>set (sl_values ?s). length v = 4" using assms(1) l by (simp add: seq_inv_def sl_values_def)
  have "\<forall>u. writing_ok ?s u (((sl_pcs s)(t := SqIdle)) u)" "\<forall>u. reading_ok ?s u (((sl_pcs s)(t := SqIdle)) u)"
    using w r t by simp_all
  then show ?thesis using len q
    by (simp only: seq_inv_def set_seq_pc_def ok_pcs) (simp add: sl_now_def sl_values_def)
qed

lemma seq_inv_step:
  assumes "seq_inv s" and "seq_step s s'"
  shows "seq_inv s'"
  using assms(2)
proof (cases rule: seq_step.cases)
  case (call_read t)
  note i = inv_call [OF assms(1) call_read(2), of "length (sl_log s)"]
  show ?thesis unfolding call_read(1)
    using inv_threads(1) [OF assms(1), of t] call_read(2)
    by (intro inv_set_pc [OF i]) (simp_all add: writing_ok_def reading_ok_def)
next
  case (load_even t)
  note i = inv_from [OF assms(1) load_even(2), of "length (sl_log s)"]
  have h: "sl_holder s = None" using inv_even [OF assms(1)] load_even(3) by simp
  show ?thesis unfolding load_even(1)
    using inv_threads [OF assms(1), of t] load_even(2) h assms(1)
    by (intro inv_set_pc [OF i]) (simp_all add: writing_ok_def reading_ok_def seq_inv_def)
next
  case (load_word t b ws)
  have l: "length (sl_now s) = 4" by (rule inv_now [OF assms(1)])
  have "sl_words s = sl_now s" if "sl_holder s = None" using assms(1) that by (simp add: seq_inv_def)
  then show ?thesis unfolding load_word(1)
    using inv_threads [OF assms(1), of t] load_word(2,3) l
    by (intro inv_set_pc [OF assms(1)]) (auto simp: writing_ok_def reading_ok_def take_Suc_conv_app_nth)
next
  case (take_word t op q i)
  then show ?thesis
    using inv_threads [OF assms(1), of t] inv_set_pc [OF assms(1)]
    by (auto simp: writing_ok_def reading_ok_def apply_words_nth)
next
  case (skip_word t op q i)
  then show ?thesis
    using inv_threads [OF assms(1), of t] inv_set_pc [OF assms(1)]
    by (auto simp: writing_ok_def reading_ok_def apply_words_skip)
next
  case (begin_even t op)
  then show ?thesis
    using inv_threads [OF assms(1), of t] inv_set_pc [OF assms(1)] by (auto simp: writing_ok_def reading_ok_def)
next
  case (changed t b ws)
  then show ?thesis
    using inv_threads [OF assms(1), of t] inv_set_pc [OF assms(1)] by (auto simp: writing_ok_def reading_ok_def)
next
  case (cas_ok t op q)
  then show ?thesis using inv_cas [OF assms(1)] by simp
next
  case (put_word t op q i w)
  then show ?thesis using inv_put [OF assms(1)] by simp
next
  case (end_write t op q)
  then show ?thesis using inv_end [OF assms(1)] by simp
next
  case (give_up t)
  then show ?thesis
    using inv_threads [OF assms(1), of t] inv_set_pc [OF assms(1)] by (auto simp: writing_ok_def reading_ok_def)
next
  case (confirm t b ws)
  then show ?thesis
    using inv_threads [OF assms(1), of t] inv_set_pc [OF assms(1)] by (auto simp: writing_ok_def reading_ok_def)
next
  case (return t ws)
  then show ?thesis
    using inv_threads [OF assms(1), of t] inv_set_pc [OF assms(1)] by (auto simp: writing_ok_def reading_ok_def)
next
  case (call_write t op)
  then show ?thesis
    using inv_threads [OF assms(1), of t] inv_set_pc [OF assms(1)] by (auto simp: writing_ok_def reading_ok_def)
next
  case (cas_fail t op q)
  then show ?thesis
    using inv_threads [OF assms(1), of t] inv_set_pc [OF assms(1)] by (auto simp: writing_ok_def reading_ok_def)
qed (use assms(1) in simp_all)

lemma seq_reachable_inv: "seq_reachable s \<Longrightarrow> seq_inv s"
  by (induction rule: seq_reachable.induct) (auto intro: seq_inv_new seq_inv_step)

section \<open>The register the threads share\<close>

text \<open>The finished writes, run one after the other on a register that nobody shares.\<close>

definition after_ops :: "u64 \<Rightarrow> bit_op list \<Rightarrow> atomic_bits64" where
  "after_ops v ops = foldl (\<lambda>a op. run_op op a) (bits_new v) ops"

lemma bits_wf_run_op [simp]: "bits_wf (run_op op a) = (bits_wf a \<or> (\<exists>v. op = BoStore v))"
  by (cases op) (simp_all add: run_op_def)

lemma bits_wf_after_ops [simp]: "bits_wf (after_ops v ops)"
  by (induction ops rule: rev_induct) (simp_all add: after_ops_def)

lemma after_ops_snoc [simp]: "after_ops v (ops @ [op]) = run_op op (after_ops v ops)"
  by (simp add: after_ops_def)

lemma ab_seq_run_op: "op_ok op \<Longrightarrow> ab_seq (run_op op a) = ab_seq a + 2"
  by (cases op) (simp_all add: run_op_def store_bits_def set_bit_at_def mask_replace_def with_write_def op_ok_def)

lemma ab_seq_after_ops: "list_all op_ok ops \<Longrightarrow> ab_seq (after_ops v ops) = of_nat (2 * length ops)"
proof (induction ops rule: rev_induct)
  case Nil
  then show ?case by (simp add: after_ops_def bits_new_def)
next
  case (snoc op ops)
  then show ?case by (simp add: ab_seq_run_op)
qed

definition log_ok :: "seqlock \<Rightarrow> bool" where
  "log_ok s \<longleftrightarrow> length (sl_log s) = length (sl_ops s) \<and> list_all op_ok (sl_ops s) \<and>
     (\<forall>k\<le>length (sl_ops s). sl_values s ! k = ab_words (after_ops (sl_init s) (take k (sl_ops s))))"

text \<open>At most one thread is between its two changes of the counter.\<close>

fun writing :: "seq_pc \<Rightarrow> bool" where
  "writing (SqAt op q i) = True"
| "writing (SqPut op q i w) = True"
| "writing _ = False"

lemma writing_holds: "writing_ok s t pc \<Longrightarrow> writing pc \<longleftrightarrow> sl_holder s = Some t"
  by (cases pc) (simp_all add: writing_ok_def)

lemma log_ok_new: "log_ok (seqlock_new v)"
  by (simp add: log_ok_def seqlock_new_def sl_values_def after_ops_def bits_new_def)

lemma log_ok_cong:
  "sl_init s' = sl_init s \<Longrightarrow> sl_log s' = sl_log s \<Longrightarrow> sl_ops s' = sl_ops s \<Longrightarrow> log_ok s' = log_ok s"
  by (simp add: log_ok_def sl_values_def)

lemma log_ok_now:
  assumes "log_ok s"
  shows "sl_now s = ab_words (after_ops (sl_init s) (sl_ops s))"
proof -
  have "sl_now s = sl_values s ! length (sl_ops s)"
    using assms last_conv_nth [of "sl_values s"] by (simp add: sl_now_def log_ok_def sl_values_def)
  then show ?thesis using assms by (simp add: log_ok_def)
qed

lemma log_ok_step:
  assumes "seq_inv s" and "log_ok s" and "seq_step s s'"
  shows "log_ok s'"
  using assms(3)
proof (cases rule: seq_step.cases)
  case (end_write t op q)
  have p: "op_ok op" "sl_words s = apply_words op 4 (sl_now s)"
    using inv_threads(1) [OF assms(1), of t] end_write(2) by (simp_all add: writing_ok_def)
  then have w: "sl_words s = ab_words (run_op op (after_ops (sl_init s) (sl_ops s)))"
    using log_ok_now [OF assms(2)] by (simp add: apply_words_whole)
  have v: "sl_values s' ! k = ab_words (after_ops (sl_init s) (take k (sl_ops s @ [op])))" if "k \<le> Suc (length (sl_ops s))" for k
  proof (cases "k = Suc (length (sl_ops s))")
    case True
    then show ?thesis using assms(2) w
      by (simp add: end_write(1) set_seq_pc_def sl_values_def log_ok_def nth_append)
  next
    case False
    then have "k \<le> length (sl_ops s)" using that by simp
    moreover have "sl_values s' ! k = (sl_values s @ [sl_words s]) ! k"
      by (simp add: end_write(1) set_seq_pc_def sl_values_def)
    moreover from calculation have "\<dots> = sl_values s ! k" using assms(2)
      by (simp only: nth_append) (simp add: sl_values_def log_ok_def)
    ultimately show ?thesis using assms(2) by (simp add: log_ok_def del: nth_Cons_0)
  qed
  then show ?thesis using assms(2) p(1) by (simp add: end_write(1) set_seq_pc_def log_ok_def)
qed (use assms(2) in \<open>simp_all add: set_seq_pc_def cong: log_ok_cong\<close>)

text \<open>Two counts of the 32-bit counter that are less than its range apart.\<close>

lemma same_count: "(of_nat m :: u32) = of_nat n \<Longrightarrow> n \<le> m \<Longrightarrow> m < n + 2 ^ 32 \<Longrightarrow> m = n"
proof -
  assume a: "(of_nat m :: u32) = of_nat n" "n \<le> m" "m < n + 2 ^ 32"
  have "m mod 2 ^ 32 = n mod 2 ^ 32" using arg_cong [OF a(1), of unat] by (simp add: unat_of_nat)
  then show "m = n" using a(2,3) by (metis add_diff_inverse_nat le_add_diff_inverse less_diff_conv2 mod_eq_dvd_iff_nat
      nat_dvd_not_less add.right_neutral add.commute gr0I)
qed

lemma seq_reachable_log: "seq_reachable s \<Longrightarrow> log_ok s"
  by (induction rule: seq_reachable.induct) (auto intro: log_ok_new log_ok_step seq_reachable_inv)

text \<open>C4: A read that confirms its counter returns, as one value, what the register held at one moment of the call:
  the effect of the writes finished when the counter was loaded, at the call or later.  The 32-bit counter must not
  come round between the two loads, that is, fewer than 2 to the 31 writes finish meanwhile.\<close>

theorem seqlock_read_is_atomic:
  assumes "seq_reachable s" and "sl_pcs s t = SqWords b ws" and "length ws = 4" and "sl_seq s = b"
    and "length (sl_ops s) < sl_from s t + 2 ^ 31"
  shows "sl_call s t \<le> sl_from s t \<and> sl_from s t \<le> length (sl_ops s) \<and>
    join_words ws = load_bits (after_ops (sl_init s) (take (sl_from s t) (sl_ops s)))"
proof -
  have i: "seq_inv s" and l: "log_ok s" using assms(1) by (auto intro: seq_reachable_inv seq_reachable_log)
  have len: "length (sl_log s) = length (sl_ops s)" using l by (simp add: log_ok_def)
  have f: "sl_call s t \<le> sl_from s t" "sl_from s t \<le> length (sl_log s)" "b = of_nat (2 * sl_from s t)"
      "sl_from s t = length (sl_log s) \<and> sl_holder s = None \<longrightarrow> ws = sl_now s"
    using inv_threads(2) [OF i, of t] assms(2,3) inv_now [OF i] by (simp_all add: reading_ok_def)
  have "(of_nat (2 * length (sl_log s) + (if sl_holder s = None then 0 else 1)) :: u32) = of_nat (2 * sl_from s t)"
    using inv_seq [OF i] assms(4) f(3) by simp
  then have "2 * length (sl_log s) + (if sl_holder s = None then 0 else 1) = 2 * sl_from s t"
    using f(2) assms(5) len by (intro same_count) simp_all
  then have "sl_from s t = length (sl_log s)" "sl_holder s = None" by (auto split: if_splits) presburger
  then show ?thesis using f log_ok_now [OF l] len by (simp add: load_bits_def)
qed

text \<open>C3: The writes of all threads are as if they ran one after the other, none lost: whenever no thread is
  writing, the words and the counter are what the finished writes leave on a register of one thread; and no two
  threads write at once.\<close>

theorem seqlock_writes_are_serial:
  assumes "seq_reachable s"
  shows "if \<exists>t. writing (sl_pcs s t) then \<exists>!t. writing (sl_pcs s t)
    else after_ops (sl_init s) (sl_ops s) = \<lparr>ab_words = sl_words s, ab_seq = sl_seq s\<rparr>"
proof (cases "\<exists>t. writing (sl_pcs s t)")
  case True
  have i: "seq_inv s" using assms by (rule seq_reachable_inv)
  have "writing (sl_pcs s t) \<longleftrightarrow> sl_holder s = Some t" for t by (rule writing_holds [OF inv_threads(1) [OF i]])
  then show ?thesis using True by auto
next
  case False
  have i: "seq_inv s" and l: "log_ok s" using assms by (auto intro: seq_reachable_inv seq_reachable_log)
  have "sl_holder s \<noteq> Some t" for t using False writing_holds [OF inv_threads(1) [OF i]] by blast
  then have h: "sl_holder s = None" by auto
  then have "ab_words (after_ops (sl_init s) (sl_ops s)) = sl_words s"
    using i log_ok_now [OF l] by (simp add: seq_inv_def)
  moreover have "ab_seq (after_ops (sl_init s) (sl_ops s)) = sl_seq s"
    using h l inv_seq [OF i] by (simp add: log_ok_def ab_seq_after_ops)
  ultimately show ?thesis using False by (cases "after_ops (sl_init s) (sl_ops s)") simp
qed

text \<open>A run: thread 1 sets bit 17, then thread 0 reads.\<close>

definition sl_demo :: "seqlock \<Rightarrow> bool" where
  "sl_demo s \<longleftrightarrow> sl_pcs s 0 = SqWords 2 [0, 2, 0, 0] \<and> sl_seq s = 2 \<and> sl_ops s = [BoSet 17 True] \<and> sl_from s 0 = 1 \<and>
     sl_init s = 0 \<and> \<not> (\<exists>t. writing (sl_pcs s t))"

lemma sl_demo_run: "\<exists>s. seq_reachable s \<and> sl_demo s"
proof -
  note d = set_seq_pc_def word_touched_def op_word_def op_ok_def set_word_bit_def seqlock_new_def bits_words_def four
  note w0 = step [OF start [of 0] call_write [of _ 1 "BoSet 17 True"], simplified d, simplified]
  note w1 = step [OF w0 begin_even [of _ 1], simplified d, simplified]
  note w2 = step [OF w1 cas_ok [of _ 1], simplified d, simplified]
  note w3 = step [OF w2 skip_word [of _ 1], simplified d, simplified]
  note w4 = step [OF w3 take_word [of _ 1], simplified d, simplified]
  note w5 = step [OF w4 put_word [of _ 1], simplified d, simplified]
  note w6 = step [OF w5 skip_word [of _ 1], simplified d, simplified]
  note w7 = step [OF w6 skip_word [of _ 1], simplified d, simplified]
  note w8 = step [OF w7 end_write [of _ 1], simplified d, simplified]
  note r0 = step [OF w8 call_read [of _ 0], simplified d, simplified]
  note r1 = step [OF r0 load_even [of _ 0], simplified d, simplified]
  note r2 = step [OF r1 load_word [of _ 0], simplified d, simplified]
  note r3 = step [OF r2 load_word [of _ 0], simplified d, simplified]
  note r4 = step [OF r3 load_word [of _ 0], simplified d, simplified]
  note r5 = step [OF r4 load_word [of _ 0], simplified d, simplified]
  show ?thesis by (rule exI, rule conjI, rule r5) (auto simp: sl_demo_def)
qed

theorem seqlock_read_is_atomic_witness:
  "\<exists>s. seq_reachable s \<and> sl_demo s \<and> join_words [0, 2, 0, 0] = load_bits (after_ops 0 [BoSet 17 True])"
proof -
  obtain s where s: "seq_reachable s" "sl_demo s" using sl_demo_run by blast
  have "join_words [0, 2, 0, 0] = load_bits (after_ops 0 [BoSet 17 True])"
    using seqlock_read_is_atomic [OF s(1), of 0 2 "[0, 2, 0, 0]"] s(2) by (simp add: sl_demo_def)
  then show ?thesis using s by blast
qed

theorem seqlock_writes_are_serial_witness:
  "\<exists>s. seq_reachable s \<and> sl_demo s \<and> after_ops 0 [BoSet 17 True] = \<lparr>ab_words = sl_words s, ab_seq = 2\<rparr>"
proof -
  obtain s where s: "seq_reachable s" "sl_demo s" using sl_demo_run by blast
  have "after_ops 0 [BoSet 17 True] = \<lparr>ab_words = sl_words s, ab_seq = 2\<rparr>"
    using seqlock_writes_are_serial [OF s(1)] s(2) by (simp add: sl_demo_def)
  then show ?thesis using s by blast
qed

end
