(* ===== verification/Ble_Adv.thy ===== *)
theory Ble_Adv imports At_Facts Ble_Protocol begin

text \<open>
  Advertising and the callbacks of the radio stack: \<open>src/ble_at/advertising_health.rs\<close> (the retry schedule) and
  the GAP and GATT callbacks, the name update and \<open>process_tick\<close> of \<open>src/ble_at/mod.rs\<close>.  The stack is a
  parameter: \<open>sdk op\<close> tells whether the call for \<open>op\<close> is taken, its completion is an event of its own.  The
  clock is read once per callback.
\<close>

section \<open>The schedule\<close>

abbreviation (input) RENEW_INTERVAL_MS :: u32 where "RENEW_INTERVAL_MS \<equiv> 60000"
abbreviation (input) RETRY_INTERVAL_MS :: u32 where "RETRY_INTERVAL_MS \<equiv> 5000"

datatype adv_op = AdvName | AdvConfigure | AdvStart | AdvStop
datatype adv_recovery = NoRecovery | Retry | Renew

record adv_health =
  ah_active :: bool
  ah_pending :: "adv_op option"
  ah_attempt :: u32
  ah_confirmed :: u32
  ah_backoff :: bool

definition adv_new :: adv_health where
  "adv_new = \<lparr>ah_active = False, ah_pending = None, ah_attempt = 0, ah_confirmed = 0, ah_backoff = False\<rparr>"

definition can_update_name :: "u32 \<Rightarrow> adv_health \<Rightarrow> bool" where
  "can_update_name now h \<longleftrightarrow> ah_pending h = None \<and> (\<not> ah_backoff h \<or> now - ah_attempt h \<ge> RETRY_INTERVAL_MS)"

definition adv_begin :: "adv_op \<Rightarrow> u32 \<Rightarrow> adv_health \<Rightarrow> bool \<times> adv_health" where
  "adv_begin op now h =
     (if ah_pending h \<noteq> None then (False, h)
      else (True, h\<lparr>ah_pending := Some op, ah_attempt := now, ah_backoff := False\<rparr>))"

definition adv_complete :: "adv_op \<Rightarrow> bool \<Rightarrow> u32 \<Rightarrow> adv_health \<Rightarrow> bool \<times> adv_health" where
  "adv_complete op success now h =
     (if ah_pending h \<noteq> Some op then (False, h)
      else let h = h\<lparr>ah_active := op = AdvStart \<and> success, ah_pending := None, ah_attempt := now, ah_backoff := \<not> success\<rparr>
        in (True, if ah_active h then h\<lparr>ah_confirmed := now\<rparr> else h))"

definition adv_connected :: "u32 \<Rightarrow> adv_health \<Rightarrow> adv_health" where
  "adv_connected now h = h\<lparr>ah_active := False, ah_pending := None, ah_attempt := now, ah_backoff := False\<rparr>"

definition unexpected_stop :: "u32 \<Rightarrow> adv_health \<Rightarrow> bool \<times> adv_health" where
  "unexpected_stop now h =
     (if ah_pending h \<noteq> None then (False, h)
      else (True, h\<lparr>ah_active := False, ah_attempt := now, ah_backoff := False\<rparr>))"

definition recovery :: "u32 \<Rightarrow> bool \<Rightarrow> bool \<Rightarrow> bool \<Rightarrow> adv_health \<Rightarrow> adv_recovery \<times> adv_health" where
  "recovery now service_ready connected rename_pending h =
     (if \<not> service_ready \<or> connected then (NoRecovery, h)
      else if ah_pending h \<noteq> None then
        (if now - ah_attempt h < RETRY_INTERVAL_MS then (NoRecovery, h)
         else (Retry, h\<lparr>ah_active := False, ah_pending := None\<rparr>))
      else if rename_pending then (NoRecovery, h)
      else if \<not> ah_active h then (if now - ah_attempt h \<ge> RETRY_INTERVAL_MS then (Retry, h) else (NoRecovery, h))
      else if now - ah_confirmed h \<ge> RENEW_INTERVAL_MS then (Renew, h)
      else (NoRecovery, h))"

section \<open>Calls of the stack\<close>

text \<open>\<open>gs_conn\<close> is \<open>CONN_ID\<close> and \<open>gs_rename\<close> is \<open>PENDING_GAP_NAME_UPDATE\<close>; \<open>gs_calls\<close> records the calls.\<close>

record gap_state =
  gs_health :: adv_health
  gs_conn :: u16
  gs_started :: bool
  gs_rename :: bool
  gs_reconfigure :: bool
  gs_calls :: "adv_op list"

definition gap_new :: gap_state where
  "gap_new = \<lparr>gs_health = adv_new, gs_conn = 0xFFFF, gs_started = False, gs_rename = False, gs_reconfigure = False, gs_calls = []\<rparr>"

type_synonym gap_sdk = "adv_op \<Rightarrow> bool"

definition begin_operation :: "adv_op \<Rightarrow> u32 \<Rightarrow> gap_state \<Rightarrow> bool \<times> gap_state" where
  "begin_operation op now g =
     (if gs_conn g \<noteq> 0xFFFF then (False, g)
      else let (ok, h) = adv_begin op now (gs_health g) in (ok, g\<lparr>gs_health := h\<rparr>))"

definition complete_operation :: "adv_op \<Rightarrow> bool \<Rightarrow> u32 \<Rightarrow> gap_state \<Rightarrow> bool \<times> gap_state" where
  "complete_operation op success now g =
     (let (ok, h) = adv_complete op success now (gs_health g) in (ok, g\<lparr>gs_health := h\<rparr>))"

text \<open>Reserve the phase, call the stack, release the phase when the call is refused.\<close>

definition call_stack :: "gap_sdk \<Rightarrow> adv_op \<Rightarrow> u32 \<Rightarrow> gap_state \<Rightarrow> bool \<times> gap_state" where
  "call_stack sdk op now g =
     (case begin_operation op now g of
        (False, g) \<Rightarrow> (False, g)
      | (True, g) \<Rightarrow>
          let g = g\<lparr>gs_calls := gs_calls g @ [op]\<rparr>
          in if sdk op then (True, g) else (False, snd (complete_operation op False now g)))"

definition start_advertising :: "gap_sdk \<Rightarrow> u32 \<Rightarrow> gap_state \<Rightarrow> gap_state" where
  "start_advertising sdk now g = snd (call_stack sdk AdvStart now g)"

definition stop_advertising :: "gap_sdk \<Rightarrow> u32 \<Rightarrow> gap_state \<Rightarrow> bool \<times> gap_state" where
  "stop_advertising sdk now g = call_stack sdk AdvStop now g"

definition config_adv_data :: "gap_sdk \<Rightarrow> u32 \<Rightarrow> gap_state \<Rightarrow> bool \<times> gap_state" where
  "config_adv_data sdk now g = call_stack sdk AdvConfigure now g"

definition advertising_connected :: "u32 \<Rightarrow> gap_state \<Rightarrow> gap_state" where
  "advertising_connected now g =
     (let g = g\<lparr>gs_health := adv_connected now (gs_health g)\<rparr>
      in if gs_reconfigure g then g\<lparr>gs_reconfigure := False, gs_rename := True\<rparr> else g)"

definition advertising_disconnected :: "gap_sdk \<Rightarrow> u32 \<Rightarrow> gap_state \<Rightarrow> gap_state" where
  "advertising_disconnected sdk now g =
     (let g = g\<lparr>gs_health := adv_connected now (gs_health g)\<rparr>
      in if gs_rename g then g else start_advertising sdk now g)"

section \<open>The name on the air\<close>

text \<open>A \<open>heapless::String<16>\<close>: what does not fit is not appended.\<close>

definition push_text :: "nat \<Rightarrow> u8 list \<Rightarrow> u8 list \<Rightarrow> u8 list" where
  "push_text cap buf s = (if length buf + length s \<le> cap then buf @ s else buf)"

definition trim_end_nul :: "u8 list \<Rightarrow> u8 list" where
  "trim_end_nul xs = rev (dropWhile (\<lambda>b. b = 0) (rev xs))"

definition gap_name_from_ble_id :: "u8 list \<Rightarrow> u8 list" where
  "gap_name_from_ble_id ble_id =
     (let i = trim_end_nul ble_id in
      if i = [] then push_text 16 [] (ascii ''Mesh'')
      else if hd i = 0x6D \<or> hd i = 0x4D then push_text 16 [] i
      else push_text 16 (push_text 16 [] [0x4D]) i)"

text \<open>The name of the configuration, taken over when it holds no NUL; the calls for it.\<close>

definition update_gap_device_name :: "gap_sdk \<Rightarrow> u32 \<Rightarrow> u8 list \<Rightarrow> gap_state \<Rightarrow> gap_state" where
  "update_gap_device_name sdk now configured_id g =
     (if gs_conn g \<noteq> 0xFFFF \<or> \<not> gs_started g \<or> \<not> can_update_name now (gs_health g) then g\<lparr>gs_rename := True\<rparr>
      else if 0 \<in> set (gap_name_from_ble_id configured_id) then g
      else case begin_operation AdvName now g of
        (False, g) \<Rightarrow> g\<lparr>gs_rename := True\<rparr>
      | (True, g) \<Rightarrow>
          let g = g\<lparr>gs_calls := gs_calls g @ [AdvName]\<rparr>;
              was_active = ah_active (gs_health g);
              g = snd (complete_operation AdvName (sdk AdvName) now g)
          in if \<not> sdk AdvName then g\<lparr>gs_rename := True\<rparr>
             else if was_active then
               (case stop_advertising sdk now (g\<lparr>gs_reconfigure := True\<rparr>) of
                  (True, g) \<Rightarrow> g
                | (False, g) \<Rightarrow> g\<lparr>gs_reconfigure := False, gs_rename := True\<rparr>)
             else (case config_adv_data sdk now g of
                  (True, g) \<Rightarrow> g
                | (False, g) \<Rightarrow> g\<lparr>gs_rename := True\<rparr>))"

definition maintain_advertising :: "gap_sdk \<Rightarrow> u32 \<Rightarrow> u8 list \<Rightarrow> gap_state \<Rightarrow> gap_state" where
  "maintain_advertising sdk now configured_id g =
     (let connected = gs_conn g \<noteq> 0xFFFF;
          (r, h) = recovery now (gs_started g) connected (gs_rename g) (gs_health g);
          g = g\<lparr>gs_health := h\<rparr>;
          g = (case r of
                 NoRecovery \<Rightarrow> g
               | Retry \<Rightarrow> let g = g\<lparr>gs_reconfigure := False\<rparr> in if gs_rename g then g else snd (config_adv_data sdk now g)
               | Renew \<Rightarrow> start_advertising sdk now g)
      in if \<not> connected \<and> can_update_name now (gs_health g) \<and> gs_rename g
         then update_gap_device_name sdk now configured_id (g\<lparr>gs_rename := False\<rparr>) else g)"

section \<open>Callbacks\<close>

datatype gap_event = DataSet bool | Started bool | Stopped bool

text \<open>Whether the stack has stopped on its own.\<close>

definition stop_outcome :: "bool \<Rightarrow> u32 \<Rightarrow> gap_state \<Rightarrow> bool \<times> adv_health" where
  "stop_outcome stopped now g =
     (if stopped then (False, gs_health g)
      else if gs_conn g = 0xFFFF then unexpected_stop now (gs_health g)
      else (False, gs_health g))"

definition gap_event_cb :: "gap_sdk \<Rightarrow> u32 \<Rightarrow> gap_event \<Rightarrow> gap_state \<Rightarrow> gap_state" where
  "gap_event_cb sdk now ev g =
     (case ev of
        DataSet success \<Rightarrow>
          (case complete_operation AdvConfigure success now g of
             (False, g) \<Rightarrow> g
           | (True, g) \<Rightarrow> if success then start_advertising sdk now g else g)
      | Started success \<Rightarrow> snd (complete_operation AdvStart success now g)
      | Stopped success \<Rightarrow>
          (let (stopped, g) = complete_operation AdvStop success now g;
               (unexpected, h) = stop_outcome stopped now g;
               g = g\<lparr>gs_health := h\<rparr>
           in if unexpected then (if success then start_advertising sdk now g else g)
              else if gs_conn g \<noteq> 0xFFFF then g
              else if gs_reconfigure g then
                (let g = g\<lparr>gs_reconfigure := False\<rparr>
                 in if success then snd (config_adv_data sdk now g) else g\<lparr>gs_rename := True\<rparr>)
              else g))"

section \<open>The radio and its callbacks\<close>

abbreviation (input) IDX_CHAR_VALUE :: nat where "IDX_CHAR_VALUE \<equiv> 2"
abbreviation (input) IDX_CHAR_CCCD :: nat where "IDX_CHAR_CCCD \<equiv> 3"
abbreviation (input) ATTR_TABLE_LEN :: nat where "ATTR_TABLE_LEN \<equiv> 4"
abbreviation (input) HEARTBEAT_TICKS :: u16 where "HEARTBEAT_TICKS \<equiv> 1000"

record radio =
  rd_link :: ble_link
  rd_gap :: gap_state
  rd_gatts_if :: u8
  rd_handles :: "u16 list"
  rd_led :: u8
  rd_hb_div :: u16

definition radio_new :: radio where
  "radio_new = \<lparr>rd_link = ble_link_new, rd_gap = gap_new, rd_gatts_if = 0xFF, rd_handles = replicate ATTR_TABLE_LEN 0,
     rd_led = 2, rd_hb_div = 0\<rparr>"

text \<open>The connection is kept in the link and the name request in the register map's state.\<close>

definition on_gap :: "(gap_state \<Rightarrow> gap_state) \<Rightarrow> radio \<times> bus_state \<Rightarrow> radio \<times> bus_state" where
  "on_gap f rs =
     (let (r, s) = rs; g = f ((rd_gap r)\<lparr>gs_conn := bl_conn (rd_link r), gs_rename := bus_ble_notified s\<rparr>)
      in (r\<lparr>rd_gap := g\<rparr>, s\<lparr>bus_ble_notified := gs_rename g\<rparr>))"

definition queue_heartbeat :: "ble_locks \<Rightarrow> u8 list \<Rightarrow> ble_link \<Rightarrow> ble_link" where
  "queue_heartbeat lk mac l =
     (case build_ble_frame 0 0 (build_heartbeat_pdu mac 1) of None \<Rightarrow> l | Some f \<Rightarrow> snd (enqueue_tx_frame lk f l))"

datatype gatts_event =
    Registered bool u8
  | TableCreated bool "u16 list" bool       \<comment> \<open>status, handles, whether the service starts\<close>
  | Written u16 "u8 list" bool u16          \<comment> \<open>handle, value, answer wanted, connection\<close>
  | ClientConnected u16 u8
  | ClientGone
  | MtuAgreed u16 u16
  | Congested u16 bool

text \<open>A write by the client; the first result tells whether it is answered.\<close>

definition gatts_write :: "ble_locks \<Rightarrow> u16 \<Rightarrow> u8 list \<Rightarrow> bool \<Rightarrow> u16 \<Rightarrow> radio \<times> bus_state \<Rightarrow> bool \<times> radio \<times> bus_state" where
  "gatts_write lk handle v need_rsp conn rs =
     (let (r, s) = rs; rsp = need_rsp \<and> rd_gatts_if r \<noteq> 0xFF in
      if handle = rd_handles r ! IDX_CHAR_CCCD \<and> length v = 2 then
        (rsp, r\<lparr>rd_link := (rd_link r)\<lparr>bl_notify := bit (le16 (v ! 0) (v ! 1)) 0\<rparr>\<rparr>, s)
      else if handle = rd_handles r ! IDX_CHAR_VALUE \<and> v \<noteq> [] then
        (if need_rsp \<and> rd_gatts_if r = 0xFF then (False, r, s)
         else let (fed, l, s) = try_feed_binary_protocol lk v conn (rd_link r, s);
                  (l, s) = (if fed then (l, s) else feed_data lk v (l, s))
              in (rsp, r\<lparr>rd_link := l\<rparr>, s))
      else (rsp, r, s))"

text \<open>The events of the connection.\<close>

definition connection_event :: "gap_sdk \<Rightarrow> ble_locks \<Rightarrow> u8 list \<Rightarrow> u32 \<Rightarrow> gatts_event \<Rightarrow> radio \<times> bus_state \<Rightarrow> radio \<times> bus_state" where
  "connection_event sdk lk mac now ev rs =
     (let (r, s) = rs; l = rd_link r in
      case ev of
        ClientConnected conn ifc \<Rightarrow>
          let r = r\<lparr>rd_link := l\<lparr>bl_epoch := bl_epoch l + 1, bl_conn := conn, bl_mtu := 23, bl_congested := False\<rparr>,
                    rd_gatts_if := ifc\<rparr>;
              (r, s) = on_gap (advertising_connected now) (r, s)
          in (r\<lparr>rd_link := queue_heartbeat lk mac (rd_link r)\<rparr>, s)
      | ClientGone \<Rightarrow>
          on_gap (advertising_disconnected sdk now)
            (r\<lparr>rd_link := l\<lparr>bl_conn := 0xFFFF, bl_epoch := bl_epoch l + 1, bl_notify := False, bl_mtu := 23,
                            bl_congested := False, bl_dirty := True\<rparr>\<rparr>, s)
      | MtuAgreed conn mtu \<Rightarrow>
          (if conn = bl_conn l then r\<lparr>rd_link := l\<lparr>bl_mtu := max 23 (min mtu 500)\<rparr>\<rparr> else r, s)
      | Congested conn c \<Rightarrow> (if conn = bl_conn l then r\<lparr>rd_link := l\<lparr>bl_congested := c\<rparr>\<rparr> else r, s)
      | _ \<Rightarrow> rs)"

definition gatts_event_cb :: "gap_sdk \<Rightarrow> ble_locks \<Rightarrow> u8 list \<Rightarrow> u32 \<Rightarrow> gatts_event \<Rightarrow> radio \<times> bus_state \<Rightarrow> radio \<times> bus_state" where
  "gatts_event_cb sdk lk mac now ev rs =
     (let (r, s) = rs in
      case ev of
        Registered ok ifc \<Rightarrow> (if ok then r\<lparr>rd_gatts_if := ifc\<rparr> else r, s)
      | TableCreated ok hs starts \<Rightarrow>
          if \<not> ok \<or> hs = [] then rs
          else let n = min (length hs) ATTR_TABLE_LEN; r = r\<lparr>rd_handles := take n hs @ drop n (rd_handles r)\<rparr>
            in if \<not> starts then (r, s)
               else on_gap (\<lambda>g. snd (config_adv_data sdk now (g\<lparr>gs_started := True\<rparr>))) (r, s)
      | Written handle v need_rsp conn \<Rightarrow> snd (gatts_write lk handle v need_rsp conn (r, s))
      | _ \<Rightarrow> connection_event sdk lk mac now ev rs)"

section \<open>The tick of the main loop\<close>

record 'f radio_env =
  re_sdk :: gap_sdk
  re_now :: u32
  re_ble :: ble_env
  re_text :: "'f at_env"
  re_led_ok :: bool
  re_submitted :: bool
  re_same :: bool

definition set_bt_led :: "bool \<Rightarrow> radio \<Rightarrow> radio" where
  "set_bt_led led_ok r =
     (let want = (if bl_conn (rd_link r) \<noteq> 0xFFFF then 1 else 0)
      in if rd_led r \<noteq> want \<and> led_ok then r\<lparr>rd_led := want\<rparr> else r)"

text \<open>The radio with the rest of the device; \<open>None\<close> when the text parser stops the program.\<close>

type_synonym 'f radio_world = "radio \<times> 'f at_world"

definition radio_on_bus :: "(radio \<times> bus_state \<Rightarrow> radio \<times> bus_state) \<Rightarrow> 'f radio_world \<Rightarrow> 'f radio_world" where
  "radio_on_bus f rw = (let (r, w) = rw in at_on_bus (\<lambda>s. f (r, s)) w)"

definition serve_binary :: "ble_env \<Rightarrow> u16 \<Rightarrow> 'f radio_world \<Rightarrow> 'f radio_world" where
  "serve_binary e conn rw =
     (let (r, w) = rw in
      at_dev (\<lambda>d. let (l, s, nv) = serve_next_request e conn (rd_link r, dw_bus d, dw_nvs d)
                  in (r\<lparr>rd_link := l\<rparr>, d\<lparr>dw_bus := s, dw_nvs := nv\<rparr>)) w)"

definition ble_process_tick :: "'f radio_env \<Rightarrow> 'f radio_world \<Rightarrow> (u8 list option \<times> 'f radio_world) option" where
  "ble_process_tick e rw =
     (let lk = be_locks (re_ble e); (r, w) = rw;
          (r, w) = radio_on_bus (on_gap (maintain_advertising (re_sdk e) (re_now e) (ble_name_str (bus_config (at_bus w)))))
                     (set_bt_led (re_led_ok e) r, w);
          r = r\<lparr>rd_link := clear_connection_buffers lk (rd_link r)\<rparr>;
          conn = bl_conn (rd_link r)
      in if conn = 0xFFFF \<or> rd_gatts_if r = 0xFF \<or> rd_handles r ! IDX_CHAR_VALUE = 0 then Some (None, r, w)
         else let (r, w) = serve_binary (re_ble e) conn (r, w)
           in case serve_text_line (re_text e) lk (rd_link r, w) of
                None \<Rightarrow> None
              | Some (l, w) \<Rightarrow>
                  let n = rd_hb_div r;
                      l = (if n mod HEARTBEAT_TICKS = 0 \<and> bl_notify l then queue_heartbeat lk (be_bt_mac (re_ble e)) l else l);
                      (out, l) = send_next_notification lk (re_submitted e) (re_same e) l
                  in Some (out, r\<lparr>rd_link := l, rd_hb_div := n + 1\<rparr>, w))"

section \<open>Invariant\<close>

definition gap_ok :: "gap_state \<Rightarrow> bool" where
  "gap_ok g \<longleftrightarrow> (gs_conn g \<noteq> 0xFFFF \<longrightarrow> ah_pending (gs_health g) = None \<and> \<not> ah_active (gs_health g)) \<and>
     (ah_active (gs_health g) \<longrightarrow> \<not> ah_backoff (gs_health g))"

lemmas gap_simps = gap_ok_def begin_operation_def complete_operation_def adv_begin_def adv_complete_def call_stack_def
  start_advertising_def stop_advertising_def config_adv_data_def Let_def

lemma call_stack_ok: "gap_ok g \<Longrightarrow> gap_ok (snd (call_stack sdk op now g)) \<and> gs_conn (snd (call_stack sdk op now g)) = gs_conn g"
  by (auto simp: gap_simps split: if_splits)

lemma complete_ok: "gap_ok g \<Longrightarrow> gap_ok (snd (complete_operation op ok now g)) \<and> gs_conn (snd (complete_operation op ok now g)) = gs_conn g"
  by (auto simp: gap_simps split: if_splits)

lemma start_ok: "gap_ok g \<Longrightarrow> gap_ok (start_advertising sdk now g) \<and> gs_conn (start_advertising sdk now g) = gs_conn g"
  unfolding start_advertising_def by (rule call_stack_ok)

lemma config_ok: "gap_ok g \<Longrightarrow> gap_ok (snd (config_adv_data sdk now g)) \<and> gs_conn (snd (config_adv_data sdk now g)) = gs_conn g"
  unfolding config_adv_data_def by (rule call_stack_ok)

lemma stop_ok: "gap_ok g \<Longrightarrow> gap_ok (snd (stop_advertising sdk now g)) \<and> gs_conn (snd (stop_advertising sdk now g)) = gs_conn g"
  unfolding stop_advertising_def by (rule call_stack_ok)

lemma gap_ok_flags [simp]:
  "gap_ok (g\<lparr>gs_rename := x\<rparr>) = gap_ok g" "gap_ok (g\<lparr>gs_reconfigure := x\<rparr>) = gap_ok g"
  "gap_ok (g\<lparr>gs_calls := cs\<rparr>) = gap_ok g" "gap_ok (g\<lparr>gs_started := x\<rparr>) = gap_ok g"
  by (simp_all add: gap_ok_def)

lemma begin_ok: "gap_ok g \<Longrightarrow> gap_ok (snd (begin_operation op now g)) \<and> gs_conn (snd (begin_operation op now g)) = gs_conn g"
  by (auto simp: gap_simps split: if_splits)

lemma update_name_ok:
  assumes "gap_ok g"
  shows "gap_ok (update_gap_device_name sdk now n g) \<and> gs_conn (update_gap_device_name sdk now n g) = gs_conn g"
proof -
  obtain b g1 where b: "begin_operation AdvName now g = (b, g1)" by (rule prod.exhaust)
  have g1: "gap_ok g1" "gs_conn g1 = gs_conn g" using begin_ok [OF assms, of AdvName now] b by auto
  let ?g = "snd (complete_operation AdvName (sdk AdvName) now (g1\<lparr>gs_calls := gs_calls g1 @ [AdvName]\<rparr>))"
  have g2: "gap_ok ?g" "gs_conn ?g = gs_conn g"
    using complete_ok [of "g1\<lparr>gs_calls := gs_calls g1 @ [AdvName]\<rparr>" AdvName "sdk AdvName" now] g1 by auto
  have st: "gap_ok (snd (stop_advertising sdk now (?g\<lparr>gs_reconfigure := True\<rparr>)))"
      "gs_conn (snd (stop_advertising sdk now (?g\<lparr>gs_reconfigure := True\<rparr>))) = gs_conn g"
    using stop_ok [of "?g\<lparr>gs_reconfigure := True\<rparr>" sdk now] g2 by auto
  have co: "gap_ok (snd (config_adv_data sdk now ?g))" "gs_conn (snd (config_adv_data sdk now ?g)) = gs_conn g"
    using config_ok [of ?g sdk now] g2 by auto
  show ?thesis using assms b g1 g2 st co
    by (auto simp: update_gap_device_name_def Let_def split: bool.split prod.split if_split)
qed

lemma recovery_ok: "gap_ok g \<Longrightarrow> gap_ok (g\<lparr>gs_health := snd (recovery now (gs_started g) c (gs_rename g) (gs_health g))\<rparr>)"
  by (auto simp: gap_ok_def recovery_def)

lemma maintain_ok:
  assumes "gap_ok g"
  shows "gap_ok (maintain_advertising sdk now n g) \<and> gs_conn (maintain_advertising sdk now n g) = gs_conn g"
proof -
  obtain r h where r: "recovery now (gs_started g) (gs_conn g \<noteq> 0xFFFF) (gs_rename g) (gs_health g) = (r, h)"
    by (rule prod.exhaust)
  have g1: "gap_ok (g\<lparr>gs_health := h\<rparr>)" using recovery_ok [OF assms, of now "gs_conn g \<noteq> 0xFFFF"] r by simp
  let ?g = "case r of NoRecovery \<Rightarrow> g\<lparr>gs_health := h\<rparr>
    | Retry \<Rightarrow> (let g = g\<lparr>gs_health := h, gs_reconfigure := False\<rparr> in if gs_rename g then g else snd (config_adv_data sdk now g))
    | Renew \<Rightarrow> start_advertising sdk now (g\<lparr>gs_health := h\<rparr>)"
  have "gap_ok (g\<lparr>gs_health := h, gs_reconfigure := False\<rparr>)" using g1 by (simp add: gap_ok_def)
  then have g2: "gap_ok ?g \<and> gs_conn ?g = gs_conn g"
    using g1 start_ok [OF g1, of sdk now] config_ok [of "g\<lparr>gs_health := h, gs_reconfigure := False\<rparr>" sdk now]
    by (auto simp: Let_def split: adv_recovery.split)
  then have "gap_ok (?g\<lparr>gs_rename := False\<rparr>)" by simp
  from update_name_ok [OF this, of sdk now n] g2 show ?thesis
    by (simp add: maintain_advertising_def r Let_def)
qed

lemma gap_event_ok:
  assumes "gap_ok g"
  shows "gap_ok (gap_event_cb sdk now ev g) \<and> gs_conn (gap_event_cb sdk now ev g) = gs_conn g"
proof (cases ev)
  case (DataSet success)
  then show ?thesis using complete_ok [OF assms, of AdvConfigure success now] start_ok
    by (auto simp: gap_event_cb_def split: prod.split bool.split)
next
  case (Started success)
  then show ?thesis using complete_ok [OF assms] by (simp add: gap_event_cb_def)
next
  case (Stopped success)
  obtain b g1 where b: "complete_operation AdvStop success now g = (b, g1)" by (rule prod.exhaust)
  have g1: "gap_ok g1" "gs_conn g1 = gs_conn g" using complete_ok [OF assms, of AdvStop success now] b by auto
  obtain u h where u: "stop_outcome b now g1 = (u, h)" by (rule prod.exhaust)
  have g2: "gap_ok (g1\<lparr>gs_health := h\<rparr>)" using g1 u
    by (auto simp: gap_ok_def stop_outcome_def unexpected_stop_def split: if_splits)
  have g3: "gap_ok (g1\<lparr>gs_health := h, gs_reconfigure := False\<rparr>)" using g2 by (simp add: gap_ok_def)
  show ?thesis
    using g1 g2 g3 start_ok [OF g2, of sdk now] config_ok [OF g3, of sdk now]
    by (simp only: Stopped gap_event_cb_def gap_event.case b u Let_def prod.case split: if_split) simp
qed

lemma connected_ok: "gap_ok (advertising_connected now g) \<and> gs_conn (advertising_connected now g) = gs_conn g"
  by (auto simp: gap_ok_def advertising_connected_def adv_connected_def Let_def)

lemma disconnected_ok: "gap_ok (advertising_disconnected sdk now g) \<and> gs_conn (advertising_disconnected sdk now g) = gs_conn g"
proof -
  let ?g = "g\<lparr>gs_health := adv_connected now (gs_health g)\<rparr>"
  have "gap_ok ?g" by (simp add: gap_ok_def adv_connected_def)
  then show ?thesis using start_ok [of ?g sdk now] by (auto simp: advertising_disconnected_def Let_def)
qed

section \<open>Runs\<close>

text \<open>Callbacks, ticks and everything else in any order: the other tasks may change the register map, request a new
  name and move the buffers of the link, but not the connection.\<close>

definition same_connection :: "ble_link \<Rightarrow> ble_link \<Rightarrow> bool" where
  "same_connection l l' \<longleftrightarrow> bl_conn l' = bl_conn l \<and> bl_mtu l' = bl_mtu l"

inductive radio_reachable :: "radio \<times> bus_state \<Rightarrow> bool" where
  boot: "radio_reachable (radio_new, s)"
| gap: "radio_reachable rs \<Longrightarrow> radio_reachable (on_gap (gap_event_cb sdk now ev) rs)"
| gatts: "radio_reachable rs \<Longrightarrow> radio_reachable (gatts_event_cb sdk lk mac now ev rs)"
| tick: "radio_reachable rs \<Longrightarrow> radio_reachable (on_gap (maintain_advertising sdk now name) rs)"
| others: "radio_reachable (r, s) \<Longrightarrow> same_connection (rd_link r) l \<Longrightarrow>
    radio_reachable (r\<lparr>rd_link := l, rd_led := led, rd_hb_div := n\<rparr>, s')"

definition radio_gap :: "radio \<times> bus_state \<Rightarrow> gap_state" where
  "radio_gap rs = (rd_gap (fst rs))\<lparr>gs_conn := bl_conn (rd_link (fst rs)), gs_rename := bus_ble_notified (snd rs)\<rparr>"

definition radio_ok :: "radio \<times> bus_state \<Rightarrow> bool" where
  "radio_ok rs \<longleftrightarrow> gap_ok (radio_gap rs) \<and> 23 \<le> bl_mtu (rd_link (fst rs)) \<and> bl_mtu (rd_link (fst rs)) \<le> 500"

lemma on_gap_ok:
  assumes "radio_ok rs" and "gap_ok (f (radio_gap rs)) \<and> gs_conn (f (radio_gap rs)) = gs_conn (radio_gap rs)"
  shows "radio_ok (on_gap f rs)"
proof (cases rs)
  case (Pair r s)
  let ?g = "f (radio_gap (r, s))"
  have "gap_ok (?g\<lparr>gs_conn := bl_conn (rd_link r)\<rparr>)"
    using assms(2) by (simp add: Pair) (simp add: gap_ok_def radio_gap_def)
  then show ?thesis using assms(1) by (simp add: Pair radio_ok_def on_gap_def radio_gap_def Let_def)
qed

lemma link_kept:
  "same_connection l (snd (enqueue_tx_frame lk f l))" "same_connection l (queue_heartbeat lk mac l)"
  by (auto simp: same_connection_def queue_heartbeat_def enqueue_tx_frame_def split: prod.split option.split)

lemma same_refl [simp]: "same_connection l l"
  by (simp add: same_connection_def)

lemma same_trans: "same_connection l1 l2 \<Longrightarrow> same_connection l2 l3 \<Longrightarrow> same_connection l1 l3"
  by (simp add: same_connection_def)

lemma same_updates [simp]:
  "same_connection l (set_slot i sl l') = same_connection l l'" "same_connection l (l'\<lparr>bl_active := a\<rparr>) = same_connection l l'"
  "same_connection l (l'\<lparr>bl_requests := q\<rparr>) = same_connection l l'" "same_connection l (l'\<lparr>bl_text := t\<rparr>) = same_connection l l'"
  "same_connection l (l'\<lparr>bl_notify := b\<rparr>) = same_connection l l'"
  by (simp_all add: same_connection_def set_slot_def)

lemma same_release [simp]: "same_connection l (snd (release_binary_rx_slot lk i l')) = same_connection l l'"
  by (simp add: release_binary_rx_slot_def Let_def)

lemma same_enqueue [simp]: "same_connection l (snd (try_enqueue_request lk i l')) = same_connection l l'"
  by (simp add: try_enqueue_request_def split: prod.split)

lemma same_claim: "same_connection l (snd (claim_loop lk conn is l))"
  by (induction "is") auto

lemma same_feed_slot: "same_connection l' l \<Longrightarrow> same_connection l' (fst (feed_slot lk data i (l, s)))"
proof -
  assume l: "same_connection l' l"
  obtain ok m where e: "try_enqueue_request lk i ((set_slot (unat i) ((bl_slots l ! unat i)\<lparr>sl_frame := sl_frame (bl_slots l ! unat i) @ data\<rparr>) l)
      \<lparr>bl_active := BLE_SLOT_NONE\<rparr>) = (ok, m)" by (rule prod.exhaust)
  show ?thesis using l
    by (simp add: feed_slot_def Let_def abandon_slot_def split: option.split prod.split)
      (metis same_enqueue same_updates(1,2) snd_conv)
qed

lemma same_try_feed: "same_connection l (fst (snd (try_feed_binary_protocol lk data conn (l, s))))"
  using same_claim [of l lk conn "[0..<length (bl_slots l)]"]
  by (auto simp: try_feed_binary_protocol_def claim_binary_rx_slot_def intro!: same_feed_slot split: prod.split option.split)

lemma same_feed_data: "same_connection l (fst (feed_data lk data (l, s))) = True"
  by (simp add: feed_data_def)

lemma radio_ok_link:
  assumes "radio_ok (r, s)" and "same_connection (rd_link r) (rd_link r')" and "rd_gap r' = rd_gap r"
  shows "radio_ok (r', s')"
  using assms by (simp add: radio_ok_def radio_gap_def same_connection_def)

lemma gatts_write_ok: "radio_ok (r, s) \<Longrightarrow> radio_ok (snd (gatts_write lk h v n c (r, s)))"
proof -
  assume a: "radio_ok (r, s)"
  obtain fed l s1 where f: "try_feed_binary_protocol lk v c (rd_link r, s) = (fed, l, s1)" by (metis prod.exhaust)
  have l: "same_connection (rd_link r) l" using same_try_feed [of "rd_link r" lk v c s] f by simp
  obtain l2 s2 where d: "(if fed then (l, s1) else feed_data lk v (l, s1)) = (l2, s2)" by (rule prod.exhaust)
  have "same_connection (rd_link r) l2"
    using l d same_feed_data [of l lk v s1] by (auto split: if_splits intro: same_trans)
  then have "radio_ok (r\<lparr>rd_link := l2\<rparr>, s2)" by (intro radio_ok_link [OF a]) simp_all
  moreover have "radio_ok (r\<lparr>rd_link := (rd_link r)\<lparr>bl_notify := b\<rparr>\<rparr>, s)" for b by (intro radio_ok_link [OF a]) simp_all
  ultimately show ?thesis using a by (simp add: gatts_write_def Let_def f d)
qed

lemma gatts_event_ok:
  assumes "radio_ok (r, s)"
  shows "radio_ok (gatts_event_cb sdk lk mac now ev (r, s))"
proof (cases ev)
  case (Registered ok ifc)
  then show ?thesis using assms by (simp add: gatts_event_cb_def radio_ok_def radio_gap_def)
next
  case (TableCreated ok hs starts)
  let ?r = "r\<lparr>rd_handles := take (min (length hs) 4) hs @ drop (min (length hs) 4) (rd_handles r)\<rparr>"
  have r: "radio_ok (?r, s)" using assms by (simp add: radio_ok_def radio_gap_def)
  have "radio_ok (on_gap (\<lambda>g. snd (config_adv_data sdk now (g\<lparr>gs_started := True\<rparr>))) (?r, s))"
    using config_ok [of "radio_gap (?r, s)\<lparr>gs_started := True\<rparr>" sdk now] r
    by (intro on_gap_ok [OF r]) (simp add: radio_ok_def)
  then show ?thesis using assms r by (simp add: TableCreated gatts_event_cb_def Let_def)
next
  case (Written h v n c)
  then show ?thesis using gatts_write_ok [OF assms] by (simp add: gatts_event_cb_def)
next
  case (ClientConnected conn ifc)
  let ?r = "r\<lparr>rd_link := (rd_link r)\<lparr>bl_epoch := bl_epoch (rd_link r) + 1, bl_conn := conn, bl_mtu := 23, bl_congested := False\<rparr>,
    rd_gatts_if := ifc\<rparr>"
  obtain r1 s1 where o: "on_gap (advertising_connected now) (?r, s) = (r1, s1)" by (rule prod.exhaust)
  have "radio_ok (r1, s1)" using connected_ok [of now "radio_gap (?r, s)"] o
    by (auto simp: radio_ok_def radio_gap_def on_gap_def Let_def gap_ok_def)
  then have "radio_ok (r1\<lparr>rd_link := queue_heartbeat lk mac (rd_link r1)\<rparr>, s1)"
    by (rule radio_ok_link) (simp_all add: link_kept)
  then show ?thesis by (simp add: ClientConnected gatts_event_cb_def connection_event_def Let_def o)
next
  case ClientGone
  then show ?thesis using disconnected_ok [of sdk now]
    by (auto simp: gatts_event_cb_def connection_event_def radio_ok_def radio_gap_def on_gap_def Let_def gap_ok_def)
next
  case (MtuAgreed conn mtu)
  then have e: "gatts_event_cb sdk lk mac now ev (r, s) = (if conn = bl_conn (rd_link r)
      then r\<lparr>rd_link := (rd_link r)\<lparr>bl_mtu := max 23 (min mtu 500)\<rparr>\<rparr> else r, s)"
    by (simp add: gatts_event_cb_def connection_event_def Let_def)
  show ?thesis unfolding e using assms by (simp add: radio_ok_def radio_gap_def gap_ok_def word_le_nat_alt max_def min_def)
next
  case (Congested conn c)
  then show ?thesis using assms by (simp add: gatts_event_cb_def connection_event_def Let_def radio_ok_def radio_gap_def gap_ok_def)
qed

lemma radio_reachable_ok: "radio_reachable rs \<Longrightarrow> radio_ok rs"
proof (induction rule: radio_reachable.induct)
  case (boot s)
  then show ?case
    by (simp add: radio_ok_def radio_gap_def gap_ok_def radio_new_def gap_new_def adv_new_def ble_link_new_def)
next
  case (gap rs sdk now ev)
  then show ?case by (intro on_gap_ok gap_event_ok) (simp_all add: radio_ok_def)
next
  case (gatts rs sdk lk mac now ev)
  then show ?case using gatts_event_ok [of "fst rs" "snd rs"] by simp
next
  case (tick rs sdk now name)
  then show ?case by (intro on_gap_ok maintain_ok) (simp_all add: radio_ok_def)
next
  case (others r s l led n s')
  then show ?case by (auto intro: radio_ok_link)
qed

text \<open>C35: While a client is connected the device neither advertises nor has a request for it under way, whatever
  the order of callbacks, ticks and name changes; and the agreed packet size stays between 23 and 500.\<close>

theorem connected_never_advertises:
  assumes "radio_reachable (r, s)"
  shows "(bl_conn (rd_link r) = 0xFFFF \<or> \<not> ah_active (gs_health (rd_gap r)) \<and> ah_pending (gs_health (rd_gap r)) = None) \<and>
    23 \<le> bl_mtu (rd_link r) \<and> bl_mtu (rd_link r) \<le> 500"
  using radio_reachable_ok [OF assms] by (auto simp: radio_ok_def radio_gap_def gap_ok_def)

section \<open>Advertising comes back\<close>

lemma call_stack_calls: "ah_pending (gs_health g) = None \<Longrightarrow> gs_conn g = 0xFFFF \<Longrightarrow>
    gs_calls (snd (call_stack sdk op now g)) = gs_calls g @ [op]"
  by (simp add: gap_simps)

lemma update_name_calls:
  assumes "gs_conn g = 0xFFFF" and "gs_started g" and "can_update_name now (gs_health g)" and "0 \<notin> set (gap_name_from_ble_id n)"
  shows "\<exists>ops. gs_calls (update_gap_device_name sdk now n g) = gs_calls g @ AdvName # ops"
  using assms by (auto simp: update_gap_device_name_def can_update_name_def gap_simps split: prod.split)

lemma no_nul_name: "0 \<notin> set n \<Longrightarrow> 0 \<notin> set (gap_name_from_ble_id n)"
  by (auto simp: gap_name_from_ble_id_def Let_def push_text_def ascii_def trim_end_nul_def dest!: set_dropWhileD split: if_splits)

text \<open>The name on the air begins with the letter the handheld looks for.\<close>

lemma gap_name_found: "length n \<le> 8 \<Longrightarrow> gap_name_from_ble_id n \<noteq> [] \<and> hd (gap_name_from_ble_id n) \<in> {0x4D, 0x6D} \<and>
    length (gap_name_from_ble_id n) \<le> 9"
proof -
  assume n: "length n \<le> 8"
  have t: "length (trim_end_nul n) \<le> 8"
    using n length_dropWhile_le [of "\<lambda>b. b = 0" "rev n"] by (simp add: trim_end_nul_def)
  have "ascii ''Mesh'' = [0x4D, 0x65, 0x73, 0x68]" by (simp add: ascii_def)
  then show ?thesis using t by (auto simp: gap_name_from_ble_id_def Let_def push_text_def)
qed

text \<open>A tick that leaves the stack alone found the last attempt less than five seconds old, or advertising
  confirmed less than a minute before.\<close>

definition adv_due :: "u32 \<Rightarrow> adv_health \<Rightarrow> bool" where
  "adv_due now h \<longleftrightarrow> now - ah_attempt h \<ge> RETRY_INTERVAL_MS \<and>
     (ah_pending h \<noteq> None \<or> \<not> ah_active h \<or> now - ah_confirmed h \<ge> RENEW_INTERVAL_MS)"

lemma maintain_calls:
  assumes "gap_ok g" and "gs_conn g = 0xFFFF" and "gs_started g" and "0 \<notin> set n" and "adv_due now (gs_health g)"
  shows "\<exists>op ops. gs_calls (maintain_advertising sdk now n g) = gs_calls g @ op # ops"
proof -
  obtain r h where r: "recovery now True False (gs_rename g) (gs_health g) = (r, h)" by (rule prod.exhaust)
  have n: "0 \<notin> set (gap_name_from_ble_id n)" using assms(4) by (rule no_nul_name)
  show ?thesis
  proof (cases "gs_rename g")
    case True
    then have r2: "r = NoRecovery \<or> r = Retry" and p: "ah_pending h = None" "ah_attempt h = ah_attempt (gs_health g)"
      using r assms(5) by (auto simp: recovery_def adv_due_def split: if_splits)
    let ?g = "g\<lparr>gs_health := h, gs_reconfigure := gs_reconfigure g \<and> r = NoRecovery, gs_rename := False\<rparr>"
    have c: "can_update_name now h" using p assms(5) by (simp add: can_update_name_def adv_due_def)
    have m: "maintain_advertising sdk now n g = update_gap_device_name sdk now n ?g"
      using r r2 c True assms(2,3) by (auto simp: maintain_advertising_def Let_def)
    show ?thesis unfolding m
      using update_name_calls [of ?g now n sdk] c n assms(2,3) by auto
  next
    case False
    then have r2: "r = Retry \<or> r = Renew" and p: "ah_pending h = None"
      using r assms(5) by (auto simp: recovery_def adv_due_def split: if_splits)
    have e: "gs_calls (snd (call_stack sdk op now (g\<lparr>gs_health := h, gs_reconfigure := b\<rparr>))) = gs_calls g @ [op]"
      "gs_calls (snd (call_stack sdk op now (g\<lparr>gs_health := h\<rparr>))) = gs_calls g @ [op]"
      "\<not> gs_rename (snd (call_stack sdk op now (g\<lparr>gs_health := h, gs_reconfigure := b\<rparr>)))"
      "\<not> gs_rename (snd (call_stack sdk op now (g\<lparr>gs_health := h\<rparr>)))" for op b
      using p False assms(2) by (simp_all add: gap_simps)
    show ?thesis using r r2 False assms(2,3) e
      by (auto simp: maintain_advertising_def Let_def config_adv_data_def start_advertising_def)
  qed
qed

text \<open>C36: Advertising always comes back: in every state the radio can reach without a client, once the service
  runs, a tick calls the stack again when the last attempt is five seconds old and either its callback was lost, or
  advertising is off, or it was last confirmed a minute ago; a pending name change cannot prevent it.\<close>

theorem advertising_comes_back:
  assumes "radio_reachable (r, s)" and "bl_conn (rd_link r) = 0xFFFF" and "gs_started (rd_gap r)" and "0 \<notin> set n"
    and "adv_due now (gs_health (rd_gap r))"
  shows "length (gs_calls (rd_gap (fst (on_gap (maintain_advertising sdk now n) (r, s))))) > length (gs_calls (rd_gap r))"
proof -
  have "gap_ok (radio_gap (r, s))" using radio_reachable_ok [OF assms(1)] by (simp add: radio_ok_def)
  then obtain op ops where "gs_calls (maintain_advertising sdk now n (radio_gap (r, s))) = gs_calls (radio_gap (r, s)) @ op # ops"
    using maintain_calls [of "radio_gap (r, s)" n now sdk] assms by (auto simp: radio_gap_def)
  then show ?thesis by (simp add: on_gap_def radio_gap_def Let_def)
qed

text \<open>A radio whose attribute table is ready and whose first call got no answer.\<close>

definition waiting_radio :: "bus_state \<Rightarrow> radio \<times> bus_state" where
  "waiting_radio s = gatts_event_cb (\<lambda>_. True) no_locks [] 100 (TableCreated True [40, 41, 42, 43] True) (radio_new, s)"

lemma waiting_reachable: "radio_reachable (waiting_radio s)"
  unfolding waiting_radio_def by (rule radio_reachable.intros(3) [OF radio_reachable.intros(1)])

lemma waiting_simps:
  "bl_conn (rd_link (fst (waiting_radio s))) = 0xFFFF" "gs_started (rd_gap (fst (waiting_radio s)))"
  "adv_due 5100 (gs_health (rd_gap (fst (waiting_radio s))))" "gs_calls (rd_gap (fst (waiting_radio s))) = [AdvConfigure]"
  by (simp_all add: waiting_radio_def gatts_event_cb_def radio_new_def ble_link_new_def on_gap_def gap_new_def adv_new_def
      gap_simps adv_due_def)

theorem connected_never_advertises_witness:
  "\<forall>s. radio_reachable (waiting_radio s) \<and> bl_mtu (rd_link (fst (waiting_radio s))) \<le> 500"
  using waiting_reachable connected_never_advertises [of "fst (waiting_radio s)" "snd (waiting_radio s)" for s] by simp

theorem advertising_comes_back_witness:
  "\<forall>s. 1 < length (gs_calls (rd_gap (fst (on_gap (maintain_advertising (\<lambda>_. False) 5100 [77]) (waiting_radio s)))))"
  using advertising_comes_back [of "fst (waiting_radio s)" "snd (waiting_radio s)" "[77]" 5100 "\<lambda>_. False" for s]
    waiting_reachable waiting_simps by simp

end
