(* ===== verification/Channels.thy ===== *)
theory Channels imports Bus_Writes Event_Bus "HOL-Library.Signed_Division" begin

text \<open>
  The analog channels of \<open>src/channel/\<close> (\<open>ai.rs\<close>, \<open>ao.rs\<close>, \<open>calib.rs\<close>, \<open>calibration_window.rs\<close>)
  with the cell of \<open>src/sync.rs\<close> that holds their state between the ticks of the main loop.  The readings of
  the converter, the outcome of setting a duty cycle and the clock are parameters.
\<close>

section \<open>The cell of a tick\<close>

text \<open>\<open>MainLoopCell\<close>: \<open>busy\<close> tells that the cell is borrowed at that moment.\<close>

definition cell_init :: "bool \<Rightarrow> 'a \<Rightarrow> 'a option \<Rightarrow> bool \<times> 'a option" where
  "cell_init busy v c = (if busy then (False, c) else (True, case c of Some x \<Rightarrow> Some x | None \<Rightarrow> Some v))"

definition cell_with_mut :: "bool \<Rightarrow> ('a \<Rightarrow> 'r \<times> 'a) \<Rightarrow> 'a option \<Rightarrow> 'r option \<times> 'a option" where
  "cell_with_mut busy f c =
     (if busy then (None, c)
      else case c of None \<Rightarrow> (None, c) | Some x \<Rightarrow> let (r, x) = f x in (Some r, Some x))"

section \<open>Scaling\<close>

abbreviation (input) SENSOR_MIN :: u16 where "SENSOR_MIN \<equiv> 605"
abbreviation (input) SENSOR_MAX :: u16 where "SENSOR_MAX \<equiv> 3016"
abbreviation (input) HOLD_SENSOR_MIN_INDEX :: nat where "HOLD_SENSOR_MIN_INDEX \<equiv> 104"   \<comment> \<open>2280 - 2176\<close>
abbreviation (input) HOLD_SENSOR_MAX_INDEX :: nat where "HOLD_SENSOR_MAX_INDEX \<equiv> 112"   \<comment> \<open>2288 - 2176\<close>

text \<open>The quotient truncates towards zero, as Rust's does.\<close>

definition map_range :: "u16 \<Rightarrow> u16 \<Rightarrow> u16 \<Rightarrow> u16 \<Rightarrow> u16 \<Rightarrow> u16" where
  "map_range x in_min in_max out_min out_max =
     (if in_min = in_max then out_min
      else let num = (uint x - uint in_min) * (uint out_max - uint out_min);
               den = uint in_max - uint in_min;
               v = uint out_min + num sdiv den;
               lower = min (uint out_min) (uint out_max);
               upper = max (uint out_min) (uint out_max)
           in of_int (max lower (min v upper)))"

definition effective_calibration :: "u16 \<Rightarrow> u16 \<Rightarrow> u16 \<times> u16" where
  "effective_calibration mn mx = (if mn \<noteq> 0 \<and> mx \<noteq> 0 \<and> mn \<noteq> mx then (mn, mx) else (SENSOR_MIN, SENSOR_MAX))"

definition legacy_scaled_value :: "u16 \<Rightarrow> u16 \<Rightarrow> u16 \<Rightarrow> u16" where
  "legacy_scaled_value raw cal_min cal_max =
     (let scaled = map_range raw cal_min cal_max 4095 0 in if scaled < 20 then 0 else scaled)"

section \<open>Analog inputs\<close>

abbreviation (input) AVG_WINDOW :: nat where "AVG_WINDOW \<equiv> 8"
abbreviation (input) AI_CHANNELS :: nat where "AI_CHANNELS \<equiv> 4"

record ai_sampler =
  as_buf :: "u16 list list"
  as_pos :: nat
  as_filled :: nat

definition ai_sampler_new :: ai_sampler where
  "ai_sampler_new = \<lparr>as_buf = replicate AI_CHANNELS (replicate AVG_WINDOW 0), as_pos = 0, as_filled = 0\<rparr>"

definition calib_word :: "u16 list \<Rightarrow> nat \<Rightarrow> u16" where
  "calib_word h i = (if i < length h then h ! i else 0)"

definition read_sensor_calibration :: "u16 list \<Rightarrow> u16 list \<times> u16 list" where
  "read_sensor_calibration h =
     (map (\<lambda>ch. calib_word h (HOLD_SENSOR_MIN_INDEX + ch)) [0..<AI_CHANNELS],
      map (\<lambda>ch. calib_word h (HOLD_SENSOR_MAX_INDEX + ch)) [0..<AI_CHANNELS])"

text \<open>The sum of at most eight samples fits 32 bits; the average is cut to 16.\<close>

definition window_average :: "nat \<Rightarrow> u16 list \<Rightarrow> u16" where
  "window_average filled buf =
     (let total = (\<Sum>v\<leftarrow>buf. ucast v) :: u32
      in if filled \<ge> AVG_WINDOW then ucast (drop_bit 3 total) else ucast (total div of_nat (max filled 1)))"

definition sample_channel :: "u16 list \<Rightarrow> u16 list \<Rightarrow> u16 list \<Rightarrow> nat \<Rightarrow> ai_sampler \<times> ai_state \<Rightarrow> ai_sampler \<times> ai_state" where
  "sample_channel raws mins maxs ch sa =
     (let (st, a) = sa;
          raw = (if ch < length raws then raws ! ch else 0);
          buf = (as_buf st ! ch)[as_pos st mod AVG_WINDOW := raw];
          avg = window_average (as_filled st) buf;
          (cal_min, cal_max) = effective_calibration (mins ! ch) (maxs ! ch);
          scaled = legacy_scaled_value avg cal_min cal_max;
          status = (if uint cal_max - uint avg > 240 then 0 else 1)
      in (st\<lparr>as_buf := (as_buf st)[ch := buf]\<rparr>,
          ai_set_status ch status (ai_set_scaled ch scaled (ai_set_raw ch avg a))))"

record channels =
  ch_ai :: "ai_sampler option"
  ch_ao :: "(u32 list \<times> u32 list) option"      \<comment> \<open>last duty, failures\<close>
  ch_calib_status :: u8
  ch_events :: event_bus

definition channels_new :: channels where
  "channels_new = \<lparr>ch_ai = None, ch_ao = None, ch_calib_status = 0, ch_events = event_bus_new\<rparr>"

definition start_sample_task :: "bool \<Rightarrow> channels \<Rightarrow> bool \<times> channels" where
  "start_sample_task busy c = (let (ok, ai) = cell_init busy ai_sampler_new (ch_ai c) in (ok, c\<lparr>ch_ai := ai\<rparr>))"

definition sample_all_channels :: "u16 list \<Rightarrow> u16 list \<Rightarrow> u16 list \<Rightarrow> ai_sampler \<times> ai_state \<Rightarrow> ai_sampler \<times> ai_state" where
  "sample_all_channels raws mins maxs sa = foldl (\<lambda>sa ch. sample_channel raws mins maxs ch sa) sa [0..<AI_CHANNELS]"

definition tick_ai_sample :: "bool \<Rightarrow> u16 list \<Rightarrow> channels \<times> bus_state \<Rightarrow> channels \<times> bus_state" where
  "tick_ai_sample busy raws cs =
     (let (c, s) = cs; io = bus_io s; (mins, maxs) = read_sensor_calibration (sn_holding_buf (bus_storage s)) in
      case cell_with_mut busy (\<lambda>st.
             let (st, a) = sample_all_channels raws mins maxs (st, io_ai io)
             in (a, st\<lparr>as_pos := (as_pos st + 1) mod AVG_WINDOW, as_filled := min (as_filled st + 1) AVG_WINDOW\<rparr>)) (ch_ai c) of
        (None, _) \<Rightarrow> (c, s)
      | (Some a, st) \<Rightarrow> (c\<lparr>ch_ai := st, ch_events := send_event AiSampled (ch_events c)\<rparr>, s\<lparr>bus_io := io\<lparr>io_ai := a\<rparr>\<rparr>))"

section \<open>Analog outputs\<close>

abbreviation (input) AO_CHANNELS :: nat where "AO_CHANNELS \<equiv> 4"

definition start_output_task :: "bool \<Rightarrow> channels \<Rightarrow> bool \<times> channels" where
  "start_output_task busy c =
     (let (ok, ao) = cell_init busy (replicate AO_CHANNELS 0xFFFFFFFF, replicate AO_CHANNELS 0) (ch_ao c)
      in (ok, c\<lparr>ch_ao := ao\<rparr>))"

definition duty_of :: "u16 \<Rightarrow> u32" where
  "duty_of scaled = ucast scaled * 4095 div 10000"

text \<open>A duty cycle that the timer has taken is not set again; a refused one is tried at the next tick.\<close>

definition drive_channel :: "(nat \<Rightarrow> u32 \<Rightarrow> bool) \<Rightarrow> u32 list \<Rightarrow> nat \<Rightarrow> u32 list \<times> u32 list \<Rightarrow> u32 list \<times> u32 list" where
  "drive_channel ledc duties ch lf =
     (let (last_duty, failures) = lf; duty = duties ! ch in
      if duty = last_duty ! ch then lf
      else if ledc ch duty then (last_duty[ch := duty], failures[ch := 0])
      else (last_duty, failures[ch := saturating_add (failures ! ch) 1]))"

definition tick_ao_output :: "bool \<Rightarrow> (nat \<Rightarrow> u32 \<Rightarrow> bool) \<Rightarrow> channels \<times> bus_state \<Rightarrow> channels \<times> bus_state" where
  "tick_ao_output busy ledc cs =
     (let (c, s) = cs; io = bus_io s; duties = map (\<lambda>ch. duty_of (ao_get_scaled (io_ao io) ch)) [0..<AO_CHANNELS] in
      case cell_with_mut busy (\<lambda>lf. ((), foldl (\<lambda>lf ch. drive_channel ledc duties ch lf) lf [0..<AO_CHANNELS])) (ch_ao c) of
        (None, _) \<Rightarrow> (c, s)
      | (Some _, lf) \<Rightarrow>
          (c\<lparr>ch_ao := lf, ch_events := send_event AoUpdated (ch_events c)\<rparr>,
           s\<lparr>bus_io := io\<lparr>io_ao := foldl (\<lambda>a ch. ao_set_duty ch (duties ! ch) a) (io_ao io) [0..<AO_CHANNELS]\<rparr>\<rparr>))"

section \<open>Calibration at start\<close>

record calib_window =
  cw_start :: u32
  cw_last :: "u32 option"
  cw_min :: u16
  cw_max :: u16
  cw_samples :: u32

definition window_new :: "u32 \<Rightarrow> calib_window" where
  "window_new start = \<lparr>cw_start = start, cw_last = None, cw_min = 0xFFFF, cw_max = 0, cw_samples = 0\<rparr>"

definition window_done :: "u32 \<Rightarrow> u32 \<Rightarrow> calib_window \<Rightarrow> bool" where
  "window_done now len w \<longleftrightarrow> now - cw_start w \<ge> len"

definition sample_due :: "u32 \<Rightarrow> u32 \<Rightarrow> calib_window \<Rightarrow> bool" where
  "sample_due now interval w = (case cw_last w of None \<Rightarrow> True | Some lst \<Rightarrow> now - lst \<ge> interval)"

definition observe :: "u32 \<Rightarrow> u16 \<Rightarrow> calib_window \<Rightarrow> calib_window" where
  "observe now raw w =
     w\<lparr>cw_min := min (cw_min w) raw, cw_max := max (cw_max w) raw, cw_samples := saturating_add (cw_samples w) 1,
       cw_last := Some now\<rparr>"

record calib_session =
  se_channel :: nat
  se_window :: calib_window
  se_finished :: bool

definition calibration_channel_count :: "u16 \<Rightarrow> nat" where
  "calibration_channel_count configured = min (unat configured) 8"

definition uncalibrated_channel :: "u16 list \<Rightarrow> nat option" where
  "uncalibrated_channel h =
     List.find (\<lambda>ch. HOLD_SENSOR_MAX_INDEX + ch < length h \<and> h ! (HOLD_SENSOR_MIN_INDEX + ch) = 0 \<and>
       h ! (HOLD_SENSOR_MAX_INDEX + ch) = 0) [0..<calibration_channel_count AI_COUNT]"

definition start_auto_calibration :: "bool \<Rightarrow> u32 \<Rightarrow> bus_state \<Rightarrow> u8 \<times> calib_session option \<Rightarrow> bool \<times> u8 \<times> calib_session option" where
  "start_auto_calibration busy now s st =
     (let (status, session) = st in
      if status \<noteq> 0 then (True, st)
      else case uncalibrated_channel (sn_holding_buf (bus_storage s)) of
        None \<Rightarrow> (True, 3, session)
      | Some ch \<Rightarrow>
          (case cell_init busy \<lparr>se_channel = ch, se_window = window_new now, se_finished = False\<rparr> session of
             (False, session) \<Rightarrow> (False, status, session)
           | (True, session) \<Rightarrow> (True, 1, session)))"

definition min_endpoint_ok :: "calib_window \<Rightarrow> bool" where
  "min_endpoint_ok w \<longleftrightarrow> cw_samples w \<noteq> 0 \<and> cw_min w > saturating_sub SENSOR_MIN 100 \<and> cw_min w < SENSOR_MIN + 200"

definition max_endpoint_ok :: "calib_window \<Rightarrow> bool" where
  "max_endpoint_ok w \<longleftrightarrow> cw_samples w \<noteq> 0 \<and> cw_max w > saturating_sub SENSOR_MAX 100 \<and> cw_max w < SENSOR_MAX + 200"

text \<open>The end points found are stored unless somebody has written the registers meanwhile.\<close>

definition calibrated_holding :: "calib_session \<Rightarrow> u16 list \<Rightarrow> bool \<times> u16 list" where
  "calibrated_holding se h =
     (let w = se_window se; mn = HOLD_SENSOR_MIN_INDEX + se_channel se; mx = HOLD_SENSOR_MAX_INDEX + se_channel se in
      if h ! mn \<noteq> 0 \<or> h ! mx \<noteq> 0 then (False, h)
      else let h = (if min_endpoint_ok w then h[mn := cw_min w] else h);
               h = (if max_endpoint_ok w then h[mx := cw_max w] else h)
           in (True, h))"

definition tick_auto_calibration :: "bool \<Rightarrow> u32 \<Rightarrow> (nat \<Rightarrow> u16) \<Rightarrow> bus_state \<times> u8 \<times> calib_session option \<Rightarrow>
    bus_state \<times> u8 \<times> calib_session option" where
  "tick_auto_calibration busy now adc sst =
     (let (s, status, session) = sst in
      if status \<noteq> 1 \<or> busy then sst
      else case session of None \<Rightarrow> sst
      | Some se \<Rightarrow>
          if se_finished se then sst
          else if \<not> window_done now 8000 (se_window se) then
            (s, status, Some (if sample_due now 50 (se_window se)
                 then se\<lparr>se_window := observe now (adc (se_channel se)) (se_window se)\<rparr> else se))
          else let se = se\<lparr>se_finished := True\<rparr>; w = se_window se in
            if \<not> min_endpoint_ok w \<and> \<not> max_endpoint_ok w then (s, 3, Some se)
            else let changed = fst (calibrated_holding se (sn_holding_buf (bus_storage s)));
                     s = storage_modify_holding (\<lambda>h. snd (calibrated_holding se h)) s
                 in if changed then (snd (request_device CmdPersistHolding s), 2, Some se) else (s, 4, Some se))"

section \<open>Scaled readings\<close>

lemma sdiv_nonpos: "a \<le> 0 \<Longrightarrow> 0 < b \<Longrightarrow> a sdiv b = - ((- a) div b)" for a b :: int
  by (simp add: signed_divide_int_def sgn_if abs_if)

lemma div_mono_range: "0 \<le> a \<Longrightarrow> a \<le> b \<Longrightarrow> 0 < d \<Longrightarrow> a div d \<le> b div d" for a b d :: int
  by (rule zdiv_mono1)

text \<open>With a calibration in order, the reading falls from 4095 to 0 over its range.\<close>

definition reading_at :: "int \<Rightarrow> int \<Rightarrow> int \<Rightarrow> int" where
  "reading_at lo hi x = max 0 (min (4095 + ((x - lo) * - 4095) sdiv (hi - lo)) 4095)"

lemma map_range_reading:
  assumes "cal_min < cal_max"
  shows "uint (map_range x cal_min cal_max 4095 0) = reading_at (uint cal_min) (uint cal_max) (uint x)"
proof -
  have "uint (of_int r :: u16) = r" if "0 \<le> r" "r \<le> 4095" for r
    using that by (simp add: uint_word_of_int_eq take_bit_int_eq_self_iff)
  moreover have "cal_min \<noteq> cal_max" using assms by simp
  ultimately show ?thesis by (simp add: map_range_def reading_at_def Let_def)
qed

lemma reading_at_falls:
  assumes "lo < hi" and "x \<le> y"
  shows "reading_at lo hi y \<le> reading_at lo hi x"
proof -
  have *: "((z - lo) * - 4095) sdiv (hi - lo) = (if z \<le> lo then (lo - z) * 4095 div (hi - lo) else - ((z - lo) * 4095 div (hi - lo)))" for z
  proof (cases "z \<le> lo")
    case True
    then have "(z - lo) * - 4095 = (lo - z) * 4095" "0 \<le> (lo - z) * 4095" by simp_all
    then show ?thesis using True assms(1) by (simp only: signed_divide_int_def) (simp add: sgn_if abs_if)
  next
    case False
    then show ?thesis using assms(1) sdiv_nonpos [of "(z - lo) * - 4095" "hi - lo"] by (simp add: mult_le_0_iff)
  qed
  have nn: "0 \<le> (lo - z) * 4095 div (hi - lo)" if "z \<le> lo" for z using that assms(1) by (simp add: pos_imp_zdiv_nonneg_iff)
  have pp: "0 \<le> (z - lo) * 4095 div (hi - lo)" if "lo \<le> z" for z using that assms(1) by (simp add: pos_imp_zdiv_nonneg_iff)
  show ?thesis
  proof (cases "y \<le> lo")
    case True
    then have "(lo - y) * 4095 div (hi - lo) \<le> (lo - x) * 4095 div (hi - lo)" using assms by (intro zdiv_mono1) simp_all
    then show ?thesis using * True assms(2) nn [of x] nn [of y] by (simp add: reading_at_def)
  next
    case False
    show ?thesis
    proof (cases "x \<le> lo")
      case True
      then show ?thesis using * False nn [of x] pp [of y] by (simp add: reading_at_def)
    next
      case x: False
      have "(x - lo) * 4095 div (hi - lo) \<le> (y - lo) * 4095 div (hi - lo)" using assms by (intro zdiv_mono1) simp_all
      then show ?thesis using * False x by (simp add: reading_at_def)
    qed
  qed
qed

lemma reading_at_ends: "lo < hi \<Longrightarrow> reading_at lo hi lo = 4095" "lo < hi \<Longrightarrow> reading_at lo hi hi = 0"
proof -
  assume l: "lo < hi"
  show "reading_at lo hi lo = 4095" by (simp add: reading_at_def)
  have d: "(d * - 4095) sdiv d = - 4095" if "0 < d" for d :: int
    using that sdiv_nonpos [of "d * - 4095" d] by (simp add: mult_le_0_iff)
  have "((hi - lo) * - 4095) sdiv (hi - lo) = - 4095" by (rule d) (use l in simp)
  then show "reading_at lo hi hi = 0" by (simp add: reading_at_def)
qed

text \<open>The scaled reading of an analog input lies between 0 and 4095 and is never below 20 unless it is 0; it
  is 4095 at the lower calibration point, 0 at the upper one, and falls as the raw value rises.\<close>

theorem scaled_reading_falls:
  assumes "cal_min < cal_max"
  shows "legacy_scaled_value cal_min cal_min cal_max = 4095 \<and> legacy_scaled_value cal_max cal_min cal_max = 0 \<and>
    (let v = legacy_scaled_value x cal_min cal_max in v = 0 \<or> 20 \<le> v \<and> v \<le> 4095) \<and>
    (\<forall>y. y < x \<or> legacy_scaled_value y cal_min cal_max \<le> legacy_scaled_value x cal_min cal_max)"
proof -
  have c: "uint cal_min < uint cal_max" using assms by (simp add: word_less_def)
  note m = map_range_reading [OF assms]
  have r: "0 \<le> reading_at (uint cal_min) (uint cal_max) z" "reading_at (uint cal_min) (uint cal_max) z \<le> 4095" for z
    by (simp_all add: reading_at_def)
  have e: "map_range cal_min cal_min cal_max 4095 0 = 4095" "map_range cal_max cal_min cal_max 4095 0 = 0"
    using m reading_at_ends [OF c] by (simp_all add: word_uint_eq_iff)
  have le: "map_range z cal_min cal_max 4095 0 \<le> 4095" for z using m r by (simp add: word_le_def)
  have mono: "map_range y cal_min cal_max 4095 0 \<le> map_range x cal_min cal_max 4095 0" if "x \<le> y" for y
    using reading_at_falls [OF c, of "uint x" "uint y"] m that by (simp add: word_le_def)
  have "legacy_scaled_value y cal_min cal_max \<le> legacy_scaled_value x cal_min cal_max" if "\<not> y < x" for y
    using mono [of y] that by (auto simp: legacy_scaled_value_def Let_def word_le_nat_alt word_less_nat_alt)
  then have "\<forall>y. y < x \<or> legacy_scaled_value y cal_min cal_max \<le> legacy_scaled_value x cal_min cal_max" by blast
  moreover have "let v = legacy_scaled_value x cal_min cal_max in v = 0 \<or> 20 \<le> v \<and> v \<le> 4095"
    using le [of x] by (auto simp: legacy_scaled_value_def Let_def linorder_not_less)
  ultimately show ?thesis using e by (simp add: legacy_scaled_value_def)
qed

theorem scaled_reading_falls_witness: "legacy_scaled_value 3016 605 3016 = 0 \<and> legacy_scaled_value 605 605 3016 = 4095"
  using scaled_reading_falls [of 605 3016 700] by simp

section \<open>The sliding average\<close>

text \<open>The buffer, read from the write position on, holds the last eight samples, the oldest first.\<close>

definition cells_in_order :: "nat \<Rightarrow> 'a list \<Rightarrow> 'a list" where
  "cells_in_order p b = drop p b @ take p b"

lemma in_order_put:
  assumes "length b = n" and "p < n"
  shows "cells_in_order ((p + 1) mod n) (b[p := x]) = tl (cells_in_order p b) @ [x]"
proof -
  have u: "b[p := x] = take p b @ x # drop (Suc p) b" using assms by (simp add: upd_conv_take_nth_drop)
  have "drop p b = b ! p # drop (Suc p) b" using assms by (simp add: Cons_nth_drop_Suc)
  then have t: "tl (cells_in_order p b) = drop (Suc p) b @ take p b" by (simp only: cells_in_order_def) simp
  show ?thesis
  proof (cases "Suc p = n")
    case True
    then show ?thesis unfolding t using assms by (simp add: cells_in_order_def u)
  next
    case False
    then have "Suc p < n" using assms(2) by simp
    then show ?thesis unfolding t using assms by (simp add: cells_in_order_def u)
  qed
qed

definition window_sum :: "u16 list \<Rightarrow> nat" where
  "window_sum b = (\<Sum>v\<leftarrow>b. unat v)"

lemma window_sum_append [simp]: "window_sum (xs @ ys) = window_sum xs + window_sum ys"
  by (simp add: window_sum_def)

lemma window_sum_in_order: "window_sum (cells_in_order p b) = window_sum b"
  using window_sum_append [of "take p b" "drop p b"] by (simp add: cells_in_order_def)

lemma window_sum_le: "window_sum b \<le> length b * 65535"
proof (induction b)
  case (Cons v b)
  have "unat v \<le> 65535" using unsigned_less [of v, where 'a = nat] by simp
  then show ?case using Cons by (simp add: window_sum_def)
qed (simp add: window_sum_def)

lemma window_sum_word: "(\<Sum>v\<leftarrow>b. ucast v) = (of_nat (window_sum b) :: u32)"
proof (induction b)
  case (Cons v b)
  have "ucast v = (of_nat (unat v) :: u32)" by (simp add: of_nat_unat)
  then show ?case using Cons by (simp add: window_sum_def)
qed (simp add: window_sum_def)

lemma window_average_sum:
  assumes "length b = 8"
  shows "window_average filled b = of_nat (window_sum b div (if filled \<ge> 8 then 8 else max filled 1))"
proof -
  have l: "window_sum b < 2 ^ 32" using window_sum_le [of b] assms by simp
  have d: "window_sum b div k < 2 ^ 32" for k using l div_le_dividend [of "window_sum b" k] by linarith
  have u: "unat (of_nat (window_sum b) :: u32) = window_sum b" using l by (simp add: unat_of_nat)
  have "drop_bit 3 (of_nat (window_sum b) :: u32) = of_nat (window_sum b div 8)"
    by (rule word_unat_eq_iff [THEN iffD2]) (use u d [of 8] in \<open>simp add: drop_bit_eq_div unat_div_distrib unat_of_nat\<close>)
  moreover have "(of_nat (window_sum b) :: u32) div of_nat (max filled 1) = of_nat (window_sum b div max filled 1)" if "filled < 8"
    by (rule word_unat_eq_iff [THEN iffD2]) (use u d [of "max filled 1"] that in \<open>simp add: unat_div_distrib unat_of_nat del: of_nat_max\<close>)
  moreover have "ucast (of_nat k :: u32) = (of_nat k :: u16)" if "k < 2 ^ 32" for k
    using that by (simp add: word_unat_eq_iff unsigned_ucast_eq unat_of_nat take_bit_eq_mod)
  ultimately show ?thesis using d by (simp add: window_average_def Let_def window_sum_word)
qed

text \<open>The samples a channel has had, after zeros for those not yet taken.\<close>

definition history :: "u16 list list \<Rightarrow> nat \<Rightarrow> u16 list" where
  "history rs ch = replicate 8 0 @ map (\<lambda>r. r ! ch) rs"

lemma history_simps [simp]: "length (history rs ch) = 8 + length rs" "history (rs @ [x]) ch = history rs ch @ [x ! ch]"
  by (simp_all add: history_def)

definition sampler_ok :: "u16 list list \<Rightarrow> ai_sampler \<Rightarrow> bool" where
  "sampler_ok rs st \<longleftrightarrow> as_pos st = length rs mod 8 \<and> as_filled st = min (length rs) 8 \<and> length (as_buf st) = 4 \<and>
     (\<forall>ch<4. length (as_buf st ! ch) = 8 \<and>
        cells_in_order (as_pos st) (as_buf st ! ch) = drop (length rs) (history rs ch))"

lemma sampler_new_ok: "sampler_ok [] ai_sampler_new"
  by (simp add: sampler_ok_def ai_sampler_new_def cells_in_order_def history_def)

lemma sample_channel_sampler:
  "fst (sample_channel raws mins maxs ch (st, a)) =
     st\<lparr>as_buf := (as_buf st)[ch := (as_buf st ! ch)[as_pos st mod 8 := if ch < length raws then raws ! ch else 0]]\<rparr>"
  by (simp add: sample_channel_def Let_def split: prod.split)

lemma sample_channel_raw:
  assumes "length (ai_raw a) = 8" and "k < 8"
  shows "ai_raw (snd (sample_channel raws mins maxs ch (st, a))) ! k =
     (if k = ch then window_average (as_filled st) ((as_buf st ! ch)[as_pos st mod 8 := if ch < length raws then raws ! ch else 0])
      else ai_raw a ! k) \<and> length (ai_raw (snd (sample_channel raws mins maxs ch (st, a)))) = 8"
  using assms by (auto simp: sample_channel_def Let_def ai_set_raw_def ai_set_scaled_def ai_set_status_def chan_set_def split: prod.split)

text \<open>The loop over the channels: each is sampled once, from its own buffer.\<close>

lemma sample_loop:
  assumes "length (as_buf st) = 4" and "length (ai_raw a) = 8" and "n \<le> 4"
  shows "let (st', a') = foldl (\<lambda>sa ch. sample_channel raws mins maxs ch sa) (st, a) [0..<n] in
    length (ai_raw a') = 8 \<and> as_pos st' = as_pos st \<and> as_filled st' = as_filled st \<and> length (as_buf st') = 4 \<and>
    (\<forall>ch<4. as_buf st' ! ch = (if ch < n then (as_buf st ! ch)[as_pos st mod 8 := if ch < length raws then raws ! ch else 0]
      else as_buf st ! ch)) \<and>
    (\<forall>ch<n. ai_raw a' ! ch = window_average (as_filled st) (as_buf st' ! ch))"
  using assms(3)
proof (induction n)
  case 0
  then show ?case using assms by simp
next
  case (Suc n)
  obtain st1 a1 where f: "foldl (\<lambda>sa ch. sample_channel raws mins maxs ch sa) (st, a) [0..<n] = (st1, a1)" by (rule prod.exhaust)
  obtain st2 a2 where g: "sample_channel raws mins maxs n (st1, a1) = (st2, a2)" by (rule prod.exhaust)
  have ih: "length (ai_raw a1) = 8" "as_pos st1 = as_pos st" "as_filled st1 = as_filled st" "length (as_buf st1) = 4"
    "\<And>ch. ch < 4 \<Longrightarrow> as_buf st1 ! ch = (if ch < n then (as_buf st ! ch)[as_pos st mod 8 := if ch < length raws then raws ! ch else 0]
      else as_buf st ! ch)"
    "\<And>ch. ch < n \<Longrightarrow> ai_raw a1 ! ch = window_average (as_filled st) (as_buf st1 ! ch)"
    using Suc f by auto
  have s2: "st2 = st1\<lparr>as_buf := (as_buf st1)[n := (as_buf st1 ! n)[as_pos st1 mod 8 := if n < length raws then raws ! n else 0]]\<rparr>"
    using sample_channel_sampler [of raws mins maxs n st1 a1] g by simp
  have r2: "ai_raw a2 ! k = (if k = n then window_average (as_filled st1) (as_buf st2 ! n) else ai_raw a1 ! k)" if "k < 8" for k
    using sample_channel_raw [OF ih(1) that, of raws mins maxs n st1] g ih(4) Suc.prems by (simp add: s2)
  have "length (ai_raw a2) = 8" using sample_channel_raw [OF ih(1), of 0 raws mins maxs n st1] g by simp
  then show ?case using f g ih Suc.prems r2
    by (auto simp: s2 nth_list_update less_Suc_eq)
qed

lemma tick_ai_step:
  assumes "ch_ai c = Some st" and "sampler_ok rs st" and "length (ai_raw (io_ai (bus_io s))) = 8" and "length raws = 8"
  shows "\<exists>c' s' st'. tick_ai_sample False raws (c, s) = (c', s') \<and> ch_ai c' = Some st' \<and> sampler_ok (rs @ [raws]) st' \<and>
    length (ai_raw (io_ai (bus_io s'))) = 8 \<and>
    (\<forall>ch<4. ai_raw (io_ai (bus_io s')) ! ch = window_average (min (length rs) 8) (as_buf st' ! ch))"
proof -
  obtain mins maxs where m: "read_sensor_calibration (sn_holding_buf (bus_storage s)) = (mins, maxs)" by (rule prod.exhaust)
  obtain st1 a1 where f: "sample_all_channels raws mins maxs (st, io_ai (bus_io s)) = (st1, a1)" by (rule prod.exhaust)
  have ok: "as_pos st = length rs mod 8" "as_filled st = min (length rs) 8" "length (as_buf st) = 4"
    "\<And>ch. ch < 4 \<Longrightarrow> length (as_buf st ! ch) = 8"
    "\<And>ch. ch < 4 \<Longrightarrow> cells_in_order (as_pos st) (as_buf st ! ch) = drop (length rs) (history rs ch)"
    using assms(2) unfolding sampler_ok_def by blast+
  have l: "length (ai_raw a1) = 8" "as_pos st1 = as_pos st" "as_filled st1 = as_filled st" "length (as_buf st1) = 4"
    "\<And>ch. ch < 4 \<Longrightarrow> as_buf st1 ! ch = (as_buf st ! ch)[as_pos st := raws ! ch]"
    "\<And>ch. ch < 4 \<Longrightarrow> ai_raw a1 ! ch = window_average (as_filled st) (as_buf st1 ! ch)"
    using sample_loop [OF ok(3) assms(3), of 4 raws mins maxs] f assms(4) ok(1)
    by (auto simp: sample_all_channels_def)
  let ?st = "st1\<lparr>as_pos := (as_pos st1 + 1) mod 8, as_filled := min (as_filled st1 + 1) 8\<rparr>"
  have t: "tick_ai_sample False raws (c, s) =
      (c\<lparr>ch_ai := Some ?st, ch_events := send_event AiSampled (ch_events c)\<rparr>, s\<lparr>bus_io := (bus_io s)\<lparr>io_ai := a1\<rparr>\<rparr>)"
    by (simp add: tick_ai_sample_def Let_def m f cell_with_mut_def assms(1))
  have o: "cells_in_order ((as_pos st + 1) mod 8) (as_buf st1 ! ch) =
      drop (Suc (length rs)) (history rs ch @ [raws ! ch])" if "ch < 4" for ch
    using that in_order_put [of "as_buf st ! ch" 8 "as_pos st" "raws ! ch"] ok l(5) by (simp add: drop_Suc tl_drop)
  have "sampler_ok (rs @ [raws]) ?st"
    using o l ok by (simp add: sampler_ok_def mod_Suc_eq)
  then show ?thesis using t l ok by auto
qed

definition ai_ticks :: "u16 list list \<Rightarrow> channels \<times> bus_state \<Rightarrow> channels \<times> bus_state" where
  "ai_ticks rs cs = foldl (\<lambda>cs raws. tick_ai_sample False raws cs) cs rs"

lemma ai_ticks_run:
  assumes "length (ai_raw (io_ai (bus_io s))) = 8" and "list_all (\<lambda>r. length r = 8) rs"
  shows "\<exists>c' s' st. ai_ticks rs (snd (start_sample_task False channels_new), s) = (c', s') \<and> ch_ai c' = Some st \<and> sampler_ok rs st \<and>
    length (ai_raw (io_ai (bus_io s'))) = 8 \<and>
    (rs = [] \<or> (\<forall>ch<4. ai_raw (io_ai (bus_io s')) ! ch = window_average (min (length rs - 1) 8) (as_buf st ! ch)))"
  using assms(2)
proof (induction rs rule: rev_induct)
  case Nil
  then show ?case using assms(1) sampler_new_ok
    by (simp add: ai_ticks_def start_sample_task_def cell_init_def channels_new_def)
next
  case (snoc raws rs)
  then obtain c s1 st where i: "ai_ticks rs (snd (start_sample_task False channels_new), s) = (c, s1)" "ch_ai c = Some st"
    "sampler_ok rs st" "length (ai_raw (io_ai (bus_io s1))) = 8" by auto
  have "length raws = 8" using snoc.prems by simp
  from tick_ai_step [OF i(2-4) this] i(1) show ?case by (auto simp: ai_ticks_def)
qed

definition last_samples :: "nat \<Rightarrow> u16 list list \<Rightarrow> nat list" where
  "last_samples ch rs = map (\<lambda>r. unat (r ! ch)) (drop (length rs - 8) rs)"

lemma sampler_sum:
  assumes "sampler_ok rs st" and "ch < 4"
  shows "window_sum (as_buf st ! ch) = sum_list (last_samples ch rs)"
proof -
  have "cells_in_order (as_pos st) (as_buf st ! ch) = drop (length rs) (history rs ch)"
    using assms unfolding sampler_ok_def by blast
  then have "window_sum (as_buf st ! ch) = window_sum (drop (length rs) (history rs ch))"
    by (metis window_sum_in_order)
  also have "\<dots> = sum_list (last_samples ch rs)"
    by (simp add: last_samples_def window_sum_def history_def drop_map comp_def sum_list_replicate)
  finally show ?thesis .
qed

text \<open>C38: From the ninth sample on, the reading of an analog input is the mean of its last eight samples.  Before,
  the sum of the samples is divided by one less than their number: the second reading is the sum of the first
  two samples, twice the input.\<close>

theorem analog_reading_is_average:
  assumes "length (ai_raw (io_ai (bus_io s))) = 8" and "list_all (\<lambda>r. length r = 8) rs" and "rs \<noteq> []" and "ch < 4"
  shows "ai_get_raw (io_ai (bus_io (snd (ai_ticks rs (snd (start_sample_task False channels_new), s))))) ch =
    of_nat (sum_list (last_samples ch rs) div (if 8 < length rs then 8 else max (length rs - 1) 1))"
proof -
  obtain c' s' st where r: "ai_ticks rs (snd (start_sample_task False channels_new), s) = (c', s')" "sampler_ok rs st"
    "length (ai_raw (io_ai (bus_io s'))) = 8"
    "ai_raw (io_ai (bus_io s')) ! ch = window_average (min (length rs - 1) 8) (as_buf st ! ch)"
    using ai_ticks_run [OF assms(1,2)] assms(3,4) by blast
  have "length (as_buf st ! ch) = 8" using r(2) assms(4) by (simp add: sampler_ok_def)
  then show ?thesis using r(1,3,4) sampler_sum [OF r(2) assms(4)] window_average_sum [of "as_buf st ! ch" "min (length rs - 1) 8"] assms(4)
    by (auto simp: ai_get_raw_def chan_get_def)
qed

theorem analog_reading_is_average_witness:
  "\<forall>s. ai_get_raw (io_ai (bus_io (snd (ai_ticks [replicate 8 700, replicate 8 800]
     (snd (start_sample_task False channels_new), s\<lparr>bus_io := io_bundle_new\<rparr>))))) 1 = 1500"
proof
  fix s :: bus_state
  have "length (ai_raw (io_ai (bus_io (s\<lparr>bus_io := io_bundle_new\<rparr>)))) = 8" by (simp add: io_bundle_new_def)
  from analog_reading_is_average [OF this, of "[replicate 8 700, replicate 8 800]" 1]
  show "ai_get_raw (io_ai (bus_io (snd (ai_ticks [replicate 8 700, replicate 8 800]
     (snd (start_sample_task False channels_new), s\<lparr>bus_io := io_bundle_new\<rparr>))))) 1 = 1500"
    by (simp add: last_samples_def)
qed

section \<open>Outputs\<close>

lemma duty_in_range: "scaled \<le> 10000 \<Longrightarrow> duty_of scaled \<le> 4095"
proof -
  assume a: "scaled \<le> 10000"
  then have "unat scaled \<le> 10000" by (simp add: word_le_nat_alt)
  then have "unat (ucast scaled * 4095 :: u32) = unat scaled * 4095" using take_bit_nat_eq_self [of "unat scaled" 32] by (simp add: unat_word_ariths unsigned_ucast_eq)
  with \<open>unat scaled \<le> 10000\<close> show ?thesis by (simp add: duty_of_def word_le_nat_alt unat_div_distrib)
qed

lemma drive_loop:
  assumes "length (fst lf) = 4" and "length duties = 4" and "n \<le> 4"
  shows "length (fst (foldl (\<lambda>lf ch. drive_channel ledc duties ch lf) lf [0..<n])) = 4 \<and>
    (\<forall>ch<4. fst (foldl (\<lambda>lf ch. drive_channel ledc duties ch lf) lf [0..<n]) ! ch =
      (if ch < n \<and> ledc ch (duties ! ch) then duties ! ch else fst lf ! ch))"
  using assms(3)
proof (induction n)
  case 0
  then show ?case using assms by simp
next
  case (Suc n)
  then show ?case
    by (auto simp: drive_channel_def Let_def nth_list_update less_Suc_eq split: prod.splits)
qed

text \<open>An output whose timer refuses the duty cycle keeps its old value in the record and is set again.\<close>

lemma refused_output_retried:
  assumes "ch_ao c = Some (lst, fails)" and "length lst = 4" and "k < 4" and "\<not> ledc k (duty_of (ao_get_scaled (io_ao (bus_io s)) k))"
  shows "\<exists>fails'. map_option fst (ch_ao (fst (tick_ao_output False ledc (c, s)))) = Some fails' \<and> fails' ! k = lst ! k"
proof -
  let ?d = "map (\<lambda>ch. duty_of (ao_get_scaled (io_ao (bus_io s)) ch)) [0..<4]"
  have "fst (foldl (\<lambda>lf ch. drive_channel ledc ?d ch lf) (lst, fails) [0..<4]) ! k = lst ! k"
    using drive_loop [of "(lst, fails)" ?d 4 ledc] assms by (auto simp del: upt_rec_numeral)
  then show ?thesis using assms(1) by (simp add: tick_ao_output_def cell_with_mut_def Let_def del: upt_rec_numeral split: prod.split)
qed

section \<open>Calibration\<close>

lemma find_upto: "List.find P [0..<n] = Some k \<Longrightarrow> k < n \<and> P k"
  by (auto simp: find_Some_iff)

text \<open>The window only ever grows, so its end points are two of the samples seen.\<close>

lemma observe_range:
  "cw_min (observe now raw w) \<le> raw" "raw \<le> cw_max (observe now raw w)"
  "cw_min (observe now raw w) \<le> cw_min w" "cw_max w \<le> cw_max (observe now raw w)"
  by (simp_all add: observe_def)

lemma set_if_zero: "h ! i = 0 \<Longrightarrow> (if P then h[i := v] else h) = h[i := if P then v else 0]"
  using list_update_id [of h i] by simp

definition calib_inv :: "bus_state \<Rightarrow> u8 \<times> calib_session option \<Rightarrow> bool" where
  "calib_inv s st \<longleftrightarrow> (case snd st of None \<Rightarrow> fst st \<noteq> 1 | Some se \<Rightarrow> fst st \<noteq> 0 \<and> se_channel se < 4)"

lemma calib_start_inv:
  assumes "calib_inv s st"
  shows "calib_inv s (snd (start_auto_calibration busy now s st))"
  using assms
  by (auto simp: calib_inv_def start_auto_calibration_def cell_init_def uncalibrated_channel_def calibration_channel_count_def
      dest!: find_upto split: prod.split option.split)

text \<open>What may happen to a calibration: ticks, further starts, and any other writer of the holding area.  The number
  of ticks that change the holding area is counted.\<close>

datatype calib_event = CalTick bool u32 "nat \<Rightarrow> u16" | CalStart bool u32 | CalOther "u16 list"

fun calib_writes :: "calib_event list \<Rightarrow> bus_state \<times> u8 \<times> calib_session option \<Rightarrow> nat" where
  "calib_writes [] sst = 0"
| "calib_writes (CalTick busy now adc # es) sst =
     (let sst' = tick_auto_calibration busy now adc sst in
      (if sn_holding_buf (bus_storage (fst sst')) \<noteq> sn_holding_buf (bus_storage (fst sst)) then 1 else 0) + calib_writes es sst')"
| "calib_writes (CalStart busy now # es) sst =
     calib_writes es (fst sst, snd (start_auto_calibration busy now (fst sst) (snd sst)))"
| "calib_writes (CalOther h # es) sst = calib_writes es (storage_modify_holding (\<lambda>_. h) (fst sst), snd sst)"

definition calib_over :: "u8 \<times> calib_session option \<Rightarrow> bool" where
  "calib_over st \<longleftrightarrow> fst st \<noteq> 0 \<and> (\<exists>se. snd st = Some se \<and> se_finished se)"

lemma finished_tick: "calib_over st \<Longrightarrow> tick_auto_calibration busy now adc (s, st) = (s, st)"
  by (cases st) (auto simp: calib_over_def tick_auto_calibration_def)

lemma finished_writes: "calib_over (snd sst) \<Longrightarrow> calib_writes es sst = 0"
proof (induction es sst rule: calib_writes.induct)
  case (2 busy now adc es sst)
  then show ?case by (cases sst) (simp add: finished_tick)
next
  case (3 busy now es sst)
  then show ?case by (auto simp: calib_over_def start_auto_calibration_def split: prod.splits)
qed (simp_all add: Let_def)

lemma tick_keeps_inv:
  assumes "calib_inv s st"
  shows "calib_inv s' (snd (tick_auto_calibration busy now adc (s, st)))"
  using assms by (cases st) (auto simp: calib_inv_def tick_auto_calibration_def Let_def split: option.splits)

lemma tick_writes_once:
  assumes "calib_inv s st"
  shows "sn_holding_buf (bus_storage (fst (tick_auto_calibration busy now adc (s, st)))) = sn_holding_buf (bus_storage s) \<or>
    calib_over (snd (tick_auto_calibration busy now adc (s, st)))"
  using assms by (cases st) (auto simp: calib_inv_def calib_over_def tick_auto_calibration_def Let_def split: option.splits)

lemma calibration_writes_once: "calib_inv (fst sst) (snd sst) \<Longrightarrow> calib_writes es sst \<le> 1"
proof (induction es sst rule: calib_writes.induct)
  case (2 busy now adc es sst)
  obtain s st where sst: "sst = (s, st)" by (rule prod.exhaust)
  show ?case
  proof (cases "calib_over (snd (tick_auto_calibration busy now adc sst))")
    case True
    then show ?thesis by (simp add: Let_def finished_writes)
  next
    case False
    then show ?thesis using tick_writes_once [of s st busy now adc] tick_keeps_inv [of s st _ busy now adc] 2
      by (simp add: sst Let_def)
  qed
next
  case (3 busy now es sst)
  then show ?case using calib_start_inv by (cases sst) (simp add: Let_def)
next
  case (4 h es sst)
  then show ?case by (simp add: calib_inv_def)
qed simp

text \<open>C40: The calibration at start changes the two calibration registers of its channel only, inside the holding area,
  and only while both are zero, so values set on site survive; a lower end point stored lies in 506 to 804, an upper
  one in 2917 to 3215.  The stored pair is in force only when both end points were found; after one alone the
  built-in calibration stays in force.  The change is made by the tick that finishes the session, and over any
  further ticks, starts and writes of others no more than one tick changes the area.\<close>

theorem calibration_keeps_site_values:
  assumes "calib_inv s st" and "storage_wf (bus_storage s)"
    and "tick_auto_calibration busy now adc (s, st) = (s', st')"
  shows "calib_writes es (s, st) \<le> 1 \<and>
    (let h = sn_holding_buf (bus_storage s); h' = sn_holding_buf (bus_storage s') in
    h' = h \<or> (\<exists>se. snd st = Some se \<and> \<not> se_finished se \<and> (\<exists>se'. snd st' = Some se' \<and> se_finished se') \<and>
      112 + se_channel se < length h \<and> h ! (104 + se_channel se) = 0 \<and> h ! (112 + se_channel se) = 0 \<and>
      (\<exists>lo hi. h' = h[104 + se_channel se := lo, 112 + se_channel se := hi] \<and>
        (lo = 0 \<or> 505 < lo \<and> lo < 805) \<and> (hi = 0 \<or> 2916 < hi \<and> hi < 3216) \<and>
        effective_calibration lo hi = (if lo \<noteq> 0 \<and> hi \<noteq> 0 then (lo, hi) else (605, 3016)))))"
proof -
  obtain status session where st: "st = (status, session)" by (rule prod.exhaust)
  have once: "calib_writes es (s, st) \<le> 1" using calibration_writes_once [of "(s, st)" es] assms(1) by simp
  have c: "effective_calibration lo hi = (if lo \<noteq> 0 \<and> hi \<noteq> 0 then (lo, hi) else (605, 3016))"
    if "lo = 0 \<or> 505 < lo \<and> lo < 805" "hi = 0 \<or> 2916 < hi \<and> hi < 3216" for lo hi :: u16
    using that by (auto simp: effective_calibration_def word_less_nat_alt)
  show ?thesis
  proof (cases "\<exists>se. session = Some se \<and> \<not> se_finished se \<and> status = 1 \<and> \<not> busy \<and> window_done now 8000 (se_window se) \<and>
      (min_endpoint_ok (se_window se) \<or> max_endpoint_ok (se_window se))")
    case False
    then have "s' = s" using assms(3) st by (auto simp: tick_auto_calibration_def Let_def split: option.splits if_splits)
    then show ?thesis using once by simp
  next
    case True
    then obtain se where se: "session = Some se" "\<not> se_finished se" "status = 1" "\<not> busy" "window_done now 8000 (se_window se)"
      "min_endpoint_ok (se_window se) \<or> max_endpoint_ok (se_window se)" by blast
    let ?se = "se\<lparr>se_finished := True\<rparr>" and ?h = "sn_holding_buf (bus_storage s)"
    have h: "sn_holding_buf (bus_storage s') = snd (calibrated_holding ?se ?h)" "snd st' = Some ?se"
      using assms(3) st se
      by (auto simp: tick_auto_calibration_def Let_def storage_modify_holding_def storage_modify_holding_raw_def
          mark_holding_dirty_def mark_storage_mutated_def publish_storage_def sync_proto_status_def request_device_def split: if_splits)
    show ?thesis
    proof (cases "?h ! (104 + se_channel se) = 0 \<and> ?h ! (112 + se_channel se) = 0")
      case False
      then have "snd (calibrated_holding ?se ?h) = ?h" by (auto simp: calibrated_holding_def Let_def)
      then show ?thesis using h once by simp
    next
      case z: True
      let ?lo = "if min_endpoint_ok (se_window se) then cw_min (se_window se) else 0"
      let ?hi = "if max_endpoint_ok (se_window se) then cw_max (se_window se) else 0"
      have "snd (calibrated_holding ?se ?h) = ?h[104 + se_channel se := ?lo, 112 + se_channel se := ?hi]"
        using z by (simp add: calibrated_holding_def Let_def set_if_zero del: if_cancel split del: if_split)
      moreover have "?lo = 0 \<or> 505 < ?lo \<and> ?lo < 805" "?hi = 0 \<or> 2916 < ?hi \<and> ?hi < 3216"
        by (auto simp: min_endpoint_ok_def max_endpoint_ok_def saturating_sub_def)
      ultimately have e: "\<exists>lo hi. sn_holding_buf (bus_storage s') = ?h[104 + se_channel se := lo, 112 + se_channel se := hi] \<and>
        (lo = 0 \<or> 505 < lo \<and> lo < 805) \<and> (hi = 0 \<or> 2916 < hi \<and> hi < 3216) \<and>
        effective_calibration lo hi = (if lo \<noteq> 0 \<and> hi \<noteq> 0 then (lo, hi) else (605, 3016))"
        unfolding h(1) by (intro exI [of _ ?lo] exI [of _ ?hi] conjI c)
      have "\<exists>se'. snd st' = Some se' \<and> se_finished se'" using h(2) by simp
      moreover have "112 + se_channel se < length ?h"
        using assms(1,2) st se(1) by (simp add: calib_inv_def storage_wf_def)
      ultimately show ?thesis using st se(1,2) z e unfolding Let_def by (intro conjI [OF once] disjI2 exI [of _ se]) simp
    qed
  qed
qed

text \<open>A session whose eight seconds are over, with both end points seen.\<close>

definition finished_window :: calib_session where
  "finished_window = \<lparr>se_channel = 2, se_window = observe 60 3020 (observe 0 600 (window_new 0)), se_finished = False\<rparr>"

theorem calibration_keeps_site_values_witness:
  "\<forall>s. sn_holding_buf (bus_storage (fst (tick_auto_calibration False 8000 (\<lambda>_. 0)
     (s\<lparr>bus_storage := storage_new\<rparr>, 1, Some finished_window)))) = (replicate 2048 0)[106 := 600, 114 := 3020]"
proof
  fix s :: bus_state
  let ?s = "s\<lparr>bus_storage := storage_new\<rparr>" and ?st = "(1, Some finished_window)"
  have t: "tick_auto_calibration False 8000 (\<lambda>_. 0) (?s, ?st) =
      (fst (tick_auto_calibration False 8000 (\<lambda>_. 0) (?s, ?st)), snd (tick_auto_calibration False 8000 (\<lambda>_. 0) (?s, ?st)))" by simp
  have d: "sn_holding_buf (bus_storage (fst (tick_auto_calibration False 8000 (\<lambda>_. 0) (?s, ?st)))) = (replicate 2048 0)[106 := 600, 114 := 3020]"
    by (simp add: tick_auto_calibration_def finished_window_def window_done_def observe_def window_new_def Let_def min_endpoint_ok_def
        max_endpoint_ok_def saturating_sub_def saturating_add_def calibrated_holding_def storage_new_def request_device_def
        storage_modify_holding_def storage_modify_holding_raw_def mark_holding_dirty_def mark_storage_mutated_def publish_storage_def
        sync_proto_status_def)
  show "sn_holding_buf (bus_storage (fst (tick_auto_calibration False 8000 (\<lambda>_. 0)
     (s\<lparr>bus_storage := storage_new\<rparr>, 1, Some finished_window)))) = (replicate 2048 0)[106 := 600, 114 := 3020]"
    using calibration_keeps_site_values [OF _ _ t, of "[]"] d
    by (simp add: calib_inv_def finished_window_def storage_wf_new)
qed

end
