(* ===== verification/Sw_I2c.thy ===== *)
theory Sw_I2c imports Atomic_Bits begin

text \<open>
  The bit-banged I2C master of \<open>src/hal/sw_i2c.rs\<close>.  The two pins are a parameter: a record of what setting a
  level, turning the data pin round and waiting do to the world beyond them, and of the level read back.  The bus
  lock is a flag; waiting for it is left out, the lock is free when it is asked for.
\<close>

section \<open>Pins\<close>

record 'd pins =
  pin_sda :: "bool \<Rightarrow> 'd \<Rightarrow> 'd"
  pin_scl :: "bool \<Rightarrow> 'd \<Rightarrow> 'd"
  pin_output :: "bool \<Rightarrow> 'd \<Rightarrow> 'd"
  pin_level :: "'d \<Rightarrow> bool"
  pin_delay :: "nat \<Rightarrow> 'd \<Rightarrow> 'd"

text \<open>\<open>ib_lock\<close> is the lock of the pair of pins, \<open>ib_in_tx\<close> the field \<open>in_transaction\<close>.\<close>

record 'd i2c_bus =
  ib_lock :: bool
  ib_in_tx :: bool
  ib_dev :: 'd

definition on_dev :: "('d \<Rightarrow> 'd) \<Rightarrow> 'd i2c_bus \<Rightarrow> 'd i2c_bus" where
  "on_dev f b = b\<lparr>ib_dev := f (ib_dev b)\<rparr>"

definition acquire_bus :: "'d i2c_bus \<Rightarrow> 'd i2c_bus" where
  "acquire_bus b = (if ib_in_tx b then b else b\<lparr>ib_in_tx := True, ib_lock := True\<rparr>)"

definition release_bus :: "'d i2c_bus \<Rightarrow> 'd i2c_bus" where
  "release_bus b = (if ib_in_tx b then b\<lparr>ib_in_tx := False, ib_lock := False\<rparr> else b)"

abbreviation (input) T_HALF_US :: nat where "T_HALF_US \<equiv> 5"

definition delay_half :: "'d pins \<Rightarrow> 'd \<Rightarrow> 'd" where "delay_half p = pin_delay p T_HALF_US"
definition delay_1us :: "'d pins \<Rightarrow> 'd \<Rightarrow> 'd" where "delay_1us p = pin_delay p 1"
definition sda_write :: "'d pins \<Rightarrow> bool \<Rightarrow> 'd \<Rightarrow> 'd" where "sda_write p high d = pin_sda p high (pin_output p True d)"
definition sda_read :: "'d pins \<Rightarrow> 'd \<Rightarrow> bool \<times> 'd" where
  "sda_read p d = (let d = pin_output p False d in (pin_level p d, d))"

section \<open>The protocol\<close>

definition i2c_init :: "'d pins \<Rightarrow> bool \<Rightarrow> 'd \<Rightarrow> 'd i2c_bus option" where
  "i2c_init p config_ok d =
     (let b = acquire_bus \<lparr>ib_lock = False, ib_in_tx = False, ib_dev = d\<rparr> in
      if \<not> config_ok then None
      else Some (release_bus (on_dev (\<lambda>d. pin_scl p True (sda_write p True d)) b)))"

definition start_pins :: "'d pins \<Rightarrow> 'd \<Rightarrow> 'd" where
  "start_pins p d =
     (let d = sda_write p True (pin_output p True d); d = delay_half p d; d = pin_scl p True d; d = delay_half p d;
          d = sda_write p False d; d = delay_half p d
      in pin_scl p False d)"

definition stop_pins :: "'d pins \<Rightarrow> 'd \<Rightarrow> 'd" where
  "stop_pins p d =
     (let d = pin_scl p False (pin_output p True d); d = delay_half p d; d = sda_write p False d; d = delay_half p d;
          d = pin_scl p True d; d = delay_half p d; d = sda_write p True d
      in delay_half p d)"

definition i2c_start :: "'d pins \<Rightarrow> 'd i2c_bus \<Rightarrow> 'd i2c_bus" where
  "i2c_start p b = on_dev (start_pins p) (acquire_bus b)"

definition i2c_stop :: "'d pins \<Rightarrow> 'd i2c_bus \<Rightarrow> 'd i2c_bus" where
  "i2c_stop p b = release_bus (on_dev (stop_pins p) b)"

definition clock_out :: "'d pins \<Rightarrow> bool \<Rightarrow> 'd \<Rightarrow> 'd" where
  "clock_out p high d = pin_scl p False (delay_half p (pin_scl p True (delay_half p (sda_write p high d))))"

text \<open>The loop over the bits of \<open>write_byte\<close>, \<open>txd\<close> shifted left each time.\<close>

fun shift_out :: "'d pins \<Rightarrow> nat \<Rightarrow> u8 \<Rightarrow> 'd \<Rightarrow> 'd" where
  "shift_out p 0 txd d = d"
| "shift_out p (Suc n) txd d = shift_out p n (push_bit 1 txd) (clock_out p (txd AND 0x80 \<noteq> 0) d)"

definition write_pins :: "'d pins \<Rightarrow> u8 \<Rightarrow> 'd \<Rightarrow> bool \<times> 'd" where
  "write_pins p byte d =
     (let d = shift_out p 8 byte d;
          d = delay_half p (pin_output p False (sda_write p True d));
          (level, d) = sda_read p (delay_half p (pin_scl p True d))
      in (\<not> level, pin_output p True (pin_scl p False d)))"

definition i2c_write_byte :: "'d pins \<Rightarrow> u8 \<Rightarrow> 'd i2c_bus \<Rightarrow> bool \<times> 'd i2c_bus" where
  "i2c_write_byte p byte b = (let (ack, d) = write_pins p byte (ib_dev b) in (ack, b\<lparr>ib_dev := d\<rparr>))"

fun shift_in :: "'d pins \<Rightarrow> nat \<Rightarrow> u8 \<Rightarrow> 'd \<Rightarrow> u8 \<times> 'd" where
  "shift_in p 0 receive d = (receive, d)"
| "shift_in p (Suc n) receive d =
     (let (level, d) = sda_read p (delay_half p (pin_scl p True (delay_half p d)));
          receive = push_bit 1 receive
      in shift_in p n (if level then receive OR 1 else receive) (pin_scl p False d))"

definition read_pins :: "'d pins \<Rightarrow> bool \<Rightarrow> 'd \<Rightarrow> u8 \<times> 'd" where
  "read_pins p ack d =
     (let (receive, d) = shift_in p 8 0 (pin_output p False d);
          d = sda_write p (\<not> ack) (delay_half p (pin_output p True d));
          d = pin_scl p False (delay_half p (pin_scl p True (delay_half p d)))
      in (receive, sda_write p True d))"

definition i2c_read_byte :: "'d pins \<Rightarrow> bool \<Rightarrow> 'd i2c_bus \<Rightarrow> u8 \<times> 'd i2c_bus" where
  "i2c_read_byte p ack b = (let (v, d) = read_pins p ack (ib_dev b) in (v, b\<lparr>ib_dev := d\<rparr>))"

text \<open>\<open>wait_ack\<close>: at most 251 readings, one each microsecond.\<close>

fun ack_loop :: "'d pins \<Rightarrow> nat \<Rightarrow> nat \<Rightarrow> 'd \<Rightarrow> bool \<times> 'd" where
  "ack_loop p 0 timeout d = (False, d)"
| "ack_loop p (Suc fuel) timeout d =
     (let (level, d) = sda_read p d in
      if \<not> level then (True, d)
      else let d = delay_1us p d in if timeout + 1 > 250 then (False, d) else ack_loop p fuel (timeout + 1) d)"

definition wait_ack :: "'d pins \<Rightarrow> 'd \<Rightarrow> bool \<times> 'd" where
  "wait_ack p d =
     (let d = delay_1us p (pin_scl p True (delay_1us p (pin_output p False d)));
          (ack, d) = ack_loop p 251 0 d
      in (ack, pin_output p True (pin_scl p False d)))"

section \<open>A device that listens\<close>

text \<open>What a device sees of the lines: a start or stop when the data line changes while the clock is high, a bit at
  each rise of the clock.  Its answers are the levels it holds while the master has turned the data pin round; an
  answer lasts until the clock falls.\<close>

datatype line_event = LineStart | LineStop | LineBit bool

record listener =
  li_sda :: bool
  li_scl :: bool
  li_driven :: bool
  li_answers :: "bool list"
  li_seen :: "line_event list"

definition li_level :: "listener \<Rightarrow> bool" where
  "li_level d = (if li_driven d then li_sda d else case li_answers d of [] \<Rightarrow> True | a # _ \<Rightarrow> a)"

definition li_change :: "listener \<Rightarrow> listener \<Rightarrow> listener" where
  "li_change d d' =
     (if li_scl d' \<and> li_level d \<noteq> li_level d'
      then d'\<lparr>li_seen := li_seen d' @ [if li_level d' then LineStop else LineStart]\<rparr> else d')"

definition listener_pins :: "listener pins" where
  "listener_pins =
     \<lparr>pin_sda = (\<lambda>high d. li_change d (d\<lparr>li_sda := high\<rparr>)),
      pin_scl = (\<lambda>high d.
        if high \<and> \<not> li_scl d then d\<lparr>li_scl := True, li_seen := li_seen d @ [LineBit (li_level d)]\<rparr>
        else if \<not> high \<and> li_scl d then d\<lparr>li_scl := False, li_answers := if li_driven d then li_answers d else tl (li_answers d)\<rparr>
        else d),
      pin_output = (\<lambda>out d. li_change d (d\<lparr>li_driven := out\<rparr>)),
      pin_level = li_level,
      pin_delay = (\<lambda>_ d. d)\<rparr>"

section \<open>Bytes on the wire\<close>

definition byte_bits :: "u8 \<Rightarrow> bool list" where
  "byte_bits x = map (\<lambda>i. bit x (7 - i)) [0..<8]"

definition add_bit :: "bool \<Rightarrow> u8 \<Rightarrow> u8" where
  "add_bit a v = (if a then push_bit 1 v OR 1 else push_bit 1 v)"

definition bits_byte :: "bool list \<Rightarrow> u8" where
  "bits_byte bs = foldl (\<lambda>v a. add_bit a v) 0 bs"

lemma byte_list: "byte_bits x = [bit x 7, bit x 6, bit x 5, bit x 4, bit x 3, bit x 2, bit x 1, bit x 0]"
  by (simp add: byte_bits_def upt_rec)

lemma bit_add_bit: "n < 8 \<Longrightarrow> bit (add_bit a v) n = (if n = 0 then a else bit v (n - 1))"
proof -
  assume n: "n < 8"
  have s: "bit (push_bit 1 v) n = (1 \<le> n \<and> bit v (n - 1))" using n by (simp only: bit_push_bit_iff) simp
  have o: "bit (1 :: u8) n = (n = 0)" by (simp add: bit_1_iff)
  show ?thesis by (simp only: add_bit_def bit_or_iff s o split: if_split) auto
qed

lemma bits_byte_byte_bits: "bits_byte (byte_bits x) = x"
proof (rule bit_word_eqI)
  fix n :: nat assume "n < LENGTH(8)"
  then consider "n = 0" | "n = 1" | "n = 2" | "n = 3" | "n = 4" | "n = 5" | "n = 6" | "n = 7" by force
  then show "bit (bits_byte (byte_bits x)) n = bit x n"
    by cases (simp_all add: bits_byte_def byte_list bit_add_bit)
qed

lemma top_bit: "(txd AND 0x80 \<noteq> 0) = bit txd 7" for txd :: u8
  using and_push_bit_1 [of txd 7] by simp

lemma listener_simps [simp]:
  "pin_sda listener_pins high d = li_change d (d\<lparr>li_sda := high\<rparr>)"
  "pin_output listener_pins out d = li_change d (d\<lparr>li_driven := out\<rparr>)"
  "pin_level listener_pins = li_level" "pin_delay listener_pins n d = d"
  "\<not> li_scl d \<Longrightarrow> pin_scl listener_pins True d = d\<lparr>li_scl := True, li_seen := li_seen d @ [LineBit (li_level d)]\<rparr>"
  "li_scl d \<Longrightarrow> pin_scl listener_pins True d = d" "\<not> li_scl d \<Longrightarrow> pin_scl listener_pins False d = d"
  "li_scl d \<Longrightarrow> pin_scl listener_pins False d =
     d\<lparr>li_scl := False, li_answers := if li_driven d then li_answers d else tl (li_answers d)\<rparr>"
  by (simp_all add: listener_pins_def)

lemma li_level_simps [simp]:
  "li_driven d \<Longrightarrow> li_level d = li_sda d"
  "\<not> li_driven d \<Longrightarrow> li_level d = (case li_answers d of [] \<Rightarrow> True | a # _ \<Rightarrow> a)"
  by (simp_all add: li_level_def)

lemma clock_out_listener: "\<not> li_scl d \<Longrightarrow>
    clock_out listener_pins high d = d\<lparr>li_sda := high, li_driven := True, li_seen := li_seen d @ [LineBit high]\<rparr>"
  by (simp add: clock_out_def delay_half_def sda_write_def li_change_def)

lemma bit_shift: "i < 7 \<Longrightarrow> bit (x * 2) (7 - i) = bit x (6 - i)" for x :: u8
proof -
  assume "i < 7"
  then have "bit (push_bit 1 x) (7 - i) = bit x (7 - i - 1)" by (simp only: bit_push_bit_iff) auto
  then show ?thesis by simp
qed

lemma shift_out_bits: "\<not> li_scl d \<Longrightarrow> n \<le> 8 \<Longrightarrow> \<exists>b. shift_out listener_pins n x d =
    d\<lparr>li_sda := b, li_driven := (n \<noteq> 0 \<or> li_driven d), li_seen := li_seen d @ map (\<lambda>i. LineBit (bit x (7 - i))) [0..<n]\<rparr>"
proof (induction n arbitrary: x d)
  case 0
  then show ?case by (intro exI [of _ "li_sda d"]) simp
next
  case (Suc n)
  let ?d = "d\<lparr>li_sda := bit x 7, li_driven := True, li_seen := li_seen d @ [LineBit (bit x 7)]\<rparr>"
  obtain b where "shift_out listener_pins n (push_bit 1 x) ?d = ?d\<lparr>li_sda := b, li_driven := (n \<noteq> 0 \<or> li_driven ?d),
      li_seen := li_seen ?d @ map (\<lambda>i. LineBit (bit (push_bit 1 x) (7 - i))) [0..<n]\<rparr>"
    using Suc.IH [of ?d "push_bit 1 x"] Suc.prems by auto
  moreover have "map (\<lambda>i. LineBit (bit (push_bit 1 x) (7 - i))) [0..<n] = map (\<lambda>i. LineBit (bit x (7 - i))) [Suc 0..<Suc n]"
    unfolding map_Suc_upt [symmetric] map_map using Suc.prems(2) by (intro map_cong) (simp_all add: bit_shift)
  ultimately show ?case using Suc.prems(1)
    by (intro exI [of _ b]) (simp add: clock_out_listener top_bit upt_conv_Cons del: upt_Suc push_bit_of_1)
qed

lemma shift_out_listener: "\<not> li_scl d \<Longrightarrow> \<exists>b. shift_out listener_pins 8 x d =
    d\<lparr>li_sda := b, li_driven := True, li_seen := li_seen d @ map LineBit (byte_bits x)\<rparr>"
  using shift_out_bits [of d 8 x] by (simp add: byte_bits_def comp_def del: upt_rec_numeral)

definition answer_of :: "bool list \<Rightarrow> bool" where
  "answer_of as = (case as of [] \<Rightarrow> True | a # _ \<Rightarrow> a)"

lemma write_listener: "\<not> li_scl d \<Longrightarrow> write_pins listener_pins x d =
    (\<not> answer_of (li_answers d), d\<lparr>li_sda := True, li_driven := True, li_answers := tl (li_answers d),
      li_seen := li_seen d @ map LineBit (byte_bits x) @ [LineBit (answer_of (li_answers d))]\<rparr>)"
proof -
  assume "\<not> li_scl d"
  moreover from this obtain b where "shift_out listener_pins 8 x d =
      d\<lparr>li_sda := b, li_driven := True, li_seen := li_seen d @ map LineBit (byte_bits x)\<rparr>"
    using shift_out_listener by blast
  ultimately show ?thesis
    by (simp add: write_pins_def Let_def)
      (simp add: sda_write_def sda_read_def delay_half_def li_change_def answer_of_def split: list.split)
qed

text \<open>The master takes one answer per rise of the clock.\<close>

fun answers :: "nat \<Rightarrow> bool list \<Rightarrow> bool list" where
  "answers 0 as = []"
| "answers (Suc n) as = answer_of as # answers n (tl as)"

lemma shift_in_listener: "\<not> li_scl d \<Longrightarrow> \<not> li_driven d \<Longrightarrow> shift_in listener_pins n v d =
    (foldl (\<lambda>v a. add_bit a v) v (answers n (li_answers d)),
     d\<lparr>li_answers := (tl ^^ n) (li_answers d), li_seen := li_seen d @ map LineBit (answers n (li_answers d))\<rparr>)"
proof (induction n arbitrary: v d)
  case (Suc n)
  have s: "shift_in listener_pins (Suc n) v d = shift_in listener_pins n
      (add_bit (answer_of (li_answers d)) v)
      (d\<lparr>li_answers := tl (li_answers d), li_seen := li_seen d @ [LineBit (answer_of (li_answers d))]\<rparr>)"
    using Suc.prems
    by (cases d) (simp add: sda_read_def delay_half_def li_change_def answer_of_def add_bit_def Let_def split: list.split)
  show ?case unfolding s using Suc.prems by (simp add: Suc.IH funpow_swap1)
qed simp

lemma read_listener: "\<not> li_scl d \<Longrightarrow> read_pins listener_pins ack d =
    (bits_byte (answers 8 (li_answers d)),
     d\<lparr>li_sda := True, li_driven := True, li_answers := (tl ^^ 8) (li_answers d),
       li_seen := li_seen d @ map LineBit (answers 8 (li_answers d)) @ [LineBit (\<not> ack)]\<rparr>)"
proof -
  assume a: "\<not> li_scl d"
  have o: "pin_output listener_pins False d = d\<lparr>li_driven := False\<rparr>" using a by (simp add: li_change_def)
  have "shift_in listener_pins 8 0 (d\<lparr>li_driven := False\<rparr>) = (bits_byte (answers 8 (li_answers d)),
     d\<lparr>li_driven := False, li_answers := (tl ^^ 8) (li_answers d), li_seen := li_seen d @ map LineBit (answers 8 (li_answers d))\<rparr>)"
    using a by (simp add: shift_in_listener bits_byte_def)
  moreover have "read_pins listener_pins ack d = (let (receive, d) = shift_in listener_pins 8 0 (pin_output listener_pins False d)
      in (receive, sda_write listener_pins True (clock_out listener_pins (\<not> ack)
        (delay_half listener_pins (pin_output listener_pins True d)))))"
    by (simp only: read_pins_def clock_out_def Let_def split: prod.split)
  ultimately show ?thesis using a
    by (simp add: o Let_def delay_half_def li_change_def clock_out_listener sda_write_def)
qed

text \<open>C37: Bytes cross the wire as the I2C bus prescribes: with the clock low, a written byte is seen by the device as
  its eight bits, the highest first, followed by the device's own answer, which decides the result; a read byte is
  made of the next eight answers in that order and closed with the acknowledge asked for; and no start or stop
  condition appears in between.\<close>

theorem bytes_cross_the_wire:
  assumes "\<not> li_scl (ib_dev b)"
  shows "(let (ack, b') = i2c_write_byte listener_pins x b in
      ack = (\<not> answer_of (li_answers (ib_dev b))) \<and> \<not> li_scl (ib_dev b') \<and>
      li_seen (ib_dev b') = li_seen (ib_dev b) @ map LineBit (byte_bits x) @ [LineBit (\<not> ack)]) \<and>
    (let (v, b') = i2c_read_byte listener_pins ack b in
      byte_bits v = answers 8 (li_answers (ib_dev b)) \<and> \<not> li_scl (ib_dev b') \<and>
      li_seen (ib_dev b') = li_seen (ib_dev b) @ map LineBit (byte_bits v) @ [LineBit (\<not> ack)])"
proof -
  have "byte_bits (bits_byte [a1, a2, a3, a4, a5, a6, a7, a8]) = [a1, a2, a3, a4, a5, a6, a7, a8]" for a1 a2 a3 a4 a5 a6 a7 a8
    by (simp add: byte_list bits_byte_def bit_add_bit)
  then have e: "byte_bits (bits_byte (answers 8 as)) = answers 8 as" for as by (simp add: numeral_eq_Suc)
  show ?thesis using assms
    by (simp add: i2c_write_byte_def i2c_read_byte_def write_listener read_listener e)
qed

text \<open>A start and a stop are seen as such, and they take and give back the pair of pins.\<close>

lemma start_listener: "li_sda (ib_dev b) \<Longrightarrow> li_driven (ib_dev b) \<Longrightarrow> li_scl (ib_dev b) \<Longrightarrow>
    li_seen (ib_dev (i2c_start listener_pins b)) = li_seen (ib_dev b) @ [LineStart] \<and> \<not> li_scl (ib_dev (i2c_start listener_pins b))"
  by (simp add: i2c_start_def on_dev_def acquire_bus_def start_pins_def Let_def sda_write_def delay_half_def li_change_def)

lemma stop_listener: "\<not> li_scl (ib_dev b) \<Longrightarrow> li_driven (ib_dev b) \<Longrightarrow>
    li_seen (ib_dev (i2c_stop listener_pins b)) = li_seen (ib_dev b) @ [LineBit False, LineStop] \<and> li_scl (ib_dev (i2c_stop listener_pins b))"
  by (simp add: i2c_stop_def on_dev_def release_bus_def stop_pins_def Let_def sda_write_def delay_half_def li_change_def)

lemma bus_flags [simp]:
  "ib_in_tx (i2c_start p b)" "ib_in_tx (snd (i2c_write_byte p x b)) = ib_in_tx b" "ib_in_tx (snd (i2c_read_byte p a b)) = ib_in_tx b"
  "\<not> ib_in_tx (i2c_stop p b)"
  by (simp_all add: i2c_start_def i2c_stop_def i2c_write_byte_def i2c_read_byte_def on_dev_def acquire_bus_def release_bus_def
      split: prod.split)

definition bus_free :: "'d i2c_bus \<Rightarrow> bool" where
  "bus_free b \<longleftrightarrow> \<not> ib_in_tx b \<and> \<not> ib_lock b"

lemma bus_lock_steps [simp]:
  "ib_lock (snd (i2c_write_byte p x b)) = ib_lock b" "ib_lock (snd (i2c_read_byte p a b)) = ib_lock b"
  "ib_in_tx b \<Longrightarrow> bus_free (i2c_stop p b)"
  by (simp_all add: bus_free_def i2c_stop_def i2c_write_byte_def i2c_read_byte_def on_dev_def release_bus_def split: prod.split)

theorem bytes_cross_the_wire_witness:
  "let d = \<lparr>li_sda = False, li_scl = False, li_driven = True, li_answers = [False], li_seen = [LineStart]\<rparr>;
       (ack, b) = i2c_write_byte listener_pins 0xA6 \<lparr>ib_lock = True, ib_in_tx = True, ib_dev = d\<rparr>
   in ack \<and> li_seen (ib_dev b) = LineStart # map LineBit [True, False, True, False, False, True, True, False] @ [LineBit False]"
  using bytes_cross_the_wire [where ack = False and x = "0xA6" and b = "\<lparr>ib_lock = True, ib_in_tx = True, ib_dev = \<lparr>li_sda = False, li_scl = False, li_driven = True,
      li_answers = [False], li_seen = [LineStart]\<rparr>\<rparr>"]
  by (simp add: byte_list answer_of_def case_prod_unfold Let_def)

end
