(* ===== verification/Pca9555.thy ===== *)
theory Pca9555 imports Sw_I2c Output_Queue begin

text \<open>
  The I/O expanders of \<open>src/hal/pca9555.rs\<close>, default build (one chip for 16 inputs, one for 16 outputs, the lamps
  on a second bus): the register transactions, the coding of inputs and outputs, the pass of the worker thread and
  the interface of \<open>src/hal/digital_io.rs\<close> the tasks use.  The chips are behind the pins of \<open>Sw_I2c\<close>; the clock is
  read once per pass.  Commands submitted by the main loop while the chip is written are a parameter of the pass.
\<close>

section \<open>Register transactions\<close>

abbreviation (input) REG_INPUT_0 :: u8 where "REG_INPUT_0 \<equiv> 0"
abbreviation (input) REG_OUTPUT_0 :: u8 where "REG_OUTPUT_0 \<equiv> 2"
abbreviation (input) REG_CONFIG_0 :: u8 where "REG_CONFIG_0 \<equiv> 6"
abbreviation (input) REG_CONFIG_1 :: u8 where "REG_CONFIG_1 \<equiv> 7"
abbreviation (input) DI_IO_ADDRS :: "u8 list" where "DI_IO_ADDRS \<equiv> [0x40]"
abbreviation (input) DO_IO_ADDRS :: "u8 list" where "DO_IO_ADDRS \<equiv> [0x42]"
abbreviation (input) DI_LED_ADDRS :: "u8 list" where "DI_LED_ADDRS \<equiv> [0x40]"
abbreviation (input) DO_LED_ADDRS :: "u8 list" where "DO_LED_ADDRS \<equiv> [0x48]"
abbreviation (input) STATUS_LED_ADDR :: u8 where "STATUS_LED_ADDR \<equiv> 0x44"

text \<open>Bytes written until one is not acknowledged.\<close>

fun bytes_acked :: "'d pins \<Rightarrow> u8 list \<Rightarrow> 'd i2c_bus \<Rightarrow> bool \<times> 'd i2c_bus" where
  "bytes_acked p [] b = (True, b)"
| "bytes_acked p (x # xs) b =
     (let (ack, b) = i2c_write_byte p x b in if \<not> ack then (False, b) else bytes_acked p xs b)"

definition pca_write_reg :: "'d pins \<Rightarrow> u8 \<Rightarrow> u8 \<Rightarrow> u8 \<Rightarrow> 'd i2c_bus \<Rightarrow> bool \<times> 'd i2c_bus" where
  "pca_write_reg p addr reg data b =
     (let (ok, b) = bytes_acked p [addr, reg, data] (i2c_start p b) in (ok, i2c_stop p b))"

definition pca_write_regs2 :: "'d pins \<Rightarrow> u8 \<Rightarrow> u8 \<Rightarrow> u8 list \<Rightarrow> 'd i2c_bus \<Rightarrow> bool \<times> 'd i2c_bus" where
  "pca_write_regs2 p addr reg data b =
     (let (ok, b) = bytes_acked p ([addr, reg] @ data) (i2c_start p b) in (ok, i2c_stop p b))"

definition pca_read_reg :: "'d pins \<Rightarrow> u8 \<Rightarrow> u8 \<Rightarrow> 'd i2c_bus \<Rightarrow> u8 option \<times> 'd i2c_bus" where
  "pca_read_reg p addr reg b =
     (let (ok, b) = bytes_acked p [addr, reg] (i2c_start p b) in
      if \<not> ok then (None, i2c_stop p b)
      else let (ok, b) = bytes_acked p [addr OR 1] (i2c_start p b) in
      if \<not> ok then (None, i2c_stop p b)
      else let (v, b) = i2c_read_byte p False b in (Some v, i2c_stop p b))"

definition pca_read_regs2 :: "'d pins \<Rightarrow> u8 \<Rightarrow> u8 \<Rightarrow> 'd i2c_bus \<Rightarrow> (u8 \<times> u8) option \<times> 'd i2c_bus" where
  "pca_read_regs2 p addr reg b =
     (let (ok, b) = bytes_acked p [addr, reg] (i2c_start p b) in
      if \<not> ok then (None, i2c_stop p b)
      else let (ok, b) = bytes_acked p [addr OR 1] (i2c_start p b) in
      if \<not> ok then (None, i2c_stop p b)
      else let (v0, b) = i2c_read_byte p True b; (v1, b) = i2c_read_byte p False b in (Some (v0, v1), i2c_stop p b))"

section \<open>Coding\<close>

fun reverse_loop :: "nat \<Rightarrow> u8 \<Rightarrow> u8 \<Rightarrow> u8" where
  "reverse_loop 0 result x = result"
| "reverse_loop (Suc n) result x = reverse_loop n (push_bit 1 result OR (x AND 1)) (drop_bit 1 x)"

definition bit_reverse :: "u8 \<Rightarrow> u8" where "bit_reverse b = reverse_loop 8 0 b"

text \<open>The status lamps are lit by a 0.\<close>

definition with_status_led :: "u8 \<Rightarrow> u8 \<Rightarrow> bool \<Rightarrow> u8" where
  "with_status_led current m on = (if on then current AND m else current OR NOT m)"

definition with_rs485_leds :: "u8 \<Rightarrow> bool \<times> bool \<Rightarrow> u8" where
  "with_rs485_leds current a = with_status_led (with_status_led current 0xFB (fst a)) 0xF7 (snd a)"

definition with_fiber_leds :: "u8 \<Rightarrow> bool \<times> bool \<Rightarrow> u8" where
  "with_fiber_leds current a = with_status_led (with_status_led current 0xEF (fst a)) 0x7F (snd a)"

text \<open>All banks of inputs: the channels, and the raw bytes for the lamps.\<close>

fun sample_banks :: "'d pins \<Rightarrow> nat \<Rightarrow> u8 list \<Rightarrow> u64 \<times> (u8 \<times> u8) list \<Rightarrow> 'd i2c_bus \<Rightarrow>
    (u64 \<times> (u8 \<times> u8) list) option \<times> 'd i2c_bus" where
  "sample_banks p index [] acc b = (Some acc, b)"
| "sample_banks p index (addr # addrs) acc b =
     (case pca_read_regs2 p addr REG_INPUT_0 b of
        (None, b) \<Rightarrow> (None, b)
      | (Some (r0, r1), b) \<Rightarrow>
          let bits = ucast (NOT r0) OR push_bit 8 (ucast (bit_reverse r1 XOR 0xFF))
          in sample_banks p (index + 1) addrs (fst acc OR push_bit (index * 16) bits, snd acc @ [(r0, r1)]) b)"

definition worker_sample_di :: "'d pins \<Rightarrow> 'd i2c_bus \<Rightarrow> (u64 \<times> (u8 \<times> u8) list) option \<times> 'd i2c_bus" where
  "worker_sample_di p b = sample_banks p 0 DI_IO_ADDRS (0, []) b"

definition do_bytes :: "nat \<Rightarrow> u64 \<Rightarrow> u8 \<times> u8" where
  "do_bytes i value = (let raw = ucast (drop_bit (i * 16) value) :: u16
     in (bit_reverse (ucast raw), bit_reverse (ucast (drop_bit 8 raw))))"

fun write_banks :: "'d pins \<Rightarrow> nat \<Rightarrow> u8 list \<Rightarrow> u64 \<Rightarrow> 'd i2c_bus \<Rightarrow> bool \<times> 'd i2c_bus" where
  "write_banks p i [] value b = (True, b)"
| "write_banks p i (addr # addrs) value b =
     (let (d0, d1) = do_bytes i value; (ok, b) = pca_write_regs2 p addr REG_OUTPUT_0 [d0, d1] b
      in if \<not> ok then (False, b) else write_banks p (i + 1) addrs value b)"

definition worker_write_do :: "'d pins \<Rightarrow> u64 \<Rightarrow> 'd i2c_bus \<Rightarrow> bool \<times> 'd i2c_bus" where
  "worker_write_do p value b = write_banks p 0 DO_IO_ADDRS value b"

definition join_do :: "nat \<Rightarrow> u8 \<times> u8 \<Rightarrow> u64" where
  "join_do i r = push_bit (i * 16) (ucast (bit_reverse (fst r))) OR push_bit (i * 16 + 8) (ucast (bit_reverse (snd r)))"

fun read_banks :: "'d pins \<Rightarrow> nat \<Rightarrow> u8 list \<Rightarrow> u64 \<Rightarrow> 'd i2c_bus \<Rightarrow> u64 option \<times> 'd i2c_bus" where
  "read_banks p i [] result b = (Some result, b)"
| "read_banks p i (addr # addrs) result b =
     (case pca_read_regs2 p addr REG_OUTPUT_0 b of
        (None, b) \<Rightarrow> (None, b)
      | (Some r, b) \<Rightarrow> read_banks p (i + 1) addrs (result OR join_do i r) b)"

definition worker_read_do :: "'d pins \<Rightarrow> 'd i2c_bus \<Rightarrow> u64 option \<times> 'd i2c_bus" where
  "worker_read_do p b = read_banks p 0 DO_IO_ADDRS 0 b"

section \<open>The worker\<close>

record pca_shared =
  pc_alive :: bool
  pc_heartbeat_ms :: u32
  pc_di_bits :: atomic_bits64
  pc_di_generation :: u32
  pc_di_sampled_ms :: u32
  pc_di_failures :: u32
  pc_do_desired :: atomic_bits64
  pc_do_hardware :: atomic_bits64
  pc_do_valid :: bool
  pc_do_readback_ms :: u32
  pc_do_failures :: u32
  pc_do_submit_busy :: u32
  pc_do_confirmed :: u32
  pc_outputs :: output_queue
  pc_led_errors :: u32
  pc_status_led :: u16

text \<open>The local variables of the thread and its two buses; instants are milliseconds since the start.\<close>

record 'd pca_worker =
  pw_io :: "'d i2c_bus"
  pw_led :: "'d i2c_bus"
  pw_last_do_check :: int
  pw_retry_at :: nat
  pw_io_retry_at :: nat
  pw_led_retry_at :: nat
  pw_di_led :: "(u8 \<times> u8) list"
  pw_do_led :: "(u8 \<times> u8) list"
  pw_last_status :: u16
  pw_shared :: pca_shared

definition on_shared :: "(pca_shared \<Rightarrow> pca_shared) \<Rightarrow> 'd pca_worker \<Rightarrow> 'd pca_worker" where
  "on_shared f w = w\<lparr>pw_shared := f (pw_shared w)\<rparr>"

definition shared_new :: "u32 \<Rightarrow> pca_shared" where
  "shared_new now = \<lparr>pc_alive = True, pc_heartbeat_ms = now, pc_di_bits = bits_new 0, pc_di_generation = 0, pc_di_sampled_ms = 0,
     pc_di_failures = 0, pc_do_desired = bits_new 0, pc_do_hardware = bits_new 0, pc_do_valid = False, pc_do_readback_ms = 0,
     pc_do_failures = 0, pc_do_submit_busy = 0, pc_do_confirmed = 0, pc_outputs = output_queue_new, pc_led_errors = 0,
     pc_status_led = 0xDE\<rparr>"

text \<open>The start: inputs as inputs, outputs off before they are enabled, lamps off; a missing chip is only logged.\<close>

definition pca_init :: "'d pins \<Rightarrow> 'd pins \<Rightarrow> nat \<Rightarrow> 'd i2c_bus \<Rightarrow> 'd i2c_bus \<Rightarrow> 'd pca_worker" where
  "pca_init p q now io led =
     (let io = foldl (\<lambda>b addr. let (ok, b) = pca_write_reg p addr REG_CONFIG_0 0xFF b
                 in if ok then snd (pca_write_reg p addr REG_CONFIG_1 0xFF b) else b) io DI_IO_ADDRS;
          io = foldl (\<lambda>b addr. let (ok, b) = pca_write_regs2 p addr REG_OUTPUT_0 [0, 0] b
                 in if ok then snd (pca_write_regs2 p addr REG_CONFIG_0 [0, 0] b) else b) io DO_IO_ADDRS;
          led = foldl (\<lambda>b addr. let (ok, b) = pca_write_regs2 q addr REG_CONFIG_0 [0, 0] b
                 in if ok then snd (pca_write_regs2 q addr REG_OUTPUT_0 [0xFF, 0xFF] b) else b) led
                 (DI_LED_ADDRS @ DO_LED_ADDRS @ [STATUS_LED_ADDR]);
          led = snd (pca_write_reg q STATUS_LED_ADDR REG_OUTPUT_0 0xDE led)
      in \<lparr>pw_io = io, pw_led = led, pw_last_do_check = int now - 100, pw_retry_at = now, pw_io_retry_at = now, pw_led_retry_at = now,
          pw_di_led = [(0xFF, 0xFF)], pw_do_led = [(0xFF, 0xFF)], pw_last_status = 0xFFFF, pw_shared = shared_new (of_nat now)\<rparr>)"

text \<open>The lamps of one kind: only what has changed is written, what fails is written again.\<close>

fun mirror_lamps :: "'d pins \<Rightarrow> nat \<Rightarrow> u8 list \<Rightarrow> (u8 \<times> u8) list \<Rightarrow> (u8 \<times> u8) list \<Rightarrow> bool \<times> u32 \<times> 'd i2c_bus \<Rightarrow>
    (u8 \<times> u8) list \<times> bool \<times> u32 \<times> 'd i2c_bus" where
  "mirror_lamps q i [] want shown (failed, errors, b) = (shown, failed, errors, b)"
| "mirror_lamps q i (addr # addrs) want shown (failed, errors, b) =
     (if shown ! i = want ! i then mirror_lamps q (i + 1) addrs want shown (failed, errors, b)
      else case pca_write_regs2 q addr REG_OUTPUT_0 [fst (want ! i), snd (want ! i)] b of
        (True, b) \<Rightarrow> mirror_lamps q (i + 1) addrs want (shown[i := want ! i]) (failed, errors, b)
      | (False, b) \<Rightarrow> mirror_lamps q (i + 1) addrs want shown (True, errors + 1, b))"

definition publish_di :: "u32 \<Rightarrow> u64 \<Rightarrow> pca_shared \<Rightarrow> pca_shared" where
  "publish_di now bits s =
     s\<lparr>pc_di_generation := pc_di_generation s + 2, pc_di_bits := store_bits bits (pc_di_bits s), pc_di_sampled_ms := now, pc_di_failures := 0\<rparr>"

text \<open>The first result of a phase tells whether the I/O bus answered, the second whether a lamp write failed.\<close>

definition di_phase :: "'d pins \<Rightarrow> 'd pins \<Rightarrow> u32 \<Rightarrow> bool \<Rightarrow> 'd pca_worker \<Rightarrow> bool \<times> bool \<times> 'd pca_worker" where
  "di_phase p q now led_due w =
     (case worker_sample_di p (pw_io w) of
        (Some (bits, raw), io) \<Rightarrow>
          let w = on_shared (publish_di now bits) (w\<lparr>pw_io := io\<rparr>) in
          if \<not> led_due then (True, False, w)
          else let (shown, failed, errors, led) =
                     mirror_lamps q 0 DI_LED_ADDRS raw (pw_di_led w) (False, pc_led_errors (pw_shared w), pw_led w)
               in (True, failed, (on_shared (\<lambda>s. s\<lparr>pc_led_errors := errors\<rparr>) w)\<lparr>pw_di_led := shown, pw_led := led\<rparr>)
      | (None, io) \<Rightarrow> (False, False, on_shared (\<lambda>s. s\<lparr>pc_di_failures := pc_di_failures s + 1\<rparr>) (w\<lparr>pw_io := io\<rparr>)))"

definition publish_do_readback :: "u32 \<Rightarrow> u64 \<Rightarrow> pca_shared \<Rightarrow> pca_shared" where
  "publish_do_readback now bits s =
     s\<lparr>pc_do_hardware := store_bits bits (pc_do_hardware s), pc_do_readback_ms := now, pc_do_valid := True\<rparr>"

definition do_failed :: "pca_shared \<Rightarrow> pca_shared" where
  "do_failed s = s\<lparr>pc_do_valid := False, pc_do_failures := pc_do_failures s + 1\<rparr>"

text \<open>Write the outputs and read them back; \<open>None\<close> when either fails or they differ.\<close>

definition write_verified :: "'d pins \<Rightarrow> u64 \<Rightarrow> 'd i2c_bus \<Rightarrow> u64 option \<times> 'd i2c_bus" where
  "write_verified p bits b =
     (case worker_write_do p bits b of
        (False, b) \<Rightarrow> (None, b)
      | (True, b) \<Rightarrow> (case worker_read_do p b of
          (None, b) \<Rightarrow> (None, b)
        | (Some actual, b) \<Rightarrow> (if actual = bits then Some actual else None, b)))"

datatype dio_error = DioBusy | DioIo

definition submit_output :: "bool \<Rightarrow> (u64 \<Rightarrow> u64) \<Rightarrow> pca_shared \<Rightarrow> dio_error option \<times> pca_shared" where
  "submit_output contended update s =
     (if contended then (Some DioBusy, s\<lparr>pc_do_submit_busy := pc_do_submit_busy s + 1\<rparr>)
      else let v = update (oc_bits (oq_latest (pc_outputs s))); (ok, q) = submit v (pc_outputs s); s = s\<lparr>pc_outputs := q\<rparr> in
        if \<not> ok then (Some DioBusy, s) else (None, s\<lparr>pc_do_desired := store_bits v (pc_do_desired s)\<rparr>))"

text \<open>What the main loop submits while the chip is written.\<close>

definition late_submits :: "(u64 \<Rightarrow> u64) list \<Rightarrow> 'd pca_worker \<Rightarrow> 'd pca_worker" where
  "late_submits late = on_shared (fold (\<lambda>f s. snd (submit_output False f s)) late)"

definition serve_output :: "'d pins \<Rightarrow> nat \<Rightarrow> (u64 \<Rightarrow> u64) list \<Rightarrow> output_command \<Rightarrow> 'd pca_worker \<Rightarrow> bool \<times> 'd pca_worker" where
  "serve_output p now late command w =
     (case write_verified p (oc_bits command) (pw_io w) of
        (Some actual, io) \<Rightarrow>
          (True, (on_shared (\<lambda>s. (publish_do_readback (of_nat now) actual s)\<lparr>pc_do_failures := 0, pc_do_confirmed := oc_generation command,
                     pc_outputs := snd (confirm command (pc_outputs s))\<rparr>) (late_submits late w))\<lparr>pw_io := io, pw_last_do_check := int now\<rparr>)
      | (None, io) \<Rightarrow> (False, (on_shared do_failed (late_submits late w))\<lparr>pw_io := io, pw_retry_at := now + 100\<rparr>))"

text \<open>The check every 100 ms: a chip that lost its outputs is written again.\<close>

definition read_or_rewrite :: "'d pins \<Rightarrow> u64 \<Rightarrow> 'd i2c_bus \<Rightarrow> u64 option \<times> 'd i2c_bus" where
  "read_or_rewrite p target b =
     (case worker_read_do p b of
        (None, b) \<Rightarrow> (None, b)
      | (Some actual, b) \<Rightarrow> (if actual = target then (Some actual, b) else write_verified p target b))"

definition check_outputs :: "'d pins \<Rightarrow> nat \<Rightarrow> (u64 \<Rightarrow> u64) list \<Rightarrow> 'd pca_worker \<Rightarrow> bool \<times> 'd pca_worker" where
  "check_outputs p now late w =
     (case read_or_rewrite p (oc_bits (oq_latest (pc_outputs (pw_shared w)))) (pw_io w) of
        (Some actual, io) \<Rightarrow>
          (True, (on_shared (\<lambda>s. (publish_do_readback (of_nat now) actual s)\<lparr>pc_do_failures := 0\<rparr>) (late_submits late w))
                 \<lparr>pw_io := io, pw_last_do_check := int now\<rparr>)
      | (None, io) \<Rightarrow> (False, (on_shared do_failed (late_submits late w))\<lparr>pw_io := io, pw_last_do_check := int now\<rparr>))"

definition after_fault :: "pca_shared \<Rightarrow> pca_shared" where
  "after_fault s = (if pc_do_failures s \<noteq> 0 then s\<lparr>pc_outputs := retain_latest_after_fault (pc_outputs s)\<rparr> else s)"

definition do_phase :: "'d pins \<Rightarrow> nat \<Rightarrow> (u64 \<Rightarrow> u64) list \<Rightarrow> 'd pca_worker \<Rightarrow> bool \<times> 'd pca_worker" where
  "do_phase p now late w =
     (let w = on_shared after_fault w in
      case front (pc_outputs (pw_shared w)) of
        Some command \<Rightarrow> (if now \<ge> pw_retry_at w then serve_output p now late command w else (False, late_submits late w))
      | None \<Rightarrow> (if int now - pw_last_do_check w \<ge> 100 then check_outputs p now late w else (False, late_submits late w)))"

definition do_lamp :: "u64 \<Rightarrow> nat \<Rightarrow> u8 \<times> u8" where
  "do_lamp actual i = (let raw = ucast (drop_bit (i * 16) actual) :: u16
     in (NOT (ucast raw), NOT (bit_reverse (ucast (drop_bit 8 raw)))))"

definition do_lamp_phase :: "'d pins \<Rightarrow> bool \<Rightarrow> 'd pca_worker \<Rightarrow> bool \<times> 'd pca_worker" where
  "do_lamp_phase q led_due w =
     (if led_due \<and> pc_do_valid (pw_shared w) then
        (let actual = load_bits (pc_do_hardware (pw_shared w));
             (shown, failed, errors, led) = mirror_lamps q 0 DO_LED_ADDRS (map (do_lamp actual) [0..<length DO_LED_ADDRS]) (pw_do_led w)
               (False, pc_led_errors (pw_shared w), pw_led w)
         in (failed, (on_shared (\<lambda>s. s\<lparr>pc_led_errors := errors\<rparr>) w)\<lparr>pw_do_led := shown, pw_led := led\<rparr>))
      else (False, w))"

definition status_phase :: "'d pins \<Rightarrow> bool \<Rightarrow> 'd pca_worker \<Rightarrow> bool \<times> 'd pca_worker" where
  "status_phase q led_due w =
     (let status = pc_status_led (pw_shared w) in
      if led_due \<and> status \<noteq> pw_last_status w then
        (case pca_write_reg q STATUS_LED_ADDR REG_OUTPUT_0 (ucast status) (pw_led w) of
           (True, led) \<Rightarrow> (False, w\<lparr>pw_led := led, pw_last_status := status\<rparr>)
         | (False, led) \<Rightarrow> (True, (on_shared (\<lambda>s. s\<lparr>pc_led_errors := pc_led_errors s + 1\<rparr>) w)\<lparr>pw_led := led\<rparr>))
      else (False, w))"

definition worker_pass :: "'d pins \<Rightarrow> 'd pins \<Rightarrow> nat \<Rightarrow> (u64 \<Rightarrow> u64) list \<Rightarrow> 'd pca_worker \<Rightarrow> 'd pca_worker" where
  "worker_pass p q now late w =
     (let w = on_shared (\<lambda>s. s\<lparr>pc_heartbeat_ms := of_nat now\<rparr>) w; led_due = (now \<ge> pw_led_retry_at w) in
      if \<not> now \<ge> pw_io_retry_at w then late_submits late w
      else let (io1, f1, w) = di_phase p q (of_nat now) led_due w;
               (io2, w) = do_phase p now late w;
               (f2, w) = do_lamp_phase q led_due w;
               (f3, w) = status_phase q led_due w;
               w = (if led_due then w\<lparr>pw_led_retry_at := if f1 \<or> f2 \<or> f3 then now + 500 else now\<rparr> else w)
           in w\<lparr>pw_io_retry_at := if io1 \<or> io2 then now else now + 500\<rparr>)"

section \<open>The interface of the tasks\<close>

definition worker_alive :: "u32 \<Rightarrow> pca_shared \<Rightarrow> bool" where
  "worker_alive now s \<longleftrightarrow> pc_alive s \<and> now - pc_heartbeat_ms s \<le> 1000"

text \<open>A sample of the inputs, read while the worker is between two passes.\<close>

definition read_di_sample :: "u32 \<Rightarrow> pca_shared \<Rightarrow> dio_error + (u64 \<times> u32) option" where
  "read_di_sample now s =
     (if \<not> worker_alive now s then Inl DioIo
      else if pc_di_generation s = 0 \<or> bit (pc_di_generation s) 0 then Inr None
      else if sample_is_fresh True now (pc_di_sampled_ms s) (pc_di_failures s)
        then Inr (Some (load_bits (pc_di_bits s), pc_di_generation s))
      else Inl DioIo)"

definition read_di_all :: "u32 \<Rightarrow> pca_shared \<Rightarrow> dio_error + u64" where
  "read_di_all now s = (case read_di_sample now s of Inl e \<Rightarrow> Inl e | Inr None \<Rightarrow> Inl DioIo | Inr (Some (bits, g)) \<Rightarrow> Inr bits)"

definition write_do_all :: "bool \<Rightarrow> u32 \<Rightarrow> u64 \<Rightarrow> pca_shared \<Rightarrow> dio_error option \<times> pca_shared" where
  "write_do_all contended now v s =
     (if \<not> worker_alive now s then (Some DioIo, s) else submit_output contended (\<lambda>_. v AND 0xFFFF) s)"

definition write_do :: "bool \<Rightarrow> u32 \<Rightarrow> nat \<Rightarrow> bool \<Rightarrow> pca_shared \<Rightarrow> dio_error option \<times> pca_shared" where
  "write_do contended now idx on s =
     (if idx \<ge> 16 then (Some DioIo, s) else if \<not> worker_alive now s then (Some DioIo, s)
      else submit_output contended (\<lambda>cur. if on then cur OR push_bit idx 1 else cur AND NOT (push_bit idx 1)) s)"

definition read_do_cached :: "pca_shared \<Rightarrow> u64" where "read_do_cached s = load_bits (pc_do_desired s)"

definition read_do_actual :: "u32 \<Rightarrow> pca_shared \<Rightarrow> dio_error + u64" where
  "read_do_actual now s =
     (if \<not> worker_alive now s then Inl DioIo
      else if \<not> sample_is_fresh (pc_do_valid s) now (pc_do_readback_ms s) (pc_do_failures s) then Inl DioIo
      else Inr (load_bits (pc_do_hardware s)))"

definition set_bt_lamp :: "bool \<Rightarrow> pca_shared \<Rightarrow> pca_shared" where
  "set_bt_lamp connected s = s\<lparr>pc_status_led := ucast (with_status_led (ucast (pc_status_led s)) 0xFD connected)\<rparr>"

definition set_port_leds :: "bool \<times> bool \<Rightarrow> bool \<times> bool \<Rightarrow> pca_shared \<Rightarrow> pca_shared" where
  "set_port_leds rs485 fiber s =
     s\<lparr>pc_status_led := ucast (with_fiber_leds (with_rs485_leds (ucast (pc_status_led s)) rs485) fiber)\<rparr>"

definition read_di :: "u32 \<Rightarrow> nat \<Rightarrow> pca_shared \<Rightarrow> dio_error + bool" where
  "read_di now idx s =
     (if idx \<ge> 16 then Inl DioIo
      else case read_di_all now s of Inl e \<Rightarrow> Inl e | Inr bits \<Rightarrow> Inr (bits AND push_bit idx 1 \<noteq> 0))"

end
