(* ===== verification/Pca_Bus.thy ===== *)
theory Pca_Bus imports Pca9555 begin

text \<open>
  The two buses of the expanders: every pass of the worker leaves them free, whatever fails, and what the
  transactions of \<open>src/hal/pca9555.rs\<close> put on the wire, channel by channel.
\<close>

section \<open>Every transaction gives the bus back\<close>

lemma bytes_acked_flags [simp]: "ib_in_tx (snd (bytes_acked p xs b)) = ib_in_tx b" "ib_lock (snd (bytes_acked p xs b)) = ib_lock b"
  by (induction xs arbitrary: b) (auto simp: Let_def split: prod.split if_split dest: arg_cong [of _ _ "\<lambda>x. ib_in_tx (snd x)"]
      arg_cong [of _ _ "\<lambda>x. ib_lock (snd x)"])

lemma transactions_release:
  "bus_free (snd (pca_write_reg p a r d b))" "bus_free (snd (pca_write_regs2 p a r ds b))"
  "bus_free (snd (pca_read_reg p a r b))" "bus_free (snd (pca_read_regs2 p a r b))"
  by (simp_all add: pca_write_reg_def pca_write_regs2_def pca_read_reg_def pca_read_regs2_def Let_def case_prod_unfold)

lemma sample_banks_release: "bus_free b \<Longrightarrow> bus_free (snd (sample_banks p i addrs acc b))"
proof (induction addrs arbitrary: i acc b)
  case (Cons addr addrs)
  then show ?case using transactions_release(4) [of p addr 0 b] by (auto simp: Let_def split: prod.split option.split)
qed simp

lemma write_banks_release: "bus_free b \<Longrightarrow> bus_free (snd (write_banks p i addrs v b))"
proof (induction addrs arbitrary: i b)
  case (Cons addr addrs)
  then show ?case
    using transactions_release(2) [of p addr 2 "[fst (do_bytes i v), snd (do_bytes i v)]" b] by (simp add: Let_def case_prod_unfold)
qed simp

lemma read_banks_release: "bus_free b \<Longrightarrow> bus_free (snd (read_banks p i addrs r b))"
proof (induction addrs arbitrary: i r b)
  case (Cons addr addrs)
  then show ?case using transactions_release(4) [of p addr 2 b] by (auto split: prod.split option.split)
qed simp

lemma bus_phases_release:
  "bus_free b \<Longrightarrow> bus_free (snd (worker_sample_di p b))" "bus_free b \<Longrightarrow> bus_free (snd (worker_write_do p v b))"
  "bus_free b \<Longrightarrow> bus_free (snd (worker_read_do p b))"
  by (simp_all add: worker_sample_di_def worker_write_do_def worker_read_do_def sample_banks_release write_banks_release
      read_banks_release del: sample_banks.simps write_banks.simps read_banks.simps)

lemma write_verified_release: "bus_free b \<Longrightarrow> bus_free (snd (write_verified p v b))"
  using bus_phases_release(2) [of b p v] bus_phases_release(3) [of _ p]
  by (auto simp: write_verified_def split: prod.split bool.split option.split) (metis snd_conv)+

lemma mirror_lamps_release: "bus_free b \<Longrightarrow> bus_free (snd (snd (snd (mirror_lamps q i addrs want shown (f, e, b)))))"
proof (induction addrs arbitrary: i shown f e b)
  case (Cons addr addrs)
  obtain ok b1 where w: "pca_write_regs2 q addr 2 [fst (want ! i), snd (want ! i)] b = (ok, b1)" by (rule prod.exhaust)
  have "bus_free b1" using transactions_release(2) [of q addr 2 "[fst (want ! i), snd (want ! i)]" b] w by simp
  then show ?case using Cons w by (cases ok) auto
qed simp

definition buses_free :: "'d pca_worker \<Rightarrow> bool" where
  "buses_free w \<longleftrightarrow> bus_free (pw_io w) \<and> bus_free (pw_led w)"

lemma on_shared_buses [simp]: "pw_io (on_shared f w) = pw_io w" "pw_led (on_shared f w) = pw_led w"
  by (simp_all add: on_shared_def)

lemma mirror_release:
  assumes "bus_free b" and "mirror_lamps q i addrs want shown (f, e, b) = (shown', f', e', b')"
  shows "bus_free b'"
  using mirror_lamps_release [OF assms(1), of q i addrs want shown f e] assms(2) by simp

lemma di_phase_release:
  assumes "buses_free w"
  shows "buses_free (snd (snd (di_phase p q now due w)))"
proof -
  obtain r io where d: "worker_sample_di p (pw_io w) = (r, io)" by (rule prod.exhaust)
  have io: "bus_free io" using assms bus_phases_release(1) [of "pw_io w" p] d by (simp add: buses_free_def)
  show ?thesis
  proof (cases r)
    case None
    then show ?thesis using assms io d by (simp add: di_phase_def buses_free_def)
  next
    case (Some br)
    obtain bits raw where br: "br = (bits, raw)" by (rule prod.exhaust)
    let ?w = "on_shared (publish_di now bits) (w\<lparr>pw_io := io\<rparr>)"
    obtain shown failed errors led where m: "mirror_lamps q 0 DI_LED_ADDRS raw (pw_di_led ?w) (False, pc_led_errors (pw_shared ?w), pw_led ?w) =
        (shown, failed, errors, led)" by (metis prod.exhaust)
    have "bus_free led" using assms by (intro mirror_release [OF _ m]) (simp add: buses_free_def)
    then show ?thesis using assms io d m Some br
      by (simp add: di_phase_def buses_free_def Let_def del: mirror_lamps.simps)
  qed
qed

lemma write_verified_bus: "bus_free b \<Longrightarrow> write_verified p v b = (r, b') \<Longrightarrow> bus_free b'"
  using write_verified_release [of b p v] by simp

lemma read_do_bus: "bus_free b \<Longrightarrow> worker_read_do p b = (r, b') \<Longrightarrow> bus_free b'"
  using bus_phases_release(3) [of b p] by simp

lemma late_submits_buses [simp]: "buses_free (late_submits late w) = buses_free w" "pw_io (late_submits late w) = pw_io w"
    "pw_led (late_submits late w) = pw_led w" "pw_led_retry_at (late_submits late w) = pw_led_retry_at w"
  by (simp_all add: late_submits_def buses_free_def on_shared_def)

lemma serve_output_release:
  assumes "buses_free w"
  shows "buses_free (snd (serve_output p now late c w))"
proof -
  obtain r io where v: "write_verified p (oc_bits c) (pw_io w) = (r, io)" by (rule prod.exhaust)
  have "bus_free io" using assms by (intro write_verified_bus [OF _ v]) (simp add: buses_free_def)
  then show ?thesis using assms v by (cases r) (simp_all add: serve_output_def buses_free_def)
qed

lemma read_or_rewrite_bus:
  assumes "bus_free b"
  shows "bus_free (snd (read_or_rewrite p t b))"
proof -
  obtain r b1 where v: "worker_read_do p b = (r, b1)" by (rule prod.exhaust)
  have "bus_free b1" using assms v by (rule read_do_bus)
  then show ?thesis using v write_verified_release [of b1 p t] by (cases r) (simp_all add: read_or_rewrite_def)
qed

lemma check_outputs_release:
  assumes "buses_free w"
  shows "buses_free (snd (check_outputs p now late w))"
proof -
  obtain r io where v: "read_or_rewrite p (oc_bits (oq_latest (pc_outputs (pw_shared w)))) (pw_io w) = (r, io)" by (rule prod.exhaust)
  have "bus_free io" using assms v read_or_rewrite_bus [of "pw_io w" p "oc_bits (oq_latest (pc_outputs (pw_shared w)))"] by (simp add: buses_free_def)
  then show ?thesis using assms v by (cases r) (simp_all add: check_outputs_def buses_free_def)
qed

lemma do_phase_release: "buses_free w \<Longrightarrow> buses_free (snd (do_phase p now late w))"
  using serve_output_release [of "on_shared after_fault w" p now late] check_outputs_release [of "on_shared after_fault w" p now late]
  by (auto simp: do_phase_def Let_def buses_free_def split: option.split)

lemma do_lamp_release:
  assumes "buses_free w"
  shows "buses_free (snd (do_lamp_phase q due w))"
proof -
  let ?a = "load_bits (pc_do_hardware (pw_shared w))"
  obtain shown failed errors led where m: "mirror_lamps q 0 DO_LED_ADDRS (map (do_lamp ?a) [0..<length DO_LED_ADDRS]) (pw_do_led w)
      (False, pc_led_errors (pw_shared w), pw_led w) = (shown, failed, errors, led)" by (metis prod.exhaust)
  have "bus_free led" using assms by (intro mirror_release [OF _ m]) (simp add: buses_free_def)
  then show ?thesis using assms m by (simp add: do_lamp_phase_def buses_free_def Let_def del: mirror_lamps.simps)
qed

lemma status_release:
  assumes "buses_free w"
  shows "buses_free (snd (status_phase q due w))"
proof -
  obtain ok led where m: "pca_write_reg q STATUS_LED_ADDR REG_OUTPUT_0 (ucast (pc_status_led (pw_shared w))) (pw_led w) = (ok, led)"
    by (rule prod.exhaust)
  have "bus_free led" using transactions_release(1) [of q STATUS_LED_ADDR REG_OUTPUT_0 "ucast (pc_status_led (pw_shared w))" "pw_led w"] m
    by simp
  then show ?thesis using assms m by (simp add: status_phase_def buses_free_def Let_def split: bool.split)
qed

text \<open>A pass leaves the pins free for the other users of the bus, whatever failed in it.\<close>

lemma worker_pass_release:
  fixes w :: "'d pca_worker"
  assumes "buses_free w"
  shows "buses_free (worker_pass p q now late w)"
proof -
  let ?w = "on_shared (\<lambda>s. s\<lparr>pc_heartbeat_ms := of_nat now\<rparr>) w" and ?due = "now \<ge> pw_led_retry_at w"
  obtain io1 f1 w1 where d: "di_phase p q (of_nat now) ?due ?w = (io1, f1, w1)" by (metis prod.exhaust)
  obtain io2 w2 where o: "do_phase p now late w1 = (io2, w2)" by (rule prod.exhaust)
  obtain f2 w3 where l: "do_lamp_phase q ?due w2 = (f2, w3)" by (rule prod.exhaust)
  obtain f3 w4 where t: "status_phase q ?due w3 = (f3, w4)" by (rule prod.exhaust)
  have "buses_free ?w" using assms by (simp add: buses_free_def)
  then have "buses_free w4"
    using di_phase_release [of ?w p q "of_nat now" ?due] do_phase_release [of w1 p now late] do_lamp_release [of w2 q ?due]
      status_release [of w3 q ?due] d o l t by simp
  moreover have "pw_led_retry_at ?w = pw_led_retry_at w" "pw_io_retry_at ?w = pw_io_retry_at w" by (simp_all add: on_shared_def)
  ultimately show ?thesis using d o l t assms by (simp add: worker_pass_def Let_def buses_free_def)
qed

section \<open>Channels on the wire\<close>

lemma reverse_loop_bits: "n \<le> 8 \<Longrightarrow> reverse_loop n r x = foldl (\<lambda>v a. add_bit a v) r (map (bit x) [0..<n])"
proof (induction n arbitrary: r x)
  case (Suc n)
  have a: "push_bit 1 r OR (x AND 1) = add_bit (bit x 0) r"
    by (simp add: add_bit_def and_one_eq odd_iff_mod_2_eq_one bit_0)
  have "map (bit (drop_bit 1 x)) [0..<n] = map (bit x) [Suc 0..<Suc n]"
    unfolding map_Suc_upt [symmetric] map_map by (simp add: bit_drop_bit_eq comp_def)
  then show ?case using Suc by (simp only: reverse_loop.simps a) (simp add: upt_conv_Cons del: upt_Suc)
qed simp

lemma byte_bits_inj: "byte_bits x = byte_bits y \<Longrightarrow> x = y"
  by (metis bits_byte_byte_bits)

lemma byte_bits_eight: "length as = 8 \<Longrightarrow> byte_bits (bits_byte as) = as"
  by (auto simp: byte_list bits_byte_def bit_add_bit numeral_eq_Suc length_Suc_conv)

lemma byte_bits_reverse: "byte_bits (bit_reverse x) = rev (byte_bits x)"
proof -
  have "byte_bits (bit_reverse x) = map (bit x) [0..<8]"
    using byte_bits_eight [of "map (bit x) [0..<8]"] by (simp add: bit_reverse_def reverse_loop_bits bits_byte_def del: upt_rec_numeral)
  moreover have "[0..<8] = [0, 1, 2, 3, 4, 5, 6, 7 :: nat]" by (simp add: upt_rec)
  ultimately show ?thesis by (simp add: byte_list)
qed

text \<open>A device that is idle, and the bytes it acknowledges one by one.\<close>

definition line_idle :: "listener \<Rightarrow> bool" where
  "line_idle d \<longleftrightarrow> li_sda d \<and> li_scl d \<and> li_driven d"

definition expecting :: "bool list \<Rightarrow> listener i2c_bus \<Rightarrow> listener i2c_bus" where
  "expecting as = on_dev (\<lambda>d. d\<lparr>li_answers := as\<rparr>)"

definition wire_bytes :: "u8 list \<Rightarrow> line_event list" where
  "wire_bytes xs = concat (map (\<lambda>x. map LineBit (byte_bits x) @ [LineBit False]) xs)"

lemma dev_of_steps [simp]: "ib_dev (i2c_start p b) = start_pins p (ib_dev b)" "ib_dev (i2c_stop p b) = stop_pins p (ib_dev b)"
  "i2c_write_byte p x b = (fst (write_pins p x (ib_dev b)), on_dev (\<lambda>_. snd (write_pins p x (ib_dev b))) b)"
  "i2c_read_byte p a b = (fst (read_pins p a (ib_dev b)), on_dev (\<lambda>_. snd (read_pins p a (ib_dev b))) b)"
  "ib_dev (on_dev f b) = f (ib_dev b)"
  by (simp_all add: i2c_start_def i2c_stop_def i2c_write_byte_def i2c_read_byte_def on_dev_def acquire_bus_def release_bus_def
      case_prod_unfold Let_def)

lemma start_listener_dev: "li_sda d \<Longrightarrow> li_driven d \<Longrightarrow> start_pins listener_pins d =
    d\<lparr>li_sda := False, li_scl := False, li_seen := li_seen d @ (if li_scl d then [LineStart] else [LineBit True, LineStart])\<rparr>"
  by (cases d) (simp add: start_pins_def Let_def sda_write_def delay_half_def li_change_def)

lemma stop_listener_dev: "\<not> li_scl d \<Longrightarrow> li_driven d \<Longrightarrow> stop_pins listener_pins d =
    d\<lparr>li_sda := True, li_scl := True, li_seen := li_seen d @ [LineBit False, LineStop]\<rparr>"
  by (cases d) (simp add: stop_pins_def Let_def sda_write_def delay_half_def li_change_def)

lemma bytes_acked_listener:
  assumes "\<not> li_scl (ib_dev b)" and "li_answers (ib_dev b) = replicate (Suc (length xs)) False @ rest"
  shows "bytes_acked listener_pins (x # xs) b = (True, on_dev (\<lambda>d. d\<lparr>li_sda := True, li_driven := True, li_answers := rest,
      li_seen := li_seen d @ wire_bytes (x # xs)\<rparr>) b)"
  using assms
proof (induction xs arbitrary: x b)
  case Nil
  then show ?case by (simp add: write_listener answer_of_def wire_bytes_def on_dev_def)
next
  case (Cons y xs)
  let ?b = "on_dev (\<lambda>_. snd (write_pins listener_pins x (ib_dev b))) b"
  have "bytes_acked listener_pins (x # y # xs) b = bytes_acked listener_pins (y # xs) ?b"
    using Cons.prems by (simp add: write_listener answer_of_def del: bytes_acked.simps(2)) (simp add: write_listener answer_of_def)
  moreover have "bytes_acked listener_pins (y # xs) ?b = (True, on_dev (\<lambda>d. d\<lparr>li_sda := True, li_driven := True, li_answers := rest,
      li_seen := li_seen d @ wire_bytes (y # xs)\<rparr>) ?b)"
    using Cons.prems by (intro Cons.IH) (simp_all add: write_listener)
  ultimately show ?case using Cons.prems by (simp add: write_listener answer_of_def wire_bytes_def on_dev_def)
qed

lemma regs2_written:
  assumes "line_idle (ib_dev b)"
  shows "\<exists>b'. pca_write_regs2 listener_pins a r [x, y] (expecting (replicate 4 False @ rest) b) = (True, b') \<and>
    li_seen (ib_dev b') = li_seen (ib_dev b) @ LineStart # wire_bytes [a, r, x, y] @ [LineBit False, LineStop] \<and>
    line_idle (ib_dev b') \<and> li_answers (ib_dev b') = rest"
proof -
  let ?b = "i2c_start listener_pins (expecting (replicate 4 False @ rest) b)"
  have "\<not> li_scl (ib_dev ?b)" "li_answers (ib_dev ?b) = replicate (Suc (length [r, x, y])) False @ rest"
    using assms by (simp_all add: line_idle_def expecting_def start_listener_dev numeral_eq_Suc)
  then have "bytes_acked listener_pins [a, r, x, y] ?b = (True, on_dev (\<lambda>d. d\<lparr>li_sda := True, li_driven := True, li_answers := rest,
      li_seen := li_seen d @ wire_bytes [a, r, x, y]\<rparr>) ?b)" by (rule bytes_acked_listener)
  then show ?thesis using assms
    by (simp add: pca_write_regs2_def line_idle_def expecting_def start_listener_dev stop_listener_dev del: bytes_acked.simps)
qed

lemma eight_answers: "length as = 8 \<Longrightarrow> answers 8 (as @ rest) = as \<and> (tl ^^ 8) (as @ rest) = rest"
  by (auto simp: numeral_eq_Suc length_Suc_conv answer_of_def)

lemma regs2_read:
  assumes "line_idle (ib_dev b)" and "length lo = 8" and "length hi = 8"
  shows "\<exists>b'. pca_read_regs2 listener_pins a r (expecting ([False, False, False] @ lo @ hi @ rest) b) = (Some (bits_byte lo, bits_byte hi), b') \<and>
    li_seen (ib_dev b') = li_seen (ib_dev b) @ LineStart # wire_bytes [a, r] @ [LineBit True, LineStart] @ wire_bytes [a OR 1] @
      map LineBit lo @ [LineBit False] @ map LineBit hi @ [LineBit True, LineBit False, LineStop] \<and>
    line_idle (ib_dev b') \<and> li_answers (ib_dev b') = rest"
proof -
  let ?s = "li_seen (ib_dev b) @ [LineStart]" and ?r = "[False] @ lo @ hi @ rest"
  obtain b1 where b1: "b1 = i2c_start listener_pins (expecting (False # False # False # lo @ hi @ rest) b)" by blast
  have d1: "\<not> li_scl (ib_dev b1)" "li_answers (ib_dev b1) = replicate (Suc (length [r])) False @ ?r" "li_seen (ib_dev b1) = ?s"
    using assms(1) by (simp_all add: b1 line_idle_def expecting_def start_listener_dev)
  obtain b2 where b2: "bytes_acked listener_pins [a, r] b1 = (True, b2)" and d2: "\<not> li_scl (ib_dev b2)" "li_sda (ib_dev b2)"
      "li_driven (ib_dev b2)" "li_answers (ib_dev b2) = ?r" "li_seen (ib_dev b2) = ?s @ wire_bytes [a, r]"
    using bytes_acked_listener [OF d1(1,2), of a] d1 by simp
  obtain b3 where b3: "b3 = i2c_start listener_pins b2" by blast
  have d3: "\<not> li_scl (ib_dev b3)" "li_answers (ib_dev b3) = replicate (Suc (length ([] :: u8 list))) False @ lo @ hi @ rest"
      "li_seen (ib_dev b3) = ?s @ wire_bytes [a, r] @ [LineBit True, LineStart]"
    using d2 by (simp_all add: b3 start_listener_dev)
  obtain b4 where b4: "bytes_acked listener_pins [a OR 1] b3 = (True, b4)" and d4: "\<not> li_scl (ib_dev b4)"
      "li_answers (ib_dev b4) = lo @ hi @ rest" "li_seen (ib_dev b4) = ?s @ wire_bytes [a, r] @ [LineBit True, LineStart] @ wire_bytes [a OR 1]"
    using bytes_acked_listener [OF d3(1,2), of "a OR 1"] d3 by simp
  have d5: "read_pins listener_pins True (ib_dev b4) = (bits_byte lo, (ib_dev b4)\<lparr>li_sda := True, li_driven := True, li_answers := hi @ rest,
      li_seen := li_seen (ib_dev b4) @ map LineBit lo @ [LineBit False]\<rparr>)"
    using d4 eight_answers [OF assms(2), of "hi @ rest"] by (simp add: read_listener)
  show ?thesis using assms d4 eight_answers [OF assms(3), of rest]
    by (simp add: pca_read_regs2_def b1 [symmetric] b2 b3 [symmetric] b4 d5 read_listener stop_listener_dev line_idle_def
        del: bytes_acked.simps)
qed

lemma byte_bits_nth: "n < 8 \<Longrightarrow> byte_bits x ! n = bit x (7 - n)"
  by (simp add: byte_bits_def del: upt_rec_numeral)

lemma byte_bits_byte: "length as = 8 \<Longrightarrow> n < 8 \<Longrightarrow> bit (bits_byte as) n = as ! (7 - n)"
  using byte_bits_nth [of "7 - n" "bits_byte as"] by (simp add: byte_bits_eight)

lemma length_byte_bits [simp]: "length (byte_bits x) = 8"
  by (simp add: byte_bits_def del: upt_rec_numeral)

lemma bit_reverse_bit: "n < 8 \<Longrightarrow> bit (bit_reverse x) n = bit x (7 - n)"
proof -
  assume n: "n < 8"
  have "byte_bits (bit_reverse x) ! (7 - n) = rev (byte_bits x) ! (7 - n)" by (simp only: byte_bits_reverse)
  moreover have "rev (byte_bits x) ! (7 - n) = byte_bits x ! n" using n by (subst rev_nth) simp_all
  ultimately show ?thesis using n by (simp add: byte_bits_nth)
qed

lemma no_ninth_bit [simp]: "\<not> bit x (8 + n)" for x :: u8
  using bit_imp_le_length [of x "8 + n"] by auto

lemma upt_sixteen: "[0..<16] = [0..<8] @ map (\<lambda>n. 8 + n) [0..<8 :: nat]"
  using map_add_upt [of 8 8] upt_add_eq_append [of 0 8 8] by (simp add: add.commute comp_def del: upt_rec_numeral)

lemma bits_of_list: "length as = 8 \<Longrightarrow> (\<And>n. n < 8 \<Longrightarrow> f n = as ! n) \<Longrightarrow> map f [0..<8] = as"
  by (rule nth_equalityI) (simp_all del: upt_rec_numeral)

lemma sixteen_bits:
  assumes "length lo = 8" and "length hi = 8" and "\<And>n. n < 8 \<Longrightarrow> bit w n = lo ! n" and "\<And>n. n < 8 \<Longrightarrow> bit w (8 + n) = hi ! n"
  shows "map (bit w) [0..<16] = lo @ hi"
  using assms by (simp add: upt_sixteen comp_def bits_of_list del: upt_rec_numeral)

text \<open>The bytes of the outputs, and the words read.\<close>

lemma do_bytes_bits: "byte_bits (fst (do_bytes 0 v)) = map (bit v) [0..<8]" "byte_bits (snd (do_bytes 0 v)) = map (bit v) [8..<16]"
proof -
  have e: "[8..<16] = map (\<lambda>n. 8 + n) [0..<8 :: nat]" using map_add_upt [of 8 8] by (simp add: add.commute comp_def del: upt_rec_numeral)
  show "byte_bits (fst (do_bytes 0 v)) = map (bit v) [0..<8]"
    by (rule bits_of_list [symmetric]) (simp_all add: do_bytes_def Let_def byte_bits_nth bit_reverse_bit bit_simps del: upt_rec_numeral)
  show "byte_bits (snd (do_bytes 0 v)) = map (bit v) [8..<16]"
    unfolding e map_map
    by (rule bits_of_list [symmetric]) (simp_all add: do_bytes_def Let_def byte_bits_nth bit_reverse_bit bit_simps del: upt_rec_numeral)
qed

lemma output_bits:
  assumes "length lo = 8" and "length hi = 8"
  shows "map (bit (join_do 0 (bits_byte lo, bits_byte hi))) [0..<16] = lo @ hi"
  by (rule sixteen_bits [OF assms]) (simp_all add: assms join_do_def bit_simps bit_reverse_bit byte_bits_byte)

lemma input_bits:
  assumes "length lo = 8" and "length hi = 8"
  shows "map (bit (ucast (NOT (bits_byte lo)) OR push_bit 8 (ucast (bit_reverse (bits_byte hi) XOR 0xFF)) :: u64)) [0..<16] =
    map Not (rev lo @ hi)"
proof -
  have m: "(0xFF :: u8) = - 1" by simp
  have "y XOR 0xFF = NOT y" for y :: u8 unfolding m by simp
  then show ?thesis using assms unfolding map_append
    by (intro sixteen_bits) (simp_all add: bit_simps bit_reverse_bit byte_bits_byte rev_nth)
qed

text \<open>The channels go over the wire as they are numbered.  Writing the outputs is one transaction to the chip 0x42,
  from register 2 on, with the sixteen channels in ascending order; reading them back takes the bits in the same order, so a chip
  that answers what it was sent answers the value written.  An input is on when its line is low; the first eight
  inputs arrive in descending order, the others in ascending order.\<close>

theorem channels_cross_the_wire:
  assumes "line_idle (ib_dev b)" and "length lo = 8" and "length hi = 8"
  shows "(\<exists>b' x y. worker_write_do listener_pins v (expecting (replicate 4 False) b) = (True, b') \<and>
      byte_bits x @ byte_bits y = map (bit v) [0..<16] \<and> line_idle (ib_dev b') \<and>
      li_seen (ib_dev b') = li_seen (ib_dev b) @ LineStart # wire_bytes [0x42, 2, x, y] @ [LineBit False, LineStop]) \<and>
    (\<exists>b' w. worker_read_do listener_pins (expecting ([False, False, False] @ lo @ hi) b) = (Some w, b') \<and>
      map (bit w) [0..<16] = lo @ hi \<and> line_idle (ib_dev b')) \<and>
    (\<exists>b' w. worker_sample_di listener_pins (expecting ([False, False, False] @ lo @ hi) b) = (Some (w, [(bits_byte lo, bits_byte hi)]), b') \<and>
      map (bit w) [0..<16] = map Not (rev lo @ hi) \<and> line_idle (ib_dev b'))"
proof (intro conjI)
  let ?x = "fst (do_bytes 0 v)" and ?y = "snd (do_bytes 0 v)"
  have "[0..<16] = [0..<8] @ [8..<16 :: nat]" using upt_add_eq_append [of 0 8 8] by (simp del: upt_rec_numeral)
  then have "byte_bits ?x @ byte_bits ?y = map (bit v) [0..<16]" by (simp add: do_bytes_bits del: upt_rec_numeral)
  then show "\<exists>b' x y. worker_write_do listener_pins v (expecting (replicate 4 False) b) = (True, b') \<and>
      byte_bits x @ byte_bits y = map (bit v) [0..<16] \<and> line_idle (ib_dev b') \<and>
      li_seen (ib_dev b') = li_seen (ib_dev b) @ LineStart # wire_bytes [0x42, 2, x, y] @ [LineBit False, LineStop]"
    using regs2_written [OF assms(1), where a = "0x42" and r = 2 and x = ?x and y = ?y and rest = "[]"] by (fastforce simp: worker_write_do_def Let_def case_prod_unfold simp del: upt_rec_numeral)
next
  obtain b' where r: "pca_read_regs2 listener_pins 0x42 2 (expecting ([False, False, False] @ lo @ hi) b) = (Some (bits_byte lo, bits_byte hi), b')"
      "line_idle (ib_dev b')"
    using regs2_read [OF assms, of "0x42" 2 "[]"] by auto
  then show "\<exists>b' w. worker_read_do listener_pins (expecting ([False, False, False] @ lo @ hi) b) = (Some w, b') \<and>
      map (bit w) [0..<16] = lo @ hi \<and> line_idle (ib_dev b')"
    using output_bits [OF assms(2,3)] by (intro exI [of _ b'] exI) (auto simp: worker_read_do_def simp del: upt_rec_numeral)
next
  obtain b' where r: "pca_read_regs2 listener_pins 0x40 0 (expecting ([False, False, False] @ lo @ hi) b) = (Some (bits_byte lo, bits_byte hi), b')"
      "line_idle (ib_dev b')"
    using regs2_read [OF assms, of "0x40" 0 "[]"] by auto
  then show "\<exists>b' w. worker_sample_di listener_pins (expecting ([False, False, False] @ lo @ hi) b) = (Some (w, [(bits_byte lo, bits_byte hi)]), b') \<and>
      map (bit w) [0..<16] = map Not (rev lo @ hi) \<and> line_idle (ib_dev b')"
    using input_bits [OF assms(2,3)] by (intro exI [of _ b'] exI) (auto simp: worker_sample_di_def Let_def simp del: upt_rec_numeral)
qed

text \<open>The bus of a device that only listens.\<close>

definition listening_bus :: "listener i2c_bus" where
  "listening_bus = \<lparr>ib_lock = False, ib_in_tx = False,
     ib_dev = \<lparr>li_sda = True, li_scl = True, li_driven = True, li_answers = [], li_seen = []\<rparr>\<rparr>"

theorem channels_cross_the_wire_witness:
  "\<exists>b' x y. worker_write_do listener_pins 0x8003 (expecting (replicate 4 False) listening_bus) = (True, b') \<and>
     byte_bits x @ byte_bits y = map (bit (0x8003 :: u64)) [0..<16] \<and>
     li_seen (ib_dev b') = LineStart # wire_bytes [0x42, 2, x, y] @ [LineBit False, LineStop]"
  using channels_cross_the_wire [of listening_bus "replicate 8 False" "replicate 8 False" "0x8003"]
  by (auto simp: listening_bus_def line_idle_def simp del: upt_rec_numeral)

end
