(* ===== verification/Pca_Outputs.thy ===== *)
theory Pca_Outputs imports Pca_Bus begin

text \<open>
  What the tasks may rely on while the worker of \<open>src/hal/pca9555.rs\<close> runs: the reachable states of worker
  and callers, the free buses between passes, and the value an output task reads back.
\<close>

section \<open>Runs\<close>

text \<open>The calls of the other tasks between two passes.\<close>

datatype dio_call = WriteAll bool u32 u64 | WriteOne bool u32 nat bool | BtLamp bool | PortLamps "bool \<times> bool" "bool \<times> bool"

fun run_call :: "dio_call \<Rightarrow> pca_shared \<Rightarrow> pca_shared" where
  "run_call (WriteAll contended now v) s = snd (write_do_all contended now v s)"
| "run_call (WriteOne contended now i on) s = snd (write_do contended now i on s)"
| "run_call (BtLamp on) s = set_bt_lamp on s"
| "run_call (PortLamps r f) s = set_port_leds r f s"

inductive expander_reachable :: "'d pins \<Rightarrow> 'd pins \<Rightarrow> 'd pca_worker \<Rightarrow> bool" for p q where
  start: "bus_free io \<Longrightarrow> bus_free led \<Longrightarrow> expander_reachable p q (pca_init p q now io led)"
| pass: "expander_reachable p q w \<Longrightarrow> expander_reachable p q (worker_pass p q now late w)"
| call: "expander_reachable p q w \<Longrightarrow> expander_reachable p q (on_shared (run_call c) w)"

section \<open>The buses are given back\<close>

lemma init_release: "bus_free io \<Longrightarrow> bus_free led \<Longrightarrow> buses_free (pca_init p q now io led)"
  by (simp add: pca_init_def buses_free_def Let_def transactions_release case_prod_unfold)

text \<open>Between two passes of the worker the lock of both pairs of pins is free, whatever the chips answered and
  wherever a transaction failed, so the tag reader and the expanders, which share the pins, never lock each other out.\<close>

theorem buses_are_given_back:
  assumes "expander_reachable p q w"
  shows "bus_free (pw_io w) \<and> bus_free (pw_led w)"
proof -
  from assms have "buses_free w"
  proof induction
    case (call w c)
    then show ?case by (simp add: buses_free_def)
  qed (simp_all add: init_release worker_pass_release)
  then show ?thesis by (simp add: buses_free_def)
qed

section \<open>The outputs\<close>

text \<open>A value of the outputs that the chip returned once.\<close>

definition chip_said :: "'d pins \<Rightarrow> u64 \<Rightarrow> bool" where
  "chip_said p v \<longleftrightarrow> (\<exists>b b'. worker_read_do p b = (Some v, b'))"

definition outputs_ok :: "'d pins \<Rightarrow> pca_shared \<Rightarrow> bool" where
  "outputs_ok p s \<longleftrightarrow> oq_wf (pc_outputs s) \<and> load_bits (pc_do_desired s) = oc_bits (oq_latest (pc_outputs s)) \<and>
     (if pc_do_valid s then chip_said p (load_bits (pc_do_hardware s)) \<and>
        (oq_list (pc_outputs s) = [] \<longrightarrow> load_bits (pc_do_hardware s) = oc_bits (oq_latest (pc_outputs s)))
      else True)"

text \<open>The values that matter; the other fields may change.\<close>

lemma outputs_ok_cong:
  "pc_outputs s' = pc_outputs s \<Longrightarrow> pc_do_desired s' = pc_do_desired s \<Longrightarrow> pc_do_hardware s' = pc_do_hardware s \<Longrightarrow>
    pc_do_valid s' = pc_do_valid s \<Longrightarrow> outputs_ok p s' = outputs_ok p s"
  by (simp add: outputs_ok_def)

lemma submit_cases:
  assumes "oq_wf q" and "submit v q = (ok, q')"
  shows "oq_wf q' \<and> (if ok then oc_bits (oq_latest q') = v else oq_latest q' = oq_latest q) \<and>
    (oq_list q' = [] \<longrightarrow> oq_latest q' = oq_latest q \<and> oq_list q = [])"
proof (cases "v = oc_bits (oq_latest q)")
  case True
  then show ?thesis using assms by (auto simp: submit_def)
next
  case new: False
  let ?c = "\<lparr>oc_generation = oc_generation (oq_latest q) + 1, oc_bits = v\<rparr>"
  have s: "push_command ?c q = (ok, q')" using assms(2) new by (simp add: submit_def)
  show ?thesis
  proof (cases "oq_len q = 32")
    case True
    then have "\<not> ok" "oq_latest q' = oq_latest q" using s by (auto simp: push_command_def)
    moreover have "oq_wf q'" "oq_list q' = oq_list q" using push_command_full [OF True assms(1), of ?c] s by simp_all
    ultimately show ?thesis using True by (simp add: oq_list_empty)
  next
    case False
    then have "oq_len q < 32" using assms(1) by (simp add: oq_wf_def)
    then show ?thesis using push_command_list [OF assms(1), of ?c] s by simp
  qed
qed

lemma submit_output_ok:
  assumes "outputs_ok p s"
  shows "outputs_ok p (snd (submit_output contended f s))"
proof (cases contended)
  case True
  then show ?thesis using assms by (simp add: submit_output_def outputs_ok_def)
next
  case False
  let ?v = "f (oc_bits (oq_latest (pc_outputs s)))"
  obtain ok q where q: "submit ?v (pc_outputs s) = (ok, q)" by (rule prod.exhaust)
  have "oq_wf (pc_outputs s)" using assms by (simp add: outputs_ok_def)
  note c = submit_cases [OF this q]
  show ?thesis using False q c assms by (cases ok) (auto simp: submit_output_def outputs_ok_def Let_def)
qed

lemma late_outputs_ok: "outputs_ok p (pw_shared w) \<Longrightarrow> outputs_ok p (pw_shared (late_submits late w))"
proof -
  have "outputs_ok p s \<Longrightarrow> outputs_ok p (fold (\<lambda>f s. snd (submit_output False f s)) late s)" for s
    by (induction late arbitrary: s) (simp_all add: submit_output_ok)
  then show "outputs_ok p (pw_shared w) \<Longrightarrow> ?thesis" by (simp add: late_submits_def on_shared_def)
qed

text \<open>Publishing a value that the chip returned and that no pending command changes.\<close>

lemma publish_ok:
  assumes "outputs_ok p s" and "chip_said p v" and "oq_list (pc_outputs s) = [] \<Longrightarrow> v = oc_bits (oq_latest (pc_outputs s))"
  shows "outputs_ok p (publish_do_readback now v s)"
  using assms by (simp add: outputs_ok_def publish_do_readback_def)

lemma after_fault_ok: "outputs_ok p s \<Longrightarrow> outputs_ok p (after_fault s)"
  using retain_latest_list [of "pc_outputs s"]
  by (auto simp: after_fault_def outputs_ok_def oq_list_empty retain_latest_after_fault_def split: if_splits)

lemma do_failed_ok: "outputs_ok p s \<Longrightarrow> outputs_ok p (do_failed s)"
  by (simp add: outputs_ok_def do_failed_def)

lemma write_verified_said:
  assumes "write_verified p v b = (Some a, b')"
  shows "a = v \<and> chip_said p v"
  using assms by (auto simp: write_verified_def chip_said_def split: prod.splits bool.splits option.splits if_splits)

lemma read_or_rewrite_said:
  assumes "read_or_rewrite p v b = (Some a, b')"
  shows "a = v \<and> chip_said p v"
  using assms write_verified_said [of p v]
  by (auto simp: read_or_rewrite_def chip_said_def split: prod.splits option.splits if_splits)

lemma publish_after:
  assumes "outputs_ok p s" and "chip_said p v"
    and "oq_list (snd (confirm c (pc_outputs s))) = [] \<Longrightarrow> v = oc_bits (oq_latest (pc_outputs s))"
  shows "outputs_ok p ((publish_do_readback now v s)\<lparr>pc_do_failures := 0, pc_do_confirmed := g,
    pc_outputs := snd (confirm c (pc_outputs s))\<rparr>)"
proof -
  have wf: "oq_wf (pc_outputs s)" using assms(1) by (simp add: outputs_ok_def)
  have "oq_wf (snd (confirm c (pc_outputs s))) \<and> oq_latest (snd (confirm c (pc_outputs s))) = oq_latest (pc_outputs s)"
    using confirm_list [OF wf, of c] wf by (cases "front (pc_outputs s) = Some c") (auto simp: confirm_def)
  then show ?thesis using assms by (simp add: outputs_ok_def publish_do_readback_def)
qed

text \<open>What is submitted meanwhile is put behind the command that is written.\<close>

lemma submit_front:
  assumes "oq_wf q" and "front q = Some c" and "submit v q = (ok, q')"
  shows "front q' = Some c"
proof (cases "v = oc_bits (oq_latest q)")
  case True
  then show ?thesis using assms by (simp add: submit_def)
next
  case new: False
  let ?c = "\<lparr>oc_generation = oc_generation (oq_latest q) + 1, oc_bits = v\<rparr>"
  have s: "push_command ?c q = (ok, q')" using assms(3) new by (simp add: submit_def)
  have l: "\<exists>cs. oq_list q = c # cs" using assms(1,2) front_list [OF assms(1)] by (cases "oq_list q") auto
  have "oq_wf q'" using submit_cases [OF assms(1,3)] by simp
  moreover have "\<exists>cs. oq_list q' = c # cs"
    using l s push_command_full [of q ?c] push_command_list [OF assms(1), of ?c] assms(1)
    by (cases "oq_len q = 32") (auto simp: oq_wf_def)
  ultimately show ?thesis by (auto simp: front_list)
qed

lemma late_front:
  assumes "outputs_ok p (pw_shared w)" and "front (pc_outputs (pw_shared w)) = Some c"
  shows "front (pc_outputs (pw_shared (late_submits late w))) = Some c"
proof -
  have "front (pc_outputs (fold (\<lambda>f s. snd (submit_output False f s)) late s)) = Some c"
    if "outputs_ok p s" "front (pc_outputs s) = Some c" for s
    using that
  proof (induction late arbitrary: s)
    case (Cons f late)
    let ?s = "snd (submit_output False f s)"
    obtain ok q where q: "submit (f (oc_bits (oq_latest (pc_outputs s)))) (pc_outputs s) = (ok, q)" by (rule prod.exhaust)
    have wf: "oq_wf (pc_outputs s)" using Cons.prems by (simp add: outputs_ok_def)
    have "pc_outputs ?s = q" using q by (simp add: submit_output_def Let_def)
    then have "front (pc_outputs ?s) = Some c" using submit_front [OF wf Cons.prems(2) q] by simp
    then show ?case using Cons.IH [of ?s] submit_output_ok [OF Cons.prems(1)] by simp
  qed simp
  then show ?thesis using assms by (simp add: late_submits_def on_shared_def)
qed

lemma late_idle:
  assumes "outputs_ok p (pw_shared w)" and "oq_list (pc_outputs (pw_shared (late_submits late w))) = []"
  shows "oq_latest (pc_outputs (pw_shared (late_submits late w))) = oq_latest (pc_outputs (pw_shared w))"
proof -
  have "oq_latest (pc_outputs (fold (\<lambda>f s. snd (submit_output False f s)) late s)) = oq_latest (pc_outputs s) \<and> oq_list (pc_outputs s) = []"
    if "outputs_ok p s" "oq_list (pc_outputs (fold (\<lambda>f s. snd (submit_output False f s)) late s)) = []" for s
    using that
  proof (induction late arbitrary: s)
    case (Cons f late)
    let ?s = "snd (submit_output False f s)"
    obtain ok q where q: "submit (f (oc_bits (oq_latest (pc_outputs s)))) (pc_outputs s) = (ok, q)" by (rule prod.exhaust)
    have wf: "oq_wf (pc_outputs s)" using Cons.prems by (simp add: outputs_ok_def)
    have s: "pc_outputs ?s = q" using q by (simp add: submit_output_def Let_def)
    have "oq_latest (pc_outputs (fold (\<lambda>f s. snd (submit_output False f s)) late ?s)) = oq_latest (pc_outputs ?s) \<and>
        oq_list (pc_outputs ?s) = []"
      using Cons.prems submit_output_ok [OF Cons.prems(1)] by (intro Cons.IH) simp_all
    then show ?case using submit_cases [OF wf q] s by simp
  qed simp
  then show ?thesis using assms by (simp add: late_submits_def on_shared_def)
qed

lemma serve_output_ok:
  assumes "outputs_ok p (pw_shared w)" and "front (pc_outputs (pw_shared w)) = Some c"
  shows "outputs_ok p (pw_shared (snd (serve_output p now late c w)))"
proof -
  let ?s = "pw_shared (late_submits late w)"
  have s: "outputs_ok p ?s" and f: "front (pc_outputs ?s) = Some c" using late_outputs_ok late_front assms by blast+
  have wf: "oq_wf (pc_outputs ?s)" using s by (simp add: outputs_ok_def)
  obtain r io where v: "write_verified p (oc_bits c) (pw_io w) = (r, io)" by (rule prod.exhaust)
  show ?thesis
  proof (cases r)
    case None
    then show ?thesis using v do_failed_ok [OF s] by (simp add: serve_output_def on_shared_def)
  next
    case (Some a)
    have a: "a = oc_bits c" "chip_said p a" using write_verified_said v Some by blast+
    have "a = oc_bits (oq_latest (pc_outputs ?s))" if "oq_list (snd (confirm c (pc_outputs ?s))) = []"
    proof -
      have "oq_list (pc_outputs ?s) = [c]" using confirm_list [OF wf f] that by simp
      then show ?thesis using wf a by (auto simp: oq_wf_def oq_list_empty [symmetric])
    qed
    then show ?thesis using v Some publish_after [OF s a(2)] by (simp add: serve_output_def on_shared_def)
  qed
qed

lemma check_outputs_ok:
  assumes "outputs_ok p (pw_shared w)"
  shows "outputs_ok p (pw_shared (snd (check_outputs p now late w)))"
proof -
  let ?s = "pw_shared (late_submits late w)" and ?t = "oc_bits (oq_latest (pc_outputs (pw_shared w)))"
  have s: "outputs_ok p ?s" using late_outputs_ok assms by blast
  obtain r io where v: "read_or_rewrite p ?t (pw_io w) = (r, io)" by (rule prod.exhaust)
  show ?thesis
  proof (cases r)
    case None
    then show ?thesis using v do_failed_ok [OF s] by (simp add: check_outputs_def on_shared_def)
  next
    case (Some a)
    have a: "a = ?t" "chip_said p a" using read_or_rewrite_said v Some by blast+
    have "outputs_ok p (publish_do_readback (of_nat now) a ?s)"
      using late_idle [OF assms] a by (intro publish_ok [OF s a(2)]) simp
    then have "outputs_ok p ((publish_do_readback (of_nat now) a ?s)\<lparr>pc_do_failures := 0\<rparr>)" by (subst outputs_ok_cong) simp_all
    then show ?thesis using v Some by (simp add: check_outputs_def on_shared_def)
  qed
qed

lemma do_phase_ok:
  assumes "outputs_ok p (pw_shared w)"
  shows "outputs_ok p (pw_shared (snd (do_phase p now late w)))"
proof -
  let ?w = "on_shared after_fault w"
  have s: "outputs_ok p (pw_shared ?w)" using after_fault_ok [OF assms] by (simp add: on_shared_def)
  show ?thesis using serve_output_ok [OF s] check_outputs_ok [OF s] late_outputs_ok [OF s]
    by (simp add: do_phase_def Let_def split: option.split)
qed

text \<open>The other phases do not touch the outputs.\<close>

lemma other_phases_ok:
  "outputs_ok p (pw_shared (snd (snd (di_phase p' q now due w)))) = outputs_ok p (pw_shared w)"
  "outputs_ok p (pw_shared (snd (do_lamp_phase q due w))) = outputs_ok p (pw_shared w)"
  "outputs_ok p (pw_shared (snd (status_phase q due w))) = outputs_ok p (pw_shared w)"
  by (rule outputs_ok_cong; simp add: di_phase_def do_lamp_phase_def status_phase_def publish_di_def on_shared_def Let_def
      split: prod.split option.split bool.split del: mirror_lamps.simps)+

lemma worker_pass_ok:
  assumes "outputs_ok p (pw_shared w)"
  shows "outputs_ok p (pw_shared (worker_pass p q now late w))"
proof -
  let ?w = "on_shared (\<lambda>s. s\<lparr>pc_heartbeat_ms := of_nat now\<rparr>) w" and ?due = "now \<ge> pw_led_retry_at w"
  have s: "outputs_ok p (pw_shared ?w)" using assms by (subst outputs_ok_cong [of _ "pw_shared w"]) (simp_all add: on_shared_def)
  obtain io1 f1 w1 where d: "di_phase p q (of_nat now) ?due ?w = (io1, f1, w1)" by (metis prod.exhaust)
  obtain io2 w2 where o: "do_phase p now late w1 = (io2, w2)" by (rule prod.exhaust)
  obtain f2 w3 where l: "do_lamp_phase q ?due w2 = (f2, w3)" by (rule prod.exhaust)
  obtain f3 w4 where t: "status_phase q ?due w3 = (f3, w4)" by (rule prod.exhaust)
  have "outputs_ok p (pw_shared w4)"
    using s other_phases_ok(1) [of p p q "of_nat now" ?due ?w] do_phase_ok [of p w1 now late] other_phases_ok(2) [of p q ?due w2]
      other_phases_ok(3) [of p q ?due w3] d o l t by simp
  moreover have "pw_led_retry_at ?w = pw_led_retry_at w" "pw_io_retry_at ?w = pw_io_retry_at w" by (simp_all add: on_shared_def)
  ultimately show ?thesis using d o l t late_outputs_ok [OF s] by (simp add: worker_pass_def Let_def)
qed

lemma run_call_ok:
  assumes "outputs_ok p s"
  shows "outputs_ok p (run_call c s)"
proof (cases c)
  case (BtLamp on)
  then show ?thesis using assms by (subst outputs_ok_cong [of _ s]) (simp_all add: set_bt_lamp_def)
next
  case (PortLamps r f)
  then show ?thesis using assms by (subst outputs_ok_cong [of _ s]) (simp_all add: set_port_leds_def)
qed (use assms submit_output_ok [OF assms] in \<open>simp_all add: write_do_all_def write_do_def\<close>)

lemma init_ok: "outputs_ok p (pw_shared (pca_init p q now io led))"
  by (simp add: pca_init_def Let_def shared_new_def outputs_ok_def oq_wf_def output_queue_new_def)

lemma expander_outputs_ok: "expander_reachable p q w \<Longrightarrow> outputs_ok p (pw_shared w)"
proof (induction rule: expander_reachable.induct)
  case (call w c)
  then show ?case by (simp add: run_call_ok on_shared_def)
qed (simp_all add: init_ok worker_pass_ok)

text \<open>What an output task reads back is never made up: it is a value the chip returned at most 250 ms ago, and once no
  command is pending it is the value last asked for, whatever failed in between, whichever commands a fault cancelled,
  and also after the chip lost its registers.\<close>

theorem read_back_is_what_was_asked:
  assumes "expander_reachable p q w" and "read_do_actual now (pw_shared w) = Inr v"
  shows "chip_said p v \<and> now - pc_do_readback_ms (pw_shared w) \<le> 250 \<and>
    (if oq_list (pc_outputs (pw_shared w)) = [] then v = read_do_cached (pw_shared w) else True)"
proof -
  have ok: "outputs_ok p (pw_shared w)" using assms(1) by (rule expander_outputs_ok)
  have "sample_is_fresh (pc_do_valid (pw_shared w)) now (pc_do_readback_ms (pw_shared w)) (pc_do_failures (pw_shared w))"
      "v = load_bits (pc_do_hardware (pw_shared w))"
    using assms(2) by (auto simp: read_do_actual_def split: if_splits)
  then show ?thesis using ok by (simp add: sample_is_fresh_def outputs_ok_def read_do_cached_def)
qed

text \<open>Chips that acknowledge everything and answer with zeros.\<close>

definition low_pins :: "unit pins" where
  "low_pins = \<lparr>pin_sda = (\<lambda>_ d. d), pin_scl = (\<lambda>_ d. d), pin_output = (\<lambda>_ d. d), pin_level = (\<lambda>_. False), pin_delay = (\<lambda>_ d. d)\<rparr>"

definition low_bus :: "unit i2c_bus" where
  "low_bus = \<lparr>ib_lock = False, ib_in_tx = False, ib_dev = ()\<rparr>"

lemma low_bytes: "write_pins low_pins x d = (True, ())" "read_pins low_pins a d = (0, ())"
  by (simp_all add: write_pins_def read_pins_def sda_read_def low_pins_def Let_def numeral_eq_Suc)

lemma low_reads: "fst (bytes_acked low_pins xs b)" "fst (pca_read_regs2 low_pins a r b) = Some (0, 0)"
proof -
  show a: "fst (bytes_acked low_pins xs b)" for xs b
    by (induction xs arbitrary: b) (simp_all add: low_bytes)
  show "fst (pca_read_regs2 low_pins a r b) = Some (0, 0)"
    using a by (simp add: pca_read_regs2_def case_prod_unfold Let_def low_bytes del: bytes_acked.simps)
qed

lemma low_outputs: "worker_read_do low_pins b = (Some 0, snd (worker_read_do low_pins b))"
proof -
  have "bit_reverse 0 = 0" by (simp add: bit_reverse_def numeral_eq_Suc)
  then show ?thesis using low_reads(2) [of "0x42" 2 b]
    by (cases "pca_read_regs2 low_pins 0x42 2 b") (simp add: worker_read_do_def join_do_def)
qed

lemma di_phase_keeps:
  assumes "di_phase p q now due w = (io, f, w')"
  shows "pc_outputs (pw_shared w') = pc_outputs (pw_shared w)" "pc_alive (pw_shared w') = pc_alive (pw_shared w)"
    "pc_heartbeat_ms (pw_shared w') = pc_heartbeat_ms (pw_shared w)" "pc_do_failures (pw_shared w') = pc_do_failures (pw_shared w)"
    "pw_last_do_check w' = pw_last_do_check w"
  using assms by (auto simp: di_phase_def publish_di_def on_shared_def Let_def split: prod.splits option.splits if_splits
      simp del: mirror_lamps.simps)

definition lamp_free :: "pca_shared \<Rightarrow> bool \<times> u32 \<times> bool \<times> u32 \<times> u32 \<times> u64 \<times> output_queue" where
  "lamp_free s = (pc_alive s, pc_heartbeat_ms s, pc_do_valid s, pc_do_readback_ms s, pc_do_failures s, load_bits (pc_do_hardware s), pc_outputs s)"

lemma lamp_phases_keep:
  "lamp_free (pw_shared (snd (do_lamp_phase q due w))) = lamp_free (pw_shared w)"
  "lamp_free (pw_shared (snd (status_phase q due w))) = lamp_free (pw_shared w)"
  by (simp_all add: lamp_free_def do_lamp_phase_def status_phase_def on_shared_def Let_def split: prod.split bool.split del: mirror_lamps.simps)

definition low_worker :: "unit pca_worker" where
  "low_worker = worker_pass low_pins low_pins 100 [] (pca_init low_pins low_pins 0 low_bus low_bus)"

lemma low_reachable: "expander_reachable low_pins low_pins low_worker"
proof -
  have "bus_free low_bus" by (simp add: bus_free_def low_bus_def)
  then show ?thesis unfolding low_worker_def by (intro expander_reachable.intros)
qed

lemma low_pass_from:
  assumes "pc_outputs (pw_shared w) = output_queue_new" "pc_alive (pw_shared w)" "pc_do_failures (pw_shared w) = 0"
    and "pw_last_do_check w = - 100" "pw_io_retry_at w = 0" "pw_led_retry_at w = 0"
  shows "read_do_actual 100 (pw_shared (worker_pass low_pins low_pins 100 [] w)) = Inr 0 \<and>
    pc_outputs (pw_shared (worker_pass low_pins low_pins 100 [] w)) = output_queue_new"
proof -
  let ?w = "on_shared (\<lambda>s. s\<lparr>pc_heartbeat_ms := 100\<rparr>) w"
  have w: "pc_outputs (pw_shared ?w) = output_queue_new" "pc_alive (pw_shared ?w)" "pc_do_failures (pw_shared ?w) = 0"
      "pw_last_do_check ?w = - 100" "pw_io_retry_at ?w = 0" "pw_led_retry_at ?w = 0" "pc_heartbeat_ms (pw_shared ?w) = 100"
    using assms by (simp_all add: on_shared_def)
  obtain io1 f1 w1 where d: "di_phase low_pins low_pins 100 True ?w = (io1, f1, w1)" by (metis prod.exhaust)
  obtain io2 w2 where o: "do_phase low_pins 100 [] w1 = (io2, w2)" by (rule prod.exhaust)
  obtain f2 w3 where l: "do_lamp_phase low_pins True w2 = (f2, w3)" by (rule prod.exhaust)
  obtain f3 w4 where t: "status_phase low_pins True w3 = (f3, w4)" by (rule prod.exhaust)
  have w1: "pc_outputs (pw_shared w1) = output_queue_new" "pc_alive (pw_shared w1)" "pc_do_failures (pw_shared w1) = 0"
      "pw_last_do_check w1 = - 100" "pc_heartbeat_ms (pw_shared w1) = 100"
    using di_phase_keeps [OF d] w by simp_all
  have r: "read_or_rewrite low_pins 0 b = (Some 0, snd (worker_read_do low_pins b))" for b
    by (subst read_or_rewrite_def, subst low_outputs) simp
  have "lamp_free (pw_shared w2) = (True, 100, True, 100, 0, 0, output_queue_new)"
    using o w1 by (auto simp: do_phase_def after_fault_def on_shared_def front_def output_queue_new_def check_outputs_def r
        late_submits_def publish_do_readback_def lamp_free_def)
  then have f: "lamp_free (pw_shared w4) = (True, 100, True, 100, 0, 0, output_queue_new)"
    using lamp_phases_keep(1) [of low_pins True w2] lamp_phases_keep(2) [of low_pins True w3] l t by simp
  have "pw_shared (worker_pass low_pins low_pins 100 [] w) = pw_shared w4"
    using d o l t w(5,6) by (simp add: worker_pass_def Let_def)
  then show ?thesis using f by (simp add: lamp_free_def read_do_actual_def worker_alive_def sample_is_fresh_def)
qed

lemma low_pass: "read_do_actual 100 (pw_shared low_worker) = Inr 0" "oq_list (pc_outputs (pw_shared low_worker)) = []"
proof -
  have "pc_outputs (pw_shared (pca_init low_pins low_pins 0 low_bus low_bus)) = output_queue_new"
    by (simp add: pca_init_def Let_def shared_new_def)
  then have "read_do_actual 100 (pw_shared low_worker) = Inr 0 \<and> pc_outputs (pw_shared low_worker) = output_queue_new"
    unfolding low_worker_def by (intro low_pass_from) (simp_all add: pca_init_def Let_def shared_new_def)
  then show "read_do_actual 100 (pw_shared low_worker) = Inr 0" "oq_list (pc_outputs (pw_shared low_worker)) = []"
    by (simp_all add: oq_list_empty output_queue_new_def)
qed

theorem buses_are_given_back_witness: "bus_free (pw_io low_worker) \<and> bus_free (pw_led low_worker)"
  using buses_are_given_back [OF low_reachable] .

theorem read_back_is_what_was_asked_witness:
  "read_do_actual 100 (pw_shared low_worker) = Inr 0 \<and> chip_said low_pins 0 \<and> read_do_cached (pw_shared low_worker) = 0"
  using read_back_is_what_was_asked [OF low_reachable low_pass(1)] low_pass by simp

end
