(* ===== verification/Dio_Tasks.thy ===== *)
theory Dio_Tasks imports Pca_Outputs Channels begin

text \<open>
  The tasks of the main loop for digital inputs and outputs (\<open>src/io/di.rs\<close>, \<open>src/io/do_.rs\<close>) over the expander
  worker of \<open>Pca9555\<close>: debouncing of the inputs, submission and retry of the outputs.  The outcome of a reading
  and contention of the queue are parameters; the flag \<open>DO_DIRTY\<close> is the field \<open>bus_do_notified\<close> of the bus state.
\<close>

section \<open>The tasks\<close>

abbreviation (input) DEBOUNCE_COUNT :: u8 where "DEBOUNCE_COUNT \<equiv> 3"
abbreviation (input) FALLBACK_TICKS :: u32 where "FALLBACK_TICKS \<equiv> 2000"
abbreviation (input) RETRY_TICKS :: u32 where "RETRY_TICKS \<equiv> 20"

record di_scan =
  ds_stable :: u64
  ds_candidate :: u64
  ds_count :: u8
  ds_generation :: "u32 option"
  ds_failures :: u32

record do_task =
  dk_last :: u64
  dk_ticks :: u32
  dk_failures :: u32
  dk_retry :: u32

record dio_tasks =
  dt_di :: "di_scan option"
  dt_do :: "do_task option"
  dt_events :: event_bus

definition dio_tasks_new :: dio_tasks where
  "dio_tasks_new = \<lparr>dt_di = None, dt_do = None, dt_events = event_bus_new\<rparr>"

definition di_scan_new :: di_scan where
  "di_scan_new = \<lparr>ds_stable = 0, ds_candidate = 0, ds_count = 0, ds_generation = None, ds_failures = 0\<rparr>"

definition do_task_new :: do_task where
  "do_task_new = \<lparr>dk_last = 0xFFFFFFFFFFFFFFFF, dk_ticks = 0, dk_failures = 0, dk_retry = 0\<rparr>"

definition start_scan_task :: "bool \<Rightarrow> dio_tasks \<Rightarrow> bool \<times> dio_tasks" where
  "start_scan_task busy t = (let (ok, c) = cell_init busy di_scan_new (dt_di t) in (ok, t\<lparr>dt_di := c\<rparr>))"

definition start_do_task :: "bool \<Rightarrow> dio_tasks \<Rightarrow> bool \<times> dio_tasks" where
  "start_do_task busy t = (let (ok, c) = cell_init busy do_task_new (dt_do t) in (ok, t\<lparr>dt_do := c\<rparr>))"

text \<open>One reading; the result is the state of the inputs to publish.\<close>

definition di_step :: "dio_error + (u64 \<times> u32) option \<Rightarrow> di_scan \<Rightarrow> u64 option \<times> di_scan" where
  "di_step r st =
     (case r of
        Inr None \<Rightarrow> (None, st)
      | Inl e \<Rightarrow> (None, st\<lparr>ds_count := 0, ds_failures := saturating_add (ds_failures st) 1\<rparr>)
      | Inr (Some (bits, generation)) \<Rightarrow>
          let st = st\<lparr>ds_failures := 0\<rparr> in
          if Some generation = ds_generation st then (None, st)
          else let st = st\<lparr>ds_generation := Some generation\<rparr>;
                   st = (if bits = ds_candidate st then st\<lparr>ds_count := saturating_add (ds_count st) 1\<rparr>
                         else st\<lparr>ds_candidate := bits, ds_count := 1\<rparr>)
               in if ds_count st \<ge> DEBOUNCE_COUNT \<and> ds_candidate st \<noteq> ds_stable st
                  then (Some (ds_candidate st), st\<lparr>ds_stable := ds_candidate st\<rparr>) else (None, st))"

definition tick_di_scan :: "bool \<Rightarrow> dio_error + (u64 \<times> u32) option \<Rightarrow> dio_tasks \<times> bus_state \<Rightarrow> dio_tasks \<times> bus_state" where
  "tick_di_scan busy r ts =
     (let (t, s) = ts in
      case cell_with_mut busy (di_step r) (dt_di t) of
        (Some (Some bits), c) \<Rightarrow>
          (t\<lparr>dt_di := c, dt_events := send_event DiChanged (dt_events t)\<rparr>, s\<lparr>bus_io := di_store_bits bits (bus_io s)\<rparr>)
      | (_, c) \<Rightarrow> (t\<lparr>dt_di := c\<rparr>, s))"

definition retry_pending :: "u32 \<Rightarrow> bool \<times> u32" where
  "retry_pending ticks = (let ticks = saturating_sub ticks 1 in (ticks \<noteq> 0, ticks))"

definition submission_completed :: "u64 \<Rightarrow> dio_error option \<Rightarrow> do_task \<Rightarrow> bool \<times> do_task" where
  "submission_completed bits result st =
     (case result of
        None \<Rightarrow> (False, st\<lparr>dk_last := bits, dk_failures := 0, dk_retry := 0\<rparr>)
      | Some DioBusy \<Rightarrow> (True, st\<lparr>dk_retry := 0\<rparr>)
      | Some DioIo \<Rightarrow> (True, st\<lparr>dk_failures := saturating_add (dk_failures st) 1, dk_retry := RETRY_TICKS\<rparr>))"

definition do_step :: "bool \<Rightarrow> u32 \<Rightarrow> do_task \<times> bus_state \<times> pca_shared \<Rightarrow> do_task \<times> bus_state \<times> pca_shared" where
  "do_step contended now dsw =
     (let (st, s, x) = dsw; (pending, retry) = retry_pending (dk_retry st); st = st\<lparr>dk_retry := retry\<rparr> in
      if pending then (st, s, x)
      else let dirty = bus_do_notified s; s = s\<lparr>bus_do_notified := False\<rparr>; st = st\<lparr>dk_ticks := dk_ticks st + 1\<rparr> in
      if \<not> dirty \<and> dk_ticks st < FALLBACK_TICKS then (st, s, x)
      else let st = st\<lparr>dk_ticks := 0\<rparr>; bits = load_bits (io_do (bus_io s)) in
      if bits = dk_last st then (st, s, x)
      else let (result, x) = write_do_all contended now bits x; (again, st) = submission_completed bits result st
           in (st, if again then s\<lparr>bus_do_notified := True\<rparr> else s, x))"

definition tick_do_output :: "bool \<Rightarrow> bool \<Rightarrow> u32 \<Rightarrow> dio_tasks \<times> bus_state \<times> pca_shared \<Rightarrow> dio_tasks \<times> bus_state \<times> pca_shared" where
  "tick_do_output busy contended now tsx =
     (let (t, s, x) = tsx in
      if busy then tsx
      else case dt_do t of
        None \<Rightarrow> tsx
      | Some st \<Rightarrow> let (st, s, x) = do_step contended now (st, s, x) in (t\<lparr>dt_do := Some st\<rparr>, s, x))"

section \<open>Debouncing\<close>

text \<open>The readings that count: an error, or a sample the worker has published since the one before.\<close>

fun readings :: "u32 option \<Rightarrow> (dio_error + (u64 \<times> u32) option) list \<Rightarrow> u64 option list" where
  "readings g [] = []"
| "readings g (Inl e # rs) = None # readings g rs"
| "readings g (Inr None # rs) = readings g rs"
| "readings g (Inr (Some (b, n)) # rs) = (if Some n = g then readings g rs else Some b # readings (Some n) rs)"

text \<open>The state of the inputs: the last value that three samples in a row have shown; the newest reading comes first.\<close>

fun debounced :: "u64 option list \<Rightarrow> u64" where
  "debounced (Some a # Some b # Some c # h) = (if a = b \<and> b = c then a else debounced (Some b # Some c # h))"
| "debounced (x # h) = debounced h"
| "debounced [] = 0"

text \<open>How many of the newest readings show the same value.\<close>

fun same_run :: "u64 \<Rightarrow> u64 option list \<Rightarrow> nat" where
  "same_run v (x # h) = (if x = Some v then Suc (same_run v h) else 0)"
| "same_run v [] = 0"

definition scan_ok :: "u64 option list \<Rightarrow> di_scan \<Rightarrow> bool" where
  "scan_ok h st \<longleftrightarrow> ds_stable st = debounced h \<and> unat (ds_count st) = min 255 (same_run (ds_candidate st) h) \<and>
     (\<forall>v. v \<noteq> ds_candidate st \<longrightarrow> same_run v h = 0)"

lemma debounced_step: "debounced (Some v # h) = (if 2 \<le> same_run v h then v else debounced h)"
proof (cases h)
  case (Cons x h')
  then show ?thesis by (cases x; cases h'; cases "hd h'") auto
qed simp

lemma debounced_none [simp]: "debounced (None # h) = debounced h"
  by simp

lemma scan_ok_new: "scan_ok [] di_scan_new"
  by (simp add: scan_ok_def di_scan_new_def)

lemma scan_ok_error:
  assumes "scan_ok h st"
  shows "scan_ok (None # h) (snd (di_step (Inl e) st))"
  using assms by (simp add: scan_ok_def di_step_def)

lemma count_step:
  fixes c :: u8
  assumes "unat c = min 255 n"
  shows "unat (saturating_add c 1) = min 255 (Suc n)"
  using assms by (simp add: unat_saturating_add)

lemma scan_ok_sample:
  assumes "scan_ok h st" and "Some n \<noteq> ds_generation st"
  shows "scan_ok (Some b # h) (snd (di_step (Inr (Some (b, n))) st)) \<and> ds_generation (snd (di_step (Inr (Some (b, n))) st)) = Some n"
proof -
  let ?c = "if b = ds_candidate st then saturating_add (ds_count st) 1 else 1" and ?n = "same_run b (Some b # h)"
  have c: "unat ?c = min 255 ?n"
  proof (cases "b = ds_candidate st")
    case True
    then show ?thesis using assms(1) count_step [of "ds_count st" "same_run b h"] by (simp add: scan_ok_def)
  next
    case False
    then show ?thesis using assms(1) by (simp add: scan_ok_def)
  qed
  have three: "3 \<le> ?c \<longleftrightarrow> 2 \<le> same_run b h" using c by (simp add: word_le_nat_alt)
  have st: "snd (di_step (Inr (Some (b, n))) st) = st\<lparr>ds_failures := 0, ds_generation := Some n, ds_candidate := b, ds_count := ?c,
      ds_stable := if 3 \<le> ?c then b else ds_stable st\<rparr>"
    using assms(2) by (auto simp: di_step_def Let_def)
  have "same_run v (Some b # h) = 0" if "v \<noteq> b" for v using that by simp
  then show ?thesis using assms(1) c three unfolding st by (simp add: scan_ok_def debounced_step)
qed

text \<open>A run of readings.\<close>

definition di_run :: "(dio_error + (u64 \<times> u32) option) list \<Rightarrow> di_scan \<Rightarrow> di_scan" where
  "di_run rs st = foldl (\<lambda>st r. snd (di_step r st)) st rs"

lemma di_run_ok: "scan_ok h st \<Longrightarrow> scan_ok (rev (readings (ds_generation st) rs) @ h) (di_run rs st)"
proof (induction rs arbitrary: h st)
  case (Cons r rs)
  let ?st = "snd (di_step r st)"
  have step: "di_run (r # rs) st = di_run rs ?st" by (simp add: di_run_def)
  consider e where "r = Inl e" | "r = Inr None" | b n where "r = Inr (Some (b, n))" by (cases r) force+
  then show ?case
  proof cases
    case 1
    have "ds_generation ?st = ds_generation st" by (simp add: 1 di_step_def)
    then show ?thesis using Cons.IH [OF scan_ok_error [OF Cons.prems, of e]] step 1 by simp
  next
    case 2
    then show ?thesis using Cons.IH [OF Cons.prems] step by (simp add: di_step_def)
  next
    case 3
    show ?thesis
    proof (cases "Some n = ds_generation st")
      case True
      then have "?st = st\<lparr>ds_failures := 0\<rparr>" by (simp add: 3 di_step_def Let_def)
      then have "scan_ok h ?st" "ds_generation ?st = ds_generation st" using Cons.prems by (simp_all add: scan_ok_def)
      then show ?thesis using Cons.IH [of h ?st] step 3 True by simp
    next
      case False
      then show ?thesis using Cons.IH [of "Some b # h" ?st] scan_ok_sample [OF Cons.prems False, of b] step 3 by simp
    qed
  qed
qed (simp add: di_run_def)

text \<open>The ticks of the main loop.\<close>

definition di_ticks :: "(dio_error + (u64 \<times> u32) option) list \<Rightarrow> dio_tasks \<times> bus_state \<Rightarrow> dio_tasks \<times> bus_state" where
  "di_ticks rs ts = foldl (\<lambda>ts r. tick_di_scan False r ts) ts rs"

lemma di_step_published:
  assumes "di_step r st = (p, st')"
  shows "ds_stable st' = (case p of None \<Rightarrow> ds_stable st | Some v \<Rightarrow> v)"
  using assms by (auto simp: di_step_def Let_def split: sum.splits option.splits prod.splits if_splits)

lemma di_ticks_run:
  assumes "dt_di t = Some st" and "load_bits (io_di (bus_io s)) = ds_stable st" and "di_ticks rs (t, s) = (t', s')"
  shows "dt_di t' = Some (di_run rs st) \<and> load_bits (io_di (bus_io s')) = ds_stable (di_run rs st)"
  using assms
proof (induction rs arbitrary: t s st)
  case (Cons r rs)
  obtain p st1 where d: "di_step r st = (p, st1)" by (rule prod.exhaust)
  obtain t1 s1 where k: "tick_di_scan False r (t, s) = (t1, s1)" by (rule prod.exhaust)
  have "dt_di t1 = Some st1 \<and> load_bits (io_di (bus_io s1)) = ds_stable st1"
    using k d Cons.prems(1,2) di_step_published [OF d]
    by (cases p) (auto simp: tick_di_scan_def cell_with_mut_def di_store_bits_def atomic_bits.load_store)
  moreover have "di_ticks rs (t1, s1) = (t', s')" "di_run (r # rs) st = di_run rs st1"
    using Cons.prems(3) k d by (simp_all add: di_ticks_def di_run_def)
  ultimately show ?case using Cons.IH [of t1 st1 s1] by simp
qed (simp add: di_ticks_def di_run_def)

text \<open>The digital inputs of the register map are the debounced inputs of the board: after any sequence of
  readings the map shows the last value seen in three samples in a row, where a sample that the worker had published before is not
  counted twice, and a failed reading between them starts the count again.  A pulse of one or two samples is never visible.\<close>

theorem inputs_are_debounced:
  "load_bits (io_di (bus_io (snd (di_ticks rs (snd (start_scan_task False dio_tasks_new), s\<lparr>bus_io := io_bundle_new\<rparr>))))) =
    debounced (rev (readings None rs))"
proof -
  obtain t' s' where r: "di_ticks rs (snd (start_scan_task False dio_tasks_new), s\<lparr>bus_io := io_bundle_new\<rparr>) = (t', s')"
    by (rule prod.exhaust)
  have "dt_di (snd (start_scan_task False dio_tasks_new)) = Some di_scan_new"
    by (simp add: start_scan_task_def cell_init_def dio_tasks_new_def)
  moreover have "load_bits (io_di (bus_io (s\<lparr>bus_io := io_bundle_new\<rparr>))) = ds_stable di_scan_new"
    by (simp add: io_bundle_new_def di_scan_new_def)
  ultimately have "load_bits (io_di (bus_io s')) = ds_stable (di_run rs di_scan_new)" using di_ticks_run r by blast
  then show ?thesis using di_run_ok [OF scan_ok_new, of rs] r by (simp add: scan_ok_def di_scan_new_def)
qed

end
