(* ===== verification/Dio_Outputs.thy ===== *)
theory Dio_Outputs imports Dio_Tasks begin

text \<open>
  The way of an output from the register map to the chip: every write of the map notifies the task of
  \<open>src/io/do_.rs\<close>, the task submits what the map shows to the queue of the worker, and the worker writes it to the
  expander and reads it back.
\<close>

section \<open>Who changes the outputs notifies the task\<close>

definition out_of :: "bus_state \<Rightarrow> atomic_bits64 \<times> bool" where
  "out_of s = (io_do (bus_io s), bus_do_notified s)"

definition outputs_kept :: "bus_state \<Rightarrow> bus_state \<Rightarrow> bool" where
  "outputs_kept s s' \<longleftrightarrow> bus_do_notified s' \<or> out_of s' = out_of s"

lemma kept_same: "out_of s' = out_of s \<Longrightarrow> outputs_kept s s'"
  by (simp add: outputs_kept_def)

lemma kept_trans: "outputs_kept s s1 \<Longrightarrow> outputs_kept s1 s2 \<Longrightarrow> outputs_kept s s2"
  by (auto simp: outputs_kept_def out_of_def)

lemma kept_notify [simp]: "outputs_kept s (notify_do s')"
  by (simp add: outputs_kept_def notify_do_def)

lemma out_of_steps [simp]:
  "out_of (publish_storage sn s) = out_of s" "out_of (publish_config c s) = out_of s" "out_of (mark_storage_mutated s) = out_of s"
  "out_of (mark_holding_dirty s) = out_of s" "out_of (mark_legacy_io_dirty s) = out_of s" "out_of (request_persist_config s) = out_of s"
  "out_of (request_apply_config s) = out_of s" "out_of (notify_ble_name_changed s) = out_of s" "out_of (mark_logic_changed s) = out_of s"
  "out_of (storage_modify_holding_raw f s) = out_of s" "out_of (storage_modify_holding f s) = out_of s"
  "out_of (s\<lparr>bus_logic_armed := a\<rparr>) = out_of s" "out_of (s\<lparr>bus_proto_status := b\<rparr>) = out_of s" "out_of (s\<lparr>bus_text_dirty := a\<rparr>) = out_of s"
  "out_of (bus_control_written ad v s) = out_of s"
  by (simp_all add: out_of_def publish_storage_def publish_config_def mark_storage_mutated_def mark_holding_dirty_def mark_legacy_io_dirty_def
      request_persist_config_def request_apply_config_def notify_ble_name_changed_def mark_logic_changed_def storage_modify_holding_raw_def
      storage_modify_holding_def bus_control_written_def)

lemma out_of_saves [simp]:
  "out_of (snd (persist_text f s)) = out_of s" "out_of (snd (persist_device_text_now s)) = out_of s" "out_of (snd (persist_config_now s)) = out_of s"
  "out_of (snd (save_holding s)) = out_of s" "out_of (request_save_device_text s) = out_of s" "out_of (snd (request_device c s)) = out_of s"
  "out_of (write_protect_word v s) = out_of s" "out_of (write_control_word a v s) = out_of s" "out_of (write_text n vs s) = out_of s"
  "out_of (write_proto g s) = out_of s" "out_of (snd (proto_request c st s)) = out_of s"
proof -
  show t: "out_of (snd (persist_text f s)) = out_of s" for f s by (simp add: persist_text_def out_of_def Let_def split: prod.split)
  then show n: "out_of (snd (persist_device_text_now s)) = out_of s" for s by (simp add: persist_device_text_now_def)
  show "out_of (request_save_device_text s) = out_of s" using n by (simp add: request_save_device_text_def Let_def)
  show r: "out_of (snd (request_device c s)) = out_of s" for s by (simp add: request_device_def out_of_def)
  show "out_of (snd (proto_request c st s)) = out_of s"
    using r [of "s\<lparr>bus_proto_status := st\<rparr>"] by (cases "request_device c (s\<lparr>bus_proto_status := st\<rparr>)") (simp add: proto_request_def)
  show "out_of (snd (save_holding s)) = out_of s" by (simp add: save_holding_def out_of_def)
  obtain r d where c: "commit_pending (bus_config_dirty s) False
      (env_config_save_ok (bus_env s) \<and> validate_for_persistence (bus_config s) = Inr ()) False = (r, d)" by (rule prod.exhaust)
  show "out_of (snd (persist_config_now s)) = out_of s" by (simp add: persist_config_now_def Let_def c out_of_def)
  show "out_of (write_protect_word v s) = out_of s" by (simp add: write_protect_word_def)
  show "out_of (write_control_word a v s) = out_of s" by (simp add: write_control_word_def)
  show "out_of (write_text n vs s) = out_of s" by (simp add: write_text_def Let_def)
  show "out_of (write_proto g s) = out_of s" by (simp add: write_proto_def)
qed

lemma write_pxx_out: "out_of (snd (write_pxx_word a v s)) = out_of s"
  by (simp add: write_pxx_word_def Let_def)

lemma write_config_out: "out_of (snd (write_config_word a v s)) = out_of s"
  using write_pxx_out [of a v s] by (simp add: write_config_word_def Let_def split: prod.split write_result.split)

lemma kept_if: "outputs_kept s (snd x) \<Longrightarrow> outputs_kept s (snd y) \<Longrightarrow> outputs_kept s (snd (if c then x else y))"
  by simp

lemma write_hold_locked_kept: "outputs_kept s (snd (write_hold_reg_locked a v s))"
proof -
  have "outputs_kept s (snd (write_control_plc a v s))" by (auto simp: write_control_plc_def Let_def intro: kept_same)
  then show ?thesis unfolding write_hold_reg_locked_def by (intro kept_if) (simp_all add: kept_same write_config_out)
qed

lemma write_hold_kept: "outputs_kept s (snd (write_hold_reg a v s))"
proof -
  obtain ok s1 where w: "write_hold_reg_locked a v s = (ok, s1)" by (rule prod.exhaust)
  have "outputs_kept s s1" using write_hold_locked_kept [of s a v] w by simp
  moreover have "out_of (snd (write_hold_reg a v s)) = out_of s1" using w by (simp add: write_hold_reg_def Let_def)
  ultimately show ?thesis by (simp add: outputs_kept_def out_of_def)
qed

lemma write_words_kept: "outputs_kept s (snd (write_hold_words a vs s))"
proof (induction vs arbitrary: a s)
  case (Cons v vs)
  obtain ok s1 where w: "write_hold_reg_locked a v s = (ok, s1)" by (rule prod.exhaust)
  have "outputs_kept s s1" using write_hold_locked_kept [of s a v] w by simp
  then show ?case using w Cons.IH [of s1 "a + 1"] kept_trans by (cases ok) auto
qed (simp add: kept_same)

lemma control_words_out: "out_of (control_words_written a vs s) = out_of s"
  by (induction vs arbitrary: a s) simp_all

lemma batch_publish_out: "out_of (batch_publish b s) = out_of s"
  by (simp add: batch_publish_def Let_def)

lemma write_holds_kept: "outputs_kept s (snd (write_hold_regs a vs s))"
proof -
  obtain ok s1 where w: "write_hold_words a vs s = (ok, s1)" by (rule prod.exhaust)
  have k: "outputs_kept s s1" using write_words_kept [of s a vs] w by simp
  then have "outputs_kept s (control_words_written a vs s1)"
    using control_words_out [of a vs s1] by (simp add: outputs_kept_def out_of_def)
  then show ?thesis using k unfolding write_hold_regs_def Let_def
    by (intro kept_if) (simp_all add: w kept_same batch_publish_out split: option.split)
qed

lemma write_coil_kept: "outputs_kept s (snd (write_coil a v s))"
proof -
  obtain r1 s1 where 1: "persist_config_now s = (r1, s1)" by (rule prod.exhaust)
  obtain r2 s2 where 2: "save_holding s1 = (r2, s2)" by (rule prod.exhaust)
  obtain r3 s3 where 3: "persist_device_text_now s2 = (r3, s3)" by (rule prod.exhaust)
  have e: "out_of s1 = out_of s" "out_of s2 = out_of s" "out_of s3 = out_of s"
    using out_of_saves(3) [of s] out_of_saves(4) [of s1] out_of_saves(2) [of s2] 1 2 3 by simp_all
  then have "out_of (s3\<lparr>bus_io := (bus_io s3)\<lparr>io_sys := x\<rparr>\<rparr>) = out_of s" for x by (simp add: out_of_def)
  then show ?thesis using e unfolding write_coil_def
    by (intro kept_if) (simp_all add: 1 2 3 kept_same split: bool.split)
qed

lemma write_coil_each_kept: "outputs_kept s (snd (write_coil_each a packed ks s))"
proof (induction ks arbitrary: s)
  case (Cons k ks)
  obtain ok s1 where w: "write_coil (a + of_nat k) (coil_on packed k) s = (ok, s1)" by (rule prod.exhaust)
  have "outputs_kept s s1" using write_coil_kept [of s "a + of_nat k" "coil_on packed k"] w by simp
  then show ?case using w Cons.IH [of s1] kept_trans by (cases ok) auto
qed (simp add: kept_same)

lemma write_coils_kept: "outputs_kept s (snd (write_coils a n packed s))"
proof -
  have "outputs_kept s (mark_legacy_io_dirty (if m then notify_do (f x) else publish_storage sn s))" for m sn f and x :: bus_state
    by (simp add: kept_same) (simp add: outputs_kept_def mark_legacy_io_dirty_def mark_storage_mutated_def notify_do_def)
  then show ?thesis unfolding write_coils_def Let_def
    by (intro kept_if) (simp_all add: write_coil_each_kept case_prod_unfold kept_same)
qed

section \<open>Map, task and worker together\<close>

inductive outputs_reachable :: "'d pins \<Rightarrow> 'd pins \<Rightarrow> dio_tasks \<times> bus_state \<times> 'd pca_worker \<Rightarrow> bool" for p q where
  start: "bus_free io \<Longrightarrow> bus_free led \<Longrightarrow> bus_do_notified s \<Longrightarrow>
    outputs_reachable p q (snd (start_do_task False dio_tasks_new), s, pca_init p q now io led)"
| access: "outputs_reachable p q (t, s, w) \<Longrightarrow> outputs_kept s s' \<Longrightarrow> outputs_reachable p q (t, s', w)"
| tick: "outputs_reachable p q (t, s, w) \<Longrightarrow> tick_do_output busy contended now (t, s, pw_shared w) = (t', s', x) \<Longrightarrow>
    outputs_reachable p q (t', s', w\<lparr>pw_shared := x\<rparr>)"
| pass: "outputs_reachable p q (t, s, w) \<Longrightarrow> outputs_reachable p q (t, s, worker_pass p q now [] w)"
| bt_lamp: "outputs_reachable p q (t, s, w) \<Longrightarrow> outputs_reachable p q (t, s, on_shared (set_bt_lamp on) w)"
| port_lamps: "outputs_reachable p q (t, s, w) \<Longrightarrow> outputs_reachable p q (t, s, on_shared (set_port_leds r f) w)"

lemma do_step_shared:
  assumes "do_step contended now (st, s, x) = (st', s', x')"
  shows "x' = x \<or> x' = run_call (WriteAll contended now (load_bits (io_do (bus_io s)))) x"
  using assms by (auto simp: do_step_def Let_def split: prod.splits if_splits)

lemma tick_shared:
  assumes "tick_do_output busy contended now (t, s, x) = (t', s', x')"
  shows "x' = x \<or> x' = run_call (WriteAll contended now (load_bits (io_do (bus_io s)))) x"
  using assms do_step_shared [of contended now _ s x] by (auto simp: tick_do_output_def split: if_splits option.splits prod.splits)

lemma outputs_worker: "outputs_reachable p q (t, s, w) \<Longrightarrow> expander_reachable p q w"
proof (induction "(t, s, w)" arbitrary: t s w rule: outputs_reachable.induct)
  case (tick t s w busy contended now t' s' x)
  have "w\<lparr>pw_shared := pw_shared w\<rparr> = w" by simp
  then show ?case using tick_shared [OF tick.hyps(3)] tick.hyps(2) expander_reachable.call [of p q w "WriteAll contended now (load_bits (io_do (bus_io s)))"]
    by (auto simp: on_shared_def)
next
  case (bt_lamp t s w on)
  then show ?case using expander_reachable.call [of p q w "BtLamp on"] by (simp add: on_shared_def)
next
  case (port_lamps t s w r f)
  then show ?case using expander_reachable.call [of p q w "PortLamps r f"] by (simp add: on_shared_def)
qed (auto intro: expander_reachable.intros)

text \<open>A pass does not change what was asked last.\<close>

lemma confirm_latest [simp]: "oq_latest (snd (confirm c q)) = oq_latest q" "oq_latest (retain_latest_after_fault q) = oq_latest q"
  by (simp_all add: confirm_def retain_latest_after_fault_def)

definition last_asked :: "pca_shared \<Rightarrow> u64" where
  "last_asked x = oc_bits (oq_latest (pc_outputs x))"

lemma serve_asked: "last_asked (pw_shared (snd (serve_output p now [] c w))) = last_asked (pw_shared w)"
  by (simp add: serve_output_def last_asked_def late_submits_def on_shared_def publish_do_readback_def do_failed_def split: prod.split option.split)

lemma check_asked: "last_asked (pw_shared (snd (check_outputs p now [] w))) = last_asked (pw_shared w)"
  by (simp add: check_outputs_def last_asked_def late_submits_def on_shared_def publish_do_readback_def do_failed_def split: prod.split option.split)

lemma phases_asked:
  "last_asked (pw_shared (snd (do_phase p now [] w))) = last_asked (pw_shared w)"
  "last_asked (pw_shared (snd (do_lamp_phase q due w))) = last_asked (pw_shared w)"
  "last_asked (pw_shared (snd (status_phase q due w))) = last_asked (pw_shared w)"
  "last_asked (pw_shared (snd (snd (di_phase p q n due w)))) = last_asked (pw_shared w)"
proof -
  have a: "last_asked (pw_shared (on_shared after_fault w)) = last_asked (pw_shared w)"
    by (simp add: on_shared_def after_fault_def last_asked_def)
  have l: "late_submits [] v = v" for v :: "'d pca_worker" by (simp add: late_submits_def on_shared_def)
  show "last_asked (pw_shared (snd (do_phase p now [] w))) = last_asked (pw_shared w)"
    using a by (simp add: do_phase_def Let_def serve_asked check_asked l split: option.split)
  show "last_asked (pw_shared (snd (do_lamp_phase q due w))) = last_asked (pw_shared w)"
    "last_asked (pw_shared (snd (status_phase q due w))) = last_asked (pw_shared w)"
    using lamp_phases_keep [of q due w] by (simp_all add: lamp_free_def last_asked_def)
  show "last_asked (pw_shared (snd (snd (di_phase p q n due w)))) = last_asked (pw_shared w)"
    using di_phase_keeps(1) [of p q n due w] by (metis last_asked_def prod.collapse)
qed

lemma pass_asked: "last_asked (pw_shared (worker_pass p q now [] w)) = last_asked (pw_shared w)"
proof -
  let ?w = "on_shared (\<lambda>s. s\<lparr>pc_heartbeat_ms := of_nat now\<rparr>) w" and ?due = "now \<ge> pw_led_retry_at w"
  have s: "last_asked (pw_shared ?w) = last_asked (pw_shared w)" by (simp add: on_shared_def last_asked_def)
  obtain io1 f1 w1 where d: "di_phase p q (of_nat now) ?due ?w = (io1, f1, w1)" by (metis prod.exhaust)
  obtain io2 w2 where o: "do_phase p now [] w1 = (io2, w2)" by (rule prod.exhaust)
  obtain f2 w3 where l: "do_lamp_phase q ?due w2 = (f2, w3)" by (rule prod.exhaust)
  obtain f3 w4 where t: "status_phase q ?due w3 = (f3, w4)" by (rule prod.exhaust)
  have "last_asked (pw_shared w4) = last_asked (pw_shared w)"
    using s phases_asked(1) [of p now w1] phases_asked(2) [of q ?due w2] phases_asked(3) [of q ?due w3]
      phases_asked(4) [of p q "of_nat now" ?due ?w] d o l t by simp
  moreover have "pw_led_retry_at ?w = pw_led_retry_at w" "pw_io_retry_at ?w = pw_io_retry_at w" by (simp_all add: on_shared_def)
  moreover have "late_submits [] ?w = ?w" by (simp add: late_submits_def on_shared_def)
  ultimately show ?thesis using d o l t s by (simp add: worker_pass_def Let_def)
qed

definition task_ok :: "dio_tasks \<Rightarrow> bus_state \<Rightarrow> pca_shared \<Rightarrow> bool" where
  "task_ok t s x \<longleftrightarrow> (\<exists>st. dt_do t = Some st \<and> (bus_do_notified s \<or> dk_last st = load_bits (io_do (bus_io s))) \<and>
     (dk_last st = 0xFFFFFFFFFFFFFFFF \<or> last_asked x = dk_last st AND 0xFFFF))"

lemma accepted_asked:
  assumes "write_do_all contended now v x = (None, x')"
  shows "last_asked x' = v AND 0xFFFF"
proof -
  have "v AND 0xFFFF = oc_bits (oq_latest q')" if "submit (v AND 0xFFFF) q = (True, q')" for q q'
    using that by (auto simp: submit_def push_command_def split: if_splits)
  then show ?thesis using assms
    by (auto simp: write_do_all_def submit_output_def Let_def last_asked_def split: if_splits prod.splits)
qed

lemma refused_asked:
  assumes "write_do_all contended now v x = (Some e, x')"
  shows "last_asked x' = last_asked x"
proof -
  have "oq_latest q' = oq_latest q" if "submit u q = (False, q')" for u q q'
    using that by (auto simp: submit_def push_command_def split: if_splits)
  then show ?thesis using assms
    by (auto simp: write_do_all_def submit_output_def Let_def last_asked_def split: if_splits prod.splits)
qed

lemma do_step_ok:
  assumes "bus_do_notified s \<or> dk_last st = load_bits (io_do (bus_io s))"
    and "dk_last st = 0xFFFFFFFFFFFFFFFF \<or> last_asked x = dk_last st AND 0xFFFF"
    and "do_step contended now (st, s, x) = (st', s', x')"
  shows "(bus_do_notified s' \<or> dk_last st' = load_bits (io_do (bus_io s'))) \<and>
    (dk_last st' = 0xFFFFFFFFFFFFFFFF \<or> last_asked x' = dk_last st' AND 0xFFFF)"
proof -
  let ?v = "load_bits (io_do (bus_io s))"
  obtain r x1 where w: "write_do_all contended now ?v x = (r, x1)" by (rule prod.exhaust)
  show ?thesis
  proof (cases r)
    case None
    then show ?thesis using assms w accepted_asked [of contended now ?v x x1]
      by (auto simp: do_step_def Let_def submission_completed_def split: prod.splits if_splits)
  next
    case (Some e)
    then show ?thesis using assms w refused_asked [of contended now ?v x e x1]
      by (cases e) (auto simp: do_step_def Let_def submission_completed_def split: prod.splits if_splits)
  qed
qed

lemma outputs_task: "outputs_reachable p q (t, s, w) \<Longrightarrow> task_ok t s (pw_shared w)"
proof (induction "(t, s, w)" arbitrary: t s w rule: outputs_reachable.induct)
  case (start io led s now)
  then show ?case by (simp add: task_ok_def start_do_task_def cell_init_def dio_tasks_new_def do_task_new_def)
next
  case (access t s w s')
  then show ?case by (auto simp: task_ok_def outputs_kept_def out_of_def)
next
  case (tick t s w busy contended now t' s' x)
  then obtain st where st: "dt_do t = Some st" "bus_do_notified s \<or> dk_last st = load_bits (io_do (bus_io s))"
      "dk_last st = 0xFFFFFFFFFFFFFFFF \<or> last_asked (pw_shared w) = dk_last st AND 0xFFFF"
    by (auto simp: task_ok_def)
  obtain st1 s1 x1 where d: "do_step contended now (st, s, pw_shared w) = (st1, s1, x1)" by (rule prod_cases3)
  show ?case
  proof (cases busy)
    case True
    then show ?thesis using tick by (simp add: tick_do_output_def)
  next
    case False
    then have "t' = t\<lparr>dt_do := Some st1\<rparr>" "s' = s1" "x = x1" using tick(3) st(1) d by (simp_all add: tick_do_output_def)
    then show ?thesis using do_step_ok [OF st(2,3) d] by (simp add: task_ok_def)
  qed
qed (simp_all add: task_ok_def pass_asked, simp_all add: on_shared_def last_asked_def set_bt_lamp_def set_port_leds_def)


text \<open>A start with all outputs off, one tick, one pass over chips that answer zeros.\<close>

definition quiet_start :: "bus_state \<Rightarrow> bus_state" where
  "quiet_start s = s\<lparr>bus_io := io_bundle_new, bus_do_notified := True\<rparr>"

lemma quiet_tick:
  "\<exists>t' s' x. tick_do_output False False 0 (snd (start_do_task False dio_tasks_new), quiet_start s,
       pw_shared (pca_init low_pins low_pins 0 low_bus low_bus)) = (t', s', x) \<and>
     \<not> bus_do_notified s' \<and> io_do (bus_io s') = bits_new 0 \<and>
     x = (pw_shared (pca_init low_pins low_pins 0 low_bus low_bus))\<lparr>pc_do_desired := store_bits 0 (bits_new 0)\<rparr>"
  by (simp add: tick_do_output_def start_do_task_def cell_init_def dio_tasks_new_def do_task_new_def do_step_def Let_def
      retry_pending_def saturating_sub_def quiet_start_def io_bundle_new_def write_do_all_def worker_alive_def pca_init_def shared_new_def
      submit_output_def submit_def output_queue_new_def submission_completed_def)


end
