(* ===== verification/Spec2Isabelle.thy ===== *)
theory Spec2Isabelle imports
  Main Prelude Regs Modbus_Crc Modbus_Pdu Modbus_Server Rcu Atomic_Bits Mpsc_Ring Io_State
  System_Config Nvs Config_Codec Config_Registers Register_Snapshot Result_Area Sums Logic_Table
  Control_Logic Diagnostics Bus_State Bus_Reads Bus_Writes Bus_Backend Bus_Safety
  Rs485_Port Rtu_Slave Rtu_Master Rtu_Runtime Tcp_Client Tcp_Server Output_Queue Event_Bus Device_Store Holding_Store Device_Boot Ring_Items Ble_Link Ble_Logic Utf8 Rust_Str Ble_Protocol Web_Info Device_Actor Device_Sync
  Web_Http Web_Parse Web_Session Web_Text Web_Pages Web_Forms Web_Access Web_Lockout Web_Ports Ota Web_Upload Web_Clients At_Text At_Config At_Commands At_Facts Seqlock Ble_Adv Channels Sw_I2c Pca9555 Pca_Bus Pca_Outputs Dio_Tasks Dio_Outputs
begin

text \<open>
  The firmware under verification is an ESP32-S3 controller with 16 digital inputs, 16 digital
  outputs, analog channels, two RS485 ports, Ethernet, Bluetooth and flash storage.  Its centre is a
  register map: all protocols (Modbus TCP, Modbus RTU as slave, the handheld protocol over Bluetooth, the web server)
  read and write the same coils and registers, and the control logic, the port workers and the
  storage code act on the state behind them.  This development models the map, the servers on
  top of it, the workers and the storage below it, and proves what each promises.

  \<^bold>\<open>Foundations.\<close>
  \<^item> \<open>Prelude\<close>: the integer types (\<open>u8\<close> to \<open>u64\<close> are words, so arithmetic wraps where Rust's
    \<open>wrapping_\<close> operations do; saturating and checked operations are written out), byte packing, buffers.
  \<^item> \<open>Sums\<close>: \<open>Result\<close> as a sum, with the error on the left, and the \<open>?\<close> operator.
  \<^item> \<open>Regs\<close>: the address constants of \<open>src/config.rs\<close>.
  \<^item> \<open>Utf8\<close>, \<open>Rust_Str\<close>: character boundaries, decoding, and the string functions of the standard library that the parsers use, on lists of bytes.
  \<^item> \<open>Rcu\<close>, \<open>Atomic_Bits\<close>, \<open>Seqlock\<close>, \<open>Mpsc_Ring\<close>, \<open>Ring_Items\<close>, \<open>Event_Bus\<close>: \<open>bus/rcu.rs\<close>, \<open>sync.rs\<close>, \<open>bus/event_bus.rs\<close>.  The snapshot
    cell is a step relation in which any number of readers and the writer interleave; the property is that no
    reader holds freed memory.  \<open>Atomic_Bits\<close> gives what each operation on the 64 point bits computes; \<open>Seqlock\<close> runs the same operations
    as interleaved atomic steps and proves that reads are not torn and writes not lost.  The bounded ring and the ring of Bluetooth frames
    satisfy one contract, the locale \<open>bounded_fifo\<close>.

  \<^bold>\<open>State and storage.\<close>
  \<^item> \<open>Io_State\<close>, \<open>Register_Snapshot\<close>, \<open>Result_Area\<close>: the I/O image and the images of result registers.
  \<^item> \<open>System_Config\<close>, \<open>Config_Codec\<close>, \<open>Config_Registers\<close>: the record of \<open>device/system_config.rs\<close>, its flash codec with
    two banks and a commit key, and its register window.  A save that stops anywhere leaves the old or the new configuration.
  \<^item> \<open>Nvs\<close>, \<open>Device_Store\<close>, \<open>Holding_Store\<close>, \<open>Device_Boot\<close>: the key-value flash, the storage of \<open>device/mod.rs\<close>,
    the two raw slots of \<open>device/holding_store.rs\<close>, and the start, which
    builds the first state from what the flash holds.  \<open>Device_Boot.boot_state_is_wellformed\<close> joins
    this part to the invariant of the register map.
  \<^item> \<open>Device_Actor\<close>, \<open>Device_Sync\<close>: the storage task of \<open>device/mod.rs\<close> and its mailbox \<open>actor/mod.rs\<close>.  Every message, the periodic saves, the
    barrier before a restart and the wait of a client for its save; a save that was confirmed is in the flash, and messages are served in order.
  \<^item> \<open>Diagnostics\<close>: \<open>error/ringlog.rs\<close>, \<open>error/recovery.rs\<close> and the link status of \<open>modbus/shared.rs\<close>.

  \<^bold>\<open>The register map.\<close>
  \<^item> \<open>Bus_State\<close> is the record of all statics of \<open>bus/storage_state.rs\<close>, \<open>bus/config_state.rs\<close> and the modules they publish for;
    \<open>Bus_Reads\<close> and \<open>Bus_Writes\<close> are the read and write paths of \<open>bus/backends.rs\<close>, arm by arm;
    \<open>Bus_Backend\<close> proves \<open>bus_wf\<close>, the invariant that every operation keeps, and interprets the locale \<open>backend_laws\<close>.
  \<^item> \<open>Bus_Safety\<close> states what a client may rely on across operations: batches are single accesses, a refused write
    changes nothing, the write arm of the logic area holds for one write, a restart is only accepted after a save.
  \<^item> \<open>Modbus_Crc\<close>, \<open>Modbus_Pdu\<close>, \<open>Modbus_Server\<close>: \<open>modbus/shared.rs\<close>.  \<open>Modbus_Server\<close> states the abstract server (a request as data,
    the values a map shows, the response) and the contract of the \<open>ModbusBackend\<close> trait as \<open>backend_laws\<close>; the handlers are proved
    against it once, inside the locale, for every backend.

  \<^bold>\<open>Servers and workers.\<close>
  \<^item> \<open>Tcp_Client\<close>, \<open>Tcp_Server\<close>: \<open>modbus/tcp_server.rs\<close>.  One poll of a connection refines the specification on the stream of received
    bytes; the tick serves one request and moves the served client to the end of the order.
  \<^item> \<open>Rs485_Port\<close>, \<open>Rtu_Slave\<close>, \<open>Rtu_Master\<close>, \<open>Rtu_Runtime\<close>: \<open>rs485/config.rs\<close>, the read loop of \<open>rs485/port.rs\<close>, and \<open>modbus/rtu_slave.rs\<close>,
    \<open>rtu_master.rs\<close> and \<open>rtu_runtime.rs\<close>.  Master and slave of this firmware are joined in \<open>poll_mirrors_slave\<close>: what the master stores
    is what the slave's registers hold.
  \<^item> \<open>Logic_Table\<close>, \<open>Control_Logic\<close>: \<open>control_logic.rs\<close>, the parser of the logic table and the tick that executes commands, pulses and feedback.
  \<^item> \<open>Channels\<close>: \<open>channel/*.rs\<close>, the sampling, averaging and scaling of the analog inputs, the analog outputs, and the calibration at start.
  \<^item> \<open>Output_Queue\<close>: \<open>hal/io_worker_state.rs\<close>, the queue of output commands between the map and the I/O worker.
  \<^item> \<open>Sw_I2c\<close>: \<open>hal/sw_i2c.rs\<close>, the I2C master on two pins; its bytes are related to what a device on the lines sees.
  \<^item> \<open>Pca9555\<close>, \<open>Pca_Bus\<close>, \<open>Pca_Outputs\<close>: \<open>hal/pca9555.rs\<close>, the worker that samples the inputs and writes the outputs through the I/O
    expanders.  \<open>Pca_Bus\<close> relates its transactions to the bits on the wire, \<open>Pca_Outputs\<close> holds over all runs: the pins are given back after
    each pass, and what can be read back is what was asked for last.
  \<^item> \<open>Dio_Tasks\<close>, \<open>Dio_Outputs\<close>: \<open>io/di.rs\<close> and \<open>io/do_.rs\<close>, the tasks between the map and the worker: the inputs are debounced, and once
    nothing is pending the chip shows the outputs of the map.

  \<^bold>\<open>Bluetooth.\<close>
  \<^item> \<open>Ble_Link\<close>, \<open>Ble_Adv\<close>: the transport of \<open>ble_at/mod.rs\<close>.  The client's writes are put together to frames and frames are cut
    into notifications; the callbacks of the radio and \<open>ble_at/advertising_health.rs\<close> decide when the device is on the air.
  \<^item> \<open>Ble_Protocol\<close>, \<open>Ble_Logic\<close>: the binary protocol of the handheld and the logic configuration (\<open>ble_at/logic_handlers.rs\<close>).  The answer to
    a frame is that of the abstract Modbus server, framed.
  \<^item> \<open>At_Text\<close>, \<open>At_Config\<close>, \<open>At_Commands\<close>, \<open>At_Facts\<close>: the text commands of \<open>ble_at/parser.rs\<close>, \<open>cfg_handlers.rs\<close>, \<open>handlers.rs\<close> and \<open>ota_handlers.rs\<close>.

  \<^bold>\<open>Web server and firmware update.\<close>
  \<^item> \<open>Web_Http\<close>, \<open>Web_Parse\<close>: the reader of requests in \<open>web/mod.rs\<close>: lines, headers and body within their limits and before their deadlines.
  \<^item> \<open>Web_Session\<close>, \<open>Web_Text\<close>, \<open>Web_Pages\<close>, \<open>Web_Forms\<close>, \<open>Web_Info\<close>: session and password, the text of the answers, the pages, the forms, and the stored texts.
  \<^item> \<open>Web_Access\<close>, \<open>Web_Lockout\<close>, \<open>Web_Ports\<close>: what holds of the whole dispatch: which page needs the session, which forms are refused, how a form reads back.
  \<^item> \<open>Ota\<close>, \<open>Web_Upload\<close>: the update session of \<open>ota/mod.rs\<close> under any order of calls, and the upload stream of the web page above it.
  \<^item> \<open>Web_Clients\<close>: runs of connections, pages and uploads mixed; every change goes back to a login.

  \<^bold>\<open>Interfaces.\<close>  \<open>backend_laws\<close> (\<open>Modbus_Server\<close>) is the contract between protocol handlers and the register map, interpreted as \<open>bus\<close> in \<open>Bus_Backend\<close>.
  \<open>bounded_fifo\<close> (\<open>Mpsc_Ring\<close>) is the contract of a queue of fixed capacity, interpreted on the message ring, the output queue and the ring of
  Bluetooth frames.  \<open>bit_register\<close> (\<open>Atomic_Bits\<close>) is the contract of 64 point bits, \<open>result_reader\<close> (\<open>Result_Area\<close>) that of a
  snapshot of result registers, \<open>flash_area\<close> (\<open>Device_Sync\<close>) that of an area whose memory copy is saved to flash, interpreted on the configuration,
  the device texts, the texts of the web pages and the saved outputs, and \<open>escape_code\<close> (\<open>Web_Text\<close>) that of an escape of characters, interpreted on JSON and HTML.

  \<^bold>\<open>Bounds and termination.\<close>  The definitions are total functions.  Loops over buffers recurse on the remaining bytes or with a measure;
  loops over time (the read of a serial port, the poll of a socket) recurse on the list of events that the environment supplies, so they
  need no fuel.  Where a loop counts its own rounds (251 readings of an acknowledge) the count is the fuel.  Buffers have the sizes of the code (253 bytes of PDU, 256 of RTU frame, 260 of TCP frame, 512 of Bluetooth frame) and
  the theorems about them hold for all contents.

  \<^bold>\<open>Parameters.\<close>  The flash driver (the outcome of each write), sockets (bytes received, acceptance of sends), the serial line,
  clocks (that of the ring log in \<open>env_log_s\<close>), and locks held by another task are arguments of the definitions; so are the driver of the firmware update, the pages of the web server
  and the readings of other modules they show, the texts of failed calls in answers to text commands, and the pins of the I2C bus.

  \<^bold>\<open>Concurrency.\<close>  The snapshot cell and the point bits are verified under interleaving, the mailbox of the storage task and the update
  session under any order of calls.  Every other operation is modelled as one step, as the code runs them
  under one lock or from one task; contention shows as a parameter where the code uses a try-lock.  A web request is one step except while it
  waits for the storage task; an upload of the web page runs alone in \<open>Web_Upload\<close>, while \<open>Ota\<close> covers calls from other clients.  A callback of the
  radio and a pass of the expander worker read the clock once.

  \<^bold>\<open>Not modelled.\<close>  Log output; the bindings to ESP-IDF (radio stack, drivers, sockets, tasks); the compiler's memory ordering (atomics are
  sequentially consistent); poisoned mutexes, since the firmware aborts on a panic; waiting for the lock of the I2C pins; and the start-up code,
  the tag image, the network drivers and the reporting modules, which the manifest lists one by one.
\<close>

section \<open>The Modbus server over the register map\<close>

text \<open>C1: The server refines its specification.  For every request on every well-formed state, the
  response bytes and the new state are those of the abstract server, which validates the request,
  performs the addressed reads one by one or the write, and frames the answer or the exception; the
  response has between 2 and 253 bytes and the state stays well formed.  A function code that the server does not know
  changes the state too: it leaves an entry in the ring log that function 04 shows.\<close>

theorem modbus_server_refines:
  assumes "bus_wf s" and "length out = 253" and "handle_pdu bus_backend s func pdu out = (n, out', s')"
  shows "(take n out', s') = serve_pdu bus_backend bus_view s func pdu \<and> length out' = 253 \<and>
    2 \<le> n \<and> n \<le> 253 \<and> bus_wf s'"
  using bus.handle_pdu_refines [OF assms] by simp

theorem modbus_server_refines_witness:
  "\<exists>n out' s'. handle_pdu bus_backend (bus_start env_idle) 6 [0, 0, 0, 7] (replicate 253 0) = (n, out', s') \<and>
     take n out' = [6, 0, 0, 0, 7] \<and> sn_control_words (bus_storage s') ! 0 = 7"
proof -
  obtain n out' s' where run: "handle_pdu bus_backend (bus_start env_idle) 6 [0, 0, 0, 7] (replicate 253 0) = (n, out', s')"
    by (rule prod_cases3)
  have spec: "serve_pdu bus_backend bus_view (bus_start env_idle) 6 [0, 0, 0, 7] = (take n out', s')"
    using modbus_server_refines [OF bus_wf_idle _ run] by simp
  have parse: "pdu_request 6 [0, 0, 0, 7] = Inr (WriteReg 0 7)"
    by (simp add: pdu_request_def be16_def)
  have reg: "write_hold_reg 0 7 (bus_start env_idle) =
      (True, bus_control_written 0 7 (write_control_word 0 7 (bus_start env_idle)))"
    by (simp add: write_hold_reg_def write_hold_reg_locked_def range_defs is_ble_name_hold_addr_def)
  have "take n out' = [6, 0, 0, 0, 7]" "s' = bus_control_written 0 7 (write_control_word 0 7 (bus_start env_idle))"
    using spec by (simp_all add: serve_pdu_def parse bus_backend_def reg ack_body_def respond_def
        be_bytes_def hi8_def lo8_def)
  then show ?thesis
    using run by (simp add: bus_control_written_def write_control_word_def mark_legacy_io_dirty_def
        mark_storage_mutated_def publish_storage_def sync_proto_status_def bus_start_def storage_new_def)
qed

end
